(* ===== verification/Prelude.thy ===== *)
theory Prelude
  imports Main "HOL-Library.Word" "HOL-Library.List_Lexorder" "HOL-Library.Char_ord"
begin

text \<open>
  Shared vocabulary of the development: the type of byte strings, results as sums with the
  error on the left, Rust's \<open>str::split\<close>, \<open>join\<close>, \<open>starts_with\<close> and \<open>ends_with\<close>, the ASCII
  character classes, and the list lemmas that several components use.

  A Rust \<open>String\<close> is modelled by the list of its UTF-8 bytes, so \<open>length\<close> is \<open>len()\<close> and
  the order on strings is Rust's byte-wise order.
\<close>

named_theorems res_simps \<open>unfolding of the result combinators\<close>
named_theorems str_simps \<open>string helpers that are unfolded in component proofs\<close>

type_synonym bytes = "8 word list"

section \<open>Results\<close>

text \<open>\<open>Result<T, E>\<close> is \<open>'e + 'a\<close> with \<open>Err\<close> on the left; \<open>res_bind\<close> is the \<open>?\<close> operator.\<close>

definition res_bind :: "'e + 'a \<Rightarrow> ('a \<Rightarrow> 'e + 'b) \<Rightarrow> 'e + 'b" where
  "res_bind m f = (case m of Inl e \<Rightarrow> Inl e | Inr x \<Rightarrow> f x)"

lemma res_bind_simps [simp, code, res_simps]:
  "res_bind (Inl e) f = Inl e"
  "res_bind (Inr x) f = f x"
  by (simp_all add: res_bind_def)

lemma res_bind_cong [fundef_cong]:
  assumes "m = m'" and "\<And>x. m' = Inr x \<Longrightarrow> f x = g x"
  shows "res_bind m f = res_bind m' g"
  using assms by (cases m') auto

lemma res_bind_eq_Inr_iff:
  "res_bind m f = Inr y \<longleftrightarrow> (\<exists>x. m = Inr x \<and> f x = Inr y)"
  by (cases m) auto

lemma res_bind_eq_Inl_iff:
  "res_bind m f = Inl e \<longleftrightarrow> m = Inl e \<or> (\<exists>x. m = Inr x \<and> f x = Inl e)"
  by (cases m) auto

lemma res_bind_Inr_E:
  assumes "res_bind m f = Inr y"
  obtains x where "m = Inr x" "f x = Inr y"
  using assms by (auto simp: res_bind_eq_Inr_iff)

text \<open>\<open>Result::ok_or\<close> and \<open>is_ok\<close>.\<close>

definition of_option :: "'e \<Rightarrow> 'a option \<Rightarrow> 'e + 'a" where
  "of_option e x = (case x of None \<Rightarrow> Inl e | Some y \<Rightarrow> Inr y)"

definition is_ok :: "'e + 'a \<Rightarrow> bool" where
  "is_ok r = (case r of Inl _ \<Rightarrow> False | Inr _ \<Rightarrow> True)"

lemma of_option_simps [simp]:
  "of_option e None = Inl e" "of_option e (Some x) = Inr x"
  by (simp_all add: of_option_def)

lemma is_ok_simps [simp]: "is_ok (Inr x)" "\<not> is_ok (Inl e)"
  by (simp_all add: is_ok_def)

lemma is_ok_iff: "is_ok r \<longleftrightarrow> (\<exists>x. r = Inr x)"
  by (cases r) auto

text \<open>Running a fallible function over a list stops at the first error, as \<open>?\<close> in a loop does.\<close>

fun res_map :: "('a \<Rightarrow> 'e + 'b) \<Rightarrow> 'a list \<Rightarrow> 'e + 'b list" where
  "res_map f [] = Inr []"
| "res_map f (x # xs) = res_bind (f x) (\<lambda>y. res_bind (res_map f xs) (\<lambda>ys. Inr (y # ys)))"

fun res_fold :: "('a \<Rightarrow> 's \<Rightarrow> 'e + 's) \<Rightarrow> 'a list \<Rightarrow> 's \<Rightarrow> 'e + 's" where
  "res_fold f [] s = Inr s"
| "res_fold f (x # xs) s = res_bind (f x s) (\<lambda>s'. res_fold f xs s')"

text \<open>Statements that hold with enough fuel.\<close>

lemma enough_fuel_mono:
  fixes P Q :: "nat \<Rightarrow> 'a \<Rightarrow> bool"
  assumes "\<exists>N. \<forall>n\<ge>N. \<exists>d. P n d" "\<And>n d. P n d \<Longrightarrow> Q n d"
  shows "\<exists>N. \<forall>n\<ge>N. \<exists>d. Q n d"
  using assms by meson

lemma enough_fuel_step:
  fixes P :: "nat \<Rightarrow> 'a \<Rightarrow> bool" and Q :: "nat \<Rightarrow> 'b \<Rightarrow> bool"
  assumes "\<exists>N. \<forall>n\<ge>N. \<exists>d. P n d" "\<And>n d. P n d \<Longrightarrow> \<exists>e. Q n e"
  shows "\<exists>N. \<forall>n\<ge>N. \<exists>e. Q n e"
  using assms by meson

lemma res_map_cong [fundef_cong]:
  assumes "xs = ys" and "\<And>x. x \<in> set ys \<Longrightarrow> f x = g x"
  shows "res_map f xs = res_map g ys"
  unfolding assms(1) using assms(2) by (induction ys) auto

lemma res_map_Inr: "(\<And>x. x \<in> set xs \<Longrightarrow> f x = Inr (g x)) \<Longrightarrow> res_map f xs = Inr (map g xs)"
  by (induction xs) auto

lemma res_map_append:
  "res_map f (xs @ ys) = res_bind (res_map f xs) (\<lambda>us. res_bind (res_map f ys) (\<lambda>vs. Inr (us @ vs)))"
proof (induction xs)
  case Nil
  then show ?case by (cases "res_map f ys") auto
next
  case (Cons x xs)
  then show ?case
    by (cases "f x"; cases "res_map f xs"; cases "res_map f ys") auto
qed

lemma res_fold_append:
  "res_fold f (xs @ ys) s = res_bind (res_fold f xs s) (res_fold f ys)"
proof (induction xs arbitrary: s)
  case (Cons x xs)
  then show ?case by (cases "f x s") auto
qed simp

section \<open>Strings\<close>

definition starts_with :: "string \<Rightarrow> string \<Rightarrow> bool" where
  "starts_with s p \<longleftrightarrow> take (length p) s = p"

definition ends_with :: "string \<Rightarrow> string \<Rightarrow> bool" where
  "ends_with s p \<longleftrightarrow> length p \<le> length s \<and> drop (length s - length p) s = p"

lemma starts_with_iff: "starts_with s p \<longleftrightarrow> (\<exists>t. s = p @ t)"
  by (auto simp: starts_with_def) (metis append_take_drop_id)

lemma ends_with_iff: "ends_with s p \<longleftrightarrow> (\<exists>t. s = t @ p)"
proof
  assume "ends_with s p"
  then show "\<exists>t. s = t @ p"
    unfolding ends_with_def by (metis append_take_drop_id)
qed (auto simp: ends_with_def)

lemma ends_with_char: "ends_with s [c] \<longleftrightarrow> s \<noteq> [] \<and> last s = c"
  by (auto simp: ends_with_iff) (metis append_butlast_last_id)

lemma starts_with_char: "starts_with s [c] \<longleftrightarrow> s \<noteq> [] \<and> hd s = c"
  by (auto simp: starts_with_iff) (metis list.exhaust_sel)

text \<open>\<open>str::split\<close> with a one-character separator: always at least one part.\<close>

fun split_on :: "char \<Rightarrow> string \<Rightarrow> string list" where
  "split_on c [] = [[]]"
| "split_on c (x # xs) =
     (if x = c then [] # split_on c xs
      else case split_on c xs of [] \<Rightarrow> [[x]] | p # ps \<Rightarrow> (x # p) # ps)"

text \<open>\<open>[String]::join\<close>.\<close>

fun join :: "string \<Rightarrow> string list \<Rightarrow> string" where
  "join sep [] = []"
| "join sep [p] = p"
| "join sep (p # ps) = p @ sep @ join sep ps"

lemma split_on_nonempty [simp]: "split_on c s \<noteq> []"
  by (induction c s rule: split_on.induct) (auto split: list.splits)

lemma split_on_obtain:
  obtains p ps where "split_on c s = p # ps"
  using split_on_nonempty[of c s] by (cases "split_on c s") auto

lemma join_Cons: "ps \<noteq> [] \<Longrightarrow> join sep (p # ps) = p @ sep @ join sep ps"
  by (cases ps) auto

lemma join_split_on: "join [c] (split_on c s) = s"
proof (induction c s rule: split_on.induct)
  case (2 c x xs)
  obtain p ps where "split_on c xs = p # ps" by (rule split_on_obtain)
  with 2 show ?case by (cases ps) (auto simp: join_Cons)
qed simp

lemma split_on_no_sep: "c \<notin> set s \<Longrightarrow> split_on c s = [s]"
  by (induction c s rule: split_on.induct) auto

lemma split_on_append_sep:
  "c \<notin> set p \<Longrightarrow> split_on c (p @ c # s) = p # split_on c s"
  by (induction p) auto

lemma split_on_parts: "p \<in> set (split_on c s) \<Longrightarrow> c \<notin> set p"
proof (induction c s arbitrary: p rule: split_on.induct)
  case (2 c x xs)
  obtain q qs where q: "split_on c xs = q # qs" by (rule split_on_obtain)
  show ?case
  proof (cases "x = c")
    case True
    with 2 q show ?thesis by auto
  next
    case False
    with 2(3) q have "p = x # q \<or> p \<in> set qs" by auto
    with 2(2)[OF False] q False show ?thesis by auto
  qed
qed simp

lemma split_on_join:
  "ps \<noteq> [] \<Longrightarrow> (\<And>p. p \<in> set ps \<Longrightarrow> c \<notin> set p) \<Longrightarrow> split_on c (join [c] ps) = ps"
proof (induction "[c]" ps rule: join.induct)
  case (3 p q qs)
  then show ?case by (simp add: split_on_append_sep)
qed (simp_all add: split_on_no_sep)

lemma set_join_subset: "set (join sep ps) \<subseteq> set sep \<union> \<Union> (set (map set ps))"
  by (induction sep ps rule: join.induct) auto

lemma split_on_set: "x \<in> set p \<Longrightarrow> p \<in> set (split_on c s) \<Longrightarrow> x \<in> set s"
proof (induction c s arbitrary: p rule: split_on.induct)
  case (2 c y ys)
  obtain q qs where q: "split_on c ys = q # qs" by (rule split_on_obtain)
  with 2 show ?case by (fastforce split: if_splits)
qed simp

lemma length_split_on: "length (split_on c s) = Suc (count_list s c)"
proof (induction c s rule: split_on.induct)
  case (2 c x xs)
  obtain p ps where "split_on c xs = p # ps" by (rule split_on_obtain)
  with 2 show ?case by auto
qed simp

section \<open>ASCII classes\<close>

definition in_range :: "char \<Rightarrow> char \<Rightarrow> char \<Rightarrow> bool" where
  "in_range lo hi c \<longleftrightarrow> lo \<le> c \<and> c \<le> hi"

definition is_ascii_lowercase :: "char \<Rightarrow> bool" where
  "is_ascii_lowercase = in_range CHR ''a'' CHR ''z''"

definition is_ascii_uppercase :: "char \<Rightarrow> bool" where
  "is_ascii_uppercase = in_range CHR ''A'' CHR ''Z''"

definition is_ascii_digit :: "char \<Rightarrow> bool" where
  "is_ascii_digit = in_range CHR ''0'' CHR ''9''"

definition is_ascii_alphabetic :: "char \<Rightarrow> bool" where
  "is_ascii_alphabetic c \<longleftrightarrow> is_ascii_lowercase c \<or> is_ascii_uppercase c"

definition is_ascii_alphanumeric :: "char \<Rightarrow> bool" where
  "is_ascii_alphanumeric c \<longleftrightarrow> is_ascii_alphabetic c \<or> is_ascii_digit c"

definition to_ascii_lowercase :: "char \<Rightarrow> char" where
  "to_ascii_lowercase c = (if is_ascii_uppercase c then char_of (of_char c + 32 :: nat) else c)"

lemmas ascii_defs = in_range_def is_ascii_lowercase_def is_ascii_uppercase_def is_ascii_digit_def
  is_ascii_alphabetic_def is_ascii_alphanumeric_def

lemma char_le_of_char: "(c :: char) \<le> d \<longleftrightarrow> (of_char c :: nat) \<le> of_char d"
  by (rule less_eq_char_def)

lemma lower_not_upper: "is_ascii_lowercase c \<Longrightarrow> \<not> is_ascii_uppercase c"
  by (auto simp: ascii_defs char_le_of_char)

lemma upper_not_lower: "is_ascii_uppercase c \<Longrightarrow> \<not> is_ascii_lowercase c"
  by (auto simp: ascii_defs char_le_of_char)

lemma digit_not_alphabetic: "is_ascii_digit c \<Longrightarrow> \<not> is_ascii_alphabetic c"
  by (auto simp: ascii_defs char_le_of_char)

lemma alphanumeric_not_punct:
  "\<not> is_ascii_alphanumeric CHR ''.''" "\<not> is_ascii_alphanumeric CHR ''-''"
  "\<not> is_ascii_alphanumeric CHR '':''" "\<not> is_ascii_alphanumeric CHR ''/''"
  "\<not> is_ascii_alphanumeric CHR ''%''" "\<not> is_ascii_alphanumeric CHR ''_''"
  by (auto simp: ascii_defs char_le_of_char)

section \<open>Sorted key lists\<close>

text \<open>
  The contents of an ordered container are a list of key-value pairs with strictly increasing
  keys. Inserting, replacing and removing a key are described by what they keep.
\<close>

definition ksorted :: "('k::linorder \<times> 'v) list \<Rightarrow> bool" where
  "ksorted xs \<longleftrightarrow> sorted_wrt (<) (map fst xs)"

definition kbelow :: "'k::linorder \<Rightarrow> ('k \<times> 'v) list \<Rightarrow> ('k \<times> 'v) list" where
  "kbelow k xs = filter (\<lambda>p. fst p < k) xs"

definition kabove :: "'k::linorder \<Rightarrow> ('k \<times> 'v) list \<Rightarrow> ('k \<times> 'v) list" where
  "kabove k xs = filter (\<lambda>p. k < fst p) xs"

definition kfrom :: "'k::linorder \<Rightarrow> ('k \<times> 'v) list \<Rightarrow> ('k \<times> 'v) list" where
  "kfrom k xs = filter (\<lambda>p. k \<le> fst p) xs"

definition kinsert :: "'k::linorder \<Rightarrow> 'v \<Rightarrow> ('k \<times> 'v) list \<Rightarrow> ('k \<times> 'v) list" where
  "kinsert k v xs = kbelow k xs @ (k, v) # kabove k xs"

definition kdelete :: "'k::linorder \<Rightarrow> ('k \<times> 'v) list \<Rightarrow> ('k \<times> 'v) list" where
  "kdelete k xs = filter (\<lambda>p. fst p \<noteq> k) xs"

lemma ksorted_Nil [simp]: "ksorted []"
  by (simp add: ksorted_def)

lemma ksorted_Cons: "ksorted (p # xs) \<longleftrightarrow> (\<forall>q\<in>set xs. fst p < fst q) \<and> ksorted xs"
  by (simp add: ksorted_def)

lemma ksorted_append:
  "ksorted (xs @ ys) \<longleftrightarrow> ksorted xs \<and> ksorted ys \<and> (\<forall>p\<in>set xs. \<forall>q\<in>set ys. fst p < fst q)"
  by (auto simp: ksorted_def sorted_wrt_append)

lemma ksorted_filter: "ksorted xs \<Longrightarrow> ksorted (filter P xs)"
  by (induction xs) (auto simp: ksorted_Cons)

lemma ksorted_distinct: "ksorted xs \<Longrightarrow> distinct (map fst xs)"
  by (induction xs) (force simp: ksorted_Cons)+

lemma kbelow_all: "(\<And>p. p \<in> set xs \<Longrightarrow> fst p < k) \<Longrightarrow> kbelow k xs = xs"
  by (simp add: kbelow_def filter_id_conv)

lemma kbelow_none: "(\<And>p. p \<in> set xs \<Longrightarrow> k \<le> fst p) \<Longrightarrow> kbelow k xs = []"
  by (auto simp: kbelow_def filter_empty_conv leD)

lemma kabove_all: "(\<And>p. p \<in> set xs \<Longrightarrow> k < fst p) \<Longrightarrow> kabove k xs = xs"
  by (simp add: kabove_def filter_id_conv)

lemma kabove_none: "(\<And>p. p \<in> set xs \<Longrightarrow> fst p \<le> k) \<Longrightarrow> kabove k xs = []"
  by (auto simp: kabove_def filter_empty_conv leD)

lemma k_Nil [simp]: "kbelow k [] = []" "kabove k [] = []" "kfrom k [] = []" "kdelete k [] = []"
  by (simp_all add: kbelow_def kabove_def kfrom_def kdelete_def)

lemma kbelow_append [simp]: "kbelow k (xs @ ys) = kbelow k xs @ kbelow k ys"
  by (simp add: kbelow_def)

lemma kabove_append [simp]: "kabove k (xs @ ys) = kabove k xs @ kabove k ys"
  by (simp add: kabove_def)

lemma kfrom_append [simp]: "kfrom k (xs @ ys) = kfrom k xs @ kfrom k ys"
  by (simp add: kfrom_def)

lemma kfrom_all: "(\<And>p. p \<in> set xs \<Longrightarrow> k \<le> fst p) \<Longrightarrow> kfrom k xs = xs"
  by (simp add: kfrom_def filter_id_conv)

lemma kfrom_none: "(\<And>p. p \<in> set xs \<Longrightarrow> fst p < k) \<Longrightarrow> kfrom k xs = []"
  by (simp add: kfrom_def filter_empty_conv not_le)

lemma kfrom_absent: "k \<notin> fst ` set xs \<Longrightarrow> kfrom k xs = kabove k xs"
  unfolding kfrom_def kabove_def by (rule filter_cong) (auto simp: order.order_iff_strict)

lemma kdelete_append [simp]: "kdelete k (xs @ ys) = kdelete k xs @ kdelete k ys"
  by (simp add: kdelete_def)

lemma kdelete_absent: "k \<notin> fst ` set xs \<Longrightarrow> kdelete k xs = xs"
  by (auto simp: kdelete_def filter_id_conv)

lemma set_kbelow: "set (kbelow k xs) = {p \<in> set xs. fst p < k}"
  by (simp add: kbelow_def)

lemma set_kabove: "set (kabove k xs) = {p \<in> set xs. k < fst p}"
  by (simp add: kabove_def)

lemma keys_kinsert: "fst ` set (kinsert k v xs) = insert k (fst ` set xs)"
proof -
  have "p \<in> set xs \<Longrightarrow> fst p = k \<or> fst p < k \<or> k < fst p" for p by auto
  then show ?thesis by (auto simp: kinsert_def set_kbelow set_kabove image_iff)
qed

lemma ksorted_kinsert: "ksorted xs \<Longrightarrow> ksorted (kinsert k v xs)"
  by (auto simp: kinsert_def ksorted_append ksorted_Cons kbelow_def kabove_def ksorted_filter)

lemma ksorted_kdelete: "ksorted xs \<Longrightarrow> ksorted (kdelete k xs)"
  by (simp add: kdelete_def ksorted_filter)

lemma map_of_filter_key:
  "map_of (filter (\<lambda>p. P (fst p)) xs) k = (if P k then map_of xs k else None)"
  by (induction xs) auto

lemma map_of_kinsert: "map_of (kinsert k v xs) = (map_of xs)(k \<mapsto> v)"
proof
  fix j
  have b: "map_of (kbelow k xs) j = (if j < k then map_of xs j else None)"
    unfolding kbelow_def by (rule map_of_filter_key)
  have a: "map_of (kabove k xs) j = (if k < j then map_of xs j else None)"
    unfolding kabove_def by (rule map_of_filter_key)
  show "map_of (kinsert k v xs) j = ((map_of xs)(k \<mapsto> v)) j"
    using a b by (auto simp: kinsert_def map_add_def split: option.splits)
qed

lemma map_of_kdelete: "map_of (kdelete k xs) = (map_of xs)(k := None)"
proof
  fix j
  have "map_of (kdelete k xs) j = (if j \<noteq> k then map_of xs j else None)"
    unfolding kdelete_def by (rule map_of_filter_key)
  then show "map_of (kdelete k xs) j = ((map_of xs)(k := None)) j" by auto
qed

lemma ksorted_map_of_eq:
  assumes "ksorted xs" and "ksorted ys" and "map_of xs = map_of ys"
  shows "xs = ys"
proof (rule map_sorted_distinct_set_unique [where f = fst])
  have d: "distinct (map fst xs)" "distinct (map fst ys)"
    using assms by (auto simp: ksorted_distinct)
  then show s: "set xs = set ys"
    using assms(3) by (simp add: map_of_inject_set)
  show "inj_on fst (set xs \<union> set ys)"
    using d s by (simp add: distinct_map)
  show "sorted (map fst xs)" "sorted (map fst ys)"
    using assms by (auto simp: ksorted_def strict_sorted_iff)
qed (use assms in \<open>auto simp: ksorted_distinct\<close>)

section \<open>Invariants across interruptions\<close>

text \<open>
  What work that may be cut short at any point offers: an invariant that every move keeps. It then holds in every state
  that moves lead to, and whatever a complete run gives from a state with the invariant it gives there.
\<close>

locale interruptible =
  fixes inv :: "'s \<Rightarrow> bool" and move :: "'s \<Rightarrow> 's \<Rightarrow> bool"
  assumes kept: "move s s' \<Longrightarrow> inv s \<Longrightarrow> inv s'"
begin

lemma reached: "move\<^sup>*\<^sup>* s s' \<Longrightarrow> inv s \<Longrightarrow> inv s'"
  by (induction rule: rtranclp_induct) (blast intro: kept)+

lemma completes: "move\<^sup>*\<^sup>* s s' \<Longrightarrow> inv s \<Longrightarrow> (\<And>s. inv s \<Longrightarrow> P s) \<Longrightarrow> P s'"
  using reached by blast

end

end
