(* ===== verification/Regex.thy ===== *)
theory Regex
  imports Prelude
begin

text \<open>
  The regular expressions the validators use, as data, and what it means to match one. The
  \<open>regex\<close> crate is not part of the repository: a matcher is a parameter \<open>im\<close> of the
  definitions that call \<open>Regex::is_match\<close>, and the locale \<open>regex_engine\<close> states the one
  fact they rely on, that the engine decides the language the pattern denotes. A
  derivative-based matcher shows that the interface can be met.

  All patterns of the validators are anchored at both ends, or only at the start (then the
  pattern is continued by \<open>Star AnyC\<close>), so matching is membership of the whole string.
\<close>

section \<open>Expressions and their languages\<close>

datatype rexp =
    Zero
  | One
  | Cls "char \<Rightarrow> bool"
  | Alt rexp rexp
  | Seq rexp rexp
  | Star rexp

inductive_set star :: "string set \<Rightarrow> string set" for A :: "string set" where
  star_Nil: "[] \<in> star A"
| star_append: "u \<in> A \<Longrightarrow> v \<in> star A \<Longrightarrow> u @ v \<in> star A"

primrec lang :: "rexp \<Rightarrow> string set" where
  "lang Zero = {}"
| "lang One = {[]}"
| "lang (Cls p) = {[c] | c. p c}"
| "lang (Alt r s) = lang r \<union> lang s"
| "lang (Seq r s) = {u @ v | u v. u \<in> lang r \<and> v \<in> lang s}"
| "lang (Star r) = star (lang r)"

text \<open>Derived forms: \<open>r+\<close>, \<open>r?\<close>, \<open>r{n}\<close>, \<open>r{0,n}\<close>, a literal, any character.\<close>

definition Plus1 :: "rexp \<Rightarrow> rexp" where
  "Plus1 r = Seq r (Star r)"

definition Opt :: "rexp \<Rightarrow> rexp" where
  "Opt r = Alt One r"

primrec Rep :: "rexp \<Rightarrow> nat \<Rightarrow> rexp" where
  "Rep r 0 = One"
| "Rep r (Suc n) = Seq r (Rep r n)"

primrec UpTo :: "rexp \<Rightarrow> nat \<Rightarrow> rexp" where
  "UpTo r 0 = One"
| "UpTo r (Suc n) = Opt (Seq r (UpTo r n))"

definition Chr :: "char \<Rightarrow> rexp" where
  "Chr c = Cls (\<lambda>x. x = c)"

definition AnyC :: rexp where
  "AnyC = Cls (\<lambda>_. True)"

primrec Lit :: "string \<Rightarrow> rexp" where
  "Lit [] = One"
| "Lit (c # cs) = Seq (Chr c) (Lit cs)"

section \<open>Membership of the derived forms\<close>

lemma in_Seq: "s \<in> lang (Seq r q) \<longleftrightarrow> (\<exists>u v. s = u @ v \<and> u \<in> lang r \<and> v \<in> lang q)"
  by auto

lemma in_Seq_Cls: "s \<in> lang (Seq (Cls p) r) \<longleftrightarrow> (\<exists>c t. s = c # t \<and> p c \<and> t \<in> lang r)"
proof
  assume "s \<in> lang (Seq (Cls p) r)"
  then obtain u v where "s = u @ v" "u \<in> lang (Cls p)" "v \<in> lang r" by auto
  then show "\<exists>c t. s = c # t \<and> p c \<and> t \<in> lang r" by auto
next
  assume "\<exists>c t. s = c # t \<and> p c \<and> t \<in> lang r"
  then obtain c t where "s = [c] @ t" "[c] \<in> lang (Cls p)" "t \<in> lang r" by auto
  then show "s \<in> lang (Seq (Cls p) r)" unfolding lang.simps by blast
qed

lemma in_Star_Cls: "s \<in> lang (Star (Cls p)) \<longleftrightarrow> (\<forall>c\<in>set s. p c)"
proof
  have "s \<in> star {[c] | c. p c} \<Longrightarrow> \<forall>c\<in>set s. p c"
    by (induction rule: star.induct) auto
  then show "s \<in> lang (Star (Cls p)) \<Longrightarrow> \<forall>c\<in>set s. p c" by simp
next
  have "\<forall>c\<in>set s. p c \<Longrightarrow> s \<in> star {[c] | c. p c}"
  proof (induction s)
    case (Cons c s)
    then show ?case using star_append[of "[c]" "{[c] | c. p c}" s] by auto
  qed (rule star_Nil)
  then show "\<forall>c\<in>set s. p c \<Longrightarrow> s \<in> lang (Star (Cls p))" by simp
qed

lemma in_Plus1_Cls: "s \<in> lang (Plus1 (Cls p)) \<longleftrightarrow> s \<noteq> [] \<and> (\<forall>c\<in>set s. p c)"
  unfolding Plus1_def in_Seq_Cls in_Star_Cls by (cases s) auto

lemma in_Rep_Cls: "s \<in> lang (Rep (Cls p) n) \<longleftrightarrow> length s = n \<and> (\<forall>c\<in>set s. p c)"
proof (induction n arbitrary: s)
  case (Suc n)
  have "s \<in> lang (Rep (Cls p) (Suc n)) \<longleftrightarrow> (\<exists>c t. s = c # t \<and> p c \<and> t \<in> lang (Rep (Cls p) n))"
    using in_Seq_Cls[of s p "Rep (Cls p) n"] by simp
  also have "\<dots> \<longleftrightarrow> length s = Suc n \<and> (\<forall>c\<in>set s. p c)"
    unfolding Suc.IH by (cases s) auto
  finally show ?case .
qed auto

lemma in_UpTo_Cls: "s \<in> lang (UpTo (Cls p) n) \<longleftrightarrow> length s \<le> n \<and> (\<forall>c\<in>set s. p c)"
proof (induction n arbitrary: s)
  case (Suc n)
  have "s \<in> lang (UpTo (Cls p) (Suc n)) \<longleftrightarrow>
      s = [] \<or> (\<exists>c t. s = c # t \<and> p c \<and> t \<in> lang (UpTo (Cls p) n))"
    using in_Seq_Cls[of s p "UpTo (Cls p) n"] by (simp add: Opt_def)
  also have "\<dots> \<longleftrightarrow> length s \<le> Suc n \<and> (\<forall>c\<in>set s. p c)"
    unfolding Suc.IH by (cases s) auto
  finally show ?case .
qed auto

lemma in_Lit: "s \<in> lang (Lit w) \<longleftrightarrow> s = w"
  by (induction w arbitrary: s) (auto simp: Chr_def)

lemma in_Seq_Lit: "s \<in> lang (Seq (Lit w) r) \<longleftrightarrow> (\<exists>t. s = w @ t \<and> t \<in> lang r)"
  by (auto simp: in_Lit)

lemma in_Opt: "s \<in> lang (Opt r) \<longleftrightarrow> s = [] \<or> s \<in> lang r"
  by (simp add: Opt_def)

lemma in_Seq_snoc_Cls: "s \<in> lang (Seq r (Cls p)) \<longleftrightarrow> (\<exists>c t. s = t @ [c] \<and> p c \<and> t \<in> lang r)"
proof
  assume "s \<in> lang (Seq r (Cls p))"
  then obtain u v where "s = u @ v" "u \<in> lang r" "v \<in> lang (Cls p)" by auto
  then show "\<exists>c t. s = t @ [c] \<and> p c \<and> t \<in> lang r" by auto
next
  assume "\<exists>c t. s = t @ [c] \<and> p c \<and> t \<in> lang r"
  then obtain c t where "s = t @ [c]" "[c] \<in> lang (Cls p)" "t \<in> lang r" by auto
  then show "s \<in> lang (Seq r (Cls p))" unfolding lang.simps by blast
qed

section \<open>Separated lists\<close>

text \<open>
  The languages of dotted names: a word of \<open>(r .)* t\<close> is read by splitting at the
  separator, as long as neither \<open>r\<close> nor \<open>t\<close> has a word with the separator in it.
\<close>

lemma in_star_terminated:
  "s \<in> star {w @ [c] | w. w \<in> A} \<longleftrightarrow> (\<exists>ws. s = concat (map (\<lambda>w. w @ [c]) ws) \<and> set ws \<subseteq> A)"
proof
  show "s \<in> star {w @ [c] | w. w \<in> A} \<Longrightarrow> \<exists>ws. s = concat (map (\<lambda>w. w @ [c]) ws) \<and> set ws \<subseteq> A"
  proof (induction rule: star.induct)
    case star_Nil
    show ?case by (rule exI[of _ "[]"]) simp
  next
    case (star_append u v)
    then obtain w ws where "u = w @ [c]" "w \<in> A" "v = concat (map (\<lambda>w. w @ [c]) ws)" "set ws \<subseteq> A"
      by auto
    then show ?case by (intro exI[of _ "w # ws"]) simp
  qed
next
  have "set ws \<subseteq> A \<Longrightarrow> concat (map (\<lambda>w. w @ [c]) ws) \<in> star {w @ [c] | w. w \<in> A}" for ws
  proof (induction ws)
    case (Cons w ws)
    then show ?case
      using star_append[of "w @ [c]" "{w @ [c] | w. w \<in> A}"] by auto
  qed (simp add: star_Nil)
  then show "\<exists>ws. s = concat (map (\<lambda>w. w @ [c]) ws) \<and> set ws \<subseteq> A \<Longrightarrow> s \<in> star {w @ [c] | w. w \<in> A}"
    by blast
qed

lemma in_star_led:
  "s \<in> star {c # w | w. w \<in> A} \<longleftrightarrow> (\<exists>ws. s = concat (map (\<lambda>w. c # w) ws) \<and> set ws \<subseteq> A)"
proof
  show "s \<in> star {c # w | w. w \<in> A} \<Longrightarrow> \<exists>ws. s = concat (map (\<lambda>w. c # w) ws) \<and> set ws \<subseteq> A"
  proof (induction rule: star.induct)
    case star_Nil
    show ?case by (rule exI[of _ "[]"]) simp
  next
    case (star_append u v)
    then obtain w ws where "u = c # w" "w \<in> A" "v = concat (map (\<lambda>w. c # w) ws)" "set ws \<subseteq> A"
      by auto
    then show ?case by (intro exI[of _ "w # ws"]) simp
  qed
next
  have "set ws \<subseteq> A \<Longrightarrow> concat (map (\<lambda>w. c # w) ws) \<in> star {c # w | w. w \<in> A}" for ws
  proof (induction ws)
    case (Cons w ws)
    then show ?case
      using star_append[of "c # w" "{c # w | w. w \<in> A}"] by auto
  qed (simp add: star_Nil)
  then show "\<exists>ws. s = concat (map (\<lambda>w. c # w) ws) \<and> set ws \<subseteq> A \<Longrightarrow> s \<in> star {c # w | w. w \<in> A}"
    by blast
qed

lemma concat_terminated_join:
  "concat (map (\<lambda>w. w @ [c]) ws) @ x = join [c] (ws @ [x])"
  by (induction ws) (auto simp: join_Cons)

lemma concat_led_join:
  "x @ concat (map (\<lambda>w. c # w) ws) = join [c] (x # ws)"
proof (induction ws arbitrary: x)
  case (Cons w ws)
  have "concat (map (\<lambda>w. c # w) (w # ws)) = c # join [c] (w # ws)"
    using Cons.IH[of w] by simp
  then show ?case by simp
qed simp

lemma split_on_eq_iff:
  assumes "ws \<noteq> []" and "\<And>w. w \<in> set ws \<Longrightarrow> c \<notin> set w"
  shows "split_on c s = ws \<longleftrightarrow> s = join [c] ws"
  using assms split_on_join join_split_on by metis

text \<open>\<open>(r.)+ t\<close>, the shape of a domain name, and \<open>f(.r)+.t\<close>, the shape of an NSID.\<close>

lemma ex_nonempty_list: "(\<exists>ws. ws \<noteq> [] \<and> P ws) \<longleftrightarrow> (\<exists>w ws. P (w # ws))"
  by (auto simp: neq_Nil_conv)

lemma lang_Plus1_terminated:
  "s \<in> lang (Plus1 (Seq r (Chr c))) \<longleftrightarrow>
     (\<exists>ws. ws \<noteq> [] \<and> s = concat (map (\<lambda>w. w @ [c]) ws) \<and> set ws \<subseteq> lang r)"
proof -
  have A: "lang (Seq r (Chr c)) = {w @ [c] | w. w \<in> lang r}"
    by (auto simp: Chr_def)
  have "s \<in> lang (Plus1 (Seq r (Chr c))) \<longleftrightarrow>
      (\<exists>w v. s = (w @ [c]) @ v \<and> w \<in> lang r \<and> v \<in> star {w @ [c] | w. w \<in> lang r})"
    unfolding Plus1_def in_Seq[of _ "Seq r (Chr c)"] A lang.simps(6) by blast
  also have "\<dots> \<longleftrightarrow>
      (\<exists>w ws. s = (w @ [c]) @ concat (map (\<lambda>w. w @ [c]) ws) \<and> w \<in> lang r \<and> set ws \<subseteq> lang r)"
    unfolding in_star_terminated by blast
  also have "\<dots> \<longleftrightarrow> (\<exists>ws. ws \<noteq> [] \<and> s = concat (map (\<lambda>w. w @ [c]) ws) \<and> set ws \<subseteq> lang r)"
    unfolding ex_nonempty_list by (simp add: conj_assoc)
  finally show ?thesis .
qed

lemma lang_Plus1_led:
  "s \<in> lang (Plus1 (Seq (Chr c) r)) \<longleftrightarrow>
     (\<exists>ws. ws \<noteq> [] \<and> s = concat (map (\<lambda>w. c # w) ws) \<and> set ws \<subseteq> lang r)"
proof -
  have A: "lang (Seq (Chr c) r) = {c # w | w. w \<in> lang r}"
    by (auto simp: Chr_def)
  have "s \<in> lang (Plus1 (Seq (Chr c) r)) \<longleftrightarrow>
      (\<exists>w v. s = (c # w) @ v \<and> w \<in> lang r \<and> v \<in> star {c # w | w. w \<in> lang r})"
    unfolding Plus1_def in_Seq[of _ "Seq (Chr c) r"] A lang.simps(6) by blast
  also have "\<dots> \<longleftrightarrow>
      (\<exists>w ws. s = (c # w) @ concat (map (\<lambda>w. c # w) ws) \<and> w \<in> lang r \<and> set ws \<subseteq> lang r)"
    unfolding in_star_led by blast
  also have "\<dots> \<longleftrightarrow> (\<exists>ws. ws \<noteq> [] \<and> s = concat (map (\<lambda>w. c # w) ws) \<and> set ws \<subseteq> lang r)"
    unfolding ex_nonempty_list by (simp add: conj_assoc)
  finally show ?thesis .
qed

lemma in_dotted:
  assumes r: "\<And>w. w \<in> lang r \<Longrightarrow> c \<notin> set w" and t: "\<And>w. w \<in> lang t \<Longrightarrow> c \<notin> set w"
  shows "s \<in> lang (Seq (Plus1 (Seq r (Chr c))) t) \<longleftrightarrow>
     2 \<le> length (split_on c s) \<and> set (butlast (split_on c s)) \<subseteq> lang r \<and> last (split_on c s) \<in> lang t"
    (is "_ \<longleftrightarrow> ?R")
proof -
  have "s \<in> lang (Seq (Plus1 (Seq r (Chr c))) t) \<longleftrightarrow>
      (\<exists>ws x. ws \<noteq> [] \<and> s = join [c] (ws @ [x]) \<and> set ws \<subseteq> lang r \<and> x \<in> lang t)"
    unfolding in_Seq[of _ "Plus1 (Seq r (Chr c))"] lang_Plus1_terminated
    unfolding concat_terminated_join[symmetric] by blast
  also have "\<dots> \<longleftrightarrow> (\<exists>ws x. ws \<noteq> [] \<and> split_on c s = ws @ [x] \<and> set ws \<subseteq> lang r \<and> x \<in> lang t)"
  proof -
    have "split_on c s = ws @ [x] \<longleftrightarrow> s = join [c] (ws @ [x])"
      if "set ws \<subseteq> lang r" "x \<in> lang t" for ws x
      using that r t by (intro split_on_eq_iff) auto
    then show ?thesis by metis
  qed
  also have "\<dots> \<longleftrightarrow> ?R"
    by (cases "split_on c s" rule: rev_cases) (auto simp: Suc_le_eq)
  finally show ?thesis .
qed

lemma in_dotted3:
  assumes f: "\<And>w. w \<in> lang f \<Longrightarrow> c \<notin> set w" and r: "\<And>w. w \<in> lang r \<Longrightarrow> c \<notin> set w"
    and t: "\<And>w. w \<in> lang t \<Longrightarrow> c \<notin> set w"
  shows "s \<in> lang (Seq f (Seq (Plus1 (Seq (Chr c) r)) (Seq (Chr c) t))) \<longleftrightarrow>
     3 \<le> length (split_on c s) \<and> hd (split_on c s) \<in> lang f \<and>
     set (butlast (tl (split_on c s))) \<subseteq> lang r \<and> last (split_on c s) \<in> lang t"
    (is "_ \<longleftrightarrow> ?R")
proof -
  have j: "h @ concat (map (\<lambda>w. c # w) ws) @ c # x = join [c] (h # ws @ [x])" for h ws x
    using concat_led_join[of h c "ws @ [x]"] by simp
  have "s \<in> lang (Seq f (Seq (Plus1 (Seq (Chr c) r)) (Seq (Chr c) t))) \<longleftrightarrow>
      (\<exists>h ws x. ws \<noteq> [] \<and> s = join [c] (h # ws @ [x]) \<and> h \<in> lang f \<and> set ws \<subseteq> lang r \<and> x \<in> lang t)"
  proof -
    have ct: "v \<in> lang (Seq (Chr c) t) \<longleftrightarrow> (\<exists>x. v = c # x \<and> x \<in> lang t)" for v
      unfolding Chr_def in_Seq_Cls by blast
    show ?thesis
      unfolding in_Seq[of _ f] in_Seq[of _ "Plus1 (Seq (Chr c) r)"] lang_Plus1_led ct j[symmetric]
      by blast
  qed
  also have "\<dots> \<longleftrightarrow> (\<exists>h ws x. ws \<noteq> [] \<and> split_on c s = h # ws @ [x] \<and> h \<in> lang f \<and>
      set ws \<subseteq> lang r \<and> x \<in> lang t)"
  proof -
    have "split_on c s = h # ws @ [x] \<longleftrightarrow> s = join [c] (h # ws @ [x])"
      if "h \<in> lang f" "set ws \<subseteq> lang r" "x \<in> lang t" for h ws x
      using that f r t by (intro split_on_eq_iff) auto
    then show ?thesis by metis
  qed
  also have "\<dots> \<longleftrightarrow> ?R"
  proof (cases "split_on c s")
    case (Cons h hs)
    then show ?thesis by (cases hs rule: rev_cases) (auto simp: Suc_le_eq numeral_3_eq_3)
  qed simp
  finally show ?thesis .
qed

text \<open>A label: a first character, then optionally at most \<open>n\<close> inner ones and a last one.\<close>

definition Label :: "(char \<Rightarrow> bool) \<Rightarrow> (char \<Rightarrow> bool) \<Rightarrow> nat \<Rightarrow> (char \<Rightarrow> bool) \<Rightarrow> rexp" where
  "Label f m n l = Seq (Cls f) (Opt (Seq (UpTo (Cls m) n) (Cls l)))"

lemma in_Label:
  "s \<in> lang (Label f m n l) \<longleftrightarrow>
     s \<noteq> [] \<and> f (hd s) \<and>
     (tl s = [] \<or> length s \<le> n + 2 \<and> (\<forall>c\<in>set (butlast (tl s)). m c) \<and> l (last s))"
proof (cases s)
  case (Cons c t)
  show ?thesis
    unfolding Label_def in_Seq_Cls in_Opt in_Seq_snoc_Cls in_UpTo_Cls Cons
    by (cases t rule: rev_cases) auto
qed (simp add: Label_def in_Seq_Cls)

section \<open>Derivatives\<close>

primrec nullable :: "rexp \<Rightarrow> bool" where
  "nullable Zero = False"
| "nullable One = True"
| "nullable (Cls p) = False"
| "nullable (Alt r s) = (nullable r \<or> nullable s)"
| "nullable (Seq r s) = (nullable r \<and> nullable s)"
| "nullable (Star r) = True"

primrec deriv :: "char \<Rightarrow> rexp \<Rightarrow> rexp" where
  "deriv c Zero = Zero"
| "deriv c One = Zero"
| "deriv c (Cls p) = (if p c then One else Zero)"
| "deriv c (Alt r s) = Alt (deriv c r) (deriv c s)"
| "deriv c (Seq r s) =
     (if nullable r then Alt (Seq (deriv c r) s) (deriv c s) else Seq (deriv c r) s)"
| "deriv c (Star r) = Seq (deriv c r) (Star r)"

definition rmatch :: "rexp \<Rightarrow> string \<Rightarrow> bool" where
  "rmatch r s = nullable (foldl (\<lambda>r c. deriv c r) r s)"

lemma nullable_iff: "nullable r \<longleftrightarrow> [] \<in> lang r"
  by (induction r) (auto intro: star_Nil)

lemma star_Cons: "c # s \<in> star A \<longleftrightarrow> (\<exists>u v. s = u @ v \<and> c # u \<in> A \<and> v \<in> star A)"
proof
  have "w \<in> star A \<Longrightarrow> w = c # s \<Longrightarrow> \<exists>u v. s = u @ v \<and> c # u \<in> A \<and> v \<in> star A" for w
  proof (induction arbitrary: s rule: star.induct)
    case (star_append u v)
    then show ?case by (cases u) auto
  qed simp
  then show "c # s \<in> star A \<Longrightarrow> \<exists>u v. s = u @ v \<and> c # u \<in> A \<and> v \<in> star A" by blast
next
  show "\<exists>u v. s = u @ v \<and> c # u \<in> A \<and> v \<in> star A \<Longrightarrow> c # s \<in> star A"
    using star_append by fastforce
qed

lemma lang_deriv: "s \<in> lang (deriv c r) \<longleftrightarrow> c # s \<in> lang r"
proof (induction r arbitrary: s)
  case (Seq r1 r2)
  then show ?case
    by (auto simp: nullable_iff Cons_eq_append_conv)
next
  case (Star r)
  then show ?case by (auto simp: star_Cons)
qed auto

lemma rmatch_iff: "rmatch r s \<longleftrightarrow> s \<in> lang r"
proof -
  have "nullable (foldl (\<lambda>r c. deriv c r) r s) \<longleftrightarrow> s \<in> lang r"
    by (induction s arbitrary: r) (auto simp: nullable_iff lang_deriv)
  then show ?thesis by (simp add: rmatch_def)
qed

section \<open>The interface of the regular expression engine\<close>

locale regex_engine =
  fixes im :: "rexp \<Rightarrow> string \<Rightarrow> bool"
  assumes im_iff: "im r s \<longleftrightarrow> s \<in> lang r"
begin

lemma im_Star_Cls: "im (Star (Cls p)) s \<longleftrightarrow> (\<forall>c\<in>set s. p c)"
  unfolding im_iff by (rule in_Star_Cls)

lemma im_prefix_Cls: "im (Seq (Cls p) (Star AnyC)) s \<longleftrightarrow> s \<noteq> [] \<and> p (hd s)"
  unfolding im_iff in_Seq_Cls AnyC_def in_Star_Cls by (cases s) auto

lemma im_Rep_range:
  "im (Seq (Cls p) (UpTo (Cls p) n)) s \<longleftrightarrow> s \<noteq> [] \<and> length s \<le> Suc n \<and> (\<forall>c\<in>set s. p c)"
  unfolding im_iff in_Seq_Cls in_UpTo_Cls by (cases s) auto

end

interpretation drx: regex_engine rmatch
  by unfold_locales (rule rmatch_iff)

end
