(* ===== verification/Syntax_Did.thy ===== *)
theory Syntax_Did
  imports Regex
begin

text \<open>
  \<open>rsky-syntax/src/did.rs\<close>: the two DID validators, the hand-written one and the one
  based on a single regular expression, and how far they agree.
\<close>

section \<open>Patterns\<close>

definition did_char :: "char \<Rightarrow> bool" where
  "did_char c \<longleftrightarrow> is_ascii_alphanumeric c \<or> c \<in> {CHR ''.'', CHR ''_'', CHR '':'', CHR ''%'', CHR ''-''}"

definition did_end_char :: "char \<Rightarrow> bool" where
  "did_end_char c \<longleftrightarrow> is_ascii_alphanumeric c \<or> c \<in> {CHR ''.'', CHR ''_'', CHR ''-''}"

definition DID_ASCII_CHARS_REGEX :: rexp where
  "DID_ASCII_CHARS_REGEX = Star (Cls did_char)"

definition DID_FULL_REGEX :: rexp where
  "DID_FULL_REGEX =
     Seq (Lit ''did:'')
       (Seq (Plus1 (Cls is_ascii_lowercase))
         (Seq (Lit '':'') (Seq (Star (Cls did_char)) (Cls did_end_char))))"

datatype did_error = InvalidDidError string

section \<open>Validators\<close>

definition ensure_valid_did :: "(rexp \<Rightarrow> string \<Rightarrow> bool) \<Rightarrow> string \<Rightarrow> did_error + unit" where
  "ensure_valid_did im did =
     (if \<not> starts_with did ''did:'' then
        Inl (InvalidDidError ''DID requires \"did:\" prefix'')
      else if \<not> im DID_ASCII_CHARS_REGEX did then
        Inl (InvalidDidError ''Disallowed characters in DID (ASCII letters, digits, and a couple other characters only)'')
      else let parts = split_on CHR '':'' did in
        if length parts < 3 then
          Inl (InvalidDidError ''DID requires prefix, method, and method-specific content'')
        else let method = parts ! 1 in
          if \<not> list_all is_ascii_lowercase method then
            Inl (InvalidDidError ''DID method must be lower-case letters'')
          else if ends_with did '':'' \<or> ends_with did ''%'' then
            Inl (InvalidDidError ''DID can not end with \":\" or \"%\"'')
          else if length did > 2 * 1024 then
            Inl (InvalidDidError ''DID is too long (2048 chars max)'')
          else Inr ())"

definition ensure_valid_did_regex :: "(rexp \<Rightarrow> string \<Rightarrow> bool) \<Rightarrow> string \<Rightarrow> did_error + unit" where
  "ensure_valid_did_regex im did =
     (if \<not> im DID_FULL_REGEX did then Inl (InvalidDidError ''DID didn't validate via regex'')
      else if length did > 2048 then Inl (InvalidDidError ''DID is too long (2048 chars max)'')
      else Inr ())"

section \<open>What the validators accept\<close>

lemma did_end_char_iff: "did_end_char c \<longleftrightarrow> did_char c \<and> c \<noteq> CHR '':'' \<and> c \<noteq> CHR ''%''"
  by (auto simp: did_char_def did_end_char_def alphanumeric_not_punct)

lemma split_on_Cons_eq:
  assumes "split_on c s = p # q # ps"
  shows "s = p @ c # join [c] (q # ps)"
  using join_split_on[of c s] assms by simp

lemma split_on_two:
  assumes "c \<notin> set p"
  shows "split_on c (p @ c # t) = p # split_on c t"
  using assms by (rule split_on_append_sep)

text \<open>
  The shape both validators look for: \<open>did:\<close>, a method of lower-case letters, a colon, and a
  non-empty identifier that does not end in a colon or a percent sign.
\<close>

definition did_shape :: "(string \<Rightarrow> bool) \<Rightarrow> string \<Rightarrow> bool" where
  "did_shape ok s \<longleftrightarrow>
     (\<exists>m t. s = ''did:'' @ m @ '':'' @ t \<and> ok m \<and> list_all is_ascii_lowercase m \<and>
            t \<noteq> [] \<and> list_all did_char t \<and> did_end_char (last t))"

lemma lowercase_did_char: "is_ascii_lowercase c \<Longrightarrow> did_char c \<and> c \<noteq> CHR '':''"
  using alphanumeric_not_punct(3)
  by (auto simp: did_char_def is_ascii_alphanumeric_def is_ascii_alphabetic_def)

lemma list_all_no_colon: "list_all is_ascii_lowercase m \<Longrightarrow> CHR '':'' \<notin> set m"
  using lowercase_did_char by (auto simp: list_all_iff)

lemma DID_FULL_REGEX_iff: "s \<in> lang DID_FULL_REGEX \<longleftrightarrow> did_shape (\<lambda>m. m \<noteq> []) s"
proof -
  have tail: "t \<in> lang (Seq (Star (Cls did_char)) (Cls did_end_char)) \<longleftrightarrow>
      t \<noteq> [] \<and> list_all did_char t \<and> did_end_char (last t)" for t
    unfolding in_Seq_snoc_Cls in_Star_Cls
    by (cases t rule: rev_cases) (auto simp: list_all_iff did_end_char_iff)
  have "s \<in> lang DID_FULL_REGEX \<longleftrightarrow>
      (\<exists>m t. s = ''did:'' @ m @ '':'' @ t \<and> m \<in> lang (Plus1 (Cls is_ascii_lowercase)) \<and>
             t \<in> lang (Seq (Star (Cls did_char)) (Cls did_end_char)))"
    unfolding DID_FULL_REGEX_def in_Seq_Lit in_Seq[of _ "Plus1 (Cls is_ascii_lowercase)"] by blast
  then show ?thesis
    unfolding did_shape_def tail in_Plus1_Cls list_all_iff by blast
qed

context regex_engine
begin

lemma ensure_valid_did_regex_ok:
  "is_ok (ensure_valid_did_regex im s) \<longleftrightarrow> did_shape (\<lambda>m. m \<noteq> []) s \<and> length s \<le> 2048"
  by (auto simp: ensure_valid_did_regex_def im_iff DID_FULL_REGEX_iff)

lemma ensure_valid_did_ok:
  "is_ok (ensure_valid_did im s) \<longleftrightarrow> did_shape (\<lambda>m. True) s \<and> length s \<le> 2048"
proof
  assume "is_ok (ensure_valid_did im s)"
  then have pre: "starts_with s ''did:''" and chars: "list_all did_char s"
    and len3: "\<not> length (split_on CHR '':'' s) < 3"
    and low: "list_all is_ascii_lowercase (split_on CHR '':'' s ! 1)"
    and ends: "\<not> ends_with s '':''" "\<not> ends_with s ''%''" and len: "length s \<le> 2048"
    unfolding ensure_valid_did_def DID_ASCII_CHARS_REGEX_def im_Star_Cls list_all_iff
    by (auto simp: Let_def split: if_splits)
  from pre obtain r where s: "s = ''did:'' @ r" by (auto simp: starts_with_iff)
  have sp: "split_on CHR '':'' s = ''did'' # split_on CHR '':'' r"
    unfolding s by simp
  obtain m q ps where mq: "split_on CHR '':'' r = m # q # ps"
    using len3 unfolding sp by (cases "split_on CHR '':'' r"; cases "tl (split_on CHR '':'' r)") auto
  define t where "t = join '':'' (q # ps)"
  have r: "r = m @ '':'' @ t" using split_on_Cons_eq[OF mq] by (simp add: t_def)
  have "t \<noteq> []"
    using ends(1) unfolding s r ends_with_char by auto
  moreover from this have "last s = last t" unfolding s r by simp
  ultimately have "did_end_char (last t)"
    using chars ends unfolding s r did_end_char_iff ends_with_char list_all_iff by auto
  moreover have "list_all is_ascii_lowercase m" using low unfolding sp mq by simp
  ultimately show "did_shape (\<lambda>m. True) s \<and> length s \<le> 2048"
    using chars len \<open>t \<noteq> []\<close> unfolding did_shape_def s r by auto
next
  assume "did_shape (\<lambda>m. True) s \<and> length s \<le> 2048"
  then obtain m t where s: "s = ''did:'' @ m @ '':'' @ t" and m: "list_all is_ascii_lowercase m"
    and t: "t \<noteq> []" "list_all did_char t" "did_end_char (last t)" and len: "length s \<le> 2048"
    unfolding did_shape_def by auto
  have sp: "split_on CHR '':'' s = ''did'' # m # split_on CHR '':'' t"
    unfolding s using split_on_append_sep[OF list_all_no_colon[OF m], of t] by simp
  have dc: "did_char CHR '':''" "did_char CHR ''d''" "did_char CHR ''i''"
    by (auto simp: did_char_def ascii_defs char_le_of_char)
  have all: "\<forall>c\<in>set s. did_char c"
    using m t dc lowercase_did_char unfolding s list_all_iff by auto
  have "\<not> ends_with s '':''" "\<not> ends_with s ''%''"
    using t unfolding s did_end_char_iff ends_with_char by auto
  moreover have "starts_with s ''did:''" by (simp add: s starts_with_def)
  ultimately show "is_ok (ensure_valid_did im s)"
    using m len all
    by (simp add: ensure_valid_did_def Let_def sp DID_ASCII_CHARS_REGEX_def im_Star_Cls
        Suc_le_eq not_less)
qed

lemma did_validators_agree:
  "is_ok (ensure_valid_did_regex im s) \<longleftrightarrow>
     is_ok (ensure_valid_did im s) \<and> split_on CHR '':'' s ! 1 \<noteq> []"
proof -
  have "did_shape (\<lambda>m. m \<noteq> []) s \<longleftrightarrow> did_shape (\<lambda>m. True) s \<and> split_on CHR '':'' s ! 1 \<noteq> []"
  proof -
    have "split_on CHR '':'' (''did:'' @ m @ '':'' @ t) ! 1 = m"
      if "list_all is_ascii_lowercase m" for m t
      using split_on_append_sep[OF list_all_no_colon[OF that], of t] by simp
    then show ?thesis unfolding did_shape_def by fastforce
  qed
  then show ?thesis unfolding ensure_valid_did_ok ensure_valid_did_regex_ok by blast
qed

end

section \<open>Properties\<close>

text \<open>\<open>ensure_valid_did\<close> accepts exactly the strings \<open>did:METHOD:ID\<close> of at most 2048 bytes
  whose method is lower-case letters (possibly none), whose identifier is non-empty, uses the
  DID character set and does not end in a colon or a percent sign.\<close>

theorem did_accepts_exactly:
  assumes "regex_engine im"
  shows "is_ok (ensure_valid_did im s) \<longleftrightarrow>
    length s \<le> 2048 \<and>
    (\<exists>m t. s = ''did:'' @ m @ '':'' @ t \<and> list_all is_ascii_lowercase m \<and>
       t \<noteq> [] \<and> list_all did_char t \<and> did_end_char (last t))"
  using regex_engine.ensure_valid_did_ok[OF assms, of s] by (auto simp: did_shape_def)

theorem did_accepts_exactly_witness:
  "is_ok (ensure_valid_did rmatch ''did:a:b'')"
proof -
  have "''did:a:b'' = ''did:'' @ ''a'' @ '':'' @ ''b'' \<and> list_all is_ascii_lowercase ''a'' \<and>
      ''b'' \<noteq> [] \<and> list_all did_char ''b'' \<and> did_end_char (last ''b'')"
    by (simp add: did_char_def did_end_char_def ascii_defs char_le_of_char)
  then show ?thesis
    using did_accepts_exactly[OF drx.regex_engine_axioms, of "''did:a:b''"] by fastforce
qed

text \<open>The two DID validators differ in exactly one respect: the regular expression also
  requires a method name. It accepts a string if and only if \<open>ensure_valid_did\<close> does and the
  part after the first colon is non-empty.\<close>

theorem did_validators_differ_on_empty_method:
  assumes "regex_engine im"
  shows "is_ok (ensure_valid_did_regex im s) \<longleftrightarrow>
    is_ok (ensure_valid_did im s) \<and> split_on CHR '':'' s ! 1 \<noteq> []"
  using regex_engine.did_validators_agree[OF assms] .

theorem did_validators_differ_on_empty_method_witness:
  "is_ok (ensure_valid_did rmatch ''did::b'') \<and> \<not> is_ok (ensure_valid_did_regex rmatch ''did::b'')"
proof -
  have "''did::b'' = ''did:'' @ [] @ '':'' @ ''b'' \<and> list_all is_ascii_lowercase [] \<and>
      ''b'' \<noteq> [] \<and> list_all did_char ''b'' \<and> did_end_char (last ''b'')"
    by (simp add: did_char_def did_end_char_def ascii_defs char_le_of_char)
  then have "is_ok (ensure_valid_did rmatch ''did::b'')"
    unfolding drx.ensure_valid_did_ok did_shape_def by fastforce
  then show ?thesis
    using did_validators_differ_on_empty_method[OF drx.regex_engine_axioms, of "''did::b''"] by simp
qed

end
