(* ===== verification/Syntax_Handle.thy ===== *)
theory Syntax_Handle
  imports Regex
begin

text \<open>
  \<open>rsky-syntax/src/handle.rs\<close>: handle validation by hand and by regular expression,
  normalisation, and the list of top-level domains that are never allowed. Rust's
  \<open>str::to_lowercase\<close> is Unicode lower-casing and is a parameter \<open>lower\<close>; on ASCII
  strings it is the byte-wise map \<open>to_ascii_lowercase\<close>.
\<close>

section \<open>Patterns and constants\<close>

definition INVALID_HANDLE :: string where
  "INVALID_HANDLE = ''handle.invalid''"

definition DISALLOWED_TLDS :: "string list" where
  "DISALLOWED_TLDS =
     [''.local'', ''.arpa'', ''.invalid'', ''.localhost'', ''.internal'', ''.example'', ''.alt'', ''.onion'']"

definition alnum_hyphen :: "char \<Rightarrow> bool" where
  "alnum_hyphen c \<longleftrightarrow> is_ascii_alphanumeric c \<or> c = CHR ''-''"

definition host_char :: "char \<Rightarrow> bool" where
  "host_char c \<longleftrightarrow> is_ascii_alphanumeric c \<or> c = CHR ''.'' \<or> c = CHR ''-''"

definition HANDLE_ASCII_CHARS_REGEX :: rexp where
  "HANDLE_ASCII_CHARS_REGEX = Star (Cls host_char)"

definition TLD_START_LETTER_REGEX :: rexp where
  "TLD_START_LETTER_REGEX = Seq (Cls is_ascii_alphabetic) (Star AnyC)"

definition HANDLE_FULL_REGEX :: rexp where
  "HANDLE_FULL_REGEX =
     Seq (Plus1 (Seq (Label is_ascii_alphanumeric alnum_hyphen 61 is_ascii_alphanumeric) (Chr CHR ''.'')))
       (Label is_ascii_alphabetic alnum_hyphen 61 is_ascii_alphanumeric)"

datatype handle_error =
    InvalidHandle string
  | ReservedHandle string
  | UnsupportedDomain string
  | DisallowedDomain string

section \<open>Operations\<close>

definition is_valid_tld :: "(string \<Rightarrow> string) \<Rightarrow> string \<Rightarrow> bool" where
  "is_valid_tld lower handle =
     (let handle_lower = lower handle
      in \<not> list_ex (\<lambda>domain. ends_with handle_lower domain) DISALLOWED_TLDS)"

fun handle_labels :: "(rexp \<Rightarrow> string \<Rightarrow> bool) \<Rightarrow> nat \<Rightarrow> nat \<Rightarrow> string list \<Rightarrow> handle_error + unit" where
  "handle_labels im n i [] = Inr ()"
| "handle_labels im n i (label # labels) =
     (if label = [] then Inl (InvalidHandle ''Handle parts can not be empty'')
      else if length label > 63 then Inl (InvalidHandle ''Handle part too long (max 63 chars)'')
      else if ends_with label ''-'' \<or> starts_with label ''-'' then
        Inl (InvalidHandle ''Handle parts can not start or end with hyphens'')
      else if i = n - 1 \<and> \<not> im TLD_START_LETTER_REGEX label then
        Inl (InvalidHandle ''TLD must start with ASCII letter'')
      else handle_labels im n (i + 1) labels)"

definition ensure_valid_handle :: "(rexp \<Rightarrow> string \<Rightarrow> bool) \<Rightarrow> string \<Rightarrow> handle_error + unit" where
  "ensure_valid_handle im handle =
     (if \<not> im HANDLE_ASCII_CHARS_REGEX handle then
        Inl (InvalidHandle ''Disallowed characters in handle (ASCII letters, digits, dashes, periods only)'')
      else if length handle > 253 then
        Inl (InvalidHandle ''Handle is too long (253 chars max)'')
      else let labels = split_on CHR ''.'' handle in
        if length labels < 2 then
          Inl (InvalidHandle ''Handle domain needs at least two parts'')
        else handle_labels im (length labels) 0 labels)"

definition ensure_valid_handle_regex :: "(rexp \<Rightarrow> string \<Rightarrow> bool) \<Rightarrow> string \<Rightarrow> handle_error + unit" where
  "ensure_valid_handle_regex im handle =
     (if \<not> im HANDLE_FULL_REGEX handle then
        Inl (InvalidHandle ''Handle didn't validate via regex'')
      else if length handle > 253 then
        Inl (InvalidHandle ''Handle is too long (253 chars max)'')
      else Inr ())"

definition normalize_handle :: "(string \<Rightarrow> string) \<Rightarrow> string \<Rightarrow> string" where
  "normalize_handle lower handle = lower handle"

definition normalize_and_ensure_valid_handle ::
    "(rexp \<Rightarrow> string \<Rightarrow> bool) \<Rightarrow> (string \<Rightarrow> string) \<Rightarrow> string \<Rightarrow> handle_error + string" where
  "normalize_and_ensure_valid_handle im lower handle =
     (let normalized = normalize_handle lower handle
      in res_bind (ensure_valid_handle im normalized) (\<lambda>_. Inr normalized))"

definition is_valid_handle :: "(rexp \<Rightarrow> string \<Rightarrow> bool) \<Rightarrow> string \<Rightarrow> bool" where
  "is_valid_handle im handle = is_ok (ensure_valid_handle im handle)"

section \<open>What a label is\<close>

definition host_label :: "string \<Rightarrow> bool" where
  "host_label l \<longleftrightarrow>
     l \<noteq> [] \<and> length l \<le> 63 \<and> (\<forall>c\<in>set l. alnum_hyphen c) \<and> hd l \<noteq> CHR ''-'' \<and> last l \<noteq> CHR ''-''"

lemma alnum_hyphen_no_dot: "alnum_hyphen c \<Longrightarrow> c \<noteq> CHR ''.''"
  using alphanumeric_not_punct by (auto simp: alnum_hyphen_def)

lemma alphabetic_alnum: "is_ascii_alphabetic c \<Longrightarrow> is_ascii_alphanumeric c"
  by (simp add: is_ascii_alphanumeric_def)

lemma alnum_alnum_hyphen: "is_ascii_alphanumeric c \<Longrightarrow> alnum_hyphen c"
  by (simp add: alnum_hyphen_def)

lemma alnum_iff_hyphen: "is_ascii_alphanumeric c \<longleftrightarrow> alnum_hyphen c \<and> c \<noteq> CHR ''-''"
  using alphanumeric_not_punct(2) by (auto simp: alnum_hyphen_def)

lemma host_char_iff: "c \<noteq> CHR ''.'' \<Longrightarrow> host_char c \<longleftrightarrow> alnum_hyphen c"
  by (auto simp: host_char_def alnum_hyphen_def)

lemma host_label_no_dot: "host_label l \<Longrightarrow> CHR ''.'' \<notin> set l"
  using alnum_hyphen_no_dot by (auto simp: host_label_def)

lemma in_host_Label:
  assumes "\<And>c. f c \<Longrightarrow> is_ascii_alphanumeric c"
  shows "s \<in> lang (Label f alnum_hyphen 61 is_ascii_alphanumeric) \<longleftrightarrow> host_label s \<and> f (hd s)"
proof (cases s)
  case (Cons c t)
  show ?thesis
  proof (cases t rule: rev_cases)
    case Nil
    with Cons assms[of c] show ?thesis
      by (auto simp: in_Label host_label_def alnum_iff_hyphen)
  next
    case (snoc u d)
    have "s \<in> lang (Label f alnum_hyphen 61 is_ascii_alphanumeric) \<longleftrightarrow>
        f c \<and> length s \<le> 63 \<and> (\<forall>x\<in>set u. alnum_hyphen x) \<and> is_ascii_alphanumeric d"
      unfolding in_Label Cons snoc by simp
    also have "\<dots> \<longleftrightarrow> host_label s \<and> f (hd s)"
      using assms[of c] unfolding host_label_def Cons snoc by (auto simp: alnum_iff_hyphen)
    finally show ?thesis .
  qed
qed (simp add: in_Label host_label_def)

text \<open>A name of labels, the shape a handle has.\<close>

definition host_name :: "string \<Rightarrow> bool" where
  "host_name s \<longleftrightarrow>
     2 \<le> length (split_on CHR ''.'' s) \<and> (\<forall>l\<in>set (split_on CHR ''.'' s). host_label l) \<and>
     is_ascii_alphabetic (hd (last (split_on CHR ''.'' s)))"

lemma HANDLE_FULL_REGEX_iff: "s \<in> lang HANDLE_FULL_REGEX \<longleftrightarrow> host_name s"
proof -
  let ?ls = "split_on CHR ''.'' s"
  have "s \<in> lang HANDLE_FULL_REGEX \<longleftrightarrow>
      2 \<le> length ?ls \<and> (\<forall>l\<in>set (butlast ?ls). host_label l \<and> is_ascii_alphanumeric (hd l)) \<and>
      host_label (last ?ls) \<and> is_ascii_alphabetic (hd (last ?ls))"
    unfolding HANDLE_FULL_REGEX_def
    by (subst in_dotted)
      (auto simp: in_host_Label alphabetic_alnum host_label_no_dot subset_iff)
  also have "\<dots> \<longleftrightarrow> host_name s"
  proof -
    have "host_label l \<Longrightarrow> is_ascii_alphanumeric (hd l)" for l
      by (auto simp: host_label_def alnum_iff_hyphen)
    moreover have "set ?ls = insert (last ?ls) (set (butlast ?ls))"
      by (metis append_butlast_last_id list.simps(15) rotate1.simps(2) set_rotate1 split_on_nonempty)
    ultimately show ?thesis unfolding host_name_def by auto
  qed
  finally show ?thesis .
qed

context regex_engine
begin

lemma handle_labels_ok:
  "n = i + length ls \<Longrightarrow>
   is_ok (handle_labels im n i ls) \<longleftrightarrow>
     (\<forall>l\<in>set ls. l \<noteq> [] \<and> length l \<le> 63 \<and> hd l \<noteq> CHR ''-'' \<and> last l \<noteq> CHR ''-'') \<and>
     (ls \<noteq> [] \<longrightarrow> is_ascii_alphabetic (hd (last ls)))"
proof (induction ls arbitrary: i)
  case (Cons l ls)
  have last: "i = n - 1 \<longleftrightarrow> ls = []" using Cons.prems by auto
  have IH: "is_ok (handle_labels im n (i + 1) ls) \<longleftrightarrow>
      (\<forall>l\<in>set ls. l \<noteq> [] \<and> length l \<le> 63 \<and> hd l \<noteq> CHR ''-'' \<and> last l \<noteq> CHR ''-'') \<and>
      (ls \<noteq> [] \<longrightarrow> is_ascii_alphabetic (hd (last ls)))"
    using Cons.prems by (intro Cons.IH) simp
  show ?case
  proof (cases "l = [] \<or> length l > 63 \<or> ends_with l ''-'' \<or> starts_with l ''-''")
    case True
    then show ?thesis by (auto simp: ends_with_char starts_with_char)
  next
    case False
    then show ?thesis
      using IH last
      by (cases "ls = []")
        (auto simp: TLD_START_LETTER_REGEX_def im_prefix_Cls ends_with_char starts_with_char)
  qed
qed simp

lemma ensure_valid_handle_ok:
  "is_ok (ensure_valid_handle im s) \<longleftrightarrow> host_name s \<and> length s \<le> 253"
proof -
  let ?ls = "split_on CHR ''.'' s"
  have nd: "CHR ''.'' \<notin> set l" if "l \<in> set ?ls" for l using that by (rule split_on_parts)
  have chars: "(\<forall>c\<in>set s. host_char c) \<longleftrightarrow> (\<forall>l\<in>set ?ls. \<forall>c\<in>set l. alnum_hyphen c)"
  proof
    assume a: "\<forall>c\<in>set s. host_char c"
    show "\<forall>l\<in>set ?ls. \<forall>c\<in>set l. alnum_hyphen c"
      using a nd split_on_set host_char_iff by metis
  next
    assume a: "\<forall>l\<in>set ?ls. \<forall>c\<in>set l. alnum_hyphen c"
    have "set s \<subseteq> {CHR ''.''} \<union> \<Union> (set (map set ?ls))"
      using set_join_subset[of "''.''" ?ls] by (simp add: join_split_on)
    then show "\<forall>c\<in>set s. host_char c"
      using a by (fastforce simp: host_char_def alnum_hyphen_def)
  qed
  have "is_ok (ensure_valid_handle im s) \<longleftrightarrow>
      (\<forall>c\<in>set s. host_char c) \<and> length s \<le> 253 \<and> 2 \<le> length ?ls \<and>
      is_ok (handle_labels im (length ?ls) 0 ?ls)"
    by (auto simp: ensure_valid_handle_def HANDLE_ASCII_CHARS_REGEX_def im_Star_Cls Let_def)
  then show ?thesis
    unfolding chars handle_labels_ok[of "length ?ls" 0 ?ls, simplified]
    by (auto simp: host_name_def host_label_def)
qed

lemma ensure_valid_handle_regex_ok:
  "is_ok (ensure_valid_handle_regex im s) \<longleftrightarrow> host_name s \<and> length s \<le> 253"
  by (auto simp: ensure_valid_handle_regex_def im_iff HANDLE_FULL_REGEX_iff)

lemma handle_validators_agree:
  "is_ok (ensure_valid_handle im s) \<longleftrightarrow> is_ok (ensure_valid_handle_regex im s)"
  unfolding ensure_valid_handle_ok ensure_valid_handle_regex_ok ..

end

section \<open>Properties\<close>

text \<open>C34. The step-by-step handle validator and the regular expression accept the same handles,
  namely the host names of at most 253 bytes: two or more dot-separated labels of 1 to 63
  letters, digits and inner hyphens, the last one starting with a letter.\<close>

theorem handle_validators_equivalent:
  assumes "regex_engine im"
  shows "(is_ok (ensure_valid_handle im s) \<longleftrightarrow> is_ok (ensure_valid_handle_regex im s)) \<and>
    (is_valid_handle im s \<longleftrightarrow> host_name s \<and> length s \<le> 253)"
  using regex_engine.handle_validators_agree[OF assms] regex_engine.ensure_valid_handle_ok[OF assms]
  by (simp add: is_valid_handle_def)

theorem handle_validators_equivalent_witness:
  "is_valid_handle rmatch ''a.b'' \<and> is_ok (ensure_valid_handle_regex rmatch ''a.b'')"
proof -
  have "host_name ''a.b''"
    by (simp add: host_name_def host_label_def alnum_hyphen_def ascii_defs char_le_of_char)
  then show ?thesis
    using handle_validators_equivalent[OF drx.regex_engine_axioms, of "''a.b''"]
    by (auto simp: is_valid_handle_def)
qed

end
