(* ===== verification/Syntax_Nsid.thy ===== *)
theory Syntax_Nsid
  imports Syntax_Handle
begin

text \<open>
  \<open>rsky-syntax/src/nsid.rs\<close>: NSID validation by hand and by regular expression, and the
  \<open>Nsid\<close> type with its constructors, accessors and printer.
\<close>

section \<open>Patterns\<close>

definition NSID_ASCII_CHARS_REGEX :: rexp where
  "NSID_ASCII_CHARS_REGEX = Star (Cls host_char)"

definition NSID_FULL_REGEX :: rexp where
  "NSID_FULL_REGEX =
     Seq (Label is_ascii_alphabetic alnum_hyphen 61 is_ascii_alphanumeric)
       (Seq (Plus1 (Seq (Chr CHR ''.'') (Label is_ascii_alphanumeric alnum_hyphen 61 is_ascii_alphanumeric)))
         (Seq (Chr CHR ''.'') (Seq (Cls is_ascii_alphabetic) (UpTo (Cls is_ascii_alphanumeric) 62))))"

datatype nsid_error = InvalidNsidError string

section \<open>Operations\<close>

text \<open>
  \<open>char::is_numeric\<close> is only reached after the ASCII check, where it is the digit test.
\<close>

fun nsid_labels :: "nat \<Rightarrow> nat \<Rightarrow> string list \<Rightarrow> nsid_error + unit" where
  "nsid_labels n i [] = Inr ()"
| "nsid_labels n i (label # labels) =
     (if label = [] then Inl (InvalidNsidError ''NSID parts can not be empty'')
      else if length label > 63 then Inl (InvalidNsidError ''NSID part too long (max 63 chars)'')
      else let is_last_segment = (i = n - 1) in
        if \<not> is_last_segment then
          (if ends_with label ''-'' \<or> starts_with label ''-'' then
             Inl (InvalidNsidError ''NSID authority parts can not start or end with hyphen'')
           else if i = 0 \<and> is_ascii_digit (hd label) then
             Inl (InvalidNsidError ''NSID first part may not start with a digit'')
           else nsid_labels n (i + 1) labels)
        else
          (if \<not> is_ascii_alphabetic (hd label) then
             Inl (InvalidNsidError ''NSID name must start with a letter'')
           else if \<not> list_all is_ascii_alphanumeric label then
             Inl (InvalidNsidError ''NSID name must only contain letters and digits (no hyphens)'')
           else nsid_labels n (i + 1) labels))"

definition ensure_valid_nsid :: "(rexp \<Rightarrow> string \<Rightarrow> bool) \<Rightarrow> string \<Rightarrow> nsid_error + unit" where
  "ensure_valid_nsid im nsid =
     (if \<not> im NSID_ASCII_CHARS_REGEX nsid then
        Inl (InvalidNsidError ''Disallowed characters in NSID (ASCII letters, digits, dashes, periods only)'')
      else if length nsid > 253 + 1 + 63 then
        Inl (InvalidNsidError ''NSID is too long (317 chars max)'')
      else let labels = split_on CHR ''.'' nsid in
        if length labels < 3 then
          Inl (InvalidNsidError ''NSID needs at least three parts'')
        else nsid_labels (length labels) 0 labels)"

definition ensure_valid_nsid_regex :: "(rexp \<Rightarrow> string \<Rightarrow> bool) \<Rightarrow> string \<Rightarrow> nsid_error + unit" where
  "ensure_valid_nsid_regex im nsid =
     (if \<not> im NSID_FULL_REGEX nsid then
        Inl (InvalidNsidError ''NSID didn't validate via regex'')
      else if length nsid > 253 + 1 + 63 then
        Inl (InvalidNsidError ''NSID is too long (317 chars max)'')
      else Inr ())"

record nsid =
  segments :: "string list"

definition nsid_parse :: "(rexp \<Rightarrow> string \<Rightarrow> bool) \<Rightarrow> string \<Rightarrow> nsid_error + nsid" where
  "nsid_parse im s =
     res_bind (ensure_valid_nsid im s) (\<lambda>_. Inr \<lparr>segments = split_on CHR ''.'' s\<rparr>)"

definition nsid_create :: "(rexp \<Rightarrow> string \<Rightarrow> bool) \<Rightarrow> string \<Rightarrow> string \<Rightarrow> nsid_error + nsid" where
  "nsid_create im auth nm =
     (let segs = rev (split_on CHR ''.'' auth) @ [nm];
          s = join ''.'' segs
      in res_bind (ensure_valid_nsid im s) (\<lambda>_. Inr \<lparr>segments = segs\<rparr>))"

text \<open>The slice and the \<open>unwrap\<close> panic on an empty segment list, here \<open>None\<close>.\<close>

definition nsid_authority :: "nsid \<Rightarrow> string option" where
  "nsid_authority n =
     (if segments n = [] then None else Some (join ''.'' (rev (butlast (segments n)))))"

definition nsid_name :: "nsid \<Rightarrow> string option" where
  "nsid_name n = (if segments n = [] then None else Some (last (segments n)))"

definition nsid_to_string :: "nsid \<Rightarrow> string" where
  "nsid_to_string n = join ''.'' (segments n)"

section \<open>What the validators accept\<close>

definition nsid_name_label :: "string \<Rightarrow> bool" where
  "nsid_name_label l \<longleftrightarrow>
     l \<noteq> [] \<and> length l \<le> 63 \<and> is_ascii_alphabetic (hd l) \<and> (\<forall>c\<in>set l. is_ascii_alphanumeric c)"

definition nsid_shape :: "string list \<Rightarrow> bool" where
  "nsid_shape ls \<longleftrightarrow>
     3 \<le> length ls \<and> (\<forall>l\<in>set (butlast ls). host_label l) \<and>
     is_ascii_alphabetic (hd (hd ls)) \<and> nsid_name_label (last ls)"

lemma nsid_name_label_no_dot: "nsid_name_label l \<Longrightarrow> CHR ''.'' \<notin> set l"
  using alphanumeric_not_punct(1) by (auto simp: nsid_name_label_def)

lemma NSID_FULL_REGEX_iff: "s \<in> lang NSID_FULL_REGEX \<longleftrightarrow> nsid_shape (split_on CHR ''.'' s)"
proof -
  let ?ls = "split_on CHR ''.'' s"
  have nm: "w \<in> lang (Seq (Cls is_ascii_alphabetic) (UpTo (Cls is_ascii_alphanumeric) 62)) \<longleftrightarrow>
      nsid_name_label w" for w
    unfolding in_Seq_Cls in_UpTo_Cls nsid_name_label_def
    by (cases w) (auto simp: is_ascii_alphanumeric_def)
  have "s \<in> lang NSID_FULL_REGEX \<longleftrightarrow>
      3 \<le> length ?ls \<and> (host_label (hd ?ls) \<and> is_ascii_alphabetic (hd (hd ?ls))) \<and>
      (\<forall>l\<in>set (butlast (tl ?ls)). host_label l \<and> is_ascii_alphanumeric (hd l)) \<and>
      nsid_name_label (last ?ls)"
    unfolding NSID_FULL_REGEX_def
    by (subst in_dotted3)
      (auto simp: nm in_host_Label alphabetic_alnum host_label_no_dot nsid_name_label_no_dot subset_iff
        simp del: lang.simps)
  also have "\<dots> \<longleftrightarrow> nsid_shape ?ls"
  proof -
    have "host_label l \<Longrightarrow> is_ascii_alphanumeric (hd l)" for l
      by (auto simp: host_label_def alnum_iff_hyphen)
    moreover obtain h t where ht: "?ls = h # t" by (rule split_on_obtain)
    ultimately show ?thesis unfolding nsid_shape_def ht by (cases t) auto
  qed
  finally show ?thesis .
qed

lemma nsid_labels_tail_ok:
  assumes "n = i + length ls" and "0 < i" and "\<And>l c. l \<in> set ls \<Longrightarrow> c \<in> set l \<Longrightarrow> alnum_hyphen c"
  shows "is_ok (nsid_labels n i ls) \<longleftrightarrow>
    (\<forall>l\<in>set (butlast ls). host_label l) \<and> (ls \<noteq> [] \<longrightarrow> nsid_name_label (last ls))"
  using assms
proof (induction ls arbitrary: i)
  case (Cons l ls)
  have last: "i = n - 1 \<longleftrightarrow> ls = []" using Cons.prems by auto
  have IH: "is_ok (nsid_labels n (i + 1) ls) \<longleftrightarrow>
    (\<forall>l\<in>set (butlast ls). host_label l) \<and> (ls \<noteq> [] \<longrightarrow> nsid_name_label (last ls))"
    using Cons.prems by (intro Cons.IH) auto
  have lc: "\<forall>c\<in>set l. alnum_hyphen c" using Cons.prems by auto
  show ?case
  proof (cases "ls = []")
    case True
    then show ?thesis using last by (auto simp: nsid_name_label_def list_all_iff)
  next
    case False
    then show ?thesis
      using last IH lc Cons.prems(2)
      by (auto simp: host_label_def ends_with_char starts_with_char)
  qed
qed simp

lemma nsid_labels_ok:
  assumes "2 \<le> length ls" and ch: "\<And>l c. l \<in> set ls \<Longrightarrow> c \<in> set l \<Longrightarrow> alnum_hyphen c"
  shows "is_ok (nsid_labels (length ls) 0 ls) \<longleftrightarrow>
    (\<forall>l\<in>set (butlast ls). host_label l) \<and> is_ascii_alphabetic (hd (hd ls)) \<and> nsid_name_label (last ls)"
proof -
  obtain h t where ls: "ls = h # t" and t: "t \<noteq> []"
    using assms(1) by (cases ls; cases "tl ls") auto
  have tail: "is_ok (nsid_labels (length ls) 1 t) \<longleftrightarrow>
      (\<forall>l\<in>set (butlast t). host_label l) \<and> nsid_name_label (last t)"
    using nsid_labels_tail_ok[of "length ls" 1 t] ch t unfolding ls by auto
  have dig: "host_label h \<Longrightarrow> is_ascii_digit (hd h) \<longleftrightarrow> \<not> is_ascii_alphabetic (hd h)"
    using digit_not_alphabetic[of "hd h"]
    by (auto simp: host_label_def alnum_hyphen_def is_ascii_alphanumeric_def)
  have "is_ok (nsid_labels (length ls) 0 ls) \<longleftrightarrow>
      host_label h \<and> \<not> is_ascii_digit (hd h) \<and> is_ok (nsid_labels (length ls) 1 t)"
    using t ch[of h] unfolding ls host_label_def
    by (auto simp: ends_with_char starts_with_char Let_def)
  then show ?thesis unfolding tail using t dig by (auto simp: ls)
qed

context regex_engine
begin

lemma ensure_valid_nsid_regex_ok:
  "is_ok (ensure_valid_nsid_regex im s) \<longleftrightarrow> nsid_shape (split_on CHR ''.'' s) \<and> length s \<le> 317"
  by (auto simp: ensure_valid_nsid_regex_def im_iff NSID_FULL_REGEX_iff)

lemma ensure_valid_nsid_ok:
  "is_ok (ensure_valid_nsid im s) \<longleftrightarrow> nsid_shape (split_on CHR ''.'' s) \<and> length s \<le> 317"
proof -
  let ?ls = "split_on CHR ''.'' s"
  have expand: "is_ok (ensure_valid_nsid im s) \<longleftrightarrow>
      (\<forall>c\<in>set s. host_char c) \<and> length s \<le> 317 \<and> 3 \<le> length ?ls \<and>
      is_ok (nsid_labels (length ?ls) 0 ?ls)"
    by (auto simp: ensure_valid_nsid_def NSID_ASCII_CHARS_REGEX_def im_Star_Cls Let_def)
  have chars: "alnum_hyphen c" if "\<forall>c\<in>set s. host_char c" "l \<in> set ?ls" "c \<in> set l" for l c
    using that split_on_parts split_on_set host_char_iff by metis
  have conv: "\<forall>c\<in>set s. host_char c" if sh: "nsid_shape ?ls"
  proof -
    have "set ?ls = insert (last ?ls) (set (butlast ?ls))"
      by (metis append_butlast_last_id list.simps(15) rotate1.simps(2) set_rotate1 split_on_nonempty)
    then have "\<forall>l\<in>set ?ls. \<forall>c\<in>set l. alnum_hyphen c"
      using sh alnum_alnum_hyphen by (auto simp: nsid_shape_def host_label_def nsid_name_label_def)
    moreover have "set s \<subseteq> {CHR ''.''} \<union> \<Union> (set (map set ?ls))"
      using set_join_subset[of "''.''" ?ls] by (simp add: join_split_on)
    ultimately show ?thesis by (fastforce simp: host_char_def alnum_hyphen_def)
  qed
  show ?thesis
  proof (cases "(\<forall>c\<in>set s. host_char c) \<and> 3 \<le> length ?ls")
    case True
    have ge2: "2 \<le> length ?ls" using True by simp
    have lbl: "is_ok (nsid_labels (length ?ls) 0 ?ls) \<longleftrightarrow>
        (\<forall>l\<in>set (butlast ?ls). host_label l) \<and> is_ascii_alphabetic (hd (hd ?ls)) \<and>
        nsid_name_label (last ?ls)"
      using chars True by (intro nsid_labels_ok[OF ge2]) blast
    show ?thesis unfolding expand lbl nsid_shape_def using True by blast
  next
    case False
    then show ?thesis using expand conv by (auto simp: nsid_shape_def)
  qed
qed

lemma nsid_validators_agree:
  "is_ok (ensure_valid_nsid im s) \<longleftrightarrow> is_ok (ensure_valid_nsid_regex im s)"
  unfolding ensure_valid_nsid_ok ensure_valid_nsid_regex_ok ..

end

section \<open>The Nsid type\<close>

lemma nsid_parse_to_string: "nsid_parse im s = Inr n \<Longrightarrow> nsid_to_string n = s"
  by (auto simp: nsid_parse_def nsid_to_string_def res_bind_eq_Inr_iff join_split_on)

lemma nsid_parse_segments:
  "nsid_parse im s = Inr n \<Longrightarrow> segments n = split_on CHR ''.'' s \<and> is_ok (ensure_valid_nsid im s)"
  by (auto simp: nsid_parse_def res_bind_eq_Inr_iff)

lemma nsid_create_of_parts:
  assumes "nsid_parse im s = Inr n"
    and "nsid_authority n = Some a" and "nsid_name n = Some nm" and "2 \<le> length (segments n)"
  shows "nsid_create im a nm = Inr n"
proof -
  let ?ls = "split_on CHR ''.'' s"
  have seg: "segments n = ?ls" and ok: "is_ok (ensure_valid_nsid im s)"
    using nsid_parse_segments[OF assms(1)] by auto
  have a: "a = join ''.'' (rev (butlast ?ls))" and nm: "nm = last ?ls"
    using assms(2,3) by (auto simp: nsid_authority_def nsid_name_def seg)
  have ne: "butlast ?ls \<noteq> []"
    using assms(4) unfolding seg by (cases ?ls rule: rev_cases) auto
  have "split_on CHR ''.'' a = rev (butlast ?ls)"
    unfolding a using ne split_on_parts in_set_butlastD by (intro split_on_join) fastforce+
  then have "rev (split_on CHR ''.'' a) @ [nm] = ?ls"
    by (simp add: nm)
  moreover have "n = \<lparr>segments = ?ls\<rparr>" using seg by simp
  ultimately show ?thesis
    using ok by (auto simp: nsid_create_def Let_def join_split_on is_ok_iff)
qed

lemma nsid_parse_of_create:
  assumes "nsid_create im a nm = Inr n" and "CHR ''.'' \<notin> set nm"
  shows "nsid_parse im (nsid_to_string n) = Inr n"
proof -
  let ?segs = "rev (split_on CHR ''.'' a) @ [nm]"
  have n: "n = \<lparr>segments = ?segs\<rparr>" and ok: "ensure_valid_nsid im (join ''.'' ?segs) = Inr ()"
    using assms(1) by (auto simp: nsid_create_def Let_def res_bind_eq_Inr_iff)
  have "split_on CHR ''.'' (join ''.'' ?segs) = ?segs"
    using assms(2) split_on_parts by (intro split_on_join) auto
  then show ?thesis using ok by (simp add: nsid_parse_def nsid_to_string_def n)
qed

section \<open>Properties\<close>

text \<open>The step-by-step NSID validator and the regular expression accept the same strings: at
  most 317 bytes, three or more labels, all but the last host labels, the first starting with
  a letter, the last a letter followed by letters and digits.\<close>

theorem nsid_validators_equivalent:
  assumes "regex_engine im"
  shows "(is_ok (ensure_valid_nsid im s) \<longleftrightarrow> is_ok (ensure_valid_nsid_regex im s)) \<and>
    (is_ok (ensure_valid_nsid im s) \<longleftrightarrow> nsid_shape (split_on CHR ''.'' s) \<and> length s \<le> 317)"
  using regex_engine.nsid_validators_agree[OF assms] regex_engine.ensure_valid_nsid_ok[OF assms] by blast

theorem nsid_validators_equivalent_witness:
  "is_ok (ensure_valid_nsid rmatch ''a.b.c'') \<and> is_ok (ensure_valid_nsid_regex rmatch ''a.b.c'')"
proof -
  have "nsid_shape (split_on CHR ''.'' ''a.b.c'')"
    by (simp add: nsid_shape_def host_label_def nsid_name_label_def alnum_hyphen_def ascii_defs char_le_of_char)
  then show ?thesis
    using nsid_validators_equivalent[OF drx.regex_engine_axioms, of "''a.b.c''"] by auto
qed

text \<open>Parsing an NSID loses nothing: it prints back to the string, and rebuilding it from its
  authority and its name with \<open>create\<close> gives the same value.\<close>

theorem nsid_parse_print_create:
  assumes "regex_engine im" and "nsid_parse im s = Inr n"
  shows "nsid_to_string n = s \<and>
    (\<exists>a nm. nsid_authority n = Some a \<and> nsid_name n = Some nm \<and> nsid_create im a nm = Inr n)"
proof -
  have seg: "segments n = split_on CHR ''.'' s" "is_ok (ensure_valid_nsid im s)"
    using nsid_parse_segments[OF assms(2)] by auto
  then have "3 \<le> length (segments n)"
    using regex_engine.ensure_valid_nsid_ok[OF assms(1)] by (simp add: nsid_shape_def)
  moreover from this obtain a nm where "nsid_authority n = Some a" "nsid_name n = Some nm"
    by (cases "segments n") (auto simp: nsid_authority_def nsid_name_def)
  ultimately show ?thesis
    using nsid_parse_to_string[OF assms(2)] nsid_create_of_parts[OF assms(2)] by auto
qed

theorem nsid_parse_print_create_witness:
  "nsid_to_string \<lparr>segments = [''a'', ''b'', ''c'']\<rparr> = ''a.b.c'' \<and>
   (\<exists>a nm. nsid_authority \<lparr>segments = [''a'', ''b'', ''c'']\<rparr> = Some a \<and>
     nsid_name \<lparr>segments = [''a'', ''b'', ''c'']\<rparr> = Some nm \<and>
     nsid_create rmatch a nm = Inr \<lparr>segments = [''a'', ''b'', ''c'']\<rparr>)"
proof -
  have "nsid_shape (split_on CHR ''.'' ''a.b.c'')"
    by (simp add: nsid_shape_def host_label_def nsid_name_label_def alnum_hyphen_def ascii_defs char_le_of_char)
  then have "ensure_valid_nsid rmatch ''a.b.c'' = Inr ()"
    using drx.ensure_valid_nsid_ok[of "''a.b.c''"] by (simp add: is_ok_iff)
  then have "nsid_parse rmatch ''a.b.c'' = Inr \<lparr>segments = [''a'', ''b'', ''c'']\<rparr>"
    by (simp add: nsid_parse_def)
  from nsid_parse_print_create[OF drx.regex_engine_axioms this] show ?thesis .
qed

text \<open>A name passed to \<open>create\<close> that has no dot gives an NSID that parses back to itself from
  its printed form.\<close>

theorem nsid_create_print_parse:
  assumes "nsid_create im a nm = Inr n" and "CHR ''.'' \<notin> set nm"
  shows "nsid_parse im (nsid_to_string n) = Inr n \<and> nsid_name n = Some nm"
  using nsid_parse_of_create[OF assms] assms(1)
  by (auto simp: nsid_create_def Let_def res_bind_eq_Inr_iff nsid_name_def)

theorem nsid_create_print_parse_witness:
  "nsid_parse (\<lambda>r s. True) (nsid_to_string \<lparr>segments = [''a'', ''b'', ''c'']\<rparr>) =
     Inr \<lparr>segments = [''a'', ''b'', ''c'']\<rparr>"
proof -
  have "nsid_create (\<lambda>r s. True) ''b.a'' ''c'' = Inr \<lparr>segments = [''a'', ''b'', ''c'']\<rparr>"
    by (simp add: nsid_create_def ensure_valid_nsid_def Let_def ends_with_def starts_with_def ascii_defs
        char_le_of_char)
  from nsid_create_print_parse[OF this] show ?thesis by simp
qed

end
