(* ===== verification/Syntax_Keys.thy ===== *)
theory Syntax_Keys
  imports Regex
begin

text \<open>
  \<open>rsky-syntax/src/record_key.rs\<close> and \<open>rsky-syntax/src/tid.rs\<close>: the syntax of record keys
  and of timestamp identifiers.
\<close>

section \<open>Record keys\<close>

definition rkey_char :: "char \<Rightarrow> bool" where
  "rkey_char c \<longleftrightarrow>
     is_ascii_alphanumeric c \<or> c \<in> {CHR ''_'', CHR ''~'', CHR ''.'', CHR '':'', CHR ''-''}"

definition RKEY_REGEX :: rexp where
  "RKEY_REGEX = Seq (Cls rkey_char) (UpTo (Cls rkey_char) 511)"

datatype record_key_error = InvalidRecordKeyError string

definition ensure_valid_record_key :: "(rexp \<Rightarrow> string \<Rightarrow> bool) \<Rightarrow> string \<Rightarrow> record_key_error + unit" where
  "ensure_valid_record_key im rkey =
     (if rkey = [] \<or> length rkey > 512 then
        Inl (InvalidRecordKeyError ''record key must be 1 to 512 characters'')
      else if rkey = ''.'' \<or> rkey = ''..'' then
        Inl (InvalidRecordKeyError ''record key can not be \".\" or \"..\"'')
      else if \<not> im RKEY_REGEX rkey then
        Inl (InvalidRecordKeyError ''record key syntax not valid (regex)'')
      else Inr ())"

definition is_valid_record_key :: "(rexp \<Rightarrow> string \<Rightarrow> bool) \<Rightarrow> string \<Rightarrow> bool" where
  "is_valid_record_key im rkey = is_ok (ensure_valid_record_key im rkey)"

section \<open>Timestamp identifiers\<close>

definition TID_REST :: string where
  "TID_REST = ''234567abcdefghijklmnopqrstuvwxyz''"

definition TID_FIRST :: string where
  "TID_FIRST = ''234567abcdefghij''"

definition TID_REGEX :: rexp where
  "TID_REGEX = Seq (Cls (\<lambda>c. c \<in> set TID_FIRST)) (Rep (Cls (\<lambda>c. c \<in> set TID_REST)) 12)"

datatype tid_error = InvalidTidError string

definition ensure_valid_tid :: "(rexp \<Rightarrow> string \<Rightarrow> bool) \<Rightarrow> string \<Rightarrow> tid_error + unit" where
  "ensure_valid_tid im tid =
     (if length tid \<noteq> 13 then Inl (InvalidTidError ''TID must be 13 characters'')
      else if \<not> im TID_REGEX tid then Inl (InvalidTidError ''TID syntax not valid (regex)'')
      else Inr ())"

definition is_valid_tid :: "(rexp \<Rightarrow> string \<Rightarrow> bool) \<Rightarrow> string \<Rightarrow> bool" where
  "is_valid_tid im tid = is_ok (ensure_valid_tid im tid)"

section \<open>What the validators accept\<close>

context regex_engine
begin

lemma record_key_ok:
  "is_valid_record_key im s \<longleftrightarrow>
     1 \<le> length s \<and> length s \<le> 512 \<and> (\<forall>c\<in>set s. rkey_char c) \<and> s \<noteq> ''.'' \<and> s \<noteq> ''..''"
  unfolding is_valid_record_key_def
  by (auto simp: ensure_valid_record_key_def RKEY_REGEX_def im_Rep_range Suc_le_eq)

lemma tid_ok:
  "is_valid_tid im s \<longleftrightarrow>
     length s = 13 \<and> hd s \<in> set TID_FIRST \<and> (\<forall>c\<in>set (tl s). c \<in> set TID_REST)"
  unfolding is_valid_tid_def ensure_valid_tid_def im_iff TID_REGEX_def in_Seq_Cls in_Rep_Cls
  by (cases s) auto

end

section \<open>Properties\<close>

text \<open>A record key is accepted exactly when it has 1 to 512 characters of the record-key set and
  is neither \<open>.\<close> nor \<open>..\<close>; a TID exactly when it has 13 base32-sortable characters, the first
  from the lower half.\<close>

theorem record_key_and_tid_accepted_exactly:
  assumes "regex_engine im"
  shows "(is_valid_record_key im s \<longleftrightarrow>
      1 \<le> length s \<and> length s \<le> 512 \<and> list_all rkey_char s \<and> s \<noteq> ''.'' \<and> s \<noteq> ''..'') \<and>
    (is_valid_tid im s \<longleftrightarrow>
      length s = 13 \<and> hd s \<in> set TID_FIRST \<and> list_all (\<lambda>c. c \<in> set TID_REST) (tl s))"
  using regex_engine.record_key_ok[OF assms, of s] regex_engine.tid_ok[OF assms, of s]
  by (simp_all add: list_all_iff)

theorem record_key_and_tid_accepted_exactly_witness:
  "is_valid_record_key rmatch ''self'' \<and> \<not> is_valid_record_key rmatch ''..'' \<and>
   is_valid_tid rmatch ''3jzfcijpj2z2a''"
  using record_key_and_tid_accepted_exactly[OF drx.regex_engine_axioms]
  by (simp add: rkey_char_def TID_FIRST_def TID_REST_def ascii_defs char_le_of_char)

end
