(* ===== verification/Common_Tid.thy ===== *)
theory Common_Tid
  imports Prelude
begin

text \<open>
  \<open>rsky-common/src/tid.rs\<close>: base32-sortable encoding, the \<open>TID\<close> type and the \<open>Ticker\<close>
  that mints them. \<open>usize\<close> is 64 bits wide; sums that can pass the width wrap, as in the
  release profile. The system clock is the argument \<open>now\<close> (microseconds since the epoch);
  a panic of the code (\<open>unwrap\<close>, a slice out of range) is \<open>None\<close>.
\<close>

section \<open>Encoding\<close>

definition TID_LEN :: nat where
  "TID_LEN = 13"

definition S32_CHAR :: string where
  "S32_CHAR = ''234567abcdefghijklmnopqrstuvwxyz''"

fun s32encode_loop :: "nat \<Rightarrow> string \<Rightarrow> string" where
  "s32encode_loop i s = (if i > 0 then s32encode_loop (i div 32) ((S32_CHAR ! (i mod 32)) # s) else s)"

definition s32encode :: "nat \<Rightarrow> string" where
  "s32encode i = s32encode_loop i []"

fun position :: "char \<Rightarrow> string \<Rightarrow> nat option" where
  "position c [] = None"
| "position c (x # xs) = (if x = c then Some 0 else map_option Suc (position c xs))"

fun s32decode_loop :: "string \<Rightarrow> nat \<Rightarrow> nat option" where
  "s32decode_loop [] i = Some i"
| "s32decode_loop (c # s) i =
     (case position c S32_CHAR of
        None \<Rightarrow> None
      | Some p \<Rightarrow> s32decode_loop s ((i * 32 + p) mod 2 ^ 64))"

definition s32decode :: "string \<Rightarrow> nat option" where
  "s32decode s = s32decode_loop s 0"

definition dedash :: "string \<Rightarrow> string" where
  "dedash s = filter (\<lambda>c. c \<noteq> CHR ''-'') s"

section \<open>TID\<close>

datatype TID = TID (tid_str: string)

datatype tid_format_error = PoorlyFormattedTid nat

definition tid_new :: "string \<Rightarrow> tid_format_error + TID" where
  "tid_new s =
     (let no_dashes = dedash s
      in if length no_dashes \<noteq> TID_LEN then Inl (PoorlyFormattedTid (length no_dashes))
         else Inr (TID no_dashes))"

text \<open>\<open>{1:2>2}\<close> right-aligns in width two and fills with the character \<open>2\<close>.\<close>

definition pad2 :: "string \<Rightarrow> string" where
  "pad2 s = replicate (2 - length s) CHR ''2'' @ s"

definition from_time :: "nat \<Rightarrow> nat \<Rightarrow> TID" where
  "from_time timestamp clock = TID (s32encode timestamp @ pad2 (s32encode clock))"

definition tid_timestamp :: "TID \<Rightarrow> nat option" where
  "tid_timestamp t = (if length (tid_str t) < 11 then None else s32decode (take 11 (tid_str t)))"

definition tid_clock_id :: "TID \<Rightarrow> nat option" where
  "tid_clock_id t = (if length (tid_str t) < 13 then None else s32decode (take 2 (drop 11 (tid_str t))))"

definition compare_to :: "TID \<Rightarrow> TID \<Rightarrow> int" where
  "compare_to a b = (if tid_str a > tid_str b then 1 else if tid_str a < tid_str b then -1 else 0)"

definition tid_equals :: "TID \<Rightarrow> TID \<Rightarrow> bool" where
  "tid_equals a b \<longleftrightarrow> tid_str a = tid_str b"

definition newer_than :: "TID \<Rightarrow> TID \<Rightarrow> bool" where
  "newer_than a b \<longleftrightarrow> compare_to a b > 0"

definition older_than :: "TID \<Rightarrow> TID \<Rightarrow> bool" where
  "older_than a b \<longleftrightarrow> compare_to a b < 0"

section \<open>Ticker\<close>

record ticker =
  last_timestamp :: nat
  clock_id :: nat

definition ticker_next :: "nat \<Rightarrow> TID option \<Rightarrow> ticker \<Rightarrow> (TID \<times> ticker) option" where
  "ticker_next now_raw prev tk =
     (let now = now_raw mod 2 ^ 53;
          tk' = tk\<lparr>last_timestamp :=
                  (if now > last_timestamp tk then now else (last_timestamp tk + 1) mod 2 ^ 64)\<rparr>;
          micros = last_timestamp tk' mod 2 ^ 53;
          clock = clock_id tk' mod 2 ^ 10;
          tid = from_time micros clock
      in case prev of
           None \<Rightarrow> Some (tid, tk')
         | Some p \<Rightarrow>
             if newer_than tid p then Some (tid, tk')
             else map_option (\<lambda>ts. (from_time ((ts + 1) mod 2 ^ 64) clock, tk')) (tid_timestamp p))"

text \<open>\<open>rand\<close> is the random word and \<open>now0\<close> the clock at the priming call.\<close>

definition ticker_new :: "nat \<Rightarrow> nat \<Rightarrow> ticker option" where
  "ticker_new rand now0 =
     map_option snd (ticker_next now0 None \<lparr>last_timestamp = 0, clock_id = rand mod 2 ^ 10\<rparr>)"

definition next_str :: "nat \<Rightarrow> nat \<Rightarrow> nat \<Rightarrow> string option \<Rightarrow> tid_format_error + string option" where
  "next_str rand now0 now prev =
     (let go = (\<lambda>p. Inr (Option.bind (ticker_new rand now0)
                  (\<lambda>tk. map_option (\<lambda>(t, _). tid_str t) (ticker_next now p tk))))
      in case prev of None \<Rightarrow> go None | Some s \<Rightarrow> res_bind (tid_new s) (\<lambda>t. go (Some t)))"

section \<open>Digits\<close>

declare s32encode_loop.simps [simp del]

definition s32_digits :: "string \<Rightarrow> bool" where
  "s32_digits s \<longleftrightarrow> (\<forall>c\<in>set s. c \<in> set S32_CHAR)"

definition digit_val :: "char \<Rightarrow> nat" where
  "digit_val c = (case position c S32_CHAR of None \<Rightarrow> 0 | Some p \<Rightarrow> p)"

definition s32val :: "string \<Rightarrow> nat" where
  "s32val s = foldl (\<lambda>i c. i * 32 + digit_val c) 0 s"

lemma length_S32_CHAR: "length S32_CHAR = 32"
  by (simp add: S32_CHAR_def)

lemma position_Some: "position c s = Some p \<Longrightarrow> p < length s \<and> s ! p = c"
  by (induction s arbitrary: p) (auto split: if_splits)

lemma position_in: "c \<in> set s \<Longrightarrow> \<exists>p. position c s = Some p"
  by (induction s) auto

lemma position_nth: "distinct s \<Longrightarrow> k < length s \<Longrightarrow> position (s ! k) s = Some k"
proof (induction s arbitrary: k)
  case (Cons x xs)
  then show ?case by (cases k) auto
qed simp

lemma distinct_S32: "distinct S32_CHAR"
  by (simp add: S32_CHAR_def)

lemma sorted_S32: "sorted_wrt (<) S32_CHAR"
  by (simp add: S32_CHAR_def less_char_def)

lemma digit_val_nth: "k < 32 \<Longrightarrow> digit_val (S32_CHAR ! k) = k"
  by (simp add: digit_val_def position_nth[OF distinct_S32] length_S32_CHAR)

lemma digit_val_props:
  assumes "c \<in> set S32_CHAR"
  shows "position c S32_CHAR = Some (digit_val c)" "digit_val c < 32" "S32_CHAR ! digit_val c = c"
  using position_in[OF assms] position_Some[of c S32_CHAR]
  by (auto simp: digit_val_def length_S32_CHAR)

lemma digit_less_iff:
  assumes "c \<in> set S32_CHAR" "d \<in> set S32_CHAR"
  shows "c < d \<longleftrightarrow> digit_val c < digit_val d"
proof -
  have lt: "digit_val c < digit_val d \<Longrightarrow> c < d" if "c \<in> set S32_CHAR" "d \<in> set S32_CHAR" for c d
    using sorted_wrt_nth_less[OF sorted_S32, of "digit_val c" "digit_val d"] digit_val_props[OF that(1)]
      digit_val_props[OF that(2)] by (simp add: length_S32_CHAR)
  show ?thesis
    using lt[OF assms] lt[OF assms(2,1)] digit_val_props(3)[OF assms(1)] digit_val_props(3)[OF assms(2)]
    by (metis linorder_cases order.asym order_less_irrefl)
qed

lemma s32val_acc: "foldl (\<lambda>i c. i * 32 + digit_val c) a s = a * 32 ^ length s + s32val s"
proof (induction s arbitrary: a)
  case (Cons c s)
  show ?case
    using Cons[of "a * 32 + digit_val c"] Cons[of "digit_val c"]
    by (simp add: s32val_def algebra_simps)
qed (simp add: s32val_def)

lemma s32val_simps:
  "s32val [] = 0"
  "s32val (c # s) = digit_val c * 32 ^ length s + s32val s"
  "s32val (s @ t) = s32val s * 32 ^ length t + s32val t"
  using s32val_acc[of "digit_val c" s] s32val_acc[of "s32val s" t]
  by (simp_all add: s32val_def)

lemma s32val_bound: "s32_digits s \<Longrightarrow> s32val s < 32 ^ length s"
proof (induction s)
  case (Cons c s)
  then have "s32val s < 32 ^ length s" and "digit_val c < 32"
    using digit_val_props(2)[of c] by (auto simp: s32_digits_def)
  then have "digit_val c * 32 ^ length s + s32val s < (digit_val c + 1) * 32 ^ length s"
    by simp
  also have "\<dots> \<le> 32 * 32 ^ length s"
    using \<open>digit_val c < 32\<close> by (intro mult_right_mono) auto
  finally show ?case by (simp add: s32val_simps)
qed (simp add: s32val_simps)

text \<open>Digit strings of equal length are ordered as the numbers they denote.\<close>

lemma s32_less_iff:
  assumes "s32_digits s" "s32_digits t" "length s = length t"
  shows "s < t \<longleftrightarrow> s32val s < s32val t"
  using assms(3,1,2)
proof (induction s t rule: list_induct2)
  case (Cons c s d t)
  have cd: "c \<in> set S32_CHAR" "d \<in> set S32_CHAR" and st: "s32_digits s" "s32_digits t"
    using Cons.prems by (auto simp: s32_digits_def)
  let ?m = "(32 :: nat) ^ length t"
  have b: "s32val s < ?m" "s32val t < ?m"
    using s32val_bound[OF st(1)] s32val_bound[OF st(2)] Cons.hyps by auto
  have step: "digit_val x * ?m + u < digit_val y * ?m + v" if "digit_val x < digit_val y" "u < ?m" for x y u v
  proof -
    have "digit_val x * ?m + u < (digit_val x + 1) * ?m" using that(2) by simp
    also have "\<dots> \<le> digit_val y * ?m" using that(1) by (intro mult_right_mono) auto
    finally show ?thesis by simp
  qed
  have "c = d \<longleftrightarrow> digit_val c = digit_val d"
    using digit_val_props(3)[OF cd(1)] digit_val_props(3)[OF cd(2)] by metis
  moreover have "c < d \<longleftrightarrow> digit_val c < digit_val d" by (rule digit_less_iff[OF cd])
  moreover have "s < t \<longleftrightarrow> s32val s < s32val t" using Cons.IH st by simp
  ultimately show ?case
    using step[of c d "s32val s" "s32val t"] step[of d c "s32val t" "s32val s"] b Cons.hyps
    by (auto simp: s32val_simps)
qed simp

section \<open>Encoding and decoding\<close>

lemma s32decode_loop_val:
  "s32_digits s \<Longrightarrow> i * 32 ^ length s + s32val s < 2 ^ 64 \<Longrightarrow>
   s32decode_loop s i = Some (i * 32 ^ length s + s32val s)"
proof (induction s arbitrary: i)
  case (Cons c s)
  have c: "position c S32_CHAR = Some (digit_val c)" and d: "s32_digits s"
    using Cons.prems(1) digit_val_props(1)[of c] by (auto simp: s32_digits_def)
  have eq: "i * 32 ^ length (c # s) + s32val (c # s) = (i * 32 + digit_val c) * 32 ^ length s + s32val s"
    by (simp add: s32val_simps algebra_simps)
  have "(i * 32 + digit_val c) * 1 \<le> (i * 32 + digit_val c) * 32 ^ length s"
    by (intro mult_left_mono) auto
  then have "i * 32 + digit_val c \<le> (i * 32 + digit_val c) * 32 ^ length s" by simp
  also have "\<dots> \<le> (i * 32 + digit_val c) * 32 ^ length s + s32val s" by (rule le_add1)
  also have "\<dots> < 2 ^ 64" using Cons.prems(2) unfolding eq .
  finally have "i * 32 + digit_val c < 2 ^ 64" .
  then have "(i * 32 + digit_val c) mod 2 ^ 64 = i * 32 + digit_val c" by simp
  with Cons.IH[OF d, of "i * 32 + digit_val c"] Cons.prems(2) eq c show ?case by simp
qed (simp add: s32val_simps)

lemma s32decode_val:
  assumes "s32_digits s" and "length s \<le> 12"
  shows "s32decode s = Some (s32val s)"
proof -
  have "s32val s < 32 ^ length s" by (rule s32val_bound[OF assms(1)])
  also have "\<dots> \<le> (32 :: nat) ^ 12" using assms(2) by (intro power_increasing) auto
  also have "\<dots> < 2 ^ 64" by simp
  finally show ?thesis
    unfolding s32decode_def using s32decode_loop_val[OF assms(1), of 0] by simp
qed

lemma s32encode_loop_append: "s32encode_loop i s = s32encode_loop i [] @ s"
proof (induction i arbitrary: s rule: less_induct)
  case (less i)
  show ?case
  proof (cases "i > 0")
    case True
    then have IH: "s32encode_loop (i div 32) u = s32encode_loop (i div 32) [] @ u" for u
      by (intro less.IH) simp
    show ?thesis
      using True IH[of "[S32_CHAR ! (i mod 32)]"] IH[of "(S32_CHAR ! (i mod 32)) # s"]
      by (subst (1 2) s32encode_loop.simps) simp
  next
    case False
    then show ?thesis by (simp add: s32encode_loop.simps)
  qed
qed

lemma s32encode_0 [simp]: "s32encode 0 = []"
  by (simp add: s32encode_def s32encode_loop.simps)

lemma s32encode_pos: "i > 0 \<Longrightarrow> s32encode i = s32encode (i div 32) @ [S32_CHAR ! (i mod 32)]"
  unfolding s32encode_def
  by (subst s32encode_loop.simps) (simp add: s32encode_loop_append[of _ "[_]"])

lemma s32encode_digits: "s32_digits (s32encode i)"
proof (induction i rule: less_induct)
  case (less i)
  show ?case
  proof (cases "i > 0")
    case True
    then have "s32_digits (s32encode (i div 32))" by (intro less.IH) simp
    moreover have "S32_CHAR ! (i mod 32) \<in> set S32_CHAR"
      by (rule nth_mem) (simp add: length_S32_CHAR)
    ultimately show ?thesis using True by (simp add: s32encode_pos s32_digits_def)
  qed (simp add: s32_digits_def)
qed

lemma s32val_s32encode: "s32val (s32encode i) = i"
proof (induction i rule: less_induct)
  case (less i)
  then show ?case
    by (cases "i > 0") (auto simp: s32encode_pos s32val_simps digit_val_nth)
qed

lemma length_s32encode_le: "i < 32 ^ n \<Longrightarrow> length (s32encode i) \<le> n"
proof (induction n arbitrary: i)
  case (Suc n)
  then show ?case
    by (cases "i > 0") (auto simp: s32encode_pos div_less_iff_less_mult mult.commute)
qed simp

lemma length_s32encode_ge: "32 ^ n \<le> i \<Longrightarrow> n < length (s32encode i)"
proof -
  assume a: "32 ^ n \<le> i"
  have "i < 32 ^ length (s32encode i)"
    using s32val_bound[OF s32encode_digits, of i] by (simp add: s32val_s32encode)
  with a have "(32 :: nat) ^ n < 32 ^ length (s32encode i)" by linarith
  then show ?thesis using power_less_imp_less_exp[of "32::nat" n] by simp
qed

lemma length_s32encode_11: "32 ^ 10 \<le> i \<Longrightarrow> i < 32 ^ 11 \<Longrightarrow> length (s32encode i) = 11"
  using length_s32encode_le[of i 11] length_s32encode_ge[of 10 i] by simp

lemma s32_round_trip: "i < 32 ^ 12 \<Longrightarrow> s32decode (s32encode i) = Some i"
  using s32decode_val[OF s32encode_digits, of i] length_s32encode_le[of i 12]
  by (simp add: s32val_s32encode)

lemma two_digit: "CHR ''2'' \<in> set S32_CHAR" "digit_val CHR ''2'' = 0"
  by (simp_all add: digit_val_def S32_CHAR_def)

lemma s32val_replicate_2: "s32val (replicate n CHR ''2'') = 0"
  by (induction n) (simp_all add: s32val_simps(1,2) two_digit(2))

lemma pad2_props:
  assumes "c < 1024"
  shows "length (pad2 (s32encode c)) = 2" "s32_digits (pad2 (s32encode c))"
    "s32val (pad2 (s32encode c)) = c"
proof -
  have "length (s32encode c) \<le> 2" using assms by (intro length_s32encode_le) simp
  then show "length (pad2 (s32encode c)) = 2" by (simp add: pad2_def)
  show "s32_digits (pad2 (s32encode c))"
    using s32encode_digits[of c] two_digit(1) by (auto simp: pad2_def s32_digits_def)
  show "s32val (pad2 (s32encode c)) = c"
    by (simp add: pad2_def s32val_simps(3) s32val_replicate_2 s32val_s32encode)
qed

section \<open>Times and identifiers\<close>

text \<open>
  A time is in range when its encoding has the eleven digits a TID has for it: from
  \<open>32 ^ 10\<close> microseconds (September 2005) up to \<open>2 ^ 54\<close>, the last value whose first
  digit leaves the top bit clear.
\<close>

definition tid_time :: "nat \<Rightarrow> bool" where
  "tid_time ts \<longleftrightarrow> 32 ^ 10 \<le> ts \<and> ts < 2 ^ 54"

definition well_formed_tid :: "TID \<Rightarrow> bool" where
  "well_formed_tid t \<longleftrightarrow> length (tid_str t) = TID_LEN \<and> s32_digits (tid_str t)"

lemma tid_time_length: "tid_time ts \<Longrightarrow> length (s32encode ts) = 11"
  by (rule length_s32encode_11) (auto simp: tid_time_def)

lemma from_time_str:
  assumes "tid_time ts" "c < 1024"
  shows "length (tid_str (from_time ts c)) = 13" "s32_digits (tid_str (from_time ts c))"
    "s32val (tid_str (from_time ts c)) = ts * 1024 + c"
  using tid_time_length[OF assms(1)] pad2_props[OF assms(2)] s32encode_digits[of ts]
  by (auto simp: from_time_def s32val_simps s32val_s32encode s32_digits_def)

lemma from_time_well_formed: "tid_time ts \<Longrightarrow> c < 1024 \<Longrightarrow> well_formed_tid (from_time ts c)"
  by (simp add: well_formed_tid_def TID_LEN_def from_time_str)

lemma timestamp_from_time: "tid_time ts \<Longrightarrow> c < 1024 \<Longrightarrow> tid_timestamp (from_time ts c) = Some ts"
  using from_time_str(1)[of ts c] tid_time_length[of ts] s32_round_trip[of ts]
  by (simp add: tid_timestamp_def) (simp add: from_time_def tid_time_def)

lemma clock_id_from_time: "tid_time ts \<Longrightarrow> c < 1024 \<Longrightarrow> tid_clock_id (from_time ts c) = Some c"
  using from_time_str(1)[of ts c] tid_time_length[of ts] pad2_props[of c] s32decode_val[of "pad2 (s32encode c)"]
  by (simp add: tid_clock_id_def) (simp add: from_time_def)

lemma newer_than_iff: "newer_than a b \<longleftrightarrow> tid_str b < tid_str a"
  by (auto simp: newer_than_def compare_to_def)

lemma older_than_iff: "older_than a b \<longleftrightarrow> tid_str a < tid_str b"
  by (auto simp: older_than_def compare_to_def)

lemma well_formed_split:
  assumes "well_formed_tid t"
  obtains a b where "tid_str t = a @ b" "length a = 11" "length b = 2" "s32_digits a" "s32_digits b"
    "tid_timestamp t = Some (s32val a)"
proof
  let ?a = "take 11 (tid_str t)" and ?b = "drop 11 (tid_str t)"
  have len: "length (tid_str t) = 13" and dig: "s32_digits (tid_str t)"
    using assms by (auto simp: well_formed_tid_def TID_LEN_def)
  show "tid_str t = ?a @ ?b" "length ?a = 11" "length ?b = 2" using len by auto
  show a: "s32_digits ?a" "s32_digits ?b"
    using dig by (auto simp: s32_digits_def dest: in_set_takeD in_set_dropD)
  show "tid_timestamp t = Some (s32val ?a)"
    using s32decode_val[OF a(1)] len by (simp add: tid_timestamp_def)
qed

lemma from_time_order:
  assumes "tid_time ts" "tid_time ts'" "c < 1024" "c' < 1024"
  shows "newer_than (from_time ts' c') (from_time ts c) \<longleftrightarrow> ts < ts' \<or> ts = ts' \<and> c < c'"
  unfolding newer_than_iff
  using s32_less_iff[of "tid_str (from_time ts c)" "tid_str (from_time ts' c')"]
    from_time_str[OF assms(1,3)] from_time_str[OF assms(2,4)] assms(3,4)
  by auto

section \<open>The ticker moves forward\<close>

text \<open>
  The time after the one of \<open>p\<close> gives a later identifier, whatever the clock part of \<open>p\<close> is.
\<close>

lemma next_time_newer:
  assumes wf: "well_formed_tid p" and ts: "tid_timestamp p = Some ts"
    and time: "tid_time (ts + 1)" and c: "c < 1024"
  shows "newer_than (from_time (ts + 1) c) p"
proof -
  obtain a b where p: "tid_str p = a @ b" "length a = 11" "length b = 2" "s32_digits a" "s32_digits b"
    and a: "ts = s32val a"
    using well_formed_split[OF wf] ts by auto
  have "s32val b < 1024" using s32val_bound[OF p(5)] p(3) by simp
  then have "s32val (tid_str p) < s32val (tid_str (from_time (ts + 1) c))"
    using from_time_str(3)[OF time c] p(3) a by (simp add: p(1) s32val_simps)
  then show ?thesis
    unfolding newer_than_iff
    using s32_less_iff[of "tid_str p" "tid_str (from_time (ts + 1) c)"] from_time_str(1,2)[OF time c] wf
    by (simp add: well_formed_tid_def TID_LEN_def)
qed

lemma not_newer_time_le:
  assumes wf: "well_formed_tid p" and ts: "tid_timestamp p = Some ts"
    and m: "tid_time m" and c: "c < 1024" and n: "\<not> newer_than (from_time m c) p"
  shows "m \<le> ts"
proof (rule ccontr)
  assume "\<not> m \<le> ts"
  obtain a b where p: "tid_str p = a @ b" "length a = 11" "length b = 2" "s32_digits a" "s32_digits b"
    and a: "ts = s32val a"
    using well_formed_split[OF wf] ts by auto
  have "s32val b < 1024" using s32val_bound[OF p(5)] p(3) by simp
  moreover have "(ts + 1) * 1024 \<le> m * 1024" using \<open>\<not> m \<le> ts\<close> by simp
  ultimately have "s32val (tid_str p) < s32val (tid_str (from_time m c))"
    using from_time_str(3)[OF m c] p(3) a by (simp add: p(1) s32val_simps)
  then have "newer_than (from_time m c) p"
    unfolding newer_than_iff
    using s32_less_iff[of "tid_str p" "tid_str (from_time m c)"] from_time_str(1,2)[OF m c] wf
    by (simp add: well_formed_tid_def TID_LEN_def)
  with n show False by simp
qed

lemma ticker_next_time:
  assumes "32 ^ 10 \<le> now mod 2 ^ 53" and "last_timestamp tk < 2 ^ 53 - 1"
  defines "m \<equiv> (if now mod 2 ^ 53 > last_timestamp tk then now mod 2 ^ 53 else last_timestamp tk + 1)"
  shows "tid_time m" "m < 2 ^ 53" "last_timestamp tk < m"
    "ticker_next now prev tk =
      (case prev of
         None \<Rightarrow> Some (from_time m (clock_id tk mod 1024), tk\<lparr>last_timestamp := m\<rparr>)
       | Some p \<Rightarrow>
          if newer_than (from_time m (clock_id tk mod 1024)) p
          then Some (from_time m (clock_id tk mod 1024), tk\<lparr>last_timestamp := m\<rparr>)
          else map_option (\<lambda>ts. (from_time ((ts + 1) mod 2 ^ 64) (clock_id tk mod 1024),
                                tk\<lparr>last_timestamp := m\<rparr>)) (tid_timestamp p))"
proof -
  have "now mod 2 ^ 53 < (2 :: nat) ^ 53" by simp
  then show lt: "m < 2 ^ 53" using assms(2) by (auto simp: m_def)
  show "tid_time m" using assms(1) lt by (auto simp: tid_time_def m_def)
  show "last_timestamp tk < m" by (simp add: m_def)
  have "(last_timestamp tk + 1) mod 2 ^ 64 = last_timestamp tk + 1"
    using assms(2) by (intro mod_less) simp
  then have m: "(if now mod 2 ^ 53 > last_timestamp tk then now mod 2 ^ 53
      else (last_timestamp tk + 1) mod 2 ^ 64) = m"
    by (simp only: m_def)
  have "m mod 2 ^ 53 = m" using lt by (rule mod_less)
  then show "ticker_next now prev tk =
      (case prev of
         None \<Rightarrow> Some (from_time m (clock_id tk mod 1024), tk\<lparr>last_timestamp := m\<rparr>)
       | Some p \<Rightarrow>
          if newer_than (from_time m (clock_id tk mod 1024)) p
          then Some (from_time m (clock_id tk mod 1024), tk\<lparr>last_timestamp := m\<rparr>)
          else map_option (\<lambda>ts. (from_time ((ts + 1) mod 2 ^ 64) (clock_id tk mod 1024),
                                tk\<lparr>last_timestamp := m\<rparr>)) (tid_timestamp p))"
    unfolding ticker_next_def Let_def m by (simp split: option.splits)
qed

section \<open>Properties\<close>

text \<open>For a time of the TID range and a ten-bit clock identifier, decoding inverts the
  base32-sortable encoding, the TID built from them yields both back, and \<open>TID::new\<close> accepts its
  text unchanged.\<close>

theorem tid_round_trip:
  assumes "tid_time ts" "c < 1024"
  shows "s32decode (s32encode ts) = Some ts \<and> tid_timestamp (from_time ts c) = Some ts \<and>
    tid_clock_id (from_time ts c) = Some c \<and> tid_new (tid_str (from_time ts c)) = Inr (from_time ts c)"
proof -
  have "ts < 32 ^ 12" using assms(1) by (simp add: tid_time_def)
  then have "s32decode (s32encode ts) = Some ts" by (rule s32_round_trip)
  moreover have "CHR ''-'' \<notin> set S32_CHAR" by (simp add: S32_CHAR_def)
  then have "dedash (tid_str (from_time ts c)) = tid_str (from_time ts c)"
    using from_time_str(2)[OF assms] by (auto simp: dedash_def s32_digits_def filter_id_conv)
  ultimately show ?thesis
    using assms from_time_str(1)[OF assms]
    by (simp add: timestamp_from_time clock_id_from_time tid_new_def TID_LEN_def)
qed

theorem tid_round_trip_witness:
  "tid_timestamp (from_time (2 ^ 52) 7) = Some (2 ^ 52)"
  using tid_round_trip[of "2 ^ 52" 7] by (simp add: tid_time_def)

text \<open>Comparing TIDs as strings compares the moments they stand for: a TID is newer than another
  exactly when its time is later, or the same with a larger clock identifier.\<close>

theorem tid_string_order_is_time_order:
  assumes "tid_time ts" "tid_time ts'" "c < 1024" "c' < 1024"
  shows "(newer_than (from_time ts' c') (from_time ts c) \<longleftrightarrow> ts < ts' \<or> ts = ts' \<and> c < c') \<and>
    (older_than (from_time ts c) (from_time ts' c') \<longleftrightarrow> newer_than (from_time ts' c') (from_time ts c)) \<and>
    (tid_equals (from_time ts c) (from_time ts' c') \<longleftrightarrow> ts = ts' \<and> c = c')"
proof -
  have "tid_equals (from_time ts c) (from_time ts' c') \<longleftrightarrow>
      \<not> newer_than (from_time ts' c') (from_time ts c) \<and> \<not> newer_than (from_time ts c) (from_time ts' c')"
    unfolding tid_equals_def newer_than_iff by auto
  then show ?thesis
    using from_time_order[OF assms] from_time_order[OF assms(2,1,4,3)]
    by (auto simp: newer_than_iff older_than_iff)
qed

theorem tid_string_order_is_time_order_witness:
  "newer_than (from_time (2 ^ 52 + 1) 0) (from_time (2 ^ 52) 7)"
  using tid_string_order_is_time_order[of "2 ^ 52" "2 ^ 52 + 1" 7 0] by (simp add: tid_time_def)

lemma ticker_next_forward:
  assumes "32 ^ 10 \<le> now mod 2 ^ 53" and "last_timestamp tk < 2 ^ 53 - 1"
    and prev: "case prev of None \<Rightarrow> True
      | Some p \<Rightarrow> well_formed_tid p \<and> (\<exists>ts. tid_timestamp p = Some ts \<and> ts + 1 < 2 ^ 54)"
  shows "\<exists>t tk'. ticker_next now prev tk = Some (t, tk') \<and> well_formed_tid t \<and>
    (case prev of None \<Rightarrow> True | Some p \<Rightarrow> newer_than t p) \<and>
    last_timestamp tk < last_timestamp tk' \<and> clock_id tk' = clock_id tk"
proof -
  define m where "m = (if now mod 2 ^ 53 > last_timestamp tk then now mod 2 ^ 53 else last_timestamp tk + 1)"
  note nx = ticker_next_time[OF assms(1,2), folded m_def]
  let ?c = "clock_id tk mod 1024"
  have c: "?c < 1024" by simp
  show ?thesis
  proof (cases prev)
    case None
    then show ?thesis using nx from_time_well_formed[OF nx(1) c] by simp
  next
    case (Some p)
    then obtain ts where p: "well_formed_tid p" "tid_timestamp p = Some ts" "ts + 1 < 2 ^ 54" using prev by auto
    show ?thesis
    proof (cases "newer_than (from_time m ?c) p")
      case True
      then show ?thesis using Some nx from_time_well_formed[OF nx(1) c] by simp
    next
      case False
      have "m \<le> ts" by (rule not_newer_time_le[OF p(1,2) nx(1) c False])
      then have t: "tid_time (ts + 1)" using nx(1) p(3) by (simp add: tid_time_def)
      have "(ts + 1) mod 2 ^ 64 = ts + 1" using p(3) by (intro mod_less) simp
      then show ?thesis
        using Some False nx p(2) next_time_newer[OF p(1,2) t c] from_time_well_formed[OF t c] by simp
    qed
  qed
qed

text \<open>C35. The ticker never goes back: with the clock inside the TID range, \<open>next\<close> returns, its
  identifier is well formed and newer than the one passed in, and the stored time has advanced.\<close>

theorem ticker_moves_forward:
  assumes "32 ^ 10 \<le> now mod 2 ^ 53" and "last_timestamp tk < 2 ^ 53 - 1"
    and "case prev of None \<Rightarrow> True
      | Some p \<Rightarrow> well_formed_tid p \<and> (\<exists>ts. tid_timestamp p = Some ts \<and> ts + 1 < 2 ^ 54)"
  shows "\<exists>t tk'. ticker_next now prev tk = Some (t, tk') \<and> well_formed_tid t \<and>
    (case prev of None \<Rightarrow> True | Some p \<Rightarrow> newer_than t p) \<and>
    last_timestamp tk < last_timestamp tk' \<and> clock_id tk' = clock_id tk"
  using assms by (rule ticker_next_forward)

theorem ticker_moves_forward_witness:
  "\<exists>t tk'. ticker_next (2 ^ 52) (Some (from_time (2 ^ 52) 1023)) \<lparr>last_timestamp = 0, clock_id = 5\<rparr> = Some (t, tk') \<and>
     newer_than t (from_time (2 ^ 52) 1023)"
proof -
  have t: "tid_time (2 ^ 52)" by (simp add: tid_time_def)
  show ?thesis
    using ticker_moves_forward[of "2 ^ 52" "\<lparr>last_timestamp = 0, clock_id = 5\<rparr>" "Some (from_time (2 ^ 52) 1023)"]
      from_time_well_formed[OF t, of 1023] timestamp_from_time[OF t, of 1023]
    by fastforce
qed

end
