(* ===== verification/Mst_Node.thy ===== *)
theory Mst_Node
  imports Regex
begin

text \<open>
  \<open>rsky-repo/src/mst/util.rs\<close> and the data types, constructors and lazy getters of
  \<open>rsky-repo/src/mst/mod.rs\<close>.

  A \<open>Cid\<close> is represented by its canonical text form. The crates the code calls (SHA-256,
  DAG-CBOR, the CID of a block, the regular expression engine) are the fields of the record
  \<open>ext\<close>, an argument of every definition that uses them. The block store is read through
  \<open>B\<close>, the map from CIDs to bytes that \<open>get_bytes\<close> implements.

  The shared cells of an \<open>MST\<close> (\<open>entries\<close>, \<open>pointer\<close>, \<open>outdated_pointer\<close> behind
  \<open>Arc<RwLock>\<close>) are caches: hydrating a node or recomputing its pointer stores the value
  that the next read would compute again. The model computes that value at each read, so an
  operation takes and returns plain values. A recursion that may pass through nodes loaded
  from the store takes a fuel argument; running out is \<open>OutOfFuel\<close>.
\<close>

section \<open>Data\<close>

type_synonym cid = string

record tree_entry =
  te_p :: "8 word"
  te_k :: string
  te_v :: cid
  te_t :: "cid option"

record node_data =
  nd_l :: "cid option"
  nd_e :: "tree_entry list"

datatype mst =
  MST (entries: "node_entry list option") (layer: "nat option") (pointer: cid) (outdated: bool)
and node_entry =
    TreeE mst
  | LeafE string cid

type_synonym leaf = "string \<times> cid"

datatype mst_error =
    InvalidMstKey string
  | TwoSubtrees
  | PrefixTooLong nat
  | Utf8Error
  | SlicePanic
  | MissingBlock cid
  | UnexpectedObject cid
  | AlreadyValue string
  | CouldNotFind string
  | DifferentLayers
  | ZeroEntries
  | WalkIsDone
  | UnknownLayer
  | NoTreeAtPointer
  | RootIsLeaf
  | UnidentifiableCase
  | OutOfFuel

record ext =
  x_match :: "rexp \<Rightarrow> string \<Rightarrow> bool"
  x_sha256 :: "string \<Rightarrow> bytes"
  x_cid :: "node_data \<Rightarrow> cid"
  x_enc :: "node_data \<Rightarrow> bytes"
  x_dec :: "bytes \<Rightarrow> node_data option"

type_synonym blocks = "cid \<Rightarrow> bytes option"

section \<open>Keys\<close>

definition mst_key_char :: "char \<Rightarrow> bool" where
  "mst_key_char c \<longleftrightarrow>
     is_ascii_alphanumeric c \<or> c \<in> {CHR ''_'', CHR ''~'', CHR ''-'', CHR '':'', CHR ''.''}"

definition MST_CHARS_REGEX :: rexp where
  "MST_CHARS_REGEX = Star (Cls mst_key_char)"

definition is_valid_chars :: "ext \<Rightarrow> string \<Rightarrow> bool" where
  "is_valid_chars X input = x_match X MST_CHARS_REGEX input"

definition is_valid_repo_mst_path :: "ext \<Rightarrow> string \<Rightarrow> bool" where
  "is_valid_repo_mst_path X key =
     (let parts = split_on CHR ''/'' key
      in length key \<le> 1024 \<and> length parts = 2 \<and> parts ! 0 \<noteq> [] \<and> parts ! 1 \<noteq> [] \<and>
         is_valid_chars X (parts ! 0) \<and> is_valid_chars X (parts ! 1))"

definition ensure_valid_mst_key :: "ext \<Rightarrow> string \<Rightarrow> mst_error + unit" where
  "ensure_valid_mst_key X key =
     (if is_valid_repo_mst_path X key then Inr () else Inl (InvalidMstKey key))"

text \<open>The loop over the digest: four counts per byte, and stop at the first non-zero byte.\<close>

fun zeros_of_digest :: "bytes \<Rightarrow> nat" where
  "zeros_of_digest [] = 0"
| "zeros_of_digest (b # bs) =
     (if b < 64 then 1 else 0) + (if b < 16 then 1 else 0) + (if b < 4 then 1 else 0) +
     (if b = 0 then 1 + zeros_of_digest bs else 0)"

definition leading_zeros_on_hash :: "ext \<Rightarrow> string \<Rightarrow> nat" where
  "leading_zeros_on_hash X key = zeros_of_digest (x_sha256 X key)"

fun layer_for_entries :: "ext \<Rightarrow> node_entry list \<Rightarrow> nat option" where
  "layer_for_entries X [] = None"
| "layer_for_entries X (TreeE _ # es) = layer_for_entries X es"
| "layer_for_entries X (LeafE k _ # es) = Some (leading_zeros_on_hash X k)"

section \<open>Serialisation\<close>

fun count_prefix_len :: "string \<Rightarrow> string \<Rightarrow> nat" where
  "count_prefix_len (a # as) (b # bs) = (if a = b then 1 + count_prefix_len as bs else 0)"
| "count_prefix_len _ _ = 0"

definition ser_entry :: "ext \<Rightarrow> string \<Rightarrow> string \<Rightarrow> cid \<Rightarrow> cid option \<Rightarrow> mst_error + tree_entry" where
  "ser_entry X last_key k v subtree =
     res_bind (ensure_valid_mst_key X k) (\<lambda>_.
       let prefix_len = count_prefix_len last_key k
       in if prefix_len \<ge> 256 then Inl (PrefixTooLong prefix_len)
          else Inr \<lparr>te_p = of_nat prefix_len, te_k = drop prefix_len k, te_v = v, te_t = subtree\<rparr>)"

fun ser_loop :: "ext \<Rightarrow> string \<Rightarrow> node_entry list \<Rightarrow> mst_error + tree_entry list" where
  "ser_loop X last_key [] = Inr []"
| "ser_loop X last_key (TreeE _ # es) = Inl TwoSubtrees"
| "ser_loop X last_key (LeafE k v # TreeE t # es) =
     res_bind (ser_entry X last_key k v (Some (pointer t))) (\<lambda>te.
     res_bind (ser_loop X k es) (\<lambda>tes. Inr (te # tes)))"
| "ser_loop X last_key (LeafE k v # es) =
     res_bind (ser_entry X last_key k v None) (\<lambda>te.
     res_bind (ser_loop X k es) (\<lambda>tes. Inr (te # tes)))"

definition serialize_node_data :: "ext \<Rightarrow> node_entry list \<Rightarrow> mst_error + node_data" where
  "serialize_node_data X es =
     (case es of
        TreeE t # rest \<Rightarrow>
          res_bind (ser_loop X [] rest) (\<lambda>tes. Inr \<lparr>nd_l = Some (pointer t), nd_e = tes\<rparr>)
      | _ \<Rightarrow> res_bind (ser_loop X [] es) (\<lambda>tes. Inr \<lparr>nd_l = None, nd_e = tes\<rparr>))"

definition cid_for_entries :: "ext \<Rightarrow> node_entry list \<Rightarrow> mst_error + cid" where
  "cid_for_entries X es = res_bind (serialize_node_data X es) (\<lambda>d. Inr (x_cid X d))"

section \<open>Constructors\<close>

text \<open>\<open>u32\<close> arithmetic on layers wraps.\<close>

definition u32_sub1 :: "nat \<Rightarrow> nat" where
  "u32_sub1 l = (l + (2 ^ 32 - 1)) mod 2 ^ 32"

definition u32_add1 :: "nat \<Rightarrow> nat" where
  "u32_add1 l = (l + 1) mod 2 ^ 32"

definition mst_load :: "cid \<Rightarrow> nat option \<Rightarrow> mst" where
  "mst_load c l = MST None l c False"

definition mst_create :: "ext \<Rightarrow> node_entry list option \<Rightarrow> nat option \<Rightarrow> mst_error + mst" where
  "mst_create X es l =
     (let es' = (case es of None \<Rightarrow> [] | Some es \<Rightarrow> es)
      in res_bind (cid_for_entries X es') (\<lambda>p. Inr (MST (Some es') l p False)))"

definition new_tree :: "mst \<Rightarrow> node_entry list \<Rightarrow> mst" where
  "new_tree t es = MST (Some es) (layer t) (pointer t) True"

section \<open>Deserialisation\<close>

text \<open>\<open>str::from_utf8\<close>: the well-formed byte sequences of UTF-8.\<close>

definition byte_in :: "nat \<Rightarrow> nat \<Rightarrow> char \<Rightarrow> bool" where
  "byte_in lo hi c \<longleftrightarrow> lo \<le> of_char c \<and> (of_char c :: nat) \<le> hi"

definition cont :: "char \<Rightarrow> bool" where
  "cont = byte_in 128 191"

fun utf8_ok :: "string \<Rightarrow> bool" where
  "utf8_ok [] = True"
| "utf8_ok [a] = byte_in 0 127 a"
| "utf8_ok [a, b] =
     (if byte_in 0 127 a then byte_in 0 127 b
      else byte_in 194 223 a \<and> cont b)"
| "utf8_ok [a, b, c] =
     (if byte_in 0 127 a then utf8_ok [b, c]
      else if byte_in 194 223 a then cont b \<and> byte_in 0 127 c
      else cont c \<and>
        (byte_in 224 224 a \<and> byte_in 160 191 b \<or>
         byte_in 237 237 a \<and> byte_in 128 159 b \<or>
         (byte_in 225 236 a \<or> byte_in 238 239 a) \<and> cont b))"
| "utf8_ok (a # b # c # d # rest) =
     (if byte_in 0 127 a then utf8_ok (b # c # d # rest)
      else if byte_in 194 223 a then cont b \<and> utf8_ok (c # d # rest)
      else if byte_in 224 239 a then
        cont c \<and>
        (byte_in 224 224 a \<and> byte_in 160 191 b \<or>
         byte_in 237 237 a \<and> byte_in 128 159 b \<or>
         (byte_in 225 236 a \<or> byte_in 238 239 a) \<and> cont b) \<and> utf8_ok (d # rest)
      else cont c \<and> cont d \<and>
        (byte_in 240 240 a \<and> byte_in 144 191 b \<or>
         byte_in 241 243 a \<and> cont b \<or>
         byte_in 244 244 a \<and> byte_in 128 143 b) \<and> utf8_ok rest)"

definition child_layer :: "nat option \<Rightarrow> nat option" where
  "child_layer l = map_option u32_sub1 l"

fun deser_loop :: "ext \<Rightarrow> nat option \<Rightarrow> string \<Rightarrow> tree_entry list \<Rightarrow> mst_error + node_entry list" where
  "deser_loop X l last_key [] = Inr []"
| "deser_loop X l last_key (te # tes) =
     (if \<not> utf8_ok (te_k te) then Inl Utf8Error
      else let p = unat (te_p te) in
        if p > length last_key then Inl SlicePanic
        else let key = take p last_key @ te_k te in
          res_bind (ensure_valid_mst_key X key) (\<lambda>_.
          res_bind (deser_loop X l key tes) (\<lambda>es.
            Inr (LeafE key (te_v te) #
                 (case te_t te of None \<Rightarrow> es | Some t \<Rightarrow> TreeE (mst_load t (child_layer l)) # es)))))"

definition deserialize_node_data :: "ext \<Rightarrow> node_data \<Rightarrow> nat option \<Rightarrow> mst_error + node_entry list" where
  "deserialize_node_data X d l =
     res_bind (deser_loop X l [] (nd_e d)) (\<lambda>es.
       Inr (case nd_l d of None \<Rightarrow> es | Some c \<Rightarrow> TreeE (mst_load c (child_layer l)) # es))"

definition mst_from_data :: "ext \<Rightarrow> node_data \<Rightarrow> nat option \<Rightarrow> mst_error + mst" where
  "mst_from_data X d l =
     res_bind (deserialize_node_data X d l) (\<lambda>es. Inr (MST (Some es) l (x_cid X d) False))"

section \<open>Lazy getters\<close>

definition get_entries :: "ext \<Rightarrow> blocks \<Rightarrow> mst \<Rightarrow> mst_error + node_entry list" where
  "get_entries X B t =
     (case entries t of
        Some es \<Rightarrow> Inr es
      | None \<Rightarrow>
          (case B (pointer t) of
             None \<Rightarrow> Inl (MissingBlock (pointer t))
           | Some bs \<Rightarrow>
               (case x_dec X bs of
                  None \<Rightarrow> Inl (UnexpectedObject (pointer t))
                | Some d \<Rightarrow>
                    (let l = (case nd_e d of
                                [] \<Rightarrow> None
                              | first_leaf # _ \<Rightarrow> Some (leading_zeros_on_hash X (te_k first_leaf)))
                     in deserialize_node_data X d l))))"

text \<open>
  \<open>serialize\<close> first gives every outdated child its pointer and then reads the pointers of
  the children; \<open>set_pointer\<close> is what \<open>get_pointer\<close> leaves in the child's cells.
\<close>

definition set_pointer :: "mst \<Rightarrow> cid \<Rightarrow> mst" where
  "set_pointer t p = MST (entries t) (layer t) p False"

fun get_pointer :: "ext \<Rightarrow> blocks \<Rightarrow> nat \<Rightarrow> mst \<Rightarrow> mst_error + cid" where
  "get_pointer X B 0 t = (if \<not> outdated t then Inr (pointer t) else Inl OutOfFuel)"
| "get_pointer X B (Suc n) t =
     (if \<not> outdated t then Inr (pointer t)
      else
        res_bind (get_entries X B t) (\<lambda>es.
        res_bind (res_map (\<lambda>e. case e of
            TreeE s \<Rightarrow> if outdated s then res_bind (get_pointer X B n s) (\<lambda>p. Inr (TreeE (set_pointer s p)))
                       else Inr e
          | LeafE k v \<Rightarrow> Inr e) es) (\<lambda>es'.
        res_bind (serialize_node_data X es') (\<lambda>d. Inr (x_cid X d)))))"

definition refresh_entry :: "ext \<Rightarrow> blocks \<Rightarrow> nat \<Rightarrow> node_entry \<Rightarrow> mst_error + node_entry" where
  "refresh_entry X B n e =
     (case e of
        TreeE s \<Rightarrow> if outdated s then res_bind (get_pointer X B n s) (\<lambda>p. Inr (TreeE (set_pointer s p)))
                   else Inr e
      | LeafE k v \<Rightarrow> Inr e)"

definition mst_serialize :: "ext \<Rightarrow> blocks \<Rightarrow> nat \<Rightarrow> mst \<Rightarrow> mst_error + cid \<times> bytes" where
  "mst_serialize X B n t =
     res_bind (get_entries X B t) (\<lambda>es.
     res_bind (res_map (refresh_entry X B n) es) (\<lambda>es'.
     res_bind (serialize_node_data X es') (\<lambda>d. Inr (x_cid X d, x_enc X d))))"

text \<open>The first subtree with a layer decides when the node has no leaf of its own.\<close>

fun first_child_layer :: "(mst \<Rightarrow> mst_error + nat option) \<Rightarrow> node_entry list \<Rightarrow> mst_error + nat option" where
  "first_child_layer f [] = Inr None"
| "first_child_layer f (LeafE _ _ # es) = first_child_layer f es"
| "first_child_layer f (TreeE s # es) =
     res_bind (f s) (\<lambda>c. case c of Some l \<Rightarrow> Inr (Some (u32_add1 l)) | None \<Rightarrow> first_child_layer f es)"

fun attempt_get_layer :: "ext \<Rightarrow> blocks \<Rightarrow> nat \<Rightarrow> mst \<Rightarrow> mst_error + nat option" where
  "attempt_get_layer X B 0 t = (case layer t of Some l \<Rightarrow> Inr (Some l) | None \<Rightarrow> Inl OutOfFuel)"
| "attempt_get_layer X B (Suc n) t =
     (case layer t of
        Some l \<Rightarrow> Inr (Some l)
      | None \<Rightarrow>
          res_bind (get_entries X B t) (\<lambda>es.
            case layer_for_entries X es of
              Some l \<Rightarrow> Inr (Some l)
            | None \<Rightarrow> first_child_layer (attempt_get_layer X B n) es))"

text \<open>\<open>get_layer\<close> also stores the layer in the node it is called on.\<close>

definition get_layer :: "ext \<Rightarrow> blocks \<Rightarrow> nat \<Rightarrow> mst \<Rightarrow> mst_error + nat \<times> mst" where
  "get_layer X B n t =
     res_bind (attempt_get_layer X B n t) (\<lambda>l.
       let l' = (case l of None \<Rightarrow> 0 | Some l \<Rightarrow> l)
       in Inr (l', MST (entries t) (Some l') (pointer t) (outdated t)))"

section \<open>Facts\<close>

lemma zeros_of_digest_bound: "zeros_of_digest bs \<le> 4 * length bs"
  by (induction bs rule: zeros_of_digest.induct) auto

lemma count_prefix_len_le: "count_prefix_len a b \<le> length a" "count_prefix_len a b \<le> length b"
  by (induction a b rule: count_prefix_len.induct) auto

lemma count_prefix_len_take: "take (count_prefix_len a b) a = take (count_prefix_len a b) b"
  by (induction a b rule: count_prefix_len.induct) auto

lemma u32_sub1_pos: "0 < l \<Longrightarrow> l < 2 ^ 32 \<Longrightarrow> u32_sub1 l = l - 1"
proof -
  assume a: "0 < l" "l < 2 ^ 32"
  then have "l + (2 ^ 32 - 1) = (l - 1) + 2 ^ 32" by simp
  then have "u32_sub1 l = ((l - 1) + 2 ^ 32) mod 2 ^ 32" by (simp only: u32_sub1_def)
  also have "\<dots> = l - 1" using a by (subst mod_add_self2) simp
  finally show ?thesis .
qed

lemma u32_add1_small: "l + 1 < 2 ^ 32 \<Longrightarrow> u32_add1 l = l + 1"
  unfolding u32_add1_def by (rule mod_less)

lemma get_entries_Some [simp]: "get_entries X B (MST (Some es) l p b) = Inr es"
  by (simp add: get_entries_def)

lemma get_entries_new_tree [simp]: "get_entries X B (new_tree t es) = Inr es"
  by (simp add: new_tree_def)

lemma get_entries_cong:
  assumes "entries s = entries t" "pointer s = pointer t"
  shows "get_entries X B s = get_entries X B t"
  unfolding get_entries_def assms ..

end
