(* ===== verification/Mst_Ops.thy ===== *)
theory Mst_Ops
  imports Mst_Node
begin

text \<open>
  The operations of \<open>rsky-repo/src/mst/mod.rs\<close> on one node and along a path: the entry
  list editing, splitting and merging of subtrees, and \<open>add\<close>, \<open>get\<close>, \<open>update\<close> and
  \<open>delete\<close>. Indices are signed, as \<open>isize\<close> in the code.
\<close>

section \<open>Simple operations\<close>

definition at_index :: "ext \<Rightarrow> blocks \<Rightarrow> mst \<Rightarrow> int \<Rightarrow> mst_error + node_entry option" where
  "at_index X B t index =
     res_bind (get_entries X B t) (\<lambda>es.
       Inr (if 0 \<le> index \<and> nat index < length es then Some (es ! nat index) else None))"

text \<open>
  The start and end rules of \<open>Array.prototype.slice\<close>, as \<open>slice\<close> spells them out: \<open>None\<close>
  is the early return of an empty vector.
\<close>

definition slice_start :: "int \<Rightarrow> int \<Rightarrow> int option" where
  "slice_start len start =
     (if start < 0 \<and> start \<ge> - len then Some (start + len)
      else if start < - len then Some 0
      else if start \<ge> len then None
      else Some start)"

definition slice_end :: "int \<Rightarrow> int \<Rightarrow> int \<Rightarrow> int option" where
  "slice_end len start end' =
     (if end' < 0 \<and> end' \<ge> - len then Some (end' + len)
      else if end' < - len then Some 0
      else if end' \<ge> len then Some len
      else if end' \<le> start then None
      else Some end')"

definition mst_slice ::
    "ext \<Rightarrow> blocks \<Rightarrow> mst \<Rightarrow> int option \<Rightarrow> int option \<Rightarrow> mst_error + node_entry list" where
  "mst_slice X B t start end' =
     res_bind (get_entries X B t) (\<lambda>es.
       let len = int (length es) in
       case (start, end') of
         (Some s, Some e) \<Rightarrow>
           (case slice_start len s of
              None \<Rightarrow> Inr []
            | Some s' \<Rightarrow>
                (case slice_end len s' e of
                   None \<Rightarrow> Inr []
                 | Some e' \<Rightarrow> if s' > e' then Inl SlicePanic
                              else Inr (drop (nat s') (take (nat e') es))))
       | (Some s, None) \<Rightarrow>
           (case slice_start len s of None \<Rightarrow> Inr [] | Some s' \<Rightarrow> Inr (drop (nat s') es))
       | (None, Some e) \<Rightarrow>
           (case slice_end len 0 e of None \<Rightarrow> Inr [] | Some e' \<Rightarrow> Inr (take (nat e') es))
       | (None, None) \<Rightarrow> Inr es)"

definition update_entry :: "ext \<Rightarrow> blocks \<Rightarrow> mst \<Rightarrow> int \<Rightarrow> node_entry \<Rightarrow> mst_error + mst" where
  "update_entry X B t index e =
     res_bind (mst_slice X B t (Some 0) (Some index)) (\<lambda>a.
     res_bind (mst_slice X B t (Some (index + 1)) None) (\<lambda>b.
       Inr (new_tree t (a @ e # b))))"

definition remove_entry :: "ext \<Rightarrow> blocks \<Rightarrow> mst \<Rightarrow> int \<Rightarrow> mst_error + mst" where
  "remove_entry X B t index =
     res_bind (mst_slice X B t (Some 0) (Some index)) (\<lambda>a.
     res_bind (mst_slice X B t (Some (index + 1)) None) (\<lambda>b.
       Inr (new_tree t (a @ b))))"

definition append_entry :: "ext \<Rightarrow> blocks \<Rightarrow> mst \<Rightarrow> node_entry \<Rightarrow> mst_error + mst" where
  "append_entry X B t e = res_bind (get_entries X B t) (\<lambda>es. Inr (new_tree t (es @ [e])))"

definition prepend_entry :: "ext \<Rightarrow> blocks \<Rightarrow> mst \<Rightarrow> node_entry \<Rightarrow> mst_error + mst" where
  "prepend_entry X B t e = res_bind (get_entries X B t) (\<lambda>es. Inr (new_tree t (e # es)))"

definition splice_in :: "ext \<Rightarrow> blocks \<Rightarrow> mst \<Rightarrow> node_entry \<Rightarrow> int \<Rightarrow> mst_error + mst" where
  "splice_in X B t e index =
     res_bind (mst_slice X B t (Some 0) (Some index)) (\<lambda>a.
     res_bind (mst_slice X B t (Some index) None) (\<lambda>b.
       Inr (new_tree t (a @ e # b))))"

definition opt_tree :: "mst option \<Rightarrow> node_entry list" where
  "opt_tree o' = (case o' of None \<Rightarrow> [] | Some t \<Rightarrow> [TreeE t])"

definition replace_with_split ::
    "ext \<Rightarrow> blocks \<Rightarrow> mst \<Rightarrow> int \<Rightarrow> mst option \<Rightarrow> leaf \<Rightarrow> mst option \<Rightarrow> mst_error + mst" where
  "replace_with_split X B t index left lf right =
     res_bind (mst_slice X B t (Some 0) (Some index)) (\<lambda>a.
     res_bind (mst_slice X B t (Some (index + 1)) None) (\<lambda>b.
       Inr (new_tree t (a @ opt_tree left @ [LeafE (fst lf) (snd lf)] @ opt_tree right @ b))))"

fun trim_top :: "ext \<Rightarrow> blocks \<Rightarrow> nat \<Rightarrow> mst \<Rightarrow> mst_error + mst" where
  "trim_top X B 0 t = Inl OutOfFuel"
| "trim_top X B (Suc n) t =
     res_bind (get_entries X B t) (\<lambda>es.
       case es of
         [TreeE s] \<Rightarrow> trim_top X B n s
       | _ \<Rightarrow> Inr t)"

section \<open>Finding insertion points\<close>

fun leaf_position :: "string \<Rightarrow> node_entry list \<Rightarrow> nat" where
  "leaf_position key [] = 0"
| "leaf_position key (TreeE _ # es) = 1 + leaf_position key es"
| "leaf_position key (LeafE k _ # es) = (if k \<ge> key then 0 else 1 + leaf_position key es)"

definition find_gt_or_equal_leaf_index :: "ext \<Rightarrow> blocks \<Rightarrow> mst \<Rightarrow> string \<Rightarrow> mst_error + int" where
  "find_gt_or_equal_leaf_index X B t key =
     res_bind (get_entries X B t) (\<lambda>es. Inr (int (leaf_position key es)))"

definition leaf_is :: "string \<Rightarrow> node_entry option \<Rightarrow> bool" where
  "leaf_is key e = (case e of Some (LeafE k _) \<Rightarrow> k = key | _ \<Rightarrow> False)"

section \<open>Subtrees and splits\<close>

text \<open>\<open>None\<close> for a side that is left without entries.\<close>

definition non_empty_tree :: "ext \<Rightarrow> blocks \<Rightarrow> mst \<Rightarrow> mst_error + mst option" where
  "non_empty_tree X B t =
     res_bind (get_entries X B t) (\<lambda>es. Inr (if length es = 0 then None else Some t))"

fun split_around :: "ext \<Rightarrow> blocks \<Rightarrow> nat \<Rightarrow> mst \<Rightarrow> string \<Rightarrow> mst_error + mst option \<times> mst option" where
  "split_around X B 0 t key = Inl OutOfFuel"
| "split_around X B (Suc n) t key =
     res_bind (find_gt_or_equal_leaf_index X B t key) (\<lambda>index.
     res_bind (mst_slice X B t (Some 0) (Some index)) (\<lambda>left_data.
     res_bind (mst_slice X B t (Some index) None) (\<lambda>right_data.
     let left = new_tree t left_data; right = new_tree t right_data in
     res_bind
       (if left_data \<noteq> [] then
          (case last left_data of
             TreeE last_in_left \<Rightarrow>
               res_bind (remove_entry X B left (int (length left_data) - 1)) (\<lambda>left1.
               res_bind (split_around X B n last_in_left key) (\<lambda>(s0, s1).
               res_bind (case s0 of None \<Rightarrow> Inr left1 | Some s \<Rightarrow> append_entry X B left1 (TreeE s)) (\<lambda>left2.
               res_bind (case s1 of None \<Rightarrow> Inr right | Some s \<Rightarrow> prepend_entry X B right (TreeE s)) (\<lambda>right2.
                 Inr (left2, right2)))))
           | LeafE _ _ \<Rightarrow> Inr (left, right))
        else Inr (left, right))
       (\<lambda>(left, right).
          res_bind (non_empty_tree X B left) (\<lambda>lo.
          res_bind (non_empty_tree X B right) (\<lambda>ro. Inr (lo, ro)))))))"

fun append_merge :: "ext \<Rightarrow> blocks \<Rightarrow> nat \<Rightarrow> mst \<Rightarrow> mst \<Rightarrow> mst_error + mst" where
  "append_merge X B 0 t to_merge = Inl OutOfFuel"
| "append_merge X B (Suc n) t to_merge =
     res_bind (get_layer X B (Suc n) t) (\<lambda>(l1, t').
     res_bind (get_layer X B (Suc n) to_merge) (\<lambda>(l2, to_merge').
       if l1 \<noteq> l2 then Inl DifferentLayers
       else
         res_bind (get_entries X B t') (\<lambda>self_entries.
         res_bind (get_entries X B to_merge') (\<lambda>to_merge_entries.
         case (rev self_entries, to_merge_entries) of
           (TreeE l # rest, TreeE r # rest') \<Rightarrow>
             res_bind (append_merge X B n l r) (\<lambda>merged.
               Inr (new_tree t' (rev rest @ TreeE merged # rest')))
         | _ \<Rightarrow> Inr (new_tree t' (self_entries @ to_merge_entries))))))"

section \<open>Create relatives\<close>

definition create_child :: "ext \<Rightarrow> blocks \<Rightarrow> nat \<Rightarrow> mst \<Rightarrow> mst_error + mst" where
  "create_child X B n t =
     res_bind (get_layer X B n t) (\<lambda>(l, _). mst_create X (Some []) (Some (u32_sub1 l)))"

definition create_parent :: "ext \<Rightarrow> blocks \<Rightarrow> nat \<Rightarrow> mst \<Rightarrow> mst_error + mst" where
  "create_parent X B n t =
     res_bind (get_layer X B n t) (\<lambda>(l, t').
     res_bind (mst_create X (Some [TreeE t']) (Some (u32_add1 l))) (\<lambda>parent.
       Inr (MST (entries parent) (layer parent) (pointer parent) True)))"

text \<open>The loop \<open>for _ in 1..extra_layers_to_add\<close> over the two sides of the split.\<close>

definition opt_parent :: "ext \<Rightarrow> blocks \<Rightarrow> nat \<Rightarrow> mst option \<Rightarrow> mst_error + mst option" where
  "opt_parent X B n t =
     (case t of None \<Rightarrow> Inr None | Some t' \<Rightarrow> res_bind (create_parent X B n t') (\<lambda>p. Inr (Some p)))"

fun create_parents ::
    "ext \<Rightarrow> blocks \<Rightarrow> nat \<Rightarrow> nat \<Rightarrow> mst option \<Rightarrow> mst option \<Rightarrow> mst_error + mst option \<times> mst option" where
  "create_parents X B n 0 left right = Inr (left, right)"
| "create_parents X B n (Suc k) left right =
     res_bind (opt_parent X B n left) (\<lambda>left'.
     res_bind (opt_parent X B n right) (\<lambda>right'.
       create_parents X B n k left' right'))"

section \<open>Core functionality\<close>

fun mst_add :: "ext \<Rightarrow> blocks \<Rightarrow> nat \<Rightarrow> mst \<Rightarrow> string \<Rightarrow> cid \<Rightarrow> nat option \<Rightarrow> mst_error + mst" where
  "mst_add X B 0 t key value known_zeros = Inl OutOfFuel"
| "mst_add X B (Suc n) t key value known_zeros =
     res_bind (ensure_valid_mst_key X key) (\<lambda>_.
     let key_zeros = (case known_zeros of Some z \<Rightarrow> z | None \<Rightarrow> leading_zeros_on_hash X key) in
     res_bind (get_layer X B (Suc n) t) (\<lambda>(l, self).
       if key_zeros = l then
         res_bind (find_gt_or_equal_leaf_index X B self key) (\<lambda>index.
         res_bind (at_index X B self index) (\<lambda>found.
           if leaf_is key found then Inl (AlreadyValue key)
           else res_bind (at_index X B self (index - 1)) (\<lambda>prev_node.
             case prev_node of
               Some (LeafE _ _) \<Rightarrow> splice_in X B self (LeafE key value) index
             | Some (TreeE m) \<Rightarrow>
                 res_bind (split_around X B n m key) (\<lambda>(left, right).
                   replace_with_split X B self (index - 1) left (key, value) right)
             | None \<Rightarrow> splice_in X B self (LeafE key value) index)))
       else if key_zeros < l then
         res_bind (find_gt_or_equal_leaf_index X B self key) (\<lambda>index.
         res_bind (at_index X B self (index - 1)) (\<lambda>prev_node.
           case prev_node of
             Some (TreeE p) \<Rightarrow>
               res_bind (mst_add X B n p key value (Some key_zeros)) (\<lambda>new_subtree.
                 update_entry X B self (index - 1) (TreeE new_subtree))
           | _ \<Rightarrow>
               res_bind (create_child X B (Suc n) self) (\<lambda>sub_tree.
               res_bind (mst_add X B n sub_tree key value (Some key_zeros)) (\<lambda>new_subtree.
                 splice_in X B self (TreeE new_subtree) index))))
       else
         (let extra_layers_to_add = key_zeros - l in
          res_bind (split_around X B (Suc n) self key) (\<lambda>(left, right).
          res_bind (create_parents X B (Suc n) (extra_layers_to_add - 1) left right) (\<lambda>(left', right').
          res_bind (mst_create X (Some (opt_tree left' @ [LeafE key value] @ opt_tree right')) (Some key_zeros))
            (\<lambda>new_root. Inr (MST (entries new_root) (layer new_root) (pointer new_root) True)))))))"

fun mst_get :: "ext \<Rightarrow> blocks \<Rightarrow> nat \<Rightarrow> mst \<Rightarrow> string \<Rightarrow> mst_error + cid option" where
  "mst_get X B 0 t key = Inl OutOfFuel"
| "mst_get X B (Suc n) t key =
     res_bind (find_gt_or_equal_leaf_index X B t key) (\<lambda>index.
     res_bind (at_index X B t index) (\<lambda>found.
       case found of
         Some (LeafE k v) \<Rightarrow>
           if k = key then Inr (Some v)
           else res_bind (at_index X B t (index - 1)) (\<lambda>prev.
             case prev of Some (TreeE p) \<Rightarrow> mst_get X B n p key | _ \<Rightarrow> Inr None)
       | _ \<Rightarrow>
           res_bind (at_index X B t (index - 1)) (\<lambda>prev.
             case prev of Some (TreeE p) \<Rightarrow> mst_get X B n p key | _ \<Rightarrow> Inr None)))"

fun mst_update :: "ext \<Rightarrow> blocks \<Rightarrow> nat \<Rightarrow> mst \<Rightarrow> string \<Rightarrow> cid \<Rightarrow> mst_error + mst" where
  "mst_update X B 0 t key value = Inl OutOfFuel"
| "mst_update X B (Suc n) t key value =
     res_bind (ensure_valid_mst_key X key) (\<lambda>_.
     res_bind (find_gt_or_equal_leaf_index X B t key) (\<lambda>index.
     res_bind (at_index X B t index) (\<lambda>found.
       if leaf_is key found then update_entry X B t index (LeafE key value)
       else res_bind (at_index X B t (index - 1)) (\<lambda>prev.
         case prev of
           Some (TreeE p) \<Rightarrow>
             res_bind (mst_update X B n p key value) (\<lambda>updated_tree.
               update_entry X B t (index - 1) (TreeE updated_tree))
         | _ \<Rightarrow> Inl (CouldNotFind key)))))"

fun delete_recurse :: "ext \<Rightarrow> blocks \<Rightarrow> nat \<Rightarrow> mst \<Rightarrow> string \<Rightarrow> mst_error + mst" where
  "delete_recurse X B 0 t key = Inl OutOfFuel"
| "delete_recurse X B (Suc n) t key =
     res_bind (find_gt_or_equal_leaf_index X B t key) (\<lambda>index.
     res_bind (at_index X B t index) (\<lambda>found.
       if leaf_is key found then
         res_bind (at_index X B t (index - 1)) (\<lambda>prev.
         res_bind (at_index X B t (index + 1)) (\<lambda>next.
           case (prev, next) of
             (Some (TreeE p), Some (TreeE nx)) \<Rightarrow>
               res_bind (append_merge X B n p nx) (\<lambda>merged.
               res_bind (mst_slice X B t (Some 0) (Some (index - 1))) (\<lambda>a.
               res_bind (mst_slice X B t (Some (index + 2)) None) (\<lambda>b.
                 Inr (new_tree t (a @ TreeE merged # b)))))
           | _ \<Rightarrow> remove_entry X B t index))
       else res_bind (at_index X B t (index - 1)) (\<lambda>prev.
         case prev of
           Some (TreeE p) \<Rightarrow>
             res_bind (delete_recurse X B n p key) (\<lambda>subtree.
             res_bind (get_entries X B subtree) (\<lambda>subtree_entries.
               if subtree_entries = [] then remove_entry X B t (index - 1)
               else update_entry X B t (index - 1) (TreeE subtree)))
         | _ \<Rightarrow> Inl (CouldNotFind key))))"

definition mst_delete :: "ext \<Rightarrow> blocks \<Rightarrow> nat \<Rightarrow> mst \<Rightarrow> string \<Rightarrow> mst_error + mst" where
  "mst_delete X B n t key = res_bind (delete_recurse X B n t key) (\<lambda>altered. trim_top X B n altered)"

end
