(* ===== verification/Mst_Inv.thy ===== *)
theory Mst_Inv
  imports Mst_Ops
begin

text \<open>
  What an MST node means and when it is well formed. The contents of a node are the leaves
  below it, in order. A node is well formed at layer \<open>L\<close> when its leaves hash to \<open>L\<close>, its
  subtrees are non-empty and well formed one layer down, and no two subtrees are
  neighbours. Since the layer drops by one on each level, the layer of a node bounds the
  depth of every recursion below it.
\<close>

section \<open>Contents\<close>

definition entries_of :: "ext \<Rightarrow> blocks \<Rightarrow> mst \<Rightarrow> node_entry list" where
  "entries_of X B t = (case get_entries X B t of Inl _ \<Rightarrow> [] | Inr es \<Rightarrow> es)"

fun tleaves :: "ext \<Rightarrow> blocks \<Rightarrow> nat \<Rightarrow> mst \<Rightarrow> leaf list" where
  "tleaves X B 0 t = []"
| "tleaves X B (Suc n) t =
     concat (map (\<lambda>e. case e of TreeE s \<Rightarrow> tleaves X B n s | LeafE k v \<Rightarrow> [(k, v)]) (entries_of X B t))"

definition eleaves :: "ext \<Rightarrow> blocks \<Rightarrow> nat \<Rightarrow> node_entry list \<Rightarrow> leaf list" where
  "eleaves X B n es =
     concat (map (\<lambda>e. case e of TreeE s \<Rightarrow> tleaves X B n s | LeafE k v \<Rightarrow> [(k, v)]) es)"

lemma eleaves_simps [simp]:
  "eleaves X B n [] = []"
  "eleaves X B n (TreeE s # es) = tleaves X B n s @ eleaves X B n es"
  "eleaves X B n (LeafE k v # es) = (k, v) # eleaves X B n es"
  "eleaves X B n (es @ fs) = eleaves X B n es @ eleaves X B n fs"
  by (simp_all add: eleaves_def)

lemma tleaves_Suc: "tleaves X B (Suc n) t = eleaves X B n (entries_of X B t)"
  by (simp add: eleaves_def)

declare tleaves.simps(2) [simp del]

lemma entries_of_Inr [simp]: "get_entries X B t = Inr es \<Longrightarrow> entries_of X B t = es"
  by (simp add: entries_of_def)

lemma entries_of_new_tree [simp]: "entries_of X B (new_tree t es) = es"
  by (simp add: entries_of_def)

lemma tleaves_cong: "get_entries X B s = get_entries X B t \<Longrightarrow> tleaves X B n s = tleaves X B n t"
  by (cases n) (simp_all add: tleaves_Suc entries_of_def)

lemma tleaves_new_tree [simp]: "tleaves X B (Suc n) (new_tree t es) = eleaves X B n es"
  by (simp add: tleaves_Suc)

lemma leaf_in_eleaves: "LeafE k v \<in> set es \<Longrightarrow> (k, v) \<in> set (eleaves X B n es)"
  by (induction es) (auto split: node_entry.splits simp: eleaves_def)

text \<open>
  The CID of a node when every pointer below it is computed afresh: the value the cached
  pointers stand for.
\<close>

fun root_cid :: "ext \<Rightarrow> blocks \<Rightarrow> nat \<Rightarrow> mst \<Rightarrow> mst_error + cid" where
  "root_cid X B 0 t = Inl OutOfFuel"
| "root_cid X B (Suc n) t =
     res_bind (get_entries X B t) (\<lambda>es.
     res_bind (res_map (\<lambda>e. case e of
         TreeE s \<Rightarrow> res_bind (root_cid X B n s) (\<lambda>p. Inr (TreeE (set_pointer s p)))
       | LeafE k v \<Rightarrow> Inr e) es)
       (cid_for_entries X))"

definition pointer_ok :: "ext \<Rightarrow> blocks \<Rightarrow> nat \<Rightarrow> mst \<Rightarrow> bool" where
  "pointer_ok X B L t \<longleftrightarrow> outdated t \<or> root_cid X B (Suc L) t = Inr (pointer t)"

section \<open>Well-formed nodes\<close>

definition is_tree :: "node_entry \<Rightarrow> bool" where
  "is_tree e = (case e of TreeE _ \<Rightarrow> True | LeafE _ _ \<Rightarrow> False)"

definition is_leaf :: "node_entry \<Rightarrow> bool" where
  "is_leaf e = (case e of TreeE _ \<Rightarrow> False | LeafE _ _ \<Rightarrow> True)"

definition no_adjacent_trees :: "node_entry list \<Rightarrow> bool" where
  "no_adjacent_trees es = successively (\<lambda>a b. \<not> (is_tree a \<and> is_tree b)) es"

definition entry_ok :: "ext \<Rightarrow> nat \<Rightarrow> (mst \<Rightarrow> bool) \<Rightarrow> node_entry \<Rightarrow> bool" where
  "entry_ok X L P e =
     (case e of
        TreeE s \<Rightarrow> P s
      | LeafE k v \<Rightarrow> leading_zeros_on_hash X k = L \<and> is_valid_repo_mst_path X k)"

definition entries_ok :: "ext \<Rightarrow> nat \<Rightarrow> (mst \<Rightarrow> bool) \<Rightarrow> node_entry list \<Rightarrow> bool" where
  "entries_ok X L P es \<longleftrightarrow> list_all (entry_ok X L P) es \<and> no_adjacent_trees es"

definition layer_ok :: "nat \<Rightarrow> node_entry list \<Rightarrow> nat option \<Rightarrow> bool" where
  "layer_ok L es l \<longleftrightarrow> L < 2 ^ 32 \<and> (l = Some L \<or> l = None \<and> (es \<noteq> [] \<or> L = 0))"

definition node_ok :: "ext \<Rightarrow> blocks \<Rightarrow> nat \<Rightarrow> (mst \<Rightarrow> bool) \<Rightarrow> mst \<Rightarrow> bool" where
  "node_ok X B L P t =
     (case get_entries X B t of
        Inl _ \<Rightarrow> False
      | Inr es \<Rightarrow> layer_ok L es (layer t) \<and> entries_ok X L P es \<and> pointer_ok X B L t)"

fun wf_mst :: "ext \<Rightarrow> blocks \<Rightarrow> nat \<Rightarrow> mst \<Rightarrow> bool" where
  "wf_mst X B 0 t = node_ok X B 0 (\<lambda>_. False) t"
| "wf_mst X B (Suc L) t = node_ok X B (Suc L) (\<lambda>s. wf_mst X B L s \<and> entries_of X B s \<noteq> []) t"

definition sub_ok :: "ext \<Rightarrow> blocks \<Rightarrow> nat \<Rightarrow> mst \<Rightarrow> bool" where
  "sub_ok X B L s =
     (case L of 0 \<Rightarrow> False | Suc L' \<Rightarrow> wf_mst X B L' s \<and> entries_of X B s \<noteq> [])"

lemma sub_ok_simps [simp]:
  "sub_ok X B 0 s \<longleftrightarrow> False"
  "sub_ok X B (Suc L) s \<longleftrightarrow> wf_mst X B L s \<and> entries_of X B s \<noteq> []"
  by (simp_all add: sub_ok_def)

lemma sub_ok_E:
  assumes "sub_ok X B L s"
  obtains L' where "L = Suc L'" "wf_mst X B L' s" "entries_of X B s \<noteq> []"
  using assms by (cases L) auto

lemma wf_mst_iff: "wf_mst X B L t \<longleftrightarrow> node_ok X B L (sub_ok X B L) t"
proof -
  have "sub_ok X B 0 = (\<lambda>_. False)"
    "sub_ok X B (Suc L') = (\<lambda>s. wf_mst X B L' s \<and> entries_of X B s \<noteq> [])" for L'
    by (auto simp: fun_eq_iff)
  then show ?thesis by (cases L) simp_all
qed

declare wf_mst.simps [simp del]

lemma wf_mst_E:
  assumes "wf_mst X B L t"
  obtains es where "get_entries X B t = Inr es" "layer_ok L es (layer t)"
    "entries_ok X L (sub_ok X B L) es"
  using assms unfolding wf_mst_iff node_ok_def by (auto split: sum.splits)

lemma wf_mst_I:
  "get_entries X B t = Inr es \<Longrightarrow> layer_ok L es (layer t) \<Longrightarrow> entries_ok X L (sub_ok X B L) es \<Longrightarrow>
   pointer_ok X B L t \<Longrightarrow> wf_mst X B L t"
  unfolding wf_mst_iff node_ok_def by simp

lemma wf_mst_pointer: "wf_mst X B L t \<Longrightarrow> pointer_ok X B L t"
  unfolding wf_mst_iff node_ok_def by (auto split: sum.splits)

lemma pointer_ok_outdated [simp]: "outdated t \<Longrightarrow> pointer_ok X B L t"
  by (simp add: pointer_ok_def)

lemma pointer_ok_new_tree [simp]: "pointer_ok X B L (new_tree t es)"
  by (simp add: new_tree_def)

lemma wf_mst_new_tree:
  "wf_mst X B L (new_tree t es) \<longleftrightarrow> layer_ok L es (layer t) \<and> entries_ok X L (sub_ok X B L) es"
  unfolding wf_mst_iff node_ok_def by simp (simp add: new_tree_def)

lemma layer_ok_Some [simp]: "layer_ok L es (Some l) \<longleftrightarrow> L < 2 ^ 32 \<and> l = L"
  by (auto simp: layer_ok_def)

lemma layer_ok_nonempty: "layer_ok L es l \<Longrightarrow> es' \<noteq> [] \<or> l = Some L \<Longrightarrow> layer_ok L es' l"
  by (auto simp: layer_ok_def)

lemma layer_ok_bound: "layer_ok L es l \<Longrightarrow> L < 2 ^ 32"
  by (simp add: layer_ok_def)

section \<open>Entry lists\<close>

lemma is_tree_simps [simp]: "is_tree (TreeE s)" "\<not> is_tree (LeafE k v)"
  by (simp_all add: is_tree_def)

lemma is_tree_iff: "is_tree e \<longleftrightarrow> (\<exists>s. e = TreeE s)"
  by (cases e) auto

lemma not_is_tree_iff: "\<not> is_tree e \<longleftrightarrow> (\<exists>k v. e = LeafE k v)"
  by (cases e) auto

lemma entry_ok_simps [simp]:
  "entry_ok X L P (TreeE s) \<longleftrightarrow> P s"
  "entry_ok X L P (LeafE k v) \<longleftrightarrow> leading_zeros_on_hash X k = L \<and> is_valid_repo_mst_path X k"
  by (simp_all add: entry_ok_def)

definition meets :: "node_entry list \<Rightarrow> node_entry list \<Rightarrow> bool" where
  "meets es fs \<longleftrightarrow> es \<noteq> [] \<and> fs \<noteq> [] \<and> is_tree (last es) \<and> is_tree (hd fs)"

lemma no_adjacent_append:
  "no_adjacent_trees (es @ fs) \<longleftrightarrow>
     no_adjacent_trees es \<and> no_adjacent_trees fs \<and> \<not> meets es fs"
  unfolding no_adjacent_trees_def successively_append_iff meets_def by blast

lemma no_adjacent_simps [simp]:
  "no_adjacent_trees []" "no_adjacent_trees [e]"
  by (simp_all add: no_adjacent_trees_def)

lemma no_adjacent_Cons:
  "no_adjacent_trees (e # es) \<longleftrightarrow> no_adjacent_trees es \<and> \<not> meets [e] es"
  using no_adjacent_append[of "[e]" es] by simp

lemma entries_ok_append:
  "entries_ok X L P (es @ fs) \<longleftrightarrow> entries_ok X L P es \<and> entries_ok X L P fs \<and> \<not> meets es fs"
  by (auto simp: entries_ok_def no_adjacent_append)

lemma entries_ok_Nil [simp]: "entries_ok X L P []"
  by (simp add: entries_ok_def)

lemma entries_ok_Cons:
  "entries_ok X L P (e # es) \<longleftrightarrow> entry_ok X L P e \<and> entries_ok X L P es \<and> \<not> meets [e] es"
  by (auto simp: entries_ok_def no_adjacent_Cons)

lemma meets_simps [simp]:
  "\<not> meets [] fs" "\<not> meets es []"
  "\<not> meets (es @ [LeafE k v]) fs" "\<not> meets es (LeafE k v # fs)"
  "meets (es @ [TreeE s]) (TreeE u # fs)"
  "\<not> meets [LeafE k v] fs" "meets [TreeE s] (TreeE u # fs)"
  by (simp_all add: meets_def)

lemma meets_append_nonempty:
  "fs \<noteq> [] \<Longrightarrow> meets (es @ fs) gs \<longleftrightarrow> meets fs gs"
  "fs \<noteq> [] \<Longrightarrow> meets es (fs @ gs) \<longleftrightarrow> meets es fs"
  by (auto simp: meets_def)

text \<open>A list of entries that does not end, or does not begin, with a subtree.\<close>

definition ends_leaf :: "node_entry list \<Rightarrow> bool" where
  "ends_leaf es \<longleftrightarrow> es = [] \<or> (\<exists>es' k v. es = es' @ [LeafE k v])"

definition begins_leaf :: "node_entry list \<Rightarrow> bool" where
  "begins_leaf es \<longleftrightarrow> es = [] \<or> (\<exists>k v es'. es = LeafE k v # es')"

lemma ends_leaf_not_meets [simp]: "ends_leaf es \<Longrightarrow> \<not> meets es fs"
  by (auto simp: ends_leaf_def)

lemma begins_leaf_not_meets [simp]: "begins_leaf fs \<Longrightarrow> \<not> meets es fs"
  by (auto simp: begins_leaf_def)

lemma not_meets_tree_left: "\<not> meets es (TreeE s # fs) \<longleftrightarrow> ends_leaf es"
  unfolding meets_def ends_leaf_def
  by (cases es rule: rev_cases) (auto simp: not_is_tree_iff)

lemma not_meets_tree_right: "\<not> meets [TreeE s] fs \<longleftrightarrow> begins_leaf fs"
  unfolding meets_def begins_leaf_def by (cases fs) (auto simp: not_is_tree_iff)

lemma ends_leaf_simps [simp]: "ends_leaf []" "ends_leaf (es @ [LeafE k v])"
  by (simp_all add: ends_leaf_def)

lemma begins_leaf_simps [simp]: "begins_leaf []" "begins_leaf (LeafE k v # es)"
  by (simp_all add: begins_leaf_def)

section \<open>Finding a key in a sorted entry list\<close>

lemma leaf_position_split:
  obtains ls rs where "es = ls @ rs" "leaf_position key es = length ls"
    "\<And>k v. LeafE k v \<in> set ls \<Longrightarrow> k < key"
    "rs = [] \<or> (\<exists>k v rs'. rs = LeafE k v # rs' \<and> key \<le> k)"
proof -
  have "\<exists>ls rs. es = ls @ rs \<and> leaf_position key es = length ls \<and>
      (\<forall>k v. LeafE k v \<in> set ls \<longrightarrow> k < key) \<and>
      (rs = [] \<or> (\<exists>k v rs'. rs = LeafE k v # rs' \<and> key \<le> k))"
  proof (induction key es rule: leaf_position.induct)
    case (2 key s es)
    then obtain ls rs where IH: "es = ls @ rs" "leaf_position key es = length ls"
      "\<forall>k v. LeafE k v \<in> set ls \<longrightarrow> k < key" "rs = [] \<or> (\<exists>k v rs'. rs = LeafE k v # rs' \<and> key \<le> k)"
      by blast
    show ?case
      by (rule exI[of _ "TreeE s # ls"], rule exI[of _ rs]) (use IH in auto)
  next
    case (3 key k v es)
    show ?case
    proof (cases "k \<ge> key")
      case True
      then show ?thesis
        by (intro exI[of _ "[]"] exI[of _ "LeafE k v # es"]) auto
    next
      case False
      with 3 obtain ls rs where IH: "es = ls @ rs" "leaf_position key es = length ls"
        "\<forall>k v. LeafE k v \<in> set ls \<longrightarrow> k < key" "rs = [] \<or> (\<exists>k v rs'. rs = LeafE k v # rs' \<and> key \<le> k)"
        by blast
      show ?thesis
        by (rule exI[of _ "LeafE k v # ls"], rule exI[of _ rs]) (use IH False in auto)
    qed
  qed auto
  then show ?thesis using that by blast
qed

definition all_below :: "string \<Rightarrow> leaf list \<Rightarrow> bool" where
  "all_below key xs \<longleftrightarrow> (\<forall>p\<in>set xs. fst p < key)"

definition all_from :: "string \<Rightarrow> leaf list \<Rightarrow> bool" where
  "all_from key xs \<longleftrightarrow> (\<forall>p\<in>set xs. key \<le> fst p)"

lemma ends_leaf_all_below:
  assumes "ksorted (eleaves X B n ls)" "ends_leaf ls" "\<And>k v. LeafE k v \<in> set ls \<Longrightarrow> k < key"
  shows "all_below key (eleaves X B n ls)"
  using assms(2) unfolding ends_leaf_def
proof
  assume "\<exists>es' k v. ls = es' @ [LeafE k v]"
  then obtain es' k v where ls: "ls = es' @ [LeafE k v]" by blast
  have "k < key" using assms(3)[of k v] ls by simp
  moreover have "\<forall>p\<in>set (eleaves X B n es'). fst p < k"
    using assms(1) unfolding ls by (simp add: ksorted_append)
  ultimately show ?thesis unfolding all_below_def ls by (auto intro: order.strict_trans)
qed (simp add: all_below_def)

lemma begins_leaf_all_from:
  assumes "ksorted (eleaves X B n rs)" "rs = [] \<or> (\<exists>k v rs'. rs = LeafE k v # rs' \<and> key \<le> k)"
  shows "all_from key (eleaves X B n rs)"
  using assms by (fastforce simp: all_from_def ksorted_Cons intro: order.trans less_imp_le)

lemma find_cases:
  assumes sorted: "ksorted (eleaves X B n es)" and na: "no_adjacent_trees es"
  obtains
    (flat) ls rs where "es = ls @ rs" "leaf_position key es = length ls" "ends_leaf ls" "begins_leaf rs"
      "all_below key (eleaves X B n ls)" "all_from key (eleaves X B n rs)"
  | (tree) ls m rs where "es = ls @ TreeE m # rs" "leaf_position key es = Suc (length ls)"
      "ends_leaf ls" "begins_leaf rs"
      "all_below key (eleaves X B n ls)" "all_from key (eleaves X B n rs)"
proof -
  obtain ls rs where es: "es = ls @ rs" and pos: "leaf_position key es = length ls"
    and below: "\<And>k v. LeafE k v \<in> set ls \<Longrightarrow> k < key"
    and rs: "rs = [] \<or> (\<exists>k v rs'. rs = LeafE k v # rs' \<and> key \<le> k)"
    using leaf_position_split[of es key] by metis
  have sl: "ksorted (eleaves X B n ls)" and sr: "ksorted (eleaves X B n rs)"
    using sorted unfolding es by (simp_all add: ksorted_append)
  have from': "all_from key (eleaves X B n rs)" by (rule begins_leaf_all_from[OF sr rs])
  have bl: "begins_leaf rs" using rs by (auto simp: begins_leaf_def)
  show ?thesis
  proof (cases "ends_leaf ls")
    case True
    show ?thesis
      by (rule flat[OF es pos True bl ends_leaf_all_below[OF sl True below] from'])
  next
    case False
    then obtain ls' m where ls: "ls = ls' @ [TreeE m]"
      unfolding ends_leaf_def by (cases ls rule: rev_cases) (auto, metis node_entry.exhaust)
    have "ends_leaf ls'"
      using na unfolding es ls by (auto simp: no_adjacent_append not_meets_tree_left)
    moreover have "ksorted (eleaves X B n ls')" using sl unfolding ls by (simp add: ksorted_append)
    ultimately have "all_below key (eleaves X B n ls')"
      using below unfolding ls by (intro ends_leaf_all_below) auto
    then show ?thesis
      using tree[of ls' m rs] es pos bl from' \<open>ends_leaf ls'\<close> unfolding ls by simp
  qed
qed

section \<open>Editing the entry list\<close>

lemma at_index_at:
  "get_entries X B t = Inr (ls @ rs) \<Longrightarrow>
   at_index X B t (int (length ls)) = Inr (case rs of [] \<Rightarrow> None | r # _ \<Rightarrow> Some r)"
  by (auto simp: at_index_def split: list.splits)

lemma at_index_before:
  "get_entries X B t = Inr (ls @ rs) \<Longrightarrow>
   at_index X B t (int (length ls) - 1) = Inr (if ls = [] then None else Some (last ls))"
  by (cases ls rule: rev_cases) (auto simp: at_index_def nth_append)

lemma mst_slice_to:
  "get_entries X B t = Inr (ls @ rs) \<Longrightarrow> mst_slice X B t (Some 0) (Some (int (length ls))) = Inr ls"
  by (cases "ls = []"; cases "rs = []")
    (auto simp: mst_slice_def slice_start_def slice_end_def Let_def)

lemma mst_slice_from:
  "get_entries X B t = Inr (ls @ rs) \<Longrightarrow> mst_slice X B t (Some (int (length ls))) None = Inr rs"
  by (cases "rs = []") (auto simp: mst_slice_def slice_start_def Let_def)

lemma splice_in_at:
  "get_entries X B t = Inr (ls @ rs) \<Longrightarrow>
   splice_in X B t e (int (length ls)) = Inr (new_tree t (ls @ e # rs))"
  by (simp add: splice_in_def mst_slice_to mst_slice_from)

lemma mst_slice_after:
  assumes "get_entries X B t = Inr (ls @ e # rs)"
  shows "mst_slice X B t (Some (int (length ls) + 1)) None = Inr rs"
  using mst_slice_from[of X B t "ls @ [e]" rs] assms by (simp add: algebra_simps)

lemma update_entry_at:
  "get_entries X B t = Inr (ls @ e # rs) \<Longrightarrow>
   update_entry X B t (int (length ls)) e' = Inr (new_tree t (ls @ e' # rs))"
  by (simp add: update_entry_def mst_slice_to mst_slice_after)

lemma remove_entry_at:
  "get_entries X B t = Inr (ls @ e # rs) \<Longrightarrow>
   remove_entry X B t (int (length ls)) = Inr (new_tree t (ls @ rs))"
  by (simp add: remove_entry_def mst_slice_to mst_slice_after)

lemma replace_with_split_at:
  "get_entries X B t = Inr (ls @ e # rs) \<Longrightarrow>
   replace_with_split X B t (int (length ls)) lo lf ro =
     Inr (new_tree t (ls @ opt_tree lo @ [LeafE (fst lf) (snd lf)] @ opt_tree ro @ rs))"
  by (simp add: replace_with_split_def mst_slice_to mst_slice_after)

lemma find_index:
  "get_entries X B t = Inr es \<Longrightarrow>
   find_gt_or_equal_leaf_index X B t key = Inr (int (leaf_position key es))"
  by (simp add: find_gt_or_equal_leaf_index_def)

text \<open>
  The cursor of an operation: the index of the first leaf at or after the key, what is
  there, and what is just before it, which decides whether the operation descends.
\<close>

lemma cursor_cases:
  assumes es: "get_entries X B t = Inr es"
    and sorted: "ksorted (eleaves X B n es)" and na: "no_adjacent_trees es"
  obtains
    (flat) ls rs prev where "es = ls @ rs"
      "find_gt_or_equal_leaf_index X B t key = Inr (int (length ls))"
      "at_index X B t (int (length ls)) = Inr (case rs of [] \<Rightarrow> None | r # _ \<Rightarrow> Some r)"
      "at_index X B t (int (length ls) - 1) = Inr prev" "\<And>m. prev \<noteq> Some (TreeE m)"
      "ends_leaf ls" "begins_leaf rs"
      "all_below key (eleaves X B n ls)" "all_from key (eleaves X B n rs)"
  | (tree) ls m rs where "es = ls @ TreeE m # rs"
      "find_gt_or_equal_leaf_index X B t key = Inr (int (length ls) + 1)"
      "at_index X B t (int (length ls) + 1) = Inr (case rs of [] \<Rightarrow> None | r # _ \<Rightarrow> Some r)"
      "at_index X B t (int (length ls)) = Inr (Some (TreeE m))"
      "ends_leaf ls" "begins_leaf rs"
      "all_below key (eleaves X B n ls)" "all_from key (eleaves X B n rs)"
  using sorted na
proof (cases rule: find_cases[where key = key])
  case (flat ls rs)
  have e: "get_entries X B t = Inr (ls @ rs)" using es flat(1) by simp
  have "\<And>m. (if ls = [] then None else Some (last ls)) \<noteq> Some (TreeE m)"
    using flat(3) by (auto simp: ends_leaf_def)
  then show thesis
    using that(1)[OF flat(1) _ at_index_at[OF e] at_index_before[OF e] _ flat(3-6)] flat(2)
    by (simp add: find_index[OF es])
next
  case (tree ls m rs)
  have e: "get_entries X B t = Inr ((ls @ [TreeE m]) @ rs)" using es tree(1) by simp
  have a: "at_index X B t (int (length ls) + 1) = Inr (case rs of [] \<Rightarrow> None | r # _ \<Rightarrow> Some r)"
    "at_index X B t (int (length ls)) = Inr (Some (TreeE m))"
    using at_index_at[OF e] at_index_before[OF e] by (simp_all add: add.commute)
  show thesis
    using that(2)[OF tree(1) _ a tree(3-6)] tree(2) by (simp add: find_index[OF es] add.commute)
qed

end
