(* ===== verification/Mst_Correct.thy ===== *)
theory Mst_Correct
  imports Mst_Inv
begin

text \<open>
  Functional correctness of the MST operations: on a well-formed node, with fuel above its
  layer, every operation returns, keeps the node well formed, and does to its contents what
  the operation says.
\<close>

section \<open>Layers\<close>

definition with_layer :: "mst \<Rightarrow> nat \<Rightarrow> mst" where
  "with_layer t l = MST (entries t) (Some l) (pointer t) (outdated t)"

lemma with_layer_simps [simp]:
  "layer (with_layer t l) = Some l" "entries (with_layer t l) = entries t"
  "pointer (with_layer t l) = pointer t" "outdated (with_layer t l) = outdated t"
  by (simp_all add: with_layer_def)

lemma get_entries_with_layer [simp]: "get_entries X B (with_layer t l) = get_entries X B t"
  by (rule get_entries_cong) simp_all

lemma entries_of_with_layer [simp]: "entries_of X B (with_layer t l) = entries_of X B t"
  by (simp add: entries_of_def)

lemma tleaves_with_layer [simp]: "tleaves X B n (with_layer t l) = tleaves X B n t"
  by (rule tleaves_cong) simp

lemma root_cid_with_layer [simp]: "root_cid X B n (with_layer t l) = root_cid X B n t"
  by (cases n) simp_all

lemma wf_mst_with_layer: "wf_mst X B L t \<Longrightarrow> wf_mst X B L (with_layer t L)"
  using wf_mst_pointer[of X B L t]
  by (auto elim!: wf_mst_E intro!: wf_mst_I simp: layer_ok_def pointer_ok_def)

lemma layer_for_entries_ok:
  "list_all (entry_ok X L P) es \<Longrightarrow>
   layer_for_entries X es = (if list_all is_tree es then None else Some L)"
  by (induction X es rule: layer_for_entries.induct) auto

lemma all_trees_singleton:
  "no_adjacent_trees es \<Longrightarrow> list_all is_tree es \<Longrightarrow> es \<noteq> [] \<Longrightarrow> \<exists>s. es = [TreeE s]"
proof (cases es)
  case (Cons e es')
  assume a: "no_adjacent_trees es" "list_all is_tree es"
  then have "es' = []" unfolding Cons no_adjacent_Cons meets_def by (cases es') auto
  then show ?thesis using a(2) Cons by (simp add: is_tree_iff)
qed simp

lemma attempt_get_layer_ok:
  "wf_mst X B L t \<Longrightarrow> L < n \<Longrightarrow>
   attempt_get_layer X B n t =
     Inr (if layer t = None \<and> entries_of X B t = [] then None else Some L)"
proof (induction n arbitrary: L t)
  case (Suc n)
  obtain es where es: "get_entries X B t = Inr es" and lay: "layer_ok L es (layer t)"
    and ok: "entries_ok X L (sub_ok X B L) es"
    using Suc.prems(1) by (rule wf_mst_E)
  have all: "list_all (entry_ok X L (sub_ok X B L)) es" and na: "no_adjacent_trees es"
    using ok by (auto simp: entries_ok_def)
  show ?case
  proof (cases "layer t")
    case (Some l)
    then show ?thesis using lay by simp
  next
    case None
    show ?thesis
    proof (cases "list_all is_tree es \<and> es \<noteq> []")
      case False
      then show ?thesis
        using None es layer_for_entries_ok[OF all] by auto
    next
      case True
      then obtain s where s: "es = [TreeE s]" using all_trees_singleton[OF na] by blast
      then obtain L' where L': "L = Suc L'" "wf_mst X B L' s" "entries_of X B s \<noteq> []"
        using all by (auto elim: sub_ok_E)
      have "attempt_get_layer X B n s = Inr (Some L')"
        using Suc.IH[OF L'(2)] L' Suc.prems(2) by simp
      moreover have "u32_add1 L' = L"
        using layer_ok_bound[OF lay] L'(1) by (simp add: u32_add1_small)
      ultimately show ?thesis using None es s by simp
    qed
  qed
qed simp

lemma get_layer_ok: "wf_mst X B L t \<Longrightarrow> L < n \<Longrightarrow> get_layer X B n t = Inr (L, with_layer t L)"
  using attempt_get_layer_ok[of X B L t n]
  by (auto simp: get_layer_def with_layer_def layer_ok_def elim!: wf_mst_E split: if_splits)

section \<open>Leaves below a node\<close>

lemma eleaves_keys:
  assumes "list_all (entry_ok X L P) es"
    and "\<And>s k v. P s \<Longrightarrow> (k, v) \<in> set (tleaves X B n s) \<Longrightarrow> Q k"
    and "\<And>k. leading_zeros_on_hash X k = L \<Longrightarrow> is_valid_repo_mst_path X k \<Longrightarrow> Q k"
    and "(k, v) \<in> set (eleaves X B n es)"
  shows "Q k"
  using assms(1,4)
proof (induction es)
  case (Cons e es)
  then show ?case using assms(2,3) by (cases e) auto
qed simp

lemma tleaves_keys:
  "wf_mst X B L t \<Longrightarrow> (k, v) \<in> set (tleaves X B (Suc L) t) \<Longrightarrow>
   leading_zeros_on_hash X k \<le> L \<and> is_valid_repo_mst_path X k"
proof (induction L arbitrary: t k v)
  case 0
  obtain es where es: "get_entries X B t = Inr es" "list_all (entry_ok X 0 (sub_ok X B 0)) es"
    using 0(1) by (auto elim!: wf_mst_E simp: entries_ok_def)
  have m: "(k, v) \<in> set (eleaves X B 0 es)" using 0(2) es(1) by (simp add: tleaves_Suc)
  show ?case
    by (rule eleaves_keys[where Q = "\<lambda>k. leading_zeros_on_hash X k \<le> 0 \<and> is_valid_repo_mst_path X k",
          OF es(2) _ _ m]) auto
next
  case (Suc L)
  obtain es where es: "get_entries X B t = Inr es" "list_all (entry_ok X (Suc L) (sub_ok X B (Suc L))) es"
    using Suc.prems(1) by (auto elim!: wf_mst_E simp: entries_ok_def)
  have m: "(k, v) \<in> set (eleaves X B (Suc L) es)" using Suc.prems(2) es(1) by (simp add: tleaves_Suc)
  show ?case
    by (rule eleaves_keys[where Q = "\<lambda>k. leading_zeros_on_hash X k \<le> Suc L \<and> is_valid_repo_mst_path X k",
          OF es(2) _ _ m]) (auto dest!: Suc.IH)
qed

lemma sub_ok_zeros:
  "sub_ok X B L m \<Longrightarrow> k \<in> fst ` set (tleaves X B L m) \<Longrightarrow> leading_zeros_on_hash X k < L"
  by (auto elim!: sub_ok_E dest!: tleaves_keys)

lemma tleaves_nonempty:
  "wf_mst X B L t \<Longrightarrow> entries_of X B t \<noteq> [] \<Longrightarrow> tleaves X B (Suc L) t \<noteq> []"
proof (induction L arbitrary: t)
  case (Suc L)
  obtain es where es: "get_entries X B t = Inr es" "list_all (entry_ok X (Suc L) (sub_ok X B (Suc L))) es"
    using Suc.prems(1) by (auto elim!: wf_mst_E simp: entries_ok_def)
  show ?case
  proof (cases es)
    case (Cons e es')
    then show ?thesis using es Suc.IH by (cases e) (auto simp: tleaves_Suc)
  qed (use Suc.prems es in simp)
next
  case 0
  obtain es where es: "get_entries X B t = Inr es" "list_all (entry_ok X 0 (sub_ok X B 0)) es"
    using 0(1) by (auto elim!: wf_mst_E simp: entries_ok_def)
  then show ?case using 0(2) by (cases es; cases "hd es") (auto simp: tleaves_Suc)
qed

lemma tleaves_fuel: "wf_mst X B L t \<Longrightarrow> L < n \<Longrightarrow> tleaves X B n t = tleaves X B (Suc L) t"
proof (induction n arbitrary: L t)
  case (Suc n)
  obtain es where es: "get_entries X B t = Inr es" "list_all (entry_ok X L (sub_ok X B L)) es"
    using Suc.prems(1) by (auto elim!: wf_mst_E simp: entries_ok_def)
  have "eleaves X B n es = eleaves X B L es"
    using es(2)
  proof (induction es)
    case (Cons e es)
    then show ?case using Suc.IH Suc.prems(2) by (cases e) (auto elim!: sub_ok_E)
  qed simp
  then show ?case using es(1) by (simp add: tleaves_Suc)
qed simp

section \<open>Where a key can be\<close>

lemma leaf_is_key_in:
  assumes "ksorted (eleaves X B n rs)" "begins_leaf rs" "all_from key (eleaves X B n rs)"
  shows "leaf_is key (case rs of [] \<Rightarrow> None | r # _ \<Rightarrow> Some r) \<longleftrightarrow> key \<in> fst ` set (eleaves X B n rs)"
  using assms unfolding begins_leaf_def
  by (auto simp: leaf_is_def ksorted_Cons all_from_def) force+

lemma all_from_absent:
  "all_from key xs \<Longrightarrow> key \<notin> fst ` set xs \<Longrightarrow> \<forall>p\<in>set xs. key < fst p"
  unfolding all_from_def by (metis imageI order.order_iff_strict)

lemma all_below_absent: "all_below key xs \<Longrightarrow> key \<notin> fst ` set xs"
  by (auto simp: all_below_def)

lemma leaf_is_E:
  assumes "leaf_is key (case rs of [] \<Rightarrow> None | r # _ \<Rightarrow> Some r)"
  obtains v rs' where "rs = LeafE key v # rs'"
  using assms by (cases rs) (auto simp: leaf_is_def split: node_entry.splits)

section \<open>Lookup\<close>

lemma map_of_below: "all_below key xs \<Longrightarrow> map_of xs key = None"
  by (auto simp: map_of_eq_None_iff dest: all_below_absent)

lemma map_of_from:
  assumes "ksorted (eleaves X B n rs)" "begins_leaf rs" "all_from key (eleaves X B n rs)"
  shows "map_of (eleaves X B n rs) key =
    (case rs of LeafE k v # _ \<Rightarrow> if k = key then Some v else None | _ \<Rightarrow> None)"
  using assms(2) unfolding begins_leaf_def
proof
  assume "\<exists>k v es'. rs = LeafE k v # es'"
  then obtain k v es' where rs: "rs = LeafE k v # es'" by blast
  have "key \<notin> fst ` set (eleaves X B n es')"
    using assms(1,3) unfolding rs all_from_def by (force simp: ksorted_Cons)
  then show ?thesis by (auto simp: rs map_of_eq_None_iff)
qed simp

lemma map_of_append_left: "map_of xs key = None \<Longrightarrow> map_of (xs @ ys) key = map_of ys key"
  by (simp add: map_add_def split: option.splits)

theorem mst_get_ok:
  "wf_mst X B L t \<Longrightarrow> ksorted (tleaves X B (Suc L) t) \<Longrightarrow> L < n \<Longrightarrow>
   mst_get X B n t key = Inr (map_of (tleaves X B (Suc L) t) key)"
proof (induction n arbitrary: L t)
  case (Suc n)
  obtain es where es: "get_entries X B t = Inr es" and all: "list_all (entry_ok X L (sub_ok X B L)) es"
    and na: "no_adjacent_trees es"
    using Suc.prems(1) by (auto elim!: wf_mst_E simp: entries_ok_def)
  have sorted: "ksorted (eleaves X B L es)" using Suc.prems(2) es by (simp add: tleaves_Suc)
  from es sorted na show ?case
  proof (cases rule: cursor_cases[where key = key])
    case (flat ls rs prev)
    have srt: "ksorted (eleaves X B L rs)" using sorted flat(1) by (simp add: ksorted_append)
    have ml: "map_of (eleaves X B L es) key = map_of (eleaves X B L rs) key"
      unfolding flat(1) eleaves_simps(4) using map_of_below[OF flat(8)] by (rule map_of_append_left)
    have np: "(case prev of Some (TreeE p) \<Rightarrow> mst_get X B n p key | _ \<Rightarrow> Inr None) = Inr None"
      using flat(5) by (auto split: option.splits node_entry.splits)
    show ?thesis
      using flat(7) map_of_from[OF srt flat(7,9)] ml
      by (auto simp: tleaves_Suc es flat(2,3,4) np begins_leaf_def)
  next
    case (tree ls m rs)
    have srt: "ksorted (eleaves X B L rs)" and sm: "ksorted (tleaves X B L m)"
      and lt: "\<forall>p\<in>set (tleaves X B L m). \<forall>q\<in>set (eleaves X B L rs). fst p < fst q"
      using sorted unfolding tree(1) by (simp_all add: ksorted_append)
    obtain L' where L': "L = Suc L'" "wf_mst X B L' m"
      using all unfolding tree(1) by (auto elim: sub_ok_E)
    have IH: "mst_get X B n m key = Inr (map_of (tleaves X B L m) key)"
      using Suc.IH[OF L'(2)] sm L'(1) Suc.prems(3) by simp
    have ml: "map_of (eleaves X B L es) key = map_of (tleaves X B L m @ eleaves X B L rs) key"
      unfolding tree(1) eleaves_simps using map_of_below[OF tree(7)] by (rule map_of_append_left)
    have mm: "map_of (tleaves X B L m) key = None" if "rs = LeafE key v # rs'" for v rs'
      using lt that by (force simp: map_of_eq_None_iff)
    show ?thesis
      using tree(6) map_of_from[OF srt tree(6,8)] ml mm IH
      by (auto simp: tleaves_Suc es tree(2,3,4) begins_leaf_def map_add_def split: option.splits)
  qed
qed simp

end
