(* ===== verification/Mst_Add.thy ===== *)
theory Mst_Add
  imports Mst_Correct
begin

text \<open>
  Correctness of \<open>split_around\<close> and \<open>add\<close>: splitting separates the contents at the key,
  and adding an absent key inserts it and leaves everything else in place, on each of the
  three branches (the key belongs on this layer, below it, or above it).
\<close>

section \<open>Splitting\<close>

definition side_ok :: "ext \<Rightarrow> blocks \<Rightarrow> nat \<Rightarrow> nat option \<Rightarrow> leaf list \<Rightarrow> mst option \<Rightarrow> bool" where
  "side_ok X B L lay xs t =
     (case t of
        None \<Rightarrow> xs = []
      | Some s \<Rightarrow> wf_mst X B L s \<and> entries_of X B s \<noteq> [] \<and> tleaves X B (Suc L) s = xs \<and> layer s = lay)"

lemma side_ok_simps [simp]:
  "side_ok X B L lay xs None \<longleftrightarrow> xs = []"
  "side_ok X B L lay xs (Some s) \<longleftrightarrow>
     wf_mst X B L s \<and> entries_of X B s \<noteq> [] \<and> tleaves X B (Suc L) s = xs \<and> layer s = lay"
  by (simp_all add: side_ok_def)

lemma new_tree_simps [simp]:
  "new_tree (new_tree t es) fs = new_tree t fs" "layer (new_tree t es) = layer t"
  "entries (new_tree t es) = Some es" "outdated (new_tree t es)"
  by (simp_all add: new_tree_def)

lemma append_entry_new_tree [simp]: "append_entry X B (new_tree t es) e = Inr (new_tree t (es @ [e]))"
  by (simp add: append_entry_def)

lemma prepend_entry_new_tree [simp]: "prepend_entry X B (new_tree t es) e = Inr (new_tree t (e # es))"
  by (simp add: prepend_entry_def)

lemma non_empty_new_tree [simp]:
  "non_empty_tree X B (new_tree t es) = Inr (if es = [] then None else Some (new_tree t es))"
  by (simp add: non_empty_tree_def)

lemma remove_last_new_tree [simp]:
  "remove_entry X B (new_tree t (es @ [e])) (int (length es)) = Inr (new_tree t es)"
  using remove_entry_at[of X B "new_tree t (es @ [e])" es e "[]"] by simp

lemma side_ok_new_tree:
  assumes "layer_ok L es (layer t)" "entries_ok X L (sub_ok X B L) fs" "eleaves X B L fs = xs"
  shows "side_ok X B L (layer t) xs (if fs = [] then None else Some (new_tree t fs))"
  using assms layer_ok_nonempty[OF assms(1), of fs] by (auto simp: wf_mst_new_tree)

lemma side_entry_ok:
  assumes "side_ok X B L lay xs o'"
  shows "entries_ok X (Suc L) (sub_ok X B (Suc L)) (opt_tree o')" "eleaves X B (Suc L) (opt_tree o') = xs"
  using assms by (auto simp: opt_tree_def entries_ok_Cons split: option.splits)

lemma split_sides:
  "all_below key as \<Longrightarrow> all_from key cs \<Longrightarrow> kbelow key (as @ ms @ cs) = as @ kbelow key ms"
  "all_below key as \<Longrightarrow> all_from key cs \<Longrightarrow> kfrom key (as @ ms @ cs) = kfrom key ms @ cs"
  by (simp_all add: all_below_def all_from_def kbelow_all kbelow_none kfrom_all kfrom_none)

lemma meets_opt_tree:
  "ends_leaf ls \<Longrightarrow> \<not> meets ls (opt_tree o')" "begins_leaf rs \<Longrightarrow> \<not> meets (opt_tree o') rs"
  by simp_all

lemma opt_tree_append_entry:
  "(case o' of None \<Rightarrow> Inr (new_tree t ls) | Some s \<Rightarrow> append_entry X B (new_tree t ls) (TreeE s)) =
     Inr (new_tree t (ls @ opt_tree o'))"
  by (simp add: opt_tree_def split: option.splits)

lemma opt_tree_prepend_entry:
  "(case o' of None \<Rightarrow> Inr (new_tree t rs) | Some s \<Rightarrow> prepend_entry X B (new_tree t rs) (TreeE s)) =
     Inr (new_tree t (opt_tree o' @ rs))"
  by (simp add: opt_tree_def split: option.splits)

lemma split_around_flat:
  assumes "get_entries X B t = Inr (ls @ rs)"
    and "find_gt_or_equal_leaf_index X B t key = Inr (int (length ls))" and "ends_leaf ls"
  shows "split_around X B (Suc n) t key =
    Inr (if ls = [] then None else Some (new_tree t ls), if rs = [] then None else Some (new_tree t rs))"
  using assms(3) unfolding ends_leaf_def
  by (auto simp: assms(2) mst_slice_to[OF assms(1)] mst_slice_from[OF assms(1)])

lemma split_around_tree:
  assumes "get_entries X B t = Inr (ls @ TreeE m # rs)"
    and "find_gt_or_equal_leaf_index X B t key = Inr (int (length ls) + 1)"
    and "split_around X B n m key = Inr (lo, ro)"
  shows "split_around X B (Suc n) t key =
    Inr (if ls @ opt_tree lo = [] then None else Some (new_tree t (ls @ opt_tree lo)),
         if opt_tree ro @ rs = [] then None else Some (new_tree t (opt_tree ro @ rs)))"
proof -
  have e: "get_entries X B t = Inr ((ls @ [TreeE m]) @ rs)" using assms(1) by simp
  have s: "mst_slice X B t (Some 0) (Some (int (length ls) + 1)) = Inr (ls @ [TreeE m])"
    "mst_slice X B t (Some (int (length ls) + 1)) None = Inr rs"
    using mst_slice_to[OF e] mst_slice_from[OF e] by (simp_all add: add.commute)
  show ?thesis
    by (simp add: assms(2,3) s opt_tree_append_entry opt_tree_prepend_entry)
qed

theorem split_around_ok:
  "wf_mst X B L t \<Longrightarrow> ksorted (tleaves X B (Suc L) t) \<Longrightarrow> L < n \<Longrightarrow>
   \<exists>lo ro. split_around X B n t key = Inr (lo, ro) \<and>
     side_ok X B L (layer t) (kbelow key (tleaves X B (Suc L) t)) lo \<and>
     side_ok X B L (layer t) (kfrom key (tleaves X B (Suc L) t)) ro"
proof (induction n arbitrary: L t)
  case (Suc n)
  obtain es where es: "get_entries X B t = Inr es" and lay: "layer_ok L es (layer t)"
    and ok: "entries_ok X L (sub_ok X B L) es"
    using Suc.prems(1) by (rule wf_mst_E)
  have sorted: "ksorted (eleaves X B L es)" using Suc.prems(2) es by (simp add: tleaves_Suc)
  have na: "no_adjacent_trees es" using ok by (simp add: entries_ok_def)
  from es sorted na show ?case
  proof (cases rule: cursor_cases[where key = key])
    case (flat ls rs prev)
    have e: "get_entries X B t = Inr (ls @ rs)" using es flat(1) by simp
    have "side_ok X B L (layer t) (kbelow key (eleaves X B L es)) (if ls = [] then None else Some (new_tree t ls))"
      using split_sides(1)[OF flat(8,9), of "[]"] ok flat(1)
      by (intro side_ok_new_tree[OF lay]) (auto simp: entries_ok_append)
    moreover have "side_ok X B L (layer t) (kfrom key (eleaves X B L es)) (if rs = [] then None else Some (new_tree t rs))"
      using split_sides(2)[OF flat(8,9), of "[]"] ok flat(1)
      by (intro side_ok_new_tree[OF lay]) (auto simp: entries_ok_append)
    ultimately show ?thesis
      unfolding split_around_flat[OF e flat(2) flat(6)] by (simp add: tleaves_Suc es)
  next
    case (tree ls m rs)
    have e: "get_entries X B t = Inr (ls @ TreeE m # rs)" using es tree(1) by simp
    have sm: "ksorted (tleaves X B L m)" using sorted tree(1) by (simp add: ksorted_append)
    obtain L' where L': "L = Suc L'" "wf_mst X B L' m"
      using ok tree(1) by (auto simp: entries_ok_append entries_ok_Cons elim: sub_ok_E)
    obtain lo ro where split: "split_around X B n m key = Inr (lo, ro)"
      and lo: "side_ok X B L' (layer m) (kbelow key (tleaves X B L m)) lo"
      and ro: "side_ok X B L' (layer m) (kfrom key (tleaves X B L m)) ro"
      using Suc.IH[OF L'(2)] sm L'(1) Suc.prems(3) by auto
    have parts: "entries_ok X L (sub_ok X B L) ls" "entries_ok X L (sub_ok X B L) rs"
      using ok tree(1) by (auto simp: entries_ok_append entries_ok_Cons)
    have "side_ok X B L (layer t) (kbelow key (eleaves X B L es))
        (if ls @ opt_tree lo = [] then None else Some (new_tree t (ls @ opt_tree lo)))"
      using parts side_entry_ok[OF lo] split_sides(1)[OF tree(7,8), of "tleaves X B L m"]
        meets_opt_tree(1)[OF tree(5)] tree(1) L'(1)
      by (intro side_ok_new_tree[OF lay]) (auto simp: entries_ok_append)
    moreover have "side_ok X B L (layer t) (kfrom key (eleaves X B L es))
        (if opt_tree ro @ rs = [] then None else Some (new_tree t (opt_tree ro @ rs)))"
      using parts side_entry_ok[OF ro] split_sides(2)[OF tree(7,8), of "tleaves X B L m"]
        meets_opt_tree(2)[OF tree(6)] tree(1) L'(1)
      by (intro side_ok_new_tree[OF lay]) (auto simp: entries_ok_append)
    ultimately show ?thesis
      unfolding split_around_tree[OF e tree(2) split] by (simp only: tleaves_Suc entries_of_Inr[OF es]) blast
  qed
qed simp

section \<open>Raising a side\<close>

lemma serialize_single_tree: "serialize_node_data X [TreeE s] = Inr \<lparr>nd_l = Some (pointer s), nd_e = []\<rparr>"
  by (simp add: serialize_node_data_def)

lemma get_layer_known: "layer t = Some l \<Longrightarrow> get_layer X B n t = Inr (l, with_layer t l)"
  by (cases n) (simp_all add: get_layer_def with_layer_def)

lemma create_parent_ok:
  assumes "wf_mst X B L s" "entries_of X B s \<noteq> []" "layer s = Some L" "Suc L < 2 ^ 32"
  shows "\<exists>p. create_parent X B n s = Inr p \<and> wf_mst X B (Suc L) p \<and> entries_of X B p \<noteq> [] \<and>
    tleaves X B (Suc (Suc L)) p = tleaves X B (Suc L) s \<and> layer p = Some (Suc L)"
proof -
  let ?s = "with_layer s L"
  obtain c where c: "mst_create X (Some [TreeE ?s]) (Some (u32_add1 L)) =
      Inr (MST (Some [TreeE ?s]) (Some (u32_add1 L)) c False)"
    by (auto simp: mst_create_def cid_for_entries_def serialize_single_tree)
  let ?p = "MST (Some [TreeE ?s]) (Some (u32_add1 L)) c True"
  have "create_parent X B n s = Inr ?p"
    by (simp add: create_parent_def get_layer_known[OF assms(3)] c)
  moreover have "u32_add1 L = Suc L" using assms(4) by (simp add: u32_add1_small)
  moreover have "wf_mst X B (Suc L) ?p"
    by (rule wf_mst_I[where es = "[TreeE ?s]"])
      (use assms calculation(2) wf_mst_with_layer[OF assms(1)] in \<open>auto simp: entries_ok_Cons\<close>)
  ultimately show ?thesis by (auto simp: tleaves_Suc)
qed

lemma opt_parent_ok:
  assumes "side_ok X B L (Some L) xs o'" "Suc L < 2 ^ 32"
  shows "\<exists>p. opt_parent X B n o' = Inr p \<and> side_ok X B (Suc L) (Some (Suc L)) xs p"
proof (cases o')
  case None
  then show ?thesis using assms(1) by (simp add: opt_parent_def)
next
  case (Some s)
  then have "wf_mst X B L s" "entries_of X B s \<noteq> []" "layer s = Some L" "tleaves X B (Suc L) s = xs"
    using assms(1) by auto
  from create_parent_ok[OF this(1-3) assms(2), of n] this(4) Some show ?thesis
    by (auto simp: opt_parent_def)
qed

lemma create_parents_ok:
  "side_ok X B L (Some L) xs lo \<Longrightarrow> side_ok X B L (Some L) ys ro \<Longrightarrow> L + k < 2 ^ 32 \<Longrightarrow>
   \<exists>lo' ro'. create_parents X B n k lo ro = Inr (lo', ro') \<and>
     side_ok X B (L + k) (Some (L + k)) xs lo' \<and> side_ok X B (L + k) (Some (L + k)) ys ro'"
proof (induction k arbitrary: L lo ro)
  case (Suc k)
  have b: "Suc L < 2 ^ 32" using Suc.prems(3) by simp
  obtain l1 r1 where "opt_parent X B n lo = Inr l1" "side_ok X B (Suc L) (Some (Suc L)) xs l1"
    "opt_parent X B n ro = Inr r1" "side_ok X B (Suc L) (Some (Suc L)) ys r1"
    using opt_parent_ok[OF Suc.prems(1) b] opt_parent_ok[OF Suc.prems(2) b] by blast
  with Suc.IH[of "Suc L" l1 r1] Suc.prems(3) show ?case by simp
qed simp

section \<open>Adding a key\<close>

text \<open>The result an \<open>add\<close> promises: a non-empty well-formed node with the key inserted.\<close>

definition added :: "ext \<Rightarrow> blocks \<Rightarrow> nat \<Rightarrow> leaf list \<Rightarrow> mst \<Rightarrow> bool" where
  "added X B L xs t \<longleftrightarrow>
     wf_mst X B L t \<and> entries_of X B t \<noteq> [] \<and> tleaves X B (Suc L) t = xs \<and> layer t = Some L"

lemma added_new_tree:
  assumes "layer t = Some L" "L < 2 ^ 32" "entries_ok X L (sub_ok X B L) es" "es \<noteq> []"
    and "eleaves X B L es = xs"
  shows "added X B L xs (new_tree t es)"
  using assms by (simp add: added_def wf_mst_new_tree)

lemma kinsert_split:
  assumes "all_below key as" "all_from key cs" "key \<notin> fst ` set cs" "key \<notin> fst ` set ms"
  shows "kinsert key v (as @ ms @ cs) = as @ kbelow key ms @ (key, v) # kfrom key ms @ cs"
proof -
  have "kabove key cs = cs" "kabove key as = []" "kbelow key as = as" "kbelow key cs = []"
    using assms(1,2) all_from_absent[OF assms(2,3)]
    by (auto simp: all_below_def all_from_def kabove_all kabove_none kbelow_all kbelow_none less_imp_le)
  then show ?thesis by (simp add: kinsert_def kfrom_absent[OF assms(4)])
qed

lemma add_same_layer:
  assumes t: "wf_mst X B L t" "layer t = Some L" "ksorted (tleaves X B (Suc L) t)" and fuel: "L \<le> n"
    and key: "is_valid_repo_mst_path X key" "leading_zeros_on_hash X key = L"
  shows "if key \<in> fst ` set (tleaves X B (Suc L) t)
    then mst_add X B (Suc n) t key v (Some L) = Inl (AlreadyValue key)
    else \<exists>t'. mst_add X B (Suc n) t key v (Some L) = Inr t' \<and>
      added X B L (kinsert key v (tleaves X B (Suc L) t)) t'"
proof -
  obtain es where es: "get_entries X B t = Inr es" and lay: "layer_ok L es (layer t)"
    and ok: "entries_ok X L (sub_ok X B L) es"
    using t(1) by (rule wf_mst_E)
  have lv: "tleaves X B (Suc L) t = eleaves X B L es" using es by (simp add: tleaves_Suc)
  have sorted: "ksorted (eleaves X B L es)" using t(3) lv by simp
  have na: "no_adjacent_trees es" using ok by (simp add: entries_ok_def)
  have gl: "get_layer X B (Suc n) t = Inr (L, t)"
    using get_layer_known[OF t(2)] t(2) by (simp add: with_layer_def) (metis mst.collapse)
  have valid: "ensure_valid_mst_key X key = Inr ()" using key(1) by (simp add: ensure_valid_mst_key_def)
  have b: "L < 2 ^ 32" using layer_ok_bound[OF lay] .
  from es sorted na show ?thesis
  proof (cases rule: cursor_cases[where key = key])
    case (flat ls rs prev)
    have e: "get_entries X B t = Inr (ls @ rs)" using es flat(1) by simp
    have srt: "ksorted (eleaves X B L rs)" using sorted flat(1) by (simp add: ksorted_append)
    note li = leaf_is_key_in[OF srt flat(7,9)]
    have sp: "(case prev of Some (LeafE _ _) \<Rightarrow> splice_in X B t (LeafE key v) (int (length ls))
        | Some (TreeE m) \<Rightarrow> f m | None \<Rightarrow> splice_in X B t (LeafE key v) (int (length ls))) =
        Inr (new_tree t (ls @ LeafE key v # rs))" for f
      using flat(5) splice_in_at[OF e] by (auto split: option.splits node_entry.splits)
    have "added X B L (kinsert key v (eleaves X B L es)) (new_tree t (ls @ LeafE key v # rs))"
      if "key \<notin> fst ` set (eleaves X B L rs)"
      using kinsert_split[OF flat(8,9) that, of "[]"] t(2) b ok key flat(1)
      by (intro added_new_tree) (auto simp: entries_ok_append entries_ok_Cons kbelow_def kfrom_def)
    then show ?thesis
      using li all_below_absent[OF flat(8)] unfolding lv flat(1)
      by (auto simp: valid gl flat(2,3,4) sp)
  next
    case (tree ls m rs)
    have e: "get_entries X B t = Inr (ls @ TreeE m # rs)" using es tree(1) by simp
    have srt: "ksorted (eleaves X B L rs)" and sm: "ksorted (tleaves X B L m)"
      using sorted tree(1) by (simp_all add: ksorted_append)
    note li = leaf_is_key_in[OF srt tree(6,8)]
    have parts: "entries_ok X L (sub_ok X B L) ls" "entries_ok X L (sub_ok X B L) rs" "sub_ok X B L m"
      using ok tree(1) by (auto simp: entries_ok_append entries_ok_Cons)
    obtain L' where L': "L = Suc L'" "wf_mst X B L' m" using parts(3) by (rule sub_ok_E)
    have km: "key \<notin> fst ` set (tleaves X B L m)" using sub_ok_zeros[OF parts(3)] key(2) by blast
    obtain lo ro where split: "split_around X B n m key = Inr (lo, ro)"
      and lo: "side_ok X B L' (layer m) (kbelow key (tleaves X B L m)) lo"
      and ro: "side_ok X B L' (layer m) (kfrom key (tleaves X B L m)) ro"
      using split_around_ok[OF L'(2), of n key] sm L'(1) fuel by auto
    have "added X B L (kinsert key v (eleaves X B L es))
        (new_tree t (ls @ opt_tree lo @ [LeafE key v] @ opt_tree ro @ rs))"
      if "key \<notin> fst ` set (eleaves X B L rs)"
      using kinsert_split[OF tree(7,8) that km, of v] t(2) b parts side_entry_ok[OF lo] side_entry_ok[OF ro]
        key L'(1) tree(1,5,6)
      by (intro added_new_tree) (auto simp: entries_ok_append entries_ok_Cons)
    then show ?thesis
      using li all_below_absent[OF tree(7)] km unfolding lv tree(1)
      by (auto simp: valid gl tree(2,3,4) split replace_with_split_at[OF e])
  qed
qed

text \<open>What \<open>add\<close> does to a node at layer \<open>L\<close>, on a key that hashes to layer \<open>z\<close>.\<close>

definition add_spec ::
    "ext \<Rightarrow> blocks \<Rightarrow> nat \<Rightarrow> mst \<Rightarrow> string \<Rightarrow> cid \<Rightarrow> mst_error + mst \<Rightarrow> bool" where
  "add_spec X B L t key v r \<longleftrightarrow>
     (if key \<in> fst ` set (tleaves X B (Suc L) t) then r = Inl (AlreadyValue key)
      else \<exists>t'. r = Inr t' \<and>
        added X B (max L (leading_zeros_on_hash X key)) (kinsert key v (tleaves X B (Suc L) t)) t')"

lemma add_specI:
  assumes "key \<in> fst ` set (tleaves X B (Suc L) t) \<Longrightarrow> r = Inl (AlreadyValue key)"
    and "key \<notin> fst ` set (tleaves X B (Suc L) t) \<Longrightarrow> \<exists>t'. r = Inr t' \<and>
        added X B (max L (leading_zeros_on_hash X key)) (kinsert key v (tleaves X B (Suc L) t)) t'"
  shows "add_spec X B L t key v r"
  using assms by (auto simp: add_spec_def)

lemma with_layer_id: "layer t = Some L \<Longrightarrow> with_layer t L = t"
  unfolding with_layer_def by (metis mst.collapse)

lemma mst_create_root:
  assumes "is_valid_repo_mst_path X key"
  obtains c where "mst_create X (Some (opt_tree lo @ [LeafE key v] @ opt_tree ro)) (Some z) =
      Inr (MST (Some (opt_tree lo @ [LeafE key v] @ opt_tree ro)) (Some z) c False)"
proof -
  have "\<exists>d. serialize_node_data X (opt_tree lo @ [LeafE key v] @ opt_tree ro) = Inr d"
    using assms
    by (auto simp: serialize_node_data_def opt_tree_def ser_entry_def ensure_valid_mst_key_def
        split: option.splits)
  then show ?thesis using that by (auto simp: mst_create_def cid_for_entries_def)
qed

lemma add_higher:
  assumes t: "wf_mst X B L t" "layer t = Some L" "ksorted (tleaves X B (Suc L) t)" and fuel: "L < Suc n"
    and key: "is_valid_repo_mst_path X key" and z: "z = leading_zeros_on_hash X key" "L < z" "z < 2 ^ 32"
  shows "add_spec X B L t key v (mst_add X B (Suc n) t key v (Some z))"
proof -
  have absent: "key \<notin> fst ` set (tleaves X B (Suc L) t)"
    using tleaves_keys[OF t(1)] z by fastforce
  obtain lo ro where split: "split_around X B (Suc n) t key = Inr (lo, ro)"
    and lo: "side_ok X B L (Some L) (kbelow key (tleaves X B (Suc L) t)) lo"
    and ro: "side_ok X B L (Some L) (kfrom key (tleaves X B (Suc L) t)) ro"
    using split_around_ok[OF t(1,3) fuel, of key] t(2) by auto
  have k: "L + (z - L - 1) = z - 1" "Suc (z - 1) = z" "z - 1 < 2 ^ 32" using z(2,3) by auto
  obtain lo' ro' where par: "create_parents X B (Suc n) (z - L - 1) lo ro = Inr (lo', ro')"
    and lo': "side_ok X B (z - 1) (Some (z - 1)) (kbelow key (tleaves X B (Suc L) t)) lo'"
    and ro': "side_ok X B (z - 1) (Some (z - 1)) (kfrom key (tleaves X B (Suc L) t)) ro'"
    using create_parents_ok[OF lo ro, of "z - L - 1" "Suc n"] k by auto
  let ?es = "opt_tree lo' @ [LeafE key v] @ opt_tree ro'"
  obtain c where c: "mst_create X (Some ?es) (Some z) = Inr (MST (Some ?es) (Some z) c False)"
    using mst_create_root[OF key] by blast
  let ?r = "MST (Some ?es) (Some z) c True"
  have add: "mst_add X B (Suc n) t key v (Some z) = Inr ?r"
    using key z(2) get_layer_known[OF t(2)] with_layer_id[OF t(2)] split par c
    by (simp add: ensure_valid_mst_key_def Let_def)
  have "entries_ok X z (sub_ok X B z) ?es"
    using side_entry_ok(1)[OF lo'] side_entry_ok(1)[OF ro'] k(2) z(1) key
    by (auto simp: entries_ok_append entries_ok_Cons)
  moreover have "eleaves X B z ?es = kinsert key v (tleaves X B (Suc L) t)"
    using side_entry_ok(2)[OF lo'] side_entry_ok(2)[OF ro'] k(2) kfrom_absent[OF absent]
    by (simp add: kinsert_def)
  ultimately have "added X B z (kinsert key v (tleaves X B (Suc L) t)) ?r"
    using z(3) by (auto simp: added_def tleaves_Suc intro: wf_mst_I)
  with absent add z(1,2) show ?thesis by (simp add: add_spec_def)
qed

lemma create_child_ok:
  assumes "layer t = Some (Suc L)" "Suc L < 2 ^ 32"
  obtains s where "create_child X B n t = Inr s" "wf_mst X B L s" "tleaves X B (Suc L) s = []"
proof -
  obtain c where c: "mst_create X (Some []) (Some (u32_sub1 (Suc L))) = Inr (MST (Some []) (Some L) c False)"
    using u32_sub1_pos[OF _ assms(2)] by (auto simp: mst_create_def cid_for_entries_def serialize_node_data_def)
  show ?thesis
    by (rule that[of "MST (Some []) (Some L) c False"])
      (use c assms get_layer_known[OF assms(1)] in
        \<open>auto simp: create_child_def tleaves_Suc pointer_ok_def mst_create_def res_bind_eq_Inr_iff
          intro!: wf_mst_I[where es = "[]"]\<close>)
qed

lemma added_sub: "added X B L xs s \<Longrightarrow> sub_ok X B (Suc L) s \<and> tleaves X B (Suc L) s = xs"
  by (simp add: added_def)

lemma key_above_absent:
  assumes "entries_ok X L P rs" "leading_zeros_on_hash X key \<noteq> L"
    and "ksorted (eleaves X B n rs)" "begins_leaf rs" "all_from key (eleaves X B n rs)"
  shows "key \<notin> fst ` set (eleaves X B n rs)"
  using leaf_is_key_in[OF assms(3-5)] assms(1,2)
  by (auto elim!: leaf_is_E simp: entries_ok_Cons)

lemma add_lower:
  assumes t: "wf_mst X B (Suc L) t" "layer t = Some (Suc L)" "ksorted (tleaves X B (Suc (Suc L)) t)"
    and key: "is_valid_repo_mst_path X key" and z: "z = leading_zeros_on_hash X key" "z < Suc L"
    and IH: "\<And>s. wf_mst X B L s \<Longrightarrow> ksorted (tleaves X B (Suc L) s) \<Longrightarrow>
      add_spec X B L s key v (mst_add X B n s key v (Some z))"
  shows "add_spec X B (Suc L) t key v (mst_add X B (Suc n) t key v (Some z))"
proof -
  obtain es where es: "get_entries X B t = Inr es" and lay: "layer_ok (Suc L) es (layer t)"
    and ok: "entries_ok X (Suc L) (sub_ok X B (Suc L)) es"
    using t(1) by (rule wf_mst_E)
  have lv: "tleaves X B (Suc (Suc L)) t = eleaves X B (Suc L) es" using es by (simp add: tleaves_Suc)
  have sorted: "ksorted (eleaves X B (Suc L) es)" using t(3) lv by simp
  have na: "no_adjacent_trees es" using ok by (simp add: entries_ok_def)
  have b: "Suc L < 2 ^ 32" using layer_ok_bound[OF lay] .
  have mx: "max L z = L" "max (Suc L) z = Suc L" using z(2) by simp_all
  note step = key z(2) get_layer_known[OF t(2)] with_layer_id[OF t(2)]
  from es sorted na show ?thesis
  proof (cases rule: cursor_cases[where key = key])
    case (flat ls rs prev)
    have e: "get_entries X B t = Inr (ls @ rs)" using es flat(1) by simp
    have srt: "ksorted (eleaves X B (Suc L) rs)" using sorted flat(1) by (simp add: ksorted_append)
    have parts: "entries_ok X (Suc L) (sub_ok X B (Suc L)) ls" "entries_ok X (Suc L) (sub_ok X B (Suc L)) rs"
      using ok flat(1) by (auto simp: entries_ok_append)
    have kr: "key \<notin> fst ` set (eleaves X B (Suc L) rs)"
      using key_above_absent[OF parts(2) _ srt flat(7,9)] z by simp
    obtain s where s: "create_child X B (Suc n) t = Inr s" "wf_mst X B L s" "tleaves X B (Suc L) s = []"
      using create_child_ok[OF t(2) b] by blast
    obtain s' where s': "mst_add X B n s key v (Some z) = Inr s'" "added X B L [(key, v)] s'"
      using IH[OF s(2)] s(3) mx(1) z(1) by (auto simp: add_spec_def kinsert_def)
    have r: "mst_add X B (Suc n) t key v (Some z) = Inr (new_tree t (ls @ TreeE s' # rs))"
      using step flat(2-5) s(1) s'(1) splice_in_at[OF e]
      by (auto simp: ensure_valid_mst_key_def split: option.splits node_entry.splits)
    have "added X B (Suc L) (kinsert key v (eleaves X B (Suc L) es)) (new_tree t (ls @ TreeE s' # rs))"
      using kinsert_split[OF flat(8,9) kr, of "[]"] t(2) b parts added_sub[OF s'(2)] flat(1,6,7)
      by (intro added_new_tree)
        (auto simp: entries_ok_append entries_ok_Cons not_meets_tree_left not_meets_tree_right)
    then show ?thesis
      using r kr all_below_absent[OF flat(8)] mx(2) z(1) lv flat(1)
      by (intro add_specI) auto
  next
    case (tree ls m rs)
    have e: "get_entries X B t = Inr (ls @ TreeE m # rs)" using es tree(1) by simp
    have srt: "ksorted (eleaves X B (Suc L) rs)" and sm: "ksorted (tleaves X B (Suc L) m)"
      using sorted tree(1) by (simp_all add: ksorted_append)
    have parts: "entries_ok X (Suc L) (sub_ok X B (Suc L)) ls" "entries_ok X (Suc L) (sub_ok X B (Suc L)) rs"
      "sub_ok X B (Suc L) m"
      using ok tree(1) by (auto simp: entries_ok_append entries_ok_Cons)
    have kr: "key \<notin> fst ` set (eleaves X B (Suc L) rs)"
      using key_above_absent[OF parts(2) _ srt tree(6,8)] z by simp
    have m: "add_spec X B L m key v (mst_add X B n m key v (Some z))" using IH[of m] parts(3) sm by simp
    have mem: "key \<in> fst ` set (tleaves X B (Suc (Suc L)) t) \<longleftrightarrow> key \<in> fst ` set (tleaves X B (Suc L) m)"
      using lv kr all_below_absent[OF tree(7)] tree(1) by auto
    show ?thesis
    proof (rule add_specI)
      assume "key \<in> fst ` set (tleaves X B (Suc (Suc L)) t)"
      then show "mst_add X B (Suc n) t key v (Some z) = Inl (AlreadyValue key)"
        using m mem step tree(2-4) by (simp add: add_spec_def ensure_valid_mst_key_def)
    next
      assume "key \<notin> fst ` set (tleaves X B (Suc (Suc L)) t)"
      then have km: "key \<notin> fst ` set (tleaves X B (Suc L) m)" using mem by simp
      then obtain s where s: "mst_add X B n m key v (Some z) = Inr s"
        "added X B L (kinsert key v (tleaves X B (Suc L) m)) s"
        using m mx(1) z(1) by (auto simp: add_spec_def)
      have r: "mst_add X B (Suc n) t key v (Some z) = Inr (new_tree t (ls @ TreeE s # rs))"
        using step tree(2-4) s(1) update_entry_at[OF e] by (simp add: ensure_valid_mst_key_def)
      have "added X B (Suc L) (kinsert key v (eleaves X B (Suc L) es)) (new_tree t (ls @ TreeE s # rs))"
        using kinsert_split[OF tree(7,8) kr km, of v] t(2) b parts added_sub[OF s(2)] tree(1,5,6)
          kfrom_absent[OF km]
        by (intro added_new_tree)
          (auto simp: entries_ok_append entries_ok_Cons not_meets_tree_left not_meets_tree_right kinsert_def)
      then show "\<exists>t'. mst_add X B (Suc n) t key v (Some z) = Inr t' \<and>
          added X B (max (Suc L) (leading_zeros_on_hash X key))
            (kinsert key v (tleaves X B (Suc (Suc L)) t)) t'"
        using r mx(2) z(1) lv by auto
    qed
  qed
qed

text \<open>
  The layer a node is given by \<open>get_layer\<close> at the start of \<open>add\<close> does not change what the
  rest of the call does with it, nor does passing the zeros of the key along.
\<close>

lemma mst_add_known:
  assumes "wf_mst X B L t" "L < Suc n"
  shows "mst_add X B (Suc n) t key v kz =
    mst_add X B (Suc n) (with_layer t L) key v
      (Some (case kz of Some z \<Rightarrow> z | None \<Rightarrow> leading_zeros_on_hash X key))"
proof -
  have "get_layer X B (Suc n) (with_layer t L) = Inr (L, with_layer t L)"
    using get_layer_known[of "with_layer t L" L] by (simp add: with_layer_id)
  then show ?thesis by (simp add: get_layer_ok[OF assms] split: option.splits)
qed

lemma add_spec_with_layer: "add_spec X B L (with_layer t L) key v r \<longleftrightarrow> add_spec X B L t key v r"
  by (simp add: add_spec_def)

lemma mst_add_spec:
  "wf_mst X B L t \<Longrightarrow> ksorted (tleaves X B (Suc L) t) \<Longrightarrow> L < n \<Longrightarrow>
   is_valid_repo_mst_path X key \<Longrightarrow> leading_zeros_on_hash X key < 2 ^ 32 \<Longrightarrow>
   kz = None \<or> kz = Some (leading_zeros_on_hash X key) \<Longrightarrow>
   add_spec X B L t key v (mst_add X B n t key v kz)"
proof (induction n arbitrary: L t kz)
  case (Suc n)
  let ?z = "leading_zeros_on_hash X key" and ?t = "with_layer t L"
  have t: "wf_mst X B L ?t" "layer ?t = Some L" "ksorted (tleaves X B (Suc L) ?t)"
    using wf_mst_with_layer[OF Suc.prems(1)] Suc.prems(2) by simp_all
  have eq: "mst_add X B (Suc n) t key v kz = mst_add X B (Suc n) ?t key v (Some ?z)"
    using mst_add_known[OF Suc.prems(1,3)] Suc.prems(6) by auto
  consider (same) "?z = L" | (lower) "?z < L" | (higher) "L < ?z" by linarith
  then have "add_spec X B L ?t key v (mst_add X B (Suc n) ?t key v (Some ?z))"
  proof cases
    case same
    have "L \<le> n" using Suc.prems(3) by simp
    from add_same_layer[OF t this Suc.prems(4) same, of v] show ?thesis
      unfolding add_spec_def same max.idem .
  next
    case lower
    then obtain L' where L': "L = Suc L'" by (cases L) auto
    have IH: "add_spec X B L' s key v (mst_add X B n s key v (Some ?z))"
      if "wf_mst X B L' s" "ksorted (tleaves X B (Suc L') s)" for s
      using Suc.IH[OF that] Suc.prems(3-5) L' by simp
    show ?thesis
      using add_lower[where z = ?z, OF t[unfolded L'] Suc.prems(4) refl lower[unfolded L'] IH] L' by simp
  next
    case higher
    then show ?thesis using add_higher[OF t Suc.prems(3,4) refl higher Suc.prems(5)] by simp
  qed
  then show ?case unfolding eq by (simp only: add_spec_with_layer)
qed simp

end
