(* ===== verification/Mst_Delete.thy ===== *)
theory Mst_Delete
  imports Mst_Add
begin

text \<open>
  Correctness of \<open>update\<close>, \<open>append_merge\<close>, \<open>trim_top\<close> and \<open>delete\<close>: an update replaces the
  value of a present key, merging joins two neighbouring subtrees, and a deletion removes
  exactly one key; both report an absent key.
\<close>

section \<open>Update\<close>

lemma kinsert_mid:
  assumes "all_below key as" "\<forall>p\<in>set cs. key < fst p"
  shows "kinsert key v (as @ ms @ cs) = as @ kinsert key v ms @ cs"
  using assms
  by (simp add: kinsert_def all_below_def kabove_all kabove_none kbelow_all kbelow_none less_imp_le)

lemma kdelete_mid:
  assumes "key \<notin> fst ` set as" "key \<notin> fst ` set cs"
  shows "kdelete key (as @ ms @ cs) = as @ kdelete key ms @ cs"
  using assms by (simp add: kdelete_absent)

lemma kinsert_self [simp]: "kinsert key v [(key, w)] = [(key, v)]"
  by (simp add: kinsert_def kbelow_def kabove_def)

lemma kdelete_self [simp]: "kdelete key [(key, w)] = []"
  by (simp add: kdelete_def)

text \<open>A key found in the entry list splits the leaves of the node around it.\<close>

lemma found_parts:
  assumes "ksorted (eleaves X B n (ls @ LeafE key w # rs))"
  shows "all_below key (eleaves X B n ls)" "\<forall>p\<in>set (eleaves X B n rs). key < fst p"
  using assms by (auto simp: ksorted_append ksorted_Cons all_below_def)

lemma found_kinsert:
  assumes "ksorted (eleaves X B n (ls @ LeafE key w # rs))"
  shows "eleaves X B n (ls @ LeafE key v # rs) = kinsert key v (eleaves X B n (ls @ LeafE key w # rs))"
  using kinsert_mid[OF found_parts[OF assms], of v "[(key, w)]"] by simp

lemma found_kdelete:
  assumes "ksorted (eleaves X B n (ls @ LeafE key w # rs))"
  shows "eleaves X B n (ls @ rs) = kdelete key (eleaves X B n (ls @ LeafE key w # rs))"
proof -
  have "key \<notin> fst ` set (eleaves X B n ls)" "key \<notin> fst ` set (eleaves X B n rs)"
    using found_parts[OF assms] all_below_absent by auto
  from kdelete_mid[OF this, of "[(key, w)]"] show ?thesis by simp
qed

definition updated :: "ext \<Rightarrow> blocks \<Rightarrow> nat \<Rightarrow> nat option \<Rightarrow> leaf list \<Rightarrow> mst \<Rightarrow> bool" where
  "updated X B L lay xs t \<longleftrightarrow>
     wf_mst X B L t \<and> entries_of X B t \<noteq> [] \<and> tleaves X B (Suc L) t = xs \<and> layer t = lay"

lemma updated_new_tree:
  assumes "layer_ok L es0 (layer t)" "entries_ok X L (sub_ok X B L) es" "es \<noteq> []" "eleaves X B L es = xs"
  shows "updated X B L (layer t) xs (new_tree t es)"
  using assms layer_ok_nonempty[OF assms(1), of es] by (simp add: updated_def wf_mst_new_tree)

lemma entries_ok_replace_leaf:
  "entries_ok X L P (ls @ LeafE k v # rs) \<Longrightarrow> entries_ok X L P (ls @ LeafE k w # rs)"
  by (simp add: entries_ok_append entries_ok_Cons)

lemma entries_ok_replace_tree:
  "entries_ok X L P (ls @ TreeE s # rs) \<Longrightarrow> P u \<Longrightarrow> entries_ok X L P (ls @ TreeE u # rs)"
  by (auto simp: entries_ok_append entries_ok_Cons not_meets_tree_left not_meets_tree_right)

definition update_spec ::
    "ext \<Rightarrow> blocks \<Rightarrow> nat \<Rightarrow> mst \<Rightarrow> string \<Rightarrow> cid \<Rightarrow> mst_error + mst \<Rightarrow> bool" where
  "update_spec X B L t key v r \<longleftrightarrow>
     (if key \<in> fst ` set (tleaves X B (Suc L) t)
      then \<exists>t'. r = Inr t' \<and> updated X B L (layer t) (kinsert key v (tleaves X B (Suc L) t)) t'
      else r = Inl (CouldNotFind key))"

lemma mst_update_spec:
  "wf_mst X B L t \<Longrightarrow> ksorted (tleaves X B (Suc L) t) \<Longrightarrow> L < n \<Longrightarrow> is_valid_repo_mst_path X key \<Longrightarrow>
   update_spec X B L t key v (mst_update X B n t key v)"
proof (induction n arbitrary: L t)
  case (Suc n)
  obtain es where es: "get_entries X B t = Inr es" and lay: "layer_ok L es (layer t)"
    and ok: "entries_ok X L (sub_ok X B L) es"
    using Suc.prems(1) by (rule wf_mst_E)
  have lv: "tleaves X B (Suc L) t = eleaves X B L es" using es by (simp add: tleaves_Suc)
  have sorted: "ksorted (eleaves X B L es)" using Suc.prems(2) lv by simp
  have na: "no_adjacent_trees es" using ok by (simp add: entries_ok_def)
  have valid: "ensure_valid_mst_key X key = Inr ()" using Suc.prems(4) by (simp add: ensure_valid_mst_key_def)
  have found: "update_spec X B L t key v (update_entry X B t (int (length ls)) (LeafE key v))"
    if "es = ls @ LeafE key w # rs" for ls w rs
  proof -
    have "update_entry X B t (int (length ls)) (LeafE key v) = Inr (new_tree t (ls @ LeafE key v # rs))"
      using update_entry_at that es by simp
    moreover have "updated X B L (layer t) (kinsert key v (eleaves X B L es)) (new_tree t (ls @ LeafE key v # rs))"
      using ok sorted that found_kinsert[of X B L ls key w rs v]
      by (intro updated_new_tree[OF lay]) (auto intro: entries_ok_replace_leaf)
    ultimately show ?thesis using that by (auto simp: update_spec_def lv)
  qed
  from es sorted na show ?case
  proof (cases rule: cursor_cases[where key = key])
    case (flat ls rs prev)
    have srt: "ksorted (eleaves X B L rs)" using sorted flat(1) by (simp add: ksorted_append)
    note li = leaf_is_key_in[OF srt flat(7,9)]
    show ?thesis
    proof (cases "leaf_is key (case rs of [] \<Rightarrow> None | r # _ \<Rightarrow> Some r)")
      case True
      then obtain w rs' where "rs = LeafE key w # rs'" by (rule leaf_is_E)
      then show ?thesis using found flat(1-3) valid by (simp add: leaf_is_def)
    next
      case False
      then show ?thesis
        using li all_below_absent[OF flat(8)] flat(2-5) valid
        by (auto simp: update_spec_def lv flat(1) split: option.splits node_entry.splits)
    qed
  next
    case (tree ls m rs)
    have e: "get_entries X B t = Inr (ls @ TreeE m # rs)" using es tree(1) by simp
    have srt: "ksorted (eleaves X B L rs)" and sm: "ksorted (tleaves X B L m)"
      using sorted tree(1) by (simp_all add: ksorted_append)
    note li = leaf_is_key_in[OF srt tree(6,8)]
    show ?thesis
    proof (cases "leaf_is key (case rs of [] \<Rightarrow> None | r # _ \<Rightarrow> Some r)")
      case True
      then obtain w rs' where "rs = LeafE key w # rs'" by (rule leaf_is_E)
      then show ?thesis using found[of "ls @ [TreeE m]"] tree(1-3) valid by (simp add: leaf_is_def add.commute)
    next
      case False
      obtain L' where L': "L = Suc L'" "wf_mst X B L' m"
        using ok tree(1) by (auto simp: entries_ok_append entries_ok_Cons elim: sub_ok_E)
      have m: "if key \<in> fst ` set (tleaves X B L m)
        then \<exists>s. mst_update X B n m key v = Inr s \<and> updated X B L' (layer m) (kinsert key v (tleaves X B L m)) s
        else mst_update X B n m key v = Inl (CouldNotFind key)"
        using Suc.IH[OF L'(2)] sm L'(1) Suc.prems(3,4) by (simp add: update_spec_def)
      have up: "updated X B L (layer t) (kinsert key v (eleaves X B L es)) (new_tree t (ls @ TreeE s # rs))"
        if "updated X B L' (layer m) (kinsert key v (tleaves X B L m)) s" for s
        using that ok L'(1) kinsert_mid[OF tree(7) all_from_absent[OF tree(8)], of v "tleaves X B L m"] False li tree(1)
        by (intro updated_new_tree[OF lay]) (auto simp: updated_def intro!: entries_ok_replace_tree[of _ _ _ ls m])
      show ?thesis
        using m li False all_below_absent[OF tree(7)] up update_entry_at[OF e] tree(2-4) valid
        by (auto simp: update_spec_def lv tree(1) split: if_splits)
    qed
  qed
qed simp

section \<open>Merging neighbouring subtrees\<close>

lemma entries_ok_join:
  assumes "entries_ok X L P es" "entries_ok X L P fs"
  obtains (plain) "\<not> meets es fs" "entries_ok X L P (es @ fs)"
  | (trees) es' l r fs' where "es = es' @ [TreeE l]" "fs = TreeE r # fs'" "P l" "P r"
      "entries_ok X L P es'" "entries_ok X L P fs'" "ends_leaf es'" "begins_leaf fs'"
proof (cases "meets es fs")
  case False
  then show ?thesis using plain assms by (simp add: entries_ok_append)
next
  case True
  then obtain es' l r fs' where e: "es = es' @ [TreeE l]" "fs = TreeE r # fs'"
    unfolding meets_def is_tree_iff by (metis append_butlast_last_id list.exhaust_sel)
  show ?thesis
    using trees[OF e] assms unfolding e
    by (auto simp: entries_ok_append entries_ok_Cons not_meets_tree_left not_meets_tree_right)
qed

theorem append_merge_ok:
  "wf_mst X B L s \<Longrightarrow> wf_mst X B L t \<Longrightarrow> L < n \<Longrightarrow>
   entries_of X B s \<noteq> [] \<Longrightarrow>
   \<exists>m. append_merge X B n s t = Inr m \<and>
     updated X B L (Some L) (tleaves X B (Suc L) s @ tleaves X B (Suc L) t) m"
proof (induction n arbitrary: L s t)
  case (Suc n)
  obtain es where es: "get_entries X B s = Inr es" and lay: "layer_ok L es (layer s)"
    and ok: "entries_ok X L (sub_ok X B L) es"
    using Suc.prems(1) by (rule wf_mst_E)
  obtain fs where fs: "get_entries X B t = Inr fs" and okf: "entries_ok X L (sub_ok X B L) fs"
    using Suc.prems(2) by (rule wf_mst_E)
  have ne: "es \<noteq> []" using Suc.prems(4) es by simp
  have lay': "layer_ok L es (layer (with_layer s L))" using lay by (simp add: layer_ok_def)
  have lv: "tleaves X B (Suc L) s = eleaves X B L es" "tleaves X B (Suc L) t = eleaves X B L fs"
    using es fs by (simp_all add: tleaves_Suc)
  note gl = get_layer_ok[OF Suc.prems(1,3)] get_layer_ok[OF Suc.prems(2,3)]
  from ok okf show ?case
  proof (cases rule: entries_ok_join)
    case plain
    have "append_merge X B (Suc n) s t = Inr (new_tree (with_layer s L) (es @ fs))"
      using plain(1)
      by (cases es rule: rev_cases; cases fs) (auto simp: gl es fs meets_def split: node_entry.splits)
    moreover have "updated X B L (layer (with_layer s L)) (eleaves X B L es @ eleaves X B L fs)
        (new_tree (with_layer s L) (es @ fs))"
      using plain(2) ne by (intro updated_new_tree[OF lay']) auto
    ultimately show ?thesis by (simp add: lv)
  next
    case (trees es' l r fs')
    obtain L' where L': "L = Suc L'" "wf_mst X B L' l" "wf_mst X B L' r" "entries_of X B l \<noteq> []"
      using trees(3,4) by (cases L) auto
    obtain m where m: "append_merge X B n l r = Inr m"
      "updated X B L' (Some L') (tleaves X B L l @ tleaves X B L r) m"
      using Suc.IH[OF L'(2,3) _ L'(4)] L'(1) Suc.prems(3) by auto
    have "append_merge X B (Suc n) s t = Inr (new_tree (with_layer s L) (es' @ TreeE m # fs'))"
      by (simp add: gl es fs trees(1,2) m(1))
    moreover have "updated X B L (layer (with_layer s L)) (eleaves X B L es @ eleaves X B L fs)
        (new_tree (with_layer s L) (es' @ TreeE m # fs'))"
      using m(2) L'(1) trees
      by (intro updated_new_tree[OF lay'])
        (auto simp: updated_def entries_ok_append entries_ok_Cons not_meets_tree_left not_meets_tree_right)
    ultimately show ?thesis by (simp add: lv)
  qed
qed simp

section \<open>Deletion\<close>

text \<open>
  What removing one leaf leaves of a node, before the top is trimmed: the entries are well
  formed at the same layer, but there may be none left.
\<close>

definition removed :: "ext \<Rightarrow> blocks \<Rightarrow> nat \<Rightarrow> nat option \<Rightarrow> leaf list \<Rightarrow> mst \<Rightarrow> bool" where
  "removed X B L lay xs t \<longleftrightarrow>
     (\<exists>t0 es. t = new_tree t0 es \<and> layer t0 = lay \<and> entries_ok X L (sub_ok X B L) es \<and> eleaves X B L es = xs)"

lemma removed_new_tree:
  "entries_ok X L (sub_ok X B L) es \<Longrightarrow> eleaves X B L es = xs \<Longrightarrow> removed X B L (layer t) xs (new_tree t es)"
  unfolding removed_def by blast

lemma removed_wf:
  assumes "removed X B L lay xs t" "layer_ok L es0 lay"
  obtains L' where "L' \<le> L" "wf_mst X B L' t" "tleaves X B (Suc L') t = xs"
    "xs \<noteq> [] \<Longrightarrow> L' = L" "xs = [] \<Longrightarrow> lay = None \<Longrightarrow> L' = 0"
proof -
  obtain t0 es where t: "t = new_tree t0 es" "layer t0 = lay" "entries_ok X L (sub_ok X B L) es"
    "eleaves X B L es = xs"
    using assms(1) unfolding removed_def by blast
  show ?thesis
  proof (cases "es = [] \<and> lay = None")
    case True
    then show ?thesis
      using that[of 0] t by (simp add: wf_mst_new_tree) (simp add: layer_ok_def)
  next
    case False
    then have "wf_mst X B L t"
      using t layer_ok_nonempty[OF assms(2), of es] layer_ok_bound[OF assms(2)]
      by (auto simp: wf_mst_new_tree) (use assms(2) in \<open>auto simp: layer_ok_def\<close>)
    moreover from this have "xs \<noteq> []" if "es \<noteq> []"
      using tleaves_nonempty[of X B L t] that t by simp
    ultimately show ?thesis using that[of L] t False by auto
  qed
qed

definition delete_spec :: "ext \<Rightarrow> blocks \<Rightarrow> nat \<Rightarrow> mst \<Rightarrow> string \<Rightarrow> mst_error + mst \<Rightarrow> bool" where
  "delete_spec X B L t key r \<longleftrightarrow>
     (if key \<in> fst ` set (tleaves X B (Suc L) t)
      then \<exists>t'. r = Inr t' \<and> removed X B L (layer t) (kdelete key (tleaves X B (Suc L) t)) t'
      else r = Inl (CouldNotFind key))"

lemma at_index_next:
  assumes "get_entries X B t = Inr (ls @ e # rs)"
  shows "at_index X B t (int (length ls) + 1) = Inr (case rs of [] \<Rightarrow> None | r # _ \<Rightarrow> Some r)"
  using at_index_at[of X B t "ls @ [e]" rs] assms by (simp add: add.commute)

lemma removed_at:
  assumes "get_entries X B t = Inr (ls @ LeafE key w # rs)"
    and "entries_ok X L (sub_ok X B L) (ls @ LeafE key w # rs)"
    and "ksorted (eleaves X B L (ls @ LeafE key w # rs))" and "\<not> meets ls rs"
  shows "\<exists>t'. remove_entry X B t (int (length ls)) = Inr t' \<and>
    removed X B L (layer t) (kdelete key (eleaves X B L (ls @ LeafE key w # rs))) t'"
  using removed_new_tree[of X L B "ls @ rs"] found_kdelete[OF assms(3)] remove_entry_at[OF assms(1)] assms(2,4)
  by (auto simp: entries_ok_append entries_ok_Cons)

lemma removed_merge:
  assumes E: "E = ls @ TreeE m # LeafE key w # TreeE nx # rs" and es: "get_entries X B t = Inr E"
    and ok: "entries_ok X L (sub_ok X B L) E" and sorted: "ksorted (eleaves X B L E)" and fuel: "L < Suc n"
  shows "\<exists>t'. res_bind (append_merge X B n m nx) (\<lambda>merged.
      res_bind (mst_slice X B t (Some 0) (Some (int (length ls)))) (\<lambda>a.
      res_bind (mst_slice X B t (Some (int (length ls) + 3)) None) (\<lambda>b.
        Inr (new_tree t (a @ TreeE merged # b))))) = Inr t' \<and>
    removed X B L (layer t) (kdelete key (eleaves X B L E)) t'"
proof -
  have sub: "sub_ok X B L m" "sub_ok X B L nx" using ok E by (auto simp: entries_ok_append entries_ok_Cons)
  then obtain L' where L': "L = Suc L'" "wf_mst X B L' m" "wf_mst X B L' nx" "entries_of X B m \<noteq> []"
    by (cases L) auto
  then obtain s where s: "append_merge X B n m nx = Inr s"
    "updated X B L' (Some L') (tleaves X B L m @ tleaves X B L nx) s"
    using append_merge_ok[OF L'(2,3)] fuel by (metis Suc_less_eq)
  have "mst_slice X B t (Some 0) (Some (int (length ls))) = Inr ls"
    using mst_slice_to es E by blast
  moreover have "mst_slice X B t (Some (int (length ls) + 3)) None = Inr rs"
    using mst_slice_from[of X B t "ls @ [TreeE m, LeafE key w, TreeE nx]" rs] es E by (simp add: add.commute)
  moreover have "entries_ok X L (sub_ok X B L) (ls @ TreeE s # rs)"
    using ok s(2) L'(1) E
    by (auto simp: updated_def entries_ok_append entries_ok_Cons not_meets_tree_left not_meets_tree_right)
  moreover have "eleaves X B L (ls @ TreeE s # rs) = kdelete key (eleaves X B L E)"
    using found_kdelete[of X B L "ls @ [TreeE m]" key w "TreeE nx # rs"] sorted s(2) L'(1) E
    by (simp add: updated_def)
  ultimately show ?thesis using removed_new_tree s(1) by auto
qed

lemma delete_recurse_found:
  assumes es: "get_entries X B t = Inr (ls @ LeafE key w # rs)"
    and ok: "entries_ok X L (sub_ok X B L) (ls @ LeafE key w # rs)"
    and sorted: "ksorted (eleaves X B L (ls @ LeafE key w # rs))" and fuel: "L < Suc n"
    and find: "find_gt_or_equal_leaf_index X B t key = Inr (int (length ls))"
  shows "delete_spec X B L t key (delete_recurse X B (Suc n) t key)"
proof -
  have at: "at_index X B t (int (length ls)) = Inr (Some (LeafE key w))"
    "at_index X B t (int (length ls) - 1) = Inr (if ls = [] then None else Some (last ls))"
    "at_index X B t (int (length ls) + 1) = Inr (case rs of [] \<Rightarrow> None | r # _ \<Rightarrow> Some r)"
    using at_index_at[OF es] at_index_before[OF es] at_index_next[OF es] by simp_all
  have lv: "tleaves X B (Suc L) t = eleaves X B L (ls @ LeafE key w # rs)" using es by (simp add: tleaves_Suc)
  have "\<exists>t'. delete_recurse X B (Suc n) t key = Inr t' \<and>
      removed X B L (layer t) (kdelete key (eleaves X B L (ls @ LeafE key w # rs))) t'"
  proof (cases "meets ls rs")
    case True
    then obtain ls' m nx rs' where parts: "ls = ls' @ [TreeE m]" "rs = TreeE nx # rs'"
      unfolding meets_def is_tree_iff by (metis append_butlast_last_id list.exhaust_sel)
    show ?thesis
      using removed_merge[OF _ _ _ _ fuel, where t = t, of _ ls' m key w nx rs'] es ok sorted at find parts
      by (simp add: leaf_is_def add.commute)
  next
    case False
    then have "delete_recurse X B (Suc n) t key = remove_entry X B t (int (length ls))"
      using at find
      by (cases ls rule: rev_cases; cases rs)
        (auto simp: leaf_is_def meets_def split: node_entry.splits)
    then show ?thesis using removed_at[OF es ok sorted False] by simp
  qed
  then show ?thesis by (auto simp: delete_spec_def lv)
qed

lemma delete_recurse_spec:
  "wf_mst X B L t \<Longrightarrow> ksorted (tleaves X B (Suc L) t) \<Longrightarrow> L < n \<Longrightarrow>
   delete_spec X B L t key (delete_recurse X B n t key)"
proof (induction n arbitrary: L t)
  case (Suc n)
  obtain es where es: "get_entries X B t = Inr es" and lay: "layer_ok L es (layer t)"
    and ok: "entries_ok X L (sub_ok X B L) es"
    using Suc.prems(1) by (rule wf_mst_E)
  have lv: "tleaves X B (Suc L) t = eleaves X B L es" using es by (simp add: tleaves_Suc)
  have sorted: "ksorted (eleaves X B L es)" using Suc.prems(2) lv by simp
  have na: "no_adjacent_trees es" using ok by (simp add: entries_ok_def)
  from es sorted na show ?case
  proof (cases rule: cursor_cases[where key = key])
    case (flat ls rs prev)
    have srt: "ksorted (eleaves X B L rs)" using sorted flat(1) by (simp add: ksorted_append)
    note li = leaf_is_key_in[OF srt flat(7,9)]
    show ?thesis
    proof (cases "leaf_is key (case rs of [] \<Rightarrow> None | r # _ \<Rightarrow> Some r)")
      case True
      then obtain w rs' where "rs = LeafE key w # rs'" by (rule leaf_is_E)
      then show ?thesis
        using delete_recurse_found[OF _ _ _ Suc.prems(3) flat(2)] es ok sorted flat(1) by blast
    next
      case False
      then show ?thesis
        using li all_below_absent[OF flat(8)] flat(2-5)
        by (auto simp: delete_spec_def lv flat(1) split: option.splits node_entry.splits)
    qed
  next
    case (tree ls m rs)
    have e: "get_entries X B t = Inr (ls @ TreeE m # rs)" using es tree(1) by simp
    have srt: "ksorted (eleaves X B L rs)" and sm: "ksorted (tleaves X B L m)"
      using sorted tree(1) by (simp_all add: ksorted_append)
    note li = leaf_is_key_in[OF srt tree(6,8)]
    show ?thesis
    proof (cases "leaf_is key (case rs of [] \<Rightarrow> None | r # _ \<Rightarrow> Some r)")
      case True
      then obtain w rs' where "rs = LeafE key w # rs'" by (rule leaf_is_E)
      then show ?thesis
        using delete_recurse_found[OF _ _ _ Suc.prems(3), of X B t "ls @ [TreeE m]" key w rs'] es ok sorted tree(1,2)
        by (simp add: add.commute)
    next
      case False
      have kr: "key \<notin> fst ` set (eleaves X B L rs)" "key \<notin> fst ` set (eleaves X B L ls)"
        using li False all_below_absent[OF tree(7)] by auto
      obtain L' where L': "L = Suc L'" "wf_mst X B L' m"
        using ok tree(1) by (auto simp: entries_ok_append entries_ok_Cons elim: sub_ok_E)
      have m: "if key \<in> fst ` set (tleaves X B L m)
        then \<exists>s. delete_recurse X B n m key = Inr s \<and> removed X B L' (layer m) (kdelete key (tleaves X B L m)) s
        else delete_recurse X B n m key = Inl (CouldNotFind key)"
        using Suc.IH[OF L'(2)] sm L'(1) Suc.prems(3) by (simp add: delete_spec_def)
      have dl: "kdelete key (eleaves X B L es) = eleaves X B L ls @ kdelete key (tleaves X B L m) @ eleaves X B L rs"
        using kdelete_mid[OF kr(2,1)] tree(1) by simp
      have sub: "\<exists>t'. res_bind (get_entries X B s) (\<lambda>es'. if es' = [] then remove_entry X B t (int (length ls))
          else update_entry X B t (int (length ls)) (TreeE s)) = Inr t' \<and>
          removed X B L (layer t) (kdelete key (eleaves X B L es)) t'"
        if s: "removed X B L' (layer m) (kdelete key (tleaves X B L m)) s" for s
      proof -
        obtain s0 es' where s0: "s = new_tree s0 es'" "layer s0 = layer m"
          "entries_ok X L' (sub_ok X B L') es'" "eleaves X B L' es' = kdelete key (tleaves X B L m)"
          using s unfolding removed_def by blast
        show ?thesis
        proof (cases "es' = []")
          case True
          then show ?thesis
            using s0 remove_entry_at[OF e] removed_new_tree[of X L B "ls @ rs"] ok tree(1,5) dl
            by (auto simp: entries_ok_append entries_ok_Cons)
        next
          case False
          have "layer_ok L' (entries_of X B m) (layer m)" using L'(2) by (auto elim: wf_mst_E)
          then have "sub_ok X B L s"
            using layer_ok_nonempty[of L' _ "layer m" es'] False s0 L'(1) by (auto simp: wf_mst_new_tree)
          then show ?thesis
            using s0 False update_entry_at[OF e] removed_new_tree[of X L B "ls @ TreeE s # rs"] dl L'(1)
              entries_ok_replace_tree[of X L _ ls m rs s] ok tree(1)
            by auto
        qed
      qed
      show ?thesis
        using m li False kr sub tree(2-4) by (auto simp: delete_spec_def lv tree(1) cong: if_cong split: if_splits)
    qed
  qed
qed simp

section \<open>Trimming the top\<close>

definition trimmed :: "ext \<Rightarrow> blocks \<Rightarrow> mst \<Rightarrow> bool" where
  "trimmed X B t = (case entries_of X B t of [TreeE _] \<Rightarrow> False | _ \<Rightarrow> True)"

lemma trim_top_ok:
  "wf_mst X B L t \<Longrightarrow> L < n \<Longrightarrow>
   \<exists>r L'. trim_top X B n t = Inr r \<and> L' \<le> L \<and> wf_mst X B L' r \<and> trimmed X B r \<and>
     tleaves X B (Suc L') r = tleaves X B (Suc L) t \<and>
     (entries_of X B t \<noteq> [] \<longrightarrow> entries_of X B r \<noteq> []) \<and> (entries_of X B t = [] \<longrightarrow> r = t \<and> L' = L)"
proof (induction n arbitrary: L t)
  case (Suc n)
  obtain es where es: "get_entries X B t = Inr es" and ok: "entries_ok X L (sub_ok X B L) es"
    using Suc.prems(1) by (rule wf_mst_E)
  show ?case
  proof (cases "\<exists>s. es = [TreeE s]")
    case True
    then obtain s where s: "es = [TreeE s]" by blast
    then obtain L' where L': "L = Suc L'" "wf_mst X B L' s" "entries_of X B s \<noteq> []"
      using ok by (auto simp: entries_ok_Cons elim: sub_ok_E)
    have "tleaves X B (Suc L) t = tleaves X B (Suc L') s" using es s L'(1) by (simp add: tleaves_Suc)
    with Suc.IH[OF L'(2)] L'(1,3) Suc.prems(2) show ?thesis
      by (auto simp: es s intro: le_SucI)
  next
    case False
    then have "trim_top X B (Suc n) t = Inr t" "trimmed X B t"
      using es by (auto simp: trimmed_def split: list.splits node_entry.splits)
    then show ?thesis using Suc.prems(1) by blast
  qed
qed simp

definition deleted :: "ext \<Rightarrow> blocks \<Rightarrow> nat \<Rightarrow> leaf list \<Rightarrow> mst \<Rightarrow> bool" where
  "deleted X B L xs t \<longleftrightarrow>
     (\<exists>L'\<le>L. wf_mst X B L' t \<and> tleaves X B (Suc L') t = xs \<and> trimmed X B t)"

lemma mst_delete_ok:
  assumes "wf_mst X B L t" "ksorted (tleaves X B (Suc L) t)" "L < n"
  shows "if key \<in> fst ` set (tleaves X B (Suc L) t)
    then \<exists>t'. mst_delete X B n t key = Inr t' \<and> deleted X B L (kdelete key (tleaves X B (Suc L) t)) t'
    else mst_delete X B n t key = Inl (CouldNotFind key)"
proof (cases "key \<in> fst ` set (tleaves X B (Suc L) t)")
  case True
  let ?xs = "kdelete key (tleaves X B (Suc L) t)"
  obtain s where s: "delete_recurse X B n t key = Inr s" "removed X B L (layer t) ?xs s"
    using delete_recurse_spec[OF assms, of key] True by (auto simp: delete_spec_def)
  obtain es where "layer_ok L es (layer t)" using assms(1) by (rule wf_mst_E)
  then obtain L' where L': "L' \<le> L" "wf_mst X B L' s" "tleaves X B (Suc L') s = ?xs"
    using removed_wf[OF s(2)] by metis
  then obtain r L'' where "trim_top X B n s = Inr r" "L'' \<le> L'" "wf_mst X B L'' r" "trimmed X B r"
    "tleaves X B (Suc L'') r = ?xs"
    using trim_top_ok[OF L'(2), of n] assms(3) by auto
  then show ?thesis using True s(1) L'(1) by (auto simp: mst_delete_def deleted_def intro: order.trans)
next
  case False
  then show ?thesis using delete_recurse_spec[OF assms, of key] by (simp add: delete_spec_def mst_delete_def)
qed

end
