(* ===== verification/Mst_Canonical.thy ===== *)
theory Mst_Canonical
  imports Mst_Delete
begin

text \<open>
  The shape of an MST is determined by its leaves: \<open>The MST is an ordered,
  insert-order-independent, deterministic tree\<close> of the comment at the top of
  \<open>mst/mod.rs\<close>. Two well-formed nodes at one layer with the same leaves have the same
  entries up to the same property of the subtrees, hence the same CID, and
  \<open>get_pointer\<close> returns that CID whatever is cached.
\<close>

section \<open>Entries are determined by the leaves\<close>

definition same_entry :: "ext \<Rightarrow> blocks \<Rightarrow> nat \<Rightarrow> node_entry \<Rightarrow> node_entry \<Rightarrow> bool" where
  "same_entry X B L e f =
     (case (e, f) of
        (LeafE k v, LeafE k' v') \<Rightarrow> k = k' \<and> v = v'
      | (TreeE s, TreeE u) \<Rightarrow> sub_ok X B L s \<and> sub_ok X B L u \<and> tleaves X B L s = tleaves X B L u
      | _ \<Rightarrow> False)"

lemma sub_ok_tleaves_nonempty: "sub_ok X B L s \<Longrightarrow> tleaves X B L s \<noteq> []"
  by (auto elim!: sub_ok_E dest: tleaves_nonempty)

text \<open>The leaves of a leading subtree are the leaves up to the first key of this layer.\<close>

lemma leading_subtree:
  assumes "sub_ok X B L s" "entries_ok X L (sub_ok X B L) es" "begins_leaf es"
  shows "takeWhile (\<lambda>p. leading_zeros_on_hash X (fst p) < L) (tleaves X B L s @ eleaves X B L es) = tleaves X B L s"
    "dropWhile (\<lambda>p. leading_zeros_on_hash X (fst p) < L) (tleaves X B L s @ eleaves X B L es) = eleaves X B L es"
proof -
  have s: "p \<in> set (tleaves X B L s) \<Longrightarrow> leading_zeros_on_hash X (fst p) < L" for p
    using sub_ok_zeros[OF assms(1)] by blast
  have e: "es = [] \<or> (\<exists>k v es'. es = LeafE k v # es' \<and> leading_zeros_on_hash X k = L)"
    using assms(2,3) by (auto simp: begins_leaf_def entries_ok_Cons)
  show "takeWhile (\<lambda>p. leading_zeros_on_hash X (fst p) < L) (tleaves X B L s @ eleaves X B L es) = tleaves X B L s"
    "dropWhile (\<lambda>p. leading_zeros_on_hash X (fst p) < L) (tleaves X B L s @ eleaves X B L es) = eleaves X B L es"
    using s e by (auto simp: takeWhile_append dropWhile_append)
qed

lemma entries_ok_tail: "entries_ok X L P (TreeE s # es) \<Longrightarrow> P s \<and> entries_ok X L P es \<and> begins_leaf es"
  by (simp add: entries_ok_Cons not_meets_tree_right)

lemma subtree_no_leaf:
  "sub_ok X B L s \<Longrightarrow> leading_zeros_on_hash X k = L \<Longrightarrow> tleaves X B L s @ xs \<noteq> (k, v) # ys"
  using sub_ok_tleaves_nonempty[of X B L s] sub_ok_zeros[of X B L s k]
  by (cases "tleaves X B L s") force+

lemma same_entries:
  "entries_ok X L (sub_ok X B L) es \<Longrightarrow> entries_ok X L (sub_ok X B L) fs \<Longrightarrow>
   eleaves X B L es = eleaves X B L fs \<Longrightarrow> list_all2 (same_entry X B L) es fs"
proof (induction es arbitrary: fs)
  case Nil
  then show ?case
    using sub_ok_tleaves_nonempty by (cases fs; cases "hd fs") (auto simp: entries_ok_Cons)
next
  case (Cons e es)
  show ?case
  proof (cases e)
    case e: (LeafE k v)
    then have k: "leading_zeros_on_hash X k = L" using Cons.prems(1) by (simp add: entries_ok_Cons)
    obtain f fs' where fs: "fs = f # fs'" using Cons.prems(3) e by (cases fs) auto
    show ?thesis
    proof (cases f)
      case (LeafE k' v')
      then show ?thesis using Cons fs e by (auto simp: same_entry_def entries_ok_Cons)
    next
      case (TreeE u)
      then have "sub_ok X B L u" using Cons.prems(2) fs by (simp add: entries_ok_Cons)
      from subtree_no_leaf[OF this k, of "eleaves X B L fs'" v "eleaves X B L es"] show ?thesis
        using Cons.prems(3) fs e TreeE by simp
    qed
  next
    case e: (TreeE s)
    have s: "sub_ok X B L s" "entries_ok X L (sub_ok X B L) es" "begins_leaf es"
      using entries_ok_tail[of X L "sub_ok X B L" s es] Cons.prems(1) e by auto
    obtain f fs' where fs: "fs = f # fs'"
      using Cons.prems(3) e sub_ok_tleaves_nonempty[OF s(1)] by (cases fs) auto
    show ?thesis
    proof (cases f)
      case (LeafE k v)
      then have "leading_zeros_on_hash X k = L" using Cons.prems(2) fs by (simp add: entries_ok_Cons)
      from subtree_no_leaf[OF s(1) this, of "eleaves X B L es" v "eleaves X B L fs'"] show ?thesis
        using Cons.prems(3) fs e LeafE by simp
    next
      case (TreeE u)
      have u: "sub_ok X B L u" "entries_ok X L (sub_ok X B L) fs'" "begins_leaf fs'"
        using entries_ok_tail[of X L "sub_ok X B L" u fs'] Cons.prems(2) fs TreeE by auto
      have eq: "tleaves X B L s @ eleaves X B L es = tleaves X B L u @ eleaves X B L fs'"
        using Cons.prems(3) e fs TreeE by simp
      have "tleaves X B L s = tleaves X B L u" "eleaves X B L es = eleaves X B L fs'"
        using leading_subtree[OF s] leading_subtree[OF u] eq by simp_all
      then show ?thesis using Cons.IH[OF s(2) u(2)] s u e fs TreeE by (simp add: same_entry_def)
    qed
  qed
qed

section \<open>The CID is determined by the leaves\<close>

definition same_pointers :: "node_entry \<Rightarrow> node_entry \<Rightarrow> bool" where
  "same_pointers e f =
     (case (e, f) of
        (LeafE k v, LeafE k' v') \<Rightarrow> k = k' \<and> v = v'
      | (TreeE s, TreeE u) \<Rightarrow> pointer s = pointer u
      | _ \<Rightarrow> False)"

lemma same_pointers_simps [simp]:
  "same_pointers (LeafE k v) f \<longleftrightarrow> f = LeafE k v"
  "same_pointers (TreeE s) (TreeE u) \<longleftrightarrow> pointer s = pointer u"
  "\<not> same_pointers (TreeE s) (LeafE k v)"
  by (auto simp: same_pointers_def split: node_entry.splits)

lemma same_pointers_TreeE: "same_pointers (TreeE s) f \<longleftrightarrow> (\<exists>u. f = TreeE u \<and> pointer s = pointer u)"
  by (cases f) auto

lemma ser_loop_same: "list_all2 same_pointers es fs \<Longrightarrow> ser_loop X lk es = ser_loop X lk fs"
  by (induction X lk es arbitrary: fs rule: ser_loop.induct)
    (auto simp: list_all2_Cons1 same_pointers_TreeE intro!: res_bind_cong split: sum.splits)

lemma serialize_same:
  assumes "list_all2 same_pointers es fs"
  shows "serialize_node_data X es = serialize_node_data X fs"
proof (cases es)
  case Nil
  then show ?thesis using assms by simp
next
  case (Cons e es')
  then show ?thesis
    using assms ser_loop_same[of es' _ X "[]"] ser_loop_same[OF assms, of X "[]"]
    by (cases e) (auto simp: serialize_node_data_def list_all2_Cons1 same_pointers_TreeE)
qed

lemma cid_for_entries_same:
  "list_all2 same_pointers es fs \<Longrightarrow> cid_for_entries X es = cid_for_entries X fs"
  by (simp add: cid_for_entries_def serialize_same[of es fs])

definition cid_entry :: "ext \<Rightarrow> blocks \<Rightarrow> nat \<Rightarrow> node_entry \<Rightarrow> mst_error + node_entry" where
  "cid_entry X B n e =
     (case e of
        TreeE s \<Rightarrow> res_bind (root_cid X B n s) (\<lambda>p. Inr (TreeE (set_pointer s p)))
      | LeafE k v \<Rightarrow> Inr e)"

lemma root_cid_Suc:
  "root_cid X B (Suc n) t =
     res_bind (get_entries X B t) (\<lambda>es. res_bind (res_map (cid_entry X B n) es) (cid_for_entries X))"
  by (simp add: cid_entry_def[abs_def])

lemma res_map_same:
  assumes "list_all2 P es fs"
    and "\<And>e f. P e f \<Longrightarrow> (\<exists>x. g e = Inl x \<and> g f = Inl x) \<or> (\<exists>a b. g e = Inr a \<and> g f = Inr b \<and> R a b)"
  shows "(\<exists>x. res_map g es = Inl x \<and> res_map g fs = Inl x) \<or>
    (\<exists>as bs. res_map g es = Inr as \<and> res_map g fs = Inr bs \<and> list_all2 R as bs)"
  using assms(1)
proof (induction rule: list_all2_induct)
  case (Cons e es f fs)
  then show ?case using assms(2)[OF Cons(1)] by auto
qed simp

lemma pointer_set_pointer [simp]: "pointer (set_pointer s p) = p"
  by (simp add: set_pointer_def)

lemma root_cid_determined:
  "wf_mst X B L t \<Longrightarrow> wf_mst X B L u \<Longrightarrow> tleaves X B (Suc L) t = tleaves X B (Suc L) u \<Longrightarrow>
   root_cid X B (Suc L) t = root_cid X B (Suc L) u"
proof (induction L arbitrary: t u)
  case 0
  obtain es fs where es: "get_entries X B t = Inr es" "entries_ok X 0 (sub_ok X B 0) es"
    and fs: "get_entries X B u = Inr fs" "entries_ok X 0 (sub_ok X B 0) fs"
    using 0(1,2) by (metis wf_mst_E)
  have "list_all2 (same_entry X B 0) es fs"
    using same_entries[OF es(2) fs(2)] 0(3) es(1) fs(1) by (simp add: tleaves_Suc)
  then have "list_all2 (=) es fs"
    by (rule list_all2_mono) (auto simp: same_entry_def split: node_entry.splits)
  then have "es = fs" by (simp add: list.rel_eq)
  then show ?case using es(1) fs(1) by simp
next
  case (Suc L)
  obtain es fs where es: "get_entries X B t = Inr es" "entries_ok X (Suc L) (sub_ok X B (Suc L)) es"
    and fs: "get_entries X B u = Inr fs" "entries_ok X (Suc L) (sub_ok X B (Suc L)) fs"
    using Suc.prems(1,2) by (metis wf_mst_E)
  have l2: "list_all2 (same_entry X B (Suc L)) es fs"
    using same_entries[OF es(2) fs(2)] Suc.prems(3) es(1) fs(1) by (simp add: tleaves_Suc)
  have "(\<exists>x. cid_entry X B (Suc L) e = Inl x \<and> cid_entry X B (Suc L) f = Inl x) \<or>
      (\<exists>a b. cid_entry X B (Suc L) e = Inr a \<and> cid_entry X B (Suc L) f = Inr b \<and> same_pointers a b)"
    if same: "same_entry X B (Suc L) e f" for e f
  proof (cases e)
    case (TreeE s)
    then obtain v where v: "f = TreeE v" using same by (cases f) (auto simp: same_entry_def)
    then have "root_cid X B (Suc L) s = root_cid X B (Suc L) v"
      using Suc.IH[of s v] same TreeE by (simp add: same_entry_def)
    then show ?thesis
      using TreeE v by (cases "root_cid X B (Suc L) v") (simp_all add: cid_entry_def del: root_cid.simps)
  next
    case (LeafE k v)
    then show ?thesis using same by (cases f) (auto simp: same_entry_def cid_entry_def)
  qed
  from res_map_same[where g = "cid_entry X B (Suc L)", OF l2 this] show ?case
    unfolding root_cid_Suc es(1) fs(1) res_bind_simps by (auto intro: cid_for_entries_same)
qed

section \<open>Cached pointers\<close>

lemma set_pointer_id: "\<not> outdated s \<Longrightarrow> set_pointer s (pointer s) = s"
  by (cases s) (simp add: set_pointer_def)

lemma get_pointer_Suc:
  "get_pointer X B (Suc n) t =
     (if \<not> outdated t then Inr (pointer t)
      else res_bind (get_entries X B t) (\<lambda>es.
        res_bind (res_map (refresh_entry X B n) es) (cid_for_entries X)))"
  by (simp add: refresh_entry_def[abs_def] cid_for_entries_def[abs_def])

lemma refresh_cid_entry:
  assumes "entries_ok X L (sub_ok X B L) es" "e \<in> set es" "L \<le> n"
    and "\<And>M s. L = Suc M \<Longrightarrow> wf_mst X B M s \<Longrightarrow> get_pointer X B n s = root_cid X B L s"
  shows "refresh_entry X B n e = cid_entry X B L e"
proof (cases e)
  case (TreeE s)
  then obtain L' where L': "L = Suc L'" "wf_mst X B L' s"
    using assms(1,2) by (cases L) (auto simp: entries_ok_def list_all_iff)
  have "get_pointer X B n s = root_cid X B L s" using assms(4)[OF L'] .
  moreover have "root_cid X B L s = Inr (pointer s)" if "\<not> outdated s"
    using wf_mst_pointer[OF L'(2)] that L'(1) by (simp add: pointer_ok_def)
  ultimately show ?thesis using TreeE by (simp add: refresh_entry_def cid_entry_def set_pointer_id)
qed (simp add: refresh_entry_def cid_entry_def)

theorem get_pointer_ok:
  "wf_mst X B L t \<Longrightarrow> L < n \<Longrightarrow> get_pointer X B n t = root_cid X B (Suc L) t"
proof (induction n arbitrary: L t)
  case (Suc n)
  obtain es where es: "get_entries X B t = Inr es" "entries_ok X L (sub_ok X B L) es"
    using Suc.prems(1) by (rule wf_mst_E)
  show ?case
  proof (cases "outdated t")
    case False
    then show ?thesis using wf_mst_pointer[OF Suc.prems(1)] by (simp add: pointer_ok_def get_pointer_Suc)
  next
    case True
    have "refresh_entry X B n e = cid_entry X B L e" if "e \<in> set es" for e
      using refresh_cid_entry[OF es(2) that, of n] Suc.IH Suc.prems(2) by simp
    then have "res_map (refresh_entry X B n) es = res_map (cid_entry X B L) es"
      by (intro res_map_cong) simp_all
    then show ?thesis using True by (simp only: get_pointer_Suc root_cid_Suc es(1) res_bind_simps) simp
  qed
qed simp

section \<open>The layer is determined by the leaves\<close>

lemma trimmed_has_leaf:
  assumes "wf_mst X B L t" "trimmed X B t" "entries_of X B t \<noteq> []"
  obtains k v where "(k, v) \<in> set (tleaves X B (Suc L) t)" "leading_zeros_on_hash X k = L"
proof -
  obtain es where es: "get_entries X B t = Inr es" "entries_ok X L (sub_ok X B L) es"
    using assms(1) by (rule wf_mst_E)
  have "\<not> list_all is_tree es"
    using all_trees_singleton[of es] assms(2,3) es by (auto simp: entries_ok_def trimmed_def)
  then obtain k v where kv: "LeafE k v \<in> set es" by (auto simp: list_all_iff not_is_tree_iff)
  then have "leading_zeros_on_hash X k = L" using es(2) by (auto simp: entries_ok_def list_all_iff)
  then show ?thesis using that[of k v] leaf_in_eleaves[OF kv] es(1) by (simp add: tleaves_Suc)
qed

lemma trimmed_layer:
  assumes t: "wf_mst X B L t" "trimmed X B t" and u: "wf_mst X B M u" "trimmed X B u"
    and eq: "tleaves X B (Suc L) t = tleaves X B (Suc M) u" and ne: "tleaves X B (Suc L) t \<noteq> []"
  shows "L = M"
proof -
  have "entries_of X B t \<noteq> []" "entries_of X B u \<noteq> []" using ne eq by (auto simp: tleaves_Suc)
  then obtain k v j w where
    k: "(k, v) \<in> set (tleaves X B (Suc L) t)" "leading_zeros_on_hash X k = L" and
    j: "(j, w) \<in> set (tleaves X B (Suc M) u)" "leading_zeros_on_hash X j = M"
    using trimmed_has_leaf[OF t] trimmed_has_leaf[OF u] by metis
  then have "leading_zeros_on_hash X k \<le> M" "leading_zeros_on_hash X j \<le> L"
    using tleaves_keys[OF u(1)] tleaves_keys[OF t(1)] eq by metis+
  then show ?thesis using k(2) j(2) by simp
qed

lemma root_cid_empty:
  assumes "wf_mst X B L t" "tleaves X B (Suc L) t = []"
  shows "root_cid X B (Suc L) t = cid_for_entries X []"
proof -
  obtain es where es: "get_entries X B t = Inr es" using assms(1) by (rule wf_mst_E)
  have "es = []" using tleaves_nonempty[OF assms(1)] assms(2) es by auto
  then show ?thesis using es by (simp add: root_cid_Suc)
qed

theorem trimmed_root_cid:
  assumes "wf_mst X B L t" "trimmed X B t" "wf_mst X B M u" "trimmed X B u"
    and "tleaves X B (Suc L) t = tleaves X B (Suc M) u"
  shows "root_cid X B (Suc L) t = root_cid X B (Suc M) u"
proof (cases "tleaves X B (Suc L) t = []")
  case True
  then show ?thesis using root_cid_empty assms(1,3,5) by simp
next
  case False
  then have "L = M" using trimmed_layer assms by blast
  then show ?thesis using root_cid_determined assms by blast
qed

section \<open>Trimmed trees stay trimmed\<close>

lemma trimmed_iff:
  assumes "get_entries X B t = Inr es"
  shows "trimmed X B t \<longleftrightarrow> (\<nexists>s. es = [TreeE s])"
  using assms by (auto simp: trimmed_def split: list.splits node_entry.splits)

text \<open>
  A node with a leaf on its own layer is trimmed: so is the result of every \<open>add\<close>, unless
  it is made on an empty root that carries a layer above that of the key.
\<close>

lemma leaf_trimmed:
  assumes "wf_mst X B L t" "(k, v) \<in> set (tleaves X B (Suc L) t)" "leading_zeros_on_hash X k = L"
  shows "trimmed X B t"
proof -
  obtain es where es: "get_entries X B t = Inr es" "entries_ok X L (sub_ok X B L) es"
    using assms(1) by (rule wf_mst_E)
  have False if s: "es = [TreeE s]" for s
  proof -
    have "sub_ok X B L s" "k \<in> fst ` set (tleaves X B L s)"
      using es s assms(2) by (force simp: entries_ok_Cons tleaves_Suc)+
    from sub_ok_zeros[OF this] assms(3) show False by simp
  qed
  then show ?thesis using trimmed_iff[OF es(1)] by blast
qed

lemma added_trimmed:
  assumes t: "wf_mst X B L t" "trimmed X B t"
    and ne: "tleaves X B (Suc L) t \<noteq> [] \<or> L \<le> leading_zeros_on_hash X key"
    and absent: "key \<notin> fst ` set (tleaves X B (Suc L) t)"
    and t': "added X B (max L (leading_zeros_on_hash X key)) (kinsert key v (tleaves X B (Suc L) t)) t'"
  shows "trimmed X B t'"
proof (cases "L \<le> leading_zeros_on_hash X key")
  case True
  have "(key, v) \<in> set (kinsert key v (tleaves X B (Suc L) t))" by (simp add: kinsert_def)
  then show ?thesis using t' True leaf_trimmed[of X B L t' key v]
    by (auto simp: added_def max_def intro: leaf_trimmed[of X B _ t' key v])
next
  case False
  then have "entries_of X B t \<noteq> []" using ne by (auto simp: tleaves_Suc)
  then obtain k w where k: "(k, w) \<in> set (tleaves X B (Suc L) t)" "leading_zeros_on_hash X k = L"
    using trimmed_has_leaf[OF t] by blast
  then have "k \<noteq> key" using absent by force
  then have "(k, w) \<in> set (kinsert key v (tleaves X B (Suc L) t))"
    using k(1) by (auto simp: kinsert_def set_kbelow set_kabove)
  then show ?thesis using t' False leaf_trimmed[OF _ _ k(2), of B t' w] by (auto simp: added_def)
qed

end
