(* ===== verification/Mst_Map.thy ===== *)
theory Mst_Map
  imports Mst_Canonical
begin

text \<open>
  The contract a repository relies on: an MST is a map from keys to CIDs, ordered by key.
  The locale \<open>ordered_map\<close> states it over the four operations, and its client lemmas
  follow a sequence of writes, as \<open>format_commit\<close> makes them. The interpretation is the
  MST itself, with fuel for the deepest tree a 32-byte digest allows.
\<close>

section \<open>Writes\<close>

datatype ('k, 'v) map_op = Add 'k 'v | Upd 'k 'v | Del 'k

fun op_key :: "('k, 'v) map_op \<Rightarrow> 'k" where
  "op_key (Add k v) = k"
| "op_key (Upd k v) = k"
| "op_key (Del k) = k"

text \<open>What a write means on an abstract map; \<open>None\<close> when it must be refused.\<close>

fun spec_op :: "('k, 'v) map_op \<Rightarrow> ('k \<rightharpoonup> 'v) \<Rightarrow> ('k \<rightharpoonup> 'v) option" where
  "spec_op (Add k v) m = (if m k = None then Some (m(k \<mapsto> v)) else None)"
| "spec_op (Upd k v) m = (if m k = None then None else Some (m(k \<mapsto> v)))"
| "spec_op (Del k) m = (if m k = None then None else Some (m(k := None)))"

fun spec_ops :: "('k, 'v) map_op list \<Rightarrow> ('k \<rightharpoonup> 'v) \<Rightarrow> ('k \<rightharpoonup> 'v) option" where
  "spec_ops [] m = Some m"
| "spec_ops (w # ws) m = Option.bind (spec_op w m) (spec_ops ws)"

text \<open>The loop over the writes, with the operations it calls.\<close>

fun run_op ::
    "('s \<Rightarrow> 'k \<Rightarrow> 'v \<Rightarrow> 'e + 's) \<Rightarrow> ('s \<Rightarrow> 'k \<Rightarrow> 'v \<Rightarrow> 'e + 's) \<Rightarrow> ('s \<Rightarrow> 'k \<Rightarrow> 'e + 's) \<Rightarrow>
     ('k, 'v) map_op \<Rightarrow> 's \<Rightarrow> 'e + 's" where
  "run_op add upd del (Add k v) s = add s k v"
| "run_op add upd del (Upd k v) s = upd s k v"
| "run_op add upd del (Del k) s = del s k"

section \<open>The contract\<close>

locale ordered_map =
  fixes inv :: "'s \<Rightarrow> bool" and contents :: "'s \<Rightarrow> ('k::linorder \<times> 'v) list" and valid :: "'k \<Rightarrow> bool"
    and get :: "'s \<Rightarrow> 'k \<Rightarrow> 'e + 'v option" and add :: "'s \<Rightarrow> 'k \<Rightarrow> 'v \<Rightarrow> 'e + 's"
    and upd :: "'s \<Rightarrow> 'k \<Rightarrow> 'v \<Rightarrow> 'e + 's" and del :: "'s \<Rightarrow> 'k \<Rightarrow> 'e + 's"
  assumes contents_sorted: "inv s \<Longrightarrow> ksorted (contents s)"
    and get_law: "inv s \<Longrightarrow> get s k = Inr (map_of (contents s) k)"
    and add_new: "inv s \<Longrightarrow> valid k \<Longrightarrow> map_of (contents s) k = None \<Longrightarrow>
      \<exists>s'. add s k v = Inr s' \<and> inv s' \<and> contents s' = kinsert k v (contents s)"
    and add_dup: "inv s \<Longrightarrow> valid k \<Longrightarrow> map_of (contents s) k \<noteq> None \<Longrightarrow> \<not> is_ok (add s k v)"
    and upd_old: "inv s \<Longrightarrow> valid k \<Longrightarrow> map_of (contents s) k \<noteq> None \<Longrightarrow>
      \<exists>s'. upd s k v = Inr s' \<and> inv s' \<and> contents s' = kinsert k v (contents s)"
    and upd_none: "inv s \<Longrightarrow> valid k \<Longrightarrow> map_of (contents s) k = None \<Longrightarrow> \<not> is_ok (upd s k v)"
    and del_old: "inv s \<Longrightarrow> map_of (contents s) k \<noteq> None \<Longrightarrow>
      \<exists>s'. del s k = Inr s' \<and> inv s' \<and> contents s' = kdelete k (contents s)"
    and del_none: "inv s \<Longrightarrow> map_of (contents s) k = None \<Longrightarrow> \<not> is_ok (del s k)"
begin

lemma run_op_ok:
  assumes "inv s" "valid (op_key w)"
  shows "case spec_op w (map_of (contents s)) of
      None \<Rightarrow> \<not> is_ok (run_op add upd del w s)
    | Some m \<Rightarrow> \<exists>s'. run_op add upd del w s = Inr s' \<and> inv s' \<and> map_of (contents s') = m"
proof (cases w)
  case (Add k v)
  then show ?thesis
    using add_new[OF assms(1), of k v] add_dup[OF assms(1), of k v] assms(2) by (auto simp: map_of_kinsert)
next
  case (Upd k v)
  then show ?thesis
    using upd_old[OF assms(1), of k v] upd_none[OF assms(1), of k v] assms(2) by (auto simp: map_of_kinsert)
next
  case (Del k)
  then show ?thesis
    using del_old[OF assms(1), of k] del_none[OF assms(1), of k] by (auto simp: map_of_kdelete)
qed

lemma run_ops_ok:
  "inv s \<Longrightarrow> (\<And>w. w \<in> set ws \<Longrightarrow> valid (op_key w)) \<Longrightarrow>
   case spec_ops ws (map_of (contents s)) of
     None \<Rightarrow> \<not> is_ok (res_fold (run_op add upd del) ws s)
   | Some m \<Rightarrow> \<exists>s'. res_fold (run_op add upd del) ws s = Inr s' \<and> inv s' \<and> map_of (contents s') = m"
proof (induction ws arbitrary: s)
  case (Cons w ws)
  have w: "case spec_op w (map_of (contents s)) of
      None \<Rightarrow> \<not> is_ok (run_op add upd del w s)
    | Some m \<Rightarrow> \<exists>s'. run_op add upd del w s = Inr s' \<and> inv s' \<and> map_of (contents s') = m"
    using run_op_ok Cons.prems by simp
  show ?case
  proof (cases "spec_op w (map_of (contents s))")
    case None
    then show ?thesis using w by (cases "run_op add upd del w s") auto
  next
    case (Some m)
    then obtain s' where s': "run_op add upd del w s = Inr s'" "inv s'" "map_of (contents s') = m" using w by auto
    then have "res_fold (run_op add upd del) (w # ws) s = res_fold (run_op add upd del) ws s'" by simp
    moreover have "spec_ops (w # ws) (map_of (contents s)) = spec_ops ws (map_of (contents s'))"
      using s'(3) Some by simp
    moreover have "\<And>w. w \<in> set ws \<Longrightarrow> valid (op_key w)" using Cons.prems(2) by simp
    ultimately show ?thesis using Cons.IH[OF s'(2)] by (simp only:)
  qed
qed simp

text \<open>A read after a write sees it, and sees every other key unchanged.\<close>

lemma get_after_op:
  assumes "inv s" "valid (op_key w)" "run_op add upd del w s = Inr s'"
  shows "get s' k = (if k = op_key w
      then Inr (case w of Add _ v \<Rightarrow> Some v | Upd _ v \<Rightarrow> Some v | Del _ \<Rightarrow> None)
      else get s k)"
proof -
  obtain m where m: "spec_op w (map_of (contents s)) = Some m" "inv s'" "map_of (contents s') = m"
    using run_op_ok[OF assms(1,2)] assms(3) by (auto split: option.splits)
  have "map_of (contents s') k = (if k = op_key w
      then (case w of Add _ v \<Rightarrow> Some v | Upd _ v \<Rightarrow> Some v | Del _ \<Rightarrow> None) else map_of (contents s) k)"
    using m(1) unfolding m(3) by (cases w) (auto split: if_splits)
  then show ?thesis using get_law[OF assms(1), of k] get_law[OF m(2), of k] by auto
qed

text \<open>Two histories with one outcome leave the same contents.\<close>

lemma same_outcome:
  assumes "inv s" "inv t" "\<And>w. w \<in> set ws \<Longrightarrow> valid (op_key w)" "\<And>w. w \<in> set vs \<Longrightarrow> valid (op_key w)"
    and "res_fold (run_op add upd del) ws s = Inr s'" "res_fold (run_op add upd del) vs t = Inr t'"
    and "spec_ops ws (map_of (contents s)) = spec_ops vs (map_of (contents t))"
  shows "contents s' = contents t'"
proof -
  have run: "\<exists>m. spec_ops us (map_of (contents u)) = Some m \<and> inv u' \<and> map_of (contents u') = m"
    if "inv u" "\<And>w. w \<in> set us \<Longrightarrow> valid (op_key w)" "res_fold (run_op add upd del) us u = Inr u'" for us u u'
    using run_ops_ok[of u us] that by (auto split: option.splits)
  obtain m where "spec_ops ws (map_of (contents s)) = Some m" "inv s'" "map_of (contents s') = m"
    using run[OF assms(1) _ assms(5)] assms(3) by blast
  moreover from this obtain "inv t'" "map_of (contents t') = m"
    using run[OF assms(2) _ assms(6)] assms(4,7) by auto
  ultimately show ?thesis using ksorted_map_of_eq contents_sorted by metis
qed

end

section \<open>The MST implements it\<close>

text \<open>SHA-256 gives 32 bytes, so a key has at most 128 leading zero pairs.\<close>

definition sha256_ok :: "ext \<Rightarrow> bool" where
  "sha256_ok X \<longleftrightarrow> (\<forall>k. length (x_sha256 X k) = 32)"

definition max_layer :: nat where
  "max_layer = 128"

definition mst_fuel :: nat where
  "mst_fuel = Suc max_layer"

definition mst_inv :: "ext \<Rightarrow> blocks \<Rightarrow> mst \<Rightarrow> bool" where
  "mst_inv X B t \<longleftrightarrow>
     sha256_ok X \<and> (\<exists>L\<le>max_layer. wf_mst X B L t \<and> ksorted (tleaves X B (Suc L) t))"

definition mst_contents :: "ext \<Rightarrow> blocks \<Rightarrow> mst \<Rightarrow> leaf list" where
  "mst_contents X B t = tleaves X B mst_fuel t"

lemma zeros_le_max: "sha256_ok X \<Longrightarrow> leading_zeros_on_hash X k \<le> max_layer"
  using zeros_of_digest_bound[of "x_sha256 X k"]
  by (simp add: sha256_ok_def leading_zeros_on_hash_def max_layer_def)

lemma mst_inv_E:
  assumes "mst_inv X B t"
  obtains L where "wf_mst X B L t" "L < mst_fuel" "ksorted (mst_contents X B t)"
    "tleaves X B (Suc L) t = mst_contents X B t" "sha256_ok X"
proof -
  obtain L where L: "L \<le> max_layer" "wf_mst X B L t" "ksorted (tleaves X B (Suc L) t)" "sha256_ok X"
    using assms by (auto simp: mst_inv_def)
  then have f: "L < mst_fuel" by (simp add: mst_fuel_def)
  have "tleaves X B (Suc L) t = mst_contents X B t"
    unfolding mst_contents_def by (rule tleaves_fuel[OF L(2) f, symmetric])
  with L f show ?thesis by (intro that) simp_all
qed

lemma mst_inv_I:
  assumes "sha256_ok X" "wf_mst X B L t" "L < mst_fuel" "tleaves X B (Suc L) t = xs" "ksorted xs"
  shows "mst_inv X B t \<and> mst_contents X B t = xs"
  using assms tleaves_fuel[OF assms(2,3)]
  by (auto simp: mst_inv_def mst_contents_def mst_fuel_def less_Suc_eq_le)

lemma mst_create_empty_wf:
  assumes "mst_create X None None = Inr t"
  shows "wf_mst X B 0 t" "get_entries X B t = Inr []"
proof -
  have t: "t = MST (Some []) None (pointer t) False" "cid_for_entries X [] = Inr (pointer t)"
    using assms by (auto simp: mst_create_def res_bind_eq_Inr_iff)
  have e: "get_entries X B t = Inr []" "layer t = None" by (subst t(1), simp)+
  have "pointer_ok X B 0 t" using t(2) e by (simp add: pointer_ok_def)
  then show "wf_mst X B 0 t" using e by (intro wf_mst_I[where es = "[]"]) (auto simp: layer_ok_def)
  show "get_entries X B t = Inr []" using e by simp
qed

lemma mst_create_empty_inv:
  assumes "sha256_ok X" "mst_create X None None = Inr t"
  shows "mst_inv X B t" "mst_contents X B t = []" "trimmed X B t"
  using mst_inv_I[OF assms(1) mst_create_empty_wf(1)[OF assms(2)], of B "[]"]
    mst_create_empty_wf(2)[OF assms(2), of B]
  by (auto simp: mst_fuel_def tleaves_Suc trimmed_def)

lemma map_of_None_keys: "map_of xs k = None \<longleftrightarrow> k \<notin> fst ` set xs"
  by (rule map_of_eq_None_iff)

lemma mst_get_contents: "mst_inv X B t \<Longrightarrow> mst_get X B mst_fuel t key = Inr (map_of (mst_contents X B t) key)"
  by (elim mst_inv_E) (simp add: mst_get_ok)

lemma mst_add_cases:
  assumes "mst_inv X B t" "is_valid_repo_mst_path X key"
  shows "if key \<in> fst ` set (mst_contents X B t)
    then mst_add X B mst_fuel t key v None = Inl (AlreadyValue key)
    else \<exists>t'. mst_add X B mst_fuel t key v None = Inr t' \<and> mst_inv X B t' \<and>
      mst_contents X B t' = kinsert key v (mst_contents X B t)"
proof -
  obtain L where L: "wf_mst X B L t" "L < mst_fuel" "ksorted (mst_contents X B t)"
    "tleaves X B (Suc L) t = mst_contents X B t" "sha256_ok X"
    using assms(1) by (rule mst_inv_E)
  have z: "leading_zeros_on_hash X key < mst_fuel" "leading_zeros_on_hash X key < 2 ^ 32"
    using zeros_le_max[OF L(5), of key] by (simp_all add: mst_fuel_def max_layer_def)
  have spec: "add_spec X B L t key v (mst_add X B mst_fuel t key v None)"
    using mst_add_spec[OF L(1) _ L(2) assms(2) z(2)] L(3,4) by simp
  have "mst_inv X B t' \<and> mst_contents X B t' = kinsert key v (mst_contents X B t)"
    if "added X B (max L (leading_zeros_on_hash X key)) (kinsert key v (mst_contents X B t)) t'" for t'
    using that z L(2,3)
    by (intro mst_inv_I[OF L(5), where L = "max L (leading_zeros_on_hash X key)"])
      (auto simp: added_def intro: ksorted_kinsert)
  then show ?thesis using spec unfolding add_spec_def L(4) by (auto split: if_splits)
qed

lemma mst_update_cases:
  assumes "mst_inv X B t" "is_valid_repo_mst_path X key"
  shows "if key \<in> fst ` set (mst_contents X B t)
    then \<exists>t'. mst_update X B mst_fuel t key v = Inr t' \<and> mst_inv X B t' \<and>
      mst_contents X B t' = kinsert key v (mst_contents X B t)
    else mst_update X B mst_fuel t key v = Inl (CouldNotFind key)"
proof -
  obtain L where L: "wf_mst X B L t" "L < mst_fuel" "ksorted (mst_contents X B t)"
    "tleaves X B (Suc L) t = mst_contents X B t" "sha256_ok X"
    using assms(1) by (rule mst_inv_E)
  have spec: "update_spec X B L t key v (mst_update X B mst_fuel t key v)"
    using mst_update_spec[OF L(1) _ L(2) assms(2)] L(3,4) by simp
  have "mst_inv X B t' \<and> mst_contents X B t' = kinsert key v (mst_contents X B t)"
    if "updated X B L (layer t) (kinsert key v (mst_contents X B t)) t'" for t'
    using that L(2,3)
    by (intro mst_inv_I[OF L(5), where L = L]) (auto simp: updated_def intro: ksorted_kinsert)
  then show ?thesis using spec unfolding update_spec_def L(4) by (auto split: if_splits)
qed

lemma mst_delete_cases:
  assumes "mst_inv X B t"
  shows "if key \<in> fst ` set (mst_contents X B t)
    then \<exists>t'. mst_delete X B mst_fuel t key = Inr t' \<and> mst_inv X B t' \<and>
      mst_contents X B t' = kdelete key (mst_contents X B t) \<and> trimmed X B t'
    else mst_delete X B mst_fuel t key = Inl (CouldNotFind key)"
proof -
  obtain L where L: "wf_mst X B L t" "L < mst_fuel" "ksorted (mst_contents X B t)"
    "tleaves X B (Suc L) t = mst_contents X B t" "sha256_ok X"
    using assms(1) by (rule mst_inv_E)
  have "mst_inv X B t' \<and> mst_contents X B t' = kdelete key (mst_contents X B t) \<and> trimmed X B t'"
    if del: "deleted X B L (kdelete key (mst_contents X B t)) t'" for t'
  proof -
    obtain M where "M \<le> L" "wf_mst X B M t'" "tleaves X B (Suc M) t' = kdelete key (mst_contents X B t)" "trimmed X B t'"
      using del unfolding deleted_def by blast
    then show ?thesis using mst_inv_I[OF L(5), of B M t'] L(2,3) by (auto intro: ksorted_kdelete)
  qed
  then show ?thesis using mst_delete_ok[OF L(1) _ L(2), of key] L(3) unfolding L(4) by (auto split: if_splits)
qed

interpretation mst_map: ordered_map "mst_inv X B" "mst_contents X B" "is_valid_repo_mst_path X"
  "mst_get X B mst_fuel" "\<lambda>t k v. mst_add X B mst_fuel t k v None"
  "mst_update X B mst_fuel" "mst_delete X B mst_fuel" for X B
proof
  fix s k v
  assume inv: "mst_inv X B s"
  show "ksorted (mst_contents X B s)" using inv by (rule mst_inv_E)
  show "mst_get X B mst_fuel s k = Inr (map_of (mst_contents X B s) k)" using inv by (rule mst_get_contents)
  show "\<exists>s'. mst_delete X B mst_fuel s k = Inr s' \<and> mst_inv X B s' \<and>
      mst_contents X B s' = kdelete k (mst_contents X B s)" if "map_of (mst_contents X B s) k \<noteq> None"
    using mst_delete_cases[OF inv, of k] that unfolding map_of_None_keys by (auto split: if_splits)
  show "\<not> is_ok (mst_delete X B mst_fuel s k)" if "map_of (mst_contents X B s) k = None"
    using mst_delete_cases[OF inv, of k] that unfolding map_of_None_keys by (simp split: if_splits)
  assume key: "is_valid_repo_mst_path X k"
  show "\<exists>s'. mst_add X B mst_fuel s k v None = Inr s' \<and> mst_inv X B s' \<and>
      mst_contents X B s' = kinsert k v (mst_contents X B s)" if "map_of (mst_contents X B s) k = None"
    using mst_add_cases[OF inv key, of v] that unfolding map_of_None_keys by (simp split: if_splits)
  show "\<not> is_ok (mst_add X B mst_fuel s k v None)" if "map_of (mst_contents X B s) k \<noteq> None"
    using mst_add_cases[OF inv key, of v] that unfolding map_of_None_keys by (simp split: if_splits)
  show "\<exists>s'. mst_update X B mst_fuel s k v = Inr s' \<and> mst_inv X B s' \<and>
      mst_contents X B s' = kinsert k v (mst_contents X B s)" if "map_of (mst_contents X B s) k \<noteq> None"
    using mst_update_cases[OF inv key, of v] that unfolding map_of_None_keys by (simp split: if_splits)
  show "\<not> is_ok (mst_update X B mst_fuel s k v)" if "map_of (mst_contents X B s) k = None"
    using mst_update_cases[OF inv key, of v] that unfolding map_of_None_keys by (simp split: if_splits)
qed

end
