(* ===== verification/Mst_Serial.thy ===== *)
theory Mst_Serial
  imports Mst_Canonical
begin

text \<open>
  The node format of \<open>mst/util.rs\<close>: what \<open>serialize_node_data\<close> writes,
  \<open>deserialize_node_data\<close> reads back, with each subtree replaced by a lazy reference to
  its CID; and a node whose block is in the store hydrates to its own entries.
\<close>

section \<open>Keys are plain ASCII\<close>

lemma ascii_utf8_ok: "list_all (byte_in 0 127) s \<Longrightarrow> utf8_ok s"
  by (induction s rule: utf8_ok.induct) auto

lemma ascii_alnum_byte: "is_ascii_alphanumeric c \<Longrightarrow> byte_in 0 127 c"
  by (auto simp: byte_in_def ascii_defs char_le_of_char)

lemma mst_key_char_byte: "mst_key_char c \<Longrightarrow> byte_in 0 127 c"
  unfolding mst_key_char_def by (auto intro: ascii_alnum_byte) (auto simp: byte_in_def)

definition char_engine :: "ext \<Rightarrow> bool" where
  "char_engine X \<longleftrightarrow> regex_engine (x_match X)"

lemma valid_chars_iff: "char_engine X \<Longrightarrow> is_valid_chars X s \<longleftrightarrow> list_all mst_key_char s"
  unfolding char_engine_def is_valid_chars_def MST_CHARS_REGEX_def
  by (simp add: regex_engine.im_Star_Cls list_all_iff)

lemma valid_path_ascii:
  assumes "char_engine X" "is_valid_repo_mst_path X k"
  shows "list_all (byte_in 0 127) k"
proof -
  obtain a b where p: "split_on CHR ''/'' k = [a, b]"
    using assms(2) by (auto simp: is_valid_repo_mst_path_def Let_def length_Suc_conv numeral_2_eq_2)
  have "list_all mst_key_char a" "list_all mst_key_char b"
    using assms valid_chars_iff[OF assms(1)] by (auto simp: is_valid_repo_mst_path_def Let_def p)
  moreover have "k = a @ ''/'' @ b" using join_split_on[of "CHR ''/''" k] by (simp add: p)
  moreover have "byte_in 0 127 CHR ''/''" by (simp add: byte_in_def)
  ultimately show ?thesis by (auto simp: list_all_iff dest: mst_key_char_byte)
qed

section \<open>Round trip\<close>

text \<open>The entry a reader sees: a subtree is a reference to its CID, not yet loaded.\<close>

definition as_loaded :: "nat option \<Rightarrow> node_entry \<Rightarrow> node_entry" where
  "as_loaded l e =
     (case e of TreeE s \<Rightarrow> TreeE (mst_load (pointer s) (child_layer l)) | LeafE k v \<Rightarrow> LeafE k v)"

lemma as_loaded_simps [simp]:
  "as_loaded l (TreeE s) = TreeE (mst_load (pointer s) (child_layer l))"
  "as_loaded l (LeafE k v) = LeafE k v"
  by (simp_all add: as_loaded_def)

lemma ser_entry_Inr:
  assumes "ser_entry X lk k v t = Inr te"
  shows "is_valid_repo_mst_path X k" "unat (te_p te) = count_prefix_len lk k"
    "te_k te = drop (count_prefix_len lk k) k" "te_v te = v" "te_t te = t"
  using assms
  by (auto simp: ser_entry_def ensure_valid_mst_key_def Let_def unat_of_nat split: if_splits)

lemma prefix_restored: "take (count_prefix_len lk k) lk @ drop (count_prefix_len lk k) k = k"
  by (simp add: count_prefix_len_take)

lemma deser_step:
  assumes eng: "char_engine X" and te: "ser_entry X lk k v t = Inr te"
  shows "deser_loop X l lk (te # tes) =
    res_bind (deser_loop X l k tes) (\<lambda>es. Inr (LeafE k v #
      (case t of None \<Rightarrow> es | Some c \<Rightarrow> TreeE (mst_load c (child_layer l)) # es)))"
proof -
  note s = ser_entry_Inr[OF te]
  have "list_all (byte_in 0 127) (drop (count_prefix_len lk k) k)"
    using valid_path_ascii[OF eng s(1)] by (auto simp: list_all_iff dest: in_set_dropD)
  then have "utf8_ok (te_k te)" using s(3) by (simp add: ascii_utf8_ok)
  then show ?thesis
    using s count_prefix_len_le(1)[of lk k]
    by (simp add: Let_def prefix_restored ensure_valid_mst_key_def not_less)
qed

lemma ser_loop_round_trip:
  "char_engine X \<Longrightarrow> ser_loop X lk es = Inr tes \<Longrightarrow> deser_loop X l lk tes = Inr (map (as_loaded l) es)"
  by (induction X lk es arbitrary: tes rule: ser_loop.induct)
    (auto simp: res_bind_eq_Inr_iff deser_step simp del: deser_loop.simps(2))

lemma serialize_cases:
  assumes "serialize_node_data X es = Inr d"
  obtains (left) t rest tes where "es = TreeE t # rest" "ser_loop X [] rest = Inr tes"
      "d = \<lparr>nd_l = Some (pointer t), nd_e = tes\<rparr>"
  | (plain) tes where "ser_loop X [] es = Inr tes" "d = \<lparr>nd_l = None, nd_e = tes\<rparr>"
  using assms
  by (auto simp: serialize_node_data_def res_bind_eq_Inr_iff split: list.splits node_entry.splits)

lemma serialize_round_trip:
  assumes "char_engine X" "serialize_node_data X es = Inr d"
  shows "deserialize_node_data X d l = Inr (map (as_loaded l) es)"
  using assms(2)
  by (cases rule: serialize_cases)
    (auto simp: deserialize_node_data_def ser_loop_round_trip[OF assms(1)])

section \<open>Hydrating a stored node\<close>

lemma first_key_full:
  assumes "serialize_node_data X es = Inr d"
  shows "(case nd_e d of [] \<Rightarrow> None | te # _ \<Rightarrow> Some (leading_zeros_on_hash X (te_k te))) = layer_for_entries X es"
proof -
  have k: "te_k te = k" if "ser_entry X [] k v t = Inr te" for k v t te
    using ser_entry_Inr(3)[OF that] by simp
  have loop: "(case tes of [] \<Rightarrow> None | te # _ \<Rightarrow> Some (leading_zeros_on_hash X (te_k te))) = layer_for_entries X fs"
    if "ser_loop X [] fs = Inr tes" for fs tes
    using that
    by (cases "(X, [] :: string, fs)" rule: ser_loop.cases)
      (auto simp: res_bind_eq_Inr_iff dest!: k)
  from assms show ?thesis by (cases rule: serialize_cases) (simp_all add: loop)
qed

theorem stored_node_hydrates:
  assumes "char_engine X" "serialize_node_data X es = Inr d"
    and "B c = Some (x_enc X d)" "x_dec X (x_enc X d) = Some d"
  shows "get_entries X B (mst_load c l) = Inr (map (as_loaded (layer_for_entries X es)) es)"
  using serialize_round_trip[OF assms(1,2), of "layer_for_entries X es"] first_key_full[OF assms(2)] assms(3,4)
  by (simp add: get_entries_def mst_load_def Let_def)

end
