(* ===== verification/Mst_Properties.thy ===== *)
theory Mst_Properties
  imports Mst_Map Mst_Serial "HOL-Library.Multiset"
begin

text \<open>
  The theorems about the Merkle search tree: lookup, insertion, update and deletion, runs of
  writes, the canonical form and the root CID, the node format. A small concrete choice of
  the external functions, with two layers of keys, serves to evaluate them on inputs.
\<close>

section \<open>A concrete instance\<close>

definition demo_sha :: "string \<Rightarrow> bytes" where
  "demo_sha k = (if last k = CHR ''1'' then 63 else 255) # replicate 31 0"

definition demo_cid :: "node_data \<Rightarrow> cid" where
  "demo_cid d = (case nd_l d of None \<Rightarrow> [] | Some c \<Rightarrow> ''<'' @ c @ ''>'') @ concat (map te_k (nd_e d))"

definition demo_ext :: ext where
  "demo_ext = \<lparr>x_match = rmatch, x_sha256 = demo_sha, x_cid = demo_cid,
     x_enc = (\<lambda>d. [7]), x_dec = (\<lambda>bs. Some \<lparr>nd_l = None, nd_e = [\<lparr>te_p = 0, te_k = ''c/0'', te_v = ''v'', te_t = None\<rparr>]\<rparr>)\<rparr>"

definition demo_empty :: mst where
  "demo_empty = MST (Some []) None [] False"

definition demo_one :: mst where
  "demo_one = MST (Some [LeafE ''c/0'' ''v'']) (Some 0) ''x'' True"

lemma demo_sha_ok: "sha256_ok demo_ext"
  by (simp add: sha256_ok_def demo_ext_def demo_sha_def)

lemma demo_engine: "char_engine demo_ext"
  by (simp add: char_engine_def demo_ext_def drx.regex_engine_axioms)

lemma demo_valid:
  "is_valid_repo_mst_path demo_ext ''c/0''" "is_valid_repo_mst_path demo_ext ''c/1''"
  "is_valid_repo_mst_path demo_ext ''d/0''"
  by (simp_all add: is_valid_repo_mst_path_def Let_def valid_chars_iff[OF demo_engine] mst_key_char_def
      ascii_defs char_le_of_char)

lemma demo_zeros:
  "leading_zeros_on_hash demo_ext ''c/0'' = 0" "leading_zeros_on_hash demo_ext ''c/1'' = 1"
  "leading_zeros_on_hash demo_ext ''d/0'' = 0"
  by (simp_all add: leading_zeros_on_hash_def demo_ext_def demo_sha_def)

lemma demo_create: "mst_create demo_ext None None = Inr demo_empty"
  by (simp add: mst_create_def cid_for_entries_def serialize_node_data_def demo_empty_def demo_ext_def demo_cid_def)

lemmas demo_empty_inv = mst_create_empty_inv[OF demo_sha_ok demo_create]

lemma demo_one_wf: "wf_mst demo_ext B 0 demo_one"
  by (rule wf_mst_I[where es = "[LeafE ''c/0'' ''v'']"])
    (simp_all add: demo_one_def entries_ok_Cons demo_zeros demo_valid)

lemma demo_one_leaves: "tleaves demo_ext B (Suc 0) demo_one = [(''c/0'', ''v'')]"
  by (simp add: tleaves_Suc demo_one_def entries_of_def)

lemma demo_one_inv:
  "mst_inv demo_ext B demo_one" "mst_contents demo_ext B demo_one = [(''c/0'', ''v'')]"
  "trimmed demo_ext B demo_one"
  using mst_inv_I[OF demo_sha_ok demo_one_wf _ demo_one_leaves]
  by (simp_all add: mst_fuel_def ksorted_Cons trimmed_def demo_one_def entries_of_def)

section \<open>The operations\<close>

text \<open>On every tree that satisfies the MST invariant, \<open>get\<close> returns, and returns the value the
  sorted leaves of the tree associate with the key, or nothing when there is none.\<close>

theorem mst_get_correct:
  assumes "mst_inv X B t"
  shows "mst_get X B mst_fuel t key = Inr (map_of (mst_contents X B t) key)"
  using mst_map.get_law[OF assms] .

theorem mst_get_correct_witness:
  "mst_get demo_ext Map.empty mst_fuel demo_one ''c/0'' = Inr (Some ''v'')"
  using mst_get_correct[OF demo_one_inv(1)[of Map.empty]] demo_one_inv(2) by simp

text \<open>C4. \<open>add\<close> on a valid key that is absent returns a tree that satisfies the invariant again and
  whose sorted leaves are those of the old tree with the new one inserted; on a key that is present
  it fails and says so; on an invalid key it fails.\<close>

theorem mst_add_correct:
  assumes "mst_inv X B t"
  shows "if \<not> is_valid_repo_mst_path X key then mst_add X B mst_fuel t key v None = Inl (InvalidMstKey key)
    else if key \<in> fst ` set (mst_contents X B t) then mst_add X B mst_fuel t key v None = Inl (AlreadyValue key)
    else \<exists>t'. mst_add X B mst_fuel t key v None = Inr t' \<and> mst_inv X B t' \<and>
      mst_contents X B t' = kinsert key v (mst_contents X B t)"
proof (cases "is_valid_repo_mst_path X key")
  case True
  then show ?thesis using mst_add_cases[OF assms] by simp
next
  case False
  then show ?thesis by (simp add: mst_fuel_def ensure_valid_mst_key_def)
qed

theorem mst_add_correct_witness:
  "\<exists>t'. mst_add demo_ext Map.empty mst_fuel demo_one ''c/1'' ''w'' None = Inr t' \<and>
     mst_contents demo_ext Map.empty t' = [(''c/0'', ''v''), (''c/1'', ''w'')]"
proof -
  have "kinsert ''c/1'' ''w'' [(''c/0'', ''v'')] = [(''c/0'', ''v''), (''c/1'', ''w'')]"
    by (simp add: kinsert_def kbelow_def kabove_def less_char_def)
  then show ?thesis
    using mst_add_correct[OF demo_one_inv(1)[of Map.empty], of "''c/1''" "''w''"] demo_valid
    by (auto simp: demo_one_inv(2))
qed

text \<open>\<open>update\<close> replaces the value of a present key, keeps the invariant and every other leaf, and
  fails on an absent key.\<close>

theorem mst_update_correct:
  assumes "mst_inv X B t" "is_valid_repo_mst_path X key"
  shows "if key \<in> fst ` set (mst_contents X B t)
    then \<exists>t'. mst_update X B mst_fuel t key v = Inr t' \<and> mst_inv X B t' \<and>
      mst_contents X B t' = kinsert key v (mst_contents X B t)
    else mst_update X B mst_fuel t key v = Inl (CouldNotFind key)"
  using mst_update_cases[OF assms] .

theorem mst_update_correct_witness:
  "\<exists>t'. mst_update demo_ext Map.empty mst_fuel demo_one ''c/0'' ''w'' = Inr t' \<and>
     mst_contents demo_ext Map.empty t' = [(''c/0'', ''w'')]"
  using mst_update_correct[OF demo_one_inv(1)[of Map.empty] demo_valid(1), of "''w''"]
  by (auto simp: demo_one_inv(2))

text \<open>C5. \<open>delete\<close> removes exactly the named key, keeps the invariant, leaves no chain of empty top
  nodes, and fails on an absent key.\<close>

theorem mst_delete_correct:
  assumes "mst_inv X B t"
  shows "if key \<in> fst ` set (mst_contents X B t)
    then \<exists>t'. mst_delete X B mst_fuel t key = Inr t' \<and> mst_inv X B t' \<and>
      mst_contents X B t' = kdelete key (mst_contents X B t) \<and> trimmed X B t'
    else mst_delete X B mst_fuel t key = Inl (CouldNotFind key)"
  using mst_delete_cases[OF assms] .

theorem mst_delete_correct_witness:
  "\<exists>t'. mst_delete demo_ext Map.empty mst_fuel demo_one ''c/0'' = Inr t' \<and>
     mst_contents demo_ext Map.empty t' = []"
  using mst_delete_correct[OF demo_one_inv(1)[of Map.empty], of "''c/0''"] by (auto simp: demo_one_inv(2))

text \<open>C1. A sequence of creates, updates and deletes on an MST does what the same sequence does on a
  plain map: it succeeds exactly when every create names an absent key and every update and delete
  a present one, and then the tree holds the resulting map.\<close>

theorem mst_writes_refine_map:
  assumes "mst_inv X B t" "list_all (\<lambda>w. is_valid_repo_mst_path X (op_key w)) ws"
  shows "case spec_ops ws (map_of (mst_contents X B t)) of
      None \<Rightarrow> \<not> is_ok (res_fold (run_op (\<lambda>t k v. mst_add X B mst_fuel t k v None)
                (mst_update X B mst_fuel) (mst_delete X B mst_fuel)) ws t)
    | Some m \<Rightarrow> \<exists>t'. res_fold (run_op (\<lambda>t k v. mst_add X B mst_fuel t k v None)
                (mst_update X B mst_fuel) (mst_delete X B mst_fuel)) ws t = Inr t' \<and>
              mst_inv X B t' \<and> map_of (mst_contents X B t') = m"
  using mst_map.run_ops_ok[OF assms(1), of ws] assms(2) by (auto simp: list_all_iff)

theorem mst_writes_refine_map_witness:
  "\<exists>t'. res_fold (run_op (\<lambda>t k v. mst_add demo_ext Map.empty mst_fuel t k v None)
      (mst_update demo_ext Map.empty mst_fuel) (mst_delete demo_ext Map.empty mst_fuel))
      [Add ''c/1'' ''w'', Del ''c/0''] demo_one = Inr t' \<and>
    map_of (mst_contents demo_ext Map.empty t') = [''c/1'' \<mapsto> ''w'']"
proof -
  have "map_of (mst_contents demo_ext Map.empty demo_one) = [''c/0'' \<mapsto> ''v'']"
    by (simp add: demo_one_inv(2))
  moreover have "([''c/0'' \<mapsto> ''v'', ''c/1'' \<mapsto> ''w''])(''c/0'' := None) = [''c/1'' \<mapsto> ''w'']"
    by (auto simp: fun_eq_iff)
  ultimately show ?thesis
    using mst_writes_refine_map[OF demo_one_inv(1)[of Map.empty], of "[Add ''c/1'' ''w'', Del ''c/0'']"] demo_valid
    by auto
qed

section \<open>Splitting and merging\<close>

lemma side_ok_None_iff: "side_ok X B L lay xs o' \<Longrightarrow> o' = None \<longleftrightarrow> xs = []"
  using tleaves_nonempty by (cases o') fastforce+

text \<open>\<open>split_around\<close> separates a node at a key: the left side has exactly the leaves below it,
  the right side those from it on, both well formed at the same layer, and a side is absent exactly
  when it would be empty.\<close>

theorem split_around_correct:
  assumes "wf_mst X B L t" "ksorted (tleaves X B (Suc L) t)" "L < n"
  shows "\<exists>lo ro. split_around X B n t key = Inr (lo, ro) \<and>
    side_ok X B L (layer t) (kbelow key (tleaves X B (Suc L) t)) lo \<and>
    side_ok X B L (layer t) (kfrom key (tleaves X B (Suc L) t)) ro \<and>
    (lo = None \<longleftrightarrow> kbelow key (tleaves X B (Suc L) t) = []) \<and>
    (ro = None \<longleftrightarrow> kfrom key (tleaves X B (Suc L) t) = [])"
  using split_around_ok[OF assms, of key] side_ok_None_iff by blast

theorem split_around_correct_witness:
  "\<exists>lo. split_around demo_ext Map.empty 1 demo_one ''d/0'' = Inr (lo, None) \<and> lo \<noteq> None"
proof -
  have "kbelow ''d/0'' [(''c/0'', ''v'')] = [(''c/0'', ''v'')]" "kfrom ''d/0'' [(''c/0'', ''v'')] = []"
    by (simp_all add: kbelow_def kfrom_def less_char_def less_eq_char_def)
  then show ?thesis
    using split_around_correct[OF demo_one_wf[of Map.empty], of 1 "''d/0''"] demo_one_leaves
    by (auto simp: ksorted_Cons simp del: split_around.simps)
qed

text \<open>\<open>append_merge\<close> of two well-formed nodes of one layer gives a well-formed node of that layer
  with the leaves of the first followed by those of the second, and it does not report different
  layers.\<close>

theorem append_merge_correct:
  assumes "wf_mst X B L s" "wf_mst X B L t" "L < n" "entries_of X B s \<noteq> []"
  shows "\<exists>m. append_merge X B n s t = Inr m \<and> wf_mst X B L m \<and>
    tleaves X B (Suc L) m = tleaves X B (Suc L) s @ tleaves X B (Suc L) t"
  using append_merge_ok[OF assms] by (auto simp: updated_def)

theorem append_merge_correct_witness:
  "\<exists>m. append_merge demo_ext Map.empty 1 demo_one demo_one = Inr m \<and>
     tleaves demo_ext Map.empty 1 m = [(''c/0'', ''v''), (''c/0'', ''v'')]"
  using append_merge_correct[OF demo_one_wf[of Map.empty] demo_one_wf, of 1] demo_one_leaves
  by (auto simp: demo_one_def entries_of_def simp del: append_merge.simps)

section \<open>Canonical form\<close>

lemma root_determined:
  assumes "mst_inv X B t" "trimmed X B t" "mst_inv X B u" "trimmed X B u"
    and "mst_contents X B t = mst_contents X B u"
  shows "get_pointer X B mst_fuel t = get_pointer X B mst_fuel u"
proof -
  obtain L where L: "wf_mst X B L t" "L < mst_fuel" "tleaves X B (Suc L) t = mst_contents X B t"
    using assms(1) by (rule mst_inv_E)
  obtain M where M: "wf_mst X B M u" "M < mst_fuel" "tleaves X B (Suc M) u = mst_contents X B u"
    using assms(3) by (rule mst_inv_E)
  show ?thesis
    using get_pointer_ok[OF L(1,2)] get_pointer_ok[OF M(1,2)]
      trimmed_root_cid[OF L(1) assms(2) M(1) assms(4)] L(3) M(3) assms(5) by simp
qed



lemma mst_add_trimmed:
  assumes t: "mst_inv X B t" "trimmed X B t" and key: "is_valid_repo_mst_path X key"
    and absent: "key \<notin> fst ` set (mst_contents X B t)"
    and ne: "mst_contents X B t \<noteq> [] \<or> wf_mst X B 0 t"
  obtains t' where "mst_add X B mst_fuel t key v None = Inr t'" "mst_inv X B t'" "trimmed X B t'"
    "mst_contents X B t' = kinsert key v (mst_contents X B t)"
proof -
  obtain L where L: "wf_mst X B L t" "L < mst_fuel" "ksorted (mst_contents X B t)"
    "tleaves X B (Suc L) t = mst_contents X B t" "sha256_ok X" "mst_contents X B t = [] \<Longrightarrow> L = 0"
  proof (cases "mst_contents X B t = []")
    case True
    then have "wf_mst X B 0 t" using ne by simp
    then show thesis
      using that[of 0] True tleaves_fuel[of X B 0 t mst_fuel] t(1)
      by (simp add: mst_fuel_def mst_contents_def mst_inv_def)
  next
    case False
    then show thesis using that mst_inv_E[OF t(1)] by metis
  qed
  have z: "leading_zeros_on_hash X key < mst_fuel" "leading_zeros_on_hash X key < 2 ^ 32"
    using zeros_le_max[OF L(5), of key] by (simp_all add: mst_fuel_def max_layer_def)
  have "add_spec X B L t key v (mst_add X B mst_fuel t key v None)"
    using mst_add_spec[OF L(1) _ L(2) key z(2)] L(3,4) by simp
  then obtain t' where t': "mst_add X B mst_fuel t key v None = Inr t'"
    "added X B (max L (leading_zeros_on_hash X key)) (kinsert key v (tleaves X B (Suc L) t)) t'"
    using absent by (auto simp: add_spec_def L(4))
  have "trimmed X B t'"
    using added_trimmed[OF L(1) t(2) _ _ t'(2)] absent L(4,6) by auto
  moreover have "mst_inv X B t' \<and> mst_contents X B t' = kinsert key v (mst_contents X B t)"
    using mst_add_cases[OF t(1) key, of v] absent t'(1) by simp
  ultimately show ?thesis using that t'(1) by blast
qed

lemma adds_from:
  "mst_inv X B t \<Longrightarrow> trimmed X B t \<Longrightarrow> mst_contents X B t \<noteq> [] \<or> wf_mst X B 0 t \<Longrightarrow>
   list_all (\<lambda>p. is_valid_repo_mst_path X (fst p)) kvs \<Longrightarrow> distinct (map fst kvs) \<Longrightarrow>
   (\<forall>p\<in>set kvs. fst p \<notin> fst ` set (mst_contents X B t)) \<Longrightarrow>
   \<exists>t'. res_fold (\<lambda>p t. mst_add X B mst_fuel t (fst p) (snd p) None) kvs t = Inr t' \<and>
     mst_inv X B t' \<and> trimmed X B t' \<and>
     map_of (mst_contents X B t') = map_of (mst_contents X B t) ++ map_of kvs"
proof (induction kvs arbitrary: t)
  case (Cons p kvs)
  obtain k v where p: "p = (k, v)" by (cases p)
  obtain t1 where t1: "mst_add X B mst_fuel t k v None = Inr t1" "mst_inv X B t1" "trimmed X B t1"
    "mst_contents X B t1 = kinsert k v (mst_contents X B t)"
    by (rule mst_add_trimmed[OF Cons.prems(1,2) _ _ Cons.prems(3)]) (use Cons.prems(4,6) p in auto)
  have "\<forall>q\<in>set kvs. fst q \<notin> fst ` set (mst_contents X B t1)"
    using Cons.prems(5,6) unfolding t1(4) keys_kinsert p by (auto simp: image_iff)
  moreover have "mst_contents X B t1 \<noteq> []" using t1(4) by (simp add: kinsert_def)
  ultimately obtain t' where t': "res_fold (\<lambda>p t. mst_add X B mst_fuel t (fst p) (snd p) None) kvs t1 = Inr t'"
    "mst_inv X B t'" "trimmed X B t'"
    "map_of (mst_contents X B t') = map_of (mst_contents X B t1) ++ map_of kvs"
    using Cons.IH[OF t1(2,3)] Cons.prems(4,5) by auto
  have "(map_of (mst_contents X B t))(k \<mapsto> v) ++ map_of kvs = map_of (mst_contents X B t) ++ (map_of kvs)(k \<mapsto> v)"
    if "map_of kvs k = None"
    using that by (auto simp: fun_eq_iff map_add_def split: option.splits)
  moreover have "map_of kvs k = None" using Cons.prems(5) p by (auto simp: map_of_eq_None_iff)
  moreover have "map_of (p # kvs) = (map_of kvs)(k \<mapsto> v)" by (auto simp: p)
  ultimately have "map_of (mst_contents X B t') = map_of (mst_contents X B t) ++ map_of (p # kvs)"
    using t'(4) t1(4) by (simp only: map_of_kinsert)
  moreover have "res_fold (\<lambda>p t. mst_add X B mst_fuel t (fst p) (snd p) None) (p # kvs) t = Inr t'"
    using t'(1) t1(1) p by simp
  ultimately show ?case using t'(2,3) by blast
qed simp

text \<open>C2. Insertion order does not matter: adding the same distinct valid keys with the same values, in
  any two orders, to a newly created tree succeeds both times and gives the same root CID.\<close>

theorem mst_insert_order_independent:
  assumes "sha256_ok X" "mst_create X None None = Inr t0"
    and "list_all (\<lambda>p. is_valid_repo_mst_path X (fst p)) kvs" "distinct (map fst kvs)" "mset kvs = mset kvs'"
  shows "\<exists>t t'. res_fold (\<lambda>p t. mst_add X B mst_fuel t (fst p) (snd p) None) kvs t0 = Inr t \<and>
    res_fold (\<lambda>p t. mst_add X B mst_fuel t (fst p) (snd p) None) kvs' t0 = Inr t' \<and>
    get_pointer X B mst_fuel t = get_pointer X B mst_fuel t'"
proof -
  note t0 = mst_create_empty_inv[OF assms(1,2), of B] mst_create_empty_wf[OF assms(2), of B]
  have kvs': "list_all (\<lambda>p. is_valid_repo_mst_path X (fst p)) kvs'" "distinct (map fst kvs')"
    using assms(3-5) mset_eq_setD[OF assms(5)]
    by (auto simp: list_all_iff) (metis mset_eq_imp_distinct_iff mset_map)
  obtain t where t: "res_fold (\<lambda>p t. mst_add X B mst_fuel t (fst p) (snd p) None) kvs t0 = Inr t"
    "mst_inv X B t" "trimmed X B t" "map_of (mst_contents X B t) = map_of kvs"
    using adds_from[OF t0(1,3) _ assms(3,4)] t0 by auto
  obtain t' where t': "res_fold (\<lambda>p t. mst_add X B mst_fuel t (fst p) (snd p) None) kvs' t0 = Inr t'"
    "mst_inv X B t'" "trimmed X B t'" "map_of (mst_contents X B t') = map_of kvs'"
    using adds_from[OF t0(1,3) _ kvs'] t0 by auto
  have "map_of kvs = map_of kvs'"
    using map_of_inject_set[OF assms(4) kvs'(2)] mset_eq_setD[OF assms(5)] by simp
  then have "mst_contents X B t = mst_contents X B t'"
    using ksorted_map_of_eq mst_map.contents_sorted t(2,4) t'(2,4) by metis
  then show ?thesis using root_determined t t' by blast
qed

theorem mst_insert_order_independent_witness:
  "\<exists>t t'. res_fold (\<lambda>p t. mst_add demo_ext Map.empty mst_fuel t (fst p) (snd p) None)
        [(''c/0'', ''v''), (''c/1'', ''w'')] demo_empty = Inr t \<and>
    res_fold (\<lambda>p t. mst_add demo_ext Map.empty mst_fuel t (fst p) (snd p) None)
        [(''c/1'', ''w''), (''c/0'', ''v'')] demo_empty = Inr t' \<and>
    get_pointer demo_ext Map.empty mst_fuel t = get_pointer demo_ext Map.empty mst_fuel t'"
  by (rule mst_insert_order_independent[OF demo_sha_ok demo_create]) (simp_all add: demo_valid)

text \<open>Deleting a key that was just added restores the root CID of the tree before the addition, for
  a tree with at least one leaf and no chain of empty top nodes.\<close>

theorem mst_delete_undoes_add:
  assumes "mst_inv X B t" "trimmed X B t" "mst_contents X B t \<noteq> []"
    and "is_valid_repo_mst_path X key" "key \<notin> fst ` set (mst_contents X B t)"
  shows "\<exists>t' t''. mst_add X B mst_fuel t key v None = Inr t' \<and> mst_delete X B mst_fuel t' key = Inr t'' \<and>
    mst_contents X B t'' = mst_contents X B t \<and>
    get_pointer X B mst_fuel t'' = get_pointer X B mst_fuel t"
proof -
  obtain t' where t': "mst_add X B mst_fuel t key v None = Inr t'" "mst_inv X B t'"
    "mst_contents X B t' = kinsert key v (mst_contents X B t)"
    using mst_add_cases[OF assms(1,4), of v] assms(5) by auto
  have "key \<in> fst ` set (mst_contents X B t')" by (simp add: t'(3) keys_kinsert)
  then obtain t'' where t'': "mst_delete X B mst_fuel t' key = Inr t''" "mst_inv X B t''" "trimmed X B t''"
    "mst_contents X B t'' = kdelete key (mst_contents X B t')"
    using mst_delete_cases[OF t'(2), of key] by auto
  have "map_of (mst_contents X B t) key = None" using assms(5) by (simp add: map_of_eq_None_iff)
  then have "map_of (mst_contents X B t'') = map_of (mst_contents X B t)"
    by (auto simp: t''(4) t'(3) map_of_kdelete map_of_kinsert)
  then have c: "mst_contents X B t'' = mst_contents X B t"
    using ksorted_map_of_eq mst_map.contents_sorted t''(2) assms(1) by metis
  then show ?thesis using t'(1) t''(1) root_determined[OF t''(2,3) assms(1,2) c] by blast
qed

theorem mst_delete_undoes_add_witness:
  "\<exists>t' t''. mst_add demo_ext Map.empty mst_fuel demo_one ''c/1'' ''w'' None = Inr t' \<and>
     mst_delete demo_ext Map.empty mst_fuel t' ''c/1'' = Inr t'' \<and>
     get_pointer demo_ext Map.empty mst_fuel t'' = get_pointer demo_ext Map.empty mst_fuel demo_one"
  using mst_delete_undoes_add[OF demo_one_inv(1,3)[of Map.empty], of "''c/1''" "''w''"]
  by (auto simp: demo_one_inv(2) demo_valid)

text \<open>\<open>get_pointer\<close> returns the CID a full recomputation gives: a pointer that is not marked
  outdated is trusted, and on a tree that satisfies the invariant this is never wrong.\<close>

theorem mst_cached_pointer_correct:
  assumes "mst_inv X B t"
  shows "\<exists>L\<le>max_layer. wf_mst X B L t \<and> get_pointer X B mst_fuel t = root_cid X B (Suc L) t"
proof -
  obtain L where "wf_mst X B L t" "L < mst_fuel" using assms by (rule mst_inv_E)
  then show ?thesis using get_pointer_ok[of X B L t mst_fuel] by (auto simp: mst_fuel_def less_Suc_eq_le)
qed

theorem mst_cached_pointer_correct_witness:
  "\<exists>L\<le>max_layer. wf_mst demo_ext Map.empty L demo_one \<and>
     get_pointer demo_ext Map.empty mst_fuel demo_one = root_cid demo_ext Map.empty (Suc L) demo_one"
  using mst_cached_pointer_correct[OF demo_one_inv(1)] .

section \<open>The node format\<close>

text \<open>Reading a serialised node back gives the same leaves, with their full keys rebuilt from the
  shared prefixes, and the same subtrees as references to their CIDs.\<close>

theorem node_data_round_trip:
  assumes "char_engine X" "serialize_node_data X es = Inr d"
  shows "deserialize_node_data X d l = Inr (map (as_loaded l) es)"
  using serialize_round_trip[OF assms] .

theorem node_data_round_trip_witness:
  "\<exists>d. serialize_node_data demo_ext [LeafE ''c/0'' ''v'', TreeE demo_one, LeafE ''c/1'' ''w''] = Inr d \<and>
     map te_k (nd_e d) = [''c/0'', ''1''] \<and>
     deserialize_node_data demo_ext d (Some 1) =
       Inr [LeafE ''c/0'' ''v'', TreeE (mst_load ''x'' (Some 0)), LeafE ''c/1'' ''w'']"
proof -
  have "serialize_node_data demo_ext [LeafE ''c/0'' ''v'', TreeE demo_one, LeafE ''c/1'' ''w''] =
      Inr \<lparr>nd_l = None, nd_e = [\<lparr>te_p = 0, te_k = ''c/0'', te_v = ''v'', te_t = Some ''x''\<rparr>,
        \<lparr>te_p = 2, te_k = ''1'', te_v = ''w'', te_t = None\<rparr>]\<rparr>"
    by (simp add: serialize_node_data_def ser_entry_def ensure_valid_mst_key_def demo_valid demo_one_def)
  moreover from node_data_round_trip[OF demo_engine this, of "Some 1"]
  have "deserialize_node_data demo_ext \<lparr>nd_l = None, nd_e = [\<lparr>te_p = 0, te_k = ''c/0'', te_v = ''v'', te_t = Some ''x''\<rparr>,
        \<lparr>te_p = 2, te_k = ''1'', te_v = ''w'', te_t = None\<rparr>]\<rparr> (Some 1) =
       Inr [LeafE ''c/0'' ''v'', TreeE (mst_load ''x'' (Some 0)), LeafE ''c/1'' ''w'']"
    by (simp add: demo_one_def child_layer_def u32_sub1_def)
  ultimately show ?thesis by simp
qed

text \<open>A node whose serialised block is in the store under some CID is loaded from that CID with the
  entries it was serialised from.\<close>

theorem stored_node_loads_back:
  assumes "char_engine X" "serialize_node_data X es = Inr d"
    and "B c = Some (x_enc X d)" "x_dec X (x_enc X d) = Some d"
  shows "get_entries X B (mst_load c l) = Inr (map (as_loaded (layer_for_entries X es)) es)"
  using stored_node_hydrates[where B = B and c = c, OF assms] .

theorem stored_node_loads_back_witness:
  "get_entries demo_ext [''n'' \<mapsto> [7]] (mst_load ''n'' None) = Inr [LeafE ''c/0'' ''v'']"
proof -
  have "serialize_node_data demo_ext [LeafE ''c/0'' ''v''] =
      Inr \<lparr>nd_l = None, nd_e = [\<lparr>te_p = 0, te_k = ''c/0'', te_v = ''v'', te_t = None\<rparr>]\<rparr>"
    by (simp add: serialize_node_data_def ser_entry_def ensure_valid_mst_key_def demo_valid)
  from stored_node_loads_back[OF demo_engine this, of "[''n'' \<mapsto> [7]]" "''n''" None] show ?thesis
    by (simp add: demo_ext_def)
qed

end
