(* ===== verification/Block_Map.thy ===== *)
theory Block_Map
  imports Mst_Node
begin

text \<open>
  \<open>rsky-repo/src/block_map.rs\<close>, \<open>cid_set.rs\<close>, \<open>storage/memory_blockstore.rs\<close>,
  \<open>storage/sync_storage.rs\<close>, \<open>storage/readable_blockstore.rs\<close> and \<open>CommitData\<close> of
  \<open>types.rs\<close>: sets of blocks and of CIDs, and the stores built from them.

  A \<open>Cid\<close> is its canonical text, so \<open>to_string\<close> is the identity and \<open>from_str\<close> of a key,
  which always came from a \<open>Cid\<close>, gives that \<open>Cid\<close> back. A \<open>BTreeMap\<close> is the list of its
  entries in key order. A \<open>HashSet\<close> is a list without repetitions; its order stands for the
  unspecified iteration order, and every statement below is about membership only.
\<close>

section \<open>BlockMap\<close>

type_synonym block_map = "(cid \<times> bytes) list"

definition bm_new :: block_map where
  "bm_new = []"

definition bm_set :: "cid \<Rightarrow> bytes \<Rightarrow> block_map \<Rightarrow> block_map" where
  "bm_set c b m = kinsert c b m"

text \<open>\<open>add\<close> hashes and encodes a value; both may fail.\<close>

definition bm_add :: "('a \<Rightarrow> 'e + cid) \<Rightarrow> ('a \<Rightarrow> 'e + bytes) \<Rightarrow> 'a \<Rightarrow> block_map \<Rightarrow> 'e + (cid \<times> block_map)" where
  "bm_add cid_for_cbor struct_to_cbor value m =
     res_bind (cid_for_cbor value) (\<lambda>c.
     res_bind (struct_to_cbor value) (\<lambda>b. Inr (c, bm_set c b m)))"

definition bm_get :: "cid \<Rightarrow> block_map \<Rightarrow> bytes option" where
  "bm_get c m = map_of m c"

definition bm_delete :: "cid \<Rightarrow> block_map \<Rightarrow> block_map" where
  "bm_delete c m = kdelete c m"

record blocks_and_missing =
  bam_blocks :: block_map
  bam_missing :: "cid list"

fun get_many_loop :: "block_map \<Rightarrow> cid list \<Rightarrow> block_map \<Rightarrow> cid list \<Rightarrow> blocks_and_missing" where
  "get_many_loop m [] found missing = \<lparr>bam_blocks = found, bam_missing = missing\<rparr>"
| "get_many_loop m (c # cs) found missing =
     (case bm_get c m of
        Some b \<Rightarrow> get_many_loop m cs (bm_set c b found) missing
      | None \<Rightarrow> get_many_loop m cs found (missing @ [c]))"

definition bm_get_many :: "block_map \<Rightarrow> cid list \<Rightarrow> blocks_and_missing" where
  "bm_get_many m cids = get_many_loop m cids bm_new []"

definition bm_has :: "cid \<Rightarrow> block_map \<Rightarrow> bool" where
  "bm_has c m \<longleftrightarrow> c \<in> fst ` set m"

definition bm_clear :: "block_map \<Rightarrow> block_map" where
  "bm_clear m = []"

definition bm_entries :: "block_map \<Rightarrow> (cid \<times> bytes) list" where
  "bm_entries m = m"

definition bm_cids :: "block_map \<Rightarrow> cid list" where
  "bm_cids m = map fst (bm_entries m)"

definition bm_add_map :: "block_map \<Rightarrow> block_map \<Rightarrow> block_map" where
  "bm_add_map m to_add = fold (\<lambda>(c, b). bm_set c b) to_add m"

definition bm_size :: "block_map \<Rightarrow> nat" where
  "bm_size m = length m"

definition bm_byte_size :: "block_map \<Rightarrow> nat" where
  "bm_byte_size m = fold (\<lambda>(c, b) size. size + length b) m 0"

fun equals_loop :: "(cid \<times> bytes) list \<Rightarrow> block_map \<Rightarrow> bool" where
  "equals_loop [] other = True"
| "equals_loop ((c, b) # es) other =
     (case bm_get c other of
        Some o' \<Rightarrow> if b \<noteq> o' then False else equals_loop es other
      | None \<Rightarrow> False)"

definition bm_equals :: "block_map \<Rightarrow> block_map \<Rightarrow> bool" where
  "bm_equals m other = (if bm_size m \<noteq> bm_size other then False else equals_loop (bm_entries m) other)"

section \<open>CidSet\<close>

type_synonym cid_set = "cid list"

definition cs_add :: "cid \<Rightarrow> cid_set \<Rightarrow> cid_set" where
  "cs_add c s = (if c \<in> set s then s else s @ [c])"

definition cs_new :: "cid list option \<Rightarrow> cid_set" where
  "cs_new arr = (case arr of None \<Rightarrow> [] | Some cs \<Rightarrow> fold cs_add cs [])"

definition cs_delete :: "cid \<Rightarrow> cid_set \<Rightarrow> cid_set" where
  "cs_delete c s = filter (\<lambda>d. d \<noteq> c) s"

definition cs_to_list :: "cid_set \<Rightarrow> cid list" where
  "cs_to_list s = s"

definition cs_add_set :: "cid_set \<Rightarrow> cid_set \<Rightarrow> cid_set" where
  "cs_add_set s to_merge = fold cs_add (cs_to_list to_merge) s"

definition cs_subtract_set :: "cid_set \<Rightarrow> cid_set \<Rightarrow> cid_set" where
  "cs_subtract_set s to_subtract = fold cs_delete (cs_to_list to_subtract) s"

definition cs_has :: "cid \<Rightarrow> cid_set \<Rightarrow> bool" where
  "cs_has c s \<longleftrightarrow> c \<in> set s"

definition cs_size :: "cid_set \<Rightarrow> nat" where
  "cs_size s = length s"

definition cs_clear :: "cid_set \<Rightarrow> cid_set" where
  "cs_clear s = []"

section \<open>Stores\<close>

record commit_data =
  cd_cid :: cid
  cd_rev :: string
  cd_since :: "string option"
  cd_prev :: "cid option"
  cd_new_blocks :: block_map
  cd_relevant_blocks :: block_map
  cd_removed_cids :: cid_set

record memory_blockstore =
  ms_blocks :: block_map
  ms_root :: "cid option"
  ms_rev :: "string option"

definition ms_default :: memory_blockstore where
  "ms_default = \<lparr>ms_blocks = bm_new, ms_root = None, ms_rev = None\<rparr>"

definition ms_new :: "block_map option \<Rightarrow> memory_blockstore" where
  "ms_new blocks =
     (case blocks of
        None \<Rightarrow> ms_default
      | Some b \<Rightarrow> ms_default\<lparr>ms_blocks := bm_add_map (ms_blocks ms_default) b\<rparr>)"

definition ms_get_bytes :: "cid \<Rightarrow> memory_blockstore \<Rightarrow> bytes option" where
  "ms_get_bytes c s = bm_get c (ms_blocks s)"

definition ms_has :: "cid \<Rightarrow> memory_blockstore \<Rightarrow> bool" where
  "ms_has c s = bm_has c (ms_blocks s)"

definition ms_get_blocks :: "cid list \<Rightarrow> memory_blockstore \<Rightarrow> blocks_and_missing" where
  "ms_get_blocks cids s = bm_get_many (ms_blocks s) cids"

definition ms_get_root :: "memory_blockstore \<Rightarrow> cid option" where
  "ms_get_root s = ms_root s"

definition ms_put_block :: "cid \<Rightarrow> bytes \<Rightarrow> string \<Rightarrow> memory_blockstore \<Rightarrow> memory_blockstore" where
  "ms_put_block c b rv s = s\<lparr>ms_blocks := bm_set c b (ms_blocks s)\<rparr>"

definition ms_put_many :: "block_map \<Rightarrow> string \<Rightarrow> memory_blockstore \<Rightarrow> memory_blockstore" where
  "ms_put_many to_put rv s = s\<lparr>ms_blocks := bm_add_map (ms_blocks s) to_put\<rparr>"

definition ms_update_root :: "cid \<Rightarrow> string \<Rightarrow> bool option \<Rightarrow> memory_blockstore \<Rightarrow> memory_blockstore" where
  "ms_update_root c rv is_create s = s\<lparr>ms_root := Some c, ms_rev := Some rv\<rparr>"

definition ms_apply_commit :: "commit_data \<Rightarrow> bool option \<Rightarrow> memory_blockstore \<Rightarrow> memory_blockstore" where
  "ms_apply_commit commit is_create s =
     (let s1 = s\<lparr>ms_root := Some (cd_cid commit)\<rparr>;
          b1 = fold bm_delete (cs_to_list (cd_removed_cids commit)) (ms_blocks s1);
          b2 = fold (\<lambda>(c, b). bm_set c b) (cd_new_blocks commit) b1
      in s1\<lparr>ms_blocks := b2\<rparr>)"

text \<open>
  A layered store reads through \<open>staged\<close> to \<open>saved\<close>; a store is here what it answers:
  a lookup that may fail, and a bulk lookup.
\<close>

definition ss_get_bytes ::
    "(cid \<Rightarrow> 'e + bytes option) \<Rightarrow> (cid \<Rightarrow> 'e + bytes option) \<Rightarrow> cid \<Rightarrow> 'e + bytes option" where
  "ss_get_bytes staged saved c = (case staged c of Inr (Some got) \<Rightarrow> Inr (Some got) | _ \<Rightarrow> saved c)"

definition ss_has :: "(cid \<Rightarrow> 'e + bool) \<Rightarrow> (cid \<Rightarrow> 'e + bool) \<Rightarrow> cid \<Rightarrow> 'e + bool" where
  "ss_has staged saved c = res_bind (staged c) (\<lambda>a. if a then Inr True else saved c)"

definition ss_get_blocks ::
    "(cid list \<Rightarrow> 'e + blocks_and_missing) \<Rightarrow> (cid list \<Rightarrow> 'e + blocks_and_missing) \<Rightarrow>
     cid list \<Rightarrow> 'e + blocks_and_missing" where
  "ss_get_blocks staged saved cids =
     res_bind (staged cids) (\<lambda>from_staged.
     res_bind (saved (bam_missing from_staged)) (\<lambda>from_saved.
       Inr \<lparr>bam_blocks = bm_add_map (bam_blocks from_staged) (bam_blocks from_saved),
            bam_missing = bam_missing from_saved\<rparr>))"

section \<open>Facts\<close>

definition bm_inv :: "block_map \<Rightarrow> bool" where
  "bm_inv m \<longleftrightarrow> ksorted m"

lemma bm_inv_new [simp]: "bm_inv bm_new"
  by (simp add: bm_inv_def bm_new_def)

lemma bm_get_set: "bm_get c' (bm_set c b m) = (if c' = c then Some b else bm_get c' m)"
  by (simp add: bm_get_def bm_set_def map_of_kinsert)

lemma bm_inv_set [simp]: "bm_inv m \<Longrightarrow> bm_inv (bm_set c b m)"
  by (simp add: bm_inv_def bm_set_def ksorted_kinsert)

lemma bm_get_delete: "bm_get c' (bm_delete c m) = (if c' = c then None else bm_get c' m)"
  by (simp add: bm_get_def bm_delete_def map_of_kdelete)

lemma bm_inv_delete [simp]: "bm_inv m \<Longrightarrow> bm_inv (bm_delete c m)"
  by (simp add: bm_inv_def bm_delete_def ksorted_kdelete)

lemma bm_has_get: "bm_has c m \<longleftrightarrow> bm_get c m \<noteq> None"
  by (simp add: bm_has_def bm_get_def map_of_eq_None_iff)

lemma bm_get_new [simp]: "bm_get c bm_new = None"
  by (simp add: bm_get_def bm_new_def)

section \<open>The store contract\<close>

text \<open>
  What a client may rely on of a keyed store of blocks: a block put is the block got, other
  blocks are untouched, and \<open>has\<close> agrees with \<open>get\<close>.
\<close>

locale block_store =
  fixes inv :: "'s \<Rightarrow> bool" and get :: "cid \<Rightarrow> 's \<Rightarrow> bytes option" and has :: "cid \<Rightarrow> 's \<Rightarrow> bool"
    and put :: "cid \<Rightarrow> bytes \<Rightarrow> 's \<Rightarrow> 's"
  assumes get_put: "inv s \<Longrightarrow> get c' (put c b s) = (if c' = c then Some b else get c' s)"
    and put_inv: "inv s \<Longrightarrow> inv (put c b s)"
    and has_iff: "inv s \<Longrightarrow> has c s \<longleftrightarrow> get c s \<noteq> None"
begin

text \<open>Putting a list of blocks: the last one wins.\<close>

lemma put_all_inv: "inv s \<Longrightarrow> inv (fold (\<lambda>(c, b). put c b) bs s)"
  by (induction bs arbitrary: s) (auto simp: put_inv)

lemma get_put_all:
  "inv s \<Longrightarrow> get c (fold (\<lambda>(c, b). put c b) bs s) =
     (case map_of (rev bs) c of Some b \<Rightarrow> Some b | None \<Rightarrow> get c s)"
proof (induction bs arbitrary: s)
  case (Cons p bs)
  obtain d b where p: "p = (d, b)" by (cases p)
  have "get c (fold (\<lambda>(c, b). put c b) (p # bs) s) =
      (case map_of (rev bs) c of Some b \<Rightarrow> Some b | None \<Rightarrow> get c (put d b s))"
    using Cons.IH[OF put_inv[OF Cons.prems, of d b]] by (simp add: p)
  also have "\<dots> = (case map_of (rev (p # bs)) c of Some b \<Rightarrow> Some b | None \<Rightarrow> get c s)"
    using get_put[OF Cons.prems, of c d b]
    by (auto simp: p map_add_def split: option.splits)
  finally show ?case .
qed simp

lemma put_all_keeps: "inv s \<Longrightarrow> has c s \<Longrightarrow> has c (fold (\<lambda>(c, b). put c b) bs s)"
  using has_iff put_all_inv get_put_all by (fastforce split: option.splits)

end

interpretation block_map_store: block_store bm_inv bm_get bm_has bm_set
  by unfold_locales (simp_all add: bm_get_set bm_has_get)

definition ms_inv :: "memory_blockstore \<Rightarrow> bool" where
  "ms_inv s \<longleftrightarrow> bm_inv (ms_blocks s)"

interpretation memory_store: block_store ms_inv ms_get_bytes ms_has "\<lambda>c b. ms_put_block c b rv" for rv
  by unfold_locales
    (simp_all add: ms_inv_def ms_get_bytes_def ms_put_block_def ms_has_def bm_get_set bm_has_get)

lemma map_of_rev_ksorted: "ksorted bs \<Longrightarrow> map_of (rev bs) = map_of bs"
proof -
  assume "ksorted bs"
  then have "distinct (map fst bs)" by (rule ksorted_distinct)
  then have "distinct (map fst (rev bs))" by (simp only: rev_map[symmetric] distinct_rev)
  with \<open>distinct (map fst bs)\<close> show ?thesis by (simp add: map_of_inject_set)
qed

section \<open>Bulk operations\<close>

lemma bm_get_add_map:
  assumes "bm_inv m" "bm_inv n"
  shows "bm_get c (bm_add_map m n) = (case bm_get c n of Some b \<Rightarrow> Some b | None \<Rightarrow> bm_get c m)"
  using block_map_store.get_put_all[OF assms(1), of c n] assms(2)
  by (simp add: bm_add_map_def map_of_rev_ksorted bm_inv_def) (simp add: bm_get_def)

lemma bm_inv_add_map [simp]: "bm_inv m \<Longrightarrow> bm_inv (bm_add_map m n)"
  unfolding bm_add_map_def by (rule block_map_store.put_all_inv)

lemma get_many_found:
  "bm_get c (bam_blocks (get_many_loop m cids found missing)) =
     (if c \<in> set cids \<and> bm_get c m \<noteq> None then bm_get c m else bm_get c found)"
  by (induction m cids found missing rule: get_many_loop.induct)
    (auto simp: bm_get_set split: option.splits)

lemma get_many_missing:
  "set (bam_missing (get_many_loop m cids found missing)) = set missing \<union> {c \<in> set cids. bm_get c m = None}"
  by (induction m cids found missing rule: get_many_loop.induct) (auto split: option.splits)

lemma get_many_inv: "bm_inv found \<Longrightarrow> bm_inv (bam_blocks (get_many_loop m cids found missing))"
  by (induction m cids found missing rule: get_many_loop.induct) (auto split: option.splits)

lemma bm_get_delete_all:
  "bm_get c (fold bm_delete cs m) = (if c \<in> set cs then None else bm_get c m)"
  by (induction cs arbitrary: m) (auto simp: bm_get_delete)

lemma bm_inv_delete_all [simp]: "bm_inv m \<Longrightarrow> bm_inv (fold bm_delete cs m)"
  by (induction cs arbitrary: m) auto

lemma equals_loop_iff:
  "equals_loop es other \<longleftrightarrow> (\<forall>(c, b)\<in>set es. bm_get c other = Some b)"
  by (induction es other rule: equals_loop.induct) (auto split: option.splits)

lemma set_cs_add [simp]: "set (cs_add c s) = insert c (set s)"
  by (auto simp: cs_add_def)

lemma distinct_cs_add [simp]: "distinct s \<Longrightarrow> distinct (cs_add c s)"
  by (simp add: cs_add_def)

lemma set_cs_delete [simp]: "set (cs_delete c s) = set s - {c}"
  by (auto simp: cs_delete_def)

lemma distinct_cs_delete [simp]: "distinct s \<Longrightarrow> distinct (cs_delete c s)"
  by (simp add: cs_delete_def)

lemma fold_cs_add: "set (fold cs_add cs s) = set s \<union> set cs" "distinct s \<Longrightarrow> distinct (fold cs_add cs s)"
  by (induction cs arbitrary: s) auto

lemma fold_cs_delete: "set (fold cs_delete cs s) = set s - set cs" "distinct s \<Longrightarrow> distinct (fold cs_delete cs s)"
  by (induction cs arbitrary: s) auto

lemma block_map_many:
  "bm_get c (bam_blocks (bm_get_many m cids)) = (if c \<in> set cids then bm_get c m else None)"
  "set (bam_missing (bm_get_many m cids)) = {c \<in> set cids. bm_get c m = None}"
  "bm_inv (bam_blocks (bm_get_many m cids))"
  unfolding bm_get_many_def by (auto simp: get_many_found get_many_missing get_many_inv)

section \<open>Properties\<close>

text \<open>\<open>BlockMap::equals\<close> decides equality: two block maps compare equal exactly when they hold
  the same bytes under the same CIDs.\<close>

theorem block_map_equals_iff_same_blocks:
  assumes "bm_inv m" "bm_inv n"
  shows "bm_equals m n \<longleftrightarrow> (\<forall>c. bm_get c m = bm_get c n)"
proof
  assume "bm_equals m n"
  then have len: "length m = length n" and all: "\<forall>(c, b)\<in>set m. map_of n c = Some b"
    by (auto simp: bm_equals_def bm_size_def bm_entries_def equals_loop_iff bm_get_def split: if_splits)
  have d: "distinct (map fst m)" "distinct (map fst n)"
    using assms ksorted_distinct by (auto simp: bm_inv_def)
  have "set m \<subseteq> set n" using all map_of_SomeD by fastforce
  moreover have "card (set m) = length m" "card (set n) = length n"
    using d by (metis distinct_card distinct_map)+
  ultimately have "set m = set n" using len by (metis List.finite_set card_subset_eq)
  then show "\<forall>c. bm_get c m = bm_get c n" using d by (simp add: bm_get_def map_of_inject_set[symmetric])
next
  assume "\<forall>c. bm_get c m = bm_get c n"
  then have "m = n" using assms by (intro ksorted_map_of_eq) (auto simp: bm_inv_def bm_get_def)
  moreover have "\<forall>(c, b)\<in>set n. map_of n c = Some b"
    using assms(2) ksorted_distinct[of n] by (auto simp: bm_inv_def)
  ultimately show "bm_equals m n"
    by (simp add: bm_equals_def bm_size_def bm_entries_def equals_loop_iff bm_get_def)
qed

theorem block_map_equals_iff_same_blocks_witness:
  "bm_equals [(''a'', [1]), (''b'', [2])] (bm_set ''b'' [2] (bm_set ''a'' [1] bm_new))"
proof -
  have inv: "bm_inv [(''a'', [1]), (''b'', [2])]"
    by (simp add: bm_inv_def ksorted_Cons less_char_def)
  have "\<forall>c. bm_get c [(''a'', [1]), (''b'', [2])] = bm_get c (bm_set ''b'' [2] (bm_set ''a'' [1] bm_new))"
    by (simp add: bm_get_set) (simp add: bm_get_def)
  with block_map_equals_iff_same_blocks[OF inv, of "bm_set ''b'' [2] (bm_set ''a'' [1] bm_new)"]
  show ?thesis by simp
qed

text \<open>\<open>get_many\<close> sorts the requested CIDs into the found and the missing: the blocks returned are
  exactly the stored blocks of the requested CIDs, and the missing ones are exactly those not stored.\<close>

theorem block_map_get_many_partitions:
  "bm_get c (bam_blocks (bm_get_many m cids)) = (if c \<in> set cids then bm_get c m else None) \<and>
   set (bam_missing (bm_get_many m cids)) = {c \<in> set cids. \<not> bm_has c m} \<and>
   bm_inv (bam_blocks (bm_get_many m cids))"
  using block_map_many by (auto simp: bm_has_get)

lemma memory_apply_commit:
  assumes "ms_inv s" "bm_inv (cd_new_blocks commit)"
  shows "ms_get_root (ms_apply_commit commit ic s) = Some (cd_cid commit) \<and>
    ms_inv (ms_apply_commit commit ic s) \<and>
    ms_get_bytes c (ms_apply_commit commit ic s) =
      (case bm_get c (cd_new_blocks commit) of
         Some b \<Rightarrow> Some b
       | None \<Rightarrow> if cs_has c (cd_removed_cids commit) then None else ms_get_bytes c s)"
proof -
  let ?b1 = "fold bm_delete (cs_to_list (cd_removed_cids commit)) (ms_blocks s)"
  have inv: "bm_inv ?b1" using assms(1) by (simp add: ms_inv_def)
  have eq: "ms_blocks (ms_apply_commit commit ic s) = bm_add_map ?b1 (cd_new_blocks commit)"
    by (simp add: ms_apply_commit_def bm_add_map_def)
  have "ms_get_root (ms_apply_commit commit ic s) = Some (cd_cid commit)"
    by (simp add: ms_get_root_def ms_apply_commit_def Let_def)
  then show ?thesis
    using bm_get_add_map[OF inv assms(2), of c] inv
    by (auto simp: ms_inv_def eq ms_get_bytes_def bm_get_delete_all cs_has_def cs_to_list_def split: option.splits)
qed

text \<open>Applying a commit to the memory store: the root is the new commit, every new block is
  readable, every removed CID that is not also new is gone, and all other blocks are unchanged.\<close>

theorem memory_store_apply_commit:
  assumes "ms_inv s" "bm_inv (cd_new_blocks commit)"
  shows "ms_get_root (ms_apply_commit commit ic s) = Some (cd_cid commit) \<and>
    ms_inv (ms_apply_commit commit ic s) \<and>
    ms_get_bytes c (ms_apply_commit commit ic s) =
      (case bm_get c (cd_new_blocks commit) of
         Some b \<Rightarrow> Some b
       | None \<Rightarrow> if cs_has c (cd_removed_cids commit) then None else ms_get_bytes c s)"
  using assms by (rule memory_apply_commit)

theorem memory_store_apply_commit_witness:
  "ms_get_bytes ''b'' (ms_apply_commit
     \<lparr>cd_cid = ''r'', cd_rev = ''3'', cd_since = None, cd_prev = None, cd_new_blocks = [(''b'', [2])],
      cd_relevant_blocks = [], cd_removed_cids = [''a'']\<rparr> None
     (ms_new (Some [(''a'', [1])]))) = Some [2]"
proof -
  have "ms_inv (ms_new (Some [(''a'', [1])]))"
    by (simp add: ms_inv_def ms_new_def ms_default_def)
  moreover have "bm_inv [(''b'', [2])]" by (simp add: bm_inv_def ksorted_Cons)
  ultimately show ?thesis
    using memory_store_apply_commit[of "ms_new (Some [(''a'', [1])])"
      "\<lparr>cd_cid = ''r'', cd_rev = ''3'', cd_since = None, cd_prev = None, cd_new_blocks = [(''b'', [2])],
        cd_relevant_blocks = [], cd_removed_cids = [''a'']\<rparr>" None "''b''"]
    by (simp add: bm_get_def)
qed

text \<open>A CID set behaves as a set: adding, deleting, merging and subtracting do to membership what
  their names say, and never create duplicates.\<close>

theorem cid_set_is_a_set:
  assumes "distinct s"
  shows "(cs_has d (cs_add c s) \<longleftrightarrow> d = c \<or> cs_has d s) \<and> (cs_has d (cs_delete c s) \<longleftrightarrow> d \<noteq> c \<and> cs_has d s) \<and>
    (cs_has d (cs_add_set s u) \<longleftrightarrow> cs_has d s \<or> cs_has d u) \<and>
    (cs_has d (cs_subtract_set s u) \<longleftrightarrow> cs_has d s \<and> \<not> cs_has d u) \<and>
    cs_size (cs_add_set s u) = card (set s \<union> set u) \<and> cs_size (cs_subtract_set s u) = card (set s - set u) \<and>
    distinct (cs_add c s) \<and> distinct (cs_delete c s)"
  using assms fold_cs_add(2)[OF assms, of u] fold_cs_delete(2)[OF assms, of u]
  by (auto simp: cs_has_def cs_add_set_def cs_subtract_set_def cs_to_list_def fold_cs_add fold_cs_delete
      cs_size_def distinct_card[symmetric])

theorem cid_set_is_a_set_witness:
  "cs_has ''a'' (cs_add_set (cs_new (Some [''a'', ''a''])) [''b'']) \<and>
   cs_size (cs_subtract_set [''a'', ''b''] [''b'']) = 1"
  using cid_set_is_a_set[of "[''a'']" "''a''" "''c''" "[''b'']"] cid_set_is_a_set[of "[''a'', ''b'']" "''a''" "''c''" "[''b'']"]
  by (simp add: cs_new_def cs_add_def cs_has_def)

text \<open>A layered store answers a bulk lookup the way it answers single ones: with both layers
  in memory, a block is returned exactly when the staged store has it or else the saved one does, with
  the bytes of the first that has it, and the missing CIDs are those neither has.\<close>

theorem layered_store_reads_through:
  assumes "ms_inv staged" "ms_inv saved"
    and "ss_get_blocks (\<lambda>cs. Inr (ms_get_blocks cs staged)) (\<lambda>cs. Inr (ms_get_blocks cs saved)) cids = Inr r"
  shows "(c \<in> set cids \<longrightarrow>
      ss_get_bytes (\<lambda>c. Inr (ms_get_bytes c staged)) (\<lambda>c. Inr (ms_get_bytes c saved)) c =
        (Inr (bm_get c (bam_blocks r)) :: unit + bytes option)) \<and>
    set (bam_missing r) = {c \<in> set cids. \<not> ms_has c staged \<and> \<not> ms_has c saved}"
proof -
  let ?st = "bm_get_many (ms_blocks staged) cids"
  let ?sv = "bm_get_many (ms_blocks saved) (bam_missing ?st)"
  have r: "r = \<lparr>bam_blocks = bm_add_map (bam_blocks ?st) (bam_blocks ?sv), bam_missing = bam_missing ?sv\<rparr>"
    using assms(3) by (simp add: ss_get_blocks_def ms_get_blocks_def)
  have "bm_get c (bam_blocks r) = (case bm_get c (bam_blocks ?sv) of Some b \<Rightarrow> Some b | None \<Rightarrow> bm_get c (bam_blocks ?st))"
    using bm_get_add_map[OF block_map_many(3) block_map_many(3)] by (simp add: r)
  then show ?thesis
    by (auto simp: r block_map_many ss_get_bytes_def ms_get_bytes_def ms_has_def bm_has_get split: option.splits)
qed

theorem layered_store_reads_through_witness:
  "\<exists>r. ss_get_blocks (\<lambda>cs. Inr (ms_get_blocks cs (ms_new (Some [(''a'', [1])]))))
        (\<lambda>cs. Inr (ms_get_blocks cs (ms_new (Some [(''b'', [2])])))) [''a'', ''b''] = (Inr r :: unit + _) \<and>
     bm_get ''b'' (bam_blocks r) = Some [2] \<and> bam_missing r = []"
proof -
  let ?st = "ms_new (Some [(''a'', [1])])" and ?sv = "ms_new (Some [(''b'', [2])])"
  have inv: "ms_inv ?st" "ms_inv ?sv" by (simp_all add: ms_inv_def ms_new_def ms_default_def)
  have get: "ms_get_bytes c ?st = (if c = ''a'' then Some [1] else None)"
    "ms_get_bytes c ?sv = (if c = ''b'' then Some [2] else None)" for c
    by (simp_all add: ms_get_bytes_def ms_new_def ms_default_def bm_add_map_def bm_get_set)
  obtain r where r: "ss_get_blocks (\<lambda>cs. Inr (ms_get_blocks cs ?st)) (\<lambda>cs. Inr (ms_get_blocks cs ?sv)) [''a'', ''b''] =
      (Inr r :: unit + _)"
    by (simp add: ss_get_blocks_def)
  then have b: "bm_get ''b'' (bam_blocks r) = Some [2]"
    using layered_store_reads_through[OF inv r, of "''b''"] by (simp add: ss_get_bytes_def get)
  have "set (bam_missing r) = {}"
    using layered_store_reads_through[OF inv r, of "''b''"] inv
    by (auto simp: memory_store.has_iff get)
  with r b show ?thesis by auto
qed

end
