(* ===== verification/Mst_Walk.thy ===== *)
theory Mst_Walk
  imports Mst_Map Block_Map
begin

text \<open>
  Traversal in \<open>rsky-repo/src/mst/mod.rs\<close>: the depth-first iterators \<open>NodeIter\<close> and
  \<open>NodeIterReachable\<close>, the full-tree collectors built on them, and the ordered listings. An
  iterator is a stack of frames linked by \<open>parent\<close>. A stream is the list of what it yields.
\<close>

section \<open>NodeIter\<close>

datatype node_iter =
  NodeIter (ni_entries: "node_entry list") (ni_parent: "node_iter option") (ni_this: "node_entry option")

definition iter_of :: "node_entry \<Rightarrow> node_iter" where
  "iter_of e = NodeIter [e] None None"

text \<open>
  One call of \<open>next\<close>: the item yielded, if any, and the iterator after it. A subtree that
  cannot be read counts as one without entries.
\<close>

fun iter_next :: "ext \<Rightarrow> blocks \<Rightarrow> nat \<Rightarrow> node_iter \<Rightarrow> mst_error + node_entry option \<times> node_iter" where
  "iter_next X B 0 it = Inl OutOfFuel"
| "iter_next X B (Suc n) (NodeIter [] parent (Some this)) = Inr (Some this, NodeIter [] parent None)"
| "iter_next X B (Suc n) (NodeIter [] (Some parent) None) = iter_next X B n parent"
| "iter_next X B (Suc n) (NodeIter [] None None) = Inr (None, NodeIter [] None None)"
| "iter_next X B (Suc n) (NodeIter (LeafE k v # es) parent this) =
     Inr (Some (LeafE k v), NodeIter es parent this)"
| "iter_next X B (Suc n) (NodeIter (TreeE s # es) parent this) =
     (let entries = (case get_entries X B s of Inl _ \<Rightarrow> [] | Inr fs \<Rightarrow> fs)
      in iter_next X B n (NodeIter entries (Some (NodeIter es parent this)) (Some (TreeE s))))"

fun iter_stream :: "ext \<Rightarrow> blocks \<Rightarrow> nat \<Rightarrow> node_iter \<Rightarrow> mst_error + node_entry list" where
  "iter_stream X B 0 it = Inl OutOfFuel"
| "iter_stream X B (Suc n) it =
     res_bind (iter_next X B (Suc n) it) (\<lambda>(item, it').
       case item of
         None \<Rightarrow> Inr []
       | Some e \<Rightarrow> res_bind (iter_stream X B n it') (\<lambda>es. Inr (e # es)))"

definition mst_walk :: "ext \<Rightarrow> blocks \<Rightarrow> nat \<Rightarrow> mst \<Rightarrow> mst_error + node_entry list" where
  "mst_walk X B n t = iter_stream X B n (iter_of (TreeE t))"

definition all_nodes :: "ext \<Rightarrow> blocks \<Rightarrow> nat \<Rightarrow> mst \<Rightarrow> mst_error + node_entry list" where
  "all_nodes X B n t = mst_walk X B n t"

fun leaf_entries :: "node_entry list \<Rightarrow> leaf list" where
  "leaf_entries [] = []"
| "leaf_entries (LeafE k v # es) = (k, v) # leaf_entries es"
| "leaf_entries (TreeE s # es) = leaf_entries es"

definition mst_leaves :: "ext \<Rightarrow> blocks \<Rightarrow> nat \<Rightarrow> mst \<Rightarrow> mst_error + leaf list" where
  "mst_leaves X B n t = res_bind (mst_walk X B n t) (\<lambda>es. Inr (leaf_entries es))"

definition leaf_count :: "ext \<Rightarrow> blocks \<Rightarrow> nat \<Rightarrow> mst \<Rightarrow> mst_error + nat" where
  "leaf_count X B n t = res_bind (mst_leaves X B n t) (\<lambda>ls. Inr (length ls))"

text \<open>
  \<open>paths\<close> and \<open>all_cids\<close> call themselves on every subtree the walk yields; the bound on that
  recursion is their own fuel, the walk has fuel \<open>w\<close>.
\<close>

fun mst_paths :: "ext \<Rightarrow> blocks \<Rightarrow> nat \<Rightarrow> nat \<Rightarrow> mst \<Rightarrow> mst_error + node_entry list list" where
  "mst_paths X B w 0 t = Inl OutOfFuel"
| "mst_paths X B w (Suc n) t =
     res_bind (mst_walk X B w t) (\<lambda>es.
     res_bind (res_map (\<lambda>e. case e of
         LeafE _ _ \<Rightarrow> Inr [[e]]
       | TreeE m \<Rightarrow> res_bind (mst_paths X B w n m) (\<lambda>ps. Inr (map (\<lambda>p. e # p) ps))) es)
       (\<lambda>pss. Inr (concat pss)))"

fun all_cids :: "ext \<Rightarrow> blocks \<Rightarrow> nat \<Rightarrow> nat \<Rightarrow> mst \<Rightarrow> mst_error + cid_set" where
  "all_cids X B w 0 t = Inl OutOfFuel"
| "all_cids X B w (Suc n) t =
     res_bind (mst_walk X B w t) (\<lambda>es.
     res_bind (res_fold (\<lambda>e cids. case e of
         LeafE _ v \<Rightarrow> Inr (cs_add v cids)
       | TreeE m \<Rightarrow> res_bind (all_cids X B w n m) (\<lambda>sub. Inr (cs_add_set cids sub))) es (cs_new None))
       (\<lambda>cids. res_bind (get_pointer X B w t) (\<lambda>p. Inr (cs_add p cids))))"

section \<open>NodeIterReachable\<close>

text \<open>A missing block is skipped; any other error is yielded and the walk goes on.\<close>

fun reach_next :: "ext \<Rightarrow> blocks \<Rightarrow> nat \<Rightarrow> node_iter \<Rightarrow> mst_error + (mst_error + node_entry) option \<times> node_iter" where
  "reach_next X B 0 it = Inl OutOfFuel"
| "reach_next X B (Suc n) (NodeIter [] parent (Some this)) = Inr (Some (Inr this), NodeIter [] parent None)"
| "reach_next X B (Suc n) (NodeIter [] (Some parent) None) = reach_next X B n parent"
| "reach_next X B (Suc n) (NodeIter [] None None) = Inr (None, NodeIter [] None None)"
| "reach_next X B (Suc n) (NodeIter (LeafE k v # es) parent this) =
     Inr (Some (Inr (LeafE k v)), NodeIter es parent this)"
| "reach_next X B (Suc n) (NodeIter (TreeE s # es) parent this) =
     (case get_entries X B s of
        Inl (MissingBlock c) \<Rightarrow> reach_next X B n (NodeIter es parent this)
      | Inl e \<Rightarrow> Inr (Some (Inl e), NodeIter es parent this)
      | Inr fs \<Rightarrow> reach_next X B n (NodeIter fs (Some (NodeIter es parent this)) (Some (TreeE s))))"

fun reach_stream :: "ext \<Rightarrow> blocks \<Rightarrow> nat \<Rightarrow> node_iter \<Rightarrow> mst_error + (mst_error + node_entry) list" where
  "reach_stream X B 0 it = Inl OutOfFuel"
| "reach_stream X B (Suc n) it =
     res_bind (reach_next X B (Suc n) it) (\<lambda>(item, it').
       case item of
         None \<Rightarrow> Inr []
       | Some e \<Rightarrow> res_bind (reach_stream X B n it') (\<lambda>es. Inr (e # es)))"

definition walk_reachable :: "ext \<Rightarrow> blocks \<Rightarrow> nat \<Rightarrow> mst \<Rightarrow> mst_error + (mst_error + node_entry) list" where
  "walk_reachable X B n t = reach_stream X B n (iter_of (TreeE t))"

fun ok_leaves :: "(mst_error + node_entry) list \<Rightarrow> leaf list" where
  "ok_leaves [] = []"
| "ok_leaves (Inr (LeafE k v) # es) = (k, v) # ok_leaves es"
| "ok_leaves (_ # es) = ok_leaves es"

definition reachable_leaves :: "ext \<Rightarrow> blocks \<Rightarrow> nat \<Rightarrow> mst \<Rightarrow> mst_error + leaf list" where
  "reachable_leaves X B n t = res_bind (walk_reachable X B n t) (\<lambda>es. Inr (ok_leaves es))"

section \<open>Listing\<close>

text \<open>The \<open>unwrap\<close>s panic on an error; here the error is passed on.\<close>

fun walk_leaves_from :: "ext \<Rightarrow> blocks \<Rightarrow> nat \<Rightarrow> mst \<Rightarrow> string \<Rightarrow> mst_error + leaf list" where
  "walk_leaves_from X B 0 t key = Inl OutOfFuel"
| "walk_leaves_from X B (Suc n) t key =
     res_bind (find_gt_or_equal_leaf_index X B t key) (\<lambda>index.
     res_bind (get_entries X B t) (\<lambda>es.
     res_bind
       (if index \<ge> 1 then
          (case (if nat (index - 1) < length es then Some (es ! nat (index - 1)) else None) of
             Some (TreeE p) \<Rightarrow> walk_leaves_from X B n p key
           | _ \<Rightarrow> Inr [])
        else Inr []) (\<lambda>before.
     res_bind (res_map (\<lambda>e. case e of
         LeafE k v \<Rightarrow> Inr [(k, v)]
       | TreeE s \<Rightarrow> walk_leaves_from X B n s key) (drop (nat index) es)) (\<lambda>rest.
       Inr (before @ concat rest)))))"

definition usize_max :: nat where
  "usize_max = 2 ^ 64 - 1"

fun list_loop :: "string \<Rightarrow> nat \<Rightarrow> string option \<Rightarrow> leaf list \<Rightarrow> leaf list \<Rightarrow> leaf list" where
  "list_loop after count before [] vals = vals"
| "list_loop after count before ((k, v) # ls) vals =
     (if k = after then list_loop after count before ls vals
      else if length vals \<ge> count then vals
      else if (case before of Some b \<Rightarrow> k \<ge> b | None \<Rightarrow> False) then vals
      else list_loop after count before ls (vals @ [(k, v)]))"

definition mst_list ::
    "ext \<Rightarrow> blocks \<Rightarrow> nat \<Rightarrow> mst \<Rightarrow> nat option \<Rightarrow> string option \<Rightarrow> string option \<Rightarrow> mst_error + leaf list" where
  "mst_list X B n t count after before =
     (let a = (case after of None \<Rightarrow> [] | Some a \<Rightarrow> a);
          c = (case count of None \<Rightarrow> usize_max | Some c \<Rightarrow> c)
      in res_bind (walk_leaves_from X B n t a) (\<lambda>ls. Inr (list_loop a c before ls [])))"

fun prefix_loop :: "string \<Rightarrow> nat \<Rightarrow> leaf list \<Rightarrow> leaf list \<Rightarrow> leaf list" where
  "prefix_loop prefix count [] vals = vals"
| "prefix_loop prefix count ((k, v) # ls) vals =
     (if length vals \<ge> count \<or> \<not> starts_with k prefix then vals
      else prefix_loop prefix count ls (vals @ [(k, v)]))"

definition list_with_prefix :: "ext \<Rightarrow> blocks \<Rightarrow> nat \<Rightarrow> mst \<Rightarrow> string \<Rightarrow> nat \<Rightarrow> mst_error + leaf list" where
  "list_with_prefix X B n t prefix count =
     res_bind (walk_leaves_from X B n t prefix) (\<lambda>ls. Inr (prefix_loop prefix count ls []))"

section \<open>The iterator yields the nodes in post-order\<close>

fun nodes :: "ext \<Rightarrow> blocks \<Rightarrow> nat \<Rightarrow> node_entry \<Rightarrow> node_entry list" where
  "nodes X B n (LeafE k v) = [LeafE k v]"
| "nodes X B 0 (TreeE t) = []"
| "nodes X B (Suc n) (TreeE t) = concat (map (nodes X B n) (entries_of X B t)) @ [TreeE t]"

text \<open>A node of bounded depth: below it, subtrees end after \<open>n\<close> levels.\<close>

fun bounded :: "ext \<Rightarrow> blocks \<Rightarrow> nat \<Rightarrow> node_entry \<Rightarrow> bool" where
  "bounded X B n (LeafE k v) = True"
| "bounded X B 0 (TreeE t) = False"
| "bounded X B (Suc n) (TreeE t) = list_all (bounded X B n) (entries_of X B t)"

lemma bounded_mono: "bounded X B n e \<Longrightarrow> bounded X B (Suc n) e"
  by (induction X B n e rule: bounded.induct) (auto simp: list_all_iff)

lemma nodes_mono: "bounded X B n e \<Longrightarrow> nodes X B (Suc n) e = nodes X B n e"
  by (induction X B n e rule: bounded.induct) (auto simp: list_all_iff intro!: arg_cong[where f = concat])

fun cost :: "ext \<Rightarrow> blocks \<Rightarrow> nat \<Rightarrow> node_entry \<Rightarrow> nat" where
  "cost X B n (LeafE k v) = 1"
| "cost X B 0 (TreeE t) = 0"
| "cost X B (Suc n) (TreeE t) = 3 + sum_list (map (cost X B n) (entries_of X B t))"

lemma cost_mono: "bounded X B n e \<Longrightarrow> cost X B (Suc n) e = cost X B n e"
  by (induction X B n e rule: bounded.induct) (auto simp: list_all_iff intro!: arg_cong[where f = sum_list])

primrec iter_ok :: "ext \<Rightarrow> blocks \<Rightarrow> nat \<Rightarrow> node_iter \<Rightarrow> bool" where
  "iter_ok X B n (NodeIter es parent this) \<longleftrightarrow>
     list_all (bounded X B n) es \<and>
     (case map_option (iter_ok X B n) parent of None \<Rightarrow> True | Some b \<Rightarrow> b)"

primrec iter_rest :: "ext \<Rightarrow> blocks \<Rightarrow> nat \<Rightarrow> node_iter \<Rightarrow> node_entry list" where
  "iter_rest X B n (NodeIter es parent this) =
     concat (map (nodes X B n) es) @ (case this of None \<Rightarrow> [] | Some e \<Rightarrow> [e]) @
     (case map_option (iter_rest X B n) parent of None \<Rightarrow> [] | Some r \<Rightarrow> r)"

primrec iter_cost :: "ext \<Rightarrow> blocks \<Rightarrow> nat \<Rightarrow> node_iter \<Rightarrow> nat" where
  "iter_cost X B n (NodeIter es parent this) =
     sum_list (map (cost X B n) es) + (case this of None \<Rightarrow> 0 | Some e \<Rightarrow> 1) + 1 +
     (case map_option (iter_cost X B n) parent of None \<Rightarrow> 0 | Some c \<Rightarrow> c)"

lemma bounded_children:
  assumes "bounded X B n (TreeE s)"
  shows "list_all (bounded X B n) (entries_of X B s)"
    "nodes X B n (TreeE s) = concat (map (nodes X B n) (entries_of X B s)) @ [TreeE s]"
    "cost X B n (TreeE s) = 3 + sum_list (map (cost X B n) (entries_of X B s))"
proof -
  obtain m where n: "n = Suc m" using assms by (cases n) auto
  then have b: "list_all (bounded X B m) (entries_of X B s)" using assms by simp
  then show "list_all (bounded X B n) (entries_of X B s)"
    unfolding n by (auto simp: list_all_iff intro: bounded_mono)
  have m: "map (nodes X B m) (entries_of X B s) = map (nodes X B (Suc m)) (entries_of X B s)"
    "map (cost X B m) (entries_of X B s) = map (cost X B (Suc m)) (entries_of X B s)"
    using b by (auto simp: list_all_iff nodes_mono cost_mono)
  show "nodes X B n (TreeE s) = concat (map (nodes X B n) (entries_of X B s)) @ [TreeE s]"
    unfolding n nodes.simps m(1) ..
  show "cost X B n (TreeE s) = 3 + sum_list (map (cost X B n) (entries_of X B s))"
    unfolding n cost.simps m(2) ..
qed

lemma iter_next_ok:
  "iter_ok X B d it \<Longrightarrow> iter_cost X B d it \<le> n \<Longrightarrow>
   \<exists>it'. iter_ok X B d it' \<and>
     (case iter_rest X B d it of
        [] \<Rightarrow> iter_next X B n it = Inr (None, it')
      | e # es \<Rightarrow> iter_next X B n it = Inr (Some e, it') \<and> iter_rest X B d it' = es \<and>
          iter_cost X B d it' < iter_cost X B d it)"
proof (induction X B n it rule: iter_next.induct)
  case (1 X B it)
  then show ?case by (cases it) simp
next
  case (3 X B n parent)
  then show ?case by (cases "iter_rest X B d parent") (auto intro: less_SucI)
next
  case (6 X B n s es parent this)
  let ?it = "NodeIter (entries_of X B s) (Some (NodeIter es parent this)) (Some (TreeE s))"
  have s: "bounded X B d (TreeE s)" using 6(2) by simp
  note ch = bounded_children[OF s]
  have eq: "(case get_entries X B s of Inl _ \<Rightarrow> [] | Inr fs \<Rightarrow> fs) = entries_of X B s"
    by (simp add: entries_of_def)
  have ok: "iter_ok X B d ?it" using 6(2) ch(1) by simp
  have rest: "iter_rest X B d ?it = iter_rest X B d (NodeIter (TreeE s # es) parent this)"
    by (simp add: ch(2))
  have cost: "Suc (iter_cost X B d ?it) = iter_cost X B d (NodeIter (TreeE s # es) parent this)"
    by (simp add: ch(3))
  have IH: "\<exists>it'. iter_ok X B d it' \<and>
     (case iter_rest X B d ?it of
        [] \<Rightarrow> iter_next X B n ?it = Inr (None, it')
      | e # es \<Rightarrow> iter_next X B n ?it = Inr (Some e, it') \<and> iter_rest X B d it' = es \<and>
          iter_cost X B d it' < iter_cost X B d ?it)"
    using 6(1)[OF refl] ok cost 6(3) unfolding eq by simp
  then obtain it' where it': "iter_ok X B d it'" "case iter_rest X B d ?it of
        [] \<Rightarrow> iter_next X B n ?it = Inr (None, it')
      | e # es \<Rightarrow> iter_next X B n ?it = Inr (Some e, it') \<and> iter_rest X B d it' = es \<and>
          iter_cost X B d it' < iter_cost X B d ?it" by blast
  have nx: "iter_next X B (Suc n) (NodeIter (TreeE s # es) parent this) = iter_next X B n ?it"
    by (simp add: eq)
  show ?case
    unfolding rest[symmetric] cost[symmetric] nx
    using it' by (intro exI[of _ it']) (cases "iter_rest X B d ?it"; simp del: iter_rest.simps iter_cost.simps)
qed (auto split: option.splits list.splits)

theorem iter_stream_ok:
  "iter_ok X B d it \<Longrightarrow> iter_cost X B d it < n \<Longrightarrow> iter_stream X B n it = Inr (iter_rest X B d it)"
proof (induction n arbitrary: it)
  case (Suc n)
  obtain it' where it': "iter_ok X B d it'" "case iter_rest X B d it of
        [] \<Rightarrow> iter_next X B (Suc n) it = Inr (None, it')
      | e # es \<Rightarrow> iter_next X B (Suc n) it = Inr (Some e, it') \<and> iter_rest X B d it' = es \<and>
          iter_cost X B d it' < iter_cost X B d it"
    using iter_next_ok[OF Suc.prems(1), of "Suc n"] Suc.prems(2) by auto
  show ?case
  proof (cases "iter_rest X B d it")
    case Nil
    then show ?thesis using it' by simp
  next
    case (Cons e es)
    then show ?thesis using it' Suc.IH[OF it'(1)] Suc.prems(2) by simp
  qed
qed simp

lemma bounded_wf: "wf_mst X B L t \<Longrightarrow> bounded X B (Suc L) (TreeE t)"
proof (induction L arbitrary: t)
  case 0
  obtain es where es: "get_entries X B t = Inr es" "entries_ok X 0 (sub_ok X B 0) es" using 0 by (rule wf_mst_E)
  then have "list_all (bounded X B 0) es"
    by (auto simp: entries_ok_def list_all_iff) (metis bounded.simps(1) entry_ok_simps(1) node_entry.exhaust sub_ok_simps(1))
  then show ?case using es(1) by simp
next
  case (Suc L)
  obtain es where es: "get_entries X B t = Inr es" "entries_ok X (Suc L) (sub_ok X B (Suc L)) es"
    using Suc.prems by (rule wf_mst_E)
  have "bounded X B (Suc L) e" if "e \<in> set es" for e
  proof (cases e)
    case (TreeE s)
    then have "wf_mst X B L s" using es(2) that by (auto simp: entries_ok_def list_all_iff)
    then show ?thesis using Suc.IH TreeE by blast
  qed simp
  then show ?case using es(1) by (simp add: list_all_iff)
qed

lemma leaf_entries_append [simp]: "leaf_entries (xs @ ys) = leaf_entries xs @ leaf_entries ys"
  by (induction xs rule: leaf_entries.induct) auto

lemma leaf_entries_nodes:
  "leaf_entries (nodes X B n e) = (case e of TreeE s \<Rightarrow> tleaves X B n s | LeafE k v \<Rightarrow> [(k, v)])"
proof (induction X B n e rule: nodes.induct)
  case (3 X B n t)
  have "leaf_entries (concat (map (nodes X B n) es)) = eleaves X B n es" if "set es \<subseteq> set (entries_of X B t)" for es
    using that
  proof (induction es)
    case (Cons e es)
    then show ?case using 3[of e] by (cases e) auto
  qed simp
  then show ?case by (simp add: tleaves_Suc)
qed simp_all

lemma mst_walk_ok:
  assumes "bounded X B d (TreeE t)" "cost X B d (TreeE t) + 1 < n"
  shows "mst_walk X B n t = Inr (nodes X B d (TreeE t))"
proof -
  have ok: "iter_ok X B d (iter_of (TreeE t))" using assms(1) by (simp add: iter_of_def)
  have "iter_cost X B d (iter_of (TreeE t)) < n" using assms(2) by (simp add: iter_of_def)
  from iter_stream_ok[OF ok this] show ?thesis by (simp add: mst_walk_def iter_of_def)
qed

section \<open>Listings\<close>

lemma kfrom_Cons: "kfrom k (p # xs) = (if k \<le> fst p then [p] else []) @ kfrom k xs"
  by (simp add: kfrom_def)

lemma all_from_tail: "all_from key (eleaves X B n (e # es)) \<Longrightarrow> all_from key (eleaves X B n es)"
  by (cases e) (auto simp: all_from_def)

theorem walk_leaves_from_ok:
  "wf_mst X B L t \<Longrightarrow> ksorted (tleaves X B (Suc L) t) \<Longrightarrow> L < n \<Longrightarrow>
   walk_leaves_from X B n t key = Inr (kfrom key (tleaves X B (Suc L) t))"
proof (induction n arbitrary: L t)
  case (Suc n)
  obtain es where es: "get_entries X B t = Inr es" and ok: "entries_ok X L (sub_ok X B L) es"
    using Suc.prems(1) by (rule wf_mst_E)
  have lv: "tleaves X B (Suc L) t = eleaves X B L es" using es by (simp add: tleaves_Suc)
  have sorted: "ksorted (eleaves X B L es)" using Suc.prems(2) lv by simp
  have na: "no_adjacent_trees es" using ok by (simp add: entries_ok_def)
  have sub: "walk_leaves_from X B n s key = Inr (kfrom key (tleaves X B L s))"
    if "sub_ok X B L s" "ksorted (tleaves X B L s)" for s
    using that Suc.IH Suc.prems(3) by (auto elim!: sub_ok_E)
  have rest: "res_map (\<lambda>e. case e of LeafE k v \<Rightarrow> Inr [(k, v)] | TreeE s \<Rightarrow> walk_leaves_from X B n s key) rs =
      Inr rss \<longleftrightarrow> rss = map (\<lambda>e. eleaves X B L [e]) rs"
    if "entries_ok X L (sub_ok X B L) rs" "ksorted (eleaves X B L rs)" "all_from key (eleaves X B L rs)" for rs rss
    using that
  proof (induction rs arbitrary: rss)
    case (Cons e rs)
    have IH: "res_map (\<lambda>e. case e of LeafE k v \<Rightarrow> Inr [(k, v)] | TreeE s \<Rightarrow> walk_leaves_from X B n s key) rs =
        Inr (map (\<lambda>e. eleaves X B L [e]) rs)"
      using Cons.IH Cons.prems all_from_tail[OF Cons.prems(3)]
      by (cases e) (auto simp: entries_ok_Cons ksorted_Cons ksorted_append)
    show ?case
    proof (cases e)
      case (TreeE s)
      have "kfrom key (tleaves X B L s) = tleaves X B L s"
        using Cons.prems(3) TreeE by (intro kfrom_all) (auto simp: all_from_def)
      then show ?thesis
        using IH sub[of s] Cons.prems(1,2) TreeE by (auto simp: entries_ok_Cons ksorted_append)
    qed (use IH in auto)
  qed auto
  have cat: "concat (map (\<lambda>e. eleaves X B L [e]) rs) = eleaves X B L rs" for rs
    by (induction rs) (auto simp: eleaves_def)
  from es sorted na show ?case
  proof (cases rule: cursor_cases[where key = key])
    case (flat ls rs prev)
    have pre: "(if int (length ls) \<ge> 1 then
          (case (if nat (int (length ls) - 1) < length es then Some (es ! nat (int (length ls) - 1)) else None) of
             Some (TreeE p) \<Rightarrow> walk_leaves_from X B n p key | _ \<Rightarrow> Inr []) else Inr []) = Inr []"
      using flat(6) unfolding ends_leaf_def by (auto simp: flat(1) nth_append)
    have "entries_ok X L (sub_ok X B L) rs" "ksorted (eleaves X B L rs)"
      using ok sorted flat(1) by (auto simp: entries_ok_append ksorted_append)
    then have r: "res_map (\<lambda>e. case e of LeafE k v \<Rightarrow> Inr [(k, v)] | TreeE s \<Rightarrow> walk_leaves_from X B n s key)
        (drop (nat (int (length ls))) es) = Inr (map (\<lambda>e. eleaves X B L [e]) rs)"
      using rest[OF _ _ flat(9)] by (simp add: flat(1))
    have "walk_leaves_from X B (Suc n) t key = Inr (eleaves X B L rs)"
      unfolding walk_leaves_from.simps flat(2) es res_bind_simps pre r by (simp add: cat)
    then show ?thesis using split_sides(2)[OF flat(8,9), of "[]"] by (simp add: lv flat(1))
  next
    case (tree ls m rs)
    have ix: "nat (int (length ls) + 1) = Suc (length ls)" by simp
    have pre: "(if int (length ls) + 1 \<ge> 1 then
          (case (if nat (int (length ls) + 1 - 1) < length es then Some (es ! nat (int (length ls) + 1 - 1)) else None) of
             Some (TreeE p) \<Rightarrow> walk_leaves_from X B n p key | _ \<Rightarrow> Inr []) else Inr []) =
        walk_leaves_from X B n m key"
      by (simp add: tree(1))
    have "entries_ok X L (sub_ok X B L) rs" "ksorted (eleaves X B L rs)" "sub_ok X B L m" "ksorted (tleaves X B L m)"
      using ok sorted tree(1) by (auto simp: entries_ok_append entries_ok_Cons ksorted_append)
    moreover from this have r: "res_map (\<lambda>e. case e of LeafE k v \<Rightarrow> Inr [(k, v)] | TreeE s \<Rightarrow> walk_leaves_from X B n s key)
        (drop (nat (int (length ls) + 1)) es) = Inr (map (\<lambda>e. eleaves X B L [e]) rs)"
      using rest[OF _ _ tree(8)] by (simp add: tree(1) ix)
    ultimately have "walk_leaves_from X B (Suc n) t key = Inr (kfrom key (tleaves X B L m) @ eleaves X B L rs)"
      unfolding walk_leaves_from.simps tree(2) es res_bind_simps pre r by (simp add: cat sub)
    then show ?thesis using split_sides(2)[OF tree(7,8), of "tleaves X B L m"] by (simp add: lv tree(1))
  qed
qed simp

lemma list_loop_spec:
  "list_loop after count before ls vals =
     vals @ take (count - length vals)
       (takeWhile (\<lambda>p. case before of Some b \<Rightarrow> fst p < b | None \<Rightarrow> True) (filter (\<lambda>p. fst p \<noteq> after) ls))"
  by (induction after count before ls vals rule: list_loop.induct)
    (auto simp: take_Cons' Suc_diff_le not_le split: option.splits)

lemma prefix_loop_spec:
  "prefix_loop prefix count ls vals =
     vals @ take (count - length vals) (takeWhile (\<lambda>p. starts_with (fst p) prefix) ls)"
  by (induction prefix count ls vals rule: prefix_loop.induct) (auto simp: take_Cons' Suc_diff_le)

lemma kfrom_not_self: "filter (\<lambda>p. fst p \<noteq> a) (kfrom a xs) = kabove a xs"
  unfolding kfrom_def kabove_def filter_filter by (rule filter_cong) auto

text \<open>In a sorted list the strings with a given prefix are the ones that follow it directly.\<close>

lemma prefix_between:
  "p \<le> k \<Longrightarrow> k \<le> l \<Longrightarrow> starts_with l (p :: string) \<Longrightarrow> starts_with k p"
proof (induction p arbitrary: k l)
  case (Cons c p)
  obtain l' where l: "l = c # l'" "starts_with l' p" using Cons.prems(3) by (auto simp: starts_with_iff)
  obtain d k' where k: "k = d # k'" using Cons.prems(1) by (cases k) auto
  have "c \<le> d" "d \<le> c" using Cons.prems(1,2) unfolding k l(1) by (auto simp: Cons_le_Cons)
  then have "d = c" by simp
  then have "p \<le> k'" "k' \<le> l'" using Cons.prems(1,2) unfolding k l(1) by (auto simp: Cons_le_Cons)
  then show ?case using Cons.IH l(2) \<open>d = c\<close> k by (auto simp: starts_with_iff)
qed (simp add: starts_with_def)

lemma starts_with_le: "starts_with k p \<Longrightarrow> p \<le> (k :: string)"
proof (induction p arbitrary: k)
  case (Cons c p)
  then show ?case by (cases k) (auto simp: starts_with_iff Cons_le_Cons)
qed simp

lemma takeWhile_prefix:
  assumes "ksorted xs"
  shows "takeWhile (\<lambda>p. starts_with (fst p) pre) (kfrom pre xs) = filter (\<lambda>p. starts_with (fst p) pre) xs"
proof -
  have "takeWhile (\<lambda>p. starts_with (fst p) pre) ys = filter (\<lambda>p. starts_with (fst p) pre) ys"
    if "ksorted ys" "\<forall>p\<in>set ys. pre \<le> fst p" for ys :: "(string \<times> 'a) list"
    using that
  proof (induction ys)
    case (Cons y ys)
    have "\<not> starts_with (fst q) pre" if "q \<in> set ys" "\<not> starts_with (fst y) pre" for q
      using prefix_between[of pre "fst y" "fst q"] that Cons.prems by (auto simp: ksorted_Cons less_imp_le)
    then have "filter (\<lambda>p. starts_with (fst p) pre) ys = []" if "\<not> starts_with (fst y) pre"
      using that by (simp add: filter_empty_conv)
    then show ?case using Cons by (simp add: ksorted_Cons)
  qed simp
  moreover have "ksorted (kfrom pre xs)" "\<forall>p\<in>set (kfrom pre xs). pre \<le> fst p"
    using assms by (auto simp: kfrom_def ksorted_filter)
  moreover have "filter (\<lambda>p. starts_with (fst p) pre) (kfrom pre xs) = filter (\<lambda>p. starts_with (fst p) pre) xs"
    unfolding kfrom_def filter_filter by (rule filter_cong) (auto dest: starts_with_le)
  ultimately show ?thesis by simp
qed

section \<open>The reachable part\<close>

text \<open>
  What can be reached when blocks may be missing: a subtree whose block is missing
  contributes nothing, one that cannot be read for another reason contributes the error.
\<close>

fun reached :: "ext \<Rightarrow> blocks \<Rightarrow> nat \<Rightarrow> node_entry \<Rightarrow> (mst_error + node_entry) list" where
  "reached X B n (LeafE k v) = [Inr (LeafE k v)]"
| "reached X B 0 (TreeE t) = []"
| "reached X B (Suc n) (TreeE t) =
     (case get_entries X B t of
        Inl (MissingBlock c) \<Rightarrow> []
      | Inl e \<Rightarrow> [Inl e]
      | Inr es \<Rightarrow> concat (map (reached X B n) es) @ [Inr (TreeE t)])"

lemma reached_mono: "bounded X B n e \<Longrightarrow> reached X B (Suc n) e = reached X B n e"
proof (induction X B n e rule: bounded.induct)
  case (3 X B n t)
  then show ?case
    by (cases "get_entries X B t")
      (auto simp: list_all_iff intro!: arg_cong[where f = concat] split: mst_error.splits)
qed simp_all

primrec reach_rest :: "ext \<Rightarrow> blocks \<Rightarrow> nat \<Rightarrow> node_iter \<Rightarrow> (mst_error + node_entry) list" where
  "reach_rest X B n (NodeIter es parent this) =
     concat (map (reached X B n) es) @ (case this of None \<Rightarrow> [] | Some e \<Rightarrow> [Inr e]) @
     (case map_option (reach_rest X B n) parent of None \<Rightarrow> [] | Some r \<Rightarrow> r)"

lemma reached_children:
  assumes "bounded X B n (TreeE s)" "get_entries X B s = Inr es"
  shows "reached X B n (TreeE s) = concat (map (reached X B n) es) @ [Inr (TreeE s)]"
proof -
  obtain m where n: "n = Suc m" using assms by (cases n) auto
  have m: "map (reached X B m) es = map (reached X B (Suc m)) es"
    using assms n by (auto simp: list_all_iff reached_mono)
  show ?thesis unfolding n reached.simps assms(2) sum.case m ..
qed

lemma reached_error:
  assumes "bounded X B n (TreeE s)" "get_entries X B s = Inl e"
  shows "reached X B n (TreeE s) = (case e of MissingBlock c \<Rightarrow> [] | _ \<Rightarrow> [Inl e])"
  using assms by (cases n) (auto split: mst_error.splits)

definition reach_result ::
    "ext \<Rightarrow> blocks \<Rightarrow> nat \<Rightarrow> nat \<Rightarrow> node_iter \<Rightarrow> mst_error + (mst_error + node_entry) option \<times> node_iter \<Rightarrow> bool" where
  "reach_result X B d c it r \<longleftrightarrow>
     (\<exists>it'. iter_ok X B d it' \<and>
       (case reach_rest X B d it of
          [] \<Rightarrow> r = Inr (None, it')
        | e # es \<Rightarrow> r = Inr (Some e, it') \<and> reach_rest X B d it' = es \<and> iter_cost X B d it' < c))"

lemma reach_resultI:
  "reach_result X B d c it r \<Longrightarrow> reach_rest X B d it = reach_rest X B d it2 \<Longrightarrow> c \<le> c2 \<Longrightarrow> reach_result X B d c2 it2 r"
  unfolding reach_result_def by (cases "reach_rest X B d it2") fastforce+

lemma reach_next_ok:
  "iter_ok X B d it \<Longrightarrow> iter_cost X B d it \<le> n \<Longrightarrow>
   reach_result X B d (iter_cost X B d it) it (reach_next X B n it)"
proof (induction X B n it rule: reach_next.induct)
  case (1 X B it)
  then show ?case by (cases it) simp
next
  case (3 X B n parent)
  have "reach_result X B d (iter_cost X B d parent) parent (reach_next X B n parent)"
    using 3 by simp
  then show ?case using reach_resultI[of X B d "iter_cost X B d parent" parent] by simp
next
  case (6 X B n s es parent this)
  have s: "bounded X B d (TreeE s)" using 6(3) by simp
  note ch = bounded_children[OF s]
  show ?case
  proof (cases "get_entries X B s")
    case (Inr fs)
    let ?it = "NodeIter fs (Some (NodeIter es parent this)) (Some (TreeE s))"
    have fs: "entries_of X B s = fs" using Inr by simp
    have "reach_result X B d (iter_cost X B d ?it) ?it (reach_next X B n ?it)"
      using 6(2)[OF Inr] 6(3,4) ch(1,3) fs by simp
    moreover have "reach_rest X B d ?it = reach_rest X B d (NodeIter (TreeE s # es) parent this)"
      by (simp add: reached_children[OF s Inr])
    moreover have "iter_cost X B d ?it \<le> iter_cost X B d (NodeIter (TreeE s # es) parent this)"
      by (simp add: ch(3) fs)
    ultimately show ?thesis using reach_resultI by (simp add: Inr)
  next
    case (Inl e)
    let ?it = "NodeIter es parent this"
    have c: "iter_cost X B d ?it < iter_cost X B d (NodeIter (TreeE s # es) parent this)" by (simp add: ch(3))
    show ?thesis
    proof (cases "\<exists>c. e = MissingBlock c")
      case True
      then obtain c' where e: "e = MissingBlock c'" by blast
      have "reach_result X B d (iter_cost X B d ?it) ?it (reach_next X B n ?it)"
        using 6(1)[OF Inl e] 6(3,4) c by simp
      moreover have "reach_rest X B d ?it = reach_rest X B d (NodeIter (TreeE s # es) parent this)"
        using reached_error[OF s Inl] e by simp
      ultimately show ?thesis using reach_resultI c by (simp add: Inl e less_imp_le)
    next
      case False
      then have r: "reached X B d (TreeE s) = [Inl e]"
        using reached_error[OF s Inl] by (cases e) auto
      have "reach_next X B (Suc n) (NodeIter (TreeE s # es) parent this) = Inr (Some (Inl e), ?it)"
        using Inl False by (cases e) auto
      then show ?thesis using 6(3) c r by (auto simp: reach_result_def)
    qed
  qed
qed (auto simp: reach_result_def split: option.splits list.splits)

theorem reach_stream_ok:
  "iter_ok X B d it \<Longrightarrow> iter_cost X B d it < n \<Longrightarrow> reach_stream X B n it = Inr (reach_rest X B d it)"
proof (induction n arbitrary: it)
  case (Suc n)
  obtain it' where it': "iter_ok X B d it'" "case reach_rest X B d it of
        [] \<Rightarrow> reach_next X B (Suc n) it = Inr (None, it')
      | e # es \<Rightarrow> reach_next X B (Suc n) it = Inr (Some e, it') \<and> reach_rest X B d it' = es \<and>
          iter_cost X B d it' < iter_cost X B d it"
    using reach_next_ok[OF Suc.prems(1), of "Suc n"] Suc.prems(2) by (auto simp: reach_result_def)
  show ?case
  proof (cases "reach_rest X B d it")
    case Nil
    then show ?thesis using it' by simp
  next
    case (Cons e es)
    then show ?thesis using it' Suc.IH[OF it'(1)] Suc.prems(2) by simp
  qed
qed simp

end
