(* ===== verification/Walk_Properties.thy ===== *)
theory Walk_Properties
  imports Mst_Walk Mst_Properties
begin

text \<open>
  The theorems about traversal: the iterator visits every node once, children before their
  parent, the listings return exactly the range they are asked for, and the two collectors
  that recurse on what the walk yields do not come to an end.
\<close>

section \<open>Walks\<close>

lemma mst_inv_bounded:
  assumes "mst_inv X B t"
  obtains d where "bounded X B d (TreeE t)" "tleaves X B d t = mst_contents X B t" "0 < d"
proof -
  obtain L where L: "wf_mst X B L t" "L < mst_fuel" "ksorted (mst_contents X B t)"
    "tleaves X B (Suc L) t = mst_contents X B t"
    using assms by (rule mst_inv_E)
  then show ?thesis using that[of "Suc L"] bounded_wf by simp
qed

text \<open>C36. A full walk of a tree that satisfies the invariant ends, yields its leaves in key order and
  the root last; \<open>leaves\<close> returns exactly the contents and \<open>leaf_count\<close> their number.\<close>

theorem walk_yields_contents:
  assumes "mst_inv X B t"
  shows "\<exists>N. \<forall>n\<ge>N. (\<exists>ns. mst_walk X B n t = Inr (ns @ [TreeE t]) \<and> leaf_entries ns = mst_contents X B t) \<and>
    mst_leaves X B n t = Inr (mst_contents X B t) \<and>
    leaf_count X B n t = Inr (length (mst_contents X B t))"
proof -
  obtain d where d: "bounded X B d (TreeE t)" "tleaves X B d t = mst_contents X B t" "0 < d"
    using assms by (rule mst_inv_bounded)
  have "(\<exists>ns. mst_walk X B n t = Inr (ns @ [TreeE t]) \<and> leaf_entries ns = mst_contents X B t) \<and>
      mst_leaves X B n t = Inr (mst_contents X B t) \<and> leaf_count X B n t = Inr (length (mst_contents X B t))"
    if "n \<ge> cost X B d (TreeE t) + 2" for n
  proof -
    let ?ns = "concat (map (nodes X B d) (entries_of X B t))"
    have w: "mst_walk X B n t = Inr (?ns @ [TreeE t])"
      using mst_walk_ok[OF d(1), of n] that bounded_children(2)[OF d(1)] by simp
    have "leaf_entries (?ns @ [TreeE t]) = mst_contents X B t"
      using leaf_entries_nodes[of X B d "TreeE t"] d(2) bounded_children(2)[OF d(1)] by simp
    then have lv: "leaf_entries ?ns = mst_contents X B t" by simp
    show ?thesis using w lv by (auto simp: mst_leaves_def leaf_count_def)
  qed
  then show ?thesis by blast
qed

theorem walk_yields_contents_witness:
  "\<exists>N. \<forall>n\<ge>N. mst_leaves demo_ext Map.empty n demo_one = Inr [(''c/0'', ''v'')]"
  using walk_yields_contents[OF demo_one_inv(1)[of Map.empty]] demo_one_inv(2)[of Map.empty]
  by (metis (no_types, lifting))

text \<open>C37. The walk of the reachable part of a tree ends even when blocks are missing, and yields
  exactly what can be read: every leaf and node whose ancestors are all present, and an error for a
  node that is present but unreadable. On a tree with nothing missing it finds all leaves.\<close>

theorem reachable_walk_correct:
  assumes "bounded X B d (TreeE t)"
  shows "\<exists>N. \<forall>n\<ge>N. walk_reachable X B n t = Inr (reached X B d (TreeE t)) \<and>
    reachable_leaves X B n t = Inr (ok_leaves (reached X B d (TreeE t)))"
proof -
  have ok: "iter_ok X B d (iter_of (TreeE t))" using assms by (simp add: iter_of_def)
  have "walk_reachable X B n t = Inr (reached X B d (TreeE t))" if "n > iter_cost X B d (iter_of (TreeE t))" for n
    using reach_stream_ok[OF ok that] by (simp add: walk_reachable_def iter_of_def)
  then show ?thesis
    by (intro exI[of _ "Suc (iter_cost X B d (iter_of (TreeE t)))"]) (auto simp: reachable_leaves_def Suc_le_eq)
qed

theorem reachable_walk_correct_witness:
  "\<exists>N. \<forall>n\<ge>N. reachable_leaves demo_ext Map.empty n
     (MST (Some [TreeE (mst_load ''gone'' None), LeafE ''c/1'' ''w'']) (Some 1) ''r'' True) = Inr [(''c/1'', ''w'')]"
proof -
  let ?t = "MST (Some [TreeE (mst_load ''gone'' None), LeafE ''c/1'' ''w'']) (Some 1) ''r'' True"
  have b: "bounded demo_ext Map.empty 2 (TreeE ?t)"
    by (simp add: numeral_2_eq_2 entries_of_def get_entries_def mst_load_def)
  have "ok_leaves (reached demo_ext Map.empty 2 (TreeE ?t)) = [(''c/1'', ''w'')]"
    by (simp add: numeral_2_eq_2 get_entries_def mst_load_def)
  then show ?thesis using reachable_walk_correct[OF b] by metis
qed

section \<open>Listings\<close>

text \<open>\<open>list\<close> returns, in key order, the first \<open>count\<close> leaves whose key is after \<open>after\<close> and
  before \<open>before\<close>, both exclusive.\<close>

theorem mst_list_correct:
  assumes "mst_inv X B t"
  shows "mst_list X B mst_fuel t cnt after before =
    Inr (take (case cnt of None \<Rightarrow> usize_max | Some c \<Rightarrow> c)
      (filter (\<lambda>p. (case after of None \<Rightarrow> [] | Some a \<Rightarrow> a) < fst p \<and>
                   (case before of None \<Rightarrow> True | Some b \<Rightarrow> fst p < b)) (mst_contents X B t)))"
proof -
  obtain L where L: "wf_mst X B L t" "L < mst_fuel" "ksorted (mst_contents X B t)"
    "tleaves X B (Suc L) t = mst_contents X B t"
    using assms by (rule mst_inv_E)
  define a where "a = (case after of None \<Rightarrow> [] | Some a \<Rightarrow> a)"
  let ?P = "\<lambda>p :: leaf. case before of Some b \<Rightarrow> fst p < b | None \<Rightarrow> True"
  have tw: "takeWhile ?P xs = filter ?P xs" if "ksorted xs" for xs
    using that
  proof (induction xs)
    case (Cons x xs)
    have "\<not> ?P q" if "q \<in> set xs" "\<not> ?P x" for q
      using that Cons.prems by (auto simp: ksorted_Cons split: option.splits)
    then have "filter ?P xs = []" if "\<not> ?P x" using that by (simp add: filter_empty_conv)
    then show ?case using Cons by (simp add: ksorted_Cons)
  qed simp
  have "ksorted (kabove a (mst_contents X B t))" using L(3) by (simp add: kabove_def ksorted_filter)
  note tw = tw[OF this]
  have "walk_leaves_from X B mst_fuel t a = Inr (kfrom a (mst_contents X B t))"
    using walk_leaves_from_ok[OF L(1) _ L(2)] L(3,4) by simp
  then have "mst_list X B mst_fuel t cnt after before =
      Inr (take (case cnt of None \<Rightarrow> usize_max | Some c \<Rightarrow> c) (filter ?P (kabove a (mst_contents X B t))))"
    by (simp add: mst_list_def a_def[symmetric] list_loop_spec kfrom_not_self tw)
  also have "filter ?P (kabove a (mst_contents X B t)) =
      filter (\<lambda>p. a < fst p \<and> (case before of None \<Rightarrow> True | Some b \<Rightarrow> fst p < b)) (mst_contents X B t)"
    unfolding kabove_def filter_filter by (rule filter_cong) (auto split: option.splits)
  finally show ?thesis unfolding a_def .
qed

theorem mst_list_correct_witness:
  "mst_list demo_ext Map.empty mst_fuel demo_one (Some 5) None (Some ''d'') = Inr [(''c/0'', ''v'')]"
  using mst_list_correct[OF demo_one_inv(1)[of Map.empty], of "Some 5" None "Some ''d''"]
  by (simp add: demo_one_inv(2) less_char_def)

text \<open>\<open>list_with_prefix\<close> returns the first \<open>count\<close> leaves, in key order, whose key starts with the
  prefix: starting at the prefix and stopping at the first other key misses none.\<close>

theorem mst_list_with_prefix_correct:
  assumes "mst_inv X B t"
  shows "list_with_prefix X B mst_fuel t pre cnt =
    Inr (take cnt (filter (\<lambda>p. starts_with (fst p) pre) (mst_contents X B t)))"
proof -
  obtain L where L: "wf_mst X B L t" "L < mst_fuel" "ksorted (mst_contents X B t)"
    "tleaves X B (Suc L) t = mst_contents X B t"
    using assms by (rule mst_inv_E)
  have "walk_leaves_from X B mst_fuel t pre = Inr (kfrom pre (mst_contents X B t))"
    using walk_leaves_from_ok[OF L(1) _ L(2)] L(3,4) by simp
  then show ?thesis
    using takeWhile_prefix[OF L(3), of pre] by (simp add: list_with_prefix_def prefix_loop_spec)
qed

theorem mst_list_with_prefix_correct_witness:
  "list_with_prefix demo_ext Map.empty mst_fuel demo_one ''c/'' 10 = Inr [(''c/0'', ''v'')]"
  using mst_list_with_prefix_correct[OF demo_one_inv(1)[of Map.empty], of "''c/''" 10]
  by (simp add: demo_one_inv(2) starts_with_def)

section \<open>Collectors that do not return\<close>

primrec pending :: "node_iter \<Rightarrow> node_entry set" where
  "pending (NodeIter es parent this) =
     set es \<union> set_option this \<union> (case map_option pending parent of None \<Rightarrow> {} | Some s \<Rightarrow> s)"

lemma iter_next_pending:
  "iter_next X B n it = Inr (item, it') \<Longrightarrow>
   pending it \<subseteq> set_option item \<union> pending it' \<and> (item = None \<longrightarrow> pending it = {})"
proof (induction X B n it arbitrary: item it' rule: iter_next.induct)
  case (3 X B n parent)
  then show ?case by simp
next
  case (6 X B n s es parent this)
  then show ?case by (fastforce simp: Let_def)
qed auto

lemma iter_stream_pending: "iter_stream X B n it = Inr es \<Longrightarrow> pending it \<subseteq> set es"
proof (induction n arbitrary: it es)
  case (Suc n)
  obtain item it' where nx: "iter_next X B (Suc n) it = Inr (item, it')"
    using Suc.prems by (auto simp: res_bind_eq_Inr_iff)
  show ?case
  proof (cases item)
    case None
    then show ?thesis using iter_next_pending[OF nx] by simp
  next
    case (Some e)
    then obtain fs where "iter_stream X B n it' = Inr fs" "es = e # fs"
      using Suc.prems nx by (auto simp: res_bind_eq_Inr_iff)
    then show ?thesis using iter_next_pending[OF nx] Suc.IH Some by fastforce
  qed
qed simp

lemma walk_contains_root: "mst_walk X B n t = Inr es \<Longrightarrow> TreeE t \<in> set es"
  using iter_stream_pending by (fastforce simp: mst_walk_def iter_of_def)

lemma res_map_fails: "x \<in> set xs \<Longrightarrow> \<not> is_ok (f x) \<Longrightarrow> \<not> is_ok (res_map f xs)"
proof (induction xs)
  case (Cons y ys)
  then show ?case by (cases "f y"; cases "res_map f ys") auto
qed simp

lemma res_fold_fails: "x \<in> set xs \<Longrightarrow> (\<And>s. \<not> is_ok (f x s)) \<Longrightarrow> \<not> is_ok (res_fold f xs s)"
proof (induction xs arbitrary: s)
  case (Cons y ys)
  show ?case
  proof (cases "f y s")
    case (Inr s')
    then have "x \<noteq> y" using Cons.prems(2)[of s] by auto
    then show ?thesis using Cons Inr by simp
  qed simp
qed simp

text \<open>\<open>paths\<close> and \<open>all_cids\<close> do not return: the walk of a tree yields the tree itself, and both call
  themselves on every tree the walk yields, so no depth of recursion is enough, on any tree.\<close>

theorem paths_and_all_cids_never_return:
  "\<not> is_ok (mst_paths X B w n t) \<and> \<not> is_ok (all_cids X B w n t)"
proof (induction n)
  case (Suc n)
  show ?case
  proof (cases "mst_walk X B w t")
    case (Inr es)
    have root: "TreeE t \<in> set es" using walk_contains_root[OF Inr] .
    let ?f = "\<lambda>e. case e of LeafE _ _ \<Rightarrow> Inr [[e]]
       | TreeE m \<Rightarrow> res_bind (mst_paths X B w n m) (\<lambda>ps. Inr (map (\<lambda>p. e # p) ps))"
    let ?g = "\<lambda>e cids. case e of LeafE _ v \<Rightarrow> Inr (cs_add v cids)
       | TreeE m \<Rightarrow> res_bind (all_cids X B w n m) (\<lambda>sub. Inr (cs_add_set cids sub))"
    have "\<not> is_ok (?f (TreeE t))" using Suc by (cases "mst_paths X B w n t") auto
    then have "\<not> is_ok (res_map ?f es)" using res_map_fails[OF root, of ?f] by simp
    moreover have "\<not> is_ok (?g (TreeE t) s)" for s using Suc by (cases "all_cids X B w n t") auto
    then have "\<not> is_ok (res_fold ?g es (cs_new None))" using res_fold_fails[OF root, of ?g] by simp
    ultimately show ?thesis
      unfolding mst_paths.simps all_cids.simps Inr res_bind_simps
      by (cases "res_map ?f es"; cases "res_fold ?g es (cs_new None)") auto
  qed simp
qed simp

end
