(* ===== verification/Mst_Diff.thy ===== *)
theory Mst_Diff
  imports Mst_Walk
begin

text \<open>
  \<open>rsky-repo/src/mst/walker.rs\<close>, \<open>mst/diff.rs\<close> and \<open>data_diff.rs\<close>: a cursor over a tree, the
  comparison of two trees by moving two cursors, and the record of what changed. The last
  element of a \<open>Vec\<close> used as a stack is the head of the list here; a \<open>HashMap\<close> is the list of
  its entries by key, whose order no statement uses. \<open>w\<close> is the fuel of the pointer
  computations and \<open>n\<close> bounds the loop.
\<close>

section \<open>DataDiff\<close>

record data_add =
  da_key :: string
  da_cid :: cid

record data_update =
  du_key :: string
  du_prev :: cid
  du_cid :: cid

record data_delete =
  dd_key :: string
  dd_cid :: cid

record data_diff =
  adds :: "(string \<times> data_add) list"
  updates :: "(string \<times> data_update) list"
  deletes :: "(string \<times> data_delete) list"
  new_mst_blocks :: block_map
  new_leaf_cids :: cid_set
  removed_cids :: cid_set
  removed_mst_blocks :: cid_set

definition diff_new :: data_diff where
  "diff_new = \<lparr>adds = [], updates = [], deletes = [], new_mst_blocks = bm_new,
     new_leaf_cids = cs_new None, removed_cids = cs_new None, removed_mst_blocks = cs_new None\<rparr>"

definition leaf_add :: "string \<Rightarrow> cid \<Rightarrow> data_diff \<Rightarrow> data_diff" where
  "leaf_add key c d =
     (let d1 = d\<lparr>adds := kinsert key \<lparr>da_key = key, da_cid = c\<rparr> (adds d)\<rparr>
      in if cs_has c (removed_cids d1) then d1\<lparr>removed_cids := cs_delete c (removed_cids d1)\<rparr>
         else d1\<lparr>new_leaf_cids := cs_add c (new_leaf_cids d1)\<rparr>)"

definition leaf_update :: "string \<Rightarrow> cid \<Rightarrow> cid \<Rightarrow> data_diff \<Rightarrow> data_diff" where
  "leaf_update key prev c d =
     (if prev = c then d
      else d\<lparr>updates := kinsert key \<lparr>du_key = key, du_prev = prev, du_cid = c\<rparr> (updates d),
             removed_cids := cs_add prev (removed_cids d),
             new_leaf_cids := cs_add c (new_leaf_cids d)\<rparr>)"

definition leaf_delete :: "string \<Rightarrow> cid \<Rightarrow> data_diff \<Rightarrow> data_diff" where
  "leaf_delete key c d =
     (let d1 = d\<lparr>deletes := kinsert key \<lparr>dd_key = key, dd_cid = c\<rparr> (deletes d)\<rparr>
      in if cs_has c (new_leaf_cids d1) then d1\<lparr>new_leaf_cids := cs_delete c (new_leaf_cids d1)\<rparr>
         else d1\<lparr>removed_cids := cs_add c (removed_cids d1)\<rparr>)"

definition tree_add :: "cid \<Rightarrow> bytes \<Rightarrow> data_diff \<Rightarrow> data_diff" where
  "tree_add c b d =
     (if cs_has c (removed_cids d)
      then d\<lparr>removed_cids := cs_delete c (removed_cids d), removed_mst_blocks := cs_delete c (removed_mst_blocks d)\<rparr>
      else d\<lparr>new_mst_blocks := bm_set c b (new_mst_blocks d)\<rparr>)"

definition tree_delete :: "cid \<Rightarrow> data_diff \<Rightarrow> data_diff" where
  "tree_delete c d =
     (if bm_has c (new_mst_blocks d) then d\<lparr>new_mst_blocks := bm_delete c (new_mst_blocks d)\<rparr>
      else d\<lparr>removed_cids := cs_add c (removed_cids d), removed_mst_blocks := cs_add c (removed_mst_blocks d)\<rparr>)"

definition node_add :: "ext \<Rightarrow> blocks \<Rightarrow> nat \<Rightarrow> node_entry \<Rightarrow> data_diff \<Rightarrow> mst_error + data_diff" where
  "node_add X B w node d =
     (case node of
        LeafE k v \<Rightarrow> Inr (leaf_add k v d)
      | TreeE t \<Rightarrow> res_bind (mst_serialize X B w t) (\<lambda>(c, b). Inr (tree_add c b d)))"

definition node_delete :: "ext \<Rightarrow> blocks \<Rightarrow> nat \<Rightarrow> node_entry \<Rightarrow> data_diff \<Rightarrow> mst_error + data_diff" where
  "node_delete X B w node d =
     (case node of
        LeafE k v \<Rightarrow>
          Inr (d\<lparr>deletes := kinsert k \<lparr>dd_key = k, dd_cid = v\<rparr> (deletes d),
                 removed_cids := cs_add v (removed_cids d)\<rparr>)
      | TreeE t \<Rightarrow> res_bind (get_pointer X B w t) (\<lambda>c. Inr (tree_delete c d)))"

definition add_list :: "data_diff \<Rightarrow> data_add list" where
  "add_list d = map snd (adds d)"

definition update_list :: "data_diff \<Rightarrow> data_update list" where
  "update_list d = map snd (updates d)"

definition delete_list :: "data_diff \<Rightarrow> data_delete list" where
  "delete_list d = map snd (deletes d)"

section \<open>MstWalker\<close>

record walker_progress =
  wp_done :: bool
  wp_curr :: node_entry
  wp_walking :: "mst option"
  wp_index :: nat

datatype walker_status = WalkerDone bool | WalkerProgress walker_progress

record mst_walker =
  wk_stack :: "walker_status list"
  wk_status :: walker_status

definition walker_new :: "mst \<Rightarrow> mst_walker" where
  "walker_new root =
     \<lparr>wk_stack = [],
      wk_status = WalkerProgress \<lparr>wp_done = False, wp_curr = TreeE root, wp_walking = None, wp_index = 0\<rparr>\<rparr>"

definition walker_layer :: "mst_walker \<Rightarrow> mst_error + nat" where
  "walker_layer wk =
     (case wk_status wk of
        WalkerDone _ \<Rightarrow> Inl WalkIsDone
      | WalkerProgress p \<Rightarrow>
          (case wp_walking p of
             Some m \<Rightarrow> Inr (case layer m of Some l \<Rightarrow> l | None \<Rightarrow> 0)
           | None \<Rightarrow>
               (case wp_curr p of
                  TreeE m \<Rightarrow> Inr (u32_add1 (case layer m of Some l \<Rightarrow> l | None \<Rightarrow> 0))
                | LeafE _ _ \<Rightarrow> Inl UnknownLayer)))"

fun step_over_from :: "ext \<Rightarrow> blocks \<Rightarrow> walker_status list \<Rightarrow> walker_status \<Rightarrow> mst_error + mst_walker" where
  "step_over_from X B stack (WalkerDone b) = Inr \<lparr>wk_stack = stack, wk_status = WalkerDone b\<rparr>"
| "step_over_from X B stack (WalkerProgress p) =
     (case wp_walking p of
        Some m \<Rightarrow>
          res_bind (get_entries X B m) (\<lambda>es.
            let index = wp_index p + 1 in
            if index < length es then
              Inr \<lparr>wk_stack = stack, wk_status = WalkerProgress (p\<lparr>wp_index := index, wp_curr := es ! index\<rparr>)\<rparr>
            else
              (case stack of
                 popped # rest \<Rightarrow> step_over_from X B rest popped
               | [] \<Rightarrow> Inr \<lparr>wk_stack = [], wk_status = WalkerDone True\<rparr>))
      | None \<Rightarrow> Inr \<lparr>wk_stack = stack, wk_status = WalkerDone True\<rparr>)"

definition step_over :: "ext \<Rightarrow> blocks \<Rightarrow> mst_walker \<Rightarrow> mst_error + mst_walker" where
  "step_over X B wk = step_over_from X B (wk_stack wk) (wk_status wk)"

definition step_into :: "ext \<Rightarrow> blocks \<Rightarrow> mst_walker \<Rightarrow> mst_error + mst_walker" where
  "step_into X B wk =
     (case wk_status wk of
        WalkerDone _ \<Rightarrow> Inr wk
      | WalkerProgress p \<Rightarrow>
          if wp_walking p \<noteq> None then
            (case wp_curr p of
               TreeE cur \<Rightarrow>
                 res_bind (at_index X B cur 0) (\<lambda>next.
                   case next of
                     Some nx \<Rightarrow>
                       Inr \<lparr>wk_stack = WalkerProgress p # wk_stack wk,
                            wk_status = WalkerProgress (p\<lparr>wp_walking := Some cur, wp_curr := nx, wp_index := 0\<rparr>)\<rparr>
                   | None \<Rightarrow> Inl ZeroEntries)
             | LeafE _ _ \<Rightarrow> Inl NoTreeAtPointer)
          else
            (case wp_curr p of
               TreeE m \<Rightarrow>
                 res_bind (at_index X B m 0) (\<lambda>next.
                   case next of
                     Some nx \<Rightarrow>
                       Inr (wk\<lparr>wk_status := WalkerProgress \<lparr>wp_done = False, wp_curr = nx, wp_walking = Some m, wp_index = 0\<rparr>\<rparr>)
                   | None \<Rightarrow> Inr (wk\<lparr>wk_status := WalkerDone True\<rparr>))
             | LeafE _ _ \<Rightarrow> Inl RootIsLeaf))"

definition advance :: "ext \<Rightarrow> blocks \<Rightarrow> mst_walker \<Rightarrow> mst_error + mst_walker" where
  "advance X B wk =
     (case wk_status wk of
        WalkerDone _ \<Rightarrow> Inr wk
      | WalkerProgress p \<Rightarrow>
          (case wp_curr p of LeafE _ _ \<Rightarrow> step_over X B wk | TreeE _ \<Rightarrow> step_into X B wk))"

section \<open>mst_diff\<close>

definition null_diff :: "ext \<Rightarrow> blocks \<Rightarrow> nat \<Rightarrow> nat \<Rightarrow> mst \<Rightarrow> mst_error + data_diff" where
  "null_diff X B w n tree =
     res_bind (mst_walk X B n tree) (\<lambda>es. res_fold (node_add X B w) es diff_new)"

type_synonym diff_state = "mst_walker \<times> mst_walker \<times> data_diff"

text \<open>One turn of the loop when both cursors point at an entry.\<close>

definition diff_both ::
    "ext \<Rightarrow> blocks \<Rightarrow> nat \<Rightarrow> mst_walker \<Rightarrow> mst_walker \<Rightarrow> node_entry \<Rightarrow> node_entry \<Rightarrow> data_diff \<Rightarrow> mst_error + diff_state" where
  "diff_both X B w lw rw left right d =
     (case (left, right) of
        (LeafE lk lv, LeafE rk rv) \<Rightarrow>
          if lk = rk then
            (let d' = (if lv \<noteq> rv then leaf_update lk lv rv d else d)
             in res_bind (advance X B lw) (\<lambda>lw'. res_bind (advance X B rw) (\<lambda>rw'. Inr (lw', rw', d'))))
          else if lk < rk then res_bind (advance X B lw) (\<lambda>lw'. Inr (lw', rw, leaf_delete lk lv d))
          else res_bind (advance X B rw) (\<lambda>rw'. Inr (lw, rw', leaf_add rk rv d))
      | _ \<Rightarrow>
          res_bind (walker_layer lw) (\<lambda>ll.
          res_bind (walker_layer rw) (\<lambda>rl.
            if ll > rl then
              (if is_leaf left then
                 res_bind (node_add X B w right d) (\<lambda>d'. res_bind (advance X B rw) (\<lambda>rw'. Inr (lw, rw', d')))
               else
                 res_bind (node_delete X B w left d) (\<lambda>d'. res_bind (step_into X B lw) (\<lambda>lw'. Inr (lw', rw, d'))))
            else if ll < rl then
              (if is_leaf right then
                 res_bind (node_delete X B w left d) (\<lambda>d'. res_bind (advance X B lw) (\<lambda>lw'. Inr (lw', rw, d')))
               else
                 res_bind (node_add X B w right d) (\<lambda>d'. res_bind (step_into X B rw) (\<lambda>rw'. Inr (lw, rw', d'))))
            else
              (case (left, right) of
                 (TreeE lt, TreeE rt) \<Rightarrow>
                   res_bind (get_pointer X B w lt) (\<lambda>lp.
                   res_bind (get_pointer X B w rt) (\<lambda>rp.
                     if lp = rp then
                       res_bind (step_over X B lw) (\<lambda>lw'. res_bind (step_over X B rw) (\<lambda>rw'. Inr (lw', rw', d)))
                     else
                       res_bind (node_add X B w right d) (\<lambda>d1.
                       res_bind (node_delete X B w left d1) (\<lambda>d2.
                       res_bind (step_into X B lw) (\<lambda>lw'.
                       res_bind (step_into X B rw) (\<lambda>rw'. Inr (lw', rw', d2)))))))
               | (LeafE _ _, TreeE _) \<Rightarrow>
                   res_bind (node_add X B w right d) (\<lambda>d'. res_bind (step_into X B rw) (\<lambda>rw'. Inr (lw, rw', d')))
               | (TreeE _, LeafE _ _) \<Rightarrow>
                   res_bind (node_delete X B w left d) (\<lambda>d'. res_bind (step_into X B lw) (\<lambda>lw'. Inr (lw', rw, d')))
               | _ \<Rightarrow> Inl UnidentifiableCase))))"

fun diff_loop :: "ext \<Rightarrow> blocks \<Rightarrow> nat \<Rightarrow> nat \<Rightarrow> mst_walker \<Rightarrow> mst_walker \<Rightarrow> data_diff \<Rightarrow> mst_error + data_diff" where
  "diff_loop X B w 0 lw rw d = Inl OutOfFuel"
| "diff_loop X B w (Suc n) lw rw d =
     (case (wk_status lw, wk_status rw) of
        (WalkerDone _, WalkerDone _) \<Rightarrow> Inr d
      | (WalkerDone _, WalkerProgress r) \<Rightarrow>
          res_bind (node_add X B w (wp_curr r) d) (\<lambda>d'.
          res_bind (advance X B rw) (\<lambda>rw'. diff_loop X B w n lw rw' d'))
      | (WalkerProgress l, WalkerDone _) \<Rightarrow>
          res_bind (node_delete X B w (wp_curr l) d) (\<lambda>d'.
          res_bind (advance X B lw) (\<lambda>lw'. diff_loop X B w n lw' rw d'))
      | (WalkerProgress l, WalkerProgress r) \<Rightarrow>
          res_bind (diff_both X B w lw rw (wp_curr l) (wp_curr r) d) (\<lambda>(lw', rw', d').
            diff_loop X B w n lw' rw' d'))"

definition mst_diff :: "ext \<Rightarrow> blocks \<Rightarrow> nat \<Rightarrow> nat \<Rightarrow> mst \<Rightarrow> mst option \<Rightarrow> mst_error + data_diff" where
  "mst_diff X B w n cur prev =
     res_bind (get_pointer X B w cur) (\<lambda>_.
       case prev of
         Some p \<Rightarrow>
           res_bind (get_pointer X B w p) (\<lambda>_.
             diff_loop X B w n (walker_new p) (walker_new cur) diff_new)
       | None \<Rightarrow> null_diff X B w n cur)"

definition diff_of :: "ext \<Rightarrow> blocks \<Rightarrow> nat \<Rightarrow> nat \<Rightarrow> mst \<Rightarrow> mst option \<Rightarrow> mst_error + data_diff" where
  "diff_of X B w n cur prev = mst_diff X B w n cur prev"

end
