(* ===== verification/Mst_Integrity.thy ===== *)
theory Mst_Integrity
  imports Mst_Serial
begin

text \<open>
  A CID commits to the contents: if the hash of node data has no collisions, two nodes with
  the same CID have the same leaves. This is what lets the tree comparison step over
  subtrees with equal pointers.
\<close>

definition collision_free :: "ext \<Rightarrow> bool" where
  "collision_free X \<longleftrightarrow> char_engine X \<and> inj (x_cid X)"

lemma as_loaded_same: "as_loaded None e = as_loaded None f \<Longrightarrow> same_pointers e f"
  by (cases e; cases f) (auto simp: as_loaded_def mst_load_def)

lemma serialize_inj:
  assumes "char_engine X" "serialize_node_data X es = Inr d" "serialize_node_data X fs = Inr d"
  shows "list_all2 same_pointers es fs"
proof -
  have eq: "map (as_loaded None) es = map (as_loaded None) fs"
    using serialize_round_trip[OF assms(1,2), of None] serialize_round_trip[OF assms(1,3), of None] by simp
  then have len: "length es = length fs" by (rule map_eq_imp_length_eq)
  show ?thesis
    unfolding list_all2_conv_all_nth
    using len eq as_loaded_same by (metis nth_map)
qed

lemma res_map_list_all2: "res_map f xs = Inr ys \<Longrightarrow> list_all2 (\<lambda>x y. f x = Inr y) xs ys"
  by (induction xs arbitrary: ys) (auto simp: res_bind_eq_Inr_iff)

lemma cid_for_entries_inj:
  assumes "collision_free X" "cid_for_entries X es = Inr c" "cid_for_entries X fs = Inr c"
  shows "list_all2 same_pointers es fs"
proof -
  obtain d d' where "serialize_node_data X es = Inr d" "x_cid X d = c" "serialize_node_data X fs = Inr d'" "x_cid X d' = c"
    using assms(2,3) by (auto simp: cid_for_entries_def res_bind_eq_Inr_iff)
  then show ?thesis using serialize_inj assms(1) by (metis collision_free_def injD)
qed

lemma root_cid_Inr:
  assumes "root_cid X B (Suc n) t = Inr c"
  obtains es es' where "get_entries X B t = Inr es" "list_all2 (\<lambda>e e'. cid_entry X B n e = Inr e') es es'"
    "cid_for_entries X es' = Inr c"
proof -
  obtain es es' where "get_entries X B t = Inr es" "res_map (cid_entry X B n) es = Inr es'" "cid_for_entries X es' = Inr c"
    using assms unfolding root_cid_Suc by (auto simp: res_bind_eq_Inr_iff)
  then show ?thesis using that[of es es'] res_map_list_all2 by blast
qed

lemma eleaves_eqI:
  assumes "list_all2 (\<lambda>e f. eleaves X B n [e] = eleaves X B m [f]) es fs"
  shows "eleaves X B n es = eleaves X B m fs"
  using assms
proof (induction rule: list_all2_induct)
  case (Cons e es f fs)
  then show ?case by (simp add: eleaves_def)
qed simp

lemma cid_entry_same_leaves:
  assumes "cid_entry X B n e = Inr e'" "cid_entry X B m f = Inr f'" "same_pointers e' f'"
    and IH: "\<And>s u c. root_cid X B n s = Inr c \<Longrightarrow> root_cid X B m u = Inr c \<Longrightarrow> tleaves X B n s = tleaves X B m u"
  shows "eleaves X B n [e] = eleaves X B m [f]"
proof (cases e)
  case (LeafE k v)
  then have "f' = LeafE k v" using assms(1,3) by (auto simp: cid_entry_def)
  then have "f = LeafE k v" using assms(2) by (cases f) (auto simp: cid_entry_def res_bind_eq_Inr_iff)
  then show ?thesis using LeafE by simp
next
  case (TreeE s)
  then obtain p where p: "root_cid X B n s = Inr p" "e' = TreeE (set_pointer s p)"
    using assms(1) by (auto simp: cid_entry_def res_bind_eq_Inr_iff)
  then obtain u' where u': "f' = TreeE u'" "pointer u' = p" using assms(3) by (auto simp: same_pointers_TreeE)
  then obtain u where "f = TreeE u" "root_cid X B m u = Inr p"
    using assms(2) by (cases f) (auto simp: cid_entry_def res_bind_eq_Inr_iff)
  then show ?thesis using IH[OF p(1)] TreeE by simp
qed

theorem root_cid_binding:
  assumes X: "collision_free X"
  shows "root_cid X B n t = Inr c \<Longrightarrow> root_cid X B m u = Inr c \<Longrightarrow> tleaves X B n t = tleaves X B m u"
proof (induction n arbitrary: m t u c)
  case (Suc n)
  obtain m' where m: "m = Suc m'" using Suc.prems(2) by (cases m) auto
  obtain es es' where es: "get_entries X B t = Inr es" "list_all2 (\<lambda>e e'. cid_entry X B n e = Inr e') es es'"
    "cid_for_entries X es' = Inr c"
    using Suc.prems(1) by (rule root_cid_Inr)
  obtain fs fs' where fs: "get_entries X B u = Inr fs" "list_all2 (\<lambda>e e'. cid_entry X B m' e = Inr e') fs fs'"
    "cid_for_entries X fs' = Inr c"
    using Suc.prems(2) unfolding m by (rule root_cid_Inr)
  have "list_all2 same_pointers es' fs'" by (rule cid_for_entries_inj[OF X es(3) fs(3)])
  then have "list_all2 (\<lambda>e f. eleaves X B n [e] = eleaves X B m' [f]) es fs"
    using es(2) fs(2) Suc.IH cid_entry_same_leaves
    by (auto simp: list_all2_conv_all_nth)
  then have "eleaves X B n es = eleaves X B m' fs" by (rule eleaves_eqI)
  then show ?case using es(1) fs(1) by (simp add: m tleaves_Suc)
qed simp

end
