(* ===== verification/Mst_Diff_Correct.thy ===== *)
theory Mst_Diff_Correct
  imports Mst_Diff Mst_Integrity
begin

text \<open>
  Correctness of the tree comparison at the level of records: whatever layers the cursors
  believe they are on, the comparison ends and reports exactly the keys that were added,
  changed and removed. A cursor is described by the leaves it still has to visit.
\<close>

section \<open>Nodes a cursor may meet\<close>

definition good :: "ext \<Rightarrow> blocks \<Rightarrow> mst \<Rightarrow> bool" where
  "good X B s \<longleftrightarrow> (\<exists>L c. wf_mst X B L s \<and> L < mst_fuel \<and> root_cid X B (Suc L) s = Inr c)"

definition good_entry :: "ext \<Rightarrow> blocks \<Rightarrow> node_entry \<Rightarrow> bool" where
  "good_entry X B e = (case e of TreeE s \<Rightarrow> good X B s \<and> entries_of X B s \<noteq> [] | LeafE _ _ \<Rightarrow> True)"

definition cl :: "ext \<Rightarrow> blocks \<Rightarrow> node_entry list \<Rightarrow> leaf list" where
  "cl X B es = eleaves X B mst_fuel es"

definition cc :: "ext \<Rightarrow> blocks \<Rightarrow> node_entry list \<Rightarrow> nat" where
  "cc X B es = sum_list (map (cost X B mst_fuel) es)"

lemma cl_simps [simp]:
  "cl X B [] = []" "cl X B (es @ fs) = cl X B es @ cl X B fs" "cl X B (LeafE k v # es) = (k, v) # cl X B es"
  by (simp_all add: cl_def)

lemma cl_tree: "cl X B (TreeE s # es) = tleaves X B mst_fuel s @ cl X B es"
  by (simp add: cl_def)

lemma cl_Cons: "cl X B (e # es) = cl X B [e] @ cl X B es"
  by (cases e) (simp_all add: cl_tree)

lemma cc_simps [simp]: "cc X B [] = 0" "cc X B (e # es) = cost X B mst_fuel e + cc X B es" "cc X B (es @ fs) = cc X B es + cc X B fs"
  by (simp_all add: cc_def)

lemma tleaves_good:
  assumes "wf_mst X B L s" "L < mst_fuel"
  shows "tleaves X B mst_fuel s = tleaves X B (Suc L) s"
  using tleaves_fuel[OF assms] .

lemma bounded_upto: "bounded X B n e \<Longrightarrow> n \<le> m \<Longrightarrow> bounded X B m e"
  by (induction m) (auto simp: le_Suc_eq intro: bounded_mono)

lemma res_map_Inr_elem: "res_map f xs = Inr ys \<Longrightarrow> x \<in> set xs \<Longrightarrow> \<exists>y. f x = Inr y"
  by (induction xs arbitrary: ys) (auto simp: res_bind_eq_Inr_iff)

lemma good_E:
  assumes "good X B s"
  obtains es where "get_entries X B s = Inr es" "list_all (good_entry X B) es"
    "tleaves X B mst_fuel s = cl X B es" "cost X B mst_fuel (TreeE s) = 3 + cc X B es"
    "\<exists>c. get_pointer X B mst_fuel s = Inr c"
proof -
  obtain L c where L: "wf_mst X B L s" "L < mst_fuel" "root_cid X B (Suc L) s = Inr c"
    using assms by (auto simp: good_def)
  obtain es where es: "get_entries X B s = Inr es" "entries_ok X L (sub_ok X B L) es" using L(1) by (rule wf_mst_E)
  have bd: "bounded X B mst_fuel (TreeE s)" using bounded_upto[OF bounded_wf[OF L(1)]] L(2) by simp
  have sub: "e = TreeE u \<Longrightarrow> e \<in> set es \<Longrightarrow> \<exists>M. L = Suc M \<and> wf_mst X B M u \<and> entries_of X B u \<noteq> [] \<and> (\<exists>c. root_cid X B L u = Inr c)" for e u
  proof -
    assume e: "e = TreeE u" "e \<in> set es"
    have "sub_ok X B L u" using es(2) e by (auto simp: entries_ok_def list_all_iff)
    moreover obtain es' where "res_map (cid_entry X B L) es = Inr es'"
      using L(3) es(1) unfolding root_cid_Suc by (auto simp: res_bind_eq_Inr_iff)
    from res_map_Inr_elem[OF this e(2)] have "\<exists>c. root_cid X B L u = Inr c"
      using e(1) by (auto simp: cid_entry_def res_bind_eq_Inr_iff)
    ultimately show ?thesis by (auto elim!: sub_ok_E)
  qed
  have "good_entry X B e" if "e \<in> set es" for e
  proof (cases e)
    case (TreeE u)
    then obtain M c' where "L = Suc M" "wf_mst X B M u" "entries_of X B u \<noteq> []" "root_cid X B L u = Inr c'"
      using sub[OF TreeE \<open>e \<in> set es\<close>] by blast
    then show ?thesis using L(2) TreeE by (auto simp: good_entry_def good_def)
  qed (simp add: good_entry_def)
  then have ge: "list_all (good_entry X B) es" by (simp add: list_all_iff)
  have "eleaves X B L es = cl X B es"
  proof -
    have "eleaves X B L fs = cl X B fs" if "set fs \<subseteq> set es" for fs
      using that
    proof (induction fs)
      case (Cons e fs)
      show ?case
      proof (cases e)
        case (TreeE u)
        then obtain M where "L = Suc M" "wf_mst X B M u" using sub[of e u] Cons.prems by auto
        then show ?thesis using tleaves_good[of X B M u] L(2) Cons TreeE by (simp add: cl_tree)
      qed (use Cons in simp)
    qed simp
    then show ?thesis by simp
  qed
  then have lv: "tleaves X B mst_fuel s = cl X B es"
    using tleaves_good[OF L(1,2)] es(1) by (simp add: tleaves_Suc)
  have "cost X B mst_fuel (TreeE s) = 3 + cc X B es"
    using bounded_children(3)[OF bd] es(1) by (simp add: cc_def)
  moreover have "get_pointer X B mst_fuel s = Inr c" using get_pointer_ok[OF L(1,2)] L(3) by simp
  ultimately show ?thesis using that es(1) ge lv by blast
qed

lemma good_serialize:
  assumes "good X B s"
  shows "\<exists>r. mst_serialize X B mst_fuel s = Inr r"
proof -
  obtain L c where L: "wf_mst X B L s" "L < mst_fuel" "root_cid X B (Suc L) s = Inr c"
    using assms by (auto simp: good_def)
  obtain es where es: "get_entries X B s = Inr es" "entries_ok X L (sub_ok X B L) es" using L(1) by (rule wf_mst_E)
  have "refresh_entry X B mst_fuel e = cid_entry X B L e" if e: "e \<in> set es" for e
    using refresh_cid_entry[OF es(2) e, of mst_fuel] get_pointer_ok[of X B _ _ mst_fuel] L(2) by simp
  then have "res_map (refresh_entry X B mst_fuel) es = res_map (cid_entry X B L) es" by (intro res_map_cong) simp_all
  then show ?thesis
    using L(3) es(1) unfolding root_cid_Suc
    by (auto simp: mst_serialize_def res_bind_eq_Inr_iff cid_for_entries_def)
qed

lemma good_pointer_leaves:
  assumes X: "collision_free X" and "good X B s" "good X B u" "get_pointer X B mst_fuel s = get_pointer X B mst_fuel u"
  shows "tleaves X B mst_fuel s = tleaves X B mst_fuel u"
proof -
  obtain L c where L: "wf_mst X B L s" "L < mst_fuel" "root_cid X B (Suc L) s = Inr c"
    using assms(2) by (auto simp: good_def)
  obtain M c' where M: "wf_mst X B M u" "M < mst_fuel" "root_cid X B (Suc M) u = Inr c'"
    using assms(3) by (auto simp: good_def)
  have "c = c'" using assms(4) get_pointer_ok[OF L(1,2)] get_pointer_ok[OF M(1,2)] L(3) M(3) by simp
  then have "tleaves X B (Suc L) s = tleaves X B (Suc M) u" using root_cid_binding[OF X L(3)] M(3) by simp
  then show ?thesis using tleaves_good[OF L(1,2)] tleaves_good[OF M(1,2)] by simp
qed

section \<open>Cursors\<close>

text \<open>The entries a cursor still has in front of it, the current one first.\<close>

definition frame_after :: "ext \<Rightarrow> blocks \<Rightarrow> walker_status \<Rightarrow> node_entry list" where
  "frame_after X B st =
     (case st of
        WalkerDone _ \<Rightarrow> []
      | WalkerProgress p \<Rightarrow>
          (case wp_walking p of None \<Rightarrow> [] | Some m \<Rightarrow> drop (Suc (wp_index p)) (entries_of X B m)))"

definition upcoming :: "ext \<Rightarrow> blocks \<Rightarrow> mst_walker \<Rightarrow> node_entry list" where
  "upcoming X B w =
     (case wk_status w of
        WalkerDone _ \<Rightarrow> []
      | WalkerProgress p \<Rightarrow> wp_curr p # frame_after X B (wk_status w) @ concat (map (frame_after X B) (wk_stack w)))"

definition frame_ok :: "ext \<Rightarrow> blocks \<Rightarrow> walker_status \<Rightarrow> bool" where
  "frame_ok X B st \<longleftrightarrow>
     (\<exists>p m es. st = WalkerProgress p \<and> wp_walking p = Some m \<and> get_entries X B m = Inr es \<and>
        list_all (good_entry X B) es \<and> wp_index p < length es \<and> wp_curr p = es ! wp_index p)"

definition walker_ok :: "ext \<Rightarrow> blocks \<Rightarrow> mst_walker \<Rightarrow> bool" where
  "walker_ok X B w \<longleftrightarrow>
     list_all (frame_ok X B) (wk_stack w) \<and>
     (case wk_status w of
        WalkerDone _ \<Rightarrow> wk_stack w = []
      | WalkerProgress p \<Rightarrow>
          frame_ok X B (wk_status w) \<or>
          wk_stack w = [] \<and> wp_walking p = None \<and> (\<exists>s. wp_curr p = TreeE s \<and> good X B s))"

definition walker_at :: "ext \<Rightarrow> blocks \<Rightarrow> mst_walker \<Rightarrow> node_entry list \<Rightarrow> bool" where
  "walker_at X B w es \<longleftrightarrow> walker_ok X B w \<and> upcoming X B w = es"

lemma next_frame:
  assumes "wp_walking p = Some m" "get_entries X B m = Inr es" "list_all (good_entry X B) es"
    "Suc (wp_index p) < length es" "list_all (frame_ok X B) stack"
  shows "walker_at X B \<lparr>wk_stack = stack, wk_status = WalkerProgress (p\<lparr>wp_index := Suc (wp_index p), wp_curr := es ! Suc (wp_index p)\<rparr>)\<rparr>
    (frame_after X B (WalkerProgress p) @ concat (map (frame_after X B) stack))"
proof -
  let ?st = "WalkerProgress (p\<lparr>wp_index := Suc (wp_index p), wp_curr := es ! Suc (wp_index p)\<rparr>)"
  have "frame_ok X B ?st" using assms by (simp add: frame_ok_def)
  moreover have "frame_after X B (WalkerProgress p) = es ! Suc (wp_index p) # frame_after X B ?st"
    using assms by (simp add: frame_after_def Cons_nth_drop_Suc)
  ultimately show ?thesis using assms(5) by (simp add: walker_at_def walker_ok_def upcoming_def)
qed

lemma step_over_from_ok:
  assumes "frame_ok X B st" "list_all (frame_ok X B) stack"
  shows "\<exists>w'. step_over_from X B stack st = Inr w' \<and> walker_at X B w' (frame_after X B st @ concat (map (frame_after X B) stack))"
  using assms
proof (induction stack arbitrary: st)
  case Nil
  then obtain p m es where p: "st = WalkerProgress p" "wp_walking p = Some m" "get_entries X B m = Inr es"
    "list_all (good_entry X B) es" by (auto simp: frame_ok_def)
  show ?case
  proof (cases "Suc (wp_index p) < length es")
    case True
    then show ?thesis using p next_frame[OF p(2-4) True Nil(2)] by simp
  next
    case False
    then show ?thesis using p by (auto simp: walker_at_def walker_ok_def upcoming_def frame_after_def)
  qed
next
  case (Cons f stack)
  then obtain p m es where p: "st = WalkerProgress p" "wp_walking p = Some m" "get_entries X B m = Inr es"
    "list_all (good_entry X B) es" by (auto simp: frame_ok_def)
  show ?case
  proof (cases "Suc (wp_index p) < length es")
    case True
    then show ?thesis using p next_frame[OF p(2-4) True Cons.prems(2)] by simp
  next
    case False
    then have "frame_after X B st = []" using p by (simp add: frame_after_def)
    then show ?thesis using p False Cons.IH[of f] Cons.prems by simp
  qed
qed

lemma step_over_ok:
  assumes "walker_at X B w (e # es)"
  shows "\<exists>w'. step_over X B w = Inr w' \<and> walker_at X B w' es"
proof -
  obtain p where p: "wk_status w = WalkerProgress p"
    using assms by (cases "wk_status w") (auto simp: walker_at_def upcoming_def)
  show ?thesis
  proof (cases "frame_ok X B (wk_status w)")
    case True
    then show ?thesis
      using step_over_from_ok[OF True, of "wk_stack w"] assms p
      by (auto simp: step_over_def walker_at_def walker_ok_def upcoming_def)
  next
    case False
    then have "wk_stack w = []" "wp_walking p = None" "es = []"
      using assms p by (auto simp: walker_at_def walker_ok_def upcoming_def frame_after_def)
    then show ?thesis using p by (auto simp: step_over_def walker_at_def walker_ok_def upcoming_def)
  qed
qed

lemma at_index_0:
  "get_entries X B m = Inr es \<Longrightarrow> at_index X B m 0 = Inr (case es of [] \<Rightarrow> None | e # _ \<Rightarrow> Some e)"
  using at_index_at[of X B m "[]" es] by simp

lemma walker_at_good:
  assumes "walker_at X B w (TreeE s # es)"
  shows "good X B s"
  using assms
  by (auto simp: walker_at_def walker_ok_def upcoming_def frame_ok_def good_entry_def list_all_length
      split: walker_status.splits)

lemma step_into_ok:
  assumes at: "walker_at X B w (TreeE s # es)" and fs: "get_entries X B s = Inr fs" "list_all (good_entry X B) fs"
  shows "\<exists>w'. step_into X B w = Inr w' \<and> walker_at X B w' (fs @ es)"
proof -
  obtain p where p: "wk_status w = WalkerProgress p" "wp_curr p = TreeE s"
    using at by (cases "wk_status w") (auto simp: walker_at_def upcoming_def)
  show ?thesis
  proof (cases "frame_ok X B (wk_status w)")
    case True
    then obtain m gs where m: "wp_walking p = Some m" "get_entries X B m = Inr gs" "list_all (good_entry X B) gs"
      "wp_index p < length gs" "gs ! wp_index p = TreeE s" using p by (auto simp: frame_ok_def)
    then have "good_entry X B (TreeE s)" by (metis list_all_length)
    then obtain f fs' where "fs = f # fs'" using fs(1) by (cases fs) (auto simp: good_entry_def)
    then show ?thesis
      using at p m fs True
      by (auto simp: step_into_def at_index_0 walker_at_def walker_ok_def upcoming_def frame_after_def frame_ok_def)
  next
    case False
    then have "wk_stack w = []" "wp_walking p = None" "es = []"
      using at p by (auto simp: walker_at_def walker_ok_def upcoming_def frame_after_def)
    then show ?thesis
      using p fs
      by (cases fs) (auto simp: step_into_def at_index_0 walker_at_def walker_ok_def upcoming_def frame_after_def frame_ok_def)
  qed
qed

lemma walker_at_Nil: "walker_at X B w [] \<longleftrightarrow> (\<exists>b. wk_status w = WalkerDone b) \<and> wk_stack w = []"
  by (auto simp: walker_at_def walker_ok_def upcoming_def split: walker_status.splits)

lemma walker_at_Cons:
  "walker_at X B w (e # es) \<Longrightarrow> \<exists>p. wk_status w = WalkerProgress p \<and> wp_curr p = e"
  by (auto simp: walker_at_def upcoming_def split: walker_status.splits)

lemma walker_layer_ok:
  assumes "walker_at X B w (e # es)"
  shows "\<exists>l. walker_layer w = Inr l"
  using assms
  by (auto simp: walker_at_def walker_ok_def upcoming_def walker_layer_def frame_ok_def split: walker_status.splits)

lemma advance_leaf:
  "walker_at X B w (LeafE k v # es) \<Longrightarrow> \<exists>w'. advance X B w = Inr w' \<and> walker_at X B w' es"
  using walker_at_Cons[of X B w] step_over_ok[of X B w] by (fastforce simp: advance_def)

lemma advance_tree: "walker_at X B w (TreeE s # es) \<Longrightarrow> advance X B w = step_into X B w"
  using walker_at_Cons[of X B w] by (fastforce simp: advance_def)

lemma walker_new_at: "good X B t \<Longrightarrow> walker_at X B (walker_new t) [TreeE t]"
  by (simp add: walker_at_def walker_ok_def upcoming_def walker_new_def frame_after_def)

text \<open>Descending keeps the leaves and lowers the cost.\<close>

lemma descend:
  assumes "walker_at X B w (TreeE s # es)"
  obtains w' fs where "step_into X B w = Inr w'" "walker_at X B w' (fs @ es)"
    "cl X B (TreeE s # es) = cl X B (fs @ es)" "cc X B (TreeE s # es) = 3 + cc X B (fs @ es)"
proof -
  obtain fs where fs: "get_entries X B s = Inr fs" "list_all (good_entry X B) fs"
    "tleaves X B mst_fuel s = cl X B fs" "cost X B mst_fuel (TreeE s) = 3 + cc X B fs"
    using good_E[OF walker_at_good[OF assms]] by metis
  obtain w' where "step_into X B w = Inr w'" "walker_at X B w' (fs @ es)"
    using step_into_ok[OF assms fs(1,2)] by blast
  then show ?thesis using that fs(3,4) by (simp add: cl_tree)
qed

section \<open>What a comparison reports\<close>

text \<open>The changes between two maps, in the form the three tables of a \<open>DataDiff\<close> hold them.\<close>

definition adds_between :: "(string \<rightharpoonup> cid) \<Rightarrow> (string \<rightharpoonup> cid) \<Rightarrow> (string \<rightharpoonup> data_add)" where
  "adds_between l r k = (case (l k, r k) of (None, Some v) \<Rightarrow> Some \<lparr>da_key = k, da_cid = v\<rparr> | _ \<Rightarrow> None)"

definition updates_between :: "(string \<rightharpoonup> cid) \<Rightarrow> (string \<rightharpoonup> cid) \<Rightarrow> (string \<rightharpoonup> data_update)" where
  "updates_between l r k =
     (case (l k, r k) of
        (Some u, Some v) \<Rightarrow> if u = v then None else Some \<lparr>du_key = k, du_prev = u, du_cid = v\<rparr>
      | _ \<Rightarrow> None)"

definition deletes_between :: "(string \<rightharpoonup> cid) \<Rightarrow> (string \<rightharpoonup> cid) \<Rightarrow> (string \<rightharpoonup> data_delete)" where
  "deletes_between l r k = (case (l k, r k) of (Some v, None) \<Rightarrow> Some \<lparr>dd_key = k, dd_cid = v\<rparr> | _ \<Rightarrow> None)"

definition reports :: "data_diff \<Rightarrow> leaf list \<Rightarrow> leaf list \<Rightarrow> data_diff \<Rightarrow> bool" where
  "reports d ls rs d' \<longleftrightarrow>
     map_of (adds d') = map_of (adds d) ++ adds_between (map_of ls) (map_of rs) \<and>
     map_of (updates d') = map_of (updates d) ++ updates_between (map_of ls) (map_of rs) \<and>
     map_of (deletes d') = map_of (deletes d) ++ deletes_between (map_of ls) (map_of rs)"

definition same_changes :: "data_diff \<Rightarrow> data_diff \<Rightarrow> bool" where
  "same_changes d d' \<longleftrightarrow> adds d' = adds d \<and> updates d' = updates d \<and> deletes d' = deletes d"

lemmas between_defs = adds_between_def updates_between_def deletes_between_def

lemma reports_Nil: "reports d [] [] d"
  by (simp add: reports_def fun_eq_iff map_add_def between_defs)

lemma reports_same_changes: "same_changes d d1 \<Longrightarrow> reports d1 ls rs d' = reports d ls rs d'"
  by (simp add: reports_def same_changes_def)

lemma ksorted_head: "ksorted ((k, v) # xs) \<Longrightarrow> map_of xs k = None"
  by (auto simp: ksorted_Cons map_of_None_keys)

lemma ksorted_head_less: "ksorted ((k, v) # xs) \<Longrightarrow> j < k \<Longrightarrow> map_of ((k, v) # xs) j = None"
  by (auto simp: ksorted_Cons map_of_None_keys dest: order.strict_trans)

lemma reports_delete:
  assumes "reports d1 ls rs d'" "adds d1 = adds d" "updates d1 = updates d"
    "deletes d1 = kinsert k \<lparr>dd_key = k, dd_cid = v\<rparr> (deletes d)" "map_of ls k = None" "map_of rs k = None"
  shows "reports d ((k, v) # ls) rs d'"
  using assms by (auto simp: reports_def fun_eq_iff map_add_def between_defs map_of_kinsert split: option.splits)

lemma reports_add:
  assumes "reports d1 ls rs d'" "updates d1 = updates d" "deletes d1 = deletes d"
    "adds d1 = kinsert k \<lparr>da_key = k, da_cid = v\<rparr> (adds d)" "map_of ls k = None" "map_of rs k = None"
  shows "reports d ls ((k, v) # rs) d'"
  using assms by (auto simp: reports_def fun_eq_iff map_add_def between_defs map_of_kinsert split: option.splits)

lemma reports_update:
  assumes "reports d1 ls rs d'" "adds d1 = adds d" "deletes d1 = deletes d" "u \<noteq> v"
    "updates d1 = kinsert k \<lparr>du_key = k, du_prev = u, du_cid = v\<rparr> (updates d)" "map_of ls k = None" "map_of rs k = None"
  shows "reports d ((k, u) # ls) ((k, v) # rs) d'"
  using assms by (auto simp: reports_def fun_eq_iff map_add_def between_defs map_of_kinsert split: option.splits)

lemma reports_keep:
  assumes "reports d ls rs d'" "map_of ls k = None" "map_of rs k = None"
  shows "reports d ((k, v) # ls) ((k, v) # rs) d'"
  using assms by (auto simp: reports_def fun_eq_iff map_add_def between_defs split: option.splits)

lemma reports_common:
  assumes "reports d ls rs d'" "ksorted (xs @ ls)" "ksorted (xs @ rs)"
  shows "reports d (xs @ ls) (xs @ rs) d'"
  using assms(2,3)
proof (induction xs)
  case (Cons p xs)
  then show ?case
    using reports_keep[of d "xs @ ls" "xs @ rs" d' "fst p" "snd p"] ksorted_head[of "fst p" "snd p"]
    by (simp add: ksorted_Cons del: map_of_append)
qed (use assms(1) in simp)

lemma tree_add_same: "same_changes d (tree_add c b d)"
  by (simp add: same_changes_def tree_add_def)

lemma tree_delete_same: "same_changes d (tree_delete c d)"
  by (simp add: same_changes_def tree_delete_def)

lemma node_add_tree: "good X B s \<Longrightarrow> \<exists>d'. node_add X B mst_fuel (TreeE s) d = Inr d' \<and> same_changes d d'"
  using good_serialize[of X B s] tree_add_same by (fastforce simp: node_add_def)

lemma node_delete_tree: "good X B s \<Longrightarrow> \<exists>d'. node_delete X B mst_fuel (TreeE s) d = Inr d' \<and> same_changes d d'"
  using good_E[of X B s] tree_delete_same by (fastforce simp: node_delete_def)

section \<open>The comparison as a step relation\<close>

text \<open>
  What one turn of the loop does to the entries in front of the two cursors and to the
  difference. A step into a subtree replaces it by its entries; equal subtrees are stepped over.
\<close>

definition drop_leaf :: "string \<Rightarrow> cid \<Rightarrow> data_diff \<Rightarrow> data_diff" where
  "drop_leaf k v d = d\<lparr>deletes := kinsert k \<lparr>dd_key = k, dd_cid = v\<rparr> (deletes d), removed_cids := cs_add v (removed_cids d)\<rparr>"

type_synonym diff_conf = "node_entry list \<times> node_entry list \<times> data_diff"

inductive diff_step :: "ext \<Rightarrow> blocks \<Rightarrow> diff_conf \<Rightarrow> diff_conf \<Rightarrow> bool" for X B where
  keep: "diff_step X B (LeafE k v # es, LeafE k v # fs, d) (es, fs, d)"
| change: "u \<noteq> v \<Longrightarrow> diff_step X B (LeafE k u # es, LeafE k v # fs, d) (es, fs, leaf_update k u v d)"
| remove: "k < j \<Longrightarrow> diff_step X B (LeafE k u # es, LeafE j v # fs, d) (es, LeafE j v # fs, leaf_delete k u d)"
| insert: "j < k \<Longrightarrow> diff_step X B (LeafE k u # es, LeafE j v # fs, d) (LeafE k u # es, fs, leaf_add j v d)"
| remove_end: "diff_step X B (LeafE k u # es, [], d) (es, [], drop_leaf k u d)"
| insert_end: "diff_step X B ([], LeafE j v # fs, d) ([], fs, leaf_add j v d)"
| into_old: "good X B s \<Longrightarrow> get_entries X B s = Inr gs \<Longrightarrow> get_pointer X B mst_fuel s = Inr c \<Longrightarrow>
    diff_step X B (TreeE s # es, fs, d) (gs @ es, fs, tree_delete c d)"
| into_new: "good X B s \<Longrightarrow> get_entries X B s = Inr gs \<Longrightarrow> mst_serialize X B mst_fuel s = Inr (c, b) \<Longrightarrow>
    diff_step X B (es, TreeE s # fs, d) (es, gs @ fs, tree_add c b d)"
| skip: "good X B s \<Longrightarrow> good X B u \<Longrightarrow> get_pointer X B mst_fuel s = get_pointer X B mst_fuel u \<Longrightarrow>
    diff_step X B (TreeE s # es, TreeE u # fs, d) (es, fs, d)"

abbreviation diff_steps :: "ext \<Rightarrow> blocks \<Rightarrow> diff_conf \<Rightarrow> diff_conf \<Rightarrow> bool" where
  "diff_steps X B \<equiv> (diff_step X B)\<^sup>*\<^sup>*"

section \<open>The loop takes such steps\<close>

definition turn_ok ::
    "ext \<Rightarrow> blocks \<Rightarrow> node_entry list \<Rightarrow> node_entry list \<Rightarrow> data_diff \<Rightarrow> mst_error + diff_state \<Rightarrow> bool" where
  "turn_ok X B es fs d r \<longleftrightarrow>
     (\<exists>lw rw d1 es' fs'. r = Inr (lw, rw, d1) \<and> walker_at X B lw es' \<and> walker_at X B rw fs' \<and>
        cc X B es' + cc X B fs' < cc X B es + cc X B fs \<and> diff_steps X B (es, fs, d) (es', fs', d1))"

lemma turn_okI:
  assumes "walker_at X B lw es'" "walker_at X B rw fs'" "cc X B es' + cc X B fs' < cc X B es + cc X B fs"
    "diff_steps X B (es, fs, d) (es', fs', d1)"
  shows "turn_ok X B es fs d (Inr (lw, rw, d1))"
  unfolding turn_ok_def using assms by blast

lemma cost_leaf: "cost X B n (LeafE k v) > 0"
  by (cases n) simp_all

lemma leaf_turn:
  assumes l: "walker_at X B lw (LeafE lk lv # es)" and r: "walker_at X B rw (LeafE rk rv # fs)"
  shows "turn_ok X B (LeafE lk lv # es) (LeafE rk rv # fs) d (diff_both X B w lw rw (LeafE lk lv) (LeafE rk rv) d)"
proof -
  obtain lw' rw' where lw: "advance X B lw = Inr lw'" "walker_at X B lw' es" and rw: "advance X B rw = Inr rw'" "walker_at X B rw' fs"
    using advance_leaf[OF l] advance_leaf[OF r] by blast
  note cost_leaf[of X B mst_fuel lk lv] cost_leaf[of X B mst_fuel rk rv]
  then have c: "cc X B es < cc X B (LeafE lk lv # es)" "cc X B fs < cc X B (LeafE rk rv # fs)" by simp_all
  consider "lk = rk" "lv = rv" | "lk = rk" "lv \<noteq> rv" | "lk < rk" | "rk < lk" by fastforce
  then show ?thesis
  proof cases
    case 1
    then show ?thesis using lw rw c by (simp add: diff_both_def) (rule turn_okI, auto intro: diff_step.intros)
  next
    case 2
    then show ?thesis using lw rw c by (simp add: diff_both_def) (rule turn_okI, auto intro: diff_step.intros)
  next
    case 3
    then have "lk \<noteq> rk" by simp
    then have "diff_both X B w lw rw (LeafE lk lv) (LeafE rk rv) d = Inr (lw', rw, leaf_delete lk lv d)"
      using 3 lw by (simp add: diff_both_def)
    then show ?thesis using lw r c 3 by simp (rule turn_okI, auto intro: diff_step.intros)
  next
    case 4
    then have "lk \<noteq> rk" "\<not> lk < rk" by auto
    then have "diff_both X B w lw rw (LeafE lk lv) (LeafE rk rv) d = Inr (lw, rw', leaf_add rk rv d)"
      using 4 rw by (simp add: diff_both_def)
    then show ?thesis using l rw c 4 by simp (rule turn_okI, auto intro: diff_step.intros)
  qed
qed

text \<open>The parts of a subtree that a step into it uses.\<close>

lemma descend_old:
  assumes "walker_at X B w (TreeE s # es)"
  obtains w' gs c where "node_delete X B mst_fuel (TreeE s) d = Inr (tree_delete c d)" "step_into X B w = Inr w'"
    "walker_at X B w' (gs @ es)" "cc X B (TreeE s # es) = 3 + cc X B (gs @ es)"
    "\<And>fs d. diff_step X B (TreeE s # es, fs, d) (gs @ es, fs, tree_delete c d)"
proof -
  have g: "good X B s" by (rule walker_at_good[OF assms])
  obtain gs c where gs: "get_entries X B s = Inr gs" "list_all (good_entry X B) gs"
    "cost X B mst_fuel (TreeE s) = 3 + cc X B gs" "get_pointer X B mst_fuel s = Inr c"
    using good_E[OF g] by metis
  obtain w' where w': "step_into X B w = Inr w'" "walker_at X B w' (gs @ es)" using step_into_ok[OF assms gs(1,2)] by blast
  show ?thesis
    by (rule that[OF _ w' _ diff_step.into_old[OF g gs(1,4)]]) (simp_all add: gs(3,4) node_delete_def)
qed

lemma descend_new:
  assumes "walker_at X B w (TreeE s # fs)"
  obtains w' gs c b where "node_add X B mst_fuel (TreeE s) d = Inr (tree_add c b d)" "step_into X B w = Inr w'"
    "walker_at X B w' (gs @ fs)" "cc X B (TreeE s # fs) = 3 + cc X B (gs @ fs)"
    "\<And>es d. diff_step X B (es, TreeE s # fs, d) (es, gs @ fs, tree_add c b d)"
proof -
  have g: "good X B s" by (rule walker_at_good[OF assms])
  obtain gs where gs: "get_entries X B s = Inr gs" "list_all (good_entry X B) gs"
    "cost X B mst_fuel (TreeE s) = 3 + cc X B gs"
    using good_E[OF g] by metis
  obtain c b where ser: "mst_serialize X B mst_fuel s = Inr (c, b)" using good_serialize[OF g] by auto
  obtain w' where w': "step_into X B w = Inr w'" "walker_at X B w' (gs @ fs)" using step_into_ok[OF assms gs(1,2)] by blast
  show ?thesis
    by (rule that[OF _ w' _ diff_step.into_new[OF g gs(1) ser]]) (simp_all add: gs(3) ser node_add_def)
qed

lemma into_left:
  assumes l: "walker_at X B lw (TreeE s # es)" and r: "walker_at X B rw fs"
  shows "turn_ok X B (TreeE s # es) fs d
    (res_bind (node_delete X B mst_fuel (TreeE s) d) (\<lambda>d'. res_bind (step_into X B lw) (\<lambda>lw'. Inr (lw', rw, d'))))"
proof -
  obtain lw' gs c where g: "node_delete X B mst_fuel (TreeE s) d = Inr (tree_delete c d)" "step_into X B lw = Inr lw'"
    "walker_at X B lw' (gs @ es)" "cc X B (TreeE s # es) = 3 + cc X B (gs @ es)"
    "\<And>fs d. diff_step X B (TreeE s # es, fs, d) (gs @ es, fs, tree_delete c d)" by (rule descend_old[OF l, of d]) blast
  have "turn_ok X B (TreeE s # es) fs d (Inr (lw', rw, tree_delete c d))"
    by (rule turn_okI[OF g(3) r _ r_into_rtranclp[of "diff_step X B", OF g(5)]]) (simp only: g(4))
  then show ?thesis using g(1,2) by simp
qed

lemma into_right:
  assumes l: "walker_at X B lw es" and r: "walker_at X B rw (TreeE s # fs)"
  shows "turn_ok X B es (TreeE s # fs) d
    (res_bind (node_add X B mst_fuel (TreeE s) d) (\<lambda>d'. res_bind (step_into X B rw) (\<lambda>rw'. Inr (lw, rw', d'))))"
proof -
  obtain rw' gs c b where g: "node_add X B mst_fuel (TreeE s) d = Inr (tree_add c b d)" "step_into X B rw = Inr rw'"
    "walker_at X B rw' (gs @ fs)" "cc X B (TreeE s # fs) = 3 + cc X B (gs @ fs)"
    "\<And>es d. diff_step X B (es, TreeE s # fs, d) (es, gs @ fs, tree_add c b d)" by (rule descend_new[OF r, of d]) blast
  have "turn_ok X B es (TreeE s # fs) d (Inr (lw, rw', tree_add c b d))"
    by (rule turn_okI[OF l g(3) _ r_into_rtranclp[of "diff_step X B", OF g(5)]]) (simp only: g(4))
  then show ?thesis using g(1,2) by simp
qed

lemma into_both:
  assumes l: "walker_at X B lw (TreeE s # es)" and r: "walker_at X B rw (TreeE u # fs)"
  shows "turn_ok X B (TreeE s # es) (TreeE u # fs) d
    (res_bind (node_add X B mst_fuel (TreeE u) d) (\<lambda>d1.
     res_bind (node_delete X B mst_fuel (TreeE s) d1) (\<lambda>d2.
     res_bind (step_into X B lw) (\<lambda>lw'. res_bind (step_into X B rw) (\<lambda>rw'. Inr (lw', rw', d2))))))"
proof -
  obtain rw' hs c b where h: "node_add X B mst_fuel (TreeE u) d = Inr (tree_add c b d)" "step_into X B rw = Inr rw'"
    "walker_at X B rw' (hs @ fs)" "cc X B (TreeE u # fs) = 3 + cc X B (hs @ fs)"
    "\<And>es d. diff_step X B (es, TreeE u # fs, d) (es, hs @ fs, tree_add c b d)" by (rule descend_new[OF r, of d]) blast
  obtain lw' gs c' where g: "node_delete X B mst_fuel (TreeE s) (tree_add c b d) = Inr (tree_delete c' (tree_add c b d))"
    "step_into X B lw = Inr lw'" "walker_at X B lw' (gs @ es)" "cc X B (TreeE s # es) = 3 + cc X B (gs @ es)"
    "\<And>fs d. diff_step X B (TreeE s # es, fs, d) (gs @ es, fs, tree_delete c' d)"
    by (rule descend_old[OF l, of "tree_add c b d"]) blast
  have "diff_steps X B (TreeE s # es, TreeE u # fs, d) (gs @ es, hs @ fs, tree_delete c' (tree_add c b d))"
    using h(5) g(5) by (meson converse_rtranclp_into_rtranclp r_into_rtranclp)
  then have "turn_ok X B (TreeE s # es) (TreeE u # fs) d (Inr (lw', rw', tree_delete c' (tree_add c b d)))"
    by (rule turn_okI[OF g(3) h(3), rotated]) (simp only: g(4) h(4))
  then show ?thesis using g(1,2) h(1,2) by simp
qed

lemma over_both:
  assumes l: "walker_at X B lw (TreeE s # es)" and r: "walker_at X B rw (TreeE u # fs)"
    and eq: "get_pointer X B mst_fuel s = get_pointer X B mst_fuel u"
  shows "turn_ok X B (TreeE s # es) (TreeE u # fs) d
    (res_bind (step_over X B lw) (\<lambda>lw'. res_bind (step_over X B rw) (\<lambda>rw'. Inr (lw', rw', d))))"
proof -
  obtain lw' rw' where w: "step_over X B lw = Inr lw'" "walker_at X B lw' es" "step_over X B rw = Inr rw'" "walker_at X B rw' fs"
    using step_over_ok[OF l] step_over_ok[OF r] by blast
  have pos: "cost X B mst_fuel (TreeE s) > 0" using good_E[OF walker_at_good[OF l]] by (metis add_gr_0 zero_less_numeral)
  have "turn_ok X B (TreeE s # es) (TreeE u # fs) d (Inr (lw', rw', d))"
    using pos diff_step.skip[OF walker_at_good[OF l] walker_at_good[OF r] eq]
    by (intro turn_okI[OF w(2,4)]) (auto simp del: cost.simps)
  then show ?thesis using w by simp
qed

lemma both_turn:
  assumes l: "walker_at X B lw (e # es)" and r: "walker_at X B rw (f # fs)"
  shows "turn_ok X B (e # es) (f # fs) d (diff_both X B mst_fuel lw rw e f d)"
proof -
  obtain ll rl where ly: "walker_layer lw = Inr ll" "walker_layer rw = Inr rl"
    using walker_layer_ok[OF l] walker_layer_ok[OF r] by blast
  show ?thesis
  proof (cases e; cases f)
    fix lk lv rk rv
    assume ef: "e = LeafE lk lv" "f = LeafE rk rv"
    show ?thesis using leaf_turn l r unfolding ef by blast
  next
    fix lk lv u
    assume ef: "e = LeafE lk lv" "f = TreeE u"
    show ?thesis
      using into_right[OF l r[unfolded ef]] advance_tree[OF r[unfolded ef]] ly
      unfolding ef diff_both_def by (simp add: is_leaf_def)
  next
    fix s rk rv
    assume ef: "e = TreeE s" "f = LeafE rk rv"
    show ?thesis
      using into_left[OF l[unfolded ef] r] advance_tree[OF l[unfolded ef]] ly
      unfolding ef diff_both_def by (simp add: is_leaf_def)
  next
    fix s u
    assume ef: "e = TreeE s" "f = TreeE u"
    note args = l[unfolded ef] r[unfolded ef]
    obtain lp rp where "get_pointer X B mst_fuel s = Inr lp" "get_pointer X B mst_fuel u = Inr rp"
      using good_E[OF walker_at_good[OF args(1)]] good_E[OF walker_at_good[OF args(2)]] by metis
    then show ?thesis
      using into_left[OF args] into_right[OF args] into_both[OF args] over_both[OF args] ly
      unfolding ef diff_both_def by (simp add: is_leaf_def)
  qed
qed

text \<open>Once one tree is exhausted, the rest of the other is reported entry by entry.\<close>

lemma left_turn:
  assumes l: "walker_at X B lw (e # es)" and r: "walker_at X B rw []"
  shows "turn_ok X B (e # es) [] d
    (res_bind (node_delete X B mst_fuel e d) (\<lambda>d'. res_bind (advance X B lw) (\<lambda>lw'. Inr (lw', rw, d'))))"
proof (cases e)
  case (TreeE s)
  then show ?thesis using into_left[of X B lw s es rw "[]" d] advance_tree[of X B lw s es] assms by simp
next
  case (LeafE k v)
  obtain lw' where lw: "advance X B lw = Inr lw'" "walker_at X B lw' es" using advance_leaf l LeafE by blast
  have "turn_ok X B (e # es) [] d (Inr (lw', rw, drop_leaf k v d))"
    using cost_leaf[of X B mst_fuel k v] LeafE by (intro turn_okI[OF lw(2) r]) (auto intro: diff_step.intros)
  then show ?thesis using lw(1) LeafE by (simp add: node_delete_def drop_leaf_def)
qed

lemma right_turn:
  assumes l: "walker_at X B lw []" and r: "walker_at X B rw (f # fs)"
  shows "turn_ok X B [] (f # fs) d
    (res_bind (node_add X B mst_fuel f d) (\<lambda>d'. res_bind (advance X B rw) (\<lambda>rw'. Inr (lw, rw', d'))))"
proof (cases f)
  case (TreeE s)
  then show ?thesis using into_right[of X B lw "[]" rw s fs d] advance_tree[of X B rw s fs] assms by simp
next
  case (LeafE k v)
  obtain rw' where rw: "advance X B rw = Inr rw'" "walker_at X B rw' fs" using advance_leaf r LeafE by blast
  have "turn_ok X B [] (f # fs) d (Inr (lw, rw', leaf_add k v d))"
    using cost_leaf[of X B mst_fuel k v] LeafE by (intro turn_okI[OF l rw(2)]) (auto intro: diff_step.intros)
  then show ?thesis using rw(1) LeafE by (simp add: node_add_def)
qed

lemma diff_loop_turn:
  assumes "turn_ok X B es fs d r"
    and IH: "\<And>lw rw es' fs' d1. cc X B es' + cc X B fs' < cc X B es + cc X B fs \<Longrightarrow> walker_at X B lw es' \<Longrightarrow>
      walker_at X B rw fs' \<Longrightarrow> \<exists>d'. diff_loop X B mst_fuel n lw rw d1 = Inr d' \<and> diff_steps X B (es', fs', d1) ([], [], d')"
  shows "\<exists>d'. res_bind r (\<lambda>(lw, rw, d1). diff_loop X B mst_fuel n lw rw d1) = Inr d' \<and> diff_steps X B (es, fs, d) ([], [], d')"
proof -
  obtain lw rw d1 es' fs' where r: "r = Inr (lw, rw, d1)" "walker_at X B lw es'" "walker_at X B rw fs'"
    "cc X B es' + cc X B fs' < cc X B es + cc X B fs" "diff_steps X B (es, fs, d) (es', fs', d1)"
    using assms(1) unfolding turn_ok_def by blast
  obtain d' where "diff_loop X B mst_fuel n lw rw d1 = Inr d'" "diff_steps X B (es', fs', d1) ([], [], d')"
    using IH[OF r(4,2,3)] by blast
  then show ?thesis using r(1,5) by (auto intro: rtranclp_trans)
qed

lemma diff_loop_ok:
  "walker_at X B lw es \<Longrightarrow> walker_at X B rw fs \<Longrightarrow> cc X B es + cc X B fs < n \<Longrightarrow>
    \<exists>d'. diff_loop X B mst_fuel n lw rw d = Inr d' \<and> diff_steps X B (es, fs, d) ([], [], d')"
proof (induction n arbitrary: es fs lw rw d)
  case (Suc n)
  have IH: "\<exists>d'. diff_loop X B mst_fuel n lw' rw' d1 = Inr d' \<and> diff_steps X B (es', fs', d1) ([], [], d')"
    if "cc X B es' + cc X B fs' < cc X B es + cc X B fs" "walker_at X B lw' es'" "walker_at X B rw' fs'" for lw' rw' es' fs' d1
    using Suc.IH[OF that(2,3)] that(1) Suc.prems(3) by simp
  show ?case
  proof (cases es; cases fs)
    assume "es = []" "fs = []"
    then show ?thesis using Suc.prems(1,2) by (auto simp: walker_at_Nil)
  next
    fix f fs'
    assume e: "es = []" "fs = f # fs'"
    obtain p b where "wk_status rw = WalkerProgress p" "wp_curr p = f" "wk_status lw = WalkerDone b"
      using Suc.prems(1,2) walker_at_Cons[of X B rw f fs'] by (auto simp: e walker_at_Nil)
    then show ?thesis
      using diff_loop_turn[OF right_turn[of X B lw rw f fs' d] IH] Suc.prems unfolding e
      by (cases "node_add X B mst_fuel f d"; cases "advance X B rw") auto
  next
    fix e' es'
    assume e: "es = e' # es'" "fs = []"
    obtain p b where "wk_status lw = WalkerProgress p" "wp_curr p = e'" "wk_status rw = WalkerDone b"
      using Suc.prems(1,2) walker_at_Cons[of X B lw e' es'] by (auto simp: e walker_at_Nil)
    then show ?thesis
      using diff_loop_turn[OF left_turn[of X B lw e' es' rw d] IH] Suc.prems unfolding e
      by (cases "node_delete X B mst_fuel e' d"; cases "advance X B lw") auto
  next
    fix e' es' f fs'
    assume e: "es = e' # es'" "fs = f # fs'"
    obtain p q where "wk_status lw = WalkerProgress p" "wp_curr p = e'" "wk_status rw = WalkerProgress q" "wp_curr q = f"
      using walker_at_Cons Suc.prems(1,2) unfolding e by metis
    then show ?thesis
      using diff_loop_turn[OF both_turn[of X B lw e' es' rw f fs' d] IH] Suc.prems unfolding e by simp
  qed
qed simp

section \<open>What the steps report\<close>

lemma good_cl: "good X B s \<Longrightarrow> get_entries X B s = Inr gs \<Longrightarrow> cl X B (TreeE s # es) = cl X B (gs @ es)"
  by (rule good_E[of X B s]) (auto simp: cl_tree)

lemma diff_step_reports:
  assumes X: "collision_free X" and step: "diff_step X B s s'"
  shows "ksorted (cl X B (fst s)) \<Longrightarrow> ksorted (cl X B (fst (snd s))) \<Longrightarrow>
    reports (snd (snd s')) (cl X B (fst s')) (cl X B (fst (snd s'))) d' \<Longrightarrow>
    reports (snd (snd s)) (cl X B (fst s)) (cl X B (fst (snd s))) d'"
  using step
proof (induction rule: diff_step.induct)
  case (keep k v es fs d)
  then show ?case by (auto intro!: reports_keep dest: ksorted_head)
next
  case (change u v k es fs d)
  then show ?case by (auto intro!: reports_update simp: leaf_update_def dest: ksorted_head)
next
  case (remove k j u es v fs d)
  then show ?case
    using ksorted_head_less[of j v "cl X B fs" k]
    by (auto intro!: reports_delete[of "leaf_delete k u d"] simp: leaf_delete_def Let_def dest: ksorted_head)
next
  case (insert j k u es v fs d)
  then show ?case
    using ksorted_head_less[of k u "cl X B es" j]
    by (auto intro!: reports_add[of "leaf_add j v d"] simp: leaf_add_def Let_def dest: ksorted_head)
next
  case (remove_end k u es d)
  then show ?case by (auto intro!: reports_delete[of "drop_leaf k u d"] simp: drop_leaf_def dest: ksorted_head)
next
  case (insert_end j v fs d)
  then show ?case by (auto intro!: reports_add[of "leaf_add j v d"] simp: leaf_add_def Let_def dest: ksorted_head)
next
  case (into_old s gs c es fs d)
  then show ?case using good_cl[of X B s gs es] reports_same_changes[OF tree_delete_same] by simp
next
  case (into_new s gs c b es fs d)
  then show ?case using good_cl[of X B s gs fs] reports_same_changes[OF tree_add_same] by simp
next
  case (skip s u es fs d)
  have "tleaves X B mst_fuel s = tleaves X B mst_fuel u" using skip(1-3) by (rule good_pointer_leaves[OF X])
  with skip(4-6) show ?case
    using reports_common[of d "cl X B es" "cl X B fs" d' "tleaves X B mst_fuel u"]
    by (simp only: cl_tree fst_conv snd_conv)
qed

lemma diff_step_sorted:
  assumes "diff_step X B (es, fs, d) (es', fs', d1)" "ksorted (cl X B es)" "ksorted (cl X B fs)"
  shows "ksorted (cl X B es') \<and> ksorted (cl X B fs')"
  using assms
  by cases (auto simp: ksorted_Cons ksorted_append cl_tree elim!: good_E)

lemma diff_steps_report:
  assumes X: "collision_free X" and "diff_steps X B (es, fs, d) ([], [], d')"
  shows "ksorted (cl X B es) \<Longrightarrow> ksorted (cl X B fs) \<Longrightarrow> reports d (cl X B es) (cl X B fs) d'"
  using assms(2)
proof (induction "(es, fs, d)" arbitrary: es fs d rule: converse_rtranclp_induct)
  case base
  then show ?case by (simp add: reports_Nil)
next
  case (step z)
  obtain es1 fs1 d1 where z: "z = (es1, fs1, d1)" by (cases z)
  show ?case
    using step(1) step(3)[OF z] diff_step_sorted[of X B es fs d es1 fs1 d1] diff_step_reports[OF X, of B "(es, fs, d)" "(es1, fs1, d1)" d'] step.prems
    unfolding z by simp
qed

end
