(* ===== verification/Diff_Properties.thy ===== *)
theory Diff_Properties
  imports Mst_Diff_Correct Mst_Properties
begin

text \<open>
  The theorems about the tree comparison: it ends, and its tables of added, changed and removed
  keys are exactly the difference of the contents of the two trees. The CID sets it collects
  beside them are not always disjoint, which the last theorem shows.
\<close>

section \<open>An instance without collisions\<close>

text \<open>A prefix-free rendering of node data: two different nodes never get the same text.\<close>

fun enc_str :: "string \<Rightarrow> string" where
  "enc_str [] = ''z''"
| "enc_str (c # s) = CHR ''a'' # c # enc_str s"

fun enc_opt :: "string option \<Rightarrow> string" where
  "enc_opt None = ''n''"
| "enc_opt (Some s) = CHR ''s'' # enc_str s"

definition enc_byte :: "8 word \<Rightarrow> char" where
  "enc_byte w = char_of (unat w)"

definition enc_entry :: "tree_entry \<Rightarrow> string" where
  "enc_entry te = enc_byte (te_p te) # enc_str (te_k te) @ enc_str (te_v te) @ enc_opt (te_t te)"

fun enc_entries :: "tree_entry list \<Rightarrow> string" where
  "enc_entries [] = ''z''"
| "enc_entries (te # tes) = CHR ''e'' # enc_entry te @ enc_entries tes"

definition enc_node :: "node_data \<Rightarrow> string" where
  "enc_node d = enc_opt (nd_l d) @ enc_entries (nd_e d)"

lemma enc_str_inj: "enc_str s @ r = enc_str s' @ r' \<longleftrightarrow> s = s' \<and> r = r'"
proof (induction s arbitrary: s')
  case Nil
  show ?case by (cases s') auto
next
  case (Cons c s)
  then show ?case by (cases s') auto
qed

lemma enc_opt_inj: "enc_opt x @ r = enc_opt x' @ r' \<longleftrightarrow> x = x' \<and> r = r'"
  by (cases x; cases x') (auto simp: enc_str_inj)

lemma enc_byte_inj: "enc_byte a = enc_byte b \<longleftrightarrow> a = b"
proof
  assume "enc_byte a = enc_byte b"
  then have "(of_char (enc_byte a) :: nat) = of_char (enc_byte b)" by simp
  then have "unat a mod 256 = unat b mod 256" by (simp add: enc_byte_def)
  moreover have "unat w < 256" for w :: "8 word" using unsigned_less[of w, where ?'a = nat] by simp
  ultimately show "a = b" by (simp add: unsigned_word_eqI)
qed simp

lemma enc_entry_inj: "enc_entry a @ r = enc_entry b @ r' \<longleftrightarrow> a = b \<and> r = r'"
  by (cases a; cases b) (auto simp: enc_entry_def enc_byte_inj enc_str_inj enc_opt_inj)

lemma enc_entries_inj: "enc_entries es = enc_entries fs \<longleftrightarrow> es = fs"
proof (induction es arbitrary: fs)
  case Nil
  show ?case by (cases fs) auto
next
  case (Cons e es)
  then show ?case by (cases fs) (auto simp: enc_entry_inj)
qed

lemma enc_node_inj: "inj enc_node"
proof (rule injI)
  fix a b assume "enc_node a = enc_node b"
  then show "a = b"
    by (cases a; cases b) (auto simp: enc_node_def enc_opt_inj enc_entries_inj)
qed

text \<open>The reader of this text.\<close>

fun dec_str :: "string \<Rightarrow> (string \<times> string) option" where
  "dec_str (t # r) =
     (if t = CHR ''z'' then Some ([], r)
      else if t = CHR ''a'' then (case r of [] \<Rightarrow> None | c # r' \<Rightarrow> map_option (\<lambda>(s, q). (c # s, q)) (dec_str r'))
      else None)"
| "dec_str [] = None"

definition dec_opt :: "string \<Rightarrow> (string option \<times> string) option" where
  "dec_opt r =
     (case r of
        [] \<Rightarrow> None
      | t # q \<Rightarrow> if t = CHR ''n'' then Some (None, q) else map_option (\<lambda>(s, q'). (Some s, q')) (dec_str q))"

definition dec_entry :: "string \<Rightarrow> (tree_entry \<times> string) option" where
  "dec_entry r =
     (case r of
        [] \<Rightarrow> None
      | p # r1 \<Rightarrow>
          Option.bind (dec_str r1) (\<lambda>(k, r2).
          Option.bind (dec_str r2) (\<lambda>(v, r3).
          Option.bind (dec_opt r3) (\<lambda>(t, r4).
            Some (\<lparr>te_p = of_char p, te_k = k, te_v = v, te_t = t\<rparr>, r4)))))"

fun dec_entries :: "nat \<Rightarrow> string \<Rightarrow> tree_entry list option" where
  "dec_entries 0 r = None"
| "dec_entries (Suc n) r =
     (case r of
        [] \<Rightarrow> None
      | t # q \<Rightarrow>
          if t = CHR ''z'' then Some []
          else Option.bind (dec_entry q) (\<lambda>(te, q'). map_option (Cons te) (dec_entries n q')))"

definition dec_node :: "string \<Rightarrow> node_data option" where
  "dec_node r =
     Option.bind (dec_opt r) (\<lambda>(l, q). map_option (\<lambda>es. \<lparr>nd_l = l, nd_e = es\<rparr>) (dec_entries (length q) q))"

lemma dec_enc_str: "dec_str (enc_str s @ r) = Some (s, r)"
  by (induction s) simp_all

lemma dec_enc_opt: "dec_opt (enc_opt x @ r) = Some (x, r)"
  by (cases x) (simp_all add: dec_opt_def dec_enc_str)

lemma dec_enc_entry: "dec_entry (enc_entry te @ r) = Some (te, r)"
proof -
  have "(of_char (enc_byte p) :: 8 word) = p" for p
  proof -
    have "unat p < 256" using unsigned_less[of p, where ?'a = nat] by simp
    then have "(of_char (enc_byte p) :: nat) = unat p" by (simp add: enc_byte_def)
    then have "(of_nat (of_char (enc_byte p)) :: 8 word) = p" by simp
    then show ?thesis by (simp only: of_nat_of_char)
  qed
  then show ?thesis by (simp add: dec_entry_def enc_entry_def dec_enc_str dec_enc_opt)
qed

lemma dec_enc_entries: "n \<ge> length (enc_entries tes) \<Longrightarrow> dec_entries n (enc_entries tes) = Some tes"
proof (induction tes arbitrary: n)
  case Nil
  then show ?case by (cases n) simp_all
next
  case (Cons te tes)
  obtain m where m: "n = Suc m" using Cons.prems by (cases n) auto
  then have "length (enc_entries tes) \<le> m" using Cons.prems by simp
  then show ?case using Cons.IH m by (simp add: dec_enc_entry)
qed

lemma dec_enc_node: "dec_node (enc_node d) = Some d"
  by (simp add: dec_node_def enc_node_def dec_enc_opt dec_enc_entries)

definition inj_ext :: ext where
  "inj_ext = demo_ext\<lparr>x_cid := enc_node, x_enc := (\<lambda>d. map of_char (enc_node d)), x_dec := (\<lambda>b. dec_node (map enc_byte b))\<rparr>"

lemma inj_codec: "x_dec inj_ext (x_enc inj_ext d) = Some d"
proof -
  have "enc_byte (of_char c) = c" for c
  proof -
    have "(of_char c :: nat) < 256" using of_char_of[of "of_char c :: nat"] by (metis char_of_char mod_less_divisor zero_less_numeral)
    then have "unat (of_nat (of_char c) :: 8 word) = of_char c" by (simp only: unat_of_nat) simp
    then show ?thesis unfolding enc_byte_def by (simp only: of_nat_of_char char_of_char)
  qed
  then show ?thesis by (simp add: inj_ext_def comp_def dec_enc_node)
qed

lemma inj_collision_free: "collision_free inj_ext"
  using demo_engine enc_node_inj by (simp add: collision_free_def inj_ext_def char_engine_def demo_ext_def)

lemma inj_sha_ok: "sha256_ok inj_ext"
  using demo_sha_ok by (simp add: sha256_ok_def inj_ext_def)

lemma inj_demo [simp]:
  "leading_zeros_on_hash inj_ext k = leading_zeros_on_hash demo_ext k"
  "is_valid_repo_mst_path inj_ext k = is_valid_repo_mst_path demo_ext k"
  by (simp_all add: leading_zeros_on_hash_def is_valid_repo_mst_path_def is_valid_chars_def inj_ext_def)

definition one_leaf :: "string \<Rightarrow> cid \<Rightarrow> mst" where
  "one_leaf k v = MST (Some [LeafE k v]) (Some 0) ''x'' True"

lemma one_leaf_ok:
  assumes "k = ''c/0'' \<or> k = ''d/0''"
  shows "mst_inv inj_ext B (one_leaf k v)" "mst_contents inj_ext B (one_leaf k v) = [(k, v)]"
    "\<exists>c. get_pointer inj_ext B mst_fuel (one_leaf k v) = Inr c"
proof -
  have wf: "wf_mst inj_ext B 0 (one_leaf k v)"
    using assms by (intro wf_mst_I[where es = "[LeafE k v]"]) (auto simp: one_leaf_def entries_ok_Cons demo_zeros demo_valid)
  have lv: "tleaves inj_ext B (Suc 0) (one_leaf k v) = [(k, v)]"
    by (simp add: tleaves_Suc one_leaf_def entries_of_def)
  show "mst_inv inj_ext B (one_leaf k v)" "mst_contents inj_ext B (one_leaf k v) = [(k, v)]"
    using mst_inv_I[OF inj_sha_ok wf _ lv] by (simp_all add: mst_fuel_def ksorted_Cons)
  show "\<exists>c. get_pointer inj_ext B mst_fuel (one_leaf k v) = Inr c"
    using assms
    by (auto simp: mst_fuel_def one_leaf_def serialize_node_data_def ser_entry_def ensure_valid_mst_key_def demo_valid)
qed

section \<open>What changed\<close>

lemma mst_inv_good:
  assumes "mst_inv X B t" "get_pointer X B mst_fuel t = Inr c"
  shows "good X B t"
proof -
  obtain L where L: "wf_mst X B L t" "L < mst_fuel" using assms(1) by (rule mst_inv_E)
  moreover have "root_cid X B (Suc L) t = Inr c" using get_pointer_ok[OF L] assms(2) by metis
  ultimately show ?thesis unfolding good_def by blast
qed

definition good_node :: "ext \<Rightarrow> blocks \<Rightarrow> node_entry \<Rightarrow> bool" where
  "good_node X B e = (case e of TreeE s \<Rightarrow> good X B s | LeafE _ _ \<Rightarrow> True)"

lemma nodes_good: "good_node X B e \<Longrightarrow> list_all (good_node X B) (nodes X B n e)"
proof (induction X B n e rule: nodes.induct)
  case (3 X B n t)
  have t: "good X B t" using 3(2) by (simp add: good_node_def)
  obtain es where es: "get_entries X B t = Inr es" "list_all (good_entry X B) es" using good_E[OF t] by metis
  have "good_node X B e" if "e \<in> set es" for e
    using es(2) that by (auto simp: list_all_iff good_entry_def good_node_def split: node_entry.splits)
  then show ?case using 3 t es by (auto simp: list_all_iff good_node_def[of X B "TreeE t"])
qed (simp_all add: good_node_def)

lemma null_diff_fold:
  assumes "list_all (good_node X B) es" "ksorted (leaf_entries es)"
  shows "\<exists>d'. res_fold (node_add X B mst_fuel) es d = Inr d' \<and> reports d [] (leaf_entries es) d'"
  using assms
proof (induction es arbitrary: d)
  case (Cons e es)
  show ?case
  proof (cases e)
    case (TreeE s)
    then obtain d1 where "node_add X B mst_fuel e d = Inr d1" "same_changes d d1"
      using node_add_tree[of X B s d] Cons.prems by (auto simp: good_node_def)
    then show ?thesis using Cons.IH[of d1] Cons.prems TreeE by (simp add: reports_same_changes)
  next
    case (LeafE k v)
    then have k: "map_of (leaf_entries es) k = None" using Cons.prems by (auto intro: ksorted_head)
    obtain d' where "res_fold (node_add X B mst_fuel) es (leaf_add k v d) = Inr d'"
      "reports (leaf_add k v d) [] (leaf_entries es) d'"
      using Cons.IH[of "leaf_add k v d"] Cons.prems LeafE by (auto simp: ksorted_Cons)
    moreover have "reports d [] ((k, v) # leaf_entries es) d'"
      by (rule reports_add[OF calculation(2)]) (use k in \<open>simp_all add: leaf_add_def Let_def\<close>)
    moreover have "node_add X B mst_fuel e d = Inr (leaf_add k v d)" by (simp add: LeafE node_add_def)
    ultimately show ?thesis using LeafE by auto
  qed
qed (simp add: reports_Nil)

definition contents_before :: "ext \<Rightarrow> blocks \<Rightarrow> mst option \<Rightarrow> (string \<rightharpoonup> cid)" where
  "contents_before X B prev = (case prev of None \<Rightarrow> Map.empty | Some p \<Rightarrow> map_of (mst_contents X B p))"

definition comparable :: "ext \<Rightarrow> blocks \<Rightarrow> mst \<Rightarrow> bool" where
  "comparable X B t \<longleftrightarrow> mst_inv X B t \<and> is_ok (get_pointer X B mst_fuel t)"

lemma reports_new:
  "reports diff_new ls rs d \<longleftrightarrow>
     map_of (adds d) = adds_between (map_of ls) (map_of rs) \<and>
     map_of (updates d) = updates_between (map_of ls) (map_of rs) \<and>
     map_of (deletes d) = deletes_between (map_of ls) (map_of rs)"
  by (simp add: reports_def diff_new_def)

lemma diff_against:
  assumes "collision_free X" "comparable X B cur" "comparable X B p"
  shows "\<exists>N. \<forall>n\<ge>N. \<exists>d. mst_diff X B mst_fuel n cur (Some p) = Inr d \<and>
    reports diff_new (mst_contents X B p) (mst_contents X B cur) d"
proof -
  have g: "good X B cur" "good X B p" using assms(2,3) mst_inv_good by (auto simp: comparable_def is_ok_iff)
  have cl: "cl X B [TreeE t] = mst_contents X B t" for t by (simp add: cl_tree mst_contents_def)
  have "ksorted (mst_contents X B cur)" "ksorted (mst_contents X B p)"
    using assms(2,3) by (auto simp: comparable_def elim: mst_inv_E)
  note report = diff_steps_report[OF assms(1), of B "[TreeE p]" "[TreeE cur]", unfolded cl, OF _ this(2,1)]
  note loop = diff_loop_ok[OF walker_new_at[OF g(2)] walker_new_at[OF g(1)]]
  let ?N = "Suc (cc X B [TreeE p] + cc X B [TreeE cur])"
  have "\<exists>d. mst_diff X B mst_fuel n cur (Some p) = Inr d \<and> reports diff_new (mst_contents X B p) (mst_contents X B cur) d"
    if "n \<ge> ?N" for n
    using loop[of n diff_new] report that assms(2,3) by (auto simp: mst_diff_def comparable_def is_ok_iff)
  then show ?thesis by blast
qed

lemma diff_against_nothing:
  assumes "comparable X B cur"
  shows "\<exists>N. \<forall>n\<ge>N. \<exists>d. mst_diff X B mst_fuel n cur None = Inr d \<and> reports diff_new [] (mst_contents X B cur) d"
proof -
  have inv: "mst_inv X B cur" using assms by (simp add: comparable_def)
  obtain L where L: "wf_mst X B L cur" "ksorted (mst_contents X B cur)" "tleaves X B (Suc L) cur = mst_contents X B cur"
    using inv by (rule mst_inv_E)
  have b: "bounded X B (Suc L) (TreeE cur)" by (rule bounded_wf[OF L(1)])
  let ?ns = "nodes X B (Suc L) (TreeE cur)"
  have lv: "leaf_entries ?ns = mst_contents X B cur" using leaf_entries_nodes[of X B "Suc L" "TreeE cur"] L(3) by simp
  have "good_node X B (TreeE cur)"
    using assms mst_inv_good by (auto simp: comparable_def is_ok_iff good_node_def)
  then have "list_all (good_node X B) ?ns" by (rule nodes_good)
  then obtain d where d: "res_fold (node_add X B mst_fuel) ?ns diff_new = Inr d" "reports diff_new [] (mst_contents X B cur) d"
    using null_diff_fold[of X B ?ns diff_new] L(2) unfolding lv by auto
  have "mst_diff X B mst_fuel n cur None = Inr d" if "n \<ge> cost X B (Suc L) (TreeE cur) + 2" for n
    using mst_walk_ok[OF b, of n] that assms d(1)
    by (auto simp: mst_diff_def null_diff_def comparable_def is_ok_iff)
  then show ?thesis using d(2) by blast
qed

text \<open>C38. When node CIDs do not collide, \<open>DataDiff::of\<close> on two trees that satisfy the invariant ends,
  and the additions, updates and deletions it reports are exactly the difference of the two sets of
  records: nothing is missed where it skips subtrees with equal pointers, and nothing is reported
  twice. Without an earlier tree, every record is an addition.\<close>

theorem mst_diff_reports_exactly:
  assumes "collision_free X" "comparable X B cur" "\<And>p. prev = Some p \<Longrightarrow> comparable X B p"
  shows "\<exists>N. \<forall>n\<ge>N. \<exists>d. diff_of X B mst_fuel n cur prev = Inr d \<and>
    map_of (adds d) = adds_between (contents_before X B prev) (map_of (mst_contents X B cur)) \<and>
    map_of (updates d) = updates_between (contents_before X B prev) (map_of (mst_contents X B cur)) \<and>
    map_of (deletes d) = deletes_between (contents_before X B prev) (map_of (mst_contents X B cur))"
  using diff_against[OF assms(1,2)] diff_against_nothing[OF assms(2)] assms(3)
  by (cases prev) (simp_all add: diff_of_def contents_before_def reports_new)

theorem mst_diff_reports_exactly_witness:
  "\<exists>N. \<forall>n\<ge>N. \<exists>d. diff_of inj_ext Map.empty mst_fuel n (one_leaf ''c/0'' ''w'') (Some (one_leaf ''d/0'' ''v'')) = Inr d \<and>
    map_of (adds d) = [''c/0'' \<mapsto> \<lparr>da_key = ''c/0'', da_cid = ''w''\<rparr>] \<and> map_of (updates d) = Map.empty \<and>
    map_of (deletes d) = [''d/0'' \<mapsto> \<lparr>dd_key = ''d/0'', dd_cid = ''v''\<rparr>]"
proof -
  have "comparable inj_ext Map.empty (one_leaf ''c/0'' ''w'')" "comparable inj_ext Map.empty (one_leaf ''d/0'' ''v'')"
    using one_leaf_ok by (auto simp: comparable_def is_ok_iff)
  moreover have "adds_between [''d/0'' \<mapsto> ''v''] [''c/0'' \<mapsto> ''w''] = [''c/0'' \<mapsto> \<lparr>da_key = ''c/0'', da_cid = ''w''\<rparr>]"
    "updates_between [''d/0'' \<mapsto> ''v''] [''c/0'' \<mapsto> ''w''] = Map.empty"
    "deletes_between [''d/0'' \<mapsto> ''v''] [''c/0'' \<mapsto> ''w''] = [''d/0'' \<mapsto> \<lparr>dd_key = ''d/0'', dd_cid = ''v''\<rparr>]"
    by (auto simp: fun_eq_iff between_defs)
  ultimately show ?thesis
    using mst_diff_reports_exactly[OF inj_collision_free, of Map.empty "one_leaf ''c/0'' ''w''" "Some (one_leaf ''d/0'' ''v'')"]
      one_leaf_ok(2)
    by (simp add: contents_before_def)
qed

section \<open>A record that moves\<close>

text \<open>A record moved from key \<open>b\<close> to a smaller key \<open>a\<close> leaves the CID of its block in both
  \<open>new_leaf_cids\<close> and \<open>removed_cids\<close>: past the end of the new tree, \<open>node_delete\<close> adds the CID of a leaf to
  \<open>removed_cids\<close> without the check that \<open>leaf_delete\<close> makes.\<close>

theorem moved_record_is_new_and_removed:
  assumes "is_valid_repo_mst_path X a" "a < b" "p \<noteq> q" "x \<noteq> q"
  shows "\<exists>d. \<forall>n\<ge>4. diff_of X B mst_fuel n (MST (Some [LeafE a x]) (Some l) p False) (Some (MST (Some [LeafE b x]) (Some l) q False)) = Inr d \<and>
    cs_has x (new_leaf_cids d) \<and> cs_has x (removed_cids d)"
proof -
  let ?c = "MST (Some [LeafE a x]) (Some l) p False" and ?p = "MST (Some [LeafE b x]) (Some l) q False"
  obtain c bs where ser: "mst_serialize X B mst_fuel ?c = Inr (c, bs)"
    using assms(1) by (simp add: mst_serialize_def refresh_entry_def serialize_node_data_def ser_entry_def ensure_valid_mst_key_def)
  have ab: "b \<noteq> a" "\<not> b < a" using assms(2) by auto
  let ?d1 = "tree_delete q (tree_add c bs diff_new)"
  let ?d2 = "leaf_add a x ?d1"
  let ?d = "?d2\<lparr>deletes := kinsert b \<lparr>dd_key = b, dd_cid = x\<rparr> (deletes ?d2), removed_cids := cs_add x (removed_cids ?d2)\<rparr>"
  have "diff_of X B mst_fuel n ?c (Some ?p) = Inr ?d" if four: "n \<ge> 4" for n
  proof -
    obtain m where n: "n = Suc (Suc (Suc (Suc m)))" using le_Suc_ex[OF four] by (auto simp: numeral_eq_Suc)
    have gp: "get_pointer X B mst_fuel ?c = Inr p" "get_pointer X B mst_fuel ?p = Inr q" by (simp_all add: mst_fuel_def)
    show ?thesis
      using assms(3) ab unfolding n diff_of_def mst_diff_def
      by (simp add: gp ser walker_new_def diff_both_def walker_layer_def node_add_def node_delete_def step_into_def
          at_index_0 advance_def step_over_def del: get_pointer.simps)
  qed
  moreover have "cs_has x (new_leaf_cids ?d)" "cs_has x (removed_cids ?d)"
    using assms(4)
    by (simp_all add: cs_has_def leaf_add_def tree_add_def tree_delete_def diff_new_def cs_new_def Let_def)
  ultimately show ?thesis by blast
qed

theorem moved_record_is_new_and_removed_witness:
  "\<exists>d. \<forall>n\<ge>4. diff_of demo_ext Map.empty mst_fuel n (MST (Some [LeafE ''c/0'' ''v'']) (Some 0) ''p'' False)
      (Some (MST (Some [LeafE ''d/0'' ''v'']) (Some 0) ''q'' False)) = Inr d \<and>
    cs_has ''v'' (new_leaf_cids d) \<and> cs_has ''v'' (removed_cids d)"
  by (rule moved_record_is_new_and_removed) (simp_all add: demo_valid less_char_def)

end
