(* ===== verification/Captures.thy ===== *)
theory Captures
  imports Prelude
begin

text \<open>
  Regular expressions with capture groups, as \<open>Regex::captures\<close> reads them. The engine is not part
  of the repository; it is a parameter \<open>caps\<close> of the definitions that call it. The documented
  meaning, leftmost-first with greedy repetition, is the backtracking matcher \<open>cmatch\<close>: it tries
  alternatives from left to right and longer repetitions first and gives up an attempt when what
  follows does not match. All patterns here are anchored at both ends.
\<close>

datatype crx =
    CEmpty
  | CChar "char \<Rightarrow> bool"
  | CMany "char \<Rightarrow> bool"
  | CSeq crx crx
  | CAlt crx crx
  | CGroup nat crx

definition COpt :: "crx \<Rightarrow> crx" where
  "COpt r = CAlt r CEmpty"

definition CSome :: "(char \<Rightarrow> bool) \<Rightarrow> crx" where
  "CSome p = CSeq (CChar p) (CMany p)"

definition COnly :: "char \<Rightarrow> crx" where
  "COnly c = CChar (\<lambda>x. x = c)"

primrec CText :: "string \<Rightarrow> crx" where
  "CText [] = CEmpty"
| "CText (c # cs) = CSeq (COnly c) (CText cs)"

text \<open>The same text in either case.\<close>

primrec CTextI :: "string \<Rightarrow> crx" where
  "CTextI [] = CEmpty"
| "CTextI (c # cs) = CSeq (CChar (\<lambda>x. to_ascii_lowercase x = c)) (CTextI cs)"

type_synonym captured = "(nat \<times> string) list"

fun cmany :: "(char \<Rightarrow> bool) \<Rightarrow> string \<Rightarrow> (string \<Rightarrow> captured option) \<Rightarrow> captured option" where
  "cmany p [] k = k []"
| "cmany p (c # s) k =
     (if p c then (case cmany p s k of Some r \<Rightarrow> Some r | None \<Rightarrow> k (c # s)) else k (c # s))"

primrec cmatch :: "crx \<Rightarrow> string \<Rightarrow> (string \<Rightarrow> captured option) \<Rightarrow> captured option" where
  "cmatch CEmpty s k = k s"
| "cmatch (CChar p) s k = (case s of [] \<Rightarrow> None | c # t \<Rightarrow> if p c then k t else None)"
| "cmatch (CMany p) s k = cmany p s k"
| "cmatch (CSeq a b) s k = cmatch a s (\<lambda>t. cmatch b t k)"
| "cmatch (CAlt a b) s k = (case cmatch a s k of Some r \<Rightarrow> Some r | None \<Rightarrow> cmatch b s k)"
| "cmatch (CGroup i a) s k =
     cmatch a s (\<lambda>t. map_option (\<lambda>cs. (i, take (length s - length t) s) # cs) (k t))"

text \<open>The groups 1 to \<open>n\<close> of the first match of the whole string; a group that took no part is empty.\<close>

definition group_text :: "captured \<Rightarrow> nat \<Rightarrow> string" where
  "group_text cs i = (case map_of cs i of None \<Rightarrow> [] | Some t \<Rightarrow> t)"

definition captures :: "crx \<Rightarrow> string \<Rightarrow> captured option" where
  "captures r s = cmatch r s (\<lambda>t. if t = [] then Some [] else None)"

locale capture_engine =
  fixes caps :: "crx \<Rightarrow> string \<Rightarrow> captured option"
  assumes caps_eq: "caps r s = captures r s"

interpretation backtracking: capture_engine captures
  by unfold_locales simp

section \<open>How attempts succeed and fail\<close>

lemma cmany_longest:
  assumes "list_all p xs" "ys = [] \<or> \<not> p (hd ys)" "k ys = Some r"
  shows "cmany p (xs @ ys) k = Some r"
  using assms(1)
proof (induction xs)
  case Nil
  then show ?case using assms(2,3) by (cases ys) auto
qed simp

lemma cmany_none:
  assumes "\<And>t. length t \<le> length s \<Longrightarrow> (\<exists>u. s = u @ t \<and> list_all p u) \<Longrightarrow> k t = None"
  shows "cmany p s k = None"
  using assms
proof (induction s)
  case (Cons c s)
  have "k (c # s) = None" by (rule Cons.prems) (auto intro!: exI[of _ "[]"])
  moreover have "cmany p s k = None" if "p c"
  proof (rule Cons.IH)
    fix t assume t: "length t \<le> length s" "\<exists>u. s = u @ t \<and> list_all p u"
    then obtain u where "s = u @ t" "list_all p u" by blast
    then show "k t = None" using t(1) that by (intro Cons.prems) (auto intro!: exI[of _ "c # u"])
  qed
  ultimately show ?case by simp
qed simp

lemma cmatch_COpt: "cmatch (COpt a) s k = (case cmatch a s k of Some r \<Rightarrow> Some r | None \<Rightarrow> k s)"
  by (simp add: COpt_def split: option.split)

lemma cmatch_COnly: "cmatch (COnly c) s k = (case s of [] \<Rightarrow> None | x # t \<Rightarrow> if x = c then k t else None)"
  by (simp add: COnly_def)

lemma cmatch_CText: "cmatch (CText w) (w @ s) k = k s"
  by (induction w) (simp_all add: cmatch_COnly)

lemma cmatch_CTextI:
  "cmatch (CTextI w) s k =
     (if length w \<le> length s \<and> map to_ascii_lowercase (take (length w) s) = w then k (drop (length w) s) else None)"
  by (induction w arbitrary: s) (auto split: list.splits)

lemma cmatch_CSome:
  "cmatch (CSome p) s k = (case s of [] \<Rightarrow> None | c # t \<Rightarrow> if p c then cmany p t k else None)"
  by (simp add: CSome_def)

lemma cmatch_CSome_longest:
  assumes "xs \<noteq> []" "list_all p xs" "ys = [] \<or> \<not> p (hd ys)" "k ys = Some r"
  shows "cmatch (CSome p) (xs @ ys) k = Some r"
proof -
  obtain x xs' where "xs = x # xs'" using assms(1) by (cases xs) auto
  then show ?thesis using assms cmany_longest[of p xs' ys k r] by (simp add: cmatch_CSome)
qed

end
