(* ===== verification/Syntax_AtUri.thy ===== *)
theory Syntax_AtUri
  imports Captures Syntax_Did Syntax_Handle Syntax_Nsid Syntax_Keys
begin

text \<open>
  \<open>rsky-syntax/src/aturi.rs\<close> and \<open>aturi_validation.rs\<close>: parsing, printing and editing of \<open>at://\<close>
  URIs, and the two validators.

  The \<open>url\<close> crate splits and joins query strings; it is not part of the repository. \<open>qp\<close> stands for
  the pairs that \<open>Url::parse\<close> and \<open>query_pairs\<close> read from a query, \<open>qs\<close> for the query that
  \<open>Url::parse_with_params\<close> writes. Character classes are those of ASCII: the definitions describe
  the code on ASCII text.
\<close>

section \<open>Patterns\<close>

definition uri_did_char :: "char \<Rightarrow> bool" where
  "uri_did_char c \<longleftrightarrow> is_ascii_alphanumeric c \<or> c \<in> {CHR '':'', CHR ''%'', CHR ''-''}"

definition uri_host_char :: "char \<Rightarrow> bool" where
  "uri_host_char c \<longleftrightarrow> is_ascii_alphanumeric c \<or> c \<in> {CHR ''.'', CHR '':'', CHR ''-''}"

definition is_space :: "char \<Rightarrow> bool" where
  "is_space c \<longleftrightarrow> (of_char c :: nat) \<in> {9, 10, 11, 12, 13, 32}"

definition uri_path_char :: "char \<Rightarrow> bool" where
  "uri_path_char c \<longleftrightarrow> c \<noteq> CHR ''?'' \<and> c \<noteq> CHR ''#'' \<and> \<not> is_space c"

definition uri_query_char :: "char \<Rightarrow> bool" where
  "uri_query_char c \<longleftrightarrow> c \<noteq> CHR ''#'' \<and> \<not> is_space c"

definition uri_hash_char :: "char \<Rightarrow> bool" where
  "uri_hash_char c \<longleftrightarrow> \<not> is_space c"

text \<open>Path, query and hash, numbered from group \<open>i\<close>.\<close>

definition uri_rest_re :: "nat \<Rightarrow> crx" where
  "uri_rest_re i =
     CSeq (COpt (CGroup i (CSeq (COnly CHR ''/'') (CMany uri_path_char))))
      (CSeq (COpt (CGroup (i + 1) (CSeq (COnly CHR ''?'') (CSome uri_query_char))))
        (COpt (CGroup (i + 2) (CSeq (COnly CHR ''#'') (CSome uri_hash_char)))))"

definition uri_authority_re :: crx where
  "uri_authority_re =
     CAlt (CSeq (CTextI ''did:'') (CSome uri_did_char))
          (CSeq (CChar is_ascii_alphanumeric) (CMany uri_host_char))"

definition ATP_URI_REGEX :: crx where
  "ATP_URI_REGEX =
     CSeq (COpt (CGroup 1 (CTextI ''at://''))) (CSeq (CGroup 2 uri_authority_re) (uri_rest_re 3))"

definition RELATIVE_REGEX :: crx where
  "RELATIVE_REGEX = uri_rest_re 1"

definition atp_uri_regex :: "(crx \<Rightarrow> string \<Rightarrow> captured option) \<Rightarrow> string \<Rightarrow> string list option" where
  "atp_uri_regex caps input = map_option (\<lambda>cs. map (group_text cs) [1, 2, 3, 4, 5]) (caps ATP_URI_REGEX input)"

definition relative_regex :: "(crx \<Rightarrow> string \<Rightarrow> captured option) \<Rightarrow> string \<Rightarrow> string list option" where
  "relative_regex caps input = map_option (\<lambda>cs. map (group_text cs) [1, 2, 3]) (caps RELATIVE_REGEX input)"

section \<open>AtUri\<close>

record at_uri =
  hash :: string
  host :: string
  pathname :: string
  search_params :: "(string \<times> string) list"

datatype uri_error = InvalidAtUri string | InvalidPath string | UrlError

type_synonym query_reader = "string \<Rightarrow> uri_error + (string \<times> string) list"
type_synonym query_writer = "(string \<times> string) list \<Rightarrow> uri_error + string option"

definition parse_uri ::
    "(crx \<Rightarrow> string \<Rightarrow> captured option) \<Rightarrow> query_reader \<Rightarrow> string \<Rightarrow> uri_error + at_uri option" where
  "parse_uri caps qp str =
     (case atp_uri_regex caps str of
        None \<Rightarrow> Inr None
      | Some matches \<Rightarrow>
          res_bind (qp (matches ! 3)) (\<lambda>query_pairs.
            Inr (Some \<lparr>hash = matches ! 4, host = matches ! 1, pathname = matches ! 2, search_params = query_pairs\<rparr>)))"

definition parse_relative ::
    "(crx \<Rightarrow> string \<Rightarrow> captured option) \<Rightarrow> query_reader \<Rightarrow> string \<Rightarrow>
     uri_error + (string \<times> string \<times> (string \<times> string) list) option" where
  "parse_relative caps qp str =
     (case relative_regex caps str of
        None \<Rightarrow> Inr None
      | Some matches \<Rightarrow>
          res_bind (qp (matches ! 1)) (\<lambda>query_pairs. Inr (Some (matches ! 2, matches ! 0, query_pairs))))"

definition at_uri_from_parts :: "string \<Rightarrow> string \<Rightarrow> at_uri" where
  "at_uri_from_parts h p = \<lparr>hash = [], host = h, pathname = p, search_params = []\<rparr>"

definition at_uri_new ::
    "(crx \<Rightarrow> string \<Rightarrow> captured option) \<Rightarrow> query_reader \<Rightarrow> string \<Rightarrow> string option \<Rightarrow> uri_error + at_uri" where
  "at_uri_new caps qp uri base =
     (case base of
        Some b \<Rightarrow>
          res_bind (parse_uri caps qp b) (\<lambda>pb.
            case pb of
              None \<Rightarrow> Inl (InvalidAtUri b)
            | Some parsed_base \<Rightarrow>
                res_bind (parse_relative caps qp uri) (\<lambda>pr.
                  case pr of
                    None \<Rightarrow> Inl (InvalidPath uri)
                  | Some (h, p, sp) \<Rightarrow> Inr \<lparr>hash = h, host = host parsed_base, pathname = p, search_params = sp\<rparr>))
      | None \<Rightarrow>
          res_bind (parse_uri caps qp uri) (\<lambda>p. case p of None \<Rightarrow> Inl (InvalidAtUri uri) | Some result \<Rightarrow> Inr result))"

definition at_uri_make ::
    "(crx \<Rightarrow> string \<Rightarrow> captured option) \<Rightarrow> query_reader \<Rightarrow> string \<Rightarrow> string option \<Rightarrow> string option \<Rightarrow> uri_error + at_uri" where
  "at_uri_make caps qp handle_or_did collection rkey =
     at_uri_new caps qp
       (handle_or_did @ (case collection of None \<Rightarrow> [] | Some c \<Rightarrow> ''/'' @ c) @ (case rkey of None \<Rightarrow> [] | Some r \<Rightarrow> ''/'' @ r))
       None"

definition get_protocol :: "at_uri \<Rightarrow> string" where
  "get_protocol u = ''at:''"

definition get_origin :: "at_uri \<Rightarrow> string" where
  "get_origin u = ''at://'' @ host u"

definition get_hostname :: "at_uri \<Rightarrow> string" where
  "get_hostname u = host u"

definition set_hostname :: "string \<Rightarrow> at_uri \<Rightarrow> at_uri" where
  "set_hostname v u = u\<lparr>host := v\<rparr>"

definition get_search :: "query_writer \<Rightarrow> at_uri \<Rightarrow> uri_error + string option" where
  "get_search qs u = qs (search_params u)"

definition set_search :: "query_reader \<Rightarrow> string \<Rightarrow> at_uri \<Rightarrow> uri_error + at_uri" where
  "set_search qp v u = res_bind (qp v) (\<lambda>pairs. Inr (u\<lparr>search_params := pairs\<rparr>))"

definition nth_part :: "nat \<Rightarrow> string list \<Rightarrow> string" where
  "nth_part i parts = (if i < length parts then parts ! i else [])"

definition get_collection :: "at_uri \<Rightarrow> string" where
  "get_collection u = nth_part 1 (split_on CHR ''/'' (pathname u))"

definition set_collection :: "string \<Rightarrow> at_uri \<Rightarrow> at_uri" where
  "set_collection v u =
     (let parts = split_on CHR ''/'' (pathname u)
      in u\<lparr>pathname := join ''/'' (if parts \<noteq> [] then parts[0 := v] else parts @ [v])\<rparr>)"

definition get_rkey :: "at_uri \<Rightarrow> string" where
  "get_rkey u = nth_part 2 (split_on CHR ''/'' (pathname u))"

definition set_rkey :: "string \<Rightarrow> at_uri \<Rightarrow> at_uri" where
  "set_rkey v u =
     (let parts = split_on CHR ''/'' (pathname u)
      in u\<lparr>pathname := join ''/''
             (if length parts > 1 then parts[1 := v]
              else if parts \<noteq> [] then parts @ [v]
              else parts @ [''undefined'', v])\<rparr>)"

definition at_uri_to_string :: "query_writer \<Rightarrow> at_uri \<Rightarrow> string" where
  "at_uri_to_string qs u =
     (let path0 = (if pathname u = [] then ''/'' else pathname u);
          path = (if \<not> starts_with path0 ''/'' then ''/'' @ path0 else path0);
          query = (case get_search qs u of
                  Inr (Some sp) \<Rightarrow> if \<not> starts_with sp ''?'' \<and> sp \<noteq> [] then ''?'' @ sp else sp
                | _ \<Rightarrow> []);
          h = (if hash u = [] then hash u else if starts_with (hash u) ''#'' then hash u else ''#'' @ hash u)
      in ''at://'' @ host u @ path @ query @ h)"

definition get_href :: "query_writer \<Rightarrow> at_uri \<Rightarrow> string" where
  "get_href qs u = at_uri_to_string qs u"

section \<open>Validation\<close>

definition MAX_URI_LEN :: nat where
  "MAX_URI_LEN = 8 * 1024"

definition valid_path_char :: "char \<Rightarrow> bool" where
  "valid_path_char c \<longleftrightarrow> is_ascii_alphanumeric c \<or> c \<in> set ''._~:@!$&'()*+,;=%/-''"

definition valid_fragment_char :: "char \<Rightarrow> bool" where
  "valid_fragment_char c \<longleftrightarrow> is_ascii_alphanumeric c \<or> c \<in> set ''._~:@!$&'()*+,;=[]/-'' \<or> c = CHR 0x5C"

definition VALID_PATH_CHARS :: rexp where
  "VALID_PATH_CHARS = Star (Cls valid_path_char)"

definition VALID_FRAGMENT_CHARS :: rexp where
  "VALID_FRAGMENT_CHARS = Seq (Chr CHR ''/'') (Star (Cls valid_fragment_char))"

definition ATURI_REGEX :: crx where
  "ATURI_REGEX =
     CSeq (CText ''at://'')
      (CSeq (CGroup 1 (CSome did_char))
       (CSeq (COpt (CSeq (COnly CHR ''/'')
          (CAlt (CSeq (CGroup 2 (CSome host_char))
                      (COpt (CSeq (COnly CHR ''/'')
                        (CGroup 3 (CSome (\<lambda>c. is_ascii_alphanumeric c \<or> c \<in> set ''._~:@!$&%')(*+,;=-''))))))
                (CSeq (CText ''profile/'')
                  (CSeq (CSome host_char) (CSeq (CText ''/post/'') (CSome is_ascii_alphanumeric)))))))
        (COpt (CSeq (COnly CHR ''#'')
          (CGroup 4 (CSeq (COnly CHR ''/'')
            (CMany (\<lambda>c. is_ascii_alphanumeric c \<or> c \<in> set ''._~:@!$&%'()*+,;=[]/-'' \<or> c = CHR 0x5C))))))))"

datatype at_uri_error = AtUriValidationError string

definition nsid_error_text :: "nsid_error \<Rightarrow> string" where
  "nsid_error_text e = (case e of InvalidNsidError m \<Rightarrow> ''InvalidNsidError: '' @ m)"

definition record_key_error_text :: "record_key_error \<Rightarrow> string" where
  "record_key_error_text e = (case e of InvalidRecordKeyError m \<Rightarrow> ''InvalidRecordKeyError: '' @ m)"

definition uri_error_text :: "uri_error \<Rightarrow> string" where
  "uri_error_text e =
     (case e of
        InvalidAtUri u \<Rightarrow> ''Invalid at uri: `'' @ u @ ''`''
      | InvalidPath u \<Rightarrow> ''Invalid path: `'' @ u @ ''`''
      | UrlError \<Rightarrow> ''url'')"

definition lift_err :: "('e \<Rightarrow> string) \<Rightarrow> 'e + 'a \<Rightarrow> at_uri_error + 'a" where
  "lift_err f r = (case r of Inl e \<Rightarrow> Inl (AtUriValidationError (f e)) | Inr x \<Rightarrow> Inr x)"

definition check_authority :: "(rexp \<Rightarrow> string \<Rightarrow> bool) \<Rightarrow> string \<Rightarrow> at_uri_error + unit" where
  "check_authority im a =
     (case (ensure_valid_did im a, ensure_valid_handle im a) of
        (Inl _, Inl _) \<Rightarrow> Inl (AtUriValidationError ''ATURI authority must be a valid handle or DID'')
      | (Inr _, _) \<Rightarrow>
          if \<not> starts_with a ''did:'' then Inl (AtUriValidationError ''ATURI authority is not in a valid DID format'')
          else Inr ()
      | (_, Inr _) \<Rightarrow> Inr ())"

definition check_segments :: "(rexp \<Rightarrow> string \<Rightarrow> bool) \<Rightarrow> string list \<Rightarrow> at_uri_error + unit" where
  "check_segments im parts =
     res_bind
       (if length parts \<ge> 4 then
          if parts ! 3 = [] then
            Inl (AtUriValidationError ''ATURI can not have a slash after authority without a path segment'')
          else lift_err nsid_error_text (ensure_valid_nsid im (parts ! 3))
        else Inr ()) (\<lambda>_.
     res_bind
       (if length parts \<ge> 5 then
          if parts ! 4 = [] then
            Inl (AtUriValidationError ''ATURI can not have a slash after collection, unless record key is provided'')
          else lift_err record_key_error_text (ensure_valid_record_key im (parts ! 4))
        else Inr ()) (\<lambda>_.
       if length parts \<ge> 6 then
         Inl (AtUriValidationError ''ATURI path can have at most two parts, and no trailing slash'')
       else Inr ()))"

definition check_fragment :: "(rexp \<Rightarrow> string \<Rightarrow> bool) \<Rightarrow> string list \<Rightarrow> at_uri_error + unit" where
  "check_fragment im uri_parts =
     (let fragment_part = nth_part 1 uri_parts in
      if length uri_parts \<ge> 2 \<and> fragment_part = [] then
        Inl (AtUriValidationError ''ATURI fragment must be non-empty and start with slash'')
      else if fragment_part \<noteq> [] then
        (if fragment_part = [] \<or> \<not> starts_with fragment_part ''/'' then
           Inl (AtUriValidationError ''ATURI fragment must be non-empty and start with slash'')
         else if \<not> im VALID_FRAGMENT_CHARS fragment_part then
           Inl (AtUriValidationError ''Disallowed characters in ATURI fragment (ASCII)'')
         else Inr ())
      else Inr ())"

definition ensure_valid_at_uri ::
    "(rexp \<Rightarrow> string \<Rightarrow> bool) \<Rightarrow> (crx \<Rightarrow> string \<Rightarrow> captured option) \<Rightarrow> query_reader \<Rightarrow> string \<Rightarrow> at_uri_error + at_uri" where
  "ensure_valid_at_uri im caps qp input =
     (if length input > MAX_URI_LEN then Inl (AtUriValidationError ''ATURI is far too long'')
      else let uri_parts = split_on CHR ''#'' input in
        if length uri_parts > 2 then
          Inl (AtUriValidationError ''ATURI can have at most one '#', separating fragment out'')
        else let uri = uri_parts ! 0 in
          if \<not> im VALID_PATH_CHARS uri then Inl (AtUriValidationError ''Disallowed characters in ATURI (ASCII)'')
          else let parts = split_on CHR ''/'' uri in
            if length parts \<ge> 3 \<and> (parts ! 0 \<noteq> ''at:'' \<or> parts ! 1 \<noteq> []) then
              Inl (AtUriValidationError ''ATURI must start with \"at://\"'')
            else if length parts < 3 then
              Inl (AtUriValidationError ''ATURI requires at least method and authority sections'')
            else
              res_bind (check_authority im (parts ! 2)) (\<lambda>_.
              res_bind (check_segments im parts) (\<lambda>_.
              res_bind (check_fragment im uri_parts) (\<lambda>_.
                lift_err uri_error_text (at_uri_new caps qp uri None)))))"

definition group_of :: "captured \<Rightarrow> nat \<Rightarrow> string option" where
  "group_of cs i = map_of cs i"

definition ensure_valid_at_uri_regex ::
    "(rexp \<Rightarrow> string \<Rightarrow> bool) \<Rightarrow> (crx \<Rightarrow> string \<Rightarrow> captured option) \<Rightarrow> string \<Rightarrow> at_uri_error + unit" where
  "ensure_valid_at_uri_regex im caps uri =
     (if length uri > MAX_URI_LEN then Inl (AtUriValidationError ''ATURI is far too long'')
      else
        res_bind (of_option (AtUriValidationError ''ATURI didn't validate via regex'') (caps ATURI_REGEX uri)) (\<lambda>cs.
        res_bind
          (case group_of cs 1 of
             None \<Rightarrow> Inr ()
           | Some a \<Rightarrow>
               (case (ensure_valid_did_regex im a, ensure_valid_handle_regex im a) of
                  (Inl _, Inl _) \<Rightarrow> Inl (AtUriValidationError ''ATURI authority must be a valid handle or DID'')
                | _ \<Rightarrow> Inr ())) (\<lambda>_.
        res_bind
          (case group_of cs 2 of
             None \<Rightarrow> Inr ()
           | Some c \<Rightarrow> lift_err nsid_error_text (ensure_valid_nsid_regex im c)) (\<lambda>_.
          case group_of cs 3 of
            None \<Rightarrow> Inr ()
          | Some r \<Rightarrow> lift_err record_key_error_text (ensure_valid_record_key im r)))))"

section \<open>How a URI is taken apart\<close>

text \<open>The hosts the pattern accepts, and the paths.\<close>

definition uri_host :: "string \<Rightarrow> bool" where
  "uri_host h \<longleftrightarrow>
     map to_ascii_lowercase (take 4 h) = ''did:'' \<and> drop 4 h \<noteq> [] \<and> list_all uri_did_char (drop 4 h) \<or>
     h \<noteq> [] \<and> is_ascii_alphanumeric (hd h) \<and> list_all uri_host_char (tl h)"

definition uri_path :: "string \<Rightarrow> bool" where
  "uri_path p \<longleftrightarrow> p = [] \<or> hd p = CHR ''/'' \<and> list_all uri_path_char p"

abbreviation fin :: "string \<Rightarrow> captured option" where
  "fin t \<equiv> (if t = [] then Some [] else None)"

lemma not_host_chars [simp]:
  "\<not> uri_did_char CHR ''/''" "\<not> uri_host_char CHR ''/''" "\<not> is_ascii_alphanumeric CHR ''/''"
  "\<not> uri_did_char CHR ''?''" "\<not> uri_host_char CHR ''?''" "\<not> uri_did_char CHR ''#''" "\<not> uri_host_char CHR ''#''"
  "\<not> is_ascii_alphanumeric CHR ''?''" "\<not> is_ascii_alphanumeric CHR ''#''"
  by (auto simp: uri_did_char_def uri_host_char_def ascii_defs char_le_of_char)

lemma rest_path:
  assumes "uri_path p"
  shows "cmatch (uri_rest_re i) p fin = Some (if p = [] then [] else [(i, p)])"
proof (cases p)
  case Nil
  then show ?thesis by (simp add: uri_rest_re_def cmatch_COpt cmatch_COnly)
next
  case (Cons c q)
  then have c: "c = CHR ''/''" and q: "list_all uri_path_char q" using assms by (auto simp: uri_path_def)
  let ?k = "\<lambda>t. map_option (Cons (i, take (Suc (length q) - length t) (c # q)))
    (cmatch (COpt (CGroup (i + 1) (CSeq (COnly CHR ''?'') (CSome uri_query_char)))) t
      (\<lambda>t. cmatch (COpt (CGroup (i + 2) (CSeq (COnly CHR ''#'') (CSome uri_hash_char)))) t fin))"
  have "?k [] = Some [(i, p)]" by (simp add: Cons cmatch_COpt cmatch_COnly)
  then have "cmany uri_path_char (q @ []) ?k = Some [(i, p)]" using q by (intro cmany_longest) auto
  then show ?thesis using Cons c by (simp add: uri_rest_re_def cmatch_COpt cmatch_COnly)
qed

lemma rest_fails:
  assumes "c \<notin> {CHR ''/'', CHR ''?'', CHR ''#''}"
  shows "cmatch (uri_rest_re i) (c # s) fin = None"
  using assms by (simp add: uri_rest_re_def cmatch_COpt cmatch_COnly)

text \<open>A run of host characters either takes the whole host or stops inside it.\<close>

lemma run_in_host:
  assumes "a @ p = v @ t" "list_all q v" "\<not> q CHR ''/''" "uri_path p"
  shows "v = a \<and> t = p \<or> (\<exists>c u. t = c # u \<and> c \<in> set a)"
proof (cases "length v < length a")
  case True
  then have "t = drop (length v) a @ p" using assms(1) by (auto simp: append_eq_append_conv_if)
  then show ?thesis using True by (cases "drop (length v) a") (auto intro: in_set_dropD[of _ "length v"])
next
  case False
  then obtain w where w: "v = a @ w" "p = w @ t"
    using assms(1) by (auto simp: append_eq_append_conv_if) (metis append_take_drop_id)
  then have "w = []" using assms(2-4) by (cases w) (auto simp: uri_path_def)
  then show ?thesis using w by simp
qed

abbreviation auth_rest :: "string \<Rightarrow> captured option" where
  "auth_rest s \<equiv> cmatch (CSeq (CGroup 2 uri_authority_re) (uri_rest_re 3)) s fin"

definition host_safe :: "string \<Rightarrow> bool" where
  "host_safe a \<longleftrightarrow> set a \<inter> {CHR ''/'', CHR ''?'', CHR ''#''} = {}"

lemma uri_host_safe: "uri_host h \<Longrightarrow> host_safe h"
proof -
  assume h: "uri_host h"
  have "c \<notin> {CHR ''/'', CHR ''?'', CHR ''#''}" if c: "c \<in> set h" for c
    using h unfolding uri_host_def
  proof
    assume a: "map to_ascii_lowercase (take 4 h) = ''did:'' \<and> drop 4 h \<noteq> [] \<and> list_all uri_did_char (drop 4 h)"
    have "c \<in> set (take 4 h) \<or> c \<in> set (drop 4 h)" using c by (metis append_take_drop_id set_append UnE)
    moreover have "to_ascii_lowercase c \<in> set ''did:''" if "c \<in> set (take 4 h)" using a that by (metis image_eqI set_map)
    moreover have "to_ascii_lowercase CHR ''/'' = CHR ''/''" "to_ascii_lowercase CHR ''?'' = CHR ''?''"
      "to_ascii_lowercase CHR ''#'' = CHR ''#''"
      by (simp_all add: to_ascii_lowercase_def ascii_defs char_le_of_char)
    ultimately show ?thesis using a not_host_chars by (auto simp: list_all_iff)
  next
    assume a: "h \<noteq> [] \<and> is_ascii_alphanumeric (hd h) \<and> list_all uri_host_char (tl h)"
    then show ?thesis using c not_host_chars by (cases h) (auto simp: list_all_iff)
  qed
  then show ?thesis by (auto simp: host_safe_def)
qed

text \<open>What follows a host: success where the host ends, failure inside it.\<close>

definition host_end :: "string \<Rightarrow> string \<Rightarrow> (string \<Rightarrow> captured option) \<Rightarrow> captured \<Rightarrow> bool" where
  "host_end a p G r \<longleftrightarrow> G p = Some r \<and> (\<forall>c u. c \<in> set a \<longrightarrow> G (c # u) = None)"

lemma some_run:
  assumes G: "host_end a p G r" and b: "set b \<subseteq> set a" and p: "uri_path p" and q: "\<not> q CHR ''/''"
  shows "cmatch (CSome q) (b @ p) G = (if b \<noteq> [] \<and> list_all q b then Some r else None)"
proof (cases b)
  case Nil
  then show ?thesis using p q by (cases p) (auto simp: cmatch_CSome uri_path_def)
next
  case (Cons x b')
  show ?thesis
  proof (cases "list_all q b")
    case True
    then show ?thesis
      using Cons cmatch_CSome_longest[of b q p G r] p q G by (cases p) (auto simp: host_end_def uri_path_def)
  next
    case False
    have "cmany q (b' @ p) G = None" if x: "q x"
    proof (rule cmany_none)
      fix t assume "\<exists>u. b' @ p = u @ t \<and> list_all q u"
      then obtain u where u: "b' @ p = u @ t" "list_all q u" by blast
      then show "G t = None"
        using run_in_host[OF u q p] False x Cons b G by (auto simp: host_end_def)
    qed
    then show ?thesis using Cons False by (simp add: cmatch_CSome)
  qed
qed

lemma many_run:
  assumes G: "host_end a p G r" and b: "set b \<subseteq> set a" and p: "uri_path p" and q: "\<not> q CHR ''/''"
  shows "cmany q (b @ p) G = (if list_all q b then Some r else None)"
proof (cases "list_all q b")
  case True
  then show ?thesis using cmany_longest[of q b p G r] p q G by (cases p) (auto simp: host_end_def uri_path_def)
next
  case False
  have "cmany q (b @ p) G = None"
  proof (rule cmany_none)
    fix t assume "\<exists>u. b @ p = u @ t \<and> list_all q u"
    then obtain u where u: "b @ p = u @ t" "list_all q u" by blast
    then show "G t = None" using run_in_host[OF u q p] False b G by (auto simp: host_end_def)
  qed
  then show ?thesis using False by simp
qed

lemma did_prefix_length: "map to_ascii_lowercase (take 4 a) = ''did:'' \<Longrightarrow> 4 \<le> length a"
proof -
  assume "map to_ascii_lowercase (take 4 a) = ''did:''"
  then have "length (map to_ascii_lowercase (take 4 a)) = length ''did:''" by (rule arg_cong)
  then show ?thesis by simp
qed

lemma did_prefix_append:
  assumes "uri_path p"
  shows "4 \<le> length (a @ p) \<and> map to_ascii_lowercase (take 4 (a @ p)) = ''did:'' \<longleftrightarrow>
    map to_ascii_lowercase (take 4 a) = ''did:''"
proof (cases "4 \<le> length a")
  case False
  have "map to_ascii_lowercase (take 4 a) \<noteq> ''did:''"
    using False did_prefix_length[of a] by metis
  moreover have "map to_ascii_lowercase (take 4 (a @ p)) \<noteq> ''did:''"
  proof
    assume eq: "map to_ascii_lowercase (take 4 (a @ p)) = ''did:''"
    then have "p \<noteq> []" using False calculation by auto
    then have "CHR ''/'' \<in> set (take 4 (a @ p))" using assms False by (cases p) (auto simp: uri_path_def take_Cons' not_le)
    then have "to_ascii_lowercase CHR ''/'' \<in> set ''did:''" using eq by (metis image_eqI set_map)
    then show False by (simp add: to_ascii_lowercase_def ascii_defs char_le_of_char)
  qed
  ultimately show ?thesis by simp
qed simp

lemma cmatch_did:
  assumes "uri_path p"
  shows "cmatch (CTextI ''did:'') (a @ p) K =
    (if map to_ascii_lowercase (take 4 a) = ''did:'' then K (drop 4 a @ p) else None)"
proof -
  have "drop 4 (a @ p) = drop 4 a @ p" if "map to_ascii_lowercase (take 4 a) = ''did:''"
    using did_prefix_length[OF that] by simp
  moreover have "length ''did:'' = 4" by simp
  ultimately show ?thesis
    using did_prefix_append[OF assms, of a] unfolding cmatch_CTextI by presburger
qed

lemma authority_match:
  assumes G: "host_end a p G r" and p: "uri_path p"
  shows "cmatch uri_authority_re (a @ p) G = (if uri_host a then Some r else None)"
proof -
  have "cmatch (CSeq (CTextI ''did:'') (CSome uri_did_char)) (a @ p) G =
      (if map to_ascii_lowercase (take 4 a) = ''did:'' \<and> drop 4 a \<noteq> [] \<and> list_all uri_did_char (drop 4 a) then Some r else None)"
    using some_run[OF G set_drop_subset p, of uri_did_char 4]
    unfolding cmatch.simps cmatch_did[OF p] by (simp del: drop_eq_Nil)
  moreover have "cmatch (CSeq (CChar is_ascii_alphanumeric) (CMany uri_host_char)) (a @ p) G =
      (if a \<noteq> [] \<and> is_ascii_alphanumeric (hd a) \<and> list_all uri_host_char (tl a) then Some r else None)"
  proof (cases a)
    case Nil
    then show ?thesis using p by (cases p) (auto simp: uri_path_def)
  next
    case (Cons x b)
    then have "set b \<subseteq> set a" by auto
    then show ?thesis using Cons many_run[OF G _ p, of b uri_host_char] by simp
  qed
  ultimately show ?thesis by (simp add: uri_authority_re_def uri_host_def)
qed

lemma auth_rest_eq:
  assumes "host_safe a" "uri_path p"
  shows "auth_rest (a @ p) = (if uri_host a then Some ((2, a) # (if p = [] then [] else [(3, p)])) else None)"
proof -
  have "host_end a p (\<lambda>t. map_option (Cons (2, take (length (a @ p) - length t) (a @ p))) (cmatch (uri_rest_re 3) t fin))
      ((2, a) # (if p = [] then [] else [(3, p)]))"
    unfolding host_end_def
  proof (intro conjI allI impI)
    show "map_option (Cons (2, take (length (a @ p) - length p) (a @ p))) (cmatch (uri_rest_re 3) p fin) =
        Some ((2, a) # (if p = [] then [] else [(3, p)]))"
      unfolding rest_path[OF assms(2), of 3] by simp
    fix c u assume "c \<in> set a"
    then have "cmatch (uri_rest_re 3) (c # u) fin = None" using assms(1) by (intro rest_fails) (auto simp: host_safe_def)
    then show "map_option (Cons (2, take (length (a @ p) - length (c # u)) (a @ p))) (cmatch (uri_rest_re 3) (c # u) fin) = None"
      by (simp only: option.map)
  qed
  from authority_match[OF this assms(2)] show ?thesis by simp
qed

section \<open>Parsing\<close>

lemma uri_host_at: "uri_host ''at:''"
  by (simp add: uri_host_def uri_host_char_def ascii_defs char_le_of_char)

lemma ascii_lower_at: "map to_ascii_lowercase ''at://'' = ''at://''"
  by (simp add: to_ascii_lowercase_def ascii_defs char_le_of_char)

lemma captures_at:
  assumes "host_safe a" "uri_path p" "list_all uri_path_char a"
  shows "captures ATP_URI_REGEX (''at://'' @ a @ p) =
    Some (if uri_host a then (1, ''at://'') # (2, a) # (if p = [] then [] else [(3, p)])
          else [(2, ''at:''), (3, ''//'' @ a @ p)])"
proof -
  let ?s = "''at://'' @ a @ p"
  have "uri_path (''//'' @ a @ p)"
    using assms(2,3) by (auto simp: uri_path_def uri_path_char_def is_space_def)
  then have skip: "auth_rest ?s = Some [(2, ''at:''), (3, ''//'' @ a @ p)]"
    using auth_rest_eq[of "''at:''" "''//'' @ a @ p"] uri_host_at uri_host_safe[OF uri_host_at] by simp
  have grp: "cmatch (CGroup 1 (CTextI ''at://'')) ?s K = map_option (Cons (1, ''at://'')) (K (a @ p))" for K
    unfolding cmatch.simps cmatch_CTextI using ascii_lower_at by simp
  show ?thesis
    unfolding captures_def ATP_URI_REGEX_def
    apply (subst cmatch.simps)
    unfolding cmatch_COpt grp skip auth_rest_eq[OF assms(1,2)]
    by simp
qed

lemma lower_slash: "to_ascii_lowercase c = CHR ''/'' \<longleftrightarrow> c = CHR ''/''"
proof (cases "is_ascii_uppercase c")
  case True
  then have "65 \<le> (of_char c :: nat)" "(of_char c :: nat) \<le> 90" by (simp_all add: is_ascii_uppercase_def in_range_def char_le_of_char)
  then have "(of_char (to_ascii_lowercase c) :: nat) \<ge> 97" using True by (simp add: to_ascii_lowercase_def)
  then have "to_ascii_lowercase c \<noteq> CHR ''/''" by auto
  moreover have "c \<noteq> CHR ''/''" using True by (auto simp: ascii_defs char_le_of_char)
  ultimately show ?thesis by simp
qed (simp add: to_ascii_lowercase_def)

lemma map_take_nth: "map f (take n s) = w \<Longrightarrow> i < n \<Longrightarrow> n \<le> length s \<Longrightarrow> f (s ! i) = w ! i"
  by auto

lemma no_scheme:
  assumes "CHR ''/'' \<notin> set a" "uri_path p" "length p > 1 \<longrightarrow> p ! 1 \<noteq> CHR ''/''"
  shows "\<not> (length ''at://'' \<le> length (a @ p) \<and> map to_ascii_lowercase (take (length ''at://'') (a @ p)) = ''at://'')"
proof
  let ?w = "''at://''"
  assume "length ?w \<le> length (a @ p) \<and> map to_ascii_lowercase (take (length ?w) (a @ p)) = ?w"
  then have len: "length ?w \<le> length (a @ p)" and eq: "map to_ascii_lowercase (take (length ?w) (a @ p)) = ?w" by blast+
  have idx: "to_ascii_lowercase ((a @ p) ! i) = ?w ! i" if "i < length ?w" for i
    by (rule map_take_nth[OF eq that len])
  have w: "?w ! 0 = CHR ''a''" "?w ! 1 = CHR ''t''" "?w ! 2 = CHR '':''" "?w ! 3 = CHR ''/''" "?w ! 4 = CHR ''/''"
    by (simp_all add: numeral_eq_Suc)
  have a3: "length a \<le> 3"
  proof (rule ccontr)
    assume "\<not> length a \<le> 3"
    then have "a ! 3 = CHR ''/''" using idx[of 3] w(4) by (simp add: nth_append lower_slash)
    then show False using assms(1) \<open>\<not> length a \<le> 3\<close> by (metis linorder_not_le nth_mem)
  qed
  then have "p \<noteq> []" using len by auto
  then have p0: "(a @ p) ! length a = CHR ''/''" using assms(2) by (cases p) (auto simp: uri_path_def)
  have "\<not> length a < 3"
  proof
    assume lt: "length a < 3"
    have slash: "?w ! length a = CHR ''/''" using idx[of "length a"] lt lower_slash[of "CHR ''/''"] unfolding p0 by simp
    consider "length a = 0" | "length a = 1" | "length a = 2" using lt by linarith
    then show False by cases (use slash w in simp_all)
  qed
  then have l3: "length a = 3" using a3 by simp
  then have "p ! 1 = CHR ''/''" using idx[of 4] w(5) by (simp add: nth_append lower_slash)
  moreover have "length p > 1" using len l3 by simp
  ultimately show False using assms(3) by simp
qed

lemma captures_bare:
  assumes "uri_host a" "uri_path p" "length p > 1 \<longrightarrow> p ! 1 \<noteq> CHR ''/''"
  shows "captures ATP_URI_REGEX (a @ p) = Some ((2, a) # (if p = [] then [] else [(3, p)]))"
proof -
  have "CHR ''/'' \<notin> set a" using uri_host_safe[OF assms(1)] by (auto simp: host_safe_def)
  note no_scheme[OF this assms(2,3)]
  then have "cmatch (CTextI ''at://'') (a @ p) K = None" for K unfolding cmatch_CTextI by (rule if_not_P)
  then have grp: "cmatch (CGroup 1 (CTextI ''at://'')) (a @ p) K = None" for K by (simp del: CTextI.simps)
  show ?thesis
    unfolding captures_def ATP_URI_REGEX_def
    apply (subst cmatch.simps)
    unfolding cmatch_COpt grp auth_rest_eq[OF uri_host_safe[OF assms(1)] assms(2)]
    using assms(1) by simp
qed

text \<open>The documented behaviour of the \<open>url\<close> crate on an empty query.\<close>

definition url_ok :: "query_reader \<Rightarrow> query_writer \<Rightarrow> bool" where
  "url_ok qp qs \<longleftrightarrow> qp [] = Inr [] \<and> (qs [] = Inr None \<or> qs [] = Inr (Some []))"

lemma group_text_simps:
  "group_text [] i = []" "group_text ((j, t) # cs) i = (if i = j then t else group_text cs i)"
  by (simp_all add: group_text_def)

context capture_engine
begin

lemma at_uri_new_at:
  assumes "qp [] = Inr []" "host_safe a" "uri_path p" "list_all uri_path_char a"
  shows "at_uri_new caps qp (''at://'' @ a @ p) None =
    Inr (if uri_host a then at_uri_from_parts a p else at_uri_from_parts ''at:'' (''//'' @ a @ p))"
  using assms(1) unfolding at_uri_new_def parse_uri_def atp_uri_regex_def caps_eq captures_at[OF assms(2-4)]
  by (simp add: group_text_simps at_uri_from_parts_def)

lemma at_uri_new_bare:
  assumes "qp [] = Inr []" "uri_host a" "uri_path p" "length p > 1 \<longrightarrow> p ! 1 \<noteq> CHR ''/''"
  shows "at_uri_new caps qp (a @ p) None = Inr (at_uri_from_parts a p)"
  using assms(1) unfolding at_uri_new_def parse_uri_def atp_uri_regex_def caps_eq captures_bare[OF assms(2-4)]
  by (simp add: group_text_simps at_uri_from_parts_def)

end

section \<open>Properties of AtUri\<close>

definition uri_segment :: "string \<Rightarrow> bool" where
  "uri_segment s \<longleftrightarrow> s \<noteq> [] \<and> list_all uri_path_char s \<and> CHR ''/'' \<notin> set s"

lemma split_path2: "CHR ''/'' \<notin> set c \<Longrightarrow> CHR ''/'' \<notin> set r \<Longrightarrow> split_on CHR ''/'' (''/'' @ c @ ''/'' @ r) = [[], c, r]"
  using split_on_append_sep[of "CHR ''/''" c r] by (simp add: split_on_no_sep)

lemma uri_host_path_chars: "uri_host h \<Longrightarrow> list_all uri_path_char h"
proof -
  have alnum: "is_ascii_alphanumeric c \<Longrightarrow> \<not> is_space c" for c
    by (auto simp: is_space_def ascii_defs char_le_of_char)
  have host: "uri_host_char c \<Longrightarrow> \<not> is_space c" "uri_did_char c \<Longrightarrow> \<not> is_space c" for c
    using alnum by (auto simp: uri_host_char_def uri_did_char_def is_space_def)
  have low: "to_ascii_lowercase c \<in> set ''did:'' \<Longrightarrow> \<not> is_space c" for c
    by (auto simp: to_ascii_lowercase_def is_space_def is_ascii_uppercase_def in_range_def char_le_of_char split: if_splits)
  assume h: "uri_host h"
  have "\<not> is_space c" if c: "c \<in> set h" for c
    using h unfolding uri_host_def
  proof
    assume a: "map to_ascii_lowercase (take 4 h) = ''did:'' \<and> drop 4 h \<noteq> [] \<and> list_all uri_did_char (drop 4 h)"
    have "c \<in> set (take 4 h) \<or> c \<in> set (drop 4 h)" using c by (metis append_take_drop_id set_append UnE)
    then show ?thesis
    proof
      assume "c \<in> set (take 4 h)"
      then have "to_ascii_lowercase c \<in> set ''did:''" using a by (metis image_eqI set_map)
      then show ?thesis by (rule low)
    qed (use a host in \<open>auto simp: list_all_iff\<close>)
  next
    assume "h \<noteq> [] \<and> is_ascii_alphanumeric (hd h) \<and> list_all uri_host_char (tl h)"
    then show ?thesis using c alnum host by (cases h) (auto simp: list_all_iff)
  qed
  then show ?thesis using uri_host_safe[OF h] by (auto simp: list_all_iff uri_path_char_def host_safe_def)
qed

text \<open>\<open>AtUri::make\<close> from a host, a collection and a record key gives a URI with these parts;
  it prints as \<open>at://HOST/COLLECTION/RKEY\<close>, and parsing what it prints gives the same URI back.\<close>

theorem at_uri_make_round_trip:
  assumes "capture_engine caps" "url_ok qp qs" "uri_host h" "uri_segment c" "uri_segment r"
  shows "\<exists>u. at_uri_make caps qp h (Some c) (Some r) = Inr u \<and>
    get_hostname u = h \<and> get_collection u = c \<and> get_rkey u = r \<and>
    at_uri_to_string qs u = ''at://'' @ h @ ''/'' @ c @ ''/'' @ r \<and>
    at_uri_new caps qp (at_uri_to_string qs u) None = Inr u"
proof -
  let ?p = "''/'' @ c @ ''/'' @ r" and ?u = "at_uri_from_parts h (''/'' @ c @ ''/'' @ r)"
  have q: "qp [] = Inr []" using assms(2) by (simp add: url_ok_def)
  have p: "uri_path ?p" using assms(4,5) by (auto simp: uri_path_def uri_segment_def uri_path_char_def is_space_def list_all_iff)
  have p1: "length ?p > 1 \<longrightarrow> ?p ! 1 \<noteq> CHR ''/''" using assms(4) by (cases c) (auto simp: uri_segment_def)
  have mk: "at_uri_make caps qp h (Some c) (Some r) = Inr ?u"
    using capture_engine.at_uri_new_bare[where caps = caps and qp = qp and a = h and p = ?p] assms(1,3) q p p1
    by (simp add: at_uri_make_def)
  have str: "at_uri_to_string qs ?u = ''at://'' @ h @ ''/'' @ c @ ''/'' @ r"
    using assms(2) by (auto simp: at_uri_to_string_def at_uri_from_parts_def Let_def starts_with_def get_search_def url_ok_def)
  have "at_uri_new caps qp (''at://'' @ h @ ?p) None = Inr ?u"
    using capture_engine.at_uri_new_at[where caps = caps and qp = qp and a = h and p = ?p] assms(1,3) q p
      uri_host_safe[OF assms(3)] uri_host_path_chars[OF assms(3)] by simp
  then have "at_uri_new caps qp (at_uri_to_string qs ?u) None = Inr ?u" unfolding str .
  moreover have "get_collection ?u = c" "get_rkey ?u = r"
    using split_path2[of c r] assms(4,5)
    by (simp_all add: get_collection_def get_rkey_def at_uri_from_parts_def nth_part_def uri_segment_def)
  ultimately show ?thesis using mk str by (auto simp: get_hostname_def at_uri_from_parts_def)
qed

text \<open>A reader and writer of queries that only know the empty one.\<close>

definition no_query :: query_reader where
  "no_query s = (if s = [] then Inr [] else Inl UrlError)"

definition no_params :: query_writer where
  "no_params ps = (if ps = [] then Inr (Some []) else Inl UrlError)"

lemma no_query_ok: "url_ok no_query no_params"
  by (simp add: url_ok_def no_query_def no_params_def)

theorem at_uri_make_round_trip_witness:
  "\<exists>u. at_uri_make captures no_query ''did:plc:a'' (Some ''b.c.d'') (Some ''k'') = Inr u \<and>
    at_uri_to_string no_params u = ''at://did:plc:a/b.c.d/k''"
proof -
  have "uri_host ''did:plc:a''" "uri_segment ''b.c.d''" "uri_segment ''k''"
    by (simp_all add: uri_host_def uri_did_char_def to_ascii_lowercase_def uri_segment_def uri_path_char_def is_space_def
        ascii_defs char_le_of_char)
  from at_uri_make_round_trip[OF backtracking.capture_engine_axioms no_query_ok this] show ?thesis by auto
qed

text \<open>On a parsed URI, whose path starts with a slash, \<open>set_collection\<close> and \<open>set_rkey\<close> write one
  segment too early: setting the collection leaves \<open>get_collection\<close> unchanged, and setting the record
  key replaces the collection and leaves \<open>get_rkey\<close> unchanged.\<close>

theorem at_uri_setters_miss_their_segment:
  assumes "CHR ''/'' \<notin> set c" "CHR ''/'' \<notin> set r" "CHR ''/'' \<notin> set v" "pathname u = ''/'' @ c @ ''/'' @ r"
  shows "get_collection (set_collection v u) = c \<and> get_rkey (set_rkey v u) = r \<and> get_collection (set_rkey v u) = v"
proof -
  have sp: "split_on CHR ''/'' (pathname u) = [[], c, r]" using split_path2[OF assms(1,2)] assms(4) by simp
  have j: "split_on CHR ''/'' (join ''/'' [v, c, r]) = [v, c, r]" "split_on CHR ''/'' (join ''/'' [[], v, r]) = [[], v, r]"
    using assms(1-3) by (intro split_on_join; auto)+
  show ?thesis
    using j by (simp add: get_collection_def set_collection_def get_rkey_def set_rkey_def sp nth_part_def)
qed

theorem at_uri_setters_miss_their_segment_witness:
  "get_collection (set_collection ''x.y.z'' (at_uri_from_parts ''h'' ''/a.b.c/k'')) = ''a.b.c''"
  using at_uri_setters_miss_their_segment[of "''a.b.c''" "''k''" "''x.y.z''" "at_uri_from_parts ''h'' ''/a.b.c/k''"]
  by (simp add: at_uri_from_parts_def)

section \<open>What ensure_valid_at_uri accepts\<close>

text \<open>The grammar: an authority, an optional collection, an optional record key, an optional fragment.\<close>

definition authority_ok :: "(rexp \<Rightarrow> string \<Rightarrow> bool) \<Rightarrow> string \<Rightarrow> bool" where
  "authority_ok im a \<longleftrightarrow> is_ok (ensure_valid_did im a) \<or> is_ok (ensure_valid_handle im a)"

definition path_ok :: "(rexp \<Rightarrow> string \<Rightarrow> bool) \<Rightarrow> string \<Rightarrow> bool" where
  "path_ok im p \<longleftrightarrow> p = [] \<or> (\<exists>c. p = ''/'' @ c \<and> is_ok (ensure_valid_nsid im c)) \<or>
     (\<exists>c r. p = ''/'' @ c @ ''/'' @ r \<and> is_ok (ensure_valid_nsid im c) \<and> is_ok (ensure_valid_record_key im r))"

definition fragment_ok :: "string \<Rightarrow> bool" where
  "fragment_ok f \<longleftrightarrow> f = [] \<or> (\<exists>t. f = ''#/'' @ t \<and> list_all valid_fragment_char t)"

text \<open>Characters of the parts of a URI.\<close>

definition plain_char :: "char \<Rightarrow> bool" where
  "plain_char c \<longleftrightarrow> valid_path_char c \<and> c \<noteq> CHR ''/''"

lemma plain_charI:
  "is_ascii_alphanumeric c \<Longrightarrow> plain_char c" "c \<in> set ''._~:%-'' \<Longrightarrow> plain_char c"
  using alphanumeric_not_punct(4) by (auto simp: plain_char_def valid_path_char_def)

lemma plain_class:
  "did_char c \<Longrightarrow> plain_char c" "alnum_hyphen c \<Longrightarrow> plain_char c" "rkey_char c \<Longrightarrow> plain_char c" "host_char c \<Longrightarrow> plain_char c"
  by (auto simp: did_char_def alnum_hyphen_def rkey_char_def host_char_def intro: plain_charI)

lemma valid_path_char_no_hash: "valid_path_char c \<Longrightarrow> c \<noteq> CHR ''#'' \<and> uri_path_char c"
  by (auto simp: valid_path_char_def uri_path_char_def is_space_def ascii_defs char_le_of_char)

lemma plain_safe: "\<forall>c\<in>set a. plain_char c \<Longrightarrow> host_safe a \<and> list_all uri_path_char a \<and> CHR ''/'' \<notin> set a"
  using valid_path_char_no_hash by (fastforce simp: host_safe_def list_all_iff plain_char_def uri_path_char_def)

lemma host_name_chars: "host_name s \<Longrightarrow> \<forall>c\<in>set s. plain_char c"
proof
  fix c assume h: "host_name s" "c \<in> set s"
  have "set s \<subseteq> {CHR ''.''} \<union> \<Union> (set (map set (split_on CHR ''.'' s)))"
    using set_join_subset[of "''.''" "split_on CHR ''.'' s"] by (simp add: join_split_on)
  then have "c = CHR ''.'' \<or> (\<exists>l\<in>set (split_on CHR ''.'' s). c \<in> set l)" using h(2) by auto
  then show "plain_char c" using h(1) plain_class(2) plain_charI(2)[of "CHR ''.''"] by (auto simp: host_name_def host_label_def)
qed

lemma did_shape_chars: "did_shape ok s \<Longrightarrow> \<forall>c\<in>set s. plain_char c"
  using plain_class(1) lowercase_did_char plain_charI
  by (auto simp: did_shape_def list_all_iff ascii_defs char_le_of_char)

context regex_engine
begin

lemma authority_chars: "authority_ok im a \<Longrightarrow> \<forall>c\<in>set a. plain_char c"
  using did_shape_chars host_name_chars
  by (auto simp: authority_ok_def ensure_valid_did_ok ensure_valid_handle_ok)

lemma nsid_chars: "is_ok (ensure_valid_nsid im s) \<Longrightarrow> s \<noteq> [] \<and> (\<forall>c\<in>set s. plain_char c)"
  using plain_class(4)
  by (cases s) (auto simp: ensure_valid_nsid_def NSID_ASCII_CHARS_REGEX_def im_Star_Cls Let_def split: if_splits)

lemma rkey_chars: "is_ok (ensure_valid_record_key im s) \<Longrightarrow> s \<noteq> [] \<and> (\<forall>c\<in>set s. plain_char c)"
  using record_key_ok[of s] plain_class(3) by (auto simp: is_valid_record_key_def)

lemma path_chars: "path_ok im p \<Longrightarrow> uri_path p \<and> (\<forall>c\<in>set p. valid_path_char c)"
proof -
  assume "path_ok im p"
  moreover have "valid_path_char CHR ''/''" by (simp add: valid_path_char_def)
  ultimately have v: "\<forall>c\<in>set p. valid_path_char c"
    using nsid_chars rkey_chars by (fastforce simp: path_ok_def plain_char_def)
  then have "list_all uri_path_char p" using valid_path_char_no_hash by (auto simp: list_all_iff)
  then show ?thesis using v \<open>path_ok im p\<close> by (auto simp: path_ok_def uri_path_def)
qed

lemma check_authority_ok: "is_ok (check_authority im a) \<longleftrightarrow> authority_ok im a"
  using ensure_valid_did_ok[of a]
  by (auto simp: check_authority_def authority_ok_def did_shape_def starts_with_def is_ok_def split: sum.splits)

lemma fragment_regex: "im VALID_FRAGMENT_CHARS f \<longleftrightarrow> (\<exists>t. f = CHR ''/'' # t \<and> list_all valid_fragment_char t)"
  unfolding im_iff VALID_FRAGMENT_CHARS_def Chr_def in_Seq_Cls in_Star_Cls by (auto simp: list_all_iff)

lemma uri_parts:
  assumes "CHR ''/'' \<notin> set a"
  shows "split_on CHR ''/'' (''at://'' @ a @ CHR ''/'' # q) = ''at:'' # [] # a # split_on CHR ''/'' q"
    "split_on CHR ''/'' (''at://'' @ a) = [''at:'', [], a]"
  using split_on_append_sep[OF assms, of q] split_on_no_sep[OF assms] by simp_all

lemma check_segments_path:
  assumes "authority_ok im a" "path_ok im p"
  shows "\<exists>ps. split_on CHR ''/'' (''at://'' @ a @ p) = ''at:'' # [] # a # ps \<and>
    check_segments im (''at:'' # [] # a # ps) = Inr ()"
proof -
  have a: "CHR ''/'' \<notin> set a" using plain_safe[OF authority_chars[OF assms(1)]] by simp
  have ns: "CHR ''/'' \<notin> set c \<and> c \<noteq> []" if "is_ok (ensure_valid_nsid im c) \<or> is_ok (ensure_valid_record_key im c)" for c
    using that nsid_chars[of c] rkey_chars[of c] plain_safe[of c] by blast
  from assms(2) show ?thesis unfolding path_ok_def
  proof (elim disjE exE conjE)
    assume "p = []"
    then show ?thesis using uri_parts(2)[OF a] by (simp add: check_segments_def)
  next
    fix c assume c: "p = ''/'' @ c" "is_ok (ensure_valid_nsid im c)"
    then show ?thesis using uri_parts(1)[OF a, of c] ns[of c] split_on_no_sep[of "CHR ''/''" c]
      by (auto simp: check_segments_def is_ok_iff lift_err_def)
  next
    fix c r assume c: "p = ''/'' @ c @ ''/'' @ r" "is_ok (ensure_valid_nsid im c)" "is_ok (ensure_valid_record_key im r)"
    have "split_on CHR ''/'' (c @ CHR ''/'' # r) = [c, r]"
      using ns[of c] ns[of r] c split_on_append_sep[of "CHR ''/''" c r] split_on_no_sep[of "CHR ''/''" r] by simp
    then show ?thesis using uri_parts(1)[OF a, of "c @ CHR ''/'' # r"] ns[of c] ns[of r] c
      by (auto simp: check_segments_def is_ok_iff lift_err_def)
  qed
qed

lemma path_of_segments:
  assumes "is_ok (check_segments im (x # y # a # ps))"
  shows "path_ok im (concat (map (Cons CHR ''/'') ps))"
proof -
  have "length ps < 3" using assms by (auto simp: check_segments_def is_ok_iff res_bind_eq_Inr_iff split: if_splits)
  then consider "ps = []" | c where "ps = [c]" | c r where "ps = [c, r]"
    by (cases ps; cases "tl ps"; cases "tl (tl ps)") auto
  then show ?thesis
    using assms
    by cases (auto simp: check_segments_def is_ok_iff res_bind_eq_Inr_iff lift_err_def path_ok_def split: if_splits sum.splits)
qed

lemma join_slash: "join ''/'' (p # ps) = p @ concat (map (Cons CHR ''/'') ps)"
  by (induction ps arbitrary: p) (simp_all add: join_Cons)

lemma fragment_split:
  assumes "CHR ''#'' \<notin> set s" "fragment_ok f"
  shows "length (split_on CHR ''#'' (s @ f)) \<le> 2" "split_on CHR ''#'' (s @ f) ! 0 = s"
    "check_fragment im (split_on CHR ''#'' (s @ f)) = Inr ()"
proof -
  have "split_on CHR ''#'' (s @ f) = (if f = [] then [s] else [s, tl f])"
  proof (cases "f = []")
    case False
    then obtain t where t: "f = CHR ''#'' # CHR ''/'' # t" "list_all valid_fragment_char t" using assms(2) by (auto simp: fragment_ok_def)
    have "\<not> valid_fragment_char CHR ''#''" by (simp add: valid_fragment_char_def)
    then have "CHR ''#'' \<notin> set (CHR ''/'' # t)" using t(2) by (auto simp: list_all_iff)
    then show ?thesis using split_on_append_sep[OF assms(1)] split_on_no_sep[of "CHR ''#''" "CHR ''/'' # t"] t(1) by simp
  qed (use assms(1) in \<open>simp add: split_on_no_sep\<close>)
  then show "length (split_on CHR ''#'' (s @ f)) \<le> 2" "split_on CHR ''#'' (s @ f) ! 0 = s"
    "check_fragment im (split_on CHR ''#'' (s @ f)) = Inr ()"
    using assms(2) fragment_regex[of "tl f"] by (auto simp: check_fragment_def nth_part_def fragment_ok_def starts_with_def)
qed

end

lemma at_uri_accepted:
  assumes "regex_engine im" "capture_engine caps" "qp [] = Inr []"
    and u: "length u \<le> MAX_URI_LEN" "u = ''at://'' @ a @ p @ f" "authority_ok im a" "path_ok im p" "fragment_ok f"
  shows "ensure_valid_at_uri im caps qp u =
    Inr (if uri_host a then at_uri_from_parts a p else at_uri_from_parts ''at:'' (''//'' @ a @ p))"
proof -
  note ac = regex_engine.authority_chars[OF assms(1) u(3)] and pc = regex_engine.path_chars[OF assms(1) u(4)]
  let ?s = "''at://'' @ a @ p"
  have vs: "\<forall>c\<in>set ?s. valid_path_char c"
  proof -
    have "valid_path_char CHR ''a''" "valid_path_char CHR ''t''" "valid_path_char CHR '':''" "valid_path_char CHR ''/''"
      by (simp_all add: valid_path_char_def ascii_defs char_le_of_char)
    then show ?thesis using ac pc by (auto simp: plain_char_def)
  qed
  then have "im VALID_PATH_CHARS ?s" unfolding VALID_PATH_CHARS_def regex_engine.im_Star_Cls[OF assms(1)] .
  moreover have "CHR ''#'' \<notin> set ?s" using vs valid_path_char_no_hash by blast
  note fr = regex_engine.fragment_split[OF assms(1) this u(5)]
  obtain ps where ps: "split_on CHR ''/'' ?s = ''at:'' # [] # a # ps" "check_segments im (''at:'' # [] # a # ps) = Inr ()"
    using regex_engine.check_segments_path[OF assms(1) u(3,4)] by blast
  moreover have "check_authority im a = Inr ()"
    using regex_engine.check_authority_ok[OF assms(1), of a] u(3) by (auto simp: is_ok_iff)
  moreover have "at_uri_new caps qp ?s None = Inr (if uri_host a then at_uri_from_parts a p else at_uri_from_parts ''at:'' (''//'' @ a @ p))"
    using capture_engine.at_uri_new_at[where caps = caps and qp = qp and a = a and p = p] assms(2,3) plain_safe[OF ac] pc by blast
  moreover have "u = ?s @ f" using u(2) by simp
  ultimately show ?thesis
    using u(1) fr by (simp add: ensure_valid_at_uri_def Let_def lift_err_def)
qed

lemma at_uri_rejected:
  assumes "regex_engine im" "is_ok (ensure_valid_at_uri im caps qp u)"
  shows "length u \<le> MAX_URI_LEN \<and> (\<exists>a p f. u = ''at://'' @ a @ p @ f \<and> authority_ok im a \<and> path_ok im p \<and> fragment_ok f)"
proof -
  let ?us = "split_on CHR ''#'' u"
  let ?s = "?us ! 0"
  have len: "length u \<le> MAX_URI_LEN" "length ?us \<le> 2" "3 \<le> length (split_on CHR ''/'' ?s)"
    "split_on CHR ''/'' ?s ! 0 = ''at:''" "split_on CHR ''/'' ?s ! 1 = []"
    and au: "is_ok (check_authority im (split_on CHR ''/'' ?s ! 2))" and sg: "is_ok (check_segments im (split_on CHR ''/'' ?s))"
    and fg: "is_ok (check_fragment im ?us)"
    using assms(2) by (auto simp: ensure_valid_at_uri_def Let_def is_ok_iff res_bind_eq_Inr_iff split: if_splits)
  obtain a ps where parts: "split_on CHR ''/'' ?s = ''at:'' # [] # a # ps"
    using len(3-5) by (cases "split_on CHR ''/'' ?s"; cases "tl (split_on CHR ''/'' ?s)"; cases "tl (tl (split_on CHR ''/'' ?s))") auto
  let ?p = "concat (map (Cons CHR ''/'') ps)"
  have s: "?s = ''at://'' @ a @ ?p"
    using join_split_on[of "CHR ''/''" ?s] unfolding parts regex_engine.join_slash[OF assms(1)] by simp
  have ok: "authority_ok im a" "path_ok im ?p"
    using au regex_engine.check_authority_ok[OF assms(1)] sg regex_engine.path_of_segments[OF assms(1)] unfolding parts by auto
  have "\<exists>f. u = ?s @ f \<and> fragment_ok f"
  proof -
    obtain x where x: "?us = [x] \<or> (\<exists>y. ?us = [x, y])" using len(2) split_on_nonempty[of "CHR ''#''" u]
      by (cases ?us; cases "tl ?us"; cases "tl (tl ?us)") auto
    then show ?thesis
    proof
      assume "?us = [x]"
      then show ?thesis using join_split_on[of "CHR ''#''" u] by (auto simp: fragment_ok_def)
    next
      assume "\<exists>y. ?us = [x, y]"
      then obtain y where y: "?us = [x, y]" by blast
      have "im VALID_FRAGMENT_CHARS y" using fg by (auto simp: y check_fragment_def nth_part_def split: if_splits)
      then show ?thesis
        using join_split_on[of "CHR ''#''" u] unfolding y by (auto simp: regex_engine.fragment_regex[OF assms(1)] fragment_ok_def)
    qed
  qed
  then show ?thesis using len(1) s ok by (metis append.assoc)
qed

text \<open>C40. \<open>ensure_valid_at_uri\<close> accepts exactly the URIs of at most 8192 bytes that are \<open>at://\<close>, a valid
  DID or handle, optionally a valid NSID, after it optionally a valid record key, and optionally a
  fragment that is a path.\<close>

theorem at_uri_accepts_exactly:
  assumes "regex_engine im" "capture_engine caps" "url_ok qp qs"
  shows "is_ok (ensure_valid_at_uri im caps qp u) \<longleftrightarrow>
    length u \<le> MAX_URI_LEN \<and> (\<exists>a p f. u = ''at://'' @ a @ p @ f \<and> authority_ok im a \<and> path_ok im p \<and> fragment_ok f)"
  using at_uri_accepted[of im caps qp u, OF assms(1,2)] at_uri_rejected[OF assms(1), of caps qp u] assms(3)
  by (auto simp: url_ok_def)

lemma at_uri_text: "''at://a.b#/x'' = ''at://'' @ ''a.b'' @ ''#/x''"
  by simp

lemma at_uri_short: "length ''at://a.b#/x'' \<le> MAX_URI_LEN"
  by (simp add: MAX_URI_LEN_def)

theorem at_uri_accepts_exactly_witness:
  "is_ok (ensure_valid_at_uri rmatch captures no_query ''at://a.b#/x'')"
proof -
  have "authority_ok rmatch ''a.b''"
    unfolding authority_ok_def drx.ensure_valid_handle_ok
    by (simp add: host_name_def host_label_def alnum_hyphen_def ascii_defs char_le_of_char)
  moreover have "path_ok rmatch []" "fragment_ok ''#/x''"
    by (auto simp: path_ok_def fragment_ok_def valid_fragment_char_def ascii_defs char_le_of_char)
  ultimately show ?thesis
    using at_uri_accepts_exactly[OF drx.regex_engine_axioms backtracking.capture_engine_axioms no_query_ok, of "''at://a.b#/x''"]
    by (metis (no_types) append_Nil at_uri_text at_uri_short)
qed

text \<open>The URI that \<open>ensure_valid_at_uri\<close> returns does not always name the authority it has checked:
  for a valid DID with an underscore, which the host pattern of \<open>AtUri::new\<close> does not allow, the parser
  falls back to reading \<open>at:\<close> as the host and the rest as a path.\<close>

theorem at_uri_valid_did_parsed_as_path:
  assumes "regex_engine im" "capture_engine caps" "url_ok qp qs"
    "length a \<le> 2048" "is_ok (ensure_valid_did im a)" "CHR ''_'' \<in> set a"
  shows "ensure_valid_at_uri im caps qp (''at://'' @ a) = Inr (at_uri_from_parts ''at:'' (''//'' @ a))"
proof -
  have ns: "to_ascii_lowercase CHR ''_'' = CHR ''_''" "\<not> uri_did_char CHR ''_''" "\<not> uri_host_char CHR ''_''" "\<not> is_ascii_alphanumeric CHR ''_''"
    by (simp_all add: to_ascii_lowercase_def uri_did_char_def uri_host_char_def ascii_defs char_le_of_char)
  have "\<not> uri_host a"
  proof
    assume "uri_host a"
    then show False unfolding uri_host_def
    proof
      assume h: "map to_ascii_lowercase (take 4 a) = ''did:'' \<and> drop 4 a \<noteq> [] \<and> list_all uri_did_char (drop 4 a)"
      have "CHR ''_'' \<in> set (take 4 a) \<or> CHR ''_'' \<in> set (drop 4 a)" using assms(6) by (metis append_take_drop_id set_append UnE)
      moreover have "CHR ''_'' \<notin> set (take 4 a)"
      proof
        assume "CHR ''_'' \<in> set (take 4 a)"
        then have "to_ascii_lowercase CHR ''_'' \<in> set ''did:''" using h by (metis image_eqI set_map)
        then show False by (simp add: ns)
      qed
      ultimately show False using h ns by (auto simp: list_all_iff)
    next
      assume "a \<noteq> [] \<and> is_ascii_alphanumeric (hd a) \<and> list_all uri_host_char (tl a)"
      then show False using assms(6) ns by (cases a) (auto simp: list_all_iff)
    qed
  qed
  then show ?thesis
    using at_uri_accepted[where im = im and caps = caps and qp = qp and u = "''at://'' @ a" and a = a and p = "[]" and f = "[]"] assms
    by (simp add: url_ok_def MAX_URI_LEN_def authority_ok_def path_ok_def fragment_ok_def)
qed

theorem at_uri_valid_did_parsed_as_path_witness:
  "ensure_valid_at_uri rmatch captures no_query ''at://did:x:a_b'' = Inr (at_uri_from_parts ''at:'' ''//did:x:a_b'')"
proof -
  have "''did:x:a_b'' = ''did:'' @ ''x'' @ '':'' @ ''a_b'' \<and> list_all is_ascii_lowercase ''x'' \<and>
      ''a_b'' \<noteq> [] \<and> list_all did_char ''a_b'' \<and> did_end_char (last ''a_b'')"
    by (simp add: did_char_def did_end_char_def ascii_defs char_le_of_char)
  then have "is_ok (ensure_valid_did rmatch ''did:x:a_b'')"
    unfolding drx.ensure_valid_did_ok did_shape_def by fastforce
  then show ?thesis
    using at_uri_valid_did_parsed_as_path[OF drx.regex_engine_axioms backtracking.capture_engine_axioms no_query_ok, of "''did:x:a_b''"]
    by simp
qed

end
