(* ===== verification/Syntax_Datetime.thy ===== *)
theory Syntax_Datetime
  imports Regex
begin

text \<open>
  \<open>rsky-syntax/src/datetime.rs\<close>: validation and normalisation of timestamps. The \<open>chrono\<close> crate,
  which parses and prints dates, is not part of the repository: the record \<open>chrono\<close> holds what the
  code calls of it, with \<open>'dt\<close> for an instant.
\<close>

section \<open>Model\<close>

record 'dt chrono =
  parse_rfc3339 :: "string \<Rightarrow> 'dt option"
  parse_rfc2822 :: "string \<Rightarrow> 'dt option"
  parse_str :: "string \<Rightarrow> string \<Rightarrow> 'dt option"
  parse_naive :: "string \<Rightarrow> string \<Rightarrow> 'dt option"
  year :: "'dt \<Rightarrow> int"
  format_utc :: "'dt \<Rightarrow> string"
  rfc2822_kind :: "string \<Rightarrow> string"

definition digit :: rexp where
  "digit = Cls is_ascii_digit"

definition digit_to :: "char \<Rightarrow> rexp" where
  "digit_to hi = Cls (in_range CHR ''0'' hi)"

text \<open>The dot before the fraction is not escaped in the pattern: it matches any character but a line feed.\<close>

definition DATETIME_REGEX :: rexp where
  "DATETIME_REGEX =
     Seq (Rep digit 4) (Seq (Chr CHR ''-'') (Seq (digit_to CHR ''1'') (Seq digit
      (Seq (Chr CHR ''-'') (Seq (digit_to CHR ''3'') (Seq digit (Seq (Chr CHR ''T'')
       (Seq (digit_to CHR ''2'') (Seq digit (Seq (Chr CHR '':'') (Seq (digit_to CHR ''5'') (Seq digit
        (Seq (Chr CHR '':'') (Seq (digit_to CHR ''5'') (Seq digit
         (Seq (Opt (Seq (Cls (\<lambda>c. c \<noteq> CHR 0x0A)) (Seq digit (UpTo digit 19))))
          (Alt (Chr CHR ''Z'')
            (Seq (Cls (\<lambda>c. c = CHR ''+'' \<or> c = CHR ''-'')) (Seq (digit_to CHR ''2'') (Seq digit
              (Seq (Chr CHR '':'') (Seq (digit_to CHR ''5'') digit))))))))))))))))))))))"

datatype datetime_error = InvalidDatetimeError string

definition ensure_valid_datetime ::
    "(rexp \<Rightarrow> string \<Rightarrow> bool) \<Rightarrow> 'dt chrono \<Rightarrow> string \<Rightarrow> datetime_error + 'dt" where
  "ensure_valid_datetime im C dt_str =
     (if \<not> im DATETIME_REGEX dt_str then Inl (InvalidDatetimeError ''datetime didn't validate via regex'')
      else if starts_with dt_str ''-'' then Inl (InvalidDatetimeError ''datetime normalized to a negative time'')
      else if starts_with dt_str ''000'' then Inl (InvalidDatetimeError ''datetime so close to year zero not allowed'')
      else
        (case parse_rfc3339 C dt_str of
           None \<Rightarrow> Inl (InvalidDatetimeError ''datetime did not parse as ISO 8601'')
         | Some parsed \<Rightarrow>
             if length dt_str > 64 then Inl (InvalidDatetimeError ''datetime is too long (64 chars max)'')
             else if ends_with dt_str ''-00:00'' then
               Inl (InvalidDatetimeError ''datetime can not use \"-00:00\" for UTC timezone'')
             else if year C parsed < 1 then Inl (InvalidDatetimeError ''datetime before year 1 not allowed'')
             else Inr parsed))"

definition is_valid_datetime :: "(rexp \<Rightarrow> string \<Rightarrow> bool) \<Rightarrow> 'dt chrono \<Rightarrow> string \<Rightarrow> bool" where
  "is_valid_datetime im C dt_str = is_ok (ensure_valid_datetime im C dt_str)"

text \<open>An instant counts only when its printed form is valid again.\<close>

definition formatted_if_valid :: "(rexp \<Rightarrow> string \<Rightarrow> bool) \<Rightarrow> 'dt chrono \<Rightarrow> 'dt option \<Rightarrow> string option" where
  "formatted_if_valid im C x =
     (case x of
        None \<Rightarrow> None
      | Some dt \<Rightarrow> (let f = format_utc C dt in if is_valid_datetime im C f then Some f else None))"

fun or_else :: "'a option list \<Rightarrow> 'a option" where
  "or_else [] = None"
| "or_else (x # xs) = (case x of Some y \<Rightarrow> Some y | None \<Rightarrow> or_else xs)"

definition flexible_parse :: "'dt chrono \<Rightarrow> string \<Rightarrow> 'dt option" where
  "flexible_parse C s =
     or_else
      [parse_rfc3339 C s,
       parse_str C ''%Y-%m-%dT%H:%M:%S%.f%:z'' s,
       parse_str C ''%Y-%m-%d %H:%M:%S%.f%:z'' s,
       parse_str C ''%a, %d %b %Y %H:%M:%S GMT'' s,
       parse_str C ''%a, %d %B %Y %H:%M:%S GMT'' s,
       parse_str C ''%A, %d %b %Y %H:%M:%S GMT'' s,
       parse_str C ''%A, %d %B %Y %H:%M:%S GMT'' s,
       parse_str C ''%a, %d %b %Y %H:%M:%S %Z'' s,
       parse_str C ''%a, %d %B %Y %H:%M:%S %Z'' s,
       parse_str C ''%A, %d %b %Y %H:%M:%S %Z'' s,
       parse_str C ''%A, %d %B %Y %H:%M:%S %Z'' s,
       parse_rfc2822 C s]"

definition normalize_datetime ::
    "(rexp \<Rightarrow> string \<Rightarrow> bool) \<Rightarrow> 'dt chrono \<Rightarrow> string \<Rightarrow> datetime_error + string" where
  "normalize_datetime im C dt_str =
     (case formatted_if_valid im C (parse_rfc3339 C dt_str) of
        Some f \<Rightarrow> Inr f
      | None \<Rightarrow>
          (case formatted_if_valid im C (parse_naive C ''%Y-%m-%dT%H:%M:%S%.3f'' dt_str) of
             Some f \<Rightarrow> Inr f
           | None \<Rightarrow>
               (case (if \<not> ends_with dt_str ''Z'' \<and> CHR ''+'' \<notin> set dt_str \<and> CHR ''-'' \<notin> set dt_str
                      then formatted_if_valid im C (parse_naive C ''%Y-%m-%dT%H:%M:%S'' dt_str) else None) of
                  Some f \<Rightarrow> Inr f
                | None \<Rightarrow>
                    (case flexible_parse C dt_str of
                       Some dt \<Rightarrow>
                         (let f = format_utc C dt in
                          if is_valid_datetime im C f then Inr f
                          else Inl (InvalidDatetimeError ''datetime normalized to invalid timestamp string''))
                     | None \<Rightarrow>
                         Inl (InvalidDatetimeError
                           (''datetime did not parse as any timestamp format, ParseErrorKind: '' @ rfc2822_kind C dt_str))))))"

definition EPOCH :: string where
  "EPOCH = ''1970-01-01T00:00:00.000Z''"

definition normalize_datetime_always :: "(rexp \<Rightarrow> string \<Rightarrow> bool) \<Rightarrow> 'dt chrono \<Rightarrow> string \<Rightarrow> string" where
  "normalize_datetime_always im C dt_str =
     (case normalize_datetime im C dt_str of Inr dt \<Rightarrow> dt | Inl _ \<Rightarrow> EPOCH)"

section \<open>Facts\<close>

lemma formatted_if_valid_Some:
  "formatted_if_valid im C x = Some f \<Longrightarrow> is_valid_datetime im C f \<and> (\<exists>dt. f = format_utc C dt)"
  by (auto simp: formatted_if_valid_def Let_def split: option.splits if_splits)

lemma normalized_valid:
  "normalize_datetime im C s = Inr f \<Longrightarrow> is_valid_datetime im C f \<and> (\<exists>dt. f = format_utc C dt)"
  using formatted_if_valid_Some[of im C _ f]
  by (auto simp: normalize_datetime_def Let_def split: option.splits if_splits)

text \<open>Dates are printed so that reading them back gives an instant that prints the same.\<close>

definition prints_back :: "'dt chrono \<Rightarrow> bool" where
  "prints_back C \<longleftrightarrow> (\<forall>dt dt'. parse_rfc3339 C (format_utc C dt) = Some dt' \<longrightarrow> format_utc C dt' = format_utc C dt)"

definition epoch_parses :: "'dt chrono \<Rightarrow> bool" where
  "epoch_parses C = (case parse_rfc3339 C EPOCH of None \<Rightarrow> False | Some dt \<Rightarrow> year C dt = 1970 \<and> format_utc C dt = EPOCH)"

lemma epoch_valid:
  assumes "regex_engine im" "epoch_parses C"
  shows "is_valid_datetime im C EPOCH"
proof -
  have "rmatch DATETIME_REGEX EPOCH"
    by (simp add: rmatch_def EPOCH_def DATETIME_REGEX_def digit_def digit_to_def Chr_def Opt_def in_range_def
        is_ascii_digit_def char_le_of_char numeral_eq_Suc)
  then have "im DATETIME_REGEX EPOCH" using regex_engine.im_iff[OF assms(1)] rmatch_iff by simp
  then show ?thesis
    using assms(2) by (auto simp: is_valid_datetime_def ensure_valid_datetime_def epoch_parses_def EPOCH_def
        starts_with_def ends_with_def split: option.splits)
qed

lemma valid_parses: "is_valid_datetime im C f \<Longrightarrow> \<exists>dt. parse_rfc3339 C f = Some dt"
  by (auto simp: is_valid_datetime_def ensure_valid_datetime_def is_ok_iff split: option.splits if_splits)

lemma normalize_printed:
  assumes "prints_back C" "is_valid_datetime im C f" "f = format_utc C dt"
  shows "normalize_datetime im C f = Inr f"
proof -
  obtain dt' where "parse_rfc3339 C f = Some dt'" using valid_parses[OF assms(2)] by blast
  moreover from this have "format_utc C dt' = f" using assms(1,3) by (auto simp: prints_back_def)
  ultimately show ?thesis using assms(2) by (simp add: normalize_datetime_def formatted_if_valid_def)
qed

section \<open>Properties\<close>

text \<open>Normalisation is sound and stable: whatever \<open>normalize_datetime\<close> returns is a valid datetime
  that it returns unchanged when asked again, and \<open>normalize_datetime_always\<close> returns a valid
  datetime on every input.\<close>

theorem normalize_datetime_valid_and_stable:
  assumes "regex_engine im" "prints_back C" "epoch_parses C"
  shows "(\<forall>f. normalize_datetime im C s = Inr f \<longrightarrow> is_valid_datetime im C f \<and> normalize_datetime im C f = Inr f) \<and>
    is_valid_datetime im C (normalize_datetime_always im C s)"
  using normalized_valid[of im C s] normalize_printed[OF assms(2)] epoch_valid[OF assms(1,3)]
  by (auto simp: normalize_datetime_always_def split: sum.splits)

definition epoch_chrono :: "unit chrono" where
  "epoch_chrono = \<lparr>parse_rfc3339 = (\<lambda>s. if s = EPOCH then Some () else None), parse_rfc2822 = (\<lambda>s. None),
     parse_str = (\<lambda>f s. None), parse_naive = (\<lambda>f s. if s = ''1970-01-01T00:00:00'' then Some () else None),
     year = (\<lambda>_. 1970), format_utc = (\<lambda>_. EPOCH), rfc2822_kind = (\<lambda>s. ''Invalid'')\<rparr>"

theorem normalize_datetime_valid_and_stable_witness:
  "is_valid_datetime rmatch epoch_chrono (normalize_datetime_always rmatch epoch_chrono ''garbage'')"
proof -
  have "prints_back epoch_chrono" "epoch_parses epoch_chrono"
    by (simp_all add: prints_back_def epoch_parses_def epoch_chrono_def)
  from normalize_datetime_valid_and_stable[OF drx.regex_engine_axioms this] show ?thesis by blast
qed

end
