(* ===== verification/Lex_Ipld.thy ===== *)
theory Lex_Ipld
  imports Block_Map
begin

text \<open>
  Record values: \<open>Ipld\<close> of \<open>rsky-repo/src/storage/mod.rs\<close>, \<open>Lex\<close> of \<open>types.rs\<close>, the blob references of
  \<open>rsky-lexicon/src/blob_refs.rs\<close>, and the conversions of \<open>util.rs\<close> between them. A \<open>BTreeMap\<close> is the
  list of its entries in key order. What \<open>serde\<close> and the CID crate do is in \<open>lex_ext\<close>; an
  \<open>expect\<close> that fails is the error \<open>BlobPanic\<close>.
\<close>

section \<open>Values\<close>

datatype json_number = PosInt nat | NegInt int | Float "64 word"

datatype json =
    JNull
  | JBool bool
  | JNumber json_number
  | JString string
  | JArray "json list"
  | JObject "(string \<times> json) list"

datatype ipld =
    Link cid
  | IList "ipld list"
  | IMap "(string \<times> ipld) list"
  | IString string
  | IBytes bytes
  | IJson json

record cid_link_ref =
  link :: string

record typed_json_blob_ref =
  tb_type :: string
  tb_ref :: cid_link_ref
  tb_mime_type :: string
  tb_size :: int

record untyped_json_blob_ref =
  ub_cid :: string
  ub_mime_type :: string

datatype json_blob_ref = Typed typed_json_blob_ref | Untyped untyped_json_blob_ref

record blob_ref =
  original :: json_blob_ref

datatype lex =
    LexIpld ipld
  | LexBlob blob_ref
  | LexList "lex list"
  | LexMap "(string \<times> lex) list"

type_synonym repo_record = "(string \<times> lex) list"

text \<open>The functions of the libraries: parsing a CID, and the \<open>serde\<close> conversions of a JSON value.\<close>

record lex_ext =
  parse_cid :: "string \<Rightarrow> cid option"
  json_cid :: "json \<Rightarrow> cid option"
  json_blob :: "json \<Rightarrow> json_blob_ref option"
  blob_json :: "json_blob_ref \<Rightarrow> json"
  json_i64 :: "int \<Rightarrow> json"

datatype lex_error = BlobPanic | InvalidCid string | CborError | RecordNotObject

section \<open>BlobRef\<close>

definition blob_new :: "cid \<Rightarrow> string \<Rightarrow> int \<Rightarrow> json_blob_ref option \<Rightarrow> blob_ref" where
  "blob_new r mime sz orig =
     (case orig of
        Some j \<Rightarrow> \<lparr>original = j\<rparr>
      | None \<Rightarrow>
          \<lparr>original = Typed \<lparr>tb_type = ''blob'', tb_ref = \<lparr>link = r\<rparr>, tb_mime_type = mime, tb_size = sz\<rparr>\<rparr>)"

definition blob_link :: "blob_ref \<Rightarrow> string" where
  "blob_link b = (case original b of Typed t \<Rightarrow> link (tb_ref t) | Untyped u \<Rightarrow> ub_cid u)"

definition blob_get_cid :: "lex_ext \<Rightarrow> blob_ref \<Rightarrow> lex_error + cid" where
  "blob_get_cid E b =
     (case parse_cid E (blob_link b) of None \<Rightarrow> Inl (InvalidCid (blob_link b)) | Some c \<Rightarrow> Inr c)"

definition blob_get_mime_type :: "blob_ref \<Rightarrow> string" where
  "blob_get_mime_type b = (case original b of Typed t \<Rightarrow> tb_mime_type t | Untyped u \<Rightarrow> ub_mime_type u)"

definition blob_get_size :: "blob_ref \<Rightarrow> int option" where
  "blob_get_size b = (case original b of Typed t \<Rightarrow> Some (tb_size t) | Untyped u \<Rightarrow> None)"

definition from_json_ref :: "lex_ext \<Rightarrow> json_blob_ref \<Rightarrow> lex_error + blob_ref" where
  "from_json_ref E j =
     res_bind (blob_get_cid E \<lparr>original = j\<rparr>) (\<lambda>c.
       Inr (case j of
              Typed t \<Rightarrow> blob_new c (tb_mime_type t) (tb_size t) None
            | Untyped u \<Rightarrow> blob_new c (ub_mime_type u) (-1) (Some j)))"

definition blob_ipld :: "blob_ref \<Rightarrow> lex_error + typed_json_blob_ref" where
  "blob_ipld b =
     (case original b of
        Typed t \<Rightarrow> Inr \<lparr>tb_type = ''blob'', tb_ref = tb_ref t, tb_mime_type = tb_mime_type t, tb_size = tb_size t\<rparr>
      | Untyped u \<Rightarrow> Inl BlobPanic)"

section \<open>Lex to Ipld\<close>

definition btree_from :: "(string \<times> 'v) list \<Rightarrow> (string \<times> 'v) list" where
  "btree_from xs = fold (\<lambda>(k, v). kinsert k v) xs []"

definition blob_to_ipld :: "lex_ext \<Rightarrow> blob_ref \<Rightarrow> ipld" where
  "blob_to_ipld E b =
     (case original b of
        Typed t \<Rightarrow>
          (case parse_cid E (link (tb_ref t)) of
             Some c \<Rightarrow>
               IMap (btree_from [(''$type'', IString ''blob''), (''ref'', Link c),
                 (''mimeType'', IString (tb_mime_type t)), (''size'', IJson (json_i64 E (tb_size t)))])
           | None \<Rightarrow> IJson (blob_json E (Typed t)))
      | Untyped u \<Rightarrow>
          IMap (btree_from [(''cid'', IString (ub_cid u)), (''mimeType'', IString (ub_mime_type u))]))"

fun lex_to_ipld :: "lex_ext \<Rightarrow> lex \<Rightarrow> ipld" where
  "lex_to_ipld E (LexList l) = IList (map (lex_to_ipld E) l)"
| "lex_to_ipld E (LexMap m) = IMap (map (\<lambda>(k, v). (k, lex_to_ipld E v)) m)"
| "lex_to_ipld E (LexBlob b) = blob_to_ipld E b"
| "lex_to_ipld E (LexIpld i) =
     (case i of
        IJson j \<Rightarrow> (case json_cid E j of Some c \<Rightarrow> Link c | None \<Rightarrow> IJson j)
      | _ \<Rightarrow> i)"

section \<open>Ipld to Lex\<close>

fun ipld_as_json :: "ipld \<Rightarrow> json option" where
  "ipld_as_json (Link c) = Some (JObject [(''$link'', JString c)])"
| "ipld_as_json (IString s) = Some (JString s)"
| "ipld_as_json (IJson j) = Some j"
| "ipld_as_json (IMap inner) =
     (if length inner = 1
      then (case map_of inner ''$link'' of
              Some (IString l) \<Rightarrow> Some (JObject [(''$link'', JString l)])
            | _ \<Rightarrow> None)
      else None)"
| "ipld_as_json _ = None"

fun entries_as_json :: "(string \<times> ipld) list \<Rightarrow> (string \<times> json) list option" where
  "entries_as_json [] = Some []"
| "entries_as_json ((k, v) # m) =
     Option.bind (ipld_as_json v) (\<lambda>j. map_option (Cons (k, j)) (entries_as_json m))"

definition ipld_is_string :: "ipld option \<Rightarrow> bool" where
  "ipld_is_string v = (case v of Some (IString _) \<Rightarrow> True | _ \<Rightarrow> False)"

definition ipld_map_as_blob :: "lex_ext \<Rightarrow> (string \<times> ipld) list \<Rightarrow> blob_ref option" where
  "ipld_map_as_blob E m =
     (let typed = (map_of m ''$type'' = Some (IString ''blob''));
          legacy = (ipld_is_string (map_of m ''cid'') \<and> ipld_is_string (map_of m ''mimeType''))
      in if \<not> typed \<and> \<not> legacy then None
         else Option.bind (entries_as_json m) (\<lambda>obj.
                map_option (\<lambda>o'. \<lparr>original = o'\<rparr>) (json_blob E (JObject obj))))"

definition json_get :: "string \<Rightarrow> json \<Rightarrow> json option" where
  "json_get k j = (case j of JObject m \<Rightarrow> map_of m k | _ \<Rightarrow> None)"

definition json_is_string :: "json option \<Rightarrow> bool" where
  "json_is_string v = (case v of Some (JString _) \<Rightarrow> True | _ \<Rightarrow> False)"

definition json_looks_like_blob :: "json \<Rightarrow> bool" where
  "json_looks_like_blob j \<longleftrightarrow>
     json_get ''$type'' j = Some (JString ''blob'') \<or>
     json_is_string (json_get ''cid'' j) \<and> json_is_string (json_get ''mimeType'' j)"

fun ipld_to_lex :: "lex_ext \<Rightarrow> ipld \<Rightarrow> lex_error + lex" where
  "ipld_to_lex E (IList l) = res_bind (res_map (ipld_to_lex E) l) (\<lambda>xs. Inr (LexList xs))"
| "ipld_to_lex E (IMap m) =
     (case ipld_map_as_blob E m of
        Some b \<Rightarrow> Inr (LexBlob b)
      | None \<Rightarrow>
          res_bind (res_map (\<lambda>(k, v). res_bind (ipld_to_lex E v) (\<lambda>x. Inr (k, x))) m) (\<lambda>xs. Inr (LexMap xs)))"
| "ipld_to_lex E (IJson j) =
     (if json_looks_like_blob j
      then (case json_blob E j of Some b \<Rightarrow> Inr (LexBlob \<lparr>original = b\<rparr>) | None \<Rightarrow> Inl BlobPanic)
      else Inr (LexIpld (IJson j)))"
| "ipld_to_lex E v = Inr (LexIpld v)"

fun normalize_lex_blob_refs :: "lex_ext \<Rightarrow> lex \<Rightarrow> lex_error + lex" where
  "normalize_lex_blob_refs E (LexIpld i) = ipld_to_lex E i"
| "normalize_lex_blob_refs E (LexMap m) =
     res_bind (res_map (\<lambda>(k, v). res_bind (normalize_lex_blob_refs E v) (\<lambda>x. Inr (k, x))) m) (\<lambda>xs. Inr (LexMap xs))"
| "normalize_lex_blob_refs E (LexList l) =
     res_bind (res_map (normalize_lex_blob_refs E) l) (\<lambda>xs. Inr (LexList xs))"
| "normalize_lex_blob_refs E (LexBlob b) = Inr (LexBlob b)"

definition normalize_record_blob_refs :: "lex_ext \<Rightarrow> repo_record \<Rightarrow> lex_error + repo_record" where
  "normalize_record_blob_refs E r =
     res_map (\<lambda>(k, v). res_bind (normalize_lex_blob_refs E v) (\<lambda>x. Inr (k, x))) r"

text \<open>\<open>dec\<close> is the DAG-CBOR decoder.\<close>

definition cbor_to_lex :: "lex_ext \<Rightarrow> (bytes \<Rightarrow> ipld option) \<Rightarrow> bytes \<Rightarrow> lex_error + lex" where
  "cbor_to_lex E dec b = (case dec b of None \<Rightarrow> Inl CborError | Some obj \<Rightarrow> ipld_to_lex E obj)"

definition cbor_to_lex_record :: "lex_ext \<Rightarrow> (bytes \<Rightarrow> ipld option) \<Rightarrow> bytes \<Rightarrow> lex_error + repo_record" where
  "cbor_to_lex_record E dec b =
     res_bind (cbor_to_lex E dec b) (\<lambda>parsed. case parsed of LexMap m \<Rightarrow> Inr m | _ \<Rightarrow> Inl RecordNotObject)"

section \<open>Round trip\<close>

text \<open>The shape of a blob reference in a block, and of the older form without a link.\<close>

definition typed_blob :: "lex_ext \<Rightarrow> cid \<Rightarrow> string \<Rightarrow> int \<Rightarrow> (string \<times> ipld) list" where
  "typed_blob E c mime sz =
     [(''$type'', IString ''blob''), (''mimeType'', IString mime), (''ref'', Link c), (''size'', IJson (json_i64 E sz))]"

definition legacy_blob :: "string \<Rightarrow> string \<Rightarrow> (string \<times> ipld) list" where
  "legacy_blob c mime = [(''cid'', IString c), (''mimeType'', IString mime)]"

text \<open>What is relied on of \<open>serde\<close> and of the CID crate: these two shapes are read as the structs.\<close>

definition serde_ok :: "lex_ext \<Rightarrow> bool" where
  "serde_ok E \<longleftrightarrow>
     (\<forall>c mime sz. json_blob E (JObject [(''$type'', JString ''blob''), (''mimeType'', JString mime),
        (''ref'', JObject [(''$link'', JString c)]), (''size'', json_i64 E sz)]) =
      Some (Typed \<lparr>tb_type = ''blob'', tb_ref = \<lparr>link = c\<rparr>, tb_mime_type = mime, tb_size = sz\<rparr>)) \<and>
     (\<forall>c mime. json_blob E (JObject [(''cid'', JString c), (''mimeType'', JString mime)]) =
      Some (Untyped \<lparr>ub_cid = c, ub_mime_type = mime\<rparr>))"

definition claims_blob :: "(string \<times> ipld) list \<Rightarrow> bool" where
  "claims_blob m \<longleftrightarrow> map_of m ''$type'' = Some (IString ''blob'') \<or>
     ipld_is_string (map_of m ''cid'') \<and> ipld_is_string (map_of m ''mimeType'')"

definition blob_shaped :: "lex_ext \<Rightarrow> (string \<times> ipld) list \<Rightarrow> bool" where
  "blob_shaped E m \<longleftrightarrow>
     (\<exists>c mime sz. m = typed_blob E c mime sz \<and> parse_cid E c = Some c) \<or> (\<exists>c mime. m = legacy_blob c mime)"

text \<open>A value in which every map that claims to be a blob reference has one of the two shapes.\<close>

fun well_shaped :: "lex_ext \<Rightarrow> ipld \<Rightarrow> bool" where
  "well_shaped E (IList l) \<longleftrightarrow> (\<forall>v\<in>set l. well_shaped E v)"
| "well_shaped E (IMap m) \<longleftrightarrow> blob_shaped E m \<or> \<not> claims_blob m \<and> (\<forall>p\<in>set m. well_shaped E (snd p))"
| "well_shaped E (IJson j) \<longleftrightarrow> \<not> json_looks_like_blob j \<and> json_cid E j = None"
| "well_shaped E _ \<longleftrightarrow> True"

lemma btree_typed:
  "btree_from [(''$type'', a), (''ref'', b), (''mimeType'', c), (''size'', d)] =
     [(''$type'', a), (''mimeType'', c), (''ref'', b), (''size'', d)]"
  by (simp add: btree_from_def kinsert_def kbelow_def kabove_def less_char_def)

lemma btree_legacy: "btree_from [(''cid'', a), (''mimeType'', b)] = [(''cid'', a), (''mimeType'', b)]"
  by (simp add: btree_from_def kinsert_def kbelow_def kabove_def less_char_def)

lemma blob_shape_round_trip:
  assumes "serde_ok E" "blob_shaped E m"
  shows "\<exists>b. ipld_map_as_blob E m = Some b \<and> blob_to_ipld E b = IMap m"
  using assms(2) unfolding blob_shaped_def
proof
  assume "\<exists>c mime sz. m = typed_blob E c mime sz \<and> parse_cid E c = Some c"
  then show ?thesis
    using assms(1) by (auto simp: serde_ok_def typed_blob_def ipld_map_as_blob_def blob_to_ipld_def btree_typed)
next
  assume "\<exists>c mime. m = legacy_blob c mime"
  then show ?thesis
    using assms(1) by (auto simp: serde_ok_def legacy_blob_def ipld_map_as_blob_def blob_to_ipld_def btree_legacy ipld_is_string_def)
qed

lemma not_claims_blob: "\<not> claims_blob m \<Longrightarrow> ipld_map_as_blob E m = None"
  by (auto simp: claims_blob_def ipld_map_as_blob_def)

lemma res_map_round_trip:
  assumes "\<And>x. x \<in> set xs \<Longrightarrow> \<exists>y. f x = Inr y \<and> g y = x"
  shows "\<exists>ys. res_map f xs = Inr ys \<and> map g ys = xs"
  using assms
proof (induction xs)
  case (Cons x xs)
  obtain y ys where "f x = Inr y" "g y = x" "res_map f xs = Inr ys" "map g ys = xs"
    using Cons.IH Cons.prems by (meson list.set_intros)
  then show ?case by simp
qed simp

text \<open>A record value read from a block is written back as it was: when every map that claims to be
  a blob reference has the shape of one, \<open>ipld_to_lex\<close> does not panic and \<open>lex_to_ipld\<close> inverts it, so
  the re-encoded block has the same bytes and the same CID.\<close>

theorem lex_ipld_round_trip:
  assumes "serde_ok E" "well_shaped E v"
  shows "\<exists>l. ipld_to_lex E v = Inr l \<and> lex_to_ipld E l = v"
  using assms
proof (induction E v rule: ipld_to_lex.induct)
  case (1 E l)
  have "\<exists>ys. res_map (ipld_to_lex E) l = Inr ys \<and> map (lex_to_ipld E) ys = l"
    using 1 by (intro res_map_round_trip) auto
  then show ?case by auto
next
  case (2 E m)
  show ?case
  proof (cases "blob_shaped E m")
    case True
    then show ?thesis using blob_shape_round_trip[OF 2(2) True] by auto
  next
    case False
    then have sh: "\<not> claims_blob m" "\<forall>p\<in>set m. well_shaped E (snd p)" using 2(3) by auto
    have none: "ipld_map_as_blob E m = None" by (rule not_claims_blob[OF sh(1)])
    let ?f = "\<lambda>(k, v). res_bind (ipld_to_lex E v) (\<lambda>x. Inr (k, x))" and ?g = "\<lambda>(k, v). (k, lex_to_ipld E v)"
    have "\<exists>y. ?f p = Inr y \<and> ?g y = p" if p: "p \<in> set m" for p
    proof -
      obtain k v where kv: "p = (k, v)" by (cases p)
      obtain x where "ipld_to_lex E v = Inr x" "lex_to_ipld E x = v"
        using 2(1)[OF none p kv[symmetric] 2(2)] bspec[OF sh(2) p] kv by auto
      then show ?thesis using kv by simp
    qed
    then obtain ys where "res_map ?f m = Inr ys" "map ?g ys = m" using res_map_round_trip[of m ?f ?g] by blast
    then show ?thesis using none by simp
  qed
qed auto

definition plain_json :: "int \<Rightarrow> json" where
  "plain_json n = JNumber (if n < 0 then NegInt n else PosInt (nat n))"

fun read_number :: "json option \<Rightarrow> int option" where
  "read_number (Some (JNumber (PosInt n))) = Some (int n)"
| "read_number (Some (JNumber (NegInt n))) = Some n"
| "read_number _ = None"

text \<open>An instance: the two structs read field by field.\<close>

definition demo_blob :: "json \<Rightarrow> json_blob_ref option" where
  "demo_blob j =
     (case (json_get ''$type'' j, Option.bind (json_get ''ref'' j) (json_get ''$link''), json_get ''mimeType'' j, read_number (json_get ''size'' j)) of
        (Some (JString t), Some (JString l), Some (JString m), Some n) \<Rightarrow>
          Some (Typed \<lparr>tb_type = t, tb_ref = \<lparr>link = l\<rparr>, tb_mime_type = m, tb_size = n\<rparr>)
      | _ \<Rightarrow>
          (case (json_get ''cid'' j, json_get ''mimeType'' j) of
             (Some (JString c), Some (JString m)) \<Rightarrow> Some (Untyped \<lparr>ub_cid = c, ub_mime_type = m\<rparr>)
           | _ \<Rightarrow> None))"

definition demo_lex :: lex_ext where
  "demo_lex = \<lparr>parse_cid = Some, json_cid = (\<lambda>_. None), json_blob = demo_blob, blob_json = (\<lambda>_. JNull), json_i64 = plain_json\<rparr>"

lemma demo_serde_ok: "serde_ok demo_lex"
  by (auto simp: serde_ok_def demo_lex_def demo_blob_def json_get_def plain_json_def)

theorem lex_ipld_round_trip_witness:
  "\<exists>l. ipld_to_lex demo_lex (IMap [(''a'', IList [Link ''c'', IMap (legacy_blob ''x'' ''y'')]), (''b'', IMap (typed_blob demo_lex ''c'' ''image/png'' 7))]) = Inr l \<and>
     lex_to_ipld demo_lex l = IMap [(''a'', IList [Link ''c'', IMap (legacy_blob ''x'' ''y'')]), (''b'', IMap (typed_blob demo_lex ''c'' ''image/png'' 7))]"
proof -
  have "blob_shaped demo_lex (legacy_blob ''x'' ''y'')" "blob_shaped demo_lex (typed_blob demo_lex ''c'' ''image/png'' 7)"
    unfolding blob_shaped_def by (fastforce simp: demo_lex_def)+
  then show ?thesis
    using lex_ipld_round_trip[OF demo_serde_ok, of "IMap [(''a'', IList [Link ''c'', IMap (legacy_blob ''x'' ''y'')]), (''b'', IMap (typed_blob demo_lex ''c'' ''image/png'' 7))]"]
    by (simp add: claims_blob_def ipld_is_string_def del: ipld_to_lex.simps)
qed

end
