(* ===== verification/Mst_Blocks.thy ===== *)
theory Mst_Blocks
  imports Mst_Diff_Correct
begin

text \<open>
  The blocks of a tree: the CIDs of its nodes, which are distinct within one tree, and what the
  comparison of two trees says about them. \<open>new_mst_blocks\<close> holds exactly the nodes of the new
  tree that the old one lacks, \<open>removed_mst_blocks\<close> the converse, and a store changed by this
  difference holds every node of the new tree.
\<close>

section \<open>The node CIDs of a tree\<close>

definition node_cid :: "ext \<Rightarrow> blocks \<Rightarrow> node_entry \<Rightarrow> cid list" where
  "node_cid X B e =
     (case e of
        LeafE _ _ \<Rightarrow> []
      | TreeE s \<Rightarrow> (case get_pointer X B mst_fuel s of Inr c \<Rightarrow> [c] | Inl _ \<Rightarrow> []))"

definition tcids :: "ext \<Rightarrow> blocks \<Rightarrow> node_entry list \<Rightarrow> cid list" where
  "tcids X B es = concat (map (node_cid X B) (concat (map (nodes X B mst_fuel) es)))"

lemma tcids_simps [simp]:
  "tcids X B [] = []" "tcids X B (es @ fs) = tcids X B es @ tcids X B fs" "tcids X B (LeafE k v # es) = tcids X B es"
  by (simp_all add: tcids_def node_cid_def)

lemma tcids_Cons: "tcids X B (e # es) = tcids X B [e] @ tcids X B es"
  by (simp add: tcids_def)

lemma good_bounded: "good X B s \<Longrightarrow> bounded X B mst_fuel (TreeE s)"
  unfolding good_def using bounded_wf bounded_upto by (metis Suc_leI)

lemma tcids_tree:
  assumes "good X B s" "get_entries X B s = Inr gs" "get_pointer X B mst_fuel s = Inr c"
  shows "tcids X B (TreeE s # es) = tcids X B gs @ c # tcids X B es"
  using bounded_children(2)[OF good_bounded[OF assms(1)]] assms(2,3)
  by (simp add: tcids_def node_cid_def del: nodes.simps get_pointer.simps)

section \<open>Equal CIDs, equal trees\<close>

definition same_child :: "ext \<Rightarrow> blocks \<Rightarrow> node_entry \<Rightarrow> node_entry \<Rightarrow> bool" where
  "same_child X B e f =
     (case (e, f) of
        (LeafE _ _, LeafE _ _) \<Rightarrow> e = f
      | (TreeE s, TreeE u) \<Rightarrow> get_pointer X B mst_fuel s = get_pointer X B mst_fuel u
      | _ \<Rightarrow> False)"

text \<open>The entries of a good node, with the CIDs of its subtrees, are what its CID is computed from.\<close>

lemma good_refreshed:
  assumes "good X B s" "get_entries X B s = Inr gs"
  obtains gs' d where "list_all2 (\<lambda>e e'. refresh_entry X B mst_fuel e = Inr e') gs gs'"
    "serialize_node_data X gs' = Inr d" "get_pointer X B mst_fuel s = Inr (x_cid X d)"
    "mst_serialize X B mst_fuel s = Inr (x_cid X d, x_enc X d)"
proof -
  obtain L c where L: "wf_mst X B L s" "L < mst_fuel" "root_cid X B (Suc L) s = Inr c"
    using assms(1) by (auto simp: good_def)
  have es: "entries_ok X L (sub_ok X B L) gs" using L(1) by (rule wf_mst_E) (use assms(2) in simp)
  have "refresh_entry X B mst_fuel e = cid_entry X B L e" if e: "e \<in> set gs" for e
    using refresh_cid_entry[OF es e, of mst_fuel] get_pointer_ok[of X B _ _ mst_fuel] L(2) by simp
  then have r: "res_map (refresh_entry X B mst_fuel) gs = res_map (cid_entry X B L) gs" by (intro res_map_cong) simp_all
  then obtain gs' d where g: "res_map (refresh_entry X B mst_fuel) gs = Inr gs'" "serialize_node_data X gs' = Inr d" "c = x_cid X d"
    using L(3) assms(2) unfolding root_cid_Suc by (auto simp: res_bind_eq_Inr_iff cid_for_entries_def)
  show ?thesis
  proof (rule that[OF res_map_list_all2[OF g(1)] g(2)])
    show "get_pointer X B mst_fuel s = Inr (x_cid X d)" using get_pointer_ok[OF L(1,2)] L(3) g(3) by simp
    show "mst_serialize X B mst_fuel s = Inr (x_cid X d, x_enc X d)" using assms(2) g(1,2) by (simp add: mst_serialize_def)
  qed
qed

lemma good_same_children:
  assumes X: "collision_free X" and s: "good X B s" "get_entries X B s = Inr gs" and u: "good X B u" "get_entries X B u = Inr hs"
    and eq: "get_pointer X B mst_fuel s = get_pointer X B mst_fuel u"
  shows "list_all2 (same_child X B) gs hs"
proof -
  obtain gs' d where g: "list_all2 (\<lambda>e e'. refresh_entry X B mst_fuel e = Inr e') gs gs'" "serialize_node_data X gs' = Inr d"
    "get_pointer X B mst_fuel s = Inr (x_cid X d)" using good_refreshed[OF s] by metis
  obtain hs' d' where h: "list_all2 (\<lambda>e e'. refresh_entry X B mst_fuel e = Inr e') hs hs'" "serialize_node_data X hs' = Inr d'"
    "get_pointer X B mst_fuel u = Inr (x_cid X d')" using good_refreshed[OF u] by metis
  have "d = d'" using eq g(3) h(3) X by (auto simp: collision_free_def dest: injD)
  then have sp: "list_all2 same_pointers gs' hs'" using serialize_inj g(2) h(2) X by (auto simp: collision_free_def)
  have ref: "same_child X B e f" if "refresh_entry X B mst_fuel e = Inr e'" "refresh_entry X B mst_fuel f = Inr f'" "same_pointers e' f'" for e f e' f'
  proof -
    have ptr: "\<exists>p. get_pointer X B mst_fuel t = Inr p \<and> t' = TreeE (set_pointer t p)" if "refresh_entry X B mst_fuel (TreeE t) = Inr t'" for t t'
      using that by (cases "outdated t") (auto simp: refresh_entry_def res_bind_eq_Inr_iff set_pointer_id mst_fuel_def)
    show ?thesis
      using that by (cases e; cases f) (auto simp: same_child_def refresh_entry_def[of _ _ _ "LeafE _ _"] same_pointers_TreeE dest!: ptr)
  qed
  show ?thesis using g(1) h(1) sp ref by (fastforce simp: list_all2_conv_all_nth)
qed

lemma tcids_cong: "list_all2 (\<lambda>e f. tcids X B [e] = tcids X B' [f]) es fs \<Longrightarrow> tcids X B es = tcids X B' fs"
proof (induction rule: list_all2_induct)
  case (Cons e es f fs)
  then show ?case using tcids_Cons[of X B e es] tcids_Cons[of X B' f fs] by simp
qed simp

lemma cost_member: "e \<in> set es \<Longrightarrow> cost X B mst_fuel e \<le> cc X B es"
  by (induction es) auto

lemma same_pointer_tcids:
  assumes X: "collision_free X"
  shows "good X B s \<Longrightarrow> good X B u \<Longrightarrow> get_pointer X B mst_fuel s = get_pointer X B mst_fuel u \<Longrightarrow>
    tcids X B [TreeE s] = tcids X B [TreeE u]"
proof (induction "cost X B mst_fuel (TreeE s)" arbitrary: s u rule: less_induct)
  case less
  obtain gs c where g: "get_entries X B s = Inr gs" "list_all (good_entry X B) gs" "cost X B mst_fuel (TreeE s) = 3 + cc X B gs"
    "get_pointer X B mst_fuel s = Inr c" using good_E[OF less.prems(1)] by metis
  obtain hs where h: "get_entries X B u = Inr hs" "list_all (good_entry X B) hs" using good_E[OF less.prems(2)] by metis
  have "tcids X B [e] = tcids X B [f]" if sc: "same_child X B e f" and ef: "e \<in> set gs" "f \<in> set hs" for e f
  proof (cases e)
    case (TreeE a)
    then obtain b where b: "f = TreeE b" "get_pointer X B mst_fuel a = get_pointer X B mst_fuel b"
      using sc by (cases f) (auto simp: same_child_def)
    have "good X B a" "good X B b" using g(2) h(2) ef TreeE b(1) by (auto simp: list_all_iff good_entry_def)
    moreover have "cost X B mst_fuel (TreeE a) < cost X B mst_fuel (TreeE s)"
      using cost_member[OF ef(1), of X B] g(3) TreeE by (simp del: cost.simps)
    ultimately show ?thesis using less.hyps b TreeE by blast
  next
    case (LeafE k v)
    then show ?thesis using sc by (cases f) (auto simp: same_child_def)
  qed
  then have "list_all2 (\<lambda>e f. tcids X B [e] = tcids X B [f]) gs hs"
    using good_same_children[OF X less.prems(1) g(1) less.prems(2) h(1) less.prems(3)]
    by (auto simp: list_all2_conv_all_nth)
  then have "tcids X B gs = tcids X B hs" by (rule tcids_cong)
  then show ?case
    using tcids_tree[OF less.prems(1) g(1,4), of "[]"] tcids_tree[OF less.prems(2) h(1), of c "[]"] g(4) less.prems(3) by simp
qed

section \<open>No node occurs twice\<close>

text \<open>Every CID of the list belongs to a node with leaves among those in front of the cursor.\<close>

lemma good_nonempty: "good X B s \<Longrightarrow> entries_of X B s \<noteq> [] \<Longrightarrow> tleaves X B mst_fuel s \<noteq> []"
  unfolding good_def using tleaves_nonempty tleaves_good by metis

lemma tcids_member:
  assumes "c \<in> set (tcids X B es)" "list_all (good_entry X B) es"
  obtains a where "good X B a" "get_pointer X B mst_fuel a = Inr c" "tleaves X B mst_fuel a \<noteq> []"
    "set (tleaves X B mst_fuel a) \<subseteq> set (cl X B es)" "length (tcids X B [TreeE a]) \<le> length (tcids X B es)"
  using assms
proof (induction "cc X B es" arbitrary: es thesis rule: less_induct)
  case less
  obtain e fs where es: "es = e # fs" using less.prems(2) by (cases es) auto
  show ?case
  proof (cases e)
    case (LeafE k v)
    have "c \<in> set (tcids X B fs)" "list_all (good_entry X B) fs" "cc X B fs < cc X B es"
      using less.prems(2,3) cost_leaf[of X B mst_fuel k v] es LeafE by auto
    then obtain a where "good X B a" "get_pointer X B mst_fuel a = Inr c" "tleaves X B mst_fuel a \<noteq> []"
      "set (tleaves X B mst_fuel a) \<subseteq> set (cl X B fs)" "length (tcids X B [TreeE a]) \<le> length (tcids X B fs)"
      using less.hyps by blast
    then show ?thesis using less.prems(1)[of a] es LeafE by auto
  next
    case (TreeE s)
    have s: "good X B s" "entries_of X B s \<noteq> []" "list_all (good_entry X B) fs"
      using less.prems(3) es TreeE by (auto simp: good_entry_def)
    obtain gs p where g: "get_entries X B s = Inr gs" "list_all (good_entry X B) gs" "cost X B mst_fuel (TreeE s) = 3 + cc X B gs"
      "get_pointer X B mst_fuel s = Inr p" "tleaves X B mst_fuel s = cl X B gs" using good_E[OF s(1)] by metis
    note tc = tcids_tree[OF s(1) g(1,4)]
    have cle: "cl X B es = cl X B (gs @ fs)" using good_cl[OF s(1) g(1)] es TreeE by simp
    show ?thesis
    proof (cases "c = p")
      case True
      then show ?thesis
        using less.prems(1)[OF s(1)] g(4,5) good_nonempty[OF s(1,2)] cle tc[of "[]"] tc[of fs] es TreeE by simp
    next
      case False
      then have "c \<in> set (tcids X B (gs @ fs))" "list_all (good_entry X B) (gs @ fs)" "cc X B (gs @ fs) < cc X B es"
        using less.prems(2) tc[of fs] es TreeE g s(3) by (auto simp del: cost.simps)
      then obtain a where "good X B a" "get_pointer X B mst_fuel a = Inr c" "tleaves X B mst_fuel a \<noteq> []"
        "set (tleaves X B mst_fuel a) \<subseteq> set (cl X B (gs @ fs))" "length (tcids X B [TreeE a]) \<le> length (tcids X B (gs @ fs))"
        using less.hyps by blast
      then show ?thesis using less.prems(1)[of a] cle tc[of fs] es TreeE by simp
    qed
  qed
qed

lemma root_not_below:
  assumes X: "collision_free X" and s: "good X B s" "get_entries X B s = Inr gs" "get_pointer X B mst_fuel s = Inr c"
    and gs: "list_all (good_entry X B) gs"
  shows "c \<notin> set (tcids X B gs)"
proof
  assume "c \<in> set (tcids X B gs)"
  then obtain a where "good X B a" "get_pointer X B mst_fuel a = Inr c" "length (tcids X B [TreeE a]) \<le> length (tcids X B gs)"
    using gs by (rule tcids_member) blast
  then have "length (tcids X B gs @ [c]) \<le> length (tcids X B gs)"
    using same_pointer_tcids[OF X s(1), of a] s(3) tcids_tree[OF s, of "[]"] by simp
  then show False by simp
qed

lemma tcids_distinct:
  assumes X: "collision_free X"
  shows "list_all (good_entry X B) es \<Longrightarrow> ksorted (cl X B es) \<Longrightarrow> distinct (tcids X B es)"
proof (induction "cc X B es" arbitrary: es rule: less_induct)
  case less
  show ?case
  proof (cases es)
    case (Cons e fs)
    show ?thesis
    proof (cases e)
      case (LeafE k v)
      then show ?thesis using less Cons cost_leaf[of X B mst_fuel k v] by (auto simp: ksorted_Cons)
    next
      case (TreeE s)
      have s: "good X B s" "entries_of X B s \<noteq> []" "list_all (good_entry X B) fs"
        using less.prems(1) Cons TreeE by (auto simp: good_entry_def)
      obtain gs p where g: "get_entries X B s = Inr gs" "list_all (good_entry X B) gs" "cost X B mst_fuel (TreeE s) = 3 + cc X B gs"
        "get_pointer X B mst_fuel s = Inr p" "tleaves X B mst_fuel s = cl X B gs" using good_E[OF s(1)] by metis
      have cle: "cl X B es = cl X B (gs @ fs)" using good_cl[OF s(1) g(1)] Cons TreeE by simp
      have "cc X B (gs @ fs) < cc X B es" using g(3) Cons TreeE by (simp del: cost.simps)
      then have d: "distinct (tcids X B (gs @ fs))"
        using less.hyps[of "gs @ fs"] less.prems(2) cle g(2) s(3) by simp
      have "p \<notin> set (tcids X B fs)"
      proof
        assume "p \<in> set (tcids X B fs)"
        then obtain a where a: "good X B a" "get_pointer X B mst_fuel a = Inr p" "set (tleaves X B mst_fuel a) \<subseteq> set (cl X B fs)"
          using s(3) by (rule tcids_member) blast
        then have "set (cl X B gs) \<subseteq> set (cl X B fs)" "cl X B gs \<noteq> []"
          using good_pointer_leaves[OF X s(1) a(1)] g(4,5) good_nonempty[OF s(1,2)] by auto
        then show False using less.prems(2) cle by (cases "cl X B gs") (auto simp: ksorted_Cons ksorted_append)
      qed
      then show ?thesis
        using d root_not_below[OF X s(1) g(1,4,2)] tcids_tree[OF s(1) g(1,4), of fs] Cons TreeE by auto
    qed
  qed simp
qed

lemma tree_tcids_distinct:
  assumes X: "collision_free X" and s: "good X B s" "ksorted (tleaves X B mst_fuel s)"
  shows "distinct (tcids X B [TreeE s])"
proof -
  obtain gs p where g: "get_entries X B s = Inr gs" "list_all (good_entry X B) gs"
    "get_pointer X B mst_fuel s = Inr p" "tleaves X B mst_fuel s = cl X B gs" using good_E[OF s(1)] by metis
  show ?thesis
    using tcids_distinct[OF X g(2)] root_not_below[OF X s(1) g(1,3,2)] tcids_tree[OF s(1) g(1,3), of "[]"] s(2) g(4) by simp
qed

section \<open>The balance of a comparison\<close>

text \<open>
  After the old nodes in \<open>L\<close> and the new nodes in \<open>R\<close> have been met, the difference holds as new what is
  in \<open>R\<close> only and as removed what is in \<open>L\<close> only.
\<close>

definition balance :: "ext \<Rightarrow> cid set \<Rightarrow> cid set \<Rightarrow> data_diff \<Rightarrow> bool" where
  "balance X L R d \<longleftrightarrow>
     bm_inv (new_mst_blocks d) \<and> (\<forall>c. bm_has c (new_mst_blocks d) \<longleftrightarrow> c \<in> R - L) \<and>
     (\<forall>c b. bm_get c (new_mst_blocks d) = Some b \<longrightarrow> (\<exists>n. c = x_cid X n \<and> b = x_enc X n)) \<and>
     set (removed_mst_blocks d) = L - R \<and> set (removed_cids d) \<inter> range (x_cid X) = L - R"

lemma balance_new: "balance X {} {} diff_new"
  by (simp add: balance_def diff_new_def cs_new_def bm_has_get)

lemma balance_delete:
  "balance X L R d \<Longrightarrow> c \<notin> L \<Longrightarrow> c \<in> range (x_cid X) \<Longrightarrow> balance X (insert c L) R (tree_delete c d)"
  by (auto simp: balance_def tree_delete_def bm_has_get bm_get_delete split: if_splits)

lemma balance_add:
  "balance X L R d \<Longrightarrow> c \<notin> R \<Longrightarrow> c = x_cid X n \<Longrightarrow> balance X L (insert c R) (tree_add c (x_enc X n) d)"
  by (auto simp: balance_def tree_add_def cs_has_def bm_has_get bm_get_set split: if_splits)

lemma balance_skip:
  assumes "balance X L R d" "A \<inter> L = {}" "A \<inter> R = {}"
  shows "balance X (L \<union> A) (R \<union> A) d"
proof -
  have "R \<union> A - (L \<union> A) = R - L" "L \<union> A - (R \<union> A) = L - R" using assms(2,3) by auto
  then show ?thesis using assms(1) by (simp add: balance_def)
qed

lemma balance_other:
  assumes "balance X L R d" "new_mst_blocks d' = new_mst_blocks d" "removed_mst_blocks d' = removed_mst_blocks d"
    "set (removed_cids d') \<inter> range (x_cid X) = set (removed_cids d) \<inter> range (x_cid X)"
  shows "balance X L R d'"
  using assms by (simp add: balance_def)

definition midway :: "ext \<Rightarrow> blocks \<Rightarrow> cid set \<Rightarrow> cid set \<Rightarrow> diff_conf \<Rightarrow> bool" where
  "midway X B L R s =
     (case s of (es, fs, d) \<Rightarrow>
        balance X L R d \<and> distinct (tcids X B es) \<and> distinct (tcids X B fs) \<and>
        L \<inter> set (tcids X B es) = {} \<and> R \<inter> set (tcids X B fs) = {} \<and>
        snd ` set (cl X B es) \<inter> range (x_cid X) = {} \<and> snd ` set (cl X B fs) \<inter> range (x_cid X) = {})"

definition seen :: "ext \<Rightarrow> blocks \<Rightarrow> cid set \<Rightarrow> cid set \<Rightarrow> diff_conf \<Rightarrow> cid set \<times> cid set" where
  "seen X B L R s = (case s of (es, fs, d) \<Rightarrow> (L \<union> set (tcids X B es), R \<union> set (tcids X B fs)))"

lemma good_cid:
  assumes "good X B s"
  obtains n where "get_pointer X B mst_fuel s = Inr (x_cid X n)" "mst_serialize X B mst_fuel s = Inr (x_cid X n, x_enc X n)"
proof -
  obtain gs where "get_entries X B s = Inr gs" using good_E[OF assms] by metis
  then show ?thesis using good_refreshed[OF assms] that by metis
qed

lemma midway_step:
  assumes X: "collision_free X" and step: "diff_step X B s s'"
  shows "midway X B L R s \<Longrightarrow> \<exists>L' R'. midway X B L' R' s' \<and> seen X B L' R' s' = seen X B L R s"
  using step
proof (induction rule: diff_step.induct)
  case (into_old s gs c es fs d)
  note tc = tcids_tree[OF into_old(1-3), of es]
  have "c \<in> range (x_cid X)" using into_old(1,3) by (auto elim!: good_cid)
  then have "balance X (insert c L) R (tree_delete c d)"
    using into_old(4) tc by (intro balance_delete) (auto simp: midway_def)
  then have "midway X B (insert c L) R (gs @ es, fs, tree_delete c d)"
    using into_old(4) good_cl[OF into_old(1,2), of es] tc by (auto simp: midway_def)
  then show ?case using tc by (intro exI[of _ "insert c L"] exI[of _ R]) (auto simp: seen_def)
next
  case (into_new s gs c b es fs d)
  obtain n where n: "get_pointer X B mst_fuel s = Inr c" "c = x_cid X n" "b = x_enc X n"
    using good_cid[OF into_new(1)] into_new(3) by auto
  note tc = tcids_tree[OF into_new(1,2) n(1), of fs]
  have "balance X L (insert c R) (tree_add c b d)"
    unfolding n(3) using into_new(4) tc n(2) by (intro balance_add) (auto simp: midway_def)
  then have "midway X B L (insert c R) (es, gs @ fs, tree_add c b d)"
    using into_new(4) good_cl[OF into_new(1,2), of fs] tc by (auto simp: midway_def)
  then show ?case using tc by (intro exI[of _ L] exI[of _ "insert c R"]) (auto simp: seen_def)
next
  case (skip s u es fs d)
  let ?A = "set (tcids X B [TreeE s])"
  have same: "tcids X B [TreeE s] = tcids X B [TreeE u]" using skip(1-3) by (rule same_pointer_tcids[OF X])
  note tc = tcids_Cons[of X B "TreeE s" es] tcids_Cons[of X B "TreeE u" fs]
  have "midway X B (L \<union> ?A) (R \<union> ?A) (es, fs, d)"
    using skip(4) tc same balance_skip[of X L R d ?A] by (auto simp: midway_def cl_tree)
  then show ?case using tc same by (intro exI[of _ "L \<union> ?A"] exI[of _ "R \<union> ?A"]) (auto simp: seen_def)
next
  case (keep k v es fs d)
  then show ?case by (intro exI[of _ L] exI[of _ R]) (auto simp: seen_def midway_def)
next
  case (change u v k es fs d)
  then show ?case
    by (intro exI[of _ L] exI[of _ R]) (auto simp: seen_def midway_def leaf_update_def elim!: balance_other)
next
  case (remove k j u es v fs d)
  then show ?case
    by (intro exI[of _ L] exI[of _ R]) (auto simp: seen_def midway_def leaf_delete_def Let_def elim!: balance_other)
next
  case (insert j k u es v fs d)
  then show ?case
    by (intro exI[of _ L] exI[of _ R]) (auto simp: seen_def midway_def leaf_add_def Let_def elim!: balance_other)
next
  case (remove_end k u es d)
  then show ?case
    by (intro exI[of _ L] exI[of _ R]) (auto simp: seen_def midway_def drop_leaf_def elim!: balance_other)
next
  case (insert_end j v fs d)
  then show ?case
    by (intro exI[of _ L] exI[of _ R]) (auto simp: seen_def midway_def leaf_add_def Let_def elim!: balance_other)
qed

lemma diff_steps_balance:
  assumes X: "collision_free X" and "diff_steps X B s ([], [], d')"
  shows "midway X B L R s \<Longrightarrow> balance X (fst (seen X B L R s)) (snd (seen X B L R s)) d'"
  using assms(2)
proof (induction s arbitrary: L R rule: converse_rtranclp_induct)
  case base
  then show ?case by (simp add: midway_def seen_def)
next
  case (step s s')
  then show ?case using midway_step[OF X step(1)] by metis
qed

section \<open>Record blocks\<close>

text \<open>
  The same for the record CIDs \<open>L\<close> and \<open>R\<close> met so far, when no two keys of a tree share a record: a
  record of the new tree is reported as new, or is a record of the old tree that is not removed.
\<close>

definition leaf_balance :: "ext \<Rightarrow> cid set \<Rightarrow> cid set \<Rightarrow> data_diff \<Rightarrow> bool" where
  "leaf_balance X L R d \<longleftrightarrow>
     (\<forall>v\<in>R. v \<in> set (new_leaf_cids d) \<or> v \<in> L \<and> v \<notin> set (removed_cids d)) \<and>
     set (new_leaf_cids d) \<subseteq> R \<and> set (removed_cids d) - range (x_cid X) \<subseteq> L"

definition leaf_midway :: "ext \<Rightarrow> blocks \<Rightarrow> cid set \<Rightarrow> cid set \<Rightarrow> diff_conf \<Rightarrow> bool" where
  "leaf_midway X B L R s =
     (case s of (es, fs, d) \<Rightarrow>
        leaf_balance X L R d \<and> distinct (map snd (cl X B es)) \<and> distinct (map snd (cl X B fs)) \<and>
        L \<inter> snd ` set (cl X B es) = {} \<and> R \<inter> snd ` set (cl X B fs) = {} \<and>
        (L \<union> R \<union> snd ` set (cl X B es) \<union> snd ` set (cl X B fs)) \<inter> range (x_cid X) = {})"

definition leaf_seen :: "ext \<Rightarrow> blocks \<Rightarrow> cid set \<Rightarrow> cid set \<Rightarrow> diff_conf \<Rightarrow> cid set \<times> cid set" where
  "leaf_seen X B L R s = (case s of (es, fs, d) \<Rightarrow> (L \<union> snd ` set (cl X B es), R \<union> snd ` set (cl X B fs)))"

lemma leaf_balance_new: "leaf_balance X {} {} diff_new"
  by (simp add: leaf_balance_def diff_new_def cs_new_def)

lemma leaf_balance_keep:
  assumes "leaf_balance X L R d" "A \<inter> L = {}" "A \<inter> range (x_cid X) = {}"
  shows "leaf_balance X (L \<union> A) (R \<union> A) d"
  using assms unfolding leaf_balance_def by blast

lemma leaf_balance_update:
  "leaf_balance X L R d \<Longrightarrow> u \<noteq> v \<Longrightarrow> u \<notin> L \<Longrightarrow> leaf_balance X (insert u L) (insert v R) (leaf_update k u v d)"
  by (auto simp: leaf_balance_def leaf_update_def)

lemma leaf_balance_delete:
  "leaf_balance X L R d \<Longrightarrow> u \<notin> L \<Longrightarrow> u \<notin> range (x_cid X) \<Longrightarrow> leaf_balance X (insert u L) R (leaf_delete k u d)"
  by (auto simp: leaf_balance_def leaf_delete_def Let_def cs_has_def)

lemma leaf_balance_drop:
  "leaf_balance X L R d \<Longrightarrow> u \<notin> L \<Longrightarrow> leaf_balance X (insert u L) R (drop_leaf k u d)"
  by (auto simp: leaf_balance_def drop_leaf_def)

lemma leaf_balance_add:
  "leaf_balance X L R d \<Longrightarrow> v \<notin> R \<Longrightarrow> v \<notin> range (x_cid X) \<Longrightarrow> leaf_balance X L (insert v R) (leaf_add k v d)"
  by (auto simp: leaf_balance_def leaf_add_def Let_def cs_has_def)

lemma leaf_balance_tree:
  assumes "leaf_balance X L R d" "c \<in> range (x_cid X)" "(L \<union> R) \<inter> range (x_cid X) = {}"
  shows "leaf_balance X L R (tree_delete c d)" "leaf_balance X L R (tree_add c b d)"
  using assms by (auto simp: leaf_balance_def tree_delete_def tree_add_def)

lemma leaf_midway_step:
  assumes X: "collision_free X" and step: "diff_step X B s s'"
  shows "leaf_midway X B L R s \<Longrightarrow> \<exists>L' R'. leaf_midway X B L' R' s' \<and> leaf_seen X B L' R' s' = leaf_seen X B L R s"
  using step
proof (induction rule: diff_step.induct)
  case (keep k v es fs d)
  then show ?case
    using leaf_balance_keep[of X L R d "{v}"]
    by (intro exI[of _ "insert v L"] exI[of _ "insert v R"]) (auto simp: leaf_seen_def leaf_midway_def)
next
  case (change u v k es fs d)
  then show ?case
    using leaf_balance_update[of X L R d u v k]
    by (intro exI[of _ "insert u L"] exI[of _ "insert v R"]) (auto simp: leaf_seen_def leaf_midway_def)
next
  case (remove k j u es v fs d)
  then show ?case
    using leaf_balance_delete[of X L R d u k]
    by (intro exI[of _ "insert u L"] exI[of _ R]) (auto simp: leaf_seen_def leaf_midway_def)
next
  case (insert j k u es v fs d)
  then show ?case
    using leaf_balance_add[of X L R d v j]
    by (intro exI[of _ L] exI[of _ "insert v R"]) (auto simp: leaf_seen_def leaf_midway_def)
next
  case (remove_end k u es d)
  then show ?case
    using leaf_balance_drop[of X L R d u k]
    by (intro exI[of _ "insert u L"] exI[of _ R]) (auto simp: leaf_seen_def leaf_midway_def)
next
  case (insert_end j v fs d)
  then show ?case
    using leaf_balance_add[of X L R d v j]
    by (intro exI[of _ L] exI[of _ "insert v R"]) (auto simp: leaf_seen_def leaf_midway_def)
next
  case (into_old s gs c es fs d)
  have "c \<in> range (x_cid X)" using into_old(1,3) by (auto elim!: good_cid)
  then show ?case
    using into_old(4) good_cl[OF into_old(1,2), of es] leaf_balance_tree(1)[of X L R d c]
    by (intro exI[of _ L] exI[of _ R]) (simp add: leaf_seen_def leaf_midway_def Int_Un_distrib2)
next
  case (into_new s gs c b es fs d)
  have "c \<in> range (x_cid X)" using into_new(1,3) by (auto elim!: good_cid)
  then show ?case
    using into_new(4) good_cl[OF into_new(1,2), of fs] leaf_balance_tree(2)[of X L R d c b]
    by (intro exI[of _ L] exI[of _ R]) (simp add: leaf_seen_def leaf_midway_def Int_Un_distrib2)
next
  case (skip s u es fs d)
  have same: "tleaves X B mst_fuel s = tleaves X B mst_fuel u" using skip(1-3) by (rule good_pointer_leaves[OF X])
  define T A where "T = tleaves X B mst_fuel u" and "A = snd ` set T"
  have st: "snd ` set (cl X B (TreeE s # es)) = A \<union> snd ` set (cl X B es)"
    "snd ` set (cl X B (TreeE u # fs)) = A \<union> snd ` set (cl X B fs)"
    "distinct (map snd (cl X B (TreeE s # es))) \<longleftrightarrow> distinct (map snd T) \<and>
       distinct (map snd (cl X B es)) \<and> A \<inter> snd ` set (cl X B es) = {}"
    "distinct (map snd (cl X B (TreeE u # fs))) \<longleftrightarrow> distinct (map snd T) \<and>
       distinct (map snd (cl X B fs)) \<and> A \<inter> snd ` set (cl X B fs) = {}"
    unfolding cl_tree same T_def[symmetric] A_def by (simp_all add: image_Un)
  let ?E = "snd ` set (cl X B es)" and ?F = "snd ` set (cl X B fs)"
  have pre: "leaf_balance X L R d" "distinct (map snd (cl X B es))" "A \<inter> ?E = {}"
    "distinct (map snd (cl X B fs))" "A \<inter> ?F = {}" "L \<inter> (A \<union> ?E) = {}" "R \<inter> (A \<union> ?F) = {}"
    "(L \<union> R \<union> (A \<union> ?E) \<union> (A \<union> ?F)) \<inter> range (x_cid X) = {}"
    using skip(4) unfolding leaf_midway_def prod.case st by simp_all
  then have mid: "leaf_balance X L R d" "A \<inter> L = {}" "A \<inter> range (x_cid X) = {}" by auto
  have "leaf_balance X (L \<union> A) (R \<union> A) d" using mid by (rule leaf_balance_keep)
  then have "leaf_midway X B (L \<union> A) (R \<union> A) (es, fs, d)"
    using pre(2-) unfolding leaf_midway_def prod.case by (simp add: Int_Un_distrib Int_Un_distrib2)
  moreover have "leaf_seen X B (L \<union> A) (R \<union> A) (es, fs, d) = leaf_seen X B L R (TreeE s # es, TreeE u # fs, d)"
    using st by (simp add: leaf_seen_def Un_ac)
  ultimately show ?case by blast
qed

lemma diff_steps_leaf_balance:
  assumes X: "collision_free X" and "diff_steps X B s ([], [], d')"
  shows "leaf_midway X B L R s \<Longrightarrow> leaf_balance X (fst (leaf_seen X B L R s)) (snd (leaf_seen X B L R s)) d'"
  using assms(2)
proof (induction s arbitrary: L R rule: converse_rtranclp_induct)
  case base
  then show ?case by (simp add: leaf_midway_def leaf_seen_def)
next
  case (step s s')
  then show ?case using leaf_midway_step[OF X step(1)] by metis
qed

text \<open>A record reported as new is a value some key of the new tree has and lacked before.\<close>

definition leaf_news :: "ext \<Rightarrow> blocks \<Rightarrow> cid set \<Rightarrow> diff_conf \<Rightarrow> bool" where
  "leaf_news X B N s =
     (case s of (es, fs, d) \<Rightarrow>
        set (new_leaf_cids d) \<subseteq> N \<and>
        (\<forall>k v. (k, v) \<in> set (cl X B fs) \<longrightarrow> (k, v) \<in> set (cl X B es) \<or> v \<in> N) \<and>
        ksorted (cl X B es) \<and> ksorted (cl X B fs))"

lemma ksorted_below: "ksorted ((k, v) # xs) \<Longrightarrow> j < k \<Longrightarrow> (j, w) \<notin> set ((k, v) # xs)"
  by (auto simp: ksorted_Cons dest: order.strict_trans)

lemma ksorted_once: "ksorted ((k, u) # xs) \<Longrightarrow> (k, v) \<in> set ((k, u) # xs) \<Longrightarrow> u = v"
  by (auto simp: ksorted_Cons)

lemma ksorted_common:
  assumes "ksorted (xs @ ls)" "ksorted (xs @ rs)" "set (xs @ rs) \<subseteq> {p. p \<in> set (xs @ ls) \<or> snd p \<in> N}"
  shows "set rs \<subseteq> {p. p \<in> set ls \<or> snd p \<in> N}"
  using assms by (force simp: ksorted_append)

lemma leaf_news_step:
  assumes X: "collision_free X" and step: "diff_step X B s s'"
  shows "leaf_news X B N s \<Longrightarrow> leaf_news X B N s'"
  using step
proof (induction rule: diff_step.induct)
  case (keep k v es fs d)
  then show ?case
    by (auto simp: leaf_news_def ksorted_Cons) (metis fst_conv order.strict_iff_not)
next
  case (change u v k es fs d)
  then have v: "v \<in> N" using ksorted_once[of k u "cl X B es" v] by (auto simp: leaf_news_def)
  have "(i, w) \<in> set (cl X B es) \<or> w \<in> N" if iw: "(i, w) \<in> set (cl X B fs)" for i w
  proof -
    have "i \<noteq> k" using iw change.prems by (auto simp: leaf_news_def ksorted_Cons)
    then show ?thesis using iw change.prems by (auto simp: leaf_news_def)
  qed
  then show ?case using change.prems v by (auto simp: leaf_news_def leaf_update_def ksorted_Cons)
next
  case (remove k j u es v fs d)
  have "(i, w) \<in> set (cl X B es) \<or> w \<in> N" if iw: "(i, w) \<in> set ((j, v) # cl X B fs)" for i w
    using iw remove ksorted_below[of j v "cl X B fs" k w] by (cases "i = k") (auto simp: leaf_news_def)
  then show ?case using remove by (auto simp: leaf_news_def leaf_delete_def Let_def ksorted_Cons)
next
  case (insert j k u es v fs d)
  then have v: "v \<in> N" using ksorted_below[of k u "cl X B es" j v] by (auto simp: leaf_news_def)
  then show ?case using insert by (auto simp: leaf_news_def leaf_add_def Let_def ksorted_Cons)
next
  case (remove_end k u es d)
  then show ?case by (auto simp: leaf_news_def drop_leaf_def ksorted_Cons)
next
  case (insert_end j v fs d)
  then show ?case by (auto simp: leaf_news_def leaf_add_def Let_def ksorted_Cons)
next
  case (into_old s gs c es fs d)
  then show ?case using good_cl[OF into_old(1,2), of es] by (simp add: leaf_news_def tree_delete_def)
next
  case (into_new s gs c b es fs d)
  then show ?case using good_cl[OF into_new(1,2), of fs] by (simp add: leaf_news_def tree_add_def)
next
  case (skip s u es fs d)
  have same: "tleaves X B mst_fuel s = tleaves X B mst_fuel u" using skip(1-3) by (rule good_pointer_leaves[OF X])
  define T where "T = tleaves X B mst_fuel u"
  have "cl X B (TreeE s # es) = T @ cl X B es" "cl X B (TreeE u # fs) = T @ cl X B fs" by (simp_all only: cl_tree same T_def)
  then have n: "set (new_leaf_cids d) \<subseteq> N" "set (T @ cl X B fs) \<subseteq> {p. p \<in> set (T @ cl X B es) \<or> snd p \<in> N}"
    "ksorted (T @ cl X B es)" "ksorted (T @ cl X B fs)"
    using skip(4) unfolding leaf_news_def by fastforce+
  then show ?case using ksorted_common[OF n(3,4,2)] by (auto simp: leaf_news_def ksorted_append)
qed

lemma diff_steps_leaf_news:
  assumes X: "collision_free X" and "diff_steps X B s s'"
  shows "leaf_news X B N s \<Longrightarrow> leaf_news X B N s'"
  using assms(2) by (induction rule: rtranclp_induct) (auto intro: leaf_news_step[OF X])

end
