(* ===== verification/Mst_Reload.thy ===== *)
theory Mst_Reload
  imports Mst_Blocks
begin

text \<open>
  Loading a tree from its root CID: a store that holds the block of every node of a tree gives the
  same tree back, with the same leaves, the same node CIDs and the invariant, although every node
  is read lazily from another store.
\<close>

definition codec_ok :: "ext \<Rightarrow> bool" where
  "codec_ok X \<longleftrightarrow> (\<forall>d. x_dec X (x_enc X d) = Some d)"

definition holds :: "ext \<Rightarrow> blocks \<Rightarrow> cid set \<Rightarrow> bool" where
  "holds X B cs \<longleftrightarrow> (\<forall>c\<in>cs. \<exists>n. c = x_cid X n \<and> B c = Some (x_enc X n))"

definition loaded_as :: "ext \<Rightarrow> blocks \<Rightarrow> blocks \<Rightarrow> nat \<Rightarrow> node_entry \<Rightarrow> node_entry \<Rightarrow> bool" where
  "loaded_as X B B' L e f =
     (case e of
        LeafE k v \<Rightarrow> f = LeafE k v
      | TreeE s \<Rightarrow> (\<exists>p l. f = TreeE (mst_load p l) \<and> get_pointer X B mst_fuel s = Inr p \<and>
          sub_ok X B' L (mst_load p l) \<and> root_cid X B' L (mst_load p l) = Inr p \<and>
          tleaves X B' L (mst_load p l) = tleaves X B L s \<and> tcids X B' [f] = tcids X B [e]))"

lemma refresh_TreeE:
  assumes "refresh_entry X B mst_fuel (TreeE s) = Inr e"
  obtains p where "get_pointer X B mst_fuel s = Inr p" "e = TreeE (set_pointer s p)"
  using assms by (cases "outdated s") (auto simp: refresh_entry_def res_bind_eq_Inr_iff set_pointer_id mst_fuel_def)

lemma loaded_as_leaves: "list_all2 (loaded_as X B B' L) es fs \<Longrightarrow> eleaves X B' L fs = eleaves X B L es"
proof (induction rule: list_all2_induct)
  case (Cons e es f fs)
  then show ?case by (cases e) (auto simp: loaded_as_def eleaves_def)
qed simp

lemma loaded_as_tcids: "list_all2 (loaded_as X B B' L) es fs \<Longrightarrow> tcids X B' fs = tcids X B es"
proof (induction rule: list_all2_induct)
  case (Cons e es f fs)
  then have "tcids X B' [f] = tcids X B [e]" by (cases e) (auto simp: loaded_as_def)
  then show ?case using Cons tcids_Cons[of X B' f fs] tcids_Cons[of X B e es] by simp
qed simp

lemma loaded_as_entries:
  "list_all2 (loaded_as X B B' L) es fs \<Longrightarrow> entries_ok X L (sub_ok X B L) es \<Longrightarrow> entries_ok X L (sub_ok X B' L) fs"
proof (induction rule: list_all2_induct)
  case (Cons e es f fs)
  have "meets [f] fs \<longleftrightarrow> meets [e] es"
    using Cons(1,2) by (cases es; cases fs) (auto simp: meets_def loaded_as_def is_tree_def split: node_entry.splits)
  then show ?case using Cons by (cases e) (auto simp: loaded_as_def entries_ok_Cons)
qed simp

lemma loaded_as_pointers:
  assumes "list_all2 (loaded_as X B B' L) es fs" "list_all2 (\<lambda>e e'. refresh_entry X B mst_fuel e = Inr e') es gs"
  shows "\<exists>fs'. res_map (cid_entry X B' L) fs = Inr fs' \<and> list_all2 same_pointers fs' gs"
  using assms
proof (induction arbitrary: gs rule: list_all2_induct)
  case (Cons e es f fs)
  obtain g gs' where gs: "gs = g # gs'" "refresh_entry X B mst_fuel e = Inr g" using Cons.prems by (auto simp: list_all2_Cons1)
  obtain fs' where fs: "res_map (cid_entry X B' L) fs = Inr fs'" "list_all2 same_pointers fs' gs'"
    using Cons.IH[of gs'] Cons.prems gs by auto
  show ?case
  proof (cases e)
    case (LeafE k v)
    then have "f = LeafE k v" "g = LeafE k v" using Cons.hyps(1) gs by (auto simp: loaded_as_def refresh_entry_def)
    then show ?thesis using gs fs by (simp add: cid_entry_def[of _ _ _ "LeafE _ _"])
  next
    case (TreeE s)
    then obtain p where p: "get_pointer X B mst_fuel s = Inr p" "g = TreeE (set_pointer s p)" using gs(2) by (auto elim: refresh_TreeE)
    then obtain u where "f = TreeE u" "root_cid X B' L u = Inr p" using Cons.hyps(1) TreeE by (auto simp: loaded_as_def)
    then show ?thesis using gs(1) fs p(2) by (simp add: cid_entry_def[of _ _ _ "TreeE _"])
  qed
qed auto

lemma layer_of_ok: "entries_ok X L P es \<Longrightarrow> layer_for_entries X es = None \<or> layer_for_entries X es = Some L"
  by (induction X es rule: layer_for_entries.induct) (auto simp: entries_ok_Cons)

lemma layer_of_refreshed:
  "list_all2 (\<lambda>e e'. refresh_entry X B n e = Inr e') es gs \<Longrightarrow> layer_for_entries X gs = layer_for_entries X es"
proof (induction rule: list_all2_induct)
  case (Cons e es g gs)
  then show ?case by (cases e) (auto simp: refresh_entry_def res_bind_eq_Inr_iff split: if_splits)
qed simp

lemma child_layer_cases:
  assumes "l = None \<or> l = Some (Suc M)" "Suc M < 2 ^ 32" "es \<noteq> []"
  shows "layer_ok M es (child_layer l)"
  using assms u32_sub1_pos[of "Suc M"] by (auto simp: child_layer_def layer_ok_def)

lemma reload_node:
  assumes X: "collision_free X" "codec_ok X" and t: "wf_mst X B L t" "L < mst_fuel" "root_cid X B (Suc L) t = Inr c"
    and es: "get_entries X B t = Inr es" and h: "holds X B' (set (tcids X B [TreeE t]))" and l: "layer_ok L es l"
    and kids: "\<And>s p l'. TreeE s \<in> set es \<Longrightarrow> get_pointer X B mst_fuel s = Inr p \<Longrightarrow> layer_ok (L - 1) (entries_of X B s) l' \<Longrightarrow>
      loaded_as X B B' L (TreeE s) (TreeE (mst_load p l'))"
  shows "wf_mst X B' L (mst_load c l) \<and> root_cid X B' (Suc L) (mst_load c l) = Inr c \<and>
    tleaves X B' (Suc L) (mst_load c l) = tleaves X B (Suc L) t \<and> tcids X B' [TreeE (mst_load c l)] = tcids X B [TreeE t]"
proof -
  let ?u = "mst_load c l"
  have g: "good X B t" using t by (auto simp: good_def)
  have ok: "entries_ok X L (sub_ok X B L) es" using t(1) by (rule wf_mst_E) (use es in simp)
  obtain gs d where gs: "list_all2 (\<lambda>e e'. refresh_entry X B mst_fuel e = Inr e') es gs" "serialize_node_data X gs = Inr d"
    "get_pointer X B mst_fuel t = Inr (x_cid X d)" using good_refreshed[OF g es] by metis
  have c: "c = x_cid X d" using gs(3) get_pointer_ok[OF t(1,2)] t(3) by simp
  have tc: "tcids X B [TreeE t] = tcids X B es @ [c]" using tcids_tree[OF g es, of c "[]"] gs(3) c by simp
  have "B' c = Some (x_enc X d)" using h X(1) unfolding tc holds_def c by (auto simp: collision_free_def dest: injD)
  then have ge: "get_entries X B' ?u = Inr (map (as_loaded (layer_for_entries X gs)) gs)"
    using stored_node_hydrates[of X gs d B' c l] X gs(2) by (simp add: collision_free_def codec_ok_def)
  let ?l = "layer_for_entries X gs" and ?fs = "map (as_loaded (layer_for_entries X gs)) gs"
  have lay: "?l = None \<or> ?l = Some L" using layer_of_ok[OF ok] layer_of_refreshed[OF gs(1)] by simp
  have "loaded_as X B B' L e (as_loaded ?l e')" if e: "e \<in> set es" and e': "refresh_entry X B mst_fuel e = Inr e'" for e e'
  proof (cases e)
    case (LeafE k v)
    then show ?thesis using e' by (auto simp: refresh_entry_def loaded_as_def)
  next
    case (TreeE s)
    then obtain p where p: "get_pointer X B mst_fuel s = Inr p" "e' = TreeE (set_pointer s p)" using e' by (auto elim: refresh_TreeE)
    have "sub_ok X B L s" using ok e TreeE by (auto simp: entries_ok_def list_all_iff)
    then have "layer_ok (L - 1) (entries_of X B s) (child_layer ?l)"
      using lay layer_ok_bound[OF l] child_layer_cases[of ?l "L - 1" "entries_of X B s"] by (cases L) auto
    then show ?thesis using kids[of s p] e TreeE p by simp
  qed
  then have la: "list_all2 (loaded_as X B B' L) es ?fs"
    using gs(1) by (auto simp: list_all2_conv_all_nth)
  obtain fs' where "res_map (cid_entry X B' L) ?fs = Inr fs'" "list_all2 same_pointers fs' gs"
    using loaded_as_pointers[OF la gs(1)] by blast
  then have rc: "root_cid X B' (Suc L) ?u = Inr c"
    using ge c gs(2) cid_for_entries_same[of fs' gs X] unfolding root_cid_Suc by (simp add: cid_for_entries_def)
  have "length ?fs = length es" using gs(1) by (simp add: list_all2_lengthD)
  then have "layer_ok L ?fs l" using l by (auto simp: layer_ok_def simp del: length_map)
  moreover have "layer ?u = l" "pointer_ok X B' L ?u" using rc by (simp_all add: mst_load_def pointer_ok_def del: root_cid.simps)
  ultimately have wf: "wf_mst X B' L ?u" using wf_mst_I[OF ge] loaded_as_entries[OF la ok] by simp
  then have "good X B' ?u" using t(2) rc by (auto simp: good_def)
  then have "tcids X B' [TreeE ?u] = tcids X B' ?fs @ [c]"
    using tcids_tree[OF _ ge, of c "[]"] by (simp add: mst_load_def mst_fuel_def)
  then show ?thesis
    using wf rc loaded_as_tcids[OF la] loaded_as_leaves[OF la] tc ge es by (simp add: tleaves_Suc)
qed

lemma holds_mono: "holds X B cs \<Longrightarrow> ds \<subseteq> cs \<Longrightarrow> holds X B ds"
  by (auto simp: holds_def)

lemma tcids_subset: "e \<in> set es \<Longrightarrow> set (tcids X B [e]) \<subseteq> set (tcids X B es)"
  by (auto simp: tcids_def)

theorem reload_tree:
  assumes X: "collision_free X" "codec_ok X"
  shows "wf_mst X B L t \<Longrightarrow> L < mst_fuel \<Longrightarrow> root_cid X B (Suc L) t = Inr c \<Longrightarrow> holds X B' (set (tcids X B [TreeE t])) \<Longrightarrow>
    layer_ok L (entries_of X B t) l \<Longrightarrow>
    wf_mst X B' L (mst_load c l) \<and> root_cid X B' (Suc L) (mst_load c l) = Inr c \<and>
    tleaves X B' (Suc L) (mst_load c l) = tleaves X B (Suc L) t \<and> tcids X B' [TreeE (mst_load c l)] = tcids X B [TreeE t]"
proof (induction L arbitrary: t c l)
  case 0
  obtain es where es: "get_entries X B t = Inr es" "entries_ok X 0 (sub_ok X B 0) es" using 0(1) by (rule wf_mst_E)
  then have "TreeE s \<notin> set es" for s by (auto simp: entries_ok_def list_all_iff)
  then show ?case using reload_node[OF X 0(1-3) es(1) 0(4)] 0(5) es(1) by simp
next
  case (Suc M)
  obtain es where es: "get_entries X B t = Inr es" "entries_ok X (Suc M) (sub_ok X B (Suc M)) es" using Suc.prems(1) by (rule wf_mst_E)
  have g: "good X B t" using Suc.prems(1-3) unfolding good_def by blast
  obtain p where p: "get_pointer X B mst_fuel t = Inr p" using good_E[OF g] by metis
  have "loaded_as X B B' (Suc M) (TreeE s) (TreeE (mst_load q l'))"
    if s: "TreeE s \<in> set es" and q: "get_pointer X B mst_fuel s = Inr q" and l': "layer_ok M (entries_of X B s) l'" for s q l'
  proof -
    have wf: "wf_mst X B M s" "entries_of X B s \<noteq> []" using es(2) s by (auto simp: entries_ok_def list_all_iff)
    have M: "M < mst_fuel" using Suc.prems(2) by simp
    have rc: "root_cid X B (Suc M) s = Inr q" using get_pointer_ok[OF wf(1) M] q by simp
    have "holds X B' (set (tcids X B [TreeE s]))"
      using Suc.prems(4) tcids_tree[OF g es(1) p, of "[]"] tcids_subset[OF s, of X B] by (auto intro: holds_mono)
    note IH = Suc.IH[OF wf(1) M rc this l']
    have "entries_of X B' (mst_load q l') \<noteq> []"
      using IH tleaves_nonempty[OF wf] by (auto simp: tleaves_Suc)
    then show ?thesis using IH q wf by (auto simp: loaded_as_def simp del: root_cid.simps)
  qed
  then show ?case using reload_node[OF X Suc.prems(1-3) es(1) Suc.prems(4)] Suc.prems(5) es(1) by simp
qed

end
