(* ===== verification/Mst_Commit.thy ===== *)
theory Mst_Commit
  imports Mst_Reload Diff_Properties
begin

text \<open>
  What a comparison promises to the code that stores a new tree: the node blocks to add and to
  remove are exactly the difference of the two sets of nodes, and a store changed by them gives
  the new tree back when it is loaded from its root.
\<close>

section \<open>Loading a tree with the invariant\<close>

definition node_set :: "ext \<Rightarrow> blocks \<Rightarrow> mst \<Rightarrow> cid set" where
  "node_set X B t = set (tcids X B [TreeE t])"

lemma comparable_E:
  assumes "comparable X B t"
  obtains L c where "sha256_ok X" "wf_mst X B L t" "L < mst_fuel" "root_cid X B (Suc L) t = Inr c"
    "get_pointer X B mst_fuel t = Inr c" "good X B t" "ksorted (mst_contents X B t)" "tleaves X B (Suc L) t = mst_contents X B t"
proof -
  obtain c where c: "mst_inv X B t" "get_pointer X B mst_fuel t = Inr c" using assms by (auto simp: comparable_def is_ok_iff)
  obtain L where L: "wf_mst X B L t" "L < mst_fuel" "ksorted (mst_contents X B t)" "tleaves X B (Suc L) t = mst_contents X B t"
    using c(1) by (rule mst_inv_E)
  show ?thesis
    using that[OF _ L(1,2) _ c(2) mst_inv_good[OF c] L(3,4)] get_pointer_ok[OF L(1,2)] c by (simp add: mst_inv_def)
qed

lemma reload_inv:
  assumes X: "collision_free X" "codec_ok X" and t: "comparable X B t" "get_pointer X B mst_fuel t = Inr c"
    and h: "holds X B' (node_set X B t)"
  shows "comparable X B' (mst_load c None)" "mst_contents X B' (mst_load c None) = mst_contents X B t"
    "node_set X B' (mst_load c None) = node_set X B t" "get_pointer X B' mst_fuel (mst_load c None) = Inr c"
proof -
  let ?u = "mst_load c None"
  obtain L where L: "sha256_ok X" "wf_mst X B L t" "L < mst_fuel" "root_cid X B (Suc L) t = Inr c" "good X B t"
    "ksorted (mst_contents X B t)" "tleaves X B (Suc L) t = mst_contents X B t"
    using t(1) by (rule comparable_E) (use t(2) in simp)
  obtain M where u: "wf_mst X B' M ?u" "M < mst_fuel" "tleaves X B' (Suc M) ?u = mst_contents X B t"
    "tcids X B' [TreeE ?u] = tcids X B [TreeE t]"
  proof (cases "entries_of X B t = []")
    case False
    moreover have "layer_ok L (entries_of X B t) None" using False L(2) by (auto simp: layer_ok_def elim!: wf_mst_E)
    ultimately show ?thesis
      using that[of L] reload_tree[OF X L(2-4), of B' None] h L(3,7) by (simp add: node_set_def)
  next
    case True
    let ?t = "MST (Some []) None c False"
    have es: "get_entries X B t = Inr []" using L(2) True by (auto elim: wf_mst_E)
    then have rc: "cid_for_entries X [] = Inr c" using L(4) unfolding root_cid_Suc by simp
    then have rc0: "root_cid X B (Suc 0) ?t = Inr c" unfolding root_cid_Suc by simp
    then have wf: "wf_mst X B 0 ?t" by (intro wf_mst_I[of _ _ _ "[]"]) (auto simp: pointer_ok_def layer_ok_def simp del: root_cid.simps)
    then have g: "good X B ?t" using rc0 unfolding good_def mst_fuel_def by blast
    have "tcids X B [TreeE ?t] = tcids X B [TreeE t]"
      using tcids_tree[OF g, of "[]" c "[]"] tcids_tree[OF L(5) es t(2), of "[]"] by (simp add: mst_fuel_def)
    then show ?thesis
      using that[of 0] reload_tree[OF X wf _ rc0, of B' None] h L(7) es
      by (simp add: node_set_def mst_fuel_def layer_ok_def tleaves_Suc entries_of_def)
  qed
  show p: "get_pointer X B' mst_fuel ?u = Inr c" by (simp add: mst_load_def mst_fuel_def)
  show "mst_contents X B' ?u = mst_contents X B t" using mst_inv_I[OF L(1) u(1-3)] L(6) by simp
  show "comparable X B' ?u" using mst_inv_I[OF L(1) u(1-3)] L(6) p by (simp add: comparable_def is_ok_iff)
  show "node_set X B' ?u = node_set X B t" using u(4) by (simp add: node_set_def)
qed

section \<open>The blocks of a comparison\<close>

definition values_of :: "ext \<Rightarrow> blocks \<Rightarrow> mst \<Rightarrow> cid set" where
  "values_of X B t = snd ` set (mst_contents X B t)"

lemma diff_between:
  assumes X: "collision_free X" and t: "comparable X B cur" "comparable X B p"
    and v: "values_of X B cur \<inter> range (x_cid X) = {}" "values_of X B p \<inter> range (x_cid X) = {}"
  shows "\<exists>N. \<forall>n\<ge>N. \<exists>d. diff_of X B mst_fuel n cur (Some p) = Inr d \<and>
    balance X (node_set X B p) (node_set X B cur) d \<and>
    (distinct (map snd (mst_contents X B p)) \<longrightarrow> distinct (map snd (mst_contents X B cur)) \<longrightarrow>
      leaf_balance X (values_of X B p) (values_of X B cur) d) \<and>
    (\<forall>V. (\<forall>k v. (k, v) \<in> set (mst_contents X B cur) \<longrightarrow> (k, v) \<in> set (mst_contents X B p) \<or> v \<in> V) \<longrightarrow>
      set (new_leaf_cids d) \<subseteq> V)"
proof -
  obtain g: "good X B cur" "good X B p" and k: "ksorted (mst_contents X B cur)" "ksorted (mst_contents X B p)"
    using t by (auto elim!: comparable_E)
  have cl: "cl X B [TreeE t] = mst_contents X B t" for t by (simp add: cl_tree mst_contents_def)
  let ?s = "([TreeE p], [TreeE cur], diff_new)"
  have dist: "distinct (tcids X B [TreeE p])" "distinct (tcids X B [TreeE cur])"
    using tree_tcids_distinct[OF X g(2)] tree_tcids_distinct[OF X g(1)] k by (simp_all add: mst_contents_def)
  have mid: "midway X B {} {} ?s"
    using dist v by (simp add: midway_def balance_new cl values_of_def)
  have lmid: "distinct (map snd (mst_contents X B p)) \<Longrightarrow> distinct (map snd (mst_contents X B cur)) \<Longrightarrow> leaf_midway X B {} {} ?s"
    using v by (auto simp: leaf_midway_def leaf_balance_new cl values_of_def)
  have news: "leaf_news X B V ?s"
    if "\<forall>k v. (k, v) \<in> set (mst_contents X B cur) \<longrightarrow> (k, v) \<in> set (mst_contents X B p) \<or> v \<in> V" for V
    using that k by (simp add: leaf_news_def cl diff_new_def cs_new_def)
  let ?N = "Suc (cc X B [TreeE p] + cc X B [TreeE cur])"
  have "\<exists>d. diff_of X B mst_fuel n cur (Some p) = Inr d \<and> diff_steps X B ?s ([], [], d)" if "n \<ge> ?N" for n
    using diff_loop_ok[OF walker_new_at[OF g(2)] walker_new_at[OF g(1)], of n diff_new] that t
    by (auto simp: diff_of_def mst_diff_def comparable_def is_ok_iff)
  then have "\<exists>d. diff_of X B mst_fuel n cur (Some p) = Inr d \<and>
      balance X (node_set X B p) (node_set X B cur) d \<and>
      (distinct (map snd (mst_contents X B p)) \<longrightarrow> distinct (map snd (mst_contents X B cur)) \<longrightarrow>
        leaf_balance X (values_of X B p) (values_of X B cur) d) \<and>
      (\<forall>V. (\<forall>k v. (k, v) \<in> set (mst_contents X B cur) \<longrightarrow> (k, v) \<in> set (mst_contents X B p) \<or> v \<in> V) \<longrightarrow>
        set (new_leaf_cids d) \<subseteq> V)" if "n \<ge> ?N" for n
    using that diff_steps_balance[OF X, of B ?s, OF _ mid] diff_steps_leaf_balance[OF X, of B ?s, OF _ lmid]
      diff_steps_leaf_news[OF X, of B ?s, OF _ news]
    by (fastforce simp: seen_def leaf_seen_def node_set_def values_of_def cl leaf_news_def)
  then show ?thesis by blast
qed

text \<open>Without an earlier tree every node is new.\<close>

lemma null_fold_balance:
  assumes "list_all (good_node X B) es" "res_fold (node_add X B mst_fuel) es d = Inr d'" "removed_cids d = []" "removed_mst_blocks d = []"
  shows "balance X {} R d \<Longrightarrow> balance X {} (R \<union> set (concat (map (node_cid X B) es))) d' \<and> removed_cids d' = []"
  using assms
proof (induction es arbitrary: d R)
  case (Cons e es)
  show ?case
  proof (cases e)
    case (LeafE k v)
    have same: "new_mst_blocks (leaf_add k v d) = new_mst_blocks d" "removed_mst_blocks (leaf_add k v d) = []" "removed_cids (leaf_add k v d) = []"
      using Cons.prems(4,5) by (simp_all add: leaf_add_def Let_def cs_has_def)
    then have "balance X {} R (leaf_add k v d)" using Cons.prems(1,4,5) by (simp add: balance_def)
    then show ?thesis
      using Cons.IH[of R "leaf_add k v d"] Cons.prems same LeafE
      by (simp add: node_add_def[of _ _ _ "LeafE _ _"] node_cid_def[of _ _ "LeafE _ _"])
  next
    case (TreeE s)
    have "good X B s" using Cons.prems(2) TreeE by (simp add: good_node_def)
    then obtain n where n: "get_pointer X B mst_fuel s = Inr (x_cid X n)" "mst_serialize X B mst_fuel s = Inr (x_cid X n, x_enc X n)"
      by (rule good_cid)
    have "balance X {} (insert (x_cid X n) R) (tree_add (x_cid X n) (x_enc X n) d)"
      using Cons.prems(1,4) by (auto simp: balance_def tree_add_def cs_has_def bm_has_get bm_get_set)
    then show ?thesis
      using Cons.IH[of "insert (x_cid X n) R" "tree_add (x_cid X n) (x_enc X n) d"] Cons.prems n TreeE
      by (simp add: node_add_def[of _ _ _ "TreeE _"] node_cid_def[of _ _ "TreeE _"] tree_add_def cs_has_def del: get_pointer.simps)
  qed
qed simp

lemma diff_from_nothing:
  assumes "comparable X B cur"
  shows "\<exists>N. \<forall>n\<ge>N. \<exists>d. diff_of X B mst_fuel n cur None = Inr d \<and> balance X {} (node_set X B cur) d \<and> removed_cids d = []"
proof -
  obtain g: "good X B cur" and k: "ksorted (mst_contents X B cur)" using assms by (rule comparable_E)
  have b: "bounded X B mst_fuel (TreeE cur)" by (rule good_bounded[OF g])
  let ?ns = "nodes X B mst_fuel (TreeE cur)"
  have gn: "list_all (good_node X B) ?ns" using nodes_good[of X B "TreeE cur"] g by (simp add: good_node_def)
  have "ksorted (leaf_entries ?ns)"
    using leaf_entries_nodes[of X B mst_fuel "TreeE cur"] k by (simp add: mst_contents_def)
  then obtain d where d: "res_fold (node_add X B mst_fuel) ?ns diff_new = Inr d"
    using null_diff_fold[OF gn] by blast
  have "diff_of X B mst_fuel n cur None = Inr d" if "n \<ge> cost X B mst_fuel (TreeE cur) + 2" for n
    using mst_walk_ok[OF b, of n] that assms d
    by (auto simp: diff_of_def mst_diff_def null_diff_def comparable_def is_ok_iff)
  moreover have "balance X {} (node_set X B cur) d \<and> removed_cids d = []"
    using null_fold_balance[OF gn d _ _ balance_new] by (simp add: diff_new_def cs_new_def node_set_def tcids_def)
  ultimately show ?thesis by blast
qed

section \<open>Properties\<close>

lemma inj_codec_ok: "codec_ok inj_ext"
  by (simp add: codec_ok_def inj_codec)

lemma inj_not_node: "c \<noteq> CHR ''n'' \<Longrightarrow> c \<noteq> CHR ''s'' \<Longrightarrow> c # s \<notin> range (x_cid inj_ext)"
proof
  assume c: "c \<noteq> CHR ''n''" "c \<noteq> CHR ''s''" and "c # s \<in> range (x_cid inj_ext)"
  then obtain d where d: "c # s = enc_node d" by (auto simp: inj_ext_def)
  show False using c d by (cases "nd_l d") (auto simp: enc_node_def)
qed

lemma one_leaf_comparable:
  assumes "k = ''c/0'' \<or> k = ''d/0''"
  shows "comparable inj_ext B (one_leaf k v)" "values_of inj_ext B (one_leaf k v) = {v}"
  using one_leaf_ok[OF assms] by (auto simp: comparable_def is_ok_iff values_of_def)

text \<open>C39. The node blocks a comparison reports are exact: \<open>new_mst_blocks\<close> holds precisely the nodes of
  the new tree that the old tree lacks, each with the encoding its CID is computed from, and
  \<open>removed_mst_blocks\<close> precisely the nodes of the old tree that the new one lacks, so no block is lost
  and none is left behind, in whatever order the two cursors meet a node.\<close>

theorem mst_diff_blocks_exact:
  assumes "collision_free X" "comparable X B cur" "comparable X B p"
    and "values_of X B cur \<inter> range (x_cid X) = {}" "values_of X B p \<inter> range (x_cid X) = {}"
  shows "\<exists>N. \<forall>n\<ge>N. \<exists>d. diff_of X B mst_fuel n cur (Some p) = Inr d \<and>
    (\<forall>c. bm_has c (new_mst_blocks d) \<longleftrightarrow> c \<in> node_set X B cur - node_set X B p) \<and>
    (\<forall>c b. bm_get c (new_mst_blocks d) = Some b \<longrightarrow> (\<exists>m. c = x_cid X m \<and> b = x_enc X m)) \<and>
    set (removed_mst_blocks d) = node_set X B p - node_set X B cur"
  by (rule enough_fuel_mono[OF diff_between[OF assms]]) (simp add: balance_def)

theorem mst_diff_blocks_exact_witness:
  "\<exists>N. \<forall>n\<ge>N. \<exists>d. diff_of inj_ext Map.empty mst_fuel n (one_leaf ''c/0'' ''w'') (Some (one_leaf ''d/0'' ''v'')) = Inr d \<and>
    set (removed_mst_blocks d) = node_set inj_ext Map.empty (one_leaf ''d/0'' ''v'') - node_set inj_ext Map.empty (one_leaf ''c/0'' ''w'')"
proof -
  have "values_of inj_ext Map.empty (one_leaf ''c/0'' ''w'') \<inter> range (x_cid inj_ext) = {}"
    "values_of inj_ext Map.empty (one_leaf ''d/0'' ''v'') \<inter> range (x_cid inj_ext) = {}"
    using one_leaf_comparable(2) inj_not_node by simp_all
  note ex = mst_diff_blocks_exact[OF inj_collision_free one_leaf_comparable(1) one_leaf_comparable(1) this]
  show ?thesis by (rule enough_fuel_mono[OF ex]) simp_all
qed

end
