(* ===== verification/Mst_Proof.thy ===== *)
theory Mst_Proof
  imports Mst_Commit
begin

text \<open>
  Proofs of inclusion and exclusion (\<open>mst/mod.rs\<close>: \<open>cids_for_path\<close>, \<open>get_covering_proof\<close>), saving a tree
  (\<open>get_unstored_blocks\<close>, \<open>save_mst\<close>), and what a reader can do with the blocks: the blocks on the path of
  a key are enough to look it up, and a saved tree is loaded back from its root. \<open>w\<close> is the fuel of the
  pointer computations and \<open>n\<close> bounds the depth of the descent.
\<close>

section \<open>Paths and covering proofs\<close>

fun cids_for_path :: "ext \<Rightarrow> blocks \<Rightarrow> nat \<Rightarrow> nat \<Rightarrow> mst \<Rightarrow> string \<Rightarrow> mst_error + cid list" where
  "cids_for_path X B w 0 t key = Inl OutOfFuel"
| "cids_for_path X B w (Suc n) t key =
     res_bind (get_pointer X B w t) (\<lambda>c.
     res_bind (find_gt_or_equal_leaf_index X B t key) (\<lambda>index.
     res_bind (at_index X B t index) (\<lambda>found.
       case found of
         Some (LeafE k v) \<Rightarrow>
           if k = key then Inr [c, v]
           else res_bind (at_index X B t (index - 1)) (\<lambda>prev.
             case prev of Some (TreeE p) \<Rightarrow> res_bind (cids_for_path X B w n p key) (\<lambda>cs. Inr (c # cs)) | _ \<Rightarrow> Inr [c])
       | _ \<Rightarrow>
           res_bind (at_index X B t (index - 1)) (\<lambda>prev.
             case prev of Some (TreeE p) \<Rightarrow> res_bind (cids_for_path X B w n p key) (\<lambda>cs. Inr (c # cs)) | _ \<Rightarrow> Inr [c]))))"

definition set_serialized :: "ext \<Rightarrow> blocks \<Rightarrow> nat \<Rightarrow> mst \<Rightarrow> block_map \<Rightarrow> mst_error + block_map" where
  "set_serialized X B w t blks = res_bind (mst_serialize X B w t) (\<lambda>(c, b). Inr (bm_set c b blks))"

fun proof_for_key :: "ext \<Rightarrow> blocks \<Rightarrow> nat \<Rightarrow> nat \<Rightarrow> mst \<Rightarrow> string \<Rightarrow> mst_error + block_map" where
  "proof_for_key X B w 0 t key = Inl OutOfFuel"
| "proof_for_key X B w (Suc n) t key =
     res_bind (find_gt_or_equal_leaf_index X B t key) (\<lambda>index.
     res_bind (at_index X B t index) (\<lambda>found.
       if leaf_is key found then set_serialized X B w t bm_new
       else res_bind (at_index X B t (index - 1)) (\<lambda>prev.
         case prev of
           Some (TreeE p) \<Rightarrow> res_bind (proof_for_key X B w n p key) (set_serialized X B w t)
         | _ \<Rightarrow> Inr bm_new)))"

fun proof_for_left_sib :: "ext \<Rightarrow> blocks \<Rightarrow> nat \<Rightarrow> nat \<Rightarrow> mst \<Rightarrow> string \<Rightarrow> mst_error + block_map" where
  "proof_for_left_sib X B w 0 t key = Inl OutOfFuel"
| "proof_for_left_sib X B w (Suc n) t key =
     res_bind (find_gt_or_equal_leaf_index X B t key) (\<lambda>index.
     res_bind (at_index X B t (index - 1)) (\<lambda>prev.
     res_bind (case prev of Some (TreeE p) \<Rightarrow> proof_for_left_sib X B w n p key | _ \<Rightarrow> Inr bm_new)
       (set_serialized X B w t)))"

fun proof_for_right_sib :: "ext \<Rightarrow> blocks \<Rightarrow> nat \<Rightarrow> nat \<Rightarrow> mst \<Rightarrow> string \<Rightarrow> mst_error + block_map" where
  "proof_for_right_sib X B w 0 t key = Inl OutOfFuel"
| "proof_for_right_sib X B w (Suc n) t key =
     res_bind (find_gt_or_equal_leaf_index X B t key) (\<lambda>index.
     res_bind (at_index X B t index) (\<lambda>found0.
     res_bind (if found0 = None then at_index X B t (index - 1) else Inr found0) (\<lambda>found.
     res_bind
       (case found of
          None \<Rightarrow> Inr bm_new
        | Some (TreeE subtree) \<Rightarrow> proof_for_right_sib X B w n subtree key
        | Some (LeafE k v) \<Rightarrow>
            res_bind (if k = key then at_index X B t (index + 1) else at_index X B t (index - 1)) (\<lambda>sib.
              case sib of Some (TreeE s) \<Rightarrow> proof_for_right_sib X B w n s key | _ \<Rightarrow> Inr bm_new))
       (set_serialized X B w t))))"

definition get_covering_proof :: "ext \<Rightarrow> blocks \<Rightarrow> nat \<Rightarrow> nat \<Rightarrow> mst \<Rightarrow> string \<Rightarrow> mst_error + block_map" where
  "get_covering_proof X B w n t key =
     res_bind (proof_for_key X B w n t key) (\<lambda>b0.
     res_bind (proof_for_left_sib X B w n t key) (\<lambda>b1.
     res_bind (proof_for_right_sib X B w n t key) (\<lambda>b2.
       Inr (bm_add_map (bm_add_map b0 b1) b2))))"

section \<open>Saving\<close>

text \<open>\<open>has\<close> of the store is a block under the CID.\<close>

fun get_unstored_blocks :: "ext \<Rightarrow> blocks \<Rightarrow> nat \<Rightarrow> nat \<Rightarrow> mst \<Rightarrow> mst_error + cid \<times> block_map" where
  "get_unstored_blocks X B w 0 t = Inl OutOfFuel"
| "get_unstored_blocks X B w (Suc n) t =
     res_bind (get_pointer X B w t) (\<lambda>p.
       if B p \<noteq> None then Inr (p, bm_new)
       else
         res_bind (get_entries X B t) (\<lambda>es.
         res_bind (res_map (refresh_entry X B w) es) (\<lambda>es'.
         res_bind (serialize_node_data X es') (\<lambda>d.
         res_bind (res_fold (\<lambda>e blks. case e of
             TreeE s \<Rightarrow> res_bind (get_unstored_blocks X B w n s) (\<lambda>(_, sub). Inr (bm_add_map blks sub))
           | LeafE _ _ \<Rightarrow> Inr blks) es (bm_set (x_cid X d) (x_enc X d) bm_new)) (\<lambda>blks.
           Inr (p, blks))))))"

definition save_mst :: "ext \<Rightarrow> nat \<Rightarrow> nat \<Rightarrow> string \<Rightarrow> mst \<Rightarrow> memory_blockstore \<Rightarrow> mst_error + cid \<times> memory_blockstore" where
  "save_mst X w n rv t st =
     res_bind (get_unstored_blocks X (\<lambda>c. ms_get_bytes c st) w n t) (\<lambda>(root, blks).
       Inr (root, ms_put_many blks rv st))"

section \<open>Descending\<close>

definition good_at :: "ext \<Rightarrow> blocks \<Rightarrow> nat \<Rightarrow> mst \<Rightarrow> bool" where
  "good_at X B n t \<longleftrightarrow>
     (\<exists>L c. wf_mst X B L t \<and> L < n \<and> n \<le> mst_fuel \<and> root_cid X B (Suc L) t = Inr c)"

lemma good_at_0 [simp]: "\<not> good_at X B 0 t"
  by (simp add: good_at_def)

lemma good_at_good: "good_at X B n t \<Longrightarrow> good X B t"
  unfolding good_at_def good_def using less_le_trans by blast

lemma comparable_good_at: "comparable X B t \<Longrightarrow> good_at X B mst_fuel t"
  unfolding good_at_def by (erule comparable_E) blast

lemma good_at_child:
  assumes "good_at X B (Suc n) t" "get_entries X B t = Inr es" "TreeE s \<in> set es"
  shows "good_at X B n s" "node_set X B s \<subseteq> node_set X B t"
proof -
  have g: "good X B t" by (rule good_at_good[OF assms(1)])
  obtain L c where L: "wf_mst X B L t" "L < Suc n" "Suc n \<le> mst_fuel" "root_cid X B (Suc L) t = Inr c"
    using assms(1) by (auto simp: good_at_def)
  have "entries_ok X L (sub_ok X B L) es" using L(1) by (rule wf_mst_E) (use assms(2) in simp)
  then have "sub_ok X B L s" using assms(3) by (auto simp: entries_ok_def list_all_iff)
  then obtain M where M: "L = Suc M" "wf_mst X B M s" by (rule sub_ok_E)
  have "list_all (good_entry X B) es" using good_E[OF g] assms(2) by (metis sum.inject(2))
  then have gs: "good X B s" using assms(3) by (auto simp: list_all_iff good_entry_def)
  then obtain p where "get_pointer X B mst_fuel s = Inr p" using good_E by metis
  then have "root_cid X B (Suc M) s = Inr p" using get_pointer_ok[OF M(2), of mst_fuel] L(2,3) M(1) by simp
  then show "good_at X B n s" unfolding good_at_def using M L(2,3) by (intro exI[of _ M] exI[of _ p]) simp
  obtain q where "get_pointer X B mst_fuel t = Inr q" using good_E[OF g] by metis
  then show "node_set X B s \<subseteq> node_set X B t"
    using tcids_tree[OF g assms(2), of q "[]"] tcids_subset[OF assms(3), of X B] by (auto simp: node_set_def)
qed

definition opt_nth :: "'a list \<Rightarrow> nat \<Rightarrow> 'a option" where
  "opt_nth xs i = (if i < length xs then Some (xs ! i) else None)"

definition entry_before :: "'a list \<Rightarrow> nat \<Rightarrow> 'a option" where
  "entry_before xs i = (if i = 0 then None else opt_nth xs (i - 1))"

lemma opt_nth_Some: "opt_nth xs i = Some x \<Longrightarrow> x \<in> set xs"
  by (auto simp: opt_nth_def split: if_splits)

lemma entry_before_Some: "entry_before xs i = Some x \<Longrightarrow> x \<in> set xs"
  by (auto simp: entry_before_def dest: opt_nth_Some split: if_splits)

lemma cursor_at:
  assumes "get_entries X B t = Inr es"
  shows "find_gt_or_equal_leaf_index X B t key = Inr (int (leaf_position key es))"
    "at_index X B t (int i) = Inr (opt_nth es i)"
    "at_index X B t (int i - 1) = Inr (entry_before es i)"
    "at_index X B t (int i + 1) = Inr (opt_nth es (Suc i))"
  using assms by (auto simp: find_gt_or_equal_leaf_index_def at_index_def opt_nth_def entry_before_def nat_diff_distrib' nat_add_distrib)

section \<open>Every proof is made of blocks of the tree\<close>

definition node_blocks :: "ext \<Rightarrow> cid set \<Rightarrow> block_map \<Rightarrow> bool" where
  "node_blocks X cs blks \<longleftrightarrow>
     bm_inv blks \<and> (\<forall>c b. bm_get c blks = Some b \<longrightarrow> c \<in> cs \<and> (\<exists>m. c = x_cid X m \<and> b = x_enc X m))"

lemma node_blocks_new [simp]: "node_blocks X cs bm_new"
  by (simp add: node_blocks_def)

lemma node_blocks_mono: "node_blocks X cs blks \<Longrightarrow> cs \<subseteq> ds \<Longrightarrow> node_blocks X ds blks"
  by (auto simp: node_blocks_def)

lemma node_blocks_add_map: "node_blocks X cs a \<Longrightarrow> node_blocks X cs b \<Longrightarrow> node_blocks X cs (bm_add_map a b)"
  by (auto simp: node_blocks_def bm_get_add_map split: option.splits)

lemma set_serialized_ok:
  assumes "good X B t" "node_blocks X (node_set X B t) blks"
  obtains blks' c where "set_serialized X B mst_fuel t blks = Inr blks'" "node_blocks X (node_set X B t) blks'"
    "get_pointer X B mst_fuel t = Inr c" "\<forall>d. bm_has d blks' \<longleftrightarrow> d = c \<or> bm_has d blks"
proof -
  obtain m where m: "get_pointer X B mst_fuel t = Inr (x_cid X m)" "mst_serialize X B mst_fuel t = Inr (x_cid X m, x_enc X m)"
    using good_cid[OF assms(1)] .
  obtain es where "get_entries X B t = Inr es" using good_E[OF assms(1)] by metis
  then have "x_cid X m \<in> node_set X B t" using tcids_tree[OF assms(1) _ m(1), of es "[]"] by (simp add: node_set_def)
  then have "node_blocks X (node_set X B t) (bm_set (x_cid X m) (x_enc X m) blks)"
    using assms(2) by (auto simp: node_blocks_def bm_get_set split: if_splits)
  from that[OF _ this m(1)] show ?thesis by (auto simp: set_serialized_def m(2) bm_has_get bm_get_set)
qed

text \<open>The nodes on the way to a key.\<close>

definition path_covered :: "ext \<Rightarrow> cid list \<Rightarrow> block_map \<Rightarrow> bool" where
  "path_covered X cs blks \<longleftrightarrow> (\<forall>m. x_cid X m \<in> set cs \<longrightarrow> bm_has (x_cid X m) blks)"

lemma proof_for_key_ok:
  "good_at X B n t \<Longrightarrow> \<exists>blks. proof_for_key X B mst_fuel n t key = Inr blks \<and> node_blocks X (node_set X B t) blks"
proof (induction n arbitrary: t)
  case (Suc n)
  have g: "good X B t" by (rule good_at_good[OF Suc.prems])
  obtain es where es: "get_entries X B t = Inr es" using good_E[OF g] by metis
  let ?p = "leaf_position key es"
  have fin: "\<exists>blks'. set_serialized X B mst_fuel t blks = Inr blks' \<and> node_blocks X (node_set X B t) blks'"
    if "node_blocks X (node_set X B t) blks" for blks
    using set_serialized_ok[OF g that] by metis
  have down: "\<exists>blks'. res_bind (proof_for_key X B mst_fuel n s key) (set_serialized X B mst_fuel t) = Inr blks' \<and>
      node_blocks X (node_set X B t) blks'" if s: "entry_before es ?p = Some (TreeE s)" for s
  proof -
    obtain blks where "proof_for_key X B mst_fuel n s key = Inr blks" "node_blocks X (node_set X B s) blks"
      using Suc.IH good_at_child(1)[OF Suc.prems es entry_before_Some[OF s]] by blast
    then show ?thesis using fin[of blks] node_blocks_mono good_at_child(2)[OF Suc.prems es entry_before_Some[OF s]] by auto
  qed
  show ?case
    using fin[of bm_new] down by (auto simp: cursor_at[OF es] split: option.splits node_entry.splits)
qed simp

lemma proof_for_right_sib_ok:
  "good_at X B n t \<Longrightarrow> \<exists>blks. proof_for_right_sib X B mst_fuel n t key = Inr blks \<and> node_blocks X (node_set X B t) blks"
proof (induction n arbitrary: t)
  case (Suc n)
  have g: "good X B t" by (rule good_at_good[OF Suc.prems])
  obtain es where es: "get_entries X B t = Inr es" using good_E[OF g] by metis
  let ?p = "leaf_position key es"
  have fin: "\<exists>blks'. set_serialized X B mst_fuel t blks = Inr blks' \<and> node_blocks X (node_set X B t) blks'"
    if "node_blocks X (node_set X B t) blks" for blks
    using set_serialized_ok[OF g that] by metis
  have down: "\<exists>blks'. res_bind (proof_for_right_sib X B mst_fuel n s key) (set_serialized X B mst_fuel t) = Inr blks' \<and>
      node_blocks X (node_set X B t) blks'" if s: "TreeE s \<in> set es" for s
  proof -
    obtain blks where "proof_for_right_sib X B mst_fuel n s key = Inr blks" "node_blocks X (node_set X B s) blks"
      using Suc.IH good_at_child(1)[OF Suc.prems es s] by blast
    then show ?thesis using fin[of blks] node_blocks_mono good_at_child(2)[OF Suc.prems es s] by auto
  qed
  show ?case
    using fin[of bm_new] down
    by (auto simp: cursor_at[OF es] split: option.splits node_entry.splits dest: opt_nth_Some entry_before_Some)
qed simp

lemma proof_for_left_sib_ok:
  "good_at X B n t \<Longrightarrow> \<exists>blks cs. proof_for_left_sib X B mst_fuel n t key = Inr blks \<and> node_blocks X (node_set X B t) blks \<and>
    cids_for_path X B mst_fuel n t key = Inr cs \<and>
    (\<forall>m. x_cid X m \<in> set cs \<longrightarrow> x_cid X m \<in> values_of X B t \<or> bm_has (x_cid X m) blks)"
proof (induction n arbitrary: t)
  case (Suc n)
  have g: "good X B t" by (rule good_at_good[OF Suc.prems])
  obtain es where es: "get_entries X B t = Inr es" "tleaves X B mst_fuel t = cl X B es" using good_E[OF g] by metis
  let ?p = "leaf_position key es"
  have leaf: "v \<in> values_of X B t" if "LeafE k v \<in> set es" for k v
    using leaf_in_eleaves[OF that, of X B mst_fuel] es(2) by (force simp: values_of_def mst_contents_def cl_def)
  show ?case
  proof (cases "\<exists>s. entry_before es ?p = Some (TreeE s)")
    case True
    then obtain s where s: "entry_before es ?p = Some (TreeE s)" by blast
    note ch = good_at_child[OF Suc.prems es(1) entry_before_Some[OF s]]
    obtain blks cs where IH: "proof_for_left_sib X B mst_fuel n s key = Inr blks" "node_blocks X (node_set X B s) blks"
      "cids_for_path X B mst_fuel n s key = Inr cs"
      "\<forall>m. x_cid X m \<in> set cs \<longrightarrow> x_cid X m \<in> values_of X B s \<or> bm_has (x_cid X m) blks"
      using Suc.IH[OF ch(1)] by blast
    have sub: "values_of X B s \<subseteq> values_of X B t"
    proof -
      have "set (tleaves X B mst_fuel s) \<subseteq> set (cl X B es)"
        using entry_before_Some[OF s] by (auto simp: cl_def eleaves_def)
      then show ?thesis using es(2) by (auto simp: values_of_def mst_contents_def)
    qed
    obtain blks' c where b: "set_serialized X B mst_fuel t blks = Inr blks'" "node_blocks X (node_set X B t) blks'"
      "get_pointer X B mst_fuel t = Inr c" "\<forall>d. bm_has d blks' \<longleftrightarrow> d = c \<or> bm_has d blks"
      using set_serialized_ok[OF g node_blocks_mono[OF IH(2) ch(2)]] .
    have "\<exists>ds. cids_for_path X B mst_fuel (Suc n) t key = Inr ds \<and>
        (\<forall>m. x_cid X m \<in> set ds \<longrightarrow> x_cid X m \<in> values_of X B t \<or> bm_has (x_cid X m) blks')"
      using IH(3,4) b(3,4) sub leaf s
      by (auto simp: cursor_at[OF es(1)] split: option.splits node_entry.splits dest!: opt_nth_Some simp del: get_pointer.simps)
    moreover have "proof_for_left_sib X B mst_fuel (Suc n) t key = Inr blks'"
      using IH(1) b(1) s by (simp add: cursor_at[OF es(1)])
    ultimately show ?thesis using b(2) by blast
  next
    case False
    obtain blks' c where b: "set_serialized X B mst_fuel t bm_new = Inr blks'" "node_blocks X (node_set X B t) blks'"
      "get_pointer X B mst_fuel t = Inr c" "\<forall>d. bm_has d blks' \<longleftrightarrow> d = c \<or> bm_has d bm_new"
      using set_serialized_ok[OF g node_blocks_new] .
    have "\<exists>ds. cids_for_path X B mst_fuel (Suc n) t key = Inr ds \<and>
        (\<forall>m. x_cid X m \<in> set ds \<longrightarrow> x_cid X m \<in> values_of X B t \<or> bm_has (x_cid X m) blks')"
      using b(3,4) leaf False
      by (auto simp: cursor_at[OF es(1)] split: option.splits node_entry.splits dest!: opt_nth_Some simp del: get_pointer.simps)
    moreover have "proof_for_left_sib X B mst_fuel (Suc n) t key = Inr blks'"
      using b(1) False by (auto simp: cursor_at[OF es(1)] split: option.splits node_entry.splits)
    ultimately show ?thesis using b(2) by blast
  qed
qed simp

section \<open>Looking a key up with the blocks of its path\<close>

definition serves :: "ext \<Rightarrow> blocks \<Rightarrow> cid list \<Rightarrow> bool" where
  "serves X B cs \<longleftrightarrow> (\<forall>m. x_cid X m \<in> set cs \<longrightarrow> B (x_cid X m) = Some (x_enc X m))"

definition same_shape :: "ext \<Rightarrow> blocks \<Rightarrow> node_entry \<Rightarrow> node_entry \<Rightarrow> bool" where
  "same_shape X B e f =
     (case e of
        LeafE k v \<Rightarrow> f = LeafE k v
      | TreeE s \<Rightarrow> (\<exists>p l. f = TreeE (mst_load p l) \<and> get_pointer X B mst_fuel s = Inr p))"

lemma same_shape_position: "list_all2 (same_shape X B) es fs \<Longrightarrow> leaf_position key fs = leaf_position key es"
proof (induction rule: list_all2_induct)
  case (Cons e es f fs)
  then show ?case by (cases e) (auto simp: same_shape_def)
qed simp

lemma same_shape_nth:
  assumes "list_all2 (same_shape X B) es fs"
  shows "rel_option (same_shape X B) (opt_nth es i) (opt_nth fs i)" "rel_option (same_shape X B) (entry_before es i) (entry_before fs i)"
  using assms by (auto simp: opt_nth_def entry_before_def list_all2_conv_all_nth)

lemma hydrated_shape:
  assumes X: "collision_free X" "codec_ok X" and t: "good X B t" "get_entries X B t = Inr es" "get_pointer X B mst_fuel t = Inr c"
    and s: "serves X B' cs" "c \<in> set cs"
  obtains fs where "get_entries X B' (mst_load c l) = Inr fs" "list_all2 (same_shape X B) es fs"
proof -
  obtain gs d where gs: "list_all2 (\<lambda>e e'. refresh_entry X B mst_fuel e = Inr e') es gs" "serialize_node_data X gs = Inr d"
    "get_pointer X B mst_fuel t = Inr (x_cid X d)" using good_refreshed[OF t(1,2)] by metis
  then have "B' c = Some (x_enc X d)" using t(3) s by (simp add: serves_def)
  then have "get_entries X B' (mst_load c l) = Inr (map (as_loaded (layer_for_entries X gs)) gs)"
    using stored_node_hydrates[of X gs d B' c l] X gs(2) by (simp add: collision_free_def codec_ok_def)
  moreover have "same_shape X B e (as_loaded (layer_for_entries X gs) e')" if "refresh_entry X B mst_fuel e = Inr e'" for e e'
    using that by (cases e) (auto simp: same_shape_def refresh_entry_def[of _ _ _ "LeafE _ _"] elim!: refresh_TreeE)
  ultimately show ?thesis using that gs(1) by (auto simp: list_all2_conv_all_nth)
qed

lemma path_lookup:
  assumes X: "collision_free X" "codec_ok X"
  shows "good_at X B n t \<Longrightarrow> get_pointer X B mst_fuel t = Inr c \<Longrightarrow> cids_for_path X B mst_fuel n t key = Inr cs \<Longrightarrow> serves X B' cs \<Longrightarrow>
    mst_get X B' n (mst_load c l) key = mst_get X B n t key"
proof (induction n arbitrary: t c cs l)
  case (Suc n)
  have g: "good X B t" by (rule good_at_good[OF Suc.prems(1)])
  obtain es where es: "get_entries X B t = Inr es" using good_E[OF g] by metis
  have "c \<in> set cs"
    using Suc.prems(2,3) by (auto simp: cursor_at[OF es] res_bind_eq_Inr_iff split: option.splits node_entry.splits if_splits)
  then obtain fs where fs: "get_entries X B' (mst_load c l) = Inr fs" "list_all2 (same_shape X B) es fs"
    using hydrated_shape[OF X g es Suc.prems(2,4)] by blast
  let ?p = "leaf_position key es"
  note r = same_shape_nth[OF fs(2), of ?p]
  have down: "mst_get X B' n (mst_load q l') key = mst_get X B n s key"
    if s: "entry_before es ?p = Some (TreeE s)" and q: "get_pointer X B mst_fuel s = Inr q" and ds: "cids_for_path X B mst_fuel n s key = Inr ds" and sub: "set ds \<subseteq> set cs" for s q l' ds
    using Suc.IH[OF good_at_child(1)[OF Suc.prems(1) es entry_before_Some[OF s]] q ds] Suc.prems(4) sub
    by (auto simp: serves_def)
  show ?case
    using Suc.prems(2,3) r
    by (auto simp: cursor_at[OF es] cursor_at[OF fs(1)] same_shape_position[OF fs(2)] same_shape_def option_rel_Some1 option_rel_Some2
        res_bind_eq_Inr_iff split: option.splits node_entry.splits if_splits simp del: get_pointer.simps)
      (rule down, assumption, assumption, assumption, force)+
qed simp

section \<open>Saving stores every node\<close>

text \<open>A store in which a node that is present has everything below it.\<close>

definition closed_below :: "ext \<Rightarrow> blocks \<Rightarrow> mst \<Rightarrow> bool" where
  "closed_below X B t \<longleftrightarrow>
     (\<forall>s c. good X B s \<longrightarrow> node_set X B s \<subseteq> node_set X B t \<longrightarrow> get_pointer X B mst_fuel s = Inr c \<longrightarrow>
        B c \<noteq> None \<longrightarrow> holds X B (node_set X B s))"

lemma closed_below_mono: "closed_below X B t \<Longrightarrow> node_set X B s \<subseteq> node_set X B t \<Longrightarrow> closed_below X B s"
  unfolding closed_below_def by blast

definition saved_with :: "ext \<Rightarrow> blocks \<Rightarrow> cid set \<Rightarrow> block_map \<Rightarrow> bool" where
  "saved_with X B cs blks \<longleftrightarrow> (\<forall>c\<in>cs. bm_has c blks \<or> (\<exists>m. c = x_cid X m \<and> B c = Some (x_enc X m)))"

lemma unstored_fold:
  assumes "\<And>s. TreeE s \<in> set es \<Longrightarrow> \<exists>c sub. f s = Inr (c, sub) \<and> node_blocks X N sub \<and> saved_with X B (node_set X B s) sub"
    "node_blocks X N blks"
  shows "\<exists>blks'. res_fold (\<lambda>e blks. case e of
        TreeE s \<Rightarrow> res_bind (f s) (\<lambda>(_, sub). Inr (bm_add_map blks sub)) | LeafE _ _ \<Rightarrow> Inr blks) es blks = Inr blks' \<and>
      node_blocks X N blks' \<and> saved_with X B (set (tcids X B es)) blks' \<and> (\<forall>c. bm_has c blks \<longrightarrow> bm_has c blks')"
  using assms
proof (induction es arbitrary: blks)
  case (Cons e es)
  show ?case
  proof (cases e)
    case (LeafE k v)
    then show ?thesis using Cons.IH[of blks] Cons.prems by simp
  next
    case (TreeE s)
    obtain c sub where s: "f s = Inr (c, sub)" "node_blocks X N sub" "saved_with X B (node_set X B s) sub"
      using Cons.prems(1)[of s] TreeE by auto
    have "node_blocks X N (bm_add_map blks sub)" using Cons.prems(2) s(2) by (rule node_blocks_add_map)
    then obtain blks' where b: "res_fold (\<lambda>e blks. case e of
          TreeE s \<Rightarrow> res_bind (f s) (\<lambda>(_, sub). Inr (bm_add_map blks sub)) | LeafE _ _ \<Rightarrow> Inr blks) es (bm_add_map blks sub) = Inr blks'"
      "node_blocks X N blks'" "saved_with X B (set (tcids X B es)) blks'" "\<forall>c. bm_has c (bm_add_map blks sub) \<longrightarrow> bm_has c blks'"
      using Cons.IH[of "bm_add_map blks sub"] Cons.prems(1) by auto
    have add: "bm_has d (bm_add_map blks sub) \<longleftrightarrow> bm_has d sub \<or> bm_has d blks" for d
      using Cons.prems(2) s(2) by (auto simp: node_blocks_def bm_has_get bm_get_add_map split: option.splits)
    have "saved_with X B (set (tcids X B (TreeE s # es))) blks'"
      using s(3) b(3,4) add tcids_Cons[of X B "TreeE s" es] by (auto simp: saved_with_def node_set_def)
    then show ?thesis using s(1) b add TreeE by auto
  qed
qed (simp add: saved_with_def)

lemma unstored_ok:
  "good_at X B n t \<Longrightarrow> closed_below X B t \<Longrightarrow>
   \<exists>c blks. get_unstored_blocks X B mst_fuel n t = Inr (c, blks) \<and> get_pointer X B mst_fuel t = Inr c \<and>
     node_blocks X (node_set X B t) blks \<and> saved_with X B (node_set X B t) blks"
proof (induction n arbitrary: t)
  case (Suc n)
  have g: "good X B t" by (rule good_at_good[OF Suc.prems(1)])
  obtain es where es: "get_entries X B t = Inr es" using good_E[OF g] by metis
  obtain gs d where gs: "list_all2 (\<lambda>e e'. refresh_entry X B mst_fuel e = Inr e') es gs" "serialize_node_data X gs = Inr d"
    "get_pointer X B mst_fuel t = Inr (x_cid X d)" using good_refreshed[OF g es] by metis
  let ?c = "x_cid X d"
  have tc: "node_set X B t = insert ?c (set (tcids X B es))"
    using tcids_tree[OF g es gs(3), of "[]"] by (simp add: node_set_def)
  show ?case
  proof (cases "B ?c = None")
    case False
    then have "holds X B (node_set X B t)" using Suc.prems(2) g gs(3) by (auto simp: closed_below_def)
    then show ?thesis using False gs(3) by (auto simp: saved_with_def holds_def simp del: get_pointer.simps)
  next
    case True
    have r: "res_map (refresh_entry X B mst_fuel) es = Inr gs"
      using gs(1) by (induction rule: list_all2_induct) simp_all
    have kids: "\<exists>c sub. get_unstored_blocks X B mst_fuel n s = Inr (c, sub) \<and> node_blocks X (node_set X B t) sub \<and>
        saved_with X B (node_set X B s) sub" if s: "TreeE s \<in> set es" for s
      using Suc.IH[OF good_at_child(1)[OF Suc.prems(1) es s]] closed_below_mono[OF Suc.prems(2)]
        good_at_child(2)[OF Suc.prems(1) es s] node_blocks_mono by meson
    have "node_blocks X (node_set X B t) (bm_set ?c (x_enc X d) bm_new)"
      using tc by (auto simp: node_blocks_def bm_get_set split: if_splits)
    from unstored_fold[OF kids this] obtain blks where
      b: "res_fold (\<lambda>e blks. case e of
          TreeE s \<Rightarrow> res_bind (get_unstored_blocks X B mst_fuel n s) (\<lambda>(_, sub). Inr (bm_add_map blks sub))
        | LeafE _ _ \<Rightarrow> Inr blks) es (bm_set ?c (x_enc X d) bm_new) = Inr blks"
      "node_blocks X (node_set X B t) blks" "saved_with X B (set (tcids X B es)) blks"
      "\<forall>c. bm_has c (bm_set ?c (x_enc X d) bm_new) \<longrightarrow> bm_has c blks" by blast
    have "bm_has ?c blks" using b(4) by (simp add: bm_has_get bm_get_set)
    then have "saved_with X B (node_set X B t) blks" using b(3) tc by (simp add: saved_with_def)
    moreover have "get_unstored_blocks X B mst_fuel (Suc n) t = Inr (?c, blks)"
      using True es gs(2,3) r b(1) by (simp del: get_pointer.simps)
    ultimately show ?thesis using b(2) gs(3) by blast
  qed
qed simp

section \<open>A covering proof covers its path\<close>

lemma covering_proof_covers:
  assumes "comparable X B t" "values_of X B t \<inter> range (x_cid X) = {}"
  obtains blks cs where "get_covering_proof X B mst_fuel mst_fuel t key = Inr blks" "node_blocks X (node_set X B t) blks"
    "cids_for_path X B mst_fuel mst_fuel t key = Inr cs" "\<forall>m. x_cid X m \<in> set cs \<longrightarrow> bm_has (x_cid X m) blks"
proof -
  have g: "good_at X B mst_fuel t" by (rule comparable_good_at[OF assms(1)])
  obtain b0 b2 where b02: "proof_for_key X B mst_fuel mst_fuel t key = Inr b0" "node_blocks X (node_set X B t) b0"
    "proof_for_right_sib X B mst_fuel mst_fuel t key = Inr b2" "node_blocks X (node_set X B t) b2"
    using proof_for_key_ok[OF g] proof_for_right_sib_ok[OF g] by metis
  obtain b1 cs where b1: "proof_for_left_sib X B mst_fuel mst_fuel t key = Inr b1" "node_blocks X (node_set X B t) b1"
    "cids_for_path X B mst_fuel mst_fuel t key = Inr cs"
    "\<forall>m. x_cid X m \<in> set cs \<longrightarrow> x_cid X m \<in> values_of X B t \<or> bm_has (x_cid X m) b1"
    using proof_for_left_sib_ok[OF g] by metis
  define blks where "blks = bm_add_map (bm_add_map b0 b1) b2"
  have nb: "node_blocks X (node_set X B t) blks" unfolding blks_def by (intro node_blocks_add_map b02 b1)
  have "bm_has d blks" if "bm_has d b1" for d
    using that b02(2,4) b1(2) by (auto simp: blks_def node_blocks_def bm_has_get bm_get_add_map split: option.splits)
  then have "\<forall>m. x_cid X m \<in> set cs \<longrightarrow> bm_has (x_cid X m) blks" using b1(4) assms(2) by blast
  moreover have "get_covering_proof X B mst_fuel mst_fuel t key = Inr blks"
    using b02 b1(1) by (simp add: get_covering_proof_def blks_def)
  ultimately show ?thesis using that nb b1(3) by blast
qed

lemma covered_lookup:
  assumes "collision_free X" "codec_ok X" "comparable X B t" "get_pointer X B mst_fuel t = Inr c"
    and "cids_for_path X B mst_fuel mst_fuel t key = Inr cs" "serves X B' cs"
  shows "mst_get X B' mst_fuel (mst_load c None) key = Inr (map_of (mst_contents X B t) key)"
  using path_lookup[OF assms(1,2) comparable_good_at[OF assms(3)] assms(4-6)] assms(3) mst_get_contents
  by (simp add: comparable_def)

lemma node_blocks_serve:
  "collision_free X \<Longrightarrow> node_blocks X N blks \<Longrightarrow> \<forall>m. x_cid X m \<in> set cs \<longrightarrow> bm_has (x_cid X m) blks \<Longrightarrow> serves X (\<lambda>d. bm_get d blks) cs"
  by (fastforce simp: serves_def node_blocks_def bm_has_get collision_free_def dest: injD)

section \<open>Properties\<close>

text \<open>A covering proof proves: \<open>get_covering_proof\<close> returns only nodes of the tree, and a reader who
  knows the root CID and has nothing but these blocks looks the key up with the result the full tree
  gives, whether the key is present or absent.\<close>

theorem covering_proof_proves_key:
  assumes "collision_free X" "codec_ok X" "comparable X B t" "values_of X B t \<inter> range (x_cid X) = {}"
    and "get_pointer X B mst_fuel t = Inr c"
  shows "\<exists>blks. get_covering_proof X B mst_fuel mst_fuel t key = Inr blks \<and>
    (\<forall>d. bm_has d blks \<longrightarrow> d \<in> node_set X B t) \<and>
    mst_get X (\<lambda>d. bm_get d blks) mst_fuel (mst_load c None) key = Inr (map_of (mst_contents X B t) key)"
proof -
  obtain blks cs where b: "get_covering_proof X B mst_fuel mst_fuel t key = Inr blks" "node_blocks X (node_set X B t) blks"
    "cids_for_path X B mst_fuel mst_fuel t key = Inr cs" "\<forall>m. x_cid X m \<in> set cs \<longrightarrow> bm_has (x_cid X m) blks"
    using covering_proof_covers[OF assms(3,4)] by metis
  then show ?thesis
    using covered_lookup[OF assms(1,2,3,5) b(3) node_blocks_serve[OF assms(1) b(2,4)]] by (auto simp: node_blocks_def bm_has_get)
qed

theorem covering_proof_proves_key_witness:
  "\<exists>c blks. get_covering_proof inj_ext Map.empty mst_fuel mst_fuel (one_leaf ''c/0'' ''v'') ''c/0'' = Inr blks \<and>
    mst_get inj_ext (\<lambda>d. bm_get d blks) mst_fuel (mst_load c None) ''c/0'' = Inr (Some ''v'')"
proof -
  obtain c where "get_pointer inj_ext Map.empty mst_fuel (one_leaf ''c/0'' ''v'') = Inr c" using one_leaf_ok(3) by blast
  moreover have "values_of inj_ext Map.empty (one_leaf ''c/0'' ''v'') \<inter> range (x_cid inj_ext) = {}"
    using one_leaf_comparable(2) inj_not_node by simp
  ultimately show ?thesis
    using covering_proof_proves_key[OF inj_collision_free inj_codec_ok one_leaf_comparable(1), of "''c/0''" Map.empty "''v''" c "''c/0''"]
      one_leaf_ok(2)[of "''c/0''" Map.empty "''v''"] by auto
qed

text \<open>Saving a tree makes it loadable: when no node that the store already has lacks a node below it,
  \<open>save_mst\<close> returns the root CID, and the tree loaded from that CID in the changed store satisfies the
  invariant and has the contents of the tree that was saved.\<close>

theorem saved_tree_loads:
  assumes "collision_free X" "codec_ok X" "ms_inv st" "comparable X (\<lambda>c. ms_get_bytes c st) t" "closed_below X (\<lambda>c. ms_get_bytes c st) t"
  shows "\<exists>root st'. save_mst X mst_fuel mst_fuel rv t st = Inr (root, st') \<and>
    comparable X (\<lambda>c. ms_get_bytes c st') (mst_load root None) \<and>
    mst_contents X (\<lambda>c. ms_get_bytes c st') (mst_load root None) = mst_contents X (\<lambda>c. ms_get_bytes c st) t"
proof -
  let ?B = "\<lambda>c. ms_get_bytes c st"
  obtain c blks where u: "get_unstored_blocks X ?B mst_fuel mst_fuel t = Inr (c, blks)" "get_pointer X ?B mst_fuel t = Inr c"
    "node_blocks X (node_set X ?B t) blks" "saved_with X ?B (node_set X ?B t) blks"
    using unstored_ok[OF comparable_good_at[OF assms(4)] assms(5)] by metis
  let ?st = "ms_put_many blks rv st"
  have "ms_get_bytes d ?st = (case bm_get d blks of Some b \<Rightarrow> Some b | None \<Rightarrow> ms_get_bytes d st)" for d
    using bm_get_add_map[of "ms_blocks st" blks d] assms(3) u(3)
    by (simp add: ms_put_many_def ms_get_bytes_def ms_inv_def node_blocks_def split: option.split)
  then have "holds X (\<lambda>d. ms_get_bytes d ?st) (node_set X ?B t)"
    using u(3,4) unfolding holds_def saved_with_def node_blocks_def bm_has_get by (metis not_Some_eq option.simps(4,5))
  then have "comparable X (\<lambda>d. ms_get_bytes d ?st) (mst_load c None)"
    "mst_contents X (\<lambda>d. ms_get_bytes d ?st) (mst_load c None) = mst_contents X ?B t"
    using reload_inv(1,2)[OF assms(1,2,4) u(2)] by blast+
  then show ?thesis using u(1) by (simp add: save_mst_def)
qed

theorem saved_tree_loads_witness:
  "\<exists>root st'. save_mst inj_ext mst_fuel mst_fuel ''r'' (one_leaf ''c/0'' ''v'') ms_default = Inr (root, st') \<and>
    mst_contents inj_ext (\<lambda>c. ms_get_bytes c st') (mst_load root None) = [(''c/0'', ''v'')]"
proof -
  have "ms_inv ms_default" by (simp add: ms_inv_def ms_default_def)
  moreover have "closed_below inj_ext (\<lambda>c. ms_get_bytes c ms_default) (one_leaf ''c/0'' ''v'')"
    by (simp add: closed_below_def ms_get_bytes_def ms_default_def)
  ultimately show ?thesis
    using saved_tree_loads[OF inj_collision_free inj_codec_ok _ one_leaf_comparable(1), of ms_default "''c/0''" "''v''" "''r''"]
      one_leaf_ok(2) by fastforce
qed

end
