(* ===== verification/Repo_Types.thy ===== *)
theory Repo_Types
  imports Lex_Ipld Mst_Proof Syntax_AtUri Common_Tid
begin

text \<open>
  The vocabulary of a repository: commits and write operations (\<open>rsky-repo/src/types.rs\<close>), keys,
  signatures and descriptions of a difference (\<open>util.rs\<close>), and typed reads from a store
  (\<open>parse.rs\<close>, \<open>storage/readable_blockstore.rs\<close>, \<open>error.rs\<close>). The encoders, the hash and the signature
  scheme are the fields of \<open>repo_env\<close>; \<open>'c\<close> is a decoded CBOR value and \<open>'k\<close> a key pair.
\<close>

section \<open>Commits\<close>

record unsigned_commit =
  uc_did :: string
  uc_rev :: string
  uc_data :: cid
  uc_prev :: "cid option"
  uc_version :: nat

record commit =
  cm_did :: string
  cm_rev :: string
  cm_data :: cid
  cm_prev :: "cid option"
  cm_version :: nat
  cm_sig :: bytes

record legacy_v2_commit =
  lc_did :: string
  lc_rev :: "string option"
  lc_data :: cid
  lc_prev :: "cid option"
  lc_version :: nat
  lc_sig :: bytes

datatype versioned_commit = V3Commit commit | LegacyV2Commit legacy_v2_commit

definition vc_data :: "versioned_commit \<Rightarrow> cid" where
  "vc_data v = (case v of V3Commit c \<Rightarrow> cm_data c | LegacyV2Commit c \<Rightarrow> lc_data c)"

definition vc_did :: "versioned_commit \<Rightarrow> string" where
  "vc_did v = (case v of V3Commit c \<Rightarrow> cm_did c | LegacyV2Commit c \<Rightarrow> lc_did c)"

definition vc_version :: "versioned_commit \<Rightarrow> nat" where
  "vc_version v = (case v of V3Commit c \<Rightarrow> cm_version c | LegacyV2Commit c \<Rightarrow> lc_version c)"

datatype repo_error =
    MstErr mst_error
  | LexErr lex_error
  | UriErr uri_error
  | EncodeError
  | DecodeError
  | SignError
  | ClockPanic
  | UnwrapPanic
  | NoRoot
  | MissingCommit cid
  | DataMissingBlock cid
  | DataMissingBlocks string "cid list"
  | DataUnexpectedObject cid
  | MissingLeafBlocks "cid list"
  | InvalidRecordKey string
  | UnexpectedAction string
  | InvalidRepoDid string
  | InvalidSignature cid
  | RootCount nat
  | UniqueViolation
  | NoRows
  | ConcurrentWrite
  | ExportExceeded
  | IndexedUriError string
  | InvalidBacklink string
  | BadRecordSwap "cid option"
  | RecordSwapMismatch "cid option"
  | BadCommitSwap cid
  | MissingRepoRoot string
  | TooManyWrites
  | EventTooLarge
  | UnsafePathPart string
  | UnknownBlobWork string
  | BlobNotFound cid
  | BlobTakenDown cid
  | BlobMimeMismatch string string
  | NoRestoreVersion int
  | NotReadableYet cid
  | LimitTooHigh
  | ObjectStoreError

definition mst_res :: "mst_error + 'a \<Rightarrow> repo_error + 'a" where
  "mst_res r = (case r of Inl e \<Rightarrow> Inl (MstErr e) | Inr x \<Rightarrow> Inr x)"

definition lex_res :: "lex_error + 'a \<Rightarrow> repo_error + 'a" where
  "lex_res r = (case r of Inl e \<Rightarrow> Inl (LexErr e) | Inr x \<Rightarrow> Inr x)"

definition uri_res :: "uri_error + 'a \<Rightarrow> repo_error + 'a" where
  "uri_res r = (case r of Inl e \<Rightarrow> Inl (UriErr e) | Inr x \<Rightarrow> Inr x)"

lemma mst_res_simps [simp]: "mst_res (Inr x) = Inr x" "mst_res (Inl e) = Inl (MstErr e)"
  by (simp_all add: mst_res_def)

lemma lex_res_simps [simp]: "lex_res (Inr x) = Inr x" "lex_res (Inl e) = Inl (LexErr e)"
  by (simp_all add: lex_res_def)

lemma uri_res_simps [simp]: "uri_res (Inr x) = Inr x" "uri_res (Inl e) = Inl (UriErr e)"
  by (simp_all add: uri_res_def)

record ('c, 'k) repo_env =
  re_mst :: ext
  re_lex :: lex_ext
  ipld_cid :: "ipld \<Rightarrow> repo_error + cid"
  ipld_enc :: "ipld \<Rightarrow> repo_error + bytes"
  ipld_dec :: "bytes \<Rightarrow> ipld option"
  commit_cid :: "commit \<Rightarrow> repo_error + cid"
  commit_enc :: "commit \<Rightarrow> repo_error + bytes"
  commit_dec :: "bytes \<Rightarrow> commit option"
  cbor_dec :: "bytes \<Rightarrow> 'c option"
  cbor_is_map :: "'c \<Rightarrow> bool"
  cbor_commit :: "'c \<Rightarrow> commit option"
  cbor_versioned :: "'c \<Rightarrow> versioned_commit option"
  sign_bytes :: "unsigned_commit \<Rightarrow> 'k \<Rightarrow> repo_error + bytes"
  unsigned_enc :: "unsigned_commit \<Rightarrow> repo_error + bytes"
  sha256_digest :: "bytes \<Rightarrow> bytes"
  verify_digest :: "string \<Rightarrow> bytes \<Rightarrow> bytes \<Rightarrow> repo_error + bool"

section \<open>Writes\<close>

datatype write_op_action = ACreate | AUpdate | ADelete

definition action_text :: "write_op_action \<Rightarrow> string" where
  "action_text a = (case a of ACreate \<Rightarrow> ''create'' | AUpdate \<Rightarrow> ''update'' | ADelete \<Rightarrow> ''delete'')"

datatype commit_action = CCreate | CUpdate | CDelete

definition commit_action_of :: "write_op_action \<Rightarrow> commit_action" where
  "commit_action_of a = (case a of ACreate \<Rightarrow> CCreate | AUpdate \<Rightarrow> CUpdate | ADelete \<Rightarrow> CDelete)"

record create_or_update_op =
  cu_action :: write_op_action
  cu_collection :: string
  cu_rkey :: string
  cu_record :: repo_record

record delete_op =
  de_action :: write_op_action
  de_collection :: string
  de_rkey :: string

datatype record_write_op = CreateOp create_or_update_op | UpdateOp create_or_update_op | DeleteOp delete_op

definition op_collection :: "record_write_op \<Rightarrow> string" where
  "op_collection w =
     (case w of CreateOp r \<Rightarrow> cu_collection r | UpdateOp r \<Rightarrow> cu_collection r | DeleteOp r \<Rightarrow> de_collection r)"

definition op_rkey :: "record_write_op \<Rightarrow> string" where
  "op_rkey w = (case w of CreateOp r \<Rightarrow> cu_rkey r | UpdateOp r \<Rightarrow> cu_rkey r | DeleteOp r \<Rightarrow> de_rkey r)"

record blob_constraint =
  bc_max_size :: "nat option"
  bc_accept :: "string list option"

record prepared_blob_ref =
  pb_cid :: cid
  pb_mime_type :: string
  pb_constraints :: blob_constraint

record prepared_create_or_update =
  pc_action :: write_op_action
  pc_uri :: string
  pc_cid :: cid
  pc_swap_cid :: "cid option"
  pc_record :: repo_record
  pc_blobs :: "prepared_blob_ref list"

record prepared_delete =
  pd_action :: write_op_action
  pd_uri :: string
  pd_swap_cid :: "cid option"

datatype prepared_write =
    PCreate prepared_create_or_update
  | PUpdate prepared_create_or_update
  | PDelete prepared_delete

definition pw_uri :: "prepared_write \<Rightarrow> string" where
  "pw_uri w = (case w of PCreate w \<Rightarrow> pc_uri w | PUpdate w \<Rightarrow> pc_uri w | PDelete w \<Rightarrow> pd_uri w)"

definition pw_cid :: "prepared_write \<Rightarrow> cid option" where
  "pw_cid w = (case w of PCreate w \<Rightarrow> Some (pc_cid w) | PUpdate w \<Rightarrow> Some (pc_cid w) | PDelete w \<Rightarrow> None)"

definition pw_swap_cid :: "prepared_write \<Rightarrow> cid option" where
  "pw_swap_cid w = (case w of PCreate w \<Rightarrow> pc_swap_cid w | PUpdate w \<Rightarrow> pc_swap_cid w | PDelete w \<Rightarrow> pd_swap_cid w)"

definition pw_action :: "prepared_write \<Rightarrow> write_op_action" where
  "pw_action w = (case w of PCreate w \<Rightarrow> pc_action w | PUpdate w \<Rightarrow> pc_action w | PDelete w \<Rightarrow> pd_action w)"

definition pw_commit_action :: "prepared_write \<Rightarrow> commit_action" where
  "pw_commit_action w = (case w of PCreate _ \<Rightarrow> CCreate | PUpdate _ \<Rightarrow> CUpdate | PDelete _ \<Rightarrow> CDelete)"

type_synonym uri_parser = "string \<Rightarrow> uri_error + at_uri"

definition create_write_to_op :: "uri_parser \<Rightarrow> prepared_create_or_update \<Rightarrow> repo_error + record_write_op" where
  "create_write_to_op P w =
     res_bind (uri_res (P (pc_uri w))) (\<lambda>u.
       Inr (CreateOp \<lparr>cu_action = ACreate, cu_collection = get_collection u, cu_rkey = get_rkey u, cu_record = pc_record w\<rparr>))"

definition update_write_to_op :: "uri_parser \<Rightarrow> prepared_create_or_update \<Rightarrow> repo_error + record_write_op" where
  "update_write_to_op P w =
     res_bind (uri_res (P (pc_uri w))) (\<lambda>u.
       Inr (UpdateOp \<lparr>cu_action = AUpdate, cu_collection = get_collection u, cu_rkey = get_rkey u, cu_record = pc_record w\<rparr>))"

definition delete_write_to_op :: "uri_parser \<Rightarrow> prepared_delete \<Rightarrow> repo_error + record_write_op" where
  "delete_write_to_op P w =
     res_bind (uri_res (P (pd_uri w))) (\<lambda>u.
       Inr (DeleteOp \<lparr>de_action = ADelete, de_collection = get_collection u, de_rkey = get_rkey u\<rparr>))"

definition write_to_op :: "uri_parser \<Rightarrow> prepared_write \<Rightarrow> repo_error + record_write_op" where
  "write_to_op P w =
     (case w of
        PCreate c \<Rightarrow> create_write_to_op P c
      | PUpdate u \<Rightarrow> update_write_to_op P u
      | PDelete d \<Rightarrow> delete_write_to_op P d)"

datatype record_write_enum = WList "record_write_op list" | WSingle record_write_op

record create_or_delete_descript =
  cdd_action :: write_op_action
  cdd_collection :: string
  cdd_rkey :: string
  cdd_cid :: cid

record update_descript =
  ud_action :: write_op_action
  ud_collection :: string
  ud_rkey :: string
  ud_prev :: cid
  ud_cid :: cid

datatype record_write_descript =
    CreateD create_or_delete_descript
  | UpdateD update_descript
  | DeleteD create_or_delete_descript

definition descript_action :: "record_write_descript \<Rightarrow> string" where
  "descript_action d =
     (case d of
        CreateD r \<Rightarrow> action_text (cdd_action r)
      | UpdateD r \<Rightarrow> action_text (ud_action r)
      | DeleteD r \<Rightarrow> action_text (cdd_action r))"

record record_path =
  rp_collection :: string
  rp_rkey :: string

record record_claim =
  rc_collection :: string
  rc_rkey :: string
  rc_record :: "repo_record option"

record record_cid_claim =
  rcc_collection :: string
  rcc_rkey :: string
  rcc_cid :: "cid option"

section \<open>util.rs\<close>

definition sign_commit :: "('c, 'k) repo_env \<Rightarrow> unsigned_commit \<Rightarrow> 'k \<Rightarrow> repo_error + commit" where
  "sign_commit R u key =
     res_bind (sign_bytes R u key) (\<lambda>s.
       Inr \<lparr>cm_did = uc_did u, cm_rev = uc_rev u, cm_data = uc_data u, cm_prev = uc_prev u,
            cm_version = uc_version u, cm_sig = s\<rparr>)"

definition unsigned_of :: "commit \<Rightarrow> unsigned_commit" where
  "unsigned_of c =
     \<lparr>uc_did = cm_did c, uc_rev = cm_rev c, uc_data = cm_data c, uc_prev = cm_prev c, uc_version = cm_version c\<rparr>"

definition verify_commit_sig :: "('c, 'k) repo_env \<Rightarrow> commit \<Rightarrow> string \<Rightarrow> repo_error + bool" where
  "verify_commit_sig R c did_key =
     res_bind (unsigned_enc R (unsigned_of c)) (\<lambda>encoded.
       verify_digest R did_key (sha256_digest R encoded) (cm_sig c))"

definition format_data_key :: "string \<Rightarrow> string \<Rightarrow> string" where
  "format_data_key collection rkey = collection @ ''/'' @ rkey"

definition parse_data_key :: "string \<Rightarrow> repo_error + record_path" where
  "parse_data_key key =
     (let parts = split_on CHR ''/'' key
      in if length parts \<noteq> 2 then Inl (InvalidRecordKey key)
         else Inr \<lparr>rp_collection = parts ! 0, rp_rkey = parts ! 1\<rparr>)"

fun ensure_creates_loop ::
    "record_write_descript list \<Rightarrow> create_or_delete_descript list \<Rightarrow> repo_error + create_or_delete_descript list" where
  "ensure_creates_loop [] creates = Inr creates"
| "ensure_creates_loop (d # ds) creates =
     (case d of
        CreateD c \<Rightarrow> ensure_creates_loop ds (creates @ [c])
      | _ \<Rightarrow> Inl (UnexpectedAction (descript_action d)))"

definition ensure_creates :: "record_write_descript list \<Rightarrow> repo_error + create_or_delete_descript list" where
  "ensure_creates ds = ensure_creates_loop ds []"

definition add_descript :: "data_add \<Rightarrow> repo_error + record_write_descript" where
  "add_descript a =
     res_bind (parse_data_key (da_key a)) (\<lambda>p.
       Inr (CreateD \<lparr>cdd_action = ACreate, cdd_collection = rp_collection p, cdd_rkey = rp_rkey p, cdd_cid = da_cid a\<rparr>))"

definition update_descript_of :: "data_update \<Rightarrow> repo_error + record_write_descript" where
  "update_descript_of u =
     res_bind (parse_data_key (du_key u)) (\<lambda>p.
       Inr (UpdateD \<lparr>ud_action = AUpdate, ud_collection = rp_collection p, ud_rkey = rp_rkey p, ud_prev = du_prev u, ud_cid = du_cid u\<rparr>))"

definition delete_descript :: "data_delete \<Rightarrow> repo_error + record_write_descript" where
  "delete_descript d =
     res_bind (parse_data_key (dd_key d)) (\<lambda>p.
       Inr (DeleteD \<lparr>cdd_action = ADelete, cdd_collection = rp_collection p, cdd_rkey = rp_rkey p, cdd_cid = dd_cid d\<rparr>))"

definition diff_to_write_descripts :: "data_diff \<Rightarrow> repo_error + record_write_descript list" where
  "diff_to_write_descripts d =
     res_bind (res_map add_descript (add_list d)) (\<lambda>a.
     res_bind (res_map update_descript_of (update_list d)) (\<lambda>u.
     res_bind (res_map delete_descript (delete_list d)) (\<lambda>e. Inr (concat [a, u, e]))))"

text \<open>The default revision of a commit without one is a fresh TID, drawn whether it is used or not.\<close>

definition ensure_v3_commit :: "repo_error + string \<Rightarrow> versioned_commit \<Rightarrow> repo_error + commit" where
  "ensure_v3_commit fresh v =
     (case v of
        V3Commit c \<Rightarrow> Inr (if cm_version c = 3 then c else c\<lparr>cm_version := 3\<rparr>)
      | LegacyV2Commit c \<Rightarrow>
          res_bind fresh (\<lambda>f. Inr
            \<lparr>cm_did = lc_did c, cm_rev = (case lc_rev c of Some r \<Rightarrow> r | None \<Rightarrow> f), cm_data = lc_data c,
             cm_prev = lc_prev c, cm_version = 3, cm_sig = lc_sig c\<rparr>))"

definition flatten_u8_arrays :: "bytes list \<Rightarrow> bytes" where
  "flatten_u8_arrays chunks = fold (\<lambda>chunk result. result @ chunk) chunks []"

fun stream_to_buffer_loop :: "('e + bytes) list \<Rightarrow> bytes \<Rightarrow> 'e + bytes" where
  "stream_to_buffer_loop [] buffer = Inr buffer"
| "stream_to_buffer_loop (chunk # rest) buffer = res_bind chunk (\<lambda>c. stream_to_buffer_loop rest (buffer @ c))"

definition stream_to_buffer :: "('e + bytes) list \<Rightarrow> 'e + bytes" where
  "stream_to_buffer s = stream_to_buffer_loop s []"

section \<open>Typed reads\<close>

record record_and_bytes =
  rb_record :: repo_record
  rb_bytes :: bytes

definition read_record_bytes :: "('c, 'k) repo_env \<Rightarrow> bytes \<Rightarrow> repo_error + repo_record" where
  "read_record_bytes R b = lex_res (cbor_to_lex_record (re_lex R) (ipld_dec R) b)"

definition get_and_parse_record :: "('c, 'k) repo_env \<Rightarrow> block_map \<Rightarrow> cid \<Rightarrow> repo_error + record_and_bytes" where
  "get_and_parse_record R blks c =
     (case bm_get c blks of
        Some b \<Rightarrow> res_bind (read_record_bytes R b) (\<lambda>r. Inr \<lparr>rb_record = r, rb_bytes = b\<rparr>)
      | None \<Rightarrow> Inl (DataMissingBlock c))"

definition parse_obj_by_kind :: "('c, 'k) repo_env \<Rightarrow> bytes \<Rightarrow> cid \<Rightarrow> ('c \<Rightarrow> bool) \<Rightarrow> repo_error + 'c \<times> bytes" where
  "parse_obj_by_kind R b c check =
     (case cbor_dec R b of
        None \<Rightarrow> Inl (DataUnexpectedObject c)
      | Some obj \<Rightarrow> if check obj then Inr (obj, b) else Inl (DataUnexpectedObject c))"

definition get_and_parse_by_kind :: "('c, 'k) repo_env \<Rightarrow> block_map \<Rightarrow> cid \<Rightarrow> ('c \<Rightarrow> bool) \<Rightarrow> repo_error + 'c \<times> bytes" where
  "get_and_parse_by_kind R blks c check =
     (case bm_get c blks of Some b \<Rightarrow> parse_obj_by_kind R b c check | None \<Rightarrow> Inl (DataMissingBlock c))"

definition attempt_read :: "('c, 'k) repo_env \<Rightarrow> blocks \<Rightarrow> cid \<Rightarrow> ('c \<Rightarrow> bool) \<Rightarrow> repo_error + ('c \<times> bytes) option" where
  "attempt_read R B c check =
     (case B c of
        Some b \<Rightarrow> res_bind (parse_obj_by_kind R b c check) (\<lambda>r. Inr (Some r))
      | None \<Rightarrow> Inr None)"

definition read_obj_and_bytes :: "('c, 'k) repo_env \<Rightarrow> blocks \<Rightarrow> cid \<Rightarrow> ('c \<Rightarrow> bool) \<Rightarrow> repo_error + 'c \<times> bytes" where
  "read_obj_and_bytes R B c check =
     res_bind (attempt_read R B c check) (\<lambda>r. case r of Some x \<Rightarrow> Inr x | None \<Rightarrow> Inl (DataMissingBlock c))"

definition read_obj :: "('c, 'k) repo_env \<Rightarrow> blocks \<Rightarrow> cid \<Rightarrow> ('c \<Rightarrow> bool) \<Rightarrow> repo_error + 'c" where
  "read_obj R B c check = res_bind (read_obj_and_bytes R B c check) (\<lambda>x. Inr (fst x))"

definition read_record :: "('c, 'k) repo_env \<Rightarrow> blocks \<Rightarrow> cid \<Rightarrow> repo_error + repo_record" where
  "read_record R B c =
     (case B c of Some b \<Rightarrow> read_record_bytes R b | None \<Rightarrow> Inl (DataMissingBlock c))"

definition attempt_read_record :: "('c, 'k) repo_env \<Rightarrow> blocks \<Rightarrow> cid \<Rightarrow> repo_record option" where
  "attempt_read_record R B c = (case read_record R B c of Inr r \<Rightarrow> Some r | Inl _ \<Rightarrow> None)"

end
