(* ===== verification/Repo.thy ===== *)
theory Repo
  imports Repo_Types Walk_Properties
begin

text \<open>
  \<open>rsky-repo/src/repo.rs\<close> and \<open>readable_repo.rs\<close>. The shared \<open>dyn RepoStorage\<close> is a record of functions
  over a store state, which the operations that write to it return updated. \<open>w\<close> is the fuel of
  tree operations and \<open>n\<close> bounds the loops over a whole tree; a \<open>clock\<close> is what the ticker reads.
\<close>

section \<open>The store and the clock\<close>

record 's storage =
  st_root :: "'s \<Rightarrow> cid option"
  st_bytes :: "'s \<Rightarrow> cid \<Rightarrow> bytes option"
  st_blocks :: "'s \<Rightarrow> cid list \<Rightarrow> blocks_and_missing"
  st_apply :: "commit_data \<Rightarrow> bool option \<Rightarrow> 's \<Rightarrow> repo_error + 's"

definition memory_storage :: "memory_blockstore storage" where
  "memory_storage =
     \<lparr>st_root = ms_get_root, st_bytes = (\<lambda>s c. ms_get_bytes c s), st_blocks = (\<lambda>s cs. ms_get_blocks cs s),
      st_apply = (\<lambda>cd ic s. Inr (ms_apply_commit cd ic s))\<rparr>"

record clock =
  ck_rand :: nat
  ck_start :: nat
  ck_now :: nat

definition fresh_rev :: "clock \<Rightarrow> TID option \<Rightarrow> repo_error + string" where
  "fresh_rev ck prev =
     (case Option.bind (ticker_new (ck_rand ck) (ck_start ck)) (ticker_next (ck_now ck) prev) of
        None \<Rightarrow> Inl ClockPanic
      | Some (t, _) \<Rightarrow> Inr (tid_str t))"

section \<open>Repo\<close>

record repo =
  r_data :: mst
  r_commit :: commit
  r_cid :: cid

record commit_record =
  cr_collection :: string
  cr_rkey :: string
  cr_cid :: cid
  cr_record :: repo_record

definition repo_new :: "mst \<Rightarrow> commit \<Rightarrow> cid \<Rightarrow> repo" where
  "repo_new data commit c = \<lparr>r_data = data, r_commit = commit, r_cid = c\<rparr>"

definition repo_load :: "('c, 'k) repo_env \<Rightarrow> 's storage \<Rightarrow> cid option \<Rightarrow> 's \<Rightarrow> repo_error + repo" where
  "repo_load R S c st =
     (let croot = (case c of Some c \<Rightarrow> Some c | None \<Rightarrow> st_root S st)
      in case croot of
           Some croot \<Rightarrow>
             (case st_bytes S st croot of
                None \<Rightarrow> Inl (MissingCommit croot)
              | Some commit_bytes \<Rightarrow>
                  (case commit_dec R commit_bytes of
                     None \<Rightarrow> Inl DecodeError
                   | Some commit \<Rightarrow> Inr (repo_new (mst_load (cm_data commit) None) commit croot)))
         | None \<Rightarrow> Inl NoRoot)"

definition repo_did :: "repo \<Rightarrow> string" where
  "repo_did r = cm_did (r_commit r)"

definition repo_version :: "repo \<Rightarrow> nat" where
  "repo_version r = cm_version (r_commit r)"

definition walk_records ::
    "('c, 'k) repo_env \<Rightarrow> 's storage \<Rightarrow> nat \<Rightarrow> repo \<Rightarrow> string option \<Rightarrow> 's \<Rightarrow> repo_error + commit_record list" where
  "walk_records R S w r from st =
     res_bind (mst_res (walk_leaves_from (re_mst R) (st_bytes S st) w (r_data r) (case from of None \<Rightarrow> [] | Some f \<Rightarrow> f))) (\<lambda>ls.
       res_map (\<lambda>(k, v).
         case (parse_data_key k, read_record R (st_bytes S st) v) of
           (Inr path, Inr rec) \<Rightarrow>
             Inr \<lparr>cr_collection = rp_collection path, cr_rkey = rp_rkey path, cr_cid = v, cr_record = rec\<rparr>
         | _ \<Rightarrow> Inl UnwrapPanic) ls)"

definition get_record ::
    "('c, 'k) repo_env \<Rightarrow> 's storage \<Rightarrow> nat \<Rightarrow> repo \<Rightarrow> string \<Rightarrow> string \<Rightarrow> 's \<Rightarrow> repo_error + 'c option" where
  "get_record R S w r collection rkey st =
     res_bind (mst_res (mst_get (re_mst R) (st_bytes S st) w (r_data r) (collection @ ''/'' @ rkey))) (\<lambda>c.
       case c of
         None \<Rightarrow> Inr None
       | Some c \<Rightarrow> res_bind (read_obj R (st_bytes S st) c (cbor_is_map R)) (\<lambda>obj. Inr (Some obj)))"

type_synonym repo_contents = "(string \<times> (string \<times> repo_record) list) list"

definition insert_record :: "string \<Rightarrow> string \<Rightarrow> repo_record \<Rightarrow> repo_contents \<Rightarrow> repo_contents" where
  "insert_record collection rkey rec contents =
     (let contents1 = (if map_of contents collection = None then kinsert collection [] contents else contents)
      in case map_of contents1 collection of
           Some coll \<Rightarrow> kinsert collection (kinsert rkey rec coll) contents1
         | None \<Rightarrow> contents1)"

definition get_contents :: "('c, 'k) repo_env \<Rightarrow> 's storage \<Rightarrow> nat \<Rightarrow> repo \<Rightarrow> 's \<Rightarrow> repo_error + repo_contents" where
  "get_contents R S w r st =
     res_bind (mst_res (mst_list (re_mst R) (st_bytes S st) w (r_data r) None None None)) (\<lambda>entries.
       let found = st_blocks S st (map snd entries)
       in if bam_missing found \<noteq> [] then Inl (DataMissingBlocks ''getContents record'' (bam_missing found))
          else res_fold (\<lambda>(k, v) contents.
            res_bind (parse_data_key k) (\<lambda>path.
            res_bind (get_and_parse_record R (bam_blocks found) v) (\<lambda>parsed.
              Inr (insert_record (rp_collection path) (rp_rkey path) (rb_record parsed) contents)))) entries [])"

section \<open>Forming commits\<close>

definition add_record_block :: "('c, 'k) repo_env \<Rightarrow> repo_record \<Rightarrow> block_map \<Rightarrow> repo_error + cid \<times> block_map" where
  "add_record_block R rec blks = bm_add (ipld_cid R) (ipld_enc R) (lex_to_ipld (re_lex R) (LexMap rec)) blks"

definition init_write ::
    "('c, 'k) repo_env \<Rightarrow> blocks \<Rightarrow> nat \<Rightarrow> create_or_update_op \<Rightarrow> block_map \<times> mst \<Rightarrow> repo_error + block_map \<times> mst" where
  "init_write R B w rec s =
     (case s of (new_blocks, data) \<Rightarrow>
        res_bind (add_record_block R (cu_record rec) new_blocks) (\<lambda>(c, new_blocks').
        res_bind (mst_res (mst_add (re_mst R) B w data (format_data_key (cu_collection rec) (cu_rkey rec)) c None)) (\<lambda>data'.
          Inr (new_blocks', data'))))"

definition format_init_commit ::
    "('c, 'k) repo_env \<Rightarrow> 's storage \<Rightarrow> nat \<Rightarrow> nat \<Rightarrow> clock \<Rightarrow> string \<Rightarrow> 'k \<Rightarrow> create_or_update_op list option \<Rightarrow> 's \<Rightarrow>
     repo_error + commit_data" where
  "format_init_commit R S w n ck did key initial_writes st =
     (let X = re_mst R; B = st_bytes S st in
      res_bind (mst_res (mst_create X None None)) (\<lambda>data0.
      res_bind (res_fold (init_write R B w) (case initial_writes of None \<Rightarrow> [] | Some ws \<Rightarrow> ws) (bm_new, data0)) (\<lambda>(new_blocks, data).
      res_bind (mst_res (get_pointer X B w data)) (\<lambda>data_cid.
      res_bind (mst_res (diff_of X B w n data None)) (\<lambda>diff.
      let new_blocks1 = bm_add_map new_blocks (new_mst_blocks diff) in
      res_bind (fresh_rev ck None) (\<lambda>rv.
      res_bind (sign_commit R \<lparr>uc_did = did, uc_rev = rv, uc_data = data_cid, uc_prev = None, uc_version = 3\<rparr> key) (\<lambda>commit.
      res_bind (bm_add (commit_cid R) (commit_enc R) commit new_blocks1) (\<lambda>(c, new_blocks2).
        Inr \<lparr>cd_cid = c, cd_rev = rv, cd_since = None, cd_prev = None, cd_new_blocks = new_blocks2,
             cd_relevant_blocks = new_blocks2, cd_removed_cids = removed_cids diff\<rparr>))))))))"

definition create_from_commit ::
    "('c, 'k) repo_env \<Rightarrow> 's storage \<Rightarrow> commit_data \<Rightarrow> 's \<Rightarrow> repo_error + repo \<times> 's" where
  "create_from_commit R S cd st =
     res_bind (st_apply S cd None st) (\<lambda>st'.
     res_bind (repo_load R S (Some (cd_cid cd)) st') (\<lambda>r. Inr (r, st')))"

definition repo_create ::
    "('c, 'k) repo_env \<Rightarrow> 's storage \<Rightarrow> nat \<Rightarrow> nat \<Rightarrow> clock \<Rightarrow> string \<Rightarrow> 'k \<Rightarrow> create_or_update_op list option \<Rightarrow> 's \<Rightarrow>
     repo_error + repo \<times> 's" where
  "repo_create R S w n ck did key initial_writes st =
     res_bind (format_init_commit R S w n ck did key initial_writes st) (\<lambda>cd. create_from_commit R S cd st)"

definition format_write ::
    "('c, 'k) repo_env \<Rightarrow> blocks \<Rightarrow> nat \<Rightarrow> record_write_op \<Rightarrow> block_map \<times> mst \<Rightarrow> repo_error + block_map \<times> mst" where
  "format_write R B w op s =
     (case s of (leaves, data) \<Rightarrow>
        case op of
          CreateOp wr \<Rightarrow>
            res_bind (add_record_block R (cu_record wr) leaves) (\<lambda>(c, leaves').
            res_bind (mst_res (mst_add (re_mst R) B w data (format_data_key (cu_collection wr) (cu_rkey wr)) c None)) (\<lambda>data'.
              Inr (leaves', data')))
        | UpdateOp wr \<Rightarrow>
            res_bind (add_record_block R (cu_record wr) leaves) (\<lambda>(c, leaves').
            res_bind (mst_res (mst_update (re_mst R) B w data (format_data_key (cu_collection wr) (cu_rkey wr)) c)) (\<lambda>data'.
              Inr (leaves', data')))
        | DeleteOp wr \<Rightarrow>
            res_bind (mst_res (mst_delete (re_mst R) B w data (format_data_key (de_collection wr) (de_rkey wr)))) (\<lambda>data'.
              Inr (leaves, data')))"

definition add_proof :: "('c, 'k) repo_env \<Rightarrow> blocks \<Rightarrow> nat \<Rightarrow> mst \<Rightarrow> record_write_op \<Rightarrow> block_map \<Rightarrow> repo_error + block_map" where
  "add_proof R B w data op relevant =
     res_bind (mst_res (get_covering_proof (re_mst R) B w w data (format_data_key (op_collection op) (op_rkey op)))) (\<lambda>prf.
       Inr (bm_add_map relevant prf))"

definition rev_after :: "string option \<Rightarrow> string \<Rightarrow> string" where
  "rev_after flr rv = (case flr of Some f \<Rightarrow> if f > rv then f else rv | None \<Rightarrow> rv)"

definition format_commit_above ::
    "('c, 'k) repo_env \<Rightarrow> 's storage \<Rightarrow> nat \<Rightarrow> nat \<Rightarrow> clock \<Rightarrow> repo \<Rightarrow> record_write_enum \<Rightarrow> 'k \<Rightarrow> string option \<Rightarrow> 's \<Rightarrow>
     repo_error + commit_data" where
  "format_commit_above R S w n ck r to_write key flr st =
     (let X = re_mst R; B = st_bytes S st;
          writes = (case to_write of WList ws \<Rightarrow> ws | WSingle op \<Rightarrow> [op]) in
      res_bind (res_fold (format_write R B w) writes (bm_new, r_data r)) (\<lambda>(leaves, data).
      res_bind (mst_res (get_pointer X B w data)) (\<lambda>data_cid.
      res_bind (mst_res (diff_of X B w n data (Some (r_data r)))) (\<lambda>diff.
      res_bind (res_fold (add_proof R B w data) writes bm_new) (\<lambda>relevant.
      let added_leaves = bm_get_many leaves (cs_to_list (new_leaf_cids diff)) in
      if bam_missing added_leaves \<noteq> [] then Inl (MissingLeafBlocks (bam_missing added_leaves))
      else
        let new_blocks = bm_add_map (new_mst_blocks diff) (bam_blocks added_leaves);
            relevant1 = bm_add_map relevant (bam_blocks added_leaves) in
        res_bind (fresh_rev ck (Some (TID (rev_after flr (cm_rev (r_commit r)))))) (\<lambda>rv.
        res_bind (sign_commit R \<lparr>uc_did = repo_did r, uc_rev = rv, uc_data = data_cid, uc_prev = None, uc_version = 3\<rparr> key) (\<lambda>commit.
        res_bind (commit_enc R commit) (\<lambda>commit_block_bytes.
        res_bind (commit_cid R commit) (\<lambda>c.
          let changed = (c \<noteq> r_cid r) in
          Inr \<lparr>cd_cid = c, cd_rev = rv, cd_since = Some (cm_rev (r_commit r)), cd_prev = Some (r_cid r),
               cd_new_blocks = (if changed then bm_set c commit_block_bytes new_blocks else new_blocks),
               cd_relevant_blocks = (if changed then bm_set c commit_block_bytes relevant1 else relevant1),
               cd_removed_cids = (if changed then cs_add (r_cid r) (removed_cids diff) else removed_cids diff)\<rparr>)))))))))"

definition format_commit ::
    "('c, 'k) repo_env \<Rightarrow> 's storage \<Rightarrow> nat \<Rightarrow> nat \<Rightarrow> clock \<Rightarrow> repo \<Rightarrow> record_write_enum \<Rightarrow> 'k \<Rightarrow> 's \<Rightarrow> repo_error + commit_data" where
  "format_commit R S w n ck r to_write key st = format_commit_above R S w n ck r to_write key None st"

definition repo_apply_commit :: "('c, 'k) repo_env \<Rightarrow> 's storage \<Rightarrow> commit_data \<Rightarrow> 's \<Rightarrow> repo_error + repo \<times> 's" where
  "repo_apply_commit R S cd st =
     res_bind (st_apply S cd None st) (\<lambda>st'.
     res_bind (repo_load R S (Some (cd_cid cd)) st') (\<lambda>r. Inr (r, st')))"

definition apply_writes ::
    "('c, 'k) repo_env \<Rightarrow> 's storage \<Rightarrow> nat \<Rightarrow> nat \<Rightarrow> clock \<Rightarrow> repo \<Rightarrow> record_write_enum \<Rightarrow> 'k \<Rightarrow> 's \<Rightarrow> repo_error + repo \<times> 's" where
  "apply_writes R S w n ck r to_write key st =
     res_bind (format_commit R S w n ck r to_write key st) (\<lambda>cd. repo_apply_commit R S cd st)"

definition format_resign_commit :: "('c, 'k) repo_env \<Rightarrow> repo \<Rightarrow> string \<Rightarrow> 'k \<Rightarrow> repo_error + commit_data" where
  "format_resign_commit R r rv key =
     res_bind (sign_commit R \<lparr>uc_did = repo_did r, uc_rev = rv, uc_data = cm_data (r_commit r), uc_prev = None, uc_version = 3\<rparr> key) (\<lambda>commit.
     res_bind (bm_add (commit_cid R) (commit_enc R) commit bm_new) (\<lambda>(c, new_blocks).
       Inr \<lparr>cd_cid = c, cd_rev = rv, cd_since = None, cd_prev = None, cd_new_blocks = new_blocks,
            cd_relevant_blocks = new_blocks, cd_removed_cids = cs_new (Some [r_cid r])\<rparr>))"

definition resign_commit :: "('c, 'k) repo_env \<Rightarrow> 's storage \<Rightarrow> repo \<Rightarrow> string \<Rightarrow> 'k \<Rightarrow> 's \<Rightarrow> repo_error + repo \<times> 's" where
  "resign_commit R S r rv key st =
     res_bind (format_resign_commit R r rv key) (\<lambda>cd. repo_apply_commit R S cd st)"

section \<open>ReadableRepo\<close>

definition readable_load :: "('c, 'k) repo_env \<Rightarrow> clock \<Rightarrow> blocks \<Rightarrow> cid \<Rightarrow> repo_error + repo" where
  "readable_load R ck B c =
     res_bind (read_obj R B c (\<lambda>obj. cbor_versioned R obj \<noteq> None)) (\<lambda>obj.
       case cbor_versioned R obj of
         None \<Rightarrow> Inl DecodeError
       | Some v \<Rightarrow>
           res_bind (ensure_v3_commit (fresh_rev ck None) v) (\<lambda>commit.
             Inr (repo_new (mst_load (vc_data v) None) commit c)))"

end
