(* ===== verification/Repo_Correct.thy ===== *)
theory Repo_Correct
  imports Repo
begin

text \<open>
  What \<open>Repo\<close> promises: the commit formed for a list of writes, applied to a store, gives a repository
  whose records are the old ones changed by the writes, with every block that it needs in the store
  and a newer revision.
\<close>

section \<open>Trees of short keys have a root CID\<close>

definition short_keys :: "leaf list \<Rightarrow> bool" where
  "short_keys ls \<longleftrightarrow> (\<forall>(k, v)\<in>set ls. length k < 256)"

lemma count_prefix_short: "count_prefix_len a b \<le> length b"
  by (induction a b rule: count_prefix_len.induct) auto

lemma ser_entry_short: "is_valid_repo_mst_path X k \<Longrightarrow> length k < 256 \<Longrightarrow> is_ok (ser_entry X lk k v t)"
  using count_prefix_short[of lk k] by (simp add: ser_entry_def ensure_valid_mst_key_def Let_def)

definition keys_fit :: "ext \<Rightarrow> node_entry list \<Rightarrow> bool" where
  "keys_fit X es \<longleftrightarrow> (\<forall>k v. LeafE k v \<in> set es \<longrightarrow> is_valid_repo_mst_path X k \<and> length k < 256)"

lemma ser_loop_ok:
  "keys_fit X es \<Longrightarrow> no_adjacent_trees es \<Longrightarrow> (case es of TreeE _ # _ \<Rightarrow> False | _ \<Rightarrow> True) \<Longrightarrow> is_ok (ser_loop X lk es)"
proof (induction X lk es rule: ser_loop.induct, goal_cases)
  case (3 X lk k v t es)
  have "is_ok (ser_entry X lk k v (Some (pointer t)))" using 3(2) by (intro ser_entry_short) (simp_all add: keys_fit_def)
  moreover have "is_ok (ser_loop X k es)"
    using 3(1-3) calculation by (cases es) (auto simp: keys_fit_def no_adjacent_trees_def is_tree_def is_ok_iff split: node_entry.splits)
  ultimately show ?case by (auto simp: is_ok_iff)
next
  case (4 X lk k v)
  have "is_ok (ser_entry X lk k v None)" using 4(2) by (intro ser_entry_short) (simp_all add: keys_fit_def)
  then show ?case by (auto simp: is_ok_iff)
next
  case (5 X lk k v k' v' es)
  have "is_ok (ser_entry X lk k v None)" using 5(2) by (intro ser_entry_short) (simp_all add: keys_fit_def)
  moreover have "is_ok (ser_loop X k (LeafE k' v' # es))"
    using 5 calculation by (auto simp: keys_fit_def no_adjacent_trees_def is_ok_iff)
  ultimately show ?case by (subst ser_loop.simps(5)) (auto simp: is_ok_iff simp del: ser_loop.simps)
qed auto

lemma no_adjacent_after_tree:
  "no_adjacent_trees (TreeE t # rest) \<Longrightarrow> no_adjacent_trees rest \<and> (case rest of TreeE _ # _ \<Rightarrow> False | _ \<Rightarrow> True)"
  by (cases rest) (auto simp: no_adjacent_trees_def is_tree_def split: node_entry.splits)

lemma serialize_ok:
  assumes "keys_fit X es" "no_adjacent_trees es"
  shows "is_ok (serialize_node_data X es)"
proof (cases "\<exists>t rest. es = TreeE t # rest")
  case True
  then obtain t rest where es: "es = TreeE t # rest" by blast
  have "keys_fit X rest" using assms(1) by (simp add: es keys_fit_def)
  then have "is_ok (ser_loop X [] rest)" using no_adjacent_after_tree assms(2) by (intro ser_loop_ok) (simp_all add: es)
  then show ?thesis by (auto simp: es serialize_node_data_def is_ok_iff)
next
  case False
  then have "is_ok (ser_loop X [] es)"
    using assms by (intro ser_loop_ok) (auto split: list.splits node_entry.splits)
  then show ?thesis using False by (auto simp: serialize_node_data_def is_ok_iff split: list.splits node_entry.splits)
qed

definition with_pointer :: "(mst \<Rightarrow> cid) \<Rightarrow> node_entry \<Rightarrow> node_entry" where
  "with_pointer g e = (case e of TreeE s \<Rightarrow> TreeE (set_pointer s (g s)) | LeafE k v \<Rightarrow> e)"

lemma with_pointer_shape:
  "keys_fit X (map (with_pointer g) es) = keys_fit X es"
  "no_adjacent_trees (map (with_pointer g) es) = no_adjacent_trees es"
proof -
  have "(LeafE k v = with_pointer g e) = (e = LeafE k v)" for k v e by (cases e) (auto simp: with_pointer_def)
  then show "keys_fit X (map (with_pointer g) es) = keys_fit X es" by (auto simp: keys_fit_def image_iff)
  have "is_tree (with_pointer g e) = is_tree e" for e by (cases e) (simp_all add: with_pointer_def is_tree_def)
  then show "no_adjacent_trees (map (with_pointer g) es) = no_adjacent_trees es"
    by (simp add: no_adjacent_trees_def successively_map)
qed

lemma short_root_cid:
  "wf_mst X B L t \<Longrightarrow> short_keys (tleaves X B (Suc L) t) \<Longrightarrow> is_ok (root_cid X B (Suc L) t)"
proof (induction L arbitrary: t rule: less_induct)
  case (less L t)
  obtain es where es: "get_entries X B t = Inr es" "entries_ok X L (sub_ok X B L) es" using less.prems(1) by (rule wf_mst_E)
  have ls: "tleaves X B (Suc L) t = eleaves X B L es" using es(1) by (simp add: tleaves_Suc)
  let ?g = "\<lambda>s. projr (root_cid X B L s)"
  have "cid_entry X B L e = Inr (with_pointer ?g e)" if e: "e \<in> set es" for e
  proof (cases e)
    case (TreeE s)
    have "sub_ok X B L s" using es(2) e TreeE by (auto simp: entries_ok_def list_all_iff entry_ok_def)
    then obtain M where M: "L = Suc M" "wf_mst X B M s" by (rule sub_ok_E)
    have "set (tleaves X B L s) \<subseteq> set (tleaves X B (Suc L) t)"
      unfolding ls eleaves_def using e TreeE by force
    then have "short_keys (tleaves X B (Suc M) s)" using less.prems(2) M(1) by (auto simp: short_keys_def)
    then obtain c where "root_cid X B L s = Inr c" using less.IH[OF _ M(2)] M(1) by (auto simp: is_ok_iff simp del: root_cid.simps)
    then show ?thesis by (simp add: TreeE cid_entry_def with_pointer_def)
  qed (simp add: cid_entry_def with_pointer_def)
  then have map: "res_map (cid_entry X B L) es = Inr (map (with_pointer ?g) es)" by (rule res_map_Inr)
  have "keys_fit X es"
    using less.prems(2) es(2) leaf_in_eleaves[of _ _ es X B L] unfolding ls
    by (fastforce simp: keys_fit_def short_keys_def entries_ok_def list_all_iff entry_ok_def)
  then have "is_ok (serialize_node_data X (map (with_pointer ?g) es))"
    using es(2) by (intro serialize_ok) (simp_all add: with_pointer_shape entries_ok_def)
  then show ?case unfolding root_cid_Suc by (auto simp: es(1) map cid_for_entries_def is_ok_iff)
qed

lemma short_comparable:
  assumes "mst_inv X B t" "short_keys (mst_contents X B t)"
  shows "comparable X B t"
proof -
  obtain L where L: "wf_mst X B L t" "L < mst_fuel" "tleaves X B (Suc L) t = mst_contents X B t" using assms(1) by (rule mst_inv_E)
  then have "is_ok (root_cid X B (Suc L) t)" using short_root_cid assms(2) by simp
  then show ?thesis using get_pointer_ok[OF L(1,2)] assms(1) by (auto simp: comparable_def is_ok_iff)
qed

section \<open>What the external codecs promise\<close>

text \<open>
  A hash names one content. A commit and a tree node are objects with different fields, so no CID
  names both; a record must not be the encoding of either, which \<open>foreign\<close> states of its CID.
\<close>

definition record_ipld :: "('c, 'k) repo_env \<Rightarrow> repo_record \<Rightarrow> ipld" where
  "record_ipld R rec = lex_to_ipld (re_lex R) (LexMap rec)"

definition record_cid :: "('c, 'k) repo_env \<Rightarrow> repo_record \<Rightarrow> cid" where
  "record_cid R rec = projr (ipld_cid R (record_ipld R rec))"

definition env_ok :: "('c, 'k) repo_env \<Rightarrow> bool" where
  "env_ok R \<longleftrightarrow>
     collision_free (re_mst R) \<and> codec_ok (re_mst R) \<and> sha256_ok (re_mst R) \<and>
     (\<forall>i j c. ipld_cid R i = Inr c \<longrightarrow> ipld_cid R j = Inr c \<longrightarrow> ipld_enc R i = ipld_enc R j) \<and>
     (\<forall>a b c. commit_cid R a = Inr c \<longrightarrow> commit_cid R b = Inr c \<longrightarrow> a = b) \<and>
     (\<forall>a. is_ok (commit_cid R a)) \<and> (\<forall>a. \<exists>b. commit_enc R a = Inr b \<and> commit_dec R b = Some a) \<and>
     (\<forall>a d. commit_cid R a \<noteq> Inr (x_cid (re_mst R) d))"

definition foreign :: "('c, 'k) repo_env \<Rightarrow> cid \<Rightarrow> bool" where
  "foreign R c \<longleftrightarrow> c \<notin> range (x_cid (re_mst R)) \<and> (\<forall>a. commit_cid R a \<noteq> Inr c)"

definition record_block :: "('c, 'k) repo_env \<Rightarrow> cid \<Rightarrow> bytes \<Rightarrow> bool" where
  "record_block R c b \<longleftrightarrow> foreign R c \<and> (\<exists>i. ipld_cid R i = Inr c \<and> ipld_enc R i = Inr b)"

lemma record_block_unique: "env_ok R \<Longrightarrow> record_block R c b \<Longrightarrow> record_block R c b' \<Longrightarrow> b = b'"
  unfolding env_ok_def record_block_def by (metis sum.inject(2))

lemma env_commit:
  assumes "env_ok R"
  shows "\<exists>c b. commit_cid R cm = Inr c \<and> commit_enc R cm = Inr b \<and> commit_dec R b = Some cm"
proof -
  have "is_ok (commit_cid R cm)" "\<exists>b. commit_enc R cm = Inr b \<and> commit_dec R b = Some cm" using assms by (simp_all add: env_ok_def)
  then show ?thesis by (auto simp: is_ok_iff)
qed

section \<open>Writes\<close>

definition record_ready :: "('c, 'k) repo_env \<Rightarrow> repo_record \<Rightarrow> bool" where
  "record_ready R rec \<longleftrightarrow>
     is_ok (ipld_cid R (record_ipld R rec)) \<and> is_ok (ipld_enc R (record_ipld R rec)) \<and> foreign R (record_cid R rec)"

definition write_key :: "record_write_op \<Rightarrow> string" where
  "write_key op = format_data_key (op_collection op) (op_rkey op)"

definition write_ready :: "('c, 'k) repo_env \<Rightarrow> record_write_op \<Rightarrow> bool" where
  "write_ready R op \<longleftrightarrow>
     is_valid_repo_mst_path (re_mst R) (write_key op) \<and> length (write_key op) < 256 \<and>
     (case op of CreateOp w \<Rightarrow> record_ready R (cu_record w) | UpdateOp w \<Rightarrow> record_ready R (cu_record w) | DeleteOp _ \<Rightarrow> True)"

text \<open>What a write asks of the map from keys to CIDs.\<close>

definition meaning :: "('c, 'k) repo_env \<Rightarrow> record_write_op \<Rightarrow> (string, cid) map_op" where
  "meaning R op =
     (case op of
        CreateOp w \<Rightarrow> Add (write_key op) (record_cid R (cu_record w))
      | UpdateOp w \<Rightarrow> Upd (write_key op) (record_cid R (cu_record w))
      | DeleteOp _ \<Rightarrow> Del (write_key op))"

lemma meaning_key [simp]: "op_key (meaning R op) = write_key op"
  by (cases op) (simp_all add: meaning_def)

definition tree_op :: "('c, 'k) repo_env \<Rightarrow> blocks \<Rightarrow> record_write_op \<Rightarrow> mst \<Rightarrow> mst_error + mst" where
  "tree_op R B op = run_op (\<lambda>t k v. mst_add (re_mst R) B mst_fuel t k v None) (mst_update (re_mst R) B mst_fuel)
     (mst_delete (re_mst R) B mst_fuel) (meaning R op)"

definition staged :: "('c, 'k) repo_env \<Rightarrow> record_write_op \<Rightarrow> block_map \<Rightarrow> block_map" where
  "staged R op leaves =
     (let put = (\<lambda>rec. bm_set (record_cid R rec) (projr (ipld_enc R (record_ipld R rec))) leaves)
      in case op of CreateOp w \<Rightarrow> put (cu_record w) | UpdateOp w \<Rightarrow> put (cu_record w) | DeleteOp _ \<Rightarrow> leaves)"

lemma add_record_block_ok:
  "record_ready R rec \<Longrightarrow>
   add_record_block R rec leaves = Inr (record_cid R rec, bm_set (record_cid R rec) (projr (ipld_enc R (record_ipld R rec))) leaves)"
  by (auto simp: record_ready_def add_record_block_def bm_add_def record_cid_def record_ipld_def is_ok_iff)

lemma format_write_split:
  assumes "write_ready R op"
  shows "format_write R B mst_fuel op (leaves, data) = res_bind (mst_res (tree_op R B op data)) (\<lambda>data'. Inr (staged R op leaves, data'))"
  using assms
  by (cases op)
    (simp_all add: write_ready_def format_write_def tree_op_def meaning_def staged_def write_key_def op_collection_def op_rkey_def add_record_block_ok)

text \<open>The state of the loop over the writes: what the staged leaves and the tree have in common.\<close>

definition writing :: "('c, 'k) repo_env \<Rightarrow> blocks \<Rightarrow> leaf list \<Rightarrow> block_map \<times> mst \<Rightarrow> bool" where
  "writing R B old s =
     (case s of (leaves, data) \<Rightarrow>
        mst_inv (re_mst R) B data \<and> short_keys (mst_contents (re_mst R) B data) \<and> bm_inv leaves \<and>
        (\<forall>c b. bm_get c leaves = Some b \<longrightarrow> record_block R c b) \<and>
        (\<forall>k v. (k, v) \<in> set (mst_contents (re_mst R) B data) \<longrightarrow> (k, v) \<in> set old \<or> bm_has v leaves))"

lemma short_keys_map_of: "distinct (map fst ls) \<Longrightarrow> short_keys ls \<longleftrightarrow> (\<forall>k\<in>dom (map_of ls). length k < 256)"
  by (force simp: short_keys_def dom_map_of_conv_image_fst)

lemma staged_ok:
  assumes "write_ready R op" "bm_inv leaves" "\<forall>c b. bm_get c leaves = Some b \<longrightarrow> record_block R c b"
  shows "bm_inv (staged R op leaves)" "\<forall>c b. bm_get c (staged R op leaves) = Some b \<longrightarrow> record_block R c b"
    "bm_has c leaves \<Longrightarrow> bm_has c (staged R op leaves)"
    "spec_op (meaning R op) f = Some g \<Longrightarrow> g k = Some v \<Longrightarrow> f k = Some v \<or> bm_has v (staged R op leaves)"
proof -
  have rb: "record_block R (record_cid R rec) (projr (ipld_enc R (record_ipld R rec)))" if "record_ready R rec" for rec
    using that by (auto simp: record_ready_def record_block_def record_cid_def is_ok_iff)
  show "bm_inv (staged R op leaves)" using assms(2) by (simp add: staged_def split: record_write_op.split)
  show "\<forall>c b. bm_get c (staged R op leaves) = Some b \<longrightarrow> record_block R c b"
    using assms(1,3) rb by (auto simp: staged_def write_ready_def bm_get_set split: record_write_op.splits if_splits)
  show "bm_has c (staged R op leaves)" if "bm_has c leaves"
    using that by (auto simp: staged_def bm_has_get bm_get_set split: record_write_op.split)
  show "f k = Some v \<or> bm_has v (staged R op leaves)" if "spec_op (meaning R op) f = Some g" "g k = Some v"
    using that by (cases op) (auto simp: meaning_def staged_def bm_has_get bm_get_set split: if_splits)
qed

lemma format_write_ok:
  assumes "writing R B old (leaves, data)" "write_ready R op"
    and "spec_op (meaning R op) (map_of (mst_contents (re_mst R) B data)) = Some m"
  shows "\<exists>data'. format_write R B mst_fuel op (leaves, data) = Inr (staged R op leaves, data') \<and>
    writing R B old (staged R op leaves, data') \<and> map_of (mst_contents (re_mst R) B data') = m"
proof -
  let ?X = "re_mst R"
  have w: "mst_inv ?X B data" "short_keys (mst_contents ?X B data)" "bm_inv leaves" "\<forall>c b. bm_get c leaves = Some b \<longrightarrow> record_block R c b"
    "\<forall>k v. (k, v) \<in> set (mst_contents ?X B data) \<longrightarrow> (k, v) \<in> set old \<or> bm_has v leaves"
    using assms(1) by (simp_all add: writing_def)
  obtain data' where t: "tree_op R B op data = Inr data'" "mst_inv ?X B data'" "map_of (mst_contents ?X B data') = m"
    using mst_map.run_op_ok[OF w(1), of "meaning R op"] assms(2,3) by (auto simp: tree_op_def write_ready_def)
  have dist: "distinct (map fst (mst_contents ?X B t))" if "mst_inv ?X B t" for t
    using mst_map.contents_sorted[OF that] by (rule ksorted_distinct)
  have dom: "dom m \<subseteq> insert (write_key op) (dom (map_of (mst_contents ?X B data)))"
    using assms(3) meaning_key[of R op] by (cases "meaning R op") (auto simp del: meaning_key split: if_splits)
  then have short: "short_keys (mst_contents ?X B data')"
    using w(2) assms(2) unfolding short_keys_map_of[OF dist[OF w(1)]] short_keys_map_of[OF dist[OF t(2)]] t(3)
    by (auto simp: write_ready_def)
  have "(k, v) \<in> set old \<or> bm_has v (staged R op leaves)" if kv: "(k, v) \<in> set (mst_contents ?X B data')" for k v
  proof -
    have "m k = Some v" using kv dist[OF t(2)] t(3) by (metis map_of_is_SomeI)
    from staged_ok(4)[OF assms(2) w(3,4) assms(3) this] show ?thesis
      using w(5) staged_ok(3)[OF assms(2) w(3,4)] by (meson map_of_SomeD)
  qed
  then show ?thesis
    using t short staged_ok(1,2)[OF assms(2) w(3,4)] format_write_split[OF assms(2)]
    by (simp add: writing_def)
qed

lemma format_writes_ok:
  "writing R B old (leaves, data) \<Longrightarrow> \<forall>op\<in>set ws. write_ready R op \<Longrightarrow>
   spec_ops (map (meaning R) ws) (map_of (mst_contents (re_mst R) B data)) = Some m \<Longrightarrow>
   \<exists>leaves' data'. res_fold (format_write R B mst_fuel) ws (leaves, data) = Inr (leaves', data') \<and>
     writing R B old (leaves', data') \<and> map_of (mst_contents (re_mst R) B data') = m"
proof (induction ws arbitrary: leaves data)
  case (Cons op ws)
  obtain m1 where m1: "spec_op (meaning R op) (map_of (mst_contents (re_mst R) B data)) = Some m1"
    "spec_ops (map (meaning R) ws) m1 = Some m"
    using Cons.prems(3) by (auto simp: bind_eq_Some_conv)
  obtain data' where "format_write R B mst_fuel op (leaves, data) = Inr (staged R op leaves, data')"
    "writing R B old (staged R op leaves, data')" "map_of (mst_contents (re_mst R) B data') = m1"
    using format_write_ok[OF Cons.prems(1) _ m1(1)] Cons.prems(2) by auto
  then show ?case using Cons.IH Cons.prems(2) m1(2) by simp
qed simp

section \<open>A stored repository\<close>

definition repo_inv :: "('c, 'k) repo_env \<Rightarrow> blocks \<Rightarrow> repo \<Rightarrow> bool" where
  "repo_inv R B r \<longleftrightarrow>
     comparable (re_mst R) B (r_data r) \<and> short_keys (mst_contents (re_mst R) B (r_data r)) \<and>
     distinct (map snd (mst_contents (re_mst R) B (r_data r))) \<and>
     holds (re_mst R) B (node_set (re_mst R) B (r_data r)) \<and>
     (\<forall>v\<in>values_of (re_mst R) B (r_data r). \<exists>b. B v = Some b \<and> record_block R v b) \<and>
     get_pointer (re_mst R) B mst_fuel (r_data r) = Inr (cm_data (r_commit r)) \<and>
     commit_cid R (r_commit r) = Inr (r_cid r) \<and> commit_enc R (r_commit r) = of_option EncodeError (B (r_cid r))"

definition record_cids :: "('c, 'k) repo_env \<Rightarrow> blocks \<Rightarrow> repo \<Rightarrow> (string \<rightharpoonup> cid)" where
  "record_cids R B r = map_of (mst_contents (re_mst R) B (r_data r))"

text \<open>What a store answers after a commit: new blocks first, then what was not removed.\<close>

definition after_commit :: "commit_data \<Rightarrow> blocks \<Rightarrow> blocks" where
  "after_commit cd B c =
     (case bm_get c (cd_new_blocks cd) of
        Some b \<Rightarrow> Some b
      | None \<Rightarrow> if cs_has c (cd_removed_cids cd) then None else B c)"

lemma values_foreign:
  assumes "\<forall>v\<in>V. \<exists>b. B v = Some b \<and> record_block R v b"
  shows "V \<inter> range (x_cid (re_mst R)) = {}"
  using assms by (auto simp: record_block_def foreign_def)

lemma balance_new_block:
  "balance X L N d \<Longrightarrow> bm_get c (new_mst_blocks d) = Some b \<Longrightarrow> \<exists>n. c = x_cid X n \<and> b = x_enc X n"
  by (simp add: balance_def)

text \<open>
  A commit delivers record blocks and a comparison when its new blocks and its removed CIDs are
  theirs, up to its own block and that of the commit before.
\<close>

definition delivers :: "('c, 'k) repo_env \<Rightarrow> block_map \<Rightarrow> data_diff \<Rightarrow> commit_data \<Rightarrow> bool" where
  "delivers R recs d cd \<longleftrightarrow>
     bm_inv (cd_new_blocks cd) \<and> (\<forall>c b. bm_get c recs = Some b \<longrightarrow> record_block R c b) \<and>
     (\<forall>x. foreign R x \<or> x \<in> range (x_cid (re_mst R)) \<longrightarrow>
        bm_get x (cd_new_blocks cd) = (case bm_get x recs of Some b \<Rightarrow> Some b | None \<Rightarrow> bm_get x (new_mst_blocks d)) \<and>
        (cs_has x (cd_removed_cids cd) \<longrightarrow> x \<in> set (removed_cids d)))"

lemma nodes_after_commit:
  assumes del: "delivers R recs d cd" and bal: "balance (re_mst R) L N d" and h: "holds (re_mst R) B L"
  shows "holds (re_mst R) (after_commit cd B) N"
  unfolding holds_def
proof
  let ?X = "re_mst R"
  fix x assume x: "x \<in> N"
  have new: "\<exists>n. x = x_cid ?X n \<and> bm_get x (new_mst_blocks d) = Some (x_enc ?X n)" if "x \<notin> L"
  proof -
    have "bm_has x (new_mst_blocks d)" using bal x that by (simp add: balance_def)
    then obtain b where "bm_get x (new_mst_blocks d) = Some b" by (auto simp: bm_has_get)
    then show ?thesis using balance_new_block[OF bal] by blast
  qed
  then have rx: "x \<in> range (x_cid ?X)" using h by (cases "x \<in> L") (auto simp: holds_def)
  then have na: "bm_get x recs = None"
    using del by (cases "bm_get x recs") (auto simp: delivers_def record_block_def foreign_def)
  have get: "bm_get x (cd_new_blocks cd) = bm_get x (new_mst_blocks d)" "cs_has x (cd_removed_cids cd) \<Longrightarrow> x \<in> set (removed_cids d)"
    using del rx na by (auto simp: delivers_def)
  show "\<exists>n. x = x_cid ?X n \<and> after_commit cd B x = Some (x_enc ?X n)"
  proof (cases "x \<in> L")
    case True
    then have "bm_get x (new_mst_blocks d) = None" "x \<notin> set (removed_cids d)"
      using bal x rx by (auto simp: balance_def bm_has_get)
    then have "after_commit cd B x = B x" using get by (auto simp: after_commit_def)
    then show ?thesis using h True by (simp add: holds_def)
  next
    case False
    then show ?thesis using new get by (auto simp: after_commit_def)
  qed
qed

lemma records_after_commit:
  assumes del: "delivers R recs d cd" and bal: "balance (re_mst R) L N d"
    and h: "\<forall>v\<in>V. \<exists>b. B v = Some b \<and> record_block R v b"
    and w: "\<forall>v\<in>W. bm_has v recs \<or> v \<in> V \<and> v \<notin> set (removed_cids d)"
  shows "\<forall>v\<in>W. \<exists>b. after_commit cd B v = Some b \<and> record_block R v b"
proof
  fix v assume v: "v \<in> W"
  show "\<exists>b. after_commit cd B v = Some b \<and> record_block R v b"
  proof (cases "bm_get v recs")
    case (Some b)
    then have "record_block R v b" using del by (simp add: delivers_def)
    then show ?thesis using Some del by (auto simp: after_commit_def delivers_def record_block_def)
  next
    case None
    then have "\<not> bm_has v recs" by (simp add: bm_has_get)
    then obtain b where b: "B v = Some b" "record_block R v b" "v \<notin> set (removed_cids d)" using v h w by blast
    have "foreign R v" using b(2) by (simp add: record_block_def)
    moreover from this have "bm_get v (new_mst_blocks d) = None"
      using balance_new_block[OF bal, of v] by (cases "bm_get v (new_mst_blocks d)") (auto simp: foreign_def)
    ultimately show ?thesis using None b del by (auto simp: after_commit_def delivers_def)
  qed
qed

lemma commit_not_tracked: "env_ok R \<Longrightarrow> commit_cid R a = Inr x \<Longrightarrow> \<not> (foreign R x \<or> x \<in> range (x_cid (re_mst R)))"
  by (auto simp: foreign_def env_ok_def)

definition covers :: "('c, 'k) repo_env \<Rightarrow> blocks \<Rightarrow> mst \<Rightarrow> string \<Rightarrow> block_map \<Rightarrow> bool" where
  "covers R B t key blks \<longleftrightarrow>
     (\<exists>cs. cids_for_path (re_mst R) B mst_fuel mst_fuel t key = Inr cs \<and> (\<forall>m. x_cid (re_mst R) m \<in> set cs \<longrightarrow> bm_has (x_cid (re_mst R) m) blks))"

lemma covers_add_map:
  assumes "covers R B t key a \<or> covers R B t key b" "bm_inv a" "bm_inv b"
  shows "covers R B t key (bm_add_map a b)"
  using assms by (fastforce simp: covers_def bm_has_get bm_get_add_map split: option.splits)

lemma covering_proofs:
  assumes "comparable (re_mst R) B t" "values_of (re_mst R) B t \<inter> range (x_cid (re_mst R)) = {}"
    and "node_blocks (re_mst R) (node_set (re_mst R) B t) rel"
  shows "\<exists>rel'. res_fold (add_proof R B mst_fuel t) ws rel = Inr rel' \<and> node_blocks (re_mst R) (node_set (re_mst R) B t) rel' \<and>
    (\<forall>op\<in>set ws. covers R B t (write_key op) rel') \<and> (\<forall>key. covers R B t key rel \<longrightarrow> covers R B t key rel')"
  using assms(3)
proof (induction ws arbitrary: rel)
  case (Cons op ws)
  obtain pf cs where pf: "get_covering_proof (re_mst R) B mst_fuel mst_fuel t (write_key op) = Inr pf" "node_blocks (re_mst R) (node_set (re_mst R) B t) pf"
    "cids_for_path (re_mst R) B mst_fuel mst_fuel t (write_key op) = Inr cs" "\<forall>m. x_cid (re_mst R) m \<in> set cs \<longrightarrow> bm_has (x_cid (re_mst R) m) pf"
    using covering_proof_covers[OF assms(1,2)] by metis
  have inv: "bm_inv rel" "bm_inv pf" using Cons.prems pf(2) by (simp_all add: node_blocks_def)
  have "covers R B t (write_key op) pf" using pf(3,4) by (simp add: covers_def)
  then have c: "covers R B t (write_key op) (bm_add_map rel pf)" "covers R B t key rel \<Longrightarrow> covers R B t key (bm_add_map rel pf)" for key
    using covers_add_map[OF _ inv] by blast+
  from Cons.IH[OF node_blocks_add_map[OF Cons.prems pf(2)]] c show ?case
    using pf(1) by (auto simp: add_proof_def write_key_def)
qed simp

section \<open>Revisions\<close>

definition clock_ok :: "clock \<Rightarrow> bool" where
  "clock_ok ck \<longleftrightarrow> 32 ^ 10 \<le> ck_start ck mod 2 ^ 53 \<and> 32 ^ 10 \<le> ck_now ck mod 2 ^ 53 \<and> ck_start ck mod 2 ^ 53 < 2 ^ 53 - 1"

definition rev_ok :: "string \<Rightarrow> bool" where
  "rev_ok rv \<longleftrightarrow> well_formed_tid (TID rv) \<and> (\<exists>ts. tid_timestamp (TID rv) = Some ts \<and> ts + 1 < 2 ^ 54)"

lemma fresh_rev_ok:
  assumes "clock_ok ck" "case prev of None \<Rightarrow> True | Some p \<Rightarrow> rev_ok p"
  shows "\<exists>t. fresh_rev ck (map_option TID prev) = Inr (tid_str t) \<and> well_formed_tid t \<and>
    (case prev of None \<Rightarrow> True | Some p \<Rightarrow> newer_than t (TID p))"
proof -
  let ?tk = "\<lparr>last_timestamp = 0, clock_id = ck_rand ck mod 2 ^ 10\<rparr>"
  have z: "32 ^ 10 \<le> ck_start ck mod 2 ^ 53" "32 ^ 10 \<le> ck_now ck mod 2 ^ 53" "ck_start ck mod 2 ^ 53 < 2 ^ 53 - 1"
    using assms(1) by (simp_all add: clock_ok_def)
  obtain tk where tk: "ticker_new (ck_rand ck) (ck_start ck) = Some tk" "last_timestamp tk = ck_start ck mod 2 ^ 53"
    using ticker_next_time(4)[OF z(1), of ?tk None] z(1) by (auto simp: ticker_new_def)
  show ?thesis
    using ticker_next_forward[OF z(2), of tk "map_option TID prev"] tk z(3) assms(2)
    by (auto simp: fresh_rev_def rev_ok_def split: option.splits)
qed

lemma fresh_rev_first:
  assumes "clock_ok ck"
  shows "\<exists>rv. fresh_rev ck None = Inr rv \<and> rev_ok rv"
proof -
  let ?tk = "\<lparr>last_timestamp = 0, clock_id = ck_rand ck mod 2 ^ 10\<rparr>"
  have z: "32 ^ 10 \<le> ck_start ck mod 2 ^ 53" "32 ^ 10 \<le> ck_now ck mod 2 ^ 53" "ck_start ck mod 2 ^ 53 < 2 ^ 53 - 1"
    using assms by (simp_all add: clock_ok_def)
  obtain tk where tk: "ticker_new (ck_rand ck) (ck_start ck) = Some tk" "last_timestamp tk = ck_start ck mod 2 ^ 53"
    using ticker_next_time(4)[OF z(1), of ?tk None] z(1) by (auto simp: ticker_new_def)
  define m where "m = (if ck_now ck mod 2 ^ 53 > last_timestamp tk then ck_now ck mod 2 ^ 53 else last_timestamp tk + 1)"
  have l: "last_timestamp tk < 2 ^ 53 - 1" using tk(2) z(3) by simp
  note nx = ticker_next_time[OF z(2) l, folded m_def]
  have c: "clock_id tk mod 1024 < 1024" by simp
  have "fresh_rev ck None = Inr (tid_str (from_time m (clock_id tk mod 1024)))"
    using tk(1) nx(4)[of None] by (simp add: fresh_rev_def)
  moreover have "rev_ok (tid_str (from_time m (clock_id tk mod 1024)))"
    using from_time_well_formed[OF nx(1) c] timestamp_from_time[OF nx(1) c] nx(2) by (simp add: rev_ok_def)
  ultimately show ?thesis by blast
qed

section \<open>The commit of a list of writes\<close>

lemma ksorted_distinct_values: "ksorted ls \<Longrightarrow> inj_on (map_of ls) (dom (map_of ls)) \<Longrightarrow> distinct (map snd ls)"
proof -
  assume k: "ksorted ls" and inj: "inj_on (map_of ls) (dom (map_of ls))"
  have d: "distinct (map fst ls)" using k by (rule ksorted_distinct)
  have "inj_on snd (set ls)"
  proof (rule inj_onI)
    fix x y assume xy: "x \<in> set ls" "y \<in> set ls" "snd x = snd y"
    then have "map_of ls (fst x) = Some (snd x)" "map_of ls (fst y) = Some (snd y)" using d by (metis map_of_is_SomeI prod.collapse)+
    then have "fst x = fst y" using inj xy(3) by (auto simp: inj_on_def dom_def)
    then show "x = y" using xy(3) by (simp add: prod_eq_iff)
  qed
  then show ?thesis using d by (simp add: distinct_map)
qed

text \<open>The repository that the store gives back for a commit.\<close>

definition committed :: "commit \<Rightarrow> commit_data \<Rightarrow> repo" where
  "committed cm cd = repo_new (mst_load (cm_data cm) None) cm (cd_cid cd)"

lemma committed_simps [simp]:
  "r_data (committed cm cd) = mst_load (cm_data cm) None" "r_commit (committed cm cd) = cm" "r_cid (committed cm cd) = cd_cid cd"
  by (simp_all add: committed_def repo_new_def)

definition carries :: "('c, 'k) repo_env \<Rightarrow> blocks \<Rightarrow> (string \<rightharpoonup> cid) \<Rightarrow> commit_data \<Rightarrow> commit \<Rightarrow> bool" where
  "carries R B m cd cm \<longleftrightarrow>
     bm_inv (cd_new_blocks cd) \<and> repo_inv R (after_commit cd B) (committed cm cd) \<and>
     record_cids R (after_commit cd B) (committed cm cd) = m \<and> cm_rev cm = cd_rev cd \<and> cm_version cm = 3"

lemma carries_I:
  assumes env: "env_ok R" and t: "comparable (re_mst R) B t" "get_pointer (re_mst R) B mst_fuel t = Inr (cm_data cm)"
    and sh: "short_keys (mst_contents (re_mst R) B t)" "distinct (map snd (mst_contents (re_mst R) B t))"
    and h: "holds (re_mst R) (after_commit cd B) (node_set (re_mst R) B t)"
      "\<forall>v\<in>values_of (re_mst R) B t. \<exists>b. after_commit cd B v = Some b \<and> record_block R v b"
    and cm: "commit_cid R cm = Inr (cd_cid cd)" "commit_enc R cm = Inr cb" "bm_get (cd_cid cd) (cd_new_blocks cd) = Some cb"
    and cd: "bm_inv (cd_new_blocks cd)" "cm_rev cm = cd_rev cd" "cm_version cm = 3"
  shows "carries R B (map_of (mst_contents (re_mst R) B t)) cd cm"
proof -
  have X: "collision_free (re_mst R)" "codec_ok (re_mst R)" using env by (simp_all add: env_ok_def)
  have "after_commit cd B (cd_cid cd) = Some cb" using cm(3) by (simp add: after_commit_def)
  then show ?thesis
    using reload_inv[OF X t h(1)] sh h cm(1,2) cd
    by (simp add: carries_def repo_inv_def record_cids_def values_of_def)
qed

lemma newer_irrefl: "\<not> newer_than t t"
  by (simp add: newer_than_iff)

lemma sign_commit_ok:
  assumes "is_ok (sign_bytes R u key)"
  shows "\<exists>cm. sign_commit R u key = Inr cm \<and> cm_did cm = uc_did u \<and> cm_rev cm = uc_rev u \<and> cm_data cm = uc_data u \<and>
    cm_version cm = uc_version u"
  using assms by (auto simp: sign_commit_def is_ok_iff)

text \<open>The tree after the writes, with the record blocks they staged.\<close>

definition written :: "('c, 'k) repo_env \<Rightarrow> blocks \<Rightarrow> leaf list \<Rightarrow> block_map \<Rightarrow> mst \<Rightarrow> bool" where
  "written R B old leaves t \<longleftrightarrow>
     writing R B old (leaves, t) \<and> comparable (re_mst R) B t \<and> distinct (map snd (mst_contents (re_mst R) B t)) \<and>
     values_of (re_mst R) B t \<inter> range (x_cid (re_mst R)) = {}"

lemma written_I:
  assumes "writing R B old (leaves, t)" "inj_on m (dom m)" "map_of (mst_contents (re_mst R) B t) = m"
    and "\<forall>(k, v)\<in>set old. \<exists>b. record_block R v b"
  shows "written R B old leaves t"
proof -
  let ?X = "re_mst R"
  have w: "mst_inv ?X B t" "short_keys (mst_contents ?X B t)" "\<forall>c b. bm_get c leaves = Some b \<longrightarrow> record_block R c b"
    "\<forall>k v. (k, v) \<in> set (mst_contents ?X B t) \<longrightarrow> (k, v) \<in> set old \<or> bm_has v leaves"
    using assms(1) by (simp_all add: writing_def)
  have "distinct (map snd (mst_contents ?X B t))"
    by (rule ksorted_distinct_values[OF mst_map.contents_sorted[OF w(1)]]) (use assms(2,3) in simp)
  moreover have "\<exists>b. record_block R v b" if "v \<in> values_of ?X B t" for v
    using that assms(4) w(3,4) by (fastforce simp: values_of_def bm_has_get)
  then have "values_of ?X B t \<inter> range (x_cid ?X) = {}" by (auto simp: record_block_def foreign_def)
  ultimately show ?thesis using assms(1) short_comparable[OF w(1,2)] by (simp add: written_def)
qed

text \<open>A signed commit over such a tree, with its block added to those of the comparison.\<close>

lemma signed_carries:
  assumes env: "env_ok R" and w: "written R B old leaves t" and root: "get_pointer (re_mst R) B mst_fuel t = Inr (cm_data cm)"
    and d: "balance (re_mst R) L (node_set (re_mst R) B t) d" "holds (re_mst R) B L"
    and v: "\<forall>v\<in>V. \<exists>b. B v = Some b \<and> record_block R v b"
      "\<forall>v\<in>values_of (re_mst R) B t. bm_has v recs \<or> v \<in> V \<and> v \<notin> set (removed_cids d)"
    and cm: "commit_cid R cm = Inr (cd_cid cd)" "commit_enc R cm = Inr cb" "cm_version cm = 3" "cm_rev cm = cd_rev cd"
    and del: "delivers R recs d cd" "bm_get (cd_cid cd) (cd_new_blocks cd) = Some cb"
  shows "carries R B (map_of (mst_contents (re_mst R) B t)) cd cm"
proof -
  have "comparable (re_mst R) B t" "short_keys (mst_contents (re_mst R) B t)" "distinct (map snd (mst_contents (re_mst R) B t))"
    using w by (simp_all add: written_def writing_def)
  moreover have "bm_inv (cd_new_blocks cd)" using del(1) by (simp add: delivers_def)
  ultimately show ?thesis
    using carries_I[OF env _ root _ _ nodes_after_commit[OF del(1) d] records_after_commit[OF del(1) d(1) v] cm(1,2) del(2) _ cm(4,3)] by blast
qed

text \<open>What the code forms from a comparison.\<close>

lemma change_carries:
  assumes env: "env_ok R" and inv: "repo_inv R B r" and w: "written R B (mst_contents (re_mst R) B (r_data r)) leaves t"
    and root: "get_pointer (re_mst R) B mst_fuel t = Inr (cm_data cm)"
    and d: "balance (re_mst R) (node_set (re_mst R) B (r_data r)) (node_set (re_mst R) B t) d"
      "leaf_balance (re_mst R) (values_of (re_mst R) B (r_data r)) (values_of (re_mst R) B t) d"
      "set (new_leaf_cids d) \<subseteq> {v. bm_has v leaves}"
    and cm: "commit_cid R cm = Inr c" "commit_enc R cm = Inr cb" "cm_version cm = 3" "cm_rev cm = cd_rev cd"
    and cd: "cd_cid cd = c" "cd_removed_cids cd = cs_add (r_cid r) (removed_cids d)"
      "cd_new_blocks cd = bm_set c cb (bm_add_map (new_mst_blocks d) (bam_blocks (bm_get_many leaves (cs_to_list (new_leaf_cids d)))))"
  shows "carries R B (map_of (mst_contents (re_mst R) B t)) cd cm" "bam_missing (bm_get_many leaves (cs_to_list (new_leaf_cids d))) = []"
proof -
  let ?recs = "bam_blocks (bm_get_many leaves (cs_to_list (new_leaf_cids d)))"
  have "set (bam_missing (bm_get_many leaves (cs_to_list (new_leaf_cids d)))) = {}"
    unfolding block_map_many(2) using d(3) by (auto simp: bm_has_get cs_to_list_def)
  then show "bam_missing (bm_get_many leaves (cs_to_list (new_leaf_cids d))) = []" by simp
  have recs: "\<forall>c b. bm_get c ?recs = Some b \<longrightarrow> record_block R c b"
    using w by (auto simp: block_map_many written_def writing_def)
  have old: "holds (re_mst R) B (node_set (re_mst R) B (r_data r))" "\<forall>v\<in>values_of (re_mst R) B (r_data r). \<exists>b. B v = Some b \<and> record_block R v b"
    "commit_cid R (r_commit r) = Inr (r_cid r)"
    using inv by (simp_all add: repo_inv_def)
  have ni: "bm_inv (new_mst_blocks d)" using d(1) by (simp add: balance_def)
  have "bm_get x (cd_new_blocks cd) = (case bm_get x ?recs of Some b \<Rightarrow> Some b | None \<Rightarrow> bm_get x (new_mst_blocks d)) \<and>
      (cs_has x (cd_removed_cids cd) \<longrightarrow> x \<in> set (removed_cids d))" if "foreign R x \<or> x \<in> range (x_cid (re_mst R))" for x
  proof -
    have "x \<noteq> c" "x \<noteq> r_cid r" using that commit_not_tracked[OF env] cm(1) old(3) by blast+
    then show ?thesis by (simp add: cd bm_get_set bm_get_add_map[OF ni block_map_many(3)] cs_has_def)
  qed
  then have del: "delivers R ?recs d cd" using recs ni unfolding delivers_def by (simp add: cd(3))
  have "\<forall>v\<in>values_of (re_mst R) B t. bm_has v ?recs \<or> v \<in> values_of (re_mst R) B (r_data r) \<and> v \<notin> set (removed_cids d)"
    using d(2,3) by (auto simp: leaf_balance_def bm_has_get block_map_many cs_to_list_def)
  from signed_carries[OF env w root d(1) old(1,2) this _ cm(2-4) del]
  show "carries R B (map_of (mst_contents (re_mst R) B t)) cd cm" using cm(1) by (simp add: cd(1,3) bm_get_set)
qed

text \<open>The blocks sent along with a commit answer for every key it writes.\<close>

definition proves :: "('c, 'k) repo_env \<Rightarrow> record_write_op list \<Rightarrow> (string \<rightharpoonup> cid) \<Rightarrow> commit_data \<Rightarrow> commit \<Rightarrow> bool" where
  "proves R ws m cd cm \<longleftrightarrow>
     commit_cid R cm = Inr (cd_cid cd) \<and> commit_enc R cm = of_option EncodeError (bm_get (cd_cid cd) (cd_relevant_blocks cd)) \<and>
     (\<forall>op\<in>set ws. mst_get (re_mst R) (\<lambda>c. bm_get c (cd_relevant_blocks cd)) mst_fuel (mst_load (cm_data cm) None) (write_key op) = Inr (m (write_key op)))"

lemma relevant_lookup:
  assumes env: "env_ok R" and t: "comparable (re_mst R) B t" "get_pointer (re_mst R) B mst_fuel t = Inr root"
    and rel: "covers R B t key rel" "node_blocks (re_mst R) N rel"
    and recs: "bm_inv recs" "\<forall>c b. bm_get c recs = Some b \<longrightarrow> record_block R c b" and c: "commit_cid R cm = Inr c"
  shows "mst_get (re_mst R) (\<lambda>d. bm_get d (bm_set c cb (bm_add_map rel recs))) mst_fuel (mst_load root None) key =
    Inr (map_of (mst_contents (re_mst R) B t) key)"
proof -
  let ?X = "re_mst R"
  have X: "collision_free ?X" "codec_ok ?X" using env by (simp_all add: env_ok_def)
  obtain cs where cs: "cids_for_path ?X B mst_fuel mst_fuel t key = Inr cs" "\<forall>m. x_cid ?X m \<in> set cs \<longrightarrow> bm_has (x_cid ?X m) rel"
    using rel(1) by (auto simp: covers_def)
  have sv: "serves ?X (\<lambda>d. bm_get d rel) cs" by (rule node_blocks_serve[OF X(1) rel(2) cs(2)])
  have "bm_get (x_cid ?X m) (bm_set c cb (bm_add_map rel recs)) = bm_get (x_cid ?X m) rel" for m
  proof -
    have "bm_get (x_cid ?X m) recs = None"
      using recs(2) by (metis foreign_def not_None_eq rangeI record_block_def)
    moreover have "x_cid ?X m \<noteq> c" using env c by (auto simp: env_ok_def)
    ultimately show ?thesis using bm_get_add_map recs(1) rel(2) by (simp add: bm_get_set node_blocks_def)
  qed
  then have "serves ?X (\<lambda>d. bm_get d (bm_set c cb (bm_add_map rel recs))) cs" using sv by (simp add: serves_def)
  from covered_lookup[OF X t cs(1) this] show ?thesis .
qed

lemma repo_inv_record_values:
  "repo_inv R B r \<Longrightarrow> \<forall>(k, v)\<in>set (mst_contents (re_mst R) B (r_data r)). \<exists>b. record_block R v b"
  by (fastforce simp: repo_inv_def values_of_def)

lemma format_commit_ok:
  assumes env: "env_ok R" and inv: "repo_inv R (st_bytes S st) r" and ws: "\<forall>op\<in>set ws. write_ready R op"
    and spec: "spec_ops (map (meaning R) ws) (record_cids R (st_bytes S st) r) = Some m" and inj: "inj_on m (dom m)"
    and ck: "clock_ok ck" "rev_ok (cm_rev (r_commit r))" and key: "\<forall>u. is_ok (sign_bytes R u key)"
  shows "\<exists>N. \<forall>n\<ge>N. \<exists>cd. format_commit R S mst_fuel n ck r (WList ws) key st = Inr cd \<and>
    (\<exists>cm. carries R (st_bytes S st) m cd cm \<and> proves R ws m cd cm \<and>
      newer_than (TID (cd_rev cd)) (TID (cm_rev (r_commit r))) \<and> cm_did cm = repo_did r)"
proof -
  let ?X = "re_mst R"
  define B where "B = st_bytes S st"
  have X: "collision_free ?X" using env by (simp add: env_ok_def)
  have inv: "repo_inv R B r" using inv by (simp add: B_def)
  then have old: "comparable ?X B (r_data r)" "short_keys (mst_contents ?X B (r_data r))" "distinct (map snd (mst_contents ?X B (r_data r)))"
    "values_of ?X B (r_data r) \<inter> range (x_cid ?X) = {}" "commit_cid R (r_commit r) = Inr (r_cid r)"
    using values_foreign[of "values_of ?X B (r_data r)" B R] by (simp_all add: repo_inv_def)
  have "writing R B (mst_contents ?X B (r_data r)) (bm_new, r_data r)"
    using old(1,2) by (simp add: writing_def comparable_def)
  then obtain leaves t where t: "res_fold (format_write R B mst_fuel) ws (bm_new, r_data r) = Inr (leaves, t)"
    "writing R B (mst_contents ?X B (r_data r)) (leaves, t)" "map_of (mst_contents ?X B t) = m"
    using format_writes_ok ws spec unfolding record_cids_def B_def by blast
  have w: "written R B (mst_contents ?X B (r_data r)) leaves t"
    by (rule written_I[OF t(2) inj t(3) repo_inv_record_values[OF inv]])
  then have cmp: "comparable ?X B t" "distinct (map snd (mst_contents ?X B t))" "values_of ?X B t \<inter> range (x_cid ?X) = {}"
    "\<forall>k v. (k, v) \<in> set (mst_contents ?X B t) \<longrightarrow> (k, v) \<in> set (mst_contents ?X B (r_data r)) \<or> v \<in> {v. bm_has v leaves}"
    by (simp_all add: written_def writing_def)
  obtain root rel where root: "get_pointer ?X B mst_fuel t = Inr root" "res_fold (add_proof R B mst_fuel t) ws bm_new = Inr rel"
    "node_blocks ?X (node_set ?X B t) rel" "\<forall>op\<in>set ws. covers R B t (write_key op) rel"
    using cmp(1) covering_proofs[OF cmp(1,3) node_blocks_new, of ws] by (auto simp: comparable_def is_ok_iff)
  obtain tid where tid: "fresh_rev ck (Some (TID (cm_rev (r_commit r)))) = Inr (tid_str tid)" "newer_than tid (TID (cm_rev (r_commit r)))"
    using fresh_rev_ok[OF ck(1), of "Some (cm_rev (r_commit r))"] ck(2) by auto
  define u where "u = \<lparr>uc_did = repo_did r, uc_rev = tid_str tid, uc_data = root, uc_prev = None, uc_version = 3\<rparr>"
  obtain cm where cm: "sign_commit R u key = Inr cm" "cm_did cm = repo_did r" "cm_rev cm = tid_str tid" "cm_data cm = root" "cm_version cm = 3"
    using sign_commit_ok[of R u key] key by (force simp: u_def)
  obtain c cb where c: "commit_cid R cm = Inr c" "commit_enc R cm = Inr cb" using env_commit[OF env, of cm] by blast
  have ne: "c \<noteq> r_cid r"
  proof
    assume "c = r_cid r"
    then have "cm = r_commit r" using env c(1) old(5) by (auto simp: env_ok_def)
    then show False using tid(2) cm(3) newer_irrefl by (metis TID.collapse)
  qed
  show ?thesis
    unfolding B_def[symmetric]
  proof (rule enough_fuel_step[OF diff_between[OF X cmp(1) old(1) cmp(3) old(4)]], elim conjE)
    fix n d
    assume d: "diff_of ?X B mst_fuel n t (Some (r_data r)) = Inr d" "balance ?X (node_set ?X B (r_data r)) (node_set ?X B t) d"
      and "distinct (map snd (mst_contents ?X B (r_data r))) \<longrightarrow> distinct (map snd (mst_contents ?X B t)) \<longrightarrow>
        leaf_balance ?X (values_of ?X B (r_data r)) (values_of ?X B t) d"
      and "\<forall>V. (\<forall>k v. (k, v) \<in> set (mst_contents ?X B t) \<longrightarrow> (k, v) \<in> set (mst_contents ?X B (r_data r)) \<or> v \<in> V) \<longrightarrow>
        set (new_leaf_cids d) \<subseteq> V"
    then have lb: "leaf_balance ?X (values_of ?X B (r_data r)) (values_of ?X B t) d" "set (new_leaf_cids d) \<subseteq> {v. bm_has v leaves}"
      using old(3) cmp(2,4) by blast+
    let ?added = "bam_blocks (bm_get_many leaves (cs_to_list (new_leaf_cids d)))"
    let ?cd = "\<lparr>cd_cid = c, cd_rev = tid_str tid, cd_since = Some (cm_rev (r_commit r)), cd_prev = Some (r_cid r),
      cd_new_blocks = bm_set c cb (bm_add_map (new_mst_blocks d) ?added), cd_relevant_blocks = bm_set c cb (bm_add_map rel ?added),
      cd_removed_cids = cs_add (r_cid r) (removed_cids d)\<rparr>"
    have ch: "carries R B (map_of (mst_contents ?X B t)) ?cd cm" "bam_missing (bm_get_many leaves (cs_to_list (new_leaf_cids d))) = []"
      using change_carries[OF env inv w _ d(2) lb c, where cd = ?cd] root(1) cm by simp_all
    have "\<forall>c b. bm_get c ?added = Some b \<longrightarrow> record_block R c b" using w by (auto simp: block_map_many written_def writing_def)
    then have pr: "proves R ws m ?cd cm"
      using relevant_lookup[OF env cmp(1) root(1) _ root(3) block_map_many(3) _ c(1)] root(4) t(3) cm(4) c by (simp add: proves_def bm_get_set)
    have "format_commit R S mst_fuel n ck r (WList ws) key st = Inr ?cd"
      using t(1) root(1,2) d(1) ch(2) tid(1) cm(1) c ne
      unfolding format_commit_def format_commit_above_def B_def u_def by (simp add: rev_after_def Let_def)
    then show "\<exists>cd. format_commit R S mst_fuel n ck r (WList ws) key st = Inr cd \<and>
        (\<exists>cm. carries R B m cd cm \<and> proves R ws m cd cm \<and> newer_than (TID (cd_rev cd)) (TID (cm_rev (r_commit r))) \<and> cm_did cm = repo_did r)"
      using ch(1) t(3) tid(2) cm(2) pr by auto
  qed
qed

section \<open>Refused writes\<close>

lemma format_writes_refused:
  "writing R B old (leaves, data) \<Longrightarrow> \<forall>op\<in>set ws. write_ready R op \<Longrightarrow>
   spec_ops (map (meaning R) ws) (map_of (mst_contents (re_mst R) B data)) = None \<Longrightarrow>
   \<not> is_ok (res_fold (format_write R B mst_fuel) ws (leaves, data))"
proof (induction ws arbitrary: leaves data)
  case (Cons op ws)
  have op: "write_ready R op" using Cons.prems(2) by simp
  show ?case
  proof (cases "spec_op (meaning R op) (map_of (mst_contents (re_mst R) B data))")
    case None
    moreover have "mst_inv (re_mst R) B data" using Cons.prems(1) by (simp add: writing_def)
    ultimately have "\<not> is_ok (tree_op R B op data)"
      using mst_map.run_op_ok[of "re_mst R" B data "meaning R op"] op by (simp add: tree_op_def write_ready_def)
    then show ?thesis using format_write_split[OF op] by (cases "tree_op R B op data") simp_all
  next
    case (Some m)
    then obtain data' where "format_write R B mst_fuel op (leaves, data) = Inr (staged R op leaves, data')"
      "writing R B old (staged R op leaves, data')" "map_of (mst_contents (re_mst R) B data') = m"
      using format_write_ok[OF Cons.prems(1) op] by blast
    then show ?thesis using Cons.IH Cons.prems(2,3) Some by simp
  qed
qed simp

section \<open>The first commit\<close>

lemma res_fold_map: "res_fold f (map g xs) s = res_fold (\<lambda>x. f (g x)) xs s"
proof (induction xs arbitrary: s)
  case (Cons x xs)
  then show ?case by (cases "f (g x) s") simp_all
qed simp

lemma init_write_is_create: "init_write R B w = (\<lambda>rec. format_write R B w (CreateOp rec))"
  by (auto simp: fun_eq_iff init_write_def format_write_def)

lemma first_delivers:
  assumes env: "env_ok R" and ls: "bm_inv leaves" "\<forall>c b. bm_get c leaves = Some b \<longrightarrow> record_block R c b"
    and d: "balance (re_mst R) {} N d" "removed_cids d = []"
    and cd: "commit_cid R cm = Inr c" "cd_new_blocks cd = bm_set c cb (bm_add_map leaves (new_mst_blocks d))" "cd_removed_cids cd = removed_cids d"
  shows "delivers R leaves d cd"
proof -
  have ni: "bm_inv (new_mst_blocks d)" using d(1) by (simp add: balance_def)
  have "bm_get x (cd_new_blocks cd) = (case bm_get x leaves of Some b \<Rightarrow> Some b | None \<Rightarrow> bm_get x (new_mst_blocks d))"
    if "foreign R x \<or> x \<in> range (x_cid (re_mst R))" for x
  proof -
    have "x \<noteq> c" using that commit_not_tracked[OF env cd(1)] by blast
    moreover have "bm_get x leaves = None \<or> bm_get x (new_mst_blocks d) = None"
    proof (cases "bm_get x leaves")
      case (Some b)
      then have "x \<notin> range (x_cid (re_mst R))" using ls(2) by (auto simp: record_block_def foreign_def)
      then show ?thesis using balance_new_block[OF d(1), of x] by (cases "bm_get x (new_mst_blocks d)") auto
    qed simp
    ultimately show ?thesis by (auto simp: cd(2) bm_get_set bm_get_add_map[OF ls(1) ni] split: option.split)
  qed
  then show ?thesis using ls ni unfolding delivers_def by (simp add: cd(2,3) d(2) cs_has_def)
qed

lemma format_init_commit_ok:
  assumes env: "env_ok R" and ws: "\<forall>w\<in>set ws. write_ready R (CreateOp w)"
    and spec: "spec_ops (map (\<lambda>w. meaning R (CreateOp w)) ws) Map.empty = Some m" and inj: "inj_on m (dom m)"
    and ck: "clock_ok ck" and key: "\<forall>u. is_ok (sign_bytes R u key)"
  shows "\<exists>N. \<forall>n\<ge>N. \<exists>cd. format_init_commit R S mst_fuel n ck did key (Some ws) st = Inr cd \<and>
    (\<exists>cm. carries R (st_bytes S st) m cd cm \<and> cm_did cm = did \<and> rev_ok (cd_rev cd))"
proof -
  let ?X = "re_mst R"
  define B where "B = st_bytes S st"
  obtain t0 where t0: "mst_create ?X None None = Inr t0" by (simp add: mst_create_def cid_for_entries_def serialize_node_data_def)
  have e: "mst_inv ?X B t0" "mst_contents ?X B t0 = []" using mst_create_empty_inv[OF _ t0] env by (simp_all add: env_ok_def)
  then have "writing R B [] (bm_new, t0)" by (simp add: writing_def short_keys_def)
  then obtain leaves t where t: "res_fold (init_write R B mst_fuel) ws (bm_new, t0) = Inr (leaves, t)"
    "writing R B [] (leaves, t)" "map_of (mst_contents ?X B t) = m"
    using format_writes_ok[of R B "[]" bm_new t0 "map CreateOp ws" m] ws spec e(2)
    by (auto simp: res_fold_map init_write_is_create comp_def)
  have w: "written R B [] leaves t" by (rule written_I[OF t(2) inj t(3)]) simp
  then have cmp: "comparable ?X B t" "bm_inv leaves" "\<forall>c b. bm_get c leaves = Some b \<longrightarrow> record_block R c b"
    "\<forall>v\<in>values_of ?X B t. bm_has v leaves" by (auto simp: written_def writing_def values_of_def)
  obtain root where root: "get_pointer ?X B mst_fuel t = Inr root" using cmp(1) by (auto simp: comparable_def is_ok_iff)
  obtain rv where rv: "fresh_rev ck None = Inr rv" "rev_ok rv" using fresh_rev_first[OF ck] by blast
  define u where "u = \<lparr>uc_did = did, uc_rev = rv, uc_data = root, uc_prev = None, uc_version = 3\<rparr>"
  obtain cm where cm: "sign_commit R u key = Inr cm" "cm_did cm = did" "cm_rev cm = rv" "cm_data cm = root" "cm_version cm = 3"
    using sign_commit_ok[of R u key] key by (force simp: u_def)
  obtain c cb where c: "commit_cid R cm = Inr c" "commit_enc R cm = Inr cb" using env_commit[OF env, of cm] by blast
  show ?thesis
    unfolding B_def[symmetric]
  proof (rule enough_fuel_step[OF diff_from_nothing[OF cmp(1)]], elim conjE)
    fix n d
    assume d: "diff_of ?X B mst_fuel n t None = Inr d" "balance ?X {} (node_set ?X B t) d" "removed_cids d = []"
    let ?nb = "bm_set c cb (bm_add_map leaves (new_mst_blocks d))"
    let ?cd = "\<lparr>cd_cid = c, cd_rev = rv, cd_since = None, cd_prev = None, cd_new_blocks = ?nb,
      cd_relevant_blocks = ?nb, cd_removed_cids = removed_cids d\<rparr>"
    have "delivers R leaves d ?cd" by (rule first_delivers[OF env cmp(2,3) d(2,3) c(1)]) simp_all
    then have "carries R B (map_of (mst_contents ?X B t)) ?cd cm"
      using signed_carries[OF env w _ d(2), of cm "{}" leaves ?cd cb] root cm c cmp(4) by (simp add: holds_def bm_get_set)
    moreover have "format_init_commit R S mst_fuel n ck did key (Some ws) st = Inr ?cd"
      using t0 t(1) root d(1) rv(1) cm(1) c unfolding format_init_commit_def B_def u_def by (simp add: Let_def bm_add_def)
    ultimately show "\<exists>cd. format_init_commit R S mst_fuel n ck did key (Some ws) st = Inr cd \<and>
        (\<exists>cm. carries R B m cd cm \<and> cm_did cm = did \<and> rev_ok (cd_rev cd))"
      using t(3) rv(2) cm(2) by auto
  qed
qed

section \<open>Signing again\<close>

lemma balance_same: "balance X L L diff_new"
  by (simp add: balance_def diff_new_def cs_new_def bm_has_get)

lemma format_resign_ok:
  assumes env: "env_ok R" and inv: "repo_inv R B r" and key: "\<forall>u. is_ok (sign_bytes R u key)"
  shows "\<exists>cd cm. format_resign_commit R r rv key = Inr cd \<and> carries R B (record_cids R B r) cd cm \<and>
    cm_did cm = repo_did r \<and> cd_rev cd = rv \<and> cm_data cm = cm_data (r_commit r)"
proof -
  let ?X = "re_mst R"
  define u where "u = \<lparr>uc_did = repo_did r, uc_rev = rv, uc_data = cm_data (r_commit r), uc_prev = None, uc_version = 3\<rparr>"
  obtain cm where cm: "sign_commit R u key = Inr cm" "cm_did cm = repo_did r" "cm_rev cm = rv" "cm_data cm = cm_data (r_commit r)" "cm_version cm = 3"
    using sign_commit_ok[of R u key] key by (force simp: u_def)
  obtain c cb where c: "commit_cid R cm = Inr c" "commit_enc R cm = Inr cb" using env_commit[OF env, of cm] by blast
  have old: "comparable ?X B (r_data r)" "short_keys (mst_contents ?X B (r_data r))" "distinct (map snd (mst_contents ?X B (r_data r)))"
    "holds ?X B (node_set ?X B (r_data r))" "\<forall>v\<in>values_of ?X B (r_data r). \<exists>b. B v = Some b \<and> record_block R v b"
    "get_pointer ?X B mst_fuel (r_data r) = Inr (cm_data (r_commit r))" "commit_cid R (r_commit r) = Inr (r_cid r)"
    using inv by (simp_all add: repo_inv_def)
  have w: "written R B (mst_contents ?X B (r_data r)) bm_new (r_data r)"
    using old(1-3) values_foreign[OF old(5)] by (simp add: written_def writing_def comparable_def)
  let ?cd = "\<lparr>cd_cid = c, cd_rev = rv, cd_since = None, cd_prev = None, cd_new_blocks = bm_set c cb bm_new,
    cd_relevant_blocks = bm_set c cb bm_new, cd_removed_cids = cs_new (Some [r_cid r])\<rparr>"
  have "x \<noteq> c \<and> x \<noteq> r_cid r" if "foreign R x \<or> x \<in> range (x_cid ?X)" for x
    using that commit_not_tracked[OF env] c(1) old(7) by blast
  then have "delivers R bm_new diff_new ?cd"
    by (auto simp: delivers_def bm_get_set diff_new_def cs_new_def cs_has_def cs_add_def)
  then have "carries R B (map_of (mst_contents ?X B (r_data r))) ?cd cm"
    using signed_carries[OF env w _ balance_same old(4,5), of cm bm_new ?cd cb] old(6) cm c by (simp add: bm_get_set diff_new_def cs_new_def)
  then show ?thesis using cm c by (auto simp: format_resign_commit_def u_def bm_add_def record_cids_def)
qed

section \<open>Stores that take commits\<close>

text \<open>
  What a repository relies on of the store it writes to: a commit is applied as a whole, and the store
  then answers with the new blocks first and no longer with what was removed.
\<close>

locale commit_store =
  fixes inv :: "'s \<Rightarrow> bool" and S :: "'s storage"
  assumes apply_law: "inv st \<Longrightarrow> bm_inv (cd_new_blocks cd) \<Longrightarrow>
      \<exists>st'. st_apply S cd ic st = Inr st' \<and> inv st' \<and> st_root S st' = Some (cd_cid cd) \<and> st_bytes S st' = after_commit cd (st_bytes S st)"
begin

lemma apply_carried:
  assumes "env_ok R" "inv st" "carries R (st_bytes S st) m cd cm"
  shows "\<exists>st'. repo_apply_commit R S cd st = Inr (committed cm cd, st') \<and> inv st' \<and> st_root S st' = Some (cd_cid cd) \<and>
    repo_inv R (st_bytes S st') (committed cm cd) \<and> record_cids R (st_bytes S st') (committed cm cd) = m"
proof -
  obtain st' where st': "st_apply S cd None st = Inr st'" "inv st'" "st_root S st' = Some (cd_cid cd)"
    "st_bytes S st' = after_commit cd (st_bytes S st)"
    using apply_law[OF assms(2)] assms(3) unfolding carries_def by blast
  have inv': "repo_inv R (st_bytes S st') (committed cm cd)" "record_cids R (st_bytes S st') (committed cm cd) = m"
    using assms(3) st'(4) by (simp_all add: carries_def)
  obtain b where "commit_enc R cm = Inr b" "commit_dec R b = Some cm" using env_commit[OF assms(1), of cm] by blast
  moreover from this have "st_bytes S st' (cd_cid cd) = Some b" using inv'(1) by (cases "st_bytes S st' (cd_cid cd)") (auto simp: repo_inv_def)
  ultimately have "repo_load R S (Some (cd_cid cd)) st' = Inr (committed cm cd)"
    by (simp add: repo_load_def committed_def)
  then show ?thesis using st' inv' by (simp add: repo_apply_commit_def)
qed

lemma apply_writes_ok:
  assumes "env_ok R" "inv st" "repo_inv R (st_bytes S st) r" "\<forall>op\<in>set ws. write_ready R op"
    and "spec_ops (map (meaning R) ws) (record_cids R (st_bytes S st) r) = Some m" "inj_on m (dom m)"
    and "clock_ok ck" "rev_ok (cm_rev (r_commit r))" "\<forall>u. is_ok (sign_bytes R u key)"
  shows "\<exists>N. \<forall>n\<ge>N. \<exists>x. apply_writes R S mst_fuel n ck r (WList ws) key st = Inr x \<and>
    (case x of (r', st') \<Rightarrow> inv st' \<and> st_root S st' = Some (r_cid r') \<and> repo_inv R (st_bytes S st') r' \<and>
       record_cids R (st_bytes S st') r' = m \<and> repo_did r' = repo_did r \<and>
       newer_than (TID (cm_rev (r_commit r'))) (TID (cm_rev (r_commit r))))"
proof (rule enough_fuel_step[OF format_commit_ok[OF assms(1,3-9)]], elim conjE exE)
  fix n cd cm
  assume cd: "format_commit R S mst_fuel n ck r (WList ws) key st = Inr cd"
    and cm: "carries R (st_bytes S st) m cd cm" "newer_than (TID (cd_rev cd)) (TID (cm_rev (r_commit r)))" "cm_did cm = repo_did r"
  obtain st' where st': "repo_apply_commit R S cd st = Inr (committed cm cd, st')" "inv st'" "st_root S st' = Some (cd_cid cd)"
    "repo_inv R (st_bytes S st') (committed cm cd)" "record_cids R (st_bytes S st') (committed cm cd) = m"
    using apply_carried[OF assms(1,2) cm(1)] by blast
  have "cm_rev cm = cd_rev cd" using cm(1) by (simp add: carries_def)
  then show "\<exists>x. apply_writes R S mst_fuel n ck r (WList ws) key st = Inr x \<and>
    (case x of (r', st') \<Rightarrow> inv st' \<and> st_root S st' = Some (r_cid r') \<and> repo_inv R (st_bytes S st') r' \<and>
       record_cids R (st_bytes S st') r' = m \<and> repo_did r' = repo_did r \<and>
       newer_than (TID (cm_rev (r_commit r'))) (TID (cm_rev (r_commit r))))"
    using cd st' cm(2,3) by (intro exI[of _ "(committed cm cd, st')"]) (simp add: apply_writes_def repo_did_def)
qed

lemma repo_create_ok:
  assumes "env_ok R" "inv st" "\<forall>w\<in>set ws. write_ready R (CreateOp w)"
    and "spec_ops (map (\<lambda>w. meaning R (CreateOp w)) ws) Map.empty = Some m" "inj_on m (dom m)"
    and "clock_ok ck" "\<forall>u. is_ok (sign_bytes R u key)"
  shows "\<exists>N. \<forall>n\<ge>N. \<exists>x. repo_create R S mst_fuel n ck did key (Some ws) st = Inr x \<and>
    (case x of (r', st') \<Rightarrow> inv st' \<and> st_root S st' = Some (r_cid r') \<and> repo_inv R (st_bytes S st') r' \<and>
       record_cids R (st_bytes S st') r' = m \<and> repo_did r' = did \<and> rev_ok (cm_rev (r_commit r')))"
proof (rule enough_fuel_step[OF format_init_commit_ok[OF assms(1,3-7)]], elim conjE exE)
  fix n cd cm
  assume cd: "format_init_commit R S mst_fuel n ck did key (Some ws) st = Inr cd"
    and cm: "carries R (st_bytes S st) m cd cm" "cm_did cm = did" "rev_ok (cd_rev cd)"
  obtain st' where st': "repo_apply_commit R S cd st = Inr (committed cm cd, st')" "inv st'" "st_root S st' = Some (cd_cid cd)"
    "repo_inv R (st_bytes S st') (committed cm cd)" "record_cids R (st_bytes S st') (committed cm cd) = m"
    using apply_carried[OF assms(1,2) cm(1)] by blast
  have "cm_rev cm = cd_rev cd" using cm(1) by (simp add: carries_def)
  moreover have "create_from_commit R S cd st = Inr (committed cm cd, st')"
    using st'(1) by (simp add: create_from_commit_def repo_apply_commit_def)
  ultimately show "\<exists>x. repo_create R S mst_fuel n ck did key (Some ws) st = Inr x \<and>
    (case x of (r', st') \<Rightarrow> inv st' \<and> st_root S st' = Some (r_cid r') \<and> repo_inv R (st_bytes S st') r' \<and>
       record_cids R (st_bytes S st') r' = m \<and> repo_did r' = did \<and> rev_ok (cm_rev (r_commit r')))"
    using cd st' cm(2,3) by (intro exI[of _ "(committed cm cd, st')"]) (simp add: repo_create_def repo_did_def)
qed

lemma resign_commit_ok:
  assumes "env_ok R" "inv st" "repo_inv R (st_bytes S st) r" "\<forall>u. is_ok (sign_bytes R u key)"
  shows "\<exists>r' st'. resign_commit R S r rv key st = Inr (r', st') \<and> inv st' \<and> st_root S st' = Some (r_cid r') \<and>
    repo_inv R (st_bytes S st') r' \<and> record_cids R (st_bytes S st') r' = record_cids R (st_bytes S st) r \<and>
    repo_did r' = repo_did r \<and> cm_rev (r_commit r') = rv \<and> cm_data (r_commit r') = cm_data (r_commit r)"
proof -
  obtain cd cm where cd: "format_resign_commit R r rv key = Inr cd" "carries R (st_bytes S st) (record_cids R (st_bytes S st) r) cd cm"
    "cm_did cm = repo_did r" "cd_rev cd = rv" "cm_data cm = cm_data (r_commit r)"
    using format_resign_ok[OF assms(1,3,4)] by blast
  obtain st' where st': "repo_apply_commit R S cd st = Inr (committed cm cd, st')" "inv st'" "st_root S st' = Some (cd_cid cd)"
    "repo_inv R (st_bytes S st') (committed cm cd)" "record_cids R (st_bytes S st') (committed cm cd) = record_cids R (st_bytes S st) r"
    using apply_carried[OF assms(1,2) cd(2)] by blast
  have "cm_rev cm = cd_rev cd" using cd(2) by (simp add: carries_def)
  then show ?thesis using cd st' by (simp add: resign_commit_def repo_did_def)
qed

end

interpretation memory: commit_store ms_inv memory_storage
proof
  fix st and cd :: commit_data and ic
  assume inv: "ms_inv st" "bm_inv (cd_new_blocks cd)"
  have "ms_inv (ms_apply_commit cd ic st)" "ms_get_root (ms_apply_commit cd ic st) = Some (cd_cid cd)"
    "ms_get_bytes c (ms_apply_commit cd ic st) = after_commit cd (\<lambda>c. ms_get_bytes c st) c" for c
    using memory_apply_commit[OF inv, of ic c] by (simp_all add: after_commit_def split: option.splits)
  then show "\<exists>st'. st_apply memory_storage cd ic st = Inr st' \<and> ms_inv st' \<and> st_root memory_storage st' = Some (cd_cid cd) \<and>
      st_bytes memory_storage st' = after_commit cd (st_bytes memory_storage st)"
    by (simp add: memory_storage_def fun_eq_iff)
qed

end
