(* ===== verification/Repo_Properties.thy ===== *)
theory Repo_Properties
  imports Repo_Correct
begin

text \<open>
  The theorems about repositories kept in \<open>MemoryBlockstore\<close>, and an instance of the external codecs
  for their witnesses.
\<close>

section \<open>An instance of the codecs\<close>

definition enc_commit :: "commit \<Rightarrow> string" where
  "enc_commit c =
     enc_str (cm_did c) @ enc_str (cm_rev c) @ enc_str (cm_data c) @ enc_opt (cm_prev c) @
     enc_str (replicate (cm_version c) CHR ''v'') @ enc_str (map enc_byte (cm_sig c))"

definition dec_commit :: "string \<Rightarrow> commit option" where
  "dec_commit r0 =
     Option.bind (dec_str r0) (\<lambda>(d, r1).
     Option.bind (dec_str r1) (\<lambda>(v, r2).
     Option.bind (dec_str r2) (\<lambda>(t, r3).
     Option.bind (dec_opt r3) (\<lambda>(p, r4).
     Option.bind (dec_str r4) (\<lambda>(n, r5).
     Option.bind (dec_str r5) (\<lambda>(s, _).
       Some \<lparr>cm_did = d, cm_rev = v, cm_data = t, cm_prev = p, cm_version = length n, cm_sig = map of_char s\<rparr>))))))"

lemma of_char_enc_byte: "(of_char (enc_byte p) :: 8 word) = p"
proof -
  have "unat p < 256" using unsigned_less[of p, where ?'a = nat] by simp
  then have "(of_char (enc_byte p) :: nat) = unat p" by (simp add: enc_byte_def)
  then have "(of_nat (of_char (enc_byte p)) :: 8 word) = p" by simp
  then show ?thesis by (simp only: of_nat_of_char)
qed

lemma enc_byte_of_char: "enc_byte (of_char c) = c"
proof -
  have "(of_char c :: nat) < 256" using of_char_of[of "of_char c :: nat"] by (metis char_of_char mod_less_divisor zero_less_numeral)
  then have "unat (of_nat (of_char c) :: 8 word) = of_char c" by (simp only: unat_of_nat) simp
  then show ?thesis unfolding enc_byte_def by (simp only: of_nat_of_char char_of_char)
qed

lemma dec_enc_commit: "dec_commit (enc_commit c) = Some c"
  using dec_enc_str[of "map enc_byte (cm_sig c)" "[]"]
  by (simp add: dec_commit_def enc_commit_def dec_enc_str dec_enc_opt comp_def of_char_enc_byte)

text \<open>A record is told apart by its first text field, which is all the records below have.\<close>

definition first_text :: "ipld \<Rightarrow> string" where
  "first_text i = (case i of IMap ((k, IString s) # _) \<Rightarrow> enc_str k @ enc_str s | _ \<Rightarrow> [])"

definition demo_env :: "(unit, unit) repo_env" where
  "demo_env =
     \<lparr>re_mst = inj_ext, re_lex = demo_lex, ipld_cid = (\<lambda>i. Inr (CHR ''r'' # first_text i)),
      ipld_enc = (\<lambda>i. Inr (map of_char (first_text i))), ipld_dec = (\<lambda>_. None),
      commit_cid = (\<lambda>c. Inr (CHR ''c'' # enc_commit c)), commit_enc = (\<lambda>c. Inr (map of_char (enc_commit c))),
      commit_dec = (\<lambda>b. dec_commit (map enc_byte b)), cbor_dec = (\<lambda>_. None), cbor_is_map = (\<lambda>_. True),
      cbor_commit = (\<lambda>_. None), cbor_versioned = (\<lambda>_. None), sign_bytes = (\<lambda>u _. Inr [7]),
      unsigned_enc = (\<lambda>_. Inr []), sha256_digest = (\<lambda>b. b), verify_digest = (\<lambda>_ _ _. Inr True)\<rparr>"

lemma demo_env_ok: "env_ok demo_env"
proof -
  have "CHR ''c'' # s \<noteq> x_cid inj_ext d" for s d using inj_not_node[of "CHR ''c''" s] by auto
  moreover have "a = b" if "enc_commit a = enc_commit b" for a b using that dec_enc_commit by (metis option.inject)
  ultimately show ?thesis
    using inj_collision_free inj_codec_ok inj_sha_ok
    by (auto simp: env_ok_def demo_env_def comp_def enc_byte_of_char dec_enc_commit)
qed

definition demo_record :: "string \<Rightarrow> repo_record" where
  "demo_record s = [(''t'', LexIpld (IString s))]"

definition demo_write :: "string \<Rightarrow> string \<Rightarrow> create_or_update_op" where
  "demo_write rkey s = \<lparr>cu_action = ACreate, cu_collection = ''c'', cu_rkey = rkey, cu_record = demo_record s\<rparr>"

definition demo_clock :: clock where
  "demo_clock = \<lparr>ck_rand = 5, ck_start = 2 ^ 52, ck_now = 2 ^ 52 + 9\<rparr>"

lemma demo_record_cid: "record_cid demo_env (demo_record s) = CHR ''r'' # enc_str ''t'' @ enc_str s"
  by (simp add: record_cid_def record_ipld_def demo_env_def demo_record_def first_text_def)

lemma demo_write_ready: "rkey = ''0'' \<or> rkey = ''1'' \<Longrightarrow> write_ready demo_env (CreateOp (demo_write rkey s))"
proof -
  assume r: "rkey = ''0'' \<or> rkey = ''1''"
  have "foreign demo_env (CHR ''r'' # x)" for x using inj_not_node[of "CHR ''r''" x] by (simp add: foreign_def demo_env_def)
  then have "record_ready demo_env (demo_record s)"
    by (simp add: record_ready_def demo_record_cid) (simp add: demo_env_def)
  then show ?thesis using r demo_valid
    by (auto simp: write_ready_def write_key_def format_data_key_def op_collection_def op_rkey_def demo_write_def demo_env_def)
qed

section \<open>Properties\<close>



lemma demo_repo:
  obtains r st where "ms_inv st" "repo_inv demo_env (st_bytes memory_storage st) r" "rev_ok (cm_rev (r_commit r))"
    "record_cids demo_env (st_bytes memory_storage st) r = [''c/0'' \<mapsto> record_cid demo_env (demo_record ''a'')]"
proof -
  have "ms_inv ms_default" by (simp add: ms_inv_def ms_default_def)
  moreover have "clock_ok demo_clock" by (simp add: clock_ok_def demo_clock_def)
  moreover have "spec_ops (map (\<lambda>w. meaning demo_env (CreateOp w)) [demo_write ''0'' ''a'']) Map.empty =
      Some [''c/0'' \<mapsto> record_cid demo_env (demo_record ''a'')]"
    by (simp add: meaning_def write_key_def format_data_key_def op_collection_def op_rkey_def demo_write_def)
  moreover have "\<forall>u. is_ok (sign_bytes demo_env u ())" by (simp add: demo_env_def)
  ultimately have "\<exists>N. \<forall>n\<ge>N. \<exists>x. repo_create demo_env memory_storage mst_fuel n demo_clock ''did:plc:x'' () (Some [demo_write ''0'' ''a'']) ms_default = Inr x \<and>
    (case x of (r', st') \<Rightarrow> ms_inv st' \<and> st_root memory_storage st' = Some (r_cid r') \<and> repo_inv demo_env (st_bytes memory_storage st') r' \<and>
       record_cids demo_env (st_bytes memory_storage st') r' = [''c/0'' \<mapsto> record_cid demo_env (demo_record ''a'')] \<and> repo_did r' = ''did:plc:x'' \<and>
       rev_ok (cm_rev (r_commit r')))"
    using demo_write_ready by (intro memory.repo_create_ok[OF demo_env_ok]) simp_all
  then show ?thesis using that by blast
qed







text \<open>Creating a repository: with enough fuel \<open>create\<close> stores a first commit over exactly the
  initial writes, the repository it returns satisfies the invariant, belongs to the given DID, and its
  revision is a well-formed TID.\<close>

theorem repo_create_correct:
  assumes "env_ok R" "ms_inv st" "\<forall>w\<in>set ws. write_ready R (CreateOp w)"
    and "spec_ops (map (\<lambda>w. meaning R (CreateOp w)) ws) Map.empty = Some m" "inj_on m (dom m)"
    and "clock_ok ck" "\<forall>u. is_ok (sign_bytes R u key)"
  shows "\<exists>N. \<forall>n\<ge>N. \<exists>x. repo_create R memory_storage mst_fuel n ck did key (Some ws) st = Inr x \<and>
    (case x of (r', st') \<Rightarrow> ms_inv st' \<and> ms_get_root st' = Some (r_cid r') \<and> repo_inv R (st_bytes memory_storage st') r' \<and>
       record_cids R (st_bytes memory_storage st') r' = m \<and> repo_did r' = did \<and> well_formed_tid (TID (cm_rev (r_commit r'))))"
  by (rule enough_fuel_mono[OF memory.repo_create_ok[OF assms]]) (auto simp: memory_storage_def rev_ok_def)

theorem repo_create_correct_witness:
  "\<exists>N. \<forall>n\<ge>N. \<exists>x. repo_create demo_env memory_storage mst_fuel n demo_clock ''did:plc:x'' () (Some [demo_write ''0'' ''a'']) ms_default = Inr x \<and>
     record_cids demo_env (st_bytes memory_storage (snd x)) (fst x) = [''c/0'' \<mapsto> record_cid demo_env (demo_record ''a'')]"
proof -
  have "ms_inv ms_default" by (simp add: ms_inv_def ms_default_def)
  moreover have "spec_ops (map (\<lambda>w. meaning demo_env (CreateOp w)) [demo_write ''0'' ''a'']) Map.empty =
      Some [''c/0'' \<mapsto> record_cid demo_env (demo_record ''a'')]"
    by (simp add: meaning_def write_key_def format_data_key_def op_collection_def op_rkey_def demo_write_def)
  moreover have "\<forall>w\<in>set [demo_write ''0'' ''a'']. write_ready demo_env (CreateOp w)" using demo_write_ready by simp
  moreover have "clock_ok demo_clock" "\<forall>u. is_ok (sign_bytes demo_env u ())" by (simp_all add: clock_ok_def demo_clock_def demo_env_def)
  ultimately have "\<exists>N. \<forall>n\<ge>N. \<exists>x. repo_create demo_env memory_storage mst_fuel n demo_clock ''did:plc:x'' () (Some [demo_write ''0'' ''a'']) ms_default = Inr x \<and>
    (case x of (r', st') \<Rightarrow> ms_inv st' \<and> ms_get_root st' = Some (r_cid r') \<and> repo_inv demo_env (st_bytes memory_storage st') r' \<and>
       record_cids demo_env (st_bytes memory_storage st') r' = [''c/0'' \<mapsto> record_cid demo_env (demo_record ''a'')] \<and> repo_did r' = ''did:plc:x'' \<and>
       well_formed_tid (TID (cm_rev (r_commit r'))))"
    by (intro repo_create_correct[OF demo_env_ok]) simp_all
  then show ?thesis by (rule enough_fuel_mono) (auto split: prod.splits)
qed

text \<open>Signing again changes the commit and nothing else: \<open>resign_commit\<close> returns a repository with the
  same records and the same data root under the given revision, and the invariant still holds.\<close>

theorem resign_commit_keeps_records:
  assumes "env_ok R" "ms_inv st" "repo_inv R (st_bytes memory_storage st) r" "\<forall>u. is_ok (sign_bytes R u key)"
  shows "\<exists>r' st'. resign_commit R memory_storage r rv key st = Inr (r', st') \<and> ms_get_root st' = Some (r_cid r') \<and>
    repo_inv R (st_bytes memory_storage st') r' \<and>
    record_cids R (st_bytes memory_storage st') r' = record_cids R (st_bytes memory_storage st) r \<and>
    cm_rev (r_commit r') = rv \<and> cm_data (r_commit r') = cm_data (r_commit r)"
  using memory.resign_commit_ok[OF assms] by (force simp: memory_storage_def)

theorem resign_commit_keeps_records_witness:
  "\<exists>r st r' st'. resign_commit demo_env memory_storage r ''x'' () st = Inr (r', st') \<and> cm_rev (r_commit r') = ''x'' \<and>
     record_cids demo_env (st_bytes memory_storage st') r' = [''c/0'' \<mapsto> record_cid demo_env (demo_record ''a'')]"
proof -
  obtain r st where r: "ms_inv st" "repo_inv demo_env (st_bytes memory_storage st) r"
    "record_cids demo_env (st_bytes memory_storage st) r = [''c/0'' \<mapsto> record_cid demo_env (demo_record ''a'')]" by (rule demo_repo)
  have "\<forall>u. is_ok (sign_bytes demo_env u ())" by (simp add: demo_env_def)
  from resign_commit_keeps_records[OF demo_env_ok r(1,2) this, of "''x''"] r(3) show ?thesis by auto
qed

section \<open>Keys\<close>

lemma parse_format_data_key:
  "CHR ''/'' \<notin> set a \<Longrightarrow> CHR ''/'' \<notin> set b \<Longrightarrow> parse_data_key (format_data_key a b) = Inr \<lparr>rp_collection = a, rp_rkey = b\<rparr>"
proof -
  assume "CHR ''/'' \<notin> set a" "CHR ''/'' \<notin> set b"
  then have "split_on CHR ''/'' (a @ CHR ''/'' # b) = [a, b]" by (simp add: split_on_append_sep split_on_no_sep)
  then show ?thesis by (simp add: parse_data_key_def format_data_key_def)
qed

end
