(* ===== verification/Actor_Db.thy ===== *)
theory Actor_Db
  imports Repo_Types
begin

text \<open>
  The tables of an actor's SQLite store, as \<open>rsky-pds/src/actor_store/db/mod.rs\<close> creates them, less those of
  the permissioned spaces. A table is the list of its rows in insertion order, which is the order in
  which a \<open>SELECT\<close> without \<open>ORDER BY\<close> returns them here; text compares by bytes, as SQLite's default
  collation does. A function that runs inside a transaction returns no store when it fails, which is the
  rollback.
\<close>

section \<open>Tables\<close>

record root_row =
  rt_did :: string
  rt_cid :: cid
  rt_rev :: string
  rt_indexed_at :: string

record repo_block =
  bk_cid :: cid
  bk_repo_rev :: string
  bk_size :: int
  bk_content :: bytes

record record_row =
  rr_uri :: string
  rr_cid :: cid
  rr_collection :: string
  rr_rkey :: string
  rr_repo_rev :: string
  rr_indexed_at :: string
  rr_takedown_ref :: "string option"

record backlink =
  bl_uri :: string
  bl_path :: string
  bl_link_to :: string

record stored_intent =
  si_id :: int
  si_rev :: string
  si_cid :: cid
  si_event_type :: string
  si_event :: bytes
  si_state :: string
  si_seq_floor :: "int option"
  si_seq :: "int option"

record repair_step =
  rs_repair_id :: string
  rs_step_no :: int
  rs_rev :: string
  rs_cid :: cid

record blob_row =
  br_cid :: cid
  br_mime_type :: string
  br_size :: int
  br_temp_key :: "string option"
  br_width :: "int option"
  br_height :: "int option"
  br_created_at :: string
  br_takedown_ref :: "string option"

record blob_work_row =
  bw_id :: int
  bw_kind :: string
  bw_key :: string
  bw_cid :: "string option"
  bw_state :: string
  bw_version :: "int option"
  bw_created_at :: string
  bw_updated_at :: string

record actor_db =
  t_repo_root :: "root_row list"
  t_repo_block :: "repo_block list"
  t_record :: "record_row list"
  t_backlink :: "backlink list"
  t_publish_intent :: "stored_intent list"
  t_publish_ack :: "(int \<times> int \<times> string) list"
  t_repair_step :: "repair_step list"
  t_blob :: "blob_row list"
  t_record_blob :: "(cid \<times> string) list"
  t_blob_work :: "blob_work_row list"
  t_blob_moderation :: "(cid \<times> int) list"

text \<open>A row id of an \<open>AUTOINCREMENT\<close> column: larger than any the table holds.\<close>

definition next_id :: "int list \<Rightarrow> int" where
  "next_id ids = fold max ids 0 + 1"

end
