(* ===== verification/Sql_Repo.thy ===== *)
theory Sql_Repo
  imports Actor_Db Repo_Correct "HOL-Library.Product_Lexorder"
begin

text \<open>
  \<open>SqlRepoReader\<close> of \<open>rsky-pds/src/actor_store/repo/sql_repo.rs\<close>: the blocks and the root of a repository
  kept in SQLite, and the export of its blocks in pages.
\<close>

section \<open>Blocks\<close>

definition find_block :: "cid \<Rightarrow> actor_db \<Rightarrow> bytes option" where
  "find_block c db = map_option bk_content (find (\<lambda>b. bk_cid b = c) (t_repo_block db))"

section \<open>Statements\<close>

definition EXPORT_PAGE :: nat where
  "EXPORT_PAGE = 500"

text \<open>\<open>INSERT \<dots> ON CONFLICT DO NOTHING\<close>: the row that is there stays.\<close>

definition put_block_in :: "cid \<Rightarrow> bytes \<Rightarrow> string \<Rightarrow> actor_db \<Rightarrow> actor_db" where
  "put_block_in c b rv db =
     (if find_block c db = None
      then db\<lparr>t_repo_block := t_repo_block db @ [\<lparr>bk_cid = c, bk_repo_rev = rv, bk_size = int (length b), bk_content = b\<rparr>]\<rparr>
      else db)"

definition put_many_in :: "block_map \<Rightarrow> string \<Rightarrow> actor_db \<Rightarrow> actor_db" where
  "put_many_in blks rv db = fold (\<lambda>(c, b). put_block_in c b rv) blks db"

fun chunks :: "nat \<Rightarrow> 'a list \<Rightarrow> 'a list list" where
  "chunks n [] = []"
| "chunks n (x # xs) = take (Suc n) (x # xs) # chunks n (drop n xs)"

definition delete_batch_in :: "cid list \<Rightarrow> actor_db \<Rightarrow> actor_db" where
  "delete_batch_in cs db = db\<lparr>t_repo_block := filter (\<lambda>b. bk_cid b \<notin> set cs) (t_repo_block db)\<rparr>"

text \<open>\<open>chunks n\<close> cuts into batches of \<open>Suc n\<close>.\<close>

definition delete_many_in :: "cid list \<Rightarrow> actor_db \<Rightarrow> actor_db" where
  "delete_many_in cids db = fold delete_batch_in (chunks 499 cids) db"

definition insert_root :: "string \<Rightarrow> cid \<Rightarrow> string \<Rightarrow> string \<Rightarrow> actor_db \<Rightarrow> repo_error + actor_db" where
  "insert_root did c rv now db =
     (if did \<in> rt_did ` set (t_repo_root db) then Inl UniqueViolation
      else Inr (db\<lparr>t_repo_root := t_repo_root db @ [\<lparr>rt_did = did, rt_cid = c, rt_rev = rv, rt_indexed_at = now\<rparr>]\<rparr>))"

definition update_roots :: "(root_row \<Rightarrow> bool) \<Rightarrow> cid \<Rightarrow> string \<Rightarrow> string \<Rightarrow> actor_db \<Rightarrow> actor_db" where
  "update_roots P c rv now db =
     db\<lparr>t_repo_root := map (\<lambda>r. if P r then r\<lparr>rt_cid := c, rt_rev := rv, rt_indexed_at := now\<rparr> else r) (t_repo_root db)\<rparr>"

text \<open>The root row is written first: inserted for a new repository, else replaced where it is the expected one.\<close>

definition swap_root :: "string \<Rightarrow> string \<Rightarrow> commit_data \<Rightarrow> cid option \<Rightarrow> actor_db \<Rightarrow> repo_error + actor_db" where
  "swap_root did now commit expected_root db =
     (case expected_root of
        None \<Rightarrow> insert_root did (cd_cid commit) (cd_rev commit) now db
      | Some expected \<Rightarrow>
          (let changed = length (filter (\<lambda>r. rt_cid r = expected) (t_repo_root db))
           in if changed \<noteq> 1 then Inl ConcurrentWrite
              else Inr (update_roots (\<lambda>r. rt_cid r = expected) (cd_cid commit) (cd_rev commit) now db)))"

definition apply_commit_in :: "string \<Rightarrow> string \<Rightarrow> commit_data \<Rightarrow> cid option \<Rightarrow> actor_db \<Rightarrow> repo_error + actor_db" where
  "apply_commit_in did now commit expected_root db =
     res_bind (swap_root did now commit expected_root db) (\<lambda>db1.
       let db2 = put_many_in (cd_new_blocks commit) (cd_rev commit) db1
       in Inr (delete_many_in (cs_to_list (cd_removed_cids commit)) db2))"

type_synonym block_position = "string \<times> cid"

definition block_position :: "repo_block \<Rightarrow> block_position" where
  "block_position b = (bk_repo_rev b, bk_cid b)"

definition range_row :: "string option \<Rightarrow> block_position option \<Rightarrow> repo_block \<Rightarrow> bool" where
  "range_row since cursor b \<longleftrightarrow>
     (case cursor of None \<Rightarrow> True | Some p \<Rightarrow> block_position b < p) \<and>
     (case since of None \<Rightarrow> True | Some s \<Rightarrow> bk_repo_rev b > s)"

definition block_range_in :: "string option \<Rightarrow> block_position option \<Rightarrow> actor_db \<Rightarrow> repo_block list" where
  "block_range_in since cursor db =
     take EXPORT_PAGE (rev (sort_key block_position (filter (range_row since cursor) (t_repo_block db))))"

section \<open>SqlRepoReader\<close>

record sql_reader =
  sr_cache :: block_map
  sr_db :: actor_db
  sr_now :: string
  sr_did :: string

definition sr_new :: "string \<Rightarrow> string \<Rightarrow> actor_db \<Rightarrow> sql_reader" where
  "sr_new did now db = \<lparr>sr_cache = bm_new, sr_db = db, sr_now = now, sr_did = did\<rparr>"

definition sr_get_bytes :: "cid \<Rightarrow> sql_reader \<Rightarrow> bytes option \<times> sql_reader" where
  "sr_get_bytes c s =
     (case bm_get c (sr_cache s) of
        Some b \<Rightarrow> (Some b, s)
      | None \<Rightarrow>
          (case find_block c (sr_db s) of
             None \<Rightarrow> (None, s)
           | Some b \<Rightarrow> (Some b, s\<lparr>sr_cache := bm_set c b (sr_cache s)\<rparr>)))"

definition sr_has :: "cid \<Rightarrow> sql_reader \<Rightarrow> bool \<times> sql_reader" where
  "sr_has c s = (case sr_get_bytes c s of (got, s') \<Rightarrow> (got \<noteq> None, s'))"

definition select_blocks :: "cid list \<Rightarrow> actor_db \<Rightarrow> (cid \<times> bytes) list" where
  "select_blocks cids db =
     concat (map (\<lambda>batch. map (\<lambda>b. (bk_cid b, bk_content b)) (filter (\<lambda>b. bk_cid b \<in> set batch) (t_repo_block db))) (chunks 499 cids))"

definition sr_get_blocks :: "cid list \<Rightarrow> sql_reader \<Rightarrow> blocks_and_missing \<times> sql_reader" where
  "sr_get_blocks cids s =
     (let cached = bm_get_many (sr_cache s) cids
      in if bam_missing cached = [] then (cached, s)
         else
           let rows = select_blocks (bam_missing cached) (sr_db s);
               (blks, missing) = fold (\<lambda>(c, b) (blks, missing). (bm_set c b blks, cs_delete c missing)) rows
                                   (bm_new, cs_new (Some (bam_missing cached)));
               s' = s\<lparr>sr_cache := bm_add_map (sr_cache s) blks\<rparr>
           in (\<lparr>bam_blocks = bm_add_map blks (bam_blocks cached), bam_missing = cs_to_list missing\<rparr>, s'))"

definition get_root_detailed :: "sql_reader \<Rightarrow> repo_error + cid \<times> string" where
  "get_root_detailed s = (case t_repo_root (sr_db s) of [] \<Rightarrow> Inl NoRows | r # _ \<Rightarrow> Inr (rt_cid r, rt_rev r))"

definition sr_get_root :: "sql_reader \<Rightarrow> cid option" where
  "sr_get_root s = (case get_root_detailed s of Inr (c, _) \<Rightarrow> Some c | Inl _ \<Rightarrow> None)"

definition sr_put_block :: "cid \<Rightarrow> bytes \<Rightarrow> string \<Rightarrow> sql_reader \<Rightarrow> sql_reader" where
  "sr_put_block c b rv s = s\<lparr>sr_db := put_block_in c b rv (sr_db s), sr_cache := bm_set c b (sr_cache s)\<rparr>"

definition sr_put_many :: "block_map \<Rightarrow> string \<Rightarrow> sql_reader \<Rightarrow> sql_reader" where
  "sr_put_many blks rv s = s\<lparr>sr_db := put_many_in blks rv (sr_db s)\<rparr>"

definition sr_update_root :: "cid \<Rightarrow> string \<Rightarrow> bool option \<Rightarrow> sql_reader \<Rightarrow> repo_error + sql_reader" where
  "sr_update_root c rv is_create s =
     (if is_create = Some True
      then res_bind (insert_root (sr_did s) c rv (sr_now s) (sr_db s)) (\<lambda>db. Inr (s\<lparr>sr_db := db\<rparr>))
      else Inr (s\<lparr>sr_db := update_roots (\<lambda>_. True) c rv (sr_now s) (sr_db s)\<rparr>))"

definition sr_apply_commit :: "commit_data \<Rightarrow> bool option \<Rightarrow> sql_reader \<Rightarrow> repo_error + sql_reader" where
  "sr_apply_commit commit is_create s =
     res_bind (if is_create = Some True then Inr None
               else res_bind (get_root_detailed s) (\<lambda>(c, _). Inr (Some c))) (\<lambda>expected_root.
     res_bind (apply_commit_in (sr_did s) (sr_now s) commit expected_root (sr_db s)) (\<lambda>db.
       Inr (s\<lparr>sr_db := db, sr_cache := bm_add_map (sr_cache s) (cd_new_blocks commit)\<rparr>)))"

text \<open>
  The export reads one snapshot page by page; \<open>expired i\<close> is the deadline check before page \<open>i\<close>. The
  result is what goes to the CAR writer, for a client that reads it to the end.
\<close>

fun export_loop ::
    "(nat \<Rightarrow> bool) \<Rightarrow> nat \<Rightarrow> string option \<Rightarrow> actor_db \<Rightarrow> nat \<Rightarrow> block_position option \<Rightarrow> repo_error + (cid \<times> bytes) list" where
  "export_loop expired 0 since db i cursor = Inl (MstErr OutOfFuel)"
| "export_loop expired (Suc n) since db i cursor =
     (if expired i then Inl ExportExceeded
      else
        let rows = block_range_in since cursor db
        in if rows = [] then Inr []
           else res_bind (export_loop expired n since db (Suc i) (Some (block_position (last rows)))) (\<lambda>rest.
             Inr (map (\<lambda>b. (bk_cid b, bk_content b)) rows @ rest)))"

definition car_stream :: "(nat \<Rightarrow> bool) \<Rightarrow> nat \<Rightarrow> string option \<Rightarrow> actor_db \<Rightarrow> repo_error + cid \<times> (cid \<times> bytes) list" where
  "car_stream expired n since db =
     (case t_repo_root db of
        [] \<Rightarrow> Inl NoRoot
      | r # _ \<Rightarrow> res_bind (export_loop expired n since db 0 None) (\<lambda>blks. Inr (rt_cid r, blks)))"

definition get_block_range :: "string option \<Rightarrow> block_position option \<Rightarrow> sql_reader \<Rightarrow> repo_block list" where
  "get_block_range since cursor s = block_range_in since cursor (sr_db s)"

definition count_blocks :: "sql_reader \<Rightarrow> int" where
  "count_blocks s = int (length (t_repo_block (sr_db s)))"

definition cache_rev :: "string \<Rightarrow> sql_reader \<Rightarrow> sql_reader" where
  "cache_rev rv s =
     s\<lparr>sr_cache := fold (\<lambda>b. bm_set (bk_cid b) (bk_content b)) (take 15 (filter (\<lambda>b. bk_repo_rev b = rv) (t_repo_block (sr_db s)))) (sr_cache s)\<rparr>"

definition sr_delete_many :: "cid list \<Rightarrow> sql_reader \<Rightarrow> sql_reader" where
  "sr_delete_many cids s = (if cids = [] then s else s\<lparr>sr_db := delete_many_in cids (sr_db s)\<rparr>)"

section \<open>Facts about the statements\<close>

definition blocks_unique :: "actor_db \<Rightarrow> bool" where
  "blocks_unique db \<longleftrightarrow> distinct (map bk_cid (t_repo_block db))"

definition block_table :: "actor_db \<Rightarrow> (cid \<times> bytes) list" where
  "block_table db = map (\<lambda>b. (bk_cid b, bk_content b)) (t_repo_block db)"

lemma find_block_map_of: "find_block c db = map_of (block_table db) c"
proof -
  have "map_option bk_content (find (\<lambda>b. bk_cid b = c) bs) = map_of (map (\<lambda>b. (bk_cid b, bk_content b)) bs) c" for bs
    by (induction bs) auto
  then show ?thesis by (simp add: find_block_def block_table_def)
qed

lemma blocks_unique_table: "blocks_unique db \<longleftrightarrow> distinct (map fst (block_table db))"
  by (simp add: blocks_unique_def block_table_def comp_def)

lemma block_table_put:
  "block_table (put_block_in c b rv db) = (if find_block c db = None then block_table db @ [(c, b)] else block_table db)"
  by (simp add: put_block_in_def block_table_def)

lemma find_block_put: "find_block d (put_block_in c b rv db) = (if d = c \<and> find_block c db = None then Some b else find_block d db)"
  by (auto simp: find_block_map_of block_table_put map_add_def split: option.splits)

lemma blocks_unique_put: "blocks_unique db \<Longrightarrow> blocks_unique (put_block_in c b rv db)"
  by (auto simp: blocks_unique_table block_table_put find_block_map_of map_of_eq_None_iff)

lemma find_block_put_many:
  "find_block d (put_many_in blks rv db) = (case find_block d db of Some b \<Rightarrow> Some b | None \<Rightarrow> map_of blks d)"
  unfolding put_many_in_def
proof (induction blks arbitrary: db)
  case (Cons x blks)
  then show ?case by (cases x) (auto simp: find_block_put split: option.splits)
qed (simp split: option.split)

lemma blocks_unique_put_many: "blocks_unique db \<Longrightarrow> blocks_unique (put_many_in blks rv db)"
  unfolding put_many_in_def by (induction blks arbitrary: db) (auto simp: blocks_unique_put)

lemma concat_chunks: "concat (chunks n xs) = xs"
  by (induction n xs rule: chunks.induct) simp_all

lemma delete_batches:
  "fold delete_batch_in bs db = db\<lparr>t_repo_block := filter (\<lambda>b. bk_cid b \<notin> set (concat bs)) (t_repo_block db)\<rparr>"
proof (induction bs arbitrary: db)
  case (Cons b bs)
  have "(\<lambda>x. bk_cid x \<notin> set b \<and> bk_cid x \<notin> set (concat bs)) = (\<lambda>x. bk_cid x \<notin> set (concat (b # bs)))" by auto
  then show ?case using Cons by (simp add: delete_batch_in_def conj_commute)
qed simp

lemma delete_many_blocks:
  "delete_many_in cids db = db\<lparr>t_repo_block := filter (\<lambda>b. bk_cid b \<notin> set cids) (t_repo_block db)\<rparr>"
  by (simp add: delete_many_in_def delete_batches concat_chunks del: set_concat)

lemma put_many_frame: "put_many_in blks rv db = db\<lparr>t_repo_block := t_repo_block (put_many_in blks rv db)\<rparr>"
  unfolding put_many_in_def
proof (induction blks arbitrary: db)
  case (Cons x blks)
  obtain c b where x: "x = (c, b)" by (cases x)
  have "put_block_in c b rv db = db\<lparr>t_repo_block := t_repo_block (put_block_in c b rv db)\<rparr>" by (simp add: put_block_in_def)
  moreover obtain db1 where "db1 = put_block_in c b rv db" by simp
  ultimately show ?case using Cons[of db1] by (simp add: x) (metis (no_types, lifting) actor_db.update_convs(2) actor_db.surjective)
qed simp

lemma put_many_root [simp]: "t_repo_root (put_many_in blks rv db) = t_repo_root db"
  by (subst put_many_frame) simp

lemma find_block_delete_many: "find_block c (delete_many_in cids db) = (if c \<in> set cids then None else find_block c db)"
proof -
  have "map_of (map (\<lambda>b. (bk_cid b, bk_content b)) (filter (\<lambda>b. bk_cid b \<notin> set cids) bs)) c =
      (if c \<in> set cids then None else map_of (map (\<lambda>b. (bk_cid b, bk_content b)) bs) c)" for bs :: "repo_block list"
    by (induction bs) auto
  then show ?thesis unfolding find_block_map_of block_table_def delete_many_blocks by simp
qed

lemma blocks_unique_delete_many: "blocks_unique db \<Longrightarrow> blocks_unique (delete_many_in cids db)"
  by (simp add: blocks_unique_def delete_many_blocks distinct_map_filter)

section \<open>Commits\<close>

lemma swap_root_frame:
  assumes "swap_root did now commit expected db = Inr db1"
  shows "db1 = db\<lparr>t_repo_root := t_repo_root db1\<rparr>"
  using assms by (auto simp: swap_root_def insert_root_def update_roots_def Let_def split: option.splits if_splits)

lemma apply_commit_in_Inr:
  assumes "apply_commit_in did now commit expected db = Inr db'"
  shows "find_block c db' = (if cs_has c (cd_removed_cids commit) then None
      else case find_block c db of Some b \<Rightarrow> Some b | None \<Rightarrow> map_of (cd_new_blocks commit) c)"
    "db' = db\<lparr>t_repo_root := t_repo_root db', t_repo_block := t_repo_block db'\<rparr>" "blocks_unique db \<Longrightarrow> blocks_unique db'"
proof -
  obtain db1 where sw: "swap_root did now commit expected db = Inr db1"
    and db': "db' = delete_many_in (cs_to_list (cd_removed_cids commit)) (put_many_in (cd_new_blocks commit) (cd_rev commit) db1)"
    using assms by (auto simp: apply_commit_in_def res_bind_eq_Inr_iff)
  obtain rs where db1: "db1 = db\<lparr>t_repo_root := rs\<rparr>" using swap_root_frame[OF sw] by blast
  have f: "find_block c db1 = find_block c db" for c by (simp add: find_block_def db1)
  show "find_block c db' = (if cs_has c (cd_removed_cids commit) then None
      else case find_block c db of Some b \<Rightarrow> Some b | None \<Rightarrow> map_of (cd_new_blocks commit) c)"
    by (simp add: db' find_block_delete_many find_block_put_many f cs_has_def cs_to_list_def)
  obtain bs where "put_many_in (cd_new_blocks commit) (cd_rev commit) db1 = db1\<lparr>t_repo_block := bs\<rparr>" using put_many_frame by blast
  then show "db' = db\<lparr>t_repo_root := t_repo_root db', t_repo_block := t_repo_block db'\<rparr>" by (simp add: db' delete_many_blocks db1)
  have "blocks_unique db1 = blocks_unique db" by (simp add: blocks_unique_def db1)
  then show "blocks_unique db'" if "blocks_unique db"
    using that blocks_unique_delete_many blocks_unique_put_many by (simp add: db')
qed

lemma apply_commit_in_root:
  "apply_commit_in did now commit expected db = Inr db' \<Longrightarrow>
   \<exists>db1. swap_root did now commit expected db = Inr db1 \<and> t_repo_root db' = t_repo_root db1"
  by (auto simp: apply_commit_in_def res_bind_eq_Inr_iff delete_many_blocks Let_def)

text \<open>The root row of a store that has one.\<close>

definition root_is :: "actor_db \<Rightarrow> cid \<Rightarrow> bool" where
  "root_is db c \<longleftrightarrow> (\<exists>r. t_repo_root db = [r] \<and> rt_cid r = c)"

lemma swap_root_expected:
  assumes "root_is db c"
  shows "(\<exists>db'. apply_commit_in did now commit (Some e) db = Inr db' \<and> root_is db' (cd_cid commit)) \<longleftrightarrow> e = c"
    "apply_commit_in did now commit (Some e) db = Inl ConcurrentWrite \<longleftrightarrow> e \<noteq> c"
proof -
  obtain r where r: "t_repo_root db = [r]" "rt_cid r = c" using assms by (auto simp: root_is_def)
  show "(\<exists>db'. apply_commit_in did now commit (Some e) db = Inr db' \<and> root_is db' (cd_cid commit)) \<longleftrightarrow> e = c"
    "apply_commit_in did now commit (Some e) db = Inl ConcurrentWrite \<longleftrightarrow> e \<noteq> c"
    using r by (auto simp: apply_commit_in_def swap_root_def root_is_def update_roots_def delete_many_blocks Let_def)
qed

section \<open>Export\<close>

text \<open>The rows newer than \<open>since\<close>, from the newest revision down.\<close>

definition export_order :: "string option \<Rightarrow> actor_db \<Rightarrow> repo_block list" where
  "export_order since db = rev (sort_key block_position (filter (range_row since None) (t_repo_block db)))"

lemma blocks_unique_positions: "blocks_unique db \<Longrightarrow> distinct (map block_position (t_repo_block db))"
proof -
  assume "blocks_unique db"
  then have "distinct (map (snd \<circ> block_position) (t_repo_block db))" by (simp add: blocks_unique_def block_position_def comp_def)
  then show ?thesis by (auto simp: distinct_map dest: inj_on_imageI2)
qed

text \<open>A strictly descending list, cut below a position of it.\<close>

lemma below_position:
  fixes f :: "'a \<Rightarrow> 'k::linorder"
  assumes "sorted_wrt (\<lambda>x y. f x > f y) (as @ [a] @ bs)"
  shows "filter (\<lambda>b. f b < f a) (as @ [a] @ bs) = bs"
proof -
  have "\<forall>x\<in>set as. f x > f a" "\<forall>x\<in>set bs. f x < f a" using assms by (auto simp: sorted_wrt_append)
  then have "filter (\<lambda>b. f b < f a) as = []" "filter (\<lambda>b. f b < f a) bs = bs" by (auto simp: filter_empty_conv filter_id_conv dest: less_imp_not_less)
  then show ?thesis by simp
qed

lemma export_order_strict:
  assumes "blocks_unique db"
  shows "sorted_wrt (\<lambda>x y. block_position x > block_position y) (export_order since db)"
proof -
  let ?rows = "filter (range_row since None) (t_repo_block db)"
  have "distinct (map block_position ?rows)" using blocks_unique_positions[OF assms] by (rule distinct_map_filter)
  then have "distinct (map block_position (sort_key block_position ?rows))" by (simp add: distinct_map)
  then have "sorted_wrt (<) (map block_position (sort_key block_position ?rows))" by (simp add: strict_sorted_iff)
  then show ?thesis by (simp add: export_order_def sorted_wrt_rev sorted_wrt_map)
qed

lemma page_after:
  assumes "blocks_unique db" "export_order since db = as @ [a] @ bs"
  shows "block_range_in since (Some (block_position a)) db = take EXPORT_PAGE bs"
proof -
  have "range_row since (Some p) = (\<lambda>b. range_row since None b \<and> block_position b < p)" for p by (auto simp: range_row_def)
  then have "filter (range_row since (Some p)) bs = filter (\<lambda>b. block_position b < p) (filter (range_row since None) bs)" for p bs by simp
  then have "block_range_in since (Some (block_position a)) db = take EXPORT_PAGE (filter (\<lambda>b. block_position b < block_position a) (export_order since db))"
    by (simp add: block_range_in_def export_order_def rev_filter[symmetric] filter_sort)
  also have "filter (\<lambda>b. block_position b < block_position a) (export_order since db) = bs"
    unfolding assms(2) by (rule below_position) (use export_order_strict[OF assms(1), of since] assms(2) in simp)
  finally show ?thesis .
qed

lemma first_page: "block_range_in since None db = take EXPORT_PAGE (export_order since db)"
  by (simp add: block_range_in_def export_order_def)

definition exported :: "repo_block list \<Rightarrow> (cid \<times> bytes) list" where
  "exported bs = map (\<lambda>b. (bk_cid b, bk_content b)) bs"

lemma export_loop_from:
  assumes "blocks_unique db" "\<And>i. \<not> expired i"
  shows "block_range_in since cursor db = take EXPORT_PAGE bs \<Longrightarrow> export_order since db = as @ bs \<Longrightarrow>
    n > length bs \<Longrightarrow> export_loop expired n since db i cursor = Inr (exported bs)"
proof (induction n arbitrary: i cursor as bs)
  case (Suc n)
  show ?case
  proof (cases bs)
    case Nil
    then show ?thesis using Suc.prems assms(2) by (simp add: exported_def)
  next
    case (Cons b bs')
    let ?page = "take EXPORT_PAGE bs" and ?rest = "drop EXPORT_PAGE bs"
    have page: "?page = butlast ?page @ [last ?page]" "?page \<noteq> []" by (simp_all add: Cons EXPORT_PAGE_def)
    then have "export_order since db = (as @ butlast ?page) @ [last ?page] @ ?rest"
      using Suc.prems(2) by (metis append.assoc append_take_drop_id)
    note next_page = page_after[OF assms(1) this]
    have "export_loop expired n since db (Suc i) (Some (block_position (last ?page))) = Inr (exported ?rest)"
      using Suc.IH[OF next_page, of "as @ ?page"] Suc.prems Cons by (simp add: EXPORT_PAGE_def)
    moreover have "exported ?page @ exported ?rest = exported bs" by (simp add: exported_def flip: map_append)
    ultimately show ?thesis using Suc.prems(1) page(2) assms(2)[of i] unfolding export_loop.simps Let_def by (simp add: exported_def)
  qed
qed simp

lemma export_all:
  assumes "blocks_unique db" "\<forall>i. \<not> expired i" "root_is db c" "n > length (t_repo_block db)"
  shows "car_stream expired n since db = Inr (c, exported (export_order since db)) \<and>
    distinct (map fst (exported (export_order since db))) \<and>
    set (exported (export_order since db)) = {(bk_cid b, bk_content b) |b. b \<in> set (t_repo_block db) \<and> (\<forall>s. since = Some s \<longrightarrow> bk_repo_rev b > s)}"
proof -
  have len: "n > length (export_order since db)"
    using le_less_trans[OF length_filter_le assms(4)] by (simp add: export_order_def)
  have "export_loop expired n since db 0 None = Inr (exported (export_order since db))"
    using export_loop_from[OF assms(1) _ first_page, of expired since "[]" n 0] assms(2) len by simp
  moreover have "distinct (map bk_cid (filter (range_row since None) (t_repo_block db)))"
    using assms(1) unfolding blocks_unique_def by (rule distinct_map_filter)
  then have "distinct (map fst (exported (export_order since db)))"
    by (simp add: exported_def export_order_def comp_def rev_map[symmetric] distinct_map)
  moreover have "set (exported (export_order since db)) =
      {(bk_cid b, bk_content b) |b. b \<in> set (t_repo_block db) \<and> (\<forall>s. since = Some s \<longrightarrow> bk_repo_rev b > s)}"
    by (auto simp: exported_def export_order_def range_row_def split: option.splits)
  ultimately show ?thesis
    using assms(3) by (auto simp: car_stream_def root_is_def)
qed

section \<open>Properties\<close>

definition demo_db :: actor_db where
  "demo_db =
     \<lparr>t_repo_root = [\<lparr>rt_did = ''d'', rt_cid = ''a'', rt_rev = ''1'', rt_indexed_at = ''t''\<rparr>],
      t_repo_block = [\<lparr>bk_cid = ''a'', bk_repo_rev = ''1'', bk_size = 1, bk_content = [1]\<rparr>, \<lparr>bk_cid = ''b'', bk_repo_rev = ''2'', bk_size = 1, bk_content = [2]\<rparr>],
      t_record = [], t_backlink = [], t_publish_intent = [], t_publish_ack = [], t_repair_step = [], t_blob = [], t_record_blob = [], t_blob_work = [], t_blob_moderation = []\<rparr>"

definition demo_commit :: "cid \<Rightarrow> commit_data" where
  "demo_commit c = \<lparr>cd_cid = c, cd_rev = ''2'', cd_since = None, cd_prev = None, cd_new_blocks = [(c, [3])], cd_relevant_blocks = [], cd_removed_cids = [''a'']\<rparr>"

text \<open>C13. Commits to one store are serialised by the root they were formatted against: of two commits
  prepared from the same root, in whatever order they arrive, the first is applied and becomes the root,
  and the second is refused as concurrent and leaves the store as the first left it, unless the first did
  not move the root.\<close>

theorem stale_commit_is_refused:
  assumes "root_is db c" "cd_cid first \<noteq> c"
  shows "\<exists>db1. apply_commit_in did now first (Some c) db = Inr db1 \<and> root_is db1 (cd_cid first) \<and>
    apply_commit_in did' now' second (Some c) db1 = Inl ConcurrentWrite"
proof -
  obtain db1 where db1: "apply_commit_in did now first (Some c) db = Inr db1" "root_is db1 (cd_cid first)"
    using swap_root_expected(1)[OF assms(1), of did now first c] by blast
  then show ?thesis using swap_root_expected(2)[OF db1(2)] assms(2) by auto
qed

theorem stale_commit_is_refused_witness:
  "\<exists>db1. apply_commit_in ''d'' ''t'' (demo_commit ''x'') (Some ''a'') demo_db = Inr db1 \<and>
     apply_commit_in ''d'' ''t'' (demo_commit ''y'') (Some ''a'') db1 = Inl ConcurrentWrite"
  using stale_commit_is_refused[of demo_db "''a''" "demo_commit ''x''" "''d''" "''t''" "''d''" "''t''" "demo_commit ''y''"]
  by (auto simp: root_is_def demo_db_def demo_commit_def)

text \<open>C14. What a commit leaves in the SQL store: a removed CID is gone even when the commit also brings it
  as a new block, a stored block keeps its bytes, and otherwise a new block is there. The memory store,
  which deletes first, keeps such a block; the two stores agree exactly on commits whose new blocks
  and removed CIDs are disjoint and whose new blocks are not stored under other bytes.\<close>

theorem sql_commit_drops_new_blocks_it_removes:
  assumes "apply_commit_in did now commit expected db = Inr db'"
  shows "find_block c db' = (if cs_has c (cd_removed_cids commit) then None
      else case find_block c db of Some b \<Rightarrow> Some b | None \<Rightarrow> bm_get c (cd_new_blocks commit)) \<and>
    (find_block c db' = after_commit commit (\<lambda>c. find_block c db) c \<longleftrightarrow>
      (if cs_has c (cd_removed_cids commit) then bm_get c (cd_new_blocks commit) = None
       else \<forall>b b'. find_block c db = Some b \<longrightarrow> bm_get c (cd_new_blocks commit) = Some b' \<longrightarrow> b = b'))"
  using apply_commit_in_Inr(1)[OF assms, of c] by (auto simp: after_commit_def bm_get_def split: option.splits)

theorem sql_commit_drops_new_blocks_it_removes_witness:
  "\<exists>db'. apply_commit_in ''d'' ''t'' (demo_commit ''a'') (Some ''a'') demo_db = Inr db' \<and> find_block ''a'' db' = None \<and>
     after_commit (demo_commit ''a'') (\<lambda>c. find_block c demo_db) ''a'' = Some [3]"
proof -
  obtain db' where db': "apply_commit_in ''d'' ''t'' (demo_commit ''a'') (Some ''a'') demo_db = Inr db'"
    using swap_root_expected(1)[of demo_db "''a''" "''d''" "''t''" "demo_commit ''a''" "''a''"] by (auto simp: root_is_def demo_db_def)
  then have "find_block ''a'' db' = None"
    using sql_commit_drops_new_blocks_it_removes[OF db', of "''a''"] by (simp add: demo_commit_def cs_has_def)
  with db' show ?thesis by (auto simp: after_commit_def demo_commit_def bm_get_def)
qed

text \<open>C12. An export is complete: while the deadline is not reached, reading the snapshot page by page
  ends after at most one page per block and one more, and gives the CAR writer the root and every block
  with a revision after \<open>since\<close>, each exactly once, from the newest revision down.\<close>

theorem export_is_complete:
  assumes "blocks_unique db" "\<forall>i. \<not> expired i" "root_is db c" "n > length (t_repo_block db)"
  shows "car_stream expired n since db = Inr (c, exported (export_order since db)) \<and>
    distinct (map fst (exported (export_order since db))) \<and>
    set (exported (export_order since db)) = {(bk_cid b, bk_content b) |b. b \<in> set (t_repo_block db) \<and> (\<forall>s. since = Some s \<longrightarrow> bk_repo_rev b > s)} \<and>
    sorted_wrt (\<lambda>x y. block_position x > block_position y) (export_order since db)"
  using export_all[OF assms, of since] export_order_strict[OF assms(1), of since] by blast

theorem export_is_complete_witness:
  "car_stream (\<lambda>_. False) 3 (Some ''1'') demo_db = Inr (''a'', [(''b'', [2])])"
proof -
  have "blocks_unique demo_db" "root_is demo_db ''a''" by (simp_all add: blocks_unique_def root_is_def demo_db_def)
  moreover have "exported (export_order (Some ''1'') demo_db) = [(''b'', [2])]"
    by (simp add: exported_def export_order_def range_row_def demo_db_def less_char_def)
  ultimately show ?thesis
    using export_is_complete[of demo_db "\<lambda>_. False" "''a''" 3 "Some ''1''"] by (simp add: demo_db_def)
qed

end
