(* ===== verification/Record_Index.thy ===== *)
theory Record_Index
  imports Sql_Repo
begin

text \<open>
  \<open>rsky-pds/src/actor_store/record/mod.rs\<close>: the index of an actor's records beside the repository, and
  the backlinks of follows, blocks, likes and reposts. What the URI parser and the validators take
  from libraries is \<open>uri_env\<close>.
\<close>

record uri_env =
  ue_match :: "rexp \<Rightarrow> string \<Rightarrow> bool"
  ue_caps :: "crx \<Rightarrow> string \<Rightarrow> captured option"
  ue_query :: query_reader
  ue_params :: query_writer

definition uri_of :: "uri_env \<Rightarrow> string \<Rightarrow> repo_error + at_uri" where
  "uri_of U s = uri_res (at_uri_new (ue_caps U) (ue_query U) s None)"

definition uri_text :: "uri_env \<Rightarrow> at_uri \<Rightarrow> string" where
  "uri_text U u = at_uri_to_string (ue_params U) u"

section \<open>Backlinks\<close>

definition lex_str :: "lex option \<Rightarrow> string option" where
  "lex_str v =
     (case v of
        Some (LexIpld (IString s)) \<Rightarrow> Some s
      | Some (LexIpld (IJson (JString s))) \<Rightarrow> Some s
      | _ \<Rightarrow> None)"

definition ipld_str :: "ipld option \<Rightarrow> string option" where
  "ipld_str v =
     (case v of
        Some (IString s) \<Rightarrow> Some s
      | Some (IJson (JString s)) \<Rightarrow> Some s
      | _ \<Rightarrow> None)"

definition subject_uri :: "repo_record \<Rightarrow> string option" where
  "subject_uri rec =
     (case map_of rec ''subject'' of
        Some (LexMap ref) \<Rightarrow> lex_str (map_of ref ''uri'')
      | Some (LexIpld (IMap ref)) \<Rightarrow> ipld_str (map_of ref ''uri'')
      | _ \<Rightarrow> None)"

definition get_backlinks :: "uri_env \<Rightarrow> at_uri \<Rightarrow> repo_record \<Rightarrow> repo_error + backlink list" where
  "get_backlinks U uri rec =
     (case lex_str (map_of rec ''$type'') of
        None \<Rightarrow> Inr []
      | Some record_type \<Rightarrow>
          if record_type = ''app.bsky.graph.follow'' \<or> record_type = ''app.bsky.graph.block'' then
            (case lex_str (map_of rec ''subject'') of
               None \<Rightarrow> Inr []
             | Some subject \<Rightarrow>
                 (case ensure_valid_did (ue_match U) subject of
                    Inr _ \<Rightarrow> Inr [\<lparr>bl_uri = uri_text U uri, bl_path = ''subject'', bl_link_to = subject\<rparr>]
                  | Inl e \<Rightarrow> Inl (InvalidBacklink ''get_backlinks Error: invalid did'')))
          else if record_type = ''app.bsky.feed.like'' \<or> record_type = ''app.bsky.feed.repost'' then
            (case subject_uri rec of
               None \<Rightarrow> Inr []
             | Some s \<Rightarrow>
                 (case ensure_valid_at_uri (ue_match U) (ue_caps U) (ue_query U) s of
                    Inr _ \<Rightarrow> Inr [\<lparr>bl_uri = uri_text U uri, bl_path = ''subject.uri'', bl_link_to = s\<rparr>]
                  | Inl e \<Rightarrow> Inl (InvalidBacklink ''get_backlinks Error: invalid AtUri'')))
          else Inr [])"

section \<open>Statements\<close>

definition upsert_record :: "record_row \<Rightarrow> actor_db \<Rightarrow> actor_db" where
  "upsert_record row db =
     db\<lparr>t_record :=
       (if rr_uri row \<in> rr_uri ` set (t_record db)
        then map (\<lambda>r. if rr_uri r = rr_uri row
                      then r\<lparr>rr_cid := rr_cid row, rr_repo_rev := rr_repo_rev row, rr_indexed_at := rr_indexed_at row\<rparr> else r) (t_record db)
        else t_record db @ [row])\<rparr>"

definition delete_backlinks_of :: "string \<Rightarrow> actor_db \<Rightarrow> actor_db" where
  "delete_backlinks_of uri db = db\<lparr>t_backlink := filter (\<lambda>b. bl_uri b \<noteq> uri) (t_backlink db)\<rparr>"

definition add_backlink_in :: "backlink \<Rightarrow> actor_db \<Rightarrow> actor_db" where
  "add_backlink_in b db =
     (if \<exists>x\<in>set (t_backlink db). bl_uri x = bl_uri b \<and> bl_path x = bl_path b then db
      else db\<lparr>t_backlink := t_backlink db @ [b]\<rparr>)"

definition add_backlinks_in :: "backlink list \<Rightarrow> actor_db \<Rightarrow> actor_db" where
  "add_backlinks_in bs db = fold add_backlink_in bs db"

definition index_record_in ::
    "uri_env \<Rightarrow> at_uri \<Rightarrow> cid \<Rightarrow> repo_record option \<Rightarrow> write_op_action \<Rightarrow> string \<Rightarrow> string \<Rightarrow> actor_db \<Rightarrow> repo_error + actor_db" where
  "index_record_in U uri c rec action repo_rev indexed_at db =
     (let collection = get_collection uri; rkey = get_rkey uri; hostname = get_hostname uri in
      if \<not> starts_with hostname ''did:'' then Inl (IndexedUriError ''Expected indexed URI to contain DID'')
      else if collection = [] then Inl (IndexedUriError ''Expected indexed URI to contain a collection'')
      else if rkey = [] then Inl (IndexedUriError ''Expected indexed URI to contain a record key'')
      else
        let db1 = upsert_record \<lparr>rr_uri = uri_text U uri, rr_cid = c, rr_collection = collection, rr_rkey = rkey,
                    rr_repo_rev = repo_rev, rr_indexed_at = indexed_at, rr_takedown_ref = None\<rparr> db
        in case rec of
             None \<Rightarrow> Inr db1
           | Some r \<Rightarrow>
               res_bind (get_backlinks U uri r) (\<lambda>backlinks.
                 let db2 = (if action = AUpdate then delete_backlinks_of (uri_text U uri) db1 else db1)
                 in Inr (add_backlinks_in backlinks db2)))"

definition delete_record_in :: "uri_env \<Rightarrow> at_uri \<Rightarrow> actor_db \<Rightarrow> actor_db" where
  "delete_record_in U uri db =
     (let s = uri_text U uri; db1 = db\<lparr>t_record := filter (\<lambda>r. rr_uri r \<noteq> s) (t_record db)\<rparr>
      in delete_backlinks_of s db1)"

section \<open>Reads\<close>

definition record_count :: "actor_db \<Rightarrow> int" where
  "record_count db = int (length (t_record db))"

definition list_collections :: "actor_db \<Rightarrow> string list" where
  "list_collections db = sort (remdups (map rr_collection (t_record db)))"

definition visible :: "bool option \<Rightarrow> record_row \<Rightarrow> bool" where
  "visible include_soft_deleted r \<longleftrightarrow> include_soft_deleted = Some True \<or> rr_takedown_ref r = None"

definition joined :: "actor_db \<Rightarrow> record_row \<Rightarrow> (record_row \<times> bytes) option" where
  "joined db r = map_option (\<lambda>b. (r, b)) (find_block (rr_cid r) db)"

definition rkey_window :: "bool \<Rightarrow> string option \<Rightarrow> string option \<Rightarrow> string option \<Rightarrow> record_row \<Rightarrow> bool" where
  "rkey_window reverse cursor rkey_start rkey_end r \<longleftrightarrow>
     (case cursor of
        Some c \<Rightarrow> if reverse then rr_rkey r > c else rr_rkey r < c
      | None \<Rightarrow>
          (case rkey_start of Some s \<Rightarrow> rr_rkey r > s | None \<Rightarrow> True) \<and>
          (case rkey_end of Some e \<Rightarrow> rr_rkey r < e | None \<Rightarrow> True))"

record records_for_collection =
  rfc_uri :: string
  rfc_cid :: cid
  rfc_value :: repo_record

text \<open>A negative \<open>LIMIT\<close> is no limit in SQLite.\<close>

definition sql_limit :: "int \<Rightarrow> 'a list \<Rightarrow> 'a list" where
  "sql_limit n xs = (if n < 0 then xs else take (nat n) xs)"

definition list_records_for_collection ::
    "('c, 'k) repo_env \<Rightarrow> string \<Rightarrow> int \<Rightarrow> bool \<Rightarrow> string option \<Rightarrow> string option \<Rightarrow> string option \<Rightarrow> bool option \<Rightarrow> actor_db \<Rightarrow>
     repo_error + records_for_collection list" where
  "list_records_for_collection R collection limit reverse cursor rkey_start rkey_end include_soft_deleted db =
     (let rows = filter (\<lambda>(r, _). rr_collection r = collection \<and> visible include_soft_deleted r \<and>
                   rkey_window reverse cursor rkey_start rkey_end r) (List.map_filter (joined db) (t_record db));
          ascending = sort_key (\<lambda>(r, _). rr_rkey r) rows;
          ordered = (if reverse then ascending else rev ascending)
      in res_map (\<lambda>(r, b). res_bind (read_record_bytes R b) (\<lambda>v. Inr \<lparr>rfc_uri = rr_uri r, rfc_cid = rr_cid r, rfc_value = v\<rparr>)) (sql_limit limit ordered))"

record get_record_out =
  gr_uri :: string
  gr_cid :: cid
  gr_value :: repo_record
  gr_indexed_at :: string
  gr_takedown_ref :: "string option"

definition row_wanted :: "string \<Rightarrow> cid option \<Rightarrow> bool option \<Rightarrow> record_row \<Rightarrow> bool" where
  "row_wanted uri c include_soft_deleted r \<longleftrightarrow>
     rr_uri r = uri \<and> visible include_soft_deleted r \<and> (case c of None \<Rightarrow> True | Some c \<Rightarrow> rr_cid r = c)"

definition index_get_record ::
    "('c, 'k) repo_env \<Rightarrow> uri_env \<Rightarrow> at_uri \<Rightarrow> cid option \<Rightarrow> bool option \<Rightarrow> actor_db \<Rightarrow> repo_error + get_record_out option" where
  "index_get_record R U uri c include_soft_deleted db =
     (case filter (\<lambda>(r, _). row_wanted (uri_text U uri) c include_soft_deleted r) (List.map_filter (joined db) (t_record db)) of
        [] \<Rightarrow> Inr None
      | (r, b) # _ \<Rightarrow>
          res_bind (read_record_bytes R b) (\<lambda>v.
            Inr (Some \<lparr>gr_uri = rr_uri r, gr_cid = rr_cid r, gr_value = v, gr_indexed_at = rr_indexed_at r, gr_takedown_ref = rr_takedown_ref r\<rparr>)))"

definition has_record :: "string \<Rightarrow> cid option \<Rightarrow> bool option \<Rightarrow> actor_db \<Rightarrow> bool" where
  "has_record uri c include_soft_deleted db \<longleftrightarrow> (\<exists>r\<in>set (t_record db). row_wanted uri c include_soft_deleted r)"

record status_attr =
  sa_applied :: bool
  sa_ref :: "string option"

definition takedown_status :: "string option \<Rightarrow> status_attr" where
  "takedown_status t = (case t of Some r \<Rightarrow> \<lparr>sa_applied = True, sa_ref = Some r\<rparr> | None \<Rightarrow> \<lparr>sa_applied = False, sa_ref = None\<rparr>)"

definition get_record_takedown_status :: "string \<Rightarrow> actor_db \<Rightarrow> status_attr option" where
  "get_record_takedown_status uri db =
     map_option (\<lambda>r. takedown_status (rr_takedown_ref r)) (find (\<lambda>r. rr_uri r = uri) (t_record db))"

definition get_current_record_cid :: "string \<Rightarrow> actor_db \<Rightarrow> cid option" where
  "get_current_record_cid uri db = map_option rr_cid (find (\<lambda>r. rr_uri r = uri) (t_record db))"

definition get_record_backlinks :: "string \<Rightarrow> string \<Rightarrow> string \<Rightarrow> actor_db \<Rightarrow> record_row list" where
  "get_record_backlinks collection path link_to db =
     concat (map (\<lambda>r. map (\<lambda>_. r) (filter (\<lambda>b. bl_uri b = rr_uri r \<and> bl_path b = path \<and> bl_link_to b = link_to \<and> rr_collection r = collection) (t_backlink db))) (t_record db))"

definition get_backlink_conflicts :: "uri_env \<Rightarrow> at_uri \<Rightarrow> repo_record \<Rightarrow> actor_db \<Rightarrow> repo_error + at_uri list" where
  "get_backlink_conflicts U uri rec db =
     res_bind (get_backlinks U uri rec) (\<lambda>links.
       res_map (\<lambda>r. uri_res (at_uri_make (ue_caps U) (ue_query U) (get_hostname uri) (Some (get_collection uri)) (Some (rr_rkey r))))
         (concat (map (\<lambda>b. get_record_backlinks (get_collection uri) (bl_path b) (bl_link_to b) db) links)))"

text \<open>The outer join gives \<open>NULL\<close> for a record without its block, which does not read as bytes.\<close>

definition get_profile_record :: "actor_db \<Rightarrow> repo_error + bytes option" where
  "get_profile_record db =
     (case find (\<lambda>r. rr_collection r = ''app.bsky.actor.profile'' \<and> rr_rkey r = ''self'') (t_record db) of
        None \<Rightarrow> Inr None
      | Some r \<Rightarrow> (case find_block (rr_cid r) db of Some b \<Rightarrow> Inr (Some b) | None \<Rightarrow> Inl DecodeError))"

record record_since_rev =
  sr_uri :: string
  sr_cid :: cid
  sr_indexed_at :: string
  sr_content :: bytes

definition get_records_since_rev :: "string \<Rightarrow> actor_db \<Rightarrow> record_since_rev list" where
  "get_records_since_rev rv db =
     (let rows = filter (\<lambda>(r, _). rr_repo_rev r > rv) (List.map_filter (joined db) (t_record db));
          res = map (\<lambda>(r, b). \<lparr>sr_uri = rr_uri r, sr_cid = rr_cid r, sr_indexed_at = rr_indexed_at r, sr_content = b\<rparr>)
                  (take 10 (sort_key (\<lambda>(r, _). rr_repo_rev r) rows))
      in if res = [] then res
         else if \<not> (\<exists>r\<in>set (t_record db). rr_repo_rev r \<le> rv) then []
         else res)"

definition update_record_takedown_status :: "uri_env \<Rightarrow> at_uri \<Rightarrow> status_attr \<Rightarrow> string \<Rightarrow> actor_db \<Rightarrow> actor_db" where
  "update_record_takedown_status U uri takedown now db =
     (let t = (if sa_applied takedown then (case sa_ref takedown of Some r \<Rightarrow> Some r | None \<Rightarrow> Some now) else None)
      in db\<lparr>t_record := map (\<lambda>r. if rr_uri r = uri_text U uri then r\<lparr>rr_takedown_ref := t\<rparr> else r) (t_record db)\<rparr>)"

definition list_existing_blocks :: "actor_db \<Rightarrow> cid list" where
  "list_existing_blocks db = sort (map bk_cid (t_repo_block db))"

end
