(* ===== verification/Blob_Index.thy ===== *)
theory Blob_Index
  imports Record_Index
begin

text \<open>
  \<open>rsky-pds/src/actor_store/blob/mod.rs\<close>: which blobs an actor's records refer to, the journal of work
  on their objects, and moderation. The object store is the record \<open>blob_store\<close> of the operations of
  the trait \<open>BlobStore\<close> over its state; an operation on it may fail, and what it did before stays done.
\<close>

section \<open>The work journal\<close>

datatype blob_work_state =
    DeletePending | GcDeferred | RestorePending | Superseded | Done | Checking | Issuing | Ambiguous | Failed | Retired | Orphaned

definition all_states :: "blob_work_state list" where
  "all_states = [DeletePending, GcDeferred, RestorePending, Superseded, Done, Checking, Issuing, Ambiguous, Failed, Retired, Orphaned]"

fun state_str :: "blob_work_state \<Rightarrow> string" where
  "state_str DeletePending = ''delete-pending''"
| "state_str GcDeferred = ''gc-deferred''"
| "state_str RestorePending = ''restore-pending''"
| "state_str Superseded = ''superseded''"
| "state_str Done = ''done''"
| "state_str Checking = ''checking''"
| "state_str Issuing = ''issuing''"
| "state_str Ambiguous = ''ambiguous''"
| "state_str Failed = ''failed''"
| "state_str Retired = ''retired''"
| "state_str Orphaned = ''orphaned''"

definition parse_state :: "string \<Rightarrow> repo_error + blob_work_state" where
  "parse_state v = of_option (UnknownBlobWork v) (find (\<lambda>s. state_str s = v) all_states)"

fun is_terminal :: "blob_work_state \<Rightarrow> bool" where
  "is_terminal DeletePending = False"
| "is_terminal RestorePending = False"
| "is_terminal Checking = False"
| "is_terminal Issuing = False"
| "is_terminal Ambiguous = False"
| "is_terminal Failed = False"
| "is_terminal GcDeferred = True"
| "is_terminal Superseded = True"
| "is_terminal Done = True"
| "is_terminal Retired = True"
| "is_terminal Orphaned = True"

datatype blob_work_kind = Permanent | Temp | Quarantine

fun kind_str :: "blob_work_kind \<Rightarrow> string" where
  "kind_str Permanent = ''permanent''"
| "kind_str Temp = ''temp''"
| "kind_str Quarantine = ''quarantine''"

definition parse_kind :: "string \<Rightarrow> repo_error + blob_work_kind" where
  "parse_kind v =
     (if v = ''permanent'' then Inr Permanent
      else if v = ''temp'' then Inr Temp
      else if v = ''quarantine'' then Inr Quarantine
      else Inl (UnknownBlobWork v))"

record blob_work =
  wk_id :: int
  wk_kind :: blob_work_kind
  wk_key :: string
  wk_cid :: "string option"
  wk_state :: blob_work_state
  wk_version :: "int option"
  wk_created_at :: string

definition blob_work_from_row :: "blob_work_row \<Rightarrow> repo_error + blob_work" where
  "blob_work_from_row r =
     res_bind (parse_kind (bw_kind r)) (\<lambda>k.
     res_bind (parse_state (bw_state r)) (\<lambda>s.
       Inr \<lparr>wk_id = bw_id r, wk_kind = k, wk_key = bw_key r, wk_cid = bw_cid r, wk_state = s, wk_version = bw_version r,
            wk_created_at = bw_created_at r\<rparr>))"

definition insert_blob_work_in ::
    "blob_work_kind \<Rightarrow> string \<Rightarrow> string option \<Rightarrow> blob_work_state \<Rightarrow> int option \<Rightarrow> string \<Rightarrow> actor_db \<Rightarrow> actor_db" where
  "insert_blob_work_in kind key c state version now db =
     db\<lparr>t_blob_work := t_blob_work db @
       [\<lparr>bw_id = next_id (map bw_id (t_blob_work db)), bw_kind = kind_str kind, bw_key = key, bw_cid = c, bw_state = state_str state,
         bw_version = version, bw_created_at = now, bw_updated_at = now\<rparr>]\<rparr>"

definition set_blob_work_state_in :: "int \<Rightarrow> blob_work_state \<Rightarrow> string \<Rightarrow> actor_db \<Rightarrow> actor_db" where
  "set_blob_work_state_in i state now db =
     db\<lparr>t_blob_work := map (\<lambda>r. if bw_id r = i then r\<lparr>bw_state := state_str state, bw_updated_at := now\<rparr> else r) (t_blob_work db)\<rparr>"

definition blob_work_rows :: "actor_db \<Rightarrow> repo_error + blob_work list" where
  "blob_work_rows db = res_map blob_work_from_row (sort_key bw_id (t_blob_work db))"

definition nonterminal_blob_work :: "actor_db \<Rightarrow> repo_error + nat" where
  "nonterminal_blob_work db =
     res_bind (blob_work_rows db) (\<lambda>ws. Inr (length (filter (\<lambda>w. \<not> is_terminal (wk_state w)) ws)))"

section \<open>Moderation\<close>

definition moderation_version :: "cid \<Rightarrow> actor_db \<Rightarrow> int" where
  "moderation_version c db = (case map_of (t_blob_moderation db) c of Some v \<Rightarrow> v | None \<Rightarrow> 0)"

definition bump_moderation_version_in :: "cid \<Rightarrow> string \<Rightarrow> actor_db \<Rightarrow> int \<times> actor_db" where
  "bump_moderation_version_in c now db =
     (let mods = (if map_of (t_blob_moderation db) c = None then t_blob_moderation db @ [(c, 1)]
                  else map (\<lambda>(d, v). if d = c then (d, v + 1) else (d, v)) (t_blob_moderation db));
          db1 = db\<lparr>t_blob_moderation := mods\<rparr>;
          version = moderation_version c db1;
          works = map (\<lambda>r. if bw_cid r = Some c \<and> bw_state r = state_str RestorePending
                           then r\<lparr>bw_state := state_str Superseded, bw_updated_at := now\<rparr> else r) (t_blob_work db1)
      in (version, db1\<lparr>t_blob_work := works\<rparr>))"

definition clear_takedown_at_version_in :: "cid \<Rightarrow> int \<Rightarrow> actor_db \<Rightarrow> bool \<times> actor_db" where
  "clear_takedown_at_version_in c version db =
     (let hit = (\<lambda>r. br_cid r = c \<and> map_of (t_blob_moderation db) c = Some version);
          changed = length (filter hit (t_blob db))
      in (changed = 1, db\<lparr>t_blob := map (\<lambda>r. if hit r then r\<lparr>br_takedown_ref := None\<rparr> else r) (t_blob db)\<rparr>))"

section \<open>References\<close>

definition written_blobs :: "prepared_write list \<Rightarrow> (prepared_blob_ref \<times> string) list" where
  "written_blobs writes =
     concat (map (\<lambda>w. case w of
         PCreate w \<Rightarrow> map (\<lambda>b. (b, pc_uri w)) (pc_blobs w)
       | PUpdate w \<Rightarrow> map (\<lambda>b. (b, pc_uri w)) (pc_blobs w)
       | PDelete _ \<Rightarrow> []) writes)"

definition dereferencing_uris :: "prepared_write list \<Rightarrow> string list" where
  "dereferencing_uris writes =
     List.map_filter (\<lambda>w. case w of PDelete w \<Rightarrow> Some (pd_uri w) | PUpdate w \<Rightarrow> Some (pc_uri w) | PCreate _ \<Rightarrow> None) writes"

definition dereference_blobs_in :: "prepared_write list \<Rightarrow> bool \<Rightarrow> string \<Rightarrow> actor_db \<Rightarrow> cid list \<times> actor_db" where
  "dereference_blobs_in writes coexistence now db =
     (let uris = dereferencing_uris writes in
      if uris = [] then ([], db)
      else
        let deleted = map fst (filter (\<lambda>(c, u). u \<in> set uris) (t_record_blob db));
            db1 = db\<lparr>t_record_blob := filter (\<lambda>(c, u). u \<notin> set uris) (t_record_blob db)\<rparr> in
        if deleted = [] then ([], db1)
        else
          let still_referenced = map fst (filter (\<lambda>(c, u). c \<in> set deleted) (t_record_blob db1));
              newly_written = map (\<lambda>(b, _). pb_cid b) (written_blobs writes);
              cids_to_delete = filter (\<lambda>c. c \<notin> set still_referenced \<and> c \<notin> set newly_written) deleted in
          if cids_to_delete = [] then ([], db1)
          else
            let db2 = db1\<lparr>t_blob := filter (\<lambda>r. br_cid r \<notin> set cids_to_delete) (t_blob db1)\<rparr>;
                state = (if coexistence then GcDeferred else DeletePending)
            in (cids_to_delete, fold (\<lambda>c. insert_blob_work_in Permanent c (Some c) state None now) cids_to_delete db2))"

record promoted_blob =
  pm_cid :: cid
  pm_temp_key :: string

definition record_promotion_in :: "promoted_blob \<Rightarrow> bool \<Rightarrow> string \<Rightarrow> actor_db \<Rightarrow> actor_db" where
  "record_promotion_in b coexistence now db =
     (let db1 = db\<lparr>t_blob := map (\<lambda>r. if br_cid r = pm_cid b \<and> br_temp_key r = Some (pm_temp_key b)
                                     then r\<lparr>br_temp_key := None\<rparr> else r) (t_blob db)\<rparr>
      in if coexistence then insert_blob_work_in Temp (pm_temp_key b) (Some (pm_cid b)) GcDeferred None now db1 else db1)"

definition associate_blob_in :: "cid \<Rightarrow> string \<Rightarrow> actor_db \<Rightarrow> actor_db" where
  "associate_blob_in c uri db =
     (if (c, uri) \<in> set (t_record_blob db) then db else db\<lparr>t_record_blob := t_record_blob db @ [(c, uri)]\<rparr>)"

definition apply_write_blobs_in :: "prepared_write list \<Rightarrow> promoted_blob list \<Rightarrow> bool \<Rightarrow> string \<Rightarrow> actor_db \<Rightarrow> actor_db" where
  "apply_write_blobs_in writes promoted coexistence now db =
     (let db1 = snd (dereference_blobs_in writes coexistence now db);
          db2 = fold (\<lambda>b. record_promotion_in b coexistence now) promoted db1
      in fold (\<lambda>(b, uri). associate_blob_in (pb_cid b) uri) (written_blobs writes) db2)"

section \<open>Reads\<close>

definition find_blob :: "cid \<Rightarrow> actor_db \<Rightarrow> blob_row option" where
  "find_blob c db = find (\<lambda>r. br_cid r = c) (t_blob db)"

definition get_blob_metadata :: "cid \<Rightarrow> actor_db \<Rightarrow> repo_error + int \<times> string" where
  "get_blob_metadata c db =
     (case find (\<lambda>r. br_cid r = c \<and> br_takedown_ref r = None \<and> br_temp_key r = None) (t_blob db) of
        None \<Rightarrow> Inl (BlobNotFound c)
      | Some r \<Rightarrow> Inr (br_size r, br_mime_type r))"

definition get_records_for_blob :: "cid \<Rightarrow> actor_db \<Rightarrow> string list" where
  "get_records_for_blob c db = map snd (filter (\<lambda>(d, _). d = c) (t_record_blob db))"


definition record_blob_count :: "actor_db \<Rightarrow> int" where
  "record_blob_count db = int (length (remdups (map fst (t_record_blob db))))"

definition blob_count :: "actor_db \<Rightarrow> int" where
  "blob_count db = int (length (t_blob db))"

definition after_cursor :: "string option \<Rightarrow> cid \<Rightarrow> bool" where
  "after_cursor cursor c \<longleftrightarrow> (case cursor of None \<Rightarrow> True | Some k \<Rightarrow> c > k)"

text \<open>Of the records that name a missing blob, the group shows one; here the first.\<close>

definition list_missing_blobs :: "string option \<Rightarrow> nat \<Rightarrow> actor_db \<Rightarrow> repo_error + (cid \<times> string) list" where
  "list_missing_blobs cursor limit db =
     (if limit > 1000 then Inl LimitTooHigh
      else
        let rows = filter (\<lambda>(c, _). (\<forall>r\<in>set (t_blob db). br_cid r \<noteq> c) \<and> after_cursor cursor c) (t_record_blob db);
            cids = sort (remdups (map fst rows))
        in Inr (map (\<lambda>c. (c, the (map_of rows c))) (take limit cids)))"

definition list_blobs :: "string option \<Rightarrow> string option \<Rightarrow> nat \<Rightarrow> actor_db \<Rightarrow> cid list" where
  "list_blobs since cursor limit db =
     (let rows = filter (\<lambda>(c, u). after_cursor cursor c \<and>
                   (case since of None \<Rightarrow> True | Some s \<Rightarrow> \<exists>r\<in>set (t_record db). rr_uri r = u \<and> rr_repo_rev r > s)) (t_record_blob db)
      in take limit (sort (remdups (map fst rows))))"

definition get_blob_takedown_status :: "cid \<Rightarrow> actor_db \<Rightarrow> status_attr option" where
  "get_blob_takedown_status c db = map_option (\<lambda>r. takedown_status (br_takedown_ref r)) (find_blob c db)"

definition verify_blob :: "prepared_blob_ref \<Rightarrow> blob_row \<Rightarrow> repo_error + unit" where
  "verify_blob b found =
     (if pb_mime_type b \<noteq> br_mime_type found then Inl (BlobMimeMismatch (br_mime_type found) (pb_mime_type b)) else Inr ())"

definition strip_suffix :: "string \<Rightarrow> string \<Rightarrow> string option" where
  "strip_suffix suf s = (if length suf \<le> length s \<and> drop (length s - length suf) s = suf then Some (take (length s - length suf) s) else None)"

definition accepted_mime :: "string \<Rightarrow> string list \<Rightarrow> bool" where
  "accepted_mime mime accepted \<longleftrightarrow>
     (if ''*/*'' \<in> set accepted then True
      else if \<exists>glob\<in>set (List.map_filter (strip_suffix ''/*'') accepted). starts_with mime (glob @ ''/'') then True
      else mime \<in> set accepted)"

section \<open>Objects\<close>

record 'o blob_store =
  bs_make_permanent :: "string \<Rightarrow> cid \<Rightarrow> 'o \<Rightarrow> repo_error + 'o"
  bs_make_permanent_copy_only :: "string \<Rightarrow> cid \<Rightarrow> 'o \<Rightarrow> repo_error + 'o"
  bs_quarantine :: "cid \<Rightarrow> 'o \<Rightarrow> repo_error + 'o"
  bs_unquarantine :: "cid \<Rightarrow> 'o \<Rightarrow> repo_error + 'o"
  bs_has_stored :: "cid \<Rightarrow> 'o \<Rightarrow> repo_error + bool"
  bs_has_quarantined :: "cid \<Rightarrow> 'o \<Rightarrow> repo_error + bool"
  bs_restore_copy_only :: "cid \<Rightarrow> 'o \<Rightarrow> repo_error + 'o"
  bs_delete_many :: "cid list \<Rightarrow> 'o \<Rightarrow> repo_error + 'o"

definition promote :: "'o blob_store \<Rightarrow> bool \<Rightarrow> string \<Rightarrow> cid \<Rightarrow> 'o \<Rightarrow> repo_error + 'o" where
  "promote S coexistence temp_key c objs =
     (if coexistence then bs_make_permanent_copy_only S temp_key c objs else bs_make_permanent S temp_key c objs)"

text \<open>A promotion that succeeded stays done when a later one fails.\<close>

fun promote_loop ::
    "'o blob_store \<Rightarrow> bool \<Rightarrow> bool \<Rightarrow> actor_db \<Rightarrow> (prepared_blob_ref \<times> string) list \<Rightarrow> promoted_blob list \<Rightarrow> 'o \<Rightarrow>
     (repo_error + promoted_blob list) \<times> 'o" where
  "promote_loop S coexistence tolerate_missing db [] promoted objs = (Inr promoted, objs)"
| "promote_loop S coexistence tolerate_missing db ((b, u) # bs) promoted objs =
     (case find (\<lambda>r. br_cid r = pb_cid b \<and> br_takedown_ref r = None) (t_blob db) of
        None \<Rightarrow>
          if tolerate_missing then promote_loop S coexistence tolerate_missing db bs promoted objs
          else (Inl (BlobNotFound (pb_cid b)), objs)
      | Some found \<Rightarrow>
          (case verify_blob b found of
             Inl e \<Rightarrow> (Inl e, objs)
           | Inr _ \<Rightarrow>
               (case br_temp_key found of
                  None \<Rightarrow> promote_loop S coexistence tolerate_missing db bs promoted objs
                | Some temp_key \<Rightarrow>
                    (case promote S coexistence temp_key (pb_cid b) objs of
                       Inl e \<Rightarrow> (Inl e, objs)
                     | Inr objs' \<Rightarrow>
                         promote_loop S coexistence tolerate_missing db bs
                           (promoted @ [\<lparr>pm_cid = pb_cid b, pm_temp_key = temp_key\<rparr>]) objs'))))"

definition promote_write_blobs ::
    "'o blob_store \<Rightarrow> bool \<Rightarrow> prepared_write list \<Rightarrow> bool \<Rightarrow> actor_db \<Rightarrow> 'o \<Rightarrow> (repo_error + promoted_blob list) \<times> 'o" where
  "promote_write_blobs S coexistence writes tolerate_missing db objs =
     promote_loop S coexistence tolerate_missing db (written_blobs writes) [] objs"

definition process_write_blobs ::
    "'o blob_store \<Rightarrow> bool \<Rightarrow> prepared_write list \<Rightarrow> string \<Rightarrow> actor_db \<times> 'o \<Rightarrow> (repo_error + unit) \<times> actor_db \<times> 'o" where
  "process_write_blobs S coexistence writes now s =
     (case s of (db, objs) \<Rightarrow>
        (case promote_write_blobs S coexistence writes False db objs of
           (Inl e, objs') \<Rightarrow> (Inl e, db, objs')
         | (Inr promoted, objs') \<Rightarrow> (Inr (), apply_write_blobs_in writes promoted coexistence now db, objs')))"

datatype restore_step = Copied | Confirmed

definition finish_restore_in :: "int \<Rightarrow> string \<Rightarrow> int \<Rightarrow> string \<Rightarrow> actor_db \<Rightarrow> actor_db" where
  "finish_restore_in i key version now db =
     (let (cleared, db1) = clear_takedown_at_version_in key version db;
          state = (if cleared then Done else Superseded);
          db2 = set_blob_work_state_in i state now db1
      in if state = Done then insert_blob_work_in Quarantine key (Some key) GcDeferred None now db2 else db2)"

definition run_restore ::
    "'o blob_store \<Rightarrow> blob_work \<Rightarrow> restore_step option \<Rightarrow> string \<Rightarrow> actor_db \<times> 'o \<Rightarrow> (repo_error + unit) \<times> actor_db \<times> 'o" where
  "run_restore S work stop_after now s =
     (case s of (db, objs) \<Rightarrow>
        let c = wk_key work in
        (case wk_version work of
           None \<Rightarrow> (Inl (NoRestoreVersion (wk_id work)), db, objs)
         | Some version \<Rightarrow>
             (case bs_restore_copy_only S c objs of
                Inl e \<Rightarrow> (Inl e, db, objs)
              | Inr objs1 \<Rightarrow>
                  if stop_after = Some Copied then (Inr (), db, objs1)
                  else
                    (case bs_has_stored S c objs1 of
                       Inl e \<Rightarrow> (Inl e, db, objs1)
                     | Inr False \<Rightarrow> (Inl (NotReadableYet c), db, objs1)
                     | Inr True \<Rightarrow>
                         if stop_after = Some Confirmed then (Inr (), db, objs1)
                         else (Inr (), finish_restore_in (wk_id work) c version now db, objs1)))))"

definition update_blob_takedown_status ::
    "'o blob_store \<Rightarrow> bool \<Rightarrow> cid \<Rightarrow> status_attr \<Rightarrow> string \<Rightarrow> actor_db \<times> 'o \<Rightarrow> (repo_error + unit) \<times> actor_db \<times> 'o" where
  "update_blob_takedown_status S coexistence c takedown now s =
     (case s of (db, objs) \<Rightarrow>
        let takedown_ref = (if sa_applied takedown then (case sa_ref takedown of Some r \<Rightarrow> Some r | None \<Rightarrow> Some now) else None);
            restore_needed =
              (if coexistence \<and> \<not> sa_applied takedown
               then res_bind (bs_has_stored S c objs) (\<lambda>stored. if stored then Inr False else bs_has_quarantined S c objs)
               else Inr False)
        in case restore_needed of
             Inl e \<Rightarrow> (Inl e, db, objs)
           | Inr needed \<Rightarrow>
               let flag_now = (sa_applied takedown \<or> \<not> needed);
                   (version, db1) = bump_moderation_version_in c now db;
                   db2 = (if flag_now
                          then db1\<lparr>t_blob := map (\<lambda>r. if br_cid r = c then r\<lparr>br_takedown_ref := takedown_ref\<rparr> else r) (t_blob db1)\<rparr>
                          else insert_blob_work_in Permanent c (Some c) RestorePending (Some version) now db1);
                   objs' = (if coexistence then objs
                            else (case (if sa_applied takedown then bs_quarantine S c objs else bs_unquarantine S c objs) of
                                    Inr o1 \<Rightarrow> o1 | Inl _ \<Rightarrow> objs))
               in (Inr (), db2, objs'))"

fun run_restores :: "'o blob_store \<Rightarrow> string \<Rightarrow> blob_work list \<Rightarrow> actor_db \<times> 'o \<Rightarrow> (repo_error + unit) \<times> actor_db \<times> 'o" where
  "run_restores S now [] s = (Inr (), s)"
| "run_restores S now (w # ws) s =
     (case run_restore S w None now s of
        (Inl e, s') \<Rightarrow> (Inl e, s')
      | (Inr _, s') \<Rightarrow> run_restores S now ws s')"

definition run_blob_work :: "'o blob_store \<Rightarrow> string \<Rightarrow> actor_db \<times> 'o \<Rightarrow> (repo_error + unit) \<times> actor_db \<times> 'o" where
  "run_blob_work S now s =
     (case blob_work_rows (fst s) of
        Inl e \<Rightarrow> (Inl e, s)
      | Inr all_work \<Rightarrow>
          (case run_restores S now (filter (\<lambda>w. wk_state w = RestorePending) all_work) s of
             (Inl e, s') \<Rightarrow> (Inl e, s')
           | (Inr _, (db, objs)) \<Rightarrow>
               let pending = filter (\<lambda>w. wk_state w = DeletePending) all_work in
               if pending = [] then (Inr (), db, objs)
               else
                 let cids = map wk_key (filter (\<lambda>w. wk_kind w = Permanent) pending);
                     ids = map wk_id pending in
                 (case (if cids = [] then Inr objs else bs_delete_many S cids objs) of
                    Inl e \<Rightarrow> (Inl e, db, objs)
                  | Inr objs' \<Rightarrow>
                      (Inr (), db\<lparr>t_blob_work := map (\<lambda>r. if bw_id r \<in> set ids then r\<lparr>bw_state := state_str Done, bw_updated_at := now\<rparr> else r) (t_blob_work db)\<rparr>, objs'))))"

section \<open>Facts\<close>

lemma insert_blob_work_frame [simp]:
  "t_blob (insert_blob_work_in k key c st v now db) = t_blob db"
  "t_record_blob (insert_blob_work_in k key c st v now db) = t_record_blob db"
  "t_blob_moderation (insert_blob_work_in k key c st v now db) = t_blob_moderation db"
  "t_record (insert_blob_work_in k key c st v now db) = t_record db"
  by (simp_all add: insert_blob_work_in_def)


lemma journal_all_rows:
  "set (map bw_key (t_blob_work (fold (\<lambda>c. insert_blob_work_in k c (Some c) st v now) cs db))) =
   set (map bw_key (t_blob_work db)) \<union> set cs"
  by (induction cs arbitrary: db) (auto simp: insert_blob_work_in_def)











lemma bumped_version:
  "bump_moderation_version_in c now db = (v, db1) \<Longrightarrow>
   v = moderation_version c db + 1 \<and> map_of (t_blob_moderation db1) c = Some v \<and> t_blob db1 = t_blob db"
proof -
  assume b: "bump_moderation_version_in c now db = (v, db1)"
  have "map_of (map (\<lambda>(d, v). if d = c then (d, v + 1) else (d, v)) ms) c = map_option (\<lambda>v. v + 1) (map_of ms c)" for ms :: "(cid \<times> int) list"
    by (induction ms) auto
  then show ?thesis
    using b by (cases "map_of (t_blob_moderation db) c") (auto simp: bump_moderation_version_in_def Let_def moderation_version_def map_add_def)
qed

section \<open>Properties\<close>

text \<open>The states of the journal read back as they were written, and anything else is refused.\<close>

theorem blob_work_state_round_trip:
  "parse_state (state_str st) = Inr st \<and> (parse_state v = Inr st \<longrightarrow> v = state_str st) \<and>
   parse_kind (kind_str k) = Inr k \<and> (parse_kind v = Inr k \<longrightarrow> v = kind_str k)"
proof -
  have "parse_state (state_str st) = Inr st" by (cases st) (simp_all add: parse_state_def all_states_def)
  moreover have "v = state_str st" if "parse_state v = Inr st"
    using that by (auto simp: parse_state_def of_option_def find_Some_iff split: option.splits)
  moreover have "parse_kind (kind_str k) = Inr k" by (cases k) (simp_all add: parse_kind_def)
  moreover have "v = kind_str k" if "parse_kind v = Inr k" using that by (auto simp: parse_kind_def split: if_splits)
  ultimately show ?thesis by blast
qed


definition demo_blob_db :: actor_db where
  "demo_blob_db = demo_db\<lparr>t_blob := [\<lparr>br_cid = ''b'', br_mime_type = ''m'', br_size = 1, br_temp_key = None, br_width = None,
     br_height = None, br_created_at = ''t'', br_takedown_ref = Some ''x''\<rparr>], t_record_blob := [(''b'', ''u'')]\<rparr>"


text \<open>C33. A restoration cannot undo a newer decision: once a takedown or its reversal has been decided,
  a restoration that was journaled under an earlier moderation version, run to any step, leaves every
  registration as the decision left it, and its row ends superseded instead of done.\<close>

theorem restore_respects_newer_decision:
  assumes "update_blob_takedown_status S co c takedown now (db, objs) = (Inr (), db1, objs1)"
    and "wk_key w = c" "wk_version w = Some v" "v \<le> moderation_version c db"
    and "run_restore S w stop now' (db1, objs1) = (res, db2, objs2)"
  shows "t_blob db2 = t_blob db1 \<and> (db2 = db1 \<or> db2 = set_blob_work_state_in (wk_id w) Superseded now' db1)"
proof -
  obtain v' db0 where b: "bump_moderation_version_in c now db = (v', db0)" by fastforce
  note bv = bumped_version[OF b]
  have "t_blob_moderation db1 = t_blob_moderation db0"
    using assms(1) b by (auto simp: update_blob_takedown_status_def Let_def split: sum.splits if_splits)
  then have ne: "map_of (t_blob_moderation db1) c \<noteq> Some v" using bv assms(4) by auto
  then have "clear_takedown_at_version_in c v db1 = (False, db1)" by (simp add: clear_takedown_at_version_in_def)
  then have f: "finish_restore_in (wk_id w) c v now' db1 = set_blob_work_state_in (wk_id w) Superseded now' db1"
    by (simp add: finish_restore_in_def)
  have "db2 = db1 \<or> db2 = set_blob_work_state_in (wk_id w) Superseded now' db1"
    using assms(2,3,5) f by (auto simp: run_restore_def Let_def split: sum.splits if_splits bool.splits)
  then show ?thesis by (auto simp: set_blob_work_state_in_def)
qed

definition demo_objects :: "unit blob_store" where
  "demo_objects =
     \<lparr>bs_make_permanent = (\<lambda>_ _ o1. Inr o1), bs_make_permanent_copy_only = (\<lambda>_ _ o1. Inr o1), bs_quarantine = (\<lambda>_ o1. Inr o1),
      bs_unquarantine = (\<lambda>_ o1. Inr o1), bs_has_stored = (\<lambda>_ _. Inr True), bs_has_quarantined = (\<lambda>_ _. Inr True),
      bs_restore_copy_only = (\<lambda>_ o1. Inr o1), bs_delete_many = (\<lambda>_ o1. Inr o1)\<rparr>"

theorem restore_respects_newer_decision_witness:
  "\<exists>db1 db2. update_blob_takedown_status demo_objects True ''b'' \<lparr>sa_applied = True, sa_ref = Some ''y''\<rparr> ''t'' (demo_blob_db, ()) = (Inr (), db1, ()) \<and>
     run_restore demo_objects \<lparr>wk_id = 1, wk_kind = Permanent, wk_key = ''b'', wk_cid = Some ''b'', wk_state = RestorePending, wk_version = Some 0, wk_created_at = ''t''\<rparr>
       None ''t'' (db1, ()) = (Inr (), db2, ()) \<and> map br_takedown_ref (t_blob db2) = [Some ''y'']"
proof -
  obtain db1 where db1: "update_blob_takedown_status demo_objects True ''b'' \<lparr>sa_applied = True, sa_ref = Some ''y''\<rparr> ''t'' (demo_blob_db, ()) = (Inr (), db1, ())"
    "map br_takedown_ref (t_blob db1) = [Some ''y'']"
    by (simp add: update_blob_takedown_status_def bump_moderation_version_in_def Let_def demo_blob_db_def demo_db_def moderation_version_def)
  obtain db2 where db2: "run_restore demo_objects \<lparr>wk_id = 1, wk_kind = Permanent, wk_key = ''b'', wk_cid = Some ''b'', wk_state = RestorePending, wk_version = Some 0, wk_created_at = ''t''\<rparr>
       None ''t'' (db1, ()) = (Inr (), db2, ())"
    by (simp add: run_restore_def demo_objects_def)
  have "t_blob db2 = t_blob db1"
    using restore_respects_newer_decision[OF db1(1) _ _ _ db2] by (simp add: moderation_version_def demo_blob_db_def demo_db_def)
  with db1 db2 show ?thesis by auto
qed

end
