(* ===== verification/Car.thy ===== *)
theory Car
  imports Sql_Repo Repo_Properties
begin

text \<open>
  \<open>rsky-repo/src/car.rs\<close>: block maps as CAR files. The format itself is the crate \<open>iroh_car\<close>, here the
  record \<open>car_ext\<close>: \<open>car_encode\<close> is what a \<open>CarWriter\<close> with these roots has written after these blocks and
  \<open>finish\<close>, \<open>car_open\<close> the roots \<open>CarReader::new\<close> finds and the items its stream then yields, and
  \<open>car_cut\<close> how a pipe of eight kilobytes cuts bytes into reads.
\<close>

record car_ext =
  car_encode :: "cid list \<Rightarrow> (cid \<times> bytes) list \<Rightarrow> repo_error + bytes"
  car_open :: "bytes \<Rightarrow> repo_error + cid list \<times> (repo_error + cid \<times> bytes) list"
  car_cut :: "bytes \<Rightarrow> bytes list"

record car_with_root =
  cw_root :: cid
  cw_blocks :: block_map

record car_to_blocks_output =
  cb_roots :: "cid list"
  cb_blocks :: block_map

section \<open>Writing\<close>

text \<open>
  The closure that writes blocks is given by the blocks it wrote and the error it ended with, if any. The
  reader may see that error before it has read all the bytes; here it comes after them.
\<close>

definition write_car_stream :: "car_ext \<Rightarrow> cid option \<Rightarrow> (cid \<times> bytes) list \<Rightarrow> repo_error option \<Rightarrow> (repo_error + bytes) list" where
  "write_car_stream C root sent failed =
     (let roots = (case root of None \<Rightarrow> [] | Some r \<Rightarrow> [r])
      in case car_encode C roots sent of
           Inl e \<Rightarrow> [Inl e]
         | Inr b \<Rightarrow> map Inr (car_cut C b) @ (case failed of None \<Rightarrow> [] | Some e \<Rightarrow> [Inl e]))"

definition blocks_to_car_stream :: "car_ext \<Rightarrow> cid option \<Rightarrow> block_map \<Rightarrow> (repo_error + bytes) list" where
  "blocks_to_car_stream C root blks = write_car_stream C root (bm_entries blks) None"

definition blocks_to_car_file :: "car_ext \<Rightarrow> cid option \<Rightarrow> block_map \<Rightarrow> repo_error + bytes" where
  "blocks_to_car_file C root blks = stream_to_buffer (blocks_to_car_stream C root blks)"

section \<open>Reading\<close>

text \<open>\<open>while let Some(Ok(\<dots>))\<close> leaves the loop at the end and at the first error alike.\<close>

fun car_blocks_loop :: "(repo_error + cid \<times> bytes) list \<Rightarrow> block_map \<Rightarrow> block_map" where
  "car_blocks_loop [] blks = blks"
| "car_blocks_loop (Inl e # items) blks = blks"
| "car_blocks_loop (Inr (c, b) # items) blks = car_blocks_loop items (bm_set c b blks)"

definition car_to_blocks :: "cid list \<Rightarrow> (repo_error + cid \<times> bytes) list \<Rightarrow> car_to_blocks_output" where
  "car_to_blocks roots items = \<lparr>cb_roots = roots, cb_blocks = car_blocks_loop items bm_new\<rparr>"

definition read_stream_car :: "car_ext \<Rightarrow> bytes \<Rightarrow> repo_error + car_to_blocks_output" where
  "read_stream_car C b = res_bind (car_open C b) (\<lambda>(roots, items). Inr (car_to_blocks roots items))"

definition read_car :: "car_ext \<Rightarrow> bytes \<Rightarrow> repo_error + car_to_blocks_output" where
  "read_car C b = read_stream_car C b"

definition read_stream_car_with_root :: "car_ext \<Rightarrow> bytes \<Rightarrow> repo_error + car_with_root" where
  "read_stream_car_with_root C b =
     res_bind (read_stream_car C b) (\<lambda>out.
       if length (cb_roots out) \<noteq> 1 then Inl (RootCount (length (cb_roots out)))
       else Inr \<lparr>cw_root = cb_roots out ! 0, cw_blocks = cb_blocks out\<rparr>)"

definition read_car_with_root :: "car_ext \<Rightarrow> bytes \<Rightarrow> repo_error + car_with_root" where
  "read_car_with_root C b = read_stream_car_with_root C b"

section \<open>What is read is what was written\<close>

text \<open>The format: a file with a root is written without error and read back item by item.\<close>

definition car_ok :: "car_ext \<Rightarrow> bool" where
  "car_ok C \<longleftrightarrow> (\<forall>r blks. \<exists>b. car_encode C [r] blks = Inr b \<and> car_open C b = Inr ([r], map Inr blks)) \<and>
     (\<forall>b. concat (car_cut C b) = b)"

lemma stream_to_buffer_chunks: "stream_to_buffer_loop (map Inr cs) acc = Inr (acc @ concat cs)"
  by (induction cs arbitrary: acc) simp_all

lemma stream_to_buffer_failed: "stream_to_buffer_loop (map Inr cs @ [Inl e]) acc = Inl e"
  by (induction cs arbitrary: acc) simp_all

lemma car_loop_items: "car_blocks_loop (map Inr bs @ items) blks = car_blocks_loop items (bm_add_map blks bs)"
  by (induction bs arbitrary: blks) (auto simp: bm_add_map_def split: prod.splits)

lemma bm_add_map_new:
  assumes "bm_inv m"
  shows "bm_add_map bm_new m = m"
proof (rule ksorted_map_of_eq)
  show "ksorted (bm_add_map bm_new m)" "ksorted m" using assms bm_inv_add_map[OF bm_inv_new, of m] by (simp_all add: bm_inv_def)
  have "bm_get c (bm_add_map bm_new m) = bm_get c m" for c
    using bm_get_add_map[OF bm_inv_new assms, of c] by (simp split: option.splits)
  then show "map_of (bm_add_map bm_new m) = map_of m" by (auto simp: bm_get_def fun_eq_iff)
qed

lemma read_written:
  assumes "car_ok C"
  obtains b where "stream_to_buffer (write_car_stream C (Some r) blks None) = Inr b"
    "read_car_with_root C b = Inr \<lparr>cw_root = r, cw_blocks = bm_add_map bm_new blks\<rparr>"
proof -
  obtain b where b: "car_encode C [r] blks = Inr b" "car_open C b = Inr ([r], map Inr blks)" "concat (car_cut C b) = b"
    using assms unfolding car_ok_def by blast
  have "stream_to_buffer (write_car_stream C (Some r) blks None) = Inr b"
    by (simp add: stream_to_buffer_def write_car_stream_def b stream_to_buffer_chunks)
  moreover have "read_car_with_root C b = Inr \<lparr>cw_root = r, cw_blocks = bm_add_map bm_new blks\<rparr>"
    using car_loop_items[of blks "[]" bm_new]
    by (simp add: read_car_with_root_def read_stream_car_with_root_def read_stream_car_def car_to_blocks_def b)
  ultimately show ?thesis by (rule that)
qed

lemma bm_get_add_list:
  assumes "distinct (map fst bs)"
  shows "bm_get c (bm_add_map bm_new bs) = map_of bs c"
proof -
  have "map_of (rev bs) = map_of bs"
    using assms distinct_rev[of "map fst bs"] by (simp add: rev_map map_of_inject_set)
  then show ?thesis
    using block_map_store.get_put_all[OF bm_inv_new, of c bs] by (simp add: bm_add_map_def split: option.splits)
qed

section \<open>An instance of the format\<close>

fun enc_blocks :: "(cid \<times> bytes) list \<Rightarrow> string" where
  "enc_blocks [] = ''z''"
| "enc_blocks ((c, b) # bs) = CHR ''e'' # enc_str c @ enc_str (map enc_byte b) @ enc_blocks bs"

fun dec_blocks :: "nat \<Rightarrow> string \<Rightarrow> (repo_error + cid \<times> bytes) list" where
  "dec_blocks 0 r = [Inl DecodeError]"
| "dec_blocks (Suc n) r =
     (case r of
        [] \<Rightarrow> [Inl DecodeError]
      | t # q \<Rightarrow>
          if t = CHR ''z'' then []
          else (case Option.bind (dec_str q) (\<lambda>(c, q1). Option.bind (dec_str q1) (\<lambda>(b, q2). Some (c, b, q2))) of
                  None \<Rightarrow> [Inl DecodeError]
                | Some (c, b, q2) \<Rightarrow> Inr (c, map of_char b) # dec_blocks n q2))"

definition demo_car :: car_ext where
  "demo_car =
     \<lparr>car_encode = (\<lambda>roots blks. Inr (map of_char (enc_str (concat (map enc_str roots)) @ enc_blocks blks))),
      car_open = (\<lambda>b. case dec_str (map enc_byte b) of
          None \<Rightarrow> Inl DecodeError
        | Some (rs, r) \<Rightarrow> (case dec_str rs of None \<Rightarrow> Inr ([], dec_blocks (length r) r) | Some (x, _) \<Rightarrow> Inr ([x], dec_blocks (length r) r))),
      car_cut = (\<lambda>b. [b])\<rparr>"

lemma dec_enc_blocks: "n \<ge> length (enc_blocks bs) \<Longrightarrow> dec_blocks n (enc_blocks bs) = map Inr bs"
proof (induction bs arbitrary: n)
  case Nil
  then show ?case by (cases n) simp_all
next
  case (Cons x bs)
  obtain c b where x: "x = (c, b)" by (cases x)
  obtain m where m: "n = Suc m" "length (enc_blocks bs) \<le> m" using Cons.prems x by (cases n) simp_all
  then show ?case using Cons.IH[OF m(2)] by (simp add: x dec_enc_str comp_def of_char_enc_byte)
qed

lemma demo_car_open:
  "car_open demo_car (map of_char s) =
     (case dec_str s of
        None \<Rightarrow> Inl DecodeError
      | Some (rs, r) \<Rightarrow> (case dec_str rs of None \<Rightarrow> Inr ([], dec_blocks (length r) r) | Some (x, _) \<Rightarrow> Inr ([x], dec_blocks (length r) r)))"
  by (simp add: demo_car_def comp_def enc_byte_of_char)

lemma demo_car_ok: "car_ok demo_car"
proof -
  have "car_open demo_car (map of_char (enc_str (enc_str r) @ enc_blocks blks)) = Inr ([r], map Inr blks)" for r blks
    using dec_enc_str[of r "[]"] by (simp add: demo_car_open dec_enc_str dec_enc_blocks del: map_append)
  then show ?thesis by (simp add: car_ok_def) (simp add: demo_car_def)
qed

section \<open>Properties\<close>

text \<open>A block map written as a CAR file is read back as it was: the file has the one root it was
  written with and its blocks are exactly those of the map, whatever the reads the pipe makes.\<close>

theorem car_round_trip:
  assumes "car_ok C" "bm_inv blks"
  shows "\<exists>b. blocks_to_car_file C (Some r) blks = Inr b \<and> read_car_with_root C b = Inr \<lparr>cw_root = r, cw_blocks = blks\<rparr>"
  using read_written[OF assms(1), of r blks] bm_add_map_new[OF assms(2)]
  by (auto simp: blocks_to_car_file_def blocks_to_car_stream_def bm_entries_def)

theorem car_round_trip_witness:
  "\<exists>b. blocks_to_car_file demo_car (Some ''r'') [(''a'', [1]), (''b'', [2, 3])] = Inr b \<and>
     read_car_with_root demo_car b = Inr \<lparr>cw_root = ''r'', cw_blocks = [(''a'', [1]), (''b'', [2, 3])]\<rparr>"
  using car_round_trip[OF demo_car_ok, of "[(''a'', [1]), (''b'', [2, 3])]" "''r''"]
  by (simp add: bm_inv_def ksorted_def less_char_def)

text \<open>A damaged CAR file is not reported: when the stream of blocks fails at some item, the blocks
  before it are returned as a success and everything from the failure on is left out.\<close>

theorem car_errors_are_swallowed:
  assumes "car_open C b = Inr ([r], map Inr got @ Inl e # rest)"
  shows "read_car_with_root C b = Inr \<lparr>cw_root = r, cw_blocks = bm_add_map bm_new got\<rparr>"
  using car_loop_items[of got "Inl e # rest" bm_new]
  by (simp add: read_car_with_root_def read_stream_car_with_root_def read_stream_car_def car_to_blocks_def assms)

theorem car_errors_are_swallowed_witness:
  "read_car_with_root demo_car (map of_char (enc_str (enc_str ''r'') @ CHR ''e'' # enc_str ''a'' @ enc_str [] @ ''e'')) =
     Inr \<lparr>cw_root = ''r'', cw_blocks = [(''a'', [])]\<rparr>"
proof -
  have "car_open demo_car (map of_char (enc_str (enc_str ''r'') @ CHR ''e'' # enc_str ''a'' @ enc_str [] @ ''e'')) =
      Inr ([''r''], map Inr [(''a'', [])] @ Inl DecodeError # [])"
    unfolding demo_car_open by simp
  from car_errors_are_swallowed[OF this] show ?thesis by (simp add: bm_add_map_def bm_new_def bm_set_def kinsert_def kbelow_def kabove_def)
qed

text \<open>C31. A repository that is exported in full and downloaded is the repository that was stored: reading the
  CAR file gives the root the store had and, for every CID, the bytes the store has under it.\<close>

theorem exported_repo_reads_back:
  assumes "car_ok C" "blocks_unique db" "\<forall>i. \<not> expired i" "root_is db c" "n > length (t_repo_block db)"
  shows "\<exists>blks b out. car_stream expired n None db = Inr (c, blks) \<and>
    stream_to_buffer (write_car_stream C (Some c) blks None) = Inr b \<and> read_car_with_root C b = Inr out \<and>
    cw_root out = c \<and> (\<forall>x. bm_get x (cw_blocks out) = find_block x db)"
proof -
  obtain blks where blks: "car_stream expired n None db = Inr (c, blks)" "distinct (map fst blks)" "set blks = set (block_table db)"
    using export_all[OF assms(2-5), of None] that by (auto simp: block_table_def)
  obtain b where b: "stream_to_buffer (write_car_stream C (Some c) blks None) = Inr b"
    "read_car_with_root C b = Inr \<lparr>cw_root = c, cw_blocks = bm_add_map bm_new blks\<rparr>" using read_written[OF assms(1)] by blast
  have "map_of blks = map_of (block_table db)"
    using blks(2,3) assms(2) by (auto simp: blocks_unique_table map_of_inject_set)
  then have "bm_get x (bm_add_map bm_new blks) = find_block x db" for x
    by (simp add: bm_get_add_list[OF blks(2)] find_block_map_of)
  then show ?thesis using blks(1) b by fastforce
qed

theorem exported_repo_reads_back_witness:
  "\<exists>blks b out. car_stream (\<lambda>_. False) 3 None demo_db = Inr (''a'', blks) \<and>
     stream_to_buffer (write_car_stream demo_car (Some ''a'') blks None) = Inr b \<and> read_car_with_root demo_car b = Inr out \<and>
     cw_root out = ''a'' \<and> bm_get ''b'' (cw_blocks out) = Some [2]"
proof -
  have "blocks_unique demo_db" "root_is demo_db ''a''" "3 > length (t_repo_block demo_db)"
    by (simp_all add: blocks_unique_def root_is_def demo_db_def)
  moreover have "find_block ''b'' demo_db = Some [2]" by (simp add: find_block_def demo_db_def)
  ultimately show ?thesis using exported_repo_reads_back[OF demo_car_ok, of demo_db "\<lambda>_. False" "''a''" 3] by auto
qed

end
