(* ===== verification/Seq_Events.thy ===== *)
theory Seq_Events
  imports Car
begin

text \<open>
  The events of the firehose (\<open>rsky-pds/src/sequencer/events.rs\<close>) and the rows that carry them
  (\<open>models::RepoSeq\<close>). The CBOR coding of the event structs is serde's, here the record \<open>seq_ext\<close>.
\<close>

section \<open>Commits with their operations\<close>

record commit_op =
  co_action :: commit_action
  co_path :: string
  co_cid :: "cid option"
  co_prev :: "cid option"

record commit_data_with_ops =
  cwo_data :: commit_data
  cwo_ops :: "commit_op list"
  cwo_prev_data :: "cid option"

record sync_evt_data =
  sy_cid :: cid
  sy_rev :: string
  sy_blocks :: block_map

section \<open>Events\<close>

datatype commit_evt_op_action = EvtCreate | EvtUpdate | EvtDelete

record commit_evt_op =
  eo_action :: commit_evt_op_action
  eo_path :: string
  eo_cid :: "cid option"
  eo_prev :: "cid option"

record commit_evt =
  ev_rebase :: bool
  ev_too_big :: bool
  ev_repo :: string
  ev_commit :: cid
  ev_prev :: "cid option"
  ev_rev :: string
  ev_since :: "string option"
  ev_blocks :: bytes
  ev_ops :: "commit_evt_op list"
  ev_blobs :: "cid list"
  ev_prev_data :: "cid option"

record handle_evt =
  he_did :: string
  he_handle :: string

record identity_evt =
  ie_did :: string
  ie_handle :: "string option"

datatype account_status = Active | Takendown | Suspended | Deleted | Deactivated | Desynchronized | Throttled

datatype lexicon_account_status = LTakendown | LSuspended | LDeleted | LDeactivated | LDesynchronized | LThrottled

record account_evt =
  ae_did :: string
  ae_active :: bool
  ae_status :: "lexicon_account_status option"

record sync_evt =
  se_did :: string
  se_blocks :: bytes
  se_rev :: string

datatype seq_evt =
    TypedCommitEvt (evt_seq: int) (evt_time: string) commit_evt
  | TypedIdentityEvt (evt_seq: int) (evt_time: string) identity_evt
  | TypedAccountEvt (evt_seq: int) (evt_time: string) account_evt
  | TypedSyncEvt (evt_seq: int) (evt_time: string) sync_evt

record seq_ext =
  commit_evt_enc :: "commit_evt \<Rightarrow> repo_error + bytes"
  handle_evt_enc :: "handle_evt \<Rightarrow> repo_error + bytes"
  identity_evt_enc :: "identity_evt \<Rightarrow> repo_error + bytes"
  account_evt_enc :: "account_evt \<Rightarrow> repo_error + bytes"
  sync_evt_enc :: "sync_evt \<Rightarrow> repo_error + bytes"
  commit_evt_dec :: "bytes \<Rightarrow> commit_evt option"
  identity_evt_dec :: "bytes \<Rightarrow> identity_evt option"
  account_evt_dec :: "bytes \<Rightarrow> account_evt option"
  sync_evt_dec :: "bytes \<Rightarrow> sync_evt option"

section \<open>Rows\<close>

record repo_seq =
  sq_seq :: "int option"
  sq_did :: string
  sq_event_type :: string
  sq_event :: bytes
  sq_invalidated :: "int option"
  sq_sequenced_at :: string

definition repo_seq_new :: "string \<Rightarrow> string \<Rightarrow> bytes \<Rightarrow> string \<Rightarrow> repo_seq" where
  "repo_seq_new did event_type event sequenced_at =
     \<lparr>sq_seq = None, sq_did = did, sq_event_type = event_type, sq_event = event, sq_invalidated = None, sq_sequenced_at = sequenced_at\<rparr>"

section \<open>Formatting\<close>

definition evt_op :: "commit_op \<Rightarrow> commit_evt_op" where
  "evt_op op =
     \<lparr>eo_action = (case co_action op of CCreate \<Rightarrow> EvtCreate | CUpdate \<Rightarrow> EvtUpdate | CDelete \<Rightarrow> EvtDelete),
      eo_path = co_path op, eo_cid = co_cid op, eo_prev = co_prev op\<rparr>"

definition blocks_to_send :: "commit_data \<Rightarrow> block_map" where
  "blocks_to_send cd = bm_add_map (bm_add_map bm_new (cd_new_blocks cd)) (cd_relevant_blocks cd)"

definition format_seq_commit :: "car_ext \<Rightarrow> seq_ext \<Rightarrow> string \<Rightarrow> string \<Rightarrow> commit_data_with_ops \<Rightarrow> repo_error + repo_seq" where
  "format_seq_commit C E now did cwo =
     (let cd = cwo_data cwo
      in res_bind (blocks_to_car_file C (Some (cd_cid cd)) (blocks_to_send cd)) (\<lambda>car_slice.
         let evt = \<lparr>ev_rebase = False, ev_too_big = False, ev_repo = did, ev_commit = cd_cid cd, ev_prev = None, ev_rev = cd_rev cd,
                    ev_since = cd_since cd, ev_blocks = car_slice, ev_ops = map evt_op (cwo_ops cwo), ev_blobs = [],
                    ev_prev_data = cwo_prev_data cwo\<rparr>
         in res_bind (commit_evt_enc E evt) (\<lambda>b. Inr (repo_seq_new did ''append'' b now))))"

definition format_seq_handle_update :: "seq_ext \<Rightarrow> string \<Rightarrow> string \<Rightarrow> string \<Rightarrow> repo_error + repo_seq" where
  "format_seq_handle_update E now did handle =
     res_bind (handle_evt_enc E \<lparr>he_did = did, he_handle = handle\<rparr>) (\<lambda>b. Inr (repo_seq_new did ''handle'' b now))"

definition format_seq_identity_evt :: "seq_ext \<Rightarrow> string \<Rightarrow> string \<Rightarrow> string option \<Rightarrow> repo_error + repo_seq" where
  "format_seq_identity_evt E now did handle =
     res_bind (identity_evt_enc E \<lparr>ie_did = did, ie_handle = handle\<rparr>) (\<lambda>b. Inr (repo_seq_new did ''identity'' b now))"

fun lexicon_status :: "account_status \<Rightarrow> lexicon_account_status option" where
  "lexicon_status Active = None"
| "lexicon_status Takendown = Some LTakendown"
| "lexicon_status Suspended = Some LSuspended"
| "lexicon_status Deleted = Some LDeleted"
| "lexicon_status Deactivated = Some LDeactivated"
| "lexicon_status Desynchronized = Some LDesynchronized"
| "lexicon_status Throttled = Some LThrottled"

definition format_seq_account_evt :: "seq_ext \<Rightarrow> string \<Rightarrow> string \<Rightarrow> account_status \<Rightarrow> repo_error + repo_seq" where
  "format_seq_account_evt E now did status =
     res_bind (account_evt_enc E \<lparr>ae_did = did, ae_active = (status = Active), ae_status = lexicon_status status\<rparr>) (\<lambda>b.
       Inr (repo_seq_new did ''account'' b now))"

definition format_seq_sync_evt :: "car_ext \<Rightarrow> seq_ext \<Rightarrow> string \<Rightarrow> string \<Rightarrow> sync_evt_data \<Rightarrow> repo_error + repo_seq" where
  "format_seq_sync_evt C E now did data =
     res_bind (blocks_to_car_file C (Some (sy_cid data)) (sy_blocks data)) (\<lambda>blks.
     res_bind (sync_evt_enc E \<lparr>se_did = did, se_blocks = blks, se_rev = sy_rev data\<rparr>) (\<lambda>b.
       Inr (repo_seq_new did ''sync'' b now)))"

definition sync_evt_data_from_commit :: "commit_data_with_ops \<Rightarrow> repo_error + sync_evt_data" where
  "sync_evt_data_from_commit cwo =
     (let cd = cwo_data cwo
      in case bm_get (cd_cid cd) (cd_relevant_blocks cd) of
           None \<Rightarrow> Inl (MissingCommit (cd_cid cd))
         | Some b \<Rightarrow> Inr \<lparr>sy_cid = cd_cid cd, sy_rev = cd_rev cd, sy_blocks = bm_set (cd_cid cd) b bm_new\<rparr>)"

section \<open>A commit event carries its proof\<close>

text \<open>What serde promises of the event structs: an event is encoded, and read back as it was.\<close>

definition events_ok :: "seq_ext \<Rightarrow> bool" where
  "events_ok E \<longleftrightarrow>
     (\<forall>e. \<exists>b. commit_evt_enc E e = Inr b \<and> commit_evt_dec E b = Some e) \<and>
     (\<forall>e. \<exists>b. identity_evt_enc E e = Inr b \<and> identity_evt_dec E b = Some e) \<and>
     (\<forall>e. \<exists>b. account_evt_enc E e = Inr b \<and> account_evt_dec E b = Some e) \<and>
     (\<forall>e. \<exists>b. sync_evt_enc E e = Inr b \<and> sync_evt_dec E b = Some e)"

lemma blocks_to_send_inv [simp]: "bm_inv (blocks_to_send cd)"
  by (simp add: blocks_to_send_def)

lemma bm_get_to_send:
  assumes "bm_inv (cd_relevant_blocks cd)" "bm_get c (cd_relevant_blocks cd) = Some b"
  shows "bm_get c (blocks_to_send cd) = Some b"
  using assms by (simp add: blocks_to_send_def bm_get_add_map)

end
