(* ===== verification/Sequencer.thy ===== *)
theory Sequencer
  imports Seq_Events
begin

text \<open>
  \<open>rsky-pds/src/sequencer\<close>: the table of sequenced events, the loop that polls it and broadcasts what is
  new (\<open>mod.rs\<close>), and one subscriber's view of it (\<open>outbox.rs\<close>). The table is the list of its rows in
  insertion order and the last number \<open>AUTOINCREMENT\<close> gave, which is never given again. A broadcast
  channel is the list of batches sent on it; a receiver is its position in that list.
\<close>

section \<open>The table\<close>

record seq_db =
  sd_rows :: "repo_seq list"
  sd_autoincrement :: int

definition row_seq :: "repo_seq \<Rightarrow> int" where
  "row_seq r = (case sq_seq r of Some s \<Rightarrow> s | None \<Rightarrow> 0)"

definition sequence_evt :: "repo_seq \<Rightarrow> seq_db \<Rightarrow> int \<times> seq_db" where
  "sequence_evt evt db =
     (let s = sd_autoincrement db + 1
      in (s, db\<lparr>sd_rows := sd_rows db @ [evt\<lparr>sq_seq := Some s, sq_invalidated := Some 0\<rparr>], sd_autoincrement := s\<rparr>))"

definition curr_seq :: "seq_db \<Rightarrow> int option" where
  "curr_seq db = (case rev (sort_key row_seq (sd_rows db)) of [] \<Rightarrow> None | r # _ \<Rightarrow> Some (row_seq r))"

definition next_seq :: "int \<Rightarrow> seq_db \<Rightarrow> repo_seq option" where
  "next_seq cursor db = (case sort_key row_seq (filter (\<lambda>r. row_seq r > cursor) (sd_rows db)) of [] \<Rightarrow> None | r # _ \<Rightarrow> Some r)"

definition earliest_after_time :: "string \<Rightarrow> seq_db \<Rightarrow> repo_seq option" where
  "earliest_after_time t db =
     (case sort_key sq_sequenced_at (filter (\<lambda>r. sq_sequenced_at r \<ge> t) (sd_rows db)) of [] \<Rightarrow> None | r # _ \<Rightarrow> Some r)"

definition row_valid :: "repo_seq \<Rightarrow> bool" where
  "row_valid r \<longleftrightarrow> sq_invalidated r = Some 0"

definition seq_rows :: "int option \<Rightarrow> int option \<Rightarrow> string option \<Rightarrow> int option \<Rightarrow> seq_db \<Rightarrow> repo_seq list" where
  "seq_rows earliest_seq latest_seq earliest_time limit db =
     (let rows = sort_key row_seq (filter (\<lambda>r. row_valid r \<and>
            (case earliest_seq of None \<Rightarrow> True | Some s \<Rightarrow> row_seq r > s) \<and>
            (case latest_seq of None \<Rightarrow> True | Some s \<Rightarrow> row_seq r \<le> s) \<and>
            (case earliest_time of None \<Rightarrow> True | Some t \<Rightarrow> sq_sequenced_at r \<ge> t)) (sd_rows db))
      in case limit of None \<Rightarrow> rows | Some n \<Rightarrow> if n < 0 then rows else take (nat n) rows)"

text \<open>A row of a type that is not listed is logged and left out.\<close>

definition event_of_row :: "seq_ext \<Rightarrow> repo_seq \<Rightarrow> repo_error + seq_evt option" where
  "event_of_row E r =
     (let s = row_seq r; t = sq_sequenced_at r; ty = sq_event_type r; b = sq_event r in
      if ty = ''append'' \<or> ty = ''rebase'' then
        (case commit_evt_dec E b of None \<Rightarrow> Inl DecodeError | Some e \<Rightarrow> Inr (Some (TypedCommitEvt s t e)))
      else if ty = ''sync'' then
        (case sync_evt_dec E b of None \<Rightarrow> Inl DecodeError | Some e \<Rightarrow> Inr (Some (TypedSyncEvt s t e)))
      else if ty = ''identity'' then
        (case identity_evt_dec E b of None \<Rightarrow> Inl DecodeError | Some e \<Rightarrow> Inr (Some (TypedIdentityEvt s t e)))
      else if ty = ''account'' then
        (case account_evt_dec E b of None \<Rightarrow> Inl DecodeError | Some e \<Rightarrow> Inr (Some (TypedAccountEvt s t e)))
      else Inr None)"

definition request_seq_range ::
    "seq_ext \<Rightarrow> int option \<Rightarrow> int option \<Rightarrow> string option \<Rightarrow> int option \<Rightarrow> seq_db \<Rightarrow> repo_error + seq_evt list" where
  "request_seq_range E earliest_seq latest_seq earliest_time limit db =
     res_bind (res_map (event_of_row E) (seq_rows earliest_seq latest_seq earliest_time limit db)) (\<lambda>es.
       Inr (List.map_filter id es))"

definition rows_for_did_after :: "string \<Rightarrow> int \<Rightarrow> seq_db \<Rightarrow> repo_seq list" where
  "rows_for_did_after did after_seq db = sort_key row_seq (filter (\<lambda>r. sq_did r = did \<and> row_seq r > after_seq) (sd_rows db))"

definition invalidate :: "int \<Rightarrow> seq_db \<Rightarrow> bool \<times> seq_db" where
  "invalidate s db =
     (let hit = (\<lambda>r. row_seq r = s \<and> row_valid r)
      in (length (filter hit (sd_rows db)) = 1,
          db\<lparr>sd_rows := map (\<lambda>r. if hit r then r\<lparr>sq_invalidated := Some 1\<rparr> else r) (sd_rows db)\<rparr>))"

definition delete_all_for_user :: "string \<Rightarrow> int list option \<Rightarrow> seq_db \<Rightarrow> seq_db" where
  "delete_all_for_user did excluding_seqs db =
     (let excluded = (case excluding_seqs of None \<Rightarrow> [] | Some ss \<Rightarrow> ss)
      in db\<lparr>sd_rows := filter (\<lambda>r. \<not> (sq_did r = did \<and> row_seq r \<notin> set excluded)) (sd_rows db)\<rparr>)"

section \<open>Sequencing\<close>

definition sequence_formatted :: "repo_error + repo_seq \<Rightarrow> seq_db \<Rightarrow> (repo_error + int) \<times> seq_db" where
  "sequence_formatted evt db =
     (case evt of Inl e \<Rightarrow> (Inl e, db) | Inr r \<Rightarrow> (case sequence_evt r db of (s, db') \<Rightarrow> (Inr s, db')))"

definition sequence_commit ::
    "car_ext \<Rightarrow> seq_ext \<Rightarrow> string \<Rightarrow> string \<Rightarrow> commit_data_with_ops \<Rightarrow> seq_db \<Rightarrow> (repo_error + int) \<times> seq_db" where
  "sequence_commit C E now did cwo db = sequence_formatted (format_seq_commit C E now did cwo) db"

definition sequence_handle_update :: "seq_ext \<Rightarrow> string \<Rightarrow> string \<Rightarrow> string \<Rightarrow> seq_db \<Rightarrow> (repo_error + int) \<times> seq_db" where
  "sequence_handle_update E now did handle db = sequence_formatted (format_seq_handle_update E now did handle) db"

definition sequence_identity_evt :: "seq_ext \<Rightarrow> string \<Rightarrow> string \<Rightarrow> string option \<Rightarrow> seq_db \<Rightarrow> (repo_error + int) \<times> seq_db" where
  "sequence_identity_evt E now did handle db = sequence_formatted (format_seq_identity_evt E now did handle) db"

definition sequence_account_evt :: "seq_ext \<Rightarrow> string \<Rightarrow> string \<Rightarrow> account_status \<Rightarrow> seq_db \<Rightarrow> (repo_error + int) \<times> seq_db" where
  "sequence_account_evt E now did status db = sequence_formatted (format_seq_account_evt E now did status) db"

definition sequence_sync_evt ::
    "car_ext \<Rightarrow> seq_ext \<Rightarrow> string \<Rightarrow> string \<Rightarrow> sync_evt_data \<Rightarrow> seq_db \<Rightarrow> (repo_error + int) \<times> seq_db" where
  "sequence_sync_evt C E now did data db = sequence_formatted (format_seq_sync_evt C E now did data) db"

section \<open>The poll loop\<close>

record sequencer =
  sq_db :: seq_db
  sq_last_seen :: int
  sq_destroyed :: bool
  sq_events :: "seq_evt list list"

definition start_polling :: "sequencer \<Rightarrow> sequencer" where
  "start_polling q = q\<lparr>sq_last_seen := (case curr_seq (sq_db q) of Some s \<Rightarrow> s | None \<Rightarrow> 0)\<rparr>"

text \<open>One turn of the loop; a failed request and an empty one only wait.\<close>

definition poll :: "seq_ext \<Rightarrow> sequencer \<Rightarrow> sequencer" where
  "poll E q =
     (if sq_destroyed q then q
      else (case request_seq_range E (Some (sq_last_seen q)) None None (Some 1000) (sq_db q) of
              Inl _ \<Rightarrow> q
            | Inr evts \<Rightarrow>
                if evts = [] then q
                else q\<lparr>sq_last_seen := evt_seq (last evts), sq_events := sq_events q @ [evts]\<rparr>))"

section \<open>The outbox\<close>

datatype outbox_error = ConsumerTooSlow nat | SequencerStopped | RequestFailed repo_error

datatype outbox_phase = Backfill | Live | Ended outbox_error

record outbox =
  ob_cursor :: "int option"
  ob_head :: int
  ob_receiver :: nat
  ob_phase :: outbox_phase
  ob_last_seen :: int
  ob_yielded :: "seq_evt list"

definition PAGE_SIZE :: int where
  "PAGE_SIZE = 500"

definition subscribe :: "sequencer \<Rightarrow> nat" where
  "subscribe q = length (sq_events q)"

text \<open>The receiver was taken before; the head is read now.\<close>

definition outbox_events :: "int option \<Rightarrow> nat \<Rightarrow> sequencer \<Rightarrow> outbox" where
  "outbox_events cursor live q =
     (let head = (case curr_seq (sq_db q) of Some s \<Rightarrow> s | None \<Rightarrow> 0)
      in \<lparr>ob_cursor = cursor, ob_head = head, ob_receiver = live,
          ob_phase = (if cursor = None then Live else Backfill),
          ob_last_seen = (case cursor of Some c \<Rightarrow> c | None \<Rightarrow> head), ob_yielded = []\<rparr>)"

text \<open>One turn of the backfill loop.\<close>

definition backfill_page :: "seq_ext \<Rightarrow> seq_db \<Rightarrow> outbox \<Rightarrow> outbox" where
  "backfill_page E db ob =
     (if ob_last_seen ob < ob_head ob then
        (case request_seq_range E (Some (ob_last_seen ob)) (Some (ob_head ob)) None (Some PAGE_SIZE) db of
           Inl e \<Rightarrow> ob\<lparr>ob_phase := Ended (RequestFailed e)\<rparr>
         | Inr page \<Rightarrow>
             if page = [] then ob\<lparr>ob_phase := Live\<rparr>
             else ob\<lparr>ob_last_seen := evt_seq (last page), ob_yielded := ob_yielded ob @ page\<rparr>)
      else ob\<lparr>ob_phase := Live\<rparr>)"

definition yield_event :: "seq_evt \<Rightarrow> outbox \<Rightarrow> outbox" where
  "yield_event evt ob =
     (if evt_seq evt > ob_last_seen ob then ob\<lparr>ob_last_seen := evt_seq evt, ob_yielded := ob_yielded ob @ [evt]\<rparr> else ob)"

text \<open>
  One turn of the live loop. A receiver more than the capacity behind gets an error; one that has read
  everything waits, or learns that the sender is gone.
\<close>

definition receive :: "nat \<Rightarrow> bool \<Rightarrow> seq_evt list list \<Rightarrow> outbox \<Rightarrow> outbox" where
  "receive capacity closed log ob =
     (let behind = length log - ob_receiver ob in
      if behind > capacity then ob\<lparr>ob_phase := Ended (ConsumerTooSlow (behind - capacity))\<rparr>
      else if ob_receiver ob < length log then
        (fold yield_event (log ! ob_receiver ob) ob)\<lparr>ob_receiver := Suc (ob_receiver ob)\<rparr>
      else if closed then ob\<lparr>ob_phase := Ended SequencerStopped\<rparr>
      else ob)"

end
