(* ===== verification/Outbox_Correct.thy ===== *)
theory Outbox_Correct
  imports Sequencer
begin

text \<open>
  The sequencer, its poll loop and one subscriber as a transition system: events are sequenced,
  invalidated and deleted, the loop polls, and the subscriber takes its receiver, reads the head, pages
  through the backlog and then receives batches, in any interleaving. The invariant says what has been
  delivered at any moment.
\<close>

section \<open>Steps\<close>

record firehose =
  fh_seq :: sequencer
  fh_live :: "nat option"
  fh_outbox :: "outbox option"

abbreviation fh_db :: "firehose \<Rightarrow> seq_db" where
  "fh_db s \<equiv> sq_db (fh_seq s)"

definition with_db :: "firehose \<Rightarrow> seq_db \<Rightarrow> firehose" where
  "with_db s db = s\<lparr>fh_seq := (fh_seq s)\<lparr>sq_db := db\<rparr>\<rparr>"

inductive firehose_step :: "seq_ext \<Rightarrow> nat \<Rightarrow> (repo_seq \<Rightarrow> bool) \<Rightarrow> firehose \<Rightarrow> firehose \<Rightarrow> bool" for E capacity P where
  Sequence: "P evt \<Longrightarrow> firehose_step E capacity P s (with_db s (snd (sequence_evt evt (fh_db s))))"
| Invalidate: "firehose_step E capacity P s (with_db s (snd (invalidate n (fh_db s))))"
| DeleteUser: "firehose_step E capacity P s (with_db s (delete_all_for_user did ex (fh_db s)))"
| Destroy: "firehose_step E capacity P s (s\<lparr>fh_seq := (fh_seq s)\<lparr>sq_destroyed := True\<rparr>\<rparr>)"
| Poll: "firehose_step E capacity P s (s\<lparr>fh_seq := poll E (fh_seq s)\<rparr>)"
| Subscribe: "fh_live s = None \<Longrightarrow> firehose_step E capacity P s (s\<lparr>fh_live := Some (subscribe (fh_seq s))\<rparr>)"
| Open: "fh_live s = Some p \<Longrightarrow> fh_outbox s = None \<Longrightarrow>
    firehose_step E capacity P s (s\<lparr>fh_outbox := Some (outbox_events cursor p (fh_seq s))\<rparr>)"
| Page: "fh_outbox s = Some ob \<Longrightarrow> ob_phase ob = Backfill \<Longrightarrow>
    firehose_step E capacity P s (s\<lparr>fh_outbox := Some (backfill_page E (fh_db s) ob)\<rparr>)"
| Receive: "fh_outbox s = Some ob \<Longrightarrow> ob_phase ob = Live \<Longrightarrow>
    firehose_step E capacity P s (s\<lparr>fh_outbox := Some (receive capacity closed (sq_events (fh_seq s)) ob)\<rparr>)"

definition db_ok :: "(repo_seq \<Rightarrow> bool) \<Rightarrow> seq_db \<Rightarrow> bool" where
  "db_ok P db \<longleftrightarrow>
     sorted_wrt (\<lambda>r r'. row_seq r < row_seq r') (sd_rows db) \<and> 0 \<le> sd_autoincrement db \<and>
     (\<forall>r\<in>set (sd_rows db). row_seq r \<le> sd_autoincrement db \<and> P r)"

text \<open>A process that starts on a table: nothing broadcast, nobody subscribed.\<close>

definition firehose_start :: "(repo_seq \<Rightarrow> bool) \<Rightarrow> firehose \<Rightarrow> bool" where
  "firehose_start P s \<longleftrightarrow>
     (\<exists>db. db_ok P db \<and>
        s = \<lparr>fh_seq = start_polling \<lparr>sq_db = db, sq_last_seen = 0, sq_destroyed = False, sq_events = []\<rparr>, fh_live = None, fh_outbox = None\<rparr>)"

definition reachable :: "seq_ext \<Rightarrow> nat \<Rightarrow> (repo_seq \<Rightarrow> bool) \<Rightarrow> firehose \<Rightarrow> bool" where
  "reachable E capacity P s \<longleftrightarrow> (\<exists>s0. firehose_start P s0 \<and> (firehose_step E capacity P)\<^sup>*\<^sup>* s0 s)"

text \<open>An event the stream can carry: of a listed type, and readable.\<close>

definition deliverable :: "seq_ext \<Rightarrow> repo_seq \<Rightarrow> bool" where
  "deliverable E r \<longleftrightarrow>
     (sq_event_type r \<in> {''append'', ''rebase''} \<and> commit_evt_dec E (sq_event r) \<noteq> None) \<or>
     (sq_event_type r = ''sync'' \<and> sync_evt_dec E (sq_event r) \<noteq> None) \<or>
     (sq_event_type r = ''identity'' \<and> identity_evt_dec E (sq_event r) \<noteq> None) \<or>
     (sq_event_type r = ''account'' \<and> account_evt_dec E (sq_event r) \<noteq> None)"

section \<open>What a request returns\<close>

definition row_event :: "seq_ext \<Rightarrow> repo_seq \<Rightarrow> seq_evt" where
  "row_event E r = the (projr (event_of_row E r))"

lemma event_of_deliverable: "deliverable E r \<Longrightarrow> event_of_row E r = Inr (Some (row_event E r)) \<and> evt_seq (row_event E r) = row_seq r"
  by (auto simp: deliverable_def event_of_row_def row_event_def Let_def)

text \<open>The events after \<open>a\<close> up to \<open>b\<close> that a subscriber is owed.\<close>

definition due :: "seq_ext \<Rightarrow> seq_db \<Rightarrow> int \<Rightarrow> int \<Rightarrow> seq_evt list" where
  "due E db a b = map (row_event E) (filter (\<lambda>r. row_valid r \<and> a < row_seq r \<and> row_seq r \<le> b) (sd_rows db))"

lemma db_ok_sort: "db_ok P db \<Longrightarrow> sort_key row_seq (filter Q (sd_rows db)) = filter Q (sd_rows db)"
proof -
  assume "db_ok P db"
  then have "sorted_wrt (\<lambda>r r'. row_seq r < row_seq r') (filter Q (sd_rows db))" by (simp add: db_ok_def sorted_wrt_filter)
  then have "sorted (map row_seq (filter Q (sd_rows db)))" by (auto simp: sorted_wrt_map intro: sorted_wrt_mono_rel[rotated])
  then show ?thesis by (rule sort_key_id_if_sorted)
qed

lemma due_sorted: "db_ok (deliverable E) db \<Longrightarrow> sorted_wrt (\<lambda>e e'. evt_seq e < evt_seq e') (due E db a b)"
proof -
  assume ok: "db_ok (deliverable E) db"
  let ?rs = "filter (\<lambda>r. row_valid r \<and> a < row_seq r \<and> row_seq r \<le> b) (sd_rows db)"
  have "sorted_wrt (\<lambda>r r'. row_seq r < row_seq r') ?rs" using ok by (simp add: db_ok_def sorted_wrt_filter)
  moreover have "\<forall>r\<in>set ?rs. evt_seq (row_event E r) = row_seq r" using ok event_of_deliverable by (auto simp: db_ok_def)
  ultimately show ?thesis unfolding due_def sorted_wrt_map by (rule_tac sorted_wrt_mono_rel[rotated]) auto
qed

lemma due_bounds: "db_ok (deliverable E) db \<Longrightarrow> e \<in> set (due E db a b) \<Longrightarrow> a < evt_seq e \<and> evt_seq e \<le> b"
  using event_of_deliverable by (fastforce simp: due_def db_ok_def)

lemma res_map_events:
  "\<forall>r\<in>set rs. deliverable E r \<Longrightarrow> res_bind (res_map (event_of_row E) rs) (\<lambda>es. Inr (List.map_filter id es)) = Inr (map (row_event E) rs)"
proof -
  assume "\<forall>r\<in>set rs. deliverable E r"
  then have "res_map (event_of_row E) rs = Inr (map (\<lambda>r. Some (row_event E r)) rs)"
    by (intro res_map_Inr) (simp add: event_of_deliverable)
  moreover have "List.map_filter id (map (\<lambda>r. Some (row_event E r)) rs) = map (row_event E) rs"
    by (induction rs) (simp_all add: List.map_filter_simps)
  ultimately show ?thesis by simp
qed

lemma request_due:
  assumes "db_ok (deliverable E) db" "n \<ge> 0"
  shows "request_seq_range E (Some a) (Some b) None (Some n) db = Inr (take (nat n) (due E db a b))"
    "request_seq_range E (Some a) None None (Some n) db = Inr (take (nat n) (due E db a (sd_autoincrement db)))"
proof -
  have d: "\<forall>r\<in>set (take m (filter Q (sd_rows db))). deliverable E r" for m Q
    using assms(1) set_take_subset[of m "filter Q (sd_rows db)"] by (auto simp: db_ok_def)
  show "request_seq_range E (Some a) (Some b) None (Some n) db = Inr (take (nat n) (due E db a b))"
    using assms by (simp add: request_seq_range_def seq_rows_def db_ok_sort res_map_events[OF d] due_def take_map Let_def)
  have "filter (\<lambda>r. row_valid r \<and> a < row_seq r) (sd_rows db) =
      filter (\<lambda>r. row_valid r \<and> a < row_seq r \<and> row_seq r \<le> sd_autoincrement db) (sd_rows db)"
    using assms(1) by (auto simp: db_ok_def intro!: filter_cong)
  then show "request_seq_range E (Some a) None None (Some n) db = Inr (take (nat n) (due E db a (sd_autoincrement db)))"
    using assms by (simp add: request_seq_range_def seq_rows_def db_ok_sort res_map_events[OF d] due_def take_map Let_def)
qed

lemma sorted_prefix:
  fixes f :: "'a \<Rightarrow> int"
  assumes "sorted_wrt (\<lambda>x y. f x < f y) xs" "take n xs \<noteq> []"
  shows "filter (\<lambda>x. f x \<le> f (last (take n xs))) xs = take n xs"
proof -
  let ?l = "last (take n xs)"
  have s: "sorted_wrt (\<lambda>x y. f x < f y) (take n xs @ drop n xs)" using assms(1) by simp
  have l: "?l \<in> set (take n xs)" using assms(2) by (rule last_in_set)
  have "f x \<le> f ?l" if "x \<in> set (take n xs)" for x
  proof -
    have "sorted_wrt (\<lambda>x y. f x < f y) (butlast (take n xs) @ [?l])"
      using s append_butlast_last_id[OF assms(2)] by (simp add: sorted_wrt_append)
    moreover have "x \<in> set (butlast (take n xs)) \<or> x = ?l" using that append_butlast_last_id[OF assms(2)] by (metis Un_iff empty_iff insert_iff list.set(1,2) set_append)
    ultimately show ?thesis by (auto simp: sorted_wrt_append)
  qed
  then have "filter (\<lambda>x. f x \<le> f ?l) (take n xs) = take n xs" by (simp add: filter_id_conv)
  moreover have "filter (\<lambda>x. f x \<le> f ?l) (drop n xs) = []" using s l unfolding sorted_wrt_append filter_empty_conv by (auto simp: not_le)
  moreover have "filter (\<lambda>x. f x \<le> f ?l) xs = filter (\<lambda>x. f x \<le> f ?l) (take n xs) @ filter (\<lambda>x. f x \<le> f ?l) (drop n xs)"
    by (simp flip: filter_append)
  ultimately show ?thesis by simp
qed

text \<open>A page is everything that is due up to its last event.\<close>

lemma page_is_due:
  assumes "db_ok (deliverable E) db" "take n (due E db a b) \<noteq> []"
  shows "due E db a (evt_seq (last (take n (due E db a b)))) = take n (due E db a b)"
    "a < evt_seq (last (take n (due E db a b)))" "evt_seq (last (take n (due E db a b))) \<le> b"
proof -
  let ?l = "evt_seq (last (take n (due E db a b)))"
  have "last (take n (due E db a b)) \<in> set (due E db a b)" using last_in_set[OF assms(2)] by (rule in_set_takeD)
  then show b: "a < ?l" "?l \<le> b" using due_bounds[OF assms(1)] by blast+
  have "due E db a ?l = filter (\<lambda>e. evt_seq e \<le> ?l) (due E db a b)"
    using b assms(1) event_of_deliverable by (auto simp: due_def filter_map db_ok_def comp_def intro!: arg_cong[where f = "map (row_event E)"] filter_cong)
  then show "due E db a ?l = take n (due E db a b)" using sorted_prefix[OF due_sorted[OF assms(1)] assms(2)] by simp
qed

lemma due_shrinks:
  assumes "db_ok (deliverable E) db" "take n (due E db a b) \<noteq> []"
  shows "length (due E db (evt_seq (last (take n (due E db a b)))) b) < length (due E db a b)"
proof -
  let ?l = "evt_seq (last (take n (due E db a b)))"
  have l: "last (take n (due E db a b)) \<in> set (due E db a b)" using last_in_set[OF assms(2)] by (rule in_set_takeD)
  then have "a < ?l" using due_bounds[OF assms(1)] by blast
  then have "due E db ?l b = filter (\<lambda>e. ?l < evt_seq e) (due E db a b)"
    using assms(1) event_of_deliverable by (auto simp: due_def filter_map db_ok_def comp_def intro!: arg_cong[where f = "map (row_event E)"] filter_cong)
  then show ?thesis using length_filter_less[OF l, of "\<lambda>e. ?l < evt_seq e"] by simp
qed

lemma due_split: "set (due E db a c) \<subseteq> set (due E db a b) \<union> set (due E db b c)"
  by (force simp: due_def)

lemma due_empty: "b \<le> a \<Longrightarrow> due E db a b = []"
  by (auto simp: due_def filter_empty_conv)

section \<open>The invariant\<close>

definition ob_start :: "outbox \<Rightarrow> int" where
  "ob_start ob = (case ob_cursor ob of Some c \<Rightarrow> c | None \<Rightarrow> ob_head ob)"

lemma ob_start_update [simp]:
  "ob_start (ob\<lparr>ob_phase := ph\<rparr>) = ob_start ob" "ob_start (ob\<lparr>ob_last_seen := n\<rparr>) = ob_start ob"
  "ob_start (ob\<lparr>ob_yielded := es\<rparr>) = ob_start ob" "ob_start (ob\<lparr>ob_receiver := k\<rparr>) = ob_start ob"
  by (simp_all add: ob_start_def split: option.split)

definition consumed :: "nat \<Rightarrow> seq_evt list list \<Rightarrow> outbox \<Rightarrow> seq_evt list" where
  "consumed p log ob = concat (take (ob_receiver ob - p) (drop p log))"

text \<open>While it pages, a subscriber has everything up to the last event it yielded.\<close>

definition catching_up :: "seq_ext \<Rightarrow> seq_db \<Rightarrow> outbox \<Rightarrow> bool" where
  "catching_up E db ob \<longleftrightarrow>
     ob_phase ob \<noteq> Live \<and> ob_last_seen ob \<le> max (ob_start ob) (ob_head ob) \<and>
     set (due E db (ob_start ob) (ob_last_seen ob)) \<subseteq> set (ob_yielded ob)"

text \<open>Afterwards it has everything up to the head it read, and what it received above that.\<close>

definition caught_up :: "seq_ext \<Rightarrow> seq_db \<Rightarrow> nat \<Rightarrow> seq_evt list list \<Rightarrow> outbox \<Rightarrow> bool" where
  "caught_up E db p log ob \<longleftrightarrow>
     ob_phase ob \<noteq> Backfill \<and> set (due E db (ob_start ob) (ob_head ob)) \<subseteq> set (ob_yielded ob) \<and>
     (\<forall>e\<in>set (consumed p log ob). max (ob_start ob) (ob_head ob) < evt_seq e \<longrightarrow> e \<in> set (ob_yielded ob)) \<and>
     (ob_last_seen ob \<le> max (ob_start ob) (ob_head ob) \<or> ob_last_seen ob \<in> evt_seq ` set (consumed p log ob))"

definition yielded_ok :: "outbox \<Rightarrow> bool" where
  "yielded_ok ob \<longleftrightarrow>
     sorted_wrt (\<lambda>e e'. evt_seq e < evt_seq e') (ob_yielded ob) \<and> ob_start ob \<le> ob_last_seen ob \<and>
     (\<forall>e\<in>set (ob_yielded ob). ob_start ob < evt_seq e \<and> evt_seq e \<le> ob_last_seen ob)"

definition outbox_ok :: "seq_ext \<Rightarrow> sequencer \<Rightarrow> int \<Rightarrow> nat \<Rightarrow> outbox \<Rightarrow> bool" where
  "outbox_ok E q flr p ob \<longleftrightarrow>
     (\<forall>r\<in>set (sd_rows (sq_db q)). row_seq r \<le> flr \<longrightarrow> row_seq r \<le> ob_head ob) \<and> ob_head ob \<le> sd_autoincrement (sq_db q) \<and>
     p \<le> ob_receiver ob \<and> ob_receiver ob \<le> length (sq_events q) \<and> (ob_phase ob = Backfill \<longrightarrow> ob_receiver ob = p) \<and>
     yielded_ok ob \<and> (catching_up E (sq_db q) ob \<or> caught_up E (sq_db q) p (sq_events q) ob)"

definition seq_ok :: "seq_ext \<Rightarrow> sequencer \<Rightarrow> bool" where
  "seq_ok E q \<longleftrightarrow>
     db_ok (deliverable E) (sq_db q) \<and> sq_last_seen q \<le> sd_autoincrement (sq_db q) \<and>
     sorted_wrt (\<lambda>e e'. evt_seq e < evt_seq e') (concat (sq_events q)) \<and>
     (\<forall>e\<in>set (concat (sq_events q)). evt_seq e \<le> sq_last_seen q)"

text \<open>From where the subscriber took its receiver, the channel has all that came after what was seen then.\<close>

definition live_ok :: "seq_ext \<Rightarrow> sequencer \<Rightarrow> int \<Rightarrow> nat \<Rightarrow> bool" where
  "live_ok E q flr p \<longleftrightarrow>
     p \<le> length (sq_events q) \<and> flr \<le> sq_last_seen q \<and> (\<forall>e\<in>set (concat (drop p (sq_events q))). flr < evt_seq e) \<and>
     set (due E (sq_db q) flr (sq_last_seen q)) \<subseteq> set (concat (drop p (sq_events q)))"

definition firehose_inv :: "seq_ext \<Rightarrow> firehose \<Rightarrow> bool" where
  "firehose_inv E s \<longleftrightarrow>
     seq_ok E (fh_seq s) \<and>
     (case fh_live s of
        None \<Rightarrow> fh_outbox s = None
      | Some p \<Rightarrow> \<exists>flr. live_ok E (fh_seq s) flr p \<and> (case fh_outbox s of None \<Rightarrow> True | Some ob \<Rightarrow> outbox_ok E (fh_seq s) flr p ob))"

subsection \<open>The table changes\<close>

definition db_after :: "seq_ext \<Rightarrow> seq_db \<Rightarrow> seq_db \<Rightarrow> bool" where
  "db_after E db db' \<longleftrightarrow>
     db_ok (deliverable E) db' \<and> sd_autoincrement db \<le> sd_autoincrement db' \<and>
     (\<forall>r\<in>set (sd_rows db'). row_seq r \<in> row_seq ` set (sd_rows db) \<or> sd_autoincrement db < row_seq r) \<and>
     (\<forall>a b. b \<le> sd_autoincrement db \<longrightarrow> set (due E db' a b) \<subseteq> set (due E db a b))"

lemma sequence_after:
  assumes "db_ok (deliverable E) db" "deliverable E evt"
  shows "db_after E db (snd (sequence_evt evt db))"
  using assms
  by (auto simp: db_after_def sequence_evt_def db_ok_def Let_def sorted_wrt_append row_seq_def deliverable_def due_def)

lemma invalidated_row [simp]:
  "row_seq (r\<lparr>sq_invalidated := v\<rparr>) = row_seq r" "deliverable E (r\<lparr>sq_invalidated := v\<rparr>) = deliverable E r"
  by (simp_all add: row_seq_def deliverable_def)

lemma invalidate_after:
  assumes "db_ok (deliverable E) db"
  shows "db_after E db (snd (invalidate n db))"
proof -
  let ?f = "\<lambda>r. if row_seq r = n \<and> row_valid r then r\<lparr>sq_invalidated := Some 1\<rparr> else r"
  have f: "row_seq (?f r) = row_seq r" "deliverable E (?f r) = deliverable E r" "row_valid (?f r) \<Longrightarrow> ?f r = r" for r
    by (auto simp: row_valid_def)
  have db': "snd (invalidate n db) = db\<lparr>sd_rows := map ?f (sd_rows db)\<rparr>" by (simp add: invalidate_def Let_def)
  have "set (due E (snd (invalidate n db)) a b) \<subseteq> set (due E db a b)" for a b
  proof
    fix e assume "e \<in> set (due E (snd (invalidate n db)) a b)"
    then obtain r where "r \<in> set (sd_rows db)" "e = row_event E (?f r)" "row_valid (?f r)" "a < row_seq (?f r)" "row_seq (?f r) \<le> b"
      unfolding due_def db' by auto
    then show "e \<in> set (due E db a b)" using f(3)[of r] by (auto simp: due_def)
  qed
  moreover have "db_ok (deliverable E) (snd (invalidate n db))"
  proof -
    have "sorted_wrt (\<lambda>r r'. row_seq r < row_seq r') (map ?f (sd_rows db))" unfolding sorted_wrt_map f using assms by (simp add: db_ok_def)
    then show ?thesis using assms by (auto simp: db_ok_def db')
  qed
  moreover have "\<forall>r\<in>set (sd_rows (snd (invalidate n db))). row_seq r \<in> row_seq ` set (sd_rows db)" by (auto simp: db')
  moreover have "sd_autoincrement (snd (invalidate n db)) = sd_autoincrement db" by (simp add: db')
  ultimately show ?thesis unfolding db_after_def by auto
qed

lemma delete_after:
  assumes "db_ok (deliverable E) db"
  shows "db_after E db (delete_all_for_user did ex db)"
  using assms by (auto simp: db_after_def delete_all_for_user_def db_ok_def Let_def sorted_wrt_filter due_def)

lemma inv_with_seq:
  assumes "firehose_inv E s" "seq_ok E q" "\<And>flr p. live_ok E (fh_seq s) flr p \<Longrightarrow> live_ok E q flr p"
    and "\<And>flr p ob. live_ok E (fh_seq s) flr p \<Longrightarrow> outbox_ok E (fh_seq s) flr p ob \<Longrightarrow> outbox_ok E q flr p ob"
  shows "firehose_inv E (s\<lparr>fh_seq := q\<rparr>)"
proof (cases "fh_live s")
  case None
  then show ?thesis using assms(1,2) by (simp add: firehose_inv_def)
next
  case (Some p)
  then obtain flr where "live_ok E (fh_seq s) flr p" "case fh_outbox s of None \<Rightarrow> True | Some ob \<Rightarrow> outbox_ok E (fh_seq s) flr p ob"
    using assms(1) by (auto simp: firehose_inv_def)
  then have "live_ok E q flr p \<and> (case fh_outbox s of None \<Rightarrow> True | Some ob \<Rightarrow> outbox_ok E q flr p ob)"
    using assms(3,4) by (auto split: option.splits)
  then show ?thesis using assms(2) Some by (cases "fh_outbox s") (auto simp: firehose_inv_def)
qed

lemma inv_with_db:
  assumes "firehose_inv E s" "db_after E (fh_db s) db"
  shows "firehose_inv E (with_db s db)"
proof -
  let ?q = "fh_seq s"
  have q: "seq_ok E ?q" using assms(1) by (simp add: firehose_inv_def)
  then have top: "sq_last_seen ?q \<le> sd_autoincrement (fh_db s)" by (simp add: seq_ok_def)
  have after: "db_ok (deliverable E) db" "sd_autoincrement (fh_db s) \<le> sd_autoincrement db"
    "\<forall>r\<in>set (sd_rows db). row_seq r \<in> row_seq ` set (sd_rows (fh_db s)) \<or> sd_autoincrement (fh_db s) < row_seq r"
    "b \<le> sd_autoincrement (fh_db s) \<Longrightarrow> set (due E db a b) \<subseteq> set (due E (fh_db s) a b)" for a b
    using assms(2) by (auto simp: db_after_def)
  have live: "live_ok E (?q\<lparr>sq_db := db\<rparr>) flr p" if "live_ok E ?q flr p" for flr p
    using that after(4)[OF top, of flr] by (auto simp: live_ok_def)
  have ob: "outbox_ok E (?q\<lparr>sq_db := db\<rparr>) flr p ob" if l: "live_ok E ?q flr p" and o: "outbox_ok E ?q flr p ob" for flr p ob
  proof -
    have head: "ob_head ob \<le> sd_autoincrement (fh_db s)" using o by (simp add: outbox_ok_def)
    have fresh: "\<forall>r\<in>set (sd_rows db). row_seq r \<le> flr \<longrightarrow> row_seq r \<le> ob_head ob"
      using o l top after(3) by (force simp: outbox_ok_def live_ok_def)
    have "catching_up E db ob" if c: "catching_up E (fh_db s) ob"
    proof (cases "ob_last_seen ob \<le> ob_head ob")
      case True
      then show ?thesis using c after(4)[of "ob_last_seen ob" "ob_start ob"] head by (auto simp: catching_up_def)
    next
      case False
      then have "due E db (ob_start ob) (ob_last_seen ob) = []" using c by (intro due_empty) (auto simp: catching_up_def)
      then show ?thesis using c by (simp add: catching_up_def)
    qed
    moreover have "caught_up E db p (sq_events ?q) ob" if "caught_up E (fh_db s) p (sq_events ?q) ob"
      using that after(4)[OF head, of "ob_start ob"] by (auto simp: caught_up_def)
    ultimately show ?thesis using o fresh after(2) by (auto simp: outbox_ok_def)
  qed
  have "seq_ok E (?q\<lparr>sq_db := db\<rparr>)" using q after(1,2) by (simp add: seq_ok_def)
  from inv_with_seq[OF assms(1) this live ob] show ?thesis by (simp add: with_db_def)
qed

subsection \<open>The loop polls\<close>

lemma poll_cases:
  assumes "seq_ok E q"
  obtains "poll E q = q"
  | page where "page \<noteq> []" "page = due E (sq_db q) (sq_last_seen q) (evt_seq (last page))"
    "sq_last_seen q < evt_seq (last page)" "evt_seq (last page) \<le> sd_autoincrement (sq_db q)"
    "poll E q = q\<lparr>sq_last_seen := evt_seq (last page), sq_events := sq_events q @ [page]\<rparr>"
proof -
  have ok: "db_ok (deliverable E) (sq_db q)" using assms by (simp add: seq_ok_def)
  let ?page = "take 1000 (due E (sq_db q) (sq_last_seen q) (sd_autoincrement (sq_db q)))"
  have poll: "poll E q = (if sq_destroyed q \<or> ?page = [] then q
      else q\<lparr>sq_last_seen := evt_seq (last ?page), sq_events := sq_events q @ [?page]\<rparr>)"
    using request_due(2)[OF ok, of 1000 "sq_last_seen q"] by (simp add: poll_def)
  show ?thesis
  proof (cases "sq_destroyed q \<or> ?page = []")
    case True
    then show ?thesis using that(1) poll by simp
  next
    case False
    then have ne: "?page \<noteq> []" by simp
    note pd = page_is_due[OF ok ne]
    show ?thesis by (rule that(2)[OF ne pd(1)[symmetric] pd(2,3)]) (use poll False in simp)
  qed
qed

lemma seq_ok_poll:
  assumes "seq_ok E q"
  shows "seq_ok E (poll E q)"
proof (cases rule: poll_cases[OF assms])
  case (2 page)
  have ok: "db_ok (deliverable E) (sq_db q)" using assms by (simp add: seq_ok_def)
  have b: "sq_last_seen q < evt_seq e" "evt_seq e \<le> evt_seq (last page)" if "e \<in> set page" for e
    using due_bounds[OF ok] 2(2) that by metis+
  have "sorted_wrt (\<lambda>e e'. evt_seq e < evt_seq e') page" using due_sorted[OF ok] 2(2) by metis
  moreover have "evt_seq e < evt_seq e'" if "e \<in> set (concat (sq_events q))" "e' \<in> set page" for e e'
    using assms b(1)[OF that(2)] that(1) by (force simp: seq_ok_def)
  moreover have "evt_seq e \<le> evt_seq (last page)" if "e \<in> set (concat (sq_events q))" for e
    using assms that 2(3) by (force simp: seq_ok_def)
  ultimately show ?thesis
    using assms 2(3,4) b(2) unfolding 2(5) by (auto simp: seq_ok_def sorted_wrt_append)
qed (use assms in simp)

lemma live_ok_poll:
  assumes "seq_ok E q" "live_ok E q flr p"
  shows "live_ok E (poll E q) flr p"
proof (cases rule: poll_cases[OF assms(1)])
  case (2 page)
  have ok: "db_ok (deliverable E) (sq_db q)" using assms(1) by (simp add: seq_ok_def)
  have "sq_last_seen q < evt_seq e" if "e \<in> set page" for e using due_bounds[OF ok] 2(2) that by metis
  moreover have "set (due E (sq_db q) flr (evt_seq (last page))) \<subseteq> set (due E (sq_db q) flr (sq_last_seen q)) \<union> set page"
    using due_split[of E "sq_db q" flr "evt_seq (last page)" "sq_last_seen q"] 2(2) by simp
  ultimately show ?thesis using assms(2) 2(3) unfolding 2(5) by (fastforce simp: live_ok_def)
qed (use assms in simp)

lemma outbox_ok_poll:
  assumes "seq_ok E q" "outbox_ok E q flr p ob"
  shows "outbox_ok E (poll E q) flr p ob"
proof (cases rule: poll_cases[OF assms(1)])
  case (2 page)
  have "ob_receiver ob \<le> length (sq_events q)" using assms(2) by (simp add: outbox_ok_def)
  then have "consumed p (sq_events q @ [page]) ob = consumed p (sq_events q) ob"
    by (cases "p \<le> length (sq_events q)") (simp_all add: consumed_def)
  then have "caught_up E (sq_db q) p (sq_events q @ [page]) ob = caught_up E (sq_db q) p (sq_events q) ob" by (simp add: caught_up_def)
  then show ?thesis using assms(2) unfolding 2(5) by (simp add: outbox_ok_def)
qed (use assms in simp)

subsection \<open>The subscriber moves\<close>

lemma curr_seq_head:
  assumes "db_ok P db" "head = (case curr_seq db of Some s \<Rightarrow> s | None \<Rightarrow> 0)"
  shows "\<forall>r\<in>set (sd_rows db). row_seq r \<le> head" "head \<le> sd_autoincrement db"
proof -
  have "sort_key row_seq (sd_rows db) = sd_rows db" using db_ok_sort[OF assms(1), of "\<lambda>_. True"] by simp
  then have c: "curr_seq db = (case rev (sd_rows db) of [] \<Rightarrow> None | r # _ \<Rightarrow> Some (row_seq r))" by (simp add: curr_seq_def)
  show "\<forall>r\<in>set (sd_rows db). row_seq r \<le> head" "head \<le> sd_autoincrement db"
    using assms c by (cases "sd_rows db" rule: rev_cases; force simp: db_ok_def sorted_wrt_append)+
qed

lemma outbox_ok_open:
  assumes "seq_ok E q" "live_ok E q flr p"
  shows "outbox_ok E q flr p (outbox_events cursor p q)"
proof -
  have ok: "db_ok (deliverable E) (sq_db q)" using assms(1) by (simp add: seq_ok_def)
  note head = curr_seq_head[OF ok refl]
  have "p \<le> length (sq_events q)" using assms(2) by (simp add: live_ok_def)
  then show ?thesis using head
    by (cases cursor)
      (auto simp: outbox_ok_def outbox_events_def yielded_ok_def ob_start_def catching_up_def caught_up_def consumed_def due_empty Let_def)
qed

lemma outbox_ok_page:
  assumes "seq_ok E q" "live_ok E q flr p" "outbox_ok E q flr p ob" "ob_phase ob = Backfill"
  shows "outbox_ok E q flr p (backfill_page E (sq_db q) ob)"
proof -
  have ok: "db_ok (deliverable E) (sq_db q)" using assms(1) by (simp add: seq_ok_def)
  have ob: "catching_up E (sq_db q) ob" "yielded_ok ob" "ob_receiver ob = p"
    using assms(3,4) by (auto simp: outbox_ok_def caught_up_def)
  let ?c = "ob_start ob" and ?l = "ob_last_seen ob" and ?db = "sq_db q"
  have finish: "outbox_ok E q flr p (ob\<lparr>ob_phase := Live\<rparr>)" if "set (due E ?db ?l (ob_head ob)) = {}"
  proof -
    have "set (due E ?db ?c (ob_head ob)) \<subseteq> set (ob_yielded ob)"
      using that ob(1) due_split[of E ?db ?c "ob_head ob" ?l] by (auto simp: catching_up_def)
    then show ?thesis
      using assms(3) ob by (auto simp: outbox_ok_def catching_up_def caught_up_def consumed_def yielded_ok_def)
  qed
  show ?thesis
  proof (cases "?l < ob_head ob")
    case True
    let ?page = "take 500 (due E ?db ?l (ob_head ob))"
    have req: "request_seq_range E (Some ?l) (Some (ob_head ob)) None (Some PAGE_SIZE) ?db = Inr ?page"
      using request_due(1)[OF ok, of 500] by (simp add: PAGE_SIZE_def)
    show ?thesis
    proof (cases "?page = []")
      case e: True
      then have "set (due E ?db ?l (ob_head ob)) = {}" by simp
      then show ?thesis using finish req True e by (simp add: backfill_page_def)
    next
      case ne: False
      note pd = page_is_due[OF ok ne]
      let ?l' = "evt_seq (last ?page)"
      have b: "?l < evt_seq e" "evt_seq e \<le> ?l'" if "e \<in> set ?page" for e using due_bounds[OF ok] pd(1) that by metis+
      have "sorted_wrt (\<lambda>e e'. evt_seq e < evt_seq e') ?page" using due_sorted[OF ok] pd(1) by metis
      then have "yielded_ok (ob\<lparr>ob_last_seen := ?l', ob_yielded := ob_yielded ob @ ?page\<rparr>)"
        using ob(2) b pd(2) by (fastforce simp: yielded_ok_def sorted_wrt_append)
      moreover have "set (due E ?db ?c ?l') \<subseteq> set (ob_yielded ob) \<union> set ?page"
        using due_split[of E ?db ?c ?l' ?l] pd(1) ob(1) by (auto simp: catching_up_def)
      ultimately have "outbox_ok E q flr p (ob\<lparr>ob_last_seen := ?l', ob_yielded := ob_yielded ob @ ?page\<rparr>)"
        using assms(3,4) pd(3) by (auto simp: outbox_ok_def catching_up_def)
      then show ?thesis using req True ne by (simp add: backfill_page_def)
    qed
  next
    case False
    then show ?thesis using finish by (simp add: backfill_page_def due_empty)
  qed
qed

lemma fold_yield:
  "sorted_wrt (\<lambda>e e'. evt_seq e < evt_seq e') batch \<Longrightarrow>
   fold yield_event batch ob =
     ob\<lparr>ob_last_seen := (if filter (\<lambda>e. ob_last_seen ob < evt_seq e) batch = [] then ob_last_seen ob else evt_seq (last batch)),
        ob_yielded := ob_yielded ob @ filter (\<lambda>e. ob_last_seen ob < evt_seq e) batch\<rparr>"
proof (induction batch arbitrary: ob)
  case (Cons e batch)
  show ?case
  proof (cases "ob_last_seen ob < evt_seq e")
    case True
    then have "filter (\<lambda>e'. evt_seq e < evt_seq e') batch = batch" "filter (\<lambda>e'. ob_last_seen ob < evt_seq e') batch = batch"
      using Cons.prems by (auto simp: filter_id_conv)
    then show ?thesis using True Cons.IH[of "yield_event e ob"] Cons.prems by (auto simp: yield_event_def)
  next
    case False
    then show ?thesis using Cons.IH[of ob] Cons.prems by (auto simp: yield_event_def)
  qed
qed simp

lemma sorted_concat_nth:
  assumes "sorted_wrt R (concat (drop p log))" "p \<le> k" "k < length log"
  shows "sorted_wrt R (log ! k)" "concat (take (Suc k - p) (drop p log)) = concat (take (k - p) (drop p log)) @ log ! k"
    "\<forall>x\<in>set (concat (take (k - p) (drop p log))). \<forall>y\<in>set (log ! k). R x y"
proof -
  have "take (Suc k - p) (drop p log) = take (k - p) (drop p log) @ [log ! k]"
    using assms(2,3) by (simp add: Suc_diff_le take_Suc_conv_app_nth)
  then show c: "concat (take (Suc k - p) (drop p log)) = concat (take (k - p) (drop p log)) @ log ! k" by simp
  have "concat (drop p log) = concat (take (Suc k - p) (drop p log)) @ concat (drop (Suc k - p) (drop p log))"
    by (metis append_take_drop_id concat_append)
  then have "sorted_wrt R (concat (take (k - p) (drop p log)) @ log ! k)"
    using assms(1) unfolding c by (metis sorted_wrt_append)
  then show "sorted_wrt R (log ! k)" "\<forall>x\<in>set (concat (take (k - p) (drop p log))). \<forall>y\<in>set (log ! k). R x y"
    unfolding sorted_wrt_append by blast+
qed

lemma seq_ok_drop: "seq_ok E q \<Longrightarrow> sorted_wrt (\<lambda>e e'. evt_seq e < evt_seq e') (concat (drop p (sq_events q)))"
proof -
  assume "seq_ok E q"
  then have "sorted_wrt (\<lambda>e e'. evt_seq e < evt_seq e') (concat (take p (sq_events q)) @ concat (drop p (sq_events q)))"
    by (simp add: seq_ok_def flip: concat_append)
  then show ?thesis by (simp only: sorted_wrt_append)
qed

lemma caught_up_receive:
  assumes q: "seq_ok E q" and ob: "caught_up E db p (sq_events q) ob" "yielded_ok ob"
    and r: "p \<le> ob_receiver ob" "ob_receiver ob < length (sq_events q)"
    and ob': "ob' = (fold yield_event (sq_events q ! ob_receiver ob) ob)\<lparr>ob_receiver := Suc (ob_receiver ob)\<rparr>"
  shows "caught_up E db p (sq_events q) ob'" "yielded_ok ob'"
proof -
  let ?batch = "sq_events q ! ob_receiver ob" and ?l = "ob_last_seen ob"
  let ?new = "filter (\<lambda>e. ?l < evt_seq e) ?batch"
  note nth = sorted_concat_nth[OF seq_ok_drop[OF q] r]
  have cons: "consumed p (sq_events q) ob' = consumed p (sq_events q) ob @ ?batch" "consumed p (sq_events q) ob = concat (take (ob_receiver ob - p) (drop p (sq_events q)))"
    using nth(2) by (simp_all add: consumed_def ob')
  have f: "ob' = ob\<lparr>ob_last_seen := (if ?new = [] then ?l else evt_seq (last ?batch)), ob_yielded := ob_yielded ob @ ?new, ob_receiver := Suc (ob_receiver ob)\<rparr>"
    by (simp add: ob' fold_yield[OF nth(1)])
  have top: "evt_seq e \<le> evt_seq (last ?batch)" if "e \<in> set ?batch" for e
    using nth(1) that by (cases ?batch rule: rev_cases) (auto simp: sorted_wrt_append)
  have lst: "last ?batch \<in> set ?batch" if "?new \<noteq> []" using that by (cases ?batch) auto
  have ls: "?l < evt_seq (last ?batch)" if "?new \<noteq> []"
  proof -
    obtain e where "e \<in> set ?batch" "?l < evt_seq e" using \<open>?new \<noteq> []\<close> by (auto simp: filter_empty_conv)
    then show ?thesis using top[of e] by simp
  qed
  have srt: "sorted_wrt (\<lambda>e e'. evt_seq e < evt_seq e') ?new" using nth(1) by (rule sorted_wrt_filter)
  have below: "\<forall>e\<in>set (ob_yielded ob). ob_start ob < evt_seq e \<and> evt_seq e \<le> ?l" "ob_start ob \<le> ?l"
    "sorted_wrt (\<lambda>e e'. evt_seq e < evt_seq e') (ob_yielded ob)" using ob(2) by (simp_all add: yielded_ok_def)
  have "sorted_wrt (\<lambda>e e'. evt_seq e < evt_seq e') (ob_yielded ob @ ?new)" using srt below by (force simp: sorted_wrt_append)
  moreover have "\<forall>e\<in>set (ob_yielded ob @ ?new). ob_start ob < evt_seq e \<and> evt_seq e \<le> (if ?new = [] then ?l else evt_seq (last ?batch))"
  proof (cases "?new = []")
    case True
    then show ?thesis using below by (auto simp: filter_empty_conv)
  next
    case False
    then show ?thesis using below ls top by fastforce
  qed
  moreover have "ob_start ob \<le> (if ?new = [] then ?l else evt_seq (last ?batch))" using below(2) ls by (cases "?new = []") auto
  ultimately show "yielded_ok ob'" unfolding yielded_ok_def f by simp
  have "e \<in> set (ob_yielded ob)" if e: "e \<in> set ?batch" "evt_seq e \<le> ?l" "max (ob_start ob) (ob_head ob) < evt_seq e" for e
  proof -
    have "?l \<in> evt_seq ` set (consumed p (sq_events q) ob)" using ob(1) e(2,3) unfolding caught_up_def by linarith
    then obtain e' where "e' \<in> set (consumed p (sq_events q) ob)" "evt_seq e' = ?l" by auto
    then have "?l < evt_seq e" using nth(3) e(1) unfolding cons(2) by fastforce
    then show ?thesis using e(2) by simp
  qed
  then have "e \<in> set (ob_yielded ob @ ?new)" if "e \<in> set ?batch" "max (ob_start ob) (ob_head ob) < evt_seq e" for e
    using that by (cases "evt_seq e \<le> ?l") simp_all
  moreover have "\<forall>e\<in>set (consumed p (sq_events q) ob). max (ob_start ob) (ob_head ob) < evt_seq e \<longrightarrow> e \<in> set (ob_yielded ob)"
    using ob(1) by (simp add: caught_up_def)
  ultimately have "\<forall>e\<in>set (consumed p (sq_events q) ob'). max (ob_start ob) (ob_head ob) < evt_seq e \<longrightarrow> e \<in> set (ob_yielded ob @ ?new)"
    unfolding cons(1) by auto
  moreover have "(if ?new = [] then ?l else evt_seq (last ?batch)) \<le> max (ob_start ob) (ob_head ob) \<or>
      (if ?new = [] then ?l else evt_seq (last ?batch)) \<in> evt_seq ` set (consumed p (sq_events q) ob')"
    using ob(1) lst unfolding cons(1) caught_up_def by auto
  ultimately show "caught_up E db p (sq_events q) ob'"
    using ob(1) unfolding caught_up_def f by auto
qed

lemma outbox_ok_receive:
  assumes "seq_ok E q" "outbox_ok E q flr p ob" "ob_phase ob = Live"
  shows "outbox_ok E q flr p (receive capacity closed (sq_events q) ob)"
proof -
  have ob: "caught_up E (sq_db q) p (sq_events q) ob" "yielded_ok ob" "p \<le> ob_receiver ob"
    using assms(2,3) by (auto simp: outbox_ok_def catching_up_def)
  have ended: "outbox_ok E q flr p (ob\<lparr>ob_phase := Ended x\<rparr>)" for x
  proof -
    have "caught_up E (sq_db q) p (sq_events q) (ob\<lparr>ob_phase := Ended x\<rparr>)" using ob(1) by (simp add: caught_up_def consumed_def)
    moreover have "yielded_ok (ob\<lparr>ob_phase := Ended x\<rparr>)" using ob(2) by (simp add: yielded_ok_def)
    ultimately show ?thesis using assms(2) by (simp add: outbox_ok_def)
  qed
  let ?ob' = "(fold yield_event (sq_events q ! ob_receiver ob) ob)\<lparr>ob_receiver := Suc (ob_receiver ob)\<rparr>"
  have "outbox_ok E q flr p ?ob'" if r: "ob_receiver ob < length (sq_events q)"
  proof -
    note cu = caught_up_receive[OF assms(1) ob r refl]
    have "ob_head ?ob' = ob_head ob" "ob_phase ?ob' = ob_phase ob"
      using fold_yield[OF sorted_concat_nth(1)[OF seq_ok_drop[OF assms(1)] ob(3) r], of ob] by simp_all
    then show ?thesis using cu assms(2,3) r by (simp add: outbox_ok_def)
  qed
  then show ?thesis using ended assms(2) by (simp add: receive_def Let_def)
qed

end
