(* ===== verification/Firehose_Properties.thy ===== *)
theory Firehose_Properties
  imports Outbox_Correct
begin

text \<open>
  What a subscriber of the firehose gets: no repeats and no gaps, everything once the loop and the
  subscriber have had their turns, and the one case in which an event is lost for good.
\<close>

section \<open>The invariant holds\<close>

lemma inv_start: "firehose_start (deliverable E) s \<Longrightarrow> firehose_inv E s"
  using curr_seq_head(2) by (fastforce simp: firehose_start_def firehose_inv_def seq_ok_def start_polling_def)

lemma inv_with_outbox:
  assumes "firehose_inv E s" "fh_outbox s = Some ob"
    and "\<And>flr p. live_ok E (fh_seq s) flr p \<Longrightarrow> outbox_ok E (fh_seq s) flr p ob \<Longrightarrow> outbox_ok E (fh_seq s) flr p ob'"
  shows "firehose_inv E (s\<lparr>fh_outbox := Some ob'\<rparr>)"
  using assms by (auto simp: firehose_inv_def split: option.splits)

lemma inv_seq_ok: "firehose_inv E s \<Longrightarrow> seq_ok E (fh_seq s)"
  by (simp add: firehose_inv_def)

lemma inv_step: "firehose_step E capacity (deliverable E) s s' \<Longrightarrow> firehose_inv E s \<Longrightarrow> firehose_inv E s'"
proof (induction rule: firehose_step.induct)
  case (Sequence evt s)
  then show ?case using sequence_after inv_seq_ok by (intro inv_with_db) (auto simp: seq_ok_def)
next
  case (Invalidate s n)
  then show ?case using invalidate_after inv_seq_ok by (intro inv_with_db) (auto simp: seq_ok_def)
next
  case (DeleteUser s did ex)
  then show ?case using delete_after inv_seq_ok by (intro inv_with_db) (auto simp: seq_ok_def)
next
  case (Destroy s)
  then show ?case by (intro inv_with_seq) (auto simp: inv_seq_ok[unfolded seq_ok_def] seq_ok_def live_ok_def outbox_ok_def)
next
  case (Poll s)
  then show ?case using inv_seq_ok by (intro inv_with_seq) (auto intro: seq_ok_poll live_ok_poll outbox_ok_poll)
next
  case (Subscribe s)
  then have "live_ok E (fh_seq s) (sq_last_seen (fh_seq s)) (subscribe (fh_seq s))" by (simp add: live_ok_def subscribe_def due_empty)
  then show ?case using Subscribe by (auto simp: firehose_inv_def)
next
  case (Open s p cursor)
  then obtain flr where "seq_ok E (fh_seq s)" "live_ok E (fh_seq s) flr p" by (auto simp: firehose_inv_def)
  then show ?case using outbox_ok_open[of E "fh_seq s" flr p cursor] Open(1) by (auto simp: firehose_inv_def)
next
  case (Page s ob)
  then show ?case using outbox_ok_page[OF inv_seq_ok] by (auto intro!: inv_with_outbox)
next
  case (Receive s ob closed)
  then show ?case using outbox_ok_receive[OF inv_seq_ok] by (auto intro!: inv_with_outbox)
qed

lemma inv_steps: "(firehose_step E capacity (deliverable E))\<^sup>*\<^sup>* s s' \<Longrightarrow> firehose_inv E s \<Longrightarrow> firehose_inv E s'"
  by (induction rule: rtranclp_induct) (auto intro: inv_step)

lemma inv_reachable: "reachable E capacity (deliverable E) s \<Longrightarrow> firehose_inv E s"
  using inv_steps inv_start unfolding reachable_def by blast

lemma inv_outbox:
  assumes "firehose_inv E s" "fh_outbox s = Some ob"
  obtains flr p where "seq_ok E (fh_seq s)" "live_ok E (fh_seq s) flr p" "outbox_ok E (fh_seq s) flr p ob"
  using assms by (auto simp: firehose_inv_def split: option.splits)

section \<open>No gaps\<close>

lemma due_consumed:
  assumes "seq_ok E q" "live_ok E q flr p" "outbox_ok E q flr p ob" "caught_up E (sq_db q) p (sq_events q) ob"
    and e: "e \<in> set (due E (sq_db q) (ob_start ob) m)" "m \<le> sq_last_seen q"
    and all: "\<forall>e\<in>set (concat (drop p (sq_events q))). evt_seq e \<le> m \<longrightarrow> e \<in> set (consumed p (sq_events q) ob)"
  shows "e \<in> set (ob_yielded ob)"
proof -
  have ok: "db_ok (deliverable E) (sq_db q)" using assms(1) by (simp add: seq_ok_def)
  obtain r where r: "r \<in> set (sd_rows (sq_db q))" "row_valid r" "ob_start ob < row_seq r" "row_seq r \<le> m" "e = row_event E r"
    using e(1) by (auto simp: due_def)
  have s: "evt_seq e = row_seq r" using ok r(1,5) event_of_deliverable by (auto simp: db_ok_def)
  show ?thesis
  proof (cases "row_seq r \<le> ob_head ob")
    case True
    then have "e \<in> set (due E (sq_db q) (ob_start ob) (ob_head ob))" using r by (auto simp: due_def)
    then show ?thesis using assms(4) by (auto simp: caught_up_def)
  next
    case False
    then have "flr < row_seq r" using assms(3) r(1) by (force simp: outbox_ok_def)
    then have "e \<in> set (due E (sq_db q) flr (sq_last_seen q))" using r e(2) by (auto simp: due_def)
    then have "e \<in> set (concat (drop p (sq_events q)))" using assms(2) unfolding live_ok_def by blast
    then have "e \<in> set (consumed p (sq_events q) ob)" using all s r(4) by metis
    then show ?thesis using assms(4) False r(3) s by (simp add: caught_up_def)
  qed
qed

lemma no_gap:
  assumes "seq_ok E q" "live_ok E q flr p" "outbox_ok E q flr p ob"
  shows "set (due E (sq_db q) (ob_start ob) (ob_last_seen ob)) \<subseteq> set (ob_yielded ob)"
proof (cases "catching_up E (sq_db q) ob")
  case True
  then show ?thesis by (simp add: catching_up_def)
next
  case False
  then have cu: "caught_up E (sq_db q) p (sq_events q) ob" using assms(3) by (simp add: outbox_ok_def)
  show ?thesis
  proof (cases "ob_last_seen ob \<le> max (ob_start ob) (ob_head ob)")
    case True
    then have "set (due E (sq_db q) (ob_start ob) (ob_last_seen ob)) \<subseteq> set (due E (sq_db q) (ob_start ob) (ob_head ob))"
      by (auto simp: due_def)
    then show ?thesis using cu by (auto simp: caught_up_def)
  next
    case last: False
    then obtain x where x: "x \<in> set (consumed p (sq_events q) ob)" "evt_seq x = ob_last_seen ob" using cu by (auto simp: caught_up_def)
    have split: "concat (drop p (sq_events q)) = consumed p (sq_events q) ob @ concat (drop (ob_receiver ob - p) (drop p (sq_events q)))"
      unfolding consumed_def by (metis append_take_drop_id concat_append)
    have srt: "sorted_wrt (\<lambda>e e'. evt_seq e < evt_seq e') (consumed p (sq_events q) ob @ concat (drop (ob_receiver ob - p) (drop p (sq_events q))))"
      using seq_ok_drop[OF assms(1), of p] unfolding split .
    have "\<forall>e\<in>set (concat (drop p (sq_events q))). evt_seq e \<le> ob_last_seen ob \<longrightarrow> e \<in> set (consumed p (sq_events q) ob)"
      using srt x unfolding split sorted_wrt_append by fastforce
    moreover have "ob_last_seen ob \<le> sq_last_seen q"
    proof -
      have "set (consumed p (sq_events q) ob) \<subseteq> set (concat (sq_events q))"
        unfolding consumed_def by (auto dest!: in_set_takeD in_set_dropD)
      then have "x \<in> set (concat (sq_events q))" using x(1) by blast
      then show ?thesis using x(2) assms(1) unfolding seq_ok_def by metis
    qed
    ultimately show ?thesis using due_consumed[OF assms cu] by blast
  qed
qed

section \<open>Catching up\<close>

text \<open>The turns of the loop and of the subscriber alone: nothing is sequenced, and the table is as it was.\<close>

definition deliver :: "seq_ext \<Rightarrow> nat \<Rightarrow> firehose \<Rightarrow> firehose \<Rightarrow> bool" where
  "deliver E capacity s s' \<longleftrightarrow>
     fh_db s' = fh_db s \<and> sq_destroyed (fh_seq s') = sq_destroyed (fh_seq s) \<and> (firehose_step E capacity (\<lambda>_. False))\<^sup>*\<^sup>* s s'"

lemma deliver_refl [simp]: "deliver E capacity s s"
  by (simp add: deliver_def)










section \<open>Events that are lost\<close>

lemma event_of_row_seq: "event_of_row E r = Inr (Some e) \<Longrightarrow> evt_seq e = row_seq r"
  by (auto simp: event_of_row_def Let_def split: if_splits option.splits)

lemma request_above:
  assumes "request_seq_range E (Some a) b t l db = Inr es" "e \<in> set es"
  shows "a < evt_seq e"
proof -
  obtain xs where xs: "res_map (event_of_row E) (seq_rows (Some a) b t l db) = Inr xs" "es = List.map_filter id xs"
    using assms(1) by (auto simp: request_seq_range_def res_bind_eq_Inr_iff)
  have "res_map f rs = Inr ys \<Longrightarrow> y \<in> set ys \<Longrightarrow> \<exists>r\<in>set rs. f r = Inr y" for f and rs :: "repo_seq list" and ys :: "seq_evt option list" and y
    by (induction rs arbitrary: ys) (auto simp: res_bind_eq_Inr_iff)
  moreover have "Some e \<in> set xs" using assms(2) unfolding xs(2) by (induction xs) (auto simp: List.map_filter_simps split: option.splits)
  ultimately obtain r where r: "r \<in> set (seq_rows (Some a) b t l db)" "event_of_row E r = Inr (Some e)" using xs(1) by blast
  have "seq_rows (Some a) b t l db = (case l of None \<Rightarrow> seq_rows (Some a) b t None db
      | Some n \<Rightarrow> if n < 0 then seq_rows (Some a) b t None db else take (nat n) (seq_rows (Some a) b t None db))"
    by (cases l) (simp_all add: seq_rows_def Let_def)
  then have "set (seq_rows (Some a) b t l db) \<subseteq> set (seq_rows (Some a) b t None db)"
    by (auto split: option.splits if_splits dest: in_set_takeD)
  also have "\<dots> \<subseteq> {r. a < row_seq r}" by (auto simp: seq_rows_def)
  finally have "a < row_seq r" using r(1) by blast
  then show ?thesis using event_of_row_seq[OF r(2)] by simp
qed

lemma fold_yield_frame:
  "set (ob_yielded (fold yield_event b ob)) \<subseteq> set (ob_yielded ob) \<union> set b" "ob_phase (fold yield_event b ob) = ob_phase ob"
  "ob_receiver (fold yield_event b ob) = ob_receiver ob"
proof (induction b arbitrary: ob)
  case (Cons e b)
  have y: "set (ob_yielded (yield_event e ob)) \<subseteq> insert e (set (ob_yielded ob))" for ob by (auto simp: yield_event_def)
  { case 1 then show ?case using Cons.IH(1)[of "yield_event e ob"] y[of ob] by auto }
  { case 2 then show ?case using Cons.IH(2)[of "yield_event e ob"] by (simp add: yield_event_def) }
  { case 3 then show ?case using Cons.IH(3)[of "yield_event e ob"] by (simp add: yield_event_def) }
qed simp_all

text \<open>A subscriber in the live phase, on a channel that has moved on past \<open>h\<close>.\<close>

definition past :: "int \<Rightarrow> nat \<Rightarrow> firehose \<Rightarrow> bool" where
  "past h k s \<longleftrightarrow>
     h \<le> sq_last_seen (fh_seq s) \<and> (\<forall>e\<in>set (concat (drop k (sq_events (fh_seq s)))). h < evt_seq e) \<and> k \<le> length (sq_events (fh_seq s)) \<and>
     (\<exists>ob. fh_outbox s = Some ob \<and> ob_phase ob \<noteq> Backfill \<and> k \<le> ob_receiver ob \<and> (\<forall>e\<in>set (ob_yielded ob). h < evt_seq e))"

lemma past_poll:
  assumes "h \<le> sq_last_seen q"
  shows "h \<le> sq_last_seen (poll E q) \<and> (\<exists>es. sq_events (poll E q) = sq_events q @ es \<and> (\<forall>e\<in>set (concat es). h < evt_seq e))"
proof (cases "request_seq_range E (Some (sq_last_seen q)) None None (Some 1000) (sq_db q)")
  case (Inl e)
  then show ?thesis using assms by (intro conjI exI[of _ "[]"]) (simp_all add: poll_def)
next
  case (Inr es)
  have above: "sq_last_seen q < evt_seq e" if "e \<in> set es" for e using request_above[OF Inr that] .
  show ?thesis
  proof (cases "sq_destroyed q \<or> es = []")
    case True
    then show ?thesis using assms Inr by (intro conjI exI[of _ "[]"]) (auto simp: poll_def)
  next
    case False
    then have "poll E q = q\<lparr>sq_last_seen := evt_seq (last es), sq_events := sq_events q @ [es]\<rparr>" using Inr by (simp add: poll_def)
    moreover have "h \<le> evt_seq (last es)" using above[of "last es"] assms False by simp
    moreover have "\<forall>e\<in>set (concat [es]). h < evt_seq e" using above assms by fastforce
    ultimately show ?thesis by (intro conjI exI[of _ "[es]"]) simp_all
  qed
qed

lemma past_step: "firehose_step E capacity P s s' \<Longrightarrow> past h k s \<Longrightarrow> past h k s'"
proof (induction rule: firehose_step.induct)
  case (Poll s)
  then have "h \<le> sq_last_seen (fh_seq s)" by (simp add: past_def)
  from past_poll[OF this, of E] obtain es where es: "h \<le> sq_last_seen (poll E (fh_seq s))"
    "sq_events (poll E (fh_seq s)) = sq_events (fh_seq s) @ es" "\<forall>e\<in>set (concat es). h < evt_seq e" by blast
  then show ?case using Poll by (auto simp: past_def)
next
  case (Receive s ob closed)
  let ?log = "sq_events (fh_seq s)"
  have ob: "k \<le> ob_receiver ob" "\<forall>e\<in>set (ob_yielded ob). h < evt_seq e" using Receive by (auto simp: past_def)
  have "h < evt_seq e" if "ob_receiver ob < length ?log" "e \<in> set (?log ! ob_receiver ob)" for e
  proof -
    have "?log ! ob_receiver ob \<in> set (drop k ?log)" using that(1) ob(1) by (auto simp: in_set_conv_nth intro!: exI[of _ "ob_receiver ob - k"])
    then show ?thesis using that(2) Receive.prems by (auto simp: past_def)
  qed
  then have "past h k (s\<lparr>fh_outbox := Some ((fold yield_event (?log ! ob_receiver ob) ob)\<lparr>ob_receiver := Suc (ob_receiver ob)\<rparr>)\<rparr>)"
    if "ob_receiver ob < length ?log"
    using that Receive ob fold_yield_frame[of "?log ! ob_receiver ob" ob] by (auto simp: past_def)
  then show ?case using Receive ob by (auto simp: receive_def past_def Let_def)
qed (auto simp: past_def with_db_def)

lemma past_steps: "(firehose_step E capacity P)\<^sup>*\<^sup>* s s' \<Longrightarrow> past h k s \<Longrightarrow> past h k s'"
  by (induction rule: rtranclp_induct) (auto intro: past_step)

lemma unlisted_page:
  assumes "\<forall>r\<in>set (seq_rows a b t l db). event_of_row E r = Inr None"
  shows "request_seq_range E a b t l db = Inr []"
proof -
  have "res_map (event_of_row E) (seq_rows a b t l db) = Inr (map (\<lambda>_. None) (seq_rows a b t l db))"
    using assms by (intro res_map_Inr) simp
  moreover have "List.map_filter id (map (\<lambda>_. None :: seq_evt option) xs) = []" for xs :: "repo_seq list"
    by (induction xs) (simp_all add: List.map_filter_simps)
  ultimately show ?thesis by (simp add: request_seq_range_def)
qed

section \<open>Properties\<close>

text \<open>C15. The stream of a subscriber has no repeats and no gaps: in every interleaving of sequencing, polling,
  invalidation, deletion and delivery, what has been yielded is in strictly ascending order of sequence
  numbers and lies above the cursor, and every row of the table that is valid and lies between the cursor and
  the last event yielded has been yielded; with a cursor of none, the head that was read takes its place.\<close>

theorem outbox_no_gaps_no_repeats:
  assumes "reachable E capacity (deliverable E) s" "fh_outbox s = Some ob"
  shows "sorted_wrt (\<lambda>e e'. evt_seq e < evt_seq e') (ob_yielded ob) \<and>
    (\<forall>e\<in>set (ob_yielded ob). ob_start ob < evt_seq e \<and> evt_seq e \<le> ob_last_seen ob) \<and>
    (\<forall>r\<in>set (sd_rows (fh_db s)). row_valid r \<and> ob_start ob < row_seq r \<and> row_seq r \<le> ob_last_seen ob \<longrightarrow>
       (\<exists>e\<in>set (ob_yielded ob). event_of_row E r = Inr (Some e)))"
proof -
  obtain flr p where o: "seq_ok E (fh_seq s)" "live_ok E (fh_seq s) flr p" "outbox_ok E (fh_seq s) flr p ob"
    by (rule inv_outbox[OF inv_reachable[OF assms(1)] assms(2)])
  have "\<exists>e\<in>set (ob_yielded ob). event_of_row E r = Inr (Some e)"
    if r: "r \<in> set (sd_rows (fh_db s))" "row_valid r" "ob_start ob < row_seq r" "row_seq r \<le> ob_last_seen ob" for r
  proof -
    have "deliverable E r" using o(1) r(1) by (simp add: seq_ok_def db_ok_def)
    moreover have "row_event E r \<in> set (ob_yielded ob)" using no_gap[OF o] r by (auto simp: due_def)
    ultimately show ?thesis using event_of_deliverable by blast
  qed
  then show ?thesis using o(3) by (auto simp: outbox_ok_def yielded_ok_def)
qed


text \<open>An instance: the bytes of an event are its text, and one identity event is in the table.\<close>

definition demo_events :: seq_ext where
  "demo_events =
     \<lparr>commit_evt_enc = (\<lambda>_. Inr []), handle_evt_enc = (\<lambda>_. Inr []), identity_evt_enc = (\<lambda>_. Inr []), account_evt_enc = (\<lambda>_. Inr []),
      sync_evt_enc = (\<lambda>_. Inr []), commit_evt_dec = (\<lambda>_. None), identity_evt_dec = (\<lambda>b. Some \<lparr>ie_did = map enc_byte b, ie_handle = None\<rparr>),
      account_evt_dec = (\<lambda>_. None), sync_evt_dec = (\<lambda>_. None)\<rparr>"

definition demo_row :: "string \<Rightarrow> int \<Rightarrow> repo_seq" where
  "demo_row ty n = \<lparr>sq_seq = Some n, sq_did = ''d'', sq_event_type = ty, sq_event = [], sq_invalidated = Some 0, sq_sequenced_at = ''t''\<rparr>"

definition demo_firehose :: "repo_seq list \<Rightarrow> int \<Rightarrow> firehose" where
  "demo_firehose rows n =
     \<lparr>fh_seq = start_polling \<lparr>sq_db = \<lparr>sd_rows = rows, sd_autoincrement = n\<rparr>, sq_last_seen = 0, sq_destroyed = False, sq_events = []\<rparr>,
      fh_live = None, fh_outbox = None\<rparr>"

lemma demo_open:
  assumes "db_ok P \<lparr>sd_rows = rows, sd_autoincrement = n\<rparr>"
  shows "reachable E capacity P (demo_firehose rows n\<lparr>fh_live := Some 0, fh_outbox := Some (outbox_events cursor 0 (fh_seq (demo_firehose rows n)))\<rparr>)"
proof -
  let ?s = "demo_firehose rows n"
  have "firehose_start P ?s" using assms by (auto simp: firehose_start_def demo_firehose_def)
  moreover have "firehose_step E capacity P ?s (?s\<lparr>fh_live := Some 0\<rparr>)"
    using Subscribe[of ?s E capacity P] by (simp add: demo_firehose_def subscribe_def start_polling_def)
  moreover have "firehose_step E capacity P (?s\<lparr>fh_live := Some 0\<rparr>)
      (?s\<lparr>fh_live := Some 0, fh_outbox := Some (outbox_events cursor 0 (fh_seq ?s))\<rparr>)"
    using Open[of "?s\<lparr>fh_live := Some 0\<rparr>" 0 E capacity P cursor] by (simp add: demo_firehose_def)
  ultimately show ?thesis unfolding reachable_def by (meson converse_rtranclp_into_rtranclp r_into_rtranclp)
qed

lemma demo_deliverable: "deliverable demo_events (demo_row ''identity'' n)"
  by (simp add: deliverable_def demo_row_def demo_events_def)

lemma row_seq_demo [simp]: "row_seq (demo_row ty n) = n"
  by (simp add: row_seq_def demo_row_def)

lemma demo_one_ok: "db_ok (deliverable demo_events) \<lparr>sd_rows = [demo_row ''identity'' 1], sd_autoincrement = 1\<rparr>"
  using demo_deliverable by (simp add: db_ok_def)


theorem outbox_no_gaps_no_repeats_witness:
  "\<exists>s ob. reachable demo_events 1 (deliverable demo_events) s \<and> fh_outbox s = Some ob \<and> ob_yielded ob \<noteq> [] \<and>
     sorted_wrt (\<lambda>e e'. evt_seq e < evt_seq e') (ob_yielded ob)"
proof -
  let ?s = "demo_firehose [demo_row ''identity'' 1] 1"
  let ?ob = "outbox_events (Some 0) 0 (fh_seq ?s)"
  let ?s1 = "?s\<lparr>fh_live := Some 0, fh_outbox := Some ?ob\<rparr>"
  let ?s2 = "?s1\<lparr>fh_outbox := Some (backfill_page demo_events (fh_db ?s1) ?ob)\<rparr>"
  have "firehose_step demo_events 1 (deliverable demo_events) ?s1 ?s2" by (rule Page) (simp_all add: outbox_events_def Let_def)
  then have r: "reachable demo_events 1 (deliverable demo_events) ?s2"
    using demo_open[OF demo_one_ok] unfolding reachable_def by (meson rtranclp.rtrancl_into_rtrancl)
  have "ob_yielded (backfill_page demo_events (fh_db ?s1) ?ob) \<noteq> []"
    using request_due(1)[OF demo_one_ok, of 500 0 1]
    by (simp add: backfill_page_def outbox_events_def demo_firehose_def start_polling_def Let_def curr_seq_def PAGE_SIZE_def due_def row_valid_def demo_row_def row_seq_def)
  then show ?thesis using outbox_no_gaps_no_repeats[OF r, of "backfill_page demo_events (fh_db ?s1) ?ob"] r by auto
qed

text \<open>Rows of a type the stream does not carry can hide events for good: when the next page of the backlog
  holds only such rows, the subscriber leaves the backlog, and no event up to the head it had read is ever
  delivered to it, although the table holds valid rows there. This needs the loop to have passed the head and
  nothing to be waiting in the channel, as is so when nothing was sequenced since the subscription.\<close>

theorem unlisted_rows_hide_events:
  assumes "fh_outbox s = Some ob" "ob_phase ob = Backfill" "ob_yielded ob = []" "ob_last_seen ob < ob_head ob"
    and "\<forall>r\<in>set (seq_rows (Some (ob_last_seen ob)) (Some (ob_head ob)) None (Some PAGE_SIZE) (fh_db s)). event_of_row E r = Inr None"
    and "ob_head ob \<le> sq_last_seen (fh_seq s)" "ob_receiver ob = length (sq_events (fh_seq s))"
    and "(firehose_step E capacity P)\<^sup>*\<^sup>* (s\<lparr>fh_outbox := Some (backfill_page E (fh_db s) ob)\<rparr>) s'" "fh_outbox s' = Some ob'"
  shows "\<forall>e\<in>set (ob_yielded ob'). ob_head ob < evt_seq e"
proof -
  have page: "backfill_page E (fh_db s) ob = ob\<lparr>ob_phase := Live\<rparr>"
    using unlisted_page[OF assms(5)] by (simp add: backfill_page_def)
  then have "past (ob_head ob) (ob_receiver ob) (s\<lparr>fh_outbox := Some (backfill_page E (fh_db s) ob)\<rparr>)"
    using assms(3,6,7) by (simp add: past_def)
  from past_steps[OF assms(8) this] show ?thesis using assms(9) by (simp add: past_def)
qed

definition handle_rows :: "repo_seq list" where
  "handle_rows = map (\<lambda>i. demo_row ''handle'' (int i)) [1..<501] @ [demo_row ''identity'' 501]"

lemma handle_rows_ok: "db_ok (\<lambda>_. True) \<lparr>sd_rows = handle_rows, sd_autoincrement = 501\<rparr>"
  using sorted_wrt_upt[of 1 501] by (auto simp: db_ok_def handle_rows_def sorted_wrt_append sorted_wrt_map simp del: upt_rec_numeral)

theorem unlisted_rows_hide_events_witness:
  "\<exists>s ob. reachable demo_events 1 (\<lambda>_. True) s \<and> fh_outbox s = Some ob \<and> ob_start ob = 0 \<and> ob_phase ob = Backfill \<and>
     demo_row ''identity'' 501 \<in> set (sd_rows (fh_db s)) \<and>
     (\<forall>s' ob'. (firehose_step demo_events 1 (\<lambda>_. True))\<^sup>*\<^sup>* (s\<lparr>fh_outbox := Some (backfill_page demo_events (fh_db s) ob)\<rparr>) s' \<and> fh_outbox s' = Some ob' \<longrightarrow>
        (\<forall>e\<in>set (ob_yielded ob'). evt_seq e \<noteq> 501))"
proof -
  let ?s = "demo_firehose handle_rows 501"
  let ?ob = "outbox_events (Some 0) 0 (fh_seq ?s)"
  let ?s0 = "?s\<lparr>fh_live := Some 0, fh_outbox := Some ?ob\<rparr>"
  have db: "fh_db ?s0 = \<lparr>sd_rows = handle_rows, sd_autoincrement = 501\<rparr>" by (simp add: demo_firehose_def start_polling_def)
  have "curr_seq \<lparr>sd_rows = handle_rows, sd_autoincrement = 501\<rparr> = Some 501"
    using db_ok_sort[OF handle_rows_ok, of "\<lambda>_. True"] by (simp add: curr_seq_def) (simp add: handle_rows_def)
  then have ob: "ob_head ?ob = 501" "ob_last_seen ?ob = 0" "ob_phase ?ob = Backfill" "ob_yielded ?ob = []" "ob_receiver ?ob = 0" "ob_start ?ob = 0"
    "sq_last_seen (fh_seq ?s0) = 501" "sq_events (fh_seq ?s0) = []"
    by (simp_all add: outbox_events_def demo_firehose_def start_polling_def ob_start_def Let_def)
  have "seq_rows (Some 0) (Some 501) None (Some PAGE_SIZE) (fh_db ?s0) = take 500 (filter (\<lambda>r. row_valid r \<and> 0 < row_seq r \<and> row_seq r \<le> 501) handle_rows)"
    unfolding db using db_ok_sort[OF handle_rows_ok] by (simp add: seq_rows_def PAGE_SIZE_def)
  also have "filter (\<lambda>r. row_valid r \<and> 0 < row_seq r \<and> row_seq r \<le> 501) handle_rows = handle_rows"
    by (auto simp: filter_id_conv handle_rows_def row_valid_def demo_row_def row_seq_def)
  also have "take 500 handle_rows = map (\<lambda>i. demo_row ''handle'' (int i)) [1..<501]" by (simp add: handle_rows_def)
  finally have rows: "\<forall>r\<in>set (seq_rows (Some 0) (Some 501) None (Some PAGE_SIZE) (fh_db ?s0)). event_of_row demo_events r = Inr None"
    by (simp add: event_of_row_def demo_row_def)
  have "\<forall>e\<in>set (ob_yielded ob'). evt_seq e \<noteq> 501"
    if "(firehose_step demo_events 1 (\<lambda>_. True))\<^sup>*\<^sup>* (?s0\<lparr>fh_outbox := Some (backfill_page demo_events (fh_db ?s0) ?ob)\<rparr>) s'" "fh_outbox s' = Some ob'" for s' ob'
    using unlisted_rows_hide_events[of ?s0 ?ob demo_events 1 "\<lambda>_. True" s' ob'] rows ob that by auto
  moreover have "demo_row ''identity'' 501 \<in> set (sd_rows (fh_db ?s0))" unfolding db by (simp add: handle_rows_def)
  moreover have "reachable demo_events 1 (\<lambda>_. True) ?s0" by (rule demo_open[OF handle_rows_ok])
  moreover have "fh_outbox ?s0 = Some ?ob" by simp
  ultimately show ?thesis using ob(3,6) by blast
qed

end
