(* ===== verification/Admission.thy ===== *)
theory Admission
  imports Prelude
begin

text \<open>
  \<open>rsky-pds/src/admission.rs\<close>: which actors this process may write, and in what state. The TOML parser is
  a library, so \<open>parse_allowlist\<close> starts from what it returns, the struct \<open>AllowlistFile\<close>, or nothing when the
  text is not TOML of that shape; a hash map is the list of its entries in the order it iterates them.
\<close>

section \<open>States\<close>

datatype admission_state = AdmActive | AdmDraining | AdmMaintenance string | AdmAbsent

fun admission_name :: "admission_state \<Rightarrow> string" where
  "admission_name AdmActive = ''active''"
| "admission_name AdmDraining = ''draining''"
| "admission_name (AdmMaintenance _) = ''maintenance''"
| "admission_name AdmAbsent = ''absent''"

fun workflow_id :: "admission_state \<Rightarrow> string option" where
  "workflow_id (AdmMaintenance w) = Some w"
| "workflow_id _ = None"

record not_admitted =
  na_did :: string
  na_state :: string

section \<open>The file\<close>

datatype entry_file = EntryNamed string | EntryMaintenance string string

record allowlist_file =
  af_version :: nat
  af_default :: "string option"
  af_entries :: "(string \<times> entry_file) list"

datatype allowlist_error =
    NotToml
  | UnsupportedVersion nat
  | NeedsWorkflowId
  | UnknownState string
  | WorkflowIdOn string
  | EmptyWorkflowId
  | NotADid string
  | Unreadable

definition parse_named :: "string \<Rightarrow> allowlist_error + admission_state" where
  "parse_named name =
     (if name = ''active'' then Inr AdmActive
      else if name = ''draining'' then Inr AdmDraining
      else if name = ''absent'' then Inr AdmAbsent
      else if name = ''maintenance'' then Inl NeedsWorkflowId
      else Inl (UnknownState name))"

fun entry_state :: "entry_file \<Rightarrow> allowlist_error + admission_state" where
  "entry_state (EntryNamed name) = parse_named name"
| "entry_state (EntryMaintenance state wid) =
     (if state \<noteq> ''maintenance'' then Inl (WorkflowIdOn state)
      else if wid = [] then Inl EmptyWorkflowId
      else Inr (AdmMaintenance wid))"

record allowlist =
  al_default :: admission_state
  al_entries :: "string \<rightharpoonup> admission_state"

definition al_unrestricted :: allowlist where
  "al_unrestricted = \<lparr>al_default = AdmActive, al_entries = Map.empty\<rparr>"

fun entries_loop :: "(string \<times> entry_file) list \<Rightarrow> (string \<rightharpoonup> admission_state) \<Rightarrow> allowlist_error + (string \<rightharpoonup> admission_state)" where
  "entries_loop [] m = Inr m"
| "entries_loop ((did, entry) # es) m =
     (if \<not> starts_with did ''did:'' then Inl (NotADid did)
      else res_bind (entry_state entry) (\<lambda>state. entries_loop es (m(did \<mapsto> state))))"

definition parse_allowlist :: "allowlist_file option \<Rightarrow> allowlist_error + allowlist" where
  "parse_allowlist toml =
     (case toml of
        None \<Rightarrow> Inl NotToml
      | Some file \<Rightarrow>
          if af_version file \<noteq> 1 then Inl (UnsupportedVersion (af_version file))
          else res_bind (case af_default file of Some name \<Rightarrow> parse_named name | None \<Rightarrow> Inr AdmAbsent) (\<lambda>dflt.
               res_bind (entries_loop (af_entries file) Map.empty) (\<lambda>entries.
                 Inr \<lparr>al_default = dflt, al_entries = entries\<rparr>)))"

definition al_state_of :: "allowlist \<Rightarrow> string \<Rightarrow> admission_state" where
  "al_state_of al did = (case al_entries al did of Some s \<Rightarrow> s | None \<Rightarrow> al_default al)"

section \<open>The live allowlist\<close>

text \<open>
  A file as the operating system shows it: unreadable, or its modification time and its parsed text.
\<close>

type_synonym allowlist_source = "(nat \<times> allowlist_file option) option"

record admission =
  ad_source :: bool
  ad_current :: allowlist
  ad_loaded :: "nat option"

definition ad_unrestricted :: admission where
  "ad_unrestricted = \<lparr>ad_source = False, ad_current = al_unrestricted, ad_loaded = None\<rparr>"

definition read_allowlist :: "allowlist_source \<Rightarrow> allowlist_error + allowlist \<times> nat" where
  "read_allowlist src =
     (case src of
        None \<Rightarrow> Inl Unreadable
      | Some (modified, toml) \<Rightarrow> res_bind (parse_allowlist toml) (\<lambda>al. Inr (al, modified)))"

definition ad_from_file :: "allowlist_source \<Rightarrow> allowlist_error + admission" where
  "ad_from_file src =
     res_bind (read_allowlist src) (\<lambda>(al, modified). Inr \<lparr>ad_source = True, ad_current = al, ad_loaded = Some modified\<rparr>)"

definition ad_reload :: "allowlist_source \<Rightarrow> admission \<Rightarrow> (allowlist_error + bool) \<times> admission" where
  "ad_reload src ad =
     (if \<not> ad_source ad then (Inr False, ad)
      else (case src of
              None \<Rightarrow> (Inl Unreadable, ad)
            | Some (modified, _) \<Rightarrow>
                if ad_loaded ad = Some modified then (Inr False, ad)
                else (case read_allowlist src of
                        Inl e \<Rightarrow> (Inl e, ad)
                      | Inr (al, modified') \<Rightarrow> (Inr True, ad\<lparr>ad_current := al, ad_loaded := Some modified'\<rparr>))))"

definition state_of :: "admission \<Rightarrow> string \<Rightarrow> admission_state" where
  "state_of ad did = al_state_of (ad_current ad) did"

definition refuse :: "string \<Rightarrow> admission_state \<Rightarrow> not_admitted" where
  "refuse did state = \<lparr>na_did = did, na_state = admission_name state\<rparr>"

definition admit_mutation :: "admission \<Rightarrow> string \<Rightarrow> not_admitted + unit" where
  "admit_mutation ad did =
     (case al_state_of (ad_current ad) did of AdmActive \<Rightarrow> Inr () | state \<Rightarrow> Inl (refuse did state))"

definition admit_worker :: "admission \<Rightarrow> string \<Rightarrow> not_admitted + unit" where
  "admit_worker ad did =
     (case al_state_of (ad_current ad) did of AdmAbsent \<Rightarrow> Inl (refuse did AdmAbsent) | _ \<Rightarrow> Inr ())"

definition admit_maintenance :: "admission \<Rightarrow> string \<Rightarrow> string \<Rightarrow> not_admitted + unit" where
  "admit_maintenance ad did wid =
     (case al_state_of (ad_current ad) did of
        AdmMaintenance held \<Rightarrow> if held = wid then Inr () else Inl (refuse did (AdmMaintenance held))
      | state \<Rightarrow> Inl (refuse did state))"

section \<open>One writer at a time\<close>

lemma admit_mutation_iff: "is_ok (admit_mutation ad did) \<longleftrightarrow> state_of ad did = AdmActive"
  by (auto simp: admit_mutation_def state_of_def split: admission_state.splits)

lemma admit_worker_iff: "is_ok (admit_worker ad did) \<longleftrightarrow> state_of ad did \<noteq> AdmAbsent"
  by (auto simp: admit_worker_def state_of_def split: admission_state.splits)

lemma admit_maintenance_iff: "is_ok (admit_maintenance ad did w) \<longleftrightarrow> state_of ad did = AdmMaintenance w"
  by (auto simp: admit_maintenance_def state_of_def split: admission_state.splits)

text \<open>A mutation is admitted to workers too, and never beside a maintenance workflow.\<close>

lemma admission_exclusive:
  "is_ok (admit_mutation ad did) \<Longrightarrow> is_ok (admit_worker ad did) \<and> \<not> is_ok (admit_maintenance ad did w)"
  "is_ok (admit_maintenance ad did w) \<Longrightarrow> is_ok (admit_maintenance ad did w') \<longleftrightarrow> w' = w"
  by (auto simp: admit_mutation_iff admit_worker_iff admit_maintenance_iff)

lemma entries_loop_ok:
  assumes "entries_loop es m = Inr m'" "distinct (map fst es)"
  shows "m' did = (case map_of es did of None \<Rightarrow> m did | Some entry \<Rightarrow> Some (projr (entry_state entry)))
       \<and> (\<forall>(d, entry) \<in> set es. is_ok (entry_state entry) \<and> starts_with d ''did:'')"
  using assms
proof (induction es arbitrary: m)
  case (Cons e es)
  obtain d entry where e: "e = (d, entry)" by (cases e)
  obtain st where st: "entry_state entry = Inr st" "starts_with d ''did:''" "entries_loop es (m(d \<mapsto> st)) = Inr m'"
    using Cons.prems(1) by (auto simp: e split: if_splits elim!: res_bind_Inr_E)
  have "map_of es d = None" using Cons.prems(2) by (auto simp: e map_of_eq_None_iff)
  then show ?case using Cons.IH[OF st(3)] Cons.prems(2) st by (auto simp: e split: option.splits)
qed simp

end
