(* ===== verification/Session_Token.thy ===== *)
theory Session_Token
  imports Prelude
begin

text \<open>
  Session tokens: \<open>rsky-pds/src/account_manager/helpers/auth.rs\<close> up to \<open>decode_refresh_token_with\<close>, and
  \<open>AuthScope\<close> of \<open>auth_verifier.rs\<close>. The record \<open>jwt_ext\<close> holds what libraries do: the two signature
  schemes, unpadded URL-safe base64, and JSON. A header is what the code reads of it, the strings under
  \<open>typ\<close> and \<open>alg\<close> if there are any; \<open>str_lower\<close> is Unicode lower-casing.
\<close>

section \<open>Scopes\<close>

datatype auth_scope = ScopeAccess | ScopeRefresh | ScopeAppPass | ScopeAppPassPrivileged | ScopeSignupQueued | ScopeTakendown

fun scope_str :: "auth_scope \<Rightarrow> string" where
  "scope_str ScopeAccess = ''com.atproto.access''"
| "scope_str ScopeRefresh = ''com.atproto.refresh''"
| "scope_str ScopeAppPass = ''com.atproto.appPass''"
| "scope_str ScopeAppPassPrivileged = ''com.atproto.appPassPrivileged''"
| "scope_str ScopeSignupQueued = ''com.atproto.signupQueued''"
| "scope_str ScopeTakendown = ''com.atproto.takendown''"

definition scope_from_str :: "string \<Rightarrow> auth_scope option" where
  "scope_from_str s =
     (if s = ''com.atproto.access'' then Some ScopeAccess
      else if s = ''com.atproto.refresh'' then Some ScopeRefresh
      else if s = ''com.atproto.appPass'' then Some ScopeAppPass
      else if s = ''com.atproto.appPassPrivileged'' then Some ScopeAppPassPrivileged
      else if s = ''com.atproto.signupQueued'' then Some ScopeSignupQueued
      else if s = ''com.atproto.takendown'' then Some ScopeTakendown
      else None)"

definition is_privileged :: "auth_scope \<Rightarrow> bool" where
  "is_privileged s \<longleftrightarrow> s = ScopeAccess \<or> s = ScopeAppPassPrivileged"

record app_pass_descript =
  apd_name :: string
  apd_privileged :: bool

definition format_scope :: "app_pass_descript option \<Rightarrow> bool \<Rightarrow> auth_scope" where
  "format_scope app_password is_soft_deleted =
     (if is_soft_deleted then ScopeTakendown
      else case app_password of
             None \<Rightarrow> ScopeAccess
           | Some p \<Rightarrow> if apd_privileged p then ScopeAppPassPrivileged else ScopeAppPass)"

section \<open>Claims\<close>

datatype aud_value = AudString string | AudArray "string option list" | AudOther

record session_claims =
  sc_scope :: string
  sc_sub :: "string option"
  sc_aud :: "aud_value option"
  sc_exp :: "nat option"
  sc_nbf :: "nat option"
  sc_iat :: "nat option"
  sc_jti :: "string option"
  sc_lxm :: "string option"
  sc_cnf :: bool

definition has_audience :: "session_claims \<Rightarrow> string \<Rightarrow> bool" where
  "has_audience c audience =
     (case sc_aud c of
        Some (AudString aud) \<Rightarrow> aud = audience
      | Some (AudArray auds) \<Rightarrow> list_ex (\<lambda>aud. aud = Some audience) auds
      | _ \<Rightarrow> False)"

definition claims_audience :: "session_claims \<Rightarrow> string option" where
  "claims_audience c = (case sc_aud c of Some (AudString aud) \<Rightarrow> Some aud | _ \<Rightarrow> None)"

record verify_options =
  vo_audience :: "string option"
  vo_allow_expired :: bool

definition default_options :: verify_options where
  "default_options = \<lparr>vo_audience = None, vo_allow_expired = False\<rparr>"

datatype session_token_error = TokenExpired | TokenInvalid | TokenMalformed

section \<open>Signing and verifying\<close>

datatype jwt_signer = Hmac bytes | K256 nat

record jwt_ext =
  hmac_sha256 :: "bytes \<Rightarrow> string \<Rightarrow> bytes"
  ecdsa_sign :: "nat \<Rightarrow> string \<Rightarrow> bytes"
  ecdsa_valid :: "nat \<Rightarrow> string \<Rightarrow> bytes \<Rightarrow> bool"
  key_of_hex :: "string \<Rightarrow> nat option"
  str_bytes :: "string \<Rightarrow> bytes"
  b64_encode :: "bytes \<Rightarrow> string"
  b64_decode :: "string \<Rightarrow> bytes option"
  header_json :: "string \<Rightarrow> string \<Rightarrow> bytes"
  header_parse :: "bytes \<Rightarrow> (string option \<times> string option) option"
  claims_json :: "session_claims \<Rightarrow> bytes"
  claims_parse :: "bytes \<Rightarrow> session_claims option"
  str_lower :: "string \<Rightarrow> string"

text \<open>The shared secret wins when both are configured.\<close>

definition from_config :: "jwt_ext \<Rightarrow> string option \<Rightarrow> string option \<Rightarrow> jwt_signer option" where
  "from_config J secret hex =
     (case secret of
        Some s \<Rightarrow> Some (Hmac (str_bytes J s))
      | None \<Rightarrow> (case hex of None \<Rightarrow> None | Some h \<Rightarrow> map_option K256 (key_of_hex J h)))"

fun signer_alg :: "jwt_signer \<Rightarrow> string" where
  "signer_alg (Hmac _) = ''HS256''"
| "signer_alg (K256 _) = ''ES256K''"

fun signature :: "jwt_ext \<Rightarrow> jwt_signer \<Rightarrow> string \<Rightarrow> bytes" where
  "signature J (Hmac secret) input = hmac_sha256 J secret input"
| "signature J (K256 k) input = ecdsa_sign J k input"

fun signature_is_valid :: "jwt_ext \<Rightarrow> jwt_signer \<Rightarrow> string \<Rightarrow> bytes \<Rightarrow> bool" where
  "signature_is_valid J (Hmac secret) input sig \<longleftrightarrow> hmac_sha256 J secret input = sig"
| "signature_is_valid J (K256 k) input sig \<longleftrightarrow> ecdsa_valid J k input sig"

definition jwt_sign :: "jwt_ext \<Rightarrow> jwt_signer \<Rightarrow> string \<Rightarrow> session_claims \<Rightarrow> string" where
  "jwt_sign J S typ claims =
     (let input = b64_encode J (header_json J typ (signer_alg S)) @ ''.'' @ b64_encode J (claims_json J claims)
      in input @ ''.'' @ b64_encode J (signature J S input))"

function trim_start_matches :: "string \<Rightarrow> string \<Rightarrow> string" where
  "trim_start_matches s p = (if p \<noteq> [] \<and> starts_with s p then trim_start_matches (drop (length p) s) p else s)"
  by auto

lemma starts_with_length: "starts_with s p \<Longrightarrow> length p \<le> length s"
  by (metis linear starts_with_def take_all_iff)

termination trim_start_matches
proof (relation "measure (length \<circ> fst)", simp, goal_cases)
  case (1 s p)
  then have "0 < length p" "length p \<le> length s" using starts_with_length[of s p] by auto
  then have "length s - length p < length s" by linarith
  then show ?case by simp
qed

declare trim_start_matches.simps [simp del]

definition normalize_typ :: "jwt_ext \<Rightarrow> string \<Rightarrow> string" where
  "normalize_typ J typ = trim_start_matches (str_lower J typ) ''application/''"

text \<open>The part of the token before its last dot.\<close>

definition signing_input :: "string \<Rightarrow> string" where
  "signing_input jwt = (let n = length (takeWhile (\<lambda>c. c \<noteq> CHR ''.'') (rev jwt))
     in if n = length jwt then jwt else take (length jwt - n - 1) jwt)"

definition check_claims :: "nat \<Rightarrow> verify_options \<Rightarrow> session_claims \<Rightarrow> session_token_error + session_claims" where
  "check_claims now opts c =
     (if sc_lxm c \<noteq> None \<or> sc_cnf c then Inl TokenMalformed
      else if (case sc_nbf c of Some nbf \<Rightarrow> nbf > now | None \<Rightarrow> False) then Inl TokenInvalid
      else if \<not> vo_allow_expired opts \<and> \<not> (case sc_exp c of Some e \<Rightarrow> e > now | None \<Rightarrow> False) then Inl TokenExpired
      else if (case vo_audience opts of Some a \<Rightarrow> \<not> has_audience c a | None \<Rightarrow> False) then Inl TokenInvalid
      else Inr c)"

definition typ_accepted :: "jwt_ext \<Rightarrow> jwt_signer \<Rightarrow> string \<Rightarrow> string option \<Rightarrow> bool" where
  "typ_accepted J S expected typ \<longleftrightarrow>
     (case typ of Some t \<Rightarrow> normalize_typ J t = normalize_typ J expected | None \<Rightarrow> False) \<or>
     (case S of K256 _ \<Rightarrow> typ = None \<or> typ = Some ''JWT'' | Hmac _ \<Rightarrow> False)"

definition jwt_verify ::
    "jwt_ext \<Rightarrow> nat \<Rightarrow> jwt_signer \<Rightarrow> string \<Rightarrow> string \<Rightarrow> verify_options \<Rightarrow> session_token_error + session_claims" where
  "jwt_verify J now S jwt expected_typ opts =
     (case split_on CHR ''.'' jwt of
        [h, p, s] \<Rightarrow>
          (case Option.bind (b64_decode J h) (header_parse J) of
             None \<Rightarrow> Inl TokenInvalid
           | Some (typ, alg) \<Rightarrow>
               if alg \<noteq> Some (signer_alg S) then Inl TokenInvalid
               else if \<not> typ_accepted J S expected_typ typ then Inl TokenInvalid
               else (case b64_decode J s of
                       None \<Rightarrow> Inl TokenInvalid
                     | Some sig \<Rightarrow>
                         if \<not> signature_is_valid J S (signing_input jwt) sig then Inl TokenInvalid
                         else (case Option.bind (b64_decode J p) (claims_parse J) of
                                 None \<Rightarrow> Inl TokenInvalid
                               | Some c \<Rightarrow> check_claims now opts c)))
      | _ \<Rightarrow> Inl TokenInvalid)"

section \<open>Issuing\<close>

definition ACCESS_TOKEN_TYP :: string where
  "ACCESS_TOKEN_TYP = ''at+jwt''"

definition REFRESH_TOKEN_TYP :: string where
  "REFRESH_TOKEN_TYP = ''refresh+jwt''"

definition ACCESS_TOKEN_LIFETIME_SECS :: nat where
  "ACCESS_TOKEN_LIFETIME_SECS = 2 * 60 * 60"

definition REFRESH_TOKEN_LIFETIME_SECS :: nat where
  "REFRESH_TOKEN_LIFETIME_SECS = 90 * 24 * 60 * 60"

record create_tokens_opts =
  ct_did :: string
  ct_service_did :: string
  ct_scope :: "auth_scope option"
  ct_jti :: "string option"
  ct_expires_in_secs :: "nat option"
  ct_issued_at :: "nat option"

text \<open>Times are \<open>u64\<close>: the sum of the time of issue and the lifetime wraps.\<close>

definition expiry :: "nat \<Rightarrow> nat option \<Rightarrow> nat \<Rightarrow> nat" where
  "expiry iat expires_in lifetime = (iat + (case expires_in of Some e \<Rightarrow> e | None \<Rightarrow> lifetime)) mod 2 ^ 64"

definition access_claims :: "nat \<Rightarrow> create_tokens_opts \<Rightarrow> session_claims" where
  "access_claims now opts =
     (let iat = (case ct_issued_at opts of Some t \<Rightarrow> t | None \<Rightarrow> now)
      in \<lparr>sc_scope = scope_str (case ct_scope opts of Some s \<Rightarrow> s | None \<Rightarrow> ScopeAccess), sc_sub = Some (ct_did opts),
          sc_aud = Some (AudString (ct_service_did opts)),
          sc_exp = Some (expiry iat (ct_expires_in_secs opts) ACCESS_TOKEN_LIFETIME_SECS),
          sc_nbf = None, sc_iat = Some iat, sc_jti = None, sc_lxm = None, sc_cnf = False\<rparr>)"

definition create_access_token :: "jwt_ext \<Rightarrow> nat \<Rightarrow> jwt_signer \<Rightarrow> create_tokens_opts \<Rightarrow> string" where
  "create_access_token J now S opts = jwt_sign J S ACCESS_TOKEN_TYP (access_claims now opts)"

definition refresh_claims :: "nat \<Rightarrow> string \<Rightarrow> create_tokens_opts \<Rightarrow> session_claims" where
  "refresh_claims now fresh_id opts =
     (let iat = (case ct_issued_at opts of Some t \<Rightarrow> t | None \<Rightarrow> now)
      in \<lparr>sc_scope = scope_str ScopeRefresh, sc_sub = Some (ct_did opts), sc_aud = Some (AudString (ct_service_did opts)),
          sc_exp = Some (expiry iat (ct_expires_in_secs opts) REFRESH_TOKEN_LIFETIME_SECS),
          sc_nbf = None, sc_iat = Some iat,
          sc_jti = Some (case ct_jti opts of Some j \<Rightarrow> j | None \<Rightarrow> fresh_id), sc_lxm = None, sc_cnf = False\<rparr>)"

definition create_refresh_token :: "jwt_ext \<Rightarrow> nat \<Rightarrow> string \<Rightarrow> jwt_signer \<Rightarrow> create_tokens_opts \<Rightarrow> string" where
  "create_refresh_token J now fresh_id S opts = jwt_sign J S REFRESH_TOKEN_TYP (refresh_claims now fresh_id opts)"

definition create_tokens :: "jwt_ext \<Rightarrow> nat \<Rightarrow> string \<Rightarrow> jwt_signer \<Rightarrow> create_tokens_opts \<Rightarrow> string \<times> string" where
  "create_tokens J now fresh_id S opts =
     (create_access_token J now S (opts\<lparr>ct_jti := None\<rparr>),
      create_refresh_token J now fresh_id S (opts\<lparr>ct_scope := None\<rparr>))"

record refresh_token =
  rf_scope :: auth_scope
  rf_sub :: string
  rf_exp :: nat
  rf_jti :: string

datatype decode_error = SessionErr session_token_error | BadScope string | NotRefresh | NoSubject | NoExpiry | NoTokenId

definition decode_refresh_token :: "jwt_ext \<Rightarrow> nat \<Rightarrow> jwt_signer \<Rightarrow> string \<Rightarrow> decode_error + refresh_token" where
  "decode_refresh_token J now S jwt =
     (case jwt_verify J now S jwt REFRESH_TOKEN_TYP default_options of
        Inl e \<Rightarrow> Inl (SessionErr e)
      | Inr c \<Rightarrow>
          (case scope_from_str (sc_scope c) of
             None \<Rightarrow> Inl (BadScope (sc_scope c))
           | Some scope \<Rightarrow>
               if scope \<noteq> ScopeRefresh then Inl NotRefresh
               else res_bind (of_option NoSubject (sc_sub c)) (\<lambda>sub.
                    res_bind (of_option NoExpiry (sc_exp c)) (\<lambda>e.
                    res_bind (of_option NoTokenId (sc_jti c)) (\<lambda>jti.
                      Inr \<lparr>rf_scope = scope, rf_sub = sub, rf_exp = e, rf_jti = jti\<rparr>)))))"

section \<open>Issued tokens\<close>

text \<open>
  What the code relies on: base64 and JSON read back what they wrote, base64 text has no dot, each scheme
  accepts its own signature, and lower-casing leaves the two token types alone.
\<close>

definition jwt_ok :: "jwt_ext \<Rightarrow> bool" where
  "jwt_ok J \<longleftrightarrow>
     (\<forall>b. b64_decode J (b64_encode J b) = Some b) \<and> (\<forall>b. CHR ''.'' \<notin> set (b64_encode J b)) \<and>
     (\<forall>t a. header_parse J (header_json J t a) = Some (Some t, Some a)) \<and>
     (\<forall>now opts. claims_parse J (claims_json J (access_claims now opts)) = Some (access_claims now opts)) \<and>
     (\<forall>now fid opts. claims_parse J (claims_json J (refresh_claims now fid opts)) = Some (refresh_claims now fid opts)) \<and>
     (\<forall>k i. ecdsa_valid J k i (ecdsa_sign J k i)) \<and>
     str_lower J ACCESS_TOKEN_TYP = ACCESS_TOKEN_TYP \<and> str_lower J REFRESH_TOKEN_TYP = REFRESH_TOKEN_TYP"

lemma scope_round_trip [simp]: "scope_from_str (scope_str s) = Some s"
  by (cases s) (simp_all add: scope_from_str_def)

lemma trim_start_other [simp]:
  "\<not> starts_with s p \<Longrightarrow> trim_start_matches s p = s"
  by (simp add: trim_start_matches.simps)

lemma normalize_typs:
  assumes "jwt_ok J"
  shows "normalize_typ J ACCESS_TOKEN_TYP = ''at+jwt''" "normalize_typ J REFRESH_TOKEN_TYP = ''refresh+jwt''"
  using assms by (simp_all add: normalize_typ_def jwt_ok_def ACCESS_TOKEN_TYP_def REFRESH_TOKEN_TYP_def starts_with_def)

lemma three_parts:
  assumes "CHR ''.'' \<notin> set a" "CHR ''.'' \<notin> set b" "CHR ''.'' \<notin> set c"
  shows "split_on CHR ''.'' ((a @ ''.'' @ b) @ ''.'' @ c) = [a, b, c]"
  using split_on_join[of "[a, b, c]" "CHR ''.''"] assms by auto

lemma signing_input_of:
  assumes "CHR ''.'' \<notin> set s"
  shows "signing_input (i @ ''.'' @ s) = i"
proof -
  have "takeWhile (\<lambda>c. c \<noteq> CHR ''.'') (rev (i @ ''.'' @ s)) = rev s"
    using assms by (simp, subst takeWhile_append2) auto
  then show ?thesis by (simp add: signing_input_def)
qed

lemma own_signature [simp]: "jwt_ok J \<Longrightarrow> signature_is_valid J S i (signature J S i)"
  by (cases S) (auto simp: jwt_ok_def)

lemma verify_signed:
  assumes "jwt_ok J" "claims_parse J (claims_json J c) = Some c"
  shows "jwt_verify J now S (jwt_sign J S' typ c) expected opts =
    (if signer_alg S = signer_alg S' \<and> typ_accepted J S expected (Some typ) then
       (let i = b64_encode J (header_json J typ (signer_alg S')) @ ''.'' @ b64_encode J (claims_json J c)
        in if signature_is_valid J S i (signature J S' i) then check_claims now opts c else Inl TokenInvalid)
     else Inl TokenInvalid)"
proof -
  let ?h = "b64_encode J (header_json J typ (signer_alg S'))" and ?p = "b64_encode J (claims_json J c)"
  let ?s = "b64_encode J (signature J S' (?h @ ''.'' @ ?p))"
  have dots: "CHR ''.'' \<notin> set ?h" "CHR ''.'' \<notin> set ?p" "CHR ''.'' \<notin> set ?s" using assms by (auto simp: jwt_ok_def)
  have jwt: "jwt_sign J S' typ c = (?h @ ''.'' @ ?p) @ ''.'' @ ?s" by (simp add: jwt_sign_def Let_def)
  have "split_on CHR ''.'' (jwt_sign J S' typ c) = [?h, ?p, ?s]" unfolding jwt by (rule three_parts[OF dots])
  moreover have "signing_input (jwt_sign J S' typ c) = ?h @ ''.'' @ ?p" unfolding jwt by (rule signing_input_of[OF dots(3)])
  ultimately show ?thesis using assms by (simp add: jwt_verify_def jwt_ok_def Let_def)
qed

lemma verify_issued:
  assumes "jwt_ok J"
  shows "jwt_verify J now S (create_access_token J t S opts) expected vopts =
      (if typ_accepted J S expected (Some ACCESS_TOKEN_TYP) then check_claims now vopts (access_claims t opts) else Inl TokenInvalid)"
    "jwt_verify J now S (create_refresh_token J t fid S opts) expected vopts =
      (if typ_accepted J S expected (Some REFRESH_TOKEN_TYP) then check_claims now vopts (refresh_claims t fid opts) else Inl TokenInvalid)"
  using assms verify_signed[OF assms] by (simp_all add: create_access_token_def create_refresh_token_def jwt_ok_def Let_def)

lemma other_scheme_refused:
  assumes "jwt_ok J" "signer_alg S' \<noteq> signer_alg S"
  shows "jwt_verify J now S' (create_access_token J t S opts) expected vopts = Inl TokenInvalid"
    "jwt_verify J now S' (create_refresh_token J t fid S opts) expected vopts = Inl TokenInvalid"
  using assms verify_signed[OF assms(1)] by (simp_all add: create_access_token_def create_refresh_token_def jwt_ok_def)

lemma own_typ_accepted:
  assumes "jwt_ok J"
  shows "typ_accepted J S ACCESS_TOKEN_TYP (Some ACCESS_TOKEN_TYP)" "typ_accepted J S REFRESH_TOKEN_TYP (Some REFRESH_TOKEN_TYP)"
    "\<not> typ_accepted J S ACCESS_TOKEN_TYP (Some REFRESH_TOKEN_TYP)" "\<not> typ_accepted J S REFRESH_TOKEN_TYP (Some ACCESS_TOKEN_TYP)"
  by (cases S; simp add: typ_accepted_def normalize_typs[OF assms]; simp add: ACCESS_TOKEN_TYP_def REFRESH_TOKEN_TYP_def)+

lemma decode_issued_refresh:
  assumes "jwt_ok J"
  shows "decode_refresh_token J now S (create_refresh_token J t fid S opts) =
    (let c = refresh_claims t fid opts
     in if now < the (sc_exp c) then
          Inr \<lparr>rf_scope = ScopeRefresh, rf_sub = ct_did opts, rf_exp = the (sc_exp c), rf_jti = the (sc_jti c)\<rparr>
        else Inl (SessionErr TokenExpired))"
  by (simp add: decode_refresh_token_def verify_issued(2)[OF assms] own_typ_accepted[OF assms] check_claims_def refresh_claims_def
      default_options_def Let_def del: scope_str.simps)

end
