(* ===== verification/Account_Db.thy ===== *)
theory Account_Db
  imports Record_Index Admission Session_Token Seq_Events
begin

text \<open>
  The account database of \<open>rsky-pds/src/account_manager/db.rs\<close> and the helpers that read and write it
  (\<open>helpers/account.rs\<close>, \<open>repo.rs\<close>, \<open>invite.rs\<close>, \<open>email_token.rs\<close>, \<open>password.rs\<close>, \<open>auth.rs\<close>). A table is the
  list of its rows; columns the helpers neither read nor write are left out, so an OAuth \<open>token\<close> is its id
  and its DID. A statement that would break a primary key or a unique index fails with \<open>SqlUnique\<close>; a
  failed call leaves the database as it was. The record \<open>account_ext\<close> holds the clock's text format, the
  password hashes and Unicode case mapping; instants are microseconds.
\<close>

section \<open>Tables\<close>

record actor_row =
  ac_did :: string
  ac_handle :: "string option"
  ac_created_at :: string
  ac_takedown_ref :: "string option"
  ac_deactivated_at :: "string option"
  ac_delete_after :: "string option"

record account_row =
  an_did :: string
  an_email :: string
  an_password :: string
  an_email_confirmed_at :: "string option"
  an_invites_disabled :: int

record app_password_row =
  ap_did :: string
  ap_name :: string
  ap_password :: string
  ap_created_at :: string
  ap_privileged :: int

record refresh_row =
  rf_id :: string
  rf_did :: string
  rf_expires_at :: string
  rf_next_id :: "string option"
  rf_app_password_name :: "string option"

record invite_row =
  iv_code :: string
  iv_available_uses :: int
  iv_disabled :: int
  iv_for_account :: string
  iv_created_by :: string
  iv_created_at :: string

record invite_use =
  iu_code :: string
  iu_used_by :: string
  iu_used_at :: string

datatype email_token_purpose = ConfirmEmail | UpdateEmail | ResetPassword | DeleteAccount | PlcOperation

record email_token =
  et_purpose :: email_token_purpose
  et_did :: string
  et_token :: string
  et_requested_at :: string

record account_db =
  a_actor :: "actor_row list"
  a_account :: "account_row list"
  a_app_password :: "app_password_row list"
  a_refresh :: "refresh_row list"
  a_invite :: "invite_row list"
  a_invite_use :: "invite_use list"
  a_email_token :: "email_token list"
  a_repo_root :: "root_row list"
  a_token :: "(int \<times> string) list"
  a_authorized_client :: "(string \<times> string) list"
  a_account_device :: "(string \<times> string) list"

datatype account_error =
    UserAlreadyExists
  | SqlUnique
  | AdmissionErr not_admitted
  | InviteNoneOrDisabled string
  | InviteNotEnoughUses string
  | DuplicateCreate
  | TokenDecode decode_error
  | EmailTokenInvalid
  | EmailTokenExpired
  | BadTime
  | CouldNotCreateAppPassword
  | ConcurrentRefresh
  | StatusPanic

record account_ext =
  rfc3339 :: "int \<Rightarrow> string"
  in_calendar :: "int \<Rightarrow> bool"
  parse_micros :: "string \<Rightarrow> int option"
  to_lower :: "string \<Rightarrow> string"
  to_upper :: "string \<Rightarrow> string"
  salted_hash :: "string \<Rightarrow> string \<Rightarrow> string"
  password_matches :: "string \<Rightarrow> string \<Rightarrow> bool"
  app_password_hash :: "string \<Rightarrow> string \<Rightarrow> string"
  legacy_app_password_hash :: "string \<Rightarrow> string \<Rightarrow> string"
  ax_jwt :: jwt_ext
  ax_signer :: jwt_signer
  ax_service_did :: string

text \<open>SQLite's \<open>lower\<close> maps ASCII letters only.\<close>

definition sql_lower :: "string \<Rightarrow> string" where
  "sql_lower s = map to_ascii_lowercase s"

section \<open>Accounts\<close>

record availability_flags =
  include_taken_down :: "bool option"
  include_deactivated :: "bool option"

record actor_account =
  aa_did :: string
  aa_handle :: "string option"
  aa_created_at :: string
  aa_takedown_ref :: "string option"
  aa_deactivated_at :: "string option"
  aa_delete_after :: "string option"
  aa_email :: "string option"
  aa_email_confirmed_at :: "string option"
  aa_invites_disabled :: "int option"

definition account_of :: "string \<Rightarrow> account_db \<Rightarrow> account_row option" where
  "account_of did db = List.find (\<lambda>a. an_did a = did) (a_account db)"

text \<open>A row of the \<open>LEFT JOIN\<close>.\<close>

definition actor_account_from_row :: "account_db \<Rightarrow> actor_row \<Rightarrow> actor_account" where
  "actor_account_from_row db r =
     (let a = account_of (ac_did r) db
      in \<lparr>aa_did = ac_did r, aa_handle = ac_handle r, aa_created_at = ac_created_at r, aa_takedown_ref = ac_takedown_ref r,
          aa_deactivated_at = ac_deactivated_at r, aa_delete_after = ac_delete_after r, aa_email = map_option an_email a,
          aa_email_confirmed_at = Option.bind a an_email_confirmed_at, aa_invites_disabled = map_option an_invites_disabled a\<rparr>)"

definition available :: "availability_flags option \<Rightarrow> actor_row \<Rightarrow> bool" where
  "available flags r \<longleftrightarrow>
     (let td = (case flags of None \<Rightarrow> False | Some f \<Rightarrow> include_taken_down f = Some True);
          da = (case flags of None \<Rightarrow> False | Some f \<Rightarrow> include_deactivated f = Some True)
      in (td \<or> ac_takedown_ref r = None) \<and> (da \<or> ac_deactivated_at r = None))"

definition get_account :: "string \<Rightarrow> availability_flags option \<Rightarrow> account_db \<Rightarrow> actor_account option" where
  "get_account handle_or_did flags db =
     map_option (actor_account_from_row db)
       (List.find (\<lambda>r. (if starts_with handle_or_did ''did:'' then ac_did r = handle_or_did else ac_handle r = Some handle_or_did)
          \<and> available flags r) (a_actor db))"

definition get_account_by_email :: "account_ext \<Rightarrow> string \<Rightarrow> availability_flags option \<Rightarrow> account_db \<Rightarrow> actor_account option" where
  "get_account_by_email E email flags db =
     map_option (actor_account_from_row db)
       (List.find (\<lambda>r. map_option an_email (account_of (ac_did r) db) = Some (to_lower E email) \<and> available flags r) (a_actor db))"

definition DAY_MICROS :: int where
  "DAY_MICROS = 24 * 60 * 60 * 1000 * 1000"

definition handle_taken :: "string \<Rightarrow> string option \<Rightarrow> account_db \<Rightarrow> bool" where
  "handle_taken handle except db \<longleftrightarrow>
     list_ex (\<lambda>r. map_option sql_lower (ac_handle r) = Some (sql_lower handle) \<and> Some (ac_did r) \<noteq> except) (a_actor db)"

definition register_actor_in :: "account_ext \<Rightarrow> int \<Rightarrow> string \<Rightarrow> string \<Rightarrow> bool option \<Rightarrow> account_db \<Rightarrow> account_error + account_db" where
  "register_actor_in E now did handle deactivated db =
     (let created_at = rfc3339 E now;
          row = \<lparr>ac_did = did, ac_handle = Some handle, ac_created_at = created_at, ac_takedown_ref = None,
                 ac_deactivated_at = (if deactivated = Some True then Some created_at else None),
                 ac_delete_after = (if deactivated = Some True then Some (rfc3339 E (now + 3 * DAY_MICROS)) else None)\<rparr>
      in if list_ex (\<lambda>r. ac_did r = did) (a_actor db) then Inl UserAlreadyExists
         else if handle_taken handle None db then Inl SqlUnique
         else Inr (db\<lparr>a_actor := a_actor db @ [row]\<rparr>))"

definition email_taken :: "string \<Rightarrow> string option \<Rightarrow> account_db \<Rightarrow> bool" where
  "email_taken email except db \<longleftrightarrow>
     list_ex (\<lambda>r. sql_lower (an_email r) = sql_lower email \<and> Some (an_did r) \<noteq> except) (a_account db)"

definition register_account_in :: "string \<Rightarrow> string \<Rightarrow> string \<Rightarrow> account_db \<Rightarrow> account_error + account_db" where
  "register_account_in did email password db =
     (let row = \<lparr>an_did = did, an_email = email, an_password = password, an_email_confirmed_at = None, an_invites_disabled = 0\<rparr>
      in if list_ex (\<lambda>r. an_did r = did) (a_account db) then Inl UserAlreadyExists
         else if email_taken email None db then Inl SqlUnique
         else Inr (db\<lparr>a_account := a_account db @ [row]\<rparr>))"

text \<open>Deleting an account row cascades to \<open>authorized_client\<close> and \<open>account_device\<close>.\<close>

definition db_delete_account :: "string \<Rightarrow> account_db \<Rightarrow> nat \<times> account_db" where
  "db_delete_account did db =
     (let cascades = list_ex (\<lambda>r. an_did r = did) (a_account db);
          keep = (\<lambda>xs. if cascades then filter (\<lambda>(d, _). d \<noteq> did) xs else xs)
      in (length (filter (\<lambda>(_, d). d = did) (a_token db)),
          db\<lparr>a_repo_root := filter (\<lambda>r. rt_did r \<noteq> did) (a_repo_root db),
             a_email_token := filter (\<lambda>r. et_did r \<noteq> did) (a_email_token db),
             a_refresh := filter (\<lambda>r. rf_did r \<noteq> did) (a_refresh db),
             a_token := filter (\<lambda>(_, d). d \<noteq> did) (a_token db),
             a_account := filter (\<lambda>r. an_did r \<noteq> did) (a_account db),
             a_authorized_client := keep (a_authorized_client db), a_account_device := keep (a_account_device db),
             a_actor := filter (\<lambda>r. ac_did r \<noteq> did) (a_actor db)\<rparr>))"

definition update_actor :: "string \<Rightarrow> (actor_row \<Rightarrow> actor_row) \<Rightarrow> account_db \<Rightarrow> account_db" where
  "update_actor did f db = db\<lparr>a_actor := map (\<lambda>r. if ac_did r = did then f r else r) (a_actor db)\<rparr>"

definition update_account :: "string \<Rightarrow> (account_row \<Rightarrow> account_row) \<Rightarrow> account_db \<Rightarrow> account_db" where
  "update_account did f db = db\<lparr>a_account := map (\<lambda>r. if an_did r = did then f r else r) (a_account db)\<rparr>"

definition update_account_takedown_status :: "account_ext \<Rightarrow> int \<Rightarrow> string \<Rightarrow> status_attr \<Rightarrow> account_db \<Rightarrow> account_db" where
  "update_account_takedown_status E now did takedown db =
     (let ref = (if sa_applied takedown then Some (case sa_ref takedown of Some r \<Rightarrow> r | None \<Rightarrow> rfc3339 E now) else None)
      in update_actor did (ac_takedown_ref_update (\<lambda>_. ref)) db)"

definition db_deactivate_account :: "account_ext \<Rightarrow> int \<Rightarrow> string \<Rightarrow> string option \<Rightarrow> account_db \<Rightarrow> account_db" where
  "db_deactivate_account E now did delete_after db =
     update_actor did (\<lambda>r. r\<lparr>ac_deactivated_at := Some (rfc3339 E now), ac_delete_after := delete_after\<rparr>) db"

definition db_activate_account :: "string \<Rightarrow> account_db \<Rightarrow> account_db" where
  "db_activate_account did db = update_actor did (\<lambda>r. r\<lparr>ac_deactivated_at := None, ac_delete_after := None\<rparr>) db"

definition db_update_email :: "account_ext \<Rightarrow> string \<Rightarrow> string \<Rightarrow> account_db \<Rightarrow> account_error + account_db" where
  "db_update_email E did email db =
     (let email = to_lower E email
      in if account_of did db \<noteq> None \<and> email_taken email (Some did) db then Inl UserAlreadyExists
         else Inr (update_account did (\<lambda>r. r\<lparr>an_email := email, an_email_confirmed_at := None\<rparr>) db))"

definition db_update_handle :: "string \<Rightarrow> string \<Rightarrow> account_db \<Rightarrow> account_error + account_db" where
  "db_update_handle did handle db =
     (let updates = list_ex (\<lambda>r. ac_did r = did) (a_actor db) \<and> \<not> list_ex (\<lambda>r. ac_handle r = Some handle) (a_actor db)
      in if updates \<and> handle_taken handle (Some did) db then Inl SqlUnique
         else if \<not> updates then Inl UserAlreadyExists
         else Inr (update_actor did (ac_handle_update (\<lambda>_. Some handle)) db))"

definition set_email_confirmed_at :: "string \<Rightarrow> string \<Rightarrow> account_db \<Rightarrow> account_db" where
  "set_email_confirmed_at did at db = update_account did (an_email_confirmed_at_update (\<lambda>_. Some at)) db"

definition db_get_account_admin_status :: "string \<Rightarrow> account_db \<Rightarrow> (status_attr \<times> status_attr) option" where
  "db_get_account_admin_status did db =
     (case List.find (\<lambda>r. ac_did r = did) (a_actor db) of
        None \<Rightarrow> None
      | Some r \<Rightarrow> Some (\<lparr>sa_applied = (ac_takedown_ref r \<noteq> None), sa_ref = ac_takedown_ref r\<rparr>,
                      \<lparr>sa_applied = (ac_deactivated_at r \<noteq> None), sa_ref = None\<rparr>))"

record formatted_account_status =
  fs_active :: bool
  fs_status :: "account_status option"

definition format_account_status :: "actor_account option \<Rightarrow> formatted_account_status" where
  "format_account_status account =
     (case account of
        None \<Rightarrow> \<lparr>fs_active = False, fs_status = Some Deleted\<rparr>
      | Some got \<Rightarrow>
          if aa_takedown_ref got \<noteq> None then \<lparr>fs_active = False, fs_status = Some Takendown\<rparr>
          else if aa_deactivated_at got \<noteq> None then \<lparr>fs_active = False, fs_status = Some Deactivated\<rparr>
          else \<lparr>fs_active = True, fs_status = None\<rparr>)"

section \<open>Repository roots\<close>

definition get_root :: "string \<Rightarrow> account_db \<Rightarrow> (string \<times> string) option" where
  "get_root did db = map_option (\<lambda>r. (rt_cid r, rt_rev r)) (List.find (\<lambda>r. rt_did r = did) (a_repo_root db))"

definition update_root_in :: "string \<Rightarrow> string \<Rightarrow> string \<Rightarrow> string \<Rightarrow> account_db \<Rightarrow> account_db" where
  "update_root_in did c rv now db =
     db\<lparr>a_repo_root :=
       (if list_ex (\<lambda>r. rt_did r = did) (a_repo_root db)
        then map (\<lambda>r. if rt_did r = did then r\<lparr>rt_cid := c, rt_rev := rv\<rparr> else r) (a_repo_root db)
        else a_repo_root db @ [\<lparr>rt_did = did, rt_cid = c, rt_rev = rv, rt_indexed_at = now\<rparr>])\<rparr>"

section \<open>Invites\<close>

text \<open>The join with \<open>actor\<close> is a \<open>LEFT JOIN\<close>: a code is found whatever its account's state.\<close>

definition find_invite :: "string \<Rightarrow> account_db \<Rightarrow> invite_row option" where
  "find_invite code db = List.find (\<lambda>i. iv_code i = code) (a_invite db)"

definition invite_uses :: "string \<Rightarrow> account_db \<Rightarrow> nat" where
  "invite_uses code db = length (filter (\<lambda>u. iu_code u = code) (a_invite_use db))"

definition ensure_invite_is_available_in :: "string \<Rightarrow> account_db \<Rightarrow> account_error + unit" where
  "ensure_invite_is_available_in code db =
     (case find_invite code db of
        None \<Rightarrow> Inl (InviteNoneOrDisabled code)
      | Some invite \<Rightarrow>
          if iv_disabled invite > 0 then Inl (InviteNoneOrDisabled code)
          else if iv_available_uses invite \<le> int (invite_uses code db) then Inl (InviteNotEnoughUses code)
          else Inr ())"

definition record_invite_use_in :: "string \<Rightarrow> string option \<Rightarrow> string \<Rightarrow> account_db \<Rightarrow> account_error + account_db" where
  "record_invite_use_in did invite_code now db =
     (case invite_code of
        None \<Rightarrow> Inr db
      | Some code \<Rightarrow>
          if list_ex (\<lambda>u. iu_code u = code \<and> iu_used_by u = did) (a_invite_use db) then Inl SqlUnique
          else Inr (db\<lparr>a_invite_use := a_invite_use db @ [\<lparr>iu_code = code, iu_used_by = did, iu_used_at = now\<rparr>]\<rparr>))"

definition insert_invite_code :: "invite_row \<Rightarrow> account_db \<Rightarrow> account_error + account_db" where
  "insert_invite_code row db =
     (if find_invite (iv_code row) db \<noteq> None then Inl SqlUnique else Inr (db\<lparr>a_invite := a_invite db @ [row]\<rparr>))"

definition insert_invite_codes :: "invite_row list \<Rightarrow> account_db \<Rightarrow> account_error + account_db" where
  "insert_invite_codes rows db = res_fold insert_invite_code rows db"

definition db_create_invite_codes :: "account_ext \<Rightarrow> int \<Rightarrow> (string \<times> string list) list \<Rightarrow> int \<Rightarrow> account_db \<Rightarrow> account_error + account_db" where
  "db_create_invite_codes E now to_create use_count db =
     insert_invite_codes (concat (map (\<lambda>(account, codes). map (\<lambda>code.
        \<lparr>iv_code = code, iv_available_uses = use_count, iv_disabled = 0, iv_for_account = account, iv_created_by = ''admin'',
         iv_created_at = rfc3339 E now\<rparr>) codes) to_create)) db"

record code_use =
  cu_used_by :: string
  cu_used_at :: string

record code_detail =
  ci_code :: string
  ci_available :: int
  ci_disabled :: bool
  ci_for_account :: string
  ci_created_by :: string
  ci_created_at :: string
  ci_uses :: "code_use list"

definition code_detail_of :: "invite_row \<Rightarrow> code_use list \<Rightarrow> code_detail" where
  "code_detail_of i uses =
     \<lparr>ci_code = iv_code i, ci_available = iv_available_uses i, ci_disabled = (iv_disabled i = 1), ci_for_account = iv_for_account i,
      ci_created_by = iv_created_by i, ci_created_at = iv_created_at i, ci_uses = uses\<rparr>"

definition db_create_account_invite_codes ::
    "account_ext \<Rightarrow> int \<Rightarrow> string \<Rightarrow> string list \<Rightarrow> nat \<Rightarrow> bool \<Rightarrow> account_db \<Rightarrow> account_error + code_detail list \<times> account_db" where
  "db_create_account_invite_codes E now for_account codes expected_total disabled db =
     (let rows = map (\<lambda>code. \<lparr>iv_code = code, iv_available_uses = 1, iv_disabled = (if disabled then 1 else 0),
            iv_for_account = for_account, iv_created_by = for_account, iv_created_at = rfc3339 E now\<rparr>) codes
      in res_bind (insert_invite_codes rows db) (\<lambda>db'.
           if length (filter (\<lambda>i. iv_for_account i = for_account \<and> iv_created_by i \<noteq> ''admin'') (a_invite db')) > expected_total
           then Inl DuplicateCreate
           else Inr (map (\<lambda>r. code_detail_of r []) rows, db')))"

text \<open>\<open>sort_key\<close> is stable, so the uses of one time keep the order of their rows.\<close>

definition get_invite_codes_uses :: "string list \<Rightarrow> account_db \<Rightarrow> string \<Rightarrow> code_use list" where
  "get_invite_codes_uses codes db code =
     (if code \<in> set codes
      then map (\<lambda>u. \<lparr>cu_used_by = iu_used_by u, cu_used_at = iu_used_at u\<rparr>)
             (rev (sort_key iu_used_at (rev (filter (\<lambda>u. iu_code u = code) (a_invite_use db)))))
      else [])"

definition db_get_account_invite_codes :: "string \<Rightarrow> account_db \<Rightarrow> code_detail list" where
  "db_get_account_invite_codes did db =
     (let res = filter (\<lambda>i. iv_for_account i = did) (a_invite db)
      in map (\<lambda>i. code_detail_of i (get_invite_codes_uses (map iv_code res) db (iv_code i))) res)"

definition db_set_account_invites_disabled :: "string \<Rightarrow> bool \<Rightarrow> account_db \<Rightarrow> account_db" where
  "db_set_account_invites_disabled did disabled db = update_account did (an_invites_disabled_update (\<lambda>_. if disabled then 1 else 0)) db"

definition db_disable_invite_codes :: "string list \<Rightarrow> string list \<Rightarrow> account_db \<Rightarrow> account_db" where
  "db_disable_invite_codes codes accounts db =
     db\<lparr>a_invite := map (\<lambda>i. if iv_code i \<in> set codes \<or> iv_for_account i \<in> set accounts then i\<lparr>iv_disabled := 1\<rparr> else i) (a_invite db)\<rparr>"

section \<open>Email tokens\<close>

definition SECOND :: nat where "SECOND = 1000"

definition MINUTE :: nat where "MINUTE = SECOND * 60"

definition HOUR :: nat where "HOUR = MINUTE * 60"

text \<open>Both arguments count seconds.\<close>

definition less_than_ago_s :: "nat \<Rightarrow> int \<Rightarrow> nat \<Rightarrow> bool" where
  "less_than_ago_s now_s time_s span \<longleftrightarrow> now_s < (nat (time_s mod 2 ^ 64) + span) mod 2 ^ 64"

definition secs :: "int \<Rightarrow> int" where
  "secs micros = micros div 1000000"

definition db_create_email_token ::
    "account_ext \<Rightarrow> int \<Rightarrow> string \<Rightarrow> string \<Rightarrow> email_token_purpose \<Rightarrow> account_db \<Rightarrow> account_error + string \<times> account_db" where
  "db_create_email_token E now random did purpose db =
     (let token = to_upper E random; row = \<lparr>et_purpose = purpose, et_did = did, et_token = token, et_requested_at = rfc3339 E now\<rparr>;
          mine = (\<lambda>r. et_purpose r = purpose \<and> et_did r = did)
      in if list_ex (\<lambda>r. et_purpose r = purpose \<and> et_token r = token \<and> et_did r \<noteq> did) (a_email_token db) then Inl SqlUnique
         else Inr (token, db\<lparr>a_email_token :=
             (if list_ex mine (a_email_token db) then map (\<lambda>r. if mine r then row else r) (a_email_token db)
              else a_email_token db @ [row])\<rparr>))"

definition check_email_token :: "account_ext \<Rightarrow> int \<Rightarrow> nat option \<Rightarrow> email_token option \<Rightarrow> account_error + string" where
  "check_email_token E now expiration_len res =
     (case res of
        None \<Rightarrow> Inl EmailTokenInvalid
      | Some r \<Rightarrow>
          (case parse_micros E (et_requested_at r) of
             None \<Rightarrow> Inl BadTime
           | Some t \<Rightarrow>
               if \<not> less_than_ago_s (nat (secs now)) (secs t) (case expiration_len of Some n \<Rightarrow> n | None \<Rightarrow> MINUTE * 15)
               then Inl EmailTokenExpired else Inr (et_did r)))"

definition assert_valid_token ::
    "account_ext \<Rightarrow> int \<Rightarrow> string \<Rightarrow> email_token_purpose \<Rightarrow> string \<Rightarrow> nat option \<Rightarrow> account_db \<Rightarrow> account_error + unit" where
  "assert_valid_token E now did purpose token expiration_len db =
     res_bind (check_email_token E now expiration_len
       (List.find (\<lambda>r. et_purpose r = purpose \<and> et_did r = did \<and> et_token r = to_upper E token) (a_email_token db))) (\<lambda>_. Inr ())"

definition assert_valid_token_and_find_did ::
    "account_ext \<Rightarrow> int \<Rightarrow> email_token_purpose \<Rightarrow> string \<Rightarrow> nat option \<Rightarrow> account_db \<Rightarrow> account_error + string" where
  "assert_valid_token_and_find_did E now purpose token expiration_len db =
     check_email_token E now expiration_len
       (List.find (\<lambda>r. et_purpose r = purpose \<and> et_token r = to_upper E token) (a_email_token db))"

definition delete_email_token :: "string \<Rightarrow> email_token_purpose \<Rightarrow> account_db \<Rightarrow> account_db" where
  "delete_email_token did purpose db =
     db\<lparr>a_email_token := filter (\<lambda>r. \<not> (et_did r = did \<and> et_purpose r = purpose)) (a_email_token db)\<rparr>"

definition delete_all_email_tokens :: "string \<Rightarrow> account_db \<Rightarrow> account_db" where
  "delete_all_email_tokens did db = db\<lparr>a_email_token := filter (\<lambda>r. et_did r \<noteq> did) (a_email_token db)\<rparr>"

section \<open>Passwords\<close>

definition stored_account_hash :: "string \<Rightarrow> account_db \<Rightarrow> string option" where
  "stored_account_hash did db = map_option an_password (account_of did db)"

text \<open>Hashing runs outside the database; \<open>db'\<close> is the database when it has finished.\<close>

definition verify_account_password :: "account_ext \<Rightarrow> string \<Rightarrow> string \<Rightarrow> account_db \<Rightarrow> account_db \<Rightarrow> bool" where
  "verify_account_password E did password db db' =
     (case stored_account_hash did db of
        None \<Rightarrow> False
      | Some h \<Rightarrow> password_matches E password h \<and> stored_account_hash did db' = Some h)"

definition lookup_app_password :: "string \<Rightarrow> string \<Rightarrow> account_db \<Rightarrow> app_pass_descript option" where
  "lookup_app_password did h db =
     map_option (\<lambda>r. \<lparr>apd_name = ap_name r, apd_privileged = (ap_privileged r = 1)\<rparr>)
       (List.find (\<lambda>r. ap_did r = did \<and> ap_password r = h) (a_app_password db))"

definition lookup_app_password_state :: "string \<Rightarrow> string \<Rightarrow> account_db \<Rightarrow> app_pass_descript option \<times> bool" where
  "lookup_app_password_state did h db =
     (let found = lookup_app_password did h db
      in (found, found = None \<and> list_ex (\<lambda>r. ap_did r = did \<and> starts_with (ap_password r) ''$argon2'') (a_app_password db)))"

definition lookup_app_password_pair :: "string \<Rightarrow> string \<Rightarrow> string \<Rightarrow> account_db \<Rightarrow> app_pass_descript option \<times> bool" where
  "lookup_app_password_pair did scrypt_hash legacy_hash db =
     (case lookup_app_password did scrypt_hash db of
        Some found \<Rightarrow> (Some found, False)
      | None \<Rightarrow> (let found = lookup_app_password did legacy_hash db in (found, found \<noteq> None)))"

definition finish_app_password_verification ::
    "string \<Rightarrow> string \<Rightarrow> string \<Rightarrow> account_db \<Rightarrow> app_pass_descript option \<times> account_db" where
  "finish_app_password_verification did scrypt_hash legacy_hash db =
     (case lookup_app_password_pair did scrypt_hash legacy_hash db of
        (Some found, True) \<Rightarrow>
          (Some found, db\<lparr>a_app_password := map (\<lambda>r. if ap_did r = did \<and> ap_name r = apd_name found \<and> ap_password r = legacy_hash
                                                 then r\<lparr>ap_password := scrypt_hash\<rparr> else r) (a_app_password db)\<rparr>)
      | (found, _) \<Rightarrow> (found, db))"

text \<open>\<open>db1\<close>, \<open>db2\<close> and \<open>db3\<close> are the database at the three transactions, between which hashing runs.\<close>

definition db_verify_app_password ::
    "account_ext \<Rightarrow> admission \<Rightarrow> bool \<Rightarrow> string \<Rightarrow> string \<Rightarrow> account_db \<Rightarrow> account_db \<Rightarrow> account_db \<Rightarrow> app_pass_descript option \<times> account_db" where
  "db_verify_app_password E ad read_only did password db1 db2 db3 =
     (let h = app_password_hash E did password; (found, has_legacy) = lookup_app_password_state did h db1
      in if found \<noteq> None \<or> \<not> has_legacy then (found, db3)
         else (let legacy = legacy_app_password_hash E did password; (found, matched_legacy) = lookup_app_password_pair did h legacy db2
               in if \<not> matched_legacy \<or> read_only \<or> \<not> is_ok (admit_mutation ad did) then (found, db3)
                  else finish_app_password_verification did h legacy db3))"

definition db_create_app_password ::
    "account_ext \<Rightarrow> admission \<Rightarrow> int \<Rightarrow> string \<Rightarrow> string \<Rightarrow> string \<Rightarrow> account_db \<Rightarrow> account_error + string \<times> account_db" where
  "db_create_app_password E ad now random did name db =
     (let s = to_lower E (take 16 random);
          password = join ''-'' [take 4 s, take 4 (drop 4 s), take 4 (drop 8 s), take 4 (drop 12 s)];
          row = \<lparr>ap_did = did, ap_name = name, ap_password = app_password_hash E did password, ap_created_at = rfc3339 E now, ap_privileged = 0\<rparr>
      in case admit_mutation ad did of
           Inl e \<Rightarrow> Inl (AdmissionErr e)
         | Inr _ \<Rightarrow>
             if list_ex (\<lambda>r. ap_did r = did \<and> ap_name r = name) (a_app_password db) then Inl CouldNotCreateAppPassword
             else Inr (password, db\<lparr>a_app_password := a_app_password db @ [row]\<rparr>))"

definition db_list_app_passwords :: "string \<Rightarrow> account_db \<Rightarrow> (string \<times> string \<times> bool) list" where
  "db_list_app_passwords did db =
     map (\<lambda>r. (ap_name r, ap_created_at r, ap_privileged r = 1)) (filter (\<lambda>r. ap_did r = did) (a_app_password db))"

definition update_user_password :: "string \<Rightarrow> string \<Rightarrow> account_db \<Rightarrow> account_db" where
  "update_user_password did password_encrypted db = update_account did (an_password_update (\<lambda>_. password_encrypted)) db"

definition delete_app_password :: "string \<Rightarrow> string \<Rightarrow> account_db \<Rightarrow> account_db" where
  "delete_app_password did name db =
     db\<lparr>a_app_password := filter (\<lambda>r. \<not> (ap_did r = did \<and> ap_name r = name)) (a_app_password db)\<rparr>"

section \<open>Refresh tokens\<close>

record stored_refresh_token =
  sr_id :: string
  sr_did :: string
  sr_expires_at :: string
  sr_next_id :: "string option"
  sr_app_password :: "app_pass_descript option"

definition store_refresh_token_tx :: "account_ext \<Rightarrow> refresh_token \<Rightarrow> string option \<Rightarrow> account_db \<Rightarrow> account_error + account_db" where
  "store_refresh_token_tx E payload app_password_name db =
     (let exp_micros = int (rf_exp payload) * 1000000
      in if \<not> in_calendar E exp_micros then Inl BadTime
         else if list_ex (\<lambda>r. rf_id r = rf_jti payload) (a_refresh db) then Inr db
         else Inr (db\<lparr>a_refresh := a_refresh db @ [\<lparr>rf_id = rf_jti payload, rf_did = rf_sub payload,
                rf_expires_at = rfc3339 E exp_micros, rf_next_id = None, rf_app_password_name = app_password_name\<rparr>]\<rparr>))"

definition db_revoke_refresh_token :: "string \<Rightarrow> account_db \<Rightarrow> bool \<times> account_db" where
  "db_revoke_refresh_token id' db =
     (list_ex (\<lambda>r. rf_id r = id') (a_refresh db), db\<lparr>a_refresh := filter (\<lambda>r. rf_id r \<noteq> id') (a_refresh db)\<rparr>)"

definition revoke_refresh_tokens_by_did :: "string \<Rightarrow> account_db \<Rightarrow> bool \<times> account_db" where
  "revoke_refresh_tokens_by_did did db =
     (list_ex (\<lambda>r. rf_did r = did) (a_refresh db), db\<lparr>a_refresh := filter (\<lambda>r. rf_did r \<noteq> did) (a_refresh db)\<rparr>)"

definition revoke_oauth_tokens_by_did :: "string \<Rightarrow> account_db \<Rightarrow> nat \<times> account_db" where
  "revoke_oauth_tokens_by_did did db =
     (length (filter (\<lambda>(_, d). d = did) (a_token db)), db\<lparr>a_token := filter (\<lambda>(_, d). d \<noteq> did) (a_token db)\<rparr>)"

definition revoke_app_password_refresh_token :: "string \<Rightarrow> string \<Rightarrow> account_db \<Rightarrow> bool \<times> account_db" where
  "revoke_app_password_refresh_token did name db =
     (let hit = (\<lambda>r. rf_did r = did \<and> rf_app_password_name r = Some name)
      in (list_ex hit (a_refresh db), db\<lparr>a_refresh := filter (\<lambda>r. \<not> hit r) (a_refresh db)\<rparr>))"

definition get_refresh_token :: "string \<Rightarrow> account_db \<Rightarrow> stored_refresh_token option" where
  "get_refresh_token id' db =
     map_option (\<lambda>r. \<lparr>sr_id = rf_id r, sr_did = rf_did r, sr_expires_at = rf_expires_at r, sr_next_id = rf_next_id r,
        sr_app_password = map_option (\<lambda>name. \<lparr>apd_name = name, apd_privileged =
          (map_option ap_privileged (List.find (\<lambda>p. ap_did p = rf_did r \<and> ap_name p = name) (a_app_password db)) = Some 1)\<rparr>)
          (rf_app_password_name r)\<rparr>)
       (List.find (\<lambda>r. rf_id r = id') (a_refresh db))"

definition delete_expired_refresh_tokens :: "string \<Rightarrow> string \<Rightarrow> account_db \<Rightarrow> account_db" where
  "delete_expired_refresh_tokens did now db =
     db\<lparr>a_refresh := filter (\<lambda>r. \<not> (rf_did r = did \<and> rf_expires_at r \<le> now)) (a_refresh db)\<rparr>"

definition add_refresh_grace_period_tx :: "string \<Rightarrow> string \<Rightarrow> string \<Rightarrow> account_db \<Rightarrow> account_error + account_db" where
  "add_refresh_grace_period_tx id' expires_at next_id' db =
     (let hit = (\<lambda>r. rf_id r = id' \<and> (rf_next_id r = None \<or> rf_next_id r = Some next_id'))
      in if \<not> list_ex hit (a_refresh db) then Inl ConcurrentRefresh
         else Inr (db\<lparr>a_refresh := map (\<lambda>r. if hit r then r\<lparr>rf_expires_at := expires_at, rf_next_id := Some next_id'\<rparr> else r) (a_refresh db)\<rparr>))"

definition rotate_refresh_token_rows ::
    "account_ext \<Rightarrow> string \<Rightarrow> string \<Rightarrow> string \<Rightarrow> refresh_token \<Rightarrow> string option \<Rightarrow> account_db \<Rightarrow> account_error + account_db" where
  "rotate_refresh_token_rows E id' expires_at next_id' nxt app_password_name db =
     res_bind (add_refresh_grace_period_tx id' expires_at next_id' db) (store_refresh_token_tx E nxt app_password_name)"

end
