(* ===== verification/Account_Manager.thy ===== *)
theory Account_Manager
  imports Account_Db
begin

text \<open>
  \<open>rsky-pds/src/account_manager/mod.rs\<close>: the operations of the account manager over the helpers. \<open>now\<close> is
  the instant in microseconds at which an operation runs and \<open>fresh\<close> the random text it draws. The parts
  of a \<open>try_join!\<close> run one after the other in the order they are written: each is handed to the blocking
  pool when it is first polled, so the later ones run although an earlier one fails. \<open>rotate_refresh_token\<close>
  is in two parts, before and after the tokens are made, so that other requests can run in between.
\<close>

definition admit :: "admission \<Rightarrow> string \<Rightarrow> account_error + unit" where
  "admit ad did = (case admit_mutation ad did of Inl e \<Rightarrow> Inl (AdmissionErr e) | Inr _ \<Rightarrow> Inr ())"

text \<open>An operation that is not admitted does nothing.\<close>

definition admitted :: "admission \<Rightarrow> string \<Rightarrow> (account_db \<Rightarrow> account_error + 'a \<times> account_db) \<Rightarrow> account_db \<Rightarrow> account_error + 'a \<times> account_db" where
  "admitted ad did f db = res_bind (admit ad did) (\<lambda>_. f db)"

definition unit_op :: "(account_db \<Rightarrow> account_db) \<Rightarrow> account_db \<Rightarrow> account_error + unit \<times> account_db" where
  "unit_op f db = Inr ((), f db)"

section \<open>Accounts\<close>

record create_account_opts =
  ca_did :: string
  ca_handle :: string
  ca_email :: "string option"
  ca_password :: "string option"
  ca_repo_cid :: cid
  ca_repo_rev :: string
  ca_invite_code :: "string option"
  ca_deactivated :: "bool option"

definition now_secs :: "int \<Rightarrow> nat" where
  "now_secs now = nat (secs now)"

definition new_tokens ::
    "account_ext \<Rightarrow> int \<Rightarrow> string \<Rightarrow> string \<Rightarrow> auth_scope \<Rightarrow> string option \<Rightarrow> account_error + (string \<times> string) \<times> refresh_token" where
  "new_tokens E now fresh did scope jti =
     (let opts = \<lparr>ct_did = did, ct_service_did = ax_service_did E, ct_scope = Some scope, ct_jti = jti,
                  ct_expires_in_secs = None, ct_issued_at = None\<rparr>;
          (access_jwt, refresh_jwt) = create_tokens (ax_jwt E) (now_secs now) fresh (ax_signer E) opts
      in case decode_refresh_token (ax_jwt E) (now_secs now) (ax_signer E) refresh_jwt of
           Inl e \<Rightarrow> Inl (TokenDecode e)
         | Inr payload \<Rightarrow> Inr ((access_jwt, refresh_jwt), payload))"

text \<open>The transaction of \<open>create_account_with_password_hash\<close>.\<close>

definition create_account_tx ::
    "account_ext \<Rightarrow> int \<Rightarrow> create_account_opts \<Rightarrow> string option \<Rightarrow> refresh_token \<Rightarrow> account_db \<Rightarrow> account_error + account_db" where
  "create_account_tx E now opts password_encrypted payload db =
     res_bind (case ca_invite_code opts of Some code \<Rightarrow> ensure_invite_is_available_in code db | None \<Rightarrow> Inr ()) (\<lambda>_.
     res_bind (register_actor_in E now (ca_did opts) (ca_handle opts) (ca_deactivated opts) db) (\<lambda>db1.
     res_bind (case (ca_email opts, password_encrypted) of
                 (Some email, Some password) \<Rightarrow> register_account_in (ca_did opts) email password db1
               | _ \<Rightarrow> Inr db1) (\<lambda>db2.
     res_bind (record_invite_use_in (ca_did opts) (ca_invite_code opts) (rfc3339 E now) db2) (\<lambda>db3.
     res_bind (store_refresh_token_tx E payload None db3) (\<lambda>db4.
       Inr (update_root_in (ca_did opts) (ca_repo_cid opts) (ca_repo_rev opts) (rfc3339 E now) db4))))))"

definition create_account_with_password_hash ::
    "account_ext \<Rightarrow> admission \<Rightarrow> int \<Rightarrow> string \<Rightarrow> create_account_opts \<Rightarrow> string option \<Rightarrow> account_db \<Rightarrow>
     account_error + (string \<times> string) \<times> account_db" where
  "create_account_with_password_hash E ad now fresh opts password_encrypted db =
     admitted ad (ca_did opts) (\<lambda>db.
       res_bind (new_tokens E now fresh (ca_did opts) ScopeAccess None) (\<lambda>(jwts, payload).
       res_bind (create_account_tx E now opts password_encrypted payload db) (\<lambda>db'. Inr (jwts, db')))) db"

definition create_account ::
    "account_ext \<Rightarrow> admission \<Rightarrow> int \<Rightarrow> string \<Rightarrow> string \<Rightarrow> create_account_opts \<Rightarrow> account_db \<Rightarrow>
     account_error + (string \<times> string) \<times> account_db" where
  "create_account E ad now salt fresh opts db =
     admitted ad (ca_did opts) (\<lambda>db.
       create_account_with_password_hash E ad now fresh (opts\<lparr>ca_password := None\<rparr>)
         (map_option (salted_hash E salt) (ca_password opts)) db) db"

definition is_account_activated :: "string \<Rightarrow> account_db \<Rightarrow> bool" where
  "is_account_activated did db =
     (case get_account did (Some \<lparr>include_taken_down = None, include_deactivated = Some True\<rparr>) db of
        Some a \<Rightarrow> aa_deactivated_at a = None
      | None \<Rightarrow> False)"

definition get_did_for_actor :: "string \<Rightarrow> availability_flags option \<Rightarrow> account_db \<Rightarrow> string option" where
  "get_did_for_actor handle_or_did flags db = map_option aa_did (get_account handle_or_did flags db)"

definition get_repo_root :: "string \<Rightarrow> account_db \<Rightarrow> (string \<times> string) option" where
  "get_repo_root did db = get_root did db"

definition update_repo_root :: "account_ext \<Rightarrow> admission \<Rightarrow> int \<Rightarrow> string \<Rightarrow> cid \<Rightarrow> string \<Rightarrow> account_db \<Rightarrow> account_error + unit \<times> account_db" where
  "update_repo_root E ad now did c rv = admitted ad did (unit_op (update_root_in did c rv (rfc3339 E now)))"

definition update_repo_root_as_worker :: "account_ext \<Rightarrow> admission \<Rightarrow> int \<Rightarrow> string \<Rightarrow> cid \<Rightarrow> string \<Rightarrow> account_db \<Rightarrow> account_error + unit \<times> account_db" where
  "update_repo_root_as_worker E ad now did c rv db =
     (case admit_worker ad did of
        Inl e \<Rightarrow> Inl (AdmissionErr e)
      | Inr _ \<Rightarrow> unit_op (update_root_in did c rv (rfc3339 E now)) db)"

definition delete_account_rows :: "admission \<Rightarrow> string \<Rightarrow> account_db \<Rightarrow> account_error + nat \<times> account_db" where
  "delete_account_rows ad did = admitted ad did (\<lambda>db. Inr (db_delete_account did db))"

definition takedown_account :: "account_ext \<Rightarrow> admission \<Rightarrow> int \<Rightarrow> string \<Rightarrow> status_attr \<Rightarrow> account_db \<Rightarrow> account_error + nat \<times> account_db" where
  "takedown_account E ad now did takedown = admitted ad did (\<lambda>db.
     let db1 = update_account_takedown_status E now did takedown db; (_, db2) = revoke_refresh_tokens_by_did did db1
     in Inr (revoke_oauth_tokens_by_did did db2))"

definition update_handle :: "admission \<Rightarrow> string \<Rightarrow> string \<Rightarrow> account_db \<Rightarrow> account_error + unit \<times> account_db" where
  "update_handle ad did handle = admitted ad did (\<lambda>db. res_bind (db_update_handle did handle db) (\<lambda>db'. Inr ((), db')))"

definition deactivate_account :: "account_ext \<Rightarrow> admission \<Rightarrow> int \<Rightarrow> string \<Rightarrow> string option \<Rightarrow> account_db \<Rightarrow> account_error + unit \<times> account_db" where
  "deactivate_account E ad now did delete_after = admitted ad did (unit_op (db_deactivate_account E now did delete_after))"

definition deactivate_account_and_credentials ::
    "account_ext \<Rightarrow> admission \<Rightarrow> int \<Rightarrow> string \<Rightarrow> string option \<Rightarrow> account_db \<Rightarrow> account_error + unit \<times> account_db" where
  "deactivate_account_and_credentials E ad now did delete_after = admitted ad did (unit_op (\<lambda>db.
     db_deactivate_account E now did delete_after
       (db\<lparr>a_token := filter (\<lambda>(_, d). d \<noteq> did) (a_token db),
           a_authorized_client := filter (\<lambda>(d, _). d \<noteq> did) (a_authorized_client db),
           a_app_password := filter (\<lambda>r. ap_did r \<noteq> did) (a_app_password db)\<rparr>)))"

definition activate_account :: "admission \<Rightarrow> string \<Rightarrow> account_db \<Rightarrow> account_error + unit \<times> account_db" where
  "activate_account ad did = admitted ad did (unit_op (db_activate_account did))"

definition get_account_status :: "string \<Rightarrow> account_db \<Rightarrow> account_error + account_status" where
  "get_account_status handle_or_did db =
     (let res = format_account_status (get_account handle_or_did (Some \<lparr>include_taken_down = Some True, include_deactivated = Some True\<rparr>) db)
      in if fs_active res then Inr Active else of_option StatusPanic (fs_status res))"

section \<open>Sessions\<close>

definition create_session ::
    "account_ext \<Rightarrow> int \<Rightarrow> string \<Rightarrow> string \<Rightarrow> app_pass_descript option \<Rightarrow> bool \<Rightarrow> account_db \<Rightarrow> account_error + (string \<times> string) \<times> account_db" where
  "create_session E now fresh did app_password is_soft_deleted db =
     res_bind (new_tokens E now fresh did (format_scope app_password is_soft_deleted) None) (\<lambda>(jwts, payload).
     res_bind (store_refresh_token_tx E payload (map_option apd_name app_password) db) (\<lambda>db'. Inr (jwts, db')))"

record rotation =
  ro_id :: string
  ro_did :: string
  ro_expires_at :: int
  ro_next_id :: string
  ro_app_password :: "app_pass_descript option"
  ro_now :: int

definition REFRESH_GRACE_MS :: int where
  "REFRESH_GRACE_MS = 2 * int HOUR"

definition rotate_begin :: "account_ext \<Rightarrow> int \<Rightarrow> string \<Rightarrow> string \<Rightarrow> account_db \<Rightarrow> (account_error + rotation option) \<times> account_db" where
  "rotate_begin E now fresh id' db =
     (case get_refresh_token id' db of
        None \<Rightarrow> (Inr None, db)
      | Some token \<Rightarrow>
          (let db' = delete_expired_refresh_tokens (sr_did token) (rfc3339 E now) db
           in case parse_micros E (sr_expires_at token) of
                None \<Rightarrow> (Inl BadTime, db')
              | Some prev_expires_at \<Rightarrow>
                  (let grace_expires_at = now + REFRESH_GRACE_MS * 1000;
                       expires_at = (if grace_expires_at < prev_expires_at then grace_expires_at else prev_expires_at)
                   in if expires_at \<le> now then (Inr None, db')
                      else (Inr (Some \<lparr>ro_id = id', ro_did = sr_did token, ro_expires_at = expires_at,
                              ro_next_id = (case sr_next_id token of Some n \<Rightarrow> n | None \<Rightarrow> fresh),
                              ro_app_password = sr_app_password token, ro_now = now\<rparr>), db'))))"

definition rotate_finish :: "account_ext \<Rightarrow> rotation \<Rightarrow> account_db \<Rightarrow> account_error + (string \<times> string) \<times> account_db" where
  "rotate_finish E ro db =
     res_bind (new_tokens E (ro_now ro) [] (ro_did ro) (format_scope (ro_app_password ro) False) (Some (ro_next_id ro))) (\<lambda>(jwts, payload).
       if \<not> in_calendar E (ro_expires_at ro) then Inl BadTime
       else res_bind (rotate_refresh_token_rows E (ro_id ro) (rfc3339 E (ro_expires_at ro)) (ro_next_id ro) payload
                       (map_option apd_name (ro_app_password ro)) db) (\<lambda>db'. Inr (jwts, db')))"

text \<open>
  The whole call: turn \<open>k\<close> runs at \<open>now k\<close> with the random id \<open>fresh k\<close>, and \<open>env k\<close> is what other requests
  do to the database between its two parts. The recursion is bounded by fuel.
\<close>

fun rotate_refresh_token ::
    "account_ext \<Rightarrow> (nat \<Rightarrow> int) \<Rightarrow> (nat \<Rightarrow> string) \<Rightarrow> (nat \<Rightarrow> account_db \<Rightarrow> account_db) \<Rightarrow> nat \<Rightarrow> nat \<Rightarrow> string \<Rightarrow> account_db \<Rightarrow>
     ((account_error + (string \<times> string) option) \<times> account_db) option" where
  "rotate_refresh_token E now fresh env 0 k id' db = None"
| "rotate_refresh_token E now fresh env (Suc n) k id' db =
     (case rotate_begin E (now k) (fresh k) id' db of
        (Inl e, db') \<Rightarrow> Some (Inl e, db')
      | (Inr None, db') \<Rightarrow> Some (Inr None, db')
      | (Inr (Some ro), db') \<Rightarrow>
          (let db2 = env k db'
           in case rotate_finish E ro db2 of
                Inr (jwts, db3) \<Rightarrow> Some (Inr (Some jwts), db3)
              | Inl e \<Rightarrow> if e = ConcurrentRefresh then rotate_refresh_token E now fresh env n (Suc k) id' db2 else Some (Inl e, db2)))"

definition revoke_refresh_token :: "string \<Rightarrow> account_db \<Rightarrow> bool \<times> account_db" where
  "revoke_refresh_token id' db = db_revoke_refresh_token id' db"

section \<open>Passwords and email\<close>

definition store_account_password :: "admission \<Rightarrow> string \<Rightarrow> string \<Rightarrow> account_db \<Rightarrow> account_error + unit \<times> account_db" where
  "store_account_password ad did password_encrypted = admitted ad did (unit_op (\<lambda>db.
     snd (revoke_refresh_tokens_by_did did (delete_email_token did ResetPassword (update_user_password did password_encrypted db)))))"

definition update_account_password :: "account_ext \<Rightarrow> admission \<Rightarrow> string \<Rightarrow> string \<Rightarrow> string \<Rightarrow> account_db \<Rightarrow> account_error + unit \<times> account_db" where
  "update_account_password E ad salt did password = admitted ad did (store_account_password ad did (salted_hash E salt password))"

definition reset_password :: "account_ext \<Rightarrow> admission \<Rightarrow> int \<Rightarrow> string \<Rightarrow> string \<Rightarrow> string \<Rightarrow> account_db \<Rightarrow> account_error + unit \<times> account_db" where
  "reset_password E ad now salt token password db =
     res_bind (assert_valid_token_and_find_did E now ResetPassword token None db) (\<lambda>did. update_account_password E ad salt did password db)"

definition create_app_password :: "account_ext \<Rightarrow> admission \<Rightarrow> int \<Rightarrow> string \<Rightarrow> string \<Rightarrow> string \<Rightarrow> account_db \<Rightarrow> account_error + string \<times> account_db" where
  "create_app_password E ad now random did name = admitted ad did (db_create_app_password E ad now random did name)"

definition revoke_app_password :: "admission \<Rightarrow> string \<Rightarrow> string \<Rightarrow> account_db \<Rightarrow> account_error + unit \<times> account_db" where
  "revoke_app_password ad did name = admitted ad did (unit_op (\<lambda>db. snd (revoke_app_password_refresh_token did name (delete_app_password did name db))))"

definition confirm_email :: "account_ext \<Rightarrow> admission \<Rightarrow> int \<Rightarrow> string \<Rightarrow> string \<Rightarrow> account_db \<Rightarrow> account_error + unit \<times> account_db" where
  "confirm_email E ad now did token = admitted ad did (\<lambda>db.
     res_bind (assert_valid_token E now did ConfirmEmail token None db) (\<lambda>_.
       Inr ((), set_email_confirmed_at did (rfc3339 E now) (delete_email_token did ConfirmEmail db))))"

text \<open>The tokens are deleted although the address may be refused.\<close>

definition update_email :: "account_ext \<Rightarrow> admission \<Rightarrow> string \<Rightarrow> string \<Rightarrow> account_db \<Rightarrow> (account_error + unit) \<times> account_db" where
  "update_email E ad did email db =
     (case admit ad did of
        Inl e \<Rightarrow> (Inl e, db)
      | Inr _ \<Rightarrow> (case db_update_email E did email db of
                   Inl e \<Rightarrow> (Inl e, delete_all_email_tokens did db)
                 | Inr db' \<Rightarrow> (Inr (), delete_all_email_tokens did db')))"

definition assert_valid_email_token_and_cleanup ::
    "account_ext \<Rightarrow> int \<Rightarrow> string \<Rightarrow> email_token_purpose \<Rightarrow> string \<Rightarrow> account_db \<Rightarrow> account_error + unit \<times> account_db" where
  "assert_valid_email_token_and_cleanup E now did purpose token db =
     res_bind (assert_valid_token E now did purpose token None db) (\<lambda>_. Inr ((), delete_email_token did purpose db))"

definition set_account_invites_disabled :: "admission \<Rightarrow> string \<Rightarrow> bool \<Rightarrow> account_db \<Rightarrow> account_error + unit \<times> account_db" where
  "set_account_invites_disabled ad did disabled = admitted ad did (unit_op (db_set_account_invites_disabled did disabled))"

section \<open>Requests\<close>

text \<open>One call of the manager that writes the database; a rotation is its two parts.\<close>

datatype request =
    CreateAccountReq string create_account_opts "string option"
  | UpdateRepoRootReq string cid string
  | WorkerRootReq string cid string
  | DeleteAccountReq string
  | TakedownReq string status_attr
  | UpdateHandleReq string string
  | DeactivateReq string "string option"
  | DeactivateCredentialsReq string "string option"
  | ActivateReq string
  | CreateSessionReq string string "app_pass_descript option" bool
  | RotateBeginReq string string
  | RotateFinishReq rotation
  | RevokeRefreshReq string
  | CreateInviteCodesReq "(string \<times> string list) list" int
  | CreateAccountInviteCodesReq string "string list" nat bool
  | SetInvitesDisabledReq string bool
  | DisableInviteCodesReq "string list" "string list"
  | CreateAppPasswordReq string string string
  | VerifyAppPasswordReq string string account_db account_db
  | UpdatePasswordReq string string string
  | ResetPasswordReq string string string
  | RevokeAppPasswordReq string string
  | ConfirmEmailReq string string
  | UpdateEmailReq string string
  | UseEmailTokenReq string email_token_purpose string
  | CreateEmailTokenReq string string email_token_purpose

definition after :: "account_error + 'a \<times> account_db \<Rightarrow> account_db \<Rightarrow> account_db" where
  "after r db = (case r of Inl _ \<Rightarrow> db | Inr (_, db') \<Rightarrow> db')"

fun run_request :: "account_ext \<Rightarrow> admission \<Rightarrow> int \<Rightarrow> request \<Rightarrow> account_db \<Rightarrow> account_db" where
  "run_request E ad now (CreateAccountReq fresh opts pw) db = after (create_account_with_password_hash E ad now fresh opts pw db) db"
| "run_request E ad now (UpdateRepoRootReq did c rv) db = after (update_repo_root E ad now did c rv db) db"
| "run_request E ad now (WorkerRootReq did c rv) db = after (update_repo_root_as_worker E ad now did c rv db) db"
| "run_request E ad now (DeleteAccountReq did) db = after (delete_account_rows ad did db) db"
| "run_request E ad now (TakedownReq did st) db = after (takedown_account E ad now did st db) db"
| "run_request E ad now (UpdateHandleReq did handle) db = after (update_handle ad did handle db) db"
| "run_request E ad now (DeactivateReq did da) db = after (deactivate_account E ad now did da db) db"
| "run_request E ad now (DeactivateCredentialsReq did da) db = after (deactivate_account_and_credentials E ad now did da db) db"
| "run_request E ad now (ActivateReq did) db = after (activate_account ad did db) db"
| "run_request E ad now (CreateSessionReq fresh did ap soft) db = after (create_session E now fresh did ap soft db) db"
| "run_request E ad now (RotateBeginReq fresh id') db = snd (rotate_begin E now fresh id' db)"
| "run_request E ad now (RotateFinishReq ro) db = after (rotate_finish E ro db) db"
| "run_request E ad now (RevokeRefreshReq id') db = snd (revoke_refresh_token id' db)"
| "run_request E ad now (CreateInviteCodesReq cs n) db = (case db_create_invite_codes E now cs n db of Inl _ \<Rightarrow> db | Inr db' \<Rightarrow> db')"
| "run_request E ad now (CreateAccountInviteCodesReq did cs n dis) db = after (db_create_account_invite_codes E now did cs n dis db) db"
| "run_request E ad now (SetInvitesDisabledReq did dis) db = after (set_account_invites_disabled ad did dis db) db"
| "run_request E ad now (DisableInviteCodesReq cs as) db = db_disable_invite_codes cs as db"
| "run_request E ad now (CreateAppPasswordReq random did name) db = after (create_app_password E ad now random did name db) db"
| "run_request E ad now (VerifyAppPasswordReq did pw db1 db2) db = snd (db_verify_app_password E ad False did pw db1 db2 db)"
| "run_request E ad now (UpdatePasswordReq salt did pw) db = after (update_account_password E ad salt did pw db) db"
| "run_request E ad now (ResetPasswordReq salt token pw) db = after (reset_password E ad now salt token pw db) db"
| "run_request E ad now (RevokeAppPasswordReq did name) db = after (revoke_app_password ad did name db) db"
| "run_request E ad now (ConfirmEmailReq did token) db = after (confirm_email E ad now did token db) db"
| "run_request E ad now (UpdateEmailReq did email) db = snd (update_email E ad did email db)"
| "run_request E ad now (UseEmailTokenReq did purpose token) db = after (assert_valid_email_token_and_cleanup E now did purpose token db) db"
| "run_request E ad now (CreateEmailTokenReq random did purpose) db = after (db_create_email_token E now random did purpose db) db"

end
