(* ===== verification/Account_Invariant.thy ===== *)
theory Account_Invariant
  imports Account_Manager
begin

text \<open>
  The invariant of the account database and its preservation by every request of the manager: primary
  keys and unique indexes hold, a recorded use names an existing invite code, and no code has more uses
  than it was given.
\<close>

section \<open>The invariant, table by table\<close>

definition actors_ok :: "actor_row list \<Rightarrow> bool" where
  "actors_ok rs \<longleftrightarrow> distinct (map ac_did rs) \<and> distinct (map sql_lower (List.map_filter ac_handle rs))"

definition accounts_ok :: "account_row list \<Rightarrow> bool" where
  "accounts_ok rs \<longleftrightarrow> distinct (map an_did rs) \<and> distinct (map (\<lambda>r. sql_lower (an_email r)) rs)"

definition email_tokens_ok :: "email_token list \<Rightarrow> bool" where
  "email_tokens_ok rs \<longleftrightarrow> distinct (map (\<lambda>r. (et_purpose r, et_did r)) rs) \<and> distinct (map (\<lambda>r. (et_purpose r, et_token r)) rs)"

definition uses_of :: "string \<Rightarrow> invite_use list \<Rightarrow> nat" where
  "uses_of code us = length (filter (\<lambda>u. iu_code u = code) us)"

definition invites_ok :: "invite_row list \<Rightarrow> invite_use list \<Rightarrow> bool" where
  "invites_ok is us \<longleftrightarrow> distinct (map iv_code is) \<and> distinct (map (\<lambda>u. (iu_code u, iu_used_by u)) us) \<and>
     iu_code ` set us \<subseteq> iv_code ` set is \<and> (\<forall>i\<in>set is. int (uses_of (iv_code i) us) \<le> max 0 (iv_available_uses i))"

definition account_inv :: "account_db \<Rightarrow> bool" where
  "account_inv db \<longleftrightarrow> actors_ok (a_actor db) \<and> accounts_ok (a_account db) \<and> email_tokens_ok (a_email_token db) \<and>
     invites_ok (a_invite db) (a_invite_use db) \<and> distinct (map (\<lambda>r. (ap_did r, ap_name r)) (a_app_password db)) \<and>
     distinct (map rf_id (a_refresh db)) \<and> distinct (map rt_did (a_repo_root db))"

lemma distinct_map_filterI: "distinct (map f xs) \<Longrightarrow> distinct (map f (filter P xs))"
  by (rule distinct_map_filter)

lemma distinct_map_snoc: "distinct (map f (xs @ [x])) \<longleftrightarrow> distinct (map f xs) \<and> \<not> list_ex (\<lambda>r. f r = f x) xs"
  by (simp add: list_ex_iff image_iff) metis

lemma distinct_map_keep: "(\<And>x. x \<in> set xs \<Longrightarrow> f (g x) = f x) \<Longrightarrow> distinct (map f (map g xs)) = distinct (map f xs)"
  by (simp add: comp_def cong: map_cong)

lemma map_filter_cons: "List.map_filter f (x # xs) = (case f x of None \<Rightarrow> List.map_filter f xs | Some y \<Rightarrow> y # List.map_filter f xs)"
  by (simp add: List.map_filter_simps)

lemma map_filter_append: "List.map_filter f (xs @ ys) = List.map_filter f xs @ List.map_filter f ys"
  by (induction xs) (auto simp: List.map_filter_simps split: option.splits)

lemma set_map_filter: "set (List.map_filter f xs) = {y. \<exists>x\<in>set xs. f x = Some y}"
  by (induction xs) (auto simp: List.map_filter_simps split: option.splits)

lemma map_filter_keep: "(\<And>x. x \<in> set xs \<Longrightarrow> f (g x) = f x) \<Longrightarrow> List.map_filter f (map g xs) = List.map_filter f xs"
  by (induction xs) (auto simp: List.map_filter_simps split: option.splits)

section \<open>Rows removed or changed outside their keys\<close>

lemma handles_filter: "distinct (map sql_lower (List.map_filter ac_handle rs)) \<Longrightarrow> distinct (map sql_lower (List.map_filter ac_handle (filter P rs)))"
proof (induction rs)
  case (Cons r rs)
  have "set (List.map_filter ac_handle (filter P rs)) \<subseteq> set (List.map_filter ac_handle rs)" by (auto simp: set_map_filter)
  then show ?case using Cons by (auto simp: List.map_filter_simps split: option.splits)
qed (simp add: List.map_filter_simps)

lemma actors_ok_filter [intro]: "actors_ok rs \<Longrightarrow> actors_ok (filter P rs)"
  by (auto simp: actors_ok_def intro: distinct_map_filterI handles_filter)

lemma accounts_ok_filter [intro]: "accounts_ok rs \<Longrightarrow> accounts_ok (filter P rs)"
  by (auto simp: accounts_ok_def intro: distinct_map_filterI)

lemma email_tokens_ok_filter [intro]: "email_tokens_ok rs \<Longrightarrow> email_tokens_ok (filter P rs)"
  by (auto simp: email_tokens_ok_def intro: distinct_map_filterI)

lemma actors_ok_update:
  assumes "actors_ok rs" "\<And>r. ac_did (f r) = ac_did r" "\<And>r. ac_handle (f r) = ac_handle r"
  shows "actors_ok (map (\<lambda>r. if ac_did r = did then f r else r) rs)"
  using assms by (simp add: actors_ok_def comp_def if_distrib[of ac_did] map_filter_keep cong: map_cong if_cong)

lemma accounts_ok_update:
  assumes "accounts_ok rs" "\<And>r. an_did (f r) = an_did r" "\<And>r. an_email (f r) = an_email r"
  shows "accounts_ok (map (\<lambda>r. if an_did r = did then f r else r) rs)"
  using assms by (simp add: accounts_ok_def comp_def if_distrib[of an_did] if_distrib[of an_email] cong: map_cong if_cong)

section \<open>Rows that get a new key\<close>

lemma distinct_lower_handles_update:
  assumes "distinct (map ac_did rs)" "distinct (map sql_lower (List.map_filter ac_handle rs))"
    "\<And>r h'. r \<in> set rs \<Longrightarrow> ac_handle r = Some h' \<Longrightarrow> sql_lower h' = sql_lower h \<Longrightarrow> ac_did r = did"
  shows "distinct (map sql_lower (List.map_filter ac_handle (map (\<lambda>r. if ac_did r = did then r\<lparr>ac_handle := Some h\<rparr> else r) rs)))"
  using assms
proof (induction rs)
  case (Cons r rs)
  let ?f = "\<lambda>r. if ac_did r = did then r\<lparr>ac_handle := Some h\<rparr> else r"
  have IH: "distinct (map sql_lower (List.map_filter ac_handle (map ?f rs)))"
    using Cons.IH Cons.prems by (auto simp: List.map_filter_simps split: option.splits)
  show ?case
  proof (cases "ac_did r = did")
    case True
    then have others: "\<forall>x\<in>set rs. ac_did x \<noteq> did" using Cons.prems(1) by (metis distinct.simps(2) image_eqI list.set_map list.simps(9))
    then have same: "map ?f rs = rs" by (induction rs) auto
    have "sql_lower h \<notin> sql_lower ` set (List.map_filter ac_handle rs)"
      using others Cons.prems(3) by (fastforce simp: set_map_filter)
    then show ?thesis using IH True same by (simp add: List.map_filter_simps)
  next
    case False
    have "sql_lower h' \<notin> sql_lower ` set (List.map_filter ac_handle (map ?f rs))" if "ac_handle r = Some h'" for h'
    proof
      assume "sql_lower h' \<in> sql_lower ` set (List.map_filter ac_handle (map ?f rs))"
      then obtain x k where x: "x \<in> set rs" "ac_handle (?f x) = Some k" "sql_lower h' = sql_lower k" by (auto simp: set_map_filter)
      show False
      proof (cases "ac_did x = did")
        case True
        then have "sql_lower h' = sql_lower h" using x by simp
        then show False using Cons.prems(3)[of r h'] that False by simp
      next
        case False
        then have "sql_lower h' \<in> sql_lower ` set (List.map_filter ac_handle rs)" using x by (auto simp: set_map_filter)
        then show False using Cons.prems(2) that by (simp add: List.map_filter_simps)
      qed
    qed
    then show ?thesis using IH False by (auto simp: List.map_filter_simps split: option.splits)
  qed
qed (simp add: List.map_filter_simps)

lemma distinct_emails_update:
  assumes "distinct (map an_did rs)" "distinct (map (\<lambda>r. sql_lower (an_email r)) rs)"
    "\<And>r. r \<in> set rs \<Longrightarrow> sql_lower (an_email r) = sql_lower e \<Longrightarrow> an_did r = did" "\<And>r. an_email (f r) = e"
  shows "distinct (map (\<lambda>r. sql_lower (an_email r)) (map (\<lambda>r. if an_did r = did then f r else r) rs))"
proof -
  let ?f = "\<lambda>r. if an_did r = did then f r else r"
  have inj: "inj_on an_did (set rs)" "inj_on (\<lambda>r. sql_lower (an_email r)) (set rs)" "distinct rs"
    using assms(1,2) by (auto simp: distinct_map)
  have "x = y" if "x \<in> set rs" "y \<in> set rs" "sql_lower (an_email (?f x)) = sql_lower (an_email (?f y))" for x y
    using that inj assms(3)[of x] assms(3)[of y] assms(4) by (auto simp: inj_on_def split: if_splits)
  then have "inj_on (\<lambda>r. sql_lower (an_email (?f r))) (set rs)" by (intro inj_onI) blast
  then show ?thesis using inj(3) by (simp add: distinct_map comp_def)
qed

section \<open>The helpers keep the invariant\<close>

lemma account_inv_simps:
  "account_inv (db\<lparr>a_token := ts\<rparr>) = account_inv db"
  "account_inv (db\<lparr>a_authorized_client := cs\<rparr>) = account_inv db"
  "account_inv (db\<lparr>a_account_device := ds\<rparr>) = account_inv db"
  by (simp_all add: account_inv_def)

lemma inv_update_actor:
  assumes "account_inv db" "\<And>r. ac_did (f r) = ac_did r" "\<And>r. ac_handle (f r) = ac_handle r"
  shows "account_inv (update_actor did f db)"
  using assms by (simp add: account_inv_def update_actor_def actors_ok_update)

lemma inv_update_account:
  assumes "account_inv db" "\<And>r. an_did (f r) = an_did r" "\<And>r. an_email (f r) = an_email r"
  shows "account_inv (update_account did f db)"
  using assms by (simp add: account_inv_def update_account_def accounts_ok_update)

lemma inv_deletes:
  assumes "account_inv db"
  shows "account_inv (snd (db_delete_account did db))" "account_inv (delete_email_token did purpose db)"
    "account_inv (delete_all_email_tokens did db)" "account_inv (delete_app_password did name db)"
    "account_inv (snd (db_revoke_refresh_token i db))" "account_inv (snd (revoke_refresh_tokens_by_did did db))"
    "account_inv (snd (revoke_oauth_tokens_by_did did db))" "account_inv (snd (revoke_app_password_refresh_token did name db))"
    "account_inv (delete_expired_refresh_tokens did now db)"
    "account_inv (db\<lparr>a_app_password := filter P (a_app_password db)\<rparr>)"
  using assms
  by (auto simp: account_inv_def db_delete_account_def delete_email_token_def delete_all_email_tokens_def delete_app_password_def
      db_revoke_refresh_token_def revoke_refresh_tokens_by_did_def revoke_oauth_tokens_by_did_def revoke_app_password_refresh_token_def
      delete_expired_refresh_tokens_def Let_def intro: distinct_map_filterI)

lemma inv_register_actor:
  assumes "account_inv db" "register_actor_in E now did handle deactivated db = Inr db'"
  shows "account_inv db' \<and> a_invite db' = a_invite db \<and> a_invite_use db' = a_invite_use db"
proof -
  let ?d = "deactivated = Some True"
  let ?row = "\<lparr>ac_did = did, ac_handle = Some handle, ac_created_at = rfc3339 E now, ac_takedown_ref = None,
    ac_deactivated_at = (if ?d then Some (rfc3339 E now) else None), ac_delete_after = (if ?d then Some (rfc3339 E (now + 3 * DAY_MICROS)) else None)\<rparr>"
  have "\<not> list_ex (\<lambda>r. ac_did r = did) (a_actor db)" "\<not> handle_taken handle None db" "db' = db\<lparr>a_actor := a_actor db @ [?row]\<rparr>"
    using assms(2) unfolding register_actor_in_def Let_def by (auto split: if_splits)
  moreover from this(2) have "\<not> list_ex (\<lambda>h. sql_lower h = sql_lower handle) (List.map_filter ac_handle (a_actor db))"
    by (fastforce simp: handle_taken_def list_ex_iff set_map_filter)
  ultimately show ?thesis using assms(1)
    by (simp add: account_inv_def actors_ok_def map_filter_append List.map_filter_simps distinct_map_snoc del: map_append)
qed

lemma inv_register_account:
  assumes "account_inv db" "register_account_in did email password db = Inr db'"
  shows "account_inv db' \<and> a_invite db' = a_invite db \<and> a_invite_use db' = a_invite_use db"
  using assms
  by (auto simp: register_account_in_def account_inv_def accounts_ok_def Let_def email_taken_def distinct_map_snoc
      simp del: map_append split: if_splits)

lemma inv_store_refresh:
  assumes "account_inv db" "store_refresh_token_tx E payload name db = Inr db'"
  shows "account_inv db'"
  using assms by (auto simp: store_refresh_token_tx_def account_inv_def Let_def distinct_map_snoc simp del: map_append split: if_splits)

lemma inv_update_root: "account_inv db \<Longrightarrow> account_inv (update_root_in did c rv now db)"
  by (auto simp: update_root_in_def account_inv_def distinct_map_snoc comp_def if_distrib[of rt_did] simp del: map_append cong: map_cong if_cong)

lemma find_Some_iff2: "List.find P xs = Some x \<Longrightarrow> x \<in> set xs \<and> P x"
  by (metis find_Some_iff nth_mem)

lemma inv_record_use:
  assumes "account_inv db" "record_invite_use_in did code now db = Inr db'"
    "\<And>c. code = Some c \<Longrightarrow> is_ok (ensure_invite_is_available_in c db)"
  shows "account_inv db'"
proof (cases code)
  case None
  then show ?thesis using assms by (simp add: record_invite_use_in_def)
next
  case (Some c)
  obtain i where i: "i \<in> set (a_invite db)" "iv_code i = c" "int (uses_of c (a_invite_use db)) < iv_available_uses i"
    using assms(3)[OF Some] find_Some_iff2[of "\<lambda>i. iv_code i = c" "a_invite db"]
    by (auto simp: ensure_invite_is_available_in_def find_invite_def invite_uses_def uses_of_def is_ok_iff split: option.splits if_splits)
  have same: "j = i" if "j \<in> set (a_invite db)" "iv_code j = c" for j
    using assms(1) that i by (auto simp: account_inv_def invites_ok_def distinct_map inj_on_def)
  have db': "db' = db\<lparr>a_invite_use := a_invite_use db @ [\<lparr>iu_code = c, iu_used_by = did, iu_used_at = now\<rparr>]\<rparr>"
    "\<not> list_ex (\<lambda>u. iu_code u = c \<and> iu_used_by u = did) (a_invite_use db)"
    using assms(2) Some by (auto simp: record_invite_use_in_def split: if_splits)
  let ?u = "\<lparr>iu_code = c, iu_used_by = did, iu_used_at = now\<rparr>" and ?us = "a_invite_use db"
  have old: "distinct (map (\<lambda>u. (iu_code u, iu_used_by u)) ?us)" "iu_code ` set ?us \<subseteq> iv_code ` set (a_invite db)"
    "distinct (map iv_code (a_invite db))" "\<forall>i\<in>set (a_invite db). int (uses_of (iv_code i) ?us) \<le> max 0 (iv_available_uses i)"
    using assms(1) by (auto simp: account_inv_def invites_ok_def)
  have uses: "uses_of k (?us @ [?u]) = uses_of k ?us + (if k = c then 1 else 0)" for k by (simp add: uses_of_def)
  have "int (uses_of (iv_code j) (?us @ [?u])) \<le> max 0 (iv_available_uses j)" if j: "j \<in> set (a_invite db)" for j
    using bspec[OF old(4) j] same[OF j] i(3) unfolding uses by (cases "iv_code j = c") auto
  moreover have "iu_code ` set (?us @ [?u]) \<subseteq> iv_code ` set (a_invite db)" using old(2) i(1,2) by auto
  moreover have "distinct (map (\<lambda>u. (iu_code u, iu_used_by u)) (?us @ [?u]))" unfolding distinct_map_snoc using old(1) db'(2) by simp
  ultimately have "invites_ok (a_invite db) (a_invite_use db')" using old(3) by (simp add: invites_ok_def db'(1))
  then show ?thesis using assms(1) by (simp add: account_inv_def db')
qed

lemma inv_insert_codes:
  assumes "account_inv db" "insert_invite_codes rows db = Inr db'"
  shows "account_inv db'"
  using assms unfolding insert_invite_codes_def
proof (induction rows arbitrary: db)
  case (Cons r rows)
  then obtain db1 where db1: "insert_invite_code r db = Inr db1" "res_fold insert_invite_code rows db1 = Inr db'"
    by (auto elim: res_bind_Inr_E)
  have new: "iv_code r \<notin> iv_code ` set (a_invite db)" and db1': "db1 = db\<lparr>a_invite := a_invite db @ [r]\<rparr>"
    using db1(1) by (auto simp: insert_invite_code_def find_invite_def find_None_iff split: if_splits)
  have "iu_code ` set (a_invite_use db) \<subseteq> iv_code ` set (a_invite db)" using Cons.prems(1) by (simp add: account_inv_def invites_ok_def)
  then have "\<forall>u\<in>set (a_invite_use db). iu_code u \<noteq> iv_code r" using new by (metis image_eqI subsetD)
  then have "uses_of (iv_code r) (a_invite_use db) = 0" by (simp add: uses_of_def filter_empty_conv)
  then have "account_inv db1" using Cons.prems(1) new by (auto simp: db1' account_inv_def invites_ok_def)
  then show ?case using Cons.IH db1(2) by simp
qed simp

lemma inv_disable: "account_inv db \<Longrightarrow> account_inv (db_disable_invite_codes cs as db)"
proof -
  assume inv: "account_inv db"
  let ?f = "\<lambda>i. if iv_code i \<in> set cs \<or> iv_for_account i \<in> set as then i\<lparr>iv_disabled := 1\<rparr> else i"
  have keep: "iv_code (?f i) = iv_code i" "iv_available_uses (?f i) = iv_available_uses i" for i by simp_all
  have "iv_code ` set (map ?f (a_invite db)) = iv_code ` set (a_invite db)" by (simp add: image_image keep(1) del: if_image_distrib)
  moreover have "map iv_code (map ?f (a_invite db)) = map iv_code (a_invite db)" by (simp add: keep(1))
  moreover have "\<forall>j\<in>set (map ?f (a_invite db)). int (uses_of (iv_code j) (a_invite_use db)) \<le> max 0 (iv_available_uses j)"
    using inv keep by (auto simp: account_inv_def invites_ok_def)
  moreover have "invites_ok (a_invite db) (a_invite_use db)" using inv by (simp add: account_inv_def)
  ultimately have "invites_ok (map ?f (a_invite db)) (a_invite_use db)" unfolding invites_ok_def by (simp del: set_map map_map)
  then show ?thesis using inv by (simp add: db_disable_invite_codes_def account_inv_def)
qed

lemma inv_create_email_token:
  assumes "account_inv db" "db_create_email_token E now random did purpose db = Inr (t, db')"
  shows "account_inv db'"
proof -
  let ?row = "\<lparr>et_purpose = purpose, et_did = did, et_token = to_upper E random, et_requested_at = rfc3339 E now\<rparr>"
  let ?mine = "\<lambda>r. et_purpose r = purpose \<and> et_did r = did" and ?ts = "a_email_token db"
  let ?f = "\<lambda>r. if ?mine r then ?row else r"
  have free: "\<forall>r\<in>set ?ts. et_purpose r = purpose \<and> et_token r = to_upper E random \<longrightarrow> et_did r = did"
    and db': "a_email_token db' = (if list_ex ?mine ?ts then map ?f ?ts else ?ts @ [?row])" "db' = db\<lparr>a_email_token := a_email_token db'\<rparr>"
    using assms(2) by (auto simp: db_create_email_token_def Let_def list_ex_iff split: if_splits)
  have ok: "distinct ?ts" "inj_on (\<lambda>r. (et_purpose r, et_did r)) (set ?ts)" "inj_on (\<lambda>r. (et_purpose r, et_token r)) (set ?ts)"
    using assms(1) by (auto simp: account_inv_def email_tokens_ok_def distinct_map)
  have keys: "inj_on (\<lambda>r. (et_purpose (?f r), et_did (?f r))) (set ?ts)" "inj_on (\<lambda>r. (et_purpose (?f r), et_token (?f r))) (set ?ts)"
    using ok(2,3) free by (auto simp: inj_on_def split: if_splits)
  have "email_tokens_ok (a_email_token db')"
  proof (cases "list_ex ?mine ?ts")
    case True
    then show ?thesis using keys ok(1) by (simp add: db'(1) email_tokens_ok_def distinct_map comp_def)
  next
    case False
    then show ?thesis using ok free by (auto simp: db'(1) email_tokens_ok_def distinct_map list_ex_iff image_iff)
  qed
  then show ?thesis using assms(1) by (subst db'(2)) (simp add: account_inv_def)
qed

lemma inv_update_email:
  assumes "account_inv db" "db_update_email E did email db = Inr db'"
  shows "account_inv db'"
proof -
  let ?e = "to_lower E email"
  have "an_did r = did" if "r \<in> set (a_account db)" "sql_lower (an_email r) = sql_lower ?e" "account_of did db \<noteq> None" for r
    using that assms(2) by (auto simp: db_update_email_def Let_def email_taken_def list_ex_iff split: if_splits)
  moreover have "db' = update_account did (\<lambda>r. r\<lparr>an_email := ?e, an_email_confirmed_at := None\<rparr>) db"
    using assms(2) by (auto simp: db_update_email_def Let_def split: if_splits)
  moreover have "map (\<lambda>r. if an_did r = did then r\<lparr>an_email := ?e, an_email_confirmed_at := None\<rparr> else r) (a_account db) = a_account db"
    if "account_of did db = None"
    using that by (intro map_idI) (auto simp: account_of_def find_None_iff)
  ultimately show ?thesis
    using assms(1) distinct_emails_update[of "a_account db" ?e did "\<lambda>r. r\<lparr>an_email := ?e, an_email_confirmed_at := None\<rparr>"]
    by (cases "account_of did db = None")
       (auto simp: account_inv_def update_account_def accounts_ok_def comp_def if_distrib[of an_did] cong: map_cong if_cong)
qed

lemma inv_update_handle:
  assumes "account_inv db" "db_update_handle did handle db = Inr db'"
  shows "account_inv db'"
proof -
  have free: "ac_did r = did" if "r \<in> set (a_actor db)" "ac_handle r = Some h'" "sql_lower h' = sql_lower handle" for r h'
    using that assms(2) by (auto simp: db_update_handle_def Let_def handle_taken_def list_ex_iff split: if_splits)
  have db': "db' = update_actor did (\<lambda>r. r\<lparr>ac_handle := Some handle\<rparr>) db"
    using assms(2) by (auto simp: db_update_handle_def Let_def split: if_splits)
  show ?thesis using assms(1) distinct_lower_handles_update[of "a_actor db" handle did] free
    by (auto simp: db' account_inv_def update_actor_def actors_ok_def comp_def if_distrib[of ac_did] cong: map_cong if_cong)
qed

lemma inv_finish_verification:
  assumes "account_inv db"
  shows "account_inv (snd (finish_app_password_verification did h l db))"
  using assms
  by (auto simp: finish_app_password_verification_def account_inv_def distinct_map_keep simp del: map_map
      split: prod.splits option.splits bool.splits)

lemma inv_create_app_password:
  assumes "account_inv db" "db_create_app_password E ad now random did name db = Inr (x, db')"
  shows "account_inv db'"
  using assms
  by (auto simp: db_create_app_password_def account_inv_def Let_def distinct_map_snoc simp del: map_append split: if_splits sum.splits)

lemma inv_rotate_rows:
  assumes "account_inv db" "rotate_refresh_token_rows E i at n payload name db = Inr db'"
  shows "account_inv db'"
proof -
  obtain db1 where db1: "add_refresh_grace_period_tx i at n db = Inr db1" "store_refresh_token_tx E payload name db1 = Inr db'"
    using assms(2) by (auto simp: rotate_refresh_token_rows_def elim: res_bind_Inr_E)
  have "account_inv db1" using assms(1) db1(1)
    by (auto simp: add_refresh_grace_period_tx_def account_inv_def Let_def distinct_map_keep simp del: map_map split: if_splits)
  then show ?thesis using db1(2) by (rule inv_store_refresh)
qed

section \<open>Every request keeps the invariant\<close>

lemma after_cases:
  assumes "account_inv db" "\<And>x db'. r = Inr (x, db') \<Longrightarrow> account_inv db'"
  shows "account_inv (after r db)"
  using assms by (auto simp: after_def split: sum.splits)

lemma admittedD: "admitted ad did f db = Inr r \<Longrightarrow> f db = Inr r"
  by (auto simp: admitted_def elim: res_bind_Inr_E)

lemma after_admitted:
  assumes "account_inv db" "\<And>x db'. f db = Inr (x, db') \<Longrightarrow> account_inv db'"
  shows "account_inv (after (admitted ad did f db) db)"
  using assms by (auto intro!: after_cases dest!: admittedD)

lemmas inv_updates = inv_update_actor inv_update_account inv_deletes inv_update_root

lemma inv_actor_changes:
  assumes "account_inv db"
  shows "account_inv (update_account_takedown_status E now did st db)" "account_inv (db_deactivate_account E now did da db)"
    "account_inv (db_activate_account did db)"
  using assms by (simp_all add: update_account_takedown_status_def db_deactivate_account_def db_activate_account_def Let_def inv_update_actor)

lemma inv_account_changes:
  assumes "account_inv db"
  shows "account_inv (set_email_confirmed_at did at db)" "account_inv (update_user_password did pw db)"
    "account_inv (db_set_account_invites_disabled did dis db)"
  using assms by (simp_all add: set_email_confirmed_at_def update_user_password_def db_set_account_invites_disabled_def inv_update_account)

lemma inv_create_account_tx:
  assumes "account_inv db" "create_account_tx E now opts pw payload db = Inr db'"
  shows "account_inv db'"
proof -
  obtain u db1 db2 db3 db4 where steps: "(case ca_invite_code opts of Some code \<Rightarrow> ensure_invite_is_available_in code db | None \<Rightarrow> Inr ()) = Inr u"
    "register_actor_in E now (ca_did opts) (ca_handle opts) (ca_deactivated opts) db = Inr db1"
    "(case (ca_email opts, pw) of (Some email, Some password) \<Rightarrow> register_account_in (ca_did opts) email password db1 | _ \<Rightarrow> Inr db1) = Inr db2"
    "record_invite_use_in (ca_did opts) (ca_invite_code opts) (rfc3339 E now) db2 = Inr db3"
    "store_refresh_token_tx E payload None db3 = Inr db4"
    "db' = update_root_in (ca_did opts) (ca_repo_cid opts) (ca_repo_rev opts) (rfc3339 E now) db4"
    using assms(2) unfolding create_account_tx_def by (auto elim!: res_bind_Inr_E)
  have 1: "account_inv db1" "a_invite db1 = a_invite db" "a_invite_use db1 = a_invite_use db"
    using inv_register_actor[OF assms(1) steps(2)] by auto
  have 2: "account_inv db2 \<and> a_invite db2 = a_invite db1 \<and> a_invite_use db2 = a_invite_use db1"
    using steps(3) inv_register_account[OF 1(1)] 1(1) by (auto split: option.splits)
  have same: "ensure_invite_is_available_in c db2 = ensure_invite_is_available_in c db" for c
  proof -
    have "find_invite c db2 = find_invite c db" "invite_uses c db2 = invite_uses c db"
      using 1 2 by (simp_all add: find_invite_def invite_uses_def)
    then show ?thesis by (simp only: ensure_invite_is_available_in_def)
  qed
  have "account_inv db3" using inv_record_use[OF _ steps(4)] 2 steps(1) same by (auto split: option.splits)
  then show ?thesis using inv_store_refresh[OF _ steps(5)] steps(6) by (simp add: inv_update_root)
qed

lemma inv_rotate_begin: "account_inv db \<Longrightarrow> account_inv (snd (rotate_begin E now fresh i db))"
  by (auto simp: rotate_begin_def Let_def inv_deletes split: option.splits)

lemma inv_run_request: "account_inv db \<Longrightarrow> account_inv (run_request E ad now req db)"
proof (cases req)
  case (CreateAccountReq f opts pw)
  then show "account_inv db \<Longrightarrow> account_inv (run_request E ad now req db)"
    by (auto simp: create_account_with_password_hash_def intro!: after_admitted elim!: res_bind_Inr_E dest: inv_create_account_tx split: prod.splits)
next
  case (TakedownReq d st)
  then show "account_inv db \<Longrightarrow> account_inv (run_request E ad now req db)"
    using inv_deletes(6,7) inv_actor_changes(1)
    by (auto simp: takedown_account_def Let_def split: prod.splits intro!: after_admitted) (metis snd_conv)
next
  case (DeactivateCredentialsReq d da)
  then show "account_inv db \<Longrightarrow> account_inv (run_request E ad now req db)"
    using inv_deletes(10)[of db "\<lambda>r. ap_did r \<noteq> d"]
    by (auto simp: deactivate_account_and_credentials_def unit_op_def account_inv_simps intro!: after_admitted inv_actor_changes)
       (simp add: account_inv_def)
next
  case (DeleteAccountReq d)
  then show "account_inv db \<Longrightarrow> account_inv (run_request E ad now req db)"
    using inv_deletes(1)[of db d] by (auto simp: delete_account_rows_def intro!: after_admitted)
next
  case (VerifyAppPasswordReq d pw db1 db2)
  then show "account_inv db \<Longrightarrow> account_inv (run_request E ad now req db)"
    by (auto simp: db_verify_app_password_def Let_def inv_finish_verification split: prod.splits)
next
  case (UpdateEmailReq d e)
  then show "account_inv db \<Longrightarrow> account_inv (run_request E ad now req db)"
    using inv_update_email inv_deletes(3) by (auto simp: update_email_def split: sum.splits)
qed (auto simp: update_repo_root_def update_repo_root_as_worker_def delete_account_rows_def unit_op_def update_handle_def
    deactivate_account_def activate_account_def create_session_def revoke_refresh_token_def set_account_invites_disabled_def
    create_app_password_def rotate_finish_def
    update_account_password_def store_account_password_def reset_password_def revoke_app_password_def confirm_email_def
    assert_valid_email_token_and_cleanup_def db_create_invite_codes_def db_create_account_invite_codes_def Let_def
    inv_updates inv_rotate_begin inv_disable
    intro!: after_cases inv_actor_changes inv_account_changes inv_deletes inv_update_root
    elim!: res_bind_Inr_E dest!: admittedD
    dest: inv_create_app_password inv_store_refresh inv_insert_codes inv_create_email_token inv_update_handle inv_rotate_rows
    split: sum.splits prod.splits if_splits)

end
