(* ===== verification/Account_Properties.thy ===== *)
theory Account_Properties
  imports Account_Invariant Repo_Properties
begin

text \<open>What the account manager promises: its tables, its refresh tokens, its session tokens and its email tokens.\<close>

section \<open>Sequences of requests\<close>

definition run_requests :: "account_ext \<Rightarrow> (admission \<times> int \<times> request) list \<Rightarrow> account_db \<Rightarrow> account_db" where
  "run_requests E reqs db = fold (\<lambda>(ad, now, req). run_request E ad now req) reqs db"

definition empty_account_db :: account_db where
  "empty_account_db =
     \<lparr>a_actor = [], a_account = [], a_app_password = [], a_refresh = [], a_invite = [], a_invite_use = [], a_email_token = [],
      a_repo_root = [], a_token = [], a_authorized_client = [], a_account_device = []\<rparr>"

lemma run_requests_inv: "account_inv db \<Longrightarrow> account_inv (run_requests E reqs db)"
  by (induction reqs arbitrary: db) (auto simp: run_requests_def inv_run_request)

lemma empty_account_inv: "account_inv empty_account_db"
  by (simp add: account_inv_def empty_account_db_def actors_ok_def accounts_ok_def email_tokens_ok_def invites_ok_def List.map_filter_simps)

section \<open>Refresh tokens\<close>

definition has_refresh :: "string \<Rightarrow> account_db \<Rightarrow> bool" where
  "has_refresh i db \<longleftrightarrow> i \<in> rf_id ` set (a_refresh db)"

text \<open>A successor, once given, stays: neither of two rows with one id has forgotten it.\<close>

definition next_kept :: "account_db \<Rightarrow> account_db \<Rightarrow> bool" where
  "next_kept db db' \<longleftrightarrow> (\<forall>r\<in>set (a_refresh db). \<forall>r'\<in>set (a_refresh db'). \<forall>n.
     rf_id r = rf_id r' \<and> rf_next_id r = Some n \<longrightarrow> rf_next_id r' = Some n)"

lemma refresh_ids_inj: "account_inv db \<Longrightarrow> inj_on rf_id (set (a_refresh db))"
  by (simp add: account_inv_def distinct_map)

lemma next_kept_subset:
  assumes "account_inv db" "set (a_refresh db') \<subseteq> set (a_refresh db)"
  shows "next_kept db db'"
proof -
  have "r = r'" if "r \<in> set (a_refresh db)" "r' \<in> set (a_refresh db')" "rf_id r = rf_id r'" for r r'
    using inj_onD[OF refresh_ids_inj[OF assms(1)] that(3,1)] that(2) assms(2) by blast
  then show ?thesis unfolding next_kept_def by metis
qed

lemma next_kept_store:
  assumes "account_inv db" "store_refresh_token_tx E payload name db = Inr db'"
  shows "next_kept db db'"
proof (cases "\<exists>r\<in>set (a_refresh db). rf_id r = rf_jti payload")
  case True
  then have "db' = db" using assms(2) by (simp add: store_refresh_token_tx_def Let_def list_ex_iff split: if_splits)
  then show ?thesis using next_kept_subset[OF assms(1)] by simp
next
  case False
  then obtain q where q: "rf_id q = rf_jti payload" "a_refresh db' = a_refresh db @ [q]"
    using assms(2) that[of "\<lparr>rf_id = rf_jti payload, rf_did = rf_sub payload, rf_expires_at = rfc3339 E (int (rf_exp payload) * 1000000),
      rf_next_id = None, rf_app_password_name = name\<rparr>"]
    by (auto simp: store_refresh_token_tx_def Let_def list_ex_iff split: if_splits)
  have old: "next_kept db db" by (rule next_kept_subset[OF assms(1) subset_refl])
  show ?thesis unfolding next_kept_def
  proof (intro ballI allI impI)
    fix r r' m assume a: "r \<in> set (a_refresh db)" "r' \<in> set (a_refresh db')" "rf_id r = rf_id r' \<and> rf_next_id r = Some m"
    have "r' \<noteq> q" using False q(1) a(1,3) by metis
    then have "r' \<in> set (a_refresh db)" using a(2) unfolding q(2) by simp
    then show "rf_next_id r' = Some m" using old a(1,3) unfolding next_kept_def by blast
  qed
qed

definition graced :: "string \<Rightarrow> string \<Rightarrow> string \<Rightarrow> refresh_row \<Rightarrow> refresh_row" where
  "graced i at n r =
     (if rf_id r = i \<and> (rf_next_id r = None \<or> rf_next_id r = Some n) then r\<lparr>rf_expires_at := at, rf_next_id := Some n\<rparr> else r)"

lemma graced_keeps [simp]: "rf_id (graced i at n r) = rf_id r" "rf_did (graced i at n r) = rf_did r"
  "rf_next_id r = Some m \<Longrightarrow> rf_next_id (graced i at n r) = Some m"
  by (auto simp: graced_def)

lemma grace_rows:
  assumes "add_refresh_grace_period_tx i at n db = Inr db'"
  shows "a_refresh db' = map (graced i at n) (a_refresh db)"
    "\<exists>r\<in>set (a_refresh db). rf_id r = i \<and> (rf_next_id r = None \<or> rf_next_id r = Some n)"
  using assms by (auto simp: add_refresh_grace_period_tx_def Let_def list_ex_iff graced_def[abs_def] split: if_splits)

lemma grace_inv:
  assumes "account_inv db" "add_refresh_grace_period_tx i at n db = Inr db'"
  shows "account_inv db'"
  using assms
  by (auto simp: add_refresh_grace_period_tx_def account_inv_def Let_def distinct_map_keep simp del: map_map split: if_splits)

lemma next_kept_grace:
  assumes "account_inv db" "add_refresh_grace_period_tx i at n db = Inr db'"
  shows "next_kept db db'" "\<And>r. r \<in> set (a_refresh db') \<Longrightarrow> rf_id r = i \<Longrightarrow> rf_next_id r = Some n"
proof -
  note inj = inj_onD[OF refresh_ids_inj[OF assms(1)]] and rows = grace_rows[OF assms(2)]
  obtain r0 where r0: "r0 \<in> set (a_refresh db)" "rf_id r0 = i" "rf_next_id r0 = None \<or> rf_next_id r0 = Some n" using rows(2) by blast
  show "rf_next_id r = Some n" if "r \<in> set (a_refresh db')" "rf_id r = i" for r
  proof -
    obtain q where q: "q \<in> set (a_refresh db)" "r = graced i at n q" using \<open>r \<in> set (a_refresh db')\<close> unfolding rows(1) by auto
    then have "q = r0" using inj[of q r0] r0(1,2) that(2) by simp
    then show ?thesis using q(2) r0(2,3) by (simp add: graced_def)
  qed
  show "next_kept db db'" unfolding next_kept_def
  proof (intro ballI allI impI)
    fix r r' m assume a: "r \<in> set (a_refresh db)" "r' \<in> set (a_refresh db')" "rf_id r = rf_id r' \<and> rf_next_id r = Some m"
    obtain q where q: "q \<in> set (a_refresh db)" "r' = graced i at n q" using a(2) rows(1) by auto
    then have "q = r" using inj[of q r] a by simp
    then show "rf_next_id r' = Some m" using q(2) a(3) by simp
  qed
qed

lemma next_kept_trans:
  assumes "next_kept db db1" "next_kept db1 db2" "rf_id ` set (a_refresh db) \<inter> rf_id ` set (a_refresh db2) \<subseteq> rf_id ` set (a_refresh db1)"
  shows "next_kept db db2"
  unfolding next_kept_def
proof (intro ballI allI impI)
  fix r r' m assume a: "r \<in> set (a_refresh db)" "r' \<in> set (a_refresh db2)" "rf_id r = rf_id r' \<and> rf_next_id r = Some m"
  have "rf_id r \<in> rf_id ` set (a_refresh db) \<inter> rf_id ` set (a_refresh db2)" using a by (metis IntI imageI)
  then obtain q where q: "q \<in> set (a_refresh db1)" "rf_id q = rf_id r" using assms(3) by (metis imageE subsetD)
  have "rf_next_id q = Some m" using assms(1) a q unfolding next_kept_def by metis
  then show "rf_next_id r' = Some m" using assms(2) a q unfolding next_kept_def by metis
qed

lemma next_kept_rotate:
  assumes "account_inv db" "rotate_refresh_token_rows E i at n payload name db = Inr db'"
  shows "next_kept db db'" "\<And>r. r \<in> set (a_refresh db') \<Longrightarrow> rf_id r = i \<Longrightarrow> rf_next_id r = Some n" "has_refresh i db'"
proof -
  obtain db1 where db1: "add_refresh_grace_period_tx i at n db = Inr db1" "store_refresh_token_tx E payload name db1 = Inr db'"
    using assms(2) by (auto simp: rotate_refresh_token_rows_def elim: res_bind_Inr_E)
  note inv1 = grace_inv[OF assms(1) db1(1)] and g = next_kept_grace[OF assms(1) db1(1)]
  have ids: "rf_id ` set (a_refresh db1) = rf_id ` set (a_refresh db)" using grace_rows(1)[OF db1(1)] by (simp add: image_image)
  have sub: "set (a_refresh db1) \<subseteq> set (a_refresh db')"
    using db1(2) by (auto simp: store_refresh_token_tx_def Let_def split: if_splits)
  show "next_kept db db'" using next_kept_trans[OF g(1) next_kept_store[OF inv1 db1(2)]] ids by blast
  have "i \<in> rf_id ` set (a_refresh db1)" unfolding ids using grace_rows(2)[OF db1(1)] by blast
  then obtain q where q: "q \<in> set (a_refresh db1)" "rf_id q = i" by blast
  then show "has_refresh i db'" using sub by (auto simp: has_refresh_def)
  show "rf_next_id r = Some n" if "r \<in> set (a_refresh db')" "rf_id r = i" for r
    using next_kept_store[OF inv1 db1(2)] g(2)[OF q] q that unfolding next_kept_def by metis
qed

text \<open>Every request keeps the successors it leaves in the table.\<close>

lemma after_refresh:
  assumes "next_kept db db" "\<And>x db'. r = Inr (x, db') \<Longrightarrow> next_kept db db'"
  shows "next_kept db (after r db)"
  using assms by (auto simp: after_def split: sum.splits)

lemma after_refreshE:
  assumes "x \<in> set (a_refresh (after r db))"
  obtains "x \<in> set (a_refresh db)" | y db' where "r = Inr (y, db')" "x \<in> set (a_refresh db')"
  using assms by (auto simp: after_def split: sum.splits)

lemma next_kept_same: "account_inv db \<Longrightarrow> a_refresh db' = a_refresh db \<Longrightarrow> next_kept db db'"
  by (simp add: next_kept_subset)

lemma create_account_refresh:
  assumes "account_inv db" "create_account_tx E now opts pw payload db = Inr db'"
  shows "next_kept db db'"
proof -
  obtain u db1 db2 db3 db4 where steps: "register_actor_in E now (ca_did opts) (ca_handle opts) (ca_deactivated opts) db = Inr db1"
    "(case (ca_email opts, pw) of (Some email, Some password) \<Rightarrow> register_account_in (ca_did opts) email password db1 | _ \<Rightarrow> Inr db1) = Inr db2"
    "record_invite_use_in (ca_did opts) (ca_invite_code opts) (rfc3339 E now) db2 = Inr db3"
    "store_refresh_token_tx E payload None db3 = Inr db4"
    "db' = update_root_in (ca_did opts) (ca_repo_cid opts) (ca_repo_rev opts) (rfc3339 E now) db4"
    using assms(2) unfolding create_account_tx_def by (auto elim!: res_bind_Inr_E)
  have "a_refresh db1 = a_refresh db" using steps(1) by (auto simp: register_actor_in_def Let_def split: if_splits)
  moreover have "a_refresh db2 = a_refresh db1" using steps(2) by (auto simp: register_account_in_def Let_def split: if_splits option.splits)
  moreover have "a_refresh db3 = a_refresh db2" using steps(3) by (auto simp: record_invite_use_in_def split: if_splits option.splits)
  ultimately have rows: "a_refresh db3 = a_refresh db" by simp
  have "store_refresh_token_tx E payload None db = Inr (db\<lparr>a_refresh := a_refresh db4\<rparr>)"
    using steps(4) rows by (auto simp: store_refresh_token_tx_def Let_def split: if_splits)
  then have "next_kept db (db\<lparr>a_refresh := a_refresh db4\<rparr>)" by (rule next_kept_store[OF assms(1)])
  then show ?thesis using steps(5) by (simp add: next_kept_def update_root_in_def)
qed

lemma insert_codes_refresh: "insert_invite_codes rows db = Inr db' \<Longrightarrow> a_refresh db' = a_refresh db"
  unfolding insert_invite_codes_def
  by (induction rows arbitrary: db) (auto simp: insert_invite_code_def elim!: res_bind_Inr_E split: if_splits)

lemma account_codes_refresh: "db_create_account_invite_codes E now d cs n dis db = Inr (x, db') \<Longrightarrow> a_refresh db' = a_refresh db"
  by (auto simp: db_create_account_invite_codes_def Let_def elim!: res_bind_Inr_E dest: insert_codes_refresh split: if_splits)

lemmas refresh_untouched = update_root_in_def update_actor_def update_account_def db_deactivate_account_def db_activate_account_def
  update_account_takedown_status_def db_update_handle_def db_update_email_def set_email_confirmed_at_def update_user_password_def
  db_set_account_invites_disabled_def db_disable_invite_codes_def delete_email_token_def delete_all_email_tokens_def delete_app_password_def
  db_create_email_token_def db_create_app_password_def

lemmas refresh_filtered = db_delete_account_def revoke_refresh_tokens_by_did_def revoke_oauth_tokens_by_did_def db_revoke_refresh_token_def
  revoke_app_password_refresh_token_def delete_expired_refresh_tokens_def

lemma next_kept_run:
  assumes inv: "account_inv db"
  shows "next_kept db (run_request E ad now req db)"
proof -
  have self: "next_kept db db" by (rule next_kept_same[OF inv refl])
  note sub = next_kept_subset[OF inv]
  show ?thesis
  proof (cases req)
    case (CreateAccountReq f opts pw)
    then show ?thesis using create_account_refresh[OF inv]
      by (auto simp: create_account_with_password_hash_def intro!: after_refresh self elim!: res_bind_Inr_E dest!: admittedD split: prod.splits)
  next
    case (CreateSessionReq f d ap s)
    then show ?thesis using next_kept_store[OF inv]
      by (auto simp: create_session_def intro!: after_refresh self elim!: res_bind_Inr_E split: prod.splits)
  next
    case (RotateFinishReq ro)
    then show ?thesis using next_kept_rotate(1)[OF inv]
      by (auto simp: rotate_finish_def intro!: after_refresh self elim!: res_bind_Inr_E split: prod.splits if_splits)
  next
    case (RotateBeginReq f i)
    then show ?thesis
      by (auto simp: rotate_begin_def Let_def refresh_filtered intro!: self sub split: option.splits)
  next
    case (VerifyAppPasswordReq d pw db1 db2)
    then show ?thesis
      by (auto simp: db_verify_app_password_def finish_app_password_verification_def Let_def intro!: self sub split: prod.splits option.splits bool.splits)
  next
    case (UpdateEmailReq d e)
    then show ?thesis
      by (auto simp: update_email_def refresh_untouched Let_def intro!: self sub split: sum.splits if_splits)
  next
    case (CreateInviteCodesReq cs n)
    then show ?thesis using insert_codes_refresh by (auto simp: db_create_invite_codes_def intro!: self sub split: sum.splits)
  next
    case (CreateAccountInviteCodesReq d cs n dis)
    have "next_kept db (after (db_create_account_invite_codes E now d cs n dis db) db)"
      by (rule after_refresh[OF self]) (rule next_kept_same[OF inv account_codes_refresh])
    then show ?thesis using CreateAccountInviteCodesReq by simp
  qed (auto simp: update_repo_root_def update_repo_root_as_worker_def delete_account_rows_def unit_op_def update_handle_def
      deactivate_account_def deactivate_account_and_credentials_def activate_account_def revoke_refresh_token_def set_account_invites_disabled_def
      create_app_password_def takedown_account_def
      update_account_password_def store_account_password_def reset_password_def revoke_app_password_def confirm_email_def
      assert_valid_email_token_and_cleanup_def Let_def refresh_untouched refresh_filtered
      intro!: self sub elim!: after_refreshE res_bind_Inr_E dest!: admittedD split: sum.splits prod.splits if_splits)
qed

text \<open>The row of a token is there before and after each of the requests.\<close>

fun stays :: "account_ext \<Rightarrow> string \<Rightarrow> (admission \<times> int \<times> request) list \<Rightarrow> account_db \<Rightarrow> bool" where
  "stays E i [] db \<longleftrightarrow> has_refresh i db"
| "stays E i ((ad, now, req) # reqs) db \<longleftrightarrow> has_refresh i db \<and> stays E i reqs (run_request E ad now req db)"

definition successor_is :: "string \<Rightarrow> string \<Rightarrow> account_db \<Rightarrow> bool" where
  "successor_is i n db \<longleftrightarrow> (\<forall>r\<in>set (a_refresh db). rf_id r = i \<longrightarrow> rf_next_id r = Some n)"

lemma stays_has: "stays E i reqs db \<Longrightarrow> has_refresh i db"
  by (cases "(E, i, reqs, db)" rule: stays.cases) auto

lemma successor_stays:
  assumes "account_inv db" "stays E i reqs db" "successor_is i n db"
  shows "successor_is i n (run_requests E reqs db)"
  using assms
proof (induction reqs arbitrary: db)
  case (Cons q reqs)
  obtain ad now req where q: "q = (ad, now, req)" by (cases q)
  let ?db = "run_request E ad now req db"
  obtain r where r: "r \<in> set (a_refresh db)" "rf_id r = i" using Cons.prems(2) by (auto simp: q has_refresh_def)
  have "rf_next_id r = Some n" using Cons.prems(3) r by (auto simp: successor_is_def)
  then have "successor_is i n ?db" using next_kept_run[OF Cons.prems(1)] r unfolding next_kept_def successor_is_def by metis
  then show ?case using Cons.IH[of ?db] Cons.prems inv_run_request by (auto simp: q run_requests_def)
qed (simp add: run_requests_def)

lemma issued_tokens:
  assumes "jwt_ok (ax_jwt E)" "new_tokens E now fresh did scope jti = Inr (jwts, payload)"
  shows "decode_refresh_token (ax_jwt E) (now_secs now) (ax_signer E) (snd jwts) = Inr payload"
    "rf_jti payload = (case jti of Some j \<Rightarrow> j | None \<Rightarrow> fresh)" "rf_sub payload = did"
  using assms by (auto simp: new_tokens_def create_tokens_def Let_def decode_issued_refresh refresh_claims_def split: sum.splits if_splits)

lemma rotate_finish_ok:
  assumes "account_inv db" "jwt_ok (ax_jwt E)" "rotate_finish E ro db = Inr (jwts, db')"
  shows "\<exists>p. decode_refresh_token (ax_jwt E) (now_secs (ro_now ro)) (ax_signer E) (snd jwts) = Inr p \<and> rf_jti p = ro_next_id ro"
    "successor_is (ro_id ro) (ro_next_id ro) db'" "has_refresh (ro_id ro) db'" "account_inv db'" "next_kept db db'" "has_refresh (ro_id ro) db"
proof -
  obtain payload where p: "new_tokens E (ro_now ro) [] (ro_did ro) (format_scope (ro_app_password ro) False) (Some (ro_next_id ro)) = Inr (jwts, payload)"
    "rotate_refresh_token_rows E (ro_id ro) (rfc3339 E (ro_expires_at ro)) (ro_next_id ro) payload (map_option apd_name (ro_app_password ro)) db = Inr db'"
    using assms(3) by (auto simp: rotate_finish_def elim!: res_bind_Inr_E split: if_splits)
  show "\<exists>p. decode_refresh_token (ax_jwt E) (now_secs (ro_now ro)) (ax_signer E) (snd jwts) = Inr p \<and> rf_jti p = ro_next_id ro"
    using issued_tokens[OF assms(2) p(1)] by auto
  note rot = next_kept_rotate[OF assms(1) p(2)]
  show "successor_is (ro_id ro) (ro_next_id ro) db'" using rot(2) by (simp add: successor_is_def)
  show "has_refresh (ro_id ro) db'" "next_kept db db'" by (rule rot)+
  show "account_inv db'" by (rule inv_rotate_rows[OF assms(1) p(2)])
  show "has_refresh (ro_id ro) db"
    using p(2) unfolding rotate_refresh_token_rows_def has_refresh_def by (metis grace_rows(2) image_eqI res_bind_Inr_E)
qed

section \<open>A clock, a signer and hashes for the examples\<close>

fun demo_b64 :: "bytes \<Rightarrow> string" where
  "demo_b64 [] = []"
| "demo_b64 (b # bs) = (if enc_byte b = CHR ''.'' then ''xd'' else [CHR ''y'', enc_byte b]) @ demo_b64 bs"

fun demo_unb64 :: "string \<Rightarrow> bytes option" where
  "demo_unb64 [] = Some []"
| "demo_unb64 (a # c # s) = map_option ((#) (of_char (if a = CHR ''x'' then CHR ''.'' else c))) (demo_unb64 s)"
| "demo_unb64 _ = None"

lemma demo_b64_round: "demo_unb64 (demo_b64 b) = Some b" "CHR ''.'' \<notin> set (demo_b64 b)"
proof (induction b)
  case (Cons x b)
  have "enc_byte x = CHR ''.'' \<Longrightarrow> of_char CHR ''.'' = x" by (metis of_char_enc_byte)
  then show "demo_unb64 (demo_b64 (x # b)) = Some (x # b)" "CHR ''.'' \<notin> set (demo_b64 (x # b))"
    using Cons by (auto simp: of_char_enc_byte)
qed simp_all

definition demo_claims :: "session_claims \<Rightarrow> string" where
  "demo_claims c = enc_str (sc_scope c) @ enc_str (the (sc_sub c)) @ enc_str (case sc_aud c of Some (AudString a) \<Rightarrow> a | _ \<Rightarrow> []) @
     enc_str (replicate (the (sc_exp c)) CHR ''t'') @ enc_str (replicate (the (sc_iat c)) CHR ''t'') @ enc_opt (sc_jti c)"

definition demo_unclaims :: "string \<Rightarrow> session_claims option" where
  "demo_unclaims s =
     Option.bind (dec_str s) (\<lambda>(scope, s). Option.bind (dec_str s) (\<lambda>(sub, s). Option.bind (dec_str s) (\<lambda>(aud, s).
     Option.bind (dec_str s) (\<lambda>(e, s). Option.bind (dec_str s) (\<lambda>(iat, s). Option.bind (dec_opt s) (\<lambda>(jti, s).
       Some \<lparr>sc_scope = scope, sc_sub = Some sub, sc_aud = Some (AudString aud), sc_exp = Some (length e), sc_nbf = None,
         sc_iat = Some (length iat), sc_jti = jti, sc_lxm = None, sc_cnf = False\<rparr>))))))"

definition demo_jwt :: jwt_ext where
  "demo_jwt =
     \<lparr>hmac_sha256 = (\<lambda>k i. k @ map of_char i), ecdsa_sign = (\<lambda>k i. map of_char i), ecdsa_valid = (\<lambda>k i sig. sig = map of_char i),
      key_of_hex = (\<lambda>h. Some (length h)), str_bytes = map of_char, b64_encode = demo_b64, b64_decode = demo_unb64,
      header_json = (\<lambda>t a. map of_char (enc_str t @ enc_str a)),
      header_parse = (\<lambda>b. Option.bind (dec_str (map enc_byte b)) (\<lambda>(t, s). Option.bind (dec_str s) (\<lambda>(a, _). Some (Some t, Some a)))),
      claims_json = (\<lambda>c. map of_char (demo_claims c)), claims_parse = (\<lambda>b. demo_unclaims (map enc_byte b)), str_lower = id\<rparr>"

lemma demo_jwt_ok: "jwt_ok demo_jwt"
proof -
  have chars: "map enc_byte (map of_char s) = s" for s by (simp add: comp_def enc_byte_of_char)
  have opt: "dec_opt (enc_opt x) = Some (x, [])" for x using dec_enc_opt[of x "[]"] by simp
  have str: "dec_str (enc_str x) = Some (x, [])" for x using dec_enc_str[of x "[]"] by simp
  show ?thesis
    by (simp add: jwt_ok_def demo_jwt_def demo_b64_round chars del: map_map map_append)
       (simp add: dec_enc_str str opt demo_unclaims_def demo_claims_def access_claims_def refresh_claims_def Let_def del: enc_opt.simps)
qed

definition demo_account :: account_ext where
  "demo_account =
     \<lparr>rfc3339 = (\<lambda>t. replicate (nat (t div 1000)) CHR ''t''), in_calendar = (\<lambda>t. 0 \<le> t), parse_micros = (\<lambda>s. Some (int (length s) * 1000)),
      to_lower = map to_ascii_lowercase, to_upper = id, salted_hash = (\<lambda>salt pw. salt @ '':'' @ pw),
      password_matches = (\<lambda>pw h. drop (length h - length pw) h = pw), app_password_hash = (\<lambda>did pw. did @ '':'' @ pw),
      legacy_app_password_hash = (\<lambda>did pw. ''$argon2'' @ did @ pw), ax_jwt = demo_jwt, ax_signer = Hmac [1], ax_service_did = ''did:web:x''\<rparr>"

lemma demo_account_jwt [simp]: "jwt_ok (ax_jwt demo_account)"
  by (simp add: demo_account_def demo_jwt_ok)

section \<open>Properties\<close>



text \<open>C27. Whoever rotates a refresh token again, and whatever requests were served in between, gets a refresh token
  with the id the first rotation gave, as long as the row of the rotated token stays in the table.\<close>

theorem rotation_successor_is_stable:
  assumes "account_inv db" "jwt_ok (ax_jwt E)" "rotate_finish E ro1 db = Inr (jwts1, db1)" "stays E (ro_id ro1) reqs db1"
    "rotate_finish E ro2 (run_requests E reqs db1) = Inr (jwts2, db2)" "ro_id ro2 = ro_id ro1"
  shows "\<exists>p1 p2. decode_refresh_token (ax_jwt E) (now_secs (ro_now ro1)) (ax_signer E) (snd jwts1) = Inr p1 \<and>
    decode_refresh_token (ax_jwt E) (now_secs (ro_now ro2)) (ax_signer E) (snd jwts2) = Inr p2 \<and> rf_jti p1 = rf_jti p2"
proof -
  note first = rotate_finish_ok[OF assms(1,2,3)]
  have inv: "account_inv (run_requests E reqs db1)" by (rule run_requests_inv[OF first(4)])
  note second = rotate_finish_ok[OF inv assms(2,5)]
  have "successor_is (ro_id ro1) (ro_next_id ro1) (run_requests E reqs db1)" by (rule successor_stays[OF first(4) assms(4) first(2)])
  moreover obtain r where r: "r \<in> set (a_refresh (run_requests E reqs db1))" "rf_id r = ro_id ro1"
    using second(6) assms(6) by (auto simp: has_refresh_def)
  ultimately have next1: "rf_next_id r = Some (ro_next_id ro1)" by (simp add: successor_is_def)
  obtain r' where r': "r' \<in> set (a_refresh db2)" "rf_id r' = ro_id ro1" using second(3) assms(6) by (auto simp: has_refresh_def)
  have "rf_next_id r' = Some (ro_next_id ro2)" using second(2) r' assms(6) by (simp add: successor_is_def)
  moreover have "rf_next_id r' = Some (ro_next_id ro1)" using second(5) r r' next1 unfolding next_kept_def by metis
  ultimately have "ro_next_id ro1 = ro_next_id ro2" by simp
  then show ?thesis using first(1) second(1) by metis
qed

lemma tokens_told_apart:
  assumes "jwt_ok J" "create_tokens J t fresh S opts = (access, refresh)"
  shows "jwt_verify J now S access ACCESS_TOKEN_TYP vopts = check_claims now vopts (access_claims t (opts\<lparr>ct_jti := None\<rparr>))"
    "decode_refresh_token J now S refresh =
       (let e = expiry (case ct_issued_at opts of Some i \<Rightarrow> i | None \<Rightarrow> t) (ct_expires_in_secs opts) REFRESH_TOKEN_LIFETIME_SECS
        in if now < e then Inr \<lparr>rf_scope = ScopeRefresh, rf_sub = ct_did opts, rf_exp = e, rf_jti = (case ct_jti opts of Some j \<Rightarrow> j | None \<Rightarrow> fresh)\<rparr>
           else Inl (SessionErr TokenExpired))"
    "jwt_verify J now S access REFRESH_TOKEN_TYP vopts = Inl TokenInvalid" "jwt_verify J now S refresh ACCESS_TOKEN_TYP vopts = Inl TokenInvalid"
    "signer_alg S' \<noteq> signer_alg S \<Longrightarrow> jwt_verify J now S' access typ vopts = Inl TokenInvalid \<and> jwt_verify J now S' refresh typ vopts = Inl TokenInvalid"
  using assms(2) verify_issued[OF assms(1)] own_typ_accepted[OF assms(1)] other_scheme_refused[OF assms(1)] decode_issued_refresh[OF assms(1)]
  by (auto simp: create_tokens_def refresh_claims_def Let_def)

text \<open>C28. The access token and the refresh token issued together are accepted for what they are, while they last, and
  never for each other or by a server that signs with the other scheme.\<close>

theorem session_tokens_not_interchangeable:
  assumes "jwt_ok J" "create_tokens J t fresh S opts = (access, refresh)"
  shows "jwt_verify J now S access ACCESS_TOKEN_TYP vopts = check_claims now vopts (access_claims t (opts\<lparr>ct_jti := None\<rparr>)) \<and>
    decode_refresh_token J now S refresh =
       (let e = expiry (case ct_issued_at opts of Some i \<Rightarrow> i | None \<Rightarrow> t) (ct_expires_in_secs opts) REFRESH_TOKEN_LIFETIME_SECS
        in if now < e then Inr \<lparr>rf_scope = ScopeRefresh, rf_sub = ct_did opts, rf_exp = e, rf_jti = (case ct_jti opts of Some j \<Rightarrow> j | None \<Rightarrow> fresh)\<rparr>
           else Inl (SessionErr TokenExpired)) \<and>
    jwt_verify J now S access REFRESH_TOKEN_TYP vopts = Inl TokenInvalid \<and> jwt_verify J now S refresh ACCESS_TOKEN_TYP vopts = Inl TokenInvalid \<and>
    (\<forall>S' typ. signer_alg S' \<noteq> signer_alg S \<longrightarrow>
       jwt_verify J now S' access typ vopts = Inl TokenInvalid \<and> jwt_verify J now S' refresh typ vopts = Inl TokenInvalid)"
  using tokens_told_apart[OF assms] by blast

theorem session_tokens_not_interchangeable_witness:
  "decode_refresh_token demo_jwt 5 (Hmac [1]) (snd (create_tokens demo_jwt 3 ''n'' (Hmac [1])
       \<lparr>ct_did = ''d'', ct_service_did = ''s'', ct_scope = None, ct_jti = None, ct_expires_in_secs = Some 10, ct_issued_at = None\<rparr>)) =
     Inr \<lparr>rf_scope = ScopeRefresh, rf_sub = ''d'', rf_exp = 13, rf_jti = ''n''\<rparr> \<and>
   jwt_verify demo_jwt 5 (K256 7) (fst (create_tokens demo_jwt 3 ''n'' (Hmac [1])
       \<lparr>ct_did = ''d'', ct_service_did = ''s'', ct_scope = None, ct_jti = None, ct_expires_in_secs = Some 10, ct_issued_at = None\<rparr>))
     ACCESS_TOKEN_TYP default_options = Inl TokenInvalid"
proof -
  let ?o = "\<lparr>ct_did = ''d'', ct_service_did = ''s'', ct_scope = None, ct_jti = None, ct_expires_in_secs = Some 10, ct_issued_at = None\<rparr>"
  let ?p = "create_tokens demo_jwt 3 ''n'' (Hmac [1]) ?o"
  have p: "?p = (fst ?p, snd ?p)" by simp
  show ?thesis
    using session_tokens_not_interchangeable[OF demo_jwt_ok p, of 5 default_options]
    by (simp add: expiry_def Let_def)
qed

definition demo_rotation :: "string \<Rightarrow> rotation" where
  "demo_rotation n = \<lparr>ro_id = ''a'', ro_did = ''d'', ro_expires_at = 5000, ro_next_id = n, ro_app_password = None, ro_now = 2000\<rparr>"

definition demo_session_db :: account_db where
  "demo_session_db = empty_account_db\<lparr>a_refresh := [\<lparr>rf_id = ''a'', rf_did = ''d'', rf_expires_at = ''ttttttttt'', rf_next_id = None,
     rf_app_password_name = None\<rparr>]\<rparr>"

lemma demo_rotate:
  assumes "list_ex (\<lambda>r. rf_id r = ''a'' \<and> (rf_next_id r = None \<or> rf_next_id r = Some n)) (a_refresh db)"
  shows "is_ok (rotate_finish demo_account (demo_rotation n) db)"
proof -
  have "decode_refresh_token demo_jwt 0 (Hmac [1]) (create_refresh_token demo_jwt 0 [] (Hmac [1]) o') =
      Inr \<lparr>rf_scope = ScopeRefresh, rf_sub = ct_did o', rf_exp = 7776000, rf_jti = n\<rparr>"
    if "ct_jti o' = Some n" "ct_expires_in_secs o' = None" "ct_issued_at o' = None" for o'
    using that by (simp add: decode_issued_refresh[OF demo_jwt_ok] refresh_claims_def expiry_def REFRESH_TOKEN_LIFETIME_SECS_def Let_def)
  then show ?thesis using assms
    by (auto simp: rotate_finish_def demo_rotation_def new_tokens_def create_tokens_def demo_account_def now_secs_def secs_def
        rotate_refresh_token_rows_def add_refresh_grace_period_tx_def store_refresh_token_tx_def Let_def is_ok_iff)
qed

theorem rotation_successor_is_stable_witness:
  "\<exists>jwts1 db1 jwts2 db2 p1 p2. rotate_finish demo_account (demo_rotation ''b'') demo_session_db = Inr (jwts1, db1) \<and>
     rotate_finish demo_account (demo_rotation ''b'') (run_requests demo_account [(ad_unrestricted, 0, ActivateReq ''d'')] db1) = Inr (jwts2, db2) \<and>
     decode_refresh_token demo_jwt 0 (Hmac [1]) (snd jwts1) = Inr p1 \<and> decode_refresh_token demo_jwt 0 (Hmac [1]) (snd jwts2) = Inr p2 \<and> rf_jti p1 = rf_jti p2"
proof -
  have inv: "account_inv demo_session_db"
    using empty_account_inv by (simp add: demo_session_db_def account_inv_def empty_account_db_def)
  obtain jwts1 db1 where one: "rotate_finish demo_account (demo_rotation ''b'') demo_session_db = Inr (jwts1, db1)"
    using demo_rotate[of "''b''" demo_session_db] by (auto simp: demo_session_db_def is_ok_iff)
  note ok = rotate_finish_ok[OF inv demo_account_jwt one]
  have same: "a_refresh (run_requests demo_account [(ad_unrestricted, 0, ActivateReq ''d'')] db1) = a_refresh db1"
    by (simp add: run_requests_def activate_account_def admitted_def unit_op_def admit_def after_def db_activate_account_def update_actor_def split: sum.splits)
  have st: "stays demo_account (ro_id (demo_rotation ''b'')) [(ad_unrestricted, 0, ActivateReq ''d'')] db1"
    using ok(3) same by (simp add: has_refresh_def run_requests_def)
  obtain r where r: "r \<in> set (a_refresh db1)" "rf_id r = ''a''" using ok(3) by (auto simp: has_refresh_def demo_rotation_def)
  then have "rf_next_id r = Some ''b''" using ok(2) by (auto simp: successor_is_def demo_rotation_def)
  then have again: "list_ex (\<lambda>r. rf_id r = ''a'' \<and> (rf_next_id r = None \<or> rf_next_id r = Some ''b'')) (a_refresh (run_requests demo_account [(ad_unrestricted, 0, ActivateReq ''d'')] db1))"
    unfolding same using r by (auto simp: list_ex_iff)
  obtain jwts2 db2 where two: "rotate_finish demo_account (demo_rotation ''b'') (run_requests demo_account [(ad_unrestricted, 0, ActivateReq ''d'')] db1) = Inr (jwts2, db2)"
    using demo_rotate[OF again] by (auto simp: is_ok_iff)
  have "now_secs (ro_now (demo_rotation ''b'')) = 0" "ax_jwt demo_account = demo_jwt" "ax_signer demo_account = Hmac [1]"
    by (simp_all add: demo_rotation_def now_secs_def secs_def demo_account_def)
  then show ?thesis using rotation_successor_is_stable[OF inv demo_account_jwt one st two refl] one two by metis
qed

lemma email_token_effects:
  assumes "db_create_email_token E t random did purpose db = Inr (token, db')" "account_inv db" "to_upper E token = token"
    "parse_micros E (rfc3339 E t) = Some (t div 1000 * 1000)" "0 \<le> t" "t < 10 ^ 21" "0 \<le> now"
  shows "assert_valid_token E now did purpose token None db' = (if secs now < secs t + 900000 then Inr () else Inl EmailTokenExpired)"
    "other \<noteq> token \<Longrightarrow> to_upper E other = other \<Longrightarrow> assert_valid_token E now did purpose other None db' = Inl EmailTokenInvalid"
proof -
  let ?row = "\<lparr>et_purpose = purpose, et_did = did, et_token = token, et_requested_at = rfc3339 E t\<rparr>"
  let ?mine = "\<lambda>r. et_purpose r = purpose \<and> et_did r = did" and ?ts = "a_email_token db"
  have tok: "token = to_upper E random"
    and rows: "a_email_token db' = (if list_ex ?mine ?ts then map (\<lambda>r. if ?mine r then ?row else r) ?ts else ?ts @ [?row])"
    using assms(1) by (auto simp: db_create_email_token_def Let_def split: if_splits)
  have mine: "r = ?row" if "r \<in> set (a_email_token db')" "?mine r" for r
    using that rows by (auto simp: list_ex_iff split: if_splits)
  have there: "?row \<in> set (a_email_token db')" using rows by (auto simp: list_ex_iff image_iff split: if_splits)
  have found: "List.find (\<lambda>r. et_purpose r = purpose \<and> et_did r = did \<and> et_token r = x) (a_email_token db') = (if x = token then Some ?row else None)" for x
  proof (cases "List.find (\<lambda>r. et_purpose r = purpose \<and> et_did r = did \<and> et_token r = x) (a_email_token db')")
    case None
    have "x \<noteq> token"
    proof
      assume "x = token"
      then have "et_purpose ?row = purpose \<and> et_did ?row = did \<and> et_token ?row = x" by simp
      then show False using None there unfolding find_None_iff by blast
    qed
    then show ?thesis using None by simp
  next
    case (Some r)
    then have "r \<in> set (a_email_token db')" "?mine r" "et_token r = x"
      using find_Some_iff2[of "\<lambda>r. et_purpose r = purpose \<and> et_did r = did \<and> et_token r = x"] by auto
    then have "r = ?row" "x = token" using mine[of r] by auto
    then show ?thesis using Some by simp
  qed
  have sec: "secs (t div 1000 * 1000) = secs t" by (simp add: secs_def)
  have bounds: "0 \<le> secs t" "secs t < 2 ^ 63" "0 \<le> secs now" using assms(5,6,7) by (auto simp: secs_def)
  have "less_than_ago_s (nat (secs now)) (secs t) 900000 \<longleftrightarrow> secs now < secs t + 900000"
    using bounds by (auto simp: less_than_ago_s_def nat_less_iff zless_nat_eq_int_zless)
  then show "assert_valid_token E now did purpose token None db' = (if secs now < secs t + 900000 then Inr () else Inl EmailTokenExpired)"
    using assms(3,4) by (simp add: assert_valid_token_def check_email_token_def found sec MINUTE_def SECOND_def)
  show "other \<noteq> token \<Longrightarrow> to_upper E other = other \<Longrightarrow> assert_valid_token E now did purpose other None db' = Inl EmailTokenInvalid"
    by (simp add: assert_valid_token_def check_email_token_def found)
qed

text \<open>An email token is accepted for 900000 seconds after it was made, ten days and ten hours: the code counts fifteen
  minutes in milliseconds and compares in seconds. Only the last token made for an account and a purpose is accepted.\<close>

theorem email_token_lifetime:
  assumes "db_create_email_token E t random did purpose db = Inr (token, db')" "account_inv db" "to_upper E token = token"
    "parse_micros E (rfc3339 E t) = Some (t div 1000 * 1000)" "0 \<le> t" "t < 10 ^ 21" "0 \<le> now"
  shows "assert_valid_token E now did purpose token None db' = (if secs now < secs t + 900000 then Inr () else Inl EmailTokenExpired) \<and>
    (\<forall>other. other \<noteq> token \<longrightarrow> to_upper E other = other \<longrightarrow> assert_valid_token E now did purpose other None db' = Inl EmailTokenInvalid)"
  using email_token_effects[OF assms] by blast

theorem email_token_lifetime_witness:
  "\<exists>db'. db_create_email_token demo_account 5000000 ''AB'' ''d'' ResetPassword empty_account_db = Inr (''AB'', db') \<and>
     assert_valid_token demo_account (10 * DAY_MICROS) ''d'' ResetPassword ''AB'' None db' = Inr () \<and>
     assert_valid_token demo_account (11 * DAY_MICROS) ''d'' ResetPassword ''AB'' None db' = Inl EmailTokenExpired"
proof -
  let ?db' = "empty_account_db\<lparr>a_email_token := [\<lparr>et_purpose = ResetPassword, et_did = ''d'', et_token = ''AB'', et_requested_at = rfc3339 demo_account 5000000\<rparr>]\<rparr>"
  have made: "db_create_email_token demo_account 5000000 ''AB'' ''d'' ResetPassword empty_account_db = Inr (''AB'', ?db')"
    by (simp add: db_create_email_token_def empty_account_db_def demo_account_def Let_def)
  have laws: "to_upper demo_account ''AB'' = ''AB''" "parse_micros demo_account (rfc3339 demo_account 5000000) = Some (5000000 div 1000 * 1000)"
    by (simp_all add: demo_account_def)
  note life = email_token_lifetime[OF made empty_account_inv laws, THEN conjunct1]
  show ?thesis using made life[of "10 * DAY_MICROS"] life[of "11 * DAY_MICROS"] by (auto simp: DAY_MICROS_def secs_def)
qed

text \<open>Deleting an account's rows leaves nothing an account lookup, a refresh token or an OAuth session could find, but
  its app passwords stay: a password that signed in before the deletion is still accepted after it, so an
  account created again for the same DID has them from the start.\<close>

theorem deletion_keeps_app_passwords:
  assumes "delete_account_rows ad did db = Inr (n, db')"
  shows "get_account did (Some \<lparr>include_taken_down = Some True, include_deactivated = Some True\<rparr>) db' = None \<or> \<not> starts_with did ''did:''"
    "\<forall>r\<in>set (a_refresh db'). rf_did r \<noteq> did" "\<forall>(_, d)\<in>set (a_token db'). d \<noteq> did"
    "fst (db_verify_app_password E ad ro did pw db' db' db') = fst (db_verify_app_password E ad ro did pw db db db)"
proof -
  have db': "db' = snd (db_delete_account did db)" using assms by (auto simp: delete_account_rows_def dest!: admittedD)
  have same: "a_app_password db' = a_app_password db" by (simp add: db' db_delete_account_def Let_def)
  have look: "lookup_app_password did h db' = lookup_app_password did h db" for h by (simp add: lookup_app_password_def same)
  then have pair: "lookup_app_password_pair did h l db' = lookup_app_password_pair did h l db" for h l by (simp only: lookup_app_password_pair_def)
  have "fst (finish_app_password_verification did h l d) = fst (lookup_app_password_pair did h l d)" for h l d
    by (simp add: finish_app_password_verification_def split: prod.splits option.splits bool.splits)
  then show "fst (db_verify_app_password E ad ro did pw db' db' db') = fst (db_verify_app_password E ad ro did pw db db db)"
    by (simp add: db_verify_app_password_def lookup_app_password_state_def Let_def look pair same split: prod.splits)
  show "get_account did (Some \<lparr>include_taken_down = Some True, include_deactivated = Some True\<rparr>) db' = None \<or> \<not> starts_with did ''did:''"
    by (auto simp: get_account_def db' db_delete_account_def Let_def find_None_iff)
  show "\<forall>r\<in>set (a_refresh db'). rf_did r \<noteq> did" "\<forall>(_, d)\<in>set (a_token db'). d \<noteq> did"
    by (auto simp: db' db_delete_account_def Let_def)
qed

theorem deletion_keeps_app_passwords_witness:
  "\<exists>n db'. delete_account_rows ad_unrestricted ''did:a'' (empty_account_db\<lparr>a_app_password :=
       [\<lparr>ap_did = ''did:a'', ap_name = ''phone'', ap_password = ''did:a:secret'', ap_created_at = [], ap_privileged = 0\<rparr>]\<rparr>) = Inr (n, db') \<and>
     fst (db_verify_app_password demo_account ad_unrestricted False ''did:a'' ''secret'' db' db' db') = Some \<lparr>apd_name = ''phone'', apd_privileged = False\<rparr>"
proof -
  let ?db = "empty_account_db\<lparr>a_app_password :=
       [\<lparr>ap_did = ''did:a'', ap_name = ''phone'', ap_password = ''did:a:secret'', ap_created_at = [], ap_privileged = 0\<rparr>]\<rparr>"
  obtain n db' where d: "delete_account_rows ad_unrestricted ''did:a'' ?db = Inr (n, db')"
    by (cases "db_delete_account ''did:a'' ?db")
       (simp add: delete_account_rows_def admitted_def admit_def admit_mutation_def ad_unrestricted_def al_unrestricted_def al_state_of_def)
  have "fst (db_verify_app_password demo_account ad_unrestricted False ''did:a'' ''secret'' ?db ?db ?db) = Some \<lparr>apd_name = ''phone'', apd_privileged = False\<rparr>"
    by (simp add: db_verify_app_password_def lookup_app_password_state_def lookup_app_password_def demo_account_def Let_def)
  then show ?thesis using d deletion_keeps_app_passwords(4)[OF d, of demo_account False "''secret''"] by auto
qed

lemma takedown_effects:
  assumes "takedown_account E ad now did takedown db = Inr (n, db')" "sa_applied takedown" "starts_with did ''did:''"
    "\<exists>r\<in>set (a_actor db). ac_did r = did"
  shows "get_account_status did db' = Inr Takendown" "get_account did None db' = None"
    "\<forall>r\<in>set (a_refresh db'). rf_did r \<noteq> did" "\<forall>(_, d)\<in>set (a_token db'). d \<noteq> did"
    "ensure_invite_is_available_in code db' = ensure_invite_is_available_in code db"
proof -
  let ?ref = "Some (case sa_ref takedown of Some r \<Rightarrow> r | None \<Rightarrow> rfc3339 E now)"
  let ?f = "\<lambda>r. if ac_did r = did then r\<lparr>ac_takedown_ref := ?ref\<rparr> else r"
  have tables: "a_actor db' = map ?f (a_actor db)" "a_refresh db' = filter (\<lambda>r. rf_did r \<noteq> did) (a_refresh db)"
    "a_token db' = filter (\<lambda>(_, d). d \<noteq> did) (a_token db)" "a_invite db' = a_invite db" "a_invite_use db' = a_invite_use db"
    using assms(1,2) by (auto simp: takedown_account_def Let_def update_account_takedown_status_def update_actor_def revoke_refresh_tokens_by_did_def
        revoke_oauth_tokens_by_did_def dest!: admittedD)
  obtain r0 where r0: "r0 \<in> set (a_actor db)" "ac_did r0 = did" using assms(4) by blast
  have "?f r0 \<in> set (a_actor db')" unfolding tables(1) set_map by (rule imageI[OF r0(1)])
  moreover have "ac_did (?f r0) = did" using r0 by simp
  ultimately have "List.find (\<lambda>r. ac_did r = did) (a_actor db') \<noteq> None" unfolding find_None_iff by blast
  then obtain r where r: "List.find (\<lambda>r. ac_did r = did) (a_actor db') = Some r" by blast
  note mem = conjunct1[OF find_Some_iff2[OF r]] conjunct2[OF find_Some_iff2[OF r]]
  have td: "ac_takedown_ref r = ?ref" 
  proof -
    obtain q where "q \<in> set (a_actor db)" "r = ?f q" using mem(1) unfolding tables(1) set_map by (rule imageE)
    then show ?thesis using mem(2) by (cases "ac_did q = did") simp_all
  qed
  have all: "available (Some \<lparr>include_taken_down = Some True, include_deactivated = Some True\<rparr>) x" for x by (simp add: available_def)
  show "get_account_status did db' = Inr Takendown"
    using r td assms(3) by (simp add: get_account_status_def get_account_def all format_account_status_def actor_account_from_row_def Let_def)
  have "\<not> available None x" if x: "x \<in> set (a_actor db')" "ac_did x = did" for x
  proof -
    obtain q where "q \<in> set (a_actor db)" "x = ?f q" using x(1) unfolding tables(1) set_map by (rule imageE)
    then show ?thesis using x(2) by (cases "ac_did q = did") (simp_all add: available_def)
  qed
  then show "get_account did None db' = None" using assms(3) by (auto simp: get_account_def find_None_iff)
  show "\<forall>r\<in>set (a_refresh db'). rf_did r \<noteq> did" "\<forall>(_, d)\<in>set (a_token db'). d \<noteq> did" by (auto simp: tables)
  have "find_invite code db' = find_invite code db" "invite_uses code db' = invite_uses code db"
    by (simp_all add: find_invite_def invite_uses_def tables)
  then show "ensure_invite_is_available_in code db' = ensure_invite_is_available_in code db" by (simp only: ensure_invite_is_available_in_def)
qed

text \<open>C29. A takedown ends every session of the account: no refresh token of it can be rotated and no OAuth session is
  left; the account is reported as taken down and ordinary lookups no longer find it. The invite codes it
  made stay usable, although the query joins the account's row to ask whether it is taken down.\<close>

theorem takedown_ends_sessions:
  assumes "takedown_account E ad now did takedown db = Inr (n, db')" "sa_applied takedown" "starts_with did ''did:''"
    "\<exists>r\<in>set (a_actor db). ac_did r = did"
  shows "get_account_status did db' = Inr Takendown \<and> get_account did None db' = None \<and>
    (\<forall>r\<in>set (a_refresh db'). rf_did r \<noteq> did) \<and> (\<forall>(_, d)\<in>set (a_token db'). d \<noteq> did) \<and>
    ensure_invite_is_available_in code db' = ensure_invite_is_available_in code db"
  using takedown_effects[OF assms] by blast

definition demo_actor :: actor_row where
  "demo_actor = \<lparr>ac_did = ''did:a'', ac_handle = None, ac_created_at = [], ac_takedown_ref = None, ac_deactivated_at = None, ac_delete_after = None\<rparr>"

theorem takedown_ends_sessions_witness:
  "\<exists>n db'. takedown_account demo_account ad_unrestricted 0 ''did:a'' \<lparr>sa_applied = True, sa_ref = None\<rparr> (empty_account_db\<lparr>a_actor := [demo_actor]\<rparr>) = Inr (n, db') \<and>
     get_account_status ''did:a'' db' = Inr Takendown"
proof -
  let ?db = "empty_account_db\<lparr>a_actor := [demo_actor]\<rparr>"
  obtain n db' where t: "takedown_account demo_account ad_unrestricted 0 ''did:a'' \<lparr>sa_applied = True, sa_ref = None\<rparr> ?db = Inr (n, db')"
    by (simp add: takedown_account_def admitted_def admit_def admit_mutation_def ad_unrestricted_def al_unrestricted_def al_state_of_def Let_def
        revoke_refresh_tokens_by_did_def revoke_oauth_tokens_by_did_def)
  from takedown_ends_sessions[OF t, THEN conjunct1] show ?thesis using t by (auto simp: starts_with_def demo_actor_def)
qed

text \<open>An account created with an address that has upper-case letters is not found by that address: the row keeps the
  address as it was given and the lookup asks for it in lower case.\<close>

theorem upper_case_email_not_found:
  assumes "create_account_with_password_hash E ad now fresh opts (Some h) db = Inr (jwts, db')" "ca_email opts = Some email"
    "to_lower E email \<noteq> email" "\<forall>r\<in>set (a_account db). an_email r \<noteq> to_lower E email"
  shows "get_account_by_email E email flags db' = None"
proof -
  obtain payload where "create_account_tx E now opts (Some h) payload db = Inr db'"
    using assms(1) by (auto simp: create_account_with_password_hash_def dest!: admittedD elim!: res_bind_Inr_E split: prod.splits)
  then obtain db1 db2 db3 db4 where steps: "register_actor_in E now (ca_did opts) (ca_handle opts) (ca_deactivated opts) db = Inr db1"
    "register_account_in (ca_did opts) email h db1 = Inr db2"
    "record_invite_use_in (ca_did opts) (ca_invite_code opts) (rfc3339 E now) db2 = Inr db3"
    "store_refresh_token_tx E payload None db3 = Inr db4"
    "db' = update_root_in (ca_did opts) (ca_repo_cid opts) (ca_repo_rev opts) (rfc3339 E now) db4"
    unfolding create_account_tx_def assms(2) by (auto elim!: res_bind_Inr_E)
  have "a_account db1 = a_account db" using steps(1) by (auto simp: register_actor_in_def Let_def split: if_splits)
  moreover have "\<forall>r\<in>set (a_account db2). r \<in> set (a_account db1) \<or> an_email r = email"
    using steps(2) by (auto simp: register_account_in_def Let_def split: if_splits)
  moreover have "a_account db3 = a_account db2" using steps(3) by (auto simp: record_invite_use_in_def split: if_splits option.splits)
  moreover have "a_account db4 = a_account db3" using steps(4) by (auto simp: store_refresh_token_tx_def Let_def split: if_splits)
  moreover have "a_account db' = a_account db4" by (simp add: steps(5) update_root_in_def)
  ultimately have "\<forall>r\<in>set (a_account db'). r \<in> set (a_account db) \<or> an_email r = email" by simp
  then have none: "\<forall>r\<in>set (a_account db'). an_email r \<noteq> to_lower E email" using assms(3,4) by auto
  have "map_option an_email (account_of d db') \<noteq> Some (to_lower E email)" for d
  proof (cases "account_of d db'")
    case (Some a)
    then have "a \<in> set (a_account db')" using find_Some_iff2[of "\<lambda>a. an_did a = d" "a_account db'" a] by (simp add: account_of_def)
    then show ?thesis using none Some by simp
  qed simp
  then show ?thesis by (simp add: get_account_by_email_def find_None_iff)
qed

theorem upper_case_email_not_found_witness:
  "\<exists>jwts db'. create_account_with_password_hash demo_account ad_unrestricted 0 ''n''
       \<lparr>ca_did = ''did:a'', ca_handle = ''h'', ca_email = Some ''A'', ca_password = None, ca_repo_cid = ''c'', ca_repo_rev = ''r'', ca_invite_code = None,
        ca_deactivated = None\<rparr> (Some ''x'') empty_account_db = Inr (jwts, db') \<and> get_account_by_email demo_account ''A'' None db' = None"
proof -
  let ?o = "\<lparr>ca_did = ''did:a'', ca_handle = ''h'', ca_email = Some ''A'', ca_password = None, ca_repo_cid = ''c'', ca_repo_rev = ''r'',
    ca_invite_code = None, ca_deactivated = None\<rparr>"
  have dec: "decode_refresh_token demo_jwt 0 (Hmac [1]) (create_refresh_token demo_jwt 0 ''n'' (Hmac [1]) o') =
      Inr \<lparr>rf_scope = ScopeRefresh, rf_sub = ct_did o', rf_exp = 7776000, rf_jti = ''n''\<rparr>"
    if "ct_jti o' = None" "ct_expires_in_secs o' = None" "ct_issued_at o' = None" for o'
    using that by (simp add: decode_issued_refresh[OF demo_jwt_ok] refresh_claims_def expiry_def REFRESH_TOKEN_LIFETIME_SECS_def Let_def)
  have "is_ok (create_account_with_password_hash demo_account ad_unrestricted 0 ''n'' ?o (Some ''x'') empty_account_db)"
    by (simp add: create_account_with_password_hash_def admitted_def admit_def admit_mutation_def ad_unrestricted_def al_unrestricted_def
        al_state_of_def new_tokens_def create_tokens_def demo_account_def now_secs_def secs_def dec create_account_tx_def register_actor_in_def
        register_account_in_def record_invite_use_in_def store_refresh_token_tx_def handle_taken_def email_taken_def empty_account_db_def Let_def)
  then obtain jwts db' where c: "create_account_with_password_hash demo_account ad_unrestricted 0 ''n'' ?o (Some ''x'') empty_account_db = Inr (jwts, db')"
    by (auto simp: is_ok_iff)
  have low: "to_lower demo_account ''A'' \<noteq> ''A''" by (simp add: demo_account_def ascii_defs to_ascii_lowercase_def) code_simp
  have "get_account_by_email demo_account ''A'' None db' = None"
    by (rule upper_case_email_not_found[OF c _ low]) (simp_all add: empty_account_db_def)
  then show ?thesis using c by blast
qed

end
