(* ===== verification/Lifecycle.thy ===== *)
theory Lifecycle
  imports Account_Manager Blob_Index Sequencer
begin

text \<open>
  \<open>rsky-pds/src/lifecycle.rs\<close>: the journal of deletions, purge obligations, pending work and watermarks, and
  the deletion of an account as a sequence of steps that can be resumed. A purge obligation's manifest is
  the list of blob CIDs its JSON holds. \<open>HashSet\<close> is a set. The actor stores are a map from DIDs to stores,
  which stands for the directories on disk; \<open>now\<close> is the text of the time of a call.
\<close>

section \<open>Tables\<close>

record tombstone =
  ts_did :: string
  ts_requested_at :: string
  ts_account_seq :: "int option"
  ts_logically_deleted_at :: "string option"

record frontier_watermark =
  fw_did :: string
  fw_max_rev :: "string option"
  fw_exposed_max_rev :: "string option"
  fw_creation_seq :: "int option"
  fw_pre_deletion_max_rev :: "string option"

record purge_obligation =
  po_did :: string
  po_requested_at :: string
  po_namespace_prefixes :: "string list"
  po_manifest :: "string list"

record purge_progress =
  pp_observed_empty_at :: "string option"
  pp_physically_purged_at :: "string option"
  pp_next_relist_at :: "string option"

record lifecycle_db =
  l_tombstone :: "tombstone list"
  l_purge :: "(purge_obligation \<times> purge_progress) list"
  l_pending_work :: "(string \<times> string) list"
  l_watermark :: "frontier_watermark list"
  l_restore_event :: "(string \<times> string \<times> string) list"
  l_revision_floor :: "(string \<times> string) list"

record lifecycle_store =
  lc_db :: lifecycle_db
  lc_tombstoned :: "string set"

section \<open>The journal\<close>

definition open_tombstones :: "lifecycle_db \<Rightarrow> tombstone list" where
  "open_tombstones db = sort_key ts_requested_at (filter (\<lambda>t. ts_logically_deleted_at t = None) (l_tombstone db))"

text \<open>Opening the store: the set is what the table says.\<close>

definition lifecycle_open :: "lifecycle_db \<Rightarrow> lifecycle_store" where
  "lifecycle_open db = \<lparr>lc_db = db, lc_tombstoned = set (map ts_did (open_tombstones db))\<rparr>"

definition mark_pending_work :: "string \<Rightarrow> string \<Rightarrow> lifecycle_db \<Rightarrow> lifecycle_db" where
  "mark_pending_work now did db =
     (if did \<in> fst ` set (l_pending_work db) then db else db\<lparr>l_pending_work := l_pending_work db @ [(did, now)]\<rparr>)"

definition clear_pending_work :: "string \<Rightarrow> lifecycle_db \<Rightarrow> lifecycle_db" where
  "clear_pending_work did db = db\<lparr>l_pending_work := filter (\<lambda>(d, _). d \<noteq> did) (l_pending_work db)\<rparr>"

definition pending_work :: "lifecycle_db \<Rightarrow> string list" where
  "pending_work db = map fst (sort_key snd (sort_key fst (l_pending_work db)))"

definition get_watermark :: "string \<Rightarrow> lifecycle_db \<Rightarrow> frontier_watermark option" where
  "get_watermark did db = List.find (\<lambda>w. fw_did w = did) (l_watermark db)"

definition max_rev :: "string option \<Rightarrow> string \<Rightarrow> string" where
  "max_rev current candidate = (case current of Some c \<Rightarrow> if c \<ge> candidate then c else candidate | None \<Rightarrow> candidate)"

definition update_watermark :: "string \<Rightarrow> (frontier_watermark \<Rightarrow> frontier_watermark) \<Rightarrow> lifecycle_db \<Rightarrow> lifecycle_db" where
  "update_watermark did update db =
     (case get_watermark did db of
        Some w \<Rightarrow> db\<lparr>l_watermark := map (\<lambda>x. if fw_did x = did then (update w)\<lparr>fw_did := did\<rparr> else x) (l_watermark db)\<rparr>
      | None \<Rightarrow> db\<lparr>l_watermark := l_watermark db @
          [(update \<lparr>fw_did = did, fw_max_rev = None, fw_exposed_max_rev = None, fw_creation_seq = None, fw_pre_deletion_max_rev = None\<rparr>)\<lparr>fw_did := did\<rparr>]\<rparr>)"

definition record_publication :: "string \<Rightarrow> string \<Rightarrow> int \<Rightarrow> bool \<Rightarrow> lifecycle_db \<Rightarrow> lifecycle_db" where
  "record_publication did rv s creation = update_watermark did (\<lambda>mark.
     mark\<lparr>fw_max_rev := Some (max_rev (fw_max_rev mark) rv),
          fw_creation_seq := (if creation \<and> fw_creation_seq mark = None then Some s else fw_creation_seq mark)\<rparr>)"

definition record_exposure :: "string \<Rightarrow> string \<Rightarrow> lifecycle_db \<Rightarrow> lifecycle_db" where
  "record_exposure did rv = update_watermark did (\<lambda>mark. mark\<lparr>fw_exposed_max_rev := Some (max_rev (fw_exposed_max_rev mark) rv)\<rparr>)"

text \<open>\<open>Iterator::max\<close> of the revisions there are.\<close>

definition max_of :: "string list \<Rightarrow> string option" where
  "max_of xs = (case xs of [] \<Rightarrow> None | x # xs \<Rightarrow> Some (fold max xs x))"

definition record_pre_deletion_max :: "string \<Rightarrow> string option \<Rightarrow> lifecycle_db \<Rightarrow> lifecycle_db" where
  "record_pre_deletion_max did rv = update_watermark did (\<lambda>mark.
     let candidate = max_of (List.map_filter id [fw_max_rev mark, rv])
     in mark\<lparr>fw_pre_deletion_max_rev :=
          (case (fw_pre_deletion_max_rev mark, candidate) of
             (Some current, Some c) \<Rightarrow> Some (max_rev (Some current) c)
           | (Some current, None) \<Rightarrow> Some current
           | (None, c) \<Rightarrow> c)\<rparr>)"

definition record_restore_event :: "string \<Rightarrow> string \<Rightarrow> string \<Rightarrow> lifecycle_db \<Rightarrow> lifecycle_db" where
  "record_restore_event now did rv db = db\<lparr>l_restore_event := l_restore_event db @ [(did, now, rv)]\<rparr>"

definition restore_event_count :: "string \<Rightarrow> lifecycle_db \<Rightarrow> nat" where
  "restore_event_count did db = length (filter (\<lambda>(d, _). d = did) (l_restore_event db))"

definition revision_floor :: "string \<Rightarrow> lifecycle_db \<Rightarrow> string option" where
  "revision_floor did db = map_of (l_revision_floor db) did"

definition raise_revision_floor :: "string \<Rightarrow> string \<Rightarrow> lifecycle_db \<Rightarrow> lifecycle_db" where
  "raise_revision_floor did rv db =
     db\<lparr>l_revision_floor :=
       (if did \<in> fst ` set (l_revision_floor db)
        then map (\<lambda>(d, r). (d, if d = did then max r rv else r)) (l_revision_floor db)
        else l_revision_floor db @ [(did, rv)])\<rparr>"

definition blocks_writes :: "lifecycle_store \<Rightarrow> string \<Rightarrow> bool" where
  "blocks_writes lc did \<longleftrightarrow> did \<in> lc_tombstoned lc"

definition assert_not_deleting :: "string set \<Rightarrow> string \<Rightarrow> string + unit" where
  "assert_not_deleting tombstoned did = (if did \<in> tombstoned then Inl did else Inr ())"

definition tombstone_of :: "string \<Rightarrow> lifecycle_db \<Rightarrow> tombstone option" where
  "tombstone_of did db = List.find (\<lambda>t. ts_did t = did) (l_tombstone db)"

definition set_tombstone :: "string \<Rightarrow> string \<Rightarrow> lifecycle_store \<Rightarrow> lifecycle_store" where
  "set_tombstone now did lc =
     (let db = lc_db lc
      in \<lparr>lc_db = (if tombstone_of did db \<noteq> None then db
                  else db\<lparr>l_tombstone := l_tombstone db @
                    [\<lparr>ts_did = did, ts_requested_at = now, ts_account_seq = None, ts_logically_deleted_at = None\<rparr>]\<rparr>),
          lc_tombstoned = insert did (lc_tombstoned lc)\<rparr>)"

definition update_tombstone :: "string \<Rightarrow> (tombstone \<Rightarrow> tombstone) \<Rightarrow> lifecycle_db \<Rightarrow> lifecycle_db" where
  "update_tombstone did f db = db\<lparr>l_tombstone := map (\<lambda>t. if ts_did t = did then f t else t) (l_tombstone db)\<rparr>"

definition record_deletion_seq :: "string \<Rightarrow> int \<Rightarrow> lifecycle_db \<Rightarrow> lifecycle_db" where
  "record_deletion_seq did s = update_tombstone did (ts_account_seq_update (\<lambda>_. Some s))"

definition record_purge_obligation :: "purge_obligation \<Rightarrow> lifecycle_db \<Rightarrow> lifecycle_db" where
  "record_purge_obligation po db =
     (if list_ex (\<lambda>(p, _). po_did p = po_did po) (l_purge db) then db
      else db\<lparr>l_purge := l_purge db @ [(po, \<lparr>pp_observed_empty_at = None, pp_physically_purged_at = None, pp_next_relist_at = None\<rparr>)]\<rparr>)"

definition mark_logically_deleted :: "string \<Rightarrow> string \<Rightarrow> lifecycle_store \<Rightarrow> lifecycle_store" where
  "mark_logically_deleted now did lc =
     \<lparr>lc_db = update_tombstone did (ts_logically_deleted_at_update (\<lambda>_. Some now)) (lc_db lc),
      lc_tombstoned = lc_tombstoned lc - {did}\<rparr>"

definition clear_tombstone :: "string \<Rightarrow> lifecycle_db \<Rightarrow> lifecycle_db" where
  "clear_tombstone did db = db\<lparr>l_tombstone := filter (\<lambda>t. \<not> (ts_did t = did \<and> ts_logically_deleted_at t \<noteq> None)) (l_tombstone db)\<rparr>"

definition open_purge_obligations :: "lifecycle_db \<Rightarrow> purge_obligation list" where
  "open_purge_obligations db =
     sort_key po_requested_at (map fst (filter (\<lambda>(_, p). pp_physically_purged_at p = None) (l_purge db)))"

definition purge_progress_of :: "string \<Rightarrow> lifecycle_db \<Rightarrow> purge_progress option" where
  "purge_progress_of did db = map_option snd (List.find (\<lambda>(p, _). po_did p = did) (l_purge db))"

definition purge_obligation_of :: "string \<Rightarrow> lifecycle_db \<Rightarrow> purge_obligation option" where
  "purge_obligation_of did db = map_option fst (List.find (\<lambda>(p, _). po_did p = did) (l_purge db))"

definition update_progress :: "string \<Rightarrow> (purge_progress \<Rightarrow> purge_progress) \<Rightarrow> lifecycle_db \<Rightarrow> lifecycle_db" where
  "update_progress did f db = db\<lparr>l_purge := map (\<lambda>(p, g). (p, if po_did p = did then f g else g)) (l_purge db)\<rparr>"

definition mark_observed_empty :: "string \<Rightarrow> string \<Rightarrow> string \<Rightarrow> lifecycle_db \<Rightarrow> lifecycle_db" where
  "mark_observed_empty now did next_relist_at = update_progress did (\<lambda>g.
     g\<lparr>pp_observed_empty_at := (case pp_observed_empty_at g of Some t \<Rightarrow> Some t | None \<Rightarrow> Some now), pp_next_relist_at := Some next_relist_at\<rparr>)"

definition mark_physically_purged :: "string \<Rightarrow> string \<Rightarrow> lifecycle_db \<Rightarrow> lifecycle_db" where
  "mark_physically_purged now did = update_progress did (pp_physically_purged_at_update (\<lambda>_. Some now))"

section \<open>Actor stores on disk\<close>

datatype pds_error =
    AccountErr account_error
  | RepoErr repo_error
  | WorkerErr not_admitted
  | UnsafePathPart string
  | RepoNotFound string
  | AccountDeleting string
  | ReadOnlyMode
  | KeypairNotFound string

definition contains :: "string \<Rightarrow> string \<Rightarrow> bool" where
  "contains s p \<longleftrightarrow> list_ex (\<lambda>i. take (length p) (drop i s) = p) [0..<Suc (length s)]"

definition assert_safe_path_part :: "string \<Rightarrow> pds_error + unit" where
  "assert_safe_path_part part =
     (if part = [] \<or> starts_with part ''.'' \<or> CHR ''/'' \<in> set part \<or> CHR 0x5C \<in> set part \<or> contains part ''..''
      then Inl (UnsafePathPart part) else Inr ())"

type_synonym actor_stores = "string \<rightharpoonup> actor_db"

definition store_exists :: "string \<Rightarrow> actor_stores \<Rightarrow> pds_error + bool" where
  "store_exists did stores = res_bind (assert_safe_path_part did) (\<lambda>_. Inr (stores did \<noteq> None))"

definition open_store :: "string \<Rightarrow> actor_stores \<Rightarrow> pds_error + actor_db" where
  "open_store did stores = res_bind (assert_safe_path_part did) (\<lambda>_. of_option (RepoNotFound did) (stores did))"

definition blob_cids :: "string \<Rightarrow> actor_stores \<Rightarrow> pds_error + string list" where
  "blob_cids did stores = res_bind (open_store did stores) (\<lambda>db. Inr (sort (map br_cid (t_blob db))))"

record 'o account_blobs =
  ab_delete_all :: "('o \<Rightarrow> 'o) option"
  ab_delete_many :: "string list \<Rightarrow> 'o \<Rightarrow> 'o"

text \<open>A failure to delete is logged and passed over.\<close>

definition delete_blobs :: "admission \<Rightarrow> string \<Rightarrow> 'o account_blobs \<Rightarrow> actor_stores \<Rightarrow> 'o \<Rightarrow> pds_error + 'o" where
  "delete_blobs ad did bs stores ob =
     (case admit_worker ad did of
        Inl e \<Rightarrow> Inl (WorkerErr e)
      | Inr _ \<Rightarrow>
          (case ab_delete_all bs of
             Some f \<Rightarrow> Inr (f ob)
           | None \<Rightarrow> res_bind (store_exists did stores) (\<lambda>there.
               if there then res_bind (open_store did stores) (\<lambda>db. Inr (fold (ab_delete_many bs) (chunks 499 (map br_cid (t_blob db))) ob))
               else Inr ob)))"

definition unlink :: "admission \<Rightarrow> string \<Rightarrow> actor_stores \<Rightarrow> pds_error + actor_stores" where
  "unlink ad did stores =
     (case admit_worker ad did of
        Inl e \<Rightarrow> Inl (WorkerErr e)
      | Inr _ \<Rightarrow> res_bind (assert_safe_path_part did) (\<lambda>_. Inr (stores(did := None))))"

section \<open>Deleting an account\<close>

datatype deletion_step = DTombstone | DAccountRows | DSequence | DPurgeObligation | DUnlink | DComplete

record 'o pds =
  p_lifecycle :: lifecycle_store
  p_accounts :: account_db
  p_sequencer :: seq_db
  p_stores :: actor_stores
  p_objects :: 'o

record 'o deletion_context =
  dx_ext :: seq_ext
  dx_admission :: admission
  dx_blobs :: "'o account_blobs option"
  dx_now :: string

definition on_journal :: "(lifecycle_db \<Rightarrow> lifecycle_db) \<Rightarrow> 'o pds \<Rightarrow> 'o pds" where
  "on_journal f w = w\<lparr>p_lifecycle := (p_lifecycle w)\<lparr>lc_db := f (lc_db (p_lifecycle w))\<rparr>\<rparr>"

definition published_max :: "seq_ext \<Rightarrow> string \<Rightarrow> seq_db \<Rightarrow> string option" where
  "published_max E did db =
     max_of (map ev_rev (List.map_filter (\<lambda>r. commit_evt_dec E (sq_event r))
       (filter (\<lambda>r. sq_event_type r = ''append'') (rows_for_did_after did 0 db))))"

definition already_sequenced :: "string \<Rightarrow> 'o pds \<Rightarrow> int option" where
  "already_sequenced did w = Option.bind (tombstone_of did (lc_db (p_lifecycle w))) ts_account_seq"

text \<open>The moves of the third step, in order; a crash can come between any two of them.\<close>

definition note_published_max :: "'o deletion_context \<Rightarrow> string \<Rightarrow> 'o pds \<Rightarrow> 'o pds" where
  "note_published_max C did w = on_journal (record_pre_deletion_max did (published_max (dx_ext C) did (p_sequencer w))) w"

definition sequence_deletion_evt :: "'o deletion_context \<Rightarrow> string \<Rightarrow> 'o pds \<Rightarrow> (pds_error + int) \<times> 'o pds" where
  "sequence_deletion_evt C did w =
     (case sequence_account_evt (dx_ext C) (dx_now C) did Deleted (p_sequencer w) of
        (Inl e, q) \<Rightarrow> (Inl (RepoErr e), w\<lparr>p_sequencer := q\<rparr>)
      | (Inr s, q) \<Rightarrow> (Inr s, w\<lparr>p_sequencer := q\<rparr>))"

definition prune_history :: "string \<Rightarrow> int \<Rightarrow> 'o pds \<Rightarrow> 'o pds" where
  "prune_history did s w = w\<lparr>p_sequencer := delete_all_for_user did (Some [s]) (p_sequencer w)\<rparr>"

definition sequence_deletion :: "'o deletion_context \<Rightarrow> string \<Rightarrow> 'o pds \<Rightarrow> (pds_error + unit) \<times> 'o pds" where
  "sequence_deletion C did w =
     (if already_sequenced did w \<noteq> None then (Inr (), w)
      else (case sequence_deletion_evt C did (note_published_max C did w) of
              (Inl e, w') \<Rightarrow> (Inl e, w')
            | (Inr s, w') \<Rightarrow> (Inr (), on_journal (record_deletion_seq did s) (prune_history did s w'))))"

definition purge_obligation_for :: "string \<Rightarrow> string \<Rightarrow> actor_stores \<Rightarrow> pds_error + purge_obligation" where
  "purge_obligation_for now did stores =
     res_bind (store_exists did stores) (\<lambda>there.
     res_bind (if there then blob_cids did stores else Inr []) (\<lambda>blobs.
       Inr \<lparr>po_did = did, po_requested_at = now,
            po_namespace_prefixes = [''blocks/'' @ did @ ''/'', ''tmp/'' @ did @ ''/'', ''quarantine/'' @ did @ ''/''],
            po_manifest = blobs\<rparr>))"

definition purge_step :: "'o deletion_context \<Rightarrow> string \<Rightarrow> 'o pds \<Rightarrow> (pds_error + unit) \<times> 'o pds" where
  "purge_step C did w =
     (case dx_blobs C of
        None \<Rightarrow> (case purge_obligation_for (dx_now C) did (p_stores w) of
                  Inl e \<Rightarrow> (Inl e, w)
                | Inr po \<Rightarrow> (Inr (), on_journal (record_purge_obligation po) w))
      | Some bs \<Rightarrow> (case delete_blobs (dx_admission C) did bs (p_stores w) (p_objects w) of
                  Inl e \<Rightarrow> (Inl e, w)
                | Inr ob \<Rightarrow> (Inr (), w\<lparr>p_objects := ob\<rparr>)))"

definition delete_account ::
    "'o deletion_context \<Rightarrow> string \<Rightarrow> deletion_step option \<Rightarrow> 'o pds \<Rightarrow> (pds_error + deletion_step) \<times> 'o pds" where
  "delete_account C did stop_after w =
     (let w1 = w\<lparr>p_lifecycle := set_tombstone (dx_now C) did (p_lifecycle w)\<rparr> in
      if stop_after = Some DTombstone then (Inr DTombstone, w1)
      else (case delete_account_rows (dx_admission C) did (p_accounts w1) of
        Inl e \<Rightarrow> (Inl (AccountErr e), w1)
      | Inr (_, acc) \<Rightarrow>
        let w2 = w1\<lparr>p_accounts := acc\<rparr> in
        if stop_after = Some DAccountRows then (Inr DAccountRows, w2)
        else (case sequence_deletion C did w2 of
          (Inl e, w3) \<Rightarrow> (Inl e, w3)
        | (Inr _, w3) \<Rightarrow>
          if stop_after = Some DSequence then (Inr DSequence, w3)
          else (case purge_step C did w3 of
            (Inl e, w4) \<Rightarrow> (Inl e, w4)
          | (Inr _, w4) \<Rightarrow>
            if stop_after = Some DPurgeObligation then (Inr DPurgeObligation, w4)
            else (case unlink (dx_admission C) did (p_stores w4) of
              Inl e \<Rightarrow> (Inl e, w4)
            | Inr stores \<Rightarrow>
              let w5 = w4\<lparr>p_stores := stores\<rparr> in
              if stop_after = Some DUnlink then (Inr DUnlink, w5)
              else (Inr DComplete, w5\<lparr>p_lifecycle := mark_logically_deleted (dx_now C) did (p_lifecycle w5)\<rparr>))))))"

fun resume_loop :: "'o deletion_context \<Rightarrow> string list \<Rightarrow> 'o pds \<Rightarrow> (pds_error + string list) \<times> 'o pds" where
  "resume_loop C [] w = (Inr [], w)"
| "resume_loop C (did # dids) w =
     (case delete_account C did None w of
        (Inl e, w') \<Rightarrow> (Inl e, w')
      | (Inr _, w') \<Rightarrow> (case resume_loop C dids w' of
                          (Inl e, w'') \<Rightarrow> (Inl e, w'')
                        | (Inr resumed, w'') \<Rightarrow> (Inr (did # resumed), w'')))"

definition resume_deletions :: "'o deletion_context \<Rightarrow> 'o pds \<Rightarrow> (pds_error + string list) \<times> 'o pds" where
  "resume_deletions C w = resume_loop C (map ts_did (open_tombstones (lc_db (p_lifecycle w)))) w"

end
