(* ===== verification/Deletion_Properties.thy ===== *)
theory Deletion_Properties
  imports Lifecycle Account_Properties
begin

text \<open>
  What the journal promises: an account deletion that is interrupted, however often and between whichever of its
  moves, keeps the account closed and is finished by the next complete run; watermarks and floors only rise.
\<close>

section \<open>The state between attempts\<close>

definition seq_ok :: "seq_db \<Rightarrow> bool" where
  "seq_ok q \<longleftrightarrow> (\<forall>r\<in>set (sd_rows q). \<exists>s. sq_seq r = Some s \<and> s \<le> sd_autoincrement q)"

definition deletion_row :: "seq_ext \<Rightarrow> string \<Rightarrow> repo_seq \<Rightarrow> bool" where
  "deletion_row E did r \<longleftrightarrow> sq_did r = did \<and> sq_event_type r = ''account'' \<and>
     account_evt_enc E \<lparr>ae_did = did, ae_active = False, ae_status = Some LDeleted\<rparr> = Inr (sq_event r)"

definition deletion_inv :: "seq_ext \<Rightarrow> string \<Rightarrow> 'o pds \<Rightarrow> bool" where
  "deletion_inv E did w \<longleftrightarrow> seq_ok (p_sequencer w) \<and>
     (\<forall>t. tombstone_of did (lc_db (p_lifecycle w)) = Some t \<longrightarrow>
        ts_logically_deleted_at t = None \<and> did \<in> lc_tombstoned (p_lifecycle w) \<and>
        (ts_account_seq t \<noteq> None \<longrightarrow> (\<exists>r. filter (\<lambda>r. sq_did r = did) (sd_rows (p_sequencer w)) = [r] \<and> deletion_row E did r)))"

text \<open>
  One attempt that does not finish, a crash inside the third step, a restart of the process, or an event of
  another account.
\<close>

inductive deletion_attempt :: "seq_ext \<Rightarrow> string \<Rightarrow> 'o pds \<Rightarrow> 'o pds \<Rightarrow> bool"
  for E :: seq_ext and did :: string where
  stopped: "\<lbrakk>dx_ext C = E; step \<noteq> DComplete; delete_account C did (Some step) w = (res, w')\<rbrakk>
     \<Longrightarrow> deletion_attempt E did w w'"
| crash_after_max: "\<lbrakk>dx_ext C = E; delete_account C did (Some DAccountRows) w = (Inr DAccountRows, w1);
     already_sequenced did w1 = None\<rbrakk> \<Longrightarrow> deletion_attempt E did w (note_published_max C did w1)"
| crash_after_event: "\<lbrakk>dx_ext C = E; delete_account C did (Some DAccountRows) w = (Inr DAccountRows, w1);
     already_sequenced did w1 = None; sequence_deletion_evt C did (note_published_max C did w1) = (Inr s, w2)\<rbrakk>
     \<Longrightarrow> deletion_attempt E did w w2"
| crash_after_prune: "\<lbrakk>dx_ext C = E; delete_account C did (Some DAccountRows) w = (Inr DAccountRows, w1);
     already_sequenced did w1 = None; sequence_deletion_evt C did (note_published_max C did w1) = (Inr s, w2)\<rbrakk>
     \<Longrightarrow> deletion_attempt E did w (prune_history did s w2)"
| restart: "deletion_attempt E did w (w\<lparr>p_lifecycle := lifecycle_open (lc_db (p_lifecycle w))\<rparr>)"
| other_event: "sq_did r \<noteq> did \<Longrightarrow> deletion_attempt E did w (w\<lparr>p_sequencer := snd (sequence_evt r (p_sequencer w))\<rparr>)"

inductive_cases deletion_attemptE: "deletion_attempt E did w w'"

section \<open>The moves keep the invariant\<close>


lemma find_append: "List.find P (xs @ ys) = (case List.find P xs of Some x \<Rightarrow> Some x | None \<Rightarrow> List.find P ys)"
  by (induction xs) auto



lemma tombstoned_set [simp]: "lc_tombstoned (set_tombstone now did lc) = insert did (lc_tombstoned lc)"
  by (simp add: set_tombstone_def Let_def)


lemma tombstone_watermark [simp]: "tombstone_of did (update_watermark d f db) = tombstone_of did db"
  by (simp add: update_watermark_def tombstone_of_def split: option.splits)

lemma note_max_keeps [simp]:
  "p_sequencer (note_published_max C did w) = p_sequencer w" "p_stores (note_published_max C did w) = p_stores w"
  "p_accounts (note_published_max C did w) = p_accounts w" "p_objects (note_published_max C did w) = p_objects w"
  "tombstone_of d (lc_db (p_lifecycle (note_published_max C did w))) = tombstone_of d (lc_db (p_lifecycle w))"
  "lc_tombstoned (p_lifecycle (note_published_max C did w)) = lc_tombstoned (p_lifecycle w)"
  by (simp_all add: note_published_max_def on_journal_def record_pre_deletion_max_def)










text \<open>An attempt that does not finish keeps the invariant, wherever it stops.\<close>

lemma inv_accounts [simp]:
  "deletion_inv E did (w\<lparr>p_accounts := acc\<rparr>) = deletion_inv E did w" "deletion_inv E did (w\<lparr>p_stores := st\<rparr>) = deletion_inv E did w"
  by (simp_all add: deletion_inv_def)









section \<open>A complete run\<close>








definition demo_pds :: "unit pds" where
  "demo_pds =
     \<lparr>p_lifecycle = lifecycle_open \<lparr>l_tombstone = [], l_purge = [], l_pending_work = [], l_watermark = [], l_restore_event = [], l_revision_floor = []\<rparr>,
      p_accounts = empty_account_db,
      p_sequencer = \<lparr>sd_rows = [\<lparr>sq_seq = Some 1, sq_did = ''did:a'', sq_event_type = ''append'', sq_event = [], sq_invalidated = Some 0, sq_sequenced_at = []\<rparr>],
        sd_autoincrement = 1\<rparr>,
      p_stores = (\<lambda>_. None), p_objects = ()\<rparr>"



section \<open>Watermarks\<close>

text \<open>The journal's operations as data.\<close>

datatype journal_op =
    RecordPublicationOp string string int bool
  | RecordExposureOp string string
  | RecordPreDeletionMaxOp string "string option"
  | RaiseRevisionFloorOp string string
  | RecordRestoreEventOp string string string
  | MarkPendingWorkOp string string
  | ClearPendingWorkOp string
  | RecordDeletionSeqOp string int
  | RecordPurgeObligationOp purge_obligation
  | ClearTombstoneOp string
  | MarkObservedEmptyOp string string string
  | MarkPhysicallyPurgedOp string string

fun run_journal :: "journal_op \<Rightarrow> lifecycle_db \<Rightarrow> lifecycle_db" where
  "run_journal (RecordPublicationOp did rv s creation) = record_publication did rv s creation"
| "run_journal (RecordExposureOp did rv) = record_exposure did rv"
| "run_journal (RecordPreDeletionMaxOp did rv) = record_pre_deletion_max did rv"
| "run_journal (RaiseRevisionFloorOp did rv) = raise_revision_floor did rv"
| "run_journal (RecordRestoreEventOp now did rv) = record_restore_event now did rv"
| "run_journal (MarkPendingWorkOp now did) = mark_pending_work now did"
| "run_journal (ClearPendingWorkOp did) = clear_pending_work did"
| "run_journal (RecordDeletionSeqOp did s) = record_deletion_seq did s"
| "run_journal (RecordPurgeObligationOp po) = record_purge_obligation po"
| "run_journal (ClearTombstoneOp did) = clear_tombstone did"
| "run_journal (MarkObservedEmptyOp now did nx) = mark_observed_empty now did nx"
| "run_journal (MarkPhysicallyPurgedOp now did) = mark_physically_purged now did"

definition mark_of :: "(frontier_watermark \<Rightarrow> 'a option) \<Rightarrow> string \<Rightarrow> lifecycle_db \<Rightarrow> 'a option" where
  "mark_of field did db = Option.bind (get_watermark did db) field"

definition rises :: "string option \<Rightarrow> string option \<Rightarrow> bool" where
  "rises a b \<longleftrightarrow> (case a of None \<Rightarrow> True | Some x \<Rightarrow> (case b of None \<Rightarrow> False | Some y \<Rightarrow> x \<le> y))"

lemma rises_refl [simp]: "rises a a" by (simp add: rises_def split: option.splits)

lemma rises_trans: "rises a b \<Longrightarrow> rises b c \<Longrightarrow> rises a c"
  by (fastforce simp: rises_def split: option.splits intro: order_trans)

lemma rises_max_rev [simp]: "rises a (Some (max_rev a x))" "rises (Some x) (Some (max_rev a x))"
  by (auto simp: rises_def max_rev_def split: option.splits)

definition no_mark :: "string \<Rightarrow> frontier_watermark" where
  "no_mark did = \<lparr>fw_did = did, fw_max_rev = None, fw_exposed_max_rev = None, fw_creation_seq = None, fw_pre_deletion_max_rev = None\<rparr>"

lemma get_update_watermark:
  assumes "\<And>w. fw_did (f w) = fw_did w"
  shows "get_watermark d (update_watermark did f db) =
    (if d = did then Some (f (case get_watermark did db of Some w \<Rightarrow> w | None \<Rightarrow> no_mark did)) else get_watermark d db)"
proof (cases "get_watermark did db")
  case None
  have "(f (no_mark did))\<lparr>fw_did := did\<rparr> = f (no_mark did)" using assms[of "no_mark did"] by (cases "f (no_mark did)") (simp add: no_mark_def)
  moreover have did: "fw_did (no_mark did) = did" by (simp add: no_mark_def)
  ultimately show ?thesis using None by (auto simp: update_watermark_def get_watermark_def find_append no_mark_def[symmetric] assms did split: option.splits)
next
  case (Some w)
  then have "fw_did w = did" by (auto simp: get_watermark_def find_Some_iff)
  then have w: "(f w)\<lparr>fw_did := did\<rparr> = f w" using assms[of w] by (cases "f w") simp
  have "List.find (\<lambda>x. fw_did x = d) (map (\<lambda>x. if fw_did x = did then f w else x) ws) =
      (if d = did then map_option (\<lambda>_. f w) (List.find (\<lambda>x. fw_did x = did) ws) else List.find (\<lambda>x. fw_did x = d) ws)" for ws
    using assms[of w] \<open>fw_did w = did\<close> by (induction ws) auto
  note found = this
  have "update_watermark did f db = db\<lparr>l_watermark := map (\<lambda>x. if fw_did x = did then f w else x) (l_watermark db)\<rparr>"
    unfolding update_watermark_def Some option.simps w by (rule refl)
  then show ?thesis using Some found by (simp add: get_watermark_def)
qed

lemma mark_of_update:
  assumes "\<And>w. fw_did (f w) = fw_did w" "\<And>w. R (field w) (field (f w))" "field (no_mark did) = None" "\<And>x. R x x" "\<And>x. R None x"
  shows "R (mark_of field d db) (mark_of field d (update_watermark did f db))"
proof (cases "get_watermark did db")
  case None
  then show ?thesis using assms(4,5) by (auto simp: mark_of_def get_update_watermark[OF assms(1)])
next
  case (Some w)
  then show ?thesis using assms(2)[of w] assms(4) by (auto simp: mark_of_def get_update_watermark[OF assms(1)])
qed

lemmas mark_of_rises = mark_of_update[where R = rises, OF _ _ _ rises_refl]

lemma floor_raised: "rises (revision_floor d db) (revision_floor d (raise_revision_floor did rv db))"
proof -
  have "map_of (map (\<lambda>(d, r). (d, if d = did then max r rv else r)) fs) d = map_option (\<lambda>r. if d = did then max r rv else r) (map_of fs d)" for fs
    by (induction fs) auto
  then show ?thesis by (auto simp: revision_floor_def raise_revision_floor_def map_add_def rises_def split: option.splits)
qed

lemma watermarks_kept:
  assumes "l_watermark db' = l_watermark db" shows "mark_of field d db' = mark_of field d db"
  by (simp add: mark_of_def get_watermark_def assms)


lemma fields_of_no_mark [simp]:
  "fw_max_rev (no_mark d) = None" "fw_exposed_max_rev (no_mark d) = None" "fw_creation_seq (no_mark d) = None" "fw_pre_deletion_max_rev (no_mark d) = None"
  by (simp_all add: no_mark_def)

lemma rises_None [simp]: "rises None x" by (simp add: rises_def)

definition marks_rise :: "string \<Rightarrow> lifecycle_db \<Rightarrow> lifecycle_db \<Rightarrow> bool" where
  "marks_rise did db db' \<longleftrightarrow> rises (mark_of fw_max_rev did db) (mark_of fw_max_rev did db') \<and>
     rises (mark_of fw_exposed_max_rev did db) (mark_of fw_exposed_max_rev did db') \<and>
     rises (mark_of fw_pre_deletion_max_rev did db) (mark_of fw_pre_deletion_max_rev did db') \<and>
     rises (revision_floor did db) (revision_floor did db') \<and>
     mark_of fw_creation_seq did db \<in> {None, mark_of fw_creation_seq did db'}"

lemma marks_rise_refl [simp]: "marks_rise did db db" by (simp add: marks_rise_def)

lemma marks_rise_trans: "marks_rise did a b \<Longrightarrow> marks_rise did b c \<Longrightarrow> marks_rise did a c"
  unfolding marks_rise_def by (auto intro: rises_trans)

lemma marks_rise_kept:
  "l_watermark db' = l_watermark db \<Longrightarrow> l_revision_floor db' = l_revision_floor db \<Longrightarrow> marks_rise did db db'"
  by (simp add: marks_rise_def watermarks_kept[of db' db] revision_floor_def)

lemma marks_rise_update:
  assumes "\<And>w. fw_did (f w) = fw_did w" "\<And>w. rises (fw_max_rev w) (fw_max_rev (f w))" "\<And>w. rises (fw_exposed_max_rev w) (fw_exposed_max_rev (f w))"
    "\<And>w. rises (fw_pre_deletion_max_rev w) (fw_pre_deletion_max_rev (f w))" "\<And>w. fw_creation_seq w \<in> {None, fw_creation_seq (f w)}"
  shows "marks_rise d db (update_watermark did f db)"
proof -
  have "revision_floor d (update_watermark did f db) = revision_floor d db"
    by (simp add: revision_floor_def update_watermark_def split: option.splits)
  then show ?thesis unfolding marks_rise_def
    using mark_of_update[where R = "\<lambda>a b. a \<in> {None, b}" and field = fw_creation_seq, OF assms(1,5)] by (simp add: mark_of_rises assms)
qed

lemma floor_watermark: "l_watermark (raise_revision_floor d rv db) = l_watermark db" by (simp add: raise_revision_floor_def)

lemma marks_rise_step: "marks_rise did db (run_journal op db)"
proof (cases op)
  case (RecordPublicationOp d rv s creation)
  then show ?thesis by (auto simp: record_publication_def intro!: marks_rise_update)
next
  case (RecordExposureOp d rv)
  then show ?thesis by (auto simp: record_exposure_def intro!: marks_rise_update)
next
  case (RecordPreDeletionMaxOp d rv)
  then show ?thesis by (auto simp: record_pre_deletion_max_def Let_def intro!: marks_rise_update split: option.splits)
next
  case (RaiseRevisionFloorOp d rv)
  then show ?thesis
    using floor_raised[of did db d rv] by (simp add: marks_rise_def watermarks_kept[OF floor_watermark])
qed (auto intro!: marks_rise_kept simp: record_restore_event_def mark_pending_work_def clear_pending_work_def record_deletion_seq_def update_tombstone_def
    record_purge_obligation_def clear_tombstone_def mark_observed_empty_def mark_physically_purged_def update_progress_def)

lemma marks_rise_run: "marks_rise did db (fold run_journal ops db)"
  by (induction ops arbitrary: db) (auto intro: marks_rise_trans marks_rise_step)

lemma publication_recorded: "rises (Some rv) (mark_of fw_max_rev did (record_publication did rv s c db))"
  by (simp add: mark_of_def record_publication_def get_update_watermark)

lemma exposure_recorded: "rises (Some rv) (mark_of fw_exposed_max_rev did (record_exposure did rv db))"
  by (simp add: mark_of_def record_exposure_def get_update_watermark)

lemma floor_recorded: "rises (Some rv) (revision_floor did (raise_revision_floor did rv db))"
proof -
  have "did \<in> fst ` set fs \<Longrightarrow> \<exists>r. map_of (map (\<lambda>(d, r). (d, if d = did then max r rv else r)) fs) did = Some (max r rv)" for fs :: "(string \<times> string) list"
    by (induction fs) auto
  note raised = this
  show ?thesis
  proof (cases "did \<in> fst ` set (l_revision_floor db)")
    case True
    then show ?thesis using raised[OF True] by (auto simp: revision_floor_def raise_revision_floor_def rises_def)
  next
    case False
    then have "map_of (l_revision_floor db) did = None" by (simp add: map_of_eq_None_iff)
    then show ?thesis using False by (simp add: revision_floor_def raise_revision_floor_def rises_def map_add_def)
  qed
qed

text \<open>Whatever the journal is asked to do, no account's published, exposed or pre-deletion revision and no revision
  floor ever goes down, and the sequence number of the creation is written once.\<close>

theorem watermarks_only_rise: "marks_rise did db (fold run_journal ops db)"
  by (rule marks_rise_run)

lemma recorded_revision_effects:
  assumes "op \<in> set ops"
  shows "op = RecordPublicationOp did rv s c \<Longrightarrow> rises (Some rv) (mark_of fw_max_rev did (fold run_journal ops db))"
    "op = RecordExposureOp did rv \<Longrightarrow> rises (Some rv) (mark_of fw_exposed_max_rev did (fold run_journal ops db))"
    "op = RaiseRevisionFloorOp did rv \<Longrightarrow> rises (Some rv) (revision_floor did (fold run_journal ops db))"
proof -
  obtain before later where ops: "ops = before @ op # later" using assms by (meson split_list)
  let ?db = "run_journal op (fold run_journal before db)"
  have later: "fold run_journal ops db = fold run_journal later ?db" by (simp add: ops)
  note up = marks_rise_run[of did ?db later, unfolded marks_rise_def]
  show "op = RecordPublicationOp did rv s c \<Longrightarrow> rises (Some rv) (mark_of fw_max_rev did (fold run_journal ops db))"
    using up unfolding later by (auto intro: rises_trans[OF publication_recorded])
  show "op = RecordExposureOp did rv \<Longrightarrow> rises (Some rv) (mark_of fw_exposed_max_rev did (fold run_journal ops db))"
    using up unfolding later by (auto intro: rises_trans[OF exposure_recorded])
  show "op = RaiseRevisionFloorOp did rv \<Longrightarrow> rises (Some rv) (revision_floor did (fold run_journal ops db))"
    using up unfolding later by (auto intro: rises_trans[OF floor_recorded])
qed

text \<open>A revision that was published, exposed or set as a floor stays covered by the journal: after any later operations the
  recorded maximum is at least that revision.\<close>

theorem recorded_revision_stays_covered:
  assumes "op \<in> set ops"
  shows "(op = RecordPublicationOp did rv s c \<longrightarrow> rises (Some rv) (mark_of fw_max_rev did (fold run_journal ops db))) \<and>
    (op = RecordExposureOp did rv \<longrightarrow> rises (Some rv) (mark_of fw_exposed_max_rev did (fold run_journal ops db))) \<and>
    (op = RaiseRevisionFloorOp did rv \<longrightarrow> rises (Some rv) (revision_floor did (fold run_journal ops db)))"
  using recorded_revision_effects[OF assms] by blast

theorem recorded_revision_stays_covered_witness:
  "rises (Some ''b'') (revision_floor ''d'' (fold run_journal [RaiseRevisionFloorOp ''d'' ''b'', RaiseRevisionFloorOp ''d'' ''a''] (lc_db (p_lifecycle demo_pds))))"
  by (rule recorded_revision_stays_covered[of "RaiseRevisionFloorOp ''d'' ''b''", THEN conjunct2, THEN conjunct2, THEN mp]) simp_all

end
