(* ===== verification/Actor_Store.thy ===== *)
theory Actor_Store
  imports Lifecycle Record_Index
begin

text \<open>
  The write path of \<open>rsky-pds/src/actor_store/mod.rs\<close>: a transactor forms a commit from prepared writes and
  persists the blocks, the record index, the blob bookkeeping and the events to publish in one transaction. The
  per-actor lock is held for the life of a transactor, so one is used at a time; reads fill the block cache
  only with what the store holds, and the cache a read leaves behind is not returned.
\<close>

section \<open>Access\<close>

definition sql_storage :: "sql_reader storage" where
  "sql_storage =
     \<lparr>st_root = sr_get_root, st_bytes = (\<lambda>s c. fst (sr_get_bytes c s)), st_blocks = (\<lambda>s cs. fst (sr_get_blocks cs s)),
      st_apply = sr_apply_commit\<rparr>"

text \<open>What the operations take from other code.\<close>

record ('c, 'k, 'o) store_env =
  en_repo :: "('c, 'k) repo_env"
  en_uri :: uri_env
  en_car :: car_ext
  en_seq :: seq_ext
  en_blobs :: "'o blob_store"
  en_fuel :: nat
  en_loops :: nat

record 'k transactor =
  tr_did :: string
  tr_reader :: sql_reader
  tr_key :: 'k
  tr_coexistence :: bool

definition transact_admitted ::
    "not_admitted + unit \<Rightarrow> lifecycle_store \<Rightarrow> actor_stores \<Rightarrow> bool \<Rightarrow> (string \<rightharpoonup> 'k) \<Rightarrow> bool \<Rightarrow> string \<Rightarrow> string \<Rightarrow> pds_error + 'k transactor" where
  "transact_admitted may lc stores read_only keys coexistence now did =
     (case may of
        Inl e \<Rightarrow> Inl (WorkerErr e)
      | Inr _ \<Rightarrow>
          (case assert_not_deleting (lc_tombstoned lc) did of
             Inl d \<Rightarrow> Inl (AccountDeleting d)
           | Inr _ \<Rightarrow>
               if read_only then Inl ReadOnlyMode
               else res_bind (open_store did stores) (\<lambda>db.
                 case keys did of
                   None \<Rightarrow> Inl (KeypairNotFound did)
                 | Some key \<Rightarrow> Inr \<lparr>tr_did = did, tr_reader = sr_new did now db, tr_key = key, tr_coexistence = coexistence\<rparr>)))"

definition transact ::
    "admission \<Rightarrow> lifecycle_store \<Rightarrow> actor_stores \<Rightarrow> bool \<Rightarrow> (string \<rightharpoonup> 'k) \<Rightarrow> bool \<Rightarrow> string \<Rightarrow> string \<Rightarrow> pds_error + 'k transactor" where
  "transact ad lc stores ro keys co now did = transact_admitted (admit_mutation ad did) lc stores ro keys co now did"

definition transact_maintenance ::
    "admission \<Rightarrow> string \<Rightarrow> lifecycle_store \<Rightarrow> actor_stores \<Rightarrow> bool \<Rightarrow> (string \<rightharpoonup> 'k) \<Rightarrow> bool \<Rightarrow> string \<Rightarrow> string \<Rightarrow> pds_error + 'k transactor" where
  "transact_maintenance ad workflow lc stores ro keys co now did = transact_admitted (admit_maintenance ad did workflow) lc stores ro keys co now did"

section \<open>Intents\<close>

record publish_intent =
  pi_rev :: string
  pi_cid :: cid
  pi_event_type :: string
  pi_event :: bytes

definition intents_for ::
    "car_ext \<Rightarrow> seq_ext \<Rightarrow> string \<Rightarrow> string \<Rightarrow> commit_data_with_ops \<Rightarrow> bool \<Rightarrow> repo_error + publish_intent list" where
  "intents_for C E now did commit with_sync =
     (let c = cd_cid (cwo_data commit); rv = cd_rev (cwo_data commit);
          intent = (\<lambda>r. \<lparr>pi_rev = rv, pi_cid = c, pi_event_type = sq_event_type r, pi_event = sq_event r\<rparr>)
      in res_bind (format_seq_commit C E now did commit) (\<lambda>append.
           if with_sync
           then res_bind (sync_evt_data_from_commit commit) (\<lambda>data.
                res_bind (format_seq_sync_evt C E now did data) (\<lambda>sync. Inr [intent append, intent sync]))
           else Inr [intent append]))"

definition pending_intents_in :: "actor_db \<Rightarrow> stored_intent list" where
  "pending_intents_in db = sort_key si_id (filter (\<lambda>i. si_state i = ''pending'') (t_publish_intent db))"

definition all_intents_in :: "actor_db \<Rightarrow> stored_intent list" where
  "all_intents_in db = sort_key si_id (t_publish_intent db)"

definition insert_intent_in :: "publish_intent \<Rightarrow> actor_db \<Rightarrow> actor_db" where
  "insert_intent_in p db =
     db\<lparr>t_publish_intent := t_publish_intent db @
       [\<lparr>si_id = next_id (map si_id (t_publish_intent db)), si_rev = pi_rev p, si_cid = pi_cid p, si_event_type = pi_event_type p,
         si_event = pi_event p, si_state = ''pending'', si_seq_floor = None, si_seq = None\<rparr>]\<rparr>"

definition supersede_pending_in :: "actor_db \<Rightarrow> actor_db" where
  "supersede_pending_in db =
     db\<lparr>t_publish_intent := map (\<lambda>i. if si_state i = ''pending'' then i\<lparr>si_state := ''superseded''\<rparr> else i) (t_publish_intent db)\<rparr>"

definition insert_repair_step_in :: "string \<times> int \<Rightarrow> commit_data \<Rightarrow> actor_db \<Rightarrow> repo_error + actor_db" where
  "insert_repair_step_in step cd db =
     (case step of (repair_id, step_no) \<Rightarrow>
        if \<exists>r\<in>set (t_repair_step db). rs_repair_id r = repair_id \<and> rs_step_no r = step_no then Inl UniqueViolation
        else Inr (db\<lparr>t_repair_step := t_repair_step db @ [\<lparr>rs_repair_id = repair_id, rs_step_no = step_no, rs_rev = cd_rev cd, rs_cid = cd_cid cd\<rparr>]\<rparr>))"

definition repair_steps :: "string \<Rightarrow> actor_db \<Rightarrow> repair_step list" where
  "repair_steps repair_id db = sort_key rs_step_no (filter (\<lambda>r. rs_repair_id r = repair_id) (t_repair_step db))"

definition get_sync_event_data :: "sql_reader \<Rightarrow> repo_error + sync_evt_data" where
  "get_sync_event_data rd =
     res_bind (get_root_detailed rd) (\<lambda>(c, rv). Inr \<lparr>sy_cid = c, sy_rev = rv, sy_blocks = bam_blocks (fst (sr_get_blocks [c] rd))\<rparr>)"

section \<open>Forming a commit\<close>

definition check_record_swap :: "write_op_action \<Rightarrow> cid option \<Rightarrow> cid option \<Rightarrow> repo_error + unit" where
  "check_record_swap action current swap_cid =
     (case swap_cid of
        None \<Rightarrow> Inr ()
      | Some c \<Rightarrow>
          if action = ACreate then Inl (BadRecordSwap current)
          else if current = Some c then Inr ()
          else Inl (RecordSwapMismatch current))"

definition get_duplicate_record_cids :: "uri_env \<Rightarrow> cid list \<Rightarrow> at_uri list \<Rightarrow> actor_db \<Rightarrow> cid list" where
  "get_duplicate_record_cids U cids touched db =
     (if touched = [] \<or> cids = [] then []
      else map rr_cid (filter (\<lambda>r. rr_cid r \<in> set cids \<and> rr_uri r \<notin> set (map (uri_text U) touched)) (t_record db)))"

text \<open>One write of the loop: its operation, and the check of the record it expects.\<close>

definition checked_op :: "('c, 'k, 'o) store_env \<Rightarrow> actor_db \<Rightarrow> prepared_write \<Rightarrow> repo_error + commit_op" where
  "checked_op V db write =
     res_bind (uri_of (en_uri V) (pw_uri write)) (\<lambda>uri.
     res_bind (index_get_record (en_repo V) (en_uri V) uri None (Some True) db) (\<lambda>record.
       let current = map_option gr_cid record
       in res_bind (check_record_swap (pw_action write) current (pw_swap_cid write)) (\<lambda>_.
            Inr \<lparr>co_action = commit_action_of (pw_action write), co_path = format_data_key (get_collection uri) (get_rkey uri),
                 co_cid = pw_cid write, co_prev = current\<rparr>)))"

definition is_create :: "prepared_write \<Rightarrow> bool" where
  "is_create w = (case w of PCreate _ \<Rightarrow> True | _ \<Rightarrow> False)"

definition store_format_commit ::
    "('c, 'k, 'o) store_env \<Rightarrow> clock \<Rightarrow> lifecycle_db \<Rightarrow> prepared_write list \<Rightarrow> cid option \<Rightarrow> 'k transactor \<Rightarrow>
     repo_error + (commit_data_with_ops \<times> cid \<times> string) \<times> 'k transactor" where
  "store_format_commit V ck journal writes swap_commit t =
     (case get_root_detailed (tr_reader t) of
        Inl _ \<Rightarrow> Inl (MissingRepoRoot (tr_did t))
      | Inr (root, root_rev) \<Rightarrow>
          if swap_commit \<noteq> None \<and> swap_commit \<noteq> Some root then Inl (BadCommitSwap root)
          else
            let rd = cache_rev root_rev (tr_reader t) in
            res_bind (res_map (checked_op V (sr_db rd)) writes) (\<lambda>commit_ops.
            res_bind (res_map (\<lambda>w. uri_of (en_uri V) (pw_uri w)) (filter (\<lambda>w. \<not> is_create w) writes)) (\<lambda>touched.
            res_bind (repo_load (en_repo V) sql_storage (Some root) rd) (\<lambda>r.
            res_bind (res_map (write_to_op (\<lambda>s. at_uri_new (ue_caps (en_uri V)) (ue_query (en_uri V)) s None)) writes) (\<lambda>write_ops.
            res_bind (format_commit_above (en_repo V) sql_storage (en_fuel V) (en_loops V) ck r (WList write_ops) (tr_key t)
                        (revision_floor (tr_did t) journal) rd) (\<lambda>commit.
              let duplicates = get_duplicate_record_cids (en_uri V) (cs_to_list (cd_removed_cids commit)) touched (sr_db rd);
                  commit1 = commit\<lparr>cd_removed_cids := fold cs_delete duplicates (cd_removed_cids commit)\<rparr>;
                  found = bm_get_many (cd_relevant_blocks commit1) (List.map_filter pw_cid writes);
                  commit2 = (if bam_missing found = [] then commit1
                             else commit1\<lparr>cd_relevant_blocks :=
                               bm_add_map (cd_relevant_blocks commit1) (bam_blocks (fst (sr_get_blocks (bam_missing found) rd)))\<rparr>)
              in Inr ((\<lparr>cwo_data = commit2, cwo_ops = commit_ops, cwo_prev_data = Some (cm_data (r_commit r))\<rparr>, root, root_rev),
                      t\<lparr>tr_reader := rd\<rparr>)))))))"

section \<open>Persisting a commit\<close>

record commit_options =
  opt_supersede_pending :: bool
  opt_repair_step :: "(string \<times> int) option"

definition index_write_in :: "uri_env \<Rightarrow> string \<Rightarrow> string \<Rightarrow> prepared_write \<Rightarrow> actor_db \<Rightarrow> repo_error + actor_db" where
  "index_write_in U rv now write db =
     res_bind (uri_of U (pw_uri write)) (\<lambda>uri.
       case write of
         PCreate w \<Rightarrow> index_record_in U uri (pc_cid w) (Some (pc_record w)) (pc_action w) rv now db
       | PUpdate w \<Rightarrow> index_record_in U uri (pc_cid w) (Some (pc_record w)) (pc_action w) rv now db
       | PDelete _ \<Rightarrow> Inr (delete_record_in U uri db))"

text \<open>The transaction.\<close>

definition commit_write_in ::
    "uri_env \<Rightarrow> string \<Rightarrow> string \<Rightarrow> bool \<Rightarrow> commit_data \<Rightarrow> cid option \<Rightarrow> prepared_write list \<Rightarrow> promoted_blob list \<Rightarrow> publish_intent list \<Rightarrow> commit_options \<Rightarrow>
     actor_db \<Rightarrow> repo_error + actor_db" where
  "commit_write_in U did now coexistence commit expected_root writes promoted intents options db =
     res_bind (apply_commit_in did now commit expected_root db) (\<lambda>db1.
     res_bind (res_fold (index_write_in U (cd_rev commit) now) writes db1) (\<lambda>db2.
       let db3 = apply_write_blobs_in writes promoted coexistence now db2;
           db4 = (if opt_supersede_pending options then supersede_pending_in db3 else db3)
       in res_bind (case opt_repair_step options of None \<Rightarrow> Inr db4 | Some step \<Rightarrow> insert_repair_step_in step commit db4) (\<lambda>db5.
            Inr (fold insert_intent_in intents db5))))"

definition commit_write ::
    "uri_env \<Rightarrow> commit_data \<Rightarrow> cid option \<Rightarrow> prepared_write list \<Rightarrow> promoted_blob list \<Rightarrow> publish_intent list \<Rightarrow> commit_options \<Rightarrow>
     'k transactor \<Rightarrow> lifecycle_db \<Rightarrow> (repo_error + 'k transactor) \<times> lifecycle_db" where
  "commit_write U commit expected_root writes promoted intents options t journal =
     (let rd = tr_reader t; journal1 = mark_pending_work (sr_now rd) (tr_did t) journal
      in (res_bind (commit_write_in U (tr_did t) (sr_now rd) (tr_coexistence t) commit expected_root writes promoted intents options (sr_db rd)) (\<lambda>db.
            Inr (t\<lparr>tr_reader := rd\<lparr>sr_db := db, sr_cache := bm_add_map (sr_cache rd) (cd_new_blocks commit)\<rparr>\<rparr>)),
          journal1))"

definition MAX_WRITES_PER_COMMIT :: nat where
  "MAX_WRITES_PER_COMMIT = 200"

definition MAX_COMMIT_EVENT_BYTES :: nat where
  "MAX_COMMIT_EVENT_BYTES = 2000000"

definition process_writes_for ::
    "('c, 'k, 'o) store_env \<Rightarrow> clock \<Rightarrow> prepared_write list \<Rightarrow> cid option \<Rightarrow> (string \<times> int) option \<Rightarrow> 'k transactor \<Rightarrow> lifecycle_db \<Rightarrow> 'o \<Rightarrow>
     (repo_error + commit_data_with_ops \<times> 'k transactor) \<times> lifecycle_db \<times> 'o" where
  "process_writes_for V ck writes swap_commit step t journal ob =
     (if length writes > MAX_WRITES_PER_COMMIT then (Inl TooManyWrites, journal, ob)
      else (case store_format_commit V ck journal writes swap_commit t of
        Inl e \<Rightarrow> (Inl e, journal, ob)
      | Inr ((commit, root, _), t1) \<Rightarrow>
          if bm_byte_size (cd_relevant_blocks (cwo_data commit)) > MAX_COMMIT_EVENT_BYTES then (Inl EventTooLarge, journal, ob)
          else (case intents_for (en_car V) (en_seq V) (sr_now (tr_reader t1)) (tr_did t1) commit False of
            Inl e \<Rightarrow> (Inl e, journal, ob)
          | Inr intents \<Rightarrow>
              (case promote_write_blobs (en_blobs V) (tr_coexistence t1) writes False (sr_db (tr_reader t1)) ob of
                 (Inl e, ob1) \<Rightarrow> (Inl e, journal, ob1)
               | (Inr promoted, ob1) \<Rightarrow>
                   (case commit_write (en_uri V) (cwo_data commit) (Some root) writes promoted intents
                           \<lparr>opt_supersede_pending = False, opt_repair_step = step\<rparr> t1 journal of
                      (Inl e, journal1) \<Rightarrow> (Inl e, journal1, ob1)
                    | (Inr t2, journal1) \<Rightarrow> (Inr (commit, t2), journal1, ob1))))))"

definition process_writes ::
    "('c, 'k, 'o) store_env \<Rightarrow> clock \<Rightarrow> prepared_write list \<Rightarrow> cid option \<Rightarrow> 'k transactor \<Rightarrow> lifecycle_db \<Rightarrow> 'o \<Rightarrow>
     (repo_error + commit_data_with_ops \<times> 'k transactor) \<times> lifecycle_db \<times> 'o" where
  "process_writes V ck writes swap_commit t journal ob = process_writes_for V ck writes swap_commit None t journal ob"

definition process_repair_step ::
    "('c, 'k, 'o) store_env \<Rightarrow> clock \<Rightarrow> prepared_write list \<Rightarrow> cid option \<Rightarrow> string \<Rightarrow> int \<Rightarrow> 'k transactor \<Rightarrow> lifecycle_db \<Rightarrow> 'o \<Rightarrow>
     (repo_error + commit_data_with_ops \<times> 'k transactor) \<times> lifecycle_db \<times> 'o" where
  "process_repair_step V ck writes swap_commit repair_id step_no t journal ob =
     process_writes_for V ck writes swap_commit (Some (repair_id, step_no)) t journal ob"

definition process_import_repo ::
    "('c, 'k, 'o) store_env \<Rightarrow> commit_data \<Rightarrow> prepared_write list \<Rightarrow> 'k transactor \<Rightarrow> lifecycle_db \<Rightarrow> 'o \<Rightarrow>
     (repo_error + 'k transactor) \<times> lifecycle_db \<times> 'o" where
  "process_import_repo V commit writes t journal ob =
     (let current_root = sr_get_root (tr_reader t)
      in case promote_write_blobs (en_blobs V) (tr_coexistence t) writes True (sr_db (tr_reader t)) ob of
           (Inl e, ob1) \<Rightarrow> (Inl e, journal, ob1)
         | (Inr promoted, ob1) \<Rightarrow>
             (case commit_write (en_uri V) commit current_root writes promoted [] \<lparr>opt_supersede_pending = True, opt_repair_step = None\<rparr> t journal of
                (res, journal1) \<Rightarrow> (res, journal1, ob1)))"

definition init_op :: "uri_env \<Rightarrow> prepared_create_or_update \<Rightarrow> repo_error + create_or_update_op" where
  "init_op U w =
     res_bind (uri_of U (pc_uri w)) (\<lambda>uri.
       Inr \<lparr>cu_action = ACreate, cu_collection = get_collection uri, cu_rkey = get_rkey uri, cu_record = pc_record w\<rparr>)"

definition init_commit_op :: "uri_env \<Rightarrow> prepared_create_or_update \<Rightarrow> repo_error + commit_op" where
  "init_commit_op U w =
     res_bind (uri_of U (pc_uri w)) (\<lambda>uri.
       Inr \<lparr>co_action = CCreate, co_path = format_data_key (get_collection uri) (get_rkey uri), co_cid = Some (pc_cid w), co_prev = None\<rparr>)"

definition create_repo ::
    "('c, 'k, 'o) store_env \<Rightarrow> clock \<Rightarrow> prepared_create_or_update list \<Rightarrow> bool \<Rightarrow> 'k transactor \<Rightarrow> lifecycle_db \<Rightarrow> 'o \<Rightarrow>
     (repo_error + commit_data_with_ops \<times> 'k transactor) \<times> lifecycle_db \<times> 'o" where
  "create_repo V ck writes publish t journal ob =
     (case res_bind (res_map (init_op (en_uri V)) writes) (\<lambda>write_ops.
           res_bind (format_init_commit (en_repo V) sql_storage (en_fuel V) (en_loops V) ck (tr_did t) (tr_key t) (Some write_ops) (tr_reader t)) (\<lambda>cd.
           res_bind (res_map (init_commit_op (en_uri V)) writes) (\<lambda>ops.
           let commit = \<lparr>cwo_data = cd, cwo_ops = ops, cwo_prev_data = None\<rparr>
           in res_bind (if publish then intents_for (en_car V) (en_seq V) (sr_now (tr_reader t)) (tr_did t) commit True else Inr []) (\<lambda>intents.
                Inr (commit, intents))))) of
        Inl e \<Rightarrow> (Inl e, journal, ob)
      | Inr (commit, intents) \<Rightarrow>
          (case promote_write_blobs (en_blobs V) (tr_coexistence t) (map PCreate writes) False (sr_db (tr_reader t)) ob of
             (Inl e, ob1) \<Rightarrow> (Inl e, journal, ob1)
           | (Inr promoted, ob1) \<Rightarrow>
               (case commit_write (en_uri V) (cwo_data commit) None (map PCreate writes) promoted intents
                       \<lparr>opt_supersede_pending = False, opt_repair_step = None\<rparr> t journal of
                  (Inl e, journal1) \<Rightarrow> (Inl e, journal1, ob1)
                | (Inr t1, journal1) \<Rightarrow> (Inr (commit, t1), journal1, ob1))))"


section \<open>What a committed write leaves\<close>

lemma blob_work_keeps [simp]:
  "t_publish_intent (insert_blob_work_in k key c st v now d) = t_publish_intent d" "t_record (insert_blob_work_in k key c st v now d) = t_record d"
  "t_repo_root (insert_blob_work_in k key c st v now d) = t_repo_root d"
  by (simp_all add: insert_blob_work_in_def)

lemma fold_keeps: "(\<And>x d. x \<in> set xs \<Longrightarrow> f (g x d) = f d) \<Longrightarrow> f (fold g xs d) = f d"
  by (induction xs arbitrary: d) auto

lemma blob_writes_frame:
  assumes f: "\<And>k key c st v d. f (insert_blob_work_in k key c st v now d) = f d" "\<And>x d. f (d\<lparr>t_record_blob := x\<rparr>) = f d" "\<And>x d. f (d\<lparr>t_blob := x\<rparr>) = f d"
  shows "f (apply_write_blobs_in ws pr co now db) = f db"
proof -
  have "f (snd (dereference_blobs_in ws co now d)) = f d" for d
    by (simp add: dereference_blobs_in_def Let_def f fold_keeps[where f = f])
  moreover have "f (fold (\<lambda>b. record_promotion_in b co now) pr d) = f d" for d
    by (rule fold_keeps) (simp add: record_promotion_in_def Let_def f)
  moreover have "f (fold (\<lambda>(b, u). associate_blob_in (pb_cid b) u) (written_blobs ws) d) = f d" for d
    by (rule fold_keeps) (auto simp: associate_blob_in_def f)
  ultimately show ?thesis by (simp add: apply_write_blobs_in_def Let_def)
qed

lemma blob_writes_keep [simp]:
  "t_publish_intent (apply_write_blobs_in ws pr co now db) = t_publish_intent db" "t_record (apply_write_blobs_in ws pr co now db) = t_record db"
  "t_repo_root (apply_write_blobs_in ws pr co now db) = t_repo_root db"
  by (rule blob_writes_frame; simp)+

lemma backlinks_keep [simp]:
  "t_publish_intent (add_backlinks_in bs d) = t_publish_intent d" "t_record (add_backlinks_in bs d) = t_record d" "t_repo_root (add_backlinks_in bs d) = t_repo_root d"
  unfolding add_backlinks_in_def by (rule fold_keeps, simp add: add_backlink_in_def)+

lemma index_write_keeps:
  assumes "index_write_in U rv now wr db = Inr db'"
  shows "t_publish_intent db' = t_publish_intent db" "t_repo_root db' = t_repo_root db"
  using assms
  by (auto simp: index_write_in_def index_record_in_def delete_record_in_def upsert_record_def delete_backlinks_of_def Let_def
      elim!: res_bind_Inr_E split: prepared_write.splits if_splits option.splits)

lemma index_writes_keep:
  assumes "res_fold (index_write_in U rv now) ws db = Inr db'"
  shows "t_publish_intent db' = t_publish_intent db" "t_repo_root db' = t_repo_root db"
proof -
  have "t_publish_intent db' = t_publish_intent db \<and> t_repo_root db' = t_repo_root db"
    using assms
  proof (induction ws arbitrary: db)
    case (Cons x ws)
    then obtain d where d: "index_write_in U rv now x db = Inr d" "res_fold (index_write_in U rv now) ws d = Inr db'" by (auto elim!: res_bind_Inr_E)
    then show ?case using Cons.IH index_write_keeps[OF d(1)] by simp
  qed simp
  then show "t_publish_intent db' = t_publish_intent db" "t_repo_root db' = t_repo_root db" by blast+
qed

definition indexed :: "string \<Rightarrow> actor_db \<Rightarrow> cid set" where
  "indexed uri db = rr_cid ` {r \<in> set (t_record db). rr_uri r = uri}"

lemma indexed_upsert: "indexed s (upsert_record row db) = (if s = rr_uri row then {rr_cid row} else indexed s db)"
proof (cases "rr_uri row \<in> rr_uri ` set (t_record db)")
  case False
  then show ?thesis by (auto simp: indexed_def upsert_record_def image_iff)
next
  case True
  let ?f = "\<lambda>r. if rr_uri r = rr_uri row then r\<lparr>rr_cid := rr_cid row, rr_repo_rev := rr_repo_rev row, rr_indexed_at := rr_indexed_at row\<rparr> else r"
  have "{r \<in> set (t_record (upsert_record row db)). rr_uri r = s} = ?f ` {r \<in> set (t_record db). rr_uri r = s}"
    using True by (auto simp: upsert_record_def split: if_splits)
  then show ?thesis using True by (auto simp: indexed_def image_image split: if_splits)
qed

lemma index_write_indexed:
  assumes "index_write_in U rv now wr db = Inr db'" "uri_of U (pw_uri wr) = Inr u"
  shows "indexed s db' = (if s = uri_text U u then set_option (pw_cid wr) else indexed s db)"
proof -
  have links: "indexed s (delete_backlinks_of x d) = indexed s d" "indexed s (add_backlinks_in bs d) = indexed s d" for s x bs d
    by (simp_all add: indexed_def delete_backlinks_of_def)
  have del: "indexed s (delete_record_in U u db) = (if s = uri_text U u then {} else indexed s db)" for s
    by (auto simp: delete_record_in_def Let_def links) (auto simp: indexed_def)
  show ?thesis using assms
    by (auto simp: index_write_in_def index_record_in_def Let_def links indexed_upsert pw_cid_def del
        elim!: res_bind_Inr_E split: prepared_write.splits if_splits option.splits)
qed

lemma index_writes_indexed:
  assumes "res_fold (index_write_in U rv now) bs db = Inr db'" "\<forall>b\<in>set bs. \<forall>v. uri_of U (pw_uri b) = Inr v \<longrightarrow> uri_text U v \<noteq> s"
  shows "indexed s db' = indexed s db"
  using assms
proof (induction bs arbitrary: db)
  case (Cons b bs)
  then obtain db1 where db1: "index_write_in U rv now b db = Inr db1" "res_fold (index_write_in U rv now) bs db1 = Inr db'" by (auto elim!: res_bind_Inr_E)
  obtain v where v: "uri_of U (pw_uri b) = Inr v" using db1(1) by (auto simp: index_write_in_def elim!: res_bind_Inr_E)
  show ?case using Cons.IH[OF db1(2)] Cons.prems(2) index_write_indexed[OF db1(1) v] v by auto
qed simp

lemma insert_intents_keep [simp]:
  "t_record (fold insert_intent_in ps d) = t_record d" "t_repo_root (fold insert_intent_in ps d) = t_repo_root d"
  by (rule fold_keeps, simp add: insert_intent_in_def)+

lemma commit_write_in_effects:
  assumes "commit_write_in U did now co cd root ws pr ps opts db = Inr db'"
  shows "\<exists>db1. apply_commit_in did now cd root db = Inr db1 \<and> t_repo_root db' = t_repo_root db1"
    "ws = as @ wr # bs \<Longrightarrow> uri_of U (pw_uri wr) = Inr u \<Longrightarrow> \<forall>b\<in>set bs. \<forall>v. uri_of U (pw_uri b) = Inr v \<longrightarrow> uri_text U v \<noteq> uri_text U u
      \<Longrightarrow> indexed (uri_text U u) db' = set_option (pw_cid wr)"
proof -
  obtain db1 db2 db5 where steps: "apply_commit_in did now cd root db = Inr db1" "res_fold (index_write_in U (cd_rev cd) now) ws db1 = Inr db2"
    "(case opt_repair_step opts of None \<Rightarrow> Inr (if opt_supersede_pending opts then supersede_pending_in (apply_write_blobs_in ws pr co now db2)
        else apply_write_blobs_in ws pr co now db2)
      | Some step \<Rightarrow> insert_repair_step_in step cd (if opt_supersede_pending opts then supersede_pending_in (apply_write_blobs_in ws pr co now db2)
        else apply_write_blobs_in ws pr co now db2)) = Inr db5" "db' = fold insert_intent_in ps db5"
    using assms unfolding commit_write_in_def Let_def by (auto elim!: res_bind_Inr_E)
  have tail: "t_record db' = t_record db2" "t_repo_root db' = t_repo_root db2"
    using steps(3) by (auto simp: steps(4) insert_repair_step_in_def supersede_pending_in_def split: option.splits if_splits prod.splits)
  show "\<exists>db1. apply_commit_in did now cd root db = Inr db1 \<and> t_repo_root db' = t_repo_root db1"
    using steps(1) tail(2) index_writes_keep(2)[OF steps(2)] by auto
  show "indexed (uri_text U u) db' = set_option (pw_cid wr)"
    if h: "ws = as @ wr # bs" "uri_of U (pw_uri wr) = Inr u" "\<forall>b\<in>set bs. \<forall>v. uri_of U (pw_uri b) = Inr v \<longrightarrow> uri_text U v \<noteq> uri_text U u"
  proof -
    obtain x y where xy: "index_write_in U (cd_rev cd) now wr x = Inr y" "res_fold (index_write_in U (cd_rev cd) now) bs y = Inr db2"
      using steps(2) h(1) by (auto simp: res_fold_append elim!: res_bind_Inr_E)
    have "indexed (uri_text U u) db2 = set_option (pw_cid wr)"
      using index_writes_indexed[OF xy(2) h(3)] index_write_indexed[OF xy(1) h(2)] by simp
    then show ?thesis using tail(1) by (simp add: indexed_def)
  qed
qed

end
