(* ===== verification/Publication.thy ===== *)
theory Publication
  imports Actor_Store
begin

text \<open>
  \<open>rsky-pds/src/publication.rs\<close>: the events a write committed with its blocks are delivered to the sequencer, and
  work a crash left behind is taken up again. The publication lock of an actor is held for a whole delivery.
  The queued blob work of \<open>resume_pending_work\<close> runs in the background and is \<open>run_blob_work\<close> of
  \<open>Blob_Index\<close>.
\<close>

datatype publish_step = Floored | Sequenced | Acked

definition row_matches :: "seq_ext \<Rightarrow> repo_seq \<Rightarrow> stored_intent \<Rightarrow> bool" where
  "row_matches E row intent \<longleftrightarrow>
     sq_event_type row = si_event_type intent \<and>
     (if sq_event_type row = ''append'' then
        (case commit_evt_dec E (sq_event row) of None \<Rightarrow> False | Some evt \<Rightarrow> ev_rev evt = si_rev intent \<and> ev_commit evt = si_cid intent)
      else if sq_event_type row = ''sync'' then
        (case sync_evt_dec E (sq_event row) of None \<Rightarrow> False | Some evt \<Rightarrow> se_rev evt = si_rev intent)
      else sq_event row = si_event intent)"

definition update_intent :: "int \<Rightarrow> (stored_intent \<Rightarrow> stored_intent) \<Rightarrow> actor_db \<Rightarrow> actor_db" where
  "update_intent id' f db = db\<lparr>t_publish_intent := map (\<lambda>i. if si_id i = id' then f i else i) (t_publish_intent db)\<rparr>"

definition record_floor :: "int \<Rightarrow> int \<Rightarrow> actor_db \<Rightarrow> actor_db" where
  "record_floor id' flr = update_intent id' (\<lambda>i. if si_seq_floor i = None then i\<lparr>si_seq_floor := Some flr\<rparr> else i)"

definition acknowledge :: "string \<Rightarrow> int \<Rightarrow> int \<Rightarrow> actor_db \<Rightarrow> actor_db" where
  "acknowledge now id' s db =
     (let db1 = update_intent id' (\<lambda>i. i\<lparr>si_state := ''delivered'', si_seq := Some s\<rparr>) db
      in if id' \<in> fst ` set (t_publish_ack db1) then db1 else db1\<lparr>t_publish_ack := t_publish_ack db1 @ [(id', s, now)]\<rparr>)"

record publication_context =
  px_seq :: seq_ext
  px_accounts :: account_ext
  px_admission :: admission
  px_now :: string
  px_micros :: int

section \<open>Delivering intents\<close>

definition head_seq :: "seq_db \<Rightarrow> int" where
  "head_seq q = (case curr_seq q of Some s \<Rightarrow> s | None \<Rightarrow> 0)"

definition floor_of :: "stored_intent \<Rightarrow> seq_db \<Rightarrow> actor_db \<Rightarrow> int \<times> actor_db" where
  "floor_of intent q db =
     (case si_seq_floor intent of
        Some flr \<Rightarrow> (flr, db)
      | None \<Rightarrow> (let head = head_seq q in (head, record_floor (si_id intent) head db)))"

definition sequence_intent :: "publication_context \<Rightarrow> string \<Rightarrow> stored_intent \<Rightarrow> int \<Rightarrow> seq_db \<Rightarrow> int \<times> seq_db" where
  "sequence_intent P did intent flr q =
     (case Option.bind (List.find (\<lambda>r. row_matches (px_seq P) r intent) (rows_for_did_after did flr q)) sq_seq of
        Some s \<Rightarrow> (s, q)
      | None \<Rightarrow> sequence_evt (repo_seq_new did (si_event_type intent) (si_event intent) (px_now P)) q)"

definition is_creation :: "seq_ext \<Rightarrow> stored_intent \<Rightarrow> bool" where
  "is_creation E intent = (case commit_evt_dec E (si_event intent) of None \<Rightarrow> False | Some evt \<Rightarrow> ev_since evt = None)"

definition note_publication :: "publication_context \<Rightarrow> string \<Rightarrow> stored_intent \<Rightarrow> int \<Rightarrow> lifecycle_db \<Rightarrow> lifecycle_db" where
  "note_publication P did intent s journal =
     (if si_event_type intent = ''append'' then record_publication did (si_rev intent) s (is_creation (px_seq P) intent) journal else journal)"

text \<open>The loop; the flag says whether it came to its end.\<close>

fun publish_loop ::
    "publication_context \<Rightarrow> string \<Rightarrow> publish_step option \<Rightarrow> stored_intent list \<Rightarrow> actor_db \<times> seq_db \<times> lifecycle_db \<Rightarrow>
     int list \<times> bool \<times> actor_db \<times> seq_db \<times> lifecycle_db" where
  "publish_loop P did stop_after [] (db, q, journal) = ([], True, db, q, journal)"
| "publish_loop P did stop_after (intent # intents) (db, q, journal) =
     (let (flr, db1) = floor_of intent q db in
      if stop_after = Some Floored then ([], False, db1, q, journal)
      else
        let (s, q1) = sequence_intent P did intent flr q in
        if stop_after = Some Sequenced then ([], False, db1, q1, journal)
        else
          let db2 = acknowledge (px_now P) (si_id intent) s db1;
              journal1 = note_publication P did intent s journal;
              (seqs, rest) = publish_loop P did stop_after intents (db2, q1, journal1)
          in (s # seqs, rest))"

definition sync_account_root :: "publication_context \<Rightarrow> string \<Rightarrow> actor_db \<Rightarrow> account_db \<Rightarrow> pds_error + bool \<times> account_db" where
  "sync_account_root P did db acc =
     (case get_root_detailed (sr_new did (px_now P) db) of
        Inl _ \<Rightarrow> Inr (False, acc)
      | Inr (c, rv) \<Rightarrow>
          if get_repo_root did acc = Some (c, rv) then Inr (True, acc)
          else (case update_repo_root_as_worker (px_accounts P) (px_admission P) (px_micros P) did c rv acc of
                  Inl e \<Rightarrow> Inl (AccountErr e)
                | Inr (_, acc') \<Rightarrow> Inr (True, acc')))"

definition settle_pending_work :: "string \<Rightarrow> actor_db \<Rightarrow> bool \<Rightarrow> lifecycle_db \<Rightarrow> pds_error + lifecycle_db" where
  "settle_pending_work did db root_current journal =
     (if root_current \<and> pending_intents_in db = [] then
        (case nonterminal_blob_work db of
           Inl e \<Rightarrow> Inl (RepoErr e)
         | Inr n \<Rightarrow> Inr (if n = 0 then clear_pending_work did journal else journal))
      else Inr journal)"

text \<open>After the loop: the account root, then the mark.\<close>

definition finish_publication :: "publication_context \<Rightarrow> string \<Rightarrow> actor_db \<Rightarrow> 'o pds \<Rightarrow> (pds_error + unit) \<times> 'o pds" where
  "finish_publication P did db w =
     (case sync_account_root P did db (p_accounts w) of
        Inl e \<Rightarrow> (Inl e, w)
      | Inr (root_current, acc) \<Rightarrow>
          let w1 = w\<lparr>p_accounts := acc\<rparr> in
          (case settle_pending_work did db root_current (lc_db (p_lifecycle w1)) of
             Inl e \<Rightarrow> (Inl e, w1)
           | Inr journal \<Rightarrow> (Inr (), on_journal (\<lambda>_. journal) w1)))"

definition publish_pending ::
    "publication_context \<Rightarrow> string \<Rightarrow> publish_step option \<Rightarrow> 'o pds \<Rightarrow> (pds_error + int list) \<times> 'o pds" where
  "publish_pending P did stop_after w =
     (case admit_worker (px_admission P) did of
        Inl e \<Rightarrow> (Inl (WorkerErr e), w)
      | Inr _ \<Rightarrow>
          (case store_exists did (p_stores w) of
             Inl e \<Rightarrow> (Inl e, w)
           | Inr False \<Rightarrow> (Inr [], on_journal (clear_pending_work did) w)
           | Inr True \<Rightarrow>
               (case open_store did (p_stores w) of
                  Inl e \<Rightarrow> (Inl e, w)
                | Inr db \<Rightarrow>
                    (case publish_loop P did stop_after (pending_intents_in db) (db, p_sequencer w, lc_db (p_lifecycle w)) of
                       (seqs, ended, db', q', journal') \<Rightarrow>
                         let w' = (on_journal (\<lambda>_. journal') w)\<lparr>p_stores := (p_stores w)(did \<mapsto> db'), p_sequencer := q'\<rparr>
                         in if \<not> ended then (Inr seqs, w')
                            else (case finish_publication P did db' w' of
                                    (Inl e, w'') \<Rightarrow> (Inl e, w'')
                                  | (Inr _, w'') \<Rightarrow> (Inr seqs, w''))))))"

fun resume_work_loop :: "publication_context \<Rightarrow> string list \<Rightarrow> 'o pds \<Rightarrow> (pds_error + string list) \<times> 'o pds" where
  "resume_work_loop P [] w = (Inr [], w)"
| "resume_work_loop P (did # dids) w =
     (if \<not> is_ok (admit_worker (px_admission P) did) then resume_work_loop P dids w
      else (case publish_pending P did None w of
              (Inl e, w') \<Rightarrow> (Inl e, w')
            | (Inr _, w') \<Rightarrow>
                (case store_exists did (p_stores w') of
                   Inl e \<Rightarrow> (Inl e, w')
                 | Inr _ \<Rightarrow> (case resume_work_loop P dids w' of
                                (Inl e, w'') \<Rightarrow> (Inl e, w'')
                              | (Inr resumed, w'') \<Rightarrow> (Inr (did # resumed), w'')))))"

definition resume_pending_work :: "publication_context \<Rightarrow> 'o pds \<Rightarrow> (pds_error + string list) \<times> 'o pds" where
  "resume_pending_work P w = resume_work_loop P (pending_work (lc_db (p_lifecycle w))) w"

end
