(* ===== verification/Publication_Correct.thy ===== *)
theory Publication_Correct
  imports Publication Deletion_Properties
begin

text \<open>
  Every event a write committed reaches the sequencer exactly once and in order, whatever interrupts the
  deliveries.
\<close>

section \<open>The invariant\<close>

definition deliveries :: "seq_ext \<Rightarrow> string \<Rightarrow> seq_db \<Rightarrow> stored_intent \<Rightarrow> repo_seq list" where
  "deliveries E did q i = filter (\<lambda>r. sq_did r = did \<and> row_matches E r i) (sd_rows q)"

text \<open>What \<open>intents_for\<close> makes: an event that is read back with the revision and the CID of its commit.\<close>

definition event_ok :: "seq_ext \<Rightarrow> stored_intent \<Rightarrow> bool" where
  "event_ok E i \<longleftrightarrow> si_event_type i \<in> {''append'', ''sync''} \<and> (\<forall>did now. row_matches E (repo_seq_new did (si_event_type i) (si_event i) now) i)"





abbreviation pending :: "stored_intent list \<Rightarrow> stored_intent list" where
  "pending \<equiv> filter (\<lambda>i. si_state i = ''pending'')"








section \<open>One intent\<close>




lemma row_matches_seq [simp]: "row_matches E (r\<lparr>sq_seq := s, sq_invalidated := v\<rparr>) i = row_matches E r i"
  by (simp add: row_matches_def)











section \<open>The loop\<close>









section \<open>What else happens to the journal\<close>

definition stored_as :: "int \<Rightarrow> publish_intent \<Rightarrow> stored_intent" where
  "stored_as n p = \<lparr>si_id = n, si_rev = pi_rev p, si_cid = pi_cid p, si_event_type = pi_event_type p, si_event = pi_event p,
     si_state = ''pending'', si_seq_floor = None, si_seq = None\<rparr>"

definition superseded :: "stored_intent \<Rightarrow> stored_intent" where
  "superseded i = (if si_state i = ''pending'' then i\<lparr>si_state := ''superseded''\<rparr> else i)"

lemma commit_write_intents:
  assumes "commit_write_in U did now co cd root ws pr ps opts db = Inr db'"
  shows "\<exists>db5. t_publish_intent db5 = (if opt_supersede_pending opts then map superseded (t_publish_intent db) else t_publish_intent db) \<and>
    t_publish_intent db' = t_publish_intent (fold insert_intent_in ps db5)"
proof -
  obtain db1 db2 db5 where steps: "apply_commit_in did now cd root db = Inr db1" "res_fold (index_write_in U (cd_rev cd) now) ws db1 = Inr db2"
    "(case opt_repair_step opts of None \<Rightarrow> Inr (if opt_supersede_pending opts then supersede_pending_in (apply_write_blobs_in ws pr co now db2)
        else apply_write_blobs_in ws pr co now db2)
      | Some step \<Rightarrow> insert_repair_step_in step cd (if opt_supersede_pending opts then supersede_pending_in (apply_write_blobs_in ws pr co now db2)
        else apply_write_blobs_in ws pr co now db2)) = Inr db5" "db' = fold insert_intent_in ps db5"
    using assms unfolding commit_write_in_def Let_def by (auto elim!: res_bind_Inr_E)
  have "t_publish_intent db1 = t_publish_intent db" using apply_commit_in_Inr(2)[OF steps(1)] by (metis actor_db.ext_inject actor_db.surjective actor_db.update_convs(1,2))
  then have "t_publish_intent (apply_write_blobs_in ws pr co now db2) = t_publish_intent db"
    using index_writes_keep(1)[OF steps(2)] by simp
  then have "t_publish_intent db5 = (if opt_supersede_pending opts then map superseded (t_publish_intent db) else t_publish_intent db)"
    using steps(3) by (auto simp: insert_repair_step_in_def supersede_pending_in_def superseded_def[abs_def] split: option.splits if_splits prod.splits)
  then show ?thesis using steps(4) by blast
qed



text \<open>Intents of a new commit: their revision is above every one the store has, and the sequencer holds no row for them.\<close>

definition fresh_intents :: "seq_ext \<Rightarrow> string \<Rightarrow> seq_db \<Rightarrow> stored_intent list \<Rightarrow> publish_intent list \<Rightarrow> bool" where
  "fresh_intents E did q is ps \<longleftrightarrow> distinct (map pi_event_type ps) \<and>
     (\<forall>p\<in>set ps. event_ok E (stored_as 0 p) \<and> deliveries E did q (stored_as 0 p) = [] \<and> (\<forall>i\<in>set is. si_rev i < pi_rev p))"





section \<open>Exactly once\<close>

text \<open>
  What can happen around an actor's journal: a write commits with its intents; a delivery runs to its end, fails or
  stops after one of its moves; a crash cuts one off between two intents; the sequencer takes an event that
  is none of the pending ones; anything else changes.
\<close>

inductive publication_step :: "seq_ext \<Rightarrow> string \<Rightarrow> 'o pds \<Rightarrow> 'o pds \<Rightarrow> bool" for E :: seq_ext and did :: string where
  committed: "\<lbrakk>p_stores w did = Some db; commit_write_in U did now co cd root ws pr ps opts db = Inr db';
     fresh_intents E did (p_sequencer w) (t_publish_intent db) ps\<rbrakk> \<Longrightarrow> publication_step E did w (w\<lparr>p_stores := (p_stores w)(did \<mapsto> db')\<rparr>)"
| attempt: "\<lbrakk>px_seq P = E; publish_pending P did stop w = (res, w')\<rbrakk> \<Longrightarrow> publication_step E did w w'"
| crash: "\<lbrakk>px_seq P = E; p_stores w did = Some db; publish_loop P did None (take k (pending_intents_in db)) (db, p_sequencer w, l) = (seqs, ended, db', q', l')\<rbrakk>
     \<Longrightarrow> publication_step E did w (w\<lparr>p_stores := (p_stores w)(did \<mapsto> db'), p_sequencer := q'\<rparr>)"
| other_event: "\<lbrakk>p_stores w did = Some db; \<forall>i\<in>set (t_publish_intent db). sq_did r = did \<longrightarrow> \<not> row_matches E r i\<rbrakk>
     \<Longrightarrow> publication_step E did w (w\<lparr>p_sequencer := snd (sequence_evt r (p_sequencer w))\<rparr>)"
| elsewhere: "\<lbrakk>p_stores w' did = p_stores w did; p_sequencer w' = p_sequencer w\<rbrakk> \<Longrightarrow> publication_step E did w w'"










definition demo_intent :: publish_intent where
  "demo_intent = \<lparr>pi_rev = ''r'', pi_cid = ''c'', pi_event_type = ''append'', pi_event = []\<rparr>"

definition demo_uris :: uri_env where
  "demo_uris = \<lparr>ue_match = (\<lambda>_ _. False), ue_caps = (\<lambda>_ _. None), ue_query = (\<lambda>_. Inr []), ue_params = (\<lambda>_. Inr None)\<rparr>"



section \<open>A commit lands whole\<close>

definition to_publish :: "actor_db \<Rightarrow> (string \<times> cid \<times> string \<times> bytes) list" where
  "to_publish db = map (\<lambda>i. (si_rev i, si_cid i, si_event_type i, si_event i)) (pending (t_publish_intent db))"

lemma to_publish_inserted:
  "to_publish (fold insert_intent_in ps db) = to_publish db @ map (\<lambda>p. (pi_rev p, pi_cid p, pi_event_type p, pi_event p)) ps"
  by (induction ps arbitrary: db) (simp_all add: to_publish_def insert_intent_in_def)

lemma marked: "did \<in> set (pending_work (mark_pending_work now did journal))"
  by (auto simp: pending_work_def mark_pending_work_def image_iff)

lemma commit_write_effects:
  assumes "root_is (sr_db (tr_reader t)) c" "commit_write U commit (Some expected) writes promoted intents opts t journal = (res, journal')"
  shows "tr_did t \<in> set (pending_work journal')" "expected \<noteq> c \<Longrightarrow> res = Inl ConcurrentWrite"
    "res = Inr t' \<Longrightarrow> expected = c \<and> root_is (sr_db (tr_reader t')) (cd_cid commit) \<and>
       to_publish (sr_db (tr_reader t')) =
         (if opt_supersede_pending opts then [] else to_publish (sr_db (tr_reader t))) @ map (\<lambda>p. (pi_rev p, pi_cid p, pi_event_type p, pi_event p)) intents"
    "res = Inr t' \<Longrightarrow> writes = as @ wr # bs \<Longrightarrow> uri_of U (pw_uri wr) = Inr u \<Longrightarrow>
       \<forall>b\<in>set bs. \<forall>v. uri_of U (pw_uri b) = Inr v \<longrightarrow> uri_text U v \<noteq> uri_text U u \<Longrightarrow>
       indexed (uri_text U u) (sr_db (tr_reader t')) = set_option (pw_cid wr)"
proof -
  let ?db = "sr_db (tr_reader t)"
  let ?tx = "commit_write_in U (tr_did t) (sr_now (tr_reader t)) (tr_coexistence t) commit (Some expected) writes promoted intents opts ?db"
  have j: "journal' = mark_pending_work (sr_now (tr_reader t)) (tr_did t) journal"
    and res: "res = res_bind ?tx (\<lambda>db. Inr (t\<lparr>tr_reader := (tr_reader t)\<lparr>sr_db := db, sr_cache := bm_add_map (sr_cache (tr_reader t)) (cd_new_blocks commit)\<rparr>\<rparr>))"
    using assms(2) by (auto simp: commit_write_def Let_def)
  show "tr_did t \<in> set (pending_work journal')" by (simp add: j marked)
  show "expected \<noteq> c \<Longrightarrow> res = Inl ConcurrentWrite"
    using swap_root_expected(2)[OF assms(1), THEN iffD2] by (simp add: res commit_write_in_def)
  have tx: "?tx = Inr (sr_db (tr_reader t'))" if "res = Inr t'" using that res by (auto elim!: res_bind_Inr_E)
  show "expected = c \<and> root_is (sr_db (tr_reader t')) (cd_cid commit) \<and>
       to_publish (sr_db (tr_reader t')) =
         (if opt_supersede_pending opts then [] else to_publish ?db) @ map (\<lambda>p. (pi_rev p, pi_cid p, pi_event_type p, pi_event p)) intents"
    if r: "res = Inr t'"
  proof -
    obtain db1 where db1: "apply_commit_in (tr_did t) (sr_now (tr_reader t)) commit (Some expected) ?db = Inr db1"
      "t_repo_root (sr_db (tr_reader t')) = t_repo_root db1" using commit_write_in_effects(1)[OF tx[OF r]] by blast
    have e: "expected = c"
    proof (rule ccontr)
      assume "expected \<noteq> c"
      from swap_root_expected(2)[OF assms(1), THEN iffD2, OF this, of "tr_did t" "sr_now (tr_reader t)" commit] show False by (simp add: db1(1))
    qed
    obtain db2 where db2: "apply_commit_in (tr_did t) (sr_now (tr_reader t)) commit (Some expected) ?db = Inr db2" "root_is db2 (cd_cid commit)"
      using swap_root_expected(1)[OF assms(1), THEN iffD2, OF e, of "tr_did t" "sr_now (tr_reader t)" commit] by blast
    then have "root_is db1 (cd_cid commit)" using db1(1) by simp
    then have root: "root_is (sr_db (tr_reader t')) (cd_cid commit)" using db1(2) by (simp add: root_is_def)
    obtain db5 where db5: "t_publish_intent db5 = (if opt_supersede_pending opts then map superseded (t_publish_intent ?db) else t_publish_intent ?db)"
      "t_publish_intent (sr_db (tr_reader t')) = t_publish_intent (fold insert_intent_in intents db5)"
      using commit_write_intents[OF tx[OF r]] by blast
    have none: "pending (map superseded xs) = []" for xs by (auto simp: filter_empty_conv superseded_def)
    have "to_publish db5 = (if opt_supersede_pending opts then [] else to_publish ?db)" using none by (simp add: to_publish_def db5(1))
    then show ?thesis using e root to_publish_inserted[of intents db5] db5(2) by (simp add: to_publish_def)
  qed
  show "res = Inr t' \<Longrightarrow> writes = as @ wr # bs \<Longrightarrow> uri_of U (pw_uri wr) = Inr u \<Longrightarrow>
       \<forall>b\<in>set bs. \<forall>v. uri_of U (pw_uri b) = Inr v \<longrightarrow> uri_text U v \<noteq> uri_text U u \<Longrightarrow>
       indexed (uri_text U u) (sr_db (tr_reader t')) = set_option (pw_cid wr)"
    using commit_write_in_effects(2)[OF tx] by blast
qed

text \<open>C10. A commit is persisted whole or not at all. It is refused when the root it was formatted against is no longer the
  store's; the store then stays as it was. When it is accepted the root is the new commit, the index names for every
  record the CID of its last write and nothing for a record that was deleted, and the events of the commit
  are queued behind those that were waiting, which an import drops. Either way the actor is marked first, so that a
  restart looks for what a crash left.\<close>

theorem commit_lands_whole:
  assumes "root_is (sr_db (tr_reader t)) c" "commit_write U commit (Some expected) writes promoted intents opts t journal = (res, journal')"
  shows "tr_did t \<in> set (pending_work journal') \<and> (expected \<noteq> c \<longrightarrow> res = Inl ConcurrentWrite) \<and>
    (\<forall>t'. res = Inr t' \<longrightarrow> expected = c \<and> root_is (sr_db (tr_reader t')) (cd_cid commit) \<and>
       to_publish (sr_db (tr_reader t')) =
         (if opt_supersede_pending opts then [] else to_publish (sr_db (tr_reader t))) @ map (\<lambda>p. (pi_rev p, pi_cid p, pi_event_type p, pi_event p)) intents \<and>
       (\<forall>as wr bs u. writes = as @ wr # bs \<longrightarrow> uri_of U (pw_uri wr) = Inr u \<longrightarrow>
          (\<forall>b\<in>set bs. \<forall>v. uri_of U (pw_uri b) = Inr v \<longrightarrow> uri_text U v \<noteq> uri_text U u) \<longrightarrow>
          indexed (uri_text U u) (sr_db (tr_reader t')) = set_option (pw_cid wr)))"
  proof (intro conjI allI impI)
  note effects = commit_write_effects[OF assms]
  show "tr_did t \<in> set (pending_work journal')" by (rule effects(1))
  show "res = Inl ConcurrentWrite" if "expected \<noteq> c" by (rule effects(2)[OF that])
  fix t' assume r: "res = Inr t'"
  from effects(3)[OF r] show "expected = c" "root_is (sr_db (tr_reader t')) (cd_cid commit)"
    "to_publish (sr_db (tr_reader t')) =
       (if opt_supersede_pending opts then [] else to_publish (sr_db (tr_reader t))) @ map (\<lambda>p. (pi_rev p, pi_cid p, pi_event_type p, pi_event p)) intents"
    by blast+
  show "indexed (uri_text U u) (sr_db (tr_reader t')) = set_option (pw_cid wr)"
    if "writes = as @ wr # bs" "uri_of U (pw_uri wr) = Inr u"
      "\<forall>b\<in>set bs. \<forall>v. uri_of U (pw_uri b) = Inr v \<longrightarrow> uri_text U v \<noteq> uri_text U u" for as wr bs u
    by (rule effects(4)[OF r that])
qed

definition demo_transactor :: "unit transactor" where
  "demo_transactor = \<lparr>tr_did = ''d'', tr_reader = sr_new ''d'' ''t'' demo_db, tr_key = (), tr_coexistence = False\<rparr>"

theorem commit_lands_whole_witness:
  "\<exists>t' journal'. commit_write demo_uris (demo_commit ''c'') (Some ''a'') [] [] [demo_intent] \<lparr>opt_supersede_pending = False, opt_repair_step = None\<rparr>
      demo_transactor (lc_db (p_lifecycle demo_pds)) = (Inr t', journal') \<and> to_publish (sr_db (tr_reader t')) = [(''r'', ''c'', ''append'', [])]"
proof -
  let ?o = "\<lparr>opt_supersede_pending = False, opt_repair_step = None\<rparr>"
  let ?run = "commit_write demo_uris (demo_commit ''c'') (Some ''a'') [] [] [demo_intent] ?o demo_transactor (lc_db (p_lifecycle demo_pds))"
  have root: "root_is (sr_db (tr_reader demo_transactor)) ''a''" by (simp add: root_is_def demo_transactor_def sr_new_def demo_db_def)
  have "is_ok (fst ?run)"
    by (simp add: commit_write_def demo_transactor_def sr_new_def commit_write_in_def apply_commit_in_def swap_root_def demo_commit_def demo_db_def Let_def)
  then obtain t' j where run: "?run = (Inr t', j)" by (cases ?run) (auto simp: is_ok_iff)
  show ?thesis using run commit_lands_whole[OF root run, THEN conjunct2, THEN conjunct2, rule_format, OF refl]
    by (auto simp: to_publish_def demo_transactor_def sr_new_def demo_db_def demo_intent_def)
qed

end
