(* ===== verification/Oauth_Types.thy ===== *)
theory Oauth_Types
  imports Lex_Ipld
begin

text \<open>
  Data of the OAuth provider: \<open>rsky-oauth/src/error.rs\<close>, \<open>types.rs\<close>, \<open>request.rs\<close>, \<open>token.rs\<close>, \<open>device.rs\<close> and
  the row types of \<open>store.rs\<close>. Unix seconds are \<open>nat\<close>: the clock is the server's own and stays far below \<open>2 ^ 64\<close>.
  Where a number comes from a client the source saturates, and so does the model. Random bytes are arguments of
  the functions that draw them.
\<close>

section \<open>Errors and actions\<close>

datatype oauth_error =
    InvalidRequest string
  | InvalidToken string
  | InvalidDpopProof string
  | UseDpopNonce string
  | InvalidClient string
  | InvalidGrant string
  | InvalidScope string
  | ServerError string

definition use_dpop_nonce :: oauth_error where
  "use_dpop_nonce = UseDpopNonce ''Authorization server requires nonce in DPoP proof''"

fun error_code :: "oauth_error \<Rightarrow> string" where
  "error_code (InvalidRequest _) = ''invalid_request''"
| "error_code (InvalidToken _) = ''invalid_token''"
| "error_code (InvalidDpopProof _) = ''invalid_dpop_proof''"
| "error_code (UseDpopNonce _) = ''use_dpop_nonce''"
| "error_code (InvalidClient _) = ''invalid_client''"
| "error_code (InvalidGrant _) = ''invalid_grant''"
| "error_code (InvalidScope _) = ''invalid_scope''"
| "error_code (ServerError _) = ''server_error''"

fun error_description :: "oauth_error \<Rightarrow> string" where
  "error_description (InvalidRequest d) = d"
| "error_description (InvalidToken d) = d"
| "error_description (InvalidDpopProof d) = d"
| "error_description (UseDpopNonce d) = d"
| "error_description (InvalidClient d) = d"
| "error_description (InvalidGrant d) = d"
| "error_description (InvalidScope d) = d"
| "error_description (ServerError d) = d"

fun error_status :: "oauth_error \<Rightarrow> nat" where
  "error_status (InvalidToken _) = 401"
| "error_status (InvalidDpopProof _) = 401"
| "error_status (InvalidClient _) = 401"
| "error_status (ServerError _) = 500"
| "error_status _ = 400"

definition requires_dpop_nonce :: "oauth_error \<Rightarrow> bool" where
  "requires_dpop_nonce e = (case e of UseDpopNonce _ \<Rightarrow> True | _ \<Rightarrow> False)"

text \<open>An operation with a state: what it did before it failed stays done, so an error also carries the state.\<close>

type_synonym ('s, 'a) oaction = "'s \<Rightarrow> (oauth_error + 'a) \<times> 's"

definition oa_ok :: "'a \<Rightarrow> ('s, 'a) oaction" where
  "oa_ok x s = (Inr x, s)"

definition oa_fail :: "oauth_error \<Rightarrow> ('s, 'a) oaction" where
  "oa_fail e s = (Inl e, s)"

definition oa_lift :: "oauth_error + 'a \<Rightarrow> ('s, 'a) oaction" where
  "oa_lift r s = (r, s)"

definition oa_bind :: "('s, 'a) oaction \<Rightarrow> ('a \<Rightarrow> ('s, 'b) oaction) \<Rightarrow> ('s, 'b) oaction" where
  "oa_bind m k s = (case m s of (Inl e, s') \<Rightarrow> (Inl e, s') | (Inr x, s') \<Rightarrow> k x s')"

definition oa_handle :: "('s, 'a) oaction \<Rightarrow> (oauth_error \<Rightarrow> ('s, 'a) oaction) \<Rightarrow> ('s, 'a) oaction" where
  "oa_handle m h s = (case m s of (Inl e, s') \<Rightarrow> h e s' | (Inr x, s') \<Rightarrow> (Inr x, s'))"

definition oa_when :: "bool \<Rightarrow> oauth_error \<Rightarrow> ('s, unit) oaction" where
  "oa_when c e s = (if c then Inl e else Inr (), s)"

definition map_err :: "('e \<Rightarrow> 'f) \<Rightarrow> 'e + 'a \<Rightarrow> 'f + 'a" where
  "map_err f r = map_sum f id r"

lemma map_err_simps [simp]: "map_err f (Inl e) = Inl (f e)" "map_err f (Inr x) = Inr x"
  by (simp_all add: map_err_def)

lemma map_err_Inr [simp]: "map_err f r = Inr x \<longleftrightarrow> r = Inr x"
  by (cases r) simp_all

named_theorems oa_simps \<open>unfolding of actions\<close>

lemma oa_run [oa_simps, simp]:
  "oa_ok x s = (Inr x, s)" "oa_fail e s = (Inl e, s)" "oa_lift r s = (r, s)"
  by (simp_all add: oa_ok_def oa_fail_def oa_lift_def)

lemma oa_bind_run [oa_simps]:
  "oa_bind m k s = (case m s of (Inl e, s') \<Rightarrow> (Inl e, s') | (Inr x, s') \<Rightarrow> k x s')"
  "oa_when c e s = (if c then Inl e else Inr (), s)"
  by (simp_all add: oa_bind_def oa_when_def)

lemma oa_bind_Inr_E:
  assumes "oa_bind m k s = (Inr y, s'')"
  obtains x s' where "m s = (Inr x, s')" "k x s' = (Inr y, s'')"
  using assms by (auto simp: oa_bind_def split: prod.splits sum.splits)

lemma oa_when_Inr [simp]: "oa_when c e s = (Inr y, s') \<longleftrightarrow> \<not> c \<and> s' = s"
  by (auto simp: oa_when_def)

section \<open>Numbers and strings of the standard library\<close>

definition u64_max :: nat where
  "u64_max = 2 ^ 64 - 1"

definition saturating_add :: "nat \<Rightarrow> nat \<Rightarrow> nat" where
  "saturating_add a b = min (a + b) u64_max"

definition is_ascii_whitespace :: "char \<Rightarrow> bool" where
  "is_ascii_whitespace c \<longleftrightarrow> c \<in> {CHR '' '', CHR 0x09, CHR 0x0A, CHR 0x0C, CHR 0x0D}"

fun split_ws :: "string \<Rightarrow> string list" where
  "split_ws [] = [[]]"
| "split_ws (c # cs) =
     (if is_ascii_whitespace c then [] # split_ws cs
      else case split_ws cs of [] \<Rightarrow> [[c]] | p # ps \<Rightarrow> (c # p) # ps)"

definition split_ascii_whitespace :: "string \<Rightarrow> string list" where
  "split_ascii_whitespace s = filter (\<lambda>p. p \<noteq> []) (split_ws s)"

definition strip_prefix :: "string \<Rightarrow> string \<Rightarrow> string option" where
  "strip_prefix p s = (if starts_with s p then Some (drop (length p) s) else None)"

definition eq_ignore_ascii_case :: "string \<Rightarrow> string \<Rightarrow> bool" where
  "eq_ignore_ascii_case a b \<longleftrightarrow> map to_ascii_lowercase a = map to_ascii_lowercase b"

definition hex_digit :: "nat \<Rightarrow> char" where
  "hex_digit n = ''0123456789abcdef'' ! n"

definition hex_encode :: "bytes \<Rightarrow> string" where
  "hex_encode bs = concat (map (\<lambda>b. [hex_digit (unat b div 16), hex_digit (unat b mod 16)]) bs)"

lemma length_hex_encode [simp]: "length (hex_encode bs) = 2 * length bs"
  by (induction bs) (simp_all add: hex_encode_def)

lemma split_ws_nonempty [simp]: "split_ws s \<noteq> []"
  by (cases s) (auto split: list.splits)

lemma split_ws_parts: "p \<in> set (split_ws s) \<Longrightarrow> \<forall>c\<in>set p. \<not> is_ascii_whitespace c"
proof (induction s arbitrary: p)
  case (Cons a s)
  obtain q qs where "split_ws s = q # qs" using split_ws_nonempty[of s] by (cases "split_ws s") auto
  with Cons show ?case by (fastforce split: if_splits)
qed simp

lemma split_ws_plain: "\<forall>c\<in>set p. \<not> is_ascii_whitespace c \<Longrightarrow> split_ws p = [p]"
  by (induction p) auto

lemma split_ws_append:
  "\<forall>c\<in>set p. \<not> is_ascii_whitespace c \<Longrightarrow> is_ascii_whitespace w \<Longrightarrow> split_ws (p @ w # s) = p # split_ws s"
  by (induction p) auto

definition scope_words :: "string list \<Rightarrow> bool" where
  "scope_words ws \<longleftrightarrow> (\<forall>w\<in>set ws. w \<noteq> [] \<and> (\<forall>c\<in>set w. \<not> is_ascii_whitespace c))"

lemma scope_words_split [simp]: "scope_words (split_ascii_whitespace s)"
  using split_ws_parts by (auto simp: scope_words_def split_ascii_whitespace_def)

lemma split_join_words: "scope_words ws \<Longrightarrow> split_ascii_whitespace (join '' '' ws) = ws"
proof (induction "'' ''" ws rule: join.induct)
  case (3 p q ps)
  have "split_ws (p @ CHR '' '' # join '' '' (q # ps)) = p # split_ws (join '' '' (q # ps))"
    using 3(2) by (intro split_ws_append) (auto simp: scope_words_def is_ascii_whitespace_def)
  with 3 show ?case by (auto simp: split_ascii_whitespace_def scope_words_def)
qed (auto simp: split_ascii_whitespace_def split_ws_plain scope_words_def)

section \<open>Keys, tokens and URLs\<close>

datatype ec_curve = P256 | K256curve

record jwk =
  jw_kty :: string
  jw_crv :: string
  jw_x :: string
  jw_y :: string
  jw_d :: "string option"
  jw_kid :: "string option"
  jw_alg :: "string option"
  jw_use :: "string option"

type_synonym jwk_set = "jwk list"

datatype signing_key = EcKey jwk | Symmetric bytes

record jwt_header =
  jh_alg :: string
  jh_typ :: "string option"
  jh_kid :: "string option"
  jh_jwk :: "jwk option"
  jh_extra :: "(string \<times> json) list"

record jwt_claims =
  jc_iss :: "string option"
  jc_sub :: "string option"
  jc_aud :: "json option"
  jc_exp :: "nat option"
  jc_nbf :: "nat option"
  jc_iat :: "nat option"
  jc_jti :: "string option"
  jc_extra :: "(string \<times> json) list"

datatype url_host = Domain string | Ipv4 string | Ipv6 string

record url =
  u_scheme :: string
  u_username :: string
  u_password :: "string option"
  u_host :: "url_host option"
  u_port :: "nat option"
  u_path :: string
  u_query :: "string option"
  u_fragment :: "string option"
  u_origin :: string
  u_str :: string

text \<open>
  What the libraries do. \<open>u_origin\<close> is the ASCII serialization of an origin, which two URLs with an \<open>http\<close> or
  \<open>https\<close> scheme share exactly when their origins are equal. \<open>ox_append\<close> adds form-encoded pairs to the query of
  a URL and \<open>ox_fragment\<close> sets them as its fragment.
\<close>

record oauth_ext =
  ox_sha256 :: "string \<Rightarrow> bytes"
  ox_hmac :: "bytes \<Rightarrow> bytes \<Rightarrow> bytes"
  ox_str_bytes :: "string \<Rightarrow> bytes"
  ox_b64 :: "bytes \<Rightarrow> string"
  ox_unb64 :: "string \<Rightarrow> string + bytes"
  ox_header_json :: "jwt_header \<Rightarrow> bytes"
  ox_claims_json :: "jwt_claims \<Rightarrow> bytes"
  ox_header_parse :: "bytes \<Rightarrow> string + jwt_header"
  ox_claims_parse :: "bytes \<Rightarrow> string + jwt_claims"
  ox_point :: "ec_curve \<Rightarrow> bytes \<Rightarrow> string + bytes"
  ox_signature :: "ec_curve \<Rightarrow> bytes \<Rightarrow> string + bytes"
  ox_verify :: "ec_curve \<Rightarrow> bytes \<Rightarrow> bytes \<Rightarrow> bytes \<Rightarrow> bool"
  ox_sign :: "ec_curve \<Rightarrow> bytes \<Rightarrow> bytes \<Rightarrow> string + bytes"
  ox_url :: "string \<Rightarrow> url option"
  ox_query_pairs :: "string \<Rightarrow> (string \<times> string) list"
  ox_append :: "url \<Rightarrow> (string \<times> string) list \<Rightarrow> string"
  ox_fragment :: "url \<Rightarrow> (string \<times> string) list \<Rightarrow> string"

section \<open>Types of the protocol\<close>

definition GRANT_AUTHORIZATION_CODE :: string where
  "GRANT_AUTHORIZATION_CODE = ''authorization_code''"

definition GRANT_REFRESH_TOKEN :: string where
  "GRANT_REFRESH_TOKEN = ''refresh_token''"

definition RESPONSE_TYPE_CODE :: string where
  "RESPONSE_TYPE_CODE = ''code''"

definition AUTH_METHOD_NONE :: string where
  "AUTH_METHOD_NONE = ''none''"

definition AUTH_METHOD_PRIVATE_KEY_JWT :: string where
  "AUTH_METHOD_PRIVATE_KEY_JWT = ''private_key_jwt''"

definition APPLICATION_TYPE_WEB :: string where
  "APPLICATION_TYPE_WEB = ''web''"

definition APPLICATION_TYPE_NATIVE :: string where
  "APPLICATION_TYPE_NATIVE = ''native''"

definition CODE_CHALLENGE_METHOD_S256 :: string where
  "CODE_CHALLENGE_METHOD_S256 = ''S256''"

definition CLIENT_ASSERTION_TYPE_JWT_BEARER :: string where
  "CLIENT_ASSERTION_TYPE_JWT_BEARER = ''urn:ietf:params:oauth:client-assertion-type:jwt-bearer''"

definition SCOPE_ATPROTO :: string where
  "SCOPE_ATPROTO = ''atproto''"


record oauth_client_metadata =
  cm_client_id :: string
  cm_redirect_uris :: "string list"
  cm_grant_types :: "string list"
  cm_response_types :: "string list"
  cm_scope :: "string option"
  cm_token_endpoint_auth_method :: "string option"
  cm_token_endpoint_auth_signing_alg :: "string option"
  cm_application_type :: string
  cm_dpop_bound_access_tokens :: bool
  cm_jwks :: "jwk_set option"
  cm_jwks_uri :: "string option"
  cm_client_name :: "string option"
  cm_client_uri :: "string option"
  cm_logo_uri :: "string option"
  cm_tos_uri :: "string option"
  cm_policy_uri :: "string option"
  cm_contacts :: "string list"
  cm_extra :: "(string \<times> json) list"

definition new_client_metadata :: "string \<Rightarrow> oauth_client_metadata" where
  "new_client_metadata client_id =
     \<lparr>cm_client_id = client_id, cm_redirect_uris = [], cm_grant_types = [GRANT_AUTHORIZATION_CODE],
      cm_response_types = [RESPONSE_TYPE_CODE], cm_scope = None, cm_token_endpoint_auth_method = None,
      cm_token_endpoint_auth_signing_alg = None, cm_application_type = APPLICATION_TYPE_WEB,
      cm_dpop_bound_access_tokens = False, cm_jwks = None, cm_jwks_uri = None, cm_client_name = None,
      cm_client_uri = None, cm_logo_uri = None, cm_tos_uri = None, cm_policy_uri = None, cm_contacts = [], cm_extra = []\<rparr>"

definition auth_method :: "oauth_client_metadata \<Rightarrow> string" where
  "auth_method m = (case cm_token_endpoint_auth_method m of Some a \<Rightarrow> a | None \<Rightarrow> AUTH_METHOD_NONE)"

definition is_confidential :: "oauth_client_metadata \<Rightarrow> bool" where
  "is_confidential m \<longleftrightarrow> auth_method m = AUTH_METHOD_PRIVATE_KEY_JWT"

definition allowed_scopes :: "oauth_client_metadata \<Rightarrow> string list" where
  "allowed_scopes m = (case cm_scope m of Some scope \<Rightarrow> split_ascii_whitespace scope | None \<Rightarrow> [])"

record authorization_request_parameters =
  ap_client_id :: string
  ap_response_type :: string
  ap_redirect_uri :: string
  ap_scope :: string
  ap_state :: "string option"
  ap_code_challenge :: string
  ap_code_challenge_method :: string
  ap_login_hint :: "string option"
  ap_response_mode :: "string option"
  ap_prompt :: "string option"
  ap_dpop_jkt :: "string option"

datatype client_auth = AuthNone | PrivateKeyJwt (pk_alg: string) (pk_kid: string) (pk_jkt: string)

record token_response =
  tr_access_token :: string
  tr_token_type :: string
  tr_expires_in :: nat
  tr_refresh_token :: "string option"
  tr_scope :: string
  tr_sub :: string

section \<open>Authorization requests\<close>

definition REQUEST_ID_PREFIX :: string where
  "REQUEST_ID_PREFIX = ''req-''"

definition REQUEST_ID_BYTES_LENGTH :: nat where
  "REQUEST_ID_BYTES_LENGTH = 16"

definition CODE_PREFIX :: string where
  "CODE_PREFIX = ''cod-''"

definition CODE_BYTES_LENGTH :: nat where
  "CODE_BYTES_LENGTH = 32"

definition REQUEST_URI_PREFIX :: string where
  "REQUEST_URI_PREFIX = ''urn:ietf:params:oauth:request_uri:''"

definition PAR_EXPIRES_IN :: nat where
  "PAR_EXPIRES_IN = 300"

definition AUTHORIZATION_INACTIVITY_TIMEOUT :: nat where
  "AUTHORIZATION_INACTIVITY_TIMEOUT = 300"


definition random_hex_id :: "string \<Rightarrow> bytes \<Rightarrow> string" where
  "random_hex_id prefix random = prefix @ hex_encode random"

definition generate_request_id :: "bytes \<Rightarrow> string" where
  "generate_request_id random = random_hex_id REQUEST_ID_PREFIX random"

definition generate_code :: "bytes \<Rightarrow> string" where
  "generate_code random = random_hex_id CODE_PREFIX random"

definition request_uri_from_id :: "string \<Rightarrow> string" where
  "request_uri_from_id request_id = REQUEST_URI_PREFIX @ request_id"

definition request_id_from_uri :: "string \<Rightarrow> oauth_error + string" where
  "request_id_from_uri request_uri =
     (case strip_prefix REQUEST_URI_PREFIX request_uri of
        Some request_id \<Rightarrow>
          if starts_with request_id REQUEST_ID_PREFIX \<and> length request_id = length REQUEST_ID_PREFIX + REQUEST_ID_BYTES_LENGTH * 2
          then Inr request_id else Inl (InvalidRequest ''invalid request_uri'')
      | None \<Rightarrow> Inl (InvalidRequest ''invalid request_uri''))"

definition is_code :: "string \<Rightarrow> bool" where
  "is_code v \<longleftrightarrow> starts_with v CODE_PREFIX \<and> length v = length CODE_PREFIX + CODE_BYTES_LENGTH * 2"

record request_data =
  rd_client_id :: string
  rd_client_auth :: client_auth
  rd_parameters :: authorization_request_parameters
  rd_expires_at :: nat
  rd_device_id :: "string option"
  rd_did :: "string option"
  rd_code :: "string option"

definition is_expired :: "request_data \<Rightarrow> nat \<Rightarrow> bool" where
  "is_expired data now \<longleftrightarrow> rd_expires_at data \<le> now"

definition is_authorized :: "request_data \<Rightarrow> bool" where
  "is_authorized data \<longleftrightarrow> rd_did data \<noteq> None \<or> rd_code data \<noteq> None"

section \<open>Tokens\<close>

definition TOKEN_ID_PREFIX :: string where
  "TOKEN_ID_PREFIX = ''tok-''"

definition TOKEN_ID_BYTES_LENGTH :: nat where
  "TOKEN_ID_BYTES_LENGTH = 16"

definition REFRESH_TOKEN_PREFIX :: string where
  "REFRESH_TOKEN_PREFIX = ''ref-''"

definition REFRESH_TOKEN_BYTES_LENGTH :: nat where
  "REFRESH_TOKEN_BYTES_LENGTH = 32"

definition TOKEN_MAX_AGE :: nat where
  "TOKEN_MAX_AGE = 3600"

definition PUBLIC_CLIENT_SESSION_LIFETIME :: nat where
  "PUBLIC_CLIENT_SESSION_LIFETIME = 2 * 7 * 24 * 3600"

definition PUBLIC_CLIENT_REFRESH_LIFETIME :: nat where
  "PUBLIC_CLIENT_REFRESH_LIFETIME = PUBLIC_CLIENT_SESSION_LIFETIME"

definition CONFIDENTIAL_CLIENT_SESSION_LIFETIME :: nat where
  "CONFIDENTIAL_CLIENT_SESSION_LIFETIME = 2 * 365 * 24 * 3600"

definition CONFIDENTIAL_CLIENT_REFRESH_LIFETIME :: nat where
  "CONFIDENTIAL_CLIENT_REFRESH_LIFETIME = 90 * 24 * 3600"


definition generate_token_id :: "bytes \<Rightarrow> string" where
  "generate_token_id random = random_hex_id TOKEN_ID_PREFIX random"

definition generate_refresh_token :: "bytes \<Rightarrow> string" where
  "generate_refresh_token random = random_hex_id REFRESH_TOKEN_PREFIX random"

definition is_token_id :: "string \<Rightarrow> bool" where
  "is_token_id v \<longleftrightarrow> starts_with v TOKEN_ID_PREFIX \<and> length v = length TOKEN_ID_PREFIX + TOKEN_ID_BYTES_LENGTH * 2"

definition is_refresh_token :: "string \<Rightarrow> bool" where
  "is_refresh_token v \<longleftrightarrow> starts_with v REFRESH_TOKEN_PREFIX \<and> length v = length REFRESH_TOKEN_PREFIX + REFRESH_TOKEN_BYTES_LENGTH * 2"

definition verify_code_challenge :: "oauth_ext \<Rightarrow> string \<Rightarrow> string \<Rightarrow> oauth_error + unit" where
  "verify_code_challenge X verifier challenge =
     (if length verifier < 43 \<or> length verifier > 128 then Inl (InvalidGrant ''invalid code_verifier length'')
      else if ox_b64 X (ox_sha256 X verifier) = challenge then Inr ()
      else Inl (InvalidGrant ''invalid code_verifier''))"

record token_data =
  td_created_at :: nat
  td_updated_at :: nat
  td_expires_at :: nat
  td_client_id :: string
  td_client_auth :: client_auth
  td_device_id :: "string option"
  td_did :: string
  td_parameters :: authorization_request_parameters
  td_code :: "string option"
  td_scope :: "string option"

definition td_is_confidential :: "token_data \<Rightarrow> bool" where
  "td_is_confidential d \<longleftrightarrow> td_client_auth d \<noteq> AuthNone"

definition granted_scope :: "token_data \<Rightarrow> string" where
  "granted_scope d = (case td_scope d of Some s \<Rightarrow> s | None \<Rightarrow> ap_scope (td_parameters d))"

definition session_lifetime :: "token_data \<Rightarrow> bool \<Rightarrow> nat" where
  "session_lifetime d trusted =
     (if td_is_confidential d \<or> trusted then CONFIDENTIAL_CLIENT_SESSION_LIFETIME else PUBLIC_CLIENT_SESSION_LIFETIME)"

definition refresh_lifetime :: "token_data \<Rightarrow> bool \<Rightarrow> nat" where
  "refresh_lifetime d trusted =
     (if td_is_confidential d \<or> trusted then CONFIDENTIAL_CLIENT_REFRESH_LIFETIME else PUBLIC_CLIENT_REFRESH_LIFETIME)"

text \<open>Subtraction on \<open>nat\<close> saturates as \<open>u64::saturating_sub\<close> does.\<close>

definition validate_refresh_lifetimes :: "token_data \<Rightarrow> nat \<Rightarrow> bool \<Rightarrow> oauth_error + unit" where
  "validate_refresh_lifetimes d now trusted =
     (if now - td_created_at d > session_lifetime d trusted then Inl (InvalidGrant ''session expired'')
      else if now - td_updated_at d > refresh_lifetime d trusted then Inl (InvalidGrant ''refresh token expired'')
      else Inr ())"

record token_info =
  ti_token_id :: string
  ti_data :: token_data
  ti_current_refresh_token :: "string option"

section \<open>Accounts and devices\<close>

definition AUTHENTICATION_MAX_AGE :: nat where
  "AUTHENTICATION_MAX_AGE = 7 * 24 * 3600"

definition EPHEMERAL_SESSION_MAX_AGE :: nat where
  "EPHEMERAL_SESSION_MAX_AGE = 15 * 60"

definition DEVICE_ID_PREFIX :: string where
  "DEVICE_ID_PREFIX = ''dev-''"

definition SESSION_ID_PREFIX :: string where
  "SESSION_ID_PREFIX = ''ses-''"


definition generate_device_id :: "bytes \<Rightarrow> string" where
  "generate_device_id random = random_hex_id DEVICE_ID_PREFIX random"

definition generate_session_id :: "bytes \<Rightarrow> string" where
  "generate_session_id random = random_hex_id SESSION_ID_PREFIX random"

record account_info =
  ai_did :: string
  ai_handle :: "string option"
  ai_email :: "string option"
  ai_email_verified :: bool
  ai_deactivated :: bool

record device_data =
  dd_session_id :: string
  dd_user_agent :: "string option"
  dd_ip_address :: string
  dd_last_seen_at :: nat

record device_account =
  da_device_id :: string
  da_account :: account_info
  da_device :: device_data
  da_created_at :: nat
  da_updated_at :: nat

section \<open>Identifiers\<close>

lemma request_uri_round_trip:
  "length random = REQUEST_ID_BYTES_LENGTH \<Longrightarrow>
     request_id_from_uri (request_uri_from_id (generate_request_id random)) = Inr (generate_request_id random)"
  by (simp add: request_id_from_uri_def request_uri_from_id_def strip_prefix_def starts_with_def generate_request_id_def
      random_hex_id_def REQUEST_ID_PREFIX_def)

lemma generated_ids_recognised:
  "length random = CODE_BYTES_LENGTH \<Longrightarrow> is_code (generate_code random)"
  "length random = TOKEN_ID_BYTES_LENGTH \<Longrightarrow> is_token_id (generate_token_id random)"
  "length random = REFRESH_TOKEN_BYTES_LENGTH \<Longrightarrow> is_refresh_token (generate_refresh_token random)"
  by (simp_all add: is_code_def generate_code_def is_token_id_def generate_token_id_def is_refresh_token_def generate_refresh_token_def
      random_hex_id_def starts_with_def CODE_PREFIX_def TOKEN_ID_PREFIX_def REFRESH_TOKEN_PREFIX_def)

lemma id_kinds_disjoint:
  "is_code v \<Longrightarrow> \<not> is_token_id v" "is_code v \<Longrightarrow> \<not> is_refresh_token v" "is_refresh_token v \<Longrightarrow> \<not> is_token_id v"
  by (auto simp: is_code_def is_token_id_def is_refresh_token_def starts_with_iff CODE_PREFIX_def TOKEN_ID_PREFIX_def REFRESH_TOKEN_PREFIX_def)

lemma validate_refresh_lifetimes_Inr:
  "validate_refresh_lifetimes d now trusted = Inr () \<longleftrightarrow>
     now \<le> td_created_at d + session_lifetime d trusted \<and> now \<le> td_updated_at d + refresh_lifetime d trusted"
  by (auto simp: validate_refresh_lifetimes_def)

end
