(* ===== verification/Oauth_Store.thy ===== *)
theory Oauth_Store
  imports Oauth_Types "HOL-Library.AList" "HOL-Library.Product_Lexorder"
begin

text \<open>
  Storage of the OAuth provider: the trait \<open>OAuthStore\<close> of \<open>rsky-oauth/src/store.rs\<close> as a record of operations, and the
  in-memory store. A hash map is the list of its entries in the order an iteration visits them. The interface a provider
  relies on, a specification over finite maps, is the locale \<open>oauth_store_contract\<close>.
\<close>

section \<open>The trait\<close>

record 's oauth_store =
  os_create_request :: "string \<Rightarrow> request_data \<Rightarrow> ('s, unit) oaction"
  os_read_request :: "string \<Rightarrow> ('s, request_data option) oaction"
  os_update_request :: "string \<Rightarrow> request_data \<Rightarrow> ('s, unit) oaction"
  os_delete_request :: "string \<Rightarrow> ('s, unit) oaction"
  os_consume_request_code :: "string \<Rightarrow> ('s, (string \<times> request_data) option) oaction"
  os_create_token :: "string \<Rightarrow> token_data \<Rightarrow> string option \<Rightarrow> ('s, unit) oaction"
  os_read_token :: "string \<Rightarrow> ('s, token_info option) oaction"
  os_find_token_by_refresh_token :: "string \<Rightarrow> ('s, token_info option) oaction"
  os_find_token_by_code :: "string \<Rightarrow> ('s, token_info option) oaction"
  os_rotate_token :: "string \<Rightarrow> string \<Rightarrow> string \<Rightarrow> nat \<Rightarrow> nat \<Rightarrow> string option \<Rightarrow> ('s, unit) oaction"
  os_delete_token :: "string \<Rightarrow> ('s, unit) oaction"
  os_list_account_tokens :: "string \<Rightarrow> ('s, token_info list) oaction"
  os_remove_tokens_by_did :: "string \<Rightarrow> ('s, unit) oaction"
  os_authenticate_account :: "string \<Rightarrow> string \<Rightarrow> ('s, account_info option) oaction"
  os_get_account :: "string \<Rightarrow> ('s, account_info option) oaction"
  os_create_device :: "string \<Rightarrow> device_data \<Rightarrow> ('s, unit) oaction"
  os_read_device :: "string \<Rightarrow> ('s, device_data option) oaction"
  os_update_device :: "string \<Rightarrow> device_data \<Rightarrow> ('s, unit) oaction"
  os_touch_device :: "string \<Rightarrow> string option \<Rightarrow> string \<Rightarrow> nat \<Rightarrow> ('s, unit) oaction"
  os_rotate_device_session :: "string \<Rightarrow> string \<Rightarrow> string \<Rightarrow> ('s, unit) oaction"
  os_upsert_device_account :: "string \<Rightarrow> string \<Rightarrow> nat \<Rightarrow> ('s, unit) oaction"
  os_authenticate_device_account :: "string \<Rightarrow> string \<Rightarrow> string \<Rightarrow> string \<Rightarrow> nat \<Rightarrow> ('s, unit) oaction"
  os_get_device_account :: "string \<Rightarrow> string \<Rightarrow> ('s, device_account option) oaction"
  os_get_device_account_for_session :: "string \<Rightarrow> string \<Rightarrow> string \<Rightarrow> ('s, device_account option) oaction"
  os_list_device_accounts :: "string \<Rightarrow> ('s, device_account list) oaction"
  os_list_account_devices :: "string \<Rightarrow> ('s, device_account list) oaction"
  os_remove_device_account :: "string \<Rightarrow> string \<Rightarrow> ('s, unit) oaction"
  os_set_authorized_client :: "string \<Rightarrow> string \<Rightarrow> string \<Rightarrow> ('s, unit) oaction"
  os_get_authorized_client_scope :: "string \<Rightarrow> string \<Rightarrow> ('s, string option) oaction"
  os_delete_authorized_clients :: "string \<Rightarrow> ('s, unit) oaction"

definition device_session_changed :: oauth_error where
  "device_session_changed = InvalidRequest ''device session changed''"

section \<open>The in-memory store\<close>

record membership =
  mb_created_at :: nat
  mb_updated_at :: nat

record memory_state =
  ms_requests :: "(string \<times> request_data) list"
  ms_tokens :: "(string \<times> token_data \<times> string option) list"
  ms_token_order :: "string list"
  ms_used_refresh_tokens :: "(string \<times> string) list"
  ms_accounts :: "(string \<times> account_info \<times> string) list"
  ms_devices :: "(string \<times> device_data) list"
  ms_device_accounts :: "((string \<times> string) \<times> membership) list"
  ms_authorized_clients :: "((string \<times> string) \<times> string) list"

definition new_memory_store :: memory_state where
  "new_memory_store = \<lparr>ms_requests = [], ms_tokens = [], ms_token_order = [], ms_used_refresh_tokens = [], ms_accounts = [],
     ms_devices = [], ms_device_accounts = [], ms_authorized_clients = []\<rparr>"

definition ms_device_account :: "memory_state \<Rightarrow> string \<Rightarrow> string \<Rightarrow> device_account option" where
  "ms_device_account st device_id did =
     (case (map_of (ms_device_accounts st) (device_id, did), map_of (ms_devices st) device_id, map_of (ms_accounts st) did) of
        (Some mb, Some device, Some (account, _)) \<Rightarrow>
          Some \<lparr>da_device_id = device_id, da_account = account, da_device = device, da_created_at = mb_created_at mb, da_updated_at = mb_updated_at mb\<rparr>
      | _ \<Rightarrow> None)"

text \<open>Three stable sorts, the last key first, are the lexicographic comparison of the source.\<close>

definition device_accounts_where :: "memory_state \<Rightarrow> (string \<Rightarrow> string \<Rightarrow> bool) \<Rightarrow> device_account list" where
  "device_accounts_where st f =
     sort_key (\<lambda>d. - int (da_updated_at d)) (sort_key (\<lambda>d. ai_did (da_account d)) (sort_key da_device_id
       (List.map_filter (\<lambda>(device_id, did). ms_device_account st device_id did)
         (filter (\<lambda>(device_id, did). f device_id did) (map fst (ms_device_accounts st))))))"

definition ms_rotate_device_session :: "string \<Rightarrow> string \<Rightarrow> string \<Rightarrow> (memory_state, unit) oaction" where
  "ms_rotate_device_session device_id expected new st =
     (case map_of (ms_devices st) device_id of
        Some device \<Rightarrow>
          if dd_session_id device = expected
          then (Inr (), st\<lparr>ms_devices := AList.update device_id (device\<lparr>dd_session_id := new\<rparr>) (ms_devices st)\<rparr>)
          else (Inl device_session_changed, st)
      | None \<Rightarrow> (Inl device_session_changed, st))"

definition ms_upsert_device_account :: "string \<Rightarrow> string \<Rightarrow> nat \<Rightarrow> memory_state \<Rightarrow> memory_state" where
  "ms_upsert_device_account device_id did now st =
     st\<lparr>ms_device_accounts := AList.update (device_id, did)
       (case map_of (ms_device_accounts st) (device_id, did) of
          Some mb \<Rightarrow> mb\<lparr>mb_updated_at := now\<rparr>
        | None \<Rightarrow> \<lparr>mb_created_at = now, mb_updated_at = now\<rparr>) (ms_device_accounts st)\<rparr>"

definition add_account :: "account_info \<Rightarrow> string \<Rightarrow> memory_state \<Rightarrow> memory_state" where
  "add_account account password st = st\<lparr>ms_accounts := AList.update (ai_did account) (account, password) (ms_accounts st)\<rparr>"

definition ms_token_info :: "memory_state \<Rightarrow> string \<Rightarrow> token_info option" where
  "ms_token_info st token_id =
     map_option (\<lambda>(data, refresh). \<lparr>ti_token_id = token_id, ti_data = data, ti_current_refresh_token = refresh\<rparr>) (map_of (ms_tokens st) token_id)"

definition ms_create_request :: "string \<Rightarrow> request_data \<Rightarrow> (memory_state, unit) oaction" where
  "ms_create_request req data st = (Inr (), st\<lparr>ms_requests := AList.update req data (ms_requests st)\<rparr>)"

definition ms_read_request :: "string \<Rightarrow> (memory_state, request_data option) oaction" where
  "ms_read_request req st = (Inr (map_of (ms_requests st) req), st)"

definition ms_update_request :: "string \<Rightarrow> request_data \<Rightarrow> (memory_state, unit) oaction" where
  "ms_update_request req data st =
     (if map_of (ms_requests st) req = None then (Inl (ServerError ''unknown request''), st)
      else (Inr (), st\<lparr>ms_requests := AList.update req data (ms_requests st)\<rparr>))"

definition ms_delete_request :: "string \<Rightarrow> (memory_state, unit) oaction" where
  "ms_delete_request req st = (Inr (), st\<lparr>ms_requests := AList.delete req (ms_requests st)\<rparr>)"

definition ms_consume_request_code :: "string \<Rightarrow> (memory_state, (string \<times> request_data) option) oaction" where
  "ms_consume_request_code code st =
     (case List.find (\<lambda>(_, data). rd_code data = Some code) (ms_requests st) of
        Some (req, data) \<Rightarrow> (Inr (Some (req, data)), st\<lparr>ms_requests := AList.delete req (ms_requests st)\<rparr>)
      | None \<Rightarrow> (Inr None, st))"

definition ms_create_token :: "string \<Rightarrow> token_data \<Rightarrow> string option \<Rightarrow> (memory_state, unit) oaction" where
  "ms_create_token token_id data refresh_token st =
     (if (case refresh_token of Some r \<Rightarrow> map_of (ms_used_refresh_tokens st) r \<noteq> None | None \<Rightarrow> False)
      then (Inl (ServerError ''refresh token already in use''), st)
      else (Inr (), st\<lparr>ms_tokens := AList.update token_id (data, refresh_token) (ms_tokens st), ms_token_order := ms_token_order st @ [token_id]\<rparr>))"

definition ms_read_token :: "string \<Rightarrow> (memory_state, token_info option) oaction" where
  "ms_read_token token_id st = (Inr (ms_token_info st token_id), st)"

definition ms_find_token_by_refresh_token :: "string \<Rightarrow> (memory_state, token_info option) oaction" where
  "ms_find_token_by_refresh_token refresh_token st =
     (Inr (case map_of (ms_used_refresh_tokens st) refresh_token of
             Some token_id \<Rightarrow> ms_token_info st token_id
           | None \<Rightarrow>
               Option.bind (List.find (\<lambda>(_, _, refresh). refresh = Some refresh_token) (ms_tokens st)) (\<lambda>(id, _). ms_token_info st id)), st)"

definition ms_find_token_by_code :: "string \<Rightarrow> (memory_state, token_info option) oaction" where
  "ms_find_token_by_code code st =
     (Inr (Option.bind (List.find (\<lambda>(_, data, _). td_code data = Some code) (ms_tokens st)) (\<lambda>(id, _). ms_token_info st id)), st)"

definition rotated_data :: "nat \<Rightarrow> nat \<Rightarrow> string option \<Rightarrow> token_data \<Rightarrow> token_data" where
  "rotated_data updated_at expires_at scope data =
     (let d = data\<lparr>td_updated_at := updated_at, td_expires_at := expires_at\<rparr>
      in case scope of Some s \<Rightarrow> d\<lparr>td_scope := Some s\<rparr> | None \<Rightarrow> d)"

definition ms_rotate_token :: "string \<Rightarrow> string \<Rightarrow> string \<Rightarrow> nat \<Rightarrow> nat \<Rightarrow> string option \<Rightarrow> (memory_state, unit) oaction" where
  "ms_rotate_token token_id new_token_id new_refresh_token updated_at expires_at scope st =
     (case map_of (ms_tokens st) token_id of
        None \<Rightarrow> (Inl (ServerError ''unknown token''), st)
      | Some (data, refresh) \<Rightarrow>
          (let rewire = (\<lambda>id. if id = token_id then new_token_id else id);
               used = (case refresh of Some r \<Rightarrow> AList.update r new_token_id (ms_used_refresh_tokens st) | None \<Rightarrow> ms_used_refresh_tokens st)
           in (Inr (), st\<lparr>ms_tokens := AList.update new_token_id (rotated_data updated_at expires_at scope data, Some new_refresh_token)
                              (AList.delete token_id (ms_tokens st)),
                          ms_token_order := map rewire (ms_token_order st),
                          ms_used_refresh_tokens := map (\<lambda>(r, id). (r, rewire id)) used\<rparr>)))"

definition ms_delete_token :: "string \<Rightarrow> (memory_state, unit) oaction" where
  "ms_delete_token token_id st =
     (Inr (), st\<lparr>ms_tokens := AList.delete token_id (ms_tokens st), ms_token_order := filter (\<lambda>id. id \<noteq> token_id) (ms_token_order st),
                 ms_used_refresh_tokens := filter (\<lambda>(_, id). id \<noteq> token_id) (ms_used_refresh_tokens st)\<rparr>)"

definition ms_list_account_tokens :: "string \<Rightarrow> (memory_state, token_info list) oaction" where
  "ms_list_account_tokens did st =
     (Inr (filter (\<lambda>t. td_did (ti_data t) = did) (List.map_filter (ms_token_info st) (rev (ms_token_order st)))), st)"

definition ms_remove_tokens_by_did :: "string \<Rightarrow> (memory_state, unit) oaction" where
  "ms_remove_tokens_by_did did st =
     (let removed = map fst (filter (\<lambda>(_, data, _). td_did data = did) (ms_tokens st))
      in (Inr (), st\<lparr>ms_tokens := filter (\<lambda>(id, _). id \<notin> set removed) (ms_tokens st),
                     ms_token_order := filter (\<lambda>id. id \<notin> set removed) (ms_token_order st),
                     ms_used_refresh_tokens := filter (\<lambda>(_, id). id \<notin> set removed) (ms_used_refresh_tokens st)\<rparr>))"

definition ms_authenticate_account :: "string \<Rightarrow> string \<Rightarrow> (memory_state, account_info option) oaction" where
  "ms_authenticate_account identifier password st =
     (Inr (map_option fst (List.find (\<lambda>(account, stored). stored = password \<and> (ai_did account = identifier \<or> ai_handle account = Some identifier))
        (map snd (ms_accounts st)))), st)"

definition ms_get_account :: "string \<Rightarrow> (memory_state, account_info option) oaction" where
  "ms_get_account did st = (Inr (map_option fst (map_of (ms_accounts st) did)), st)"

definition ms_create_device :: "string \<Rightarrow> device_data \<Rightarrow> (memory_state, unit) oaction" where
  "ms_create_device device_id data st = (Inr (), st\<lparr>ms_devices := AList.update device_id data (ms_devices st)\<rparr>)"

definition ms_read_device :: "string \<Rightarrow> (memory_state, device_data option) oaction" where
  "ms_read_device device_id st = (Inr (map_of (ms_devices st) device_id), st)"

definition ms_update_device :: "string \<Rightarrow> device_data \<Rightarrow> (memory_state, unit) oaction" where
  "ms_update_device device_id data st =
     (if map_of (ms_devices st) device_id = None then (Inl (ServerError ''unknown device''), st)
      else (Inr (), st\<lparr>ms_devices := AList.update device_id data (ms_devices st)\<rparr>))"

definition ms_touch_device :: "string \<Rightarrow> string option \<Rightarrow> string \<Rightarrow> nat \<Rightarrow> (memory_state, unit) oaction" where
  "ms_touch_device device_id user_agent ip_address last_seen_at st =
     (case map_of (ms_devices st) device_id of
        None \<Rightarrow> (Inl (ServerError ''unknown device''), st)
      | Some device \<Rightarrow>
          (Inr (), st\<lparr>ms_devices := AList.update device_id
             (device\<lparr>dd_user_agent := user_agent, dd_ip_address := ip_address, dd_last_seen_at := last_seen_at\<rparr>) (ms_devices st)\<rparr>))"

definition ms_upsert :: "string \<Rightarrow> string \<Rightarrow> nat \<Rightarrow> (memory_state, unit) oaction" where
  "ms_upsert device_id did now st = (Inr (), ms_upsert_device_account device_id did now st)"

definition ms_authenticate_device_account :: "string \<Rightarrow> string \<Rightarrow> string \<Rightarrow> string \<Rightarrow> nat \<Rightarrow> (memory_state, unit) oaction" where
  "ms_authenticate_device_account device_id expected new did now =
     oa_bind (ms_rotate_device_session device_id expected new) (\<lambda>_. ms_upsert device_id did now)"

definition ms_get_device_account :: "string \<Rightarrow> string \<Rightarrow> (memory_state, device_account option) oaction" where
  "ms_get_device_account device_id did st = (Inr (ms_device_account st device_id did), st)"

definition ms_get_device_account_for_session :: "string \<Rightarrow> string \<Rightarrow> string \<Rightarrow> (memory_state, device_account option) oaction" where
  "ms_get_device_account_for_session device_id session_id did st =
     (Inr (case ms_device_account st device_id did of
             Some d \<Rightarrow> if dd_session_id (da_device d) = session_id then Some d else None
           | None \<Rightarrow> None), st)"

definition ms_list_device_accounts :: "string \<Rightarrow> (memory_state, device_account list) oaction" where
  "ms_list_device_accounts device_id st = (Inr (device_accounts_where st (\<lambda>d _. d = device_id)), st)"

definition ms_list_account_devices :: "string \<Rightarrow> (memory_state, device_account list) oaction" where
  "ms_list_account_devices did st = (Inr (device_accounts_where st (\<lambda>_ d. d = did)), st)"

definition ms_remove_device_account :: "string \<Rightarrow> string \<Rightarrow> (memory_state, unit) oaction" where
  "ms_remove_device_account device_id did st = (Inr (), st\<lparr>ms_device_accounts := AList.delete (device_id, did) (ms_device_accounts st)\<rparr>)"

definition ms_set_authorized_client :: "string \<Rightarrow> string \<Rightarrow> string \<Rightarrow> (memory_state, unit) oaction" where
  "ms_set_authorized_client did client_id scope st =
     (Inr (), st\<lparr>ms_authorized_clients := AList.update (did, client_id) scope (ms_authorized_clients st)\<rparr>)"

definition ms_get_authorized_client_scope :: "string \<Rightarrow> string \<Rightarrow> (memory_state, string option) oaction" where
  "ms_get_authorized_client_scope did client_id st = (Inr (map_of (ms_authorized_clients st) (did, client_id)), st)"

definition ms_delete_authorized_clients :: "string \<Rightarrow> (memory_state, unit) oaction" where
  "ms_delete_authorized_clients did st =
     (Inr (), st\<lparr>ms_authorized_clients := filter (\<lambda>((linked, _), _). linked \<noteq> did) (ms_authorized_clients st)\<rparr>)"

definition memory_oauth_store :: "memory_state oauth_store" where
  "memory_oauth_store =
     \<lparr>os_create_request = ms_create_request, os_read_request = ms_read_request, os_update_request = ms_update_request,
      os_delete_request = ms_delete_request, os_consume_request_code = ms_consume_request_code,
      os_create_token = ms_create_token, os_read_token = ms_read_token,
      os_find_token_by_refresh_token = ms_find_token_by_refresh_token, os_find_token_by_code = ms_find_token_by_code,
      os_rotate_token = ms_rotate_token, os_delete_token = ms_delete_token, os_list_account_tokens = ms_list_account_tokens,
      os_remove_tokens_by_did = ms_remove_tokens_by_did, os_authenticate_account = ms_authenticate_account, os_get_account = ms_get_account,
      os_create_device = ms_create_device, os_read_device = ms_read_device, os_update_device = ms_update_device,
      os_touch_device = ms_touch_device, os_rotate_device_session = ms_rotate_device_session, os_upsert_device_account = ms_upsert,
      os_authenticate_device_account = ms_authenticate_device_account, os_get_device_account = ms_get_device_account,
      os_get_device_account_for_session = ms_get_device_account_for_session, os_list_device_accounts = ms_list_device_accounts,
      os_list_account_devices = ms_list_account_devices, os_remove_device_account = ms_remove_device_account,
      os_set_authorized_client = ms_set_authorized_client, os_get_authorized_client_scope = ms_get_authorized_client_scope,
      os_delete_authorized_clients = ms_delete_authorized_clients\<rparr>"

end
