(* ===== verification/Oauth_Contract.thy ===== *)
theory Oauth_Contract
  imports Oauth_Store
begin

text \<open>
  What the provider relies on in its store. An \<open>oauth_view\<close> is what a store holds of authorization requests and tokens, as
  finite maps; the functions \<open>spec_*\<close> specify the operations on it. The locale \<open>oauth_store_contract\<close> asks a store
  to implement them, and is interpreted on the in-memory store here. \<open>Oauth_Refine\<close> relies on nothing else of a store.
\<close>

section \<open>Specification\<close>

record oauth_view =
  ov_requests :: "string \<rightharpoonup> request_data"
  ov_tokens :: "string \<rightharpoonup> token_data \<times> string option"
  ov_used :: "string \<rightharpoonup> string"

definition view_info :: "oauth_view \<Rightarrow> string \<Rightarrow> token_info option" where
  "view_info v token_id =
     map_option (\<lambda>(data, refresh). \<lparr>ti_token_id = token_id, ti_data = data, ti_current_refresh_token = refresh\<rparr>) (ov_tokens v token_id)"

definition spec_put_request :: "string \<Rightarrow> request_data \<Rightarrow> oauth_view \<Rightarrow> oauth_view" where
  "spec_put_request req data v = v\<lparr>ov_requests := (ov_requests v)(req \<mapsto> data)\<rparr>"

definition spec_drop_request :: "string \<Rightarrow> oauth_view \<Rightarrow> oauth_view" where
  "spec_drop_request req v = v\<lparr>ov_requests := (ov_requests v)(req := None)\<rparr>"

definition spec_create_token :: "string \<Rightarrow> token_data \<Rightarrow> string option \<Rightarrow> oauth_view \<Rightarrow> oauth_view" where
  "spec_create_token token_id data refresh v = v\<lparr>ov_tokens := (ov_tokens v)(token_id \<mapsto> (data, refresh))\<rparr>"

definition spec_rotate_token :: "string \<Rightarrow> string \<Rightarrow> string \<Rightarrow> nat \<Rightarrow> nat \<Rightarrow> string option \<Rightarrow> oauth_view \<Rightarrow> oauth_view" where
  "spec_rotate_token token_id new_id new_refresh updated_at expires_at scope v =
     (case ov_tokens v token_id of
        None \<Rightarrow> v
      | Some (data, refresh) \<Rightarrow>
          v\<lparr>ov_tokens := (ov_tokens v)(token_id := None, new_id \<mapsto> (rotated_data updated_at expires_at scope data, Some new_refresh)),
            ov_used := (\<lambda>r. if refresh = Some r then Some new_id
                            else map_option (\<lambda>t. if t = token_id then new_id else t) (ov_used v r))\<rparr>)"

definition spec_delete_tokens :: "(string \<Rightarrow> token_data \<Rightarrow> bool) \<Rightarrow> oauth_view \<Rightarrow> oauth_view" where
  "spec_delete_tokens gone v =
     (let kept = (\<lambda>t. case ov_tokens v t of Some (d, r) \<Rightarrow> if gone t d then None else Some (d, r) | None \<Rightarrow> None)
      in v\<lparr>ov_tokens := kept, ov_used := (\<lambda>r. case ov_used v r of Some t \<Rightarrow> if kept t = None then None else Some t | None \<Rightarrow> None)\<rparr>)"

definition issued_refresh :: "oauth_view \<Rightarrow> string set" where
  "issued_refresh v = dom (ov_used v) \<union> {r. \<exists>t d. ov_tokens v t = Some (d, Some r)}"

definition request_codes :: "oauth_view \<Rightarrow> string set" where
  "request_codes v = {c. \<exists>q d. ov_requests v q = Some d \<and> rd_code d = Some c}"

definition token_codes :: "oauth_view \<Rightarrow> string set" where
  "token_codes v = {c. \<exists>t d r. ov_tokens v t = Some (d, r) \<and> td_code d = Some c}"

text \<open>No code stands in two requests, no current refresh token in two sessions or among the used ones, and a used refresh
  token belongs to a session that is there.\<close>

definition view_ok :: "oauth_view \<Rightarrow> bool" where
  "view_ok v \<longleftrightarrow>
     (\<forall>q q' d d' c. ov_requests v q = Some d \<longrightarrow> ov_requests v q' = Some d' \<longrightarrow> rd_code d = Some c \<longrightarrow> rd_code d' = Some c \<longrightarrow> q = q') \<and>
     (\<forall>t t' d d' r. ov_tokens v t = Some (d, Some r) \<longrightarrow> ov_tokens v t' = Some (d', Some r) \<longrightarrow> t = t') \<and>
     (\<forall>t d r. ov_tokens v t = Some (d, Some r) \<longrightarrow> ov_used v r = None) \<and>
     (\<forall>r t. ov_used v r = Some t \<longrightarrow> ov_tokens v t \<noteq> None)"

lemma view_okD:
  assumes "view_ok v"
  shows "ov_requests v q = Some d \<Longrightarrow> ov_requests v q' = Some d' \<Longrightarrow> rd_code d = Some c \<Longrightarrow> rd_code d' = Some c \<Longrightarrow> q = q'"
    "ov_tokens v t = Some (e, Some r) \<Longrightarrow> ov_tokens v t' = Some (e', Some r) \<Longrightarrow> t = t'"
    "ov_tokens v t = Some (e, Some r) \<Longrightarrow> ov_used v r = None"
    "ov_used v r = Some t \<Longrightarrow> ov_tokens v t \<noteq> None"
  using assms unfolding view_ok_def by blast+

section \<open>The interface\<close>

definition reads :: "('s \<Rightarrow> bool) \<Rightarrow> ('s, 'a) oaction \<Rightarrow> bool" where
  "reads ok m \<longleftrightarrow> (\<forall>s. ok s \<longrightarrow> snd (m s) = s)"

text \<open>An operation on what the view does not show.\<close>

definition beside :: "('s \<Rightarrow> bool) \<Rightarrow> ('s \<Rightarrow> oauth_view) \<Rightarrow> ('s, 'a) oaction \<Rightarrow> bool" where
  "beside ok view m \<longleftrightarrow> (\<forall>s. ok s \<longrightarrow> ok (snd (m s)) \<and> view (snd (m s)) = view s)"

locale oauth_store_contract =
  fixes S :: "'s oauth_store" and ok :: "'s \<Rightarrow> bool" and view :: "'s \<Rightarrow> oauth_view"
  assumes read_request: "ok s \<Longrightarrow> os_read_request S req s = (Inr (ov_requests (view s) req), s)"
    and create_request: "ok s \<Longrightarrow> ov_requests (view s) req = None \<Longrightarrow> rd_code data = None \<Longrightarrow>
      \<exists>s'. os_create_request S req data s = (Inr (), s') \<and> ok s' \<and> view s' = spec_put_request req data (view s)"
    and update_request: "ok s \<Longrightarrow> ov_requests (view s) req = Some old \<Longrightarrow> rd_client_id data = rd_client_id old \<Longrightarrow>
      rd_code data = rd_code old \<or> rd_code data = Some c \<and> c \<notin> request_codes (view s) \<Longrightarrow>
      \<exists>s'. os_update_request S req data s = (Inr (), s') \<and> ok s' \<and> view s' = spec_put_request req data (view s)"
    and delete_request: "ok s \<Longrightarrow> \<exists>s'. os_delete_request S req s = (Inr (), s') \<and> ok s' \<and> view s' = spec_drop_request req (view s)"
    and consume_request_code: "ok s \<Longrightarrow> view_ok (view s) \<Longrightarrow>
      os_consume_request_code S code s = (Inr None, s) \<and> code \<notin> request_codes (view s) \<or>
      (\<exists>req data s'. os_consume_request_code S code s = (Inr (Some (req, data)), s') \<and> ok s' \<and>
         ov_requests (view s) req = Some data \<and> rd_code data = Some code \<and> view s' = spec_drop_request req (view s))"
    and create_token: "ok s \<Longrightarrow> ov_tokens (view s) token_id = None \<Longrightarrow> \<forall>r. refresh = Some r \<longrightarrow> r \<notin> issued_refresh (view s) \<Longrightarrow>
      \<forall>c. td_code td = Some c \<longrightarrow> c \<notin> token_codes (view s) \<Longrightarrow> td_scope td \<noteq> None \<Longrightarrow>
      \<exists>s'. os_create_token S token_id td refresh s = (Inr (), s') \<and> ok s' \<and> view s' = spec_create_token token_id td refresh (view s)"
    and read_token: "ok s \<Longrightarrow> os_read_token S token_id s = (Inr (view_info (view s) token_id), s)"
    and find_token_by_refresh_token: "ok s \<Longrightarrow> view_ok (view s) \<Longrightarrow>
      \<exists>found. os_find_token_by_refresh_token S r s = (Inr found, s) \<and>
        (case found of
           Some ti \<Rightarrow> view_info (view s) (ti_token_id ti) = Some ti \<and>
             (ov_used (view s) r = Some (ti_token_id ti) \<or> ti_current_refresh_token ti = Some r)
         | None \<Rightarrow> r \<notin> issued_refresh (view s))"
    and find_token_by_code: "ok s \<Longrightarrow>
      \<exists>found. os_find_token_by_code S code s = (Inr found, s) \<and>
        (case found of
           Some ti \<Rightarrow> view_info (view s) (ti_token_id ti) = Some ti \<and> td_code (ti_data ti) = Some code
         | None \<Rightarrow> code \<notin> token_codes (view s))"
    and rotate_token: "ok s \<Longrightarrow> view_ok (view s) \<Longrightarrow> ov_tokens (view s) token_id \<noteq> None \<Longrightarrow> ov_tokens (view s) new_id = None \<Longrightarrow>
      new_refresh \<notin> issued_refresh (view s) \<Longrightarrow>
      \<exists>s'. os_rotate_token S token_id new_id new_refresh updated_at expires_at scope s = (Inr (), s') \<and> ok s' \<and>
        view s' = spec_rotate_token token_id new_id new_refresh updated_at expires_at scope (view s)"
    and delete_token: "ok s \<Longrightarrow> view_ok (view s) \<Longrightarrow>
      \<exists>s'. os_delete_token S token_id s = (Inr (), s') \<and> ok s' \<and> view s' = spec_delete_tokens (\<lambda>t _. t = token_id) (view s)"
    and remove_tokens_by_did: "ok s \<Longrightarrow> view_ok (view s) \<Longrightarrow>
      \<exists>s'. os_remove_tokens_by_did S did s = (Inr (), s') \<and> ok s' \<and> view s' = spec_delete_tokens (\<lambda>_ d. td_did d = did) (view s)"
    and list_account_tokens: "reads ok (os_list_account_tokens S did)"
    and authenticate_account: "reads ok (os_authenticate_account S identifier password)"
    and get_account: "reads ok (os_get_account S did)"
    and list_device_accounts: "reads ok (os_list_device_accounts S device)"
    and get_device_account_for_session: "reads ok (os_get_device_account_for_session S device session did)"
    and get_authorized_client_scope: "reads ok (os_get_authorized_client_scope S did client)"
    and authenticate_device_account: "beside ok view (os_authenticate_device_account S device expected new did now)"
    and remove_device_account: "beside ok view (os_remove_device_account S device did)"
    and set_authorized_client: "beside ok view (os_set_authorized_client S did client scope')"
begin

text \<open>An operation that only reads leaves the view as it is.\<close>

lemma reads_beside: "reads ok m \<Longrightarrow> beside ok view m"
  by (simp add: reads_def beside_def)

lemmas all_beside = list_account_tokens[THEN reads_beside] authenticate_account[THEN reads_beside] get_account[THEN reads_beside]
  list_device_accounts[THEN reads_beside] get_device_account_for_session[THEN reads_beside] get_authorized_client_scope[THEN reads_beside]
  authenticate_device_account remove_device_account set_authorized_client

end

section \<open>The in-memory store\<close>

definition memory_ok :: "memory_state \<Rightarrow> bool" where
  "memory_ok st \<longleftrightarrow> distinct (map fst (ms_requests st)) \<and> distinct (map fst (ms_tokens st)) \<and> distinct (map fst (ms_used_refresh_tokens st))"

definition memory_view :: "memory_state \<Rightarrow> oauth_view" where
  "memory_view st =
     \<lparr>ov_requests = map_of (ms_requests st), ov_tokens = map_of (ms_tokens st), ov_used = map_of (ms_used_refresh_tokens st)\<rparr>"

lemma find_entry:
  assumes "distinct (map fst xs)"
  shows "case List.find (\<lambda>(k, v). P v) xs of None \<Rightarrow> \<forall>k v. map_of xs k = Some v \<longrightarrow> \<not> P v | Some (k, v) \<Rightarrow> map_of xs k = Some v \<and> P v"
proof (cases "List.find (\<lambda>(k, v). P v) xs")
  case None
  then have "\<not> P v" if "(k, v) \<in> set xs" for k v using that by (auto simp: find_None_iff)
  then show ?thesis using None by (auto dest: map_of_SomeD)
next
  case (Some kv)
  obtain k v where kv: "kv = (k, v)" by (cases kv)
  then have "(k, v) \<in> set xs" "P v" using Some by (auto simp: find_Some_iff in_set_conv_nth)
  then show ?thesis using Some kv assms by simp
qed

lemmas memory_ops = memory_oauth_store_def ms_create_request_def ms_read_request_def ms_update_request_def ms_delete_request_def
  ms_consume_request_code_def ms_create_token_def ms_read_token_def ms_find_token_by_refresh_token_def ms_find_token_by_code_def
  ms_delete_token_def ms_list_account_tokens_def ms_authenticate_account_def ms_get_account_def ms_list_device_accounts_def
  ms_get_device_account_for_session_def ms_get_authorized_client_scope_def ms_remove_device_account_def ms_set_authorized_client_def

lemma memory_view_fields [simp]:
  "ov_requests (memory_view st) = map_of (ms_requests st)" "ov_tokens (memory_view st) = map_of (ms_tokens st)"
  "ov_used (memory_view st) = map_of (ms_used_refresh_tokens st)" "view_info (memory_view st) = ms_token_info st"
  by (auto simp: memory_view_def view_info_def ms_token_info_def)

lemma oauth_view_eqI:
  "ov_requests v = ov_requests w \<Longrightarrow> ov_tokens v = ov_tokens w \<Longrightarrow> ov_used v = ov_used w \<Longrightarrow> v = (w :: oauth_view)"
  by simp

lemma delete_conv: "map_of (AList.delete k xs) = (map_of xs)(k := None)"
  by (rule AList.delete_conv')

lemma update_conv: "map_of (AList.update k v xs) = (map_of xs)(k \<mapsto> v)"
  by (rule AList.update_conv')

lemma map_of_filter_value:
  "distinct (map fst xs) \<Longrightarrow> map_of (filter (\<lambda>(k, v). P k v) xs) k = (case map_of xs k of Some v \<Rightarrow> if P k v then Some v else None | None \<Rightarrow> None)"
  by (induction xs) (auto simp: map_of_eq_None_iff image_iff split: option.splits)

lemma distinct_filter_keys: "distinct (map fst xs) \<Longrightarrow> distinct (map fst (filter P xs))"
  by (induction xs) auto

lemma memory_consume:
  assumes "memory_ok s"
  shows "ms_consume_request_code code s = (Inr None, s) \<and> code \<notin> request_codes (memory_view s) \<or>
    (\<exists>req data s'. ms_consume_request_code code s = (Inr (Some (req, data)), s') \<and> memory_ok s' \<and>
       map_of (ms_requests s) req = Some data \<and> rd_code data = Some code \<and> memory_view s' = spec_drop_request req (memory_view s))"
proof -
  have "distinct (map fst (ms_requests s))" using assms by (simp add: memory_ok_def)
  from find_entry[OF this, of "\<lambda>d. rd_code d = Some code"] show ?thesis
  proof (cases "List.find (\<lambda>(_, data). rd_code data = Some code) (ms_requests s)")
    case (Some qd)
    with find_entry[OF \<open>distinct _\<close>, of "\<lambda>d. rd_code d = Some code"] show ?thesis using assms
      by (cases qd) (auto simp: ms_consume_request_code_def memory_ok_def AList.distinct_delete spec_drop_request_def memory_view_def delete_conv)
  qed (auto simp: ms_consume_request_code_def request_codes_def)
qed

lemma memory_find_refresh:
  assumes "memory_ok s" "view_ok (memory_view s)"
  shows "\<exists>found. ms_find_token_by_refresh_token r s = (Inr found, s) \<and>
    (case found of
       Some ti \<Rightarrow> ms_token_info s (ti_token_id ti) = Some ti \<and> (map_of (ms_used_refresh_tokens s) r = Some (ti_token_id ti) \<or> ti_current_refresh_token ti = Some r)
     | None \<Rightarrow> r \<notin> issued_refresh (memory_view s))"
proof (cases "map_of (ms_used_refresh_tokens s) r")
  case None
  have d: "distinct (map fst (ms_tokens s))" using assms by (simp add: memory_ok_def)
  show ?thesis
  proof (cases "List.find (\<lambda>(_, _, refresh). refresh = Some r) (ms_tokens s)")
    case none: None
    then show ?thesis using None find_entry[OF d, of "\<lambda>(_, refresh). refresh = Some r"]
      by (auto simp: ms_find_token_by_refresh_token_def issued_refresh_def)
  next
    case (Some e)
    obtain t td rf where e: "e = (t, td, rf)" by (cases e)
    then show ?thesis using None Some find_entry[OF d, of "\<lambda>(_, refresh). refresh = Some r"]
      by (auto simp: ms_find_token_by_refresh_token_def ms_token_info_def)
  qed
next
  case (Some t)
  then obtain e where "map_of (ms_tokens s) t = Some e" using view_okD(4)[OF assms(2), of r t] by auto
  then show ?thesis using Some by (cases e) (auto simp: ms_find_token_by_refresh_token_def ms_token_info_def)
qed

lemma memory_find_code:
  assumes "memory_ok s"
  shows "\<exists>found. ms_find_token_by_code code s = (Inr found, s) \<and>
    (case found of
       Some ti \<Rightarrow> ms_token_info s (ti_token_id ti) = Some ti \<and> td_code (ti_data ti) = Some code
     | None \<Rightarrow> code \<notin> token_codes (memory_view s))"
proof -
  have d: "distinct (map fst (ms_tokens s))" using assms by (simp add: memory_ok_def)
  show ?thesis
  proof (cases "List.find (\<lambda>(_, data, _). td_code data = Some code) (ms_tokens s)")
    case None
    then show ?thesis using find_entry[OF d, of "\<lambda>(data, _). td_code data = Some code"]
      by (auto simp: ms_find_token_by_code_def token_codes_def)
  next
    case (Some e)
    obtain t td rf where e: "e = (t, td, rf)" by (cases e)
    then show ?thesis using Some find_entry[OF d, of "\<lambda>(data, _). td_code data = Some code"]
      by (auto simp: ms_find_token_by_code_def ms_token_info_def)
  qed
qed

lemma map_of_map_values: "map_of (map (\<lambda>(r, t). (r, f t)) xs) = (\<lambda>r. map_option f (map_of xs r))"
  by (induction xs) auto

lemma map_fst_values: "map (fst \<circ> (\<lambda>(r, t). (r, f t))) xs = map fst xs"
  by (induction xs) auto

lemma memory_rotate:
  assumes "memory_ok s" "map_of (ms_tokens s) t \<noteq> None" "map_of (ms_tokens s) t' = None"
  shows "\<exists>s'. ms_rotate_token t t' r u e sc s = (Inr (), s') \<and> memory_ok s' \<and> memory_view s' = spec_rotate_token t t' r u e sc (memory_view s)"
proof -
  obtain d rf where e: "map_of (ms_tokens s) t = Some (d, rf)" using assms(2) by auto
  let ?f = "\<lambda>x. if x = t then t' else x"
  let ?us = "case rf of Some r \<Rightarrow> AList.update r t' (ms_used_refresh_tokens s) | None \<Rightarrow> ms_used_refresh_tokens s"
  let ?s = "s\<lparr>ms_tokens := AList.update t' (rotated_data u e sc d, Some r) (AList.delete t (ms_tokens s)),
    ms_token_order := map ?f (ms_token_order s), ms_used_refresh_tokens := map (\<lambda>(r, x). (r, ?f x)) ?us\<rparr>"
  have "ms_rotate_token t t' r u e sc s = (Inr (), ?s)" using e by (simp add: ms_rotate_token_def Let_def)
  moreover have "distinct (map fst ?us)" using assms(1) by (simp add: memory_ok_def AList.distinct_update split: option.split)
  then have "memory_ok ?s" using assms(1) by (simp add: memory_ok_def AList.distinct_update AList.distinct_delete map_fst_values)
  moreover have "memory_view ?s = spec_rotate_token t t' r u e sc (memory_view s)"
    by (rule oauth_view_eqI) (auto simp: spec_rotate_token_def e update_conv delete_conv map_of_map_values split: option.splits)
  ultimately show ?thesis by blast
qed

lemma memory_delete:
  assumes "memory_ok s" "view_ok (memory_view s)"
    "ts = filter (\<lambda>(t, d, _). \<not> gone t d) (ms_tokens s)"
    "us = filter (\<lambda>(_, t). map_of ts t \<noteq> None) (ms_used_refresh_tokens s)"
  shows "memory_ok (s\<lparr>ms_tokens := ts, ms_token_order := ord, ms_used_refresh_tokens := us\<rparr>) \<and>
    memory_view (s\<lparr>ms_tokens := ts, ms_token_order := ord, ms_used_refresh_tokens := us\<rparr>) = spec_delete_tokens gone (memory_view s)"
proof -
  have d: "distinct (map fst (ms_tokens s))" "distinct (map fst (ms_used_refresh_tokens s))" using assms(1) by (simp_all add: memory_ok_def)
  have ts: "map_of ts t = (case map_of (ms_tokens s) t of Some (d, r) \<Rightarrow> if gone t d then None else Some (d, r) | None \<Rightarrow> None)" for t
    using map_of_filter_value[OF d(1), of "\<lambda>t (d, _). \<not> gone t d" t]
    by (auto simp: assms(3) case_prod_beta' split: option.splits)
  have us: "map_of us r = (case map_of (ms_used_refresh_tokens s) r of Some t \<Rightarrow> if map_of ts t = None then None else Some t | None \<Rightarrow> None)" for r
    using map_of_filter_value[OF d(2), of "\<lambda>_ t. map_of ts t \<noteq> None" r] by (auto simp: assms(4) split: option.splits)
  have "distinct (map fst ts)" "distinct (map fst us)" using d by (simp_all add: assms(3,4) distinct_filter_keys)
  moreover have kept: "map_of ts = (\<lambda>t. case map_of (ms_tokens s) t of Some (d, r) \<Rightarrow> if gone t d then None else Some (d, r) | None \<Rightarrow> None)"
    using ts by blast
  ultimately have "memory_ok (s\<lparr>ms_tokens := ts, ms_token_order := ord, ms_used_refresh_tokens := us\<rparr>)" using assms(1) by (simp add: memory_ok_def)
  moreover have "memory_view (s\<lparr>ms_tokens := ts, ms_token_order := ord, ms_used_refresh_tokens := us\<rparr>) = spec_delete_tokens gone (memory_view s)"
    by (rule oauth_view_eqI) (simp_all add: spec_delete_tokens_def us kept[symmetric] Let_def fun_eq_iff)
  ultimately show ?thesis by blast
qed

lemma memory_create_token:
  assumes "memory_ok s" "\<forall>r. refresh = Some r \<longrightarrow> r \<notin> issued_refresh (memory_view s)"
  shows "\<exists>s'. ms_create_token t d refresh s = (Inr (), s') \<and> memory_ok s' \<and> memory_view s' = spec_create_token t d refresh (memory_view s)"
proof -
  have "map_of (ms_used_refresh_tokens s) r = None" if "refresh = Some r" for r using assms(2) that by (auto simp: issued_refresh_def domIff)
  then show ?thesis using assms(1)
    by (auto simp: ms_create_token_def memory_ok_def AList.distinct_update spec_create_token_def memory_view_def update_conv split: option.splits)
qed

text \<open>The used refresh tokens that stay are those of a session that stays.\<close>

lemma memory_used_kept:
  assumes "memory_ok s" "view_ok (memory_view s)" "\<And>t d r. map_of (ms_tokens s) t = Some (d, r) \<Longrightarrow> gone t d \<longleftrightarrow> t \<in> removed"
  shows "filter (\<lambda>(_, t). map_of (filter (\<lambda>(t, d, _). \<not> gone t d) (ms_tokens s)) t \<noteq> None) (ms_used_refresh_tokens s) =
    filter (\<lambda>(_, t). t \<notin> removed) (ms_used_refresh_tokens s)"
proof (rule filter_cong[OF refl], clarify)
  fix r t assume "(r, t) \<in> set (ms_used_refresh_tokens s)"
  then have "ov_used (memory_view s) r = Some t" using assms(1) by (simp add: memory_ok_def)
  then obtain d rf where t: "map_of (ms_tokens s) t = Some (d, rf)" using view_okD(4)[OF assms(2), of r t] by auto
  have "distinct (map fst (ms_tokens s))" using assms(1) by (simp add: memory_ok_def)
  from map_of_filter_value[OF this, of "\<lambda>t (d, _). \<not> gone t d" t] t assms(3)[OF t]
  show "(map_of (filter (\<lambda>(t, d, _). \<not> gone t d) (ms_tokens s)) t \<noteq> None) = (t \<notin> removed)" by (simp add: case_prod_beta')
qed

lemma memory_delete_token:
  assumes "memory_ok s" "view_ok (memory_view s)"
  shows "\<exists>s'. ms_delete_token t s = (Inr (), s') \<and> memory_ok s' \<and> memory_view s' = spec_delete_tokens (\<lambda>t' _. t' = t) (memory_view s)"
proof -
  let ?ts = "filter (\<lambda>(t', d, _). \<not> t' = t) (ms_tokens s)"
  have "AList.delete t (ms_tokens s) = ?ts" by (auto simp: AList.delete_eq intro!: filter_cong)
  moreover have "filter (\<lambda>(_, t'). t' \<noteq> t) (ms_used_refresh_tokens s) = filter (\<lambda>(_, t'). map_of ?ts t' \<noteq> None) (ms_used_refresh_tokens s)"
    using memory_used_kept[OF assms, of "\<lambda>t' _. t' = t" "{t}"] by simp
  ultimately show ?thesis using memory_delete[OF assms refl refl, of "\<lambda>t' _. t' = t"] by (simp add: ms_delete_token_def)
qed

lemma memory_remove_did:
  assumes "memory_ok s" "view_ok (memory_view s)"
  shows "\<exists>s'. ms_remove_tokens_by_did did s = (Inr (), s') \<and> memory_ok s' \<and>
    memory_view s' = spec_delete_tokens (\<lambda>_ d. td_did d = did) (memory_view s)"
proof -
  let ?removed = "set (map fst (filter (\<lambda>(_, data, _). td_did data = did) (ms_tokens s)))"
  have d: "distinct (map fst (ms_tokens s))" using assms(1) by (simp add: memory_ok_def)
  have mem: "t \<in> ?removed \<longleftrightarrow> td_did e = did" if "(t, e, r) \<in> set (ms_tokens s)" for t e r
    using that by (force dest: eq_key_imp_eq_value[OF d])
  have "filter (\<lambda>(t, _). t \<notin> ?removed) (ms_tokens s) = filter (\<lambda>(_, d, _). \<not> td_did d = did) (ms_tokens s)"
    by (rule filter_cong[OF refl]) (use mem in auto)
  moreover have "filter (\<lambda>(_, t). t \<notin> ?removed) (ms_used_refresh_tokens s) =
      filter (\<lambda>(_, t). map_of (filter (\<lambda>(_, d, _). \<not> td_did d = did) (ms_tokens s)) t \<noteq> None) (ms_used_refresh_tokens s)"
    by (rule memory_used_kept[OF assms, of "\<lambda>_ d. td_did d = did" ?removed, symmetric]) (use mem[OF map_of_SomeD] in blast)
  ultimately show ?thesis
    using memory_delete[OF assms refl refl, of "\<lambda>_ d. td_did d = did"] by (simp add: ms_remove_tokens_by_did_def Let_def)
qed

lemma memory_frame [simp]:
  "memory_ok (s\<lparr>ms_devices := x\<rparr>) = memory_ok s" "memory_view (s\<lparr>ms_devices := x\<rparr>) = memory_view s"
  "memory_ok (s\<lparr>ms_device_accounts := y\<rparr>) = memory_ok s" "memory_view (s\<lparr>ms_device_accounts := y\<rparr>) = memory_view s"
  "memory_ok (s\<lparr>ms_authorized_clients := z\<rparr>) = memory_ok s" "memory_view (s\<lparr>ms_authorized_clients := z\<rparr>) = memory_view s"
  by (simp_all add: memory_ok_def memory_view_def)

lemma memory_authenticate_device: "beside memory_ok memory_view (ms_authenticate_device_account device expected new did now)"
  by (simp add: beside_def ms_authenticate_device_account_def ms_rotate_device_session_def ms_upsert_def ms_upsert_device_account_def oa_bind_def
      split: option.splits)

interpretation memory: oauth_store_contract memory_oauth_store memory_ok memory_view
proof unfold_locales
  fix s req assume ok: "memory_ok s"
  show "os_read_request memory_oauth_store req s = (Inr (ov_requests (memory_view s) req), s)" by (simp add: memory_ops)
  show "\<exists>s'. os_create_request memory_oauth_store req data s = (Inr (), s') \<and> memory_ok s' \<and> memory_view s' = spec_put_request req data (memory_view s)" for data
    using ok by (simp add: memory_ops memory_ok_def AList.distinct_update spec_put_request_def memory_view_def update_conv)
  show "\<exists>s'. os_delete_request memory_oauth_store req s = (Inr (), s') \<and> memory_ok s' \<and> memory_view s' = spec_drop_request req (memory_view s)"
    using ok by (simp add: memory_ops memory_ok_def AList.distinct_delete spec_drop_request_def memory_view_def delete_conv)
  show "\<exists>s'. os_update_request memory_oauth_store req data s = (Inr (), s') \<and> memory_ok s' \<and> memory_view s' = spec_put_request req data (memory_view s)"
    if "ov_requests (memory_view s) req = Some old" for data old
    using ok that by (simp add: memory_ops memory_ok_def AList.distinct_update spec_put_request_def memory_view_def update_conv)
next
  have ops: "os_find_token_by_refresh_token memory_oauth_store = ms_find_token_by_refresh_token"
    "os_find_token_by_code memory_oauth_store = ms_find_token_by_code" by (simp_all add: memory_oauth_store_def)
  fix s assume ok: "memory_ok s"
  show "\<exists>found. os_find_token_by_refresh_token memory_oauth_store r s = (Inr found, s) \<and>
      (case found of
         Some ti \<Rightarrow> view_info (memory_view s) (ti_token_id ti) = Some ti \<and>
           (ov_used (memory_view s) r = Some (ti_token_id ti) \<or> ti_current_refresh_token ti = Some r)
       | None \<Rightarrow> r \<notin> issued_refresh (memory_view s))" if "view_ok (memory_view s)" for r
    unfolding ops memory_view_fields by (rule memory_find_refresh[OF ok that])
  show "\<exists>found. os_find_token_by_code memory_oauth_store code s = (Inr found, s) \<and>
      (case found of
         Some ti \<Rightarrow> view_info (memory_view s) (ti_token_id ti) = Some ti \<and> td_code (ti_data ti) = Some code
       | None \<Rightarrow> code \<notin> token_codes (memory_view s))" for code
    unfolding ops memory_view_fields by (rule memory_find_code[OF ok])
qed (use memory_consume memory_create_token memory_rotate memory_delete_token memory_remove_did
        memory_authenticate_device in
      \<open>simp_all add: memory_oauth_store_def reads_def beside_def ms_read_token_def ms_list_account_tokens_def ms_authenticate_account_def ms_get_account_def
        ms_list_device_accounts_def ms_get_device_account_for_session_def ms_get_authorized_client_scope_def
        ms_remove_device_account_def ms_set_authorized_client_def\<close>)

end
