(* ===== verification/Oauth_Sessions.thy ===== *)
theory Oauth_Sessions
  imports Oauth_Contract
begin

text \<open>
  The sessions of the OAuth provider as a state machine. A state is what the store holds and the set of the identifiers
  that were drawn so far; a step is what one operation of the provider may do to it. The invariant and the facts that no
  step undoes are proved here, once, and \<open>Oauth_Refine\<close> shows that the operations of the provider are such steps.
\<close>

section \<open>The machine\<close>

type_synonym session_state = "oauth_view \<times> string set"

inductive session_step :: "(string \<Rightarrow> bool) \<Rightarrow> session_state \<Rightarrow> session_state \<Rightarrow> bool"
  for trusted :: "string \<Rightarrow> bool" where
  stay: "session_step trusted (v, K) (v, K \<union> D)"
| push: "q \<notin> K \<Longrightarrow> rd_code d = None \<Longrightarrow> session_step trusted (v, K) (spec_put_request q d v, insert q K)"
| touch: "ov_requests v q = Some old \<Longrightarrow> rd_code d = rd_code old \<Longrightarrow> session_step trusted (v, K) (spec_put_request q d v, K)"
| grant: "ov_requests v q = Some old \<Longrightarrow> rd_code d = Some c \<Longrightarrow> c \<notin> K \<Longrightarrow>
    session_step trusted (v, K) (spec_put_request q d v, insert c K)"
| withdraw: "session_step trusted (v, K) (spec_drop_request q v, K)"
| redeem: "ov_requests v q = Some d \<Longrightarrow> rd_code d = Some c \<Longrightarrow> t \<notin> K \<Longrightarrow> set_option refresh \<inter> K = {} \<Longrightarrow>
    td_code td = Some c \<Longrightarrow> td_updated_at td = td_created_at td \<Longrightarrow> td_expires_at td = td_created_at td + TOKEN_MAX_AGE \<Longrightarrow>
    session_step trusted (v, K) (spec_create_token t td refresh (spec_drop_request q v), insert t (set_option refresh \<union> K))"
| rotate: "ov_tokens v t = Some (d, refresh) \<Longrightarrow> validate_refresh_lifetimes d now (trusted (td_client_id d)) = Inr () \<Longrightarrow>
    t' \<notin> K \<Longrightarrow> r' \<notin> K \<Longrightarrow>
    session_step trusted (v, K) (spec_rotate_token t t' r' now (now + TOKEN_MAX_AGE) scope v, insert t' (insert r' K))"
| close: "session_step trusted (v, K) (spec_delete_tokens gone v, K)"

definition session_steps :: "(string \<Rightarrow> bool) \<Rightarrow> session_state \<Rightarrow> session_state \<Rightarrow> bool" where
  "session_steps trusted = (session_step trusted)\<^sup>*\<^sup>*"

lemma session_steps_refl [intro]: "session_steps trusted \<sigma> \<sigma>"
  by (simp add: session_steps_def)

lemma session_steps_trans: "session_steps trusted \<sigma> \<sigma>' \<Longrightarrow> session_steps trusted \<sigma>' \<sigma>'' \<Longrightarrow> session_steps trusted \<sigma> \<sigma>''"
  by (simp add: session_steps_def)

lemma session_steps_step: "session_steps trusted \<sigma> \<sigma>' \<Longrightarrow> session_step trusted \<sigma>' \<sigma>'' \<Longrightarrow> session_steps trusted \<sigma> \<sigma>''"
  by (simp add: session_steps_def)

lemma session_steps_one: "session_step trusted \<sigma> \<sigma>' \<Longrightarrow> session_steps trusted \<sigma> \<sigma>'"
  by (simp add: session_steps_def)

text \<open>A property that every step keeps is kept by every sequence of steps.\<close>

lemma session_steps_keep:
  assumes "session_steps trusted \<sigma> \<sigma>'" "Q \<sigma>" "\<And>\<tau> \<tau>'. session_step trusted \<tau> \<tau>' \<Longrightarrow> Q \<tau> \<Longrightarrow> Q \<tau>'"
  shows "Q \<sigma>'"
  using assms(1,2) unfolding session_steps_def by (induction rule: rtranclp_induct) (auto intro: assms(3))

section \<open>What the specifications do\<close>

named_theorems spec_views \<open>the fields of a view after an operation\<close>

lemma spec_put_view [spec_views]:
  "ov_requests (spec_put_request q d v) = (ov_requests v)(q \<mapsto> d)" "ov_tokens (spec_put_request q d v) = ov_tokens v"
  "ov_used (spec_put_request q d v) = ov_used v"
  by (simp_all add: spec_put_request_def)

lemma spec_drop_view [spec_views]:
  "ov_requests (spec_drop_request q v) = (ov_requests v)(q := None)" "ov_tokens (spec_drop_request q v) = ov_tokens v"
  "ov_used (spec_drop_request q v) = ov_used v"
  by (simp_all add: spec_drop_request_def)

lemma spec_create_view [spec_views]:
  "ov_requests (spec_create_token t d r v) = ov_requests v" "ov_tokens (spec_create_token t d r v) = (ov_tokens v)(t \<mapsto> (d, r))"
  "ov_used (spec_create_token t d r v) = ov_used v"
  by (simp_all add: spec_create_token_def)

lemma spec_rotate_view:
  assumes "ov_tokens v t = Some (d, refresh)"
  shows "ov_requests (spec_rotate_token t t' r' u e sc v) = ov_requests v"
    "ov_tokens (spec_rotate_token t t' r' u e sc v) = (ov_tokens v)(t := None, t' \<mapsto> (rotated_data u e sc d, Some r'))"
    "ov_used (spec_rotate_token t t' r' u e sc v) =
       (\<lambda>r. if refresh = Some r then Some t' else map_option (\<lambda>x. if x = t then t' else x) (ov_used v r))"
  using assms by (simp_all add: spec_rotate_token_def)

lemma spec_delete_view [spec_views]:
  "ov_requests (spec_delete_tokens gone v) = ov_requests v"
  "ov_tokens (spec_delete_tokens gone v) t = Some (d, r) \<longleftrightarrow> ov_tokens v t = Some (d, r) \<and> \<not> gone t d"
  "ov_used (spec_delete_tokens gone v) r' = Some t \<longleftrightarrow> ov_used v r' = Some t \<and> (\<exists>d r. ov_tokens v t = Some (d, r) \<and> \<not> gone t d)"
  by (auto simp: spec_delete_tokens_def Let_def split: option.splits if_splits)

lemma rotated_data_fields [simp]:
  "td_created_at (rotated_data u e sc d) = td_created_at d" "td_updated_at (rotated_data u e sc d) = u"
  "td_expires_at (rotated_data u e sc d) = e" "td_client_id (rotated_data u e sc d) = td_client_id d"
  "td_client_auth (rotated_data u e sc d) = td_client_auth d" "td_did (rotated_data u e sc d) = td_did d"
  "td_parameters (rotated_data u e sc d) = td_parameters d" "td_code (rotated_data u e sc d) = td_code d"
  by (simp_all add: rotated_data_def Let_def split: option.split)

lemma session_lifetime_rotated [simp]: "session_lifetime (rotated_data u e sc d) = session_lifetime d"
  by (simp add: fun_eq_iff session_lifetime_def td_is_confidential_def)

section \<open>What no step undoes\<close>

text \<open>A refresh token that is no longer current, a code that stands in no request, a code or a refresh token that has no
  session any more, and a token id without a session.\<close>

fun spent_refresh :: "string \<Rightarrow> session_state \<Rightarrow> bool" where
  "spent_refresh r (v, K) \<longleftrightarrow> r \<in> K \<and> (\<forall>t d. ov_tokens v t \<noteq> Some (d, Some r))"

fun spent_code :: "string \<Rightarrow> session_state \<Rightarrow> bool" where
  "spent_code c (v, K) \<longleftrightarrow> c \<in> K \<and> c \<notin> request_codes v"

fun closed_code :: "string \<Rightarrow> session_state \<Rightarrow> bool" where
  "closed_code c (v, K) \<longleftrightarrow> c \<in> K \<and> c \<notin> request_codes v \<and> c \<notin> token_codes v"

fun closed_refresh :: "string \<Rightarrow> session_state \<Rightarrow> bool" where
  "closed_refresh r (v, K) \<longleftrightarrow> r \<in> K \<and> r \<notin> issued_refresh v"

fun dead_token :: "string \<Rightarrow> session_state \<Rightarrow> bool" where
  "dead_token t (v, K) \<longleftrightarrow> t \<in> K \<and> ov_tokens v t = None"

lemma drawn_step: "session_step trusted (v, K) (v', K') \<Longrightarrow> K \<subseteq> K'"
  by (cases rule: session_step.cases, assumption) auto

lemma spent_refresh_step: "session_step trusted \<sigma> \<sigma>' \<Longrightarrow> spent_refresh r \<sigma> \<Longrightarrow> spent_refresh r \<sigma>'"
  by (cases rule: session_step.cases, assumption) (auto simp: spec_views spec_rotate_view split: if_splits)

lemma request_codes_step:
  "session_step trusted (v, K) (v', K') \<Longrightarrow> c \<in> request_codes v' \<Longrightarrow> c \<in> request_codes v \<or> c \<notin> K"
  by (cases rule: session_step.cases, assumption) (auto simp: request_codes_def spec_views spec_rotate_view split: if_splits)

lemma token_codes_step:
  assumes "session_step trusted (v, K) (v', K')" "c \<in> token_codes v'"
  shows "c \<in> token_codes v \<or> c \<in> request_codes v"
proof -
  obtain t d r where t: "ov_tokens v' t = Some (d, r)" "td_code d = Some c" using assms(2) by (auto simp: token_codes_def)
  have here: "c \<in> token_codes v" if "ov_tokens v x = Some (e, u)" "td_code e = Some c" for x e u
    using that by (auto simp: token_codes_def)
  from assms(1) show ?thesis
    by cases (use t here in \<open>auto simp: request_codes_def spec_views spec_rotate_view split: if_splits\<close>)
qed

text \<open>A code that gets a session stands in no request any more.\<close>

lemma request_code_moves:
  assumes "session_step trusted (v, K) (v', K')" "view_ok v" "c \<in> token_codes v'" "c \<notin> token_codes v"
  shows "c \<notin> request_codes v'"
proof -
  obtain t d r where t: "ov_tokens v' t = Some (d, r)" "td_code d = Some c" using assms(3) by (auto simp: token_codes_def)
  have none: "ov_tokens v x \<noteq> Some (e, u)" if "td_code e = Some c" for x e u using assms(4) that by (auto simp: token_codes_def)
  note one = view_okD(1)[OF assms(2)]
  from assms(1) show ?thesis
    by cases (use t none one in \<open>auto simp: request_codes_def spec_views spec_rotate_view split: if_splits\<close>)
qed

lemma spent_code_step: "session_step trusted \<sigma> \<sigma>' \<Longrightarrow> spent_code c \<sigma> \<Longrightarrow> spent_code c \<sigma>'"
  using request_codes_step[of trusted "fst \<sigma>" "snd \<sigma>" "fst \<sigma>'" "snd \<sigma>'"] drawn_step[of trusted "fst \<sigma>" "snd \<sigma>" "fst \<sigma>'" "snd \<sigma>'"]
  by (cases \<sigma>; cases \<sigma>') auto

lemma closed_code_step: "session_step trusted \<sigma> \<sigma>' \<Longrightarrow> closed_code c \<sigma> \<Longrightarrow> closed_code c \<sigma>'"
  using request_codes_step[of trusted "fst \<sigma>" "snd \<sigma>" "fst \<sigma>'" "snd \<sigma>'"] drawn_step[of trusted "fst \<sigma>" "snd \<sigma>" "fst \<sigma>'" "snd \<sigma>'"]
    token_codes_step[of trusted "fst \<sigma>" "snd \<sigma>" "fst \<sigma>'" "snd \<sigma>'"]
  by (cases \<sigma>; cases \<sigma>') auto

lemma closed_refresh_step:
  assumes "session_step trusted \<sigma> \<sigma>'" "closed_refresh r \<sigma>"
  shows "closed_refresh r \<sigma>'"
proof -
  obtain v K v' K' where s: "\<sigma> = (v, K)" "\<sigma>' = (v', K')" by fastforce
  have r: "r \<in> K" "ov_used v r = None" "\<And>t d. ov_tokens v t \<noteq> Some (d, Some r)" using assms(2) by (auto simp: s issued_refresh_def)
  from spent_refresh_step[OF assms(1), of r] r have "spent_refresh r (v', K')" by (auto simp: s)
  moreover have "ov_used v' r \<noteq> Some x" for x
    using assms(1)[unfolded s] by cases (use r in \<open>auto simp: spec_views spec_rotate_view\<close>)
  then have "ov_used v' r = None" by blast
  ultimately show ?thesis by (auto simp: s issued_refresh_def)
qed

lemma delete_tokens_None: "ov_tokens v t = None \<Longrightarrow> ov_tokens (spec_delete_tokens gone v) t = None"
  by (simp add: spec_delete_tokens_def Let_def)

lemma dead_token_step: "session_step trusted \<sigma> \<sigma>' \<Longrightarrow> dead_token t \<sigma> \<Longrightarrow> dead_token t \<sigma>'"
  by (cases rule: session_step.cases, assumption) (auto simp: spec_views spec_rotate_view delete_tokens_None split: if_splits)



section \<open>The invariant\<close>

definition names :: "oauth_view \<Rightarrow> string set" where
  "names v = dom (ov_requests v) \<union> dom (ov_tokens v) \<union> issued_refresh v \<union> request_codes v \<union> token_codes v"

text \<open>A code has one session, and none while it stands in a request.\<close>

definition one_session :: "oauth_view \<Rightarrow> bool" where
  "one_session v \<longleftrightarrow>
     (\<forall>t t' d d' r r' c. ov_tokens v t = Some (d, r) \<longrightarrow> ov_tokens v t' = Some (d', r') \<longrightarrow> td_code d = Some c \<longrightarrow> td_code d' = Some c \<longrightarrow> t = t')"

definition codes_ok :: "oauth_view \<Rightarrow> bool" where
  "codes_ok v \<longleftrightarrow> one_session v \<and> request_codes v \<inter> token_codes v = {}"

lemma one_sessionD:
  "one_session v \<Longrightarrow> ov_tokens v t = Some (d, r) \<Longrightarrow> ov_tokens v t' = Some (d', r') \<Longrightarrow> td_code d = Some c \<Longrightarrow> td_code d' = Some c \<Longrightarrow> t = t'"
  unfolding one_session_def by blast

text \<open>An access token lives an hour from the last rotation, and a session is rotated in its lifetime only.\<close>

definition lifetimes_ok :: "(string \<Rightarrow> bool) \<Rightarrow> oauth_view \<Rightarrow> bool" where
  "lifetimes_ok trusted v \<longleftrightarrow>
     (\<forall>t d r. ov_tokens v t = Some (d, r) \<longrightarrow>
        td_expires_at d \<le> td_updated_at d + TOKEN_MAX_AGE \<and>
        td_updated_at d \<le> td_created_at d + session_lifetime d (trusted (td_client_id d)))"

fun session_ok :: "(string \<Rightarrow> bool) \<Rightarrow> session_state \<Rightarrow> bool" where
  "session_ok trusted (v, K) \<longleftrightarrow> view_ok v \<and> codes_ok v \<and> lifetimes_ok trusted v \<and> names v \<subseteq> K"

lemma names_in:
  "names v \<subseteq> K \<Longrightarrow> ov_requests v q = Some d \<Longrightarrow> q \<in> K" "names v \<subseteq> K \<Longrightarrow> ov_tokens v t = Some (e, r) \<Longrightarrow> t \<in> K"
  "names v \<subseteq> K \<Longrightarrow> ov_used v u = Some x \<Longrightarrow> u \<in> K" "names v \<subseteq> K \<Longrightarrow> ov_tokens v t = Some (e, Some u) \<Longrightarrow> u \<in> K"
  "names v \<subseteq> K \<Longrightarrow> ov_requests v q = Some d \<Longrightarrow> rd_code d = Some c \<Longrightarrow> c \<in> K"
  "names v \<subseteq> K \<Longrightarrow> ov_tokens v t = Some (e, r) \<Longrightarrow> td_code e = Some c \<Longrightarrow> c \<in> K"
  unfolding names_def issued_refresh_def request_codes_def token_codes_def by blast+

lemma names_fresh:
  assumes "names v \<subseteq> K" "x \<notin> K"
  shows "ov_requests v x = None" "ov_tokens v x = None" "x \<notin> issued_refresh v" "x \<notin> request_codes v" "x \<notin> token_codes v"
  using assms unfolding names_def by blast+

lemma names_subsetI:
  assumes "\<And>q d. ov_requests v q = Some d \<Longrightarrow> q \<in> K \<and> (\<forall>c. rd_code d = Some c \<longrightarrow> c \<in> K)"
    "\<And>t d r. ov_tokens v t = Some (d, r) \<Longrightarrow> t \<in> K \<and> (\<forall>c. td_code d = Some c \<longrightarrow> c \<in> K) \<and> (\<forall>u. r = Some u \<longrightarrow> u \<in> K)"
    "\<And>u t. ov_used v u = Some t \<Longrightarrow> u \<in> K"
  shows "names v \<subseteq> K"
  using assms unfolding names_def issued_refresh_def request_codes_def token_codes_def by (fastforce simp: dom_def)

lemma names_step: "session_step trusted (v, K) (v', K') \<Longrightarrow> names v \<subseteq> K \<Longrightarrow> names v' \<subseteq> K'"
proof (rule names_subsetI)
  assume s: "session_step trusted (v, K) (v', K')" and n: "names v \<subseteq> K"
  show "q \<in> K' \<and> (\<forall>c. rd_code d = Some c \<longrightarrow> c \<in> K')" if "ov_requests v' q = Some d" for q d
    using s by cases (use that names_in[OF n] in \<open>auto simp: spec_views spec_rotate_view split: if_splits\<close>)
  show "t \<in> K' \<and> (\<forall>c. td_code d = Some c \<longrightarrow> c \<in> K') \<and> (\<forall>u. r = Some u \<longrightarrow> u \<in> K')" if "ov_tokens v' t = Some (d, r)" for t d r
    using s by cases (use that names_in[OF n] in \<open>auto simp: spec_views spec_rotate_view split: if_splits\<close>)
  show "u \<in> K'" if "ov_used v' u = Some t" for u t
    using s by cases (use that names_in[OF n] in \<open>auto simp: spec_views spec_rotate_view split: if_splits\<close>)
qed

lemma lifetimes_step: "session_step trusted (v, K) (v', K') \<Longrightarrow> lifetimes_ok trusted v \<Longrightarrow> lifetimes_ok trusted v'"
  by (cases rule: session_step.cases, assumption)
    (auto simp: lifetimes_ok_def spec_views spec_rotate_view validate_refresh_lifetimes_Inr split: if_splits)

lemma one_session_step:
  assumes "session_step trusted (v, K) (v', K')" "request_codes v \<inter> token_codes v = {}" "one_session v"
  shows "one_session v'"
  unfolding one_session_def
proof (intro allI impI)
  fix t t' d d' r r' c
  assume t: "ov_tokens v' t = Some (d, r)" "ov_tokens v' t' = Some (d', r')" "td_code d = Some c" "td_code d' = Some c"
  have none: "td_code e \<noteq> Some c" if "ov_requests v q = Some f" "rd_code f = Some c" "ov_tokens v x = Some (e, u)" for q f x e u
    using assms(2) that unfolding request_codes_def token_codes_def by blast
  note same = one_sessionD[OF assms(3), of _ _ _ _ _ _ c]
  from assms(1) show "t = t'"
    by cases (use t none same in \<open>auto simp: spec_views spec_rotate_view split: if_splits\<close>)
qed

lemma codes_step:
  assumes "session_step trusted (v, K) (v', K')" "names v \<subseteq> K" "view_ok v" "codes_ok v"
  shows "codes_ok v'"
proof -
  have "c \<notin> request_codes v'" if c: "c \<in> token_codes v'" for c
  proof (cases "c \<in> token_codes v")
    case True
    then have "c \<in> K" "c \<notin> request_codes v" using assms(2,4) by (auto simp: names_def codes_ok_def)
    then show ?thesis using request_codes_step[OF assms(1)] by blast
  next
    case False
    then show ?thesis using request_code_moves[OF assms(1,3) c] by blast
  qed
  then show ?thesis using one_session_step[OF assms(1)] assms(4) by (auto simp: codes_ok_def)
qed

lemma view_okI:
  assumes "\<And>q q' d d' c. ov_requests v q = Some d \<Longrightarrow> ov_requests v q' = Some d' \<Longrightarrow> rd_code d = Some c \<Longrightarrow> rd_code d' = Some c \<Longrightarrow> q = q'"
    "\<And>t t' d d' r. ov_tokens v t = Some (d, Some r) \<Longrightarrow> ov_tokens v t' = Some (d', Some r) \<Longrightarrow> t = t'"
    "\<And>t d r x. ov_tokens v t = Some (d, Some r) \<Longrightarrow> ov_used v r = Some x \<Longrightarrow> False"
    "\<And>r t. ov_used v r = Some t \<Longrightarrow> \<exists>d u. ov_tokens v t = Some (d, u)"
  shows "view_ok v"
  unfolding view_ok_def
proof (intro conjI allI impI)
  show "ov_used v r = None" if "ov_tokens v t = Some (d, Some r)" for t d r using assms(3)[OF that] by (cases "ov_used v r") auto
  show "ov_tokens v t \<noteq> None" if "ov_used v r = Some t" for r t using assms(4)[OF that] by auto
qed (use assms(1,2) in blast)+

lemma view_ok_step:
  assumes "session_step trusted (v, K) (v', K')" "names v \<subseteq> K" "view_ok v"
  shows "view_ok v'"
proof (rule view_okI)
  fix q q' d d' c assume q: "ov_requests v' q = Some d" "ov_requests v' q' = Some d'" "rd_code d = Some c" "rd_code d' = Some c"
  note old = view_okD(1)[OF assms(3), of _ _ _ _ c] names_in(5)[OF assms(2), of _ _ c]
  from assms(1) show "q = q'"
    by cases (use q old in \<open>auto simp: spec_views spec_rotate_view split: if_splits\<close>)
next
  fix t t' d d' r assume t: "ov_tokens v' t = Some (d, Some r)" "ov_tokens v' t' = Some (d', Some r)"
  note old = view_okD(2)[OF assms(3), of _ _ r] names_in(4)[OF assms(2), of _ _ r]
  from assms(1) show "t = t'"
    by cases (use t old in \<open>auto simp: spec_views spec_rotate_view split: if_splits\<close>)
next
  fix t d r x assume t: "ov_tokens v' t = Some (d, Some r)" "ov_used v' r = Some x"
  note old = view_okD(3)[OF assms(3), of _ _ r] view_okD(2)[OF assms(3), of _ _ r] names_in(3,4)[OF assms(2), where u = r]
  from assms(1) show False
    by cases (use t old in \<open>auto simp: spec_views spec_rotate_view split: if_splits\<close>)
next
  fix r t assume r: "ov_used v' r = Some t"
  note old = view_okD(4)[OF assms(3), of r]
  from assms(1) show "\<exists>d u. ov_tokens v' t = Some (d, u)"
    by cases (use r old in \<open>auto simp: spec_views spec_rotate_view split: if_splits\<close>)
qed

lemma session_ok_step: "session_step trusted \<sigma> \<sigma>' \<Longrightarrow> session_ok trusted \<sigma> \<Longrightarrow> session_ok trusted \<sigma>'"
  by (cases \<sigma>; cases \<sigma>') (auto intro: view_ok_step codes_step lifetimes_step dest: names_step)

end
