(* ===== verification/Oauth_Jwt.thy ===== *)
theory Oauth_Jwt
  imports Oauth_Types
begin

text \<open>
  Keys and signed tokens of the OAuth provider: \<open>rsky-oauth/src/jwk.rs\<close> and \<open>jwt.rs\<close>. Curve arithmetic, the
  signature schemes, base64 and JSON are in \<open>oauth_ext\<close>; everything the source decides around them is here.
\<close>

section \<open>Keys\<close>

fun curve_crv :: "ec_curve \<Rightarrow> string" where
  "curve_crv P256 = ''P-256''"
| "curve_crv K256curve = ''secp256k1''"

fun curve_alg :: "ec_curve \<Rightarrow> string" where
  "curve_alg P256 = ''ES256''"
| "curve_alg K256curve = ''ES256K''"

definition from_crv :: "string \<Rightarrow> oauth_error + ec_curve" where
  "from_crv crv =
     (if crv = ''P-256'' then Inr P256 else if crv = ''secp256k1'' then Inr K256curve
      else Inl (InvalidRequest (''unsupported curve: '' @ crv)))"

definition from_alg :: "string \<Rightarrow> oauth_error + ec_curve" where
  "from_alg alg =
     (if alg = ''ES256'' then Inr P256 else if alg = ''ES256K'' then Inr K256curve
      else Inl (InvalidRequest (''unsupported algorithm: '' @ alg)))"

definition jwk_curve :: "jwk \<Rightarrow> oauth_error + ec_curve" where
  "jwk_curve k = (if jw_kty k \<noteq> ''EC'' then Inl (InvalidRequest (''unsupported key type: '' @ jw_kty k)) else from_crv (jw_crv k))"

definition is_private :: "jwk \<Rightarrow> bool" where
  "is_private k \<longleftrightarrow> jw_d k \<noteq> None"

definition to_public :: "jwk \<Rightarrow> jwk" where
  "to_public k = k\<lparr>jw_d := None\<rparr>"

definition decode_coordinate :: "oauth_ext \<Rightarrow> string \<Rightarrow> string \<Rightarrow> oauth_error + bytes" where
  "decode_coordinate X v name =
     res_bind (map_err (\<lambda>e. InvalidRequest (''invalid JWK \"'' @ name @ ''\": '' @ e)) (ox_unb64 X v)) (\<lambda>b.
     if length b = 32 then Inr b else Inl (InvalidRequest (''JWK \"'' @ name @ ''\" must encode 32 bytes'')))"

definition decompress_point :: "oauth_ext \<Rightarrow> ec_curve \<Rightarrow> bytes \<Rightarrow> oauth_error + bytes" where
  "decompress_point X curve point = map_err (\<lambda>e. InvalidRequest (''invalid EC point: '' @ e)) (ox_point X curve point)"

definition to_sec1_uncompressed :: "oauth_ext \<Rightarrow> jwk \<Rightarrow> oauth_error + bytes" where
  "to_sec1_uncompressed X k =
     res_bind (jwk_curve k) (\<lambda>curve.
     res_bind (decode_coordinate X (jw_x k) ''x'') (\<lambda>x.
     res_bind (decode_coordinate X (jw_y k) ''y'') (\<lambda>y.
     decompress_point X curve (4 # x @ y))))"

definition private_key_bytes :: "oauth_ext \<Rightarrow> jwk \<Rightarrow> oauth_error + bytes" where
  "private_key_bytes X k =
     (case jw_d k of
        None \<Rightarrow> Inl (InvalidRequest ''JWK is not a private key'')
      | Some d \<Rightarrow> decode_coordinate X d ''d'')"

definition from_sec1 :: "oauth_ext \<Rightarrow> ec_curve \<Rightarrow> bytes \<Rightarrow> oauth_error + jwk" where
  "from_sec1 X curve point =
     res_bind (decompress_point X curve point) (\<lambda>u.
     Inr \<lparr>jw_kty = ''EC'', jw_crv = curve_crv curve, jw_x = ox_b64 X (take 32 (drop 1 u)), jw_y = ox_b64 X (take 32 (drop 33 u)),
          jw_d = None, jw_kid = None, jw_alg = None, jw_use = None\<rparr>)"

definition thumbprint :: "oauth_ext \<Rightarrow> jwk \<Rightarrow> string" where
  "thumbprint X k =
     ox_b64 X (ox_sha256 X (''{\"crv\":\"'' @ jw_crv k @ ''\",\"kty\":\"'' @ jw_kty k @ ''\",\"x\":\"'' @ jw_x k @
       ''\",\"y\":\"'' @ jw_y k @ ''\"}''))"

definition find_by_kid :: "jwk_set \<Rightarrow> string \<Rightarrow> jwk option" where
  "find_by_kid keys kid = List.find (\<lambda>k. jw_kid k = Some kid) keys"

definition signing_key_alg :: "signing_key \<Rightarrow> oauth_error + string" where
  "signing_key_alg key =
     (case key of EcKey k \<Rightarrow> res_bind (jwk_curve k) (\<lambda>c. Inr (curve_alg c)) | Symmetric _ \<Rightarrow> Inr ''HS256'')"

definition public_jwks :: "oauth_ext \<Rightarrow> signing_key \<Rightarrow> jwk_set" where
  "public_jwks X key =
     (case key of
        EcKey k \<Rightarrow>
          (let k1 = to_public k;
               k2 = (if jw_alg k1 = None
                     then (case jwk_curve k1 of Inr c \<Rightarrow> k1\<lparr>jw_alg := Some (curve_alg c)\<rparr> | Inl _ \<Rightarrow> k1) else k1);
               k3 = (if jw_kid k2 = None then k2\<lparr>jw_kid := Some (thumbprint X k2)\<rparr> else k2)
           in [k3])
      | Symmetric _ \<Rightarrow> [])"

section \<open>Claims\<close>

definition DEFAULT_CLOCK_SKEW :: nat where
  "DEFAULT_CLOCK_SKEW = 60"

definition new_header :: "string \<Rightarrow> jwt_header" where
  "new_header alg = \<lparr>jh_alg = alg, jh_typ = None, jh_kid = None, jh_jwk = None, jh_extra = []\<rparr>"

definition no_claims :: jwt_claims where
  "no_claims = \<lparr>jc_iss = None, jc_sub = None, jc_aud = None, jc_exp = None, jc_nbf = None, jc_iat = None, jc_jti = None, jc_extra = []\<rparr>"

definition validate_typ :: "jwt_header \<Rightarrow> string \<Rightarrow> oauth_error + unit" where
  "validate_typ h expected =
     (if jh_typ h = Some expected then Inr ()
      else Inl (InvalidToken (''unexpected JWT \"typ\" header, expected \"'' @ expected @ ''\"'')))"

definition validate_time :: "jwt_claims \<Rightarrow> nat \<Rightarrow> nat \<Rightarrow> oauth_error + unit" where
  "validate_time c now skew =
     (if (case jc_exp c of Some e \<Rightarrow> saturating_add e skew \<le> now | None \<Rightarrow> False) then Inl (InvalidToken ''token has expired'')
      else if (case jc_iat c of Some i \<Rightarrow> i > saturating_add now skew | None \<Rightarrow> False) then Inl (InvalidToken ''token issued in the future'')
      else if (case jc_nbf c of Some n \<Rightarrow> n > saturating_add now skew | None \<Rightarrow> False) then Inl (InvalidToken ''token not yet valid'')
      else Inr ())"

definition validate_iss :: "jwt_claims \<Rightarrow> string \<Rightarrow> oauth_error + unit" where
  "validate_iss c expected = (if jc_iss c = Some expected then Inr () else Inl (InvalidToken ''unexpected \"iss\" claim''))"

definition validate_aud :: "jwt_claims \<Rightarrow> string \<Rightarrow> oauth_error + unit" where
  "validate_aud c expected =
     (if (case jc_aud c of
            Some (JString aud) \<Rightarrow> aud = expected
          | Some (JArray auds) \<Rightarrow> list_ex (\<lambda>a. a = JString expected) auds
          | _ \<Rightarrow> False)
      then Inr () else Inl (InvalidToken ''unexpected \"aud\" claim''))"

section \<open>Signing and verifying\<close>

record decoded_jwt =
  dj_header :: jwt_header
  dj_claims :: jwt_claims
  dj_signing_input :: string
  dj_signature :: bytes

definition decode_json_part :: "oauth_ext \<Rightarrow> (bytes \<Rightarrow> string + 'a) \<Rightarrow> string \<Rightarrow> string \<Rightarrow> oauth_error + 'a" where
  "decode_json_part X parse part name =
     res_bind (map_err (\<lambda>e. InvalidToken (''invalid JWT '' @ name @ '' encoding: '' @ e)) (ox_unb64 X part)) (\<lambda>b.
     map_err (\<lambda>e. InvalidToken (''invalid JWT '' @ name @ '': '' @ e)) (parse b))"

definition jwt_decode :: "oauth_ext \<Rightarrow> string \<Rightarrow> oauth_error + decoded_jwt" where
  "jwt_decode X token =
     (case split_on CHR ''.'' token of
        [header_b64, claims_b64, signature_b64] \<Rightarrow>
          res_bind (decode_json_part X (ox_header_parse X) header_b64 ''header'') (\<lambda>header.
          res_bind (decode_json_part X (ox_claims_parse X) claims_b64 ''claims'') (\<lambda>claims.
          res_bind (map_err (\<lambda>e. InvalidToken (''invalid JWT signature encoding: '' @ e)) (ox_unb64 X signature_b64)) (\<lambda>sig.
          Inr \<lparr>dj_header = header, dj_claims = claims, dj_signing_input = header_b64 @ ''.'' @ claims_b64, dj_signature = sig\<rparr>)))
      | _ \<Rightarrow> Inl (InvalidToken ''malformed JWT''))"

definition verify_signature :: "oauth_ext \<Rightarrow> decoded_jwt \<Rightarrow> jwk \<Rightarrow> oauth_error + unit" where
  "verify_signature X decoded key =
     res_bind (jwk_curve key) (\<lambda>curve.
     if jh_alg (dj_header decoded) \<noteq> curve_alg curve
     then Inl (InvalidToken (''JWT \"alg\" '' @ jh_alg (dj_header decoded) @ '' does not match key algorithm '' @ curve_alg curve))
     else
     res_bind (to_sec1_uncompressed X key) (\<lambda>public_key.
     res_bind (map_err (\<lambda>e. InvalidToken (''invalid '' @ curve_alg curve @ '' signature: '' @ e)) (ox_signature X curve (dj_signature decoded))) (\<lambda>sig.
     if ox_verify X curve public_key (ox_sha256 X (dj_signing_input decoded)) sig then Inr ()
     else Inl (InvalidToken ''JWT signature verification failed''))))"

definition jwt_verify_key :: "oauth_ext \<Rightarrow> string \<Rightarrow> jwk \<Rightarrow> oauth_error + decoded_jwt" where
  "jwt_verify_key X token key =
     res_bind (jwt_decode X token) (\<lambda>decoded. res_bind (verify_signature X decoded key) (\<lambda>_. Inr decoded))"

definition verify_with :: "oauth_ext \<Rightarrow> string \<Rightarrow> signing_key \<Rightarrow> oauth_error + decoded_jwt" where
  "verify_with X token key =
     res_bind (jwt_decode X token) (\<lambda>decoded.
     case key of
       EcKey k \<Rightarrow> res_bind (verify_signature X decoded k) (\<lambda>_. Inr decoded)
     | Symmetric secret \<Rightarrow>
         if jh_alg (dj_header decoded) \<noteq> ''HS256''
         then Inl (InvalidToken (''JWT \"alg\" '' @ jh_alg (dj_header decoded) @ '' does not match key algorithm HS256''))
         else if ox_hmac X secret (ox_str_bytes X (dj_signing_input decoded)) \<noteq> dj_signature decoded
         then Inl (InvalidToken ''JWT signature verification failed'')
         else Inr decoded)"

definition jwt_input :: "oauth_ext \<Rightarrow> jwt_header \<Rightarrow> jwt_claims \<Rightarrow> string" where
  "jwt_input X header claims = ox_b64 X (ox_header_json X header) @ ''.'' @ ox_b64 X (ox_claims_json X claims)"

definition sign_ec :: "oauth_ext \<Rightarrow> jwt_header \<Rightarrow> jwt_claims \<Rightarrow> jwk \<Rightarrow> oauth_error + string" where
  "sign_ec X header claims key =
     res_bind (jwk_curve key) (\<lambda>curve.
     if jh_alg header \<noteq> curve_alg curve
     then Inl (InvalidRequest (''JWT \"alg\" '' @ jh_alg header @ '' does not match key algorithm '' @ curve_alg curve))
     else
     res_bind (private_key_bytes X key) (\<lambda>d.
     res_bind (map_err (\<lambda>e. InvalidRequest (''invalid private key: '' @ e)) (ox_sign X curve d (ox_sha256 X (jwt_input X header claims)))) (\<lambda>sig.
     Inr (jwt_input X header claims @ ''.'' @ ox_b64 X sig))))"

definition sign_with :: "oauth_ext \<Rightarrow> jwt_header \<Rightarrow> jwt_claims \<Rightarrow> signing_key \<Rightarrow> oauth_error + string" where
  "sign_with X header claims key =
     (case key of
        EcKey k \<Rightarrow> sign_ec X header claims k
      | Symmetric secret \<Rightarrow>
          if jh_alg header \<noteq> ''HS256''
          then Inl (InvalidRequest (''JWT \"alg\" '' @ jh_alg header @ '' does not match key algorithm HS256''))
          else Inr (jwt_input X header claims @ ''.'' @ ox_b64 X (ox_hmac X secret (ox_str_bytes X (jwt_input X header claims)))))"

section \<open>What is signed verifies\<close>

text \<open>What the libraries promise of encodings, and of a key that was made from a private key.\<close>

definition encodings_ok :: "oauth_ext \<Rightarrow> bool" where
  "encodings_ok X \<longleftrightarrow>
     (\<forall>b. ox_unb64 X (ox_b64 X b) = Inr b \<and> CHR ''.'' \<notin> set (ox_b64 X b)) \<and>
     (\<forall>h. ox_header_parse X (ox_header_json X h) = Inr h) \<and> (\<forall>c. ox_claims_parse X (ox_claims_json X c) = Inr c)"

definition key_signs :: "oauth_ext \<Rightarrow> signing_key \<Rightarrow> bool" where
  "key_signs X key \<longleftrightarrow>
     (case key of
        Symmetric _ \<Rightarrow> True
      | EcKey k \<Rightarrow> \<exists>curve d pk. jwk_curve k = Inr curve \<and> private_key_bytes X k = Inr d \<and> to_sec1_uncompressed X k = Inr pk \<and>
          (\<forall>digest. \<exists>sig. ox_sign X curve d digest = Inr sig \<and> ox_signature X curve sig = Inr sig \<and> ox_verify X curve pk digest sig))"

lemma jwt_decode_signed:
  assumes "encodings_ok X"
  shows "jwt_decode X (jwt_input X h c @ ''.'' @ ox_b64 X sig) =
    Inr \<lparr>dj_header = h, dj_claims = c, dj_signing_input = jwt_input X h c, dj_signature = sig\<rparr>"
proof -
  have "split_on CHR ''.'' (jwt_input X h c @ ''.'' @ ox_b64 X sig) =
      [ox_b64 X (ox_header_json X h), ox_b64 X (ox_claims_json X c), ox_b64 X sig]"
    using assms by (simp add: jwt_input_def encodings_ok_def split_on_append_sep split_on_no_sep)
  then show ?thesis using assms by (simp add: jwt_decode_def decode_json_part_def encodings_ok_def jwt_input_def)
qed

lemma signed_jwt_verifies:
  assumes "encodings_ok X" "key_signs X key" "signing_key_alg key = Inr (jh_alg h)"
  shows "\<exists>t d. sign_with X h c key = Inr t \<and> verify_with X t key = Inr d \<and> dj_header d = h \<and> dj_claims d = c"
proof (cases key)
  case (EcKey k)
  from assms(2) obtain curve d pk where k: "jwk_curve k = Inr curve" "private_key_bytes X k = Inr d" "to_sec1_uncompressed X k = Inr pk"
    and sig: "\<And>digest. \<exists>sig. ox_sign X curve d digest = Inr sig \<and> ox_signature X curve sig = Inr sig \<and> ox_verify X curve pk digest sig"
    by (auto simp: key_signs_def EcKey)
  obtain sig where sig: "ox_sign X curve d (ox_sha256 X (jwt_input X h c)) = Inr sig" "ox_signature X curve sig = Inr sig"
    "ox_verify X curve pk (ox_sha256 X (jwt_input X h c)) sig" using sig by blast
  have alg: "jh_alg h = curve_alg curve" using assms(3) k by (simp add: EcKey signing_key_alg_def)
  have "sign_with X h c key = Inr (jwt_input X h c @ ''.'' @ ox_b64 X sig)" using k sig alg by (simp add: sign_with_def EcKey sign_ec_def)
  moreover have "verify_with X (jwt_input X h c @ ''.'' @ ox_b64 X sig) key =
      Inr \<lparr>dj_header = h, dj_claims = c, dj_signing_input = jwt_input X h c, dj_signature = sig\<rparr>"
    unfolding verify_with_def jwt_decode_signed[OF assms(1)] using k sig alg by (simp add: verify_signature_def EcKey)
  ultimately show ?thesis by auto
next
  case (Symmetric secret)
  let ?sig = "ox_hmac X secret (ox_str_bytes X (jwt_input X h c))"
  have alg: "jh_alg h = ''HS256''" using assms(3) by (simp add: Symmetric signing_key_alg_def)
  have "sign_with X h c key = Inr (jwt_input X h c @ ''.'' @ ox_b64 X ?sig)" using alg by (simp add: sign_with_def Symmetric)
  moreover have "verify_with X (jwt_input X h c @ ''.'' @ ox_b64 X ?sig) key =
      Inr \<lparr>dj_header = h, dj_claims = c, dj_signing_input = jwt_input X h c, dj_signature = ?sig\<rparr>"
    unfolding verify_with_def jwt_decode_signed[OF assms(1)] using alg by (simp add: Symmetric)
  ultimately show ?thesis by auto
qed

end
