(* ===== verification/Oauth_Dpop.thy ===== *)
theory Oauth_Dpop
  imports Oauth_Jwt
begin

text \<open>
  Proofs of possession: \<open>rsky-oauth/src/dpop.rs\<close>. A replay store is the list of the entries of its hash map; the clock
  it reads is the argument \<open>now_ms\<close>, in milliseconds. The last part shows when a proof can be used twice.
\<close>

section \<open>Replay store\<close>

definition DPOP_TYP :: string where
  "DPOP_TYP = ''dpop+jwt''"

definition DPOP_NONCE_MAX_AGE :: nat where
  "DPOP_NONCE_MAX_AGE = 180"

definition DEFAULT_ROTATION_INTERVAL :: nat where
  "DEFAULT_ROTATION_INTERVAL = DPOP_NONCE_MAX_AGE div 3"

definition DPOP_IAT_MAX_AGE :: nat where
  "DPOP_IAT_MAX_AGE = 10"

definition DPOP_CLOCK_TOLERANCE :: nat where
  "DPOP_CLOCK_TOLERANCE = DPOP_NONCE_MAX_AGE"

lemmas dpop_times = DPOP_NONCE_MAX_AGE_def DEFAULT_ROTATION_INTERVAL_def DPOP_IAT_MAX_AGE_def DPOP_CLOCK_TOLERANCE_def

definition dpop_replay_namespace :: "string option \<Rightarrow> string" where
  "dpop_replay_namespace client_id = (case client_id of Some c \<Rightarrow> ''DPoP@'' @ c | None \<Rightarrow> ''DPoP'')"

type_synonym replay_store = "(string \<times> nat) list"

definition replay_unique :: "nat \<Rightarrow> string \<Rightarrow> string \<Rightarrow> nat \<Rightarrow> replay_store \<Rightarrow> bool \<times> replay_store" where
  "replay_unique now_ms namespace nonce time_frame_ms seen =
     (let seen1 = filter (\<lambda>(_, expiry). expiry > now_ms) seen;
          key = namespace @ '':'' @ nonce
      in case map_of seen1 key of
           Some _ \<Rightarrow> (False, seen1)
         | None \<Rightarrow> (True, (key, now_ms + time_frame_ms) # seen1))"

section \<open>Server nonces\<close>

record dpop_nonce =
  dn_secret :: bytes
  dn_rotation_interval :: nat

definition new_dpop_nonce :: "bytes \<Rightarrow> nat \<Rightarrow> oauth_error + dpop_nonce" where
  "new_dpop_nonce secret rotation_interval =
     (if rotation_interval = 0 \<or> rotation_interval > DEFAULT_ROTATION_INTERVAL
      then Inl (ServerError ''DPoP nonce rotation interval must be between 1 and 60 seconds'')
      else Inr \<lparr>dn_secret = secret, dn_rotation_interval = rotation_interval\<rparr>)"

definition to_be_bytes :: "nat \<Rightarrow> bytes" where
  "to_be_bytes n = map (\<lambda>i. word_of_nat (n div 256 ^ (7 - i))) [0..<8]"

definition nonce_counter :: "dpop_nonce \<Rightarrow> nat \<Rightarrow> nat" where
  "nonce_counter N now = now div dn_rotation_interval N"

definition nonce_compute :: "oauth_ext \<Rightarrow> dpop_nonce \<Rightarrow> nat \<Rightarrow> string" where
  "nonce_compute X N counter = ox_b64 X (ox_hmac X (dn_secret N) (to_be_bytes counter))"

definition nonce_next :: "oauth_ext \<Rightarrow> dpop_nonce \<Rightarrow> nat \<Rightarrow> string" where
  "nonce_next X N now = nonce_compute X N (nonce_counter N now + 1)"

definition nonce_check :: "oauth_ext \<Rightarrow> dpop_nonce \<Rightarrow> string \<Rightarrow> nat \<Rightarrow> bool" where
  "nonce_check X N nonce now \<longleftrightarrow>
     (let counter = nonce_counter N now
      in nonce_compute X N (counter + 1) = nonce \<or> nonce_compute X N counter = nonce \<or>
         (counter > 0 \<and> nonce_compute X N (counter - 1) = nonce))"

section \<open>Proofs\<close>

record dpop_proof =
  dp_jti :: string
  dp_jkt :: string
  dp_htm :: string
  dp_htu :: string

record dpop_request =
  dr_method :: string
  dr_uri :: string
  dr_dpop_headers :: "string list"
  dr_access_token :: "string option"

definition extract_proof :: "string list \<Rightarrow> oauth_error + string option" where
  "extract_proof headers =
     (case headers of
        [] \<Rightarrow> Inr None
      | [p] \<Rightarrow> if p \<noteq> [] then Inr (Some p) else Inl (InvalidDpopProof ''DPoP header cannot be empty'')
      | _ \<Rightarrow> Inl (InvalidDpopProof ''DPoP header must contain a single proof''))"

definition normalize_url :: "url \<Rightarrow> string" where
  "normalize_url u = u_origin u @ u_path u"

definition parse_htu :: "oauth_ext \<Rightarrow> string \<Rightarrow> oauth_error + string" where
  "parse_htu X htu =
     (case ox_url X htu of
        None \<Rightarrow> Inl (InvalidDpopProof ''DPoP \"htu\" is not a valid URL'')
      | Some u \<Rightarrow>
          if u_username u \<noteq> [] \<or> u_password u \<noteq> None then Inl (InvalidDpopProof ''DPoP \"htu\" must not contain credentials'')
          else if u_scheme u \<noteq> ''http'' \<and> u_scheme u \<noteq> ''https'' then Inl (InvalidDpopProof ''DPoP \"htu\" must be http or https'')
          else Inr (normalize_url u))"

text \<open>The header of the proof and its signature: the decoded token and the key it carries.\<close>

definition proof_key :: "oauth_ext \<Rightarrow> string \<Rightarrow> oauth_error + decoded_jwt \<times> jwk" where
  "proof_key X p =
     res_bind (map_err (\<lambda>e. InvalidDpopProof (''Failed to parse DPoP proof: '' @ error_description e)) (jwt_decode X p)) (\<lambda>decoded.
     if jh_typ (dj_header decoded) \<noteq> Some DPOP_TYP then Inl (InvalidDpopProof (''DPoP proof \"typ\" must be \"'' @ DPOP_TYP @ ''\"''))
     else case jh_jwk (dj_header decoded) of
       None \<Rightarrow> Inl (InvalidDpopProof ''DPoP proof missing \"jwk\" header'')
     | Some k \<Rightarrow>
         if is_private k then Inl (InvalidDpopProof ''DPoP \"jwk\" must be a public key'')
         else res_bind (map_err (\<lambda>e. InvalidDpopProof (''Failed to verify DPoP proof: '' @ error_description e)) (verify_signature X decoded k)) (\<lambda>_.
              Inr (decoded, k)))"

definition proof_time :: "jwt_claims \<Rightarrow> nat \<Rightarrow> oauth_error + unit" where
  "proof_time claims now =
     (case jc_iat claims of
        None \<Rightarrow> Inl (InvalidDpopProof ''DPoP \"iat\" missing'')
      | Some iat \<Rightarrow>
          if iat > saturating_add now DPOP_CLOCK_TOLERANCE then Inl (InvalidDpopProof ''DPoP proof \"iat\" is in the future'')
          else if now - iat > DPOP_IAT_MAX_AGE + DPOP_CLOCK_TOLERANCE then Inl (InvalidDpopProof ''DPoP proof is too old'')
          else if (case jc_exp claims of Some e \<Rightarrow> saturating_add e DPOP_CLOCK_TOLERANCE \<le> now | None \<Rightarrow> False)
          then Inl (InvalidDpopProof ''DPoP proof has expired'')
          else Inr ())"

definition nonce_claim :: "jwt_claims \<Rightarrow> oauth_error + string option" where
  "nonce_claim claims =
     (case map_of (jc_extra claims) ''nonce'' of
        None \<Rightarrow> Inr None
      | Some (JString nonce) \<Rightarrow> Inr (Some nonce)
      | Some _ \<Rightarrow> Inl (InvalidDpopProof ''Invalid DPoP \"nonce\" type''))"

definition jti_claim :: "jwt_claims \<Rightarrow> oauth_error + string" where
  "jti_claim claims =
     (case jc_jti claims of
        Some jti \<Rightarrow> if jti \<noteq> [] then Inr jti else Inl (InvalidDpopProof ''DPoP \"jti\" missing'')
      | None \<Rightarrow> Inl (InvalidDpopProof ''DPoP \"jti\" missing''))"

definition proof_target :: "oauth_ext \<Rightarrow> jwt_claims \<Rightarrow> dpop_request \<Rightarrow> oauth_error + string" where
  "proof_target X claims request =
     (if map_of (jc_extra claims) ''htm'' \<noteq> Some (JString (dr_method request)) then Inl (InvalidDpopProof ''DPoP \"htm\" mismatch'')
      else case map_of (jc_extra claims) ''htu'' of
        Some (JString htu) \<Rightarrow>
          (case ox_url X (dr_uri request) of
             None \<Rightarrow> Inl (InvalidRequest ''invalid request URI'')
           | Some request_url \<Rightarrow>
               res_bind (parse_htu X htu) (\<lambda>target.
               if target \<noteq> normalize_url request_url then Inl (InvalidDpopProof ''DPoP \"htu\" mismatch'') else Inr htu))
      | _ \<Rightarrow> Inl (InvalidDpopProof ''Invalid DPoP \"htu\" type''))"

definition proof_nonce :: "oauth_ext \<Rightarrow> dpop_nonce option \<Rightarrow> string option \<Rightarrow> nat \<Rightarrow> oauth_error + unit" where
  "proof_nonce X nonce claim now =
     (case (nonce, claim) of
        (Some _, None) \<Rightarrow> Inl use_dpop_nonce
      | (Some N, Some c) \<Rightarrow> if \<not> nonce_check X N c now then Inl (UseDpopNonce ''DPoP \"nonce\" mismatch'') else Inr ()
      | (None, Some _) \<Rightarrow> Inl (UseDpopNonce ''DPoP \"nonce\" mismatch'')
      | (None, None) \<Rightarrow> Inr ())"

definition proof_ath :: "oauth_ext \<Rightarrow> jwt_claims \<Rightarrow> string option \<Rightarrow> oauth_error + unit" where
  "proof_ath X claims access_token =
     (case access_token of
        Some token \<Rightarrow>
          if map_of (jc_extra claims) ''ath'' \<noteq> Some (JString (ox_b64 X (ox_sha256 X token)))
          then Inl (InvalidDpopProof ''DPoP \"ath\" mismatch'') else Inr ()
      | None \<Rightarrow>
          if map_of (jc_extra claims) ''ath'' \<noteq> None then Inl (InvalidDpopProof ''DPoP \"ath\" claim not allowed'') else Inr ())"

text \<open>Everything that is checked of a proof before the replay store is asked, in the order of the source.\<close>

definition checked_proof :: "oauth_ext \<Rightarrow> dpop_nonce option \<Rightarrow> dpop_request \<Rightarrow> nat \<Rightarrow> oauth_error + dpop_proof option" where
  "checked_proof X nonce request now =
     (if dr_method request = [] then Inl (InvalidRequest ''HTTP method is required'')
      else res_bind (extract_proof (dr_dpop_headers request)) (\<lambda>found.
      case found of
        None \<Rightarrow> Inr None
      | Some p \<Rightarrow>
          res_bind (proof_key X p) (\<lambda>(decoded, k).
          res_bind (proof_time (dj_claims decoded) now) (\<lambda>_.
          res_bind (nonce_claim (dj_claims decoded)) (\<lambda>claim.
          res_bind (jti_claim (dj_claims decoded)) (\<lambda>jti.
          res_bind (proof_target X (dj_claims decoded) request) (\<lambda>htu.
          res_bind (proof_nonce X nonce claim now) (\<lambda>_.
          res_bind (proof_ath X (dj_claims decoded) (dr_access_token request)) (\<lambda>_.
          Inr (Some \<lparr>dp_jti = jti, dp_jkt = thumbprint X k, dp_htm = dr_method request, dp_htu = htu\<rparr>))))))))))"

definition check_proof :: "oauth_ext \<Rightarrow> dpop_nonce option \<Rightarrow> dpop_request \<Rightarrow> string option \<Rightarrow> nat \<Rightarrow> nat
    \<Rightarrow> (replay_store, dpop_proof option) oaction" where
  "check_proof X nonce request client_id now now_ms =
     oa_bind (oa_lift (checked_proof X nonce request now)) (\<lambda>found.
     case found of
       None \<Rightarrow> oa_ok None
     | Some p \<Rightarrow> (\<lambda>seen.
         case replay_unique now_ms (dpop_replay_namespace client_id) (dp_jti p) (DPOP_NONCE_MAX_AGE * 1000) seen of
           (True, seen') \<Rightarrow> (Inr (Some p), seen')
         | (False, seen') \<Rightarrow> (Inl (InvalidDpopProof ''DPoP proof \"jti\" replayed''), seen')))"

definition next_nonce :: "oauth_ext \<Rightarrow> dpop_nonce option \<Rightarrow> nat \<Rightarrow> string option" where
  "next_nonce X nonce now = map_option (\<lambda>N. nonce_next X N now) nonce"

section \<open>The replay store\<close>

definition replay_key :: "string option \<Rightarrow> string \<Rightarrow> string" where
  "replay_key client_id jti = dpop_replay_namespace client_id @ '':'' @ jti"

text \<open>An entry that the store holds until \<open>e\<close>.\<close>

definition remembered :: "string \<Rightarrow> nat \<Rightarrow> replay_store \<Rightarrow> bool" where
  "remembered k e seen \<longleftrightarrow> (\<exists>e'. (k, e') \<in> set seen \<and> e \<le> e')"

lemma replay_unique_keeps:
  "remembered k e seen \<Longrightarrow> now_ms < e \<Longrightarrow> remembered k e (snd (replay_unique now_ms ns n w seen))"
  by (fastforce simp: remembered_def replay_unique_def Let_def split: option.splits)

lemma replay_unique_records:
  "fst (replay_unique now_ms ns n w seen) \<Longrightarrow> remembered (ns @ '':'' @ n) (now_ms + w) (snd (replay_unique now_ms ns n w seen))"
  by (auto simp: remembered_def replay_unique_def Let_def split: option.splits)

lemma replay_unique_refuses:
  assumes "remembered (ns @ '':'' @ n) e seen" "now_ms < e"
  shows "\<not> fst (replay_unique now_ms ns n w seen)"
proof -
  from assms(1) obtain e' where "(ns @ '':'' @ n, e') \<in> set seen" "e \<le> e'" by (auto simp: remembered_def)
  with assms(2) have "(ns @ '':'' @ n, e') \<in> set (filter (\<lambda>(_, expiry). expiry > now_ms) seen)" by simp
  from weak_map_of_SomeI[OF this] have "map_of (filter (\<lambda>(_, expiry). expiry > now_ms) seen) (ns @ '':'' @ n) \<noteq> None" by blast
  then show ?thesis by (auto simp: replay_unique_def Let_def)
qed

lemma check_proof_cases:
  "check_proof X nonce r c now ms seen =
     (case checked_proof X nonce r now of
        Inl e \<Rightarrow> (Inl e, seen)
      | Inr None \<Rightarrow> (Inr None, seen)
      | Inr (Some p) \<Rightarrow>
          (if fst (replay_unique ms (dpop_replay_namespace c) (dp_jti p) (DPOP_NONCE_MAX_AGE * 1000) seen) then Inr (Some p)
           else Inl (InvalidDpopProof ''DPoP proof \"jti\" replayed''),
           snd (replay_unique ms (dpop_replay_namespace c) (dp_jti p) (DPOP_NONCE_MAX_AGE * 1000) seen)))"
  by (auto simp: check_proof_def oa_bind_def split: sum.splits option.splits prod.splits bool.splits)

lemma check_proof_keeps: "remembered k e seen \<Longrightarrow> ms < e \<Longrightarrow> remembered k e (snd (check_proof X nonce r c now ms seen))"
  by (auto simp: check_proof_cases replay_unique_keeps split: sum.splits option.splits)

section \<open>Sequences of proofs\<close>

record dpop_call =
  dc_request :: dpop_request
  dc_client :: "string option"
  dc_ms :: nat

text \<open>Both clocks of a call are read at the same instant: the caller's seconds are those of the store's milliseconds.\<close>

definition dpop_call_result :: "oauth_ext \<Rightarrow> dpop_nonce option \<Rightarrow> dpop_call \<Rightarrow> (replay_store, dpop_proof option) oaction" where
  "dpop_call_result X nonce c = check_proof X nonce (dc_request c) (dc_client c) (dc_ms c div 1000) (dc_ms c)"

fun dpop_run :: "oauth_ext \<Rightarrow> dpop_nonce option \<Rightarrow> dpop_call list \<Rightarrow> replay_store \<Rightarrow> (oauth_error + dpop_proof option) list" where
  "dpop_run X nonce [] seen = []"
| "dpop_run X nonce (c # cs) seen =
     (let (r, seen') = dpop_call_result X nonce c seen in r # dpop_run X nonce cs seen')"

lemma length_dpop_run [simp]: "length (dpop_run X nonce cs seen) = length cs"
  by (induction cs arbitrary: seen) (auto split: prod.splits)

lemma dpop_run_refuses:
  assumes "remembered (replay_key (dc_client c) jti) e seen" "j < length cs" "cs ! j = c" "sorted (map dc_ms cs)" "dc_ms c < e"
    "\<And>p. checked_proof X nonce (dc_request c) (dc_ms c div 1000) = Inr (Some p) \<Longrightarrow> dp_jti p = jti"
    "checked_proof X nonce (dc_request c) (dc_ms c div 1000) \<noteq> Inr None"
  shows "\<exists>err. dpop_run X nonce cs seen ! j = Inl err"
  using assms(1-4)
proof (induction cs arbitrary: seen j)
  case (Cons d cs)
  show ?case
  proof (cases j)
    case 0
    then have "d = c" using Cons.prems(3) by simp
    have "\<exists>err. fst (dpop_call_result X nonce c seen) = Inl err"
      using replay_unique_refuses[OF Cons.prems(1)[unfolded replay_key_def] assms(5)] assms(6,7)
      by (auto simp: dpop_call_result_def check_proof_cases split: sum.splits option.splits)
    then show ?thesis using 0 \<open>d = c\<close> by (auto split: prod.splits)
  next
    case (Suc i)
    then have i: "i < length cs" "cs ! i = c" using Cons.prems by auto
    then have "dc_ms d \<le> dc_ms c" using Cons.prems(4) nth_mem[OF i(1)] by auto
    then have "remembered (replay_key (dc_client c) jti) e (snd (dpop_call_result X nonce d seen))"
      using Cons.prems(1) assms(5) by (simp add: dpop_call_result_def check_proof_keeps)
    from Cons.IH[OF this i] Cons.prems(4) Suc show ?thesis by (auto split: prod.splits)
  qed
qed simp

lemma dpop_run_split:
  "i < length cs \<Longrightarrow> \<exists>s. dpop_run X nonce cs seen = take i (dpop_run X nonce cs seen) @ dpop_run X nonce (drop i cs) s"
proof (induction cs arbitrary: i seen)
  case (Cons c cs)
  show ?case
  proof (cases i)
    case (Suc k)
    let ?s = "snd (dpop_call_result X nonce c seen)"
    have "k < length cs" using Cons.prems Suc by simp
    from Cons.IH[OF this, of ?s] obtain s where
      "dpop_run X nonce cs ?s = take k (dpop_run X nonce cs ?s) @ dpop_run X nonce (drop k cs) s" by blast
    then show ?thesis using Suc by (auto split: prod.splits)
  qed auto
qed simp

lemma dpop_run_at:
  assumes "i < length cs"
  obtains s where "dpop_run X nonce cs seen ! i = fst (dpop_call_result X nonce (cs ! i) s)"
proof -
  obtain s where run: "dpop_run X nonce cs seen = take i (dpop_run X nonce cs seen) @ dpop_run X nonce (drop i cs) s"
    using dpop_run_split[OF assms, of X nonce seen] by blast
  have "dpop_run X nonce cs seen ! i = dpop_run X nonce (drop i cs) s ! 0" by (subst run) (use assms in \<open>simp add: nth_append\<close>)
  then show thesis using that[of s] Cons_nth_drop_Suc[OF assms, symmetric] by (simp split: prod.splits)
qed

lemma dpop_run_twice:
  assumes "i < j" "j < length cs" "sorted (map dc_ms cs)" "dpop_run X nonce cs seen ! i = Inr (Some p)"
    "dc_client (cs ! j) = dc_client (cs ! i)" "dc_ms (cs ! j) < dc_ms (cs ! i) + DPOP_NONCE_MAX_AGE * 1000"
    "\<And>q. checked_proof X nonce (dc_request (cs ! j)) (dc_ms (cs ! j) div 1000) = Inr (Some q) \<Longrightarrow> dp_jti q = dp_jti p"
    "checked_proof X nonce (dc_request (cs ! j)) (dc_ms (cs ! j) div 1000) \<noteq> Inr None"
  shows "\<exists>err. dpop_run X nonce cs seen ! j = Inl err"
proof -
  have i: "i < length cs" using assms(1,2) by simp
  obtain s where run: "dpop_run X nonce cs seen = take i (dpop_run X nonce cs seen) @ dpop_run X nonce (drop i cs) s"
    using dpop_run_split[OF i, of X nonce seen] by blast
  have at: "dpop_run X nonce cs seen ! k = dpop_run X nonce (drop i cs) s ! (k - i)" if "i \<le> k" "k < length cs" for k
    by (subst run) (use that i in \<open>simp add: nth_append\<close>)
  let ?s = "snd (dpop_call_result X nonce (cs ! i) s)"
  have drop: "drop i cs = cs ! i # drop (Suc i) cs" using i by (simp add: Cons_nth_drop_Suc)
  have "fst (dpop_call_result X nonce (cs ! i) s) = Inr (Some p)" using at[of i] assms(4) i drop by (simp split: prod.splits)
  then have "remembered (replay_key (dc_client (cs ! i)) (dp_jti p)) (dc_ms (cs ! i) + DPOP_NONCE_MAX_AGE * 1000) ?s"
    using replay_unique_records[of "dc_ms (cs ! i)"]
    by (auto simp: dpop_call_result_def check_proof_cases replay_key_def split: sum.splits option.splits if_splits)
  moreover have "sorted (map dc_ms (drop (Suc i) cs))" using assms(3) by (metis drop_map sorted_wrt_drop)
  moreover have "drop (Suc i) cs ! (j - Suc i) = cs ! j" using assms(1,2) by simp
  ultimately have "\<exists>err. dpop_run X nonce (drop (Suc i) cs) ?s ! (j - Suc i) = Inl err"
    using dpop_run_refuses[of "cs ! j" "dp_jti p" _ ?s "j - Suc i" "drop (Suc i) cs", OF _ _ _ _ assms(6) assms(7,8)] assms(1,2,5) by simp
  moreover have "dpop_run X nonce (drop i cs) s ! (j - i) = dpop_run X nonce (drop (Suc i) cs) ?s ! (j - Suc i)"
    using assms(1) by (simp add: drop nth_Cons' split: prod.splits)
  ultimately show ?thesis using at[of j] assms(1,2) by simp
qed

section \<open>A proof is used once\<close>

lemma checked_proofE:
  assumes "checked_proof X nonce r now = Inr (Some p)"
  obtains h d k claim where "dr_dpop_headers r = [h]" "proof_key X h = Inr (d, k)" "proof_time (dj_claims d) now = Inr ()"
    "nonce_claim (dj_claims d) = Inr claim" "jti_claim (dj_claims d) = Inr (dp_jti p)" "proof_target X (dj_claims d) r = Inr (dp_htu p)"
    "proof_nonce X nonce claim now = Inr ()" "proof_ath X (dj_claims d) (dr_access_token r) = Inr ()" "dp_jkt p = thumbprint X k"
    "dr_method r \<noteq> []" "h \<noteq> []" "dp_htm p = dr_method r"
proof -
  obtain h where h: "extract_proof (dr_dpop_headers r) = Inr (Some h)"
    using assms by (auto simp: checked_proof_def split: if_splits option.splits elim!: res_bind_Inr_E)
  then have "dr_dpop_headers r = [h]" "h \<noteq> []" by (auto simp: extract_proof_def split: list.splits if_splits)
  then show thesis using assms h that by (fastforce simp: checked_proof_def split: if_splits elim!: res_bind_Inr_E)
qed

lemma proof_nonce_Some: "proof_nonce X (Some N) claim now = Inr () \<longleftrightarrow> (\<exists>c. claim = Some c \<and> nonce_check X N c now)"
  by (auto simp: proof_nonce_def split: option.splits)

lemma nonce_checkD:
  assumes "nonce_check X N c now"
  obtains k where "nonce_compute X N k = c" "k \<le> now div dn_rotation_interval N + 1" "now div dn_rotation_interval N \<le> k + 1"
proof -
  let ?q = "now div dn_rotation_interval N"
  consider "nonce_compute X N (?q + 1) = c" | "nonce_compute X N ?q = c" | "0 < ?q" "nonce_compute X N (?q - 1) = c"
    using assms by (auto simp: nonce_check_def nonce_counter_def Let_def)
  then show thesis by cases (use that in force)+
qed

lemma nonce_window:
  assumes "new_dpop_nonce secret R = Inr N" "inj_on (nonce_compute X N) {..<2 ^ 64}"
    "nonce_check X N c t1" "nonce_check X N c t2" "t1 + 1 < 2 ^ 64" "t2 + 1 < 2 ^ 64"
  shows "t2 < t1 + DPOP_NONCE_MAX_AGE"
proof -
  have R: "dn_rotation_interval N = R" "0 < R" "R \<le> 60" using assms(1) by (auto simp: new_dpop_nonce_def dpop_times split: if_splits)
  obtain k1 where k1: "nonce_compute X N k1 = c" "k1 \<le> t1 div R + 1" using nonce_checkD[OF assms(3)] R(1) by metis
  obtain k2 where k2: "nonce_compute X N k2 = c" "k2 \<le> t2 div R + 1" "t2 div R \<le> k2 + 1" using nonce_checkD[OF assms(4)] R(1) by metis
  have "t1 div R \<le> t1" "t2 div R \<le> t2" by (rule div_le_dividend)+
  then have "k1 < 2 ^ 64" "k2 < 2 ^ 64" using k1(2) k2(2) assms(5,6) by linarith+
  then have "k1 = k2" using inj_onD[OF assms(2), of k1 k2] k1(1) k2(1) by simp
  then have "t2 div R + 1 \<le> t1 div R + 3" using k1 k2 by simp
  then have "(t2 div R + 1) * R \<le> (t1 div R + 3) * R" by (rule mult_le_mono1)
  moreover have "(t1 div R + 3) * R \<le> t1 + 3 * R" by (simp add: algebra_simps)
  moreover have "t2 < (t2 div R + 1) * R" using R(2) by (simp add: dividend_less_div_times)
  ultimately show ?thesis using R(3) by (simp add: DPOP_NONCE_MAX_AGE_def)
qed

text \<open>C23. Where the server hands out nonces, a proof is accepted at most once for a client: in any sequence of requests, whatever
  else is proved in between, a later request of the same client with the header of an accepted one is refused. The
  nonce of a proof is good for three rotation intervals at most, and the replay store remembers the proof for longer.\<close>

theorem dpop_proof_accepted_once:
  assumes "new_dpop_nonce secret R = Inr N" "inj_on (nonce_compute X N) {..<2 ^ 64}" "sorted (map dc_ms cs)"
    "\<forall>c\<in>set cs. dc_ms c div 1000 + 1 < 2 ^ 64" "i < j" "j < length cs" "dc_client (cs ! j) = dc_client (cs ! i)"
    "dr_dpop_headers (dc_request (cs ! j)) = dr_dpop_headers (dc_request (cs ! i))"
    "dpop_run X (Some N) cs seen ! i = Inr (Some p)"
  shows "\<exists>err. dpop_run X (Some N) cs seen ! j = Inl err"
proof -
  let ?i = "cs ! i" and ?j = "cs ! j"
  have i: "i < length cs" using assms(5,6) by simp
  obtain s where "fst (dpop_call_result X (Some N) ?i s) = Inr (Some p)" using dpop_run_at[OF i] assms(9) by metis
  then have chk: "checked_proof X (Some N) (dc_request ?i) (dc_ms ?i div 1000) = Inr (Some p)"
    by (auto simp: dpop_call_result_def check_proof_cases split: sum.splits option.splits if_splits)
  then obtain h d k c where h: "dr_dpop_headers (dc_request ?i) = [h]" "proof_key X h = Inr (d, k)" "nonce_claim (dj_claims d) = Inr (Some c)"
    "jti_claim (dj_claims d) = Inr (dp_jti p)" "nonce_check X N c (dc_ms ?i div 1000)" "h \<noteq> []"
    by (elim checked_proofE) (auto simp: proof_nonce_Some)
  show ?thesis
  proof (cases "checked_proof X (Some N) (dc_request ?j) (dc_ms ?j div 1000) = Inr None \<or>
      (\<exists>q. checked_proof X (Some N) (dc_request ?j) (dc_ms ?j div 1000) = Inr (Some q))")
    case True
    have some: "checked_proof X (Some N) (dc_request ?j) (dc_ms ?j div 1000) \<noteq> Inr None"
      using h assms(8) by (auto simp: checked_proof_def extract_proof_def split: if_splits elim!: res_bind_Inr_E)
    with True obtain q where "checked_proof X (Some N) (dc_request ?j) (dc_ms ?j div 1000) = Inr (Some q)" by blast
    then have q: "nonce_check X N c (dc_ms ?j div 1000)"
      by (rule checked_proofE) (use h assms(8) in \<open>auto simp: proof_nonce_Some\<close>)
    have jti: "dp_jti q = dp_jti p" if "checked_proof X (Some N) (dc_request ?j) (dc_ms ?j div 1000) = Inr (Some q)" for q
      using that by (rule checked_proofE) (use h assms(8) in auto)
    have "dc_ms ?j div 1000 < dc_ms ?i div 1000 + DPOP_NONCE_MAX_AGE"
      using nonce_window[OF assms(1,2) h(5) q] assms(4) nth_mem[OF i] nth_mem[OF assms(6)] by blast
    then have "dc_ms ?j < dc_ms ?i + DPOP_NONCE_MAX_AGE * 1000" by linarith
    from dpop_run_twice[OF assms(5,6,3,9,7) this jti some] show ?thesis by blast
  next
    case False
    then obtain e where e: "checked_proof X (Some N) (dc_request ?j) (dc_ms ?j div 1000) = Inl e"
      by (cases "checked_proof X (Some N) (dc_request ?j) (dc_ms ?j div 1000)") (metis option.exhaust)+
    obtain s where "dpop_run X (Some N) cs seen ! j = fst (dpop_call_result X (Some N) ?j s)" by (rule dpop_run_at[OF assms(6)])
    then show ?thesis using e by (simp add: dpop_call_result_def check_proof_cases)
  qed
qed

section \<open>Witnesses\<close>

text \<open>Libraries that keep the bytes as they are, and a proof with the given nonce.\<close>

definition demo_key :: jwk where
  "demo_key = \<lparr>jw_kty = ''EC'', jw_crv = ''P-256'', jw_x = ''x'', jw_y = ''y'', jw_d = None, jw_kid = None, jw_alg = None, jw_use = None\<rparr>"

definition demo_oauth :: "string option \<Rightarrow> nat \<Rightarrow> oauth_ext" where
  "demo_oauth nonce iat =
     \<lparr>ox_sha256 = (\<lambda>s. map (\<lambda>c. word_of_nat (of_char c)) s), ox_hmac = (\<lambda>_ m. m), ox_str_bytes = (\<lambda>s. map (\<lambda>c. word_of_nat (of_char c)) s),
      ox_b64 = map (\<lambda>w. char_of (unat w)), ox_unb64 = (\<lambda>_. Inr (replicate 32 0)),
      ox_header_json = (\<lambda>_. []), ox_claims_json = (\<lambda>_. []),
      ox_header_parse = (\<lambda>_. Inr \<lparr>jh_alg = ''ES256'', jh_typ = Some DPOP_TYP, jh_kid = None, jh_jwk = Some demo_key, jh_extra = []\<rparr>),
      ox_claims_parse = (\<lambda>_. Inr \<lparr>jc_iss = None, jc_sub = None, jc_aud = None, jc_exp = None, jc_nbf = None, jc_iat = Some iat, jc_jti = Some ''j'',
        jc_extra = [(''htm'', JString ''POST''), (''htu'', JString ''u'')] @ (case nonce of None \<Rightarrow> [] | Some n \<Rightarrow> [(''nonce'', JString n)])\<rparr>),
      ox_point = (\<lambda>_ b. Inr b), ox_signature = (\<lambda>_ b. Inr b), ox_verify = (\<lambda>_ _ _ _. True), ox_sign = (\<lambda>_ _ b. Inr b),
      ox_url = (\<lambda>s. Some \<lparr>u_scheme = ''https'', u_username = [], u_password = None, u_host = None, u_port = None, u_path = s, u_query = None,
        u_fragment = None, u_origin = [], u_str = s\<rparr>),
      ox_query_pairs = (\<lambda>_. []), ox_append = (\<lambda>u _. u_str u), ox_fragment = (\<lambda>u _. u_str u)\<rparr>"

definition demo_dpop_request :: dpop_request where
  "demo_dpop_request = \<lparr>dr_method = ''POST'', dr_uri = ''u'', dr_dpop_headers = [''h.c.s''], dr_access_token = None\<rparr>"

lemma demo_checked_proof:
  "checked_proof (demo_oauth nonce iat) N demo_dpop_request now =
     res_bind (proof_time (no_claims\<lparr>jc_iat := Some iat\<rparr>) now) (\<lambda>_. res_bind (proof_nonce (demo_oauth nonce iat) N nonce now) (\<lambda>_.
       Inr (Some \<lparr>dp_jti = ''j'', dp_jkt = thumbprint (demo_oauth nonce iat) demo_key, dp_htm = ''POST'', dp_htu = ''u''\<rparr>)))"
  by (auto simp: checked_proof_def demo_dpop_request_def extract_proof_def proof_key_def jwt_decode_def decode_json_part_def demo_oauth_def DPOP_TYP_def
      demo_key_def is_private_def verify_signature_def jwk_curve_def from_crv_def to_sec1_uncompressed_def decode_coordinate_def decompress_point_def
      proof_time_def no_claims_def nonce_claim_def jti_claim_def proof_target_def parse_htu_def normalize_url_def proof_ath_def res_bind_def
      split: sum.splits option.splits)

lemma bytes_determine:
  "(\<forall>i<k. n div 256 ^ i mod 256 = m div 256 ^ i mod (256 :: nat)) \<Longrightarrow> n mod 256 ^ k = m mod 256 ^ k"
proof (induction k)
  case (Suc k)
  then show ?case using mod_mult2_eq[of n "256 ^ k" 256] mod_mult2_eq[of m "256 ^ k" 256] by (simp add: mult.commute)
qed simp

lemma to_be_bytes_inj: "inj_on to_be_bytes {..<2 ^ 64}"
proof (rule inj_onI)
  fix n m :: nat assume a: "n \<in> {..<2 ^ 64}" "m \<in> {..<2 ^ 64}" "to_be_bytes n = to_be_bytes m"
  have "n div 256 ^ i mod 256 = m div 256 ^ i mod 256" if "i < 8" for i
  proof -
    have "to_be_bytes n ! (7 - i) = to_be_bytes m ! (7 - i)" using a(3) by simp
    then have "(word_of_nat (n div 256 ^ i) :: 8 word) = word_of_nat (m div 256 ^ i)" using that nth_upt[of 0 "7 - i" 8] by (simp add: to_be_bytes_def del: upt_Suc)
    then have "unat (word_of_nat (n div 256 ^ i) :: 8 word) = unat (word_of_nat (m div 256 ^ i) :: 8 word)" by simp
    then show ?thesis by (simp add: unat_of_nat)
  qed
  then have "n mod 256 ^ 8 = m mod 256 ^ 8" by (intro bytes_determine) blast
  then show "n = m" using a(1,2) by simp
qed

lemma demo_nonce_inj: "inj_on (nonce_compute (demo_oauth nonce iat) N) {..<2 ^ 64}"
proof (rule inj_onI)
  fix n m :: nat assume a: "n \<in> {..<2 ^ 64}" "m \<in> {..<2 ^ 64}" "nonce_compute (demo_oauth nonce iat) N n = nonce_compute (demo_oauth nonce iat) N m"
  have "inj (\<lambda>w :: 8 word. char_of (unat w))"
  proof (rule injI)
    fix v w :: "8 word" assume "char_of (unat v) = char_of (unat w)"
    then have "of_char (char_of (unat v)) = (of_char (char_of (unat w)) :: nat)" by simp
    moreover have "unat v < 256" "unat w < 256" using unsigned_less[of v] unsigned_less[of w] by simp_all
    ultimately have "unat v = unat w" by simp
    then show "v = w" by (rule unsigned_word_eqI)
  qed
  then have "to_be_bytes n = to_be_bytes m" using a(3) by (simp add: nonce_compute_def demo_oauth_def inj_map_eq_map)
  then show "n = m" using inj_onD[OF to_be_bytes_inj _ a(1,2)] by simp
qed

definition demo_nonce :: dpop_nonce where
  "demo_nonce = \<lparr>dn_secret = [], dn_rotation_interval = 60\<rparr>"

definition demo_calls :: "dpop_call list" where
  "demo_calls = [\<lparr>dc_request = demo_dpop_request, dc_client = None, dc_ms = 5000\<rparr>, \<lparr>dc_request = demo_dpop_request, dc_client = None, dc_ms = 9000\<rparr>]"

theorem dpop_proof_accepted_once_witness:
  "let X = demo_oauth (Some (replicate 8 (CHR 0x00))) 0 in
   (\<exists>p. dpop_run X (Some demo_nonce) demo_calls [] ! 0 = Inr (Some p)) \<and> (\<exists>err. dpop_run X (Some demo_nonce) demo_calls [] ! 1 = Inl err)"
proof -
  let ?X = "demo_oauth (Some (replicate 8 (CHR 0x00))) 0"
  have "nonce_compute ?X demo_nonce 0 = replicate 8 (CHR 0x00)"
    by (simp add: nonce_compute_def demo_oauth_def to_be_bytes_def upt_rec numeral_eq_Suc char_of_def)
  then have "nonce_check ?X demo_nonce (replicate 8 (CHR 0x00)) 5" by (simp add: nonce_check_def nonce_counter_def demo_nonce_def Let_def)
  then have first: "\<exists>p. dpop_run ?X (Some demo_nonce) demo_calls [] ! 0 = Inr (Some p)"
    by (simp add: demo_calls_def dpop_call_result_def check_proof_cases demo_checked_proof proof_time_def no_claims_def dpop_times saturating_add_def
        u64_max_def proof_nonce_def replay_unique_def Let_def split: prod.splits)
  then obtain p where "dpop_run ?X (Some demo_nonce) demo_calls [] ! 0 = Inr (Some p)" by blast
  from dpop_proof_accepted_once[of "[]" 60 demo_nonce ?X demo_calls 0 1, OF _ demo_nonce_inj _ _ _ _ _ _ this] first show ?thesis
    by (simp add: new_dpop_nonce_def dpop_times demo_nonce_def demo_calls_def)
qed

text \<open>C24. Where the server hands out none, as for the space credentials, a proof can be used again: the store forgets it after
  180 seconds, and its time stamp is accepted for 190 seconds and more.\<close>

theorem proof_without_nonce_replayed:
  assumes "dpop_call_result X None c seen = (Inr (Some p), seen')" "dr_dpop_headers (dc_request c) = [h]"
    "proof_key X h = Inr (d, k)" "jc_iat (dj_claims d) = Some iat" "jc_exp (dj_claims d) = None"
    "dc_ms c + DPOP_NONCE_MAX_AGE * 1000 \<le> ms" "ms div 1000 \<le> iat + DPOP_IAT_MAX_AGE + DPOP_CLOCK_TOLERANCE"
  shows "fst (dpop_call_result X None (c\<lparr>dc_ms := ms\<rparr>) seen') = Inr (Some p)"
proof -
  let ?ns = "dpop_replay_namespace (dc_client c)" and ?w = "DPOP_NONCE_MAX_AGE * 1000"
  have chk: "checked_proof X None (dc_request c) (dc_ms c div 1000) = Inr (Some p)"
    and first: "fst (replay_unique (dc_ms c) ?ns (dp_jti p) ?w seen)" "seen' = snd (replay_unique (dc_ms c) ?ns (dp_jti p) ?w seen)"
    using assms(1) by (auto simp: dpop_call_result_def check_proof_cases split: sum.splits option.splits if_splits)
  have "dc_ms c \<le> ms" using assms(6) by simp
  then have "dc_ms c div 1000 \<le> ms div 1000" by (rule div_le_mono)
  then have "proof_time (dj_claims d) (ms div 1000) = Inr ()" if "proof_time (dj_claims d) (dc_ms c div 1000) = Inr ()"
    using that assms(4,5,7) by (auto simp: proof_time_def saturating_add_def split: if_splits)
  then have again: "checked_proof X None (dc_request c) (ms div 1000) = Inr (Some p)"
    using chk assms(2,3) by (auto simp: checked_proof_def extract_proof_def proof_nonce_def split: if_splits option.splits elim!: res_bind_Inr_E)
  have "map_of (filter (\<lambda>(_, expiry). expiry > dc_ms c) seen) (?ns @ '':'' @ dp_jti p) = None"
    "seen' = (?ns @ '':'' @ dp_jti p, dc_ms c + ?w) # filter (\<lambda>(_, expiry). expiry > dc_ms c) seen"
    using first by (auto simp: replay_unique_def Let_def split: option.splits)
  then have "map_of (filter (\<lambda>(_, expiry). expiry > ms) seen') (?ns @ '':'' @ dp_jti p) = None"
    using assms(6) by (auto simp: map_of_eq_None_iff)
  then show ?thesis using again by (simp add: dpop_call_result_def check_proof_cases replay_unique_def Let_def)
qed

theorem proof_without_nonce_replayed_witness:
  "let X = demo_oauth None 0; c = \<lparr>dc_request = demo_dpop_request, dc_client = None, dc_ms = 5000\<rparr> in
   \<exists>p q seen. dpop_call_result X None c [] = (Inr (Some p), seen) \<and> fst (dpop_call_result X None (c\<lparr>dc_ms := 190000\<rparr>) seen) = Inr (Some q)"
proof -
  let ?X = "demo_oauth None 0" and ?c = "\<lparr>dc_request = demo_dpop_request, dc_client = None, dc_ms = 5000\<rparr>"
  obtain p seen where one: "dpop_call_result ?X None ?c [] = (Inr (Some p), seen)"
    by (simp add: dpop_call_result_def check_proof_cases demo_checked_proof proof_time_def no_claims_def dpop_times saturating_add_def
        u64_max_def proof_nonce_def replay_unique_def Let_def)
  obtain d where "proof_key ?X ''h.c.s'' = Inr (d, demo_key)" "jc_iat (dj_claims d) = Some 0" "jc_exp (dj_claims d) = None"
    by (simp add: proof_key_def jwt_decode_def decode_json_part_def demo_oauth_def DPOP_TYP_def demo_key_def is_private_def verify_signature_def
        jwk_curve_def from_crv_def to_sec1_uncompressed_def decode_coordinate_def decompress_point_def)
  from proof_without_nonce_replayed[OF one _ this, of 190000] one show ?thesis by (auto simp: dpop_times demo_dpop_request_def)
qed

end
