(* ===== verification/Oauth_Client.thy ===== *)
theory Oauth_Client
  imports Oauth_Jwt
begin

text \<open>
  OAuth clients: \<open>rsky-oauth/src/client.rs\<close>. The metadata fetcher that the host application provides and the parsing
  of URLs are parameters; a client identifier's validation, the metadata rules, client authentication and the
  validation of authorization requests are here. A \<open>HashSet\<close> of strings is the list they were collected from.
\<close>

section \<open>Clients\<close>

definition LOOPBACK_CLIENT_ID_ORIGIN :: string where
  "LOOPBACK_CLIENT_ID_ORIGIN = ''http://localhost''"

definition CLIENT_ASSERTION_MAX_AGE :: nat where
  "CLIENT_ASSERTION_MAX_AGE = 60"

definition DEFAULT_LOOPBACK_REDIRECT_URIS :: "string list" where
  "DEFAULT_LOOPBACK_REDIRECT_URIS = [''http://127.0.0.1/'', ''http://[::1]/'']"

record metadata_fetcher =
  fetch_client_metadata :: "string \<Rightarrow> oauth_error + oauth_client_metadata"
  fetch_jwks :: "string \<Rightarrow> oauth_error + jwk_set"

record client =
  cl_id :: string
  cl_metadata :: oauth_client_metadata
  cl_jwks :: "jwk_set option"

definition bad_assertion :: "oauth_error \<Rightarrow> oauth_error" where
  "bad_assertion e = InvalidClient (''invalid client assertion: '' @ error_description e)"

definition client_authenticate :: "oauth_ext \<Rightarrow> client \<Rightarrow> string option \<Rightarrow> string option \<Rightarrow> string \<Rightarrow> nat \<Rightarrow> oauth_error + client_auth" where
  "client_authenticate X c client_assertion_type client_assertion issuer now =
     (if \<not> is_confidential (cl_metadata c) then Inr AuthNone
      else if client_assertion_type \<noteq> Some CLIENT_ASSERTION_TYPE_JWT_BEARER
      then Inl (InvalidClient (''client_assertion_type must be \"'' @ CLIENT_ASSERTION_TYPE_JWT_BEARER @ ''\"''))
      else case client_assertion of
        None \<Rightarrow> Inl (InvalidClient ''client_assertion is required'')
      | Some assertion \<Rightarrow>
          res_bind (map_err bad_assertion (jwt_decode X assertion)) (\<lambda>decoded.
          let claims = dj_claims decoded in
          case jh_kid (dj_header decoded) of
            None \<Rightarrow> Inl (InvalidClient ''client assertion missing \"kid\" header'')
          | Some kid \<Rightarrow>
              (case Option.bind (cl_jwks c) (\<lambda>keys. find_by_kid keys kid) of
                 None \<Rightarrow> Inl (InvalidClient (''no key found for kid \"'' @ kid @ ''\"''))
               | Some key \<Rightarrow>
                   res_bind (map_err bad_assertion (verify_signature X decoded key)) (\<lambda>_.
                   res_bind (map_err bad_assertion (res_bind (validate_iss claims (cl_id c)) (\<lambda>_. validate_aud claims issuer))) (\<lambda>_.
                   if jc_sub claims \<noteq> Some (cl_id c) then Inl (InvalidClient ''client assertion \"sub\" must be the client_id'')
                   else if (case jc_jti claims of Some j \<Rightarrow> j | None \<Rightarrow> []) = [] then Inl (InvalidClient ''client assertion missing \"jti\"'')
                   else case jc_iat claims of
                     None \<Rightarrow> Inl (InvalidClient ''client assertion missing \"iat\"'')
                   | Some iat \<Rightarrow>
                       if iat > now \<or> now - iat > CLIENT_ASSERTION_MAX_AGE then Inl (InvalidClient ''client assertion expired'')
                       else Inr (PrivateKeyJwt (jh_alg (dj_header decoded)) kid (thumbprint X key)))))))"

section \<open>Authorization requests\<close>

record par_request =
  pr_client_id :: string
  pr_response_type :: string
  pr_redirect_uri :: "string option"
  pr_scope :: "string option"
  pr_state :: "string option"
  pr_code_challenge :: "string option"
  pr_code_challenge_method :: "string option"
  pr_login_hint :: "string option"
  pr_response_mode :: "string option"
  pr_prompt :: "string option"

fun scope_loop :: "string list \<Rightarrow> string list \<Rightarrow> string list \<Rightarrow> oauth_error + string list" where
  "scope_loop allowed seen [] = Inr seen"
| "scope_loop allowed seen (token # ts) =
     (if token = ''openid'' then Inl (InvalidRequest ''openid scope is not supported'')
      else if token \<notin> set allowed then Inl (InvalidRequest (''scope \"'' @ token @ ''\" is not registered in the client metadata''))
      else scope_loop allowed (if token \<in> set seen then seen else seen @ [token]) ts)"

definition validate_requested_scope :: "string option \<Rightarrow> oauth_client_metadata \<Rightarrow> oauth_error + string" where
  "validate_requested_scope requested metadata =
     res_bind (scope_loop (allowed_scopes metadata) [] (split_ascii_whitespace (case requested of Some s \<Rightarrow> s | None \<Rightarrow> []))) (\<lambda>seen.
     if SCOPE_ATPROTO \<notin> set seen then Inl (InvalidRequest (''the \"'' @ SCOPE_ATPROTO @ ''\" scope is required''))
     else Inr (join '' '' seen))"

definition host_str :: "url \<Rightarrow> string option" where
  "host_str u = map_option (\<lambda>h. case h of Domain s \<Rightarrow> s | Ipv4 s \<Rightarrow> s | Ipv6 s \<Rightarrow> ''['' @ s @ '']'') (u_host u)"

definition compare_redirect_uri :: "oauth_ext \<Rightarrow> string \<Rightarrow> string \<Rightarrow> bool" where
  "compare_redirect_uri X registered requested \<longleftrightarrow>
     registered = requested \<or>
     (case (ox_url X registered, ox_url X requested) of
        (Some g, Some q) \<Rightarrow>
          host_str g \<in> {Some ''127.0.0.1'', Some ''[::1]''} \<and> u_port g = None \<and> u_scheme g = u_scheme q \<and> host_str g = host_str q \<and>
          u_path g = u_path q \<and> u_query g = u_query q
      | _ \<Rightarrow> False)"

definition requested_challenge :: "par_request \<Rightarrow> oauth_error + string \<times> string" where
  "requested_challenge p =
     (case (pr_code_challenge p, pr_code_challenge_method p) of
        (Some challenge, Some m) \<Rightarrow>
          if m = CODE_CHALLENGE_METHOD_S256 \<and> challenge \<noteq> [] then Inr (challenge, CODE_CHALLENGE_METHOD_S256)
          else Inl (InvalidRequest (''unsupported code_challenge_method \"'' @ m @ ''\"''))
      | (Some _, None) \<Rightarrow> Inl (InvalidRequest ''code_challenge_method is required'')
      | (None, _) \<Rightarrow> Inl (InvalidRequest ''use of PKCE is required''))"

definition requested_redirect :: "oauth_ext \<Rightarrow> oauth_client_metadata \<Rightarrow> string option \<Rightarrow> oauth_error + string" where
  "requested_redirect X m uri =
     (case uri of
        Some u \<Rightarrow>
          if \<not> list_ex (\<lambda>registered. compare_redirect_uri X registered u) (cm_redirect_uris m)
          then Inl (InvalidRequest ''invalid redirect_uri'') else Inr u
      | None \<Rightarrow> (case cm_redirect_uris m of [single] \<Rightarrow> Inr single | _ \<Rightarrow> Inl (InvalidRequest ''redirect_uri is required'')))"

definition requested_prompt :: "bool \<Rightarrow> string option \<Rightarrow> oauth_error + string option" where
  "requested_prompt restricted prompt =
     (if prompt = Some ''none'' \<and> restricted then Inl (InvalidRequest ''public clients are not allowed to use silent sign-on'')
      else if prompt = Some ''create'' then Inr (Some ''create'')
      else if restricted then Inr (Some ''consent'')
      else Inr prompt)"

definition requested_mode :: "string option \<Rightarrow> oauth_error + string option" where
  "requested_mode mode =
     (case mode of
        None \<Rightarrow> Inr None
      | Some m \<Rightarrow> if m = ''query'' then Inr None else if m = ''fragment'' then Inr (Some ''fragment'')
                  else Inl (InvalidRequest (''unsupported response_mode: '' @ m)))"

definition validate_request :: "oauth_ext \<Rightarrow> client \<Rightarrow> par_request \<Rightarrow> bool \<Rightarrow> oauth_error + authorization_request_parameters" where
  "validate_request X c p trusted =
     (if pr_client_id p \<noteq> cl_id c then Inl (InvalidRequest ''client_id does not match'')
      else if pr_response_type p \<noteq> RESPONSE_TYPE_CODE
      then Inl (InvalidRequest (''unsupported response_type \"'' @ pr_response_type p @ ''\"''))
      else if RESPONSE_TYPE_CODE \<notin> set (cm_response_types (cl_metadata c))
      then Inl (InvalidRequest ''client metadata does not declare the \"code\" response type'')
      else
      res_bind (validate_requested_scope (pr_scope p) (cl_metadata c)) (\<lambda>scope.
      res_bind (requested_challenge p) (\<lambda>(code_challenge, code_challenge_method).
      res_bind (requested_redirect X (cl_metadata c) (pr_redirect_uri p)) (\<lambda>redirect_uri.
      res_bind (requested_prompt (\<not> is_confidential (cl_metadata c) \<and> \<not> trusted) (pr_prompt p)) (\<lambda>prompt.
      res_bind (requested_mode (pr_response_mode p)) (\<lambda>response_mode.
      Inr \<lparr>ap_client_id = cl_id c, ap_response_type = RESPONSE_TYPE_CODE, ap_redirect_uri = redirect_uri, ap_scope = scope,
           ap_state = pr_state p, ap_code_challenge = code_challenge, ap_code_challenge_method = code_challenge_method,
           ap_login_hint = map_option (map to_ascii_lowercase) (pr_login_hint p), ap_response_mode = response_mode,
           ap_prompt = prompt, ap_dpop_jkt = None\<rparr>))))))"

section \<open>Client metadata\<close>

fun loopback_pairs :: "string option \<Rightarrow> string list \<Rightarrow> (string \<times> string) list \<Rightarrow> oauth_error + string option \<times> string list" where
  "loopback_pairs scope uris [] = Inr (scope, uris)"
| "loopback_pairs scope uris ((key, v) # ps) =
     (if key = ''scope''
      then if scope \<noteq> None then Inl (InvalidClient ''duplicate \"scope\" query parameter'') else loopback_pairs (Some v) uris ps
      else if key = ''redirect_uri'' then loopback_pairs scope (uris @ [v]) ps
      else Inl (InvalidClient (''unexpected query parameter \"'' @ key @ ''\"'')))"

definition split_once :: "char \<Rightarrow> string \<Rightarrow> (string \<times> string) option" where
  "split_once ch s = (if ch \<in> set s then Some (takeWhile (\<lambda>x. x \<noteq> ch) s, tl (dropWhile (\<lambda>x. x \<noteq> ch) s)) else None)"

definition loopback_client_metadata :: "oauth_ext \<Rightarrow> string \<Rightarrow> oauth_error + oauth_client_metadata" where
  "loopback_client_metadata X client_id =
     (let rest = drop (length LOOPBACK_CLIENT_ID_ORIGIN) client_id;
          (path, query) = (case split_once CHR ''?'' rest of Some (p, q) \<Rightarrow> (p, Some q) | None \<Rightarrow> (rest, None))
      in if CHR ''#'' \<in> set rest then Inl (InvalidClient ''loopback client_id must not contain a fragment'')
         else if path \<noteq> [] \<and> path \<noteq> ''/'' then Inl (InvalidClient ''loopback client_id must not contain a path component'')
         else res_bind (loopback_pairs None [] (case query of None \<Rightarrow> [] | Some q \<Rightarrow> ox_query_pairs X q)) (\<lambda>(scope, redirect_uris).
         Inr ((new_client_metadata client_id)
           \<lparr>cm_scope := Some (case scope of Some s \<Rightarrow> s | None \<Rightarrow> SCOPE_ATPROTO),
            cm_redirect_uris := (if redirect_uris = [] then DEFAULT_LOOPBACK_REDIRECT_URIS else redirect_uris),
            cm_grant_types := [GRANT_AUTHORIZATION_CODE, GRANT_REFRESH_TOKEN],
            cm_token_endpoint_auth_method := Some AUTH_METHOD_NONE,
            cm_application_type := APPLICATION_TYPE_NATIVE,
            cm_dpop_bound_access_tokens := True\<rparr>)))"

definition is_hostname_ip :: "url \<Rightarrow> bool" where
  "is_hostname_ip u = (case u_host u of Some (Ipv4 _) \<Rightarrow> True | Some (Ipv6 _) \<Rightarrow> True | _ \<Rightarrow> False)"

definition is_local_hostname :: "string \<Rightarrow> bool" where
  "is_local_hostname host \<longleftrightarrow>
     (let parts = split_on CHR ''.'' host
      in length parts < 2 \<or> last parts \<in> {''test'', ''local'', ''localhost'', ''invalid'', ''example''})"

definition is_private_use_scheme :: "url \<Rightarrow> bool" where
  "is_private_use_scheme u \<longleftrightarrow> CHR ''.'' \<in> set (u_scheme u)"

definition reverse_domain :: "string \<Rightarrow> string" where
  "reverse_domain domain = join ''.'' (rev (split_on CHR ''.'' domain))"

definition has_credentials :: "url \<Rightarrow> bool" where
  "has_credentials u \<longleftrightarrow> u_username u \<noteq> [] \<or> u_password u \<noteq> None"

definition host_or_empty :: "url \<Rightarrow> string" where
  "host_or_empty u = (case host_str u of Some h \<Rightarrow> h | None \<Rightarrow> [])"

definition validate_discoverable_client_id :: "oauth_ext \<Rightarrow> string \<Rightarrow> oauth_error + url" where
  "validate_discoverable_client_id X client_id =
     (let invalid = (\<lambda>reason. Inl (InvalidClient (''invalid client_id: '' @ reason)))
      in case ox_url X client_id of
           None \<Rightarrow> invalid ''not a valid URL''
         | Some u \<Rightarrow>
             if u_scheme u \<noteq> ''https'' then invalid ''must use the https scheme''
             else if has_credentials u then invalid ''must not contain credentials''
             else if u_fragment u \<noteq> None then invalid ''must not contain a fragment''
             else if u_path u = ''/'' then invalid ''must contain a path component''
             else if ends_with (u_path u) ''/'' then invalid ''must not end with a trailing slash''
             else if is_hostname_ip u then invalid ''hostname must not be an IP address''
             else if is_local_hostname (host_or_empty u) then invalid ''hostname must not be a local hostname''
             else if u_str u \<noteq> client_id then invalid ''must be in canonical form''
             else Inr u)"

definition validate_redirect_uri :: "oauth_ext \<Rightarrow> string \<Rightarrow> bool \<Rightarrow> oauth_error + unit" where
  "validate_redirect_uri X redirect_uri native =
     (let invalid = (\<lambda>reason. Inl (InvalidClient (''invalid redirect_uri \"'' @ redirect_uri @ ''\": '' @ reason)))
      in case ox_url X redirect_uri of
           None \<Rightarrow> invalid ''not a valid URL''
         | Some u \<Rightarrow>
             if has_credentials u then invalid ''must not contain credentials''
             else let host = host_or_empty u in
             if host = ''localhost'' then invalid ''\"localhost\" is not allowed, use an explicit loopback IP''
             else if u_scheme u = ''http'' \<and> host \<in> {''127.0.0.1'', ''[::1]''}
             then if \<not> native then invalid ''loopback redirect URIs are only allowed for native apps'' else Inr ()
             else if u_scheme u = ''http'' then invalid ''only loopback redirect URIs may use the \"http\" scheme''
             else if u_scheme u = ''https''
             then if is_local_hostname host then invalid ''must not use a local hostname'' else Inr ()
             else if is_private_use_scheme u
             then if \<not> native then invalid ''private-use schemes are only allowed for native apps'' else Inr ()
             else invalid ''invalid scheme'')"

definition client_uri_ok :: "oauth_ext \<Rightarrow> url \<Rightarrow> string option \<Rightarrow> oauth_error + unit" where
  "client_uri_ok X client_id_url client_uri =
     (case client_uri of
        None \<Rightarrow> Inr ()
      | Some uri \<Rightarrow>
          (case ox_url X uri of
             None \<Rightarrow> Inl (InvalidClient ''invalid client_uri'')
           | Some u \<Rightarrow>
               if u_origin u \<noteq> u_origin client_id_url then Inl (InvalidClient ''client_uri must have the same origin as the client_id'')
               else if \<not> starts_with (u_path client_id_url) (if ends_with (u_path u) ''/'' then u_path u else u_path u @ ''/'')
               then Inl (InvalidClient ''client_uri must be a parent URL of the client_id'')
               else Inr ()))"

definition validate_discoverable_client_metadata :: "oauth_ext \<Rightarrow> url \<Rightarrow> oauth_client_metadata \<Rightarrow> oauth_error + unit" where
  "validate_discoverable_client_metadata X client_id_url metadata =
     res_bind (client_uri_ok X client_id_url (cm_client_uri metadata)) (\<lambda>_.
     let expected_scheme = reverse_domain (host_or_empty client_id_url)
     in if list_ex (\<lambda>u. is_private_use_scheme u \<and> u_scheme u \<noteq> expected_scheme) (List.map_filter (ox_url X) (cm_redirect_uris metadata))
        then Inl (InvalidClient (''private-use redirect scheme must be \"'' @ expected_scheme @ '':\"''))
        else Inr ())"

fun no_duplicate_scope :: "string list \<Rightarrow> string list \<Rightarrow> oauth_error + unit" where
  "no_duplicate_scope seen [] = Inr ()"
| "no_duplicate_scope seen (s # ss) =
     (if s \<in> set seen then Inl (InvalidClient (''duplicate scope \"'' @ s @ ''\"'')) else no_duplicate_scope (s # seen) ss)"

fun grant_loop :: "string list \<Rightarrow> string list \<Rightarrow> oauth_error + unit" where
  "grant_loop seen [] = Inr ()"
| "grant_loop seen (g # gs) =
     (if g \<in> set seen then Inl (InvalidClient (''duplicate grant type \"'' @ g @ ''\"''))
      else if g = GRANT_AUTHORIZATION_CODE \<or> g = GRANT_REFRESH_TOKEN then grant_loop (g # seen) gs
      else if g = ''implicit'' then Inl (InvalidClient ''grant type \"implicit\" is not allowed'')
      else Inl (InvalidClient (''grant type \"'' @ g @ ''\" is not supported'')))"

definition auth_method_ok :: "oauth_client_metadata \<Rightarrow> oauth_error + unit" where
  "auth_method_ok m =
     (if auth_method m = AUTH_METHOD_NONE
      then if cm_token_endpoint_auth_signing_alg m \<noteq> None
           then Inl (InvalidClient ''token_endpoint_auth_signing_alg is not allowed with method \"none\"'') else Inr ()
      else if auth_method m = AUTH_METHOD_PRIVATE_KEY_JWT
      then if cm_jwks m = Some [] then Inl (InvalidClient ''jwks must contain at least one key'')
           else if cm_jwks m = None \<and> cm_jwks_uri m = None then Inl (InvalidClient ''private_key_jwt requires jwks or jwks_uri'')
           else if cm_token_endpoint_auth_signing_alg m = None then Inl (InvalidClient ''missing token_endpoint_auth_signing_alg'')
           else Inr ()
      else Inl (InvalidClient (''token_endpoint_auth_method \"'' @ auth_method m @ ''\" is not supported'')))"

fun redirect_uris_ok :: "oauth_ext \<Rightarrow> bool \<Rightarrow> string list \<Rightarrow> oauth_error + unit" where
  "redirect_uris_ok X native [] = Inr ()"
| "redirect_uris_ok X native (u # us) = res_bind (validate_redirect_uri X u native) (\<lambda>_. redirect_uris_ok X native us)"

definition validate_client_metadata :: "oauth_ext \<Rightarrow> string \<Rightarrow> oauth_client_metadata \<Rightarrow> oauth_error + unit" where
  "validate_client_metadata X client_id m =
     (if cm_client_id m \<noteq> client_id then Inl (InvalidClient ''client_id does not match'')
      else if cm_jwks m \<noteq> None \<and> cm_jwks_uri m \<noteq> None then Inl (InvalidClient ''jwks and jwks_uri are mutually exclusive'')
      else if allowed_scopes m = [] then Inl (InvalidClient ''missing scope property'')
      else
      res_bind (no_duplicate_scope [] (allowed_scopes m)) (\<lambda>_.
      if SCOPE_ATPROTO \<notin> set (allowed_scopes m) then Inl (InvalidClient (''missing \"'' @ SCOPE_ATPROTO @ ''\" scope''))
      else
      res_bind (grant_loop [] (cm_grant_types m)) (\<lambda>_.
      res_bind (auth_method_ok m) (\<lambda>_.
      if \<not> cm_dpop_bound_access_tokens m then Inl (InvalidClient ''\"dpop_bound_access_tokens\" must be true'')
      else if RESPONSE_TYPE_CODE \<notin> set (cm_response_types m) then Inl (InvalidClient ''response_types must include \"code\"'')
      else if GRANT_AUTHORIZATION_CODE \<notin> set (cm_grant_types m)
      then Inl (InvalidClient (''grant_types must include \"'' @ GRANT_AUTHORIZATION_CODE @ ''\"''))
      else if cm_redirect_uris m = [] then Inl (InvalidClient ''at least one redirect_uri is required'')
      else let native = (cm_application_type m = APPLICATION_TYPE_NATIVE) in
      if native \<and> auth_method m \<noteq> AUTH_METHOD_NONE then Inl (InvalidClient ''native clients must authenticate using the \"none\" method'')
      else
      res_bind (redirect_uris_ok X native (cm_redirect_uris m)) (\<lambda>_.
      if starts_with client_id LOOPBACK_CLIENT_ID_ORIGIN
      then if cm_client_uri m \<noteq> None then Inl (InvalidClient ''client_uri is not allowed for loopback clients'')
           else if \<not> native then Inl (InvalidClient ''loopback clients must have application_type \"native\"'')
           else Inr ()
      else res_bind (validate_discoverable_client_id X client_id) (\<lambda>u. validate_discoverable_client_metadata X u m))))))"

definition get_client :: "oauth_ext \<Rightarrow> metadata_fetcher \<Rightarrow> string \<Rightarrow> oauth_error + client" where
  "get_client X F client_id =
     res_bind (if starts_with client_id LOOPBACK_CLIENT_ID_ORIGIN then loopback_client_metadata X client_id
               else res_bind (validate_discoverable_client_id X client_id) (\<lambda>_. fetch_client_metadata F client_id)) (\<lambda>metadata.
     res_bind (validate_client_metadata X client_id metadata) (\<lambda>_.
     res_bind (case cm_jwks_uri metadata of Some uri \<Rightarrow> res_bind (fetch_jwks F uri) (\<lambda>ks. Inr (Some ks)) | None \<Rightarrow> Inr (cm_jwks metadata)) (\<lambda>jwks.
     Inr \<lparr>cl_id = client_id, cl_metadata = metadata, cl_jwks = jwks\<rparr>)))"

end
