(* ===== verification/Oauth_Provider.thy ===== *)
theory Oauth_Provider
  imports Oauth_Dpop Oauth_Client Oauth_Store
begin

text \<open>
  The OAuth provider: \<open>rsky-oauth/src/provider.rs\<close>. The configuration is the record \<open>provider\<close>; its state is that of the store
  it was given and that of the replay store. Every operation takes the moment it runs at and the random bytes it draws.
\<close>

section \<open>Configuration and state\<close>

definition AT_JWT :: string where
  "AT_JWT = ''at+jwt''"

definition EPHEMERAL_TOKEN_AUDIENCE_PREFIX :: string where
  "EPHEMERAL_TOKEN_AUDIENCE_PREFIX = ''oauth-provider-api@''"

definition PERMISSION_SETS_UNAVAILABLE :: string where
  "PERMISSION_SETS_UNAVAILABLE = ''Unable to retrieve permission sets''"

record client_credentials =
  cc_client_id :: string
  cc_client_assertion_type :: "string option"
  cc_client_assertion :: "string option"

record par_response =
  pp_request_uri :: string
  pp_expires_in :: nat

record token_request =
  tq_grant_type :: string
  tq_code :: "string option"
  tq_redirect_uri :: "string option"
  tq_code_verifier :: "string option"
  tq_refresh_token :: "string option"

record session_info =
  si_account :: account_info
  si_login_required :: bool
  si_consent_required :: bool

record authorize_page_data =
  pg_request_uri :: string
  pg_client_id :: string
  pg_client_name :: "string option"
  pg_client_uri :: "string option"
  pg_logo_uri :: "string option"
  pg_tos_uri :: "string option"
  pg_policy_uri :: "string option"
  pg_client_trusted :: bool
  pg_scopes :: "string list"
  pg_login_hint :: "string option"
  pg_prompt :: "string option"
  pg_sessions :: "session_info list"
  pg_selected_did :: "string option"

datatype authorize_outcome = Redirect string | Page authorize_page_data

datatype account_proof = DeviceProof string | Ephemeral string

record sign_in_result =
  sg_account :: account_info
  sg_ephemeral_token :: "string option"
  sg_new_session_id :: "string option"

record active_oauth_session =
  ax_token_id :: string
  ax_created_at :: nat
  ax_updated_at :: nat
  ax_active :: bool
  ax_client_id :: string
  ax_client_metadata :: "oauth_client_metadata option"
  ax_scope :: "string option"

record verified_access =
  va_did :: string
  va_scopes :: "string list"
  va_token_id :: string

record 's provider =
  pv_ext :: oauth_ext
  pv_issuer :: string
  pv_audience :: string
  pv_signing_key :: signing_key
  pv_fetcher :: metadata_fetcher
  pv_store :: "'s oauth_store"
  pv_nonce :: "dpop_nonce option"
  pv_trusted_clients :: "string list"
  pv_scope_expander :: "(string \<Rightarrow> string + string) option"
  pv_sessions_since :: "nat option"

record 's provider_state =
  ps_store :: 's
  ps_seen :: replay_store

definition on_store :: "('s, 'a) oaction \<Rightarrow> ('s provider_state, 'a) oaction" where
  "on_store m st = (let (r, s') = m (ps_store st) in (r, st\<lparr>ps_store := s'\<rparr>))"

definition on_seen :: "(replay_store, 'a) oaction \<Rightarrow> ('s provider_state, 'a) oaction" where
  "on_seen m st = (let (r, seen) = m (ps_seen st) in (r, st\<lparr>ps_seen := seen\<rparr>))"

definition is_trusted_client :: "'s provider \<Rightarrow> string \<Rightarrow> bool" where
  "is_trusted_client P client_id \<longleftrightarrow> client_id \<in> set (pv_trusted_clients P)"

definition authenticated_client :: "'s provider \<Rightarrow> client_credentials \<Rightarrow> nat \<Rightarrow> oauth_error + client \<times> client_auth" where
  "authenticated_client P credentials now =
     (if cc_client_id credentials = [] then Inl (InvalidRequest ''client_id is required'')
      else res_bind (get_client (pv_ext P) (pv_fetcher P) (cc_client_id credentials)) (\<lambda>c.
           res_bind (client_authenticate (pv_ext P) c (cc_client_assertion_type credentials) (cc_client_assertion credentials) (pv_issuer P) now) (\<lambda>a.
           Inr (c, a))))"

definition compile_scope :: "'s provider \<Rightarrow> string \<Rightarrow> oauth_error + string" where
  "compile_scope P scope =
     (case pv_scope_expander P of
        Some expand \<Rightarrow> map_err (\<lambda>_. InvalidScope PERMISSION_SETS_UNAVAILABLE) (expand scope)
      | None \<Rightarrow> Inr scope)"

definition dpop_check :: "'s provider \<Rightarrow> dpop_request \<Rightarrow> string option \<Rightarrow> nat \<Rightarrow> nat \<Rightarrow> ('s provider_state, dpop_proof option) oaction" where
  "dpop_check P dpop client_id now now_ms = on_seen (check_proof (pv_ext P) (pv_nonce P) dpop client_id now now_ms)"

section \<open>Authorization requests\<close>

definition pushed_authorization_request :: "'s provider \<Rightarrow> client_credentials \<Rightarrow> par_request \<Rightarrow> dpop_request \<Rightarrow> nat \<Rightarrow> nat \<Rightarrow> bytes
    \<Rightarrow> ('s provider_state, par_response) oaction" where
  "pushed_authorization_request P credentials request dpop now now_ms random =
     oa_bind (oa_lift (authenticated_client P credentials now)) (\<lambda>(c, auth).
     oa_bind (dpop_check P dpop (Some (cl_id c)) now now_ms) (\<lambda>p.
     oa_bind (oa_lift (validate_request (pv_ext P) c request (is_trusted_client P (cl_id c)))) (\<lambda>parameters.
     oa_bind (oa_lift (compile_scope P (ap_scope parameters))) (\<lambda>_.
     let request_id = generate_request_id random;
         data = \<lparr>rd_client_id = cl_id c, rd_client_auth = auth, rd_parameters = parameters\<lparr>ap_dpop_jkt := map_option dp_jkt p\<rparr>,
                 rd_expires_at = now + PAR_EXPIRES_IN, rd_device_id = None, rd_did = None, rd_code = None\<rparr>
     in oa_bind (on_store (os_create_request (pv_store P) request_id data)) (\<lambda>_.
        oa_ok \<lparr>pp_request_uri = request_uri_from_id request_id, pp_expires_in = PAR_EXPIRES_IN\<rparr>)))))"

definition active_request :: "'s provider \<Rightarrow> string \<Rightarrow> string \<Rightarrow> string \<Rightarrow> nat \<Rightarrow> ('s provider_state, string \<times> request_data) oaction" where
  "active_request P client_id request_uri device_id now =
     oa_bind (oa_lift (request_id_from_uri request_uri)) (\<lambda>request_id.
     oa_bind (on_store (os_read_request (pv_store P) request_id)) (\<lambda>found.
     let drop = (\<lambda>e. oa_bind (on_store (os_delete_request (pv_store P) request_id)) (\<lambda>_. oa_fail e))
     in case found of
          None \<Rightarrow> oa_fail (InvalidRequest ''unknown request_uri'')
        | Some data \<Rightarrow>
            if is_authorized data then drop (InvalidGrant ''request was already authorized'')
            else if is_expired data now then drop (InvalidGrant ''this request has expired'')
            else if rd_client_id data \<noteq> client_id then oa_fail (InvalidRequest ''client_id does not match the request'')
            else if (case rd_device_id data of Some bound \<Rightarrow> bound \<noteq> device_id | None \<Rightarrow> False)
            then drop (InvalidGrant ''request was initiated from another device'')
            else let data' = data\<lparr>rd_device_id := Some device_id, rd_expires_at := now + AUTHORIZATION_INACTIVITY_TIMEOUT\<rparr>
                 in oa_bind (on_store (os_update_request (pv_store P) request_id data')) (\<lambda>_. oa_ok (request_id, data'))))"

definition check_login_required :: "'s provider \<Rightarrow> device_account \<Rightarrow> nat \<Rightarrow> bool" where
  "check_login_required P d now \<longleftrightarrow>
     now - da_updated_at d > AUTHENTICATION_MAX_AGE \<or>
     (case pv_sessions_since P of Some since \<Rightarrow> da_updated_at d < since | None \<Rightarrow> False)"

definition check_consent_required :: "authorization_request_parameters \<Rightarrow> string option \<Rightarrow> bool" where
  "check_consent_required parameters authorized_scope =
     (case authorized_scope of
        None \<Rightarrow> True
      | Some authorized \<Rightarrow>
          ap_prompt parameters = Some ''consent'' \<or>
          \<not> list_all (\<lambda>s. s \<in> set (split_ascii_whitespace authorized)) (split_ascii_whitespace (ap_scope parameters)))"

definition account_matches_hint :: "account_info \<Rightarrow> string \<Rightarrow> bool" where
  "account_matches_hint account hint \<longleftrightarrow>
     ai_did account = hint \<or> (case ai_handle account of Some h \<Rightarrow> eq_ignore_ascii_case h hint | None \<Rightarrow> False)"

definition session_matches_hint :: "account_info \<Rightarrow> string option \<Rightarrow> bool" where
  "session_matches_hint account hint = (case hint of Some h \<Rightarrow> account_matches_hint account h | None \<Rightarrow> False)"

definition build_redirect :: "'s provider \<Rightarrow> authorization_request_parameters \<Rightarrow> (string \<times> string) list \<Rightarrow> oauth_error + string" where
  "build_redirect P parameters pairs =
     (case ox_url (pv_ext P) (ap_redirect_uri parameters) of
        None \<Rightarrow> Inl (ServerError ''stored redirect_uri is invalid'')
      | Some u \<Rightarrow>
          (let all = pairs @ (case ap_state parameters of Some s \<Rightarrow> [(''state'', s)] | None \<Rightarrow> []) @ [(''iss'', pv_issuer P)]
           in Inr (if ap_response_mode parameters = Some ''fragment'' then ox_fragment (pv_ext P) u all else ox_append (pv_ext P) u all)))"

definition authorization_error_redirect :: "'s provider \<Rightarrow> string \<Rightarrow> authorization_request_parameters \<Rightarrow> string \<Rightarrow> string
    \<Rightarrow> ('s provider_state, string) oaction" where
  "authorization_error_redirect P request_id parameters err description =
     oa_bind (on_store (os_delete_request (pv_store P) request_id)) (\<lambda>_.
     oa_lift (build_redirect P parameters [(''error'', err), (''error_description'', description)]))"

text \<open>The request with the scope the user accepted.\<close>

definition narrowed :: "request_data \<Rightarrow> string option \<Rightarrow> oauth_error + request_data" where
  "narrowed data granted =
     (case granted of
        None \<Rightarrow> Inr data
      | Some g \<Rightarrow>
          (let requested = split_ascii_whitespace (ap_scope (rd_parameters data)); ws = split_ascii_whitespace g
           in if SCOPE_ATPROTO \<notin> set ws \<or> list_ex (\<lambda>s. s \<notin> set requested) ws
              then Inl (InvalidRequest (''granted scope must be within the requested scope and include \"'' @ SCOPE_ATPROTO @ ''\"''))
              else Inr (data\<lparr>rd_parameters := (rd_parameters data)\<lparr>ap_scope := join '' '' ws\<rparr>\<rparr>)))"

definition set_authorized :: "'s provider \<Rightarrow> string \<Rightarrow> request_data \<Rightarrow> string \<Rightarrow> string option \<Rightarrow> nat \<Rightarrow> bytes
    \<Rightarrow> ('s provider_state, string \<times> request_data) oaction" where
  "set_authorized P request_id data did granted now random =
     oa_bind (oa_lift (narrowed data granted)) (\<lambda>data1.
     let code = generate_code random;
         data2 = data1\<lparr>rd_did := Some did, rd_code := Some code, rd_expires_at := now + AUTHORIZATION_INACTIVITY_TIMEOUT\<rparr>
     in oa_bind (on_store (os_update_request (pv_store P) request_id data2)) (\<lambda>_. oa_ok (code, data2)))"

definition silent_authorize :: "'s provider \<Rightarrow> string \<Rightarrow> request_data \<Rightarrow> string \<Rightarrow> nat \<Rightarrow> bytes \<Rightarrow> ('s provider_state, authorize_outcome) oaction" where
  "silent_authorize P request_id data did now random =
     (case compile_scope P (ap_scope (rd_parameters data)) of
        Inl e \<Rightarrow>
          oa_bind (authorization_error_redirect P request_id (rd_parameters data) (error_code e) (error_description e)) (\<lambda>u. oa_ok (Redirect u))
      | Inr _ \<Rightarrow>
          oa_bind (set_authorized P request_id data did None now random) (\<lambda>(code, data').
          oa_bind (oa_lift (build_redirect P (rd_parameters data') [(''code'', code)])) (\<lambda>u. oa_ok (Redirect u))))"

fun session_infos :: "'s provider \<Rightarrow> string \<Rightarrow> authorization_request_parameters \<Rightarrow> nat \<Rightarrow> device_account list
    \<Rightarrow> ('s provider_state, session_info list) oaction" where
  "session_infos P client_id parameters now [] = oa_ok []"
| "session_infos P client_id parameters now (linked # rest) =
     oa_bind (on_store (os_get_authorized_client_scope (pv_store P) (ai_did (da_account linked)) client_id)) (\<lambda>authorized.
     oa_bind (session_infos P client_id parameters now rest) (\<lambda>infos.
     oa_ok (\<lparr>si_account = da_account linked,
             si_login_required = (ap_prompt parameters = Some ''login'' \<or> check_login_required P linked now),
             si_consent_required = check_consent_required parameters authorized\<rparr> # infos)))"

definition authorize :: "'s provider \<Rightarrow> string \<Rightarrow> string \<Rightarrow> string \<Rightarrow> nat \<Rightarrow> bytes \<Rightarrow> ('s provider_state, authorize_outcome) oaction" where
  "authorize P client_id request_uri device_id now random =
     oa_bind (active_request P client_id request_uri device_id now) (\<lambda>(request_id, data).
     oa_bind (oa_lift (get_client (pv_ext P) (pv_fetcher P) client_id)) (\<lambda>c.
     oa_bind (on_store (os_list_device_accounts (pv_store P) device_id)) (\<lambda>linked.
     oa_bind (session_infos P client_id (rd_parameters data) now linked) (\<lambda>sessions.
     let parameters = rd_parameters data;
         hint = ap_login_hint parameters;
         prompt = ap_prompt parameters;
         sso = filter (\<lambda>s. \<not> ai_deactivated (si_account s) \<and> session_matches_hint (si_account s) hint) sessions;
         refuse = (\<lambda>err description.
           oa_bind (authorization_error_redirect P request_id parameters err description) (\<lambda>u. oa_ok (Redirect u)))
     in if prompt = Some ''select_account'' \<and> sessions = [] then refuse ''account_selection_required'' ''Account selection required''
        else if prompt = Some ''none'' then
          (case sso of
             [] \<Rightarrow> refuse ''login_required'' ''Login required''
           | [session] \<Rightarrow>
               if si_login_required session then refuse ''login_required'' ''Login required''
               else if si_consent_required session then refuse ''consent_required'' ''Consent required''
               else silent_authorize P request_id data (ai_did (si_account session)) now random
           | _ \<Rightarrow> refuse ''account_selection_required'' ''Account selection required'')
        else if prompt = None \<and> hint \<noteq> None \<and>
          (case sso of [session] \<Rightarrow> \<not> si_login_required session \<and> \<not> si_consent_required session | _ \<Rightarrow> False)
        then silent_authorize P request_id data (ai_did (si_account (hd sso))) now random
        else oa_ok (Page
          \<lparr>pg_request_uri = request_uri, pg_client_id = cl_id c, pg_client_name = cm_client_name (cl_metadata c),
           pg_client_uri = cm_client_uri (cl_metadata c), pg_logo_uri = cm_logo_uri (cl_metadata c), pg_tos_uri = cm_tos_uri (cl_metadata c),
           pg_policy_uri = cm_policy_uri (cl_metadata c), pg_client_trusted = is_trusted_client P (cl_id c),
           pg_scopes = split_ascii_whitespace (ap_scope parameters), pg_login_hint = hint, pg_prompt = prompt, pg_sessions = sessions,
           pg_selected_did =
             (if prompt \<in> {None, Some ''login'', Some ''consent''}
              then map_option (\<lambda>s. ai_did (si_account s)) (List.find (\<lambda>s. session_matches_hint (si_account s) hint) sessions)
              else None)\<rparr>)))))"

section \<open>Signing in and consent\<close>

definition ephemeral_audience :: "'s provider \<Rightarrow> string" where
  "ephemeral_audience P = EPHEMERAL_TOKEN_AUDIENCE_PREFIX @ pv_issuer P"

definition create_ephemeral_token :: "'s provider \<Rightarrow> string \<Rightarrow> string \<Rightarrow> string \<Rightarrow> nat \<Rightarrow> oauth_error + string" where
  "create_ephemeral_token P did device_id request_uri now =
     res_bind (signing_key_alg (pv_signing_key P)) (\<lambda>alg.
     sign_with (pv_ext P) ((new_header alg)\<lparr>jh_typ := Some AT_JWT\<rparr>)
       (no_claims\<lparr>jc_iss := Some (pv_issuer P), jc_aud := Some (JString (ephemeral_audience P)), jc_sub := Some did, jc_iat := Some now,
          jc_exp := Some (now + EPHEMERAL_SESSION_MAX_AGE), jc_extra := [(''device_id'', JString device_id), (''request_uri'', JString request_uri)]\<rparr>)
       (pv_signing_key P))"

definition verify_ephemeral_token :: "'s provider \<Rightarrow> string \<Rightarrow> string \<Rightarrow> string \<Rightarrow> string \<Rightarrow> nat \<Rightarrow> oauth_error + unit" where
  "verify_ephemeral_token P token did device_id request_uri now =
     res_bind (verify_with (pv_ext P) token (pv_signing_key P)) (\<lambda>decoded.
     res_bind (validate_typ (dj_header decoded) AT_JWT) (\<lambda>_.
     let claims = dj_claims decoded in
     res_bind (validate_iss claims (pv_issuer P)) (\<lambda>_.
     res_bind (validate_aud claims (ephemeral_audience P)) (\<lambda>_.
     res_bind (validate_time claims now 0) (\<lambda>_.
     if jc_sub claims \<noteq> Some did \<or> map_of (jc_extra claims) ''device_id'' \<noteq> Some (JString device_id) \<or>
        map_of (jc_extra claims) ''request_uri'' \<noteq> Some (JString request_uri)
     then Inl (InvalidRequest ''session token does not match this request'')
     else Inr ())))))"

definition sign_in :: "'s provider \<Rightarrow> string \<Rightarrow> string \<Rightarrow> string \<Rightarrow> string \<Rightarrow> string \<Rightarrow> bool \<Rightarrow> string \<Rightarrow> nat \<Rightarrow> bytes
    \<Rightarrow> ('s provider_state, sign_in_result) oaction" where
  "sign_in P client_id request_uri device_id identifier password remember presented_session_id now random =
     oa_bind (active_request P client_id request_uri device_id now) (\<lambda>(_, data).
     oa_bind (on_store (os_authenticate_account (pv_store P) identifier password)) (\<lambda>found.
     case found of
       None \<Rightarrow> oa_fail (InvalidRequest ''invalid identifier or password'')
     | Some account \<Rightarrow>
         if (case ap_login_hint (rd_parameters data) of Some hint \<Rightarrow> \<not> account_matches_hint account hint | None \<Rightarrow> False)
         then oa_fail (InvalidRequest ''account does not match the requested login_hint'')
         else if remember then
           (let new_session_id = generate_session_id random
            in oa_bind (on_store (os_authenticate_device_account (pv_store P) device_id presented_session_id new_session_id (ai_did account) now)) (\<lambda>_.
               oa_ok \<lparr>sg_account = account, sg_ephemeral_token = None, sg_new_session_id = Some new_session_id\<rparr>))
         else
           oa_bind (on_store (os_remove_device_account (pv_store P) device_id (ai_did account))) (\<lambda>_.
           oa_bind (oa_lift (create_ephemeral_token P (ai_did account) device_id request_uri now)) (\<lambda>token.
           oa_ok \<lparr>sg_account = account, sg_ephemeral_token = Some token, sg_new_session_id = None\<rparr>))))"

definition scope_union :: "string list \<Rightarrow> string list \<Rightarrow> string list" where
  "scope_union authorized granted = fold (\<lambda>s u. if s \<in> set u then u else u @ [s]) granted authorized"

definition check_account_proof :: "'s provider \<Rightarrow> account_proof \<Rightarrow> string \<Rightarrow> string \<Rightarrow> string \<Rightarrow> nat \<Rightarrow> ('s provider_state, unit) oaction" where
  "check_account_proof P pf did device_id request_uri now =
     (case pf of
        DeviceProof session_id \<Rightarrow>
          oa_bind (on_store (os_get_device_account_for_session (pv_store P) device_id session_id did)) (\<lambda>found.
          case found of
            None \<Rightarrow> oa_fail (InvalidRequest ''account is not signed in on this device'')
          | Some linked \<Rightarrow> oa_when (check_login_required P linked now) (InvalidRequest ''login required''))
      | Ephemeral token \<Rightarrow> oa_lift (verify_ephemeral_token P token did device_id request_uri now))"

definition accept :: "'s provider \<Rightarrow> string \<Rightarrow> string \<Rightarrow> string \<Rightarrow> string \<Rightarrow> account_proof \<Rightarrow> string option \<Rightarrow> nat \<Rightarrow> bytes
    \<Rightarrow> ('s provider_state, string) oaction" where
  "accept P client_id request_uri device_id did pf granted now random =
     oa_bind (active_request P client_id request_uri device_id now) (\<lambda>(request_id, data).
     oa_bind (check_account_proof P pf did device_id request_uri now) (\<lambda>_.
     oa_bind (on_store (os_get_authorized_client_scope (pv_store P) did client_id)) (\<lambda>authorized.
     case compile_scope P (case granted of Some g \<Rightarrow> g | None \<Rightarrow> ap_scope (rd_parameters data)) of
       Inl e \<Rightarrow> authorization_error_redirect P request_id (rd_parameters data) (error_code e) (error_description e)
     | Inr _ \<Rightarrow>
         oa_bind (set_authorized P request_id data did granted now random) (\<lambda>(code, data').
         oa_bind
           (if check_consent_required (rd_parameters data) authorized
            then on_store (os_set_authorized_client (pv_store P) did client_id
              (join '' '' (scope_union (split_ascii_whitespace (case authorized of Some a \<Rightarrow> a | None \<Rightarrow> []))
                 (split_ascii_whitespace (ap_scope (rd_parameters data'))))))
            else oa_ok ()) (\<lambda>_.
         oa_lift (build_redirect P (rd_parameters data') [(''code'', code)]))))))"

definition abandon_request :: "'s provider \<Rightarrow> string \<Rightarrow> string \<Rightarrow> string \<Rightarrow> string \<Rightarrow> string \<Rightarrow> nat \<Rightarrow> ('s provider_state, string) oaction" where
  "abandon_request P client_id request_uri device_id err description now =
     oa_bind (active_request P client_id request_uri device_id now) (\<lambda>(request_id, data).
     authorization_error_redirect P request_id (rd_parameters data) err description)"

definition reject :: "'s provider \<Rightarrow> string \<Rightarrow> string \<Rightarrow> string \<Rightarrow> nat \<Rightarrow> ('s provider_state, string) oaction" where
  "reject P client_id request_uri device_id now = abandon_request P client_id request_uri device_id ''access_denied'' ''Access denied'' now"

section \<open>Sessions of an account\<close>

definition active_session :: "'s provider \<Rightarrow> nat \<Rightarrow> token_info \<Rightarrow> active_oauth_session option" where
  "active_session P now token =
     (let client_id = td_client_id (ti_data token);
          metadata = (case get_client (pv_ext P) (pv_fetcher P) client_id of Inr c \<Rightarrow> Some (cl_metadata c) | Inl _ \<Rightarrow> None);
          can_refresh = (case metadata of Some m \<Rightarrow> GRANT_REFRESH_TOKEN \<in> set (cm_grant_types m) | None \<Rightarrow> True);
          usable = (if can_refresh then is_ok (validate_refresh_lifetimes (ti_data token) now (is_trusted_client P client_id))
                    else td_expires_at (ti_data token) > now)
      in if usable
         then Some \<lparr>ax_token_id = ti_token_id token, ax_created_at = td_created_at (ti_data token), ax_updated_at = td_updated_at (ti_data token),
                    ax_active = (td_expires_at (ti_data token) > now), ax_client_id = client_id, ax_client_metadata = metadata,
                    ax_scope = td_scope (ti_data token)\<rparr>
         else None)"

definition list_account_sessions :: "'s provider \<Rightarrow> string \<Rightarrow> nat \<Rightarrow> ('s provider_state, active_oauth_session list) oaction" where
  "list_account_sessions P did now =
     oa_bind (on_store (os_list_account_tokens (pv_store P) did)) (\<lambda>tokens. oa_ok (List.map_filter (active_session P now) tokens))"

definition revoke_account_token :: "'s provider \<Rightarrow> string \<Rightarrow> string \<Rightarrow> ('s provider_state, unit) oaction" where
  "revoke_account_token P did token_id =
     oa_bind (on_store (os_read_token (pv_store P) token_id)) (\<lambda>found.
     case found of
       Some token \<Rightarrow>
         if td_did (ti_data token) = did then on_store (os_delete_token (pv_store P) token_id)
         else oa_fail (InvalidRequest ''Invalid token'')
     | None \<Rightarrow> oa_fail (InvalidRequest ''Invalid token''))"

section \<open>Tokens\<close>

definition compare_client_auth :: "client_auth \<Rightarrow> client_auth \<Rightarrow> oauth_error + unit" where
  "compare_client_auth first current =
     (if (case (first, current) of
            (AuthNone, AuthNone) \<Rightarrow> True
          | (PrivateKeyJwt _ _ j, PrivateKeyJwt _ _ k) \<Rightarrow> j = k
          | _ \<Rightarrow> False)
      then Inr () else Inl (InvalidGrant ''client authentication does not match the initial request''))"

definition build_token_response :: "'s provider \<Rightarrow> string \<Rightarrow> token_data \<Rightarrow> string option \<Rightarrow> nat \<Rightarrow> oauth_error + token_response" where
  "build_token_response P token_id data refresh_token now =
     (case ap_dpop_jkt (td_parameters data) of
        None \<Rightarrow> Inl (ServerError ''missing DPoP key binding'')
      | Some jkt \<Rightarrow>
          res_bind (signing_key_alg (pv_signing_key P)) (\<lambda>alg.
          res_bind (sign_with (pv_ext P) ((new_header alg)\<lparr>jh_typ := Some AT_JWT\<rparr>)
            (no_claims\<lparr>jc_iss := Some (pv_issuer P), jc_sub := Some (td_did data), jc_aud := Some (JString (pv_audience P)),
               jc_exp := Some (td_expires_at data), jc_iat := Some now, jc_jti := Some token_id,
               jc_extra := [(''cnf'', JObject [(''jkt'', JString jkt)]), (''client_id'', JString (td_client_id data))]\<rparr>)
            (pv_signing_key P)) (\<lambda>access_token.
          Inr \<lparr>tr_access_token = access_token, tr_token_type = ''DPoP'', tr_expires_in = TOKEN_MAX_AGE, tr_refresh_token = refresh_token,
               tr_scope = granted_scope data, tr_sub = td_did data\<rparr>)))"

text \<open>A code that is not there, but that a session was issued for, is a replay.\<close>

definition replayed_code :: "'s provider \<Rightarrow> string \<Rightarrow> ('s provider_state, 'a) oaction" where
  "replayed_code P code =
     oa_bind (on_store (os_find_token_by_code (pv_store P) code)) (\<lambda>found.
     oa_bind
       (case found of
          None \<Rightarrow> oa_ok ()
        | Some token \<Rightarrow>
            oa_bind (on_store (os_delete_token (pv_store P) (ti_token_id token))) (\<lambda>_.
            case td_device_id (ti_data token) of
              Some device_id \<Rightarrow> on_store (os_remove_device_account (pv_store P) device_id (td_did (ti_data token)))
            | None \<Rightarrow> oa_ok ())) (\<lambda>_.
     oa_fail (InvalidGrant ''invalid code'')))"

text \<open>What is asked of a consumed request before a session is made: the account and the key it is bound to.\<close>

definition grantable :: "'s provider \<Rightarrow> client \<Rightarrow> client_auth \<Rightarrow> token_request \<Rightarrow> dpop_proof \<Rightarrow> request_data \<Rightarrow> nat \<Rightarrow> oauth_error + string \<times> string" where
  "grantable P c auth request p data now =
     (if is_expired data now then Inl (InvalidGrant ''this code has expired'')
      else case rd_did data of
        None \<Rightarrow> Inl (InvalidGrant ''request was not authorized'')
      | Some did \<Rightarrow>
          if rd_client_id data \<noteq> cl_id c then Inl (InvalidGrant ''code was issued to another client'')
          else
          res_bind (compare_client_auth (rd_client_auth data) auth) (\<lambda>_.
          case tq_code_verifier request of
            None \<Rightarrow> Inl (InvalidGrant ''code_verifier is required'')
          | Some verifier \<Rightarrow>
              res_bind (verify_code_challenge (pv_ext P) verifier (ap_code_challenge (rd_parameters data))) (\<lambda>_.
              if (case tq_redirect_uri request of Some u \<Rightarrow> u \<noteq> ap_redirect_uri (rd_parameters data) | None \<Rightarrow> False)
              then Inl (InvalidGrant ''redirect_uri does not match'')
              else case ap_dpop_jkt (rd_parameters data) of
                Some jkt \<Rightarrow>
                  if jkt \<noteq> dp_jkt p then Inl (InvalidGrant ''DPoP key does not match the key bound at PAR time'') else Inr (did, jkt)
              | None \<Rightarrow> Inr (did, dp_jkt p))))"

definition new_token_data :: "client \<Rightarrow> client_auth \<Rightarrow> request_data \<Rightarrow> string \<Rightarrow> string \<Rightarrow> string \<Rightarrow> string \<Rightarrow> nat \<Rightarrow> token_data" where
  "new_token_data c auth data did jkt code scope now =
     \<lparr>td_created_at = now, td_updated_at = now, td_expires_at = now + TOKEN_MAX_AGE, td_client_id = cl_id c, td_client_auth = auth,
      td_device_id = rd_device_id data, td_did = did, td_parameters = (rd_parameters data)\<lparr>ap_dpop_jkt := Some jkt\<rparr>,
      td_code = Some code, td_scope = Some scope\<rparr>"

definition authorization_code_grant :: "'s provider \<Rightarrow> client \<Rightarrow> client_auth \<Rightarrow> token_request \<Rightarrow> dpop_proof \<Rightarrow> nat \<Rightarrow> bytes \<Rightarrow> bytes
    \<Rightarrow> ('s provider_state, token_response) oaction" where
  "authorization_code_grant P c auth request p now random_id random_refresh =
     (case tq_code request of
        None \<Rightarrow> oa_fail (InvalidGrant ''invalid code'')
      | Some code \<Rightarrow>
          if \<not> is_code code then oa_fail (InvalidGrant ''invalid code'')
          else
          oa_bind (on_store (os_consume_request_code (pv_store P) code)) (\<lambda>consumed.
          case consumed of
            None \<Rightarrow> replayed_code P code
          | Some (_, data) \<Rightarrow>
              oa_bind (oa_lift (grantable P c auth request p data now)) (\<lambda>(did, jkt).
              oa_bind (on_store (os_get_account (pv_store P) did)) (\<lambda>found.
              case found of
                None \<Rightarrow> oa_fail (InvalidGrant ''account not found'')
              | Some account \<Rightarrow>
                  oa_bind (oa_lift (compile_scope P (ap_scope (rd_parameters data)))) (\<lambda>scope.
                  let token_id = generate_token_id random_id;
                      refresh_token = (if GRANT_REFRESH_TOKEN \<in> set (cm_grant_types (cl_metadata c))
                                       then Some (generate_refresh_token random_refresh) else None);
                      token_data = new_token_data c auth data (ai_did account) jkt code scope now
                  in oa_bind (on_store (os_create_token (pv_store P) token_id token_data refresh_token)) (\<lambda>_.
                     oa_lift (build_token_response P token_id token_data refresh_token now)))))))"

definition validate_refresh :: "'s provider \<Rightarrow> client \<Rightarrow> client_auth \<Rightarrow> token_info \<Rightarrow> dpop_proof \<Rightarrow> nat \<Rightarrow> bytes \<Rightarrow> bytes
    \<Rightarrow> ('s provider_state, token_response) oaction" where
  "validate_refresh P c auth token p now random_id random_refresh =
     (let data = ti_data token in
      if td_client_id data \<noteq> cl_id c then oa_fail (InvalidGrant ''refresh token was issued to another client'')
      else if GRANT_REFRESH_TOKEN \<notin> set (cm_grant_types (cl_metadata c))
      then oa_fail (InvalidGrant ''client metadata does not declare the refresh_token grant'')
      else
      oa_bind (oa_lift (compare_client_auth (td_client_auth data) auth)) (\<lambda>_.
      if ap_dpop_jkt (td_parameters data) \<noteq> Some (dp_jkt p) then oa_fail (InvalidGrant ''DPoP key does not match the session key'')
      else
      oa_bind (oa_lift (validate_refresh_lifetimes data now (is_trusted_client P (cl_id c)))) (\<lambda>_.
      let scope = (case compile_scope P (ap_scope (td_parameters data)) of Inr s \<Rightarrow> Some s | Inl _ \<Rightarrow> None);
          new_id = generate_token_id random_id;
          new_refresh = generate_refresh_token random_refresh
      in oa_bind (on_store (os_rotate_token (pv_store P) (ti_token_id token) new_id new_refresh now (now + TOKEN_MAX_AGE) scope)) (\<lambda>_.
         oa_lift (build_token_response P new_id (rotated_data now (now + TOKEN_MAX_AGE) scope data) (Some new_refresh) now)))))"

definition refresh_token_grant :: "'s provider \<Rightarrow> client \<Rightarrow> client_auth \<Rightarrow> token_request \<Rightarrow> dpop_proof \<Rightarrow> nat \<Rightarrow> bytes \<Rightarrow> bytes
    \<Rightarrow> ('s provider_state, token_response) oaction" where
  "refresh_token_grant P c auth request p now random_id random_refresh =
     (case tq_refresh_token request of
        None \<Rightarrow> oa_fail (InvalidGrant ''invalid refresh token'')
      | Some r \<Rightarrow>
          if \<not> is_refresh_token r then oa_fail (InvalidGrant ''invalid refresh token'')
          else
          oa_bind (on_store (os_find_token_by_refresh_token (pv_store P) r)) (\<lambda>found.
          case found of
            None \<Rightarrow> oa_fail (InvalidGrant ''invalid refresh token'')
          | Some token \<Rightarrow>
              (let revoke = (\<lambda>e. oa_bind (on_store (os_delete_token (pv_store P) (ti_token_id token))) (\<lambda>_. oa_fail e))
               in if ti_current_refresh_token token \<noteq> Some r then revoke (InvalidGrant ''Refresh token replayed'')
                  else oa_handle (validate_refresh P c auth token p now random_id random_refresh) revoke)))"

definition token_endpoint :: "'s provider \<Rightarrow> client_credentials \<Rightarrow> token_request \<Rightarrow> dpop_request \<Rightarrow> nat \<Rightarrow> nat \<Rightarrow> bytes \<Rightarrow> bytes
    \<Rightarrow> ('s provider_state, token_response) oaction" where
  "token_endpoint P credentials request dpop now now_ms random_id random_refresh =
     oa_bind (oa_lift (authenticated_client P credentials now)) (\<lambda>(c, auth).
     oa_bind (dpop_check P dpop (Some (cl_id c)) now now_ms) (\<lambda>found.
     case found of
       None \<Rightarrow> oa_fail (InvalidDpopProof ''DPoP proof is required'')
     | Some p \<Rightarrow>
         if tq_grant_type request = GRANT_AUTHORIZATION_CODE then authorization_code_grant P c auth request p now random_id random_refresh
         else if tq_grant_type request = GRANT_REFRESH_TOKEN then refresh_token_grant P c auth request p now random_id random_refresh
         else oa_fail (InvalidRequest (''unsupported grant_type \"'' @ tq_grant_type request @ ''\"''))))"

definition revoke :: "'s provider \<Rightarrow> client_credentials \<Rightarrow> string \<Rightarrow> nat \<Rightarrow> ('s provider_state, unit) oaction" where
  "revoke P credentials token now =
     oa_bind (oa_lift (authenticated_client P credentials now)) (\<lambda>(c, _).
     oa_bind
       (if is_token_id token then on_store (os_read_token (pv_store P) token)
        else if is_refresh_token token then on_store (os_find_token_by_refresh_token (pv_store P) token)
        else if is_code token then on_store (os_find_token_by_code (pv_store P) token)
        else case jwt_decode (pv_ext P) token of
               Inr decoded \<Rightarrow> (case jc_jti (dj_claims decoded) of Some jti \<Rightarrow> on_store (os_read_token (pv_store P) jti) | None \<Rightarrow> oa_ok None)
             | Inl _ \<Rightarrow> oa_ok None) (\<lambda>found.
     case found of
       Some t \<Rightarrow> if td_client_id (ti_data t) = cl_id c then on_store (os_delete_token (pv_store P) (ti_token_id t)) else oa_ok ()
     | None \<Rightarrow> oa_ok ()))"

text \<open>The string under \<open>jkt\<close> of the confirmation claim.\<close>

definition confirmed_jkt :: "jwt_claims \<Rightarrow> string option" where
  "confirmed_jkt claims =
     (case map_of (jc_extra claims) ''cnf'' of
        Some (JObject members) \<Rightarrow> (case map_of members ''jkt'' of Some (JString jkt) \<Rightarrow> Some jkt | _ \<Rightarrow> None)
      | _ \<Rightarrow> None)"

definition access_claims_of :: "'s provider \<Rightarrow> string \<Rightarrow> nat \<Rightarrow> oauth_error + string \<times> string \<times> string" where
  "access_claims_of P access_token now =
     res_bind (verify_with (pv_ext P) access_token (pv_signing_key P)) (\<lambda>decoded.
     res_bind (validate_typ (dj_header decoded) AT_JWT) (\<lambda>_.
     let claims = dj_claims decoded in
     res_bind (validate_time claims now DEFAULT_CLOCK_SKEW) (\<lambda>_.
     res_bind (validate_iss claims (pv_issuer P)) (\<lambda>_.
     res_bind (validate_aud claims (pv_audience P)) (\<lambda>_.
     case jc_jti claims of
       None \<Rightarrow> Inl (InvalidToken ''malformed access token'')
     | Some jti \<Rightarrow>
         if \<not> is_token_id jti then Inl (InvalidToken ''malformed access token'')
         else case jc_sub claims of
           None \<Rightarrow> Inl (InvalidToken ''malformed access token'')
         | Some did \<Rightarrow>
             (case confirmed_jkt claims of
                None \<Rightarrow> Inl (InvalidToken ''access token is not DPoP-bound'')
              | Some jkt \<Rightarrow> Inr (jti, did, jkt)))))))"

definition verify_access_token :: "'s provider \<Rightarrow> string \<Rightarrow> dpop_request \<Rightarrow> nat \<Rightarrow> nat \<Rightarrow> ('s provider_state, verified_access) oaction" where
  "verify_access_token P access_token dpop now now_ms =
     oa_bind (oa_lift (access_claims_of P access_token now)) (\<lambda>(token_id, did, jkt).
     oa_bind (on_store (os_read_token (pv_store P) token_id)) (\<lambda>found.
     let drop = (\<lambda>e. oa_bind (on_store (os_delete_token (pv_store P) token_id)) (\<lambda>_. oa_fail e))
     in case found of
       None \<Rightarrow> oa_fail (InvalidToken ''Invalid token'')
     | Some stored \<Rightarrow>
         if td_did (ti_data stored) \<noteq> did \<or> ap_dpop_jkt (td_parameters (ti_data stored)) \<noteq> Some jkt then drop (InvalidToken ''Invalid token'')
         else if td_expires_at (ti_data stored) \<le> now then drop (InvalidToken ''Token expired'')
         else let scopes = split_ascii_whitespace (granted_scope (ti_data stored)) in
           if SCOPE_ATPROTO \<notin> set scopes
           then oa_fail (InvalidToken (''access token is missing the \"'' @ SCOPE_ATPROTO @ ''\" scope''))
           else oa_bind (dpop_check P dpop None now now_ms) (\<lambda>proved.
             case proved of
               None \<Rightarrow> oa_fail (InvalidDpopProof ''DPoP proof is required'')
             | Some p \<Rightarrow>
                 if dp_jkt p \<noteq> jkt then oa_fail (InvalidToken ''DPoP key does not match the token binding'')
                 else oa_ok \<lparr>va_did = did, va_scopes = scopes, va_token_id = token_id\<rparr>)))"

end
