(* ===== verification/Oauth_Refine.thy ===== *)
theory Oauth_Refine
  imports Oauth_Sessions Oauth_Provider
begin

text \<open>
  The operations of the provider are steps of the session machine of \<open>Oauth_Sessions\<close>, on every store that keeps the
  contract of \<open>Oauth_Contract\<close>. The proofs are by weakest preconditions: \<open>owp m Q s\<close> says that \<open>Q\<close> holds of the result and
  of the state \<open>m\<close> ends in.
\<close>

section \<open>Weakest preconditions\<close>

lemma view_info_tokens: "view_info v (ti_token_id ti) = Some ti \<Longrightarrow> ov_tokens v (ti_token_id ti) = Some (ti_data ti, ti_current_refresh_token ti)"
  by (cases ti) (auto simp: view_info_def)

definition owp :: "('s, 'a) oaction \<Rightarrow> (oauth_error + 'a \<Rightarrow> 's \<Rightarrow> bool) \<Rightarrow> 's \<Rightarrow> bool" where
  "owp m Q s \<longleftrightarrow> (case m s of (r, s') \<Rightarrow> Q r s')"

named_theorems wp_simps \<open>weakest preconditions of the combinators\<close>

lemma owp_basic [wp_simps]:
  "owp (oa_ok x) Q s = Q (Inr x) s" "owp (oa_fail e) Q s = Q (Inl e) s" "owp (oa_lift r) Q s = Q r s"
  by (simp_all add: owp_def)

lemma owp_when [wp_simps]: "owp (oa_when b e) Q s = Q (if b then Inl e else Inr ()) s"
  by (simp add: owp_def oa_when_def)

lemma owp_bind [wp_simps]:
  "owp (oa_bind m k) Q s = owp m (\<lambda>r s'. case r of Inl e \<Rightarrow> Q (Inl e) s' | Inr x \<Rightarrow> owp (k x) Q s') s"
  by (simp add: owp_def oa_bind_def split: prod.split sum.split)

lemma owp_handle [wp_simps]:
  "owp (oa_handle m h) Q s = owp m (\<lambda>r s'. case r of Inl e \<Rightarrow> owp (h e) Q s' | Inr x \<Rightarrow> Q (Inr x) s') s"
  by (simp add: owp_def oa_handle_def split: prod.split sum.split)

lemma owp_mono: "owp m Q s \<Longrightarrow> (\<And>r s'. Q r s' \<Longrightarrow> R r s') \<Longrightarrow> owp m R s"
  by (auto simp: owp_def split: prod.splits)

lemma owpD: "owp m Q s \<Longrightarrow> m s = (r, s') \<Longrightarrow> Q r s'"
  by (simp add: owp_def)

definition sees :: "('s \<Rightarrow> bool) \<Rightarrow> ('s \<Rightarrow> oauth_view) \<Rightarrow> 's provider_state \<Rightarrow> oauth_view \<Rightarrow> bool" where
  "sees ok view st v \<longleftrightarrow> ok (ps_store st) \<and> view (ps_store st) = v"

definition settled :: "('s \<Rightarrow> bool) \<Rightarrow> ('s \<Rightarrow> oauth_view) \<Rightarrow> (string \<Rightarrow> bool) \<Rightarrow> session_state \<Rightarrow> string set \<Rightarrow> 's provider_state \<Rightarrow> bool" where
  "settled ok view trusted \<sigma> K st \<longleftrightarrow> (\<exists>v. sees ok view st v \<and> session_steps trusted \<sigma> (v, K))"

lemma settledI:
  assumes "sees ok view st v" "session_steps trusted \<sigma> (v, K')" "K' \<subseteq> K"
  shows "settled ok view trusted \<sigma> K st"
  using session_steps_step[OF assms(2) stay[of _ v K' K]] assms(1,3) unfolding settled_def by (metis sup.absorb2)

text \<open>What an operation does to the sessions, from a state that has \<open>A\<close>, when the identifiers \<open>D\<close> it draws are new.\<close>

definition serves :: "('s \<Rightarrow> bool) \<Rightarrow> ('s \<Rightarrow> oauth_view) \<Rightarrow> (string \<Rightarrow> bool) \<Rightarrow> (oauth_view \<Rightarrow> bool) \<Rightarrow> string set
    \<Rightarrow> ('s provider_state, 'a) oaction \<Rightarrow> bool" where
  "serves ok view trusted A D m \<longleftrightarrow>
     (\<forall>st v K. sees ok view st v \<longrightarrow> session_ok trusted (v, K) \<longrightarrow> D \<inter> K = {} \<longrightarrow> A v \<longrightarrow>
        owp m (\<lambda>_. settled ok view trusted (v, K) (K \<union> D)) st)"

lemma servesI:
  assumes "\<And>st v K. sees ok view st v \<Longrightarrow> session_ok trusted (v, K) \<Longrightarrow> D \<inter> K = {} \<Longrightarrow> A v \<Longrightarrow>
    owp m (\<lambda>_. settled ok view trusted (v, K) (K \<union> D)) st"
  shows "serves ok view trusted A D m"
  using assms unfolding serves_def by blast

lemma servesD:
  "serves ok view trusted A D m \<Longrightarrow> sees ok view st v \<Longrightarrow> session_ok trusted (v, K) \<Longrightarrow> D \<inter> K = {} \<Longrightarrow> A v \<Longrightarrow>
    owp m (\<lambda>_. settled ok view trusted (v, K) (K \<union> D)) st"
  unfolding serves_def by blast

lemma settled_refl: "sees ok view st v \<Longrightarrow> K \<subseteq> K' \<Longrightarrow> settled ok view trusted (v, K) K' st"
  by (rule settledI) auto

lemma settled_trans: "session_steps trusted \<sigma> \<sigma>' \<Longrightarrow> settled ok view trusted \<sigma>' K st \<Longrightarrow> settled ok view trusted \<sigma> K st"
  unfolding settled_def by (blast intro: session_steps_trans)

lemma session_ok_steps: "session_steps trusted \<sigma> \<sigma>' \<Longrightarrow> session_ok trusted \<sigma> \<Longrightarrow> session_ok trusted \<sigma>'"
  by (rule session_steps_keep) (auto intro: session_ok_step)

lemma owp_on_store: "owp (on_store m) Q st = (case m (ps_store st) of (r, s') \<Rightarrow> Q r (st\<lparr>ps_store := s'\<rparr>))"
  by (simp add: owp_def on_store_def split: prod.split)

lemma on_seen_wp: "sees ok view st v \<Longrightarrow> (\<And>r st'. sees ok view st' v \<Longrightarrow> Q r st') \<Longrightarrow> owp (on_seen m) Q st"
  by (cases "m (ps_seen st)") (auto simp: owp_def on_seen_def sees_def)

lemma dpop_check_wp: "sees ok view st v \<Longrightarrow> (\<And>r st'. sees ok view st' v \<Longrightarrow> Q r st') \<Longrightarrow> owp (dpop_check P dpop c now now_ms) Q st"
  unfolding dpop_check_def by (rule on_seen_wp)

lemma serves_ok [simp, intro]: "serves ok view trusted A D (oa_ok x)" "serves ok view trusted A D (oa_fail e)" "serves ok view trusted A D (oa_lift r)"
  by (auto simp: serves_def wp_simps intro: settled_refl)

lemma serves_when [simp, intro]: "serves ok view trusted A D (oa_when b e)"
  by (auto simp: serves_def wp_simps intro: settled_refl)

lemma serves_lift: "(\<And>x. r = Inr x \<Longrightarrow> serves ok view trusted A D (k x)) \<Longrightarrow> serves ok view trusted A D (oa_bind (oa_lift r) k)"
  by (cases r) (auto simp: serves_def wp_simps intro: settled_refl)

lemma serves_pure: "serves ok view trusted A D (k x) \<Longrightarrow> serves ok view trusted A D (oa_bind (oa_ok x) k)"
  by (simp add: serves_def wp_simps)

lemma serves_if:
  "(b \<Longrightarrow> serves ok view trusted A D m) \<Longrightarrow> (\<not> b \<Longrightarrow> serves ok view trusted A D n) \<Longrightarrow> serves ok view trusted A D (if b then m else n)"
  by simp

lemma serves_option:
  "serves ok view trusted A D m \<Longrightarrow> (\<And>y. x = Some y \<Longrightarrow> serves ok view trusted A D (k y)) \<Longrightarrow>
    serves ok view trusted A D (case x of None \<Rightarrow> m | Some y \<Rightarrow> k y)"
  by (simp split: option.split)

lemma serves_sum:
  "(\<And>e. x = Inl e \<Longrightarrow> serves ok view trusted A D (m e)) \<Longrightarrow> (\<And>y. x = Inr y \<Longrightarrow> serves ok view trusted A D (k y)) \<Longrightarrow>
    serves ok view trusted A D (case x of Inl e \<Rightarrow> m e | Inr y \<Rightarrow> k y)"
  by (simp split: sum.split)

lemma serves_list:
  "serves ok view trusted A D m \<Longrightarrow> (\<And>y ys. x = y # ys \<Longrightarrow> serves ok view trusted A D (k y ys)) \<Longrightarrow>
    serves ok view trusted A D (case x of [] \<Rightarrow> m | y # ys \<Rightarrow> k y ys)"
  by (simp split: list.split)

lemmas serves_cases = serves_if serves_option serves_sum serves_list

lemma serves_dpop:
  assumes "\<And>x. serves ok view trusted A D (k x)"
  shows "serves ok view trusted A D (oa_bind (dpop_check P dpop c now now_ms) k)"
  unfolding serves_def wp_simps
  by (auto intro!: dpop_check_wp split: sum.split intro: settled_refl servesD[OF assms])

lemma serves_weaken: "serves ok view trusted A D m \<Longrightarrow> (\<And>v. B v \<Longrightarrow> A v) \<Longrightarrow> serves ok view trusted B D m"
  unfolding serves_def by blast

section \<open>The operations of a store\<close>

context oauth_store_contract
begin

lemma wp_beside: "beside ok view m \<Longrightarrow> sees ok view st v \<Longrightarrow> (\<And>r st'. sees ok view st' v \<Longrightarrow> Q r st') \<Longrightarrow> owp (on_store m) Q st"
  by (cases "m (ps_store st)") (auto simp: owp_def on_store_def sees_def beside_def dest!: spec[of _ "ps_store st"])

lemma wp_read_request: "sees ok view st v \<Longrightarrow> Q (Inr (ov_requests v q)) st \<Longrightarrow> owp (on_store (os_read_request S q)) Q st"
  by (simp add: owp_on_store sees_def read_request)

lemma wp_read_token: "sees ok view st v \<Longrightarrow> Q (Inr (view_info v t)) st \<Longrightarrow> owp (on_store (os_read_token S t)) Q st"
  by (simp add: owp_on_store sees_def read_token)

lemma wp_create_request:
  assumes "sees ok view st v" "ov_requests v q = None" "rd_code d = None" "\<And>st'. sees ok view st' (spec_put_request q d v) \<Longrightarrow> Q (Inr ()) st'"
  shows "owp (on_store (os_create_request S q d)) Q st"
  using create_request[of "ps_store st" q d] assms by (auto simp: sees_def owp_on_store)

lemma wp_update_request:
  assumes "sees ok view st v" "ov_requests v q = Some old" "rd_client_id d = rd_client_id old"
    "rd_code d = rd_code old \<or> rd_code d = Some c \<and> c \<notin> request_codes v"
    "\<And>st'. sees ok view st' (spec_put_request q d v) \<Longrightarrow> Q (Inr ()) st'"
  shows "owp (on_store (os_update_request S q d)) Q st"
  using update_request[of "ps_store st" q old d c] assms by (auto simp: sees_def owp_on_store)

lemma wp_delete_request:
  assumes "sees ok view st v" "\<And>st'. sees ok view st' (spec_drop_request q v) \<Longrightarrow> Q (Inr ()) st'"
  shows "owp (on_store (os_delete_request S q)) Q st"
  using delete_request[of "ps_store st" q] assms by (auto simp: sees_def owp_on_store)

lemma wp_consume:
  assumes "sees ok view st v" "view_ok v" "code \<notin> request_codes v \<Longrightarrow> Q (Inr None) st"
    "\<And>q d st'. ov_requests v q = Some d \<Longrightarrow> rd_code d = Some code \<Longrightarrow> sees ok view st' (spec_drop_request q v) \<Longrightarrow> Q (Inr (Some (q, d))) st'"
  shows "owp (on_store (os_consume_request_code S code)) Q st"
  using consume_request_code[of "ps_store st" code] assms by (auto simp: sees_def owp_on_store)

lemma wp_create_token:
  assumes "sees ok view st v" "ov_tokens v t = None" "\<forall>r. refresh = Some r \<longrightarrow> r \<notin> issued_refresh v"
    "\<forall>c. td_code td = Some c \<longrightarrow> c \<notin> token_codes v" "td_scope td \<noteq> None"
    "\<And>st'. sees ok view st' (spec_create_token t td refresh v) \<Longrightarrow> Q (Inr ()) st'"
  shows "owp (on_store (os_create_token S t td refresh)) Q st"
  using create_token[of "ps_store st" t refresh td] assms by (auto simp: sees_def owp_on_store)

lemma wp_find_refresh:
  assumes "sees ok view st v" "view_ok v" "r \<notin> issued_refresh v \<Longrightarrow> Q (Inr None) st"
    "\<And>ti. view_info v (ti_token_id ti) = Some ti \<Longrightarrow> ov_used v r = Some (ti_token_id ti) \<or> ti_current_refresh_token ti = Some r \<Longrightarrow> Q (Inr (Some ti)) st"
  shows "owp (on_store (os_find_token_by_refresh_token S r)) Q st"
proof -
  obtain found where f: "os_find_token_by_refresh_token S r (ps_store st) = (Inr found, ps_store st)" and
    what: "case found of
           Some ti \<Rightarrow> view_info v (ti_token_id ti) = Some ti \<and> (ov_used v r = Some (ti_token_id ti) \<or> ti_current_refresh_token ti = Some r)
         | None \<Rightarrow> r \<notin> issued_refresh v"
    using find_token_by_refresh_token[of "ps_store st" r] assms(1,2) by (auto simp: sees_def)
  show ?thesis using what assms(3,4) by (auto simp: owp_on_store f split: option.splits)
qed

lemma wp_find_code:
  assumes "sees ok view st v" "c \<notin> token_codes v \<Longrightarrow> Q (Inr None) st"
    "\<And>ti. view_info v (ti_token_id ti) = Some ti \<Longrightarrow> td_code (ti_data ti) = Some c \<Longrightarrow> Q (Inr (Some ti)) st"
  shows "owp (on_store (os_find_token_by_code S c)) Q st"
proof -
  obtain found where f: "os_find_token_by_code S c (ps_store st) = (Inr found, ps_store st)" and
    what: "case found of Some ti \<Rightarrow> view_info v (ti_token_id ti) = Some ti \<and> td_code (ti_data ti) = Some c | None \<Rightarrow> c \<notin> token_codes v"
    using find_token_by_code[of "ps_store st" c] assms(1) by (auto simp: sees_def)
  show ?thesis using what assms(2,3) by (auto simp: owp_on_store f split: option.splits)
qed

lemma wp_rotate:
  assumes "sees ok view st v" "view_ok v" "ov_tokens v t \<noteq> None" "ov_tokens v t' = None" "r' \<notin> issued_refresh v"
    "\<And>st'. sees ok view st' (spec_rotate_token t t' r' u e sc v) \<Longrightarrow> Q (Inr ()) st'"
  shows "owp (on_store (os_rotate_token S t t' r' u e sc)) Q st"
  using rotate_token[of "ps_store st" t t' r' u e sc] assms by (auto simp: sees_def owp_on_store)

lemma wp_delete_token:
  assumes "sees ok view st v" "view_ok v" "\<And>st'. sees ok view st' (spec_delete_tokens (\<lambda>x _. x = t) v) \<Longrightarrow> Q (Inr ()) st'"
  shows "owp (on_store (os_delete_token S t)) Q st"
  using delete_token[of "ps_store st" t] assms by (auto simp: sees_def owp_on_store)

text \<open>What the view does not show.\<close>

lemma serves_beside: "beside ok view m \<Longrightarrow> serves ok view trusted A D (on_store m)"
  by (auto intro!: servesI wp_beside settled_refl)

lemma serves_beside_then:
  assumes "beside ok view m" "\<And>x. serves ok view trusted A D (k x)"
  shows "serves ok view trusted A D (oa_bind (on_store m) k)"
  unfolding serves_def wp_simps
  by (auto intro!: wp_beside[OF assms(1)] split: sum.split intro: settled_refl servesD[OF assms(2)])

lemmas serves_all_beside = all_beside[THEN serves_beside] all_beside[THEN serves_beside_then]

end

section \<open>Authorization requests\<close>

lemma is_authorized_code: "\<not> is_authorized d \<Longrightarrow> rd_code d = None"
  by (simp add: is_authorized_def)

context oauth_store_contract
begin

lemma wp_active_request:
  assumes P: "pv_store P = S" and v: "sees ok view st v"
    and err: "\<And>e st' v'. sees ok view st' v' \<Longrightarrow> session_steps trusted (v, K) (v', K) \<Longrightarrow> Q (Inl e) st'"
    and fine: "\<And>q d st' v'. sees ok view st' v' \<Longrightarrow> session_steps trusted (v, K) (v', K) \<Longrightarrow> ov_requests v' q = Some d \<Longrightarrow> rd_code d = None \<Longrightarrow>
      Q (Inr (q, d)) st'"
  shows "owp (active_request P client uri device now) Q st"
proof -
  have same: "Q (Inl e) st" for e by (rule err[OF v]) blast
  have dropped: "Q (Inl e) st'" if "sees ok view st' (spec_drop_request q v)" for q e st'
    by (rule err[OF that session_steps_one]) (rule withdraw)
  have put: "owp (on_store (os_update_request S q d')) R st"
    if "ov_requests v q = Some d" "\<not> is_authorized d" "d' = d\<lparr>rd_device_id := x, rd_expires_at := y\<rparr>"
      "\<And>st'. sees ok view st' (spec_put_request q d' v) \<Longrightarrow> R (Inr ()) st'" for q d d' x y R
    using that by (intro wp_update_request[OF v that(1)]) auto
  have kept: "Q (Inr (q, d')) st'"
    if "ov_requests v q = Some d" "\<not> is_authorized d" "d' = d\<lparr>rd_device_id := x, rd_expires_at := y\<rparr>" "sees ok view st' (spec_put_request q d' v)" for q d d' x y st'
    by (rule fine[OF that(4) session_steps_one]) (use that in \<open>auto simp: is_authorized_code spec_views intro: touch\<close>)
  show ?thesis
    unfolding active_request_def P
    by (cases "request_id_from_uri uri")
      (auto simp: wp_simps Let_def same split: option.split intro!: wp_read_request[OF v] wp_delete_request[OF v] put dropped kept)
qed

lemma wp_error_redirect:
  assumes P: "pv_store P = S" and v: "sees ok view st v" and fine: "\<And>r st'. sees ok view st' (spec_drop_request q v) \<Longrightarrow> Q r st'"
  shows "owp (authorization_error_redirect P q parameters err description) Q st"
  unfolding authorization_error_redirect_def P wp_simps by (rule wp_delete_request[OF v]) (simp add: fine wp_simps)

lemma narrowed_keeps: "narrowed d granted = Inr d' \<Longrightarrow> rd_client_id d' = rd_client_id d"
  by (auto simp: narrowed_def Let_def split: option.splits if_splits)

lemma wp_set_authorized:
  assumes P: "pv_store P = S" and v: "sees ok view st v" "names v \<subseteq> K" "ov_requests v q = Some d" "generate_code random \<notin> K"
    and err: "\<And>e. Q (Inl e) st"
    and fine: "\<And>d' st' v'. sees ok view st' v' \<Longrightarrow> session_steps trusted (v, K) (v', insert (generate_code random) K) \<Longrightarrow> Q (Inr (generate_code random, d')) st'"
  shows "owp (set_authorized P q d did granted now random) Q st"
proof (cases "narrowed d granted")
  case (Inl e)
  then show ?thesis by (simp add: set_authorized_def wp_simps err)
next
  case (Inr d1)
  have new: "generate_code random \<notin> request_codes v" using v(2,4) by (auto simp: names_def)
  show ?thesis using Inr narrowed_keeps[OF Inr] new
    by (auto simp: set_authorized_def P wp_simps Let_def
        intro!: wp_update_request[OF v(1,3), of _ "generate_code random"] fine session_steps_one grant[OF v(3) _ v(4)])
qed

lemma wp_silent_authorize:
  assumes P: "pv_store P = S" and v: "sees ok view st v" "names v \<subseteq> K" "ov_requests v q = Some d" "generate_code random \<notin> K"
    and fine: "\<And>r st' v'. sees ok view st' v' \<Longrightarrow> session_steps trusted (v, K) (v', K) \<or> session_steps trusted (v, K) (v', insert (generate_code random) K) \<Longrightarrow> Q r st'"
  shows "owp (silent_authorize P q d did now random) Q st"
proof (cases "compile_scope P (ap_scope (rd_parameters d))")
  case (Inl e)
  then show ?thesis
    by (auto simp: silent_authorize_def wp_simps split: sum.split intro!: wp_error_redirect[OF P v(1)] fine session_steps_one withdraw)
next
  case (Inr s)
  then show ?thesis
    by (auto simp: silent_authorize_def wp_simps split: sum.split intro!: wp_set_authorized[OF P v] intro: fine[OF v(1)] fine)
qed

lemma wp_session_infos:
  assumes P: "pv_store P = S" and v: "sees ok view st v" and fine: "\<And>r st'. sees ok view st' v \<Longrightarrow> Q r st'"
  shows "owp (session_infos P client parameters now linked) Q st"
  using v fine
proof (induction linked arbitrary: st Q)
  case (Cons a linked)
  show ?case
    by (auto simp: P wp_simps intro!: wp_beside[OF get_authorized_client_scope[THEN reads_beside] Cons.prems(1)] Cons.prems(2)
        split: sum.split intro: Cons.IH)
qed (simp add: wp_simps)

text \<open>A request that an operation found or made.\<close>

definition pending :: "string \<Rightarrow> request_data \<Rightarrow> oauth_view \<Rightarrow> bool" where
  "pending q d v \<longleftrightarrow> ov_requests v q = Some d"

lemma serves_active_request:
  assumes P: "pv_store P = S" and k: "\<And>q d. serves ok view trusted (pending q d) D (k (q, d))"
  shows "serves ok view trusted A D (oa_bind (active_request P client uri device now) k)"
proof (rule servesI, unfold wp_simps, rule wp_active_request[OF P, where trusted = trusted])
  fix st v K assume v: "sees ok view st v" "session_ok trusted (v, K)" "D \<inter> K = {}"
  show "sees ok view st v" by (rule v(1))
  show "case Inl e of Inl e \<Rightarrow> settled ok view trusted (v, K) (K \<union> D) st' | Inr x \<Rightarrow> owp (k x) (\<lambda>_. settled ok view trusted (v, K) (K \<union> D)) st'"
    if "sees ok view st' v'" "session_steps trusted (v, K) (v', K)" for e st' v'
    using that by (auto intro: settledI)
  show "case Inr (q, d) of Inl e \<Rightarrow> settled ok view trusted (v, K) (K \<union> D) st' | Inr x \<Rightarrow> owp (k x) (\<lambda>_. settled ok view trusted (v, K) (K \<union> D)) st'"
    if "sees ok view st' v'" "session_steps trusted (v, K) (v', K)" "ov_requests v' q = Some d" for q d st' v'
    using servesD[OF k that(1) session_ok_steps[OF that(2) v(2)] v(3), of q d] that(2,3)
    by (auto simp: pending_def elim!: owp_mono intro: settled_trans)
qed

lemma serves_error_redirect:
  "pv_store P = S \<Longrightarrow> serves ok view trusted A D (authorization_error_redirect P q parameters err description)"
  by (auto intro!: servesI wp_error_redirect settledI session_steps_one withdraw)

lemma serves_session_infos:
  "pv_store P = S \<Longrightarrow> (\<And>x. serves ok view trusted A D (k x)) \<Longrightarrow>
    serves ok view trusted A D (oa_bind (session_infos P client parameters now linked) k)"
  unfolding serves_def wp_simps by (auto intro!: wp_session_infos split: sum.split intro: settled_refl)

lemma serves_silent_authorize:
  assumes P: "pv_store P = S" and c: "generate_code random \<in> D"
  shows "serves ok view trusted (pending q d) D (silent_authorize P q d did now random)"
proof (rule servesI)
  fix st v K assume v: "sees ok view st v" "session_ok trusted (v, K)" "D \<inter> K = {}" "pending q d v"
  show "owp (silent_authorize P q d did now random) (\<lambda>_. settled ok view trusted (v, K) (K \<union> D)) st"
    by (rule wp_silent_authorize[OF P v(1), of K _ _ _ trusted]) (use v c in \<open>auto simp: pending_def intro: settledI\<close>)
qed

text \<open>After the code was given out an operation only touches what the view does not show.\<close>

lemma serves_set_authorized:
  assumes P: "pv_store P = S" and c: "generate_code random \<in> D" and k: "\<And>x st v. sees ok view st v \<Longrightarrow> owp (k x) (\<lambda>_ st'. sees ok view st' v) st"
  shows "serves ok view trusted (pending q d) D (oa_bind (set_authorized P q d did granted now random) k)"
proof (rule servesI, unfold wp_simps)
  fix st v K assume v: "sees ok view st v" "session_ok trusted (v, K)" "D \<inter> K = {}" "pending q d v"
  show "owp (set_authorized P q d did granted now random)
     (\<lambda>r s'. case r of Inl e \<Rightarrow> settled ok view trusted (v, K) (K \<union> D) s' | Inr x \<Rightarrow> owp (k x) (\<lambda>_. settled ok view trusted (v, K) (K \<union> D)) s') st"
    by (rule wp_set_authorized[OF P v(1), of K _ _ _ _ trusted])
      (use v c in \<open>auto simp: pending_def intro: settled_refl intro!: owp_mono[OF k] settledI\<close>)
qed

section \<open>Operations that make no session\<close>

lemma serves_par:
  assumes "pv_store P = S"
  shows "serves ok view trusted A {generate_request_id random} (pushed_authorization_request P credentials request dpop now now_ms random)"
  unfolding pushed_authorization_request_def Let_def assms case_prod_beta
proof (intro serves_lift serves_dpop servesI, unfold wp_simps)
  fix c p parameters st v K
  assume v: "sees ok view st v" "session_ok trusted (v, K)" "{generate_request_id random} \<inter> K = {}"
  then have "ov_requests v (generate_request_id random) = None" using names_in(1)[of v K] by fastforce
  then show "owp (on_store (os_create_request S (generate_request_id random)
      \<lparr>rd_client_id = cl_id (fst c), rd_client_auth = snd c, rd_parameters = parameters\<lparr>ap_dpop_jkt := map_option dp_jkt p\<rparr>,
       rd_expires_at = now + PAR_EXPIRES_IN, rd_device_id = None, rd_did = None, rd_code = None\<rparr>))
    (\<lambda>r s'. case r of Inl e \<Rightarrow> settled ok view trusted (v, K) (K \<union> {generate_request_id random}) s'
      | Inr x \<Rightarrow> settled ok view trusted (v, K) (K \<union> {generate_request_id random}) s') st"
    using v by (auto intro!: wp_create_request[OF v(1)] settledI session_steps_one push)
qed

lemma serves_refuse:
  "pv_store P = S \<Longrightarrow> serves ok view trusted A D (oa_bind (authorization_error_redirect P q parameters err description) (\<lambda>u. oa_ok (f u)))"
  unfolding serves_def wp_simps
  by (auto intro!: wp_error_redirect split: sum.split intro: settledI session_steps_one withdraw)

lemma serves_authorize:
  assumes "pv_store P = S"
  shows "serves ok view trusted A {generate_code random} (authorize P client uri device now random)"
  unfolding authorize_def Let_def assms
  by (rule serves_active_request[OF assms], simp only: prod.case)
    (intro serves_lift serves_all_beside serves_session_infos[OF assms] serves_cases serves_refuse[OF assms] serves_silent_authorize[OF assms] serves_ok singletonI)

lemma serves_sign_in:
  assumes "pv_store P = S"
  shows "serves ok view trusted A {} (sign_in P client uri device identifier password remember session now random)"
  unfolding sign_in_def Let_def assms
  by (rule serves_active_request[OF assms], simp only: prod.case)
    (intro serves_all_beside serves_cases serves_lift serves_ok)

lemma wp_check_account_proof:
  assumes "pv_store P = S" "sees ok view st v" "\<And>r st'. sees ok view st' v \<Longrightarrow> Q r st'"
  shows "owp (check_account_proof P pf did device uri now) Q st"
  unfolding check_account_proof_def assms(1)
  by (auto simp: wp_simps assms(2,3) split: account_proof.split sum.split option.split
      intro!: wp_beside[OF get_device_account_for_session[THEN reads_beside] assms(2)])

lemma serves_check_account_proof:
  "pv_store P = S \<Longrightarrow> (\<And>x. serves ok view trusted A D (k x)) \<Longrightarrow>
    serves ok view trusted A D (oa_bind (check_account_proof P pf did device uri now) k)"
  unfolding serves_def wp_simps by (auto intro!: wp_check_account_proof split: sum.split intro: settled_refl)

lemma serves_accept:
  assumes "pv_store P = S"
  shows "serves ok view trusted A {generate_code random} (accept P client uri device did pf granted now random)"
  unfolding accept_def Let_def assms
  apply (rule serves_active_request[OF assms], simp only: prod.case)
  apply (intro serves_check_account_proof[OF assms] serves_all_beside serves_cases serves_error_redirect[OF assms] serves_set_authorized[OF assms] singletonI)
  apply (auto simp: wp_simps case_prod_beta split: sum.split intro!: wp_beside[OF set_authorized_client])
  done

lemma serves_abandon:
  assumes "pv_store P = S"
  shows "serves ok view trusted A D (abandon_request P client uri device err description now)"
  unfolding abandon_request_def
  by (rule serves_active_request[OF assms], simp only: prod.case) (rule serves_error_redirect[OF assms])

lemma serves_delete_token: "serves ok view trusted A D (on_store (os_delete_token S t))"
  by (auto intro!: servesI wp_delete_token settledI session_steps_one close)

lemma serves_read_token:
  assumes "\<And>x. serves ok view trusted A D (k x)"
  shows "serves ok view trusted A D (oa_bind (on_store (os_read_token S t)) k)"
  unfolding serves_def wp_simps by (auto intro!: wp_read_token servesD[OF assms])

lemma serves_revoke_account_token:
  assumes "pv_store P = S"
  shows "serves ok view trusted A D (revoke_account_token P did t)"
  unfolding revoke_account_token_def assms by (intro serves_read_token serves_cases serves_delete_token serves_ok)

lemma serves_list_sessions:
  assumes "pv_store P = S"
  shows "serves ok view trusted A D (list_account_sessions P did now)"
  unfolding list_account_sessions_def assms by (intro serves_all_beside serves_ok)

section \<open>Tokens\<close>

lemma serves_find_refresh:
  assumes "\<And>x. serves ok view trusted A D (k x)"
  shows "serves ok view trusted A D (oa_bind (on_store (os_find_token_by_refresh_token S r)) k)"
  unfolding serves_def wp_simps by (auto intro!: wp_find_refresh servesD[OF assms])

lemma serves_find_code:
  assumes "\<And>x. serves ok view trusted A D (k x)"
  shows "serves ok view trusted A D (oa_bind (on_store (os_find_token_by_code S c)) k)"
  unfolding serves_def wp_simps by (auto intro!: wp_find_code servesD[OF assms])

lemma serves_revoke:
  assumes "pv_store P = S"
  shows "serves ok view trusted A D (revoke P credentials token now)"
proof -
  let ?k = "\<lambda>c found. case found of
       Some t \<Rightarrow> if td_client_id (ti_data t) = cl_id c then on_store (os_delete_token S (ti_token_id t)) else oa_ok ()
     | None \<Rightarrow> oa_ok ()"
  have k: "serves ok view trusted A D (?k c found)" for c found by (intro serves_cases serves_delete_token serves_ok)
  show ?thesis
    unfolding revoke_def assms case_prod_beta
    by (intro serves_lift)
      (auto intro!: serves_read_token serves_find_refresh serves_find_code k serves_pure split: sum.split option.split)
qed

lemma serves_verify_access_token:
  assumes "pv_store P = S"
  shows "serves ok view trusted A D (verify_access_token P token dpop now now_ms)"
proof -
  have drop: "serves ok view trusted A D (oa_bind (on_store (os_delete_token S t)) (\<lambda>_. oa_fail e))" for t e
    unfolding serves_def wp_simps by (auto intro!: wp_delete_token settledI session_steps_one close)
  show ?thesis
    unfolding verify_access_token_def assms Let_def case_prod_beta
    by (intro serves_lift serves_read_token serves_cases serves_dpop drop serves_ok)
qed

lemma wp_validate_refresh:
  assumes P: "pv_store P = S" and v: "sees ok view st v" "session_ok (is_trusted_client P) (v, K)" "view_info v (ti_token_id token) = Some token"
    and new: "generate_token_id random_id \<notin> K" "generate_refresh_token random_refresh \<notin> K"
    and err: "\<And>e. Q (Inl e) st"
    and fine: "\<And>res st' scope. sees ok view st'
        (spec_rotate_token (ti_token_id token) (generate_token_id random_id) (generate_refresh_token random_refresh) now (now + TOKEN_MAX_AGE) scope v) \<Longrightarrow>
      validate_refresh_lifetimes (ti_data token) now (is_trusted_client P (td_client_id (ti_data token))) = Inr () \<Longrightarrow> Q res st'"
  shows "owp (validate_refresh P c auth token p now random_id random_refresh) Q st"
proof -
  have there: "ov_tokens v (ti_token_id token) = Some (ti_data token, ti_current_refresh_token token)"
    by (rule view_info_tokens[OF v(3)])
  have free: "ov_tokens v (generate_token_id random_id) = None" "generate_refresh_token random_refresh \<notin> issued_refresh v"
    using v(2) names_fresh(2)[OF _ new(1)] names_fresh(3)[OF _ new(2)] by simp_all
  show ?thesis
    unfolding validate_refresh_def P
    by (auto simp: Let_def wp_simps there free err split: sum.split intro!: wp_rotate[OF v(1)] fine) (use v(2) in auto)
qed

lemma wp_refresh_token_grant:
  assumes P: "pv_store P = S" and v: "sees ok view st v" "session_ok (is_trusted_client P) (v, K)"
    and new: "generate_token_id random_id \<notin> K" "generate_refresh_token random_refresh \<notin> K"
    and r: "tq_refresh_token request = Some r"
    and none: "\<And>e. r \<notin> issued_refresh v \<or> \<not> is_refresh_token r \<Longrightarrow> Q (Inl e) st"
    and stale: "\<And>t st'. ov_used v r = Some t \<Longrightarrow> sees ok view st' (spec_delete_tokens (\<lambda>x _. x = t) v) \<Longrightarrow> Q (Inl (InvalidGrant ''Refresh token replayed'')) st'"
    and ended: "\<And>e t d st'. ov_tokens v t = Some (d, Some r) \<Longrightarrow> sees ok view st' (spec_delete_tokens (\<lambda>x _. x = t) v) \<Longrightarrow> Q (Inl e) st'"
    and rotated: "\<And>t d scope res st' v'. ov_tokens v t = Some (d, Some r) \<Longrightarrow>
      validate_refresh_lifetimes d now (is_trusted_client P (td_client_id d)) = Inr () \<Longrightarrow>
      v' = spec_rotate_token t (generate_token_id random_id) (generate_refresh_token random_refresh) now (now + TOKEN_MAX_AGE) scope v \<Longrightarrow>
      sees ok view st' (if isl res then spec_delete_tokens (\<lambda>x _. x = t) v' else v') \<Longrightarrow> Q res st'"
  shows "owp (refresh_token_grant P c auth request p now random_id random_refresh) Q st"
proof -
  have vok: "view_ok v" using v(2) by simp
  have found: "owp (if ti_current_refresh_token ti \<noteq> Some r then revoke (InvalidGrant ''Refresh token replayed'')
         else oa_handle (validate_refresh P c auth ti p now random_id random_refresh) revoke) Q st"
    if ti: "view_info v (ti_token_id ti) = Some ti" "ov_used v r = Some (ti_token_id ti) \<or> ti_current_refresh_token ti = Some r"
      "revoke = (\<lambda>e. oa_bind (on_store (os_delete_token S (ti_token_id ti))) (\<lambda>_. oa_fail e))" for ti revoke
  proof (cases "ti_current_refresh_token ti = Some r")
    case False
    then show ?thesis using ti(2) by (auto simp: ti(3) wp_simps intro!: wp_delete_token[OF v(1) vok] stale)
  next
    case True
    then have t: "ov_tokens v (ti_token_id ti) = Some (ti_data ti, Some r)" using view_info_tokens[OF ti(1)] by simp
    let ?new = "\<lambda>scope. spec_rotate_token (ti_token_id ti) (generate_token_id random_id) (generate_refresh_token random_refresh) now (now + TOKEN_MAX_AGE) scope v"
    have "owp (validate_refresh P c auth ti p now random_id random_refresh)
        (\<lambda>res st'. case res of Inl e \<Rightarrow> owp (revoke e) Q st' | Inr x \<Rightarrow> Q (Inr x) st') st"
    proof (rule wp_validate_refresh[OF P v ti(1) new])
      show "case Inl e of Inl e \<Rightarrow> owp (revoke e) Q st | Inr x \<Rightarrow> Q (Inr x) st" for e
        by (auto simp: ti(3) wp_simps intro!: wp_delete_token[OF v(1) vok] ended[OF t])
      fix res st' scope
      assume s: "sees ok view st' (?new scope)" and l: "validate_refresh_lifetimes (ti_data ti) now (is_trusted_client P (td_client_id (ti_data ti))) = Inr ()"
      have "view_ok (?new scope)" by (rule view_ok_step[OF rotate[where trusted = "is_trusted_client P", OF t l new]]) (use v(2) in auto)
      then show "case res of Inl e \<Rightarrow> owp (revoke e) Q st' | Inr x \<Rightarrow> Q (Inr x) st'"
        using rotated[OF t l refl] s by (cases res) (auto simp: ti(3) wp_simps intro!: wp_delete_token[OF s])
    qed
    then show ?thesis by (simp add: True wp_simps)
  qed
  show ?thesis
  proof (cases "is_refresh_token r")
    case True
    then have n: "(\<not> is_refresh_token r) = False" by simp
    show ?thesis
      unfolding refresh_token_grant_def P r option.case n if_False owp_bind
    proof (rule wp_find_refresh[OF v(1) vok], goal_cases)
      case 1
      then show ?case by (simp add: wp_simps none)
    next
      case (2 ti)
      then show ?case using found[OF 2 refl] by (simp only: sum.case option.case Let_def)
    qed
  qed (simp add: refresh_token_grant_def r wp_simps none)
qed

lemma serves_refresh_token_grant:
  assumes P: "pv_store P = S" and D: "D = {generate_token_id random_id, generate_refresh_token random_refresh}"
  shows "serves ok view (is_trusted_client P) A D (refresh_token_grant P c auth request p now random_id random_refresh)"
proof (cases "tq_refresh_token request")
  case (Some r)
  show ?thesis
  proof (rule servesI, rule wp_refresh_token_grant[OF P _ _ _ _ Some])
    fix st v K assume v: "sees ok view st v" "session_ok (is_trusted_client P) (v, K)" "D \<inter> K = {}"
    let ?tr = "is_trusted_client P" and ?t' = "generate_token_id random_id" and ?r' = "generate_refresh_token random_refresh"
    show "sees ok view st v" "session_ok ?tr (v, K)" by (rule v)+
    show new: "?t' \<notin> K" "?r' \<notin> K" using v(3) D by auto
    show "settled ok view ?tr (v, K) (K \<union> D) st" by (rule settled_refl[OF v(1)]) simp
    show "settled ok view ?tr (v, K) (K \<union> D) st'" if "sees ok view st' (spec_delete_tokens (\<lambda>x _. x = t) v)" for t st'
      by (rule settledI[OF that session_steps_one[OF close]]) simp
    then show "settled ok view ?tr (v, K) (K \<union> D) st'" if "sees ok view st' (spec_delete_tokens (\<lambda>x _. x = t) v)" for t st'
      using that by blast
    fix t d scope v' st' and res :: "oauth_error + token_response"
    assume t: "ov_tokens v t = Some (d, Some r)" "validate_refresh_lifetimes d now (?tr (td_client_id d)) = Inr ()"
      "v' = spec_rotate_token t ?t' ?r' now (now + TOKEN_MAX_AGE) scope v" and
      s: "sees ok view st' (if isl res then spec_delete_tokens (\<lambda>x _. x = t) v' else v')"
    have one: "session_steps ?tr (v, K) (v', insert ?t' (insert ?r' K))"
      unfolding t(3) by (rule session_steps_one[OF rotate[where trusted = ?tr, OF t(1,2) new]])
    then have "session_steps ?tr (v, K) (spec_delete_tokens (\<lambda>x _. x = t) v', insert ?t' (insert ?r' K))"
      by (rule session_steps_step) (rule close)
    with one s show "settled ok view ?tr (v, K) (K \<union> D) st'"
      by (auto split: if_splits intro!: settledI simp: D)
  qed
qed (simp add: refresh_token_grant_def)

lemma wp_replayed_code:
  assumes P: "pv_store P = S" and v: "sees ok view st v" "session_ok trusted (v, K)"
    and fine: "\<And>e st' v'. sees ok view st' v' \<Longrightarrow> session_steps trusted (v, K) (v', K) \<Longrightarrow> code \<notin> token_codes v' \<Longrightarrow> Q (Inl e) st'"
  shows "owp (replayed_code P code) Q st"
proof -
  have gone: "code \<notin> token_codes (spec_delete_tokens (\<lambda>x _. x = ti_token_id ti) v)"
    if "view_info v (ti_token_id ti) = Some ti" "td_code (ti_data ti) = Some code" for ti
    using one_sessionD[OF _ view_info_tokens[OF that(1)] _ that(2)] v(2) by (auto simp: token_codes_def codes_ok_def spec_views)
  have same: "Q (Inl e) st" if "code \<notin> token_codes v" for e by (rule fine[OF v(1) _ that]) blast
  have after: "Q (Inl e) st'" if "sees ok view st' (spec_delete_tokens (\<lambda>x _. x = ti_token_id ti) v)" "view_info v (ti_token_id ti) = Some ti" "td_code (ti_data ti) = Some code" for e ti st'
    by (rule fine[OF that(1) session_steps_one[OF close] gone[OF that(2,3)]])
  show ?thesis
    unfolding replayed_code_def P
    using v(2) by (auto simp: wp_simps same split: option.split sum.split
        intro!: wp_find_code[OF v(1)] wp_delete_token[OF v(1)] intro: after wp_beside[OF remove_device_account])
qed

lemma drop_request_tokens: "token_codes (spec_drop_request q v) = token_codes v" "issued_refresh (spec_drop_request q v) = issued_refresh v"
  by (simp_all add: token_codes_def issued_refresh_def spec_views)

lemma new_token_data_fields [simp]:
  "td_code (new_token_data c auth d did jkt code scope now) = Some code" "td_scope (new_token_data c auth d did jkt code scope now) = Some scope"
  "td_created_at (new_token_data c auth d did jkt code scope now) = now" "td_updated_at (new_token_data c auth d did jkt code scope now) = now"
  "td_expires_at (new_token_data c auth d did jkt code scope now) = now + TOKEN_MAX_AGE"
  by (simp_all add: new_token_data_def)

lemma wp_code_grant:
  assumes P: "pv_store P = S" and v: "sees ok view st v" "session_ok trusted (v, K)"
    and new: "generate_token_id random_id \<notin> K" "generate_refresh_token random_refresh \<notin> K"
    and code: "tq_code request = Some code"
    and malformed: "\<not> is_code code \<Longrightarrow> Q (Inl (InvalidGrant ''invalid code'')) st"
    and replay: "\<And>e st' v'. code \<notin> request_codes v \<Longrightarrow> sees ok view st' v' \<Longrightarrow> session_steps trusted (v, K) (v', K) \<Longrightarrow> code \<notin> token_codes v' \<Longrightarrow> Q (Inl e) st'"
    and spent: "\<And>e q d st'. ov_requests v q = Some d \<Longrightarrow> rd_code d = Some code \<Longrightarrow> sees ok view st' (spec_drop_request q v) \<Longrightarrow> Q (Inl e) st'"
    and made: "\<And>q d td refresh res st'. ov_requests v q = Some d \<Longrightarrow> rd_code d = Some code \<Longrightarrow> td_code td = Some code \<Longrightarrow>
      td_created_at td = now \<Longrightarrow> td_updated_at td = now \<Longrightarrow> td_expires_at td = now + TOKEN_MAX_AGE \<Longrightarrow>
      refresh \<in> {None, Some (generate_refresh_token random_refresh)} \<Longrightarrow>
      sees ok view st' (spec_create_token (generate_token_id random_id) td refresh (spec_drop_request q v)) \<Longrightarrow> Q res st'"
  shows "owp (authorization_code_grant P c auth request p now random_id random_refresh) Q st"
proof (cases "is_code code")
  case True
  then have n: "(\<not> is_code code) = False" by simp
  have vok: "view_ok v" "names v \<subseteq> K" "codes_ok v" using v(2) by simp_all
  show ?thesis
    unfolding authorization_code_grant_def P code option.case n if_False owp_bind
  proof (rule wp_consume[OF v(1) vok(1)], goal_cases)
    case 1
    then show ?case by (auto intro!: wp_replayed_code[OF P v] replay)
  next
    case (2 q d st1)
    have "code \<notin> token_codes v" using 2(1,2) vok(3) by (auto simp: codes_ok_def request_codes_def)
    then have free: "ov_tokens (spec_drop_request q v) (generate_token_id random_id) = None"
        "generate_refresh_token random_refresh \<notin> issued_refresh (spec_drop_request q v)" "code \<notin> token_codes (spec_drop_request q v)"
      using names_fresh(2)[OF vok(2) new(1)] names_fresh(3)[OF vok(2) new(2)] by (simp_all add: drop_request_tokens spec_views)
    note gone = spent[OF 2(1,2)]
    have created: "Q res st'"
      if "sees ok view st' (spec_create_token (generate_token_id random_id) (new_token_data c auth d did jkt code scope now) refresh (spec_drop_request q v))"
        "refresh \<in> {None, Some (generate_refresh_token random_refresh)}" for res st' did jkt scope refresh
      by (rule made[OF 2(1,2) _ _ _ _ that(2,1)]) simp_all
    show ?case
      using free by (auto simp: wp_simps Let_def gone[OF 2(3)] split: sum.split option.split
          intro!: wp_beside[OF reads_beside[OF get_account] 2(3)] gone wp_create_token created)
  qed
qed (simp add: authorization_code_grant_def code wp_simps malformed)

lemma serves_code_grant:
  assumes P: "pv_store P = S" and D: "D = {generate_token_id random_id, generate_refresh_token random_refresh}"
  shows "serves ok view trusted A D (authorization_code_grant P c auth request p now random_id random_refresh)"
proof (cases "tq_code request")
  case (Some code)
  show ?thesis
  proof (rule servesI, rule wp_code_grant[OF P _ _ _ _ Some])
    fix st v K assume v: "sees ok view st v" "session_ok trusted (v, K)" "D \<inter> K = {}"
    show "sees ok view st v" "session_ok trusted (v, K)" by (rule v)+
    show new: "generate_token_id random_id \<notin> K" "generate_refresh_token random_refresh \<notin> K" using v(3) D by auto
    show "settled ok view trusted (v, K) (K \<union> D) st" by (rule settled_refl[OF v(1)]) simp
    show "settled ok view trusted (v, K) (K \<union> D) st'" if "sees ok view st' v'" "session_steps trusted (v, K) (v', K)" for st' v'
      using that by (rule settledI) simp
    show "settled ok view trusted (v, K) (K \<union> D) st'" if "sees ok view st' (spec_drop_request q v)" for q st'
      by (rule settledI[OF that session_steps_one[OF withdraw]]) simp
    show "settled ok view trusted (v, K) (K \<union> D) st'"
      if "ov_requests v q = Some d" "rd_code d = Some code" "td_code td = Some code" "td_created_at td = now" "td_updated_at td = now"
        "td_expires_at td = now + TOKEN_MAX_AGE" "refresh \<in> {None, Some (generate_refresh_token random_refresh)}"
        "sees ok view st' (spec_create_token (generate_token_id random_id) td refresh (spec_drop_request q v))" for q d td refresh st'
      by (rule settledI[OF that(8) session_steps_one[OF redeem]]) (use that new D in auto)
  qed
qed (simp add: authorization_code_grant_def)

lemma serves_token_endpoint:
  assumes "pv_store P = S"
  shows "serves ok view (is_trusted_client P) A {generate_token_id random_id, generate_refresh_token random_refresh}
    (token_endpoint P credentials request dpop now now_ms random_id random_refresh)"
  unfolding token_endpoint_def case_prod_beta
  by (intro serves_lift serves_dpop serves_cases serves_code_grant[OF assms] serves_refresh_token_grant[OF assms] serves_ok refl)

end

end
