(* ===== verification/Oauth_Runs.thy ===== *)
theory Oauth_Runs
  imports Oauth_Refine
begin

text \<open>
  Runs of the OAuth provider: any sequence of calls of its operations, each at its own moment, with its own random bytes and
  its own answer. A run is a run of the session machine, so what no step of the machine undoes is not undone by any call.
\<close>

section \<open>Calls\<close>

datatype oauth_call =
    PushRequest client_credentials par_request dpop_request nat nat bytes
  | Authorize string string string nat bytes
  | SignIn string string string string string bool string nat bytes
  | Accept string string string string account_proof "string option" nat bytes
  | Abandon string string string string string nat
  | Reject string string string nat
  | Token client_credentials token_request dpop_request nat nat bytes bytes
  | Revoke client_credentials string nat
  | RevokeSession string string
  | ListSessions string nat
  | VerifyAccess string dpop_request nat nat

datatype oauth_reply =
    Pushed par_response
  | Decided authorize_outcome
  | SignedIn sign_in_result
  | RedirectTo string
  | Issued token_response
  | Done
  | Listed "active_oauth_session list"
  | Access verified_access

definition answer :: "('a \<Rightarrow> 'b) \<Rightarrow> ('s, 'a) oaction \<Rightarrow> ('s, 'b) oaction" where
  "answer f m = oa_bind m (\<lambda>x. oa_ok (f x))"

fun oauth_serve :: "'s provider \<Rightarrow> oauth_call \<Rightarrow> ('s provider_state, oauth_reply) oaction" where
  "oauth_serve P (PushRequest credentials request dpop now ms random) = answer Pushed (pushed_authorization_request P credentials request dpop now ms random)"
| "oauth_serve P (Authorize client uri device now random) = answer Decided (authorize P client uri device now random)"
| "oauth_serve P (SignIn client uri device identifier password remember session now random) =
     answer SignedIn (sign_in P client uri device identifier password remember session now random)"
| "oauth_serve P (Accept client uri device did pf granted now random) = answer RedirectTo (accept P client uri device did pf granted now random)"
| "oauth_serve P (Abandon client uri device err description now) = answer RedirectTo (abandon_request P client uri device err description now)"
| "oauth_serve P (Reject client uri device now) = answer RedirectTo (reject P client uri device now)"
| "oauth_serve P (Token credentials request dpop now ms random_id random_refresh) =
     answer Issued (token_endpoint P credentials request dpop now ms random_id random_refresh)"
| "oauth_serve P (Revoke credentials token now) = answer (\<lambda>_. Done) (revoke P credentials token now)"
| "oauth_serve P (RevokeSession did token_id) = answer (\<lambda>_. Done) (revoke_account_token P did token_id)"
| "oauth_serve P (ListSessions did now) = answer Listed (list_account_sessions P did now)"
| "oauth_serve P (VerifyAccess token dpop now ms) = answer Access (verify_access_token P token dpop now ms)"

text \<open>The identifiers a call draws for requests, codes, tokens and refresh tokens.\<close>

fun drawn_ids :: "oauth_call \<Rightarrow> string list" where
  "drawn_ids (PushRequest _ _ _ _ _ random) = [generate_request_id random]"
| "drawn_ids (Authorize _ _ _ _ random) = [generate_code random]"
| "drawn_ids (Accept _ _ _ _ _ _ _ random) = [generate_code random]"
| "drawn_ids (Token _ _ _ _ _ random_id random_refresh) = [generate_token_id random_id, generate_refresh_token random_refresh]"
| "drawn_ids _ = []"

fun drawn_in :: "oauth_call list \<Rightarrow> string list" where
  "drawn_in calls = concat (map drawn_ids calls)"

fun oauth_after :: "'s provider \<Rightarrow> oauth_call list \<Rightarrow> 's provider_state \<Rightarrow> 's provider_state" where
  "oauth_after P [] st = st"
| "oauth_after P (c # cs) st = oauth_after P cs (snd (oauth_serve P c st))"

fun oauth_run :: "'s provider \<Rightarrow> oauth_call list \<Rightarrow> 's provider_state \<Rightarrow> (oauth_error + oauth_reply) list" where
  "oauth_run P [] st = []"
| "oauth_run P (c # cs) st = (let (r, st') = oauth_serve P c st in r # oauth_run P cs st')"

fun refreshes :: "string \<Rightarrow> oauth_call \<Rightarrow> bool" where
  "refreshes r (Token _ request _ _ _ _ _) \<longleftrightarrow> tq_grant_type request = GRANT_REFRESH_TOKEN \<and> tq_refresh_token request = Some r"
| "refreshes r _ \<longleftrightarrow> False"

fun redeems :: "string \<Rightarrow> oauth_call \<Rightarrow> bool" where
  "redeems code (Token _ request _ _ _ _ _) \<longleftrightarrow> tq_grant_type request = GRANT_AUTHORIZATION_CODE \<and> tq_code request = Some code"
| "redeems code _ \<longleftrightarrow> False"

text \<open>The client of a token request authenticated itself and proved possession of a key.\<close>

fun proved :: "'s provider \<Rightarrow> oauth_call \<Rightarrow> 's provider_state \<Rightarrow> bool" where
  "proved P (Token credentials request dpop now ms _ _) st \<longleftrightarrow>
     (case authenticated_client P credentials now of
        Inr (c, _) \<Rightarrow> (case fst (dpop_check P dpop (Some (cl_id c)) now ms st) of Inr (Some _) \<Rightarrow> True | _ \<Rightarrow> False)
      | Inl _ \<Rightarrow> False)"
| "proved P _ st \<longleftrightarrow> False"

lemma oauth_after_append: "oauth_after P (xs @ ys) st = oauth_after P ys (oauth_after P xs st)"
  by (induction xs arbitrary: st) auto

lemma length_oauth_run [simp]: "length (oauth_run P calls st) = length calls"
  by (induction calls arbitrary: st) (auto split: prod.splits)

lemma oauth_run_nth: "i < length calls \<Longrightarrow> oauth_run P calls st ! i = fst (oauth_serve P (calls ! i) (oauth_after P (take i calls) st))"
  by (induction calls arbitrary: st i) (auto simp: nth_Cons split: nat.splits prod.splits)

lemma oauth_after_Suc: "i < length calls \<Longrightarrow> oauth_after P (take (Suc i) calls) st = snd (oauth_serve P (calls ! i) (oauth_after P (take i calls) st))"
  by (simp add: take_Suc_conv_app_nth oauth_after_append)

section \<open>Every call is steps of the machine\<close>

lemma owp_answer [wp_simps]: "owp (answer f m) Q s = owp m (\<lambda>r s'. Q (map_sum (\<lambda>e. e) f r) s') s"
  by (auto simp: answer_def owp_def oa_bind_def split: prod.split sum.split)

lemma serves_answer: "serves ok view trusted A D m \<Longrightarrow> serves ok view trusted A D (answer f m)"
  by (simp add: serves_def wp_simps)

context oauth_store_contract
begin

lemma serves_call:
  assumes "pv_store P = S"
  shows "serves ok view (is_trusted_client P) (\<lambda>_. True) (set (drawn_ids c)) (oauth_serve P c)"
proof (cases c)
  case (Token credentials request dpop now ms random_id random_refresh)
  then show ?thesis using serves_token_endpoint[OF assms] by (simp add: serves_answer)
qed (auto simp: reject_def intro!: serves_answer serves_par[OF assms] serves_authorize[OF assms] serves_sign_in[OF assms] serves_accept[OF assms]
    serves_abandon[OF assms] serves_revoke[OF assms] serves_revoke_account_token[OF assms] serves_list_sessions[OF assms] serves_verify_access_token[OF assms])

lemma serve_steps:
  assumes "pv_store P = S" "sees ok view st v" "session_ok (is_trusted_client P) (v, K)" "set (drawn_ids c) \<inter> K = {}"
  shows "\<exists>v'. sees ok view (snd (oauth_serve P c st)) v' \<and> session_steps (is_trusted_client P) (v, K) (v', K \<union> set (drawn_ids c))"
  using servesD[OF serves_call[OF assms(1)] assms(2-4)] by (auto simp: owp_def settled_def split: prod.splits)

lemma run_steps:
  assumes "pv_store P = S" "sees ok view st v" "session_ok (is_trusted_client P) (v, K)" "distinct (drawn_in calls)" "set (drawn_in calls) \<inter> K = {}"
  shows "\<exists>v'. sees ok view (oauth_after P calls st) v' \<and> session_steps (is_trusted_client P) (v, K) (v', K \<union> set (drawn_in calls))"
  using assms(2-5)
proof (induction calls arbitrary: st v K)
  case Nil
  then show ?case by auto
next
  case (Cons c calls)
  obtain v1 where one: "sees ok view (snd (oauth_serve P c st)) v1" "session_steps (is_trusted_client P) (v, K) (v1, K \<union> set (drawn_ids c))"
    using serve_steps[OF assms(1) Cons.prems(1,2), of c] Cons.prems(4) by auto
  have "session_ok (is_trusted_client P) (v1, K \<union> set (drawn_ids c))" by (rule session_ok_steps[OF one(2) Cons.prems(2)])
  from Cons.IH[OF one(1) this] Cons.prems(3,4) obtain v2 where
    "sees ok view (oauth_after P calls (snd (oauth_serve P c st))) v2"
    "session_steps (is_trusted_client P) (v1, K \<union> set (drawn_ids c)) (v2, K \<union> set (drawn_ids c) \<union> set (drawn_in calls))"
    by (auto simp: Un_assoc)
  then show ?case using session_steps_trans[OF one(2)] by (auto simp: Un_assoc)
qed

end

section \<open>What a token request does\<close>

lemma rotated_not_current:
  assumes "view_ok v" "names v \<subseteq> K" "ov_tokens v t = Some (d, Some r)" "r' \<notin> K"
  shows "ov_tokens (spec_rotate_token t t' r' u e sc v) x \<noteq> Some (d', Some r)"
  using view_okD(2)[OF assms(1) assms(3), of x] names_in(4)[OF assms(2,3)] assms(4) by (auto simp: spec_rotate_view[OF assms(3)])

lemma consumed_code:
  assumes "view_ok v" "ov_requests v q = Some d" "rd_code d = Some code"
  shows "code \<notin> request_codes (spec_drop_request q v)" "code \<notin> request_codes (spec_create_token t td refresh (spec_drop_request q v))"
  using view_okD(1)[OF assms(1) assms(2) _ assms(3)] by (auto simp: request_codes_def spec_views split: if_splits)

context oauth_store_contract
begin

lemma wp_token_endpoint:
  assumes v: "sees ok view st v" and err: "\<And>e st'. sees ok view st' v \<Longrightarrow> Q (Inl e) st'"
    and code: "\<And>c auth p st'. tq_grant_type request = GRANT_AUTHORIZATION_CODE \<Longrightarrow> sees ok view st' v \<Longrightarrow>
      owp (authorization_code_grant P c auth request p now random_id random_refresh) Q st'"
    and refresh: "\<And>c auth p st'. tq_grant_type request = GRANT_REFRESH_TOKEN \<Longrightarrow> sees ok view st' v \<Longrightarrow>
      owp (refresh_token_grant P c auth request p now random_id random_refresh) Q st'"
  shows "owp (token_endpoint P credentials request dpop now now_ms random_id random_refresh) Q st"
proof (cases "authenticated_client P credentials now")
  case (Inl e)
  then show ?thesis by (simp add: token_endpoint_def wp_simps err[OF v])
next
  case (Inr ca)
  then show ?thesis unfolding token_endpoint_def
    by (auto simp: wp_simps case_prod_beta split: sum.split option.split intro!: dpop_check_wp[OF v] err code refresh)
qed

lemma refresh_redeems:
  assumes P: "pv_store P = S" and v: "sees ok view st v" "session_ok (is_trusted_client P) (v, K)" "set (drawn_ids c) \<inter> K = {}" and c: "refreshes r c"
  shows "owp (oauth_serve P c) (\<lambda>res st'. isl res \<or> (\<exists>t d. ov_tokens v t = Some (d, Some r)) \<and> (\<exists>v'. sees ok view st' v' \<and> (\<forall>t d. ov_tokens v' t \<noteq> Some (d, Some r)))) st"
proof -
  obtain credentials request dpop now ms random_id random_refresh where call: "c = Token credentials request dpop now ms random_id random_refresh"
    and r: "tq_grant_type request = GRANT_REFRESH_TOKEN" "tq_refresh_token request = Some r"
    using c by (cases c) auto
  have new: "generate_token_id random_id \<notin> K" "generate_refresh_token random_refresh \<notin> K" using v(3) by (auto simp: call)
  have vok: "view_ok v" "names v \<subseteq> K" using v(2) by simp_all
  have ne: "tq_grant_type request \<noteq> GRANT_AUTHORIZATION_CODE" by (simp add: r GRANT_REFRESH_TOKEN_def GRANT_AUTHORIZATION_CODE_def)
  have rotated: "\<exists>v'. sees ok view st' v' \<and> (\<forall>t d. ov_tokens v' t \<noteq> Some (d, Some r))"
    if "ov_tokens v t = Some (d, Some r)"
      "sees ok view st' (spec_rotate_token t t' (generate_refresh_token random_refresh) u e sc v)" for t d t' u e sc st'
    using rotated_not_current[OF vok that(1) new(2)] that(2) by blast
  show ?thesis
    unfolding call oauth_serve.simps wp_simps
    by (rule wp_token_endpoint[OF v(1)])
      (auto simp: ne isl_map_sum split: sum.split if_splits intro!: wp_refresh_token_grant[OF P _ v(2) new r(2)] intro: rotated)
qed

lemma code_redeems:
  assumes P: "pv_store P = S" and v: "sees ok view st v" "session_ok (is_trusted_client P) (v, K)" "set (drawn_ids c) \<inter> K = {}" and c: "redeems code c"
  shows "owp (oauth_serve P c) (\<lambda>res st'. isl res \<or> code \<in> request_codes v \<and> (\<exists>v'. sees ok view st' v' \<and> code \<notin> request_codes v')) st"
proof -
  obtain credentials request dpop now ms random_id random_refresh where call: "c = Token credentials request dpop now ms random_id random_refresh"
    and r: "tq_grant_type request = GRANT_AUTHORIZATION_CODE" "tq_code request = Some code"
    using c by (cases c) auto
  have new: "generate_token_id random_id \<notin> K" "generate_refresh_token random_refresh \<notin> K" using v(3) by (auto simp: call)
  have vok: "view_ok v" using v(2) by simp
  have ne: "tq_grant_type request \<noteq> GRANT_REFRESH_TOKEN" by (simp add: r GRANT_REFRESH_TOKEN_def GRANT_AUTHORIZATION_CODE_def)
  have made: "code \<in> request_codes v \<and> (\<exists>v'. sees ok view st' v' \<and> code \<notin> request_codes v')"
    if "ov_requests v q = Some d" "rd_code d = Some code" "sees ok view st' (spec_create_token t td refresh (spec_drop_request q v))" for q d t td refresh st'
    using that consumed_code(2)[OF vok that(1,2)] unfolding request_codes_def by blast
  show ?thesis
    unfolding call oauth_serve.simps wp_simps
    by (rule wp_token_endpoint[OF v(1)])
      (use made in \<open>auto simp: ne isl_map_sum split: sum.split intro!: wp_code_grant[OF P _ v(2) new r(2)]\<close>)
qed

text \<open>The states of the machine along a run.\<close>

lemma drawn_in_nth: "i < length calls \<Longrightarrow> drawn_in (take (Suc i) calls) = drawn_in (take i calls) @ drawn_ids (calls ! i)"
  by (simp add: take_Suc_conv_app_nth)

lemma drawn_fresh:
  assumes "distinct (drawn_in calls)" "i < length calls"
  shows "set (drawn_ids (calls ! i)) \<inter> set (drawn_in (take i calls)) = {}"
proof -
  have "drawn_in calls = drawn_in (take (Suc i) calls) @ drawn_in (drop (Suc i) calls)"
    by (simp flip: concat_append map_append)
  with assms show ?thesis by (simp only: drawn_in_nth distinct_append) blast
qed

definition run_state :: "'s provider \<Rightarrow> oauth_call list \<Rightarrow> 's provider_state \<Rightarrow> nat \<Rightarrow> session_state" where
  "run_state P calls st i = (view (ps_store (oauth_after P (take i calls) st)), set (drawn_in (take i calls)))"

definition starts :: "'s provider \<Rightarrow> oauth_call list \<Rightarrow> 's provider_state \<Rightarrow> bool" where
  "starts P calls st \<longleftrightarrow> pv_store P = S \<and> ok (ps_store st) \<and> session_ok (is_trusted_client P) (view (ps_store st), {}) \<and> distinct (drawn_in calls)"

lemma run_state_ok:
  "starts P calls st \<Longrightarrow> i \<le> length calls \<Longrightarrow>
    ok (ps_store (oauth_after P (take i calls) st)) \<and> session_ok (is_trusted_client P) (run_state P calls st i)"
proof (induction i)
  case (Suc i)
  let ?st = "oauth_after P (take i calls) st"
  have i: "i < length calls" and d: "pv_store P = S" "distinct (drawn_in calls)" using Suc.prems by (auto simp: starts_def)
  from Suc have "sees ok view ?st (view (ps_store ?st))" "session_ok (is_trusted_client P) (run_state P calls st i)" by (auto simp: sees_def)
  from serve_steps[OF d(1) this[unfolded run_state_def] drawn_fresh[OF d(2) i]] this(2) show ?case
    by (auto simp: sees_def run_state_def oauth_after_Suc[OF i] drawn_in_nth[OF i] simp del: session_ok.simps drawn_in.simps dest: session_ok_steps)
qed (simp add: starts_def run_state_def)

lemma run_state_step:
  assumes "starts P calls st" "i < length calls"
  shows "session_steps (is_trusted_client P) (run_state P calls st i) (run_state P calls st (Suc i))"
proof -
  let ?st = "oauth_after P (take i calls) st"
  have d: "pv_store P = S" "distinct (drawn_in calls)" using assms(1) by (auto simp: starts_def)
  have "sees ok view ?st (view (ps_store ?st))" "session_ok (is_trusted_client P) (run_state P calls st i)"
    using run_state_ok[OF assms(1), of i] assms(2) by (auto simp: sees_def)
  from serve_steps[OF d(1) this[unfolded run_state_def] drawn_fresh[OF d(2) assms(2)]] show ?thesis
    by (auto simp: sees_def run_state_def oauth_after_Suc[OF assms(2)] drawn_in_nth[OF assms(2)] simp del: drawn_in.simps)
qed

lemma run_state_steps:
  assumes "starts P calls st" "i \<le> k" "k \<le> length calls"
  shows "session_steps (is_trusted_client P) (run_state P calls st i) (run_state P calls st k)"
  using assms(2,3)
proof (induction k rule: dec_induct)
  case (step n)
  then show ?case using run_state_step[OF assms(1), of n] by (auto intro: session_steps_trans)
qed blast

text \<open>What no step undoes is not undone by any call.\<close>

lemma run_keeps:
  assumes "starts P calls st" "i \<le> k" "k \<le> length calls" "Q (run_state P calls st i)"
    "\<And>\<sigma> \<sigma>'. session_step (is_trusted_client P) \<sigma> \<sigma>' \<Longrightarrow> Q \<sigma> \<Longrightarrow> Q \<sigma>'"
  shows "Q (run_state P calls st k)"
  by (rule session_steps_keep[where Q = Q, OF run_state_steps[OF assms(1-3)] assms(4)]) (rule assms(5))

lemma run_call:
  assumes "starts P calls st" "i < length calls"
  obtains v K v' K' where "run_state P calls st i = (v, K)" "run_state P calls st (Suc i) = (v', K')" "pv_store P = S"
    "sees ok view (oauth_after P (take i calls) st) v" "session_ok (is_trusted_client P) (v, K)" "set (drawn_ids (calls ! i)) \<inter> K = {}"
    "K \<subseteq> K'" "\<And>Q. owp (oauth_serve P (calls ! i)) Q (oauth_after P (take i calls) st) \<Longrightarrow>
      \<exists>st'. Q (oauth_run P calls st ! i) st' \<and> sees ok view st' v'"
proof -
  let ?st = "oauth_after P (take i calls) st" and ?st' = "oauth_after P (take (Suc i) calls) st"
  obtain v K v' K' where s: "run_state P calls st i = (v, K)" "run_state P calls st (Suc i) = (v', K')" by (metis surj_pair)
  have here: "ok (ps_store ?st)" "session_ok (is_trusted_client P) (v, K)" "ok (ps_store ?st')"
    using run_state_ok[OF assms(1), of i] run_state_ok[OF assms(1), of "Suc i"] assms(2) s by auto
  have "\<exists>st'. Q (oauth_run P calls st ! i) st' \<and> sees ok view st' v'" if "owp (oauth_serve P (calls ! i)) Q ?st" for Q
    using that here(3) s(2) by (auto simp: owp_def oauth_run_nth[OF assms(2)] oauth_after_Suc[OF assms(2)] run_state_def sees_def split: prod.splits)
  moreover have "K \<subseteq> K'" "pv_store P = S" "set (drawn_ids (calls ! i)) \<inter> K = {}" "sees ok view ?st v"
    using s assms drawn_fresh[of calls i] here by (auto simp: run_state_def drawn_in_nth[OF assms(2)] starts_def sees_def simp del: drawn_in.simps)
  ultimately show ?thesis using that[OF s] here(2) by blast
qed

section \<open>Used once\<close>

text \<open>What a call uses up is used up once in a run.\<close>

lemma used_up_once:
  assumes run: "starts P calls st" "i < j" "j < length calls"
    and keep: "\<And>\<sigma> \<sigma>'. session_step (is_trusted_client P) \<sigma> \<sigma>' \<Longrightarrow> spent \<sigma> \<Longrightarrow> spent \<sigma>'"
    and uses: "\<And>i. i < length calls \<Longrightarrow> uses (calls ! i) \<Longrightarrow> \<not> isl (oauth_run P calls st ! i) \<Longrightarrow>
      \<not> spent (run_state P calls st i) \<and> spent (run_state P calls st (Suc i))"
    and calls: "uses (calls ! i)" "uses (calls ! j)" "\<not> isl (oauth_run P calls st ! i)"
  shows "isl (oauth_run P calls st ! j)"
proof -
  have "spent (run_state P calls st (Suc i))" using uses[OF _ calls(1,3)] run(2,3) by simp
  from run_keeps[where Q = spent, OF run(1) _ _ this keep, of j] have "spent (run_state P calls st j)" using run(2,3) by simp
  then show ?thesis using uses[OF run(3) calls(2)] by blast
qed

lemma refresh_uses:
  assumes "starts P calls st" "i < length calls" "refreshes r (calls ! i)" "\<not> isl (oauth_run P calls st ! i)"
  shows "\<not> spent_refresh r (run_state P calls st i) \<and> spent_refresh r (run_state P calls st (Suc i))"
proof (rule run_call[OF assms(1,2)])
  fix v K v' K'
  assume s: "run_state P calls st i = (v, K)" "run_state P calls st (Suc i) = (v', K')" "pv_store P = S"
    "sees ok view (oauth_after P (take i calls) st) v" "session_ok (is_trusted_client P) (v, K)" "set (drawn_ids (calls ! i)) \<inter> K = {}" "K \<subseteq> K'"
    and out: "\<And>Q. owp (oauth_serve P (calls ! i)) Q (oauth_after P (take i calls) st) \<Longrightarrow> \<exists>st'. Q (oauth_run P calls st ! i) st' \<and> sees ok view st' v'"
  from out[OF refresh_redeems[OF s(3-6) assms(3)]] assms(4) obtain t d where
    t: "ov_tokens v t = Some (d, Some r)" "\<forall>t d. ov_tokens v' t \<noteq> Some (d, Some r)" by (auto simp: sees_def)
  moreover have "r \<in> K" using names_in(4)[OF _ t(1), of K] s(5) by simp
  ultimately show ?thesis using s(1,2,7) by auto
qed

lemma code_uses:
  assumes "starts P calls st" "i < length calls" "redeems code (calls ! i)" "\<not> isl (oauth_run P calls st ! i)"
  shows "\<not> spent_code code (run_state P calls st i) \<and> spent_code code (run_state P calls st (Suc i))"
proof (rule run_call[OF assms(1,2)])
  fix v K v' K'
  assume s: "run_state P calls st i = (v, K)" "run_state P calls st (Suc i) = (v', K')" "pv_store P = S"
    "sees ok view (oauth_after P (take i calls) st) v" "session_ok (is_trusted_client P) (v, K)" "set (drawn_ids (calls ! i)) \<inter> K = {}" "K \<subseteq> K'"
    and out: "\<And>Q. owp (oauth_serve P (calls ! i)) Q (oauth_after P (take i calls) st) \<Longrightarrow> \<exists>st'. Q (oauth_run P calls st ! i) st' \<and> sees ok view st' v'"
  from out[OF code_redeems[OF s(3-6) assms(3)]] assms(4) have "code \<in> request_codes v" "code \<notin> request_codes v'" by (auto simp: sees_def)
  then show ?thesis using s(1,2,5,7) by (auto simp: names_def)
qed

lemma refresh_once:
  assumes "starts P calls st" "i < j" "j < length calls" "refreshes r (calls ! i)" "refreshes r (calls ! j)" "\<not> isl (oauth_run P calls st ! i)"
  shows "isl (oauth_run P calls st ! j)"
  by (rule used_up_once[where spent = "spent_refresh r" and uses = "refreshes r", OF assms(1-3) spent_refresh_step refresh_uses[OF assms(1)] assms(4-6)])

lemma code_once:
  assumes "starts P calls st" "i < j" "j < length calls" "redeems code (calls ! i)" "redeems code (calls ! j)" "\<not> isl (oauth_run P calls st ! i)"
  shows "isl (oauth_run P calls st ! j)"
  by (rule used_up_once[where spent = "spent_code code" and uses = "redeems code", OF assms(1-3) spent_code_step code_uses[OF assms(1)] assms(4-6)])


section \<open>Replays\<close>

lemma wp_proved_token:
  assumes v: "sees ok view st v" and p: "proved P (Token credentials request dpop now ms random_id random_refresh) st"
    and grant: "tq_grant_type request = GRANT_AUTHORIZATION_CODE \<and> m = authorization_code_grant P \<or> tq_grant_type request = GRANT_REFRESH_TOKEN \<and> m = refresh_token_grant P"
    and post: "\<And>c auth p st'. sees ok view st' v \<Longrightarrow> owp (m c auth request p now random_id random_refresh) Q st'"
  shows "owp (token_endpoint P credentials request dpop now ms random_id random_refresh) Q st"
proof -
  obtain c auth where c: "authenticated_client P credentials now = Inr (c, auth)" using p by (auto split: sum.splits)
  obtain pf st1 where d: "dpop_check P dpop (Some (cl_id c)) now ms st = (Inr (Some pf), st1)"
    using p by (cases "dpop_check P dpop (Some (cl_id c)) now ms st") (auto simp: c split: sum.splits option.splits)
  have "sees ok view st1 v" using owpD[OF dpop_check_wp[OF v, where Q = "\<lambda>_ st'. sees ok view st' v"] d] by simp
  from post[OF this, of c auth pf] grant show ?thesis
    by (auto simp: token_endpoint_def wp_simps c owp_def[of "dpop_check _ _ _ _ _"] d GRANT_AUTHORIZATION_CODE_def GRANT_REFRESH_TOKEN_def)
qed

text \<open>A code that was redeemed is presented again: its session ends.\<close>

lemma replayed_code_closes:
  assumes "starts P calls st" "j < length calls" "redeems code (calls ! j)" "is_code code" "spent_code code (run_state P calls st j)"
    "proved P (calls ! j) (oauth_after P (take j calls) st)"
  shows "closed_code code (run_state P calls st (Suc j))"
proof (rule run_call[OF assms(1,2)])
  fix v K v' K'
  assume s: "run_state P calls st j = (v, K)" "run_state P calls st (Suc j) = (v', K')" "pv_store P = S"
    "sees ok view (oauth_after P (take j calls) st) v" "session_ok (is_trusted_client P) (v, K)" "set (drawn_ids (calls ! j)) \<inter> K = {}" "K \<subseteq> K'"
    and out: "\<And>Q. owp (oauth_serve P (calls ! j)) Q (oauth_after P (take j calls) st) \<Longrightarrow> \<exists>st'. Q (oauth_run P calls st ! j) st' \<and> sees ok view st' v'"
  obtain credentials request dpop now ms random_id random_refresh where call: "calls ! j = Token credentials request dpop now ms random_id random_refresh"
    and r: "tq_grant_type request = GRANT_AUTHORIZATION_CODE" "tq_code request = Some code"
    using assms(3) by (cases "calls ! j") auto
  have new: "generate_token_id random_id \<notin> K" "generate_refresh_token random_refresh \<notin> K" using s(6) by (auto simp: call)
  have c: "code \<in> K" "code \<notin> request_codes v" using assms(5) s(1) by simp_all
  have none: False if "ov_requests v q = Some d" "rd_code d = Some code" for q d using c(2) that by (auto simp: request_codes_def)
  have "owp (oauth_serve P (calls ! j)) (\<lambda>_ st'. \<exists>w. sees ok view st' w \<and> code \<notin> token_codes w) (oauth_after P (take j calls) st)"
    unfolding call oauth_serve.simps wp_simps
    by (rule wp_proved_token[OF s(4) assms(6)[unfolded call], of "authorization_code_grant P"], simp add: r,
        rule wp_code_grant[OF s(3) _ s(5) new r(2)]) (use assms(4) none in auto)
  from out[OF this] have "code \<notin> token_codes v'" by (auto simp: sees_def)
  moreover have "spent_code code (v', K')"
    using run_keeps[where Q = "spent_code code", OF assms(1) _ _ assms(5) spent_code_step, of "Suc j"] assms(2) s(2) by simp
  ultimately show ?thesis by (simp add: s(2))
qed

lemma replayed_refresh_closes:
  assumes "starts P calls st" "j < length calls" "refreshes r (calls ! j)" "is_refresh_token r" "spent_refresh r (run_state P calls st j)"
    "proved P (calls ! j) (oauth_after P (take j calls) st)"
  shows "closed_refresh r (run_state P calls st (Suc j))"
proof (rule run_call[OF assms(1,2)])
  fix v K v' K'
  assume s: "run_state P calls st j = (v, K)" "run_state P calls st (Suc j) = (v', K')" "pv_store P = S"
    "sees ok view (oauth_after P (take j calls) st) v" "session_ok (is_trusted_client P) (v, K)" "set (drawn_ids (calls ! j)) \<inter> K = {}" "K \<subseteq> K'"
    and out: "\<And>Q. owp (oauth_serve P (calls ! j)) Q (oauth_after P (take j calls) st) \<Longrightarrow> \<exists>st'. Q (oauth_run P calls st ! j) st' \<and> sees ok view st' v'"
  obtain credentials request dpop now ms random_id random_refresh where call: "calls ! j = Token credentials request dpop now ms random_id random_refresh"
    and q: "tq_grant_type request = GRANT_REFRESH_TOKEN" "tq_refresh_token request = Some r"
    using assms(3) by (cases "calls ! j") auto
  have new: "generate_token_id random_id \<notin> K" "generate_refresh_token random_refresh \<notin> K" using s(6) by (auto simp: call)
  have c: "r \<in> K" "\<And>t d. ov_tokens v t \<noteq> Some (d, Some r)" using assms(5) s(1) by simp_all
  have gone: "r \<notin> issued_refresh (spec_delete_tokens (\<lambda>x _. x = t) v)" if "ov_used v r = Some t" for t
    using that c(2) by (auto simp: issued_refresh_def spec_views)
  have "owp (oauth_serve P (calls ! j)) (\<lambda>_ st'. \<exists>w. sees ok view st' w \<and> r \<notin> issued_refresh w) (oauth_after P (take j calls) st)"
    unfolding call oauth_serve.simps wp_simps
    by (rule wp_proved_token[OF s(4) assms(6)[unfolded call], of "refresh_token_grant P"], simp add: q,
        rule wp_refresh_token_grant[OF s(3) _ s(5) new q(2)]) (use assms(4) c gone in auto)
  from out[OF this] have "r \<notin> issued_refresh v'" by (auto simp: sees_def)
  then show ?thesis using c(1) s(2,7) by auto
qed

section \<open>Access\<close>

lemma verified_access:
  assumes P: "pv_store P = S" and v: "sees ok view st v" and va: "verify_access_token P token dpop now ms st = (Inr va, st')"
  obtains d r p where "ov_tokens v (va_token_id va) = Some (d, r)" "td_did d = va_did va" "now < td_expires_at d"
    "va_scopes va = split_ascii_whitespace (granted_scope d)" "SCOPE_ATPROTO \<in> set (va_scopes va)"
    "fst (dpop_check P dpop None now ms st) = Inr (Some p)" "ap_dpop_jkt (td_parameters d) = Some (dp_jkt p)"
proof -
  obtain t did jkt where c: "access_claims_of P token now = Inr (t, did, jkt)" and
    rest: "snd (verify_access_token P token dpop now ms st) = st'" "fst (verify_access_token P token dpop now ms st) = Inr va"
    using va by (auto simp: verify_access_token_def oa_bind_def split: sum.splits prod.splits)
  have read: "on_store (os_read_token S t) st = (Inr (view_info v t), st)"
    using v by (simp add: on_store_def sees_def read_token)
  have drop: "fst (oa_bind (on_store (os_delete_token S t)) (\<lambda>_. oa_fail e) st) \<noteq> Inr x" for e and x :: verified_access
    by (auto simp: oa_bind_def split: prod.splits sum.splits)
  from rest(2) obtain d r where t: "ov_tokens v t = Some (d, r)"
    by (cases "ov_tokens v t") (auto simp: verify_access_token_def P oa_bind_def c read view_info_def)
  from rest(2) drop obtain p where "td_did d = did" "ap_dpop_jkt (td_parameters d) = Some jkt" "now < td_expires_at d"
    "SCOPE_ATPROTO \<in> set (split_ascii_whitespace (granted_scope d))" "fst (dpop_check P dpop None now ms st) = Inr (Some p)" "dp_jkt p = jkt"
    "va = \<lparr>va_did = did, va_scopes = split_ascii_whitespace (granted_scope d), va_token_id = t\<rparr>"
    unfolding verify_access_token_def P oa_bind_run c oa_run read Let_def
    by (auto simp: read view_info_def t oa_bind_def split: if_splits prod.splits sum.splits option.splits)
  then show ?thesis using that[of d r p] t by simp
qed

lemma revoke_uses:
  assumes "starts P calls st" "i < length calls" "calls ! i = RevokeSession did t" "\<not> isl (oauth_run P calls st ! i)"
  shows "dead_token t (run_state P calls st (Suc i))"
proof (rule run_call[OF assms(1,2)])
  fix v K v' K'
  assume s: "run_state P calls st i = (v, K)" "run_state P calls st (Suc i) = (v', K')" "pv_store P = S"
    "sees ok view (oauth_after P (take i calls) st) v" "session_ok (is_trusted_client P) (v, K)" "set (drawn_ids (calls ! i)) \<inter> K = {}" "K \<subseteq> K'"
    and out: "\<And>Q. owp (oauth_serve P (calls ! i)) Q (oauth_after P (take i calls) st) \<Longrightarrow> \<exists>st'. Q (oauth_run P calls st ! i) st' \<and> sees ok view st' v'"
  have gone: "ov_tokens (spec_delete_tokens (\<lambda>x _. x = t) v) t = None" by (simp add: spec_delete_tokens_def Let_def split: option.split)
  have "owp (oauth_serve P (calls ! i)) (\<lambda>res st'. isl res \<or> ov_tokens v t \<noteq> None \<and> (\<exists>w. sees ok view st' w \<and> ov_tokens w t = None)) (oauth_after P (take i calls) st)"
    unfolding assms(3) oauth_serve.simps revoke_account_token_def s(3) wp_simps
    using gone s(5) by (auto simp: isl_map_sum wp_simps view_info_def split: option.split intro!: wp_read_token[OF s(4)] wp_delete_token[OF s(4)])
  from out[OF this] assms(4) have "ov_tokens v t \<noteq> None" "ov_tokens v' t = None" by (auto simp: sees_def)
  moreover from this have "t \<in> K" using s(5) by (auto simp: names_def)
  ultimately show ?thesis using s(2,7) by auto
qed

section \<open>What stays\<close>

text \<open>What a call used up, revoked or closed stays so to the end of the run.\<close>

lemma stays_later:
  assumes "starts P calls st" "i < k" "k \<le> length calls"
  shows "refreshes r (calls ! i) \<Longrightarrow> \<not> isl (oauth_run P calls st ! i) \<Longrightarrow> spent_refresh r (run_state P calls st k)"
    "redeems code (calls ! i) \<Longrightarrow> \<not> isl (oauth_run P calls st ! i) \<Longrightarrow> spent_code code (run_state P calls st k)"
    "calls ! i = RevokeSession did t \<Longrightarrow> \<not> isl (oauth_run P calls st ! i) \<Longrightarrow> dead_token t (run_state P calls st k)"
    "closed_code code (run_state P calls st (Suc i)) \<Longrightarrow> closed_code code (run_state P calls st k)"
    "closed_refresh r (run_state P calls st (Suc i)) \<Longrightarrow> closed_refresh r (run_state P calls st k)"
proof -
  have i: "i < length calls" "Suc i \<le> k" using assms(2,3) by simp_all
  note keep = run_keeps[OF assms(1) i(2) assms(3)]
  show "refreshes r (calls ! i) \<Longrightarrow> \<not> isl (oauth_run P calls st ! i) \<Longrightarrow> spent_refresh r (run_state P calls st k)"
    by (rule keep[where Q = "spent_refresh r"]) (use refresh_uses[OF assms(1) i(1), of r] in \<open>blast, blast intro: spent_refresh_step\<close>)
  show "redeems code (calls ! i) \<Longrightarrow> \<not> isl (oauth_run P calls st ! i) \<Longrightarrow> spent_code code (run_state P calls st k)"
    by (rule keep[where Q = "spent_code code"]) (use code_uses[OF assms(1) i(1), of code] in \<open>blast, blast intro: spent_code_step\<close>)
  show "calls ! i = RevokeSession did t \<Longrightarrow> \<not> isl (oauth_run P calls st ! i) \<Longrightarrow> dead_token t (run_state P calls st k)"
    by (rule keep[where Q = "dead_token t"]) (use revoke_uses[OF assms(1) i(1), of did t] in \<open>blast, blast intro: dead_token_step\<close>)
  show "closed_code code (run_state P calls st (Suc i)) \<Longrightarrow> closed_code code (run_state P calls st k)"
    by (rule keep[where Q = "closed_code code"]) (assumption, rule closed_code_step)
  show "closed_refresh r (run_state P calls st (Suc i)) \<Longrightarrow> closed_refresh r (run_state P calls st k)"
    by (rule keep[where Q = "closed_refresh r"]) (assumption, rule closed_refresh_step)
qed

lemma replayed_code_closed:
  assumes "starts P calls st" "i < j" "j < k" "k \<le> length calls" "redeems code (calls ! i)" "redeems code (calls ! j)" "is_code code"
    "\<not> isl (oauth_run P calls st ! i)" "proved P (calls ! j) (oauth_after P (take j calls) st)"
  shows "closed_code code (run_state P calls st k)"
proof -
  have "j < length calls" using assms(3,4) by simp
  from replayed_code_closes[OF assms(1) this assms(6,7) stays_later(2)[OF assms(1,2) _ assms(5,8)] assms(9)] show ?thesis
    using \<open>j < length calls\<close> by (intro stays_later(4)[OF assms(1,3,4)]) simp
qed

lemma replayed_refresh_closed:
  assumes "starts P calls st" "i < j" "j < k" "k \<le> length calls" "refreshes r (calls ! i)" "refreshes r (calls ! j)" "is_refresh_token r"
    "\<not> isl (oauth_run P calls st ! i)" "proved P (calls ! j) (oauth_after P (take j calls) st)"
  shows "closed_refresh r (run_state P calls st k)"
proof -
  have "j < length calls" using assms(3,4) by simp
  from replayed_refresh_closes[OF assms(1) this assms(6,7) stays_later(1)[OF assms(1,2) _ assms(5,8)] assms(9)] show ?thesis
    using \<open>j < length calls\<close> by (intro stays_later(5)[OF assms(1,3,4)]) simp
qed

end

end
