(* ===== verification/Oauth_Properties.thy ===== *)
theory Oauth_Properties
  imports Oauth_Runs
begin

text \<open>
  What runs of the OAuth provider on the in-memory store keep to, whatever the calls are and in whatever order they come. The one
  assumption on the random bytes is that no identifier is drawn twice; the store starts without requests and sessions.
\<close>

section \<open>Runs on the in-memory store\<close>

definition no_sessions :: "memory_state \<Rightarrow> bool" where
  "no_sessions st \<longleftrightarrow> ms_requests st = [] \<and> ms_tokens st = [] \<and> ms_used_refresh_tokens st = []"

lemma empty_view_ok: "session_ok trusted (\<lparr>ov_requests = \<lambda>_. None, ov_tokens = \<lambda>_. None, ov_used = \<lambda>_. None\<rparr>, {})"
  by (auto simp: view_ok_def codes_ok_def one_session_def lifetimes_ok_def names_def issued_refresh_def request_codes_def token_codes_def)

lemma memory_starts:
  assumes "pv_store P = memory_oauth_store" "no_sessions (ps_store st)" "distinct (drawn_in calls)"
  shows "memory.starts P calls st"
proof -
  have "memory_view (ps_store st) = \<lparr>ov_requests = \<lambda>_. None, ov_tokens = \<lambda>_. None, ov_used = \<lambda>_. None\<rparr>"
    using assms(2) by (simp add: no_sessions_def memory_view_def)
  then have "session_ok (is_trusted_client P) (memory_view (ps_store st), {})" by (simp only: empty_view_ok)
  then show ?thesis using assms by (simp add: memory.starts_def no_sessions_def memory_ok_def del: session_ok.simps)
qed

section \<open>A run\<close>

text \<open>Libraries that accept every signature. The proofs carry their identifier in the second part; the one access token has empty parts.\<close>

definition run_key :: jwk where
  "run_key = \<lparr>jw_kty = ''EC'', jw_crv = ''P-256'', jw_x = replicate 32 CHR ''x'', jw_y = replicate 32 CHR ''y'', jw_d = None, jw_kid = None, jw_alg = None, jw_use = None\<rparr>"

definition run_jkt :: string where
  "run_jkt = thumbprint (demo_oauth None 0) run_key"

definition run_access :: jwt_claims where
  "run_access = no_claims\<lparr>jc_iss := Some ''iss'', jc_sub := Some ''did'', jc_aud := Some (JString ''aud''), jc_exp := Some 3700, jc_iat := Some 100,
     jc_jti := Some (generate_token_id (replicate 16 0)), jc_extra := [(''cnf'', JObject [(''jkt'', JString run_jkt)])]\<rparr>"

definition run_ext :: oauth_ext where
  "run_ext =
     \<lparr>ox_sha256 = (\<lambda>s. map (\<lambda>c. word_of_nat (of_char c)) s), ox_hmac = (\<lambda>_ m. []), ox_str_bytes = (\<lambda>s. []),
      ox_b64 = map (\<lambda>w. char_of (unat w)), ox_unb64 = (\<lambda>s. Inr (map (\<lambda>c. word_of_nat (of_char c)) s)),
      ox_header_json = (\<lambda>_. []), ox_claims_json = (\<lambda>_. []),
      ox_header_parse = (\<lambda>b. if b = [] then Inr ((new_header ''HS256'')\<lparr>jh_typ := Some AT_JWT\<rparr>) else Inr \<lparr>jh_alg = ''ES256'', jh_typ = Some DPOP_TYP, jh_kid = None, jh_jwk = Some run_key, jh_extra = []\<rparr>),
      ox_claims_parse = (\<lambda>b. if b = [] then Inr run_access else Inr (no_claims\<lparr>jc_iat := Some 100, jc_jti := Some (map (\<lambda>w. char_of (unat w)) b),
        jc_extra := [(''htm'', JString ''POST''), (''htu'', JString ''u'')]\<rparr>)),
      ox_point = (\<lambda>_ b. Inr b), ox_signature = (\<lambda>_ b. Inr b), ox_verify = (\<lambda>_ _ _ _. True), ox_sign = (\<lambda>_ _ b. Inr b),
      ox_url = (\<lambda>s. Some \<lparr>u_scheme = ''http'', u_username = [], u_password = None, u_host = Some (Ipv4 ''127.0.0.1''), u_port = None, u_path = s,
        u_query = None, u_fragment = None, u_origin = [], u_str = s\<rparr>),
      ox_query_pairs = (\<lambda>_. []), ox_append = (\<lambda>u _. u_str u), ox_fragment = (\<lambda>u _. u_str u)\<rparr>"

definition run_provider :: "memory_state provider" where
  "run_provider = \<lparr>pv_ext = run_ext, pv_issuer = ''iss'', pv_audience = ''aud'', pv_signing_key = Symmetric [],
     pv_fetcher = \<lparr>fetch_client_metadata = (\<lambda>_. Inl (InvalidClient [])), fetch_jwks = (\<lambda>_. Inl (InvalidClient []))\<rparr>,
     pv_store = memory_oauth_store, pv_nonce = None, pv_trusted_clients = [], pv_scope_expander = None, pv_sessions_since = None\<rparr>"

definition run_start :: "memory_state provider_state" where
  "run_start = \<lparr>ps_store = new_memory_store
     \<lparr>ms_accounts := [(''did'', \<lparr>ai_did = ''did'', ai_handle = None, ai_email = None, ai_email_verified = False, ai_deactivated = False\<rparr>, ''pw'')],
      ms_devices := [(''dev'', \<lparr>dd_session_id = ''ses'', dd_user_agent = None, dd_ip_address = [], dd_last_seen_at = 100\<rparr>)],
      ms_device_accounts := [((''dev'', ''did''), \<lparr>mb_created_at = 100, mb_updated_at = 100\<rparr>)]\<rparr>, ps_seen = []\<rparr>"

definition run_client :: string where
  "run_client = ''http://localhost''"

definition run_credentials :: client_credentials where
  "run_credentials = \<lparr>cc_client_id = run_client, cc_client_assertion_type = None, cc_client_assertion = None\<rparr>"

definition run_proof :: "string \<Rightarrow> dpop_request" where
  "run_proof jti = \<lparr>dr_method = ''POST'', dr_uri = ''u'', dr_dpop_headers = [''h.'' @ jti @ ''.s''], dr_access_token = None\<rparr>"

definition run_request_uri :: "bytes \<Rightarrow> string" where
  "run_request_uri random = request_uri_from_id (generate_request_id random)"

definition run_verifier :: string where
  "run_verifier = replicate 43 CHR ''v''"

definition code_call :: "string \<Rightarrow> bytes \<Rightarrow> bytes \<Rightarrow> bytes \<Rightarrow> oauth_call" where
  "code_call jti code random_id random_refresh = Token run_credentials
     \<lparr>tq_grant_type = GRANT_AUTHORIZATION_CODE, tq_code = Some (generate_code code), tq_redirect_uri = None, tq_code_verifier = Some run_verifier, tq_refresh_token = None\<rparr>
     (run_proof jti) 100 100000 random_id random_refresh"

definition refresh_call :: "string \<Rightarrow> bytes \<Rightarrow> bytes \<Rightarrow> bytes \<Rightarrow> oauth_call" where
  "refresh_call jti r random_id random_refresh = Token run_credentials
     \<lparr>tq_grant_type = GRANT_REFRESH_TOKEN, tq_code = None, tq_redirect_uri = None, tq_code_verifier = None, tq_refresh_token = Some (generate_refresh_token r)\<rparr>
     (run_proof jti) 100 100000 random_id random_refresh"

definition run_client_data :: client where
  "run_client_data = \<lparr>cl_id = run_client, cl_metadata = (new_client_metadata run_client)
     \<lparr>cm_scope := Some SCOPE_ATPROTO, cm_redirect_uris := DEFAULT_LOOPBACK_REDIRECT_URIS, cm_grant_types := [GRANT_AUTHORIZATION_CODE, GRANT_REFRESH_TOKEN],
      cm_token_endpoint_auth_method := Some AUTH_METHOD_NONE, cm_application_type := APPLICATION_TYPE_NATIVE, cm_dpop_bound_access_tokens := True\<rparr>, cl_jwks = None\<rparr>"

lemma run_get_client: "get_client run_ext (pv_fetcher run_provider) run_client = Inr run_client_data"
  by code_simp

lemma run_authenticated: "authenticated_client run_provider run_credentials now = Inr (run_client_data, AuthNone)"
proof -
  have "cc_client_id run_credentials = run_client" "run_client \<noteq> []" "pv_ext run_provider = run_ext"
    by (simp_all add: run_credentials_def run_client_def run_provider_def)
  moreover have "\<not> is_confidential (cl_metadata run_client_data)" by code_simp
  ultimately show ?thesis by (simp add: authenticated_client_def run_get_client client_authenticate_def)
qed

lemma bytes_of_chars: "map (\<lambda>w. char_of (unat w)) (map (\<lambda>c. word_of_nat (of_char c) :: 8 word) s) = s"
proof -
  have "unat (word_of_nat (of_char c) :: 8 word) = of_char c" for c :: char
    using of_char_mod_256[of c] by (simp add: unat_of_nat)
  then show ?thesis by (simp add: comp_def)
qed

lemma run_thumbprint: "thumbprint run_ext run_key = run_jkt"
  by (simp add: run_jkt_def thumbprint_def run_ext_def demo_oauth_def)

lemma run_libraries:
  "ox_unb64 run_ext s = Inr (map (\<lambda>c. word_of_nat (of_char c)) s)" "ox_point run_ext c b = Inr b" "ox_signature run_ext c b = Inr b" "ox_verify run_ext c k m b"
  "b \<noteq> [] \<Longrightarrow> ox_header_parse run_ext b = Inr \<lparr>jh_alg = ''ES256'', jh_typ = Some DPOP_TYP, jh_kid = None, jh_jwk = Some run_key, jh_extra = []\<rparr>"
  "b \<noteq> [] \<Longrightarrow> ox_claims_parse run_ext b = Inr (no_claims\<lparr>jc_iat := Some 100, jc_jti := Some (map (\<lambda>w. char_of (unat w)) b),
     jc_extra := [(''htm'', JString ''POST''), (''htu'', JString ''u'')]\<rparr>)"
  "\<exists>u. ox_url run_ext s = Some u \<and> u_username u = [] \<and> u_password u = None \<and> u_scheme u = ''http'' \<and> normalize_url u = s"
  by (simp_all add: run_ext_def normalize_url_def)

lemma run_key_verifies: "to_sec1_uncompressed run_ext run_key = Inr (4 # map (\<lambda>c. word_of_nat (of_char c)) (jw_x run_key) @ map (\<lambda>c. word_of_nat (of_char c)) (jw_y run_key))"
  "jwk_curve run_key = Inr P256" "\<not> is_private run_key"
  by (simp_all add: to_sec1_uncompressed_def decode_coordinate_def run_libraries decompress_point_def)
    (simp_all add: run_key_def jwk_curve_def from_crv_def is_private_def)

lemma run_checked:
  assumes "jti \<noteq> []" "CHR ''.'' \<notin> set jti"
  shows "checked_proof run_ext None (run_proof jti) 100 = Inr (Some \<lparr>dp_jti = jti, dp_jkt = run_jkt, dp_htm = ''POST'', dp_htu = ''u''\<rparr>)"
proof -
  have "split_on CHR ''.'' (''h.'' @ jti @ ''.s'') = [''h'', jti, ''s'']"
    using assms split_on_append_sep[of "CHR ''.''" "''h''" "jti @ ''.s''"] split_on_append_sep[of "CHR ''.''" jti "''s''"] by (simp add: split_on_no_sep)
  then show ?thesis using assms(1) run_libraries(7)[of "''u''"]
    by (auto simp: checked_proof_def run_proof_def extract_proof_def proof_key_def jwt_decode_def decode_json_part_def run_libraries(1-6) verify_signature_def
        run_key_verifies run_thumbprint proof_time_def no_claims_def nonce_claim_def jti_claim_def proof_target_def parse_htu_def proof_ath_def proof_nonce_def
        saturating_add_def u64_max_def dpop_times bytes_of_chars[unfolded map_map comp_def] comp_def)
qed

definition run_seen :: "string list \<Rightarrow> replay_store" where
  "run_seen js = map (\<lambda>j. (replay_key (Some run_client) j, 280000)) js"

lemma run_dpop:
  assumes "jti \<noteq> []" "CHR ''.'' \<notin> set jti" "jti \<notin> set js"
  shows "dpop_check run_provider (run_proof jti) (Some run_client) 100 100000 \<lparr>ps_store = store, ps_seen = run_seen js\<rparr> =
    (Inr (Some \<lparr>dp_jti = jti, dp_jkt = run_jkt, dp_htm = ''POST'', dp_htu = ''u''\<rparr>), \<lparr>ps_store = store, ps_seen = run_seen (jti # js)\<rparr>)"
proof -
  have kept: "filter (\<lambda>(_, expiry). expiry > 100000) (run_seen js) = run_seen js" by (auto simp: run_seen_def filter_empty_conv intro!: filter_True)
  have "map_of (run_seen js) (dpop_replay_namespace (Some run_client) @ '':'' @ jti) = None"
    using assms(3) by (auto simp: run_seen_def map_of_eq_None_iff replay_key_def)
  then have "fst (replay_unique 100000 (dpop_replay_namespace (Some run_client)) jti (DPOP_NONCE_MAX_AGE * 1000) (run_seen js))"
    "snd (replay_unique 100000 (dpop_replay_namespace (Some run_client)) jti (DPOP_NONCE_MAX_AGE * 1000) (run_seen js)) = run_seen (jti # js)"
    by (simp_all add: replay_unique_def Let_def kept DPOP_NONCE_MAX_AGE_def) (simp add: run_seen_def replay_key_def)
  then show ?thesis
    by (simp add: dpop_check_def on_seen_def check_proof_cases run_checked[OF assms(1,2)] run_provider_def)
qed

definition run_parameters :: authorization_request_parameters where
  "run_parameters = \<lparr>ap_client_id = run_client, ap_response_type = RESPONSE_TYPE_CODE, ap_redirect_uri = ''http://127.0.0.1/'', ap_scope = SCOPE_ATPROTO, ap_state = None,
     ap_code_challenge = run_verifier, ap_code_challenge_method = CODE_CHALLENGE_METHOD_S256, ap_login_hint = None, ap_response_mode = None, ap_prompt = Some ''consent'', ap_dpop_jkt = None\<rparr>"

definition run_par :: par_request where
  "run_par = \<lparr>pr_client_id = run_client, pr_response_type = RESPONSE_TYPE_CODE, pr_redirect_uri = Some ''http://127.0.0.1/'', pr_scope = Some SCOPE_ATPROTO, pr_state = None,
     pr_code_challenge = Some run_verifier, pr_code_challenge_method = Some CODE_CHALLENGE_METHOD_S256, pr_login_hint = None, pr_response_mode = None, pr_prompt = None\<rparr>"

lemma run_validate: "validate_request run_ext run_client_data run_par False = Inr run_parameters"
  by code_simp

definition run_data :: request_data where
  "run_data = \<lparr>rd_client_id = run_client, rd_client_auth = AuthNone, rd_parameters = run_parameters\<lparr>ap_dpop_jkt := Some run_jkt\<rparr>, rd_expires_at = 400,
     rd_device_id = None, rd_did = None, rd_code = None\<rparr>"

definition run_granted :: request_data where
  "run_granted = run_data\<lparr>rd_device_id := Some ''dev'', rd_did := Some ''did'', rd_code := Some (generate_code (replicate 32 0))\<rparr>"

definition run_store :: memory_state where
  "run_store = (ps_store run_start)\<lparr>ms_authorized_clients := [((''did'', run_client), SCOPE_ATPROTO)]\<rparr>"

definition run_session :: token_data where
  "run_session = new_token_data run_client_data AuthNone run_granted ''did'' run_jkt (generate_code (replicate 32 0)) SCOPE_ATPROTO 100"

lemmas run_actions = oauth_serve.simps answer_def oa_bind_def on_store_def memory_oauth_store_def

lemma run_config [simp]:
  "pv_ext run_provider = run_ext" "pv_store run_provider = memory_oauth_store" "is_trusted_client run_provider c = False"
  "compile_scope run_provider scope = Inr scope" "cl_id run_client_data = run_client"
  by (simp_all add: run_provider_def is_trusted_client_def compile_scope_def run_client_data_def)

definition run_account :: account_info where
  "run_account = \<lparr>ai_did = ''did'', ai_handle = None, ai_email = None, ai_email_verified = False, ai_deactivated = False\<rparr>"

lemma run_store_fields [simp]:
  "map_of (ms_accounts run_store) ''did'' = Some (run_account, ''pw'')" "ms_tokens run_store = []" "ms_token_order run_store = []"
  "ms_used_refresh_tokens run_store = []" "run_store\<lparr>ms_requests := []\<rparr> = run_store" "ai_did run_account = ''did''"
  by (simp_all add: run_store_def run_start_def new_memory_store_def run_account_def)

lemma run_push:
  "oauth_serve run_provider (PushRequest run_credentials run_par (run_proof ''1'') 100 100000 (replicate 16 0)) run_start =
     (Inr (Pushed \<lparr>pp_request_uri = request_uri_from_id (generate_request_id (replicate 16 0)), pp_expires_in = PAR_EXPIRES_IN\<rparr>),
      \<lparr>ps_store = (ps_store run_start)\<lparr>ms_requests := [(generate_request_id (replicate 16 0), run_data)]\<rparr>, ps_seen = run_seen [''1'']\<rparr>)"
proof -
  have s: "run_start = \<lparr>ps_store = ps_store run_start, ps_seen = run_seen []\<rparr>" by (simp add: run_start_def run_seen_def)
  show ?thesis
    by (subst s) (simp add: run_actions pushed_authorization_request_def run_authenticated run_dpop[of "''1''" "[]"] run_validate Let_def ms_create_request_def
        run_data_def PAR_EXPIRES_IN_def run_start_def new_memory_store_def)
qed

lemma run_accept:
  "\<exists>x. oauth_serve run_provider (Accept run_client (run_request_uri (replicate 16 0)) ''dev'' ''did'' (DeviceProof ''ses'') None 100 (replicate 32 0))
      \<lparr>ps_store = (ps_store run_start)\<lparr>ms_requests := [(generate_request_id (replicate 16 0), run_data)]\<rparr>, ps_seen = seen\<rparr> =
     (Inr x, \<lparr>ps_store = run_store\<lparr>ms_requests := [(generate_request_id (replicate 16 0), run_granted)]\<rparr>, ps_seen = seen\<rparr>)"
proof -
  have uri: "request_id_from_uri (run_request_uri (replicate 16 0)) = Inr (generate_request_id (replicate 16 0))"
    by (simp add: run_request_uri_def request_uri_round_trip REQUEST_ID_BYTES_LENGTH_def)
  have scope: "join '' '' (scope_union [] (split_ascii_whitespace SCOPE_ATPROTO)) = SCOPE_ATPROTO" by code_simp
  show ?thesis
    by (simp add: run_actions accept_def active_request_def uri Let_def ms_read_request_def ms_update_request_def run_data_def is_authorized_def is_expired_def
        check_account_proof_def ms_get_device_account_for_session_def ms_device_account_def run_start_def new_memory_store_def check_login_required_def
        AUTHENTICATION_MAX_AGE_def run_provider_def[THEN arg_cong[of _ _ pv_sessions_since]] oa_when_def ms_get_authorized_client_scope_def
        set_authorized_def narrowed_def check_consent_required_def ms_set_authorized_client_def build_redirect_def run_parameters_def
        AUTHORIZATION_INACTIVITY_TIMEOUT_def split_ascii_whitespace_def scope[unfolded split_ascii_whitespace_def] run_store_def run_granted_def run_ext_def)
qed

lemma run_code:
  "\<exists>x. oauth_serve run_provider (code_call ''2'' (replicate 32 0) (replicate 16 0) (replicate 32 0))
      \<lparr>ps_store = run_store\<lparr>ms_requests := [(generate_request_id (replicate 16 0), run_granted)]\<rparr>, ps_seen = run_seen [''1'']\<rparr> =
     (Inr x, \<lparr>ps_store = run_store\<lparr>ms_tokens := [(generate_token_id (replicate 16 0), run_session, Some (generate_refresh_token (replicate 32 0)))],
        ms_token_order := [generate_token_id (replicate 16 0)]\<rparr>, ps_seen = run_seen [''2'', ''1'']\<rparr>)"
proof -
  have code: "is_code (generate_code (replicate 32 0))" by (rule generated_ids_recognised(1)) (simp add: CODE_BYTES_LENGTH_def)
  have challenge: "verify_code_challenge run_ext run_verifier run_verifier = Inr ()"
    using bytes_of_chars[of run_verifier] by (simp add: verify_code_challenge_def run_ext_def) (simp add: run_verifier_def)
  have grants: "GRANT_REFRESH_TOKEN \<in> set (cm_grant_types (cl_metadata run_client_data))" by code_simp
  have granted: "grantable run_provider run_client_data AuthNone request \<lparr>dp_jti = j, dp_jkt = run_jkt, dp_htm = m, dp_htu = u\<rparr> run_granted 100 = Inr (''did'', run_jkt)"
    if "tq_redirect_uri request = None" "tq_code_verifier request = Some run_verifier" for request j m u
    using that by (simp add: grantable_def is_expired_def run_granted_def run_data_def compare_client_auth_def run_parameters_def challenge)
  have found: "rd_code run_granted = Some (generate_code (replicate 32 0))" by (simp add: run_granted_def)
  have scope: "ap_scope (rd_parameters run_granted) = SCOPE_ATPROTO" by (simp add: run_granted_def run_data_def run_parameters_def)
  have response: "\<exists>x. build_token_response run_provider t run_session r 100 = Inr x" for t r
    by (simp add: build_token_response_def run_session_def new_token_data_def run_provider_def signing_key_alg_def sign_with_def new_header_def)
  then obtain x where "build_token_response run_provider (generate_token_id (replicate 16 0)) run_session (Some (generate_refresh_token (replicate 32 0))) 100 = Inr x" by blast
  then show ?thesis
    by (simp add: run_actions code_call_def token_endpoint_def run_authenticated run_dpop authorization_code_grant_def code ms_consume_request_code_def found
        granted ms_get_account_def ms_create_token_def grants scope run_session_def[symmetric])
qed

lemma run_refresh:
  "\<exists>x store. oauth_serve run_provider (refresh_call ''3'' (replicate 32 0) (replicate 16 1) (replicate 32 1))
      \<lparr>ps_store = run_store\<lparr>ms_tokens := [(generate_token_id (replicate 16 0), run_session, Some (generate_refresh_token (replicate 32 0)))],
        ms_token_order := [generate_token_id (replicate 16 0)]\<rparr>, ps_seen = run_seen [''2'', ''1'']\<rparr> =
     (Inr x, \<lparr>ps_store = store, ps_seen = run_seen [''3'', ''2'', ''1'']\<rparr>)"
proof -
  have r: "is_refresh_token (generate_refresh_token (replicate 32 0))" by (rule generated_ids_recognised(3)) (simp add: REFRESH_TOKEN_BYTES_LENGTH_def)
  have ne: "GRANT_REFRESH_TOKEN \<noteq> GRANT_AUTHORIZATION_CODE" by (simp add: GRANT_REFRESH_TOKEN_def GRANT_AUTHORIZATION_CODE_def)
  have grants: "GRANT_REFRESH_TOKEN \<in> set (cm_grant_types (cl_metadata run_client_data))" by code_simp
  have session: "td_client_id run_session = run_client" "td_client_auth run_session = AuthNone" "ap_dpop_jkt (td_parameters run_session) = Some run_jkt"
    "validate_refresh_lifetimes run_session 100 False = Inr ()"
    by (simp_all add: run_session_def new_token_data_def validate_refresh_lifetimes_Inr)
  obtain x where "build_token_response run_provider (generate_token_id (replicate 16 1))
      (rotated_data 100 (100 + TOKEN_MAX_AGE) (Some (ap_scope (td_parameters run_session))) run_session) (Some (generate_refresh_token (replicate 32 1))) 100 = Inr x"
    using session(3) by (simp add: build_token_response_def run_provider_def signing_key_alg_def sign_with_def new_header_def)
  then show ?thesis
    by (simp add: run_actions refresh_call_def token_endpoint_def run_authenticated run_dpop refresh_token_grant_def r ne ms_find_token_by_refresh_token_def
        ms_token_info_def oa_handle_def validate_refresh_def grants session compare_client_auth_def ms_rotate_token_def Let_def)
qed

definition run_calls :: "oauth_call list \<Rightarrow> oauth_call list" where
  "run_calls later =
     [PushRequest run_credentials run_par (run_proof ''1'') 100 100000 (replicate 16 0),
      Accept run_client (run_request_uri (replicate 16 0)) ''dev'' ''did'' (DeviceProof ''ses'') None 100 (replicate 32 0),
      code_call ''2'' (replicate 32 0) (replicate 16 0) (replicate 32 0)] @ later"

definition run_middle :: "memory_state provider_state" where
  "run_middle = \<lparr>ps_store = run_store\<lparr>ms_tokens := [(generate_token_id (replicate 16 0), run_session, Some (generate_refresh_token (replicate 32 0)))],
     ms_token_order := [generate_token_id (replicate 16 0)]\<rparr>, ps_seen = run_seen [''2'', ''1'']\<rparr>"

lemma run_prefix:
  "\<exists>x y z. oauth_run run_provider (run_calls later) run_start = Inr x # Inr y # Inr z # oauth_run run_provider later run_middle"
  "oauth_after run_provider (run_calls later) run_start = oauth_after run_provider later run_middle"
  using run_push run_accept[of "run_seen [''1'']"] run_code by (auto simp: run_calls_def run_middle_def)

lemma run_outcomes:
  "\<exists>x. oauth_run run_provider (run_calls later) run_start ! 2 = Inr x"
  "oauth_run run_provider (run_calls later) run_start ! 3 = oauth_run run_provider later run_middle ! 0"
  "oauth_run run_provider (run_calls later) run_start ! 4 = oauth_run run_provider later run_middle ! 1"
  using run_prefix(1)[of later] by (auto simp: numeral_eq_Suc)

lemma run_no_sessions: "no_sessions (ps_store run_start)"
  by (simp add: no_sessions_def run_start_def new_memory_store_def)

lemma generated_ids_differ:
  "generate_token_id a \<noteq> generate_refresh_token b" "generate_token_id a \<noteq> generate_code b" "generate_token_id a \<noteq> generate_request_id b"
  "generate_refresh_token a \<noteq> generate_code b" "generate_refresh_token a \<noteq> generate_request_id b" "generate_code a \<noteq> generate_request_id b"
  by (simp_all add: generate_token_id_def generate_refresh_token_def generate_code_def generate_request_id_def random_hex_id_def
      TOKEN_ID_PREFIX_def REFRESH_TOKEN_PREFIX_def CODE_PREFIX_def REQUEST_ID_PREFIX_def)

lemma hex_digit_inj: "n < 16 \<Longrightarrow> m < 16 \<Longrightarrow> hex_digit n = hex_digit m \<longleftrightarrow> n = m"
  unfolding hex_digit_def by (rule nth_eq_iff_index_eq) simp_all

lemma hex_encode_Cons: "hex_encode (b # bs) = hex_digit (unat b div 16) # hex_digit (unat b mod 16) # hex_encode bs"
  by (simp add: hex_encode_def)

lemma hex_encode_inj: "hex_encode bs = hex_encode cs \<longleftrightarrow> bs = cs"
proof (induction bs arbitrary: cs)
  case Nil
  then show ?case by (cases cs) (simp_all add: hex_encode_Cons, simp add: hex_encode_def)
next
  case (Cons b bs)
  have byte: "unat b div 16 = unat c div 16 \<and> unat b mod 16 = unat c mod 16 \<longleftrightarrow> b = c" for c
    by (metis div_mult_mod_eq word_unat_eq_iff)
  have "unat c div 16 < 16" for c :: "8 word" 
  proof -
    have "unat c < 256" using unsigned_less[of c] by simp
    then show ?thesis by simp
  qed
  then show ?case using Cons.IH byte by (cases cs) (auto simp: hex_encode_Cons hex_digit_inj, auto simp: hex_encode_def)
qed

lemma generated_ids_inj:
  "generate_token_id a = generate_token_id b \<longleftrightarrow> a = b" "generate_refresh_token a = generate_refresh_token b \<longleftrightarrow> a = b"
  by (simp_all add: generate_token_id_def generate_refresh_token_def random_hex_id_def hex_encode_inj)

section \<open>Properties\<close>

text \<open>C16. A refresh token is redeemed once: of two token requests of a run that present it, the second is refused when the first was served.\<close>

theorem refresh_token_redeemed_once:
  assumes "pv_store P = memory_oauth_store" "no_sessions (ps_store st)" "distinct (drawn_in calls)"
    "i < j" "j < length calls" "refreshes r (calls ! i)" "refreshes r (calls ! j)" "oauth_run P calls st ! i = Inr x"
  shows "\<exists>e. oauth_run P calls st ! j = Inl e"
  using memory.refresh_once[OF memory_starts[OF assms(1-3)] assms(4-7)] assms(8) by (auto simp: isl_def)

text \<open>C17. An authorization code is redeemed once.\<close>

theorem authorization_code_redeemed_once:
  assumes "pv_store P = memory_oauth_store" "no_sessions (ps_store st)" "distinct (drawn_in calls)"
    "i < j" "j < length calls" "redeems code (calls ! i)" "redeems code (calls ! j)" "oauth_run P calls st ! i = Inr x"
  shows "\<exists>e. oauth_run P calls st ! j = Inl e"
  using memory.code_once[OF memory_starts[OF assms(1-3)] assms(4-7)] assms(8) by (auto simp: isl_def)



text \<open>C20. What an accepted access token stands for: a session of its account that has not expired, at most an hour after the end of the lifetime
  the session has, with the scope \<open>atproto\<close>, and a proof with the key the session is bound to.\<close>

theorem verified_access_bounded:
  assumes "pv_store P = memory_oauth_store" "no_sessions (ps_store st)" "distinct (drawn_in calls)" "i < length calls"
    "calls ! i = VerifyAccess token dpop now ms" "oauth_run P calls st ! i = Inr (Access va)"
  shows "\<exists>d r p. map_of (ms_tokens (ps_store (oauth_after P (take i calls) st))) (va_token_id va) = Some (d, r) \<and>
    td_did d = va_did va \<and> now < td_created_at d + session_lifetime d (is_trusted_client P (td_client_id d)) + TOKEN_MAX_AGE \<and>
    va_scopes va = split_ascii_whitespace (granted_scope d) \<and> SCOPE_ATPROTO \<in> set (va_scopes va) \<and>
    fst (dpop_check P dpop None now ms (oauth_after P (take i calls) st)) = Inr (Some p) \<and> ap_dpop_jkt (td_parameters d) = Some (dp_jkt p)"
proof -
  let ?st = "oauth_after P (take i calls) st"
  note run = memory_starts[OF assms(1-3)]
  have ok: "memory_ok (ps_store ?st)" "lifetimes_ok (is_trusted_client P) (memory_view (ps_store ?st))"
    using memory.run_state_ok[OF run, of i] assms(4) by (simp_all add: memory.run_state_def)
  have "fst (verify_access_token P token dpop now ms ?st) = Inr va"
    using assms(6) by (auto simp: oauth_run_nth[OF assms(4)] assms(5) answer_def oa_bind_def split: sum.splits prod.splits)
  then obtain st' where va: "verify_access_token P token dpop now ms ?st = (Inr va, st')" by (metis prod.collapse)
  have "sees memory_ok memory_view ?st (memory_view (ps_store ?st))" using ok by (simp add: sees_def)
  from memory.verified_access[OF assms(1) this va] obtain d r p where d: "map_of (ms_tokens (ps_store ?st)) (va_token_id va) = Some (d, r)" "td_did d = va_did va"
    "now < td_expires_at d" "va_scopes va = split_ascii_whitespace (granted_scope d)" "SCOPE_ATPROTO \<in> set (va_scopes va)"
    "fst (dpop_check P dpop None now ms ?st) = Inr (Some p)" "ap_dpop_jkt (td_parameters d) = Some (dp_jkt p)" by auto
  moreover have "td_expires_at d \<le> td_updated_at d + TOKEN_MAX_AGE" "td_updated_at d \<le> td_created_at d + session_lifetime d (is_trusted_client P (td_client_id d))"
    using ok(2) d(1) by (auto simp: lifetimes_ok_def)
  ultimately show ?thesis by force
qed

text \<open>C22. A session that its account revoked stays revoked: no access token of it is accepted later in the run.\<close>

theorem revoked_session_stays_revoked:
  assumes "pv_store P = memory_oauth_store" "no_sessions (ps_store st)" "distinct (drawn_in calls)" "i < j" "j < length calls"
    "calls ! i = RevokeSession did t" "oauth_run P calls st ! i = Inr x"
  shows "\<nexists>va. oauth_run P calls st ! j = Inr (Access va) \<and> va_token_id va = t"
proof clarify
  fix va assume j: "oauth_run P calls st ! j = Inr (Access va)" "t = va_token_id va"
  let ?st = "oauth_after P (take j calls) st"
  note run = memory_starts[OF assms(1-3)]
  obtain token dpop now ms where c: "calls ! j = VerifyAccess token dpop now ms"
    using j(1) by (cases "calls ! j") (auto simp: oauth_run_nth[OF assms(5)] answer_def oa_bind_def split: sum.splits prod.splits)
  have "fst (verify_access_token P token dpop now ms ?st) = Inr va"
    using j(1) by (auto simp: oauth_run_nth[OF assms(5)] c answer_def oa_bind_def split: sum.splits prod.splits)
  then obtain st' where va: "verify_access_token P token dpop now ms ?st = (Inr va, st')" by (metis prod.collapse)
  have "sees memory_ok memory_view ?st (memory_view (ps_store ?st))" using memory.run_state_ok[OF run, of j] assms(5) by (simp add: sees_def)
  then have "map_of (ms_tokens (ps_store ?st)) (va_token_id va) \<noteq> None"
    by (rule memory.verified_access[OF assms(1) _ va]) simp
  moreover have "dead_token t (memory.run_state P calls st j)"
    using memory.stays_later(3)[OF run assms(4) _ assms(6)] assms(5,7) by simp
  ultimately show False by (auto simp: memory.run_state_def j(2))
qed

text \<open>C21. The provider does to requests and sessions what the session machine may do, in every run.\<close>

theorem provider_runs_session_machine:
  assumes "pv_store P = memory_oauth_store" "no_sessions (ps_store st)" "distinct (drawn_in calls)"
  shows "session_steps (is_trusted_client P) (memory_view (ps_store st), {}) (memory_view (ps_store (oauth_after P calls st)), set (drawn_in calls))"
  using memory.run_state_steps[OF memory_starts[OF assms], of 0 "length calls"] by (simp add: memory.run_state_def)

section \<open>Witnesses\<close>

definition code_replay :: "oauth_call list" where
  "code_replay = run_calls [code_call ''3'' (replicate 32 0) (replicate 16 1) (replicate 32 1)]"

definition refresh_replay :: "oauth_call list" where
  "refresh_replay = run_calls [refresh_call ''3'' (replicate 32 0) (replicate 16 1) (replicate 32 1), refresh_call ''4'' (replicate 32 0) (replicate 16 2) (replicate 32 2)]"

definition access_calls :: "oauth_call list" where
  "access_calls = run_calls [VerifyAccess ''..'' (run_proof ''3'') 100 100000]"

definition revoked_calls :: "oauth_call list" where
  "revoked_calls = run_calls [RevokeSession ''did'' (generate_token_id (replicate 16 0)), VerifyAccess ''..'' (run_proof ''3'') 100 100000]"

lemma replay_draws: "distinct (drawn_in code_replay)" "distinct (drawn_in refresh_replay)" "distinct (drawn_in access_calls)" "distinct (drawn_in revoked_calls)"
  by (simp_all add: code_replay_def refresh_replay_def access_calls_def revoked_calls_def run_calls_def code_call_def refresh_call_def
      generated_ids_differ generated_ids_differ[symmetric] generated_ids_inj)

lemma refresh_replay_served: "\<exists>x. oauth_run run_provider refresh_replay run_start ! 3 = Inr x"
  using run_refresh by (auto simp: refresh_replay_def run_outcomes run_middle_def)

theorem refresh_token_redeemed_once_witness:
  "(\<exists>x. oauth_run run_provider refresh_replay run_start ! 3 = Inr x) \<and> (\<exists>e. oauth_run run_provider refresh_replay run_start ! 4 = Inl e)"
proof -
  obtain x where x: "oauth_run run_provider refresh_replay run_start ! 3 = Inr x" using refresh_replay_served by blast
  have "\<exists>e. oauth_run run_provider refresh_replay run_start ! 4 = Inl e"
    by (rule refresh_token_redeemed_once[OF _ run_no_sessions replay_draws(2) _ _ _ _ x, where r = "generate_refresh_token (replicate 32 0)"])
      (simp_all add: refresh_replay_def run_calls_def refresh_call_def)
  with x show ?thesis by blast
qed

theorem authorization_code_redeemed_once_witness:
  "(\<exists>x. oauth_run run_provider code_replay run_start ! 2 = Inr x) \<and> (\<exists>e. oauth_run run_provider code_replay run_start ! 3 = Inl e)"
proof -
  obtain x where x: "oauth_run run_provider code_replay run_start ! 2 = Inr x" using run_outcomes(1) by (auto simp: code_replay_def)
  have "\<exists>e. oauth_run run_provider code_replay run_start ! 3 = Inl e"
    by (rule authorization_code_redeemed_once[OF _ run_no_sessions replay_draws(1) _ _ _ _ x, where code = "generate_code (replicate 32 0)"])
      (simp_all add: code_replay_def run_calls_def code_call_def)
  with x show ?thesis by blast
qed




lemma run_verify:
  "\<exists>va. oauth_run run_provider [VerifyAccess ''..'' (run_proof ''3'') 100 100000] run_middle = [Inr (Access va)]"
proof -
  have "is_token_id (generate_token_id (replicate 16 0))" by (rule generated_ids_recognised(2)) (simp add: TOKEN_ID_BYTES_LENGTH_def)
  then have claims: "access_claims_of run_provider ''..'' 100 = Inr (generate_token_id (replicate 16 0), ''did'', run_jkt)"
    by (simp add: access_claims_of_def verify_with_def jwt_decode_def decode_json_part_def run_provider_def run_ext_def new_header_def run_access_def no_claims_def
        validate_typ_def validate_time_def validate_iss_def validate_aud_def saturating_add_def u64_max_def DEFAULT_CLOCK_SKEW_def confirmed_jkt_def Let_def)
  have "replay_key None ''3'' \<noteq> replay_key (Some run_client) j" for j by (simp add: replay_key_def dpop_replay_namespace_def)
  then have "fst (replay_unique 100000 (dpop_replay_namespace None) ''3'' (DPOP_NONCE_MAX_AGE * 1000) (run_seen [''2'', ''1'']))"
    by (simp add: replay_unique_def Let_def run_seen_def replay_key_def)
  then have dpop: "\<exists>st. dpop_check run_provider (run_proof ''3'') None 100 100000 run_middle =
      (Inr (Some \<lparr>dp_jti = ''3'', dp_jkt = run_jkt, dp_htm = ''POST'', dp_htu = ''u''\<rparr>), st)"
    by (simp add: dpop_check_def on_seen_def check_proof_cases run_checked run_middle_def run_provider_def[THEN arg_cong[of _ _ pv_nonce]])
  have session: "td_did run_session = ''did''" "ap_dpop_jkt (td_parameters run_session) = Some run_jkt" "td_expires_at run_session = 3700"
    "granted_scope run_session = SCOPE_ATPROTO"
    by (simp_all add: run_session_def new_token_data_def granted_scope_def TOKEN_MAX_AGE_def)
  have scope: "SCOPE_ATPROTO \<in> set (split_ascii_whitespace SCOPE_ATPROTO)" by code_simp
  have read: "on_store (os_read_token memory_oauth_store (generate_token_id (replicate 16 0))) run_middle =
      (Inr (Some \<lparr>ti_token_id = generate_token_id (replicate 16 0), ti_data = run_session, ti_current_refresh_token = Some (generate_refresh_token (replicate 32 0))\<rparr>), run_middle)"
    by (simp add: on_store_def memory_oauth_store_def ms_read_token_def ms_token_info_def run_middle_def)
  show ?thesis using dpop
    by (auto simp: oauth_serve.simps answer_def oa_bind_def verify_access_token_def claims read session scope Let_def)
qed

theorem verified_access_bounded_witness:
  "\<exists>va d r. oauth_run run_provider access_calls run_start ! 3 = Inr (Access va) \<and>
     map_of (ms_tokens (ps_store (oauth_after run_provider (take 3 access_calls) run_start))) (va_token_id va) = Some (d, r) \<and> td_did d = va_did va"
proof -
  obtain va where va: "oauth_run run_provider access_calls run_start ! 3 = Inr (Access va)"
    using run_verify unfolding access_calls_def run_outcomes by auto
  have "\<exists>d r p. map_of (ms_tokens (ps_store (oauth_after run_provider (take 3 access_calls) run_start))) (va_token_id va) = Some (d, r) \<and>
    td_did d = va_did va \<and> 100 < td_created_at d + session_lifetime d (is_trusted_client run_provider (td_client_id d)) + TOKEN_MAX_AGE \<and>
    va_scopes va = split_ascii_whitespace (granted_scope d) \<and> SCOPE_ATPROTO \<in> set (va_scopes va) \<and>
    fst (dpop_check run_provider (run_proof ''3'') None 100 100000 (oauth_after run_provider (take 3 access_calls) run_start)) = Inr (Some p) \<and>
    ap_dpop_jkt (td_parameters d) = Some (dp_jkt p)"
    by (rule verified_access_bounded[OF _ run_no_sessions replay_draws(3) _ _ va]) (simp_all add: access_calls_def run_calls_def)
  with va show ?thesis by blast
qed

theorem revoked_session_stays_revoked_witness:
  "(\<exists>x. oauth_run run_provider revoked_calls run_start ! 3 = Inr x) \<and>
   (\<nexists>va. oauth_run run_provider revoked_calls run_start ! 4 = Inr (Access va) \<and> va_token_id va = generate_token_id (replicate 16 0))"
proof -
  have "td_did run_session = ''did''" by (simp add: run_session_def new_token_data_def)
  then have "\<exists>x. oauth_run run_provider revoked_calls run_start ! 3 = Inr x"
    by (simp add: revoked_calls_def run_outcomes run_actions revoke_account_token_def run_middle_def ms_read_token_def ms_token_info_def ms_delete_token_def)
  then obtain x where x: "oauth_run run_provider revoked_calls run_start ! 3 = Inr x" by blast
  have "\<nexists>va. oauth_run run_provider revoked_calls run_start ! 4 = Inr (Access va) \<and> va_token_id va = generate_token_id (replicate 16 0)"
    by (rule revoked_session_stays_revoked[OF _ run_no_sessions replay_draws(4) _ _ _ x, where did = "''did''"]) (simp_all add: revoked_calls_def run_calls_def)
  with x show ?thesis by blast
qed

theorem provider_runs_session_machine_witness:
  "session_steps (is_trusted_client run_provider) (memory_view (ps_store run_start), {})
     (memory_view (ps_store (oauth_after run_provider refresh_replay run_start)), set (drawn_in refresh_replay))"
  by (rule provider_runs_session_machine[OF _ run_no_sessions replay_draws(2)]) simp

end
