(* ===== verification/Spec2Isabelle.thy ===== *)
theory Spec2Isabelle
  imports Syntax_Did Syntax_Handle Syntax_Nsid Syntax_Keys Common_Tid Mst_Properties Walk_Properties
    Block_Map Diff_Properties Syntax_AtUri Syntax_Datetime Repo_Properties Blob_Index Firehose_Properties Account_Properties
    Deletion_Properties Publication_Correct Oauth_Properties
begin

text \<open>
  A verification of the core of \<open>rsky\<close>, an implementation of the AT Protocol in Rust: the identifiers and the
  repository format that every part of it shares, and the personal data server (PDS) that keeps accounts and
  repositories and streams their changes.

  \<^bold>\<open>The parts and how they interact.\<close> A user's records are the leaves of a Merkle search tree (MST) whose nodes are
  content-addressed blocks; a commit signs the root of the tree. The PDS keeps, for every actor, an SQLite store with the
  blocks, an index of the records, the blobs they name and the events that are still to be published. A write
  forms a commit from the tree in that store and persists it, the index and the event in one transaction; the
  publisher hands the event to the sequencer, whose table the firehose outbox reads. Beside this stand the account database
  (accounts, sessions, invites, tokens), the OAuth provider that lets other applications act for an account, the admission list that says who may write, and the lifecycle journal that carries an
  account deletion and other unfinished work across restarts.

  \<^bold>\<open>Identifiers\<close> (\<open>rsky-syntax\<close>, \<open>rsky-common/src/tid.rs\<close>): \<open>Syntax_Did\<close>, \<open>Syntax_Handle\<close>, \<open>Syntax_Nsid\<close>, \<open>Syntax_Keys\<close>, \<open>Syntax_AtUri\<close>,
  \<open>Syntax_Datetime\<close>, \<open>Common_Tid\<close>, over \<open>Regex\<close> (a matcher by derivatives, proved equal to the language of the expression) and
  \<open>Captures\<close> (capture groups). They show which strings each validator accepts, that the pairs of validators agree or where they
  do not, that URIs and TIDs are read back as printed, and that the ticker never repeats or goes back.

  \<^bold>\<open>The tree\<close> (\<open>rsky-repo/src/mst\<close>, \<open>data_diff.rs\<close>, \<open>block_map.rs\<close>, \<open>cid_set.rs\<close>, \<open>storage\<close>): \<open>Mst_Node\<close> and \<open>Mst_Ops\<close> have nodes, entries,
  serialisation and the operations; \<open>Mst_Inv\<close> the invariant, kept by every operation in \<open>Mst_Correct\<close>, \<open>Mst_Add\<close> and \<open>Mst_Delete\<close>;
  \<open>Mst_Canonical\<close> that the leaves determine the tree, \<open>Mst_Map\<close> and \<open>Mst_Properties\<close> that the operations refine a map;
  \<open>Mst_Serial\<close>, \<open>Mst_Integrity\<close>, \<open>Mst_Blocks\<close> and \<open>Mst_Reload\<close> what is in blocks and comes back from them; \<open>Mst_Walk\<close> and \<open>Walk_Properties\<close> the
  walks and listings; \<open>Mst_Diff\<close>, \<open>Mst_Diff_Correct\<close> and \<open>Diff_Properties\<close> the comparison of two trees; \<open>Mst_Commit\<close> the blocks it reports;
  \<open>Mst_Proof\<close> saving and covering proofs; \<open>Block_Map\<close> the collections and the in-memory stores. Tree operations carry fuel
  that bounds the depth of the recursion. The layer of a key is half the number of leading zero bits of a 32-byte
  hash, so a tree has at most 128 layers above the lowest one and \<open>mst_fuel\<close>, 129, is enough: the theorems state success with it, or
  with all sufficiently large bounds for the loops over a whole tree. Hash functions and CBOR are parameters (\<open>ext\<close>, \<open>repo_env\<close>); a CID is
  its text.

  \<^bold>\<open>Repositories\<close> (\<open>rsky-repo/src/repo.rs\<close>, \<open>types.rs\<close>, \<open>util.rs\<close>, \<open>parse.rs\<close>, \<open>car.rs\<close>; \<open>rsky-lexicon/src/blob_refs.rs\<close>): \<open>Lex_Ipld\<close> and \<open>Repo_Types\<close>
  have the values and errors, \<open>Repo\<close> the forming and applying of commits, \<open>Repo_Correct\<close> and \<open>Repo_Properties\<close> that applying writes gives
  the records a map gives, that refused writes change nothing, and that a commit's blocks prove its writes. A store is a record of
  functions; the locale \<open>commit_store\<close> says what the proofs need of one and is interpreted on the in-memory store, and what the SQL store
  does differently is in \<open>Sql_Repo\<close>. \<open>Car\<close> has the container format's readers and writers.

  \<^bold>\<open>The actor store\<close> (\<open>rsky-pds/src/actor_store\<close>): \<open>Actor_Db\<close> has the tables, \<open>Sql_Repo\<close> blocks, roots and the paged export, \<open>Record_Index\<close> the index,
  \<open>Blob_Index\<close> blob references, journalled blob work and moderation, \<open>Actor_Store\<close> the transactor: admission, forming a commit, and the write
  transaction. A table is the list of its rows; a transaction that fails returns no store, which is the rollback.

  \<^bold>\<open>Events\<close> (\<open>rsky-pds/src/sequencer\<close>, \<open>publication.rs\<close>): \<open>Seq_Events\<close> forms events, \<open>Sequencer\<close> has their table, the poll loop and the outbox;
  \<open>Outbox_Correct\<close> and \<open>Firehose_Properties\<close> show, over all interleavings of writers, poller and subscriber, that a subscriber gets every
  event once and in order, and when it does not. \<open>Publication\<close> delivers the events that writes committed and \<open>Publication_Correct\<close> shows that
  each reaches the sequencer exactly once, whatever crashes come between.

  \<^bold>\<open>Accounts\<close> (\<open>rsky-pds/src/account_manager\<close>, \<open>admission.rs\<close>, \<open>lifecycle.rs\<close>): \<open>Admission\<close>, \<open>Session_Token\<close> (session tokens; signatures and JSON are the
  parameter \<open>jwt_ext\<close>), \<open>Account_Db\<close> (statements on the account database), \<open>Account_Manager\<close> (the requests), \<open>Account_Invariant\<close> (every request keeps the
  keys unique and invites within their bounds), \<open>Account_Properties\<close> (sessions, tokens, invites, takedowns). \<open>Lifecycle\<close> has the journal and the
  deletion of an account in steps; \<open>Deletion_Properties\<close> shows that an interrupted deletion completes, that the account stays closed
  meanwhile, and that watermarks only rise. \<open>rotate_refresh_token\<close> retries with fuel, as many turns as there are competing rotations.

  \<^bold>\<open>OAuth\<close> (\<open>rsky-oauth/src\<close>): \<open>Oauth_Types\<close> has errors, actions with a state that keep it when they fail, and the data; \<open>Oauth_Jwt\<close> keys and signed tokens;
  \<open>Oauth_Dpop\<close> proofs of possession, with when a proof is accepted once and when it is not; \<open>Oauth_Client\<close> clients, their metadata and the validation of
  requests; \<open>Oauth_Store\<close> the store trait as a record of functions and the in-memory store; \<open>Oauth_Contract\<close> a specification of the store over finite maps,
  the locale \<open>oauth_store_contract\<close>, interpreted on the in-memory store; \<open>Oauth_Provider\<close> every operation of the provider over any store.
  \<open>Oauth_Sessions\<close> is a state machine of requests and sessions with its invariant and the facts no step undoes; \<open>Oauth_Refine\<close> shows by weakest preconditions
  that each operation, on any store with the contract, takes steps of the machine; \<open>Oauth_Runs\<close> lifts that to sequences of calls, and \<open>Oauth_Properties\<close>
  states it for the in-memory store: codes and refresh tokens are redeemed once, a replay ends the session, access is bounded in time, and what is revoked stays so.
  The random identifiers of a run are assumed to differ, nothing more. URLs, JSON, base64, hashing and signatures are the parameter \<open>oauth_ext\<close>, and what clients publish is the parameter \<open>metadata_fetcher\<close>.

  \<^bold>\<open>Concurrency.\<close> Locks are modelled by what they protect: one transactor per actor at a time, one delivery per actor at a time.
  Interleavings are explicit in the relations \<open>firehose_step\<close>, \<open>deletion_attempt\<close> and \<open>publication_step\<close>, with a crash between any
  two moves that reach a disk.

  \<^bold>\<open>Not modelled.\<close> The SQL statements behind the OAuth store of the PDS, the permissioned spaces, the tools for moving accounts between deployments (frontier, drain,
  repair, convergence), the relay, the indexer, the feed generator, the labeler and the stream clients are programs of their own on top
  of the parts above and were left out for scope. HTTP routes, mail, metrics, images, network resolution, key files and
  directories are input and output. The lexicon catalogue is generated data. Cryptography, CBOR and JSON codecs, SQLite itself, chrono and
  the regex crate are not under \<open>src\<close>: what the code relies on of them is a parameter with named hypotheses, or, for SQL statements and
  regular expressions, modelled by what they mean.
\<close>

section \<open>Identifiers and repository keys\<close>

lemma rkey_char_mst: "rkey_char c \<longleftrightarrow> mst_key_char c"
  by (auto simp: rkey_char_def mst_key_char_def)

end
